(* ===== verification/Prelude.thy ===== *)
theory Prelude
  imports Main "HOL-Library.Word" "HOL-Library.AList" "HOL-Library.Multiset"
begin

text \<open>
  Shared vocabulary of the development: machine integers as naturals with their Rust operations
  (saturating, checked, wrapping), byte strings and 512-bit digests, hash maps as association
  lists, results as sums, and the list and map lemmas the components share.

  Integers. A \<open>u64\<close> or \<open>u128\<close> of the source is a \<open>nat\<close>; an operation that can leave the range is
  written with the Rust operation it uses: \<open>wadd64\<close> is the plain \<open>+\<close> of a release build, which
  wraps, \<open>sat_add64\<close> is \<open>saturating_add\<close>, \<open>checked_add128\<close> is \<open>checked_add\<close>.
  \<open>saturating_sub\<close> is subtraction on \<open>nat\<close>. Bit-level code uses words.

  Hash maps. \<open>HashMap\<close> and \<open>BTreeMap\<close> are association lists with distinct keys; the list order is
  the iteration order, which no theorem relies on.
\<close>

named_theorems rust_int \<open>definitions of the Rust integer operations\<close>
named_theorems res_simps \<open>when a chain of checks returns a value\<close>
named_theorems hmap_simps \<open>lookup, insertion and removal on association lists\<close>

section \<open>Basic types\<close>

type_synonym hash = "512 word"
type_synonym bytes = "8 word list"
type_synonym address = string
type_synonym 'a result = "string + 'a"
type_synonym ('k, 'v) hmap = "('k \<times> 'v) list"

abbreviation Ok :: "'a \<Rightarrow> 'a result" where "Ok \<equiv> Inr"
abbreviation Err :: "string \<Rightarrow> 'a result" where "Err \<equiv> Inl"

definition is_ok :: "'a result \<Rightarrow> bool" where
  "is_ok r = (case r of Inl _ \<Rightarrow> False | Inr _ \<Rightarrow> True)"

lemma is_ok_simps [simp]: "is_ok (Inr x)" "\<not> is_ok (Inl e)"
  by (simp_all add: is_ok_def)

lemma is_okE: "is_ok r \<Longrightarrow> (\<And>x. r = Inr x \<Longrightarrow> P) \<Longrightarrow> P"
  by (cases r) auto

text \<open>
  Early returns: a chain of guards, \<open>ok_or(...)?\<close> and \<open>?\<close> returns a value exactly when every step
  passes. The rules turn such an equation into the conjunction of its checks.
\<close>

lemma guard_Ok [res_simps]: "((if c then Inl e else k) = Inr x) = (\<not> c \<and> k = Inr x)"
  by simp

lemma guard_Ok' [res_simps]: "((if c then k else Inl e) = Inr x) = (c \<and> k = Inr x)"
  by simp

lemma question_Ok [res_simps]:
  "((case r of Inl e \<Rightarrow> Inl (g e) | Inr y \<Rightarrow> f y) = Inr x) = (\<exists>y. r = Inr y \<and> f y = Inr x)"
  by (cases r) auto

lemma ok_or_Ok [res_simps]:
  "((case m of None \<Rightarrow> Inl e | Some y \<Rightarrow> f y) = Inr x) = (\<exists>y. m = Some y \<and> f y = Inr x)"
  by (cases m) auto

text \<open>A loop \<open>for x in xs { ...? }\<close>: the state is threaded and the first error leaves it.\<close>

fun fold_res :: "('x \<Rightarrow> 's \<Rightarrow> 's result) \<Rightarrow> 'x list \<Rightarrow> 's \<Rightarrow> 's result" where
  "fold_res f [] s = Inr s"
| "fold_res f (x # xs) s = (case f x s of Inl e \<Rightarrow> Inl e | Inr s' \<Rightarrow> fold_res f xs s')"

lemma fold_res_invariant:
  assumes "fold_res f xs s = Inr s'" and "I s"
    and "\<And>x s s'. x \<in> set xs \<Longrightarrow> I s \<Longrightarrow> f x s = Inr s' \<Longrightarrow> I s'"
  shows "I s'"
  using assms
proof (induction xs arbitrary: s)
  case (Cons x xs)
  then obtain s1 where s1: "f x s = Inr s1" "fold_res f xs s1 = Inr s'"
    by (auto split: sum.splits)
  show ?case
  proof (rule Cons.IH [OF s1(2)])
    show "I s1" using Cons.prems s1(1) by auto
    show "\<And>y t t'. y \<in> set xs \<Longrightarrow> I t \<Longrightarrow> f y t = Inr t' \<Longrightarrow> I t'"
      using Cons.prems(3) by (meson list.set_intros(2))
  qed
qed simp

lemma fold_res_append:
  "fold_res f (xs @ ys) s = (case fold_res f xs s of Inl e \<Rightarrow> Inl e | Inr s' \<Rightarrow> fold_res f ys s')"
  by (induction xs arbitrary: s) (auto split: sum.splits)

section \<open>Machine integers\<close>

abbreviation u32_max :: nat where "u32_max \<equiv> 2 ^ 32 - 1"
abbreviation u64_max :: nat where "u64_max \<equiv> 2 ^ 64 - 1"
abbreviation u128_max :: nat where "u128_max \<equiv> 2 ^ 128 - 1"

definition wadd64 :: "nat \<Rightarrow> nat \<Rightarrow> nat" where
  [rust_int]: "wadd64 a b = (a + b) mod 2 ^ 64"

definition sat_add64 :: "nat \<Rightarrow> nat \<Rightarrow> nat" where
  [rust_int]: "sat_add64 a b = min (a + b) u64_max"

definition sat_mul64 :: "nat \<Rightarrow> nat \<Rightarrow> nat" where
  [rust_int]: "sat_mul64 a b = min (a * b) u64_max"

definition sat_add128 :: "nat \<Rightarrow> nat \<Rightarrow> nat" where
  [rust_int]: "sat_add128 a b = min (a + b) u128_max"

definition sat_mul128 :: "nat \<Rightarrow> nat \<Rightarrow> nat" where
  [rust_int]: "sat_mul128 a b = min (a * b) u128_max"

definition checked_add128 :: "nat \<Rightarrow> nat \<Rightarrow> nat option" where
  [rust_int]: "checked_add128 a b = (if a + b \<le> u128_max then Some (a + b) else None)"

definition as_u64 :: "nat \<Rightarrow> nat" where
  [rust_int]: "as_u64 x = x mod 2 ^ 64"

definition clamp_nat :: "nat \<Rightarrow> nat \<Rightarrow> nat \<Rightarrow> nat" where
  \<comment> \<open>\<open>Ord::clamp\<close>; it panics when \<open>lo > hi\<close>, and each use shows \<open>lo \<le> hi\<close>\<close>
  [rust_int]: "clamp_nat x lo hi = (if x < lo then lo else if x > hi then hi else x)"

lemma wadd64_exact: "a + b < 2 ^ 64 \<Longrightarrow> wadd64 a b = a + b"
  by (simp add: wadd64_def)

lemma as_u64_exact: "x < 2 ^ 64 \<Longrightarrow> as_u64 x = x"
  by (simp add: as_u64_def)

lemma sat_mul64_exact: "a * b < 2 ^ 64 \<Longrightarrow> sat_mul64 a b = a * b"
  by (simp add: sat_mul64_def)

lemma checked_add128_Some: "checked_add128 a b = Some c \<longleftrightarrow> c = a + b \<and> a + b \<le> u128_max"
  by (auto simp: checked_add128_def)

lemma clamp_nat_bounds: "lo \<le> hi \<Longrightarrow> lo \<le> clamp_nat x lo hi \<and> clamp_nat x lo hi \<le> hi"
  by (auto simp: clamp_nat_def)

section \<open>Hash maps as association lists\<close>

abbreviation hget :: "('k, 'v) hmap \<Rightarrow> 'k \<Rightarrow> 'v option" where "hget \<equiv> map_of"
abbreviation hput :: "'k \<Rightarrow> 'v \<Rightarrow> ('k, 'v) hmap \<Rightarrow> ('k, 'v) hmap" where "hput \<equiv> AList.update"
abbreviation hdel :: "'k \<Rightarrow> ('k, 'v) hmap \<Rightarrow> ('k, 'v) hmap" where "hdel \<equiv> AList.delete"
abbreviation hkeys :: "('k, 'v) hmap \<Rightarrow> 'k list" where "hkeys m \<equiv> map fst m"

definition hmap_ok :: "('k, 'v) hmap \<Rightarrow> bool" where
  "hmap_ok m = distinct (hkeys m)"

definition hhas :: "('k, 'v) hmap \<Rightarrow> 'k \<Rightarrow> bool" where
  "hhas m k = (hget m k \<noteq> None)"

definition hidx :: "('k, 'v) hmap \<Rightarrow> 'k \<Rightarrow> 'v" where
  \<comment> \<open>\<open>m[&k]\<close>: panics on a missing key; the components prove the key present\<close>
  "hidx m k = the (hget m k)"

definition hget_or :: "'v \<Rightarrow> ('k, 'v) hmap \<Rightarrow> 'k \<Rightarrow> 'v" where
  \<comment> \<open>\<open>m.get(k).unwrap_or(d)\<close>, and the value \<open>entry(k).or_insert(d)\<close> refers to\<close>
  "hget_or d m k = (case hget m k of None \<Rightarrow> d | Some v \<Rightarrow> v)"

definition hretain :: "('k \<Rightarrow> 'v \<Rightarrow> bool) \<Rightarrow> ('k, 'v) hmap \<Rightarrow> ('k, 'v) hmap" where
  "hretain p m = filter (\<lambda>(k, v). p k v) m"

definition hmap_values :: "('v \<Rightarrow> 'w) \<Rightarrow> ('k, 'v) hmap \<Rightarrow> ('k, 'w) hmap" where
  \<comment> \<open>\<open>for v in m.values_mut() { ... }\<close>\<close>
  "hmap_values f m = map (\<lambda>(k, v). (k, f v)) m"

lemma hget_hput [hmap_simps, simp]: "hget (hput k v m) k' = (if k = k' then Some v else hget m k')"
  by (simp add: update_conv')

lemma hget_hdel [hmap_simps, simp]: "hget (hdel k m) k' = (if k = k' then None else hget m k')"
  by (simp add: delete_conv')

lemma hget_hmap_values [hmap_simps, simp]: "hget (hmap_values f m) k = map_option f (hget m k)"
  by (induction m) (auto simp: hmap_values_def)

lemma hget_hretain [hmap_simps]:
  "hmap_ok m \<Longrightarrow> hget (hretain p m) k =
     (case hget m k of None \<Rightarrow> None | Some v \<Rightarrow> if p k v then Some v else None)"
proof (induction m)
  case (Cons e m)
  obtain a b where e: "e = (a, b)" by (cases e)
  show ?case
  proof (cases "a = k")
    case True
    with Cons.prems e have "hget m k = None"
      by (simp add: hmap_ok_def map_of_eq_None_iff)
    moreover have "hmap_ok m" using Cons.prems by (simp add: hmap_ok_def)
    ultimately show ?thesis using Cons.IH True e by (auto simp: hretain_def)
  next
    case False
    with Cons e show ?thesis by (auto simp: hretain_def hmap_ok_def split: option.splits)
  qed
qed (simp add: hretain_def)

lemma hmap_ok_Nil [simp]: "hmap_ok []"
  by (simp add: hmap_ok_def)

lemma hmap_ok_hput [simp, intro]: "hmap_ok m \<Longrightarrow> hmap_ok (hput k v m)"
  by (simp add: hmap_ok_def distinct_update)

lemma hmap_ok_hdel [simp, intro]: "hmap_ok m \<Longrightarrow> hmap_ok (hdel k m)"
  by (simp add: hmap_ok_def distinct_delete)

lemma hmap_ok_hretain [simp, intro]: "hmap_ok m \<Longrightarrow> hmap_ok (hretain p m)"
  by (auto simp: hmap_ok_def hretain_def distinct_map_filter)

lemma hmap_ok_hmap_values [simp]: "hmap_ok (hmap_values f m) = hmap_ok m"
proof -
  have "hkeys (hmap_values f m) = hkeys m" by (induction m) (auto simp: hmap_values_def)
  then show ?thesis by (simp add: hmap_ok_def)
qed

lemma hhas_iff: "hhas m k \<longleftrightarrow> k \<in> set (hkeys m)"
  by (auto simp: hhas_def map_of_eq_None_iff)

lemma hhas_Some: "hget m k = Some v \<Longrightarrow> hhas m k"
  by (simp add: hhas_def)

lemma hhasE: "hhas m k \<Longrightarrow> (\<And>v. hget m k = Some v \<Longrightarrow> P) \<Longrightarrow> P"
  by (auto simp: hhas_def)

lemma hhas_hput [hmap_simps, simp]: "hhas (hput k v m) k' \<longleftrightarrow> k = k' \<or> hhas m k'"
  by (simp add: hhas_def)

lemma hhas_hdel [hmap_simps, simp]: "hhas (hdel k m) k' \<longleftrightarrow> k \<noteq> k' \<and> hhas m k'"
  by (simp add: hhas_def)

lemma hhas_hmap_values [hmap_simps, simp]: "hhas (hmap_values f m) k = hhas m k"
  by (simp add: hhas_def)

lemma hhas_hretain [hmap_simps]:
  "hmap_ok m \<Longrightarrow> hhas (hretain p m) k \<longleftrightarrow> (\<exists>v. hget m k = Some v \<and> p k v)"
  by (auto simp: hhas_def hget_hretain split: option.splits)

lemma hidx_hput [hmap_simps, simp]: "hidx (hput k v m) k' = (if k = k' then v else hidx m k')"
  by (simp add: hidx_def)

lemma hget_or_hput [hmap_simps, simp]:
  "hget_or d (hput k v m) k' = (if k = k' then v else hget_or d m k')"
  by (simp add: hget_or_def)

lemma hget_hidx: "hhas m k \<Longrightarrow> hget m k = Some (hidx m k)"
  by (auto simp: hhas_def hidx_def)

lemma set_hkeys_hput: "set (hkeys (hput k v m)) = insert k (set (hkeys m))"
  by (simp add: dom_update)

lemma length_hput: "length (hput k v m) = (if hhas m k then length m else Suc (length m))"
  by (induction m) (auto simp: hhas_def)

lemma hkeys_hmap_values [simp]: "hkeys (hmap_values f m) = hkeys m"
  by (induction m) (auto simp: hmap_values_def)

lemma hidx_hmap_values: "hhas m k \<Longrightarrow> hidx (hmap_values f m) k = f (hidx m k)"
  by (auto simp: hhas_def hidx_def)

lemma hkeys_hput_old: "hhas nds h \<Longrightarrow> hkeys (hput h n nds) = hkeys nds"
  by (induction nds) (auto simp: hhas_def split: if_splits)

lemma length_hput_new: "\<not> hhas m k \<Longrightarrow> length (hput k v m) = Suc (length m)"
  by (simp add: length_hput)

section \<open>Sums over maps\<close>

definition hsum :: "('v \<Rightarrow> nat) \<Rightarrow> ('k, 'v) hmap \<Rightarrow> nat" where
  \<comment> \<open>\<open>m.values().map(f).sum()\<close>\<close>
  "hsum f m = sum_list (map (\<lambda>(k, v). f v) m)"

lemma hsum_Nil [simp]: "hsum f [] = 0"
  by (simp add: hsum_def)

lemma hsum_Cons [simp]: "hsum f ((k, v) # m) = f v + hsum f m"
  by (simp add: hsum_def)

lemma hsum_hput:
  "hmap_ok m \<Longrightarrow> hsum f (hput k v m) + (case hget m k of None \<Rightarrow> 0 | Some w \<Rightarrow> f w) = hsum f m + f v"
proof (induction m)
  case (Cons e m)
  obtain a b where e: "e = (a, b)" by (cases e)
  have ok: "hmap_ok m" using Cons.prems by (simp add: hmap_ok_def)
  show ?case
  proof (cases "a = k")
    case True
    then show ?thesis using e by simp
  next
    case False
    then show ?thesis using e Cons.IH [OF ok] by simp
  qed
qed simp

lemma hsum_hput_new: "hget m k = None \<Longrightarrow> hmap_ok m \<Longrightarrow> hsum f (hput k v m) = hsum f m + f v"
  using hsum_hput [of m f k v] by simp

lemma hsum_hput_old:
  "hget m k = Some w \<Longrightarrow> hmap_ok m \<Longrightarrow> hsum f (hput k v m) + f w = hsum f m + f v"
  using hsum_hput [of m f k v] by simp

lemma hsum_hdel:
  "hmap_ok m \<Longrightarrow> hget m k = Some w \<Longrightarrow> hsum f (hdel k m) + f w = hsum f m"
proof (induction m)
  case (Cons e m)
  obtain a b where e: "e = (a, b)" by (cases e)
  have ok: "hmap_ok m" using Cons.prems by (simp add: hmap_ok_def)
  show ?case
  proof (cases "a = k")
    case True
    have "k \<notin> set (hkeys m)" using Cons.prems(1) e True by (simp add: hmap_ok_def)
    then have "hdel k m = m" by (simp add: delete_idem)
    then show ?thesis using e True Cons.prems by simp
  next
    case False
    then show ?thesis using e Cons.IH [OF ok] Cons.prems by simp
  qed
qed simp

lemma hsum_ge: "hget m k = Some w \<Longrightarrow> f w \<le> hsum f m"
  by (induction m) (auto split: if_splits)

section \<open>Slices\<close>

definition partition_point :: "('a \<Rightarrow> bool) \<Rightarrow> 'a list \<Rightarrow> nat" where
  \<comment> \<open>\<open>slice::partition_point\<close>; each use shows that the slice is partitioned by the predicate\<close>
  "partition_point p xs = length (takeWhile p xs)"

definition list_insert_at :: "nat \<Rightarrow> 'a \<Rightarrow> 'a list \<Rightarrow> 'a list" where
  \<comment> \<open>\<open>Vec::insert\<close>\<close>
  "list_insert_at i x xs = take i xs @ x # drop i xs"

lemma partition_point_le: "partition_point p xs \<le> length xs"
  by (simp add: partition_point_def length_takeWhile_le)

lemma set_list_insert_at [simp]: "set (list_insert_at i x xs) = insert x (set xs)"
proof -
  have "set (take i xs) \<union> set (drop i xs) = set xs"
    by (metis append_take_drop_id set_append)
  then show ?thesis by (auto simp: list_insert_at_def)
qed

lemma takeWhile_sorted_last:
  assumes "sorted (map k xs)" and "x \<in> set xs" and "k x \<le> (t::nat)"
  shows "takeWhile (\<lambda>y. k y \<le> t) xs \<noteq> [] \<and> x \<in> set (takeWhile (\<lambda>y. k y \<le> t) xs)
    \<and> k x \<le> k (last (takeWhile (\<lambda>y. k y \<le> t) xs))"
  using assms
proof (induction xs)
  case (Cons a xs)
  have a: "k a \<le> t" using Cons.prems by (auto intro: order_trans)
  show ?case
  proof (cases "x \<in> set xs")
    case True
    then show ?thesis using Cons a by auto
  next
    case False
    then have "x = a" using Cons.prems(2) by simp
    moreover have "k a \<le> k (last (a # takeWhile (\<lambda>y. k y \<le> t) xs))"
      using Cons.prems(1) by (auto dest: set_takeWhileD last_in_set)
    ultimately show ?thesis using a by simp
  qed
qed simp

lemma partition_point_last:
  "partition_point p xs \<noteq> 0 \<Longrightarrow> xs ! (partition_point p xs - 1) = last (takeWhile p xs)"
proof -
  assume "partition_point p xs \<noteq> 0"
  then have ne: "takeWhile p xs \<noteq> []" by (auto simp: partition_point_def)
  then have "last (takeWhile p xs) = takeWhile p xs ! (length (takeWhile p xs) - 1)" by (rule last_conv_nth)
  also have "\<dots> = xs ! (length (takeWhile p xs) - 1)" using ne by (simp add: takeWhile_nth)
  finally show ?thesis by (simp add: partition_point_def)
qed

lemma sorted_insert_partition:
  fixes k :: "'a \<Rightarrow> nat"
  assumes "sorted (map k xs)"
  shows "sorted (map k (list_insert_at (partition_point (\<lambda>y. k y \<le> k x) xs) x xs))"
proof -
  define p where "p = (\<lambda>y. k y \<le> k x)"
  have eq: "list_insert_at (partition_point p xs) x xs = takeWhile p xs @ x # dropWhile p xs"
    by (simp add: list_insert_at_def partition_point_def takeWhile_eq_take [symmetric] dropWhile_eq_drop [symmetric])
  have s: "sorted (map k (takeWhile p xs))" "sorted (map k (dropWhile p xs))"
    using assms sorted_append [of "map k (takeWhile p xs)" "map k (dropWhile p xs)"]
    by (metis map_append takeWhile_dropWhile_id)+
  have lo: "k y \<le> k x" if "y \<in> set (takeWhile p xs)" for y using set_takeWhileD [OF that] by (simp add: p_def)
  have hi: "k x \<le> k y" if y: "y \<in> set (dropWhile p xs)" for y
  proof -
    obtain z zs where z: "dropWhile p xs = z # zs" using y by (metis list.set_cases)
    then have "\<not> p z" by (metis dropWhile_eq_Cons_conv)
    moreover have "k z \<le> k y" using y z s(2) by auto
    ultimately show ?thesis by (simp add: p_def)
  qed
  show ?thesis
    using s lo hi order_trans unfolding p_def [symmetric] eq by (fastforce simp: sorted_append)
qed

lemma distinct_list_insert_at:
  "distinct xs \<Longrightarrow> x \<notin> set xs \<Longrightarrow> distinct (list_insert_at i x xs)"
proof -
  assume d: "distinct xs" and x: "x \<notin> set xs"
  have "distinct (take i xs @ drop i xs)" using d by simp
  moreover have "x \<notin> set (take i xs)" "x \<notin> set (drop i xs)"
    using x by (meson in_set_takeD in_set_dropD)+
  ultimately show ?thesis unfolding list_insert_at_def by (simp del: append_take_drop_id)
qed

end
