(* ===== verification/Types.thy ===== *)
theory Types
  imports Prelude
begin

text \<open>
  The data of the node, one record or datatype per struct or enum of the source: spend predicates
  and witnesses (\<open>src/predicate.rs\<close>), outpoints and the UTXO set (\<open>src/utxo.rs\<close>), UTXO and account
  transfers, registry operations, titles and escrows (\<open>src/registry.rs\<close>), custody certificates
  (\<open>src/custody.rs\<close>), blocks, accounts and the ledger (\<open>src/lib.rs\<close>), GHOSTDAG data
  (\<open>src/ghostdag.rs\<close>). Field names carry a prefix where two structs share one.

  Third-party code is a parameter: the record \<open>env\<close> holds the Blake3 XOF, the ML-DSA-87 and SLH-DSA
  verifiers, the bincode serializers and the key sizes, and every definition that reaches one of
  them takes an \<open>env\<close>.
\<close>

section \<open>Spend predicates and witnesses\<close>

datatype predicate =
    PayToAddress address
  | HashLock hash
  | AbsoluteLock address nat
  | RelativeLock address nat
  | PAnd predicate predicate
  | POr predicate predicate
  | MultiSig nat "address list"
  | CreditAccount address
  | AnnulAfter address nat
  | ExactValue nat predicate
  | CommitData hash

datatype unlock_witness =
    WSignature
  | WPreimage bytes
  | WStack "unlock_witness list"
  | CosignerAddress address
  | CosignerSig bytes bytes

section \<open>Outpoints and the UTXO set\<close>

datatype out_point = OutPoint (txid: hash) (vout: "32 word")

instantiation out_point :: linorder
begin

definition less_eq_out_point :: "out_point \<Rightarrow> out_point \<Rightarrow> bool" where
  "less_eq_out_point a b \<longleftrightarrow> txid a < txid b \<or> (txid a = txid b \<and> vout a \<le> vout b)"

definition less_out_point :: "out_point \<Rightarrow> out_point \<Rightarrow> bool" where
  "less_out_point a b \<longleftrightarrow> txid a < txid b \<or> (txid a = txid b \<and> vout a < vout b)"

instance
  by standard (auto simp: less_eq_out_point_def less_out_point_def out_point.expand)

end

record tx_out =
  o_value :: nat
  o_predicate :: predicate
  created_blue :: nat

record tx_in =
  previous :: out_point
  in_relative_lock_blues :: nat
  witness :: unlock_witness

record utxo_set =
  entries :: "(out_point, tx_out) hmap"
  spent :: "out_point list"

record utxo_tx =
  inputs :: "tx_in list"
  outputs :: "tx_out list"
  u_lock_blue_score :: nat
  u_fee :: nat
  u_chain_id :: nat
  u_from_pubkey :: bytes
  u_signature :: bytes

record transparent_tx =
  t_from :: address
  t_from_pubkey :: bytes
  t_to :: address
  t_amount :: nat
  t_fee :: nat
  t_nonce :: nat
  t_chain_id :: nat
  t_lock_blue_score :: nat
  t_relative_lock_blues :: nat
  t_hashlock :: "hash option"
  t_hashlock_preimage :: bytes
  t_signature :: bytes

section \<open>Title registry and escrow\<close>

datatype asset_class = Vehicle | Loan | Stake | RealEstate | Generic

record title_event =
  ev_timestamp :: nat
  ev_block_height :: nat
  ev_settlement_id :: string
  ev_event :: string
  ev_from :: "address option"
  ev_to :: address
  ev_memo :: string

record title_deed =
  d_title_id :: hash
  d_asset_class :: asset_class
  d_description :: string
  current_owner :: address
  issued_at :: nat
  history :: "title_event list"
  d_escrow_id :: "hash option"
  lienholder :: "address option"

datatype escrow_status = Open | Funded | Released | Refunded | Disputed

record escrow_account =
  e_escrow_id :: hash
  e_buyer :: address
  e_seller :: address
  e_arbiter :: "address option"
  e_amount :: nat
  e_funded :: nat
  e_status :: escrow_status
  e_title_id :: "hash option"
  opened_at :: nat
  e_memo :: string
  e_timeout_blue :: nat

datatype registry_body =
    IssueTitle (it_owner: address) (it_class: asset_class) (it_description: string) (it_seed: hash)
  | TransferTitle (tt_title: hash) (tt_to: address) (tt_memo: string)
  | OpenEscrow (oe_buyer: address) (oe_seller: address) (oe_arbiter: "address option")
      (oe_amount: nat) (oe_title: "hash option") (oe_memo: string) (oe_seed: hash)
      (oe_timeout: nat)
  | FundEscrow (fe_escrow: hash) (fe_amount: nat)
  | ReleaseEscrow (re_escrow: hash)
  | RefundEscrow (rf_escrow: hash)
  | TimeoutClaimEscrow (tc_escrow: hash)

text \<open>
  Every variant of \<open>RegistryOp\<close> repeats the fields \<open>from_pubkey\<close>, \<open>nonce\<close>, \<open>chain_id\<close> and
  \<open>signature\<close>; the model holds them once, beside the variant.
\<close>

record registry_op =
  r_from_pubkey :: bytes
  r_body :: registry_body
  r_nonce :: nat
  r_chain_id :: nat
  r_signature :: bytes

record registry_state =
  titles :: "(hash, title_deed) hmap"
  escrows :: "(hash, escrow_account) hmap"

section \<open>Custody\<close>

datatype custody_kind = StakeLock | StakeUnlock | BridgeExit | BridgeEnter

record dual_signature =
  ds_scheme :: string
  ds_public_key_hex :: string
  ds_signature_hex :: string

record custody_certificate =
  cc_kind :: custody_kind
  cc_block_hash :: hash
  cc_settlement_id :: string
  cc_birth_certificate :: bytes
  cc_issuer_pubkey :: bytes
  cc_foreign_chain_id :: nat
  cc_amount :: nat
  cc_title_id :: "hash option"
  cc_owner :: address
  cc_nonce :: nat
  cc_chain_id :: nat
  cc_signature :: bytes
  cc_from_pubkey :: bytes
  cc_dual_signature :: "dual_signature option"

section \<open>Blocks, accounts, the ledger\<close>

record block =
  height :: nat
  timestamp :: nat
  parents :: "hash list"
  interlinks :: "hash list"
  transparent_txs :: "transparent_tx list"
  utxo_txs :: "utxo_tx list"
  registry_ops :: "registry_op list"
  custody_ops :: "custody_certificate list"
  b_merkle_root :: hash
  b_state_root :: hash
  miner :: hash
  creator_pubkey :: bytes
  b_nonce :: nat
  b_difficulty :: nat
  version :: "32 word"
  coinbase_entropy :: nat
  stark_proof :: bytes
  birth_certificate :: bytes
  b_size :: nat

record account =
  balance :: nat
  a_nonce :: nat
  last_spend_blue :: nat
  code_hash :: "hash option"
  storage_root :: hash

definition default_account :: account where
  "default_account = \<lparr>balance = 0, a_nonce = 0, last_spend_blue = 0, code_hash = None,
     storage_root = 0\<rparr>"

record ledger =
  accounts :: "(address, account) hmap"
  minted_supply :: nat
  fees_burned :: nat
  treasury :: nat
  registry :: registry_state
  staked :: "(address, nat) hmap"
  utxo :: utxo_set

section \<open>GHOSTDAG data\<close>

record ghostdag_data =
  blue_score :: nat
  selected_parent :: "hash option"
  mergeset_blues :: "hash list"
  mergeset_reds :: "hash list"

type_synonym dag_map = "(hash, block) hmap"
type_synonym ghostdag_map = "(hash, ghostdag_data) hmap"

section \<open>Third-party code\<close>

record env =
  blake3_512 :: "bytes \<Rightarrow> hash"
  mldsa_verify :: "bytes \<Rightarrow> bytes \<Rightarrow> bytes \<Rightarrow> bool"
  slhdsa_verify :: "bytes \<Rightarrow> bytes \<Rightarrow> bytes \<Rightarrow> bool"
  pk_len :: nat
  sig_len :: nat
  slh_pk_len :: nat
  slh_sig_len :: nat
  ser_predicate :: "predicate \<Rightarrow> bytes"
  ser_witness :: "unlock_witness \<Rightarrow> bytes"
  ser_utxo_tx :: "utxo_tx \<Rightarrow> bytes"
  ser_transparent_tx :: "transparent_tx \<Rightarrow> bytes"
  ser_registry_op :: "registry_op \<Rightarrow> bytes"
  ser_custody :: "custody_certificate \<Rightarrow> bytes"
  ser_block :: "block \<Rightarrow> bytes"
  hex_encode :: "bytes \<Rightarrow> string"
  hex_decode :: "string \<Rightarrow> bytes option"
  stark_verify :: "hash \<Rightarrow> bytes \<Rightarrow> bool"
  stark_parses :: "bytes \<Rightarrow> bool"

end
