(* ===== verification/Dag.thy ===== *)
theory Dag
  imports Types
begin

text \<open>
  The block DAG seen through parent edges: the ancestor relations the consensus code is about, the
  worklist searches over parent edges that \<open>src/reachability.rs\<close> (\<open>bfs_ancestors\<close>) and
  \<open>src/ghostdag.rs\<close> (\<open>mergeset\<close>) run, and the proof that they compute those relations.
\<close>

named_theorems dag_rel \<open>facts on parent edges and ancestors\<close>

definition dag_parents :: "dag_map \<Rightarrow> hash \<Rightarrow> hash list" where
  \<comment> \<open>\<open>dag.get(x).map(|b| b.parents.clone()).unwrap_or_default()\<close>\<close>
  "dag_parents dag x = (case hget dag x of None \<Rightarrow> [] | Some b \<Rightarrow> parents b)"

definition edge :: "dag_map \<Rightarrow> hash \<Rightarrow> hash \<Rightarrow> bool" where
  "edge dag a b \<longleftrightarrow> a \<in> set (dag_parents dag b)"

abbreviation anc :: "dag_map \<Rightarrow> hash \<Rightarrow> hash \<Rightarrow> bool" where
  \<comment> \<open>strict ancestors\<close>
  "anc dag \<equiv> (edge dag)\<^sup>+\<^sup>+"

abbreviation anc_incl :: "dag_map \<Rightarrow> hash \<Rightarrow> hash \<Rightarrow> bool" where
  "anc_incl dag \<equiv> (edge dag)\<^sup>*\<^sup>*"

lemma edge_hput [dag_rel]:
  "edge (hput h b dag) x y \<longleftrightarrow> (if y = h then x \<in> set (parents b) else edge dag x y)"
  by (simp add: edge_def dag_parents_def)

lemma anc_iff_parent: "anc dag a b \<longleftrightarrow> (\<exists>x\<in>set (dag_parents dag b). anc_incl dag a x)"
proof
  assume "anc dag a b"
  then show "\<exists>x\<in>set (dag_parents dag b). anc_incl dag a x"
    by (cases rule: tranclp.cases) (auto simp: edge_def intro: tranclp_into_rtranclp)
next
  assume "\<exists>x\<in>set (dag_parents dag b). anc_incl dag a x"
  then show "anc dag a b"
    by (auto simp: edge_def intro: rtranclp_into_tranclp1)
qed

lemma dag_parents_absent [simp]: "\<not> hhas dag x \<Longrightarrow> dag_parents dag x = []"
  by (simp add: dag_parents_def hhas_def split: option.splits)

section \<open>The two worklist loops\<close>

text \<open>
  A \<open>Vec\<close> used as a stack is a list whose head is the top; \<open>stack.extend(ps)\<close> pushes \<open>ps\<close> in order,
  so its last element is on top. A \<open>HashSet\<close> that is filled by \<open>insert\<close> is a list without
  duplicates.
\<close>

function bfs_loop :: "dag_map \<Rightarrow> hash list \<Rightarrow> hash list \<Rightarrow> hash list" where
  "bfs_loop dag [] seen = seen"
| "bfs_loop dag (x # st) seen =
     (if x \<in> set seen then bfs_loop dag st seen
      else bfs_loop dag (rev (dag_parents dag x) @ st) (x # seen))"
  by pat_completeness auto
termination
proof (relation "inv_image (finite_psubset <*lex*> less_than)
         (\<lambda>(dag, st, seen). (set (hkeys dag) - set seen, length st))", goal_cases)
  case (3 dag x st seen)
  show ?case
  proof (cases "hhas dag x")
    case True
    then have "set (hkeys dag) - set (x # seen) \<subset> set (hkeys dag) - set seen"
      using 3 by (auto simp: hhas_iff)
    then show ?thesis by (simp add: finite_psubset_def)
  next
    case False
    then have "set (hkeys dag) - set (x # seen) = set (hkeys dag) - set seen"
      by (auto simp: hhas_iff)
    then show ?thesis using False by simp
  qed
qed auto

function mergeset_loop :: "dag_map \<Rightarrow> hash set \<Rightarrow> hash list \<Rightarrow> hash list \<Rightarrow> hash list" where
  "mergeset_loop dag sp_past [] ms = ms"
| "mergeset_loop dag sp_past (x # st) ms =
     (if x \<in> sp_past \<or> x \<in> set ms then mergeset_loop dag sp_past st ms
      else mergeset_loop dag sp_past (rev (dag_parents dag x) @ st) (x # ms))"
  by pat_completeness auto
termination
proof (relation "inv_image (finite_psubset <*lex*> less_than)
         (\<lambda>(dag, sp, st, seen). (set (hkeys dag) - set seen, length st))", goal_cases)
  case (3 dag sp x st seen)
  show ?case
  proof (cases "hhas dag x")
    case True
    then have "set (hkeys dag) - set (x # seen) \<subset> set (hkeys dag) - set seen"
      using 3 by (auto simp: hhas_iff)
    then show ?thesis by (simp add: finite_psubset_def)
  next
    case False
    then have "set (hkeys dag) - set (x # seen) = set (hkeys dag) - set seen"
      by (auto simp: hhas_iff)
    then show ?thesis using False by simp
  qed
qed auto

lemma bfs_loop_mergeset_loop: "bfs_loop dag st seen = mergeset_loop dag {} st seen"
  by (induction dag st seen rule: bfs_loop.induct) auto

lemma mergeset_loop_distinct: "distinct ms \<Longrightarrow> distinct (mergeset_loop dag V st ms)"
  by (induction dag V st ms rule: mergeset_loop.induct) auto

lemma mergeset_loop_grows:
  "set ms \<subseteq> set (mergeset_loop dag V st ms) \<and> set st - V \<subseteq> set (mergeset_loop dag V st ms)"
proof (induction dag V st ms rule: mergeset_loop.induct)
  case (2 dag V x st ms)
  then show ?case by (cases "x \<in> V \<or> x \<in> set ms") auto
qed auto

lemma mergeset_loop_closed:
  assumes "\<forall>y\<in>set ms. set (dag_parents dag y) \<subseteq> set ms \<union> set st \<union> V"
  shows "\<forall>y\<in>set (mergeset_loop dag V st ms).
     set (dag_parents dag y) \<subseteq> set (mergeset_loop dag V st ms) \<union> V"
  using assms
proof (induction dag V st ms rule: mergeset_loop.induct)
  case (2 dag V x st ms)
  show ?case
  proof (cases "x \<in> V \<or> x \<in> set ms")
    case True
    with 2 show ?thesis by fastforce
  next
    case False
    have "\<forall>y\<in>set (x # ms). set (dag_parents dag y)
        \<subseteq> set (x # ms) \<union> set (rev (dag_parents dag x) @ st) \<union> V"
      using 2(3) by auto
    with 2(2) [OF False] False show ?thesis by simp
  qed
qed auto

lemma mergeset_loop_sound:
  assumes "\<forall>y. y \<in> V \<longrightarrow> set (dag_parents dag y) \<subseteq> V"
  shows "set (mergeset_loop dag V st ms)
     \<subseteq> set ms \<union> {a. a \<notin> V \<and> (\<exists>x\<in>set st. anc_incl dag a x)}"
  using assms
proof (induction dag V st ms rule: mergeset_loop.induct)
  case (2 dag V x st ms)
  show ?case
  proof (cases "x \<in> V \<or> x \<in> set ms")
    case True
    with 2 show ?thesis by fastforce
  next
    case False
    have "\<exists>y\<in>set (x # st). anc_incl dag a y"
      if "\<exists>y\<in>set (rev (dag_parents dag x) @ st). anc_incl dag a y" for a
      using that by (auto simp: edge_def intro: rtranclp.rtrancl_into_rtrancl)
    moreover have "set (mergeset_loop dag V (rev (dag_parents dag x) @ st) (x # ms)) \<subseteq>
        set (x # ms) \<union> {a. a \<notin> V \<and> (\<exists>y\<in>set (rev (dag_parents dag x) @ st). anc_incl dag a y)}"
      using 2(2) [OF False 2(3)] .
    moreover have "mergeset_loop dag V (x # st) ms =
        mergeset_loop dag V (rev (dag_parents dag x) @ st) (x # ms)"
      using False by simp
    ultimately show ?thesis using False by (fastforce simp del: mergeset_loop.simps)
  qed
qed auto

theorem mergeset_loop_set:
  assumes V: "\<forall>y. y \<in> V \<longrightarrow> set (dag_parents dag y) \<subseteq> V"
  shows "set (mergeset_loop dag V st []) = {a. a \<notin> V \<and> (\<exists>x\<in>set st. anc_incl dag a x)}"
    (is "?R = ?S")
proof
  show "?R \<subseteq> ?S" using mergeset_loop_sound [OF V, of st "[]"] by simp
  have closed: "\<forall>y\<in>?R. set (dag_parents dag y) \<subseteq> ?R \<union> V"
    by (rule mergeset_loop_closed) simp
  have "a \<in> ?R \<union> V" if "anc_incl dag a x" "x \<in> ?R \<union> V" for a x
    using that
  proof (induction rule: converse_rtranclp_induct)
    case (step y z)
    then have z: "z \<in> ?R \<union> V" by simp
    from step.hyps(1) have "y \<in> set (dag_parents dag z)" by (simp add: edge_def)
    with z closed V show ?case by blast
  qed
  then show "?S \<subseteq> ?R"
    using mergeset_loop_grows [of "[]" dag V st] by fastforce
qed

section \<open>Breadth-first ancestors\<close>

definition bfs_ancestors :: "dag_map \<Rightarrow> hash \<Rightarrow> hash list" where
  "bfs_ancestors dag b = bfs_loop dag (rev (dag_parents dag b)) []"

definition bfs_is_ancestor :: "dag_map \<Rightarrow> hash \<Rightarrow> hash \<Rightarrow> bool" where
  "bfs_is_ancestor dag a b = (a \<in> set (bfs_ancestors dag b))"

lemma set_bfs_ancestors: "set (bfs_ancestors dag b) = {a. anc dag a b}"
proof -
  have "set (bfs_ancestors dag b) = {a. \<exists>x\<in>set (dag_parents dag b). anc_incl dag a x}"
    by (simp add: bfs_ancestors_def bfs_loop_mergeset_loop mergeset_loop_set)
  then show ?thesis by (simp add: anc_iff_parent)
qed

lemma bfs_is_ancestor_iff [dag_rel]: "bfs_is_ancestor dag a b \<longleftrightarrow> anc dag a b"
  by (simp add: bfs_is_ancestor_def set_bfs_ancestors)

section \<open>Adding a block to a DAG\<close>

text \<open>
  A new block that no stored block cites: its ancestors are its parents and theirs, and the ancestors
  of the other blocks do not change.
\<close>

definition dag_fresh :: "dag_map \<Rightarrow> hash \<Rightarrow> bool" where
  "dag_fresh dag h \<longleftrightarrow> \<not> hhas dag h \<and> (\<forall>x. \<not> edge dag h x)"

lemma edge_fresh: "dag_fresh dag h \<Longrightarrow> edge dag x y \<Longrightarrow> x \<noteq> h \<and> y \<noteq> h"
  by (auto simp: dag_fresh_def edge_def)

lemma anc_incl_hput_old:
  assumes fresh: "dag_fresh dag h" and y: "y \<noteq> h" and h: "h \<notin> set (parents b)"
  shows "anc_incl (hput h b dag) x y \<longleftrightarrow> anc_incl dag x y"
proof
  assume "anc_incl (hput h b dag) x y"
  then have "anc_incl dag x y \<and> (x \<noteq> h)"
    using y
  proof (induction rule: converse_rtranclp_induct)
    case base
    then show ?case by simp
  next
    case (step a c)
    then have c: "anc_incl dag c y" "c \<noteq> h" by auto
    with step.hyps(1) have "edge dag a c" by (simp add: edge_hput)
    with c fresh show ?case by (auto dest: edge_fresh intro: converse_rtranclp_into_rtranclp)
  qed
  then show "anc_incl dag x y" ..
next
  assume "anc_incl dag x y"
  then show "anc_incl (hput h b dag) x y"
  proof (induction rule: converse_rtranclp_induct)
    case base
    then show ?case by simp
  next
    case (step a c)
    have "edge (hput h b dag) a c"
      using step.hyps(1) fresh by (auto simp: edge_hput dest: edge_fresh)
    with step.IH show ?case by (rule converse_rtranclp_into_rtranclp [rotated])
  qed
qed

lemma anc_incl_hput_new:
  assumes fresh: "dag_fresh dag h" and h: "h \<notin> set (parents b)"
  shows "anc_incl (hput h b dag) x h \<longleftrightarrow> x = h \<or> (\<exists>p\<in>set (parents b). anc_incl dag x p)"
proof
  assume "anc_incl (hput h b dag) x h"
  then show "x = h \<or> (\<exists>p\<in>set (parents b). anc_incl dag x p)"
  proof (cases rule: rtranclp.cases)
    case (rtrancl_into_rtrancl b')
    then have b': "b' \<in> set (parents b)" by (simp add: edge_hput)
    with h have "b' \<noteq> h" by auto
    then have "anc_incl dag x b'"
      using rtrancl_into_rtrancl anc_incl_hput_old [OF fresh _ h] by auto
    with b' show ?thesis by blast
  qed auto
next
  assume "x = h \<or> (\<exists>p\<in>set (parents b). anc_incl dag x p)"
  then show "anc_incl (hput h b dag) x h"
  proof
    assume "\<exists>p\<in>set (parents b). anc_incl dag x p"
    then obtain p where p: "p \<in> set (parents b)" "anc_incl dag x p" by blast
    have "p \<noteq> h" using p(1) h by auto
    with p(2) have "anc_incl (hput h b dag) x p" using anc_incl_hput_old [OF fresh _ h] by auto
    moreover have "edge (hput h b dag) p h" using p(1) by (simp add: edge_hput)
    ultimately show ?thesis by (rule rtranclp.rtrancl_into_rtrancl)
  qed simp
qed

definition dag_acyclic :: "dag_map \<Rightarrow> bool" where
  "dag_acyclic dag \<longleftrightarrow> (\<forall>a. \<not> anc dag a a)"

lemma anc_incl_anc: "dag_acyclic dag \<Longrightarrow> a \<noteq> b \<and> anc_incl dag a b \<longleftrightarrow> anc dag a b"
  by (metis dag_acyclic_def rtranclpD tranclp_into_rtranclp)

lemma dag_acyclic_hput:
  assumes "dag_acyclic dag" and fresh: "dag_fresh dag h" and h: "h \<notin> set (parents b)"
  shows "dag_acyclic (hput h b dag)"
  unfolding dag_acyclic_def
proof (intro allI notI)
  fix a
  assume cyc: "anc (hput h b dag) a a"
  then obtain x where x: "edge (hput h b dag) a x" "anc_incl (hput h b dag) x a"
    by (meson tranclpD)
  have ah: "a \<noteq> h"
  proof
    assume "a = h"
    with x(1) fresh h show False by (auto simp: edge_hput dest: edge_fresh split: if_splits)
  qed
  have xh: "x \<noteq> h"
  proof
    assume xh: "x = h"
    from x(2) ah xh obtain y where "edge (hput h b dag) h y" by (auto elim: converse_rtranclpE)
    with fresh h show False by (auto simp: edge_hput dest: edge_fresh split: if_splits)
  qed
  have "anc_incl dag x a" using anc_incl_hput_old [OF fresh ah h] x(2) by simp
  moreover have "edge dag a x" using x(1) xh by (simp add: edge_hput)
  ultimately have "anc dag a a" by (rule rtranclp_into_tranclp2 [rotated])
  with assms(1) show False by (simp add: dag_acyclic_def)
qed

section \<open>Keeping a future-closed set of blocks\<close>

lemma edge_hretain:
  assumes ok: "hmap_ok dag"
  shows "edge (hretain (\<lambda>h _. h \<in> keep) dag) x y \<longleftrightarrow> y \<in> keep \<and> edge dag x y"
  by (auto simp: edge_def dag_parents_def hget_hretain [OF ok] split: option.splits)

lemma anc_incl_hretain:
  assumes ok: "hmap_ok dag" and up: "\<And>a x. a \<in> keep \<Longrightarrow> edge dag a x \<Longrightarrow> x \<in> keep" and a: "a \<in> keep"
  shows "anc_incl (hretain (\<lambda>h _. h \<in> keep) dag) a b \<longleftrightarrow> anc_incl dag a b"
proof
  assume "anc_incl (hretain (\<lambda>h _. h \<in> keep) dag) a b"
  then show "anc_incl dag a b"
    by (rule rtranclp_mono [THEN predicate2D, rotated]) (auto simp: edge_hretain [OF ok])
next
  assume "anc_incl dag a b"
  then have "anc_incl (hretain (\<lambda>h _. h \<in> keep) dag) a b \<and> b \<in> keep"
  proof (induction rule: rtranclp_induct)
    case (step y z)
    then have z: "z \<in> keep" using up by blast
    then have "edge (hretain (\<lambda>h _. h \<in> keep) dag) y z" using step by (simp add: edge_hretain [OF ok])
    then show ?case using step z by (meson rtranclp.rtrancl_into_rtrancl)
  qed (use a in simp)
  then show "anc_incl (hretain (\<lambda>h _. h \<in> keep) dag) a b" ..
qed

end
