(* ===== verification/Reachability.thy ===== *)
theory Reachability
  imports Dag "HOL-Library.Monad_Syntax"
begin

text \<open>
  The reachability oracle of \<open>src/reachability.rs\<close>: a forest of selected-parent links labelled with
  nested integer intervals, and per block a future covering set that accounts for merged blocks.

  State: \<open>nodes\<close> and \<open>next_root_start\<close> as in the struct \<open>Reachability\<close>. Loops over an explicit stack that
  would run forever on a cyclic forest return an option, \<open>None\<close> for not returning. Indexing
  \<open>self.nodes[&h]\<close> is \<open>hidx\<close>; that every indexed key is present is part of the invariant \<open>forest_ok\<close> and
  \<open>fcs_ok\<close> of the theory \<open>Reachability_Correct\<close>, where the correctness proofs are.
\<close>

definition SCALE :: nat where "SCALE = 2 ^ 20"
definition SIBLING_RESERVE :: nat where "SIBLING_RESERVE = 64"
definition SPACE_START :: nat where "SPACE_START = 1"
definition SPACE_END :: nat where "SPACE_END = 2 ^ 62"

record interval =
  istart :: nat
  iend :: nat

definition contains :: "interval \<Rightarrow> interval \<Rightarrow> bool" where
  "contains a b \<longleftrightarrow> istart a \<le> istart b \<and> iend b \<le> iend a"

record node =
  n_interval :: interval
  tree_parent :: "hash option"
  tree_children :: "hash list"
  next_free :: nat
  fcs :: "hash list"

type_synonym node_map = "(hash, node) hmap"

record reachability =
  nodes :: node_map
  next_root_start :: nat

definition reach_new :: reachability where
  "reach_new = \<lparr>nodes = [], next_root_start = SPACE_START\<rparr>"

definition leaf_node :: "interval \<Rightarrow> hash option \<Rightarrow> node" where
  \<comment> \<open>the \<open>Node\<close> literal of \<open>insert_root\<close> and \<open>try_place_child\<close>\<close>
  "leaf_node iv p = \<lparr>n_interval = iv, tree_parent = p, tree_children = [], next_free = istart iv,
     fcs = []\<rparr>"

definition iv :: "node_map \<Rightarrow> hash \<Rightarrow> interval" where
  "iv nds h = n_interval (hidx nds h)"

section \<open>Queries\<close>

definition fcs_contains_cover :: "node_map \<Rightarrow> hash \<Rightarrow> interval \<Rightarrow> bool" where
  "fcs_contains_cover nds block target =
     (let f = fcs (hidx nds block);
          idx = partition_point (\<lambda>h. istart (iv nds h) \<le> istart target) f
      in if idx = 0 then False else contains (iv nds (f ! (idx - 1))) target)"

definition is_chain_ancestor_incl :: "node_map \<Rightarrow> hash \<Rightarrow> hash \<Rightarrow> bool" where
  "is_chain_ancestor_incl nds a b = contains (iv nds a) (iv nds b)"

definition is_dag_ancestor_incl :: "node_map \<Rightarrow> hash \<Rightarrow> hash \<Rightarrow> bool" where
  "is_dag_ancestor_incl nds a b =
     (if is_chain_ancestor_incl nds a b then True else fcs_contains_cover nds a (iv nds b))"

definition is_ancestor :: "reachability \<Rightarrow> hash \<Rightarrow> hash \<Rightarrow> dag_map \<Rightarrow> bool" where
  "is_ancestor r a b dag =
     (case (hget (nodes r) a, hget (nodes r) b) of
        (Some _, Some _) \<Rightarrow> a \<noteq> b \<and> is_dag_ancestor_incl (nodes r) a b
      | _ \<Rightarrow> bfs_is_ancestor dag a b)"

definition is_chain_ancestor :: "reachability \<Rightarrow> hash \<Rightarrow> hash \<Rightarrow> bool option" where
  "is_chain_ancestor r a b =
     (case (hget (nodes r) a, hget (nodes r) b) of
        (Some na, Some nb) \<Rightarrow> Some (contains (n_interval na) (n_interval nb))
      | _ \<Rightarrow> None)"

definition in_anticone :: "reachability \<Rightarrow> hash \<Rightarrow> hash \<Rightarrow> dag_map \<Rightarrow> bool" where
  "in_anticone r x y dag \<longleftrightarrow> x \<noteq> y \<and> \<not> is_ancestor r x y dag \<and> \<not> is_ancestor r y x dag"

section \<open>Reindexing the forest\<close>

definition forest_roots :: "node_map \<Rightarrow> hash list" where
  "forest_roots nds = map fst (filter (\<lambda>(h, n).
     case tree_parent n of None \<Rightarrow> True | Some p \<Rightarrow> \<not> hhas nds p) nds)"

partial_function (option) sizes_loop ::
  "node_map \<Rightarrow> (hash \<times> bool) list \<Rightarrow> (hash, nat) hmap \<Rightarrow> (hash, nat) hmap option" where
  "sizes_loop nds st sizes =
     (case st of
        [] \<Rightarrow> Some sizes
      | (n, processed) # st' \<Rightarrow>
          if processed
          then sizes_loop nds st'
                 (hput n (1 + sum_list (map (hidx sizes) (tree_children (hidx nds n)))) sizes)
          else sizes_loop nds
                 (rev (map (\<lambda>c. (c, False)) (tree_children (hidx nds n))) @ (n, True) # st') sizes)"

declare sizes_loop.simps [code]

definition subtree_sizes :: "node_map \<Rightarrow> (hash, nat) hmap option" where
  "subtree_sizes nds = sizes_loop nds (rev (map (\<lambda>r. (r, False)) (forest_roots nds))) []"

fun layout :: "(hash, nat) hmap \<Rightarrow> hash list \<Rightarrow> nat \<Rightarrow> (hash \<times> nat) list \<times> nat" where
  \<comment> \<open>give each hash a window from a cursor on; the windows in order and the final cursor\<close>
  "layout sizes [] cur = ([], cur)"
| "layout sizes (c # cs) cur =
     (let (ws, e) = layout sizes cs (wadd64 cur (sat_mul64 (hidx sizes c) SCALE))
      in ((c, cur) # ws, e))"

partial_function (option) window_loop ::
  "(hash, nat) hmap \<Rightarrow> (hash \<times> nat) list \<Rightarrow> node_map \<Rightarrow> node_map option" where
  "window_loop sizes st nds =
     (case st of
        [] \<Rightarrow> Some nds
      | (h, start) # st' \<Rightarrow>
          (let e = wadd64 start (sat_mul64 (hidx sizes h) SCALE) - 1;
               (ws, child_cursor) = layout sizes (tree_children (hidx nds h)) start
           in window_loop sizes (rev ws @ st')
                (hput h ((hidx nds h)\<lparr>n_interval := \<lparr>istart = start, iend = e\<rparr>,
                                     next_free := child_cursor\<rparr>) nds)))"

declare window_loop.simps [code]

definition resort_fcs :: "node_map \<Rightarrow> node_map" where
  "resort_fcs nds = hmap_values (\<lambda>n. n\<lparr>fcs := sort_key (\<lambda>h. istart (iv nds h)) (fcs n)\<rparr>) nds"

definition reindex_all :: "reachability \<Rightarrow> reachability option" where
  "reindex_all r =
     (case subtree_sizes (nodes r) of
        None \<Rightarrow> None
      | Some sizes \<Rightarrow>
          (let (ws, cursor) = layout sizes (forest_roots (nodes r)) SPACE_START
           in case window_loop sizes (rev ws) (nodes r) of
                None \<Rightarrow> None
              | Some nds \<Rightarrow> Some (r\<lparr>nodes := resort_fcs nds, next_root_start := cursor\<rparr>)))"

section \<open>Insertion\<close>

definition insert_root :: "reachability \<Rightarrow> hash \<Rightarrow> reachability option" where
  "insert_root r h =
     (case (if sat_add64 (next_root_start r) SCALE \<ge> SPACE_END then reindex_all r else Some r) of
        None \<Rightarrow> None
      | Some r1 \<Rightarrow>
          (let start = next_root_start r1; e = wadd64 start SCALE - 1
           in Some (r1\<lparr>next_root_start := wadd64 e 1,
                nodes := hput h (leaf_node \<lparr>istart = start, iend = e\<rparr> None) (nodes r1)\<rparr>)))"

definition try_place_child :: "reachability \<Rightarrow> hash \<Rightarrow> hash \<Rightarrow> reachability option" where
  \<comment> \<open>\<open>None\<close> is the answer \<open>false\<close>; the sums stay below the parent's \<open>end\<close>, so nothing wraps\<close>
  "try_place_child r parent h =
     (let p = hidx (nodes r) parent; p_next = next_free p; p_end = iend (n_interval p)
      in if p_next \<ge> p_end then None
         else
           (let avail = p_end - p_next;
                width = (if avail > SIBLING_RESERVE then avail - SIBLING_RESERVE else avail);
                start = p_next; e = start + width - 1;
                p' = p\<lparr>next_free := e + 1, tree_children := tree_children p @ [h]\<rparr>
            in Some (r\<lparr>nodes := hput h (leaf_node \<lparr>istart = start, iend = e\<rparr> (Some parent))
                                (hput parent p' (nodes r))\<rparr>)))"

definition insert_tree_child :: "reachability \<Rightarrow> hash \<Rightarrow> hash \<Rightarrow> reachability option" where
  "insert_tree_child r parent h =
     (case try_place_child r parent h of
        Some r' \<Rightarrow> Some r'
      | None \<Rightarrow>
          (case reindex_all r of
             None \<Rightarrow> None
           | Some r1 \<Rightarrow>
               (case try_place_child r1 parent h of
                  Some r' \<Rightarrow> Some r'
                | None \<Rightarrow> insert_root r1 h)))"

definition insert_to_fcs :: "hash \<Rightarrow> hash \<Rightarrow> node_map \<Rightarrow> node_map" where
  "insert_to_fcs block new nds =
     (let ni = iv nds new
      in if fcs_contains_cover nds block ni then nds
         else
           (let n = hidx nds block;
                pos = partition_point (\<lambda>h. istart (iv nds h) \<le> istart ni) (fcs n)
            in hput block (n\<lparr>fcs := list_insert_at pos new (fcs n)\<rparr>) nds))"

definition reach_add_block ::
  "reachability \<Rightarrow> hash \<Rightarrow> hash option \<Rightarrow> hash list \<Rightarrow> reachability option" where
  "reach_add_block r h sp ms =
     (if hhas (nodes r) h then Some r
      else
        (case (case sp of
                 Some parent \<Rightarrow> if hhas (nodes r) parent then insert_tree_child r parent h
                                else insert_root r h
               | None \<Rightarrow> insert_root r h) of
           None \<Rightarrow> None
         | Some r1 \<Rightarrow>
             Some (r1\<lparr>nodes := fold (\<lambda>m nds. if m \<noteq> h \<and> hhas nds m then insert_to_fcs m h nds else nds)
                             ms (nodes r1)\<rparr>)))"

section \<open>Removal\<close>

definition drop_leaf :: "reachability \<Rightarrow> hash \<Rightarrow> reachability" where
  "drop_leaf r h =
     (case hget (nodes r) h of
        None \<Rightarrow> r
      | Some n \<Rightarrow>
          if tree_children n \<noteq> [] then r
          else
            (let nds1 = hdel h (nodes r);
                 nds2 = (case tree_parent n of
                           None \<Rightarrow> nds1
                         | Some p \<Rightarrow>
                             (case hget nds1 p of
                                None \<Rightarrow> nds1
                              | Some pn \<Rightarrow>
                                  hput p (pn\<lparr>tree_children :=
                                     filter (\<lambda>c. c \<noteq> h) (tree_children pn)\<rparr>) nds1))
             in r\<lparr>nodes := hmap_values (\<lambda>m. m\<lparr>fcs := filter (\<lambda>x. x \<noteq> h) (fcs m)\<rparr>) nds2\<rparr>))"

definition retain_node :: "hash set \<Rightarrow> node \<Rightarrow> node" where
  \<comment> \<open>the body of the loop over \<open>self.nodes.values_mut()\<close> in \<open>retain\<close>\<close>
  "retain_node keep n = n\<lparr>
     tree_parent := (case tree_parent n of
                       None \<Rightarrow> None
                     | Some p \<Rightarrow> if p \<notin> keep then None else Some p),
     tree_children := filter (\<lambda>c. c \<in> keep) (tree_children n),
     fcs := filter (\<lambda>h. h \<in> keep) (fcs n)\<rparr>"

definition reach_retain :: "reachability \<Rightarrow> hash set \<Rightarrow> reachability" where
  "reach_retain r keep =
     (let nds = hmap_values (retain_node keep) (hretain (\<lambda>h _. h \<in> keep) (nodes r))
      in r\<lparr>nodes := nds,
           next_root_start :=
             (if nds = [] then SPACE_START
              else Max ((\<lambda>(h, n). wadd64 (iend (n_interval n)) 1) ` set nds))\<rparr>)"

end
