(* ===== verification/Reach_Forest.thy ===== *)
theory Reach_Forest
  imports Reachability
begin

text \<open>
  The labelled forest of the reachability index: the local laws of its labels (\<open>forest_ok\<close>, \<open>labels_ok\<close>), the
  theorem that interval containment is tree ancestry, and the two loops of \<open>reindex_all\<close> on such a
  forest (\<open>subtree_sizes_ok\<close>, \<open>window_loop_ok\<close>): they return, and give every block a window as wide as
  its subtree.
\<close>

section \<open>The forest\<close>

definition tedge :: "node_map \<Rightarrow> hash \<Rightarrow> hash \<Rightarrow> bool" where
  "tedge nds p c \<longleftrightarrow> (\<exists>n. hget nds c = Some n \<and> tree_parent n = Some p)"

abbreviation tanc :: "node_map \<Rightarrow> hash \<Rightarrow> hash \<Rightarrow> bool" where
  "tanc nds \<equiv> (tedge nds)\<^sup>*\<^sup>*"

abbreviation children :: "node_map \<Rightarrow> hash \<Rightarrow> hash list" where
  "children nds h \<equiv> tree_children (hidx nds h)"

definition forest_ok :: "node_map \<Rightarrow> bool" where
  "forest_ok nds \<longleftrightarrow> hmap_ok nds
     \<and> (\<forall>p c. hhas nds p \<longrightarrow> (c \<in> set (children nds p) \<longleftrightarrow> tedge nds p c))
     \<and> (\<forall>h. hhas nds h \<longrightarrow> distinct (children nds h))
     \<and> (\<forall>p c. tedge nds p c \<longrightarrow> hhas nds p)"

definition disj_iv :: "interval \<Rightarrow> interval \<Rightarrow> bool" where
  "disj_iv a b \<longleftrightarrow> iend a < istart b \<or> iend b < istart a"

definition is_root :: "node_map \<Rightarrow> hash \<Rightarrow> bool" where
  "is_root nds h \<longleftrightarrow> hhas nds h \<and> (\<forall>p. \<not> tedge nds p h)"

text \<open>The local laws of the labels; \<open>nrs\<close> is \<open>next_root_start\<close>.\<close>

definition labels_ok :: "node_map \<Rightarrow> nat \<Rightarrow> bool" where
  "labels_ok nds nrs \<longleftrightarrow>
     (\<forall>h. hhas nds h \<longrightarrow> istart (iv nds h) \<le> next_free (hidx nds h)
        \<and> next_free (hidx nds h) \<le> iend (iv nds h))
   \<and> (\<forall>p c. tedge nds p c \<longrightarrow> istart (iv nds p) \<le> istart (iv nds c)
        \<and> iend (iv nds c) < next_free (hidx nds p))
   \<and> (\<forall>p c c'. tedge nds p c \<longrightarrow> tedge nds p c' \<longrightarrow> c \<noteq> c' \<longrightarrow> disj_iv (iv nds c) (iv nds c'))
   \<and> (\<forall>h h'. is_root nds h \<longrightarrow> is_root nds h' \<longrightarrow> h \<noteq> h' \<longrightarrow> disj_iv (iv nds h) (iv nds h'))
   \<and> (\<forall>h. is_root nds h \<longrightarrow> iend (iv nds h) < nrs)"

lemma tedge_hhas: "tedge nds p c \<Longrightarrow> hhas nds c"
  by (auto simp: tedge_def hhas_def)

lemma tedge_fun: "tedge nds p c \<Longrightarrow> tedge nds p' c \<Longrightarrow> p = p'"
  by (auto simp: tedge_def)

lemma tanc_hhas_down: "tanc nds a b \<Longrightarrow> hhas nds a \<Longrightarrow> hhas nds b"
  by (induction rule: rtranclp_induct) (auto dest: tedge_hhas)

lemma forest_parent: "forest_ok nds \<Longrightarrow> tedge nds p c \<Longrightarrow> hhas nds p"
  by (auto simp: forest_ok_def)

lemma children_iff: "forest_ok nds \<Longrightarrow> hhas nds p \<Longrightarrow> c \<in> set (children nds p) \<longleftrightarrow> tedge nds p c"
  by (auto simp: forest_ok_def)

lemma tanc_hhas_up: "tanc nds a b \<Longrightarrow> forest_ok nds \<Longrightarrow> hhas nds b \<Longrightarrow> hhas nds a"
  by (induction rule: converse_rtranclp_induct) (auto dest: forest_parent)

lemma root_tanc: "is_root nds b \<Longrightarrow> tanc nds a b \<Longrightarrow> a = b"
  by (auto simp: is_root_def elim: rtranclp.cases)

lemma not_root_parent: "hhas nds h \<Longrightarrow> \<not> is_root nds h \<Longrightarrow> \<exists>p. tedge nds p h"
  by (auto simp: is_root_def)

lemma labels_nonempty: "labels_ok nds nrs \<Longrightarrow> hhas nds h \<Longrightarrow> istart (iv nds h) \<le> iend (iv nds h)"
  unfolding labels_ok_def by (meson le_trans)

lemma labels_child:
  "labels_ok nds nrs \<Longrightarrow> forest_ok nds \<Longrightarrow> tedge nds p c \<Longrightarrow>
   istart (iv nds p) \<le> istart (iv nds c) \<and> iend (iv nds c) < iend (iv nds p)"
  unfolding labels_ok_def by (metis forest_parent order_less_le_trans)

lemma labels_tanc:
  assumes "labels_ok nds nrs" and "forest_ok nds" and "tanc nds a b"
  shows "istart (iv nds a) \<le> istart (iv nds b) \<and> iend (iv nds b) \<le> iend (iv nds a)
    \<and> (a \<noteq> b \<longrightarrow> iend (iv nds b) < iend (iv nds a))"
  using assms(3)
proof (induction rule: rtranclp_induct)
  case (step y z)
  with labels_child [OF assms(1,2) step.hyps(2)] show ?case by auto
qed simp

lemma tanc_antisym:
  assumes "labels_ok nds nrs" and "forest_ok nds" and "tanc nds a b" and "tanc nds b a"
  shows "a = b"
  using labels_tanc [OF assms(1,2,3)] labels_tanc [OF assms(1,2,4)] by fastforce

text \<open>Induction from the roots down.\<close>

lemma forest_up_induct [consumes 3, case_names root child]:
  assumes lab: "labels_ok nds nrs" and fo: "forest_ok nds" and h: "hhas nds h"
    and root: "\<And>h. is_root nds h \<Longrightarrow> P h"
    and child: "\<And>p h. tedge nds p h \<Longrightarrow> hhas nds p \<Longrightarrow> P p \<Longrightarrow> P h"
  shows "P h"
proof -
  define M where "M = Max ((\<lambda>h. iend (iv nds h)) ` set (hkeys nds))"
  have M: "iend (iv nds x) \<le> M" if "hhas nds x" for x
    using that by (auto simp: M_def hhas_iff intro!: Max_ge)
  show ?thesis using h
  proof (induction "M - iend (iv nds h)" arbitrary: h rule: less_induct)
    case less
    show ?case
    proof (cases "is_root nds h")
      case False
      then obtain p where p: "tedge nds p h" using less.prems not_root_parent by blast
      then have hp: "hhas nds p" and lt: "iend (iv nds h) < iend (iv nds p)"
        using lab fo forest_parent labels_child by blast+
      from less.hyps [OF _ hp] M [OF hp] lt have "P p" by auto
      with p hp show ?thesis by (rule child)
    qed (rule root)
  qed
qed

lemma labels_bound:
  assumes "labels_ok nds nrs" and "forest_ok nds" and "hhas nds h"
  shows "iend (iv nds h) < nrs"
  using assms
proof (induction rule: forest_up_induct)
  case (root h)
  then show ?case using assms(1) by (auto simp: labels_ok_def)
next
  case (child p h)
  then show ?case using labels_child [OF assms(1,2) child(1)] by simp
qed

lemma tanc_step: "tanc nds q a \<Longrightarrow> a \<noteq> q \<Longrightarrow> \<exists>c. tedge nds q c \<and> tanc nds c a"
  by (auto elim: converse_rtranclpE)

lemma disj_iv_sub:
  "disj_iv a b \<Longrightarrow> istart a \<le> istart c \<Longrightarrow> iend c \<le> iend a \<Longrightarrow> disj_iv c b"
  by (auto simp: disj_iv_def)

lemma disj_iv_sym: "disj_iv a b = disj_iv b a"
  by (auto simp: disj_iv_def)

theorem laminar:
  assumes lab: "labels_ok nds nrs" and fo: "forest_ok nds" and a: "hhas nds a" and b: "hhas nds b"
  shows "tanc nds a b \<or> tanc nds b a \<or> disj_iv (iv nds a) (iv nds b)"
  using lab fo b a
proof (induction arbitrary: a rule: forest_up_induct)
  case (root b)
  show ?case using lab fo root(2)
  proof (induction rule: forest_up_induct)
    case (root a)
    then show ?case using \<open>is_root nds b\<close> lab by (auto simp: labels_ok_def)
  next
    case (child p a)
    from child(3) show ?case
    proof (elim disjE)
      assume "tanc nds p b"
      then have "p = b" using root_tanc \<open>is_root nds b\<close> by blast
      then show ?thesis using child(1) by (metis r_into_rtranclp)
    next
      assume "tanc nds b p"
      then show ?thesis using child(1) by (meson rtranclp.rtrancl_into_rtrancl)
    next
      assume "disj_iv (iv nds p) (iv nds b)"
      then show ?thesis
        using disj_iv_sub labels_child [OF lab fo child(1)] by (meson less_imp_le)
    qed
  qed
next
  case (child q b)
  from child(3) [OF child(4)] show ?case
  proof (elim disjE)
    assume "tanc nds a q"
    then show ?thesis using child(1) by (meson rtranclp.rtrancl_into_rtrancl)
  next
    assume qa: "tanc nds q a"
    show ?thesis
    proof (cases "a = q")
      case True
      then show ?thesis using child(1) by (metis r_into_rtranclp)
    next
      case False
      then obtain c where c: "tedge nds q c" "tanc nds c a" using qa tanc_step by blast
      show ?thesis
      proof (cases "c = b")
        case False
        then have "disj_iv (iv nds c) (iv nds b)"
          using lab c(1) child(1) by (auto simp: labels_ok_def)
        then show ?thesis
          using labels_tanc [OF lab fo c(2)] disj_iv_sub by blast
      qed (use c in auto)
    qed
  next
    assume "disj_iv (iv nds a) (iv nds q)"
    then show ?thesis
      using labels_child [OF lab fo child(1)] disj_iv_sub disj_iv_sym by (meson less_imp_le)
  qed
qed

theorem contains_iff_tanc:
  assumes lab: "labels_ok nds nrs" and fo: "forest_ok nds" and a: "hhas nds a" and b: "hhas nds b"
  shows "contains (iv nds a) (iv nds b) \<longleftrightarrow> tanc nds a b"
proof
  assume con: "contains (iv nds a) (iv nds b)"
  have ne: "istart (iv nds b) \<le> iend (iv nds b)" using labels_nonempty [OF lab b] .
  from laminar [OF lab fo a b] show "tanc nds a b"
  proof (elim disjE)
    assume ba: "tanc nds b a"
    show ?thesis
    proof (cases "a = b")
      case False
      with labels_tanc [OF lab fo ba] con show ?thesis by (auto simp: contains_def)
    qed auto
  qed (use con ne in \<open>auto simp: contains_def disj_iv_def\<close>)
next
  assume "tanc nds a b"
  then show "contains (iv nds a) (iv nds b)"
    using labels_tanc [OF lab fo] by (auto simp: contains_def)
qed

section \<open>Subtrees and their sizes\<close>

definition subtree :: "node_map \<Rightarrow> hash \<Rightarrow> hash set" where
  "subtree nds h = {x. tanc nds h x}"

definition tsize :: "node_map \<Rightarrow> hash \<Rightarrow> nat" where
  "tsize nds h = card (subtree nds h)"

lemma subtree_refl [simp]: "h \<in> subtree nds h"
  by (simp add: subtree_def)

lemma subtree_subset: "hhas nds h \<Longrightarrow> subtree nds h \<subseteq> set (hkeys nds)"
  using tanc_hhas_down by (fastforce simp: subtree_def hhas_iff)

lemma finite_subtree: "hhas nds h \<Longrightarrow> finite (subtree nds h)"
  using subtree_subset finite_subset by (metis List.finite_set)

lemma tsize_pos: "hhas nds h \<Longrightarrow> 0 < tsize nds h"
  unfolding tsize_def using finite_subtree subtree_refl by (metis card_gt_0_iff empty_iff)

lemma tedge_child_hhas: "forest_ok nds \<Longrightarrow> hhas nds h \<Longrightarrow> c \<in> set (children nds h) \<Longrightarrow> hhas nds c"
  by (auto simp: children_iff dest: tedge_hhas)

lemma subtree_unfold:
  assumes "forest_ok nds" and "hhas nds h"
  shows "subtree nds h = insert h (\<Union>c\<in>set (children nds h). subtree nds c)"
proof -
  have "tanc nds h x \<longleftrightarrow> x = h \<or> (\<exists>c. tedge nds h c \<and> tanc nds c x)" for x
    by (auto dest: tanc_step intro: converse_rtranclp_into_rtranclp)
  then show ?thesis using assms by (auto simp: subtree_def children_iff)
qed

lemma subtree_disjoint:
  assumes lab: "labels_ok nds nrs" and fo: "forest_ok nds" and c: "hhas nds c" and c': "hhas nds c'"
    and dj: "disj_iv (iv nds c) (iv nds c')"
  shows "subtree nds c \<inter> subtree nds c' = {}"
proof -
  have False if "tanc nds c x" "tanc nds c' x" for x
  proof -
    have "hhas nds x" using that(1) c tanc_hhas_down by blast
    then have "istart (iv nds x) \<le> iend (iv nds x)" using labels_nonempty [OF lab] by blast
    with labels_tanc [OF lab fo that(1)] labels_tanc [OF lab fo that(2)] dj show False
      by (auto simp: disj_iv_def)
  qed
  then show ?thesis by (auto simp: subtree_def)
qed

definition apart :: "node_map \<Rightarrow> hash list \<Rightarrow> bool" where
  \<comment> \<open>the blocks of a list head disjoint subtrees\<close>
  "apart nds xs \<longleftrightarrow> distinct xs \<and> (\<forall>x\<in>set xs. hhas nds x)
     \<and> (\<forall>x\<in>set xs. \<forall>y\<in>set xs. x \<noteq> y \<longrightarrow> subtree nds x \<inter> subtree nds y = {})"

lemma apart_children:
  assumes lab: "labels_ok nds nrs" and fo: "forest_ok nds" and h: "hhas nds h"
  shows "apart nds (children nds h)"
proof -
  have "subtree nds x \<inter> subtree nds y = {}"
    if "x \<in> set (children nds h)" "y \<in> set (children nds h)" "x \<noteq> y" for x y
  proof (rule subtree_disjoint [OF lab fo])
    have t: "tedge nds h x" "tedge nds h y" using that fo h by (auto simp: children_iff)
    then show "hhas nds x" "hhas nds y" by (auto dest: tedge_hhas)
    show "disj_iv (iv nds x) (iv nds y)" using lab t that(3) by (auto simp: labels_ok_def)
  qed
  moreover have "distinct (children nds h)" using fo h by (auto simp: forest_ok_def)
  ultimately show ?thesis
    using tedge_child_hhas [OF fo h] by (auto simp: apart_def)
qed

lemma apart_card:
  "apart nds xs \<Longrightarrow> card (\<Union>x\<in>set xs. subtree nds x) = sum_list (map (tsize nds) xs)"
proof (induction xs)
  case (Cons x xs)
  then have xs: "apart nds xs" and x: "hhas nds x" and nx: "x \<notin> set xs"
    by (auto simp: apart_def)
  have dj: "subtree nds x \<inter> (\<Union>y\<in>set xs. subtree nds y) = {}"
    using Cons.prems nx by (fastforce simp: apart_def)
  have fin: "finite (\<Union>y\<in>set xs. subtree nds y)"
    using xs by (auto simp: apart_def intro: finite_subtree)
  show ?case
    using card_Un_disjoint [OF finite_subtree [OF x] fin dj] Cons.IH [OF xs] by (simp add: tsize_def)
qed simp

lemma tsize_rec:
  assumes lab: "labels_ok nds nrs" and fo: "forest_ok nds" and h: "hhas nds h"
  shows "tsize nds h = 1 + sum_list (map (tsize nds) (children nds h))"
proof -
  have ap: "apart nds (children nds h)" by (rule apart_children [OF lab fo h])
  have "h \<notin> subtree nds c" if c: "c \<in> set (children nds h)" for c
  proof
    assume "h \<in> subtree nds c"
    then have ch: "tanc nds c h" by (simp add: subtree_def)
    have "tedge nds h c" using c fo h by (simp add: children_iff)
    with labels_child [OF lab fo this] labels_tanc [OF lab fo ch] show False by simp
  qed
  then have "h \<notin> (\<Union>c\<in>set (children nds h). subtree nds c)" by blast
  moreover have "finite (\<Union>c\<in>set (children nds h). subtree nds c)"
    using ap by (auto simp: apart_def intro: finite_subtree)
  ultimately have "card (subtree nds h) = 1 + card (\<Union>c\<in>set (children nds h). subtree nds c)"
    using subtree_unfold [OF fo h] by simp
  then show ?thesis using apart_card [OF ap] by (simp add: tsize_def)
qed

lemma forest_roots_iff:
  "forest_ok nds \<Longrightarrow> h \<in> set (forest_roots nds) \<longleftrightarrow> is_root nds h"
proof -
  assume fo: "forest_ok nds"
  then have ok: "hmap_ok nds" by (simp add: forest_ok_def)
  have mem: "(h, n) \<in> set nds \<longleftrightarrow> hget nds h = Some n" for n
    using ok by (simp add: hmap_ok_def)
  have "h \<in> set (forest_roots nds) \<longleftrightarrow>
      (\<exists>n. hget nds h = Some n \<and> (case tree_parent n of None \<Rightarrow> True | Some p \<Rightarrow> \<not> hhas nds p))"
    by (force simp: forest_roots_def mem)
  also have "\<dots> \<longleftrightarrow> is_root nds h"
    using forest_parent [OF fo]
    by (fastforce simp: is_root_def tedge_def hhas_def split: option.splits)
  finally show ?thesis .
qed

lemma distinct_forest_roots: "forest_ok nds \<Longrightarrow> distinct (forest_roots nds)"
  by (auto simp: forest_ok_def forest_roots_def hmap_ok_def distinct_map_filter)

lemma apart_roots:
  assumes lab: "labels_ok nds nrs" and fo: "forest_ok nds"
  shows "apart nds (forest_roots nds)"
proof -
  have "subtree nds x \<inter> subtree nds y = {}"
    if "is_root nds x" "is_root nds y" "x \<noteq> y" for x y
  proof (rule subtree_disjoint [OF lab fo])
    show "hhas nds x" "hhas nds y" using that by (auto simp: is_root_def)
    show "disj_iv (iv nds x) (iv nds y)" using lab that by (auto simp: labels_ok_def)
  qed
  then show ?thesis
    using distinct_forest_roots [OF fo] by (auto simp: apart_def forest_roots_iff [OF fo] is_root_def)
qed

lemma roots_cover:
  assumes lab: "labels_ok nds nrs" and fo: "forest_ok nds" and h: "hhas nds h"
  shows "\<exists>r\<in>set (forest_roots nds). h \<in> subtree nds r"
  using lab fo h
proof (induction rule: forest_up_induct)
  case (root h)
  then show ?case using forest_roots_iff [OF fo] subtree_refl by blast
next
  case (child p h)
  then show ?case by (auto simp: subtree_def intro: rtranclp.rtrancl_into_rtrancl)
qed

lemma roots_total:
  assumes lab: "labels_ok nds nrs" and fo: "forest_ok nds"
  shows "sum_list (map (tsize nds) (forest_roots nds)) = length nds"
proof -
  have "(\<Union>r\<in>set (forest_roots nds). subtree nds r) = set (hkeys nds)"
    using roots_cover [OF lab fo] subtree_subset forest_roots_iff [OF fo]
    by (fastforce simp: hhas_iff is_root_def)
  moreover have "card (set (hkeys nds)) = length nds"
    using fo by (simp add: forest_ok_def hmap_ok_def distinct_card del: set_map)
  ultimately show ?thesis using apart_card [OF apart_roots [OF lab fo]] by simp
qed

section \<open>The size loop\<close>

fun sizes_stack_ok :: "node_map \<Rightarrow> hash set \<Rightarrow> (hash \<times> bool) list \<Rightarrow> bool" where
  "sizes_stack_ok nds D [] = True"
| "sizes_stack_ok nds D ((n, p) # st) \<longleftrightarrow>
     hhas nds n \<and> (p \<longrightarrow> set (children nds n) \<subseteq> D) \<and> sizes_stack_ok nds (insert n D) st"

lemma sizes_stack_ok_mono: "sizes_stack_ok nds D st \<Longrightarrow> D \<subseteq> D' \<Longrightarrow> sizes_stack_ok nds D' st"
proof (induction nds D st arbitrary: D' rule: sizes_stack_ok.induct)
  case (2 nds D n p st)
  then have "sizes_stack_ok nds (insert n D') st" by (meson insert_mono sizes_stack_ok.simps(2))
  with 2 show ?case by auto
qed simp

lemma sizes_stack_ok_append:
  "sizes_stack_ok nds D (xs @ ys) \<longleftrightarrow>
     sizes_stack_ok nds D xs \<and> sizes_stack_ok nds (D \<union> fst ` set xs) ys"
  by (induction nds D xs rule: sizes_stack_ok.induct) (auto simp: Un_assoc insert_is_Un [symmetric])

lemma sizes_stack_ok_unprocessed:
  "(\<forall>c\<in>set cs. hhas nds c) \<Longrightarrow> sizes_stack_ok nds D (map (\<lambda>c. (c, False)) cs)"
  by (induction cs arbitrary: D) auto

definition sizes_weight :: "node_map \<Rightarrow> (hash \<times> bool) list \<Rightarrow> nat" where
  "sizes_weight nds st = sum_list (map (\<lambda>(n, p). if p then 1 else 2 * tsize nds n) st)"

lemma sizes_loop_steps:
  "sizes_loop nds [] sizes = Some sizes"
  "sizes_loop nds ((n, True) # st) sizes =
     sizes_loop nds st (hput n (1 + sum_list (map (hidx sizes) (children nds n))) sizes)"
  "sizes_loop nds ((n, False) # st) sizes =
     sizes_loop nds (rev (map (\<lambda>c. (c, False)) (children nds n)) @ (n, True) # st) sizes"
  by (subst sizes_loop.simps, simp)+

lemma sizes_loop_ok:
  assumes lab: "labels_ok nds nrs" and fo: "forest_ok nds"
  shows "sizes_stack_ok nds (set (hkeys sizes)) st \<Longrightarrow>
    \<forall>x s. hget sizes x = Some s \<longrightarrow> s = tsize nds x \<Longrightarrow>
    \<exists>sizes'. sizes_loop nds st sizes = Some sizes'
      \<and> (\<forall>x s. hget sizes' x = Some s \<longrightarrow> s = tsize nds x)
      \<and> (\<forall>x. hhas sizes x \<or> (\<exists>(n, p)\<in>set st. if p then x = n else x \<in> subtree nds n) \<longrightarrow> hhas sizes' x)"
proof (induction "sizes_weight nds st" arbitrary: st sizes rule: less_induct)
  case less
  show ?case
  proof (cases st)
    case Nil
    then show ?thesis using less.prems by (auto simp: sizes_loop_steps)
  next
    case (Cons e st')
    obtain n p where e: "e = (n, p)" by (cases e)
    have n: "hhas nds n" using less.prems(1) Cons e by simp
    show ?thesis
    proof (cases p)
      case True
      have ch: "set (children nds n) \<subseteq> set (hkeys sizes)"
        using less.prems(1) Cons e True by simp
      define s where "s = 1 + sum_list (map (hidx sizes) (children nds n))"
      have eq: "map (hidx sizes) (children nds n) = map (tsize nds) (children nds n)"
      proof (rule map_cong [OF refl])
        fix c assume "c \<in> set (children nds n)"
        with ch have "hhas sizes c" by (auto simp: hhas_iff)
        from hget_hidx [OF this] less.prems(2) show "hidx sizes c = tsize nds c" by auto
      qed
      have s: "s = tsize nds n" unfolding s_def eq tsize_rec [OF lab fo n] ..
      have "sizes_weight nds st' < sizes_weight nds st"
        using Cons e True by (simp add: sizes_weight_def)
      moreover have "sizes_stack_ok nds (set (hkeys (hput n s sizes))) st'"
        using less.prems(1) Cons e by (simp only: set_hkeys_hput sizes_stack_ok.simps)
      moreover have "\<forall>x t. hget (hput n s sizes) x = Some t \<longrightarrow> t = tsize nds x"
        using less.prems(2) s by simp
      ultimately obtain sizes' where s': "sizes_loop nds st' (hput n s sizes) = Some sizes'"
        "\<forall>x s. hget sizes' x = Some s \<longrightarrow> s = tsize nds x"
        "\<forall>x. hhas (hput n s sizes) x \<or> (\<exists>(n, p)\<in>set st'. if p then x = n else x \<in> subtree nds n)
           \<longrightarrow> hhas sizes' x"
        using less.hyps [of st' "hput n s sizes"] by blast
      show ?thesis
      proof (intro exI [of _ sizes'] conjI)
        show "sizes_loop nds st sizes = Some sizes'"
          using s'(1) Cons e True by (simp add: sizes_loop_steps s_def)
        show "\<forall>x. hhas sizes x \<or> (\<exists>(n, p)\<in>set st. if p then x = n else x \<in> subtree nds n)
            \<longrightarrow> hhas sizes' x"
          using s'(3) Cons e True by auto
      qed (rule s'(2))
    next
      case False
      define st1 where "st1 = rev (map (\<lambda>c. (c, False)) (children nds n)) @ (n, True) # st'"
      have hc: "\<forall>c\<in>set (children nds n). hhas nds c" using tedge_child_hhas [OF fo n] by blast
      have "sizes_weight nds st1 < sizes_weight nds st"
        using Cons e False tsize_rec [OF lab fo n]
        by (simp add: sizes_weight_def st1_def rev_map [symmetric] comp_def sum_list_const_mult)
      moreover have "sizes_stack_ok nds (set (hkeys sizes)) st1"
      proof -
        have "sizes_stack_ok nds (insert n (set (hkeys sizes))) st'"
          using less.prems(1) Cons e by simp
        then have "sizes_stack_ok nds (insert n (set (hkeys sizes) \<union> set (children nds n))) st'"
          by (rule sizes_stack_ok_mono) auto
        then show ?thesis
          unfolding st1_def using n hc
            sizes_stack_ok_unprocessed [of "rev (children nds n)" nds "set (hkeys sizes)"]
          by (simp add: sizes_stack_ok_append rev_map image_image)
      qed
      ultimately obtain sizes' where s': "sizes_loop nds st1 sizes = Some sizes'"
        "\<forall>x s. hget sizes' x = Some s \<longrightarrow> s = tsize nds x"
        "\<forall>x. hhas sizes x \<or> (\<exists>(n, p)\<in>set st1. if p then x = n else x \<in> subtree nds n) \<longrightarrow> hhas sizes' x"
        using less.hyps [of st1 sizes] less.prems(2) by blast
      show ?thesis
      proof (intro exI [of _ sizes'] conjI)
        show "sizes_loop nds st sizes = Some sizes'"
          using s'(1) Cons e False by (simp add: sizes_loop_steps st1_def)
        show "\<forall>x. hhas sizes x \<or> (\<exists>(n, p)\<in>set st. if p then x = n else x \<in> subtree nds n)
            \<longrightarrow> hhas sizes' x"
        proof (intro allI impI)
          fix x
          assume "hhas sizes x \<or> (\<exists>(n, p)\<in>set st. if p then x = n else x \<in> subtree nds n)"
          then have "hhas sizes x \<or> (\<exists>(n, p)\<in>set st1. if p then x = n else x \<in> subtree nds n)"
            using Cons e False subtree_unfold [OF fo n] by (force simp: st1_def)
          with s'(3) show "hhas sizes' x" by blast
        qed
      qed (rule s'(2))
    qed
  qed
qed

lemma subtree_sizes_ok:
  assumes lab: "labels_ok nds nrs" and fo: "forest_ok nds"
  obtains sizes where "subtree_sizes nds = Some sizes"
    and "\<And>h. hhas nds h \<Longrightarrow> hidx sizes h = tsize nds h"
proof -
  have "sizes_stack_ok nds (set (hkeys [])) (rev (map (\<lambda>r. (r, False)) (forest_roots nds)))"
    unfolding rev_map
    by (rule sizes_stack_ok_unprocessed) (auto simp: forest_roots_iff [OF fo] is_root_def)
  note st = this
  have "\<forall>x s. hget [] x = Some s \<longrightarrow> s = tsize nds x" by simp
  from sizes_loop_ok [OF lab fo st this] obtain sizes where s0: "sizes_loop nds (rev (map (\<lambda>r. (r, False)) (forest_roots nds))) [] = Some sizes"
    and s2: "\<forall>x s. hget sizes x = Some s \<longrightarrow> s = tsize nds x"
    and s1: "\<forall>x. hhas ([] :: (hash, nat) hmap) x \<or> (\<exists>(n, p)\<in>set (rev (map (\<lambda>r. (r, False)) (forest_roots nds))).
         if p then x = n else x \<in> subtree nds n) \<longrightarrow> hhas sizes x"
    by blast
  have s3: "hhas sizes x" if "r \<in> set (forest_roots nds)" "x \<in> subtree nds r" for x r
    using s1 that by fastforce
  have "hidx sizes h = tsize nds h" if "hhas nds h" for h
  proof -
    have "hhas sizes h" using s3 roots_cover [OF lab fo that] by blast
    from hget_hidx [OF this] s2 show ?thesis by auto
  qed
  moreover have "subtree_sizes nds = Some sizes" using s0 by (simp add: subtree_sizes_def)
  ultimately show thesis using that by blast
qed

section \<open>Windows\<close>

lemma SCALE_pos: "0 < SCALE"
  by (simp add: SCALE_def)

lemma layout_exact:
  assumes "\<forall>c\<in>set cs. hidx sizes c = w c" and "cur + sum_list (map w cs) * SCALE < 2 ^ 64"
  shows "snd (layout sizes cs cur) = cur + sum_list (map w cs) * SCALE
    \<and> map fst (fst (layout sizes cs cur)) = cs
    \<and> (\<forall>(c, s)\<in>set (fst (layout sizes cs cur)).
         cur \<le> s \<and> s + w c * SCALE \<le> cur + sum_list (map w cs) * SCALE)"
  using assms
proof (induction cs arbitrary: cur)
  case (Cons c cs)
  have bound: "cur + w c * SCALE + sum_list (map w cs) * SCALE < 2 ^ 64"
    using Cons.prems(2) by (simp add: algebra_simps)
  then have "wadd64 cur (sat_mul64 (hidx sizes c) SCALE) = cur + w c * SCALE"
    using Cons.prems(1) by (simp add: wadd64_exact sat_mul64_exact)
  moreover obtain ws e where le: "layout sizes cs (cur + w c * SCALE) = (ws, e)" by fastforce
  ultimately show ?case
    using Cons.IH [of "cur + w c * SCALE"] Cons.prems(1) bound by (auto simp: algebra_simps)
qed simp

lemma layout_disjoint:
  assumes "\<forall>c\<in>set cs. hidx sizes c = w c" and "cur + sum_list (map w cs) * SCALE < 2 ^ 64"
    and "(c, s) \<in> set (fst (layout sizes cs cur))" and "(c', s') \<in> set (fst (layout sizes cs cur))"
    and "c \<noteq> c'"
  shows "s + w c * SCALE \<le> s' \<or> s' + w c' * SCALE \<le> s"
  using assms
proof (induction cs arbitrary: cur)
  case (Cons a cs)
  have bound: "cur + w a * SCALE + sum_list (map w cs) * SCALE < 2 ^ 64"
    using Cons.prems(2) by (simp add: algebra_simps)
  then have "wadd64 cur (sat_mul64 (hidx sizes a) SCALE) = cur + w a * SCALE"
    using Cons.prems(1) by (simp add: wadd64_exact sat_mul64_exact)
  moreover obtain ws e where le: "layout sizes cs (cur + w a * SCALE) = (ws, e)" by fastforce
  ultimately have mem: "set (fst (layout sizes (a # cs) cur)) = insert (a, cur) (set ws)" by simp
  have ws: "\<forall>(x, t)\<in>set ws. cur + w a * SCALE \<le> t"
    using layout_exact [of cs sizes w "cur + w a * SCALE"] Cons.prems(1) bound le by auto
  consider "(c, s) = (a, cur)" | "(c', s') = (a, cur)" | "(c, s) \<in> set ws" "(c', s') \<in> set ws"
    using Cons.prems(3,4) mem by blast
  then show ?case
  proof cases
    case 3
    then show ?thesis using Cons.IH [of "cur + w a * SCALE"] Cons.prems bound le by auto
  qed (use Cons.prems(3-5) mem ws in auto)
qed simp

definition same_struct :: "node_map \<Rightarrow> node_map \<Rightarrow> bool" where
  \<comment> \<open>only labels differ\<close>
  "same_struct nds nds' \<longleftrightarrow> hkeys nds' = hkeys nds \<and>
     (\<forall>h n. hget nds h = Some n \<longrightarrow> (\<exists>n'. hget nds' h = Some n' \<and> tree_parent n' = tree_parent n
        \<and> tree_children n' = tree_children n \<and> mset (fcs n') = mset (fcs n)))"

lemma same_struct_refl [simp]: "same_struct nds nds"
  by (simp add: same_struct_def)

lemma same_struct_trans: "same_struct a b \<Longrightarrow> same_struct b c \<Longrightarrow> same_struct a c"
  unfolding same_struct_def by (metis (no_types, opaque_lifting))

lemma same_struct_hkeys: "same_struct nds nds' \<Longrightarrow> hkeys nds' = hkeys nds"
  by (simp add: same_struct_def)

lemma same_struct_hhas: "same_struct nds nds' \<Longrightarrow> hhas nds' h = hhas nds h"
  by (simp add: same_struct_def hhas_iff)

lemma same_struct_node:
  "same_struct nds nds' \<Longrightarrow> hhas nds h \<Longrightarrow> children nds' h = children nds h
     \<and> mset (fcs (hidx nds' h)) = mset (fcs (hidx nds h))"
  by (fastforce simp: same_struct_def hhas_def hidx_def)

lemma same_struct_tedge: "same_struct nds nds' \<Longrightarrow> tedge nds' = tedge nds"
proof (intro ext)
  fix p c
  assume ss: "same_struct nds nds'"
  show "tedge nds' p c = tedge nds p c"
  proof (cases "hget nds c")
    case None
    then have "hget nds' c = None" using same_struct_hhas [OF ss, of c] by (simp add: hhas_def)
    with None show ?thesis by (simp add: tedge_def)
  next
    case (Some n)
    then show ?thesis using ss by (force simp: same_struct_def tedge_def)
  qed
qed

lemma same_struct_forest: "same_struct nds nds' \<Longrightarrow> forest_ok nds' = forest_ok nds"
  using same_struct_node [of nds nds'] same_struct_hkeys [of nds nds']
  by (simp add: forest_ok_def same_struct_tedge same_struct_hhas hmap_ok_def cong: conj_cong)

lemma same_struct_subtree: "same_struct nds nds' \<Longrightarrow> subtree nds' h = subtree nds h"
  by (simp add: subtree_def same_struct_tedge)

lemma same_struct_root: "same_struct nds nds' \<Longrightarrow> is_root nds' h = is_root nds h"
  by (simp add: is_root_def same_struct_tedge same_struct_hhas)

lemma same_struct_relabel:
  "hhas nds h \<Longrightarrow> same_struct nds (hput h ((hidx nds h)\<lparr>n_interval := i, next_free := f\<rparr>) nds)"
  by (auto simp: same_struct_def hkeys_hput_old hidx_def simp del: map_map)

definition laid :: "node_map \<Rightarrow> (hash, nat) hmap \<Rightarrow> node_map \<Rightarrow> hash \<Rightarrow> bool" where
  \<comment> \<open>the labels of one block after the window loop\<close>
  "laid nds0 sizes nds x \<longleftrightarrow>
     iend (iv nds x) + 1 = istart (iv nds x) + tsize nds0 x * SCALE
   \<and> next_free (hidx nds x) + SCALE = istart (iv nds x) + tsize nds0 x * SCALE
   \<and> (\<forall>(c, s)\<in>set (fst (layout sizes (children nds0 x) (istart (iv nds x)))). istart (iv nds c) = s)
   \<and> istart (iv nds x) + tsize nds0 x * SCALE < 2 ^ 64"

lemma window_loop_steps:
  "window_loop sizes [] nds = Some nds"
  "layout sizes (children nds h) s = (ws, e) \<Longrightarrow>
   window_loop sizes ((h, s) # st) nds = window_loop sizes (rev ws @ st)
     (hput h ((hidx nds h)\<lparr>n_interval := \<lparr>istart = s,
        iend = wadd64 s (sat_mul64 (hidx sizes h) SCALE) - 1\<rparr>, next_free := e\<rparr>) nds)"
  by (subst window_loop.simps, simp)+

lemma apart_replace:
  assumes lab: "labels_ok nds nrs" and fo: "forest_ok nds" and ap: "apart nds (h # hs)"
  shows "apart nds (rev (children nds h) @ hs)"
proof -
  have h: "hhas nds h" using ap by (simp add: apart_def)
  have ac: "apart nds (children nds h)" by (rule apart_children [OF lab fo h])
  have sub: "subtree nds c \<subseteq> subtree nds h" if "c \<in> set (children nds h)" for c
    using that subtree_unfold [OF fo h] by blast
  have x: "subtree nds c \<inter> subtree nds y = {}"
    if "c \<in> set (children nds h)" "y \<in> set hs" for c y
    using ap sub [OF that(1)] that(2) by (fastforce simp: apart_def)
  then have "set (children nds h) \<inter> set hs = {}" using subtree_refl by blast
  moreover have "subtree nds a \<inter> subtree nds b = {}"
    if ab: "a \<in> set (children nds h) \<union> set hs" "b \<in> set (children nds h) \<union> set hs" "a \<noteq> b" for a b
  proof -
    consider "a \<in> set (children nds h)" "b \<in> set (children nds h)" | "a \<in> set hs" "b \<in> set hs"
      | "a \<in> set (children nds h)" "b \<in> set hs" | "b \<in> set (children nds h)" "a \<in> set hs"
      using ab by blast
    then show ?thesis
    proof cases
      case 1
      then show ?thesis using ac ab(3) unfolding apart_def by blast
    next
      case 2
      then show ?thesis using ap ab(3) unfolding apart_def by (meson list.set_intros(2))
    qed (use x in blast)+
  qed
  ultimately show ?thesis using ac ap unfolding apart_def by simp blast
qed

lemma window_loop_ok:
  assumes lab: "labels_ok nds0 nrs" and fo: "forest_ok nds0"
    and sz: "\<And>h. hhas nds0 h \<Longrightarrow> hidx sizes h = tsize nds0 h"
  shows "same_struct nds0 nds \<Longrightarrow> apart nds0 (map fst st) \<Longrightarrow>
    \<forall>(h, s)\<in>set st. s + tsize nds0 h * SCALE < 2 ^ 64 \<Longrightarrow>
    \<exists>nds'. window_loop sizes st nds = Some nds' \<and> same_struct nds0 nds'
      \<and> (\<forall>x. x \<notin> (\<Union>h\<in>fst ` set st. subtree nds0 h) \<longrightarrow> hget nds' x = hget nds x)
      \<and> (\<forall>(h, s)\<in>set st. istart (iv nds' h) = s)
      \<and> (\<forall>x\<in>(\<Union>h\<in>fst ` set st. subtree nds0 h). laid nds0 sizes nds' x)"
proof (induction "sum_list (map (tsize nds0) (map fst st))" arbitrary: st nds rule: less_induct)
  case less
  show ?case
  proof (cases st)
    case Nil
    then show ?thesis using less.prems by (simp add: window_loop_steps)
  next
    case (Cons e0 st')
    obtain h s where e0: "e0 = (h, s)" by (cases e0)
    have ap: "apart nds0 (h # map fst st')" using less.prems(2) Cons e0 by simp
    then have h: "hhas nds0 h" by (simp add: apart_def)
    have hn: "hhas nds h" using h same_struct_hhas [OF less.prems(1)] by simp
    have bound: "s + tsize nds0 h * SCALE < 2 ^ 64" using less.prems(3) Cons e0 by simp
    define cs where "cs = children nds0 h"
    have cs: "children nds h = cs" using same_struct_node [OF less.prems(1) h] by (simp add: cs_def)
    have rec: "tsize nds0 h = 1 + sum_list (map (tsize nds0) cs)"
      using tsize_rec [OF lab fo h] by (simp add: cs_def)
    have szc: "\<forall>c\<in>set cs. hidx sizes c = tsize nds0 c"
      using sz tedge_child_hhas [OF fo h] by (simp add: cs_def)
    have cb: "s + sum_list (map (tsize nds0) cs) * SCALE < 2 ^ 64"
      using bound rec by (simp add: algebra_simps)
    obtain ws e where le: "layout sizes cs s = (ws, e)" by fastforce
    have ws: "e = s + sum_list (map (tsize nds0) cs) * SCALE" "map fst ws = cs"
      "\<forall>(c, t)\<in>set ws. s \<le> t \<and> t + tsize nds0 c * SCALE \<le> s + sum_list (map (tsize nds0) cs) * SCALE"
      using layout_exact [OF szc cb] le by auto
    define n where "n = (hidx nds h)\<lparr>n_interval := \<lparr>istart = s,
        iend = wadd64 s (sat_mul64 (hidx sizes h) SCALE) - 1\<rparr>, next_free := e\<rparr>"
    have end_: "wadd64 s (sat_mul64 (hidx sizes h) SCALE) = s + tsize nds0 h * SCALE"
      using bound sz [OF h] by (simp add: wadd64_exact sat_mul64_exact)
    define st1 where "st1 = rev ws @ st'"
    have step: "window_loop sizes st nds = window_loop sizes st1 (hput h n nds)"
      using le cs Cons e0 window_loop_steps(2) by (simp add: st1_def n_def)
    have fst1: "map fst st1 = rev cs @ map fst st'"
      using ws(2) by (simp add: st1_def rev_map [symmetric])
    have dec: "sum_list (map (tsize nds0) (map fst st1)) < sum_list (map (tsize nds0) (map fst st))"
      unfolding fst1 using Cons e0 rec by (simp add: rev_map [symmetric])
    have ss1: "same_struct nds0 (hput h n nds)"
      using same_struct_trans [OF less.prems(1) same_struct_relabel [OF hn]] by (simp add: n_def)
    have ap1: "apart nds0 (map fst st1)"
      unfolding fst1 cs_def by (rule apart_replace [OF lab fo ap])
    have b1: "\<forall>(x, t)\<in>set st1. t + tsize nds0 x * SCALE < 2 ^ 64"
      using less.prems(3) Cons ws(3) cb by (fastforce simp: st1_def)
    obtain nds' where nds': "window_loop sizes st1 (hput h n nds) = Some nds'"
      "same_struct nds0 nds'"
      "\<forall>x. x \<notin> (\<Union>h\<in>fst ` set st1. subtree nds0 h) \<longrightarrow> hget nds' x = hget (hput h n nds) x"
      "\<forall>(h, s)\<in>set st1. istart (iv nds' h) = s"
      "\<forall>x\<in>(\<Union>h\<in>fst ` set st1. subtree nds0 h). laid nds0 sizes nds' x"
      using less.hyps [OF dec ss1 ap1 b1] by blast
    have fs: "fst ` set st1 = set cs \<union> fst ` set st'"
      using fst1 by (metis image_set set_append set_rev)
    have hst: "h \<notin> (\<Union>x\<in>fst ` set st1. subtree nds0 x)"
    proof -
      have "h \<notin> subtree nds0 c" if "c \<in> set cs" for c
      proof
        assume "h \<in> subtree nds0 c"
        then have ch: "tanc nds0 c h" by (simp add: subtree_def)
        have "tedge nds0 h c" using that fo h by (simp add: children_iff cs_def)
        with labels_child [OF lab fo this] labels_tanc [OF lab fo ch] show False by simp
      qed
      moreover have "h \<notin> subtree nds0 y" if "y \<in> fst ` set st'" for y
        using ap that subtree_refl [of h nds0] by (fastforce simp: apart_def)
      ultimately show ?thesis using fs by blast
    qed
    have nh: "hidx nds' h = n" using nds'(3) hst by (auto simp: hidx_def)
    have ivh: "istart (iv nds' h) = s" by (simp add: iv_def nh n_def)
    have sub: "(\<Union>x\<in>fst ` set st. subtree nds0 x) = insert h (\<Union>x\<in>fst ` set st1. subtree nds0 x)"
      using Cons e0 fs subtree_unfold [OF fo h] by (auto simp: cs_def)
    have laid_h: "laid nds0 sizes nds' h"
      unfolding laid_def ivh
      using nds'(4) le end_ rec tsize_pos [OF h] SCALE_pos bound ws(1)
      by (auto simp: iv_def nh n_def cs_def [symmetric] st1_def)
    show ?thesis
    proof (intro exI [of _ nds'] conjI)
      show "window_loop sizes st nds = Some nds'" using step nds'(1) by simp
      show "\<forall>x. x \<notin> (\<Union>h\<in>fst ` set st. subtree nds0 h) \<longrightarrow> hget nds' x = hget nds x"
        using nds'(3) sub by auto
      show "\<forall>(h, s)\<in>set st. istart (iv nds' h) = s"
        using nds'(4) Cons e0 ivh by (auto simp: st1_def)
      show "\<forall>x\<in>(\<Union>h\<in>fst ` set st. subtree nds0 h). laid nds0 sizes nds' x"
        unfolding sub using nds'(5) laid_h by blast
    qed (rule nds'(2))
  qed
qed

end
