(* ===== verification/Reach_Index.thy ===== *)
theory Reach_Index
  imports Reach_Forest
begin

text \<open>
  The parts of an insertion into the reachability index: \<open>reindex_all\<close> relabels without changing the
  forest and leaves room below every block, \<open>insert_root\<close> and \<open>insert_tree_child\<close> place a new leaf, and
  \<open>insert_to_fcs\<close> keeps the covering sets sorted antichains, on which one binary search decides
  covering.
\<close>

section \<open>Reindexing\<close>

definition fcs_ok :: "node_map \<Rightarrow> bool" where
  "fcs_ok nds \<longleftrightarrow> (\<forall>h. hhas nds h \<longrightarrow>
     (\<forall>x\<in>set (fcs (hidx nds h)). hhas nds x)
   \<and> distinct (fcs (hidx nds h))
   \<and> (\<forall>x\<in>set (fcs (hidx nds h)). \<forall>y\<in>set (fcs (hidx nds h)). tanc nds x y \<longrightarrow> x = y)
   \<and> sorted (map (\<lambda>x. istart (iv nds x)) (fcs (hidx nds h))))"

lemma layout_member:
  assumes "\<forall>c\<in>set cs. hidx sizes c = w c" and "cur + sum_list (map w cs) * SCALE < 2 ^ 64"
    and "c \<in> set cs"
  obtains s where "(c, s) \<in> set (fst (layout sizes cs cur))"
    and "cur \<le> s" and "s + w c * SCALE \<le> cur + sum_list (map w cs) * SCALE"
proof -
  have "c \<in> set (map fst (fst (layout sizes cs cur)))"
    using layout_exact [OF assms(1,2)] assms(3) by simp
  then obtain s where s: "(c, s) \<in> set (fst (layout sizes cs cur))" by auto
  with layout_exact [OF assms(1,2)] that show thesis by fastforce
qed

lemma laid_label:
  assumes "laid nds0 sizes nds x" and "0 < tsize nds0 x"
  shows "istart (iv nds x) \<le> next_free (hidx nds x)" "next_free (hidx nds x) < iend (iv nds x)"
    "iend (iv nds x) + 1 = istart (iv nds x) + tsize nds0 x * SCALE"
proof -
  have "SCALE \<le> tsize nds0 x * SCALE" using assms(2) by simp
  then show "istart (iv nds x) \<le> next_free (hidx nds x)" "next_free (hidx nds x) < iend (iv nds x)"
    "iend (iv nds x) + 1 = istart (iv nds x) + tsize nds0 x * SCALE"
    using assms(1) by (auto simp: laid_def SCALE_def)
qed

lemma laid_children:
  assumes lab: "labels_ok nds0 nrs" and fo: "forest_ok nds0"
    and sz: "\<And>h. hhas nds0 h \<Longrightarrow> hidx sizes h = tsize nds0 h"
    and x: "hhas nds0 x" "laid nds0 sizes nds x"
  shows "c \<in> set (children nds0 x) \<Longrightarrow> istart (iv nds x) \<le> istart (iv nds c)
      \<and> istart (iv nds c) + tsize nds0 c * SCALE \<le> next_free (hidx nds x)"
    and "c \<in> set (children nds0 x) \<Longrightarrow> c' \<in> set (children nds0 x) \<Longrightarrow> c \<noteq> c' \<Longrightarrow>
      istart (iv nds c) + tsize nds0 c * SCALE \<le> istart (iv nds c')
      \<or> istart (iv nds c') + tsize nds0 c' * SCALE \<le> istart (iv nds c)"
proof -
  define cs where "cs = children nds0 x"
  have szc: "\<forall>c\<in>set cs. hidx sizes c = tsize nds0 c"
    using sz tedge_child_hhas [OF fo x(1)] by (simp add: cs_def)
  have rec: "tsize nds0 x = 1 + sum_list (map (tsize nds0) cs)"
    using tsize_rec [OF lab fo x(1)] by (simp add: cs_def)
  have bound: "istart (iv nds x) + sum_list (map (tsize nds0) cs) * SCALE < 2 ^ 64"
    using x(2) rec by (simp add: laid_def algebra_simps)
  have nf: "next_free (hidx nds x) = istart (iv nds x) + sum_list (map (tsize nds0) cs) * SCALE"
    using x(2) rec by (simp add: laid_def algebra_simps)
  have at: "istart (iv nds c) = s" if "(c, s) \<in> set (fst (layout sizes cs (istart (iv nds x))))" for c s
    using x(2) that by (auto simp: laid_def cs_def)
  show "istart (iv nds x) \<le> istart (iv nds c)
      \<and> istart (iv nds c) + tsize nds0 c * SCALE \<le> next_free (hidx nds x)"
    if c: "c \<in> set (children nds0 x)"
  proof -
    obtain s where "(c, s) \<in> set (fst (layout sizes cs (istart (iv nds x))))"
      "istart (iv nds x) \<le> s" "s + tsize nds0 c * SCALE \<le> next_free (hidx nds x)"
      using layout_member [OF szc bound c [folded cs_def]] unfolding nf by blast
    with at show ?thesis by simp
  qed
  show "istart (iv nds c) + tsize nds0 c * SCALE \<le> istart (iv nds c')
      \<or> istart (iv nds c') + tsize nds0 c' * SCALE \<le> istart (iv nds c)"
    if c: "c \<in> set (children nds0 x)" "c' \<in> set (children nds0 x)" "c \<noteq> c'"
  proof -
    obtain s where m1: "(c, s) \<in> set (fst (layout sizes cs (istart (iv nds x))))"
      by (rule layout_member [OF szc bound c(1) [folded cs_def]])
    obtain s' where m2: "(c', s') \<in> set (fst (layout sizes cs (istart (iv nds x))))"
      by (rule layout_member [OF szc bound c(2) [folded cs_def]])
    note m = m1 m2
    from layout_disjoint [OF szc bound m c(3)] at [OF m(1)] at [OF m(2)] show ?thesis by simp
  qed
qed

lemma resort_same_struct: "same_struct nds (resort_fcs nds)"
  unfolding same_struct_def resort_fcs_def by auto

lemma resort_iv [simp]: "hhas nds h \<Longrightarrow> iv (resort_fcs nds) h = iv nds h"
  by (simp add: iv_def resort_fcs_def hidx_hmap_values)

lemma resort_next_free [simp]: "hhas nds h \<Longrightarrow> next_free (hidx (resort_fcs nds) h) = next_free (hidx nds h)"
  by (simp add: resort_fcs_def hidx_hmap_values)

lemma labels_cong:
  assumes ss: "same_struct nds nds'" and fo: "forest_ok nds"
    and iv: "\<And>h. hhas nds h \<Longrightarrow> iv nds' h = iv nds h"
    and nf: "\<And>h. hhas nds h \<Longrightarrow> next_free (hidx nds' h) = next_free (hidx nds h)"
    and lab: "labels_ok nds nrs"
  shows "labels_ok nds' nrs"
proof -
  note s = same_struct_tedge [OF ss] same_struct_hhas [OF ss] same_struct_root [OF ss]
  have r: "hhas nds h" if "is_root nds h" for h using that by (simp add: is_root_def)
  note t = tedge_hhas forest_parent [OF fo]
  note l = lab [unfolded labels_ok_def]
  show ?thesis
    unfolding labels_ok_def s
  proof (intro conjI allI impI)
    fix p c
    assume pc: "tedge nds p c"
    note x = iv [OF tedge_hhas [OF pc]] iv [OF t(2) [OF pc]] nf [OF t(2) [OF pc]]
    show "istart (iv nds' p) \<le> istart (iv nds' c)" "iend (iv nds' c) < next_free (hidx nds' p)"
      unfolding x using l pc by auto
    show "disj_iv (iv nds' c) (iv nds' c')" if pc': "tedge nds p c'" "c \<noteq> c'" for c'
      unfolding x iv [OF tedge_hhas [OF pc'(1)]] using l pc pc' by auto
  qed (use l iv nf r in auto)
qed

lemma resort_fcs_ok:
  assumes fo: "forest_ok nds"
    and f: "\<And>h. hhas nds h \<Longrightarrow> (\<forall>x\<in>set (fcs (hidx nds h)). hhas nds x)
      \<and> distinct (fcs (hidx nds h))
      \<and> (\<forall>x\<in>set (fcs (hidx nds h)). \<forall>y\<in>set (fcs (hidx nds h)). tanc nds x y \<longrightarrow> x = y)"
  shows "fcs_ok (resort_fcs nds)"
proof -
  note s = same_struct_tedge [OF resort_same_struct [of nds]]
    same_struct_hhas [OF resort_same_struct [of nds]]
  have "sorted (map (\<lambda>x. istart (iv (resort_fcs nds) x)) (fcs (hidx (resort_fcs nds) h)))"
    if h: "hhas nds h" for h
  proof -
    have "map (\<lambda>x. istart (iv (resort_fcs nds) x)) (fcs (hidx (resort_fcs nds) h))
        = map (\<lambda>x. istart (iv nds x)) (sort_key (\<lambda>x. istart (iv nds x)) (fcs (hidx nds h)))"
      using f [OF h] by (auto simp: hidx_hmap_values [OF h] resort_fcs_def [of nds, THEN arg_cong, of "\<lambda>n. hidx n h"])
    then show ?thesis by (simp only: sorted_sort_key)
  qed
  then show ?thesis
    unfolding fcs_ok_def s using f by (simp add: resort_fcs_def hidx_hmap_values)
qed

lemma reindex_all_ok:
  assumes lab: "labels_ok (nodes r) (next_root_start r)" and fo: "forest_ok (nodes r)"
    and fc: "fcs_ok (nodes r)" and size: "length (nodes r) < 2 ^ 41"
  obtains r' where "reindex_all r = Some r'" and "same_struct (nodes r) (nodes r')"
    and "labels_ok (nodes r') (next_root_start r')" and "fcs_ok (nodes r')"
    and "next_root_start r' = 1 + length (nodes r) * SCALE"
    and "\<And>h. hhas (nodes r) h \<Longrightarrow> next_free (hidx (nodes r') h) < iend (iv (nodes r') h)"
proof -
  define nds0 where "nds0 = nodes r"
  define roots where "roots = forest_roots nds0"
  note lab = lab [folded nds0_def] and fo = fo [folded nds0_def]
  obtain sizes where sz0: "subtree_sizes nds0 = Some sizes"
    and sz: "\<And>h. hhas nds0 h \<Longrightarrow> hidx sizes h = tsize nds0 h"
    using subtree_sizes_ok [OF lab fo] by blast
  have tot: "sum_list (map (tsize nds0) roots) = length nds0"
    unfolding roots_def by (rule roots_total [OF lab fo])
  have bound: "1 + length nds0 * SCALE < 2 ^ 64"
    using size by (simp add: nds0_def SCALE_def)
  have rt: "hhas nds0 h" if "h \<in> set roots" for h
    using that forest_roots_iff [OF fo] by (simp add: roots_def is_root_def)
  have szr: "\<forall>c\<in>set roots. hidx sizes c = tsize nds0 c" using sz rt by blast
  have bnd: "SPACE_START + sum_list (map (tsize nds0) roots) * SCALE < 2 ^ 64"
    using bound tot by (simp add: SPACE_START_def)
  obtain ws cur where le: "layout sizes roots SPACE_START = (ws, cur)" by fastforce
  note lx = layout_exact [OF szr bnd, unfolded le, simplified]
  have "apart nds0 (map fst (rev ws))"
    using apart_roots [OF lab fo] lx by (auto simp: apart_def roots_def rev_map [symmetric])
  moreover have "\<forall>(h, s)\<in>set (rev ws). s + tsize nds0 h * SCALE < 2 ^ 64"
    using lx bnd by fastforce
  ultimately obtain nds where nds: "window_loop sizes (rev ws) nds0 = Some nds" "same_struct nds0 nds"
    "\<forall>(h, s)\<in>set (rev ws). istart (iv nds h) = s"
    "\<forall>x\<in>(\<Union>h\<in>fst ` set (rev ws). subtree nds0 h). laid nds0 sizes nds x"
    using window_loop_ok [OF lab fo sz same_struct_refl] by blast
  have "fst ` set (rev ws) = set roots" using lx by (metis image_set set_rev)
  then have ld: "laid nds0 sizes nds x" if "hhas nds0 x" for x
    using nds(4) roots_cover [OF lab fo that] by (auto simp: roots_def)
  note hh = same_struct_hhas [OF nds(2)] and te = same_struct_tedge [OF nds(2)]
    and ro = same_struct_root [OF nds(2)]
  note ll = laid_label [OF ld tsize_pos]
  have ch: "c \<in> set (children nds0 p)" if "tedge nds0 p c" for p c
    using that children_iff [OF fo forest_parent [OF fo that]] by simp
  have l3: "disj_iv (iv nds c) (iv nds c')" if "tedge nds0 p c" "tedge nds0 p c'" "c \<noteq> c'" for p c c'
    using laid_children(2) [OF lab fo sz forest_parent [OF fo that(1)] ld [OF forest_parent [OF fo that(1)]]
      ch [OF that(1)] ch [OF that(2)] that(3)] ll(3) [of c] ll(3) [of c'] that
    by (auto simp: disj_iv_def dest!: tedge_hhas)
  have rw: "\<exists>s. (h, s) \<in> set ws \<and> istart (iv nds h) = s \<and> s + tsize nds0 h * SCALE \<le> cur"
    if "is_root nds0 h" for h
  proof -
    have "h \<in> set roots" using that forest_roots_iff [OF fo] by (simp add: roots_def)
    from layout_member [OF szr bnd this] le lx nds(3) show ?thesis by fastforce
  qed
  have l4: "disj_iv (iv nds h) (iv nds h')" if "is_root nds0 h" "is_root nds0 h'" "h \<noteq> h'" for h h'
  proof -
    have hh': "hhas nds0 h" "hhas nds0 h'" using that by (auto simp: is_root_def)
    from rw [OF that(1)] rw [OF that(2)] layout_disjoint [OF szr bnd _ _ that(3), unfolded le]
    show ?thesis using ll(3) [OF hh'(1) hh'(1)] ll(3) [OF hh'(2) hh'(2)] by (fastforce simp: disj_iv_def)
  qed
  have labn: "labels_ok nds cur"
    unfolding labels_ok_def hh te ro
  proof (intro conjI allI impI)
    fix p c
    assume pc: "tedge nds0 p c"
    then have hp: "hhas nds0 p" and hc: "hhas nds0 c" using forest_parent [OF fo] tedge_hhas by auto
    note k = laid_children(1) [OF lab fo sz hp ld [OF hp] ch [OF pc]]
    show "istart (iv nds p) \<le> istart (iv nds c)" using k by simp
    show "iend (iv nds c) < next_free (hidx nds p)" using k ll(3) [OF hc hc] by simp
  next
    fix h
    assume "is_root nds0 h"
    with rw [OF this] show "iend (iv nds h) < cur" using ll(3) [of h] by (auto simp: is_root_def)
  qed (use ll l3 l4 less_imp_le in blast)+
  define r' where "r' = r\<lparr>nodes := resort_fcs nds, next_root_start := cur\<rparr>"
  have fon: "forest_ok nds" using same_struct_forest [OF nds(2)] fo by simp
  show thesis
  proof
    show "reindex_all r = Some r'"
      using sz0 nds(1) le by (simp add: reindex_all_def nds0_def roots_def r'_def)
    show "same_struct (nodes r) (nodes r')"
      using same_struct_trans [OF nds(2) resort_same_struct] by (simp add: r'_def nds0_def)
    show "labels_ok (nodes r') (next_root_start r')"
      using labels_cong [OF resort_same_struct fon _ _ labn] by (simp add: r'_def)
    have "set (fcs (hidx nds h)) = set (fcs (hidx nds0 h)) \<and> distinct (fcs (hidx nds h)) = distinct (fcs (hidx nds0 h))"
      if "hhas nds0 h" for h
      using same_struct_node [OF nds(2) that] by (metis mset_eq_setD mset_eq_imp_distinct_iff)
    then show "fcs_ok (nodes r')"
      using fc [folded nds0_def] unfolding r'_def
      by (simp, intro resort_fcs_ok [OF fon]) (simp add: hh te fcs_ok_def)
    show "next_root_start r' = 1 + length (nodes r) * SCALE"
      using lx tot by (simp add: r'_def SPACE_START_def nds0_def)
    show "next_free (hidx (nodes r') h) < iend (iv (nodes r') h)" if "hhas (nodes r) h" for h
      using that hh ll(2) by (simp add: r'_def nds0_def)
  qed
qed

section \<open>Covering sets\<close>

theorem fcs_contains_cover_iff:
  assumes lab: "labels_ok nds nrs" and fo: "forest_ok nds" and fc: "fcs_ok nds"
    and a: "hhas nds a" and b: "hhas nds b"
  shows "fcs_contains_cover nds a (iv nds b) \<longleftrightarrow> (\<exists>f\<in>set (fcs (hidx nds a)). tanc nds f b)"
proof -
  define fs where "fs = fcs (hidx nds a)"
  define p where "p = (\<lambda>h. istart (iv nds h) \<le> istart (iv nds b))"
  have fs: "\<forall>x\<in>set fs. hhas nds x" "\<forall>x\<in>set fs. \<forall>y\<in>set fs. tanc nds x y \<longrightarrow> x = y"
    "sorted (map (\<lambda>x. istart (iv nds x)) fs)"
    using fc a by (auto simp: fcs_ok_def fs_def)
  have eq: "fcs_contains_cover nds a (iv nds b) \<longleftrightarrow>
      takeWhile p fs \<noteq> [] \<and> tanc nds (last (takeWhile p fs)) b" (is "_ \<longleftrightarrow> ?R")
  proof (cases "takeWhile p fs = []")
    case False
    then have "last (takeWhile p fs) \<in> set fs" by (meson last_in_set set_takeWhileD)
    then show ?thesis
      using False fs(1) contains_iff_tanc [OF lab fo _ b] partition_point_last [of p fs]
      by (auto simp: fcs_contains_cover_def fs_def [symmetric] p_def [symmetric] Let_def partition_point_def)
  qed (simp add: fcs_contains_cover_def fs_def [symmetric] p_def [symmetric] Let_def partition_point_def)
  have "?R" if f: "f \<in> set fs" "tanc nds f b" for f
  proof -
    have fb: "istart (iv nds f) \<le> istart (iv nds b)" "iend (iv nds b) \<le> iend (iv nds f)"
      using labels_tanc [OF lab fo f(2)] by auto
    note tw = takeWhile_sorted_last [OF fs(3) f(1) fb(1), folded p_def]
    define g where "g = last (takeWhile p fs)"
    have g: "g \<in> set fs" "p g" using tw unfolding g_def by (meson last_in_set set_takeWhileD)+
    have hg: "hhas nds f" "hhas nds g" using fs(1) f(1) g(1) by auto
    from laminar [OF lab fo hg] have "f = g"
    proof (elim disjE)
      assume "disj_iv (iv nds f) (iv nds g)"
      moreover have "istart (iv nds f) \<le> istart (iv nds g)" using tw by (simp add: g_def)
      moreover have "istart (iv nds g) \<le> istart (iv nds b)" using g(2) by (simp add: p_def)
      moreover have "istart (iv nds b) \<le> iend (iv nds b)" "istart (iv nds g) \<le> iend (iv nds g)"
        using labels_nonempty [OF lab] b hg by auto
      ultimately show ?thesis using fb by (auto simp: disj_iv_def)
    qed (use fs(2) f(1) g(1) in auto)
    then show ?thesis using tw f(2) by (simp add: g_def)
  qed
  moreover have "\<exists>f\<in>set fs. tanc nds f b" if ?R
    using that by (meson last_in_set set_takeWhileD)
  ultimately show ?thesis using eq by (auto simp: fs_def)
qed

section \<open>Placing a new block in the forest\<close>

definition grown :: "node_map \<Rightarrow> node_map \<Rightarrow> hash \<Rightarrow> hash option \<Rightarrow> bool" where
  \<comment> \<open>\<open>h\<close> is a new leaf below \<open>sp\<close> (a new root for \<open>None\<close>); the covering sets are kept\<close>
  "grown nds nds' h sp \<longleftrightarrow> \<not> hhas nds h
     \<and> (\<forall>x. hhas nds' x \<longleftrightarrow> x = h \<or> hhas nds x)
     \<and> (\<forall>p c. tedge nds' p c \<longleftrightarrow> tedge nds p c \<or> (sp = Some p \<and> c = h))
     \<and> fcs (hidx nds' h) = []
     \<and> (\<forall>x. hhas nds x \<longrightarrow> set (fcs (hidx nds' x)) = set (fcs (hidx nds x)))
     \<and> length nds' = Suc (length nds)"

definition index_ok :: "reachability \<Rightarrow> bool" where
  "index_ok r \<longleftrightarrow> forest_ok (nodes r) \<and> labels_ok (nodes r) (next_root_start r) \<and> fcs_ok (nodes r)
     \<and> next_root_start r \<le> SPACE_END"

lemma same_struct_grown:
  assumes ss: "same_struct nds nds1" and g: "grown nds1 nds2 h sp"
  shows "grown nds nds2 h sp"
proof -
  have "set (fcs (hidx nds1 x)) = set (fcs (hidx nds x))" if "hhas nds x" for x
    using same_struct_node [OF ss that] mset_eq_setD by blast
  moreover have "length nds1 = length nds"
    using same_struct_hkeys [OF ss] by (metis length_map)
  ultimately show ?thesis
    using g by (simp add: grown_def same_struct_hhas [OF ss] same_struct_tedge [OF ss])
qed

lemma grown_tanc_old:
  assumes g: "grown nds nds' h sp" and fo: "forest_ok nds" and b: "b \<noteq> h"
  shows "tanc nds' a b \<longleftrightarrow> tanc nds a b"
proof
  assume "tanc nds' a b"
  then show "tanc nds a b" using b
  proof (induction rule: rtranclp_induct)
    case (step y z)
    then have yz: "tedge nds y z" using g by (auto simp: grown_def)
    then have "y \<noteq> h" using forest_parent [OF fo yz] g by (auto simp: grown_def)
    with step yz show ?case by (meson rtranclp.rtrancl_into_rtrancl)
  qed simp
next
  assume "tanc nds a b"
  then show "tanc nds' a b"
    by (rule rtranclp_mono [THEN predicate2D, rotated]) (use g in \<open>auto simp: grown_def\<close>)
qed

lemma grown_tanc_new:
  assumes g: "grown nds nds' h sp" and fo: "forest_ok nds" and sp: "sp \<noteq> Some h"
  shows "tanc nds' a h \<longleftrightarrow> a = h \<or> (\<exists>p. sp = Some p \<and> tanc nds a p)"
proof -
  have up: "tedge nds' p h \<longleftrightarrow> sp = Some p" for p
    using g tedge_hhas by (fastforce simp: grown_def)
  have "tanc nds' a h \<longleftrightarrow> a = h \<or> (\<exists>p. tanc nds' a p \<and> tedge nds' p h)"
    by (metis rtranclp.rtrancl_into_rtrancl rtranclp.rtrancl_refl rtranclp.simps)
  also have "\<dots> \<longleftrightarrow> a = h \<or> (\<exists>p. sp = Some p \<and> tanc nds a p)"
    unfolding up using grown_tanc_old [OF g fo] sp by auto
  finally show ?thesis .
qed

lemma tanc_new_leaf:
  assumes g: "grown nds nds' h sp" and fo: "forest_ok nds" and sp: "sp \<noteq> Some h" and t: "tanc nds' h b"
  shows "b = h"
proof (rule ccontr)
  assume b: "b \<noteq> h"
  then obtain c where c: "tedge nds' h c" using t by (auto dest: tanc_step)
  with sp have "tedge nds h c" using g by (auto simp: grown_def)
  with forest_parent [OF fo this] g show False by (auto simp: grown_def)
qed

lemma grown_fcs_ok:
  assumes g: "grown nds nds' h sp" and fo: "forest_ok nds" and fc: "fcs_ok nds" 
    and iv: "\<And>x. hhas nds x \<Longrightarrow> iv nds' x = iv nds x"
    and f: "\<And>x. hhas nds x \<Longrightarrow> fcs (hidx nds' x) = fcs (hidx nds x)"
  shows "fcs_ok nds'"
  unfolding fcs_ok_def
proof (intro allI impI)
  fix x
  assume x: "hhas nds' x"
  let ?P = "\<lambda>nds x. (\<forall>y\<in>set (fcs (hidx nds x)). hhas nds y)
   \<and> distinct (fcs (hidx nds x))
   \<and> (\<forall>y\<in>set (fcs (hidx nds x)). \<forall>z\<in>set (fcs (hidx nds x)). tanc nds y z \<longrightarrow> y = z)
   \<and> sorted (map (\<lambda>y. istart (iv nds y)) (fcs (hidx nds x)))"
  show "?P nds' x"
  proof (cases "x = h")
    case True
    then show ?thesis using g by (simp add: grown_def)
  next
    case False
    then have hx: "hhas nds x" using x g by (auto simp: grown_def)
    have P: "?P nds x" using fc hx by (simp add: fcs_ok_def)
    have nh: "y \<noteq> h" if "y \<in> set (fcs (hidx nds x))" for y using P that g by (auto simp: grown_def)
    have m: "map (\<lambda>y. istart (iv nds' y)) (fcs (hidx nds x)) = map (\<lambda>y. istart (iv nds y)) (fcs (hidx nds x))"
      using P iv by auto
    show ?thesis
      unfolding f [OF hx] m using P grown_tanc_old [OF g fo] nh g by (auto simp: grown_def)
  qed
qed

lemma add_root_ok:
  assumes ok: "index_ok r" and h: "\<not> hhas (nodes r) h"
    and room: "next_root_start r + SCALE \<le> SPACE_END"
  defines "s \<equiv> next_root_start r"
  defines "r' \<equiv> r\<lparr>next_root_start := s + SCALE,
    nodes := hput h (leaf_node \<lparr>istart = s, iend = s + SCALE - 1\<rparr> None) (nodes r)\<rparr>"
  shows "index_ok r' \<and> grown (nodes r) (nodes r') h None"
proof -
  define nds where "nds = nodes r"
  define nds' where "nds' = nodes r'"
  have fo: "forest_ok nds" and lab: "labels_ok nds s" and fc: "fcs_ok nds"
    using ok by (auto simp: index_ok_def nds_def s_def)
  note h = h [folded nds_def]
  have n': "nds' = hput h (leaf_node \<lparr>istart = s, iend = s + SCALE - 1\<rparr> None) nds"
    by (simp add: nds'_def r'_def nds_def)
  have te: "tedge nds' = tedge nds"
    using h by (intro ext) (auto simp: n' tedge_def leaf_node_def hhas_def)
  have hh: "hhas nds' x \<longleftrightarrow> x = h \<or> hhas nds x" for x by (auto simp: n')
  have old: "hidx nds' x = hidx nds x" if "x \<noteq> h" for x using that by (simp add: n')
  have ivo: "iv nds' x = iv nds x" if "x \<noteq> h" for x using old [OF that] by (simp add: iv_def)
  have new: "iv nds' h = \<lparr>istart = s, iend = s + SCALE - 1\<rparr>" "next_free (hidx nds' h) = s"
    "fcs (hidx nds' h) = []" "children nds' h = []"
    by (simp_all add: n' iv_def leaf_node_def)
  have nt: "\<not> tedge nds x h" "\<not> tedge nds h x" for x
    using h tedge_hhas forest_parent [OF fo] by blast+
  have ne: "x \<noteq> h" if "hhas nds x" for x using h that by auto
  have rt: "is_root nds' x \<longleftrightarrow> x = h \<or> is_root nds x" for x
    using nt by (auto simp: is_root_def te hh)
  have g: "grown nds nds' h None"
    using h hh te new old ne by (auto simp: grown_def length_hput_new n')
  have "forest_ok nds'"
    using fo new old nt unfolding forest_ok_def te hh by (auto simp: n' hmap_ok_hput)
  moreover have "labels_ok nds' (s + SCALE)"
    unfolding labels_ok_def te rt hh
  proof (intro conjI allI impI)
    fix p c
    assume pc: "tedge nds p c"
    then have "p \<noteq> h" "c \<noteq> h" using nt by auto
    then show "istart (iv nds' p) \<le> istart (iv nds' c)" "iend (iv nds' c) < next_free (hidx nds' p)"
      using lab pc by (auto simp: labels_ok_def ivo old)
    show "disj_iv (iv nds' c) (iv nds' c')" if "tedge nds p c'" "c \<noteq> c'" for c'
    proof -
      have "c \<noteq> h" "c' \<noteq> h" using pc that(1) nt by auto
      then show ?thesis using lab pc that by (auto simp: labels_ok_def ivo)
    qed
  next
    fix x
    assume x: "x = h \<or> hhas nds x"
    show "istart (iv nds' x) \<le> next_free (hidx nds' x)"
      using x lab by (cases "x = h") (auto simp: labels_ok_def ivo old new)
    show "next_free (hidx nds' x) \<le> iend (iv nds' x)"
      using x lab by (cases "x = h") (auto simp: labels_ok_def ivo old new SCALE_def)
  next
    fix x
    assume x: "x = h \<or> is_root nds x"
    have lt: "iend (iv nds y) < s" if "is_root nds y" for y using lab that by (auto simp: labels_ok_def)
    show "iend (iv nds' x) < s + SCALE"
      using x lt [of x] by (cases "x = h") (auto simp: ivo new SCALE_def)
    fix y
    assume y: "y = h \<or> is_root nds y" "x \<noteq> y"
    show "disj_iv (iv nds' x) (iv nds' y)"
      using x y lt lab by (cases "x = h"; cases "y = h") (auto simp: ivo new disj_iv_def labels_ok_def)
  qed
  moreover have "fcs_ok nds'"
    by (rule grown_fcs_ok [OF g fo fc]) (use ne ivo old in auto)
  ultimately have "index_ok r'"
    using room by (simp add: index_ok_def nds'_def [symmetric] s_def) (simp add: r'_def s_def)
  with g show ?thesis by (simp add: nds_def nds'_def)
qed

lemma insert_root_ok:
  assumes ok: "index_ok r" and h: "\<not> hhas (nodes r) h" and size: "length (nodes r) < 2 ^ 41"
  obtains r' where "insert_root r h = Some r'" and "index_ok r'" and "grown (nodes r) (nodes r') h None"
proof -
  have "\<exists>r1. (if sat_add64 (next_root_start r) SCALE \<ge> SPACE_END then reindex_all r else Some r) = Some r1
      \<and> index_ok r1 \<and> same_struct (nodes r) (nodes r1) \<and> next_root_start r1 + SCALE \<le> SPACE_END"
  proof (cases "sat_add64 (next_root_start r) SCALE \<ge> SPACE_END")
    case True
    obtain r1 where "reindex_all r = Some r1" "same_struct (nodes r) (nodes r1)"
      "labels_ok (nodes r1) (next_root_start r1)" "fcs_ok (nodes r1)"
      "next_root_start r1 = 1 + length (nodes r) * SCALE"
      using reindex_all_ok [of r] ok size by (auto simp: index_ok_def)
    then show ?thesis using True ok size same_struct_forest [of "nodes r" "nodes r1"]
      by (auto simp: index_ok_def SCALE_def SPACE_END_def)
  next
    case False
    then show ?thesis using ok by (auto simp: index_ok_def sat_add64_def SPACE_END_def)
  qed
  then obtain r1 where r1: "(if sat_add64 (next_root_start r) SCALE \<ge> SPACE_END then reindex_all r else Some r) = Some r1"
    "index_ok r1" "same_struct (nodes r) (nodes r1)" "next_root_start r1 + SCALE \<le> SPACE_END" by blast
  have h1: "\<not> hhas (nodes r1) h" using same_struct_hhas [OF r1(3)] h by simp
  have ex: "wadd64 (next_root_start r1) SCALE = next_root_start r1 + SCALE"
    "wadd64 (next_root_start r1 + SCALE - 1) 1 = next_root_start r1 + SCALE"
    using r1(4) by (auto simp: wadd64_def SPACE_END_def SCALE_def)
  show thesis
    using add_root_ok [OF r1(2) h1 r1(4)] r1(1) same_struct_grown [OF r1(3)]
    by (intro that) (auto simp: insert_root_def ex Let_def simp del: One_nat_def)
qed

lemma try_place_child_ok:
  assumes ok: "index_ok r" and h: "\<not> hhas (nodes r) h" and p: "hhas (nodes r) parent"
    and pl: "try_place_child r parent h = Some r'"
  shows "index_ok r' \<and> grown (nodes r) (nodes r') h (Some parent)"
proof -
  define nds where "nds = nodes r"
  define nds' where "nds' = nodes r'"
  have fo: "forest_ok nds" and lab: "labels_ok nds (next_root_start r)" and fc: "fcs_ok nds"
    using ok by (auto simp: index_ok_def nds_def)
  note h = h [folded nds_def] and p = p [folded nds_def]
  define s where "s = next_free (hidx nds parent)"
  define avail where "avail = iend (iv nds parent) - s"
  define w where "w = (if avail > SIBLING_RESERVE then avail - SIBLING_RESERVE else avail)"
  have lt: "s < iend (iv nds parent)" using pl by (auto simp: try_place_child_def Let_def nds_def s_def iv_def split: if_splits)
  then have w: "0 < w" "s + w \<le> iend (iv nds parent)" by (auto simp: w_def avail_def SIBLING_RESERVE_def)
  have r': "r' = r\<lparr>nodes := nds'\<rparr>" and
    n': "nds' = hput h (leaf_node \<lparr>istart = s, iend = s + w - 1\<rparr> (Some parent))
      (hput parent ((hidx nds parent)\<lparr>next_free := s + w, tree_children := children nds parent @ [h]\<rparr>) nds)"
    using pl w(1)
    by (auto simp: try_place_child_def Let_def nds_def nds'_def s_def avail_def w_def iv_def Suc_diff_Suc split: if_splits)
  have ph: "parent \<noteq> h" using h p by auto
  have hh: "hhas nds' x \<longleftrightarrow> x = h \<or> hhas nds x" for x using p by (auto simp: n')
  have te: "tedge nds' q c \<longleftrightarrow> tedge nds q c \<or> (parent = q \<and> c = h)" for q c
    using h ph hget_hidx [OF p] by (auto simp: n' tedge_def leaf_node_def hhas_def)
  have old: "hidx nds' x = hidx nds x" if "x \<noteq> h" "x \<noteq> parent" for x using that by (simp add: n')
  have new: "iv nds' h = \<lparr>istart = s, iend = s + w - 1\<rparr>" "next_free (hidx nds' h) = s"
    "fcs (hidx nds' h) = []" "children nds' h = []"
    by (simp_all add: n' iv_def leaf_node_def)
  have par: "iv nds' parent = iv nds parent" "next_free (hidx nds' parent) = s + w"
    "fcs (hidx nds' parent) = fcs (hidx nds parent)" "children nds' parent = children nds parent @ [h]"
    using ph by (simp_all add: n' iv_def)
  have ivo: "iv nds' x = iv nds x" if "x \<noteq> h" for x
    using old [OF that] par by (cases "x = parent") (auto simp: iv_def)
  have nt: "\<not> tedge nds x h" "\<not> tedge nds h x" for x
    using h tedge_hhas forest_parent [OF fo] by blast+
  have ne: "x \<noteq> h" if "hhas nds x" for x using h that by auto
  have nf: "next_free (hidx nds x) \<le> next_free (hidx nds' x)" if "x \<noteq> h" for x
    using old [OF that] par by (cases "x = parent") (auto simp: s_def)
  have rt: "is_root nds' x \<longleftrightarrow> is_root nds x" for x
    using ne by (auto simp: is_root_def te hh)
  have fcs': "fcs (hidx nds' x) = fcs (hidx nds x)" if "x \<noteq> h" for x
    using old [OF that] par by (cases "x = parent") auto
  have g: "grown nds nds' h (Some parent)"
    using h hh te new fcs' ne p ph by (auto simp: grown_def length_hput n')
  have kids: "children nds' x = (if x = h then [] else if x = parent then children nds x @ [h] else children nds x)" for x
    using new par old by auto
  have "h \<notin> set (children nds parent)" using children_iff [OF fo p] nt by simp
  then have "forest_ok nds'"
    using fo nt ph p unfolding forest_ok_def te hh kids by (auto simp: n' hmap_ok_hput)
  moreover have "labels_ok nds' (next_root_start r)"
    unfolding labels_ok_def rt hh
  proof (intro conjI allI impI)
    fix q c
    assume qc: "tedge nds' q c"
    then have q: "q \<noteq> h" using nt ph by (auto simp: te)
    have hq: "hhas nds q" using qc p forest_parent [OF fo] by (auto simp: te)
    have iq: "istart (iv nds parent) \<le> s" using lab p by (auto simp: labels_ok_def s_def)
    show "istart (iv nds' q) \<le> istart (iv nds' c)"
      using qc q iq lab by (cases "c = h") (auto simp: te nt ivo new labels_ok_def)
    show "iend (iv nds' c) < next_free (hidx nds' q)"
    proof (cases "c = h")
      case True
      then have "q = parent" using qc by (auto simp: te nt)
      then show ?thesis using w True by (simp add: new par)
    next
      case False
      then have "iend (iv nds c) < next_free (hidx nds q)" using qc lab by (auto simp: te labels_ok_def)
      then show ?thesis using nf [OF q] ivo [OF False] by simp
    qed
    have sib: "disj_iv (iv nds c) \<lparr>istart = s, iend = s + w - 1\<rparr>" if "tedge nds parent c" for c
      using lab that by (auto simp: disj_iv_def labels_ok_def s_def)
    show "disj_iv (iv nds' c) (iv nds' c')" if q': "tedge nds' q c'" "c \<noteq> c'" for c'
      using qc q' lab sib disj_iv_sym
      by (cases "c = h"; cases "c' = h") (auto simp: te nt ivo new labels_ok_def)
  next
    fix x
    assume x: "x = h \<or> hhas nds x"
    show "istart (iv nds' x) \<le> next_free (hidx nds' x)"
      using x lab nf [of x] by (cases "x = h") (auto simp: labels_ok_def ivo new intro: order_trans)
    show "next_free (hidx nds' x) \<le> iend (iv nds' x)"
      using x lab w old par by (cases "x = h"; cases "x = parent") (auto simp: labels_ok_def ivo new)
  qed (use lab ivo ne in \<open>auto simp: labels_ok_def is_root_def\<close>)
  moreover have "fcs_ok nds'"
    by (rule grown_fcs_ok [OF g fo fc]) (use ne ivo fcs' in auto)
  ultimately have "index_ok r'"
    using ok by (simp add: index_ok_def r')
  with g show ?thesis by (simp add: nds_def nds'_def)
qed

lemma insert_tree_child_ok:
  assumes ok: "index_ok r" and h: "\<not> hhas (nodes r) h" and p: "hhas (nodes r) parent"
    and size: "length (nodes r) < 2 ^ 41"
  obtains r' where "insert_tree_child r parent h = Some r'" and "index_ok r'"
    and "grown (nodes r) (nodes r') h (Some parent)"
proof (cases "try_place_child r parent h")
  case (Some r')
  with try_place_child_ok [OF ok h p Some] that show thesis by (auto simp: insert_tree_child_def)
next
  case None
  obtain r1 where r1: "reindex_all r = Some r1" "same_struct (nodes r) (nodes r1)"
    "labels_ok (nodes r1) (next_root_start r1)" "fcs_ok (nodes r1)"
    "next_root_start r1 = 1 + length (nodes r) * SCALE"
    "\<And>h. hhas (nodes r) h \<Longrightarrow> next_free (hidx (nodes r1) h) < iend (iv (nodes r1) h)"
    using reindex_all_ok [of r] ok size by (auto simp: index_ok_def)
  have ok1: "index_ok r1"
    using r1 ok size same_struct_forest [OF r1(2)] by (simp add: index_ok_def SPACE_END_def SCALE_def)
  note hh = same_struct_hhas [OF r1(2)]
  obtain r2 where r2: "try_place_child r1 parent h = Some r2"
    using r1(6) [OF p] by (auto simp: try_place_child_def iv_def Let_def)
  have "index_ok r2 \<and> grown (nodes r1) (nodes r2) h (Some parent)"
    using try_place_child_ok [OF ok1 _ _ r2] hh h p by simp
  then show thesis
    using that None r1(1) r2 same_struct_grown [OF r1(2)] by (auto simp: insert_tree_child_def)
qed

section \<open>Entering a block in the covering sets\<close>

definition fcs_only :: "node_map \<Rightarrow> node_map \<Rightarrow> bool" where
  \<comment> \<open>only covering sets differ\<close>
  "fcs_only nds nds' \<longleftrightarrow> hkeys nds' = hkeys nds \<and>
     (\<forall>x n. hget nds x = Some n \<longrightarrow> (\<exists>f. hget nds' x = Some (n\<lparr>fcs := f\<rparr>)))"

lemma fcs_only_hhas: "fcs_only nds nds' \<Longrightarrow> hhas nds' x = hhas nds x"
  by (simp add: fcs_only_def hhas_iff)

lemma fcs_only_node:
  "fcs_only nds nds' \<Longrightarrow> hhas nds x \<Longrightarrow> children nds' x = children nds x \<and> iv nds' x = iv nds x
     \<and> next_free (hidx nds' x) = next_free (hidx nds x)"
  by (fastforce simp: fcs_only_def hhas_def hidx_def iv_def)

lemma fcs_only_tedge: "fcs_only nds nds' \<Longrightarrow> tedge nds' = tedge nds"
proof (intro ext)
  fix p c
  assume fo: "fcs_only nds nds'"
  show "tedge nds' p c = tedge nds p c"
  proof (cases "hget nds c")
    case None
    then have "hget nds' c = None" using fcs_only_hhas [OF fo, of c] by (simp add: hhas_def)
    with None show ?thesis by (simp add: tedge_def)
  next
    case (Some n)
    then show ?thesis using fo by (force simp: fcs_only_def tedge_def)
  qed
qed

lemma fcs_only_forest: "fcs_only nds nds' \<Longrightarrow> forest_ok nds \<Longrightarrow> forest_ok nds'"
  using fcs_only_node [of nds nds']
  by (simp add: forest_ok_def fcs_only_tedge fcs_only_hhas hmap_ok_def cong: conj_cong)
    (simp add: fcs_only_def)

lemma fcs_only_labels:
  assumes fo: "fcs_only nds nds'" and forest: "forest_ok nds" and lab: "labels_ok nds nrs"
  shows "labels_ok nds' nrs"
proof -
  note t = fcs_only_tedge [OF fo] fcs_only_hhas [OF fo]
  have rt: "is_root nds' = is_root nds" by (intro ext) (simp add: is_root_def t)
  have iv: "iv nds' x = iv nds x" "next_free (hidx nds' x) = next_free (hidx nds x)" if "hhas nds x" for x
    using fcs_only_node [OF fo that] by auto
  note l = lab [unfolded labels_ok_def]
  have r: "hhas nds x" if "is_root nds x" for x using that by (simp add: is_root_def)
  show ?thesis
    unfolding labels_ok_def t rt
  proof (intro conjI allI impI)
    fix p c
    assume pc: "tedge nds p c"
    note x = iv [OF tedge_hhas [OF pc]] iv [OF forest_parent [OF forest pc]]
    show "istart (iv nds' p) \<le> istart (iv nds' c)" "iend (iv nds' c) < next_free (hidx nds' p)"
      unfolding x using l pc by auto
    show "disj_iv (iv nds' c) (iv nds' c')" if pc': "tedge nds p c'" "c \<noteq> c'" for c'
      unfolding x iv [OF tedge_hhas [OF pc'(1)]] using l pc pc' by auto
  qed (use l iv r in auto)
qed

lemma fcs_only_same [simp]: "\<exists>f. (n :: node) = n\<lparr>fcs := f\<rparr>"
  by (rule exI [of _ "fcs n"]) simp

lemma fcs_only_refl [simp]: "fcs_only nds nds"
  by (auto simp: fcs_only_def)

lemma fcs_only_trans: "fcs_only a b \<Longrightarrow> fcs_only b c \<Longrightarrow> fcs_only a c"
proof -
  assume ab: "fcs_only a b" and bc: "fcs_only b c"
  have "\<exists>f. hget c x = Some (n\<lparr>fcs := f\<rparr>)" if n: "hget a x = Some n" for x n
  proof -
    obtain f where f: "hget b x = Some (n\<lparr>fcs := f\<rparr>)" using ab n by (auto simp: fcs_only_def)
    obtain f' where "hget c x = Some (n\<lparr>fcs := f, fcs := f'\<rparr>)" using bc f by (fastforce simp: fcs_only_def)
    then show ?thesis by auto
  qed
  then show ?thesis using ab bc by (simp add: fcs_only_def)
qed

definition fcs_step :: "node_map \<Rightarrow> node_map \<Rightarrow> hash \<Rightarrow> hash set \<Rightarrow> bool" where
  \<comment> \<open>\<open>h\<close> is entered in covering sets of blocks of \<open>M\<close>, and covered by each of them\<close>
  "fcs_step nds nds' h M \<longleftrightarrow> fcs_only nds nds' \<and> fcs_ok nds'
     \<and> (\<forall>x. hhas nds x \<longrightarrow> set (fcs (hidx nds x)) \<subseteq> set (fcs (hidx nds' x))
          \<and> set (fcs (hidx nds' x)) \<subseteq> set (fcs (hidx nds x)) \<union> (if x \<in> M then {h} else {}))
     \<and> (\<forall>x\<in>M. hhas nds x \<longrightarrow> (\<exists>f\<in>set (fcs (hidx nds' x)). tanc nds f h))"

lemma insert_to_fcs_ok:
  assumes lab: "labels_ok nds nrs" and fo: "forest_ok nds" and fc: "fcs_ok nds"
    and m: "hhas nds m" and h: "hhas nds h" and leaf: "\<And>x. tanc nds h x \<Longrightarrow> x = h"
  shows "fcs_step nds (insert_to_fcs m h nds) h {m}"
proof (cases "fcs_contains_cover nds m (iv nds h)")
  case True
  then have "insert_to_fcs m h nds = nds" by (simp add: insert_to_fcs_def)
  moreover have "\<exists>f\<in>set (fcs (hidx nds m)). tanc nds f h"
    using fcs_contains_cover_iff [OF lab fo fc m h] True by simp
  ultimately show ?thesis using fc by (auto simp: fcs_step_def)
next
  case False
  define fs where "fs = fcs (hidx nds m)"
  define pos where "pos = partition_point (\<lambda>x. istart (iv nds x) \<le> istart (iv nds h)) fs"
  define fs' where "fs' = list_insert_at pos h fs"
  define nds' where "nds' = hput m ((hidx nds m)\<lparr>fcs := fs'\<rparr>) nds"
  have eq: "insert_to_fcs m h nds = nds'"
    using False by (simp add: insert_to_fcs_def Let_def nds'_def fs'_def pos_def fs_def)
  have nc: "\<not> tanc nds f h" if "f \<in> set fs" for f
    using fcs_contains_cover_iff [OF lab fo fc m h] False that by (auto simp: fs_def)
  then have hfs: "h \<notin> set fs" by auto
  have fsok: "\<forall>x\<in>set fs. hhas nds x" "distinct fs" "\<forall>x\<in>set fs. \<forall>y\<in>set fs. tanc nds x y \<longrightarrow> x = y"
    "sorted (map (\<lambda>x. istart (iv nds x)) fs)"
    using fc m by (auto simp: fcs_ok_def fs_def)
  have only: "fcs_only nds nds'"
    using hget_hidx [OF m]
    by (auto simp: fcs_only_def nds'_def hkeys_hput_old [OF m])
  note t = fcs_only_tedge [OF only] fcs_only_hhas [OF only]
  have ivx: "iv nds' x = iv nds x" if "hhas nds x" for x using fcs_only_node [OF only that] by simp
  have fx: "fcs (hidx nds' x) = (if x = m then fs' else fcs (hidx nds x))" for x by (simp add: nds'_def)
  have ok': "(\<forall>x\<in>set fs'. hhas nds x) \<and> distinct fs'
      \<and> (\<forall>x\<in>set fs'. \<forall>y\<in>set fs'. tanc nds x y \<longrightarrow> x = y) \<and> sorted (map (\<lambda>x. istart (iv nds x)) fs')"
    using fsok h nc leaf distinct_list_insert_at [OF fsok(2) hfs]
      sorted_insert_partition [OF fsok(4), of h] by (auto simp: fs'_def pos_def)
  have "fcs_ok nds'"
    unfolding fcs_ok_def t
  proof (intro allI impI)
    fix x
    assume x: "hhas nds x"
    define g where "g = fcs (hidx nds' x)"
    have g: "(\<forall>x\<in>set g. hhas nds x) \<and> distinct g
      \<and> (\<forall>x\<in>set g. \<forall>y\<in>set g. tanc nds x y \<longrightarrow> x = y) \<and> sorted (map (\<lambda>x. istart (iv nds x)) g)"
      using ok' fc x by (simp add: g_def fx fcs_ok_def)
    have mp: "map (\<lambda>x. istart (iv nds' x)) g = map (\<lambda>x. istart (iv nds x)) g"
      using g ivx by auto
    show "(\<forall>y\<in>set (fcs (hidx nds' x)). hhas nds y) \<and> distinct (fcs (hidx nds' x))
      \<and> (\<forall>y\<in>set (fcs (hidx nds' x)). \<forall>z\<in>set (fcs (hidx nds' x)). tanc nds y z \<longrightarrow> y = z)
      \<and> sorted (map (\<lambda>y. istart (iv nds' y)) (fcs (hidx nds' x)))"
      unfolding g_def [symmetric] mp by (rule g)
  qed
  then show ?thesis
    using only by (auto simp: fcs_step_def eq fx fs_def fs'_def)
qed

lemma fcs_step_trans:
  assumes "fcs_step nds nds1 h M" and "fcs_step nds1 nds2 h N"
  shows "fcs_step nds nds2 h (M \<union> N)"
proof -
  note a = assms [unfolded fcs_step_def]
  have o: "fcs_only nds nds1" using a by simp
  note t = fcs_only_tedge [OF o] fcs_only_hhas [OF o]
  have "fcs_only nds nds2" using a fcs_only_trans by blast
  moreover have "\<exists>f\<in>set (fcs (hidx nds2 x)). tanc nds f h" if "x \<in> M \<union> N" "hhas nds x" for x
  proof (cases "x \<in> N")
    case True
    then show ?thesis using a(2) that(2) by (simp add: t)
  next
    case False
    then have "\<exists>f\<in>set (fcs (hidx nds1 x)). tanc nds f h" using a(1) that by blast
    then obtain f where "f \<in> set (fcs (hidx nds1 x))" "tanc nds f h" by blast
    then show ?thesis using a(2) that(2) t by blast
  qed
  moreover have "set (fcs (hidx nds x)) \<subseteq> set (fcs (hidx nds2 x))
      \<and> set (fcs (hidx nds2 x)) \<subseteq> set (fcs (hidx nds x)) \<union> (if x \<in> M \<union> N then {h} else {})"
    if "hhas nds x" for x
  proof -
    have "set (fcs (hidx nds x)) \<subseteq> set (fcs (hidx nds1 x))"
      "set (fcs (hidx nds1 x)) \<subseteq> set (fcs (hidx nds x)) \<union> (if x \<in> M then {h} else {})"
      "set (fcs (hidx nds1 x)) \<subseteq> set (fcs (hidx nds2 x))"
      "set (fcs (hidx nds2 x)) \<subseteq> set (fcs (hidx nds1 x)) \<union> (if x \<in> N then {h} else {})"
      using a that by (simp_all add: t)
    then show ?thesis by (auto split: if_splits)
  qed
  ultimately show ?thesis using a(2) by (simp add: fcs_step_def)
qed

lemma fcs_fold_ok:
  assumes lab: "labels_ok nds nrs" and fo: "forest_ok nds" and fc: "fcs_ok nds"
    and h: "hhas nds h" and leaf: "\<And>x. tanc nds h x \<Longrightarrow> x = h"
  shows "fcs_step nds (fold (\<lambda>m nds. if m \<noteq> h \<and> hhas nds m then insert_to_fcs m h nds else nds) ms nds)
    h (set ms - {h})"
  using lab fo fc h leaf
proof (induction ms arbitrary: nds)
  case Nil
  then show ?case by (simp add: fcs_step_def)
next
  case (Cons m ms)
  define nds1 where "nds1 = (if m \<noteq> h \<and> hhas nds m then insert_to_fcs m h nds else nds)"
  have s1: "fcs_step nds nds1 h ({m} - {h})"
  proof (cases "m \<noteq> h \<and> hhas nds m")
    case True
    then have "{m} - {h} = {m}" by auto
    with True insert_to_fcs_ok [OF Cons.prems(1-3) _ Cons.prems(4,5)] show ?thesis by (simp add: nds1_def)
  next
    case False
    then show ?thesis using Cons.prems(3) by (auto simp: nds1_def fcs_step_def)
  qed
  then have o: "fcs_only nds nds1" and fc1: "fcs_ok nds1" by (auto simp: fcs_step_def)
  note t = fcs_only_tedge [OF o] fcs_only_hhas [OF o]
  have "fcs_step nds1 (fold (\<lambda>m nds. if m \<noteq> h \<and> hhas nds m then insert_to_fcs m h nds else nds) ms nds1)
    h (set ms - {h})"
    using Cons.IH [OF fcs_only_labels [OF o Cons.prems(2,1)] fcs_only_forest [OF o Cons.prems(2)] fc1]
      Cons.prems(4,5) by (simp add: t)
  from fcs_step_trans [OF s1 this] have st: "fcs_step nds
      (fold (\<lambda>m nds. if m \<noteq> h \<and> hhas nds m then insert_to_fcs m h nds else nds) ms nds1)
      h (({m} - {h}) \<union> (set ms - {h}))" .
  have "({m} - {h}) \<union> (set ms - {h}) = set (m # ms) - {h}" by auto
  with st show ?case by (simp add: nds1_def)
qed

end
