(* ===== verification/Reachability_Correct.thy ===== *)
theory Reachability_Correct
  imports Reach_Index
begin

text \<open>
  Correctness of the reachability index against the DAG: \<open>reach_inv\<close> says that the index answers the
  ancestor relation, and \<open>reach_add_block\<close>, \<open>drop_leaf\<close> and \<open>reach_retain\<close> keep it.
\<close>

section \<open>The invariant\<close>

definition covers :: "node_map \<Rightarrow> hash \<Rightarrow> hash \<Rightarrow> bool" where
  "covers nds a b \<longleftrightarrow> tanc nds a b \<or> (\<exists>f\<in>set (fcs (hidx nds a)). tanc nds f b)"

definition reach_inv :: "reachability \<Rightarrow> dag_map \<Rightarrow> bool" where
  "reach_inv r dag \<longleftrightarrow> index_ok r \<and> dag_acyclic dag
     \<and> (\<forall>a b. hhas (nodes r) a \<longrightarrow> hhas (nodes r) b \<longrightarrow> (covers (nodes r) a b \<longleftrightarrow> anc_incl dag a b))"

lemma reach_inv_new: "reach_inv reach_new []"
proof -
  have "\<not> anc [] a b" for a b
  proof
    assume "anc [] a b"
    then show False by (cases rule: tranclp.cases) (auto simp: edge_def dag_parents_def)
  qed
  then show ?thesis
    by (simp add: reach_inv_def reach_new_def index_ok_def forest_ok_def labels_ok_def fcs_ok_def hhas_def
        tedge_def is_root_def SPACE_START_def SPACE_END_def dag_acyclic_def)
qed

lemma is_dag_ancestor_incl_iff:
  assumes inv: "reach_inv r dag" and a: "hhas (nodes r) a" and b: "hhas (nodes r) b"
  shows "is_dag_ancestor_incl (nodes r) a b \<longleftrightarrow> anc_incl dag a b"
proof -
  have ok: "labels_ok (nodes r) (next_root_start r)" "forest_ok (nodes r)" "fcs_ok (nodes r)"
    using inv by (auto simp: reach_inv_def index_ok_def)
  have "is_dag_ancestor_incl (nodes r) a b \<longleftrightarrow> covers (nodes r) a b"
    using contains_iff_tanc [OF ok(1,2) a b] fcs_contains_cover_iff [OF ok a b]
    by (simp add: is_dag_ancestor_incl_def is_chain_ancestor_incl_def covers_def)
  then show ?thesis using inv a b by (simp add: reach_inv_def)
qed

theorem is_ancestor_anc:
  assumes inv: "reach_inv r dag"
  shows "is_ancestor r a b dag \<longleftrightarrow> anc dag a b"
proof (cases "hhas (nodes r) a \<and> hhas (nodes r) b")
  case True
  have ac: "dag_acyclic dag" using inv by (simp add: reach_inv_def)
  from True obtain na nb where "hget (nodes r) a = Some na" "hget (nodes r) b = Some nb"
    by (auto simp: hhas_def)
  then have "is_ancestor r a b dag \<longleftrightarrow> a \<noteq> b \<and> is_dag_ancestor_incl (nodes r) a b"
    by (simp add: is_ancestor_def)
  then show ?thesis using is_dag_ancestor_incl_iff [OF inv] True anc_incl_anc [OF ac] by simp
next
  case False
  then show ?thesis
    by (auto simp: is_ancestor_def hhas_def bfs_is_ancestor_iff split: option.splits)
qed

lemma is_chain_ancestor_tanc:
  assumes "reach_inv r dag"
  shows "is_chain_ancestor r a b =
    (if hhas (nodes r) a \<and> hhas (nodes r) b then Some (tanc (nodes r) a b) else None)"
proof -
  have ok: "labels_ok (nodes r) (next_root_start r)" "forest_ok (nodes r)"
    using assms by (auto simp: reach_inv_def index_ok_def)
  show ?thesis
    using contains_iff_tanc [OF ok, of a b]
    by (auto simp: is_chain_ancestor_def iv_def hidx_def hhas_def split: option.splits)
qed

section \<open>Adding a block\<close>

lemma reach_add_block_returns:
  assumes ok: "index_ok r" and h: "\<not> hhas (nodes r) h" and size: "length (nodes r) < 2 ^ 41"
  obtains r' nds1 sp' where "reach_add_block r h sp ms = Some r'" and "index_ok r'"
    and "sp' = (case sp of None \<Rightarrow> None | Some p \<Rightarrow> if hhas (nodes r) p then Some p else None)"
    and "grown (nodes r) nds1 h sp'" and "fcs_step nds1 (nodes r') h (set ms - {h})"
proof -
  define sp' where "sp' = (case sp of None \<Rightarrow> None | Some p \<Rightarrow> if hhas (nodes r) p then Some p else None)"
  have "\<exists>r1. (case sp of Some parent \<Rightarrow> if hhas (nodes r) parent then insert_tree_child r parent h
      else insert_root r h | None \<Rightarrow> insert_root r h) = Some r1 \<and> index_ok r1 \<and> grown (nodes r) (nodes r1) h sp'"
  proof (cases sp')
    case None
    obtain r1 where "insert_root r h = Some r1" "index_ok r1" "grown (nodes r) (nodes r1) h None"
      using insert_root_ok [OF ok h size] by blast
    then show ?thesis using None by (auto simp: sp'_def split: option.splits if_splits)
  next
    case (Some p)
    then have p: "hhas (nodes r) p" "sp = Some p" by (auto simp: sp'_def split: option.splits if_splits)
    obtain r1 where "insert_tree_child r p h = Some r1" "index_ok r1" "grown (nodes r) (nodes r1) h (Some p)"
      using insert_tree_child_ok [OF ok h p(1) size] by blast
    then show ?thesis using Some p by auto
  qed
  then obtain r1 where r1: "(case sp of Some parent \<Rightarrow> if hhas (nodes r) parent then insert_tree_child r parent h
      else insert_root r h | None \<Rightarrow> insert_root r h) = Some r1" "index_ok r1" "grown (nodes r) (nodes r1) h sp'"
    by blast
  define nds2 where "nds2 = fold (\<lambda>m nds. if m \<noteq> h \<and> hhas nds m then insert_to_fcs m h nds else nds) ms (nodes r1)"
  have fo: "forest_ok (nodes r)" using ok by (simp add: index_ok_def)
  have ok1: "labels_ok (nodes r1) (next_root_start r1)" "forest_ok (nodes r1)" "fcs_ok (nodes r1)"
    using r1(2) by (auto simp: index_ok_def)
  have hh: "hhas (nodes r1) h" using r1(3) by (auto simp: grown_def)
  have "sp' \<noteq> Some h" using h by (auto simp: sp'_def split: option.splits if_splits)
  then have leaf: "x = h" if "tanc (nodes r1) h x" for x using tanc_new_leaf [OF r1(3) fo] that by blast
  have st: "fcs_step (nodes r1) nds2 h (set ms - {h})"
    unfolding nds2_def by (rule fcs_fold_ok [OF ok1 hh leaf])
  then have only: "fcs_only (nodes r1) nds2" "fcs_ok nds2" by (auto simp: fcs_step_def)
  have eq: "reach_add_block r h sp ms = Some (r1\<lparr>nodes := nds2\<rparr>)"
    using h r1(1) by (simp add: reach_add_block_def nds2_def)
  show thesis
  proof
    show "index_ok (r1\<lparr>nodes := nds2\<rparr>)"
      using r1(2) only fcs_only_forest [OF only(1) ok1(2)] fcs_only_labels [OF only(1) ok1(2,1)]
      by (simp add: index_ok_def)
  qed (use eq sp'_def r1(3) st in auto)
qed

theorem reach_add_block_ok:
  assumes inv: "reach_inv r dag" and fresh: "dag_fresh dag h" and hp: "h \<notin> set (parents b)"
    and hn: "\<not> hhas (nodes r) h" and size: "length (nodes r) < 2 ^ 41"
    and sp: "case sp of None \<Rightarrow> True | Some p \<Rightarrow> p \<in> set (parents b)
        \<and> (hhas (nodes r) p \<or> (\<forall>a. hhas (nodes r) a \<longrightarrow> \<not> anc_incl dag a p))"
    and ms: "\<forall>a. hhas (nodes r) a \<longrightarrow> (a \<in> set ms \<longleftrightarrow>
        (\<exists>p\<in>set (parents b). anc_incl dag a p) \<and> (case sp of None \<Rightarrow> True | Some p \<Rightarrow> \<not> anc_incl dag a p))"
  obtains r' where "reach_add_block r h sp ms = Some r'" and "reach_inv r' (hput h b dag)"
    and "\<And>x. hhas (nodes r') x \<longleftrightarrow> x = h \<or> hhas (nodes r) x"
proof -
  define nds where "nds = nodes r"
  have ok: "index_ok r" and ac: "dag_acyclic dag"
    and cov: "\<And>a c. hhas nds a \<Longrightarrow> hhas nds c \<Longrightarrow> covers nds a c \<longleftrightarrow> anc_incl dag a c"
    using inv unfolding reach_inv_def nds_def by blast+
  obtain r' nds1 sp' where r': "reach_add_block r h sp ms = Some r'" "index_ok r'"
    "sp' = (case sp of None \<Rightarrow> None | Some p \<Rightarrow> if hhas nds p then Some p else None)"
    "grown nds nds1 h sp'" "fcs_step nds1 (nodes r') h (set ms - {h})"
    using reach_add_block_returns [OF ok hn size] unfolding nds_def by blast
  define nds2 where "nds2 = nodes r'"
  note hn = hn [folded nds_def] and ms = ms [folded nds_def]
  have fo: "forest_ok nds" using ok by (simp add: index_ok_def nds_def)
  have sph: "sp' \<noteq> Some h" using r'(3) hn by (auto split: option.splits if_splits)
  have only: "fcs_only nds1 nds2" using r'(5) by (simp add: fcs_step_def nds2_def)
  note t = fcs_only_tedge [OF only] fcs_only_hhas [OF only]
  have hh: "hhas nds2 x \<longleftrightarrow> x = h \<or> hhas nds x" for x using r'(4) by (simp add: t grown_def)
  have fx: "set (fcs (hidx nds x)) \<subseteq> set (fcs (hidx nds2 x))"
    "set (fcs (hidx nds2 x)) \<subseteq> set (fcs (hidx nds x)) \<union> (if x \<in> set ms - {h} then {h} else {})"
    if "hhas nds x" for x
    using r'(4,5) that by (simp_all add: fcs_step_def grown_def nds2_def)
  have fm: "\<exists>f\<in>set (fcs (hidx nds2 x)). tanc nds2 f h" if "x \<in> set ms" "x \<noteq> h" "hhas nds x" for x
    using r'(4,5) that by (auto simp: fcs_step_def grown_def nds2_def [symmetric] t)
  have fh: "fcs (hidx nds2 h) = []"
    using r'(4,5) by (fastforce simp: fcs_step_def grown_def nds2_def)
  note old = grown_tanc_old [OF r'(4) fo, folded t(1)] and new = grown_tanc_new [OF r'(4) fo sph, folded t(1)]
    and leaf = tanc_new_leaf [OF r'(4) fo sph, folded t(1)]
  have a_old: "anc_incl (hput h b dag) x y \<longleftrightarrow> anc_incl dag x y" if "y \<noteq> h" for x y
    by (rule anc_incl_hput_old [OF fresh that hp])
  have a_new: "anc_incl (hput h b dag) x h \<longleftrightarrow> x = h \<or> (\<exists>p\<in>set (parents b). anc_incl dag x p)" for x
    by (rule anc_incl_hput_new [OF fresh hp])
  have no_h: "\<not> anc_incl dag h y" if "y \<noteq> h" for y
    using that fresh by (metis converse_rtranclpE edge_fresh)
  have c_old: "covers nds2 a c \<longleftrightarrow> covers nds a c" if "hhas nds a" "c \<noteq> h" for a c
    using fx [OF that(1)] that leaf old [of c] unfolding covers_def
    by (fastforce split: if_splits)
  have hf: "h \<notin> set (fcs (hidx nds a))" if "hhas nds a" for a
    using ok hn that by (auto simp: index_ok_def fcs_ok_def nds_def)
  have c_new: "covers nds2 a h \<longleftrightarrow> (\<exists>p\<in>set (parents b). anc_incl dag a p)" if a: "hhas nds a" for a
  proof
    assume "covers nds2 a h"
    then consider "tanc nds2 a h" | f where "f \<in> set (fcs (hidx nds2 a))" "tanc nds2 f h"
      by (auto simp: covers_def)
    then have "a \<in> set ms \<or> (\<exists>p. sp' = Some p \<and> covers nds a p)"
    proof cases
      case 1
      then show ?thesis using new a hn by (auto simp: covers_def)
    next
      case 2
      then have "f \<in> set (fcs (hidx nds a)) \<or> f = h \<and> a \<in> set ms"
        using fx(2) [OF a] by (auto split: if_splits)
      then show ?thesis using hf [OF a] new [of f] 2(2) by (auto simp: covers_def)
    qed
    then show "\<exists>p\<in>set (parents b). anc_incl dag a p"
    proof
      assume "\<exists>p. sp' = Some p \<and> covers nds a p"
      then obtain p where p: "sp' = Some p" "covers nds a p" by blast
      then have "hhas nds p" "p \<in> set (parents b)"
        using r'(3) sp by (auto split: option.splits if_splits)
      with p a cov show ?thesis by blast
    qed (use ms a in auto)
  next
    assume p: "\<exists>p\<in>set (parents b). anc_incl dag a p"
    have ah: "a \<noteq> h" using a hn by auto
    show "covers nds2 a h"
    proof (cases "a \<in> set ms")
      case True
      then show ?thesis using fm [OF True ah a] by (simp add: covers_def)
    next
      case False
      then obtain q where q: "sp = Some q" "anc_incl dag a q"
        using ms a p by (auto split: option.splits)
      then have hq: "hhas nds q" using sp a by (auto simp: nds_def)
      then have sq: "sp' = Some q" using r'(3) q by simp
      have "covers nds a q" using cov [OF a hq] q(2) by simp
      then show ?thesis using fx(1) [OF a] new sq by (auto simp: covers_def)
    qed
  qed
  have "reach_inv r' (hput h b dag)"
    unfolding reach_inv_def nds2_def [symmetric]
  proof (intro conjI allI impI)
    show "dag_acyclic (hput h b dag)" by (rule dag_acyclic_hput [OF ac fresh hp])
    fix x y
    assume x: "hhas nds2 x"
    assume y: "hhas nds2 y"
    show "covers nds2 x y \<longleftrightarrow> anc_incl (hput h b dag) x y"
    proof (cases "x = h")
      case True
      then show ?thesis using leaf [of y] fh a_old [of y h] no_h [of y] by (cases "y = h") (auto simp: covers_def)
    next
      case False
      then have hx: "hhas nds x" using x hh by simp
      then show ?thesis
        using c_old [OF hx] c_new [OF hx] a_old [of y x] a_new [of x] cov [OF hx] y hh False
        by (cases "y = h") auto
    qed
  qed (rule r'(2))
  with r'(1) hh show thesis using that by (simp add: nds2_def nds_def)
qed

section \<open>Removing blocks\<close>

text \<open>
  A sub-forest: some blocks are gone, and with each remaining block all its tree descendants and the
  entries of its covering set that are not dropped leaves remain.
\<close>

definition shrunk :: "node_map \<Rightarrow> node_map \<Rightarrow> hash set \<Rightarrow> bool" where
  \<comment> \<open>\<open>nds'\<close> is \<open>nds\<close> without the blocks outside \<open>K\<close>\<close>
  "shrunk nds nds' K \<longleftrightarrow> hmap_ok nds'
     \<and> (\<forall>x. hhas nds' x \<longleftrightarrow> hhas nds x \<and> x \<in> K)
     \<and> (\<forall>p c. tedge nds' p c \<longleftrightarrow> tedge nds p c \<and> p \<in> K \<and> c \<in> K)
     \<and> (\<forall>x. hhas nds x \<longrightarrow> x \<in> K \<longrightarrow> iv nds' x = iv nds x
          \<and> next_free (hidx nds' x) = next_free (hidx nds x)
          \<and> children nds' x = filter (\<lambda>c. c \<in> K) (children nds x)
          \<and> fcs (hidx nds' x) = filter (\<lambda>c. c \<in> K) (fcs (hidx nds x)))"

lemma shrunk_iv: "shrunk nds nds' K \<Longrightarrow> hhas nds' x \<Longrightarrow> iv nds' x = iv nds x"
  unfolding shrunk_def by blast

lemma shrunk_tanc_sub: "shrunk nds nds' K \<Longrightarrow> tanc nds' a b \<Longrightarrow> tanc nds a b"
  by (rule rtranclp_mono [THEN predicate2D]) (auto simp: shrunk_def)

lemma shrunk_tanc:
  assumes sh: "shrunk nds nds' K" and down: "\<And>x. tanc nds a x \<Longrightarrow> tanc nds x b \<Longrightarrow> x \<in> K"
  shows "tanc nds' a b \<longleftrightarrow> tanc nds a b"
proof
  assume "tanc nds a b"
  then show "tanc nds' a b" using down
  proof (induction rule: rtranclp_induct)
    case (step y z)
    have zK: "z \<in> K" using step.prems [of z] step.hyps by (meson rtranclp.rtrancl_into_rtrancl rtranclp.rtrancl_refl)
    have yK: "y \<in> K" using step.prems [of y] step.hyps by (meson r_into_rtranclp)
    have "tanc nds' a y"
    proof (rule step.IH)
      show "x \<in> K" if "tanc nds a x" "tanc nds x y" for x
        using step.prems [of x] step.hyps that by (meson rtranclp.rtrancl_into_rtrancl)
    qed
    moreover have "tedge nds' y z" using sh step.hyps yK zK by (simp add: shrunk_def)
    ultimately show ?case by (rule rtranclp.rtrancl_into_rtrancl)
  qed simp
qed (rule shrunk_tanc_sub [OF sh])

lemma shrunk_forest:
  assumes sh: "shrunk nds nds' K" and fo: "forest_ok nds"
  shows "forest_ok nds'"
  using sh fo unfolding forest_ok_def shrunk_def by (auto simp: distinct_filter)

lemma shrunk_labels:
  assumes sh: "shrunk nds nds' K" and fo: "forest_ok nds" and lab: "labels_ok nds nrs"
    and convex: "\<And>p c a. tedge nds p c \<Longrightarrow> c \<in> K \<Longrightarrow> tanc nds a p \<Longrightarrow> a \<in> K \<Longrightarrow> p \<in> K"
    and nrs: "\<And>x. hhas nds' x \<Longrightarrow> iend (iv nds x) < nrs'"
  shows "labels_ok nds' nrs'"
proof -
  have iv: "iv nds' x = iv nds x" "next_free (hidx nds' x) = next_free (hidx nds x)" if "hhas nds' x" for x
    using sh that by (auto simp: shrunk_def)
  have sub: "hhas nds x" "x \<in> K" if "hhas nds' x" for x using sh that by (auto simp: shrunk_def)
  have te: "tedge nds p c" "hhas nds' p" "hhas nds' c" if "tedge nds' p c" for p c
    using sh that tedge_hhas forest_parent [OF fo] by (auto simp: shrunk_def)
  have rd: "disj_iv (iv nds x) (iv nds y)" if r: "is_root nds' x" "is_root nds' y" "x \<noteq> y" for x y
  proof -
    have h: "hhas nds' x" "hhas nds' y" using r by (auto simp: is_root_def)
    have no: "\<not> tanc nds a b" if "is_root nds' b" "hhas nds' a" "hhas nds' b" "a \<noteq> b" for a b
    proof
      assume "tanc nds a b"
      then obtain p where p: "tanc nds a p" "tedge nds p b" using \<open>a \<noteq> b\<close> by (auto elim: rtranclp.cases)
      then have "p \<in> K" using convex sub that by blast
      then have "tedge nds' p b" using sh p(2) sub [OF that(3)] by (simp add: shrunk_def)
      with that(1) show False by (simp add: is_root_def)
    qed
    show ?thesis using laminar [OF lab fo sub(1) [OF h(1)] sub(1) [OF h(2)]] no r h by metis
  qed
  note l = lab [unfolded labels_ok_def]
  show ?thesis
    unfolding labels_ok_def
  proof (intro conjI allI impI)
    fix p c
    assume pc: "tedge nds' p c"
    note x = iv [OF te(2) [OF pc]] iv [OF te(3) [OF pc]] te(1) [OF pc]
    show "istart (iv nds' p) \<le> istart (iv nds' c)" "iend (iv nds' c) < next_free (hidx nds' p)"
      using l x by auto
    show "disj_iv (iv nds' c) (iv nds' c')" if pc': "tedge nds' p c'" "c \<noteq> c'" for c'
      using l x iv(1) [OF te(3) [OF pc'(1)]] te(1) [OF pc'(1)] pc'(2) by auto
  next
    fix x
    assume x: "hhas nds' x"
    show "istart (iv nds' x) \<le> next_free (hidx nds' x)" "next_free (hidx nds' x) \<le> iend (iv nds' x)"
      using l sub [OF x] iv [OF x] by auto
  next
    fix x
    assume x: "is_root nds' x"
    then have hx: "hhas nds' x" by (simp add: is_root_def)
    show "iend (iv nds' x) < nrs'" using nrs [OF hx] iv [OF hx] by simp
    show "disj_iv (iv nds' x) (iv nds' y)" if y: "is_root nds' y" "x \<noteq> y" for y
    proof -
      have "hhas nds' y" using y(1) by (simp add: is_root_def)
      then show ?thesis using rd [OF x y] iv(1) [OF hx] iv(1) [of y] by simp
    qed
  qed
qed

lemma shrunk_fcs_ok:
  assumes sh: "shrunk nds nds' K" and fo: "forest_ok nds" and fc: "fcs_ok nds"
  shows "fcs_ok nds'"
  unfolding fcs_ok_def
proof (intro allI impI)
  fix x
  assume x: "hhas nds' x"
  then have hx: "hhas nds x" "x \<in> K" using sh by (auto simp: shrunk_def)
  define fs where "fs = fcs (hidx nds x)"
  have fs: "\<forall>y\<in>set fs. hhas nds y" "distinct fs" "\<forall>y\<in>set fs. \<forall>z\<in>set fs. tanc nds y z \<longrightarrow> y = z"
    "sorted (map (\<lambda>y. istart (iv nds y)) fs)"
    using fc hx by (auto simp: fcs_ok_def fs_def)
  have f': "fcs (hidx nds' x) = filter (\<lambda>c. c \<in> K) fs" using sh hx by (simp add: shrunk_def fs_def)
  have mp: "map (\<lambda>y. istart (iv nds' y)) (filter (\<lambda>c. c \<in> K) fs) = map (\<lambda>y. istart (iv nds y)) (filter (\<lambda>c. c \<in> K) fs)"
    using sh fs(1) by (auto simp: shrunk_def)
  show "(\<forall>y\<in>set (fcs (hidx nds' x)). hhas nds' y) \<and> distinct (fcs (hidx nds' x))
      \<and> (\<forall>y\<in>set (fcs (hidx nds' x)). \<forall>z\<in>set (fcs (hidx nds' x)). tanc nds' y z \<longrightarrow> y = z)
      \<and> sorted (map (\<lambda>y. istart (iv nds' y)) (fcs (hidx nds' x)))"
    unfolding f' mp
    using fs sh shrunk_tanc_sub [OF sh] sorted_filter by (auto simp: shrunk_def)
qed

lemma shrunk_covers:
  assumes sh: "shrunk nds nds' K" and a: "hhas nds a" "a \<in> K" and b: "b \<in> K"
    and down: "\<And>x y. tanc nds x y \<Longrightarrow> x \<in> K \<Longrightarrow> y \<in> K \<Longrightarrow> tanc nds' x y"
    and fk: "\<And>f. f \<in> set (fcs (hidx nds a)) \<Longrightarrow> tanc nds f b \<Longrightarrow> f \<in> K"
  shows "covers nds' a b \<longleftrightarrow> covers nds a b"
proof -
  have "set (fcs (hidx nds' a)) = {f \<in> set (fcs (hidx nds a)). f \<in> K}"
    using sh a by (auto simp: shrunk_def)
  then show ?thesis
    using shrunk_tanc_sub [OF sh] down a b fk unfolding covers_def by blast
qed

section \<open>Dropping a leaf\<close>

lemma drop_leaf_shrunk:
  assumes fo: "forest_ok (nodes r)" and n: "hget (nodes r) h = Some n" and leaf: "tree_children n = []"
  shows "shrunk (nodes r) (nodes (drop_leaf r h)) (- {h})"
proof -
  define nds where "nds = nodes r"
  define nds1 where "nds1 = hdel h nds"
  define nds2 where "nds2 = (case tree_parent n of None \<Rightarrow> nds1
     | Some p \<Rightarrow> (case hget nds1 p of None \<Rightarrow> nds1
         | Some pn \<Rightarrow> hput p (pn\<lparr>tree_children := filter (\<lambda>c. c \<noteq> h) (tree_children pn)\<rparr>) nds1))"
  define nds' where "nds' = hmap_values (\<lambda>m. m\<lparr>fcs := filter (\<lambda>x. x \<noteq> h) (fcs m)\<rparr>) nds2"
  note fo = fo [folded nds_def] and n = n [folded nds_def]
  have eq: "nodes (drop_leaf r h) = nds'"
    using n leaf unfolding nds'_def nds2_def nds1_def nds_def by (simp add: drop_leaf_def Let_def)
  have ok: "hmap_ok nds" using fo by (simp add: forest_ok_def)
  have kids: "h \<in> set (children nds x) \<longleftrightarrow> tree_parent n = Some x" if "hhas nds x" for x
    using children_iff [OF fo that] n by (simp add: tedge_def)
  have g2: "hget nds2 x = (if x = h then None else map_option
      (\<lambda>m. m\<lparr>tree_children := filter (\<lambda>c. c \<noteq> h) (tree_children m)\<rparr>) (hget nds x))" for x
  proof -
    have same: "m\<lparr>tree_children := filter (\<lambda>c. c \<noteq> h) (tree_children m)\<rparr> = m"
      if "hget nds x = Some m" "tree_parent n \<noteq> Some x" for m
    proof -
      have "h \<notin> set (children nds x)" using kids [of x] that by (simp add: hhas_def)
      then have "h \<notin> set (tree_children m)" using that(1) by (simp add: hidx_def)
      then have "filter (\<lambda>c. c \<noteq> h) (tree_children m) = tree_children m" by (auto simp: filter_id_conv)
      then show ?thesis by simp
    qed
    have pp: "hget nds p \<noteq> None" if "tree_parent n = Some p" for p
      using forest_parent [OF fo, of p h] that n by (simp add: tedge_def hhas_def)
    show ?thesis
      by (cases "hget nds x") (auto simp: nds2_def nds1_def same pp split: option.splits)
  qed
  have "hmap_ok nds2" using ok by (auto simp: nds2_def nds1_def split: option.splits)
  then have ok': "hmap_ok nds'" by (simp add: nds'_def)
  have g': "hget nds' x = (if x = h then None else map_option (\<lambda>m. m\<lparr>fcs := filter (\<lambda>x. x \<noteq> h) (fcs m),
      tree_children := filter (\<lambda>c. c \<noteq> h) (tree_children m)\<rparr>) (hget nds x))" for x
    by (cases "hget nds x") (simp_all add: nds'_def g2)
  have nt: "\<not> tedge nds h c" for c
    using children_iff [OF fo, of h c] n leaf by (simp add: hhas_def hidx_def)
  show ?thesis
    unfolding eq nds_def [symmetric] shrunk_def
    using ok' nt by (auto simp: g' hhas_def tedge_def hidx_def iv_def)
qed

theorem drop_leaf_ok:
  assumes inv: "reach_inv r dag"
  shows "reach_inv (drop_leaf r h) dag"
proof (cases "\<exists>n. hget (nodes r) h = Some n \<and> tree_children n = []")
  case False
  then have "drop_leaf r h = r" by (auto simp: drop_leaf_def split: option.splits)
  with inv show ?thesis by simp
next
  case True
  then obtain n where n: "hget (nodes r) h = Some n" "tree_children n = []" by blast
  define nds where "nds = nodes r"
  define nds' where "nds' = nodes (drop_leaf r h)"
  have ok: "forest_ok nds" "labels_ok nds (next_root_start r)" "fcs_ok nds"
    using inv by (auto simp: reach_inv_def index_ok_def nds_def)
  have sh: "shrunk nds nds' (- {h})"
    unfolding nds_def nds'_def by (rule drop_leaf_shrunk) (use n ok in \<open>auto simp: nds_def\<close>)
  have nt: "\<not> tedge nds h c" for c
    using children_iff [OF ok(1), of h c] n by (simp add: hhas_def hidx_def nds_def)
  have ht: "x = h" if "tanc nds h x" for x using that nt by (auto elim: converse_rtranclpE)
  have nrs: "next_root_start (drop_leaf r h) = next_root_start r"
    by (auto simp: drop_leaf_def Let_def split: option.splits)
  have "labels_ok nds' (next_root_start r)"
    by (rule shrunk_labels [OF sh ok(1,2)])
      (use nt labels_bound [OF ok(2,1)] sh in \<open>auto simp: shrunk_def\<close>)
  then have "index_ok (drop_leaf r h)"
    using inv shrunk_forest [OF sh ok(1)] shrunk_fcs_ok [OF sh ok(1,3)]
    by (simp add: index_ok_def reach_inv_def nrs nds'_def)
  moreover have "covers nds' a b \<longleftrightarrow> covers nds a b" if "hhas nds' a" "hhas nds' b" for a b
  proof (rule shrunk_covers [OF sh])
    show "tanc nds' x y" if "tanc nds x y" "y \<in> - {h}" for x y
      using shrunk_tanc [OF sh] that ht by blast
    show "f \<in> - {h}" if "tanc nds f b" for f using that ht \<open>hhas nds' b\<close> sh by (auto simp: shrunk_def)
  qed (use that sh in \<open>auto simp: shrunk_def\<close>)
  ultimately show ?thesis
    using inv sh unfolding reach_inv_def nds_def [symmetric] nds'_def [symmetric] by (simp add: shrunk_def)
qed

section \<open>Keeping a future-closed set\<close>

lemma retain_shrunk:
  assumes fo: "forest_ok (nodes r)"
  shows "shrunk (nodes r) (nodes (reach_retain r keep)) keep"
proof -
  define nds where "nds = nodes r"
  have ok: "hmap_ok nds" using fo by (simp add: forest_ok_def nds_def)
  define nds' where "nds' = hmap_values (retain_node keep) (hretain (\<lambda>h _. h \<in> keep) nds)"
  have eq: "nodes (reach_retain r keep) = nds'" by (simp add: reach_retain_def Let_def nds'_def nds_def)
  have g: "hget nds' x = (if x \<in> keep then map_option (retain_node keep) (hget nds x) else None)" for x
    by (simp add: nds'_def hget_hretain [OF ok] split: option.splits)
  have ok': "hmap_ok nds'" using ok by (simp add: nds'_def)
  show ?thesis
    unfolding eq nds_def [symmetric] shrunk_def
  proof (intro conjI allI impI)
    show "hhas nds' x \<longleftrightarrow> hhas nds x \<and> x \<in> keep" for x by (simp add: hhas_def g)
    show "tedge nds' p c \<longleftrightarrow> tedge nds p c \<and> p \<in> keep \<and> c \<in> keep" for p c
      by (cases "hget nds c") (auto simp: tedge_def g retain_node_def split: option.splits if_splits)
  qed (use ok' in \<open>auto simp: g hhas_def hidx_def iv_def retain_node_def\<close>)
qed

theorem reach_retain_ok:
  assumes inv: "reach_inv r dag" and ok: "hmap_ok dag"
    and up: "\<And>a x. a \<in> keep \<Longrightarrow> edge dag a x \<Longrightarrow> x \<in> keep"
  shows "reach_inv (reach_retain r keep) (hretain (\<lambda>h _. h \<in> keep) dag)"
proof -
  define nds where "nds = nodes r"
  define r' where "r' = reach_retain r keep"
  define nds' where "nds' = nodes r'"
  define dag' where "dag' = hretain (\<lambda>h _. h \<in> keep) dag"
  have i: "forest_ok nds" "labels_ok nds (next_root_start r)" "fcs_ok nds" "next_root_start r \<le> SPACE_END"
    "dag_acyclic dag"
    and cov: "\<And>a b. hhas nds a \<Longrightarrow> hhas nds b \<Longrightarrow> covers nds a b \<longleftrightarrow> anc_incl dag a b"
    using inv by (auto simp: reach_inv_def index_ok_def nds_def)
  have sh: "shrunk nds nds' keep"
    unfolding nds_def nds'_def r'_def by (rule retain_shrunk) (use i in \<open>simp add: nds_def\<close>)
  have sub: "hhas nds x" "x \<in> keep" if "hhas nds' x" for x using that sh by (auto simp: shrunk_def)
  have up': "b \<in> keep" if "anc_incl dag a b" "a \<in> keep" for a b
    using that by (induction rule: rtranclp_induct) (auto intro: up)
  have tup: "b \<in> keep" if "tanc nds a b" "hhas nds a" "a \<in> keep" for a b
  proof -
    have "hhas nds b" using tanc_hhas_down that by blast
    moreover have "covers nds a b" using that(1) by (simp add: covers_def)
    ultimately show ?thesis using up' cov that by blast
  qed
  have bound: "iend (iv nds x) + 1 \<le> SPACE_END" if "hhas nds x" for x
    using labels_bound [OF i(2,1) that] i(4) by simp
  have nrs: "next_root_start r' = (if nds' = [] then SPACE_START
      else Max ((\<lambda>(h, n). wadd64 (iend (n_interval n)) 1) ` set nds'))"
    by (simp add: r'_def nds'_def reach_retain_def Let_def)
  have mem: "hhas nds' x \<and> hidx nds' x = n" if "(x, n) \<in> set nds'" for x n
    using that sh by (simp add: shrunk_def hmap_ok_def hhas_def hidx_def)
  have wadd: "wadd64 (iend (n_interval n)) 1 = iend (iv nds x) + 1" if "(x, n) \<in> set nds'" for x n
  proof -
    have "n_interval n = iv nds' x" using mem [OF that] by (simp add: iv_def)
    also have "\<dots> = iv nds x" by (rule shrunk_iv [OF sh]) (use mem [OF that] in blast)
    finally have "n_interval n = iv nds x" .
    moreover have "iend (iv nds x) + 1 \<le> SPACE_END" using bound mem [OF that] sub by blast
    ultimately show ?thesis by (simp add: wadd64_exact SPACE_END_def)
  qed
  have lt: "iend (iv nds x) < next_root_start r'" if x: "hhas nds' x" for x
  proof -
    obtain n where n: "(x, n) \<in> set nds'" using x by (auto simp: hhas_def dest: map_of_SomeD)
    then have "wadd64 (iend (n_interval n)) 1 \<le> Max ((\<lambda>(h, n). wadd64 (iend (n_interval n)) 1) ` set nds')"
      by (intro Max_ge) force+
    then have "iend (iv nds x) + 1 \<le> Max ((\<lambda>(h, n). wadd64 (iend (n_interval n)) 1) ` set nds')"
      using wadd [OF n] by simp
    moreover have "nds' \<noteq> []" using n by auto
    ultimately show ?thesis unfolding nrs by simp
  qed
  have "next_root_start r' \<le> SPACE_END"
  proof (cases "nds' = []")
    case False
    then have "Max ((\<lambda>(h, n). wadd64 (iend (n_interval n)) 1) ` set nds') \<le> SPACE_END"
      using wadd bound mem sub by (subst Max_le_iff) fastforce+
    with False show ?thesis by (simp add: nrs)
  qed (simp add: nrs SPACE_START_def SPACE_END_def)
  moreover have "labels_ok nds' (next_root_start r')"
    by (rule shrunk_labels [OF sh i(1,2) _ lt])
      (use tup tanc_hhas_up [OF _ i(1)] forest_parent [OF i(1)] in blast)
  ultimately have "index_ok r'"
    using shrunk_forest [OF sh i(1)] shrunk_fcs_ok [OF sh i(1,3)] by (simp add: index_ok_def nds'_def)
  moreover have "dag_acyclic dag'"
  proof -
    have "anc dag a b" if "anc dag' a b" for a b
      using that by (induction rule: tranclp_induct)
        (auto simp: dag'_def edge_hretain [OF ok] intro: tranclp.trancl_into_trancl)
    then show ?thesis using i(5) by (auto simp: dag_acyclic_def)
  qed
  moreover have "covers nds' a b \<longleftrightarrow> anc_incl dag' a b" if ab: "hhas nds' a" "hhas nds' b" for a b
  proof -
    have "covers nds' a b \<longleftrightarrow> covers nds a b"
    proof (rule shrunk_covers [OF sh])
      show "tanc nds' x y" if "tanc nds x y" "x \<in> keep" "y \<in> keep" for x y
      proof (cases "x = y")
        case False
        with that(1) have "hhas nds x" using tanc_step forest_parent [OF i(1)] by metis
        with that shrunk_tanc [OF sh] tup show ?thesis by blast
      qed simp
      show "f \<in> keep" if f: "f \<in> set (fcs (hidx nds a))" for f
      proof -
        have "hhas nds f" using f i(3) sub ab by (auto simp: fcs_ok_def)
        moreover have "covers nds a f" using f by (auto simp: covers_def)
        ultimately show ?thesis using cov up' sub ab by blast
      qed
    qed (use sub ab in auto)
    also have "\<dots> \<longleftrightarrow> anc_incl dag a b" using cov sub ab by blast
    also have "\<dots> \<longleftrightarrow> anc_incl dag' a b"
      unfolding dag'_def using anc_incl_hretain [of dag keep a b] ok up sub ab by blast
    finally show ?thesis .
  qed
  ultimately show ?thesis
    by (simp add: reach_inv_def nds'_def r'_def dag'_def)
qed

section \<open>Runs of the index\<close>

lemma hmap_cong:
  assumes "hget m' = hget m"
  shows "hhas m' = hhas m" "hidx m' = hidx m"
  using assms by (auto simp: hhas_def hidx_def fun_eq_iff)

lemma index_ok_cong:
  assumes g: "hget m' = hget (nodes r)" and ok: "hmap_ok m'" and i: "index_ok r"
  shows "index_ok (r\<lparr>nodes := m'\<rparr>)"
proof -
  note c = hmap_cong [OF g]
  have te: "tedge m' = tedge (nodes r)" by (intro ext) (simp add: tedge_def g)
  have iv: "iv m' = iv (nodes r)" by (intro ext) (simp add: iv_def c)
  have rt: "is_root m' = is_root (nodes r)" by (intro ext) (simp add: is_root_def c te)
  show ?thesis
    using i ok by (simp add: index_ok_def forest_ok_def labels_ok_def fcs_ok_def te iv rt c)
qed

lemma reach_inv_cong:
  assumes g: "hget m' = hget (nodes r)" and ok: "hmap_ok m'" and d: "hget dag' = hget dag"
    and inv: "reach_inv r dag"
  shows "reach_inv (r\<lparr>nodes := m'\<rparr>) dag'"
proof -
  note c = hmap_cong [OF g]
  have e: "edge dag' = edge dag" by (intro ext) (simp add: edge_def dag_parents_def d)
  have te: "tedge m' = tedge (nodes r)" by (intro ext) (simp add: tedge_def g)
  have cv: "covers m' = covers (nodes r)" by (intro ext) (simp add: covers_def te c)
  show ?thesis
    using inv index_ok_cong [OF g ok] by (simp add: reach_inv_def dag_acyclic_def e cv c)
qed

definition merged_by :: "reachability \<Rightarrow> dag_map \<Rightarrow> hash list \<Rightarrow> hash option \<Rightarrow> hash list \<Rightarrow> bool" where
  \<comment> \<open>\<open>ms\<close> lists, of the indexed blocks, those in the past of \<open>ps\<close> and not in the past of \<open>sp\<close>\<close>
  "merged_by r dag ps sp ms \<longleftrightarrow> (\<forall>a\<in>set (hkeys (nodes r)). a \<in> set ms \<longleftrightarrow>
     (\<exists>p\<in>set ps. a = p \<or> bfs_is_ancestor dag a p)
     \<and> (case sp of None \<Rightarrow> True | Some p \<Rightarrow> a \<noteq> p \<and> \<not> bfs_is_ancestor dag a p))"

definition placeable :: "reachability \<Rightarrow> dag_map \<Rightarrow> hash list \<Rightarrow> hash option \<Rightarrow> bool" where
  \<comment> \<open>the selected parent is a parent, and indexed unless no indexed block is in its past\<close>
  "placeable r dag ps sp \<longleftrightarrow> (case sp of None \<Rightarrow> True | Some p \<Rightarrow> p \<in> set ps
     \<and> (hhas (nodes r) p \<or> (\<forall>a\<in>set (hkeys (nodes r)). a \<noteq> p \<and> \<not> bfs_is_ancestor dag a p)))"

inductive index_run :: "reachability \<Rightarrow> dag_map \<Rightarrow> bool" where
  init: "index_run reach_new []"
| add: "index_run r dag \<Longrightarrow> dag_fresh dag h \<Longrightarrow> \<not> hhas (nodes r) h \<Longrightarrow> h \<notin> set (parents b) \<Longrightarrow>
    length (nodes r) < 2 ^ 41 \<Longrightarrow> placeable r dag (parents b) sp \<Longrightarrow> merged_by r dag (parents b) sp ms \<Longrightarrow>
    reach_add_block r h sp ms = Some r' \<Longrightarrow> index_run r' (hput h b dag)"
| drop: "index_run r dag \<Longrightarrow> index_run (drop_leaf r h) dag"
| retain: "index_run r dag \<Longrightarrow> \<forall>a x. a \<in> keep \<longrightarrow> edge dag a x \<longrightarrow> x \<in> keep \<Longrightarrow>
    index_run (reach_retain r keep) (hretain (\<lambda>h _. h \<in> keep) dag)"
| rehash: "index_run r dag \<Longrightarrow> hget m' = hget (nodes r) \<Longrightarrow> hmap_ok m' \<Longrightarrow> hget dag' = hget dag \<Longrightarrow>
    hmap_ok dag' \<Longrightarrow> index_run (r\<lparr>nodes := m'\<rparr>) dag'"

lemma anc_incl_bfs: "anc_incl dag a b \<longleftrightarrow> a = b \<or> bfs_is_ancestor dag a b"
  by (auto simp: bfs_is_ancestor_iff dest: rtranclpD tranclp_into_rtranclp)

lemma index_run_add:
  assumes inv: "reach_inv r dag" and fresh: "dag_fresh dag h" and hn: "\<not> hhas (nodes r) h"
    and hp: "h \<notin> set (parents b)" and size: "length (nodes r) < 2 ^ 41"
    and sp: "placeable r dag (parents b) sp" and ms: "merged_by r dag (parents b) sp ms"
  obtains r' where "reach_add_block r h sp ms = Some r'" and "reach_inv r' (hput h b dag)"
    and "\<And>x. hhas (nodes r') x \<longleftrightarrow> x = h \<or> hhas (nodes r) x"
proof (rule reach_add_block_ok [OF inv fresh hp hn size])
  show "case sp of None \<Rightarrow> True | Some p \<Rightarrow> p \<in> set (parents b)
      \<and> (hhas (nodes r) p \<or> (\<forall>a. hhas (nodes r) a \<longrightarrow> \<not> anc_incl dag a p))"
    using sp by (auto simp: placeable_def anc_incl_bfs hhas_iff split: option.splits)
  show "\<forall>a. hhas (nodes r) a \<longrightarrow> (a \<in> set ms \<longleftrightarrow> (\<exists>p\<in>set (parents b). anc_incl dag a p)
      \<and> (case sp of None \<Rightarrow> True | Some p \<Rightarrow> \<not> anc_incl dag a p))"
    using ms by (auto simp: merged_by_def anc_incl_bfs hhas_iff split: option.splits)
qed (use that in blast)

lemma index_run_inv: "index_run r dag \<Longrightarrow> reach_inv r dag \<and> hmap_ok dag"
proof (induction rule: index_run.induct)
  case (add r dag h b sp ms r')
  then show ?case using index_run_add [of r dag h b sp ms] by (metis hmap_ok_hput option.inject)
next
  case (retain r dag keep)
  then show ?case using reach_retain_ok [of r dag keep] by blast
qed (auto simp: reach_inv_new drop_leaf_ok intro: reach_inv_cong)

section \<open>A two-block run\<close>

definition demo_block :: "hash list \<Rightarrow> block" where
  "demo_block ps = \<lparr>height = 0, timestamp = 0, parents = ps, interlinks = [], transparent_txs = [],
     utxo_txs = [], registry_ops = [], custody_ops = [], b_merkle_root = 0, b_state_root = 0,
     miner = 0, creator_pubkey = [], b_nonce = 0, b_difficulty = 0, version = 0,
     coinbase_entropy = 0, stark_proof = [], birth_certificate = [], b_size = 0\<rparr>"

definition demo_dag :: dag_map where
  \<comment> \<open>block 1 below genesis 0\<close>
  "demo_dag = [(0, demo_block []), (1, demo_block [0])]"

definition demo_reach0 :: reachability where
  "demo_reach0 = \<lparr>nodes = [(0, leaf_node \<lparr>istart = 1, iend = 1048576\<rparr> None)],
     next_root_start = 1048577\<rparr>"

definition demo_reach :: reachability where
  "demo_reach = the (reach_add_block demo_reach0 1 (Some 0) [])"

lemmas demo_eval = reach_add_block_def insert_root_def insert_tree_child_def try_place_child_def
  leaf_node_def SPACE_START_def SPACE_END_def SCALE_def SIBLING_RESERVE_def sat_add64_def wadd64_def
  hhas_def hidx_def

lemma demo_run0: "index_run demo_reach0 [(0, demo_block [])]"
proof -
  have eq: "reach_add_block reach_new 0 None [] = Some demo_reach0"
    by (simp add: demo_eval reach_new_def demo_reach0_def)
  have "index_run demo_reach0 (hput 0 (demo_block []) [])"
    by (rule index_run.add [OF index_run.init _ _ _ _ _ _ eq])
      (simp_all add: dag_fresh_def hhas_def edge_def dag_parents_def demo_block_def placeable_def
        merged_by_def reach_new_def)
  then show ?thesis by simp
qed

lemma demo_run: "index_run demo_reach demo_dag"
proof -
  have eq: "reach_add_block demo_reach0 1 (Some 0) [] = Some demo_reach"
    by (simp add: demo_reach_def demo_eval demo_reach0_def)
  have "index_run demo_reach (hput 1 (demo_block [0]) [(0, demo_block [])])"
    by (rule index_run.add [OF demo_run0 _ _ _ _ _ _ eq])
      (simp_all add: dag_fresh_def hhas_def edge_def dag_parents_def demo_block_def placeable_def
        merged_by_def demo_reach0_def)
  then show ?thesis by (simp add: demo_dag_def)
qed

section \<open>Properties\<close>

text \<open>
  C18. In every state that insertions, leaf removals, pruning and rehashing can reach, the index
  answers an ancestor query as the search over parent edges does.
\<close>

theorem index_agrees_with_bfs:
  assumes "index_run r dag"
  shows "is_ancestor r a b dag \<longleftrightarrow> bfs_is_ancestor dag a b"
  using is_ancestor_anc index_run_inv [OF assms] by (simp add: bfs_is_ancestor_iff)

theorem index_agrees_with_bfs_witness:
  "index_run demo_reach demo_dag \<and> bfs_is_ancestor demo_dag 0 1 \<and> is_ancestor demo_reach 0 1 demo_dag
   \<and> \<not> is_ancestor demo_reach 1 0 demo_dag"
proof -
  have "bfs_is_ancestor demo_dag 0 1" "\<not> bfs_is_ancestor demo_dag 1 0"
    by (simp_all add: bfs_is_ancestor_iff anc_iff_parent dag_parents_def demo_dag_def demo_block_def)
  then show ?thesis using index_agrees_with_bfs [OF demo_run] demo_run by simp
qed

text \<open>
  Inserting a block never fails and never loops: relabelling, when the labels run out, ends and
  leaves room, and the new state answers queries on the larger DAG.
\<close>

theorem reach_add_block_total:
  assumes "index_run r dag" and "dag_fresh dag h" and "\<not> hhas (nodes r) h" and "h \<notin> set (parents b)"
    and "length (nodes r) < 2 ^ 41" and "placeable r dag (parents b) sp"
    and "merged_by r dag (parents b) sp ms"
  shows "\<exists>r'. reach_add_block r h sp ms = Some r' \<and> index_run r' (hput h b dag)
    \<and> (\<forall>x. hhas (nodes r') x \<longleftrightarrow> x = h \<or> hhas (nodes r) x)"
proof -
  have "reach_inv r dag" using index_run_inv [OF assms(1)] by blast
  from index_run_add [OF this assms(2-7)] index_run.add [OF assms] show ?thesis by metis
qed

theorem reach_add_block_total_witness:
  "\<exists>r'. reach_add_block demo_reach 2 (Some 0) [1] = Some r'
     \<and> index_run r' (hput 2 (demo_block [0, 1]) demo_dag)
     \<and> (\<forall>x. hhas (nodes r') x \<longleftrightarrow> x = 2 \<or> hhas (nodes demo_reach) x)"
proof (rule reach_add_block_total [OF demo_run])
  have n: "hkeys (nodes demo_reach) = [0, 1]"
    by (simp add: demo_reach_def demo_reach0_def demo_eval)
  then have "length (nodes demo_reach) = 2" by (metis length_map length_Cons list.size(3) numeral_2_eq_2)
  then show "length (nodes demo_reach) < 2 ^ 41" by simp
  show "\<not> hhas (nodes demo_reach) 2" by (simp add: hhas_iff n)
  have e: "edge demo_dag x y \<longleftrightarrow> x = 0 \<and> y = 1" for x y
    by (simp add: edge_def dag_parents_def demo_dag_def demo_block_def)
  then show "dag_fresh demo_dag 2" by (simp add: dag_fresh_def hhas_def demo_dag_def)
  show "2 \<notin> set (parents (demo_block [0, 1]))" by (simp add: demo_block_def)
  show "placeable demo_reach demo_dag (parents (demo_block [0, 1])) (Some 0)"
    by (simp add: placeable_def demo_block_def hhas_iff n)
  have "bfs_is_ancestor demo_dag x y \<longleftrightarrow> x = 0 \<and> y = 1" for x y
  proof -
    have "anc demo_dag x y \<longleftrightarrow> x = 0 \<and> y = 1"
      by (auto simp: e tranclp.r_into_trancl elim: tranclp_induct)
    then show ?thesis by (simp add: bfs_is_ancestor_iff)
  qed
  then show "merged_by demo_reach demo_dag (parents (demo_block [0, 1])) (Some 0) [1]"
    by (auto simp: merged_by_def n demo_block_def)
qed

text \<open>
  The finality check's query \<open>is_chain_ancestor\<close> decides ancestry along selected-parent links,
  and is undecided exactly when a block is not in the index.
\<close>

theorem is_chain_ancestor_exact:
  assumes "index_run r dag"
  shows "is_chain_ancestor r a b =
    (if hhas (nodes r) a \<and> hhas (nodes r) b then Some (tanc (nodes r) a b) else None)"
  using is_chain_ancestor_tanc index_run_inv [OF assms] by blast

theorem is_chain_ancestor_exact_witness:
  "is_chain_ancestor demo_reach 0 1 = Some (tanc (nodes demo_reach) 0 1)
   \<and> is_chain_ancestor demo_reach 0 7 = None"
proof -
  have n: "hhas (nodes demo_reach) 0" "hhas (nodes demo_reach) 1" "\<not> hhas (nodes demo_reach) 7"
    by (simp_all add: demo_reach_def demo_reach0_def demo_eval)
  show ?thesis using is_chain_ancestor_exact [OF demo_run] n by simp
qed

end
