(* ===== verification/Ghostdag.thy ===== *)
theory Ghostdag
  imports Reachability "HOL-Library.Product_Lexorder"
begin

text \<open>
  GHOSTDAG colouring of \<open>src/ghostdag.rs\<close>: the selected parent, the mergeset of a new block, its
  topological order, the k-cluster rule that colours each merged block blue or red, the blue score,
  the selected chain and the selected tip.

  A \<open>HashSet\<close> is a list without duplicates. The two walks along selected parents return an option,
  \<open>None\<close> for a walk that does not end. The functions that only ask ancestor queries
  (\<open>rank_in\<close>, \<open>order_by_rank\<close>, \<open>anticone\<close>, \<open>kcolor\<close>) take the query as an argument; the code's functions
  pass the reachability index.
\<close>

definition GHOSTDAG_K :: nat where "GHOSTDAG_K = 40"

definition ghostdag_genesis :: ghostdag_data where
  "ghostdag_genesis = \<lparr>blue_score = 0, selected_parent = None, mergeset_blues = [], mergeset_reds = []\<rparr>"

partial_function (option) blues_loop ::
  "ghostdag_map \<Rightarrow> hash option \<Rightarrow> hash list \<Rightarrow> hash list option" where
  "blues_loop gd cursor blues =
     (case cursor of
        None \<Rightarrow> Some blues
      | Some h \<Rightarrow>
          (case hget gd h of
             None \<Rightarrow> Some blues
           | Some d \<Rightarrow> blues_loop gd (selected_parent d) (fold List.insert (mergeset_blues d) blues)))"

declare blues_loop.simps [code]

definition materialized_blues :: "ghostdag_map \<Rightarrow> hash \<Rightarrow> hash list option" where
  "materialized_blues gd block = blues_loop gd (Some block) [block]"

definition sp_past :: "dag_map \<Rightarrow> hash \<Rightarrow> hash list" where
  "sp_past dag sp = bfs_loop dag (rev (dag_parents dag sp)) [sp]"

definition mergeset :: "dag_map \<Rightarrow> hash list \<Rightarrow> hash \<Rightarrow> hash list" where
  "mergeset dag ps sp = mergeset_loop dag (set (sp_past dag sp)) (rev ps) []"

section \<open>Topological order\<close>

definition rank_in :: "(hash \<Rightarrow> hash \<Rightarrow> bool) \<Rightarrow> hash list \<Rightarrow> hash \<Rightarrow> nat" where
  "rank_in q ms h = length (filter (\<lambda>x. x \<noteq> h \<and> x \<in> set ms \<and> q x h) ms)"

definition order_by_rank :: "(hash \<Rightarrow> hash \<Rightarrow> bool) \<Rightarrow> hash list \<Rightarrow> hash list" where
  "order_by_rank q ms = map snd (sort (map (\<lambda>h. (rank_in q ms h, h)) ms))"

definition topological_order :: "dag_map \<Rightarrow> reachability \<Rightarrow> hash list \<Rightarrow> hash list" where
  "topological_order dag r ms = order_by_rank (\<lambda>a b. is_ancestor r a b dag) ms"

section \<open>Selected parent\<close>

definition score_key :: "ghostdag_map \<Rightarrow> hash \<Rightarrow> nat \<times> hash" where
  "score_key gd h = (blue_score (hidx gd h), h)"

definition max_by_score :: "ghostdag_map \<Rightarrow> hash list \<Rightarrow> hash option" where
  \<comment> \<open>\<open>iter().max_by(...)\<close>: the later of two equal elements wins\<close>
  "max_by_score gd xs =
     (case xs of
        [] \<Rightarrow> None
      | x # ys \<Rightarrow> Some (foldl (\<lambda>a b. if score_key gd a \<le> score_key gd b then b else a) x ys))"

definition select_parent :: "ghostdag_map \<Rightarrow> hash list \<Rightarrow> hash option" where
  "select_parent gd ps = max_by_score gd (filter (hhas gd) ps)"

definition selected_tip :: "ghostdag_map \<Rightarrow> hash list \<Rightarrow> hash option" where
  "selected_tip gd tips = max_by_score gd (filter (hhas gd) tips)"

section \<open>Colouring\<close>

definition anticone :: "(hash \<Rightarrow> hash \<Rightarrow> bool) \<Rightarrow> hash \<Rightarrow> hash \<Rightarrow> bool" where
  "anticone q x y \<longleftrightarrow> x \<noteq> y \<and> \<not> q x y \<and> \<not> q y x"

definition kcolor :: "(hash \<Rightarrow> hash \<Rightarrow> bool) \<Rightarrow> hash list \<Rightarrow> hash \<Rightarrow> bool" where
  "kcolor q blues c =
     (let ca = filter (\<lambda>b. anticone q b c) blues
      in if length ca > GHOSTDAG_K then False
         else list_all (\<lambda>d. \<not> length (filter (\<lambda>b. anticone q b d) blues) \<ge> GHOSTDAG_K) ca)"

definition color_candidate_blue :: "dag_map \<Rightarrow> reachability \<Rightarrow> hash list \<Rightarrow> hash \<Rightarrow> bool" where
  "color_candidate_blue dag r blues c = kcolor (\<lambda>a b. is_ancestor r a b dag) blues c"

fun color_loop ::
  "(hash list \<Rightarrow> hash \<Rightarrow> bool) \<Rightarrow> hash list \<Rightarrow> hash list \<Rightarrow> hash list \<Rightarrow> hash list \<Rightarrow> hash list \<times> hash list" where
  \<comment> \<open>\<open>for candidate in ...\<close>, over \<open>current_blues\<close>, \<open>mergeset_blues\<close>, \<open>mergeset_reds\<close>\<close>
  "color_loop col [] cur bl rd = (bl, rd)"
| "color_loop col (c # cs) cur bl rd =
     (if col cur c then color_loop col cs (List.insert c cur) (bl @ [c]) rd
      else color_loop col cs cur bl (rd @ [c]))"

definition try_compute_ghostdag_data ::
  "dag_map \<Rightarrow> ghostdag_map \<Rightarrow> reachability \<Rightarrow> hash list \<Rightarrow> nat \<Rightarrow> ghostdag_data result option" where
  "try_compute_ghostdag_data dag gd r ps max_mergeset =
     (case select_parent gd ps of
        None \<Rightarrow> Some (Ok ghostdag_genesis)
      | Some sp \<Rightarrow>
          (let ms = mergeset dag ps sp
           in if length ms > max_mergeset then Some (Err ''Mergeset too large'')
              else
                (case materialized_blues gd sp of
                   None \<Rightarrow> None
                 | Some cur \<Rightarrow>
                     (let (bl, rd) = color_loop (color_candidate_blue dag r) (topological_order dag r ms) cur [sp] []
                      in Some (Ok \<lparr>blue_score = wadd64 (blue_score (hidx gd sp)) (length bl),
                           selected_parent = Some sp, mergeset_blues = bl, mergeset_reds = rd\<rparr>)))))"

definition compute_ghostdag_data ::
  "dag_map \<Rightarrow> ghostdag_map \<Rightarrow> reachability \<Rightarrow> hash list \<Rightarrow> ghostdag_data result option" where
  "compute_ghostdag_data dag gd r ps = try_compute_ghostdag_data dag gd r ps u64_max"

definition merged_blocks :: "ghostdag_data \<Rightarrow> hash list" where
  \<comment> \<open>\<open>mergeset_blues.iter().skip(1).chain(mergeset_reds.iter())\<close> of \<open>add_block\<close>\<close>
  "merged_blocks d = drop 1 (mergeset_blues d) @ mergeset_reds d"

section \<open>The selected chain\<close>

partial_function (option) chain_loop ::
  "ghostdag_map \<Rightarrow> hash option \<Rightarrow> hash list \<Rightarrow> hash list option" where
  "chain_loop gd cursor chain =
     (case cursor of
        None \<Rightarrow> Some chain
      | Some h \<Rightarrow>
          chain_loop gd (case hget gd h of None \<Rightarrow> None | Some d \<Rightarrow> selected_parent d) (h # chain))"

declare chain_loop.simps [code]

definition selected_chain :: "ghostdag_map \<Rightarrow> hash \<Rightarrow> hash list option" where
  \<comment> \<open>pushing and a final \<open>reverse\<close>: the chain is consed, genesis first\<close>
  "selected_chain gd tip = chain_loop gd (Some tip) []"

end
