(* ===== verification/Ghostdag_Correct.thy ===== *)
theory Ghostdag_Correct
  imports Ghostdag Reachability_Correct
begin

text \<open>
  Correctness of GHOSTDAG. The locale \<open>ancestor_query\<close> states what the colouring needs of an ancestor
  oracle, and is interpreted on the reachability index and on the plain search. \<open>ghost_inv\<close> is the
  invariant of the coloured DAG (blue sets are k-clusters in the past of their block, the blue score
  counts them), kept by every block an archival node adds (\<open>dag_run\<close>).
\<close>

section \<open>Ancestor queries as an interface\<close>

definition kcluster :: "(hash \<Rightarrow> hash \<Rightarrow> bool) \<Rightarrow> hash set \<Rightarrow> bool" where
  \<comment> \<open>every block of the set has at most \<open>K\<close> blocks of the set in its anticone\<close>
  "kcluster q B \<longleftrightarrow> (\<forall>b\<in>B. card {x \<in> B. anticone q x b} \<le> GHOSTDAG_K)"

lemma anticone_sym: "anticone q x y = anticone q y x"
  by (auto simp: anticone_def)

lemma kcluster_cong:
  "(\<And>x y. x \<in> B \<Longrightarrow> y \<in> B \<Longrightarrow> q x y = q' x y) \<Longrightarrow> kcluster q B = kcluster q' B"
  unfolding kcluster_def anticone_def by (intro ball_cong refl arg_cong2 [where f = "(\<le>)"] arg_cong [where f = card]) auto

lemma kcolor_iff:
  assumes "distinct blues"
  shows "kcolor q blues c \<longleftrightarrow> card {x \<in> set blues. anticone q x c} \<le> GHOSTDAG_K
    \<and> (\<forall>d\<in>set blues. anticone q d c \<longrightarrow> card {x \<in> set blues. anticone q x d} < GHOSTDAG_K)"
proof -
  have "length (filter p blues) = card {x \<in> set blues. p x}" for p
    using assms by (metis distinct_card distinct_filter set_filter)
  then show ?thesis by (auto simp: kcolor_def Let_def list_all_iff)
qed

lemma kcluster_insert:
  assumes B: "kcluster q (set blues)" and d: "distinct blues" and c: "kcolor q blues c"
  shows "kcluster q (insert c (set blues))"
proof (cases "c \<in> set blues")
  case True
  then show ?thesis using B by (simp add: insert_absorb)
next
  case False
  note k = c [unfolded kcolor_iff [OF d]]
  have "card {x \<in> insert c (set blues). anticone q x b} \<le> GHOSTDAG_K" if b: "b \<in> insert c (set blues)" for b
  proof (cases "b = c")
    case True
    then have "{x \<in> insert c (set blues). anticone q x b} = {x \<in> set blues. anticone q x c}"
      by (auto simp: anticone_def)
    then show ?thesis using k by simp
  next
    case bc: False
    then have bm: "b \<in> set blues" using b by simp
    show ?thesis
    proof (cases "anticone q c b")
      case True
      then have "{x \<in> insert c (set blues). anticone q x b} = insert c {x \<in> set blues. anticone q x b}"
        by auto
      moreover have "card {x \<in> set blues. anticone q x b} < GHOSTDAG_K"
        using k bm True anticone_sym by blast
      ultimately show ?thesis using False by simp
    next
      case False
      then have "{x \<in> insert c (set blues). anticone q x b} = {x \<in> set blues. anticone q x b}" by auto
      then show ?thesis using B bm by (simp add: kcluster_def)
    qed
  qed
  then show ?thesis by (simp add: kcluster_def)
qed

lemma color_loop_kcluster:
  assumes "kcluster q (set cur)" and "distinct cur"
    and "color_loop (kcolor q) cs cur bl rd = (bl', rd')"
  shows "\<exists>bs rs. bl' = bl @ bs \<and> rd' = rd @ rs \<and> set bs \<union> set rs = set cs
    \<and> (distinct cs \<longrightarrow> distinct bs \<and> set bs \<inter> set rs = {}) \<and> kcluster q (set cur \<union> set bs)"
  using assms
proof (induction cs arbitrary: cur bl rd)
  case (Cons c cs)
  show ?case
  proof (cases "kcolor q cur c")
    case True
    have "color_loop (kcolor q) cs (List.insert c cur) (bl @ [c]) rd = (bl', rd')"
      using Cons.prems(3) True by simp
    moreover have "kcluster q (set (List.insert c cur))"
      using kcluster_insert [OF Cons.prems(1,2) True] by simp
    ultimately obtain bs rs where "bl' = bl @ [c] @ bs" "rd' = rd @ rs" "set bs \<union> set rs = set cs"
      "distinct cs \<longrightarrow> distinct bs \<and> set bs \<inter> set rs = {}" "kcluster q (set (List.insert c cur) \<union> set bs)"
      using Cons.IH [of "List.insert c cur" "bl @ [c]" rd] Cons.prems(2) by auto
    then show ?thesis by (intro exI [of _ "c # bs"] exI [of _ rs]) auto
  next
    case False
    then have "color_loop (kcolor q) cs cur bl (rd @ [c]) = (bl', rd')" using Cons.prems(3) by simp
    then obtain bs rs where "bl' = bl @ bs" "rd' = rd @ [c] @ rs" "set bs \<union> set rs = set cs"
      "distinct cs \<longrightarrow> distinct bs \<and> set bs \<inter> set rs = {}" "kcluster q (set cur \<union> set bs)"
      using Cons.IH [of cur bl "rd @ [c]"] Cons.prems(1,2) by auto
    then show ?thesis by (intro exI [of _ bs] exI [of _ "c # rs"]) auto
  qed
qed auto

text \<open>
  What the colouring relies on: in a valid state the query is a strict order. The reachability index
  and the plain search both provide it.
\<close>

locale ancestor_query =
  fixes q :: "'s \<Rightarrow> hash \<Rightarrow> hash \<Rightarrow> bool" and valid :: "'s \<Rightarrow> bool"
  assumes irrefl: "valid s \<Longrightarrow> \<not> q s a a"
    and trans: "valid s \<Longrightarrow> q s a b \<Longrightarrow> q s b c \<Longrightarrow> q s a c"
begin

lemma rank_less:
  assumes s: "valid s" and ms: "a \<in> set ms" "b \<in> set ms" and ab: "q s a b"
  shows "rank_in (q s) ms a < rank_in (q s) ms b"
proof -
  let ?P = "\<lambda>h x. x \<noteq> h \<and> x \<in> set ms \<and> q s x h"
  have sub: "?P b x" if "?P a x" for x using that ab trans [OF s] irrefl [OF s] by blast
  have strict: "a \<in> set ms \<and> ?P b a \<and> \<not> ?P a a" using ms ab irrefl [OF s] by auto
  have "length (filter (?P a) xs) \<le> length (filter (?P b) xs)
      \<and> (a \<in> set xs \<longrightarrow> length (filter (?P a) xs) < length (filter (?P b) xs))" for xs
    using sub strict by (induction xs) auto
  then show ?thesis using ms by (auto simp: rank_in_def)
qed

lemma order_topological:
  assumes s: "valid s"
  shows "sorted_wrt (\<lambda>x y. \<not> q s y x) (order_by_rank (q s) ms)"
proof -
  define ps where "ps = sort (map (\<lambda>h. (rank_in (q s) ms h, h)) ms)"
  have "sorted_wrt (\<lambda>x y. \<not> q s (snd y) (snd x)) ps"
  proof (rule sorted_wrt_mono_rel)
    show "sorted_wrt (\<le>) ps" by (simp add: ps_def)
    fix x y
    assume "x \<in> set ps" "y \<in> set ps" "x \<le> y"
    then obtain a b where ab: "a \<in> set ms" "b \<in> set ms" "x = (rank_in (q s) ms a, a)" "y = (rank_in (q s) ms b, b)"
      by (auto simp: ps_def)
    with \<open>x \<le> y\<close> have "rank_in (q s) ms a \<le> rank_in (q s) ms b" by (auto simp: less_eq_prod_def)
    then show "\<not> q s (snd y) (snd x)" using rank_less [OF s ab(2,1)] ab(3,4) by fastforce
  qed
  then show ?thesis by (simp add: order_by_rank_def ps_def sorted_wrt_map)
qed

end

lemma mset_order_by_rank: "mset (order_by_rank q ms) = mset ms"
  by (simp add: order_by_rank_def mset_map image_mset.compositionality comp_def)

lemma order_by_rank_perm:
  assumes "mset ms = mset ms'"
  shows "order_by_rank q ms = order_by_rank q ms'"
proof -
  have st: "set ms = set ms'" using assms by (rule mset_eq_setD)
  have "rank_in q ms h = rank_in q ms' h" for h
  proof -
    have "mset (filter p ms) = mset (filter p ms')" for p using assms by simp
    then have "length (filter p ms) = length (filter p ms')" for p by (rule mset_eq_length)
    then show ?thesis by (simp only: rank_in_def st)
  qed
  then have "mset (map (\<lambda>h. (rank_in q ms h, h)) ms) = mset (map (\<lambda>h. (rank_in q ms' h, h)) ms')"
    using assms by (simp add: image_mset.compositionality)
  then have "sort (map (\<lambda>h. (rank_in q ms h, h)) ms) = sort (map (\<lambda>h. (rank_in q ms' h, h)) ms')"
    by (intro properties_for_sort) simp_all
  then show ?thesis by (simp add: order_by_rank_def)
qed

interpretation reach_query: ancestor_query "\<lambda>(r, dag) a b. is_ancestor r a b dag" "\<lambda>(r, dag). reach_inv r dag"
proof (unfold_locales, goal_cases)
  case (1 s a)
  then show ?case by (cases s) (auto simp: is_ancestor_anc reach_inv_def dag_acyclic_def)
next
  case (2 s a b c)
  then show ?case by (cases s) (auto simp: is_ancestor_anc intro: tranclp_trans)
qed

interpretation bfs_query: ancestor_query "\<lambda>dag a b. bfs_is_ancestor dag a b" dag_acyclic
  by unfold_locales (auto simp: bfs_is_ancestor_iff dag_acyclic_def intro: tranclp_trans)

section \<open>Mergeset and selected parent\<close>

lemma set_sp_past: "set (sp_past dag sp) = {a. anc_incl dag a sp}"
proof -
  have eq: "bfs_loop dag (rev (dag_parents dag sp)) [sp] = bfs_loop dag [sp] []" by simp
  have "set (mergeset_loop dag {} [sp] []) = {a. anc_incl dag a sp}"
    by (subst mergeset_loop_set) auto
  then show ?thesis unfolding sp_past_def eq by (simp only: bfs_loop_mergeset_loop)
qed

lemma set_mergeset:
  "set (mergeset dag ps sp) = {a. \<not> anc_incl dag a sp \<and> (\<exists>p\<in>set ps. anc_incl dag a p)}"
proof -
  have "\<forall>y. y \<in> set (sp_past dag sp) \<longrightarrow> set (dag_parents dag y) \<subseteq> set (sp_past dag sp)"
    by (auto simp: set_sp_past edge_def intro: converse_rtranclp_into_rtranclp)
  from mergeset_loop_set [OF this] show ?thesis by (simp add: mergeset_def set_sp_past)
qed

lemma distinct_mergeset: "distinct (mergeset dag ps sp)"
  by (simp add: mergeset_def mergeset_loop_distinct)

lemma foldl_max_score:
  "foldl (\<lambda>a b. if score_key gd a \<le> score_key gd b then b else a) x ys \<in> insert x (set ys)
   \<and> (\<forall>y\<in>insert x (set ys). score_key gd y \<le> score_key gd (foldl (\<lambda>a b. if score_key gd a \<le> score_key gd b then b else a) x ys))"
proof (induction ys arbitrary: x)
  case (Cons y ys)
  show ?case using Cons.IH [of y] Cons.IH [of x] by (auto intro: order_trans)
qed simp

lemma max_by_score_Some:
  assumes "max_by_score gd xs = Some m"
  shows "m \<in> set xs \<and> (\<forall>x\<in>set xs. score_key gd x \<le> score_key gd m)"
proof (cases xs)
  case (Cons x ys)
  then show ?thesis using assms foldl_max_score [of gd x ys] by (auto simp: max_by_score_def)
qed (use assms in \<open>simp add: max_by_score_def\<close>)

lemma max_by_score_None: "max_by_score gd xs = None \<longleftrightarrow> xs = []"
  by (cases xs) (simp_all add: max_by_score_def)

lemma max_by_score_set:
  assumes "set xs = set ys"
  shows "max_by_score gd xs = max_by_score gd ys"
proof (cases "max_by_score gd xs")
  case None
  then show ?thesis using assms max_by_score_None by (metis set_empty)
next
  case (Some m)
  then have "ys \<noteq> []" using assms max_by_score_None by (metis option.distinct(1) set_empty)
  then obtain n where n: "max_by_score gd ys = Some n" using max_by_score_None by (metis option.exhaust)
  have "score_key gd m = score_key gd n"
    using max_by_score_Some [OF Some] max_by_score_Some [OF n] assms by (intro order_antisym) auto
  then show ?thesis using Some n by (simp add: score_key_def)
qed

section \<open>Blues along the selected chain\<close>

definition sp_edge :: "ghostdag_map \<Rightarrow> hash \<Rightarrow> hash \<Rightarrow> bool" where
  "sp_edge gd x y \<longleftrightarrow> (\<exists>d. hget gd x = Some d \<and> selected_parent d = Some y)"

definition blues_at :: "ghostdag_map \<Rightarrow> hash \<Rightarrow> hash set" where
  "blues_at gd h = insert h {b. \<exists>x d. (sp_edge gd)\<^sup>*\<^sup>* h x \<and> hget gd x = Some d \<and> b \<in> set (mergeset_blues d)}"

definition links_ok :: "ghostdag_map \<Rightarrow> bool" where
  \<comment> \<open>selected parents have data and a smaller blue score\<close>
  "links_ok gd \<longleftrightarrow> (\<forall>x y. sp_edge gd x y \<longrightarrow> hhas gd y \<and> blue_score (hidx gd y) < blue_score (hidx gd x))"

lemma blues_at_unfold:
  assumes "hget gd h = Some d" and "\<And>p. selected_parent d = Some p \<Longrightarrow> p \<in> set (mergeset_blues d)"
  shows "blues_at gd h = insert h (set (mergeset_blues d) \<union>
    (case selected_parent d of None \<Rightarrow> {} | Some p \<Rightarrow> blues_at gd p))"
proof -
  have step: "(sp_edge gd)\<^sup>*\<^sup>* h x \<longleftrightarrow> x = h \<or> (\<exists>p. selected_parent d = Some p \<and> (sp_edge gd)\<^sup>*\<^sup>* p x)" for x
  proof -
    have "sp_edge gd h p \<longleftrightarrow> selected_parent d = Some p" for p using assms(1) by (simp add: sp_edge_def)
    moreover have "(sp_edge gd)\<^sup>*\<^sup>* h x \<longleftrightarrow> x = h \<or> (\<exists>p. sp_edge gd h p \<and> (sp_edge gd)\<^sup>*\<^sup>* p x)"
      by (auto elim: converse_rtranclpE intro: converse_rtranclp_into_rtranclp)
    ultimately show ?thesis by simp
  qed
  show ?thesis
    unfolding blues_at_def step using assms by (auto split: option.splits)
qed

lemma blues_loop_steps:
  "blues_loop gd None acc = Some acc"
  "hget gd h = None \<Longrightarrow> blues_loop gd (Some h) acc = Some acc"
  "hget gd h = Some d \<Longrightarrow> blues_loop gd (Some h) acc
     = blues_loop gd (selected_parent d) (fold List.insert (mergeset_blues d) acc)"
  by (subst blues_loop.simps, simp)+

lemma fold_insert_list: "set (fold List.insert xs acc) = set acc \<union> set xs \<and> (distinct acc \<longrightarrow> distinct (fold List.insert xs acc))"
  by (induction xs arbitrary: acc) auto

lemma blues_loop_ok:
  assumes "links_ok gd" and "hhas gd h"
    and blues: "\<And>x d p. hget gd x = Some d \<Longrightarrow> selected_parent d = Some p \<Longrightarrow> p \<in> set (mergeset_blues d)"
  shows "\<exists>bl. blues_loop gd (Some h) acc = Some bl \<and> (distinct acc \<longrightarrow> distinct bl) \<and>
    set acc \<subseteq> set bl \<and> insert h (set bl) = set acc \<union> blues_at gd h"
  using assms(2)
proof (induction "blue_score (hidx gd h)" arbitrary: h acc rule: less_induct)
  case less
  obtain d where d: "hget gd h = Some d" using less.prems by (auto simp: hhas_def)
  define acc1 where "acc1 = fold List.insert (mergeset_blues d) acc"
  have acc1: "set acc1 = set acc \<union> set (mergeset_blues d)" "distinct acc \<longrightarrow> distinct acc1"
    using fold_insert_list [of "mergeset_blues d" acc] by (auto simp: acc1_def)
  have st: "blues_loop gd (Some h) acc = blues_loop gd (selected_parent d) acc1"
    using blues_loop_steps(3) [OF d] by (simp add: acc1_def)
  note un = blues_at_unfold [OF d blues [OF d]]
  show ?case
  proof (cases "selected_parent d")
    case None
    then show ?thesis using st blues_loop_steps(1) un acc1 by auto
  next
    case (Some p)
    then have e: "sp_edge gd h p" using d by (simp add: sp_edge_def)
    then have "hhas gd p" "blue_score (hidx gd p) < blue_score (hidx gd h)" using assms(1) by (auto simp: links_ok_def)
    from less.hyps [OF this(2,1), of acc1] obtain bl where bl: "blues_loop gd (Some p) acc1 = Some bl"
      "distinct acc1 \<longrightarrow> distinct bl" "set acc1 \<subseteq> set bl" "insert p (set bl) = set acc1 \<union> blues_at gd p" by blast
    have "p \<in> set (mergeset_blues d)" using blues [OF d Some] .
    then have pacc: "p \<in> set acc1" using acc1 by auto
    show ?thesis
      using st Some bl un acc1 pacc by auto
  qed
qed

section \<open>The invariant of the coloured DAG\<close>

definition data_ok :: "dag_map \<Rightarrow> ghostdag_map \<Rightarrow> hash \<Rightarrow> ghostdag_data \<Rightarrow> bool" where
  "data_ok dag gd h d \<longleftrightarrow>
     (\<forall>p. edge dag p h \<longrightarrow> blue_score (hidx gd p) < blue_score d)
   \<and> selected_parent d = select_parent gd (dag_parents dag h)
   \<and> (\<forall>p. selected_parent d = Some p \<longrightarrow> p \<in> set (mergeset_blues d))
   \<and> blues_at gd h \<subseteq> {x. anc_incl dag x h}
   \<and> kcluster (anc dag) (blues_at gd h)
   \<and> blue_score d + 1 = card (blues_at gd h)"

definition ghost_inv :: "dag_map \<Rightarrow> ghostdag_map \<Rightarrow> reachability \<Rightarrow> bool" where
  "ghost_inv dag gd r \<longleftrightarrow> reach_inv r dag \<and> hmap_ok dag \<and> hmap_ok gd
   \<and> (\<forall>x. hhas gd x = hhas dag x) \<and> (\<forall>x. hhas (nodes r) x = hhas dag x)
   \<and> (\<forall>p x. edge dag p x \<longrightarrow> hhas dag p)
   \<and> (\<forall>h d. hget gd h = Some d \<longrightarrow> data_ok dag gd h d)"

lemma select_parent_Some:
  assumes "select_parent gd ps = Some sp"
  shows "sp \<in> set ps" "hhas gd sp" "\<And>p. p \<in> set ps \<Longrightarrow> hhas gd p \<Longrightarrow> blue_score (hidx gd p) \<le> blue_score (hidx gd sp)"
proof -
  note m = max_by_score_Some [OF assms [unfolded select_parent_def]]
  show "sp \<in> set ps" "hhas gd sp" using m by auto
  show "blue_score (hidx gd p) \<le> blue_score (hidx gd sp)" if "p \<in> set ps" "hhas gd p" for p
  proof -
    have "score_key gd p \<le> score_key gd sp" using m that by simp
    then show ?thesis by (auto simp: score_key_def less_eq_prod_def)
  qed
qed

lemma select_parent_cong:
  assumes "\<And>p. p \<in> set ps \<Longrightarrow> hget gd' p = hget gd p"
  shows "select_parent gd' ps = select_parent gd ps"
proof -
  have f: "filter (hhas gd') ps = filter (hhas gd) ps"
    using assms by (intro filter_cong) (auto simp: hhas_def)
  have k: "score_key gd' p = score_key gd p" if "p \<in> set ps" for p
    using assms [OF that] by (simp add: score_key_def hidx_def)
  have fold_eq: "foldl (\<lambda>a b. if score_key gd' a \<le> score_key gd' b then b else a) x ys
      = foldl (\<lambda>a b. if score_key gd a \<le> score_key gd b then b else a) x ys"
    if "x \<in> set ps" "set ys \<subseteq> set ps" for x ys
    using that by (induction ys arbitrary: x) (auto simp: k)
  have "max_by_score gd' xs = max_by_score gd xs" if "set xs \<subseteq> set ps" for xs
    using that fold_eq by (cases xs) (auto simp: max_by_score_def)
  then show ?thesis by (simp add: select_parent_def f)
qed

lemma ghost_links:
  assumes "ghost_inv dag gd r"
  shows "links_ok gd" "\<And>x d p. hget gd x = Some d \<Longrightarrow> selected_parent d = Some p \<Longrightarrow> p \<in> set (mergeset_blues d)"
proof -
  note g = assms [unfolded ghost_inv_def]
  show "p \<in> set (mergeset_blues d)" if "hget gd x = Some d" "selected_parent d = Some p" for x d p
    using g that by (auto simp: data_ok_def)
  show "links_ok gd"
    unfolding links_ok_def
  proof (intro allI impI)
    fix x y
    assume "sp_edge gd x y"
    then obtain d where d: "hget gd x = Some d" "selected_parent d = Some y" by (auto simp: sp_edge_def)
    have ok: "data_ok dag gd x d" using g d(1) by blast
    then have sp: "select_parent gd (dag_parents dag x) = Some y" using d(2) by (simp add: data_ok_def)
    then have "edge dag y x" "hhas gd y" using select_parent_Some [OF sp] by (auto simp: edge_def)
    with ok d show "hhas gd y \<and> blue_score (hidx gd y) < blue_score (hidx gd x)"
      by (auto simp: data_ok_def hidx_def)
  qed
qed

lemma ghost_fresh: "ghost_inv dag gd r \<Longrightarrow> \<not> hhas dag h \<Longrightarrow> dag_fresh dag h"
  by (auto simp: ghost_inv_def dag_fresh_def)

lemma hmap_same_length:
  assumes "hmap_ok m" and "hmap_ok m'" and "\<And>x. hhas m x = hhas m' x"
  shows "length m = length m'"
proof -
  have "set (hkeys m) = set (hkeys m')" using assms(3) by (auto simp: hhas_iff simp del: set_map)
  then show ?thesis using assms(1,2) by (metis distinct_card hmap_ok_def length_map)
qed

lemma ghost_past_known:
  assumes "anc_incl dag x h" and "ghost_inv dag gd r" and "hhas dag h"
  shows "hhas dag x"
  using assms(1) by (rule converse_rtranclp_induct) (use assms(2,3) in \<open>auto simp: ghost_inv_def\<close>)

lemma ghost_blues_finite:
  assumes g: "ghost_inv dag gd r" and d: "hget gd h = Some d"
  shows "finite (blues_at gd h)" "blue_score d < length dag"
proof -
  have "hhas dag h" using g d by (auto simp: ghost_inv_def hhas_def)
  then have "hhas dag x" if "anc_incl dag x h" for x using ghost_past_known [OF that g] by blast
  then have sub: "blues_at gd h \<subseteq> set (hkeys dag)"
    using g d by (force simp: ghost_inv_def data_ok_def hhas_iff)
  then show "finite (blues_at gd h)" by (meson List.finite_set finite_subset)
  have "card (blues_at gd h) \<le> length dag"
    using card_mono [OF _ sub] card_length [of "hkeys dag"] by (metis List.finite_set le_trans length_map)
  moreover have "data_ok dag gd h d" using g d by (simp add: ghost_inv_def)
  ultimately show "blue_score d < length dag" by (simp add: data_ok_def)
qed

lemma materialized_blues_ok:
  assumes g: "ghost_inv dag gd r" and h: "hhas gd h"
  obtains bl where "materialized_blues gd h = Some bl" and "distinct bl" and "set bl = blues_at gd h"
proof -
  have "\<exists>bl. blues_loop gd (Some h) [h] = Some bl \<and> (distinct [h] \<longrightarrow> distinct bl) \<and> set [h] \<subseteq> set bl
      \<and> insert h (set bl) = set [h] \<union> blues_at gd h"
    by (rule blues_loop_ok [OF ghost_links(1) [OF g] h]) (rule ghost_links(2) [OF g])
  then obtain bl where bl: "blues_loop gd (Some h) [h] = Some bl" "distinct bl" "h \<in> set bl"
    "insert h (set bl) = insert h (blues_at gd h)" by auto
  have "h \<in> blues_at gd h" by (simp add: blues_at_def)
  then have "set bl = blues_at gd h" using bl(3,4) by (simp add: insert_absorb)
  with bl that show thesis by (simp add: materialized_blues_def)
qed

definition colored :: "dag_map \<Rightarrow> ghostdag_map \<Rightarrow> hash list \<Rightarrow> hash \<Rightarrow> ghostdag_data \<Rightarrow> bool" where
  \<comment> \<open>what the colouring of a block with parents \<open>ps\<close> and selected parent \<open>sp\<close> is\<close>
  "colored dag gd ps sp d \<longleftrightarrow> select_parent gd ps = Some sp \<and> selected_parent d = Some sp
     \<and> (\<exists>bs. mergeset_blues d = sp # bs \<and> distinct bs
          \<and> set bs \<union> set (mergeset_reds d) = set (mergeset dag ps sp) \<and> set bs \<inter> set (mergeset_reds d) = {}
          \<and> kcluster (anc dag) (blues_at gd sp \<union> set bs)
          \<and> blue_score d = blue_score (hidx gd sp) + length (mergeset_blues d))"

lemma select_parent_exists:
  assumes "ps \<noteq> []" and "\<And>p. p \<in> set ps \<Longrightarrow> hhas gd p"
  obtains sp where "select_parent gd ps = Some sp"
proof -
  have "filter (hhas gd) ps \<noteq> []" using assms by (auto simp: filter_empty_conv neq_Nil_conv)
  then show thesis using that max_by_score_None unfolding select_parent_def by (metis option.exhaust)
qed

lemma try_compute_ok:
  assumes g: "ghost_inv dag gd r" and ps: "ps \<noteq> []" "\<And>p. p \<in> set ps \<Longrightarrow> hhas dag p"
    and size: "length dag < 2 ^ 41"
  shows "\<exists>sp. select_parent gd ps = Some sp \<and>
    (if M < length (mergeset dag ps sp)
     then try_compute_ghostdag_data dag gd r ps M = Some (Err ''Mergeset too large'')
     else \<exists>d. try_compute_ghostdag_data dag gd r ps M = Some (Ok d) \<and> colored dag gd ps sp d)"
proof -
  have hg: "hhas gd x = hhas dag x" for x using g by (simp add: ghost_inv_def)
  obtain sp where sp: "select_parent gd ps = Some sp"
    using select_parent_exists [OF ps(1)] ps(2) hg by metis
  obtain d0 where d0: "hget gd sp = Some d0" using select_parent_Some(2) [OF sp] by (auto simp: hhas_def)
  define ms where "ms = mergeset dag ps sp"
  have inv: "reach_inv r dag" using g by (simp add: ghost_inv_def)
  have q: "(\<lambda>a b. is_ancestor r a b dag) = anc dag" using is_ancestor_anc [OF inv] by (intro ext) simp
  obtain cur where cur: "materialized_blues gd sp = Some cur" "distinct cur" "set cur = blues_at gd sp"
    by (rule materialized_blues_ok [OF g select_parent_Some(2) [OF sp]])
  have kc: "kcluster (anc dag) (set cur)"
    using g d0 cur(3) by (auto simp: ghost_inv_def data_ok_def)
  obtain bl rd where cl: "color_loop (kcolor (anc dag)) (order_by_rank (anc dag) ms) cur [sp] [] = (bl, rd)"
    by fastforce
  have so: "set (order_by_rank (anc dag) ms) = set ms" "distinct (order_by_rank (anc dag) ms)"
    using mset_order_by_rank [of "anc dag" ms] distinct_mergeset
    by (metis mset_eq_setD, metis mset_eq_imp_distinct_iff ms_def)
  obtain bs where bs: "bl = sp # bs" "set bs \<union> set rd = set ms" "distinct bs" "set bs \<inter> set rd = {}"
    "kcluster (anc dag) (set cur \<union> set bs)"
    using color_loop_kcluster [OF kc cur(2) cl] so by auto
  have "set ms \<subseteq> set (hkeys dag)"
  proof
    fix x
    assume "x \<in> set ms"
    then obtain p where "p \<in> set ps" "anc_incl dag x p" by (auto simp: ms_def set_mergeset)
    then have "hhas dag x" using ps(2) ghost_past_known [OF _ g] by blast
    then show "x \<in> set (hkeys dag)" by (simp add: hhas_iff)
  qed
  then have "card (set bs) \<le> card (set (hkeys dag))" using bs(2) by (intro card_mono) auto
  then have lb: "length bs \<le> length dag"
    using distinct_card [OF bs(3)] card_length [of "hkeys dag"] by simp
  have sc: "hidx gd sp = d0" using d0 by (simp add: hidx_def)
  have w: "wadd64 (blue_score d0) (Suc (length bs)) = blue_score d0 + Suc (length bs)"
    using ghost_blues_finite(2) [OF g d0] lb size by (simp add: wadd64_exact)
  show ?thesis
    using sp cur cl bs w sc
    by (intro exI [of _ sp]) (auto simp: try_compute_ghostdag_data_def Let_def color_candidate_blue_def [abs_def]
        topological_order_def q ms_def colored_def)
qed

section \<open>Adding a coloured block\<close>

lemma anc_hput_old:
  assumes fresh: "dag_fresh dag h" and h: "h \<notin> set (parents b)" and y: "y \<noteq> h"
  shows "anc (hput h b dag) x y \<longleftrightarrow> anc dag x y"
proof -
  have "dag_parents (hput h b dag) y = dag_parents dag y" using y by (simp add: dag_parents_def)
  moreover have "p \<noteq> h" if "p \<in> set (dag_parents dag y)" for p
    using that fresh by (auto simp: dag_fresh_def edge_def)
  ultimately show ?thesis unfolding anc_iff_parent using anc_incl_hput_old [OF fresh _ h] by auto
qed

lemma sp_edge_hput_old:
  assumes "\<not> hhas gd h" and "links_ok gd" and "(sp_edge (hput h d gd))\<^sup>*\<^sup>* x y" and "x \<noteq> h"
  shows "(sp_edge gd)\<^sup>*\<^sup>* x y \<and> y \<noteq> h"
  using assms(3)
proof (induction rule: rtranclp_induct)
  case (step y z)
  then have e: "sp_edge gd y z" by (auto simp: sp_edge_def)
  then have "hhas gd z" using assms(2) by (auto simp: links_ok_def)
  then have "z \<noteq> h" using assms(1) by auto
  with step e show ?case by (meson rtranclp.rtrancl_into_rtrancl)
qed (use assms(4) in simp)

lemma blues_at_hput_old:
  assumes "\<not> hhas gd h" and "links_ok gd" and "x \<noteq> h"
  shows "blues_at (hput h d gd) x = blues_at gd x"
proof -
  have "(sp_edge (hput h d gd))\<^sup>*\<^sup>* x y \<and> y \<noteq> h \<longleftrightarrow> (sp_edge gd)\<^sup>*\<^sup>* x y \<and> y \<noteq> h" for y
  proof
    assume "(sp_edge gd)\<^sup>*\<^sup>* x y \<and> y \<noteq> h"
    moreover have "(sp_edge gd)\<^sup>*\<^sup>* \<le> (sp_edge (hput h d gd))\<^sup>*\<^sup>*"
      using assms(1) by (intro rtranclp_mono) (auto simp: sp_edge_def hhas_def)
    ultimately show "(sp_edge (hput h d gd))\<^sup>*\<^sup>* x y \<and> y \<noteq> h" by blast
  qed (use sp_edge_hput_old [OF assms(1,2) _ assms(3)] in blast)
  moreover have "y \<noteq> h" if "(sp_edge (hput h d gd))\<^sup>*\<^sup>* x y" for y
    using sp_edge_hput_old [OF assms(1,2) that assms(3)] by blast
  moreover have "y \<noteq> h" if "hget gd y = Some d'" for y d' using that assms(1) by (auto simp: hhas_def)
  ultimately show ?thesis unfolding blues_at_def by (auto simp: ) (metis hget_hput)+
qed

lemma ghost_add_data:
  assumes g: "ghost_inv dag gd r" and h: "\<not> hhas dag h"
    and ps: "\<And>p. p \<in> set (parents b) \<Longrightarrow> hhas dag p"
    and c: "colored dag gd (parents b) sp d"
  shows "data_ok (hput h b dag) (hput h d gd) h d"
proof -
  define dag' where "dag' = hput h b dag"
  define gd' where "gd' = hput h d gd"
  have hg: "hhas gd x = hhas dag x" for x using g by (simp add: ghost_inv_def)
  have hp: "h \<notin> set (parents b)" using h ps by auto
  have fresh: "dag_fresh dag h" by (rule ghost_fresh [OF g h])
  obtain bs where bs: "select_parent gd (parents b) = Some sp" "selected_parent d = Some sp"
    "mergeset_blues d = sp # bs" "distinct bs"
    "set bs \<union> set (mergeset_reds d) = set (mergeset dag (parents b) sp)"
    "kcluster (anc dag) (blues_at gd sp \<union> set bs)"
    "blue_score d = blue_score (hidx gd sp) + length (mergeset_blues d)"
    using c by (auto simp: colored_def)
  note sp = select_parent_Some [OF bs(1)]
  obtain d0 where d0: "hget gd sp = Some d0" using sp(2) by (auto simp: hhas_def)
  have ok0: "data_ok dag gd sp d0" using g d0 by (simp add: ghost_inv_def)
  have sph: "sp \<noteq> h" using sp(1) hp by auto
  have ngh: "\<not> hhas gd h" using h hg by simp
  define B where "B = blues_at gd sp \<union> set bs"
  have past_new: "anc_incl dag' x h" if "x = h \<or> (\<exists>p\<in>set (parents b). anc_incl dag x p)" for x
    unfolding dag'_def using anc_incl_hput_new [OF fresh hp] that by blast
  have Bp: "\<exists>p\<in>set (parents b). anc_incl dag x p" if "x \<in> B" for x
  proof (cases "x \<in> set bs")
    case True
    then have "x \<in> set (mergeset dag (parents b) sp)" using bs(5) by blast
    then show ?thesis by (simp add: set_mergeset)
  next
    case False
    then show ?thesis using that ok0 sp(1) by (auto simp: B_def data_ok_def)
  qed
  have hB: "h \<notin> B"
    using Bp ghost_past_known [OF _ g] ps h by blast
  have at: "blues_at gd' h = insert h B"
  proof -
    have "hget gd' h = Some d" by (simp add: gd'_def)
    moreover have "blues_at gd' sp = blues_at gd sp"
      unfolding gd'_def by (rule blues_at_hput_old [OF ngh ghost_links(1) [OF g] sph])
    moreover have "sp \<in> blues_at gd sp" by (simp add: blues_at_def)
    ultimately show ?thesis
      using blues_at_unfold [of gd' h d] bs(2,3) by (auto simp: B_def)
  qed
  have sub: "blues_at gd' h \<subseteq> {x. anc_incl dag' x h}"
    unfolding at using Bp past_new by blast
  have hanc: "anc dag' x h" if xB: "x \<in> B" for x
  proof -
    obtain p where p: "p \<in> set (parents b)" "anc_incl dag x p" using Bp [OF xB] by blast
    have "p \<noteq> h" using p hp by auto
    then have "anc_incl dag' x p" using p(2) anc_incl_hput_old [OF fresh _ hp] by (simp add: dag'_def)
    moreover have "edge dag' p h" using p(1) by (simp add: dag'_def edge_hput)
    ultimately show ?thesis by (rule rtranclp_into_tranclp1)
  qed
  have finB: "finite B" using ghost_blues_finite(1) [OF g d0] by (simp add: B_def)
  have kB: "kcluster (anc dag') B"
  proof (rule kcluster_cong [THEN iffD1])
    show "kcluster (anc dag) B" using bs(6) by (simp add: B_def)
    show "anc dag x y = anc dag' x y" if "y \<in> B" for x y
      using anc_hput_old [OF fresh hp, of y x] that hB by (auto simp: dag'_def)
  qed
  have "kcluster (anc dag') (insert h B)"
    unfolding kcluster_def
  proof
    fix x
    assume x: "x \<in> insert h B"
    show "card {y \<in> insert h B. anticone (anc dag') y x} \<le> GHOSTDAG_K"
    proof (cases "x = h")
      case True
      then have e: "{y \<in> insert h B. anticone (anc dag') y x} = {}" using hanc by (auto simp: anticone_def)
      show ?thesis unfolding e by simp
    next
      case False
      then have "{y \<in> insert h B. anticone (anc dag') y x} = {y \<in> B. anticone (anc dag') y x}"
        using x hanc by (auto simp: anticone_def)
      then show ?thesis using kB x False by (simp add: kcluster_def)
    qed
  qed
  moreover have "card (insert h B) = blue_score d + 1"
  proof -
    have "x \<notin> blues_at gd sp" if "x \<in> set bs" for x
    proof -
      have "x \<in> set (mergeset dag (parents b) sp)" using bs(5) that by blast
      then show ?thesis using ok0 by (auto simp: set_mergeset data_ok_def)
    qed
    then have "card B = card (blues_at gd sp) + length bs"
      unfolding B_def using ghost_blues_finite(1) [OF g d0] distinct_card [OF bs(4)]
      by (subst card_Un_disjoint) auto
    moreover have "hidx gd sp = d0" using d0 by (simp add: hidx_def)
    ultimately show ?thesis
      using ok0 hB finB bs(3,7) by (simp add: data_ok_def)
  qed
  moreover have "blue_score (hidx gd' p) < blue_score d" if "edge dag' p h" for p
  proof -
    have p: "p \<in> set (parents b)" "p \<noteq> h" using that hp by (auto simp: dag'_def edge_hput)
    then have "blue_score (hidx gd p) \<le> blue_score (hidx gd sp)" using sp(3) ps hg by blast
    then show ?thesis using p(2) bs(3,7) by (simp add: gd'_def)
  qed
  moreover have "selected_parent d = select_parent gd' (dag_parents dag' h)"
  proof -
    have "select_parent gd' (parents b) = select_parent gd (parents b)"
      by (rule select_parent_cong) (use hp in \<open>auto simp: gd'_def\<close>)
    then show ?thesis using bs(1,2) by (simp add: dag'_def dag_parents_def)
  qed
  ultimately show ?thesis
    using sub bs(2,3) unfolding data_ok_def at dag'_def [symmetric] gd'_def [symmetric] by auto
qed

lemma ghost_add_block:
  assumes g: "ghost_inv dag gd r" and h: "\<not> hhas dag h"
    and ps: "\<And>p. p \<in> set (parents b) \<Longrightarrow> hhas dag p"
    and c: "colored dag gd (parents b) sp d" and size: "length dag < 2 ^ 41"
  obtains r' where "reach_add_block r h (Some sp) (merged_blocks d) = Some r'"
    and "ghost_inv (hput h b dag) (hput h d gd) r'"
proof -
  have hg: "hhas gd x = hhas dag x" "hhas (nodes r) x = hhas dag x" for x using g by (simp_all add: ghost_inv_def)
  have hp: "h \<notin> set (parents b)" using h ps by auto
  have fresh: "dag_fresh dag h" by (rule ghost_fresh [OF g h])
  have inv: "reach_inv r dag" using g by (simp add: ghost_inv_def)
  have ms: "set (merged_blocks d) = set (mergeset dag (parents b) sp)" and sp: "select_parent gd (parents b) = Some sp"
    using c by (auto simp: colored_def merged_blocks_def)
  have "length (nodes r) = length dag"
    using hmap_same_length [of "nodes r" dag] g inv by (simp add: ghost_inv_def reach_inv_def index_ok_def forest_ok_def)
  then have sz: "length (nodes r) < 2 ^ 41" using size by simp
  have nh: "\<not> hhas (nodes r) h" using h hg by simp
  have spc: "case Some sp of None \<Rightarrow> True | Some p \<Rightarrow> p \<in> set (parents b)
        \<and> (hhas (nodes r) p \<or> (\<forall>a. hhas (nodes r) a \<longrightarrow> \<not> anc_incl dag a p))"
    using select_parent_Some [OF sp] hg by simp
  have msc: "\<forall>a. hhas (nodes r) a \<longrightarrow> (a \<in> set (merged_blocks d) \<longleftrightarrow> (\<exists>p\<in>set (parents b). anc_incl dag a p)
      \<and> (case Some sp of None \<Rightarrow> True | Some p \<Rightarrow> \<not> anc_incl dag a p))"
    unfolding ms set_mergeset by auto
  from reach_add_block_ok [OF inv fresh hp nh sz spc msc] obtain r'
    where r': "reach_add_block r h (Some sp) (merged_blocks d) = Some r'" "reach_inv r' (hput h b dag)"
      "\<And>x. hhas (nodes r') x \<longleftrightarrow> x = h \<or> hhas (nodes r) x" by blast
  have ngh: "\<not> hhas gd h" using h hg by simp
  have old: "data_ok (hput h b dag) (hput h d gd) x e" if xh: "x \<noteq> h" and e: "hget gd x = Some e" for x e
  proof -
    have ok: "data_ok dag gd x e" using g e by (simp add: ghost_inv_def)
    have at: "blues_at (hput h d gd) x = blues_at gd x"
      by (rule blues_at_hput_old [OF ngh ghost_links(1) [OF g] xh])
    have ai: "anc_incl (hput h b dag) y x = anc_incl dag y x" for y
      using anc_incl_hput_old [OF fresh xh hp] .
    have ph: "p \<noteq> h" if "p \<in> set (dag_parents dag x)" for p using that fresh by (auto simp: dag_fresh_def edge_def)
    have dp: "dag_parents (hput h b dag) x = dag_parents dag x" using xh by (simp add: dag_parents_def)
    have sel: "select_parent (hput h d gd) (dag_parents dag x) = select_parent gd (dag_parents dag x)"
      by (rule select_parent_cong) (use ph in auto)
    have kc: "kcluster (anc (hput h b dag)) (blues_at gd x)"
    proof (rule kcluster_cong [THEN iffD1])
      show "kcluster (anc dag) (blues_at gd x)" using ok by (simp add: data_ok_def)
      have hx: "hhas dag x" using e hg(1) [of x] by (simp add: hhas_def)
      show "anc dag y z = anc (hput h b dag) y z" if z: "z \<in> blues_at gd x" for y z
      proof -
        have "hhas dag z" using z ok ghost_past_known [OF _ g hx] by (auto simp: data_ok_def)
        then have "z \<noteq> h" using h by auto
        then show ?thesis using anc_hput_old [OF fresh hp] by simp
      qed
    qed
    have "\<forall>p. edge (hput h b dag) p x \<longrightarrow> blue_score (hidx (hput h d gd) p) < blue_score e"
      using ok ph xh dp by (auto simp: data_ok_def edge_def)
    then show ?thesis using ok at ai dp sel kc unfolding data_ok_def by simp
  qed
  have "ghost_inv (hput h b dag) (hput h d gd) r'"
    unfolding ghost_inv_def
  proof (intro conjI allI impI)
    show "data_ok (hput h b dag) (hput h d gd) x e" if "hget (hput h d gd) x = Some e" for x e
      using that old [of x e] ghost_add_data [OF g h ps c] by (cases "x = h") auto
    show "hhas (hput h b dag) p" if "edge (hput h b dag) p x" for p x
      using that ps g by (auto simp: edge_hput ghost_inv_def split: if_splits)
  qed (use g r' in \<open>auto simp: ghost_inv_def\<close>)
  with r'(1) that show thesis by blast
qed

section \<open>Runs of an archival node's DAG\<close>

text \<open>
  The part of \<open>add_block\<close> that grows the DAG: colour the block, store it with its data, enter it in the
  index. Nothing is pruned here.
\<close>

inductive dag_run :: "dag_map \<Rightarrow> ghostdag_map \<Rightarrow> reachability \<Rightarrow> bool" where
  genesis: "parents b = [] \<Longrightarrow> reach_add_block reach_new g None [] = Some r \<Longrightarrow>
    dag_run [(g, b)] [(g, ghostdag_genesis)] r"
| block: "dag_run dag gd r \<Longrightarrow> \<not> hhas dag h \<Longrightarrow> parents b \<noteq> [] \<Longrightarrow> \<forall>p\<in>set (parents b). hhas dag p \<Longrightarrow>
    length dag < 2 ^ 41 \<Longrightarrow> try_compute_ghostdag_data dag gd r (parents b) M = Some (Ok d) \<Longrightarrow>
    reach_add_block r h (selected_parent d) (merged_blocks d) = Some r' \<Longrightarrow>
    dag_run (hput h b dag) (hput h d gd) r'"

lemma ghost_inv_genesis:
  assumes b: "parents b = []" and r: "reach_add_block reach_new g None [] = Some r"
  shows "ghost_inv [(g, b)] [(g, ghostdag_genesis)] r"
proof -
  have fresh: "dag_fresh [] g" by (simp add: dag_fresh_def hhas_def edge_def dag_parents_def)
  have z: "\<not> hhas (nodes reach_new) x" for x by (simp add: reach_new_def hhas_def)
  obtain r' where r': "reach_add_block reach_new g None [] = Some r'" "reach_inv r' (hput g b [])"
    "\<And>x. hhas (nodes r') x \<longleftrightarrow> x = g \<or> hhas (nodes reach_new) x"
    by (rule reach_add_block_ok [OF reach_inv_new fresh, of b None "[]"]) (use b z in \<open>auto simp: reach_new_def\<close>)
  have at: "blues_at [(g, ghostdag_genesis)] g = {g}"
    by (subst blues_at_unfold) (auto simp: ghostdag_genesis_def)
  have ne: "\<not> edge [(g, b)] p x" for p x using b by (simp add: edge_def dag_parents_def)
  have ac: "\<not> anc [(g, b)] x y" for x y using ne by (auto elim: tranclp.cases)
  have "kcluster q {g}" for q by (simp add: kcluster_def anticone_def cong: conj_cong)
  then have "data_ok [(g, b)] [(g, ghostdag_genesis)] g ghostdag_genesis"
    using ne b by (simp add: data_ok_def at)
      (simp add: ghostdag_genesis_def select_parent_def max_by_score_def dag_parents_def)
  then show ?thesis
    using r r' z ne by (simp add: ghost_inv_def hhas_def hmap_ok_def)
qed

lemma dag_run_inv: "dag_run dag gd r \<Longrightarrow> ghost_inv dag gd r"
proof (induction rule: dag_run.induct)
  case (genesis b g r)
  then show ?case by (rule ghost_inv_genesis)
next
  case (block dag gd r h b M d r')
  have ps: "\<And>p. p \<in> set (parents b) \<Longrightarrow> hhas dag p" using block.hyps by blast
  obtain sp where sp: "colored dag gd (parents b) sp d"
    using try_compute_ok [OF block.IH block.hyps(3) ps block.hyps(5), of M] block.hyps(6)
    by (auto split: if_splits)
  obtain r1 where "reach_add_block r h (Some sp) (merged_blocks d) = Some r1"
    "ghost_inv (hput h b dag) (hput h d gd) r1"
    by (rule ghost_add_block [OF block.IH block.hyps(2) ps sp block.hyps(5)])
  moreover have "selected_parent d = Some sp" using sp by (simp add: colored_def)
  ultimately show ?case using block.hyps(7) by simp
qed

section \<open>The selected chain\<close>

lemma chain_loop_steps:
  "chain_loop gd None acc = Some acc"
  "chain_loop gd (Some h) acc = chain_loop gd (case hget gd h of None \<Rightarrow> None | Some d \<Rightarrow> selected_parent d) (h # acc)"
  by (subst chain_loop.simps, simp)+

lemma chain_loop_ok:
  assumes l: "links_ok gd" and "hhas gd h"
  shows "\<exists>c. chain_loop gd (Some h) acc = Some (c @ acc) \<and> c \<noteq> [] \<and> last c = h
     \<and> successively (\<lambda>x y. sp_edge gd y x) c \<and> (\<forall>y. \<not> sp_edge gd (hd c) y) \<and> (\<forall>x\<in>set c. hhas gd x)"
  using assms(2)
proof (induction "blue_score (hidx gd h)" arbitrary: h acc rule: less_induct)
  case less
  obtain d where d: "hget gd h = Some d" using less.prems by (auto simp: hhas_def)
  show ?case
  proof (cases "selected_parent d")
    case None
    then have "chain_loop gd (Some h) acc = Some ([h] @ acc)" using d by (simp add: chain_loop_steps)
    moreover have "\<not> sp_edge gd h y" for y using d None by (simp add: sp_edge_def)
    ultimately show ?thesis using less.prems by (intro exI [of _ "[h]"]) simp
  next
    case (Some p)
    then have e: "sp_edge gd h p" using d by (simp add: sp_edge_def)
    then have hp: "hhas gd p" and lt: "blue_score (hidx gd p) < blue_score (hidx gd h)"
      using l unfolding links_ok_def by blast+
    from less.hyps [OF lt hp, of "h # acc"] obtain c where c: "chain_loop gd (Some p) (h # acc) = Some (c @ h # acc)"
      "c \<noteq> []" "last c = p" "successively (\<lambda>x y. sp_edge gd y x) c" "\<forall>y. \<not> sp_edge gd (hd c) y" "\<forall>x\<in>set c. hhas gd x"
      by blast
    have "chain_loop gd (Some h) acc = Some ((c @ [h]) @ acc)" using c(1) d Some by (simp add: chain_loop_steps(2) [of gd h])
    then show ?thesis
      using c e less.prems by (intro exI [of _ "c @ [h]"]) (auto simp: successively_append_iff)
  qed
qed

section \<open>A two-block run\<close>

definition demo_data1 :: ghostdag_data where
  "demo_data1 = \<lparr>blue_score = 1, selected_parent = Some 0, mergeset_blues = [0], mergeset_reds = []\<rparr>"

definition demo_gd :: ghostdag_map where
  "demo_gd = [(0, ghostdag_genesis), (1, demo_data1)]"

lemma demo_compute:
  "try_compute_ghostdag_data [(0, demo_block [])] [(0, ghostdag_genesis)] demo_reach0 [0] 248 = Some (Ok demo_data1)"
  by (simp add: try_compute_ghostdag_data_def select_parent_def max_by_score_def mergeset_def sp_past_def hhas_def
      hidx_def materialized_blues_def blues_loop_steps dag_parents_def demo_block_def topological_order_def
      order_by_rank_def ghostdag_genesis_def demo_data1_def wadd64_def)

lemma demo_dag_run: "dag_run demo_dag demo_gd demo_reach"
proof -
  have eq: "reach_add_block reach_new 0 None [] = Some demo_reach0"
    by (simp add: demo_eval reach_new_def demo_reach0_def)
  have r1: "dag_run [(0, demo_block [])] [(0, ghostdag_genesis)] demo_reach0"
    by (rule dag_run.genesis [OF _ eq]) (simp add: demo_block_def)
  have eq1: "reach_add_block demo_reach0 1 (selected_parent demo_data1) (merged_blocks demo_data1) = Some demo_reach"
    by (simp add: demo_reach_def demo_eval demo_reach0_def demo_data1_def merged_blocks_def)
  have "parents (demo_block [0]) = [0]" by (simp add: demo_block_def)
  then have "dag_run (hput 1 (demo_block [0]) [(0, demo_block [])]) (hput 1 demo_data1 [(0, ghostdag_genesis)]) demo_reach"
    by (intro dag_run.block [OF r1 _ _ _ _ _ eq1, where M = 248]) (simp_all add: hhas_def demo_compute)
  then show ?thesis by (simp add: demo_dag_def demo_gd_def)
qed

section \<open>Properties\<close>

text \<open>
  C19. The colouring keeps the GHOSTDAG promise: the blue blocks a block sees (\<open>materialized_blues\<close>, which
  always returns) form a k-cluster, each of them having at most \<open>GHOSTDAG_K\<close> of the others in its
  anticone.
\<close>

theorem blues_form_kcluster:
  assumes "dag_run dag gd r" and "hhas gd h"
  shows "\<exists>bl. materialized_blues gd h = Some bl \<and> h \<in> set bl \<and>
    (\<forall>b\<in>set bl. card {x \<in> set bl. x \<noteq> b \<and> \<not> bfs_is_ancestor dag x b \<and> \<not> bfs_is_ancestor dag b x} \<le> GHOSTDAG_K)"
proof -
  note g = dag_run_inv [OF assms(1)]
  obtain d where d: "hget gd h = Some d" using assms(2) by (auto simp: hhas_def)
  have "kcluster (anc dag) (blues_at gd h)" using g d by (auto simp: ghost_inv_def data_ok_def)
  then have "\<forall>b\<in>blues_at gd h. card {x \<in> blues_at gd h.
      x \<noteq> b \<and> \<not> bfs_is_ancestor dag x b \<and> \<not> bfs_is_ancestor dag b x} \<le> GHOSTDAG_K"
    unfolding kcluster_def anticone_def bfs_is_ancestor_iff .
  moreover have "h \<in> blues_at gd h" by (simp add: blues_at_def)
  moreover obtain bl where "materialized_blues gd h = Some bl" "set bl = blues_at gd h"
    by (rule materialized_blues_ok [OF g assms(2)])
  ultimately show ?thesis by (intro exI [of _ bl]) simp
qed

theorem blues_form_kcluster_witness:
  "\<exists>bl. materialized_blues demo_gd 1 = Some bl \<and> 1 \<in> set bl \<and>
    (\<forall>b\<in>set bl. card {x \<in> set bl. x \<noteq> b \<and> \<not> bfs_is_ancestor demo_dag x b \<and> \<not> bfs_is_ancestor demo_dag b x}
       \<le> GHOSTDAG_K)"
  by (rule blues_form_kcluster [OF demo_dag_run]) (simp add: demo_gd_def hhas_def)

text \<open>
  The blue score is what its comment says: the number of blue blocks strictly in the past of the
  block, without wrap-around.
\<close>

theorem blue_score_counts_blues:
  assumes "dag_run dag gd r" and "hget gd h = Some d"
  shows "\<exists>bl. materialized_blues gd h = Some bl \<and> blue_score d = card (set bl - {h})
    \<and> (\<forall>x\<in>set bl - {h}. bfs_is_ancestor dag x h)"
proof -
  note g = dag_run_inv [OF assms(1)]
  have ok: "data_ok dag gd h d" using g assms(2) by (simp add: ghost_inv_def)
  have ac: "dag_acyclic dag" using g by (simp add: ghost_inv_def reach_inv_def)
  obtain bl where bl: "materialized_blues gd h = Some bl" "set bl = blues_at gd h"
    using materialized_blues_ok [OF g] assms(2) by (metis hhas_Some)
  have "h \<in> blues_at gd h" by (simp add: blues_at_def)
  moreover have "Suc (blue_score d) = card (blues_at gd h)" using ok by (simp add: data_ok_def)
  ultimately have "blue_score d = card (set bl - {h})" using bl(2) by (simp add: card_Diff_singleton)
  moreover have "anc dag x h" if "x \<in> set bl - {h}" for x
    using that ok bl(2) anc_incl_anc [OF ac, of x h] by (auto simp: data_ok_def)
  ultimately show ?thesis using bl(1) by (simp add: bfs_is_ancestor_iff)
qed

theorem blue_score_counts_blues_witness:
  "\<exists>bl. materialized_blues demo_gd 1 = Some bl \<and> blue_score demo_data1 = card (set bl - {1})
    \<and> (\<forall>x\<in>set bl - {1}. bfs_is_ancestor demo_dag x 1)"
  by (rule blue_score_counts_blues [OF demo_dag_run]) (simp add: demo_gd_def)

text \<open>
  A block with known parents is always coloured, or refused for the size of its mergeset; when it
  is coloured its blues (after the selected parent) and reds partition the merged blocks, which are
  the blocks in the past of a parent but not in the past of the selected parent, and the index takes
  it.
\<close>

theorem coloring_total:
  assumes run: "dag_run dag gd r" and h: "\<not> hhas dag h" and ne: "parents b \<noteq> []"
    and ps: "\<forall>p\<in>set (parents b). hhas dag p" and size: "length dag < 2 ^ 41"
  shows "try_compute_ghostdag_data dag gd r (parents b) M = Some (Err ''Mergeset too large'') \<or>
    (\<exists>sp bs d r'. try_compute_ghostdag_data dag gd r (parents b) M = Some (Ok d)
       \<and> select_parent gd (parents b) = Some sp \<and> mergeset_blues d = sp # bs
       \<and> set bs \<inter> set (mergeset_reds d) = {}
       \<and> set bs \<union> set (mergeset_reds d) = {a. (\<exists>p\<in>set (parents b). a = p \<or> bfs_is_ancestor dag a p)
            \<and> a \<noteq> sp \<and> \<not> bfs_is_ancestor dag a sp}
       \<and> reach_add_block r h (selected_parent d) (merged_blocks d) = Some r'
       \<and> dag_run (hput h b dag) (hput h d gd) r')"
proof -
  note g = dag_run_inv [OF run]
  have ps': "\<And>p. p \<in> set (parents b) \<Longrightarrow> hhas dag p" using ps by blast
  obtain sp where sp: "select_parent gd (parents b) = Some sp"
    "if M < length (mergeset dag (parents b) sp)
     then try_compute_ghostdag_data dag gd r (parents b) M = Some (Err ''Mergeset too large'')
     else \<exists>d. try_compute_ghostdag_data dag gd r (parents b) M = Some (Ok d) \<and> colored dag gd (parents b) sp d"
    using try_compute_ok [OF g ne ps' size, where M = M] by blast
  show ?thesis
  proof (cases "M < length (mergeset dag (parents b) sp)")
    case False
    then obtain d where d: "try_compute_ghostdag_data dag gd r (parents b) M = Some (Ok d)"
      "colored dag gd (parents b) sp d" using sp(2) by auto
    obtain r' where r': "reach_add_block r h (Some sp) (merged_blocks d) = Some r'"
      using ghost_add_block [OF g h ps' d(2) size] by blast
    have sel: "selected_parent d = Some sp" using d(2) by (simp add: colored_def)
    have "dag_run (hput h b dag) (hput h d gd) r'"
      using dag_run.block [OF run h ne ps size d(1)] r' sel by simp
    then show ?thesis
      using d r' sel sp(1) by (auto simp: colored_def set_mergeset anc_incl_bfs)
  qed (use sp(2) in simp)
qed

theorem coloring_total_witness:
  "try_compute_ghostdag_data demo_dag demo_gd demo_reach [1, 0] 248 = Some (Err ''Mergeset too large'') \<or>
    (\<exists>sp bs d r'. try_compute_ghostdag_data demo_dag demo_gd demo_reach [1, 0] 248 = Some (Ok d)
       \<and> select_parent demo_gd [1, 0] = Some sp \<and> mergeset_blues d = sp # bs
       \<and> set bs \<inter> set (mergeset_reds d) = {}
       \<and> set bs \<union> set (mergeset_reds d) = {a. (\<exists>p\<in>set [1, 0]. a = p \<or> bfs_is_ancestor demo_dag a p)
            \<and> a \<noteq> sp \<and> \<not> bfs_is_ancestor demo_dag a sp}
       \<and> reach_add_block demo_reach 2 (selected_parent d) (merged_blocks d) = Some r'
       \<and> dag_run (hput 2 (demo_block [1, 0]) demo_dag) (hput 2 d demo_gd) r')"
proof -
  have p: "parents (demo_block [1, 0]) = [1, 0]" by (simp add: demo_block_def)
  show ?thesis
    using coloring_total [OF demo_dag_run, of 2 "demo_block [1, 0]" 248]
    unfolding p by (simp add: hhas_def demo_dag_def)
qed

text \<open>
  The processing order of a mergeset lists each of its blocks once, never a block before one of its
  ancestors, and does not depend on the order in which the set is enumerated.
\<close>

theorem topological_order_ok:
  assumes "index_run r dag"
  shows "mset (topological_order dag r ms) = mset ms
    \<and> sorted_wrt (\<lambda>x y. \<not> bfs_is_ancestor dag y x) (topological_order dag r ms)
    \<and> (mset ms = mset ms' \<longrightarrow> topological_order dag r ms = topological_order dag r ms')"
proof -
  have inv: "reach_inv r dag" using index_run_inv [OF assms] by simp
  have q: "is_ancestor r a b dag = bfs_is_ancestor dag a b" for a b
    using is_ancestor_anc [OF inv] by (simp add: bfs_is_ancestor_iff)
  have "sorted_wrt (\<lambda>x y. \<not> is_ancestor r y x dag) (topological_order dag r ms)"
    using reach_query.order_topological [of "(r, dag)" ms] inv by (simp add: topological_order_def)
  then have "sorted_wrt (\<lambda>x y. \<not> bfs_is_ancestor dag y x) (topological_order dag r ms)"
    by (simp only: q)
  moreover have "mset (topological_order dag r ms) = mset ms"
    unfolding topological_order_def by (rule mset_order_by_rank)
  ultimately show ?thesis
    using order_by_rank_perm [of ms ms'] by (simp add: topological_order_def)
qed

theorem topological_order_ok_witness:
  "mset (topological_order demo_dag demo_reach [1, 0]) = mset [1, 0]
    \<and> sorted_wrt (\<lambda>x y. \<not> bfs_is_ancestor demo_dag y x) (topological_order demo_dag demo_reach [1, 0])
    \<and> topological_order demo_dag demo_reach [1, 0] = topological_order demo_dag demo_reach [0, 1]"
proof -
  have "mset [1, 0 :: hash] = mset [0, 1]" by simp
  then show ?thesis using topological_order_ok [OF demo_run, of "[1, 0]" "[0, 1]"] by blast
qed

text \<open>
  The selected chain of a known block ends with that block, starts at a block without selected
  parent, and steps from selected parent to child; the walk that computes it ends.
\<close>

theorem selected_chain_ok:
  assumes "dag_run dag gd r" and "hhas gd tip"
  shows "\<exists>c. selected_chain gd tip = Some c \<and> c \<noteq> [] \<and> last c = tip
    \<and> selected_parent (hidx gd (hd c)) = None
    \<and> successively (\<lambda>x y. selected_parent (hidx gd y) = Some x \<and> select_parent gd (dag_parents dag y) = Some x) c"
proof -
  note g = dag_run_inv [OF assms(1)]
  obtain c where c: "chain_loop gd (Some tip) [] = Some (c @ [])" "c \<noteq> []" "last c = tip"
    "successively (\<lambda>x y. sp_edge gd y x) c" "\<forall>y. \<not> sp_edge gd (hd c) y" "\<forall>x\<in>set c. hhas gd x"
    using chain_loop_ok [OF ghost_links(1) [OF g] assms(2)] by blast
  have imp: "selected_parent (hidx gd y) = Some x \<and> select_parent gd (dag_parents dag y) = Some x" if "sp_edge gd y x" for x y
    using that g by (auto simp: sp_edge_def hidx_def ghost_inv_def data_ok_def)
  have "successively (\<lambda>x y. selected_parent (hidx gd y) = Some x \<and> select_parent gd (dag_parents dag y) = Some x) c"
    by (rule successively_mono [OF c(4)]) (rule imp)
  moreover have "selected_parent (hidx gd (hd c)) = None"
  proof -
    have "hhas gd (hd c)" using c(2,6) by simp
    from hget_hidx [OF this] c(5) show ?thesis by (cases "selected_parent (hidx gd (hd c))") (auto simp: sp_edge_def)
  qed
  ultimately show ?thesis using c by (simp add: selected_chain_def)
qed

theorem selected_chain_ok_witness:
  "\<exists>c. selected_chain demo_gd 1 = Some c \<and> c \<noteq> [] \<and> last c = 1
    \<and> selected_parent (hidx demo_gd (hd c)) = None
    \<and> successively (\<lambda>x y. selected_parent (hidx demo_gd y) = Some x
         \<and> select_parent demo_gd (dag_parents demo_dag y) = Some x) c"
  by (rule selected_chain_ok [OF demo_dag_run]) (simp add: demo_gd_def hhas_def)

text \<open>
  The selected tip is the known tip with the greatest blue score, the greater hash deciding among
  equals, whatever the order of the tips; it is missing only when no tip is known.
\<close>

theorem selected_tip_max:
  "(case selected_tip gd tips of
      None \<Rightarrow> \<forall>t\<in>set tips. \<not> hhas gd t
    | Some s \<Rightarrow> s \<in> set tips \<and> hhas gd s \<and> (\<forall>t\<in>set tips. hhas gd t \<longrightarrow> t = s
        \<or> blue_score (hidx gd t) < blue_score (hidx gd s)
        \<or> blue_score (hidx gd t) = blue_score (hidx gd s) \<and> t < s))
   \<and> (set tips = set tips' \<longrightarrow> selected_tip gd tips = selected_tip gd tips')"
proof
  show "case selected_tip gd tips of
      None \<Rightarrow> \<forall>t\<in>set tips. \<not> hhas gd t
    | Some s \<Rightarrow> s \<in> set tips \<and> hhas gd s \<and> (\<forall>t\<in>set tips. hhas gd t \<longrightarrow> t = s
        \<or> blue_score (hidx gd t) < blue_score (hidx gd s)
        \<or> blue_score (hidx gd t) = blue_score (hidx gd s) \<and> t < s)"
  proof (cases "selected_tip gd tips")
    case None
    then have "filter (hhas gd) tips = []" by (simp add: selected_tip_def max_by_score_None)
    then show ?thesis using None by (simp add: filter_empty_conv)
  next
    case (Some s)
    from max_by_score_Some [OF this [unfolded selected_tip_def]] Some show ?thesis
      by (auto simp: score_key_def less_eq_prod_def)
  qed
  show "set tips = set tips' \<longrightarrow> selected_tip gd tips = selected_tip gd tips'"
    unfolding selected_tip_def by (intro impI max_by_score_set) simp
qed

theorem selected_tip_max_witness:
  "selected_tip demo_gd [0, 1] = Some 1 \<and> selected_tip demo_gd [1, 0] = selected_tip demo_gd [0, 1]"
proof -
  have "selected_tip demo_gd [0, 1] = Some 1"
    by (simp add: selected_tip_def max_by_score_def score_key_def demo_gd_def hhas_def hidx_def
        ghostdag_genesis_def demo_data1_def less_eq_prod_def)
  moreover have "set [0, 1] = set [1, 0 :: hash]" by auto
  ultimately show ?thesis using selected_tip_max [where gd = demo_gd and tips = "[0, 1]" and tips' = "[1, 0]"] by simp
qed

end
