(* ===== verification/Difficulty.thy ===== *)
theory Difficulty
  imports Ghostdag
begin

text \<open>
  Monetary schedule and proof of work: the constants and issuance functions of \<open>src/genesis.rs\<close>, the
  difficulty adjustment and target of \<open>src/lib.rs\<close> (\<open>expected_difficulty_at\<close>, \<open>collect_daa_blue_samples\<close>,
  \<open>retarget_difficulty\<close>, \<open>hop_difficulty_bounds\<close>, \<open>pow_target\<close>, \<open>verify_pow\<close>, \<open>min_relay_fee_for_bytes\<close>).

  The environment flag read by \<open>lab_easy_pow\<close> is the argument \<open>lab\<close>. The constants are those of a build
  without \<open>cfg(test)\<close>.
\<close>

section \<open>Constants\<close>

definition BLOCK_TIME_MS :: nat where "BLOCK_TIME_MS = 100"
definition TARGET_BLOCK_TIME_MS :: nat where "TARGET_BLOCK_TIME_MS = BLOCK_TIME_MS"
definition MAX_BLOCK_SIZE :: nat where "MAX_BLOCK_SIZE = 22 * 1024"
definition MAX_BLOCK_BYTES :: nat where "MAX_BLOCK_BYTES = 256 * 1024"
definition MAX_BLOCK_PARENTS :: nat where "MAX_BLOCK_PARENTS = 10"
definition MAX_MERGESET_SIZE :: nat where "MAX_MERGESET_SIZE = 512"
definition DAA_WINDOW :: nat where "DAA_WINDOW = 661"
definition MIN_TX_FEE :: nat where "MIN_TX_FEE = 1000"
definition MIN_FEE_PER_BYTE :: nat where "MIN_FEE_PER_BYTE = 1"
definition DUST_THRESHOLD :: nat where "DUST_THRESHOLD = 546"
definition FINALITY_DEPTH :: nat where "FINALITY_DEPTH = sat_mul64 12 3600000 div BLOCK_TIME_MS"
definition PRUNING_DEPTH :: nat where "PRUNING_DEPTH = sat_mul64 FINALITY_DEPTH 2"
definition GENESIS_TIMESTAMP_MS :: nat where "GENESIS_TIMESTAMP_MS = 1785024000000"
definition MAX_FUTURE_DRIFT_MS :: nat where "MAX_FUTURE_DRIFT_MS = 2 * 60 * 60 * 1000"
definition CHAIN_ID :: nat where "CHAIN_ID = 16858749123010493047"
definition COIN :: nat where "COIN = 100000000"
definition MAX_SUPPLY :: nat where "MAX_SUPPLY = 25000000 * COIN"
definition BLOCK_REWARD :: nat where "BLOCK_REWARD = 50 * COIN"
definition HALVING_INTERVAL :: nat where "HALVING_INTERVAL = 250000"
definition BOOTSTRAP_ERA_END :: nat where "BOOTSTRAP_ERA_END = 1000000 * COIN"
definition HARD_ERA_MIN_DIFFICULTY :: nat where "HARD_ERA_MIN_DIFFICULTY = 2 ^ 24"
definition BOOTSTRAP_MIN_DIFFICULTY :: nat where "BOOTSTRAP_MIN_DIFFICULTY = 7000"

section \<open>Issuance\<close>

definition block_subsidy :: "nat \<Rightarrow> nat" where
  "block_subsidy score =
     (let halvings = score div HALVING_INTERVAL
      in if halvings \<ge> 128 then 0 else BLOCK_REWARD div 2 ^ halvings)"

function issuance_loop :: "nat \<Rightarrow> nat \<Rightarrow> nat \<Rightarrow> nat" where
  "issuance_loop tot remaining reward =
     (if remaining > 0 \<and> reward > 0
      then let taken = min remaining HALVING_INTERVAL
           in issuance_loop (sat_add128 tot (sat_mul128 reward taken)) (remaining - taken) (reward div 2)
      else tot)"
  by pat_completeness auto
termination by (relation "measure (\<lambda>(t, n, r). r)") auto

declare issuance_loop.simps [simp del]

definition cumulative_issuance :: "nat \<Rightarrow> nat" where
  "cumulative_issuance up_to_blue = min (issuance_loop 0 up_to_blue BLOCK_REWARD) MAX_SUPPLY"

definition era_min_difficulty :: "bool \<Rightarrow> nat \<Rightarrow> nat" where
  "era_min_difficulty lab minted_before =
     (if lab \<or> minted_before < BOOTSTRAP_ERA_END then BOOTSTRAP_MIN_DIFFICULTY
      else HARD_ERA_MIN_DIFFICULTY)"

definition effective_min_difficulty :: "bool \<Rightarrow> nat" where
  "effective_min_difficulty lab = era_min_difficulty lab 0"

definition min_relay_fee_for_bytes :: "nat \<Rightarrow> nat" where
  "min_relay_fee_for_bytes nbytes = max (sat_mul128 nbytes MIN_FEE_PER_BYTE) MIN_TX_FEE"

section \<open>Proof of work\<close>

definition pow_target :: "nat \<Rightarrow> hash" where
  \<comment> \<open>the quotient fits 64 bytes, so the copy into the array is exact\<close>
  "pow_target difficulty = word_of_nat ((2 ^ 512 - 1) div max difficulty 1)"

definition hash_meets_target :: "hash \<Rightarrow> hash \<Rightarrow> bool" where
  "hash_meets_target h target \<longleftrightarrow> h < target"

definition verify_pow :: "hash \<Rightarrow> nat \<Rightarrow> bool" where
  "verify_pow h difficulty = hash_meets_target h (pow_target difficulty)"

section \<open>Difficulty adjustment\<close>

definition retarget_difficulty :: "nat \<Rightarrow> nat \<Rightarrow> nat \<Rightarrow> nat \<Rightarrow> nat" where
  "retarget_difficulty base_difficulty newest_ts oldest_ts flr =
     (let actual_span_ms = max (newest_ts - oldest_ts) 1;
          target_span_ms = DAA_WINDOW * TARGET_BLOCK_TIME_MS;
          sp = max base_difficulty flr;
          raw = sat_mul128 sp target_span_ms div actual_span_ms;
          up = max (sp * 5 div 4) (sp + 1);
          down = max (sp * 3 div 4) flr;
          clamped = clamp_nat raw down up
      in max (as_u64 clamped) flr)"

fun hop_loop :: "nat \<Rightarrow> nat \<Rightarrow> nat \<Rightarrow> nat \<Rightarrow> nat \<times> nat" where
  "hop_loop flr 0 lo hi = (lo, hi)"
| "hop_loop flr (Suc n) lo hi =
     hop_loop flr n (max (lo * 3 div 4) flr) (max (hi * 5 div 4) (hi + 1))"

definition hop_difficulty_bounds :: "nat \<Rightarrow> nat \<Rightarrow> nat \<Rightarrow> nat \<times> nat" where
  "hop_difficulty_bounds older_diff height_gap flr =
     (let base = max older_diff flr;
          windows = min (sat_add64 ((height_gap - 1) div DAA_WINDOW) 1) 64;
          (lo, hi) = hop_loop flr windows base base
      in (max (as_u64 lo) flr, as_u64 hi))"

fun daa_blues :: "dag_map \<Rightarrow> hash list \<Rightarrow> hash list \<Rightarrow> (nat \<times> nat) list \<Rightarrow> hash list \<times> (nat \<times> nat) list" where
  \<comment> \<open>\<open>for blue in &gd.mergeset_blues\<close>, over \<open>seen\<close> and \<open>samples\<close> (oldest first)\<close>
  "daa_blues dag [] seen samples = (seen, samples)"
| "daa_blues dag (x # xs) seen samples =
     (if length samples \<ge> DAA_WINDOW then (seen, samples)
      else if x \<in> set seen then daa_blues dag xs seen samples
      else (case hget dag x of
              None \<Rightarrow> daa_blues dag xs (x # seen) samples
            | Some b \<Rightarrow> daa_blues dag xs (x # seen) (samples @ [(timestamp b, max (b_difficulty b) 1)])))"

partial_function (option) daa_loop ::
  "dag_map \<Rightarrow> ghostdag_map \<Rightarrow> hash option \<Rightarrow> hash list \<Rightarrow> (nat \<times> nat) list \<Rightarrow> (nat \<times> nat) list option" where
  "daa_loop dag gd cursor seen samples =
     (case cursor of
        None \<Rightarrow> Some samples
      | Some h \<Rightarrow>
          if length samples \<ge> DAA_WINDOW then Some samples
          else
            (case hget gd h of
               None \<Rightarrow> Some samples
             | Some d \<Rightarrow>
                 (let (seen1, samples1) = daa_blues dag (mergeset_blues d) seen samples
                  in if mergeset_blues d = [] \<and> h \<notin> set seen1
                     then daa_loop dag gd (selected_parent d) (h # seen1)
                            (case hget dag h of
                               None \<Rightarrow> samples1
                             | Some b \<Rightarrow> samples1 @ [(timestamp b, max (b_difficulty b) 1)])
                     else daa_loop dag gd (selected_parent d) seen1 samples1)))"

declare daa_loop.simps [code]

definition collect_daa_blue_samples :: "dag_map \<Rightarrow> ghostdag_map \<Rightarrow> hash \<Rightarrow> (nat \<times> nat) list option" where
  "collect_daa_blue_samples dag gd sp = daa_loop dag gd (Some sp) [] []"

definition expected_difficulty_at ::
  "bool \<Rightarrow> dag_map \<Rightarrow> ghostdag_map \<Rightarrow> nat \<Rightarrow> hash list \<Rightarrow> nat \<Rightarrow> nat option" where
  "expected_difficulty_at lab dag gd minted ps timestamp_ms =
     (let flr = era_min_difficulty lab minted
      in case select_parent gd ps of
           None \<Rightarrow> Some flr
         | Some sp \<Rightarrow>
             (let sp_difficulty = max (case hget dag sp of
                                         None \<Rightarrow> effective_min_difficulty lab
                                       | Some b \<Rightarrow> b_difficulty b) flr
              in case collect_daa_blue_samples dag gd sp of
                   None \<Rightarrow> None
                 | Some samples \<Rightarrow>
                     (let daa =
                        (if length samples < DAA_WINDOW then sp_difficulty
                         else
                           (let newest = Max (set (map fst samples));
                                oldest = Min (set (map fst samples));
                                work = sum_list (map snd samples);
                                avg_diff = max (as_u64 (work div length samples)) flr;
                                scaled = retarget_difficulty avg_diff newest oldest flr;
                                up = max (sp_difficulty * 5 div 4) (sp_difficulty + 1);
                                down = max (sp_difficulty * 3 div 4) flr
                            in as_u64 (clamp_nat scaled down up)))
                      in Some (max daa flr))))"

definition expected_difficulty :: "bool \<Rightarrow> dag_map \<Rightarrow> ghostdag_map \<Rightarrow> nat \<Rightarrow> hash list \<Rightarrow> nat option" where
  "expected_difficulty lab dag gd minted ps =
     (let tss = map timestamp (List.map_filter (hget dag) ps);
          ts = sat_add64 (if tss = [] then GENESIS_TIMESTAMP_MS else Max (set tss)) TARGET_BLOCK_TIME_MS
      in expected_difficulty_at lab dag gd minted ps ts)"

end
