(* ===== verification/Difficulty_Correct.thy ===== *)
theory Difficulty_Correct
  imports Difficulty Ghostdag_Correct
begin

text \<open>
  The issuance schedule stays under the hard cap, proof of work is a comparison of numbers, the
  difficulty adjustment always returns and moves by at most a quarter, and the bounds for skipped
  headers enclose the older difficulty.
\<close>

section \<open>Issuance\<close>

definition era_reward :: "nat \<Rightarrow> nat" where "era_reward k = BLOCK_REWARD div 2 ^ k"

lemma era_reward_Suc: "era_reward (Suc k) = era_reward k div 2"
  unfolding era_reward_def by (metis div_mult2_eq mult.commute power_Suc)

lemma era_reward_zero: "33 \<le> k \<Longrightarrow> era_reward k = 0"
proof -
  assume "33 \<le> k"
  then have "(2::nat) ^ 33 \<le> 2 ^ k" by (rule power_increasing) simp
  moreover have "BLOCK_REWARD < 2 ^ 33" by (simp add: BLOCK_REWARD_def COIN_def)
  ultimately show ?thesis by (simp add: era_reward_def)
qed

lemma block_subsidy_era: "block_subsidy n = era_reward (n div HALVING_INTERVAL)"
  using era_reward_zero by (simp add: block_subsidy_def Let_def era_reward_def)

lemma subsidy_sum_era:
  "sum block_subsidy {k * HALVING_INTERVAL ..< k * HALVING_INTERVAL + m} = era_reward k * m"
  if "m \<le> HALVING_INTERVAL"
proof -
  have "(k * HALVING_INTERVAL + i) div HALVING_INTERVAL = k" if "i < m" for i
    using that \<open>m \<le> HALVING_INTERVAL\<close> by (simp add: HALVING_INTERVAL_def)
  then have "block_subsidy (k * HALVING_INTERVAL + i) = era_reward k" if "i < m" for i
    using that by (simp add: block_subsidy_era)
  then show ?thesis
    using sum.shift_bounds_nat_ivl [of block_subsidy 0 "k * HALVING_INTERVAL" m]
    by (simp add: add.commute atLeast0LessThan)
qed

lemma subsidy_tail_zero: "33 \<le> k \<Longrightarrow> sum block_subsidy {k * HALVING_INTERVAL ..< n} = 0"
proof -
  assume k: "33 \<le> k"
  have "block_subsidy i = 0" if "k * HALVING_INTERVAL \<le> i" for i
  proof -
    have "k \<le> i div HALVING_INTERVAL"
      using div_le_mono [OF that, of HALVING_INTERVAL] by (simp add: HALVING_INTERVAL_def)
    then show ?thesis using era_reward_zero k by (simp add: block_subsidy_era)
  qed
  then show ?thesis by simp
qed

lemma subsidy_from_era:
  assumes "k * HALVING_INTERVAL \<le> n"
  shows "sum block_subsidy {k * HALVING_INTERVAL ..< n} \<le> 2 * era_reward k * HALVING_INTERVAL"
  using assms
proof (induction "33 - k" arbitrary: k)
  case 0
  then have "sum block_subsidy {k * HALVING_INTERVAL ..< n} = 0" by (intro subsidy_tail_zero) simp
  then show ?case by (simp only:)
next
  case (Suc j)
  show ?case
  proof (cases "n \<le> Suc k * HALVING_INTERVAL")
    case True
    then have "sum block_subsidy {k * HALVING_INTERVAL ..< n} = era_reward k * (n - k * HALVING_INTERVAL)"
      using subsidy_sum_era [of "n - k * HALVING_INTERVAL" k] Suc.prems by simp
    also have "\<dots> \<le> era_reward k * HALVING_INTERVAL" using True by (intro mult_le_mono2) simp
    finally show ?thesis by simp
  next
    case False
    have "sum block_subsidy {k * HALVING_INTERVAL ..< n}
        = sum block_subsidy {k * HALVING_INTERVAL ..< Suc k * HALVING_INTERVAL}
          + sum block_subsidy {Suc k * HALVING_INTERVAL ..< n}"
      using False by (intro sum.atLeastLessThan_concat [symmetric]) auto
    also have "sum block_subsidy {k * HALVING_INTERVAL ..< Suc k * HALVING_INTERVAL} = era_reward k * HALVING_INTERVAL"
      using subsidy_sum_era [of HALVING_INTERVAL k] by (simp add: add.commute)
    also have "sum block_subsidy {Suc k * HALVING_INTERVAL ..< n} \<le> 2 * era_reward (Suc k) * HALVING_INTERVAL"
      using Suc.hyps(1) [of "Suc k"] Suc.hyps(2) False by simp
    also have "2 * era_reward (Suc k) * HALVING_INTERVAL \<le> era_reward k * HALVING_INTERVAL"
      by (simp add: era_reward_Suc)
    finally show ?thesis by simp
  qed
qed

lemma subsidy_cap: "sum block_subsidy {..<n} \<le> MAX_SUPPLY"
  using subsidy_from_era [of 0 n]
  by (simp add: era_reward_def BLOCK_REWARD_def HALVING_INTERVAL_def COIN_def MAX_SUPPLY_def atLeast0LessThan)

lemma issuance_loop_stop: "n = 0 \<or> r = 0 \<Longrightarrow> issuance_loop tot n r = tot"
  by (subst issuance_loop.simps) auto

lemma issuance_loop_sum:
  assumes "tot + sum block_subsidy {k * HALVING_INTERVAL ..< k * HALVING_INTERVAL + n} \<le> u128_max"
  shows "issuance_loop tot n (era_reward k) = tot + sum block_subsidy {k * HALVING_INTERVAL ..< k * HALVING_INTERVAL + n}"
  using assms
proof (induction "34 - k" arbitrary: k tot n)
  case 0
  then have k: "33 \<le> k" by simp
  show ?case unfolding subsidy_tail_zero [OF k] era_reward_zero [OF k] by (simp add: issuance_loop_stop)
next
  case (Suc j)
  show ?case
  proof (cases "0 < n \<and> 0 < era_reward k")
    case False
    then consider "n = 0" | "era_reward k = 0" by auto
    then show ?thesis
    proof cases
      case 2
      then have "sum block_subsidy {k * HALVING_INTERVAL ..< k * HALVING_INTERVAL + n} \<le> 0"
        using subsidy_from_era [of k "k * HALVING_INTERVAL + n"] by simp
      then show ?thesis using 2 by (simp add: issuance_loop_stop)
    qed (simp add: issuance_loop_stop)
  next
    case True
    define t where "t = min n HALVING_INTERVAL"
    have split: "sum block_subsidy {k * HALVING_INTERVAL ..< k * HALVING_INTERVAL + n}
        = era_reward k * t + sum block_subsidy {Suc k * HALVING_INTERVAL ..< Suc k * HALVING_INTERVAL + (n - t)}"
    proof -
      have "sum block_subsidy {k * HALVING_INTERVAL ..< k * HALVING_INTERVAL + n}
          = sum block_subsidy {k * HALVING_INTERVAL ..< k * HALVING_INTERVAL + t}
            + sum block_subsidy {k * HALVING_INTERVAL + t ..< k * HALVING_INTERVAL + n}"
        by (intro sum.atLeastLessThan_concat [symmetric]) (auto simp: t_def)
      also have "{k * HALVING_INTERVAL + t ..< k * HALVING_INTERVAL + n}
          = {Suc k * HALVING_INTERVAL ..< Suc k * HALVING_INTERVAL + (n - t)} \<or> n - t = 0"
        by (auto simp: t_def min_def)
      then have "sum block_subsidy {k * HALVING_INTERVAL + t ..< k * HALVING_INTERVAL + n}
          = sum block_subsidy {Suc k * HALVING_INTERVAL ..< Suc k * HALVING_INTERVAL + (n - t)}" by fastforce
      finally show ?thesis using subsidy_sum_era [of t k] by (simp add: t_def)
    qed
    have le: "tot + era_reward k * t + sum block_subsidy {Suc k * HALVING_INTERVAL ..< Suc k * HALVING_INTERVAL + (n - t)} \<le> u128_max"
      using Suc.prems split by simp
    then have "sat_add128 tot (sat_mul128 (era_reward k) t) = tot + era_reward k * t"
      by (auto simp: sat_add128_def sat_mul128_def)
    then have "issuance_loop tot n (era_reward k) = issuance_loop (tot + era_reward k * t) (n - t) (era_reward (Suc k))"
      using True by (subst issuance_loop.simps) (simp add: t_def Let_def era_reward_Suc)
    also have "\<dots> = tot + era_reward k * t + sum block_subsidy {Suc k * HALVING_INTERVAL ..< Suc k * HALVING_INTERVAL + (n - t)}"
      using Suc.hyps(1) [of "Suc k", OF _ le] Suc.hyps(2) by simp
    finally show ?thesis using split by simp
  qed
qed

text \<open>
  C20. The schedule never issues more than the hard cap, whatever the blue score, and the closed form
  \<open>cumulative_issuance\<close> is the sum of the block subsidies.
\<close>

theorem issuance_is_subsidy_sum:
  "cumulative_issuance n = sum block_subsidy {..<n} \<and> sum block_subsidy {..<n} \<le> MAX_SUPPLY"
proof -
  have "sum block_subsidy {0 ..< 0 + n} \<le> u128_max"
    using subsidy_cap [of n] by (simp add: atLeast0LessThan MAX_SUPPLY_def COIN_def)
  then have "issuance_loop 0 n (era_reward 0) = sum block_subsidy {..<n}"
    using issuance_loop_sum [of 0 0 n] by (simp add: atLeast0LessThan)
  then show ?thesis
    using subsidy_cap [of n] by (simp add: cumulative_issuance_def era_reward_def)
qed

section \<open>Proof of work\<close>

text \<open>
  A hash meets the proof-of-work rule of a difficulty exactly when, read as a number, it is below
  the greatest 512-bit number divided by the difficulty; so a hash that meets a difficulty meets every
  smaller one.
\<close>

theorem verify_pow_iff:
  "(verify_pow h d \<longleftrightarrow> unat h < (2 ^ 512 - 1) div max d 1)
   \<and> (d' \<le> d \<and> verify_pow h d \<longrightarrow> verify_pow h d')"
proof -
  have eq: "verify_pow h d \<longleftrightarrow> unat h < (2 ^ 512 - 1) div max d 1" for d
  proof -
    have le: "(2 ^ 512 - 1 :: nat) div max d 1 \<le> 2 ^ 512 - 1" by (rule div_le_dividend)
    have "(2 ^ 512 - 1 :: nat) < 2 ^ LENGTH(512)" by simp
    with le have "(2 ^ 512 - 1 :: nat) div max d 1 < 2 ^ LENGTH(512)" by (rule le_less_trans)
    then have "unat (pow_target d) = (2 ^ 512 - 1) div max d 1"
      unfolding pow_target_def by (simp only: unat_of_nat mod_less)
    then show ?thesis by (simp add: verify_pow_def hash_meets_target_def word_less_nat_alt)
  qed
  have "(2 ^ 512 - 1 :: nat) div max d 1 \<le> (2 ^ 512 - 1) div max d' 1" if "d' \<le> d"
    using that by (intro div_le_mono2) auto
  then show ?thesis using eq by (meson order_less_le_trans)
qed

theorem verify_pow_iff_witness: "verify_pow 5 7000 \<and> verify_pow 5 1"
proof -
  have "verify_pow 5 7000" using verify_pow_iff [of 5 7000] by simp
  then show ?thesis using verify_pow_iff [of 5 7000 1] by simp
qed

section \<open>Difficulty adjustment\<close>

lemma clamp_window:
  assumes "flr \<le> (sp :: nat)"
  shows "max (sp * 3 div 4) flr \<le> sp" "sp \<le> max (sp * 5 div 4) (sp + 1)"
    "sp < 2 ^ 63 \<Longrightarrow> max (sp * 5 div 4) (sp + 1) < 2 ^ 64"
proof -
  have "sp * 3 div 4 \<le> sp * 4 div 4" by (rule div_le_mono) simp
  then show "max (sp * 3 div 4) flr \<le> sp" using assms by simp
  show "sp \<le> max (sp * 5 div 4) (sp + 1)" by simp
  have "sp * 5 div 4 \<le> sp * 8 div 4" by (rule div_le_mono) simp
  then have "sp * 5 div 4 \<le> 2 * sp" by simp
  then show "max (sp * 5 div 4) (sp + 1) < 2 ^ 64" if "sp < 2 ^ 63" using that by simp
qed

lemma retarget_bounds:
  assumes "max base flr < 2 ^ 63"
  defines "sp \<equiv> max base flr"
  shows "flr \<le> retarget_difficulty base new old flr"
    and "sp * 3 div 4 \<le> retarget_difficulty base new old flr"
    and "retarget_difficulty base new old flr \<le> max (sp * 5 div 4) (sp + 1)"
proof -
  define raw where "raw = sat_mul128 sp (DAA_WINDOW * TARGET_BLOCK_TIME_MS) div max (new - old) 1"
  define up where "up = max (sp * 5 div 4) (sp + 1)"
  define down where "down = max (sp * 3 div 4) flr"
  note w = clamp_window [of flr sp, folded up_def down_def]
  have sp: "flr \<le> sp" "sp < 2 ^ 63" using assms(1) by (simp add: sp_def, simp only: sp_def)
  have c: "down \<le> clamp_nat raw down up \<and> clamp_nat raw down up \<le> up"
    by (rule clamp_nat_bounds) (use w(1,2) [OF sp(1)] in linarith)
  have "clamp_nat raw down up < 2 ^ 64" using c w(3) [OF sp] by (meson le_less_trans)
  then have e: "as_u64 (clamp_nat raw down up) = clamp_nat raw down up" by (rule as_u64_exact)
  have "retarget_difficulty base new old flr = max (as_u64 (clamp_nat raw down up)) flr"
    unfolding retarget_difficulty_def Let_def raw_def up_def down_def sp_def by (rule refl)
  then have eq: "retarget_difficulty base new old flr = max (clamp_nat raw down up) flr" unfolding e .
  show "flr \<le> retarget_difficulty base new old flr" unfolding eq by simp
  have "sp * 3 div 4 \<le> down" unfolding down_def by simp
  then show "sp * 3 div 4 \<le> retarget_difficulty base new old flr" using c unfolding eq by linarith
  have "flr \<le> up" using sp(1) w(2) [OF sp(1)] by linarith
  then have "retarget_difficulty base new old flr \<le> up" using c unfolding eq by simp
  then show "retarget_difficulty base new old flr \<le> max (sp * 5 div 4) (sp + 1)" unfolding up_def .
qed

lemma daa_loop_steps:
  "daa_loop dag gd None seen samples = Some samples"
  "daa_loop dag gd (Some h) seen samples =
     (if length samples \<ge> DAA_WINDOW then Some samples
      else
        (case hget gd h of
           None \<Rightarrow> Some samples
         | Some d \<Rightarrow>
             (let (seen1, samples1) = daa_blues dag (mergeset_blues d) seen samples
              in if mergeset_blues d = [] \<and> h \<notin> set seen1
                 then daa_loop dag gd (selected_parent d) (h # seen1)
                        (case hget dag h of
                           None \<Rightarrow> samples1
                         | Some b \<Rightarrow> samples1 @ [(timestamp b, max (b_difficulty b) 1)])
                 else daa_loop dag gd (selected_parent d) seen1 samples1)))"
  by (subst daa_loop.simps, simp)+

lemma daa_blues_length:
  "length samples \<le> DAA_WINDOW \<Longrightarrow> length (snd (daa_blues dag xs seen samples)) \<le> DAA_WINDOW"
  by (induction dag xs seen samples rule: daa_blues.induct) (auto split: option.splits)

lemma daa_loop_returns:
  assumes "links_ok gd" and "\<And>p. cursor = Some p \<Longrightarrow> hhas gd p" and "length samples \<le> DAA_WINDOW"
  shows "\<exists>ss. daa_loop dag gd cursor seen samples = Some ss \<and> length ss \<le> DAA_WINDOW"
  using assms(2,3)
proof (induction "case cursor of None \<Rightarrow> 0 | Some h \<Rightarrow> Suc (blue_score (hidx gd h))"
    arbitrary: cursor seen samples rule: less_induct)
  case less
  show ?case
  proof (cases "\<exists>h d. cursor = Some h \<and> length samples < DAA_WINDOW \<and> hget gd h = Some d")
    case False
    then show ?thesis using less.prems by (cases cursor) (auto simp: daa_loop_steps split: option.splits)
  next
    case True
    then obtain h d where h: "cursor = Some h" "length samples < DAA_WINDOW" "hget gd h = Some d" by blast
    have rec: "\<exists>ss'. daa_loop dag gd (selected_parent d) s' ss = Some ss' \<and> length ss' \<le> DAA_WINDOW"
      if "length ss \<le> DAA_WINDOW" for s' ss
    proof (rule less.hyps)
      show "(case selected_parent d of None \<Rightarrow> 0 | Some h \<Rightarrow> Suc (blue_score (hidx gd h)))
          < (case cursor of None \<Rightarrow> 0 | Some h \<Rightarrow> Suc (blue_score (hidx gd h)))"
        using assms(1) h by (auto simp: links_ok_def sp_edge_def split: option.splits)
      show "hhas gd p" if "selected_parent d = Some p" for p
        using assms(1) h that by (auto simp: links_ok_def sp_edge_def)
    qed (rule that)
    obtain s1 ss1 where b: "daa_blues dag (mergeset_blues d) seen samples = (s1, ss1)" by fastforce
    have l1: "length ss1 \<le> DAA_WINDOW"
      using daa_blues_length [of samples dag "mergeset_blues d" seen] h(2) b by simp
    have l2: "length ss1 < DAA_WINDOW" if "mergeset_blues d = []" using b that h(2) by simp
    show ?thesis
      using h b l1 l2 by (auto simp: daa_loop_steps intro!: rec split: option.splits)
  qed
qed

lemma collect_daa_returns:
  assumes "links_ok gd" and "hhas gd sp"
  obtains ss where "collect_daa_blue_samples dag gd sp = Some ss" and "length ss \<le> DAA_WINDOW"
  using daa_loop_returns [OF assms(1), of "Some sp" "[]" dag "[]"] assms(2)
  by (auto simp: collect_daa_blue_samples_def)

text \<open>
  The required difficulty of a block with known parents always exists, is at least the floor of
  the supply era, and differs from that of the selected parent by at most a quarter (or one unit, or
  the floor), for difficulties below two to the 63.
\<close>

theorem expected_difficulty_bounded:
  assumes run: "dag_run dag gd r" and ne: "ps \<noteq> []" and ps: "\<forall>p\<in>set ps. hhas dag p"
    and small: "\<forall>b\<in>set (map snd dag). b_difficulty b < 2 ^ 63"
  shows "\<exists>sp d. select_parent gd ps = Some sp \<and> expected_difficulty_at lab dag gd minted ps ts = Some d \<and>
    (let base = max (b_difficulty (hidx dag sp)) (era_min_difficulty lab minted)
     in era_min_difficulty lab minted \<le> d \<and> base * 3 div 4 \<le> d \<and> d \<le> max (base * 5 div 4) (base + 1))"
proof -
  note g = dag_run_inv [OF run]
  have hg: "hhas gd x = hhas dag x" for x using g by (simp add: ghost_inv_def)
  obtain sp where sp: "select_parent gd ps = Some sp"
    using select_parent_exists [OF ne] ps hg by metis
  have hsp: "hhas gd sp" "hhas dag sp" using select_parent_Some [OF sp] hg by auto
  obtain ss where ss: "collect_daa_blue_samples dag gd sp = Some ss" "length ss \<le> DAA_WINDOW"
    by (rule collect_daa_returns [OF ghost_links(1) [OF g] hsp(1)])
  define flr where "flr = era_min_difficulty lab minted"
  define base where "base = max (b_difficulty (hidx dag sp)) flr"
  have hb: "hget dag sp = Some (hidx dag sp)" by (rule hget_hidx [OF hsp(2)])
  have fl: "flr < 2 ^ 63" by (simp add: flr_def era_min_difficulty_def BOOTSTRAP_MIN_DIFFICULTY_def HARD_ERA_MIN_DIFFICULTY_def)
  have "hidx dag sp \<in> set (map snd dag)" using map_of_SomeD [OF hb] by force
  then have bs: "base < 2 ^ 63" using small fl by (auto simp: base_def)
  define scaled where "scaled = retarget_difficulty (max (as_u64 (sum_list (map snd ss) div length ss)) flr)
    (Max (set (map fst ss))) (Min (set (map fst ss))) flr"
  define up where "up = max (base * 5 div 4) (base + 1)"
  define down where "down = max (base * 3 div 4) flr"
  note w = clamp_window [of flr base, folded up_def down_def]
  have fb: "flr \<le> base" by (simp add: base_def)
  have c: "down \<le> clamp_nat scaled down up \<and> clamp_nat scaled down up \<le> up"
    by (rule clamp_nat_bounds) (use w(1,2) [OF fb] in linarith)
  have "clamp_nat scaled down up < 2 ^ 64" using c w(3) [OF fb bs] by (meson le_less_trans)
  then have e: "as_u64 (clamp_nat scaled down up) = clamp_nat scaled down up" by (rule as_u64_exact)
  define d where "d = max (if length ss < DAA_WINDOW then base else clamp_nat scaled down up) flr"
  have "expected_difficulty_at lab dag gd minted ps ts
      = Some (max (if length ss < DAA_WINDOW then base else as_u64 (clamp_nat scaled down up)) flr)"
    unfolding expected_difficulty_at_def Let_def flr_def base_def scaled_def up_def down_def
    by (simp only: sp ss(1) hb option.case)
  then have ex: "expected_difficulty_at lab dag gd minted ps ts = Some d" unfolding e d_def .
  have bd: "base * 3 div 4 \<le> down" "down \<le> base" "base \<le> up" using w(1,2) [OF fb] by (simp_all add: down_def)
  then have "flr \<le> d" "base * 3 div 4 \<le> d" "d \<le> up" using c fb unfolding d_def by auto
  then show ?thesis
    using sp ex unfolding Let_def flr_def [symmetric] up_def base_def by blast
qed

theorem expected_difficulty_bounded_witness:
  "\<exists>sp d. select_parent demo_gd [1] = Some sp \<and> expected_difficulty_at False demo_dag demo_gd 0 [1] 5 = Some d \<and>
    (let base = max (b_difficulty (hidx demo_dag sp)) (era_min_difficulty False 0)
     in era_min_difficulty False 0 \<le> d \<and> base * 3 div 4 \<le> d \<and> d \<le> max (base * 5 div 4) (base + 1))"
  by (rule expected_difficulty_bounded [OF demo_dag_run]) (simp_all add: hhas_def demo_dag_def demo_block_def)

section \<open>Bounds for skipped headers\<close>

lemma hop_loop_bounds:
  assumes "hop_loop flr n lo hi = (lo', hi')" and "flr \<le> lo"
  shows "flr \<le> lo' \<and> lo' \<le> lo \<and> hi \<le> hi' \<and> (hi' + 4) * 4 ^ n \<le> (hi + 4) * 5 ^ n"
  using assms
proof (induction n arbitrary: lo hi)
  case (Suc n)
  let ?lo = "max (lo * 3 div 4) flr" and ?hi = "max (hi * 5 div 4) (hi + 1)"
  have step: "flr \<le> ?lo" "?lo \<le> lo" "hi \<le> ?hi" "(?hi + 4) * 4 \<le> (hi + 4) * 5"
    using Suc.prems clamp_window [of flr lo] by (auto simp: max_def)
  have IH: "flr \<le> lo' \<and> lo' \<le> ?lo \<and> ?hi \<le> hi' \<and> (hi' + 4) * 4 ^ n \<le> (?hi + 4) * 5 ^ n"
    by (rule Suc.IH) (use Suc.prems step in auto)
  have "(hi' + 4) * 4 ^ Suc n = (hi' + 4) * 4 ^ n * 4" by simp
  also have "\<dots> \<le> (?hi + 4) * 5 ^ n * 4" using IH by simp
  also have "\<dots> = (?hi + 4) * 4 * 5 ^ n" by simp
  also have "\<dots> \<le> (hi + 4) * 5 * 5 ^ n" using step(4) by (rule mult_le_mono1)
  finally have "(hi' + 4) * 4 ^ Suc n \<le> (hi + 4) * 5 ^ Suc n" by (simp only: power_Suc mult.assoc)
  then show ?case using IH step(2,3) by (meson le_trans)
qed simp

text \<open>
  The bounds for a header that skips heights enclose the older difficulty and respect the floor,
  whatever the gap, as long as the older difficulty is below two to the 43.
\<close>

theorem hop_bounds_enclose:
  assumes "max older flr < 2 ^ 43"
  shows "case hop_difficulty_bounds older gap flr of (lo, hi) \<Rightarrow>
    flr \<le> lo \<and> lo \<le> max older flr \<and> max older flr \<le> hi"
proof -
  define base where "base = max older flr"
  define n where "n = min (sat_add64 ((gap - 1) div DAA_WINDOW) 1) 64"
  obtain lo hi where lh: "hop_loop flr n base base = (lo, hi)" by fastforce
  have b: "flr \<le> lo \<and> lo \<le> base \<and> base \<le> hi \<and> (hi + 4) * 4 ^ n \<le> (base + 4) * 5 ^ n"
    by (rule hop_loop_bounds [OF lh]) (simp add: base_def)
  have base: "base < 2 ^ 43" using assms by (simp only: base_def)
  have hi64: "hi < 2 ^ 64"
  proof -
    obtain k where k: "n + k = 64" using le_Suc_ex [of n 64] by (auto simp: n_def)
    have "(hi + 4) * 4 ^ 64 = (hi + 4) * 4 ^ n * 4 ^ k" by (simp add: k [symmetric] power_add)
    also have "\<dots> \<le> (base + 4) * 5 ^ n * 4 ^ k" using b by simp
    also have "\<dots> \<le> (base + 4) * 5 ^ n * 5 ^ k" by (simp add: power_mono)
    also have "\<dots> = (base + 4) * 5 ^ 64" by (simp add: k [symmetric] power_add)
    also have "\<dots> \<le> (2 ^ 43 + 4) * 5 ^ 64" using base by simp
    finally show ?thesis by simp
  qed
  show ?thesis
  proof -
    have "hop_difficulty_bounds older gap flr = (max (as_u64 lo) flr, as_u64 hi)"
      unfolding hop_difficulty_bounds_def Let_def base_def [symmetric] n_def [symmetric] lh by simp
    moreover have "as_u64 lo = lo" "as_u64 hi = hi" using hi64 b by (auto intro!: as_u64_exact)
    ultimately show ?thesis using b by (simp add: base_def [symmetric])
  qed
qed

theorem hop_bounds_enclose_witness:
  "case hop_difficulty_bounds 16777216 100000 7000 of (lo, hi) \<Rightarrow>
    7000 \<le> lo \<and> lo \<le> max 16777216 7000 \<and> max 16777216 7000 \<le> hi"
  by (rule hop_bounds_enclose) simp

text \<open>
  Above that range the cast of the upper bound to 64 bits wraps: an older difficulty of about 0.8 times
  two to the 64 gives the upper bound 0, below the floor and below the lower bound.
\<close>

lemma hop_bounds_wrap:
  "hop_difficulty_bounds 14757395258967641293 1 7000 = (11068046444225730969, 0)"
proof -
  have "min (sat_add64 ((1 - 1) div DAA_WINDOW) 1) 64 = Suc 0" by (simp add: sat_add64_def)
  then show ?thesis unfolding hop_difficulty_bounds_def by (simp add: as_u64_def)
qed

end
