(* ===== verification/Crypto.thy ===== *)
theory Crypto
  imports Types
begin

text \<open>
  Digests and signatures of \<open>src/abs_sig.rs\<close> and \<open>src/lib.rs\<close> over the third-party Blake3 and ML-DSA-87 of the
  \<open>env\<close> record, and the byte encodings the signing messages are made of: little-endian integers, the
  64 bytes of a digest, the bytes of a string.
\<close>

definition le_bytes :: "nat \<Rightarrow> nat \<Rightarrow> bytes" where
  \<comment> \<open>\<open>x.to_le_bytes()\<close> of an integer of \<open>n\<close> bytes\<close>
  "le_bytes n x = map (\<lambda>i. word_of_nat (x div 256 ^ i)) [0..<n]"

definition le_nat :: "bytes \<Rightarrow> nat" where
  \<comment> \<open>\<open>u64::from_le_bytes\<close>\<close>
  "le_nat bs = foldr (\<lambda>b acc. unat b + 256 * acc) bs 0"

definition hash_bytes :: "hash \<Rightarrow> bytes" where
  \<comment> \<open>\<open>h.as_bytes()\<close>; a digest is read as a big-endian number\<close>
  "hash_bytes h = map (\<lambda>i. ucast (drop_bit (8 * (63 - i)) h)) [0..<64]"

definition str_bytes :: "string \<Rightarrow> bytes" where
  "str_bytes s = map of_char s"

definition str_prefix :: "string \<Rightarrow> string \<Rightarrow> string option" where
  \<comment> \<open>\<open>s.strip_prefix(p)\<close>\<close>
  "str_prefix p s = (if take (length p) s = p then Some (drop (length p) s) else None)"

definition digest512 :: "env \<Rightarrow> string \<Rightarrow> bytes \<Rightarrow> hash" where
  "digest512 E domain message =
     blake3_512 E (str_bytes ''hassan-pq-512-v1'' @ str_bytes domain @ message)"

definition verify_signature :: "env \<Rightarrow> bytes \<Rightarrow> bytes \<Rightarrow> bytes \<Rightarrow> bool" where
  "verify_signature E pk message sig \<longleftrightarrow>
     length pk = pk_len E \<and> length sig = sig_len E \<and> mldsa_verify E pk message sig"

definition verify_pq512 :: "env \<Rightarrow> string \<Rightarrow> bytes \<Rightarrow> bytes \<Rightarrow> bytes \<Rightarrow> bool" where
  "verify_pq512 E domain message pk sig =
     verify_signature E pk (hash_bytes (digest512 E domain message)) sig"

definition address_hash :: "env \<Rightarrow> bytes \<Rightarrow> hash" where
  "address_hash E pk = digest512 E ''address'' pk"

definition hashlock_commitment :: "env \<Rightarrow> bytes \<Rightarrow> hash" where
  "hashlock_commitment E preimage = blake3_512 E (str_bytes ''hassan-hashlock-v1'' @ preimage)"

lemma length_le_bytes [simp]: "length (le_bytes n x) = n"
  by (simp add: le_bytes_def)

lemma length_hash_bytes [simp]: "length (hash_bytes h) = 64"
  by (simp add: hash_bytes_def)

lemma le_bytes_inj:
  assumes "x < 256 ^ n" and "y < 256 ^ n" and "le_bytes n x = le_bytes n y"
  shows "x = y"
  using assms
proof (induction n arbitrary: x y)
  case (Suc n)
  have step: "le_bytes (Suc n) z = word_of_nat z # le_bytes n (z div 256)" for z
    by (simp add: le_bytes_def upt_conv_Cons map_Suc_upt [symmetric] div_mult2_eq comp_def
        del: upt_Suc)
  have m: "(word_of_nat x :: 8 word) = word_of_nat y" and t: "le_bytes n (x div 256) = le_bytes n (y div 256)"
    using Suc.prems(3) by (simp_all add: step)
  have "x mod 256 = y mod 256"
    using arg_cong [OF m, of unat] by (simp add: unat_of_nat)
  moreover have "x div 256 = y div 256"
    by (rule Suc.IH [OF _ _ t]) (use Suc.prems in \<open>auto simp: less_mult_imp_div_less mult.commute\<close>)
  ultimately show ?case by (metis div_mult_mod_eq)
qed (simp add: le_bytes_def)

text \<open>
  A concrete environment for examples: a constant digest, keys and signatures of one byte, every
  signature valid, empty serializations.
\<close>

definition demo_env :: env where
  "demo_env = \<lparr>blake3_512 = (\<lambda>_. 7), mldsa_verify = (\<lambda>_ _ _. True), slhdsa_verify = (\<lambda>_ _ _. True),
     pk_len = 1, sig_len = 1, slh_pk_len = 1, slh_sig_len = 1,
     ser_predicate = (\<lambda>_. []), ser_witness = (\<lambda>_. []), ser_utxo_tx = (\<lambda>_. []), ser_transparent_tx = (\<lambda>_. []),
     ser_registry_op = (\<lambda>_. []), ser_custody = (\<lambda>_. []), ser_block = (\<lambda>_. []),
     hex_encode = (\<lambda>_. []), hex_decode = (\<lambda>_. None), stark_verify = (\<lambda>_ _. True), stark_parses = (\<lambda>_. True)\<rparr>"

lemma verify_pq512_lengths:
  "verify_pq512 E domain message pk sig \<Longrightarrow> length pk = pk_len E \<and> length sig = sig_len E"
  by (simp add: verify_pq512_def verify_signature_def)

end
