(* ===== verification/Address.thy ===== *)
theory Address
  imports Crypto
begin

text \<open>
  Bech32m addresses of \<open>src/address.rs\<close>: the checksum, the regrouping of bits, encoding and decoding,
  the fingerprint shared by the bech32m and the legacy hexadecimal form, and the equivalence of address
  strings. A five-bit symbol is an \<open>8 word\<close>, as in the code.
\<close>

unbundle bit_operations_syntax

definition CHARSET :: string where "CHARSET = ''qpzry9x8gf2tvdw0s3jn54khce6mua7l''"
definition BECH32M_CONST :: "32 word" where "BECH32M_CONST = 0x2bc830a3"
definition ADDRESS_PAYLOAD_LEN :: nat where "ADDRESS_PAYLOAD_LEN = 32"

section \<open>Checksum\<close>

definition bech_gens :: "32 word list" where
  "bech_gens = [0x3b6a57b2, 0x26508e6d, 0x1ea119fa, 0x3d4233dd, 0x2a1462b3]"

definition poly_step :: "8 word \<Rightarrow> 32 word \<Rightarrow> 32 word" where
  \<comment> \<open>the body of the outer loop of \<open>polymod\<close>\<close>
  "poly_step v chk =
     (let b = drop_bit 25 chk;
          chk1 = push_bit 5 (chk AND 0x1ffffff) XOR ucast v
      in fold (\<lambda>(i, g) c. if drop_bit i b AND 1 = 1 then c XOR g else c)
           (zip [0..<5] bech_gens) chk1)"

definition polymod :: "8 word list \<Rightarrow> 32 word" where
  "polymod values = fold poly_step values 1"

definition hrp_expand :: "string \<Rightarrow> 8 word list" where
  "hrp_expand hrp = map (\<lambda>c. drop_bit 5 (of_char c)) hrp @ [0] @ map (\<lambda>c. of_char c AND 31) hrp"

section \<open>Regrouping bits\<close>

function emit_bits :: "32 word \<Rightarrow> nat \<Rightarrow> nat \<Rightarrow> 8 word list \<Rightarrow> nat \<times> 8 word list" where
  \<comment> \<open>\<open>while bits >= to { ... }\<close>; the code calls it with \<open>to\<close> 5 or 8\<close>
  "emit_bits acc bits to ret =
     (if bits \<ge> to \<and> 0 < to
      then emit_bits acc (bits - to) to (ret @ [ucast (drop_bit (bits - to) acc AND (push_bit to 1 - 1))])
      else (bits, ret))"
  by pat_completeness auto
termination by (relation "measure (\<lambda>(acc, bits, to, ret). bits)") auto

declare emit_bits.simps [simp del]

fun convert_loop :: "nat \<Rightarrow> nat \<Rightarrow> 8 word list \<Rightarrow> 32 word \<Rightarrow> nat \<Rightarrow> 8 word list
    \<Rightarrow> (32 word \<times> nat \<times> 8 word list) option" where
  "convert_loop frm to [] acc bits ret = Some (acc, bits, ret)"
| "convert_loop frm to (v # vs) acc bits ret =
     (if drop_bit frm (ucast v :: 32 word) \<noteq> 0 then None
      else
        (let acc1 = push_bit frm acc OR ucast v;
             (bits1, ret1) = emit_bits acc1 (bits + frm) to ret
         in convert_loop frm to vs acc1 bits1 ret1))"

definition convert_bits :: "8 word list \<Rightarrow> nat \<Rightarrow> nat \<Rightarrow> bool \<Rightarrow> 8 word list option" where
  "convert_bits data frm to pad =
     (case convert_loop frm to data 0 0 [] of
        None \<Rightarrow> None
      | Some (acc, bits, ret) \<Rightarrow>
          (let tail = push_bit (to - bits) acc AND (push_bit to 1 - 1)
           in if pad then (if bits > 0 then Some (ret @ [ucast tail]) else Some ret)
              else if bits \<ge> frm \<or> tail \<noteq> 0 then None else Some ret))"

section \<open>Encoding and decoding\<close>

definition bech_encode :: "string \<Rightarrow> 8 word list \<Rightarrow> string" where
  \<comment> \<open>indexing \<open>CHARSET\<close> panics on a symbol of 32 or more; \<open>convert_bits\<close> to 5 bits gives none\<close>
  "bech_encode hrp data =
     (let checksum = polymod (hrp_expand hrp @ data @ replicate 6 0) XOR BECH32M_CONST
      in hrp @ ''1'' @ map (\<lambda>d. CHARSET ! unat d) data
         @ map (\<lambda>i. CHARSET ! unat (drop_bit (5 * (5 - i)) checksum AND 31)) [0..<6])"

definition rsplit_once :: "char \<Rightarrow> string \<Rightarrow> (string \<times> string) option" where
  "rsplit_once c s =
     (if c \<in> set s
      then Some (rev (tl (dropWhile (\<lambda>x. x \<noteq> c) (rev s))), rev (takeWhile (\<lambda>x. x \<noteq> c) (rev s)))
      else None)"

definition char_position :: "char \<Rightarrow> string \<Rightarrow> nat option" where
  "char_position c s = (if c \<in> set s then Some (length (takeWhile (\<lambda>x. x \<noteq> c) s)) else None)"

definition ascii_upper :: "char \<Rightarrow> bool" where
  "ascii_upper c \<longleftrightarrow> of_char c \<in> {65..90 :: nat}"

definition ascii_lower :: "char \<Rightarrow> bool" where
  "ascii_lower c \<longleftrightarrow> of_char c \<in> {97..122 :: nat}"

definition to_ascii_lower :: "char \<Rightarrow> char" where
  "to_ascii_lower c = (if ascii_upper c then char_of (of_char c + 32 :: nat) else c)"

fun symbols :: "string \<Rightarrow> 8 word list option" where
  \<comment> \<open>the loop over \<open>data.bytes()\<close> in \<open>decode\<close>\<close>
  "symbols [] = Some []"
| "symbols (c # cs) =
     (case char_position c CHARSET of
        None \<Rightarrow> None
      | Some v \<Rightarrow> (case symbols cs of None \<Rightarrow> None | Some vs \<Rightarrow> Some (word_of_nat v # vs)))"

definition bech_decode :: "string \<Rightarrow> (string \<times> 8 word list) option" where
  "bech_decode addr =
     (if list_ex ascii_upper addr \<and> list_ex ascii_lower addr then None
      else
        (case rsplit_once (CHR ''1'') (map to_ascii_lower addr) of
           None \<Rightarrow> None
         | Some (hrp, data) \<Rightarrow>
             if hrp = [] \<or> length data < 6 then None
             else
               (case symbols data of
                  None \<Rightarrow> None
                | Some values \<Rightarrow>
                    if polymod (hrp_expand hrp @ values) \<noteq> BECH32M_CONST then None
                    else Some (hrp, take (length values - 6) values))))"

definition encode_payload :: "bytes \<Rightarrow> string" where
  "encode_payload payload =
     (case convert_bits payload 8 5 True of Some data \<Rightarrow> bech_encode ''hsn'' data | None \<Rightarrow> [])"

definition encode_hash :: "hash \<Rightarrow> string" where
  \<comment> \<open>\<open>convert_bits\<close> from 8 bits never fails, so \<open>expect\<close> does not panic\<close>
  "encode_hash h = encode_payload (take ADDRESS_PAYLOAD_LEN (hash_bytes h))"

definition encode_address :: "env \<Rightarrow> bytes \<Rightarrow> string" where
  "encode_address E pubkey = encode_hash (address_hash E pubkey)"

definition hash_to_address :: "env \<Rightarrow> bytes \<Rightarrow> string" where
  "hash_to_address E pubkey = encode_address E pubkey"

definition encode_legacy_hex :: "env \<Rightarrow> hash \<Rightarrow> string" where
  "encode_legacy_hex E h = ''hsn:'' @ hex_encode E (hash_bytes h)"

definition decode_address :: "string \<Rightarrow> bytes option" where
  "decode_address addr =
     (case bech_decode addr of
        None \<Rightarrow> None
      | Some (hrp, data5) \<Rightarrow>
          if hrp \<noteq> ''hsn'' then None
          else
            (case convert_bits data5 5 8 False of
               None \<Rightarrow> None
             | Some bs \<Rightarrow> if length bs \<noteq> ADDRESS_PAYLOAD_LEN then None else Some bs))"

definition address_fingerprint :: "env \<Rightarrow> string \<Rightarrow> bytes option" where
  "address_fingerprint E addr =
     (case decode_address addr of
        Some fp \<Rightarrow> Some fp
      | None \<Rightarrow>
          (case str_prefix ''hsn:'' addr of
             None \<Rightarrow> None
           | Some hex_part \<Rightarrow>
               if length hex_part \<noteq> 128 then None
               else
                 (case hex_decode E hex_part of
                    None \<Rightarrow> None
                  | Some bs \<Rightarrow> if length bs \<noteq> 64 then None else Some (take ADDRESS_PAYLOAD_LEN bs))))"

definition addresses_equivalent :: "env \<Rightarrow> string \<Rightarrow> string \<Rightarrow> bool" where
  "addresses_equivalent E a b =
     (if a = b then True
      else (case (address_fingerprint E a, address_fingerprint E b) of
              (Some fa, Some fb) \<Rightarrow> fa = fb
            | _ \<Rightarrow> False))"

definition address_matches_pubkey :: "env \<Rightarrow> string \<Rightarrow> bytes \<Rightarrow> bool" where
  "address_matches_pubkey E addr pubkey =
     (let h = address_hash E pubkey
      in addresses_equivalent E addr (encode_hash h) \<or> addresses_equivalent E addr (encode_legacy_hex E h))"

definition is_bech32m_address :: "string \<Rightarrow> bool" where
  "is_bech32m_address addr = (decode_address addr \<noteq> None)"

definition is_valid_hassan_address :: "env \<Rightarrow> string \<Rightarrow> bool" where
  "is_valid_hassan_address E addr =
     (if is_bech32m_address addr then True
      else (case str_prefix ''hsn:'' addr of
              None \<Rightarrow> False
            | Some hex_part \<Rightarrow>
                if length hex_part \<noteq> 128 then False
                else (case hex_decode E hex_part of None \<Rightarrow> False | Some bs \<Rightarrow> length bs = 64)))"

end
