(* ===== verification/Address_Correct.thy ===== *)
theory Address_Correct
  imports Address
begin

text \<open>
  Round trip of bech32m addresses. Regrouping is a statement on bit streams, most significant bit
  first; the checksum is linear, so the six symbols appended by \<open>bech_encode\<close> bring \<open>polymod\<close> to the
  bech32m constant.
\<close>

unbundle bit_operations_syntax

section \<open>Regrouping bits as a stream\<close>

definition lowbits :: "nat \<Rightarrow> 'a::len word \<Rightarrow> bool list" where
  \<comment> \<open>the low bits of a word, most significant first\<close>
  "lowbits n w = map (bit w) (rev [0..<n])"

definition stream :: "nat \<Rightarrow> 8 word list \<Rightarrow> bool list" where
  "stream n ws = concat (map (lowbits n) ws)"

lemma length_lowbits [simp]: "length (lowbits n w) = n"
  by (simp add: lowbits_def)

lemma stream_simps [simp]:
  "stream n [] = []" "stream n (w # ws) = lowbits n w @ stream n ws"
  "stream n (ws @ vs) = stream n ws @ stream n vs"
  by (simp_all add: stream_def)

lemma length_stream [simp]: "length (stream n ws) = n * length ws"
  by (induction ws) simp_all

lemma lowbits_split:
  "lowbits (m + n) w = map (bit w) (rev [m..<m + n]) @ lowbits m w"
  by (simp add: lowbits_def upt_add_eq_append [of 0 m n])

lemma lowbits_shift:
  assumes "\<And>i. i < n \<Longrightarrow> bit v i = bit w (m + i)"
  shows "map (bit w) (rev [m..<m + n]) = lowbits n v"
proof -
  have "[m..<m + n] = map (\<lambda>i. m + i) [0..<n]" by (simp add: map_add_upt add.commute [of m])
  then show ?thesis using assms by (simp add: lowbits_def rev_map comp_def)
qed

lemma lowbits_push:
  fixes acc :: "32 word" and v :: "8 word"
  assumes "m + n \<le> 32" and "n \<le> 8" and "drop_bit n (ucast v :: 32 word) = 0"
  shows "lowbits (n + m) (push_bit n acc OR ucast v) = lowbits m acc @ lowbits n v"
proof -
  have hi: "\<not> bit v i" if "n \<le> i" for i
  proof
    assume b: "bit v i"
    then have "i < 8" by (auto dest: bit_imp_le_length)
    then have "bit (drop_bit n (ucast v :: 32 word)) (i - n)" using that b by (simp add: bit_simps)
    then show False using assms(3) by simp
  qed
  have "map (bit (push_bit n acc OR ucast v)) (rev [n..<n + m]) = lowbits m acc"
    by (rule lowbits_shift) (use assms(1) hi in \<open>auto simp: bit_simps\<close>)
  moreover have "lowbits n (push_bit n acc OR ucast v) = lowbits n v"
    using assms by (auto simp: lowbits_def bit_simps)
  ultimately show ?thesis unfolding lowbits_split by simp
qed

lemma lowbits_emit:
  fixes acc :: "32 word"
  assumes "to \<le> bits" and "bits \<le> 32" and "to \<le> 8"
  defines "s \<equiv> (ucast (drop_bit (bits - to) acc AND (push_bit to 1 - 1)) :: 8 word)"
  shows "lowbits bits acc = lowbits to s @ lowbits (bits - to) acc"
proof -
  have mask: "push_bit to 1 - 1 = (mask to :: 32 word)" by (simp add: mask_eq_exp_minus_1 push_bit_eq_mult)
  have "bit s i = bit acc (bits - to + i)" if "i < to" for i
    unfolding s_def mask using that assms(1-3) by (auto simp: bit_simps)
  then have "map (bit acc) (rev [bits - to..<bits - to + to]) = lowbits to s" by (intro lowbits_shift) auto
  then show ?thesis using lowbits_split [of "bits - to" to acc] assms(1) by simp
qed

lemma emit_bits_stream:
  assumes "0 < to" and "to \<le> 8" and "bits \<le> 32" and "emit_bits acc bits to ret = (bits', ret')"
    and "\<forall>s\<in>set ret. unat s < 2 ^ to"
  shows "bits' < to \<and> stream to ret' @ lowbits bits' acc = stream to ret @ lowbits bits acc
    \<and> (\<forall>s\<in>set ret'. unat s < 2 ^ to)"
  using assms
proof (induction acc bits to ret rule: emit_bits.induct)
  case (1 acc bits to ret)
  show ?case
  proof (cases "bits \<ge> to")
    case False
    then show ?thesis using 1(5,6) by (simp add: emit_bits.simps [of acc bits])
  next
    case True
    define s where "s = (ucast (drop_bit (bits - to) acc AND (push_bit to 1 - 1)) :: 8 word)"
    have mask: "push_bit to 1 - 1 = (mask to :: 32 word)" by (simp add: mask_eq_exp_minus_1 push_bit_eq_mult)
    have "take_bit to s = s"
      unfolding s_def mask using 1(3) by (intro bit_word_eqI) (auto simp: bit_simps)
    then have "unat s < 2 ^ to" by (metis unsigned_take_bit_eq take_bit_nat_less_exp)
    moreover have "emit_bits acc (bits - to) to (ret @ [s]) = (bits', ret')"
      using 1(5) True 1(2) by (simp add: emit_bits.simps [of acc bits] s_def)
    ultimately have "bits' < to \<and> stream to ret' @ lowbits bits' acc = stream to (ret @ [s]) @ lowbits (bits - to) acc
        \<and> (\<forall>s\<in>set ret'. unat s < 2 ^ to)"
      using 1(1) True 1(2-6) unfolding s_def by auto
    then show ?thesis using lowbits_emit [OF True 1(4,3), of acc] by (simp add: s_def)
  qed
qed

lemma convert_loop_stream:
  assumes "0 < to" and "to \<le> 8" and "frm \<le> 8" and "bits < to"
    and "\<forall>v\<in>set vs. drop_bit frm (ucast v :: 32 word) = 0" and "\<forall>s\<in>set ret. unat s < 2 ^ to"
  shows "\<exists>acc' bits' ret'. convert_loop frm to vs acc bits ret = Some (acc', bits', ret') \<and> bits' < to
    \<and> stream to ret' @ lowbits bits' acc' = stream to ret @ lowbits bits acc @ stream frm vs
    \<and> (\<forall>s\<in>set ret'. unat s < 2 ^ to)"
  using assms(4-6)
proof (induction vs arbitrary: acc bits ret)
  case (Cons v vs)
  define acc1 where "acc1 = push_bit frm acc OR ucast v"
  obtain bits1 ret1 where e: "emit_bits acc1 (bits + frm) to ret = (bits1, ret1)" by fastforce
  have b: "bits + frm \<le> 32" using Cons.prems(1) assms(2,3) by simp
  note em = emit_bits_stream [OF assms(1,2) b e Cons.prems(3)]
  have lp: "lowbits (bits + frm) acc1 = lowbits bits acc @ lowbits frm v"
    using lowbits_push [OF b assms(3)] Cons.prems(2) by (simp add: acc1_def add.commute)
  obtain acc' bits' ret' where "convert_loop frm to vs acc1 bits1 ret1 = Some (acc', bits', ret')" "bits' < to"
    "stream to ret' @ lowbits bits' acc' = stream to ret1 @ lowbits bits1 acc1 @ stream frm vs"
    "\<forall>s\<in>set ret'. unat s < 2 ^ to"
    using Cons.IH [of bits1 ret1 acc1] em Cons.prems(2) by auto
  moreover have "convert_loop frm to (v # vs) acc bits ret = convert_loop frm to vs acc1 bits1 ret1"
    using Cons.prems(2) e by (simp add: acc1_def)
  ultimately show ?case using em lp by (metis append.assoc stream_simps(2))
qed simp

lemma lowbits_inj: "lowbits 8 v = lowbits 8 w \<Longrightarrow> v = (w :: 8 word)"
  by (intro bit_word_eqI) (auto simp: lowbits_def)

lemma stream_inj: "stream 8 xs = stream 8 ys \<Longrightarrow> xs = ys"
proof (induction xs arbitrary: ys)
  case Nil
  then show ?case by (cases ys) (auto dest: arg_cong [of _ _ length])
next
  case (Cons x xs)
  then obtain y zs where ys: "ys = y # zs" by (cases ys) (auto dest: arg_cong [of _ _ length])
  have "lowbits 8 x @ stream 8 xs = lowbits 8 y @ stream 8 zs" using Cons.prems ys by simp
  then have "lowbits 8 x = lowbits 8 y" "stream 8 xs = stream 8 zs" by (simp_all add: append_eq_append_conv)
  then show ?case using Cons.IH lowbits_inj ys by blast
qed

lemma byte_fits: "drop_bit 8 (ucast (v :: 8 word) :: 32 word) = 0"
  by (intro bit_word_eqI) (auto simp: bit_simps dest: bit_imp_le_length)

lemma symbol_fits: "unat (v :: 8 word) < 2 ^ 5 \<Longrightarrow> drop_bit 5 (ucast v :: 32 word) = 0"
proof -
  assume "unat v < 2 ^ 5"
  then have "take_bit 5 v = v" by (metis take_bit_nat_eq_self unsigned_take_bit_eq unsigned_word_eqI)
  then have "\<not> bit v i" if "5 \<le> i" for i using that by (metis bit_take_bit_iff leD)
  then show ?thesis by (intro bit_word_eqI) (auto simp: bit_simps)
qed

lemma convert_to_symbols:
  assumes "length payload = 32"
  obtains data where "convert_bits payload 8 5 True = Some data" and "length data = 52"
    and "\<forall>s\<in>set data. unat s < 2 ^ 5" and "stream 5 data = stream 8 payload @ replicate 4 False"
proof -
  obtain acc bits ret where c: "convert_loop 8 5 payload 0 0 [] = Some (acc, bits, ret)" "bits < 5"
    "stream 5 ret @ lowbits bits acc = stream 8 payload" "\<forall>s\<in>set ret. unat s < 2 ^ 5"
    using convert_loop_stream [where to = 5 and frm = 8 and vs = payload and bits = 0 and ret = "[]" and acc = 0]
    by (auto simp: byte_fits lowbits_def)
  have "5 * length ret + bits = 256" using arg_cong [OF c(3), of length] assms by simp
  then have bits: "bits = 1" "length ret = 51" using c(2) by presburger+
  define s where "s = (ucast (push_bit 4 acc AND (push_bit 5 1 - 1)) :: 8 word)"
  have mask: "push_bit 5 1 - 1 = (mask 5 :: 32 word)" by (simp add: mask_eq_exp_minus_1)
  have "take_bit 5 s = s" unfolding s_def mask by (intro bit_word_eqI) (auto simp: bit_simps)
  then have s5: "unat s < 2 ^ 5" by (metis unsigned_take_bit_eq take_bit_nat_less_exp)
  have sb: "bit s i \<longleftrightarrow> i = 4 \<and> bit acc 0" if "i < 5" for i
    unfolding s_def mask using that by (auto simp: bit_simps)
  have "[0..<5] = [0, 1, 2, 3, 4]" by (simp add: upt_rec)
  then have "lowbits 5 s = lowbits 1 acc @ replicate 4 False"
    using sb [of 0] sb [of 1] sb [of 2] sb [of 3] sb [of 4] by (simp add: lowbits_def numeral_eq_Suc)
  then have "stream 5 (ret @ [s]) = stream 8 payload @ replicate 4 False"
    using c(3) bits by (metis append.assoc append_Nil2 stream_simps)
  moreover have "convert_bits payload 8 5 True = Some (ret @ [s])"
    using c(1) bits by (simp add: convert_bits_def s_def Let_def)
  ultimately show thesis using that [of "ret @ [s]"] bits s5 c(4) by simp
qed

lemma convert_roundtrip:
  assumes "length payload = 32" and "convert_bits payload 8 5 True = Some data"
  shows "convert_bits data 5 8 False = Some payload"
proof -
  have d: "\<forall>s\<in>set data. unat s < 2 ^ 5" "stream 5 data = stream 8 payload @ replicate 4 False" "length data = 52"
    using convert_to_symbols [OF assms(1)] assms(2) by (metis option.inject)+
  obtain acc bits ret where c: "convert_loop 5 8 data 0 0 [] = Some (acc, bits, ret)" "bits < 8"
    "stream 8 ret @ lowbits bits acc = stream 5 data"
    using convert_loop_stream [where to = 8 and frm = 5 and vs = data and bits = 0 and ret = "[]" and acc = 0]
      d(1) symbol_fits by (auto simp: lowbits_def)
  have "8 * length ret + bits = 260" using arg_cong [OF c(3), of length] d(3) by simp
  then have bits: "bits = 4" "length ret = 32" using c(2) by presburger+
  have "stream 8 ret = stream 8 payload" "lowbits 4 acc = replicate 4 False"
    using c(3) d(2) bits assms(1) by (simp_all add: append_eq_append_conv)
  then have ret: "ret = payload" and z: "lowbits 4 acc = replicate 4 False" using stream_inj by auto
  have "[0..<4] = [0, 1, 2, 3]" by (simp add: upt_rec)
  then have zb: "\<not> bit acc 0" "\<not> bit acc 1" "\<not> bit acc 2" "\<not> bit acc 3"
    using z by (simp_all add: lowbits_def numeral_eq_Suc)
  have mask: "push_bit 8 1 - 1 = (mask 8 :: 32 word)" by (simp add: mask_eq_exp_minus_1)
  have "push_bit 4 acc AND (push_bit 8 1 - 1) = 0"
    unfolding mask
  proof (intro bit_word_eqI)
    fix n :: nat
    have "n - 4 = 0 \<or> n - 4 = 1 \<or> n - 4 = 2 \<or> n - 4 = 3" if "n < 8" using that by presburger
    then show "bit (push_bit 4 acc AND mask 8) n = bit 0 n" using zb by (auto simp: bit_simps)
  qed
  then show ?thesis using c(1) bits ret by (simp add: convert_bits_def Let_def)
qed

section \<open>Checksum\<close>

definition feedback :: "32 word \<Rightarrow> 32 word" where
  "feedback b = fold (\<lambda>(i, g) c. if drop_bit i b AND 1 = 1 then c XOR g else c) (zip [0..<5] bech_gens) 0"

lemma fold_xor_start:
  "fold (\<lambda>(i, g) c. if drop_bit i b AND 1 = 1 then c XOR g else c) xs a
   = a XOR fold (\<lambda>(i, g) c. if drop_bit i b AND 1 = 1 then c XOR g else c) xs (0 :: 32 word)"
proof (induction xs arbitrary: a)
  case (Cons x xs)
  obtain i g where x: "x = (i, g)" by (cases x)
  show ?case
    using Cons.IH [of a] Cons.IH [of "a XOR g"] Cons.IH [of g] x by (auto simp: xor.assoc)
qed simp

lemma poly_step_eq:
  "poly_step v c = push_bit 5 (c AND 0x1ffffff) XOR ucast v XOR feedback (drop_bit 25 c)"
  unfolding poly_step_def Let_def feedback_def by (subst fold_xor_start) (simp only: xor.assoc)

lemma mask25: "(0x1ffffff :: 32 word) = mask 25"
  by (simp add: mask_eq_exp_minus_1)

lemma poly_step_linear:
  assumes "drop_bit 25 y = 0"
  shows "poly_step v (x XOR y) = poly_step 0 x XOR (push_bit 5 y XOR ucast v)"
proof -
  have "drop_bit 25 (x XOR y) = drop_bit 25 x" using assms by (simp add: drop_bit_xor)
  moreover have ym: "y AND mask 25 = y"
  proof (intro bit_word_eqI)
    fix n
    have "\<not> bit y n" if "25 \<le> n" using arg_cong [OF assms, of "\<lambda>w. bit w (n - 25)"] that by (simp add: bit_simps)
    then show "bit (y AND mask 25) n = bit y n" if "n < LENGTH(32)" using that by (cases "n < 25") (auto simp: bit_simps)
  qed
  moreover have "(x XOR y) AND mask 25 = (x AND mask 25) XOR (y AND mask 25)"
    by (intro bit_word_eqI) (auto simp: bit_simps)
  ultimately show ?thesis
    by (simp add: poly_step_eq mask25 push_bit_xor xor.assoc xor.commute xor.left_commute)
qed

lemma poly_step_30:
  assumes "unat v < 2 ^ 5"
  shows "drop_bit 30 (poly_step v c) = 0"
proof -
  have "drop_bit 30 (push_bit 5 (c AND mask 25)) = 0" by (intro bit_word_eqI) (auto simp: bit_simps)
  moreover have "drop_bit 30 (ucast v :: 32 word) = 0"
    by (intro bit_word_eqI) (auto simp: bit_simps dest: bit_imp_le_length)
  moreover have "drop_bit 30 (feedback b) = 0" for b
    by (simp add: feedback_def bech_gens_def upt_rec drop_bit_xor)
  ultimately show ?thesis by (simp add: poly_step_eq mask25 drop_bit_xor)
qed

fun gather :: "8 word list \<Rightarrow> 32 word \<Rightarrow> 32 word" where
  "gather [] y = y"
| "gather (v # vs) y = gather vs (push_bit 5 y XOR ucast v)"

lemma drop_bit_grow:
  fixes v :: "8 word" and y :: "32 word"
  assumes "drop_bit k y = 0" and "unat v < 2 ^ 5"
  shows "drop_bit (k + 5) (push_bit 5 y XOR ucast v) = 0"
proof (intro bit_word_eqI)
  fix n
  have v: "\<not> bit (ucast v :: 32 word) m" if "5 \<le> m" for m
    using arg_cong [OF symbol_fits [OF assms(2)], of "\<lambda>w. bit w (m - 5)"] that by (simp add: bit_simps)
  have y: "\<not> bit y m" if "k \<le> m" for m
    using arg_cong [OF assms(1), of "\<lambda>w. bit w (m - k)"] that by (simp add: bit_simps)
  show "bit (drop_bit (k + 5) (push_bit 5 y XOR ucast v)) n = bit 0 n"
    using v [of "k + 5 + n"] y [of "k + n"] by (auto simp: bit_simps)
qed

lemma fold_poly_linear:
  assumes "drop_bit k y = 0" and "k + 5 * length vs \<le> 30" and "\<forall>v\<in>set vs. unat v < 2 ^ 5"
  shows "fold poly_step vs (x XOR y) = fold poly_step (replicate (length vs) 0) x XOR gather vs y"
  using assms
proof (induction vs arbitrary: x y k)
  case (Cons v vs)
  have "drop_bit 25 y = 0"
  proof -
    have "drop_bit 25 y = drop_bit (25 - k) (drop_bit k y)" using Cons.prems(2) by (simp add: drop_bit_drop_bit)
    then show ?thesis using Cons.prems(1) by simp
  qed
  then have "fold poly_step (v # vs) (x XOR y) = fold poly_step vs (poly_step 0 x XOR (push_bit 5 y XOR ucast v))"
    by (simp add: poly_step_linear)
  also have "\<dots> = fold poly_step (replicate (length vs) 0) (poly_step 0 x) XOR gather vs (push_bit 5 y XOR ucast v)"
    using drop_bit_grow [OF Cons.prems(1), of v] Cons.prems(2,3) by (intro Cons.IH [where k = "k + 5"]) auto
  finally show ?case by simp
qed simp

definition checksum_symbols :: "32 word \<Rightarrow> 8 word list" where
  "checksum_symbols c = map (\<lambda>i. ucast (drop_bit (5 * (5 - i)) c AND 31)) [0..<6]"

lemma mask5: "(31 :: 32 word) = mask 5"
  by (simp add: mask_eq_exp_minus_1)

lemma upt6: "[0..<6] = [0, 1, 2, 3, 4, 5]"
  by (simp add: upt_rec)

lemma symbol_ucast: "ucast (ucast (w AND mask 5 :: 32 word) :: 8 word) = w AND mask 5"
  by (intro bit_word_eqI) (auto simp: bit_simps)

lemma gather_checksum:
  assumes "drop_bit 30 c = 0"
  shows "gather (checksum_symbols c) 0 = c"
proof -
  have hi: "\<not> bit c n" if "30 \<le> n" for n
    using arg_cong [OF assms, of "\<lambda>w. bit w (n - 30)"] that by (simp add: bit_simps)
  have step: "push_bit 5 (drop_bit (k + 5) c) XOR (drop_bit k c AND mask 5) = drop_bit k c" for k
  proof (intro bit_word_eqI)
    fix n
    show "bit (push_bit 5 (drop_bit (k + 5) c) XOR (drop_bit k c AND mask 5)) n = bit (drop_bit k c) n" if "n < LENGTH(32)"
      using that by (cases "n < 5") (auto simp: bit_simps add.commute)
  qed
  have top: "drop_bit 25 c AND mask 5 = drop_bit 25 c"
  proof (intro bit_word_eqI)
    fix n
    show "bit (drop_bit 25 c AND mask 5) n = bit (drop_bit 25 c) n" if "n < LENGTH(32)"
      using that hi [of "25 + n"] by (cases "n < 5") (auto simp: bit_simps)
  qed
  have next_sym: "gather (ucast (drop_bit k c AND 31) # vs) (drop_bit (k + 5) c) = gather vs (drop_bit k c)" for k vs
    by (simp only: gather.simps mask5 symbol_ucast step)
  have "gather (ucast (drop_bit 25 c AND 31) # vs) 0 = gather vs (drop_bit 25 c)" for vs
    by (simp only: gather.simps mask5 symbol_ucast push_bit_of_0 xor.left_neutral) (simp only: top)
  then show ?thesis
    using next_sym [of 20] next_sym [of 15] next_sym [of 10] next_sym [of 5] next_sym [of 0]
    by (simp add: checksum_symbols_def upt6 del: gather.simps(2))
qed

lemma checksum_symbols_5: "s \<in> set (checksum_symbols c) \<Longrightarrow> unat s < 2 ^ 5"
proof -
  have "unat (ucast (w AND mask 5 :: 32 word) :: 8 word) < 2 ^ 5" for w
  proof -
    have "take_bit 5 (ucast (w AND mask 5) :: 8 word) = ucast (w AND mask 5)"
      by (intro bit_word_eqI) (auto simp: bit_simps)
    then show ?thesis by (metis unsigned_take_bit_eq take_bit_nat_less_exp)
  qed
  then show "s \<in> set (checksum_symbols c) \<Longrightarrow> unat s < 2 ^ 5"
    unfolding checksum_symbols_def mask5 by auto
qed

lemma polymod_checksum:
  assumes "xs \<noteq> []" and "\<forall>v\<in>set xs. unat v < 2 ^ 5"
  defines "c \<equiv> polymod (xs @ replicate 6 0) XOR BECH32M_CONST"
  shows "polymod (xs @ checksum_symbols c) = BECH32M_CONST"
proof -
  define S where "S = polymod (xs @ replicate 6 0)"
  have S30: "drop_bit 30 S = 0"
  proof -
    have "replicate 6 (0 :: 8 word) = replicate 5 0 @ [0]" by (simp add: numeral_eq_Suc)
    then have "S = poly_step 0 (fold poly_step (xs @ replicate 5 0) 1)" by (simp add: S_def polymod_def)
    then show ?thesis using poly_step_30 [of 0] by simp
  qed
  have "drop_bit 30 c = 0"
    using S30 by (simp add: c_def S_def [symmetric] drop_bit_xor BECH32M_CONST_def)
  then have g: "gather (checksum_symbols c) 0 = c" by (rule gather_checksum)
  define x where "x = fold poly_step xs 1"
  have "fold poly_step (checksum_symbols c) (x XOR 0)
      = fold poly_step (replicate (length (checksum_symbols c)) 0) x XOR gather (checksum_symbols c) 0"
    by (rule fold_poly_linear [where k = 0]) (use checksum_symbols_5 in \<open>auto simp: checksum_symbols_def\<close>)
  then have "polymod (xs @ checksum_symbols c) = S XOR c"
    by (simp add: polymod_def x_def S_def g) (simp add: checksum_symbols_def)
  then show ?thesis by (simp add: c_def S_def [symmetric] xor.assoc [symmetric])
qed

section \<open>Strings\<close>

lemma charset_position: "i < 32 \<Longrightarrow> char_position (CHARSET ! i) CHARSET = Some i"
proof -
  have "list_all (\<lambda>i. char_position (CHARSET ! i) CHARSET = Some i) [0..<32]" by code_simp
  then show "i < 32 \<Longrightarrow> ?thesis" by (simp add: list_all_iff)
qed

lemma charset_chars: "i < 32 \<Longrightarrow> CHARSET ! i \<noteq> CHR ''1'' \<and> \<not> ascii_upper (CHARSET ! i)"
proof -
  have "list_all (\<lambda>i. CHARSET ! i \<noteq> CHR ''1'' \<and> \<not> ascii_upper (CHARSET ! i)) [0..<32]" by code_simp
  then show "i < 32 \<Longrightarrow> ?thesis" by (simp add: list_all_iff)
qed

definition to_chars :: "8 word list \<Rightarrow> string" where
  "to_chars vs = map (\<lambda>v. CHARSET ! unat v) vs"

lemma symbols_to_chars: "\<forall>v\<in>set vs. unat v < 2 ^ 5 \<Longrightarrow> symbols (to_chars vs) = Some vs"
  by (induction vs) (auto simp: to_chars_def charset_position)

lemma rsplit_to_chars:
  assumes "CHR ''1'' \<notin> set data"
  shows "rsplit_once (CHR ''1'') (hrp @ ''1'' @ data) = Some (hrp, data)"
proof -
  have "takeWhile (\<lambda>x. x \<noteq> CHR ''1'') (rev data @ CHR ''1'' # rev hrp) = rev data"
    using assms by (subst takeWhile_append2) auto
  moreover have "dropWhile (\<lambda>x. x \<noteq> CHR ''1'') (rev data @ CHR ''1'' # rev hrp) = CHR ''1'' # rev hrp"
    using assms by (subst dropWhile_append2) auto
  ultimately show ?thesis by (simp add: rsplit_once_def)
qed

lemma hrp_symbols: "v \<in> set (hrp_expand hrp) \<Longrightarrow> unat v < 2 ^ 5"
proof -
  have "unat (drop_bit 5 w) < 2 ^ 5" "unat (w AND 31) < 2 ^ 5" for w :: "8 word"
  proof -
    have "unat w < 2 ^ 8" using unsigned_less [of w] by simp
    then show "unat (drop_bit 5 w) < 2 ^ 5" by (simp add: drop_bit_eq_div unat_div)
    have "(31 :: 8 word) = mask 5" by (simp add: mask_eq_exp_minus_1)
    then have "w AND 31 = take_bit 5 w" by (simp add: take_bit_eq_mask)
    then show "unat (w AND 31) < 2 ^ 5" by (metis unsigned_take_bit_eq take_bit_nat_less_exp)
  qed
  then show "v \<in> set (hrp_expand hrp) \<Longrightarrow> unat v < 2 ^ 5" by (auto simp: hrp_expand_def)
qed

lemma encode_decode:
  assumes d: "\<forall>v\<in>set data. unat v < 2 ^ 5"
  shows "bech_decode (bech_encode ''hsn'' data) = Some (''hsn'', data)"
proof -
  define c where "c = polymod (hrp_expand ''hsn'' @ data @ replicate 6 0) XOR BECH32M_CONST"
  define cs where "cs = checksum_symbols c"
  have cs5: "\<forall>v\<in>set cs. unat v < 2 ^ 5" using checksum_symbols_5 by (auto simp: cs_def)
  have all5: "\<forall>v\<in>set (data @ cs). unat v < 2 ^ 5" using d cs5 by auto
  have enc: "bech_encode ''hsn'' data = ''hsn'' @ ''1'' @ to_chars (data @ cs)"
  proof -
    have "unat (ucast (w AND 31 :: 32 word) :: 8 word) = unat (w AND 31)" for w :: "32 word"
      unfolding mask5 by (simp add: unsigned_ucast_eq take_bit_eq_mask [symmetric] unsigned_take_bit_eq)
    then show ?thesis
      by (simp add: bech_encode_def Let_def c_def [symmetric] to_chars_def cs_def checksum_symbols_def)
  qed
  have chars: "x \<noteq> CHR ''1'' \<and> \<not> ascii_upper x" if "x \<in> set (to_chars (data @ cs))" for x
    using that all5 charset_chars by (auto simp: to_chars_def)
  have "\<not> ascii_upper x" if "x \<in> set (''hsn'' @ ''1'' @ to_chars (data @ cs))" for x
    using that chars by (auto simp: ascii_upper_def)
  then have nu: "\<not> list_ex ascii_upper (bech_encode ''hsn'' data)"
    and low: "map to_ascii_lower (bech_encode ''hsn'' data) = bech_encode ''hsn'' data"
    unfolding enc by (auto simp: list_ex_iff to_ascii_lower_def map_idI)
  have rs: "rsplit_once (CHR ''1'') (bech_encode ''hsn'' data) = Some (''hsn'', to_chars (data @ cs))"
    unfolding enc by (rule rsplit_to_chars) (use chars in blast)
  have len: "length cs = 6" by (simp add: cs_def checksum_symbols_def)
  have "polymod (hrp_expand ''hsn'' @ data @ cs) = BECH32M_CONST"
  proof -
    have "hrp_expand ''hsn'' @ data \<noteq> []" by (simp add: hrp_expand_def)
    moreover have "\<forall>v\<in>set (hrp_expand ''hsn'' @ data). unat v < 2 ^ 5" using d hrp_symbols by auto
    ultimately show ?thesis
      using polymod_checksum [of "hrp_expand ''hsn'' @ data"] by (simp add: cs_def c_def)
  qed
  then show ?thesis
    using nu low rs symbols_to_chars [OF all5] len
    by (simp add: bech_decode_def to_chars_def)
qed

lemma decode_encode_payload:
  assumes "length payload = 32"
  shows "decode_address (encode_payload payload) = Some payload"
proof -
  obtain data where d: "convert_bits payload 8 5 True = Some data" "\<forall>s\<in>set data. unat s < 2 ^ 5"
    by (rule convert_to_symbols [OF assms])
  show ?thesis
    using encode_decode [OF d(2)] convert_roundtrip [OF assms d(1)] assms d(1)
    by (simp add: encode_payload_def decode_address_def ADDRESS_PAYLOAD_LEN_def)
qed

lemma encode_hash_valid [simp]:
  "is_bech32m_address (encode_hash h)" "is_valid_hassan_address E (encode_hash h)"
  using decode_encode_payload [of "take 32 (hash_bytes h)"]
  by (simp_all add: encode_hash_def ADDRESS_PAYLOAD_LEN_def is_bech32m_address_def is_valid_hassan_address_def)

lemma addresses_equivalent_refl [simp]: "addresses_equivalent E a a"
  by (simp add: addresses_equivalent_def)

lemma addresses_equivalent_sym: "addresses_equivalent E a b \<Longrightarrow> addresses_equivalent E b a"
  by (auto simp: addresses_equivalent_def split: option.splits if_splits)

lemma addresses_equivalent_trans: "addresses_equivalent E a b \<Longrightarrow> addresses_equivalent E b c \<Longrightarrow> addresses_equivalent E a c"
  by (auto simp: addresses_equivalent_def split: option.splits if_splits)

text \<open>
  C21. Encoding a key digest as a bech32m address and decoding it gives back the first 32 bytes of the
  digest: the checksum verifies and the regrouping of bits loses nothing.
\<close>

theorem address_roundtrip:
  "decode_address (encode_hash h) = Some (take 32 (hash_bytes h))
   \<and> is_bech32m_address (encode_hash h) \<and> is_valid_hassan_address E (encode_hash h)"
proof -
  have "length (take 32 (hash_bytes h)) = 32" by simp
  from decode_encode_payload [OF this] show ?thesis
    by (simp add: encode_hash_def ADDRESS_PAYLOAD_LEN_def is_bech32m_address_def is_valid_hassan_address_def)
qed

text \<open>
  The two spellings of an address are equivalent exactly when they stand for the same 32-byte
  fingerprint: equivalence is reflexive, symmetric and transitive, and two canonical addresses are
  equivalent only for keys whose digests agree on the first 32 bytes.
\<close>

theorem addresses_equivalent_fingerprint:
  "equivp (addresses_equivalent E)
   \<and> (addresses_equivalent E (encode_hash h) (encode_hash h') \<longleftrightarrow> take 32 (hash_bytes h) = take 32 (hash_bytes h'))"
proof -
  have fp: "address_fingerprint E (encode_hash h) = Some (take 32 (hash_bytes h))" for h
    using decode_encode_payload [of "take 32 (hash_bytes h)"]
    by (simp add: address_fingerprint_def encode_hash_def ADDRESS_PAYLOAD_LEN_def)
  have inj: "take 32 (hash_bytes h) = take 32 (hash_bytes h')" if "encode_hash h = encode_hash h'"
    using fp [of h] fp [of h'] that by simp
  have "symp (addresses_equivalent E)"
    by (rule sympI) (rule addresses_equivalent_sym)
  moreover have "transp (addresses_equivalent E)"
    by (rule transpI) (rule addresses_equivalent_trans)
  moreover have "reflp (addresses_equivalent E)"
    by (rule reflpI) (simp add: addresses_equivalent_def)
  moreover have "addresses_equivalent E (encode_hash h) (encode_hash h') \<longleftrightarrow> take 32 (hash_bytes h) = take 32 (hash_bytes h')"
    using inj by (auto simp: addresses_equivalent_def fp)
  ultimately show ?thesis by (blast intro: equivpI)
qed

end
