(* ===== verification/Spend_Predicate.thy ===== *)
theory Spend_Predicate
  imports Address
begin

text \<open>
  Spend predicates, \<open>src/predicate.rs\<close>: the covenant language of UTXO outputs, its structural
  measures, and the evaluator \<open>evaluate_full\<close> that decides whether a witness unlocks an output.
  Error strings are those of the source without their formatted numbers. A \<open>BTreeSet\<close> of set members is
  a list without duplicates.
\<close>

definition MAX_PRED_DEPTH :: nat where "MAX_PRED_DEPTH = 8"
definition MAX_STACK :: nat where "MAX_STACK = 16"

fun is_account_credit :: "predicate \<Rightarrow> bool" where
  "is_account_credit (CreditAccount _) = True"
| "is_account_credit (PAnd l r) = (is_account_credit l \<or> is_account_credit r)"
| "is_account_credit (POr l r) = (is_account_credit l \<or> is_account_credit r)"
| "is_account_credit (ExactValue _ inner) = is_account_credit inner"
| "is_account_credit _ = False"

fun locked_address :: "predicate \<Rightarrow> address option" where
  "locked_address (PayToAddress a) = Some a"
| "locked_address (AbsoluteLock a _) = Some a"
| "locked_address (RelativeLock a _) = Some a"
| "locked_address (AnnulAfter a _) = Some a"
| "locked_address (CreditAccount a) = Some a"
| "locked_address (PAnd l _) = locked_address l"
| "locked_address (POr l _) = locked_address l"
| "locked_address (ExactValue _ inner) = locked_address inner"
| "locked_address (HashLock _) = None"
| "locked_address (MultiSig _ _) = None"
| "locked_address (CommitData _) = None"

fun depth :: "predicate \<Rightarrow> nat" where
  "depth (PAnd l r) = 1 + max (depth l) (depth r)"
| "depth (POr l r) = 1 + max (depth l) (depth r)"
| "depth (ExactValue _ inner) = 1 + depth inner"
| "depth _ = 1"

fun needs_sighash :: "predicate \<Rightarrow> bool" where
  "needs_sighash (MultiSig _ _) = True"
| "needs_sighash (PAnd l r) = (needs_sighash l \<or> needs_sighash r)"
| "needs_sighash (POr l r) = (needs_sighash l \<or> needs_sighash r)"
| "needs_sighash (ExactValue _ inner) = needs_sighash inner"
| "needs_sighash _ = False"

section \<open>MultiSig\<close>

definition canon :: "env \<Rightarrow> address list \<Rightarrow> address \<Rightarrow> address option" where
  \<comment> \<open>the closure \<open>canon\<close>: the first set member equivalent to an address\<close>
  "canon E addresses addr = List.find (\<lambda>a. addresses_equivalent E a addr) addresses"

fun multisig_loop :: "env \<Rightarrow> address list \<Rightarrow> bytes \<Rightarrow> unlock_witness list \<Rightarrow> address list \<Rightarrow> address list result" where
  "multisig_loop E addresses msg [] present = Ok present"
| "multisig_loop E addresses msg (w # stack) present =
     (case w of
        CosignerAddress _ \<Rightarrow> Err ''MultiSig: CosignerAddress tags are not signatures''
      | CosignerSig pubkey signature \<Rightarrow>
          if length pubkey \<noteq> pk_len E then Err ''MultiSig: cosigner pubkey length''
          else if length signature \<noteq> sig_len E then Err ''MultiSig: cosigner signature length''
          else (case canon E addresses (encode_hash (address_hash E pubkey)) of
                  None \<Rightarrow> Err ''MultiSig: cosigner not in set''
                | Some key \<Rightarrow>
                    if \<not> verify_pq512 E ''utxo-tx'' msg pubkey signature
                    then Err ''MultiSig: cosigner signature invalid''
                    else multisig_loop E addresses msg stack (List.insert key present))
      | WSignature \<Rightarrow> multisig_loop E addresses msg stack present
      | WStack _ \<Rightarrow> Err ''MultiSig: unexpected nested witness''
      | WPreimage _ \<Rightarrow> Err ''MultiSig: unexpected nested witness'')"

definition multisig_stack :: "unlock_witness \<Rightarrow> unlock_witness list result" where
  "multisig_stack w =
     (case w of
        WSignature \<Rightarrow> Ok []
      | WStack s \<Rightarrow> if length s > MAX_STACK then Err ''Witness stack too large'' else Ok s
      | CosignerAddress _ \<Rightarrow> Err ''MultiSig: CosignerAddress tags are not signatures''
      | CosignerSig _ _ \<Rightarrow> Err ''MultiSig: expected Signature or Stack witness''
      | WPreimage _ \<Rightarrow> Err ''MultiSig: expected Signature or Stack witness'')"

definition eval_multisig ::
  "env \<Rightarrow> nat \<Rightarrow> address list \<Rightarrow> unlock_witness \<Rightarrow> address \<Rightarrow> bytes option \<Rightarrow> unit result" where
  "eval_multisig E n addresses w signer sighash =
     (if n = 0 \<or> addresses = [] \<or> n > length addresses then Err ''MultiSig: invalid n-of-m''
      else if \<not> list_ex (\<lambda>a. addresses_equivalent E a signer) addresses
      then Err ''MultiSig: primary signer not in set''
      else
        (case sighash of
           None \<Rightarrow> Err ''MultiSig: missing sighash for cosigner verify''
         | Some msg \<Rightarrow>
             (case canon E addresses signer of
                None \<Rightarrow> Err ''MultiSig: primary signer not in set''
              | Some key \<Rightarrow>
                  (case multisig_stack w of
                     Inl e \<Rightarrow> Err e
                   | Inr stack \<Rightarrow>
                       (case multisig_loop E addresses msg stack [key] of
                          Inl e \<Rightarrow> Err e
                        | Inr present \<Rightarrow>
                            if length present < n then Err ''MultiSig: need n cosigners'' else Ok ())))))"

section \<open>Evaluation\<close>

fun eval_inner ::
  "env \<Rightarrow> predicate \<Rightarrow> unlock_witness \<Rightarrow> address \<Rightarrow> nat \<Rightarrow> nat \<Rightarrow> bytes option \<Rightarrow> unit result" where
  "eval_inner E (PayToAddress a) w signer media created sighash =
     (if \<not> addresses_equivalent E a signer then Err ''PayToAddress: signer does not own output''
      else (case w of
              WSignature \<Rightarrow> Ok ()
            | WStack _ \<Rightarrow> Ok ()
            | _ \<Rightarrow> Err ''PayToAddress: expected signature witness''))"
| "eval_inner E (AbsoluteLock a unlock_blue) w signer media created sighash =
     (if media < unlock_blue then Err ''AbsoluteLock: media blue < unlock_blue''
      else if \<not> addresses_equivalent E a signer then Err ''AbsoluteLock: signer does not own output''
      else Ok ())"
| "eval_inner E (RelativeLock a relative_blues) w signer media created sighash =
     (if media < sat_add64 created relative_blues then Err ''RelativeLock: media blue < created+rel''
      else if \<not> addresses_equivalent E a signer then Err ''RelativeLock: signer does not own output''
      else Ok ())"
| "eval_inner E (HashLock h) w signer media created sighash =
     (case w of
        WPreimage pre \<Rightarrow>
          if hashlock_commitment E pre \<noteq> h then Err ''HashLock: preimage mismatch'' else Ok ()
      | WStack [w0] \<Rightarrow> eval_inner E (HashLock h) w0 signer media created sighash
      | _ \<Rightarrow> Err ''HashLock: expected preimage witness'')"
| "eval_inner E (PAnd l r) w signer media created sighash =
     (case w of
        WStack (w0 # w1 # rest) \<Rightarrow>
          if length (w0 # w1 # rest) > MAX_STACK then Err ''Witness stack too large''
          else (case eval_inner E l w0 signer media created sighash of
                  Inl e \<Rightarrow> Err e
                | Inr _ \<Rightarrow>
                    (case eval_inner E r w1 signer media created sighash of
                       Inl e \<Rightarrow> Err e
                     | Inr _ \<Rightarrow> Ok ()))
      | _ \<Rightarrow> Err ''And: expected Stack of 2 witnesses'')"
| "eval_inner E (POr l r) w signer media created sighash =
     (case w of
        WStack (w0 # rest) \<Rightarrow>
          if is_ok (eval_inner E l w0 signer media created sighash)
            \<or> is_ok (eval_inner E r w0 signer media created sighash)
          then Ok () else Err ''Or: neither branch unlocked''
      | WSignature \<Rightarrow>
          if is_ok (eval_inner E l w signer media created sighash)
            \<or> is_ok (eval_inner E r w signer media created sighash)
          then Ok () else Err ''Or: neither branch unlocked''
      | WPreimage _ \<Rightarrow>
          if is_ok (eval_inner E l w signer media created sighash)
            \<or> is_ok (eval_inner E r w signer media created sighash)
          then Ok () else Err ''Or: neither branch unlocked''
      | _ \<Rightarrow> Err ''Or: empty witness'')"
| "eval_inner E (MultiSig n addresses) w signer media created sighash =
     eval_multisig E n addresses w signer sighash"
| "eval_inner E (CreditAccount _) w signer media created sighash =
     Err ''CreditAccount outputs are not spendable''"
| "eval_inner E (AnnulAfter a expire_blue) w signer media created sighash =
     (if media \<ge> expire_blue then Err ''AnnulAfter: media blue >= expire_blue''
      else if \<not> addresses_equivalent E a signer then Err ''AnnulAfter: signer does not own output''
      else Ok ())"
| "eval_inner E (ExactValue _ inner) w signer media created sighash =
     eval_inner E inner w signer media created sighash"
| "eval_inner E (CommitData commit) w signer media created sighash =
     (case w of
        WPreimage pre \<Rightarrow>
          if hashlock_commitment E pre \<noteq> commit then Err ''CommitData: commitment mismatch'' else Ok ()
      | WStack [w0] \<Rightarrow> eval_inner E (CommitData commit) w0 signer media created sighash
      | _ \<Rightarrow> Err ''CommitData: expected preimage witness'')"

definition evaluate_full ::
  "env \<Rightarrow> predicate \<Rightarrow> unlock_witness \<Rightarrow> address \<Rightarrow> nat \<Rightarrow> nat \<Rightarrow> bytes option \<Rightarrow> unit result" where
  "evaluate_full E p w signer media created sighash =
     (if depth p > MAX_PRED_DEPTH then Err ''Predicate nesting too deep''
      else eval_inner E p w signer media created sighash)"

definition evaluate :: "env \<Rightarrow> predicate \<Rightarrow> unlock_witness \<Rightarrow> address \<Rightarrow> nat \<Rightarrow> unit result" where
  "evaluate E p w signer media = evaluate_full E p w signer media 0 None"

end
