(* ===== verification/Spend_Predicate_Correct.thy ===== *)
theory Spend_Predicate_Correct
  imports Spend_Predicate
begin

text \<open>
  Correctness of the predicate evaluator. The reference is \<open>authorized\<close>, a reading of a predicate that
  knows no witness format: which preimages and cosigner signatures the spender holds, who signs the
  transaction and when. The evaluator accepts some witness built from what the spender holds exactly
  when the predicate is authorized (and nested no deeper than the limit): it neither lets a spender
  past a condition nor makes a met condition unspendable.
\<close>

text \<open>What a witness carries: the preimages and the cosigner signatures in it, at any depth.\<close>

primrec wit_preimages :: "unlock_witness \<Rightarrow> bytes set" where
  "wit_preimages WSignature = {}"
| "wit_preimages (WPreimage pre) = {pre}"
| "wit_preimages (WStack ws) = \<Union> (set (map wit_preimages ws))"
| "wit_preimages (CosignerAddress _) = {}"
| "wit_preimages (CosignerSig _ _) = {}"

primrec wit_cosigs :: "unlock_witness \<Rightarrow> (bytes \<times> bytes) set" where
  "wit_cosigs WSignature = {}"
| "wit_cosigs (WPreimage _) = {}"
| "wit_cosigs (WStack ws) = \<Union> (set (map wit_cosigs ws))"
| "wit_cosigs (CosignerAddress _) = {}"
| "wit_cosigs (CosignerSig pk sg) = {(pk, sg)}"

definition cosigner_keys :: "env \<Rightarrow> address list \<Rightarrow> bytes \<Rightarrow> (bytes \<times> bytes) set \<Rightarrow> address set" where
  "cosigner_keys E addresses msg S =
     {k. \<exists>(pk, sg)\<in>S. verify_pq512 E ''utxo-tx'' msg pk sg
           \<and> canon E addresses (encode_hash (address_hash E pk)) = Some k}"

text \<open>
  The specification. A \<open>MultiSig\<close> counts set members, the primary signer among them, and a witness stack
  bounds the others to \<open>MAX_STACK\<close>.
\<close>

fun authorized ::
  "env \<Rightarrow> bytes set \<Rightarrow> (bytes \<times> bytes) set \<Rightarrow> address \<Rightarrow> nat \<Rightarrow> nat \<Rightarrow> bytes option \<Rightarrow> predicate \<Rightarrow> bool" where
  "authorized E K S signer media created sighash p =
     (case p of
        PayToAddress a \<Rightarrow> addresses_equivalent E a signer
      | HashLock h \<Rightarrow> \<exists>pre\<in>K. hashlock_commitment E pre = h
      | AbsoluteLock a t \<Rightarrow> t \<le> media \<and> addresses_equivalent E a signer
      | RelativeLock a d \<Rightarrow> sat_add64 created d \<le> media \<and> addresses_equivalent E a signer
      | PAnd l r \<Rightarrow> authorized E K S signer media created sighash l \<and> authorized E K S signer media created sighash r
      | POr l r \<Rightarrow> authorized E K S signer media created sighash l \<or> authorized E K S signer media created sighash r
      | MultiSig n addresses \<Rightarrow>
          1 \<le> n \<and> n \<le> length addresses \<and> n \<le> MAX_STACK + 1 \<and>
          (\<exists>msg k. sighash = Some msg \<and> canon E addresses signer = Some k
             \<and> n \<le> card (insert k (cosigner_keys E addresses msg S)))
      | CreditAccount _ \<Rightarrow> False
      | AnnulAfter a t \<Rightarrow> media < t \<and> addresses_equivalent E a signer
      | ExactValue _ inner \<Rightarrow> authorized E K S signer media created sighash inner
      | CommitData h \<Rightarrow> \<exists>pre\<in>K. hashlock_commitment E pre = h)"

declare authorized.simps [simp del]
lemmas authorized_simps [simp] = authorized.simps [of _ _ _ _ _ _ _ "PayToAddress _", simplified]
  authorized.simps [of _ _ _ _ _ _ _ "HashLock _", simplified]
  authorized.simps [of _ _ _ _ _ _ _ "AbsoluteLock _ _", simplified]
  authorized.simps [of _ _ _ _ _ _ _ "RelativeLock _ _", simplified]
  authorized.simps [of _ _ _ _ _ _ _ "PAnd _ _", simplified]
  authorized.simps [of _ _ _ _ _ _ _ "POr _ _", simplified]
  authorized.simps [of _ _ _ _ _ _ _ "MultiSig _ _", simplified]
  authorized.simps [of _ _ _ _ _ _ _ "CreditAccount _", simplified]
  authorized.simps [of _ _ _ _ _ _ _ "AnnulAfter _ _", simplified]
  authorized.simps [of _ _ _ _ _ _ _ "ExactValue _ _", simplified]
  authorized.simps [of _ _ _ _ _ _ _ "CommitData _", simplified]

section \<open>MultiSig\<close>

lemma canon_SomeD: "canon E addresses a = Some k \<Longrightarrow> k \<in> set addresses \<and> addresses_equivalent E k a"
  by (auto simp: canon_def find_Some_iff)

lemma canon_exists: "list_ex (\<lambda>x. addresses_equivalent E x a) addresses \<longleftrightarrow> (\<exists>k. canon E addresses a = Some k)"
proof (cases "canon E addresses a")
  case None
  then show ?thesis by (auto simp: canon_def list_ex_iff find_None_iff)
next
  case (Some k)
  then show ?thesis using canon_SomeD by (fastforce simp: list_ex_iff)
qed

lemma finite_cosigner_keys: "finite (cosigner_keys E addresses msg S)"
  by (rule finite_subset [of _ "set addresses"]) (auto simp: cosigner_keys_def dest: canon_SomeD)

lemma multisig_loop_sound:
  assumes "multisig_loop E addresses msg stack present = Ok pr" and "distinct present"
  shows "distinct pr \<and> length pr \<le> length present + length stack
    \<and> set pr \<subseteq> set present \<union> cosigner_keys E addresses msg (wit_cosigs (WStack stack))"
  using assms
proof (induction stack arbitrary: present)
  case (Cons w stack)
  have mono: "cosigner_keys E addresses msg A \<subseteq> cosigner_keys E addresses msg B" if "A \<subseteq> B" for A B
    using that by (auto simp: cosigner_keys_def)
  show ?case
  proof (cases w)
    case (CosignerSig pk sg)
    obtain key where k: "canon E addresses (encode_hash (address_hash E pk)) = Some key"
      "verify_pq512 E ''utxo-tx'' msg pk sg" "multisig_loop E addresses msg stack (List.insert key present) = Ok pr"
      using Cons.prems(1) CosignerSig by (auto simp: res_simps)
    have key: "key \<in> cosigner_keys E addresses msg (wit_cosigs (WStack (w # stack)))"
      using k CosignerSig by (auto simp: cosigner_keys_def)
    have "length (List.insert key present) \<le> Suc (length present)" by (simp add: List.insert_def)
    then show ?thesis
      using Cons.IH [OF k(3)] Cons.prems(2) key mono [of "wit_cosigs (WStack stack)" "wit_cosigs (WStack (w # stack))"]
      by (auto simp: distinct_insert)
  next
    case WSignature
    then have loop: "multisig_loop E addresses msg stack present = Ok pr" using Cons.prems by simp
    show ?thesis using Cons.IH [OF loop] Cons.prems(2) WSignature by auto
  qed (use Cons.prems in auto)
qed (auto simp: cosigner_keys_def)

lemma multisig_loop_complete:
  assumes "\<forall>k\<in>set ks. verify_pq512 E ''utxo-tx'' msg (fst (f k)) (snd (f k))
      \<and> canon E addresses (encode_hash (address_hash E (fst (f k)))) = Some k"
  shows "multisig_loop E addresses msg (map (\<lambda>k. CosignerSig (fst (f k)) (snd (f k))) ks) present
    = Ok (fold List.insert ks present)"
  using assms
proof (induction ks arbitrary: present)
  case (Cons k ks)
  then have "verify_pq512 E ''utxo-tx'' msg (fst (f k)) (snd (f k))" by simp
  from verify_pq512_lengths [OF this] Cons show ?case by simp
qed simp

lemma fold_insert_distinct:
  "distinct xs \<Longrightarrow> distinct (fold List.insert ks xs) \<and> set (fold List.insert ks xs) = set ks \<union> set xs"
  by (induction ks arbitrary: xs) auto

lemma eval_multisig_sound:
  assumes "eval_multisig E n addresses w signer sighash = Ok u"
  shows "authorized E (wit_preimages w) (wit_cosigs w) signer media created sighash (MultiSig n addresses)"
proof -
  from assms obtain msg k stack pr where s:
    "n \<noteq> 0" "n \<le> length addresses" "sighash = Some msg" "canon E addresses signer = Some k"
    "multisig_stack w = Ok stack" "multisig_loop E addresses msg stack [k] = Ok pr" "n \<le> length pr"
    by (auto simp: eval_multisig_def res_simps)
  have st: "length stack \<le> MAX_STACK" "wit_cosigs (WStack stack) \<subseteq> wit_cosigs w"
    using s(5) by (cases w; auto simp: multisig_stack_def res_simps)+
  have l: "distinct pr" "length pr \<le> 1 + length stack"
    "set pr \<subseteq> {k} \<union> cosigner_keys E addresses msg (wit_cosigs (WStack stack))"
    using multisig_loop_sound [OF s(6)] by auto
  have "set pr \<subseteq> insert k (cosigner_keys E addresses msg (wit_cosigs w))"
    using l(3) st(2) by (fastforce simp: cosigner_keys_def)
  then have "length pr \<le> card (insert k (cosigner_keys E addresses msg (wit_cosigs w)))"
    using l(1) by (metis card_mono distinct_card finite.insertI finite_cosigner_keys)
  then show ?thesis using s l st by auto
qed

lemma eval_multisig_complete:
  assumes a: "authorized E K S signer media created sighash (MultiSig n addresses)"
  shows "\<exists>w. wit_preimages w \<subseteq> K \<and> wit_cosigs w \<subseteq> S \<and> eval_multisig E n addresses w signer sighash = Ok ()"
proof -
  from a obtain msg k where s: "1 \<le> n" "n \<le> length addresses" "n \<le> MAX_STACK + 1" "sighash = Some msg"
    "canon E addresses signer = Some k" "n \<le> card (insert k (cosigner_keys E addresses msg S))" by auto
  have "n - 1 \<le> card (cosigner_keys E addresses msg S - {k})"
    using s(6) finite_cosigner_keys [of E addresses msg S]
    by (metis card.insert_remove diff_Suc_1 diff_le_mono)
  then obtain T where T: "T \<subseteq> cosigner_keys E addresses msg S - {k}" "card T = n - 1" "finite T"
    by (rule obtain_subset_with_card_n)
  obtain ks where ks: "set ks = T" "distinct ks" using finite_distinct_list [OF T(3)] by auto
  have "\<forall>x\<in>T. \<exists>q\<in>S. verify_pq512 E ''utxo-tx'' msg (fst q) (snd q)
      \<and> canon E addresses (encode_hash (address_hash E (fst q))) = Some x"
    using T(1) by (force simp: cosigner_keys_def)
  then obtain f where f: "\<forall>x\<in>T. f x \<in> S \<and> verify_pq512 E ''utxo-tx'' msg (fst (f x)) (snd (f x))
      \<and> canon E addresses (encode_hash (address_hash E (fst (f x)))) = Some x" by metis
  define stack where "stack = map (\<lambda>k. CosignerSig (fst (f k)) (snd (f k))) ks"
  have len: "length stack = n - 1" using ks T(2) by (simp add: stack_def distinct_card flip: ks(1))
  have loop: "multisig_loop E addresses msg stack [k] = Ok (fold List.insert ks [k])"
    unfolding stack_def by (rule multisig_loop_complete) (use f ks in auto)
  have "distinct (fold List.insert ks [k])" "set (fold List.insert ks [k]) = insert k T"
    using fold_insert_distinct [of "[k]" ks] ks by auto
  then have "length (fold List.insert ks [k]) = n"
    using T s(1) by (metis One_nat_def Suc_pred' card_insert_disjoint distinct_card less_le_trans subset_Diff_insert zero_less_one)
  then have "eval_multisig E n addresses (WStack stack) signer sighash = Ok ()"
    using s len loop canon_exists [of E signer addresses]
    by (auto simp: eval_multisig_def multisig_stack_def)
  moreover have "wit_cosigs (WStack stack) \<subseteq> S" "wit_preimages (WStack stack) \<subseteq> K"
    using f ks by (auto simp: stack_def)
  ultimately show ?thesis by blast
qed

section \<open>Evaluation\<close>

lemma authorized_mono:
  assumes "authorized E K S signer media created sighash p" and "K \<subseteq> K'" and "S \<subseteq> S'"
  shows "authorized E K' S' signer media created sighash p"
  using assms
proof (induction p)
  case (MultiSig n addresses)
  have "card (insert k (cosigner_keys E addresses msg S)) \<le> card (insert k (cosigner_keys E addresses msg S'))" for k msg
    by (rule card_mono) (use MultiSig.prems(3) finite_cosigner_keys in \<open>auto simp: cosigner_keys_def\<close>)
  moreover obtain msg k where "sighash = Some msg" "canon E addresses signer = Some k"
    "n \<le> card (insert k (cosigner_keys E addresses msg S))" using MultiSig.prems(1) by auto
  ultimately show ?case using MultiSig.prems(1) by (auto intro: le_trans)
qed auto

lemma eval_inner_sound:
  "eval_inner E p w signer media created sighash = Ok u \<Longrightarrow>
   authorized E (wit_preimages w) (wit_cosigs w) signer media created sighash p"
proof (induction E p w signer media created sighash rule: eval_inner.induct)
  case (5 E l r w signer media created sighash)
  from "5.prems" obtain w0 w1 rest where w: "w = WStack (w0 # w1 # rest)"
    by (auto split: unlock_witness.splits list.splits)
  with "5.prems" obtain u0 u1 where
    "eval_inner E l w0 signer media created sighash = Ok u0" "eval_inner E r w1 signer media created sighash = Ok u1"
    and n: "\<not> MAX_STACK < length (w0 # w1 # rest)"
    by (auto simp: res_simps)
  with "5.IH" w have "authorized E (wit_preimages w0) (wit_cosigs w0) signer media created sighash l"
    "authorized E (wit_preimages w1) (wit_cosigs w1) signer media created sighash r" by auto
  then show ?case using w by (auto elim!: authorized_mono)
next
  case (6 E l r w signer media created sighash)
  then show ?case
    by (auto split: unlock_witness.splits list.splits if_splits elim!: is_okE intro: authorized_mono)
next
  case 7
  then show ?case by (auto simp del: authorized_simps intro: eval_multisig_sound)
qed (auto split: unlock_witness.splits list.splits if_splits)

lemma eval_inner_complete:
  "authorized E K S signer media created sighash p \<Longrightarrow>
   \<exists>w. wit_preimages w \<subseteq> K \<and> wit_cosigs w \<subseteq> S \<and> eval_inner E p w signer media created sighash = Ok ()"
proof (induction p)
  case (PayToAddress a)
  then show ?case by (intro exI [of _ WSignature]) simp
next
  case (HashLock h)
  then obtain pre where "pre \<in> K" "hashlock_commitment E pre = h" by auto
  then show ?case by (intro exI [of _ "WPreimage pre"]) simp
next
  case (CommitData h)
  then obtain pre where "pre \<in> K" "hashlock_commitment E pre = h" by auto
  then show ?case by (intro exI [of _ "WPreimage pre"]) simp
next
  case (AbsoluteLock a t)
  then show ?case by (intro exI [of _ WSignature]) simp
next
  case (RelativeLock a t)
  then show ?case by (intro exI [of _ WSignature]) simp
next
  case (AnnulAfter a t)
  then show ?case by (intro exI [of _ WSignature]) simp
next
  case (PAnd l r)
  then obtain wl wr where "wit_preimages wl \<subseteq> K \<and> wit_cosigs wl \<subseteq> S \<and> eval_inner E l wl signer media created sighash = Ok ()"
    "wit_preimages wr \<subseteq> K \<and> wit_cosigs wr \<subseteq> S \<and> eval_inner E r wr signer media created sighash = Ok ()" by auto
  then show ?case by (intro exI [of _ "WStack [wl, wr]"]) (simp add: MAX_STACK_def)
next
  case (POr l r)
  then have "\<exists>w. wit_preimages w \<subseteq> K \<and> wit_cosigs w \<subseteq> S \<and>
      (eval_inner E l w signer media created sighash = Ok () \<or> eval_inner E r w signer media created sighash = Ok ())"
    by (simp only: authorized_simps) blast
  then obtain w where "wit_preimages w \<subseteq> K \<and> wit_cosigs w \<subseteq> S \<and>
      (eval_inner E l w signer media created sighash = Ok () \<or> eval_inner E r w signer media created sighash = Ok ())"
    by blast
  then show ?case by (intro exI [of _ "WStack [w]"]) auto
next
  case (MultiSig n addresses)
  then show ?case using eval_multisig_complete by fastforce
qed auto

lemma unlock_authorized:
  "(\<exists>w. wit_preimages w \<subseteq> K \<and> wit_cosigs w \<subseteq> S \<and> evaluate_full E p w signer media created sighash = Ok ())
   \<longleftrightarrow> depth p \<le> MAX_PRED_DEPTH \<and> authorized E K S signer media created sighash p"
proof
  assume "\<exists>w. wit_preimages w \<subseteq> K \<and> wit_cosigs w \<subseteq> S \<and> evaluate_full E p w signer media created sighash = Ok ()"
  then show "depth p \<le> MAX_PRED_DEPTH \<and> authorized E K S signer media created sighash p"
    by (auto simp: evaluate_full_def res_simps dest: eval_inner_sound intro: authorized_mono)
next
  assume "depth p \<le> MAX_PRED_DEPTH \<and> authorized E K S signer media created sighash p"
  then show "\<exists>w. wit_preimages w \<subseteq> K \<and> wit_cosigs w \<subseteq> S \<and> evaluate_full E p w signer media created sighash = Ok ()"
    using eval_inner_complete by (fastforce simp: evaluate_full_def)
qed

text \<open>
  C22. For a spender who holds the preimages \<open>K\<close> and the cosigner signatures \<open>S\<close>, some witness made of
  them unlocks an output exactly when the predicate is authorized for that spender and within the
  nesting limit: the evaluator is sound (time locks, ownership, preimages and the N-of-M quorum of
  distinct members with valid signatures are all enforced) and complete.
\<close>

theorem unlock_iff_authorized:
  "(\<exists>w. wit_preimages w \<subseteq> K \<and> wit_cosigs w \<subseteq> S \<and> evaluate_full E p w signer media created sighash = Ok ())
   \<longleftrightarrow> depth p \<le> MAX_PRED_DEPTH \<and> authorized E K S signer media created sighash p"
  by (rule unlock_authorized)

end
