(* ===== verification/Utxo.thy ===== *)
theory Utxo
  imports Spend_Predicate Difficulty
begin

text \<open>
  The UTXO set of \<open>src/utxo.rs\<close> and the UTXO transactions of \<open>src/utxo_tx.rs\<close>. The spent
  nullifiers, a \<open>BTreeSet\<close>, are a list without duplicates; a \<open>BTreeMap\<close> iterates in key order, so the
  commitment sorts the entries.

  \<open>apply_utxo_tx\<close> mutates its arguments and may fail after it has begun to, so its model returns the
  state it leaves behind together with the result. Serializing a value held in memory does not fail,
  so the fallbacks of \<open>bincode::serialize\<close> are not reached and the serializers are total.
\<close>

definition COINBASE_MATURITY_BLUES :: nat where "COINBASE_MATURITY_BLUES = 100"
definition UTXO_DUST :: nat where "UTXO_DUST = 546"

section \<open>Outpoints and the set\<close>

definition coinbase :: "hash \<Rightarrow> out_point" where
  "coinbase coinbase_id = OutPoint coinbase_id (- 1)"

definition is_coinbase :: "out_point \<Rightarrow> bool" where
  "is_coinbase op = (vout op = - 1)"

definition coinbase_txid :: "env \<Rightarrow> block \<Rightarrow> hash" where
  "coinbase_txid E b =
     blake3_512 E
       (str_bytes ''hassan-coinbase-txid-v22'' @ le_bytes 8 (height b) @ le_bytes 8 (timestamp b)
        @ le_bytes 8 (length (parents b)) @ concat (map hash_bytes (parents b))
        @ hash_bytes (miner b) @ hash_bytes (b_merkle_root b) @ le_bytes 8 (coinbase_entropy b)
        @ le_bytes 8 (length (creator_pubkey b)) @ creator_pubkey b)"

definition utxo_get :: "utxo_set \<Rightarrow> out_point \<Rightarrow> tx_out option" where
  "utxo_get u op = hget (entries u) op"

definition utxo_contains :: "utxo_set \<Rightarrow> out_point \<Rightarrow> bool" where
  "utxo_contains u op = hhas (entries u) op"

definition is_spent :: "utxo_set \<Rightarrow> out_point \<Rightarrow> bool" where
  "is_spent u op = (op \<in> set (spent u) \<or> \<not> hhas (entries u) op)"

definition utxo_insert :: "out_point \<Rightarrow> tx_out \<Rightarrow> utxo_set \<Rightarrow> utxo_set" where
  "utxo_insert op out u = u\<lparr>entries := hput op out (entries u), spent := removeAll op (spent u)\<rparr>"

definition utxo_spend :: "out_point \<Rightarrow> utxo_set \<Rightarrow> (utxo_set \<times> tx_out) result" where
  "utxo_spend op u =
     (if op \<in> set (spent u) then Err ''Outpoint already spent''
      else (case hget (entries u) op of
              None \<Rightarrow> Err ''Unknown outpoint''
            | Some out \<Rightarrow> Ok (u\<lparr>entries := hdel op (entries u), spent := List.insert op (spent u)\<rparr>, out)))"

definition total_value :: "utxo_set \<Rightarrow> nat" where
  \<comment> \<open>the \<open>u128\<close> sum wraps\<close>
  "total_value u = hsum o_value (entries u) mod 2 ^ 128"

definition commitment :: "env \<Rightarrow> utxo_set \<Rightarrow> hash" where
  "commitment E u =
     blake3_512 E
       (str_bytes ''hassan-utxo-set-v1'' @
        concat (map (\<lambda>(op, out). hash_bytes (txid op) @ le_bytes 4 (unat (vout op)) @ le_bytes 16 (o_value out)
                       @ le_bytes 8 (created_blue out) @ ser_predicate E (o_predicate out))
                  (sort_key fst (entries u))))"

section \<open>Transactions\<close>

fun assert_exact_value_binds :: "predicate \<Rightarrow> nat \<Rightarrow> unit result" where
  "assert_exact_value_binds (ExactValue bound inner) v =
     (if bound \<noteq> v then Err ''ExactValue: spent != covenant bound'' else assert_exact_value_binds inner v)"
| "assert_exact_value_binds (PAnd l r) v =
     (case assert_exact_value_binds l v of Inl e \<Rightarrow> Err e | Inr _ \<Rightarrow> assert_exact_value_binds r v)"
| "assert_exact_value_binds (POr l r) v =
     (case assert_exact_value_binds l v of Inl e \<Rightarrow> Err e | Inr _ \<Rightarrow> assert_exact_value_binds r v)"
| "assert_exact_value_binds _ v = Ok ()"

definition utxo_from_address :: "env \<Rightarrow> utxo_tx \<Rightarrow> address" where
  "utxo_from_address E tx = hash_to_address E (u_from_pubkey tx)"

definition utxo_relay_bytes :: "env \<Rightarrow> utxo_tx \<Rightarrow> nat" where
  "utxo_relay_bytes E tx =
     length (ser_utxo_tx E (if length (u_signature tx) \<noteq> sig_len E
                            then tx\<lparr>u_signature := replicate (sig_len E) 0\<rparr> else tx))"

definition utxo_min_fee_required :: "env \<Rightarrow> utxo_tx \<Rightarrow> nat" where
  "utxo_min_fee_required E tx = max (sat_mul128 (utxo_relay_bytes E tx) MIN_FEE_PER_BYTE) MIN_TX_FEE"

definition is_valid_address :: "env \<Rightarrow> string \<Rightarrow> bool" where
  "is_valid_address E addr = is_valid_hassan_address E addr"

fun utxo_outputs_form :: "env \<Rightarrow> tx_out list \<Rightarrow> unit result" where
  "utxo_outputs_form E [] = Ok ()"
| "utxo_outputs_form E (out # outs) =
     (if o_value out = 0 then Err ''Output value must be > 0''
      else if \<not> is_account_credit (o_predicate out) \<and> o_value out < UTXO_DUST
      then Err ''Output below dust (546)''
      else (case locked_address (o_predicate out) of
              None \<Rightarrow> utxo_outputs_form E outs
            | Some addr \<Rightarrow>
                if \<not> is_valid_address E addr then Err ''Invalid output address''
                else if \<not> is_bech32m_address addr
                then Err ''New UTXO outputs must use bech32m hsn1 addresses''
                else utxo_outputs_form E outs))"

definition utxo_validate_form :: "env \<Rightarrow> utxo_tx \<Rightarrow> unit result" where
  "utxo_validate_form E tx =
     (if inputs tx = [] then Err ''UtxoTx requires at least one input''
      else if outputs tx = [] then Err ''UtxoTx requires at least one output''
      else if length (outputs tx) > 64 then Err ''Too many outputs''
      else if length (inputs tx) > 64 then Err ''Too many inputs''
      else if length (u_from_pubkey tx) \<noteq> pk_len E then Err ''Invalid from_pubkey length''
      else if u_fee tx < utxo_min_fee_required E tx then Err ''Fee must be >= minimum''
      else if \<not> distinct (map previous (inputs tx)) then Err ''Duplicate input outpoint''
      else (case utxo_outputs_form E (outputs tx) of
              Inl e \<Rightarrow> Err e
            | Inr _ \<Rightarrow>
                if length (u_signature tx) \<noteq> sig_len E \<and> u_signature tx \<noteq> []
                then Err ''Invalid signature length'' else Ok ()))"

definition utxo_signing_bytes :: "env \<Rightarrow> utxo_tx \<Rightarrow> bytes" where
  "utxo_signing_bytes E tx =
     le_bytes 8 (u_lock_blue_score tx) @ le_bytes 16 (u_fee tx) @ le_bytes 8 (u_chain_id tx)
     @ le_bytes 4 (length (inputs tx))
     @ concat (map (\<lambda>tin. hash_bytes (txid (previous tin)) @ le_bytes 4 (unat (vout (previous tin)))
                      @ le_bytes 4 (in_relative_lock_blues tin)) (inputs tx))
     @ le_bytes 4 (length (outputs tx))
     @ concat (map (\<lambda>out. le_bytes 16 (o_value out) @ ser_predicate E (o_predicate out)) (outputs tx))"

definition utxo_verify :: "env \<Rightarrow> utxo_tx \<Rightarrow> bool" where
  "utxo_verify E tx =
     verify_pq512 E ''utxo-tx'' (utxo_signing_bytes E tx) (u_from_pubkey tx) (u_signature tx)"

definition utxo_txid :: "env \<Rightarrow> utxo_tx \<Rightarrow> hash" where
  "utxo_txid E tx = digest512 E ''utxo-txid'' (utxo_signing_bytes E tx @ u_signature tx)"

definition utxo_tx_hash :: "env \<Rightarrow> utxo_tx \<Rightarrow> hash" where
  "utxo_tx_hash E tx =
     digest512 E ''utxo-tx-hash''
       (utxo_signing_bytes E tx @ u_signature tx
        @ concat (map (\<lambda>tin. ser_witness E (witness tin)) (inputs tx)))"

definition payment_body ::
  "bytes \<Rightarrow> out_point \<Rightarrow> nat \<Rightarrow> nat \<Rightarrow> nat \<Rightarrow> tx_out list \<Rightarrow> nat \<Rightarrow> utxo_tx" where
  "payment_body from_pubkey funding chain lock_blue rel_lock outs fee =
     \<lparr>inputs = [\<lparr>previous = funding, in_relative_lock_blues = rel_lock, witness = WSignature\<rparr>], outputs = outs,
      u_lock_blue_score = lock_blue, u_fee = fee, u_chain_id = chain, u_from_pubkey = from_pubkey, u_signature = []\<rparr>"

definition bump_fee :: "env \<Rightarrow> utxo_tx \<Rightarrow> utxo_tx result" where
  \<comment> \<open>the end of \<open>payment\<close>: a change output makes the transaction larger, so the fee is raised once\<close>
  "bump_fee E tx =
     (let need_fee = utxo_min_fee_required E tx
      in if u_fee tx < need_fee
         then if outputs tx \<noteq> []
              then let extra = need_fee - u_fee tx; l = last (outputs tx)
                   in if o_value l > extra + UTXO_DUST
                      then Ok (tx\<lparr>outputs := butlast (outputs tx) @ [l\<lparr>o_value := o_value l - extra\<rparr>],
                                  u_fee := need_fee\<rparr>)
                      else Err ''Fee must be >= minimum''
              else Err ''Fee must be >= minimum''
         else Ok tx)"

definition pay_to :: "address \<Rightarrow> nat \<Rightarrow> tx_out" where
  "pay_to to v = \<lparr>o_value = v, o_predicate = PayToAddress to, created_blue = 0\<rparr>"

definition payment ::
  "env \<Rightarrow> bytes \<Rightarrow> out_point \<Rightarrow> nat \<Rightarrow> address \<Rightarrow> nat \<Rightarrow> nat \<Rightarrow> nat \<Rightarrow> nat \<Rightarrow> nat \<Rightarrow> utxo_tx result" where
  "payment E from_pubkey funding funding_value to amount fee0 chain lock_blue rel_lock =
     (let change_addr = hash_to_address E from_pubkey;
          body = payment_body from_pubkey funding chain lock_blue rel_lock;
          fee = max fee0 (utxo_min_fee_required E (body [pay_to to amount] (max fee0 MIN_TX_FEE)))
      in (case checked_add128 amount fee of
            None \<Rightarrow> Err ''amount+fee overflow''
          | Some need \<Rightarrow>
              if funding_value < need then Err ''Insufficient funding UTXO''
              else
                let change = funding_value - need
                in if change > 0
                   then if change < UTXO_DUST then Err ''Change below dust''
                        else bump_fee E (body [pay_to to amount, pay_to change_addr change] fee)
                   else bump_fee E (body [pay_to to amount] fee)))"

section \<open>Applying a transaction\<close>

type_synonym account_map = "(address, account) hmap"

definition check_input :: "env \<Rightarrow> utxo_set \<Rightarrow> utxo_tx \<Rightarrow> nat \<Rightarrow> tx_in \<Rightarrow> tx_out result" where
  \<comment> \<open>the body of the loop over the inputs, without the sum\<close>
  "check_input E u tx media tin =
     (case utxo_get u (previous tin) of
        None \<Rightarrow> Err ''Unknown outpoint''
      | Some out \<Rightarrow>
          if is_coinbase (previous tin) \<and> media < sat_add64 (created_blue out) COINBASE_MATURITY_BLUES
          then Err ''Coinbase immature''
          else if in_relative_lock_blues tin > 0
                  \<and> media < sat_add64 (created_blue out) (in_relative_lock_blues tin)
          then Err ''Relative lock: media < unlock''
          else
            (case evaluate_full E (o_predicate out) (witness tin) (utxo_from_address E tx) media
                    (created_blue out) (Some (utxo_signing_bytes E tx)) of
               Inl e \<Rightarrow> Err e
             | Inr _ \<Rightarrow>
                 (case assert_exact_value_binds (o_predicate out) (o_value out) of
                    Inl e \<Rightarrow> Err e
                  | Inr _ \<Rightarrow> Ok out)))"

fun check_inputs :: "env \<Rightarrow> utxo_set \<Rightarrow> utxo_tx \<Rightarrow> nat \<Rightarrow> tx_in list \<Rightarrow> nat \<Rightarrow> nat result" where
  "check_inputs E u tx media [] input_sum = Ok input_sum"
| "check_inputs E u tx media (tin # tins) input_sum =
     (case check_input E u tx media tin of
        Inl e \<Rightarrow> Err e
      | Inr out \<Rightarrow>
          (case checked_add128 input_sum (o_value out) of
             None \<Rightarrow> Err ''input value overflow''
           | Some input_sum' \<Rightarrow> check_inputs E u tx media tins input_sum'))"

fun sum_outputs :: "tx_out list \<Rightarrow> nat \<Rightarrow> nat result" where
  "sum_outputs [] output_sum = Ok output_sum"
| "sum_outputs (out # outs) output_sum =
     (case checked_add128 output_sum (o_value out) of
        None \<Rightarrow> Err ''output value overflow''
      | Some output_sum' \<Rightarrow> sum_outputs outs output_sum')"

fun spend_all :: "out_point list \<Rightarrow> utxo_set \<Rightarrow> utxo_set \<times> unit result" where
  "spend_all [] u = (u, Ok ())"
| "spend_all (op # ops) u =
     (case utxo_spend op u of
        Inl e \<Rightarrow> (u, Err e)
      | Inr (u', _) \<Rightarrow> spend_all ops u')"

fun create_outputs ::
  "hash \<Rightarrow> nat \<Rightarrow> nat \<Rightarrow> tx_out list \<Rightarrow> utxo_set \<Rightarrow> account_map \<Rightarrow> (utxo_set \<times> account_map) \<times> unit result" where
  "create_outputs tid media i [] u accts = ((u, accts), Ok ())"
| "create_outputs tid media i (out # outs) u accts =
     (if is_account_credit (o_predicate out)
      then (case locked_address (o_predicate out) of
              None \<Rightarrow> ((u, accts), Err ''CreditAccount missing address'')
            | Some addr \<Rightarrow>
                (let acct = hget_or default_account accts addr
                 in case checked_add128 (balance acct) (o_value out) of
                      None \<Rightarrow> ((u, hput addr acct accts), Err ''account credit overflow'')
                    | Some bal \<Rightarrow> create_outputs tid media (Suc i) outs u (hput addr (acct\<lparr>balance := bal\<rparr>) accts)))
      else create_outputs tid media (Suc i) outs
             (utxo_insert (OutPoint tid (word_of_nat i)) (out\<lparr>created_blue := media\<rparr>) u) accts)"

definition check_utxo_tx :: "env \<Rightarrow> utxo_set \<Rightarrow> utxo_tx \<Rightarrow> nat \<Rightarrow> unit result" where
  \<comment> \<open>the checks before the first mutation\<close>
  "check_utxo_tx E u tx media =
     (case utxo_validate_form E tx of
        Inl e \<Rightarrow> Err e
      | Inr _ \<Rightarrow>
          if \<not> utxo_verify E tx then Err ''Invalid UTXO signature''
          else if u_lock_blue_score tx > 0 \<and> media < u_lock_blue_score tx
          then Err ''Tx lock_blue_score not reached''
          else
            (case check_inputs E u tx media (inputs tx) 0 of
               Inl e \<Rightarrow> Err e
             | Inr input_sum \<Rightarrow>
                 (case sum_outputs (outputs tx) (u_fee tx) of
                    Inl e \<Rightarrow> Err e
                  | Inr output_sum \<Rightarrow>
                      if input_sum \<noteq> output_sum then Err ''Value imbalance: inputs != outputs+fee''
                      else Ok ())))"

definition apply_utxo_tx ::
  "env \<Rightarrow> utxo_tx \<Rightarrow> nat \<Rightarrow> utxo_set \<times> account_map \<times> nat \<Rightarrow> (utxo_set \<times> account_map \<times> nat) \<times> unit result" where
  "apply_utxo_tx E tx media = (\<lambda>(u, accts, fees).
     (case check_utxo_tx E u tx media of
        Inl e \<Rightarrow> ((u, accts, fees), Err e)
      | Inr _ \<Rightarrow>
          (case spend_all (map previous (inputs tx)) u of
             (u1, Inl e) \<Rightarrow> ((u1, accts, fees), Err e)
           | (u1, Inr _) \<Rightarrow>
               (case create_outputs (utxo_tx_hash E tx) media 0 (outputs tx) u1 accts of
                  ((u2, accts2), Inl e) \<Rightarrow> ((u2, accts2, fees), Err e)
                | ((u2, accts2), Inr _) \<Rightarrow> ((u2, accts2, sat_add128 fees (u_fee tx)), Ok ())))))"

definition mint_coinbase :: "utxo_set \<Rightarrow> hash \<Rightarrow> address \<Rightarrow> nat \<Rightarrow> nat \<Rightarrow> utxo_set" where
  "mint_coinbase u block_hash miner_address subsidy media =
     (if subsidy = 0 then u
      else utxo_insert (coinbase block_hash)
             \<lparr>o_value = subsidy, o_predicate = PayToAddress miner_address, created_blue = media\<rparr> u)"

end
