(* ===== verification/Registry.thy ===== *)
theory Registry
  imports Utxo
begin

text \<open>
  The title registry and its escrows, \<open>src/registry.rs\<close>. The variants of \<open>RegistryOp\<close> share the
  fields \<open>from_pubkey\<close>, \<open>nonce\<close>, \<open>chain_id\<close> and \<open>signature\<close>, which the model keeps beside the variant; so
  the accessors \<open>signer_address\<close>, \<open>chain_id\<close> and \<open>nonce\<close>, a match over all variants in the source, are the
  record fields. \<open>apply_op\<close> advances the signer's nonce before it looks at the operation, so its model
  returns the state it leaves behind with the result; each branch checks before it mutates.
\<close>

fun asset_class_str :: "asset_class \<Rightarrow> string" where
  "asset_class_str Vehicle = ''vehicle''"
| "asset_class_str Loan = ''loan''"
| "asset_class_str Stake = ''stake''"
| "asset_class_str RealEstate = ''real_estate''"
| "asset_class_str Generic = ''generic''"

definition registry_signing_bytes :: "registry_op \<Rightarrow> bytes" where
  "registry_signing_bytes op =
     (let tail = le_bytes 8 (r_nonce op) @ le_bytes 8 (r_chain_id op)
      in case r_body op of
           IssueTitle owner cls description seed \<Rightarrow>
             str_bytes ''issue-title-v1'' @ str_bytes owner @ str_bytes (asset_class_str cls)
             @ str_bytes description @ hash_bytes seed @ tail
         | TransferTitle title to memo \<Rightarrow>
             str_bytes ''transfer-title-v1'' @ hash_bytes title @ str_bytes to @ str_bytes memo @ tail
         | OpenEscrow buyer seller arbiter amount title memo seed timeout \<Rightarrow>
             str_bytes ''open-escrow-v3'' @ str_bytes buyer @ str_bytes seller
             @ (case arbiter of None \<Rightarrow> [] | Some a \<Rightarrow> str_bytes a) @ le_bytes 16 amount
             @ (case title of None \<Rightarrow> [] | Some t \<Rightarrow> hash_bytes t) @ str_bytes memo @ hash_bytes seed
             @ le_bytes 8 timeout @ tail
         | FundEscrow escrow amount \<Rightarrow>
             str_bytes ''fund-escrow-v1'' @ hash_bytes escrow @ le_bytes 16 amount @ tail
         | ReleaseEscrow escrow \<Rightarrow> str_bytes ''release-escrow-v1'' @ hash_bytes escrow @ tail
         | TimeoutClaimEscrow escrow \<Rightarrow> str_bytes ''timeout-claim-escrow-v1'' @ hash_bytes escrow @ tail
         | RefundEscrow escrow \<Rightarrow> str_bytes ''refund-escrow-v1'' @ hash_bytes escrow @ tail)"

definition registry_verify :: "env \<Rightarrow> registry_op \<Rightarrow> bool" where
  "registry_verify E op =
     verify_pq512 E ''registry-op'' (registry_signing_bytes op) (r_from_pubkey op) (r_signature op)"

definition op_hash :: "env \<Rightarrow> registry_op \<Rightarrow> hash" where
  "op_hash E op = digest512 E ''hassan-registry-op-v1'' (ser_registry_op E op)"

definition signer_address :: "env \<Rightarrow> registry_op \<Rightarrow> address" where
  "signer_address E op = hash_to_address E (r_from_pubkey op)"

definition derive_title_id :: "env \<Rightarrow> address \<Rightarrow> hash \<Rightarrow> hash" where
  "derive_title_id E issuer seed = digest512 E ''hassan-title-id-v1'' (str_bytes issuer @ hash_bytes seed)"

definition derive_escrow_id :: "env \<Rightarrow> address \<Rightarrow> hash \<Rightarrow> hash" where
  "derive_escrow_id E opener seed = digest512 E ''hassan-escrow-id-v1'' (str_bytes opener @ hash_bytes seed)"

section \<open>The branches of \<open>apply_op\<close>\<close>

definition title_event_at ::
  "block \<Rightarrow> string \<Rightarrow> string \<Rightarrow> address option \<Rightarrow> address \<Rightarrow> string \<Rightarrow> title_event" where
  "title_event_at b sid event from to memo =
     \<lparr>ev_timestamp = timestamp b, ev_block_height = height b, ev_settlement_id = sid, ev_event = event,
      ev_from = from, ev_to = to, ev_memo = memo\<rparr>"

definition credit_saturating :: "address \<Rightarrow> nat \<Rightarrow> account_map \<Rightarrow> account_map" where
  \<comment> \<open>\<open>entry(..).or_insert(..)\<close> and \<open>balance.saturating_add(..)\<close>\<close>
  "credit_saturating a v accts =
     (let acct = hget_or default_account accts a
      in hput a (acct\<lparr>balance := sat_add128 (balance acct) v\<rparr>) accts)"

definition unlock_title :: "hash option \<Rightarrow> (hash, title_deed) hmap \<Rightarrow> (hash, title_deed) hmap" where
  "unlock_title title ts =
     (case title of
        None \<Rightarrow> ts
      | Some tid \<Rightarrow>
          (case hget ts tid of None \<Rightarrow> ts | Some deed \<Rightarrow> hput tid (deed\<lparr>d_escrow_id := None\<rparr>) ts))"

type_synonym reg_accts = "registry_state \<times> account_map"

definition issue_title ::
  "env \<Rightarrow> address \<Rightarrow> address \<Rightarrow> asset_class \<Rightarrow> string \<Rightarrow> hash \<Rightarrow> block \<Rightarrow> string \<Rightarrow> reg_accts \<Rightarrow> reg_accts result" where
  "issue_title E signer owner cls description seed b sid = (\<lambda>(reg, accts).
     (let tid = derive_title_id E signer seed
      in if hhas (titles reg) tid then Err ''Title already issued''
         else Ok (reg\<lparr>titles := hput tid
                    \<lparr>d_title_id = tid, d_asset_class = cls, d_description = description, current_owner = owner,
                     issued_at = timestamp b,
                     history = [title_event_at b sid ''issued'' None owner ''original issuance''],
                     d_escrow_id = None, lienholder = None\<rparr> (titles reg)\<rparr>, accts)))"

definition transfer_title ::
  "address \<Rightarrow> hash \<Rightarrow> address \<Rightarrow> string \<Rightarrow> block \<Rightarrow> string \<Rightarrow> reg_accts \<Rightarrow> reg_accts result" where
  "transfer_title signer tid to memo b sid = (\<lambda>(reg, accts).
     (case hget (titles reg) tid of
        None \<Rightarrow> Err ''Title not found''
      | Some deed \<Rightarrow>
          if current_owner deed \<noteq> signer then Err ''Only the current owner can transfer title''
          else if d_escrow_id deed \<noteq> None then Err ''Title is locked in escrow''
          else Ok (reg\<lparr>titles := hput tid
                     (deed\<lparr>current_owner := to,
                       history := history deed @ [title_event_at b sid ''transferred'' (Some (current_owner deed)) to memo]\<rparr>)
                     (titles reg)\<rparr>, accts)))"

definition open_escrow ::
  "env \<Rightarrow> address \<Rightarrow> address \<Rightarrow> address \<Rightarrow> address option \<Rightarrow> nat \<Rightarrow> hash option \<Rightarrow> string \<Rightarrow> hash \<Rightarrow> nat \<Rightarrow> block
   \<Rightarrow> reg_accts \<Rightarrow> reg_accts result" where
  "open_escrow E signer buyer seller arbiter amount title memo seed timeout b = (\<lambda>(reg, accts).
     (if amount = 0 then Err ''Escrow amount must be positive''
      else
        (case (case title of
                 None \<Rightarrow> Ok ()
               | Some tid \<Rightarrow>
                   (case hget (titles reg) tid of
                      None \<Rightarrow> Err ''Title not found for escrow''
                    | Some deed \<Rightarrow>
                        if current_owner deed \<noteq> seller then Err ''Escrow title must be owned by seller''
                        else if d_escrow_id deed \<noteq> None then Err ''Title already in escrow''
                        else Ok ())) of
           Inl e \<Rightarrow> Err e
         | Inr _ \<Rightarrow>
             (let eid = derive_escrow_id E signer seed
              in if hhas (escrows reg) eid then Err ''Escrow already exists''
                 else Ok (reg\<lparr>
                    titles := (case title of
                       None \<Rightarrow> titles reg
                     | Some tid \<Rightarrow>
                         (case hget (titles reg) tid of
                            None \<Rightarrow> titles reg
                          | Some deed \<Rightarrow> hput tid (deed\<lparr>d_escrow_id := Some eid\<rparr>) (titles reg))),
                    escrows := hput eid
                      \<lparr>e_escrow_id = eid, e_buyer = buyer, e_seller = seller, e_arbiter = arbiter, e_amount = amount,
                       e_funded = 0, e_status = Open, e_title_id = title, opened_at = timestamp b, e_memo = memo,
                       e_timeout_blue = timeout\<rparr> (escrows reg)\<rparr>, accts)))))"

definition fund_escrow :: "address \<Rightarrow> hash \<Rightarrow> nat \<Rightarrow> reg_accts \<Rightarrow> reg_accts result" where
  "fund_escrow signer eid amount = (\<lambda>(reg, accts).
     (case hget (escrows reg) eid of
        None \<Rightarrow> Err ''Escrow not found''
      | Some esc \<Rightarrow>
          if signer \<noteq> e_buyer esc then Err ''Only the buyer can fund escrow''
          else if e_status esc \<noteq> Open \<and> e_status esc \<noteq> Funded then Err ''Escrow is not open for funding''
          else
            (case hget accts signer of
               None \<Rightarrow> Err ''Buyer account missing''
             | Some acct \<Rightarrow>
                 if balance acct < amount then Err ''Insufficient balance to fund escrow''
                 else
                   (let funded = sat_add128 (e_funded esc) amount
                    in Ok (reg\<lparr>escrows := hput eid
                             (esc\<lparr>e_funded := funded,
                                  e_status := (if funded \<ge> e_amount esc then Funded else e_status esc)\<rparr>) (escrows reg)\<rparr>,
                           hput signer (acct\<lparr>balance := balance acct - amount\<rparr>) accts)))))"

definition release_escrow :: "address \<Rightarrow> hash \<Rightarrow> block \<Rightarrow> string \<Rightarrow> reg_accts \<Rightarrow> reg_accts result" where
  "release_escrow signer eid b sid = (\<lambda>(reg, accts).
     (case hget (escrows reg) eid of
        None \<Rightarrow> Err ''Escrow not found''
      | Some esc \<Rightarrow>
          if signer \<noteq> e_buyer esc
          then Err ''Not authorized to release escrow (buyer must sign; arbiter cannot act alone)''
          else if e_status esc \<noteq> Funded then Err ''Escrow must be fully funded before release''
          else Ok (reg\<lparr>
                 escrows := hput eid (esc\<lparr>e_funded := 0, e_status := Released\<rparr>) (escrows reg),
                 titles := (case e_title_id esc of
                    None \<Rightarrow> titles reg
                  | Some tid \<Rightarrow>
                      (case hget (titles reg) tid of
                         None \<Rightarrow> titles reg
                       | Some deed \<Rightarrow> hput tid
                           (deed\<lparr>d_escrow_id := None, current_owner := e_buyer esc,
                             history := history deed @ [title_event_at b sid ''escrow_released''
                               (Some (current_owner deed)) (e_buyer esc) ''title cleared through escrow'']\<rparr>)
                           (titles reg)))\<rparr>,
               credit_saturating (e_seller esc) (e_funded esc) accts)))"

definition refund_of :: "hash \<Rightarrow> escrow_account \<Rightarrow> reg_accts \<Rightarrow> reg_accts" where
  \<comment> \<open>the common end of a refund and of a timeout claim\<close>
  "refund_of eid esc = (\<lambda>(reg, accts).
     (reg\<lparr>escrows := hput eid (esc\<lparr>e_funded := 0, e_status := Refunded\<rparr>) (escrows reg),
          titles := unlock_title (e_title_id esc) (titles reg)\<rparr>,
      if e_funded esc > 0 then credit_saturating (e_buyer esc) (e_funded esc) accts else accts))"

definition refund_escrow :: "address \<Rightarrow> hash \<Rightarrow> reg_accts \<Rightarrow> reg_accts result" where
  "refund_escrow signer eid = (\<lambda>(reg, accts).
     (case hget (escrows reg) eid of
        None \<Rightarrow> Err ''Escrow not found''
      | Some esc \<Rightarrow>
          if \<not> (case e_status esc of Open \<Rightarrow> signer = e_buyer esc | Funded \<Rightarrow> signer = e_seller esc | _ \<Rightarrow> False)
          then Err ''Not authorized to refund escrow''
          else if e_status esc = Released \<or> e_status esc = Refunded then Err ''Escrow already closed''
          else Ok (refund_of eid esc (reg, accts))))"

definition timeout_claim_escrow :: "address \<Rightarrow> hash \<Rightarrow> nat \<Rightarrow> reg_accts \<Rightarrow> reg_accts result" where
  "timeout_claim_escrow signer eid blue = (\<lambda>(reg, accts).
     (case hget (escrows reg) eid of
        None \<Rightarrow> Err ''Escrow not found''
      | Some esc \<Rightarrow>
          if signer \<noteq> e_buyer esc then Err ''Only the buyer can timeout-claim escrow''
          else if e_status esc \<noteq> Funded then Err ''Escrow must be funded for timeout claim''
          else if e_timeout_blue esc = 0 then Err ''Escrow has no timeout path''
          else if blue < e_timeout_blue esc then Err ''Timeout not reached''
          else Ok (refund_of eid esc (reg, accts))))"

definition apply_body ::
  "env \<Rightarrow> registry_body \<Rightarrow> address \<Rightarrow> block \<Rightarrow> string \<Rightarrow> nat \<Rightarrow> reg_accts \<Rightarrow> reg_accts result" where
  \<comment> \<open>the \<open>match op\<close> of \<open>apply_op\<close>\<close>
  "apply_body E body signer b sid blue s =
     (case body of
        IssueTitle owner cls description seed \<Rightarrow> issue_title E signer owner cls description seed b sid s
      | TransferTitle tid to memo \<Rightarrow> transfer_title signer tid to memo b sid s
      | OpenEscrow buyer seller arbiter amount title memo seed timeout \<Rightarrow>
          open_escrow E signer buyer seller arbiter amount title memo seed timeout b s
      | FundEscrow eid amount \<Rightarrow> fund_escrow signer eid amount s
      | ReleaseEscrow eid \<Rightarrow> release_escrow signer eid b sid s
      | RefundEscrow eid \<Rightarrow> refund_escrow signer eid s
      | TimeoutClaimEscrow eid \<Rightarrow> timeout_claim_escrow signer eid blue s)"

definition apply_op ::
  "env \<Rightarrow> registry_op \<Rightarrow> block \<Rightarrow> string \<Rightarrow> nat \<Rightarrow> reg_accts \<Rightarrow> reg_accts \<times> unit result" where
  "apply_op E op b sid blue = (\<lambda>(reg, accts).
     (if \<not> registry_verify E op then ((reg, accts), Err ''Invalid registry signature'')
      else
        let signer = signer_address E op;
            acct = hget_or default_account accts signer
        in if r_nonce op \<noteq> a_nonce acct
           then ((reg, hput signer acct accts), Err ''Stale or future nonce on registry op'')
           else
             let accts1 = hput signer (acct\<lparr>a_nonce := sat_add64 (a_nonce acct) 1\<rparr>) accts
             in case apply_body E (r_body op) signer b sid blue (reg, accts1) of
                  Inl e \<Rightarrow> ((reg, accts1), Err e)
                | Inr s \<Rightarrow> (s, Ok ())))"

fun validate_registry_ops :: "env \<Rightarrow> nat \<Rightarrow> registry_op list \<Rightarrow> unit result" where
  "validate_registry_ops E chain [] = Ok ()"
| "validate_registry_ops E chain (op # ops) =
     (if r_chain_id op \<noteq> chain then Err ''Wrong chain_id on registry op''
      else if \<not> registry_verify E op then Err ''Invalid registry signature''
      else validate_registry_ops E chain ops)"

end
