(* ===== verification/Utxo_Correct.thy ===== *)
theory Utxo_Correct
  imports Utxo Spend_Predicate_Correct Address_Correct
begin

text \<open>
  Correctness of UTXO spends: the set invariant, conservation of value, no inflation on any path (errors
  after the first mutation included), no double spend, and that every spent output was unlocked.
\<close>

definition utxo_ok :: "utxo_set \<Rightarrow> bool" where
  "utxo_ok u \<longleftrightarrow> hmap_ok (entries u) \<and> distinct (spent u) \<and> (\<forall>op\<in>set (spent u). hget (entries u) op = None)"

abbreviation utxo_val :: "utxo_set \<Rightarrow> nat" where "utxo_val u \<equiv> hsum o_value (entries u)"
abbreviation acct_val :: "account_map \<Rightarrow> nat" where "acct_val a \<equiv> hsum balance a"

lemma utxo_ok_entries: "utxo_ok u \<Longrightarrow> hmap_ok (entries u)"
  by (simp add: utxo_ok_def)

lemma utxo_ok_insert: "utxo_ok u \<Longrightarrow> utxo_ok (utxo_insert op out u)"
  by (auto simp: utxo_ok_def utxo_insert_def distinct_removeAll)

lemma hsum_hput_le: "hmap_ok m \<Longrightarrow> hsum f (hput k v m) \<le> hsum f m + f v"
  using hsum_hput [of m f k v] by linarith

lemma utxo_val_insert_le: "utxo_ok u \<Longrightarrow> utxo_val (utxo_insert op out u) \<le> utxo_val u + o_value out"
  by (simp add: utxo_insert_def hsum_hput_le utxo_ok_entries)

lemma utxo_val_insert_new:
  "utxo_ok u \<Longrightarrow> hget (entries u) op = None \<Longrightarrow> utxo_val (utxo_insert op out u) = utxo_val u + o_value out"
  by (simp add: utxo_insert_def hsum_hput_new utxo_ok_entries)

lemma hget_utxo_insert [simp]:
  "hget (entries (utxo_insert op out u)) op' = (if op = op' then Some out else hget (entries u) op')"
  by (simp add: utxo_insert_def)

section \<open>Spending inputs\<close>

definition out_val :: "utxo_set \<Rightarrow> out_point \<Rightarrow> nat" where
  "out_val u op = (case hget (entries u) op of None \<Rightarrow> 0 | Some out \<Rightarrow> o_value out)"

lemma utxo_spend_Ok:
  assumes "utxo_ok u" and "hget (entries u) op = Some out"
  shows "utxo_spend op u = Ok (u\<lparr>entries := hdel op (entries u), spent := List.insert op (spent u)\<rparr>, out)"
  using assms by (auto simp: utxo_spend_def utxo_ok_def)

lemma utxo_ok_spend:
  assumes "utxo_ok u" and "utxo_spend op u = Ok (u', out)"
  shows "utxo_ok u' \<and> utxo_val u' + o_value out = utxo_val u \<and> hget (entries u) op = Some out"
  using assms by (auto simp: utxo_ok_def utxo_spend_def res_simps hsum_hdel)

lemma spend_all_Ok:
  assumes "utxo_ok u" and "distinct ops" and "\<forall>op\<in>set ops. hget (entries u) op \<noteq> None"
  shows "\<exists>u'. spend_all ops u = (u', Ok ()) \<and> utxo_ok u'
    \<and> utxo_val u' + sum_list (map (out_val u) ops) = utxo_val u
    \<and> (\<forall>op. hget (entries u') op = (if op \<in> set ops then None else hget (entries u) op))
    \<and> set (spent u') = set (spent u) \<union> set ops"
  using assms
proof (induction ops arbitrary: u)
  case (Cons op ops)
  then obtain out where out: "hget (entries u) op = Some out" by auto
  define u1 where "u1 = u\<lparr>entries := hdel op (entries u), spent := List.insert op (spent u)\<rparr>"
  have s: "utxo_spend op u = Ok (u1, out)" using utxo_spend_Ok [OF Cons.prems(1) out] by (simp add: u1_def)
  have ok1: "utxo_ok u1" "utxo_val u1 + o_value out = utxo_val u" using utxo_ok_spend [OF Cons.prems(1) s] by auto
  have g1: "hget (entries u1) x = (if x = op then None else hget (entries u) x)" for x by (simp add: u1_def)
  have "map (out_val u1) ops = map (out_val u) ops"
    using Cons.prems(2) by (auto simp: out_val_def g1)
  then have sum: "sum_list (map (out_val u1) ops) = sum_list (map (out_val u) ops)" by (rule arg_cong)
  obtain u' where u': "spend_all ops u1 = (u', Ok ())" "utxo_ok u'"
    "utxo_val u' + sum_list (map (out_val u1) ops) = utxo_val u1"
    "\<forall>x. hget (entries u') x = (if x \<in> set ops then None else hget (entries u1) x)"
    "set (spent u') = set (spent u1) \<union> set ops"
  proof -
    have "\<forall>x\<in>set ops. hget (entries u1) x \<noteq> None" using Cons.prems(2,3) g1 by auto
    with Cons.IH [OF ok1(1)] Cons.prems(2) that show thesis by auto
  qed
  have "out_val u op = o_value out" using out by (simp add: out_val_def)
  moreover have "set (spent u1) = insert op (set (spent u))" by (simp add: u1_def)
  ultimately show ?case using u' s sum ok1(2) g1 by (intro exI [of _ u']) auto
qed auto

lemma check_inputs_Ok:
  assumes "check_inputs E u tx media tins s0 = Ok s"
  shows "s = s0 + sum_list (map (out_val u \<circ> previous) tins)
    \<and> (\<forall>tin\<in>set tins. \<exists>out. hget (entries u) (previous tin) = Some out \<and> check_input E u tx media tin = Ok out)"
  using assms
proof (induction tins arbitrary: s0)
  case (Cons tin tins)
  then obtain out where c: "check_input E u tx media tin = Ok out"
    "check_inputs E u tx media tins (s0 + o_value out) = Ok s"
    by (auto simp: res_simps checked_add128_Some)
  have "hget (entries u) (previous tin) = Some out"
    using c(1) by (auto simp: check_input_def res_simps utxo_get_def)
  then show ?case using Cons.IH [OF c(2)] c(1) by (auto simp: out_val_def)
qed simp

lemma sum_outputs_Ok: "sum_outputs outs s0 = Ok s \<Longrightarrow> s = s0 + sum_list (map o_value outs)"
proof (induction outs arbitrary: s0)
  case (Cons out outs)
  then have "sum_outputs outs (s0 + o_value out) = Ok s" by (auto simp: res_simps checked_add128_Some)
  from Cons.IH [OF this] show ?case by simp
qed simp

section \<open>Creating outputs\<close>

lemma acct_credit:
  assumes "hmap_ok accts"
  shows "acct_val (hput a ((hget_or default_account accts a)\<lparr>balance := balance (hget_or default_account accts a) + v\<rparr>) accts)
    = acct_val accts + v"
  using hsum_hput [OF assms, of balance a "(hget_or default_account accts a)\<lparr>balance := balance (hget_or default_account accts a) + v\<rparr>"]
  by (simp add: hget_or_def default_account_def split: option.splits)

lemma acct_touch:
  assumes "hmap_ok accts"
  shows "acct_val (hput a (hget_or default_account accts a) accts) = acct_val accts"
  using hsum_hput [OF assms, of balance a "hget_or default_account accts a"]
  by (simp add: hget_or_def default_account_def split: option.splits)

text \<open>One output: a credit of the account overlay, or a new entry.\<close>

lemma create_outputs_credit:
  assumes "create_outputs tid media i (out # outs) u accts = ((u', accts'), r)"
    and "is_account_credit (o_predicate out)" and "hmap_ok accts"
  obtains (fail) "u' = u" "hmap_ok accts'" "acct_val accts' = acct_val accts" "\<not> is_ok r"
  | (step) accts1 where "create_outputs tid media (Suc i) outs u accts1 = ((u', accts'), r)" "hmap_ok accts1"
      "acct_val accts1 = acct_val accts + o_value out"
proof (cases "locked_address (o_predicate out)")
  case None
  then show ?thesis using assms by (intro fail) auto
next
  case (Some addr)
  show ?thesis
  proof (cases "checked_add128 (balance (hget_or default_account accts addr)) (o_value out)")
    case None
    then show ?thesis using assms Some acct_touch [of accts addr] by (intro fail) (auto simp: Let_def)
  next
    case (Some bal)
    then have b: "bal = balance (hget_or default_account accts addr) + o_value out" by (simp add: checked_add128_Some)
    show ?thesis
    proof (rule step)
      show "create_outputs tid media (Suc i) outs u (hput addr ((hget_or default_account accts addr)\<lparr>balance := bal\<rparr>) accts)
          = ((u', accts'), r)"
        using assms Some \<open>locked_address (o_predicate out) = Some addr\<close> by (auto simp: Let_def)
      show "acct_val (hput addr ((hget_or default_account accts addr)\<lparr>balance := bal\<rparr>) accts) = acct_val accts + o_value out"
        using acct_credit [OF assms(3)] b by simp
    qed (use assms in simp)
  qed
qed

lemma create_outputs_le:
  assumes "create_outputs tid media i outs u accts = ((u', accts'), r)" and "utxo_ok u" and "hmap_ok accts"
  shows "utxo_ok u' \<and> hmap_ok accts'
    \<and> utxo_val u' + acct_val accts' \<le> utxo_val u + acct_val accts + sum_list (map o_value outs)"
  using assms
proof (induction outs arbitrary: i u accts)
  case (Cons out outs)
  show ?case
  proof (cases "is_account_credit (o_predicate out)")
    case True
    from Cons.prems(1) True Cons.prems(3) show ?thesis
    proof (cases rule: create_outputs_credit)
      case fail
      then show ?thesis using Cons.prems by simp
    next
      case (step accts1)
      then show ?thesis using Cons.IH [OF step(1) Cons.prems(2) step(2)] by simp
    qed
  next
    case False
    define u1 where "u1 = utxo_insert (OutPoint tid (word_of_nat i)) (out\<lparr>created_blue := media\<rparr>) u"
    have c: "create_outputs tid media (Suc i) outs u1 accts = ((u', accts'), r)"
      using Cons.prems(1) False by (simp add: u1_def)
    have u1: "utxo_ok u1" "utxo_val u1 \<le> utxo_val u + o_value out"
      using Cons.prems(2) utxo_ok_insert
        utxo_val_insert_le [of u "OutPoint tid (word_of_nat i)" "out\<lparr>created_blue := media\<rparr>"]
      by (auto simp: u1_def)
    show ?thesis using Cons.IH [OF c u1(1) Cons.prems(3)] u1(2) by simp
  qed
qed simp

definition fresh_from :: "hash \<Rightarrow> nat \<Rightarrow> utxo_set \<Rightarrow> bool" where
  "fresh_from tid i u \<longleftrightarrow> (\<forall>j. i \<le> j \<and> j < 2 ^ 32 \<longrightarrow> hget (entries u) (OutPoint tid (word_of_nat j)) = None)"

lemma fresh_from_step:
  assumes "fresh_from tid i u" and "i < 2 ^ 32"
  shows "fresh_from tid (Suc i) (utxo_insert (OutPoint tid (word_of_nat i)) out u)"
proof -
  have "(word_of_nat i :: 32 word) \<noteq> word_of_nat j" if "Suc i \<le> j" "j < 2 ^ 32" for j
    using that assms(2) by (simp add: word_of_nat_eq_iff take_bit_nat_eq_self)
  then show ?thesis using assms by (auto simp: fresh_from_def)
qed

lemma create_outputs_eq:
  assumes "create_outputs tid media i outs u accts = ((u', accts'), Ok x)" and "utxo_ok u" and "hmap_ok accts"
    and "fresh_from tid i u" and "i + length outs \<le> 2 ^ 32"
  shows "utxo_val u' + acct_val accts' = utxo_val u + acct_val accts + sum_list (map o_value outs)"
  using assms
proof (induction outs arbitrary: i u accts)
  case (Cons out outs)
  have len: "Suc i + length outs \<le> 2 ^ 32" "i < 2 ^ 32" using Cons.prems(5) by simp_all
  show ?case
  proof (cases "is_account_credit (o_predicate out)")
    case True
    have fr: "fresh_from tid (Suc i) u" using Cons.prems(4) by (simp add: fresh_from_def)
    from Cons.prems(1) True Cons.prems(3) show ?thesis
    proof (cases rule: create_outputs_credit)
      case (step accts1)
      then show ?thesis using Cons.IH [OF step(1) Cons.prems(2) step(2) fr len(1)] by simp
    qed simp
  next
    case False
    define u1 where "u1 = utxo_insert (OutPoint tid (word_of_nat i)) (out\<lparr>created_blue := media\<rparr>) u"
    have c: "create_outputs tid media (Suc i) outs u1 accts = ((u', accts'), Ok x)"
      using Cons.prems(1) False by (simp add: u1_def)
    have n: "hget (entries u) (OutPoint tid (word_of_nat i)) = None"
      using Cons.prems(4) len(2) by (simp add: fresh_from_def)
    have u1: "utxo_ok u1" "utxo_val u1 = utxo_val u + o_value out" "fresh_from tid (Suc i) u1"
      using Cons.prems(2,4) utxo_ok_insert utxo_val_insert_new [OF _ n] fresh_from_step len(2) by (simp_all add: u1_def)
    show ?thesis using Cons.IH [OF c u1(1) Cons.prems(3) u1(3) len(1)] u1(2) by simp
  qed
qed simp

lemma create_outputs_other:
  assumes "create_outputs tid media i outs u accts = ((u', accts'), r)" and "txid op \<noteq> tid"
  shows "hget (entries u') op = hget (entries u) op"
  using assms
  by (induction tid media i outs u accts rule: create_outputs.induct)
    (auto simp: Let_def split: option.splits if_splits)

lemma create_outputs_spent:
  assumes "create_outputs tid media i outs u accts = ((u', accts'), r)" and "txid op \<noteq> tid"
  shows "op \<in> set (spent u') \<longleftrightarrow> op \<in> set (spent u)"
  using assms
  by (induction tid media i outs u accts rule: create_outputs.induct)
    (auto simp: Let_def utxo_insert_def split: option.splits if_splits)

section \<open>Applying a transaction\<close>

lemma check_utxo_tx_Ok:
  assumes "check_utxo_tx E u tx media = Ok x"
  shows "distinct (map previous (inputs tx)) \<and> length (outputs tx) \<le> 64 \<and> inputs tx \<noteq> [] \<and> utxo_verify E tx
    \<and> (\<forall>tin\<in>set (inputs tx). \<exists>out. hget (entries u) (previous tin) = Some out \<and> check_input E u tx media tin = Ok out)
    \<and> sum_list (map (out_val u) (map previous (inputs tx))) = u_fee tx + sum_list (map o_value (outputs tx))"
proof -
  from assms obtain s where s: "utxo_validate_form E tx = Ok ()" "utxo_verify E tx"
    "check_inputs E u tx media (inputs tx) 0 = Ok s" "sum_outputs (outputs tx) (u_fee tx) = Ok s"
    by (auto simp: check_utxo_tx_def res_simps)
  have "distinct (map previous (inputs tx)) \<and> length (outputs tx) \<le> 64 \<and> inputs tx \<noteq> []"
    using s(1) by (auto simp: utxo_validate_form_def res_simps)
  then show ?thesis using s(2) check_inputs_Ok [OF s(3)] sum_outputs_Ok [OF s(4)] by auto
qed

text \<open>The ways a call can end: refused by a check, or with its inputs spent and outputs (some of them) created.\<close>

lemma apply_utxo_tx_cases:
  assumes ap: "apply_utxo_tx E tx media (u, accts, fees) = ((u', accts', fees'), r)" and ok: "utxo_ok u"
  obtains (refused) e where "check_utxo_tx E u tx media = Err e" "u' = u" "accts' = accts" "fees' = fees" "r = Err e"
  | (spent) u1 where "check_utxo_tx E u tx media = Ok ()"
      "spend_all (map previous (inputs tx)) u = (u1, Ok ())" "utxo_ok u1"
      "utxo_val u1 + u_fee tx + sum_list (map o_value (outputs tx)) = utxo_val u"
      "\<forall>op. hget (entries u1) op = (if op \<in> previous ` set (inputs tx) then None else hget (entries u) op)"
      "set (utxo_set.spent u1) = set (utxo_set.spent u) \<union> previous ` set (inputs tx)"
      "create_outputs (utxo_tx_hash E tx) media 0 (outputs tx) u1 accts = ((u', accts'), r)"
      "fees' = (if is_ok r then sat_add128 fees (u_fee tx) else fees)"
proof (cases "check_utxo_tx E u tx media")
  case (Inl e)
  then show ?thesis using ap by (intro refused [OF Inl]) (auto simp: apply_utxo_tx_def)
next
  case (Inr x)
  note c = check_utxo_tx_Ok [OF Inr]
  obtain u1 where u1: "spend_all (map previous (inputs tx)) u = (u1, Ok ())" "utxo_ok u1"
    "utxo_val u1 + sum_list (map (out_val u) (map previous (inputs tx))) = utxo_val u"
    "\<forall>op. hget (entries u1) op = (if op \<in> set (map previous (inputs tx)) then None else hget (entries u) op)"
    "set (utxo_set.spent u1) = set (utxo_set.spent u) \<union> set (map previous (inputs tx))"
    using spend_all_Ok [OF ok, of "map previous (inputs tx)"] c by fastforce
  obtain u2 a2 r2 where cr: "create_outputs (utxo_tx_hash E tx) media 0 (outputs tx) u1 accts = ((u2, a2), r2)"
    by (metis surj_pair)
  have e: "(case r2 of Inl e \<Rightarrow> ((u2, a2, fees), Inl e) | Inr _ \<Rightarrow> ((u2, a2, sat_add128 fees (u_fee tx)), Inr ()))
      = ((u', accts', fees'), r)"
    unfolding ap [symmetric] by (simp add: apply_utxo_tx_def Inr u1(1) cr)
  show ?thesis
  proof (rule spent)
    show "utxo_val u1 + u_fee tx + sum_list (map o_value (outputs tx)) = utxo_val u" using u1(3) c by simp
    show "create_outputs (utxo_tx_hash E tx) media 0 (outputs tx) u1 accts = ((u', accts'), r)"
      "fees' = (if is_ok r then sat_add128 fees (u_fee tx) else fees)"
      using e cr by (cases r2; auto)+
  qed (use u1 Inr in auto)
qed

lemma apply_utxo_tx_no_inflation:
  assumes "apply_utxo_tx E tx media (u, accts, fees) = ((u', accts', fees'), r)"
    and "utxo_ok u" and "hmap_ok accts"
  shows "utxo_ok u' \<and> hmap_ok accts' \<and> utxo_val u' + acct_val accts' + fees' \<le> utxo_val u + acct_val accts + fees"
  using assms(1,2)
proof (cases rule: apply_utxo_tx_cases)
  case (spent u1)
  have "fees' \<le> fees + u_fee tx" using spent(8) by (auto simp: sat_add128_def)
  then show ?thesis using create_outputs_le [OF spent(7,3) assms(3)] spent(4) by linarith
qed (use assms in auto)

lemma create_outputs_total:
  assumes "\<forall>out\<in>set outs. is_account_credit (o_predicate out) \<longrightarrow> locked_address (o_predicate out) \<noteq> None"
    and "hmap_ok accts" and "acct_val accts + sum_list (map o_value outs) \<le> u128_max"
  shows "is_ok (snd (create_outputs tid media i outs u accts))"
  using assms
proof (induction outs arbitrary: i u accts)
  case (Cons out outs)
  show ?case
  proof (cases "is_account_credit (o_predicate out)")
    case True
    with Cons.prems(1) obtain a where a: "locked_address (o_predicate out) = Some a" by auto
    define acct where "acct = hget_or default_account accts a"
    have "balance acct \<le> acct_val accts"
      by (auto simp: acct_def hget_or_def default_account_def intro: hsum_ge split: option.splits)
    then have c: "checked_add128 (balance acct) (o_value out) = Some (balance acct + o_value out)"
      using Cons.prems(3) by (simp add: checked_add128_Some)
    have "is_ok (snd (create_outputs tid media (Suc i) outs u (hput a (acct\<lparr>balance := balance acct + o_value out\<rparr>) accts)))"
      by (rule Cons.IH) (use Cons.prems acct_credit [OF Cons.prems(2), of a "o_value out"] in \<open>auto simp: acct_def\<close>)
    then show ?thesis using True a c by (simp add: Let_def flip: acct_def)
  next
    case False
    then show ?thesis using Cons by simp
  qed
qed simp

section \<open>Properties\<close>

definition demo_out :: "nat \<Rightarrow> tx_out" where
  "demo_out v = \<lparr>o_value = v, o_predicate = PayToAddress (encode_hash 7), created_blue = 0\<rparr>"

definition demo_utxo :: utxo_set where
  "demo_utxo = \<lparr>entries = [(OutPoint 1 0, demo_out 3000)], spent = []\<rparr>"

definition demo_spend :: "tx_out list \<Rightarrow> utxo_tx" where
  "demo_spend outs = \<lparr>inputs = [\<lparr>previous = OutPoint 1 0, in_relative_lock_blues = 0, witness = WSignature\<rparr>],
     outputs = outs, u_lock_blue_score = 0, u_fee = 1000, u_chain_id = CHAIN_ID, u_from_pubkey = [1], u_signature = [1]\<rparr>"

lemma demo_utxo_ok: "utxo_ok demo_utxo"
  by (simp add: utxo_ok_def demo_utxo_def hmap_ok_def)

lemmas demo_utxo_simps = demo_spend_def demo_out_def demo_utxo_def demo_env_def apply_utxo_tx_def
  check_utxo_tx_def utxo_validate_form_def utxo_min_fee_required_def utxo_relay_bytes_def sat_mul128_def
  MIN_FEE_PER_BYTE_def MIN_TX_FEE_def UTXO_DUST_def is_valid_address_def utxo_verify_def verify_pq512_def
  verify_signature_def check_input_def utxo_get_def is_coinbase_def evaluate_full_def MAX_PRED_DEPTH_def
  utxo_from_address_def hash_to_address_def encode_address_def address_hash_def digest512_def
  checked_add128_def utxo_spend_def utxo_tx_hash_def utxo_insert_def sat_add128_def

lemma demo_spend_applies:
  "apply_utxo_tx demo_env (demo_spend [demo_out 2000]) 9 (demo_utxo, [], 0)
   = ((\<lparr>entries = [(OutPoint 7 0, (demo_out 2000)\<lparr>created_blue := 9\<rparr>)], spent = [OutPoint 1 0]\<rparr>, [], 1000), Ok ())"
  by (simp add: demo_utxo_simps)

text \<open>
  C23. A transaction that applies conserves value: what the UTXO set and the account overlay hold after
  it, with the fees collected, is what they held before. The outputs must be new, that is, no entry may
  carry the hash of this transaction, and the fee counter must not saturate.
\<close>

theorem utxo_conservation:
  assumes ok: "utxo_ok u" and acc: "hmap_ok accts"
    and ap: "apply_utxo_tx E tx media (u, accts, fees) = ((u', accts', fees'), Ok ())"
    and fresh: "\<forall>v. hget (entries u) (OutPoint (utxo_tx_hash E tx) v) = None"
    and fits: "fees + u_fee tx \<le> u128_max"
  shows "utxo_ok u' \<and> hmap_ok accts' \<and> hsum o_value (entries u') + hsum balance accts' + fees'
    = hsum o_value (entries u) + hsum balance accts + fees"
  using ap ok
proof (cases rule: apply_utxo_tx_cases)
  case (spent u1)
  have "fresh_from (utxo_tx_hash E tx) 0 u1" using fresh spent(5) by (auto simp: fresh_from_def)
  moreover have "length (outputs tx) \<le> 64" using check_utxo_tx_Ok [OF spent(1)] by simp
  ultimately have "utxo_val u' + acct_val accts' = utxo_val u1 + acct_val accts + sum_list (map o_value (outputs tx))"
    by (intro create_outputs_eq [OF spent(7,3) acc]) auto
  moreover have "fees' = fees + u_fee tx" using spent(8) fits by (simp add: sat_add128_def)
  ultimately show ?thesis using create_outputs_le [OF spent(7,3) acc] spent(4) by simp
qed simp

theorem utxo_conservation_witness:
  "hsum o_value (entries demo_utxo) = 3000 \<and>
   (case apply_utxo_tx demo_env (demo_spend [demo_out 2000]) 9 (demo_utxo, [], 0) of
      ((u', a', f'), r) \<Rightarrow> r = Ok () \<and> hsum o_value (entries u') + hsum balance a' + f' = 3000)"
proof -
  have f: "\<forall>v. hget (entries demo_utxo) (OutPoint (utxo_tx_hash demo_env (demo_spend [demo_out 2000])) v) = None"
    by (simp add: demo_utxo_simps)
  have v: "hsum o_value (entries demo_utxo) = 3000" by (simp add: demo_utxo_simps)
  show ?thesis
    using utxo_conservation [OF demo_utxo_ok hmap_ok_Nil demo_spend_applies f] v
    by (simp add: demo_spend_applies) (simp add: demo_spend_def)
qed

text \<open>
  C24. No double spend: once a transaction has applied, each of its inputs is spent, and every
  transaction that names one of them again is refused, leaving the state as it is (the input is not an
  output of the first transaction itself).
\<close>

theorem no_double_spend:
  assumes ok: "utxo_ok u" and acc: "hmap_ok accts"
    and ap: "apply_utxo_tx E tx media (u, accts, fees) = (s', Ok ())"
    and p: "p \<in> previous ` set (inputs tx)" "txid p \<noteq> utxo_tx_hash E tx"
    and q: "p \<in> previous ` set (inputs tx2)"
  shows "is_spent (fst s') p \<and> p \<in> set (spent (fst s')) \<and> (\<exists>e. apply_utxo_tx E tx2 media2 s' = (s', Err e))"
proof -
  obtain u' accts' fees' where s': "s' = (u', accts', fees')" by (metis surj_pair)
  from ap [unfolded s'] ok show ?thesis
  proof (cases rule: apply_utxo_tx_cases)
    case (spent u1)
    have none: "hget (entries u') p = None" using create_outputs_other [OF spent(7) p(2)] spent(5) p(1) by simp
    moreover have sp: "p \<in> set (utxo_set.spent u')" using create_outputs_spent [OF spent(7) p(2)] spent(6) p(1) by auto
    moreover have "\<exists>e. check_utxo_tx E u' tx2 media2 = Err e"
    proof (rule ccontr)
      assume "\<not> ?thesis"
      then obtain x where "check_utxo_tx E u' tx2 media2 = Ok x" by (cases "check_utxo_tx E u' tx2 media2") auto
      from check_utxo_tx_Ok [OF this] q none show False by auto
    qed
    ultimately show ?thesis by (auto simp: s' is_spent_def hhas_def apply_utxo_tx_def)
  qed simp
qed

theorem no_double_spend_witness:
  "\<exists>e s'. apply_utxo_tx demo_env (demo_spend [demo_out 2000]) 9 (demo_utxo, [], 0) = (s', Ok ()) \<and>
     apply_utxo_tx demo_env (demo_spend [demo_out 1000, demo_out 1000]) 9 s' = (s', Err e)"
proof -
  have "OutPoint 1 0 \<in> previous ` set (inputs (demo_spend [demo_out 2000]))"
    "txid (OutPoint 1 0) \<noteq> utxo_tx_hash demo_env (demo_spend [demo_out 2000])"
    "OutPoint 1 0 \<in> previous ` set (inputs (demo_spend [demo_out 1000, demo_out 1000]))"
    by (simp_all add: demo_utxo_simps)
  from no_double_spend [OF demo_utxo_ok hmap_ok_Nil demo_spend_applies this, of 9] show ?thesis
    using demo_spend_applies by blast
qed

text \<open>
  C25. Only an authorized spender moves an output: when a transaction applies, it is signed, and every
  output it spends exists, is mature if it is a coinbase, satisfies its relative lock, and its predicate
  is authorized for the signer at this blue score, with the preimages and cosignatures of the input's
  witness and cosignatures over this very transaction.
\<close>

theorem spend_authorized:
  assumes ok: "utxo_ok u" and ap: "apply_utxo_tx E tx media (u, accts, fees) = (s', Ok ())"
  shows "utxo_verify E tx \<and> (u_lock_blue_score tx \<le> media) \<and>
    (\<forall>tin\<in>set (inputs tx). \<exists>out. hget (entries u) (previous tin) = Some out
       \<and> authorized E (wit_preimages (witness tin)) (wit_cosigs (witness tin)) (hash_to_address E (u_from_pubkey tx))
           media (created_blue out) (Some (utxo_signing_bytes E tx)) (o_predicate out)
       \<and> (is_coinbase (previous tin) \<longrightarrow> sat_add64 (created_blue out) COINBASE_MATURITY_BLUES \<le> media)
       \<and> (in_relative_lock_blues tin > 0 \<longrightarrow> sat_add64 (created_blue out) (in_relative_lock_blues tin) \<le> media))"
proof -
  obtain u' accts' fees' where s': "s' = (u', accts', fees')" by (metis surj_pair)
  from ap [unfolded s'] ok have c: "check_utxo_tx E u tx media = Ok ()"
    by (cases rule: apply_utxo_tx_cases) auto
  have lock: "u_lock_blue_score tx \<le> media" using c by (auto simp: check_utxo_tx_def res_simps)
  have "\<exists>out. hget (entries u) (previous tin) = Some out
       \<and> authorized E (wit_preimages (witness tin)) (wit_cosigs (witness tin)) (hash_to_address E (u_from_pubkey tx))
           media (created_blue out) (Some (utxo_signing_bytes E tx)) (o_predicate out)
       \<and> (is_coinbase (previous tin) \<longrightarrow> sat_add64 (created_blue out) COINBASE_MATURITY_BLUES \<le> media)
       \<and> (in_relative_lock_blues tin > 0 \<longrightarrow> sat_add64 (created_blue out) (in_relative_lock_blues tin) \<le> media)"
    if tin: "tin \<in> set (inputs tx)" for tin
  proof -
    obtain out where o: "hget (entries u) (previous tin) = Some out" "check_input E u tx media tin = Ok out"
      using check_utxo_tx_Ok [OF c] tin by auto
    then have ev: "eval_inner E (o_predicate out) (witness tin) (hash_to_address E (u_from_pubkey tx)) media
        (created_blue out) (Some (utxo_signing_bytes E tx)) = Ok ()"
      by (auto simp: check_input_def res_simps utxo_get_def evaluate_full_def utxo_from_address_def)
    have "(is_coinbase (previous tin) \<longrightarrow> sat_add64 (created_blue out) COINBASE_MATURITY_BLUES \<le> media)
       \<and> (in_relative_lock_blues tin > 0 \<longrightarrow> sat_add64 (created_blue out) (in_relative_lock_blues tin) \<le> media)"
      using o by (auto simp: check_input_def res_simps utxo_get_def)
    then show ?thesis using o(1) eval_inner_sound [OF ev] by auto
  qed
  then show ?thesis using check_utxo_tx_Ok [OF c] lock by auto
qed

theorem spend_authorized_witness:
  "utxo_verify demo_env (demo_spend [demo_out 2000])
   \<and> authorized demo_env {} {} (hash_to_address demo_env [1]) 9 0
       (Some (utxo_signing_bytes demo_env (demo_spend [demo_out 2000]))) (PayToAddress (encode_hash 7))"
  using spend_authorized [OF demo_utxo_ok demo_spend_applies]
  by (simp add: demo_spend_def demo_utxo_def demo_out_def)

text \<open>
  C26. A refused transaction leaves the state untouched, provided that every output that credits an
  account names one and the balances cannot exceed 128 bits.
\<close>

theorem utxo_tx_atomic:
  assumes ok: "utxo_ok u" and acc: "hmap_ok accts"
    and ap: "apply_utxo_tx E tx media (u, accts, fees) = (s', Err e)"
    and named: "\<forall>out\<in>set (outputs tx). is_account_credit (o_predicate out) \<longrightarrow> locked_address (o_predicate out) \<noteq> None"
    and fits: "hsum balance accts + sum_list (map o_value (outputs tx)) \<le> u128_max"
  shows "s' = (u, accts, fees)"
proof -
  obtain u' accts' fees' where s': "s' = (u', accts', fees')" by (metis surj_pair)
  from ap [unfolded s'] ok show ?thesis
  proof (cases rule: apply_utxo_tx_cases)
    case (spent u1)
    then show ?thesis
      using create_outputs_total [OF named acc fits, of "utxo_tx_hash E tx" media 0 u1] by simp
  qed (simp add: s')
qed

theorem utxo_tx_atomic_witness:
  "\<exists>e. apply_utxo_tx demo_env (demo_spend [demo_out 1000]) 9 (demo_utxo, [], 0) = ((demo_utxo, [], 0), Err e)"
proof -
  obtain e s' where a: "apply_utxo_tx demo_env (demo_spend [demo_out 1000]) 9 (demo_utxo, [], 0) = (s', Err e)"
    by (simp add: demo_utxo_simps)
  have "s' = (demo_utxo, [], 0)"
    by (rule utxo_tx_atomic [OF demo_utxo_ok hmap_ok_Nil a]) (simp_all add: demo_spend_def demo_out_def)
  then show ?thesis using a by blast
qed

lemma min_fee_floor: "MIN_TX_FEE \<le> utxo_min_fee_required E tx"
  by (simp add: utxo_min_fee_required_def)

lemma bump_fee_Ok:
  assumes "bump_fee E tx = Ok tx'" and "outputs tx \<noteq> []"
  shows "sum_list (map o_value (outputs tx')) + u_fee tx' = sum_list (map o_value (outputs tx)) + u_fee tx
    \<and> inputs tx' = inputs tx \<and> outputs tx' \<noteq> [] \<and> o_predicate (hd (outputs tx')) = o_predicate (hd (outputs tx))
    \<and> u_fee tx \<le> u_fee tx'"
proof (cases "u_fee tx < utxo_min_fee_required E tx")
  case True
  define n where "n = utxo_min_fee_required E tx"
  obtain outs l where o: "outputs tx = outs @ [l]" using assms(2) by (metis rev_exhaust)
  have "tx' = tx\<lparr>outputs := outs @ [l\<lparr>o_value := o_value l - (n - u_fee tx)\<rparr>], u_fee := n\<rparr>"
    "n - u_fee tx < o_value l" "u_fee tx < n"
    using assms(1) True o by (auto simp: bump_fee_def Let_def n_def res_simps)
  then show ?thesis using o by (cases outs) auto
next
  case False
  then show ?thesis using assms by (auto simp: bump_fee_def)
qed

text \<open>
  A payment built by the wallet spends its funding output exactly: outputs and fee add up to the
  funding value, the recipient is paid in the first output, and the fee is at least what the caller
  asked for and at least the minimum.
\<close>

theorem payment_balanced:
  assumes "payment E pk funding funding_value to amount fee chain lock rel = Ok tx"
  shows "sum_list (map o_value (outputs tx)) + u_fee tx = funding_value \<and> map previous (inputs tx) = [funding]
    \<and> outputs tx \<noteq> [] \<and> o_predicate (hd (outputs tx)) = PayToAddress to
    \<and> fee \<le> u_fee tx \<and> MIN_TX_FEE \<le> u_fee tx"
proof -
  define f where "f = max fee (utxo_min_fee_required E (payment_body pk funding chain lock rel [pay_to to amount] (max fee MIN_TX_FEE)))"
  have f: "fee \<le> f" "MIN_TX_FEE \<le> f" using min_fee_floor by (auto simp: f_def le_max_iff_disj)
  from assms obtain outs where outs: "bump_fee E (payment_body pk funding chain lock rel outs f) = Ok tx"
    "outs \<noteq> []" "hd outs = pay_to to amount" "sum_list (map o_value outs) + f = funding_value"
    unfolding payment_def Let_def f_def [symmetric]
    by (auto simp: res_simps checked_add128_Some pay_to_def split: if_splits)
  show ?thesis
    using bump_fee_Ok [OF outs(1)] outs f by (simp add: payment_body_def pay_to_def)
qed

theorem payment_balanced_witness:
  "case payment demo_env [1] (OutPoint 1 0) 3000 (encode_hash 7) 1000 0 CHAIN_ID 0 0 of
     Inl e \<Rightarrow> False | Inr tx \<Rightarrow> sum_list (map o_value (outputs tx)) + u_fee tx = 3000"
proof -
  obtain tx where tx: "payment demo_env [1] (OutPoint 1 0) 3000 (encode_hash 7) 1000 0 CHAIN_ID 0 0 = Ok tx"
    by (simp add: payment_def bump_fee_def payment_body_def pay_to_def Let_def demo_utxo_simps)
  then show ?thesis using payment_balanced [OF tx] by simp
qed

text \<open>
  Without the first condition it does not: an output that credits an account under a conjunction whose
  left side names no address passes every check, and the call fails after the inputs are gone.
\<close>

definition demo_nameless :: tx_out where
  "demo_nameless = \<lparr>o_value = 2000, o_predicate = PAnd (HashLock 0) (CreditAccount (encode_hash 7)), created_blue = 0\<rparr>"

lemma utxo_error_after_spend:
  "apply_utxo_tx demo_env (demo_spend [demo_nameless]) 9 (demo_utxo, [], 0)
   = ((\<lparr>entries = [], spent = [OutPoint 1 0]\<rparr>, [], 0), Err ''CreditAccount missing address'')"
  by (simp add: demo_utxo_simps demo_nameless_def)

end
