(* ===== verification/Registry_Correct.thy ===== *)
theory Registry_Correct
  imports Registry Utxo_Correct Reachability_Correct
begin

text \<open>
  Correctness of the registry: the invariant that ties titles to escrows, conservation of value between
  balances and escrows, the escrow life cycle as a step relation that \<open>apply_op\<close> refines, who can move a
  title, and that a funded escrow with a timeout can always be recovered.
\<close>

section \<open>Invariant\<close>

definition active :: "escrow_account \<Rightarrow> bool" where
  "active esc \<longleftrightarrow> e_status esc = Open \<or> e_status esc = Funded"

definition escrow_ok :: "(hash, title_deed) hmap \<Rightarrow> hash \<Rightarrow> escrow_account \<Rightarrow> bool" where
  "escrow_ok ts eid esc \<longleftrightarrow> 0 < e_amount esc \<and> e_funded esc \<le> u128_max \<and>
     (case e_status esc of
        Open \<Rightarrow> e_funded esc < e_amount esc
      | Funded \<Rightarrow> e_amount esc \<le> e_funded esc
      | Released \<Rightarrow> e_funded esc = 0
      | Refunded \<Rightarrow> e_funded esc = 0
      | Disputed \<Rightarrow> False) \<and>
     (active esc \<longrightarrow> (\<forall>tid. e_title_id esc = Some tid \<longrightarrow>
        (\<exists>deed. hget ts tid = Some deed \<and> d_escrow_id deed = Some eid \<and> current_owner deed = e_seller esc)))"

definition deed_ok :: "(hash, escrow_account) hmap \<Rightarrow> hash \<Rightarrow> title_deed \<Rightarrow> bool" where
  "deed_ok es tid deed \<longleftrightarrow>
     (\<forall>eid. d_escrow_id deed = Some eid \<longrightarrow>
        (\<exists>esc. hget es eid = Some esc \<and> active esc \<and> e_title_id esc = Some tid))"

definition registry_ok :: "registry_state \<Rightarrow> bool" where
  "registry_ok reg \<longleftrightarrow> hmap_ok (titles reg) \<and> hmap_ok (escrows reg) \<and>
     (\<forall>eid esc. hget (escrows reg) eid = Some esc \<longrightarrow> escrow_ok (titles reg) eid esc) \<and>
     (\<forall>tid deed. hget (titles reg) tid = Some deed \<longrightarrow> deed_ok (escrows reg) tid deed)"

lemma registry_okD:
  assumes "registry_ok reg"
  shows "hmap_ok (titles reg)" "hmap_ok (escrows reg)"
    "\<And>eid esc. hget (escrows reg) eid = Some esc \<Longrightarrow> escrow_ok (titles reg) eid esc"
    "\<And>tid deed. hget (titles reg) tid = Some deed \<Longrightarrow> deed_ok (escrows reg) tid deed"
  using assms by (auto simp: registry_ok_def)

lemma escrow_title:
  assumes "registry_ok reg" and "hget (escrows reg) eid = Some esc" and "active esc" and "e_title_id esc = Some tid"
  obtains deed where "hget (titles reg) tid = Some deed" "d_escrow_id deed = Some eid" "current_owner deed = e_seller esc"
  using registry_okD(3) [OF assms(1,2)] assms(3,4) that by (auto simp: escrow_ok_def)

text \<open>A title is in one active escrow at most.\<close>

lemma one_escrow_per_title:
  assumes "registry_ok reg" and "hget (escrows reg) e1 = Some x1" "active x1" "e_title_id x1 = Some tid"
    and "hget (escrows reg) e2 = Some x2" "active x2" "e_title_id x2 = Some tid"
  shows "e1 = e2"
  using escrow_title [OF assms(1-4)] escrow_title [OF assms(1,5-7)] by (metis option.inject)

text \<open>Writing a title that is in no escrow.\<close>

lemma put_free_title_ok:
  assumes ok: "registry_ok reg" and free: "\<And>old. hget (titles reg) tid = Some old \<Longrightarrow> d_escrow_id old = None"
    and new: "d_escrow_id deed = None"
  shows "registry_ok (reg\<lparr>titles := hput tid deed (titles reg)\<rparr>)"
proof -
  note I = registry_okD [OF ok]
  have "escrow_ok (hput tid deed (titles reg)) x y" if y: "hget (escrows reg) x = Some y" for x y
  proof -
    have "tid \<noteq> t" if "active y" "e_title_id y = Some t" for t
      using escrow_title [OF ok y that] free by (metis option.distinct(1))
    then show ?thesis using I(3) [OF y] by (simp add: escrow_ok_def)
  qed
  moreover have "deed_ok (escrows reg) t d" if "hget (hput tid deed (titles reg)) t = Some d" for t d
    using that I(4) new by (auto simp: deed_ok_def split: if_splits)
  ultimately show ?thesis using I(1,2) by (simp add: registry_ok_def)
qed

lemma issue_title_ok:
  assumes "registry_ok reg" and "issue_title E signer owner cls desc seed b sid (reg, accts) = Ok (reg', accts')"
  shows "registry_ok reg'"
  using assms(2) put_free_title_ok [OF assms(1), of "derive_title_id E signer seed"]
  by (auto simp: issue_title_def Let_def res_simps hhas_def)

lemma transfer_title_ok:
  assumes "registry_ok reg" and "transfer_title signer tid to memo b sid (reg, accts) = Ok (reg', accts')"
  shows "registry_ok reg'"
  using assms(2) put_free_title_ok [OF assms(1), of tid]
  by (auto simp: transfer_title_def res_simps)

lemma open_escrow_ok:
  assumes ok: "registry_ok reg"
    and op: "open_escrow E signer buyer seller arb amount title memo seed tmo b (reg, accts) = Ok (reg', accts')"
  shows "registry_ok reg'"
proof -
  define eid where "eid = derive_escrow_id E signer seed"
  define esc where "esc = \<lparr>e_escrow_id = eid, e_buyer = buyer, e_seller = seller, e_arbiter = arb, e_amount = amount,
     e_funded = 0, e_status = Open, e_title_id = title, opened_at = timestamp b, e_memo = memo, e_timeout_blue = tmo\<rparr>"
  have new: "hget (escrows reg) eid = None" and am: "amount > 0"
    using op by (auto simp: open_escrow_def Let_def res_simps hhas_def eid_def)
  have esc: "0 < e_amount esc" "e_funded esc = 0" "e_status esc = Open" "active esc" "e_title_id esc = title" "e_seller esc = seller"
    using am by (auto simp: esc_def active_def)
  note I = registry_okD [OF ok]
  have nodeed: "d_escrow_id deed \<noteq> Some eid" if "hget (titles reg) t = Some deed" for t deed
    using I(4) [OF that] new by (auto simp: deed_ok_def)
  define ts where "ts = (case title of None \<Rightarrow> titles reg
     | Some tid \<Rightarrow> (case hget (titles reg) tid of None \<Rightarrow> titles reg
       | Some deed \<Rightarrow> hput tid (deed\<lparr>d_escrow_id := Some eid\<rparr>) (titles reg)))"
  have r: "reg' = reg\<lparr>titles := ts, escrows := hput eid esc (escrows reg)\<rparr>"
    using op unfolding eid_def esc_def ts_def by (auto simp: open_escrow_def Let_def res_simps)
  have t: "\<exists>deed. hget (titles reg) tid = Some deed \<and> current_owner deed = seller \<and> d_escrow_id deed = None
      \<and> hget ts tid = Some (deed\<lparr>d_escrow_id := Some eid\<rparr>)" if "title = Some tid" for tid
    using op that unfolding ts_def by (auto simp: open_escrow_def Let_def res_simps)
  have other: "hget ts tid = hget (titles reg) tid" if "title \<noteq> Some tid" for tid
    using that by (auto simp: ts_def split: option.splits)
  have "escrow_ok ts x y" if x: "hget (hput eid esc (escrows reg)) x = Some y" for x y
  proof (cases "x = eid")
    case True
    then show ?thesis using x esc t by (auto simp: escrow_ok_def)
  next
    case False
    then have y: "hget (escrows reg) x = Some y" using x by simp
    have "hget ts tid = hget (titles reg) tid" if "active y" "e_title_id y = Some tid" for tid
      using escrow_title [OF ok y that] t other by (metis option.distinct(1) option.inject)
    then show ?thesis using I(3) [OF y] by (auto simp: escrow_ok_def)
  qed
  moreover have "deed_ok (hput eid esc (escrows reg)) x y" if x: "hget ts x = Some y" for x y
  proof (cases "title = Some x")
    case True
    then show ?thesis using t [OF True] x esc by (auto simp: deed_ok_def)
  next
    case False
    then have y: "hget (titles reg) x = Some y" using other x by simp
    show ?thesis using I(4) [OF y] nodeed [OF y] by (auto simp: deed_ok_def)
  qed
  moreover have "hmap_ok ts" using I(1) by (auto simp: ts_def split: option.splits)
  ultimately show ?thesis using I(2) by (simp add: registry_ok_def r)
qed

definition funded_escrow :: "nat \<Rightarrow> escrow_account \<Rightarrow> escrow_account" where
  "funded_escrow f esc = esc\<lparr>e_funded := f, e_status := (if f \<ge> e_amount esc then Funded else e_status esc)\<rparr>"

lemma fund_escrow_Ok:
  assumes "fund_escrow signer eid amount (reg, accts) = Ok s"
  obtains esc acct where "hget (escrows reg) eid = Some esc" "active esc" "signer = e_buyer esc"
    "hget accts signer = Some acct" "amount \<le> balance acct"
    "s = (reg\<lparr>escrows := hput eid (funded_escrow (sat_add128 (e_funded esc) amount) esc) (escrows reg)\<rparr>,
          hput signer (acct\<lparr>balance := balance acct - amount\<rparr>) accts)"
proof -
  from assms obtain esc acct where e: "hget (escrows reg) eid = Some esc"
    and c: "signer = e_buyer esc" "e_status esc = Open \<or> e_status esc = Funded" "hget accts signer = Some acct"
      "\<not> balance acct < amount"
    by (auto simp: fund_escrow_def res_simps)
  have "fund_escrow signer eid amount (reg, accts) =
      Ok (reg\<lparr>escrows := hput eid (funded_escrow (sat_add128 (e_funded esc) amount) esc) (escrows reg)\<rparr>,
          hput signer (acct\<lparr>balance := balance acct - amount\<rparr>) accts)"
    using c unfolding fund_escrow_def Let_def funded_escrow_def by (simp add: e)
  with assms e c show thesis by (intro that) (auto simp: active_def)
qed

lemma fund_escrow_ok:
  assumes ok: "registry_ok reg" and op: "fund_escrow signer eid amount (reg, accts) = Ok (reg', accts')"
  shows "registry_ok reg'"
proof -
  note I = registry_okD [OF ok]
  obtain esc acct where e: "hget (escrows reg) eid = Some esc" "active esc"
    and s: "(reg', accts') = (reg\<lparr>escrows := hput eid (funded_escrow (sat_add128 (e_funded esc) amount) esc) (escrows reg)\<rparr>,
          hput signer (acct\<lparr>balance := balance acct - amount\<rparr>) accts)"
    using op by (rule fund_escrow_Ok)
  define f where "f = sat_add128 (e_funded esc) amount"
  have r: "reg' = reg\<lparr>escrows := hput eid (funded_escrow f esc) (escrows reg)\<rparr>" using s by (simp add: f_def)
  have old: "escrow_ok (titles reg) eid esc" using I(3) e by blast
  have "f \<le> u128_max" "e_funded esc \<le> f" using old by (auto simp: f_def sat_add128_def escrow_ok_def)
  with old e(2) have new: "escrow_ok (titles reg) eid (funded_escrow f esc)" "active (funded_escrow f esc)"
    "e_title_id (funded_escrow f esc) = e_title_id esc"
    by (auto simp: escrow_ok_def funded_escrow_def active_def)
  have "deed_ok (hput eid (funded_escrow f esc) (escrows reg)) x y" if "hget (titles reg) x = Some y" for x y
    using I(4) [OF that] e(1) new(2,3) by (auto simp: deed_ok_def)
  then show ?thesis using I(1,2,3) new(1) by (simp add: r registry_ok_def)
qed

text \<open>Closing an active escrow: the status becomes final, the balance of the escrow zero, the title is unlocked.\<close>

lemma close_escrow_ok:
  assumes ok: "registry_ok reg" and e: "hget (escrows reg) eid = Some esc" "active esc"
    and esc': "e_funded esc' = 0" "e_status esc' \<in> {Released, Refunded}" "e_amount esc' = e_amount esc"
    and ts: "hmap_ok ts" "\<And>tid. e_title_id esc \<noteq> Some tid \<Longrightarrow> hget ts tid = hget (titles reg) tid"
      "\<And>tid deed. e_title_id esc = Some tid \<Longrightarrow> hget ts tid = Some deed \<Longrightarrow> d_escrow_id deed = None"
  shows "registry_ok (reg\<lparr>escrows := hput eid esc' (escrows reg), titles := ts\<rparr>)"
proof -
  note I = registry_okD [OF ok]
  have am: "0 < e_amount esc" using I(3) [OF e(1)] by (simp add: escrow_ok_def)
  have "escrow_ok ts x y" if x: "hget (hput eid esc' (escrows reg)) x = Some y" for x y
  proof (cases "x = eid")
    case True
    then show ?thesis using x esc' am by (auto simp: escrow_ok_def active_def)
  next
    case False
    then have y: "hget (escrows reg) x = Some y" using x by simp
    have "hget ts tid = hget (titles reg) tid" if "active y" "e_title_id y = Some tid" for tid
      using ts(2) one_escrow_per_title [OF ok e] y that False by metis
    then show ?thesis using I(3) [OF y] by (auto simp: escrow_ok_def)
  qed
  moreover have "deed_ok (hput eid esc' (escrows reg)) t y" if t: "hget ts t = Some y" for t y
  proof (cases "e_title_id esc = Some t")
    case True
    then show ?thesis using ts(3) t by (simp add: deed_ok_def)
  next
    case False
    then have "deed_ok (escrows reg) t y" using ts(2) t I(4) by simp
    then show ?thesis using False e(1) by (fastforce simp: deed_ok_def)
  qed
  ultimately show ?thesis using I(2) ts(1) by (simp add: registry_ok_def)
qed

lemma release_escrow_ok:
  assumes ok: "registry_ok reg" and op: "release_escrow signer eid b sid (reg, accts) = Ok (reg', accts')"
  shows "registry_ok reg'"
proof -
  from op obtain esc where e: "hget (escrows reg) eid = Some esc" "active esc"
    by (auto simp: release_escrow_def res_simps active_def)
  define ts where "ts = (case e_title_id esc of None \<Rightarrow> titles reg
     | Some tid \<Rightarrow> (case hget (titles reg) tid of None \<Rightarrow> titles reg
       | Some deed \<Rightarrow> hput tid (deed\<lparr>d_escrow_id := None, current_owner := e_buyer esc,
             history := history deed @ [title_event_at b sid ''escrow_released'' (Some (current_owner deed)) (e_buyer esc)
               ''title cleared through escrow'']\<rparr>) (titles reg)))"
  have r: "reg' = reg\<lparr>escrows := hput eid (esc\<lparr>e_funded := 0, e_status := Released\<rparr>) (escrows reg), titles := ts\<rparr>"
    using op e by (auto simp: release_escrow_def res_simps ts_def)
  show ?thesis unfolding r
    by (rule close_escrow_ok [OF ok e]) (use registry_okD(1) [OF ok] in \<open>auto simp: ts_def split: option.splits if_splits\<close>)
qed

lemma refund_of_ok:
  assumes ok: "registry_ok reg" and e: "hget (escrows reg) eid = Some esc" "active esc"
    and r: "refund_of eid esc (reg, accts) = (reg', accts')"
  shows "registry_ok reg'"
proof -
  have r: "reg' = reg\<lparr>escrows := hput eid (esc\<lparr>e_funded := 0, e_status := Refunded\<rparr>) (escrows reg),
      titles := unlock_title (e_title_id esc) (titles reg)\<rparr>"
    using r by (simp add: refund_of_def)
  show ?thesis unfolding r
    by (rule close_escrow_ok [OF ok e])
      (use registry_okD(1) [OF ok] in \<open>auto simp: unlock_title_def split: option.splits if_splits\<close>)
qed

lemma refund_escrow_Ok:
  assumes "refund_escrow signer eid (reg, accts) = Ok s"
  obtains esc where "hget (escrows reg) eid = Some esc" "active esc" "s = refund_of eid esc (reg, accts)"
    "e_status esc = Open \<and> signer = e_buyer esc \<or> e_status esc = Funded \<and> signer = e_seller esc"
proof -
  from assms obtain esc where e: "hget (escrows reg) eid = Some esc" "s = refund_of eid esc (reg, accts)"
    "case e_status esc of Open \<Rightarrow> signer = e_buyer esc | Funded \<Rightarrow> signer = e_seller esc | _ \<Rightarrow> False"
    by (auto simp: refund_escrow_def res_simps)
  show thesis by (rule that [OF e(1) _ e(2)]) (use e(3) in \<open>cases "e_status esc"; simp add: active_def\<close>)+
qed

lemma timeout_claim_Ok:
  assumes "timeout_claim_escrow signer eid blue (reg, accts) = Ok s"
  obtains esc where "hget (escrows reg) eid = Some esc" "active esc" "s = refund_of eid esc (reg, accts)"
    "e_status esc = Funded" "signer = e_buyer esc" "e_timeout_blue esc \<noteq> 0" "e_timeout_blue esc \<le> blue"
  using assms that by (auto simp: timeout_claim_escrow_def res_simps active_def)

lemma apply_body_ok:
  assumes ok: "registry_ok reg" and op: "apply_body E body signer b sid blue (reg, accts) = Ok (reg', accts')"
  shows "registry_ok reg'"
proof (cases body)
  case (RefundEscrow eid)
  with op obtain esc where "hget (escrows reg) eid = Some esc" "active esc" "refund_of eid esc (reg, accts) = (reg', accts')"
    by (auto simp: apply_body_def elim: refund_escrow_Ok)
  then show ?thesis using refund_of_ok [OF ok] by blast
next
  case (TimeoutClaimEscrow eid)
  with op obtain esc where "hget (escrows reg) eid = Some esc" "active esc" "refund_of eid esc (reg, accts) = (reg', accts')"
    by (auto simp: apply_body_def elim: timeout_claim_Ok)
  then show ?thesis using refund_of_ok [OF ok] by blast
qed (use ok op in \<open>auto simp: apply_body_def intro: issue_title_ok transfer_title_ok open_escrow_ok fund_escrow_ok release_escrow_ok\<close>)

section \<open>Value\<close>

abbreviation escrow_val :: "registry_state \<Rightarrow> nat" where "escrow_val reg \<equiv> hsum e_funded (escrows reg)"

lemma balance_le_val: "balance (hget_or default_account accts a) \<le> acct_val accts"
  by (auto simp: hget_or_def default_account_def intro: hsum_ge split: option.splits)

lemma acct_put_val:
  assumes "hmap_ok accts"
  shows "acct_val (hput a acct accts) + balance (hget_or default_account accts a) = acct_val accts + balance acct"
  using hsum_hput [OF assms, of balance a acct] by (simp add: hget_or_def default_account_def split: option.splits)

lemma credit_saturating_val:
  assumes "hmap_ok accts"
  shows "hmap_ok (credit_saturating a v accts)" "acct_val (credit_saturating a v accts) \<le> acct_val accts + v"
    "acct_val accts + v \<le> u128_max \<Longrightarrow> acct_val (credit_saturating a v accts) = acct_val accts + v"
proof -
  define acct where "acct = hget_or default_account accts a"
  have c: "credit_saturating a v accts = hput a (acct\<lparr>balance := sat_add128 (balance acct) v\<rparr>) accts"
    by (simp add: credit_saturating_def acct_def Let_def)
  have v: "acct_val (credit_saturating a v accts) + balance acct = acct_val accts + sat_add128 (balance acct) v"
    using acct_put_val [OF assms, of a "acct\<lparr>balance := sat_add128 (balance acct) v\<rparr>"] by (simp add: c acct_def)
  have le: "balance acct \<le> acct_val accts" using balance_le_val by (simp add: acct_def)
  show "hmap_ok (credit_saturating a v accts)" using assms by (simp add: c)
  have "sat_add128 (balance acct) v \<le> balance acct + v" unfolding sat_add128_def by (rule min.cobounded1)
  then show "acct_val (credit_saturating a v accts) \<le> acct_val accts + v" using v by linarith
  assume "acct_val accts + v \<le> u128_max"
  then have "balance acct + v \<le> u128_max" using le by linarith
  then have "sat_add128 (balance acct) v = balance acct + v" unfolding sat_add128_def by (rule min_absorb1)
  then show "acct_val (credit_saturating a v accts) = acct_val accts + v" using v by linarith
qed

definition value_step :: "reg_accts \<Rightarrow> reg_accts \<Rightarrow> bool" where
  \<comment> \<open>value moves between balances and escrows; none appears, and none is lost unless a balance saturates\<close>
  "value_step = (\<lambda>(reg, accts) (reg', accts').
     hmap_ok accts' \<and> escrow_val reg' + acct_val accts' \<le> escrow_val reg + acct_val accts \<and>
     (escrow_val reg + acct_val accts \<le> u128_max \<longrightarrow>
        escrow_val reg' + acct_val accts' = escrow_val reg + acct_val accts))"

lemma close_value_step:
  assumes "registry_ok reg" and "hmap_ok accts" and e: "hget (escrows reg) eid = Some esc"
    and r: "escrows reg' = hput eid esc' (escrows reg)" "e_funded esc' = 0"
    and a: "accts' = credit_saturating x (e_funded esc) accts \<or> accts' = accts \<and> e_funded esc = 0"
  shows "value_step (reg, accts) (reg', accts')"
proof -
  have "escrow_val reg' + e_funded esc = escrow_val reg"
    using hsum_hput_old [OF e registry_okD(2) [OF assms(1)], of e_funded esc'] r by simp
  then show ?thesis
    using a credit_saturating_val [OF assms(2), where a = x and v = "e_funded esc"] assms(2) unfolding value_step_def prod.case
    by (elim disjE) auto
qed

lemma refund_value_step:
  assumes "registry_ok reg" and "hmap_ok accts" and "hget (escrows reg) eid = Some esc"
  shows "value_step (reg, accts) (refund_of eid esc (reg, accts))"
  unfolding refund_of_def prod.case
  by (rule close_value_step [OF assms, where x = "e_buyer esc"]) auto

lemma fund_value_step:
  assumes ok: "registry_ok reg" and acc: "hmap_ok accts" and op: "fund_escrow signer eid amount (reg, accts) = Ok s"
  shows "value_step (reg, accts) s"
proof -
  obtain esc acct where e: "hget (escrows reg) eid = Some esc" "hget accts signer = Some acct" "amount \<le> balance acct"
    and s: "s = (reg\<lparr>escrows := hput eid (funded_escrow (sat_add128 (e_funded esc) amount) esc) (escrows reg)\<rparr>,
          hput signer (acct\<lparr>balance := balance acct - amount\<rparr>) accts)"
    using op by (rule fund_escrow_Ok)
  define f where "f = sat_add128 (e_funded esc) amount"
  have a: "acct_val (hput signer (acct\<lparr>balance := balance acct - amount\<rparr>) accts) + amount = acct_val accts"
    using hsum_hput_old [OF e(2) acc, of balance "acct\<lparr>balance := balance acct - amount\<rparr>"] e(3) by simp
  have v: "escrow_val (reg\<lparr>escrows := hput eid (funded_escrow f esc) (escrows reg)\<rparr>) + e_funded esc = escrow_val reg + f"
    using hsum_hput_old [OF e(1) registry_okD(2) [OF ok], of e_funded "funded_escrow f esc"] by (simp add: funded_escrow_def)
  have le: "f \<le> e_funded esc + amount" unfolding f_def sat_add128_def by (rule min.cobounded1)
  have eq: "f = e_funded esc + amount" if "escrow_val reg + acct_val accts \<le> u128_max"
  proof -
    have "e_funded esc \<le> escrow_val reg" using hsum_ge [OF e(1)] by simp
    then have "e_funded esc + amount \<le> u128_max" using that a by linarith
    then show ?thesis unfolding f_def sat_add128_def by (rule min_absorb1)
  qed
  show ?thesis
    unfolding s value_step_def prod.case f_def [symmetric]
  proof (intro conjI impI)
    assume "escrow_val reg + acct_val accts \<le> u128_max"
    from eq [OF this] show "escrow_val (reg\<lparr>escrows := hput eid (funded_escrow f esc) (escrows reg)\<rparr>)
        + acct_val (hput signer (acct\<lparr>balance := balance acct - amount\<rparr>) accts) = escrow_val reg + acct_val accts"
      using a v by linarith
  qed (use a v acc le in auto)
qed

lemma apply_body_value_step:
  assumes ok: "registry_ok reg" and acc: "hmap_ok accts" and op: "apply_body E body signer b sid blue (reg, accts) = Ok s"
  shows "value_step (reg, accts) s"
proof (cases body)
  case (IssueTitle owner cls desc seed)
  then show ?thesis using op acc by (auto simp: apply_body_def issue_title_def Let_def res_simps value_step_def)
next
  case (TransferTitle tid to memo)
  then show ?thesis using op acc by (auto simp: apply_body_def transfer_title_def res_simps value_step_def)
next
  case (OpenEscrow buyer seller arb amount title memo seed tmo)
  then show ?thesis
    using op acc hsum_hput_new [OF _ registry_okD(2) [OF ok], of _ e_funded]
    by (auto simp: apply_body_def open_escrow_def Let_def res_simps value_step_def hhas_def)
next
  case (FundEscrow eid amount)
  then show ?thesis using fund_value_step [OF ok acc] op by (simp add: apply_body_def)
next
  case (ReleaseEscrow eid)
  with op obtain esc where e: "hget (escrows reg) eid = Some esc"
    and s: "escrows (fst s) = hput eid (esc\<lparr>e_funded := 0, e_status := Released\<rparr>) (escrows reg)"
      "snd s = credit_saturating (e_seller esc) (e_funded esc) accts"
    by (auto simp: apply_body_def release_escrow_def res_simps)
  show ?thesis using close_value_step [OF ok acc e s(1), of "snd s" "e_seller esc"] s(2) by (cases s) simp
next
  case (RefundEscrow eid)
  then show ?thesis using op refund_value_step [OF ok acc] by (auto simp: apply_body_def elim: refund_escrow_Ok)
next
  case (TimeoutClaimEscrow eid)
  then show ?thesis using op refund_value_step [OF ok acc] by (auto simp: apply_body_def elim: timeout_claim_Ok)
qed

lemma apply_body_hmap:
  "apply_body E body signer b sid blue (reg, accts) = Ok (reg', accts') \<Longrightarrow> hmap_ok accts \<Longrightarrow> hmap_ok accts'"
  by (cases body)
    (auto simp: apply_body_def issue_title_def transfer_title_def open_escrow_def release_escrow_def refund_of_def
      credit_saturating_def Let_def res_simps split: if_splits elim!: fund_escrow_Ok refund_escrow_Ok timeout_claim_Ok)

text \<open>
  How a call to \<open>apply_op\<close> ends: the nonce step alone, or the nonce step and the body. Neither changes
  a balance before the body runs.
\<close>

lemma apply_op_cases:
  assumes ap: "apply_op E op b sid blue (reg, accts) = ((reg', accts'), r)" and acc: "hmap_ok accts"
  obtains (refused) e where "reg' = reg" "hmap_ok accts'" "acct_val accts' = acct_val accts" "r = Err e"
  | (applied) accts1 where "registry_verify E op" "r = Ok ()" "hmap_ok accts1" "acct_val accts1 = acct_val accts"
      "\<forall>a. balance (hget_or default_account accts1 a) = balance (hget_or default_account accts a)"
      "r_nonce op = a_nonce (hget_or default_account accts (signer_address E op))"
      "apply_body E (r_body op) (signer_address E op) b sid blue (reg, accts1) = Ok (reg', accts')"
proof -
  define acct where "acct = hget_or default_account accts (signer_address E op)"
  define accts1 where "accts1 = hput (signer_address E op) (acct\<lparr>a_nonce := sat_add64 (a_nonce acct) 1\<rparr>) accts"
  have touch: "acct_val (hput (signer_address E op) acct accts) = acct_val accts"
    unfolding acct_def by (rule acct_touch [OF acc])
  have v1: "acct_val accts1 = acct_val accts" "hmap_ok accts1"
    using acct_put_val [OF acc, of "signer_address E op" "acct\<lparr>a_nonce := sat_add64 (a_nonce acct) 1\<rparr>"] acc
    by (auto simp: accts1_def acct_def)
  have b1: "\<forall>a. balance (hget_or default_account accts1 a) = balance (hget_or default_account accts a)"
    by (simp add: accts1_def acct_def)
  show thesis
  proof (cases "registry_verify E op \<and> r_nonce op = a_nonce acct")
    case False
    then show thesis using ap touch acc
      by (auto simp: apply_op_def Let_def acct_def split: if_splits intro: refused)
  next
    case True
    then have e: "(case apply_body E (r_body op) (signer_address E op) b sid blue (reg, accts1) of
        Inl e \<Rightarrow> ((reg, accts1), Inl e) | Inr s \<Rightarrow> (s, Inr ())) = ((reg', accts'), r)"
      using ap unfolding apply_op_def Let_def accts1_def acct_def by simp
    show thesis
    proof (cases "apply_body E (r_body op) (signer_address E op) b sid blue (reg, accts1)")
      case (Inl x)
      then show thesis using e v1 by (intro refused) auto
    next
      case (Inr s)
      then show thesis using e v1 b1 True by (intro applied [of accts1]) (auto simp: acct_def)
    qed
  qed
qed

lemma apply_op_ok:
  assumes "apply_op E op b sid blue (reg, accts) = ((reg', accts'), r)" and ok: "registry_ok reg" and "hmap_ok accts"
  shows "registry_ok reg' \<and> value_step (reg, accts) (reg', accts')"
  using assms(1,3)
proof (cases rule: apply_op_cases)
  case refused
  then show ?thesis using ok by (simp add: value_step_def)
next
  case (applied accts1)
  then show ?thesis
    using apply_body_ok [OF ok applied(7)] apply_body_value_step [OF ok applied(3,7)] by (simp add: value_step_def)
qed

section \<open>The escrow life cycle\<close>

text \<open>
  The abstract life cycle of one escrow, with who may take which step. Nothing leads out of
  \<open>Released\<close> and \<open>Refunded\<close>, nothing leads into \<open>Disputed\<close>, and no step changes the parties, the price or
  the title.
\<close>

inductive escrow_step :: "address \<Rightarrow> nat \<Rightarrow> escrow_account \<Rightarrow> escrow_account \<Rightarrow> bool" for signer blue where
  fund: "signer = e_buyer e \<Longrightarrow> active e \<Longrightarrow> f = sat_add128 (e_funded e) amount \<Longrightarrow>
    escrow_step signer blue e (funded_escrow f e)"
| release: "signer = e_buyer e \<Longrightarrow> e_status e = Funded \<Longrightarrow>
    escrow_step signer blue e (e\<lparr>e_funded := 0, e_status := Released\<rparr>)"
| cancel: "signer = e_buyer e \<Longrightarrow> e_status e = Open \<Longrightarrow>
    escrow_step signer blue e (e\<lparr>e_funded := 0, e_status := Refunded\<rparr>)"
| refund: "signer = e_seller e \<Longrightarrow> e_status e = Funded \<Longrightarrow>
    escrow_step signer blue e (e\<lparr>e_funded := 0, e_status := Refunded\<rparr>)"
| timeout: "signer = e_buyer e \<Longrightarrow> e_status e = Funded \<Longrightarrow> e_timeout_blue e \<noteq> 0 \<Longrightarrow> e_timeout_blue e \<le> blue \<Longrightarrow>
    escrow_step signer blue e (e\<lparr>e_funded := 0, e_status := Refunded\<rparr>)"

inductive_cases escrow_stepE: "escrow_step signer blue e e'"

lemma escrow_step_active: "escrow_step signer blue e e' \<Longrightarrow> active e \<and> e_buyer e' = e_buyer e
  \<and> e_seller e' = e_seller e \<and> e_amount e' = e_amount e \<and> e_title_id e' = e_title_id e"
  by (auto elim!: escrow_stepE simp: active_def funded_escrow_def)

definition escrow_change ::
  "env \<Rightarrow> registry_op \<Rightarrow> nat \<Rightarrow> escrow_account option \<Rightarrow> escrow_account option \<Rightarrow> bool" where
  \<comment> \<open>what an operation may do to one entry of the escrow table\<close>
  "escrow_change E op blue x x' \<longleftrightarrow> x' = x
     \<or> (x = None \<and> (\<exists>e. x' = Some e \<and> e_status e = Open \<and> e_funded e = 0))
     \<or> (\<exists>e e'. x = Some e \<and> x' = Some e' \<and> registry_verify E op \<and> escrow_step (signer_address E op) blue e e')"

lemma escrow_change_put:
  assumes "hget (escrows reg) eid = Some e" and "registry_verify E op" and "escrow_step (signer_address E op) blue e e'"
    and "escrows reg' = hput eid e' (escrows reg)"
  shows "escrow_change E op blue (hget (escrows reg) x) (hget (escrows reg') x)"
  using assms by (auto simp: escrow_change_def)

lemma refund_of_escrows:
  "(reg', accts') = refund_of eid esc (reg, accts) \<Longrightarrow>
   escrows reg' = hput eid (esc\<lparr>e_funded := 0, e_status := Refunded\<rparr>) (escrows reg)"
  by (simp add: refund_of_def)

lemma apply_body_escrow_change:
  assumes op: "apply_body E (r_body op) (signer_address E op) b sid blue (reg, accts) = Ok (reg', accts')"
    and v: "registry_verify E op"
  shows "escrow_change E op blue (hget (escrows reg) x) (hget (escrows reg') x)"
proof (cases "r_body op")
  case (IssueTitle owner cls desc seed)
  then show ?thesis using op by (auto simp: apply_body_def issue_title_def Let_def res_simps escrow_change_def)
next
  case (TransferTitle tid to memo)
  then show ?thesis using op by (auto simp: apply_body_def transfer_title_def res_simps escrow_change_def)
next
  case (OpenEscrow buyer seller arb amount title memo seed tmo)
  with op obtain eid esc where "hget (escrows reg) eid = None" "escrows reg' = hput eid esc (escrows reg)"
    "e_status esc = Open" "e_funded esc = 0"
    by (fastforce simp: apply_body_def open_escrow_def Let_def res_simps hhas_def)
  then show ?thesis by (auto simp: escrow_change_def)
next
  case (FundEscrow eid amount)
  then have "fund_escrow (signer_address E op) eid amount (reg, accts) = Ok (reg', accts')" using op by (simp add: apply_body_def)
  then obtain esc acct where "hget (escrows reg) eid = Some esc" "active esc" "signer_address E op = e_buyer esc"
    and s: "(reg', accts') = (reg\<lparr>escrows := hput eid (funded_escrow (sat_add128 (e_funded esc) amount) esc) (escrows reg)\<rparr>,
          hput (signer_address E op) (acct\<lparr>balance := balance acct - amount\<rparr>) accts)"
    by (rule fund_escrow_Ok)
  then show ?thesis using v escrow_step.fund by (intro escrow_change_put) auto
next
  case (ReleaseEscrow eid)
  with op obtain esc where e: "hget (escrows reg) eid = Some esc" "signer_address E op = e_buyer esc" "e_status esc = Funded"
    "escrows reg' = hput eid (esc\<lparr>e_funded := 0, e_status := Released\<rparr>) (escrows reg)"
    by (auto simp: apply_body_def release_escrow_def res_simps)
  then show ?thesis using v escrow_step.release by (intro escrow_change_put) auto
next
  case (RefundEscrow eid)
  with op have "refund_escrow (signer_address E op) eid (reg, accts) = Ok (reg', accts')" by (simp add: apply_body_def)
  then obtain esc where "hget (escrows reg) eid = Some esc" "(reg', accts') = refund_of eid esc (reg, accts)"
    "e_status esc = Open \<and> signer_address E op = e_buyer esc \<or> e_status esc = Funded \<and> signer_address E op = e_seller esc"
    by (rule refund_escrow_Ok)
  then show ?thesis using v refund_of_escrows escrow_step.cancel escrow_step.refund by (intro escrow_change_put) auto
next
  case (TimeoutClaimEscrow eid)
  with op have "timeout_claim_escrow (signer_address E op) eid blue (reg, accts) = Ok (reg', accts')" by (simp add: apply_body_def)
  then obtain esc where "hget (escrows reg) eid = Some esc" "(reg', accts') = refund_of eid esc (reg, accts)"
    "e_status esc = Funded" "signer_address E op = e_buyer esc" "e_timeout_blue esc \<noteq> 0" "e_timeout_blue esc \<le> blue"
    by (rule timeout_claim_Ok)
  then show ?thesis using v refund_of_escrows escrow_step.timeout by (intro escrow_change_put) auto
qed

lemma apply_op_escrow_change:
  assumes "apply_op E op b sid blue (reg, accts) = ((reg', accts'), r)" and "hmap_ok accts"
  shows "escrow_change E op blue (hget (escrows reg) x) (hget (escrows reg') x)"
  using assms
proof (cases rule: apply_op_cases)
  case (applied accts1)
  then show ?thesis using apply_body_escrow_change by blast
qed (simp add: escrow_change_def)

section \<open>Titles\<close>

definition title_change :: "env \<Rightarrow> registry_op \<Rightarrow> reg_accts \<Rightarrow> hash \<Rightarrow> title_deed \<Rightarrow> title_deed \<Rightarrow> bool" where
  \<comment> \<open>how the owner of a title may change\<close>
  "title_change E op = (\<lambda>(reg, accts) tid deed deed'.
     current_owner deed' = current_owner deed
     \<or> (\<exists>to memo. r_body op = TransferTitle tid to memo \<and> signer_address E op = current_owner deed
          \<and> d_escrow_id deed = None \<and> current_owner deed' = to)
     \<or> (\<exists>eid esc. r_body op = ReleaseEscrow eid \<and> hget (escrows reg) eid = Some esc \<and> e_title_id esc = Some tid
          \<and> e_status esc = Funded \<and> e_amount esc \<le> e_funded esc \<and> e_seller esc = current_owner deed
          \<and> signer_address E op = e_buyer esc \<and> current_owner deed' = e_buyer esc))"

lemma unlock_title_get:
  "hget (unlock_title title ts) tid = map_option (\<lambda>d. if title = Some tid then d\<lparr>d_escrow_id := None\<rparr> else d) (hget ts tid)"
  by (cases "hget ts tid") (auto simp: unlock_title_def split: option.splits)

lemma release_titles:
  assumes ok: "registry_ok reg" and op: "release_escrow signer eid b sid (reg, accts) = Ok (reg', accts')"
    and d: "hget (titles reg) tid = Some deed"
  obtains "hget (titles reg') tid = Some deed"
  | esc where "hget (escrows reg) eid = Some esc" "e_title_id esc = Some tid" "e_status esc = Funded"
      "e_amount esc \<le> e_funded esc" "e_seller esc = current_owner deed" "signer = e_buyer esc"
      "hget (titles reg') tid = Some (deed\<lparr>d_escrow_id := None, current_owner := e_buyer esc,
         history := history deed @ [title_event_at b sid ''escrow_released'' (Some (current_owner deed)) (e_buyer esc)
           ''title cleared through escrow'']\<rparr>)"
proof -
  from op obtain esc where e: "hget (escrows reg) eid = Some esc" "e_status esc = Funded" "signer = e_buyer esc"
    by (auto simp: release_escrow_def res_simps)
  have fu: "e_amount esc \<le> e_funded esc" using registry_okD(3) [OF ok e(1)] e(2) by (simp add: escrow_ok_def)
  show thesis
  proof (cases "e_title_id esc = Some tid")
    case True
    have "active esc" using e(2) by (simp add: active_def)
    then obtain deed1 where "hget (titles reg) tid = Some deed1" "current_owner deed1 = e_seller esc"
      by (rule escrow_title [OF ok e(1) _ True])
    then have s: "e_seller esc = current_owner deed" using d by simp
    have "hget (titles reg') tid = Some (deed\<lparr>d_escrow_id := None, current_owner := e_buyer esc,
         history := history deed @ [title_event_at b sid ''escrow_released'' (Some (current_owner deed)) (e_buyer esc)
           ''title cleared through escrow'']\<rparr>)"
      using op d e True by (auto simp: release_escrow_def)
    then show thesis by (rule that(2) [OF e(1) True e(2) fu s e(3)])
  next
    case False
    then show thesis using that(1) op d e by (auto simp: release_escrow_def res_simps split: option.splits)
  qed
qed

lemma open_escrow_titles:
  assumes "open_escrow E signer buyer seller arb amount title memo seed tmo b (reg, accts) = Ok (reg', accts')"
    and "hget (titles reg) tid = Some deed"
  shows "\<exists>x. hget (titles reg') tid = Some (deed\<lparr>d_escrow_id := x\<rparr>)"
proof -
  define x where "x = (if title = Some tid then Some (derive_escrow_id E signer seed) else d_escrow_id deed)"
  have "hget (titles reg') tid = Some (deed\<lparr>d_escrow_id := x\<rparr>)"
    using assms by (cases title) (auto simp: open_escrow_def Let_def res_simps x_def)
  then show ?thesis ..
qed

lemma apply_body_titles:
  assumes ok: "registry_ok reg" and op: "apply_body E (r_body op) (signer_address E op) b sid blue (reg, accts) = Ok (reg', accts')"
    and d: "hget (titles reg) tid = Some deed"
  shows "\<exists>deed' evs. hget (titles reg') tid = Some deed' \<and> history deed' = history deed @ evs
    \<and> title_change E op (reg, accts) tid deed deed'"
proof (cases "r_body op")
  case (IssueTitle owner cls desc seed)
  then show ?thesis using op d by (auto simp: apply_body_def issue_title_def Let_def res_simps hhas_def title_change_def)
next
  case (TransferTitle t to memo)
  then show ?thesis using op d by (auto simp: apply_body_def transfer_title_def res_simps title_change_def)
next
  case (OpenEscrow buyer seller arb amount title memo seed tmo)
  then have "open_escrow E (signer_address E op) buyer seller arb amount title memo seed tmo b (reg, accts) = Ok (reg', accts')"
    using op by (simp add: apply_body_def)
  from open_escrow_titles [OF this d] show ?thesis by (auto simp: title_change_def)
next
  case (FundEscrow eid amount)
  then show ?thesis using op d by (auto simp: apply_body_def title_change_def elim!: fund_escrow_Ok)
next
  case (ReleaseEscrow eid)
  then have r: "release_escrow (signer_address E op) eid b sid (reg, accts) = Ok (reg', accts')" using op by (simp add: apply_body_def)
  from ok r d show ?thesis
    by (cases rule: release_titles) (use ReleaseEscrow in \<open>auto simp: title_change_def\<close>)
next
  case (RefundEscrow eid)
  then show ?thesis using op d
    by (auto simp: apply_body_def title_change_def refund_of_def unlock_title_get elim!: refund_escrow_Ok)
next
  case (TimeoutClaimEscrow eid)
  then show ?thesis using op d
    by (auto simp: apply_body_def title_change_def refund_of_def unlock_title_get elim!: timeout_claim_Ok)
qed

section \<open>Properties\<close>

definition registry_run :: "env \<Rightarrow> (registry_op \<times> block \<times> string \<times> nat) list \<Rightarrow> reg_accts \<Rightarrow> reg_accts" where
  \<comment> \<open>a history of operations, each with its block, settlement id and blue score; failed ones are skipped\<close>
  "registry_run E ops s = fold (\<lambda>(op, b, sid, blue) s. fst (apply_op E op b sid blue s)) ops s"

lemma registry_run_invariant:
  assumes "I s" and "\<And>op b sid blue s. I s \<Longrightarrow> I (fst (apply_op E op b sid blue s))"
  shows "I (registry_run E ops s)"
  using assms(1) unfolding registry_run_def
proof (induction ops arbitrary: s)
  case (Cons x ops)
  obtain op b sid blue where "x = (op, b, sid, blue)" by (metis surj_pair)
  then show ?case using Cons.IH assms(2) [OF Cons.prems] by simp
qed simp

definition demo_escrow :: escrow_account where
  "demo_escrow = \<lparr>e_escrow_id = 5, e_buyer = encode_hash 7, e_seller = ''seller'', e_arbiter = None, e_amount = 10,
     e_funded = 10, e_status = Funded, e_title_id = Some 6, opened_at = 0, e_memo = [], e_timeout_blue = 3\<rparr>"

definition demo_deed :: title_deed where
  "demo_deed = \<lparr>d_title_id = 6, d_asset_class = Vehicle, d_description = [], current_owner = ''seller'', issued_at = 0,
     history = [], d_escrow_id = Some 5, lienholder = None\<rparr>"

definition demo_registry :: registry_state where
  "demo_registry = \<lparr>titles = [(6, demo_deed)], escrows = [(5, demo_escrow)]\<rparr>"

definition demo_op :: "registry_body \<Rightarrow> nat \<Rightarrow> registry_op" where
  "demo_op body n = \<lparr>r_from_pubkey = [1], r_body = body, r_nonce = n, r_chain_id = CHAIN_ID, r_signature = [1]\<rparr>"

lemma demo_registry_ok: "registry_ok demo_registry"
  by (simp add: registry_ok_def demo_registry_def demo_escrow_def demo_deed_def hmap_ok_def escrow_ok_def deed_ok_def active_def)

lemma demo_op_signer [simp]: "signer_address demo_env (demo_op body n) = encode_hash 7"
  by (simp add: signer_address_def demo_op_def hash_to_address_def encode_address_def address_hash_def digest512_def demo_env_def)

lemma demo_op_verifies [simp]: "registry_verify demo_env (demo_op body n)"
  by (simp add: registry_verify_def verify_pq512_def verify_signature_def demo_op_def demo_env_def)

lemma demo_op_fields [simp]: "r_body (demo_op body n) = body" "r_nonce (demo_op body n) = n"
  by (simp_all add: demo_op_def)

lemma demo_release:
  "\<exists>accts'. apply_op demo_env (demo_op (ReleaseEscrow 5) 0) b sid blue (demo_registry, []) =
     ((\<lparr>titles = [(6, demo_deed\<lparr>d_escrow_id := None, current_owner := encode_hash 7,
           history := [title_event_at b sid ''escrow_released'' (Some ''seller'') (encode_hash 7) ''title cleared through escrow'']\<rparr>)],
        escrows = [(5, demo_escrow\<lparr>e_funded := 0, e_status := Released\<rparr>)]\<rparr>, accts'), Ok ())"
  by (simp add: apply_op_def Let_def apply_body_def release_escrow_def demo_registry_def demo_escrow_def demo_deed_def
      hget_or_def default_account_def)

text \<open>
  Titles and escrows stay consistent through every history of operations, failed ones included: a
  title is locked by an escrow exactly while that escrow is open or funded and still names the title,
  whose owner is the seller; a funded escrow holds at least its price, a closed one holds nothing, and
  no escrow is ever \<open>Disputed\<close>.
\<close>

theorem registry_invariant:
  assumes "registry_ok reg" and "hmap_ok accts" and "registry_run E ops (reg, accts) = (reg', accts')"
  shows "registry_ok reg' \<and> hmap_ok accts'"
proof -
  define I where "I = (\<lambda>s :: reg_accts. registry_ok (fst s) \<and> hmap_ok (snd s))"
  have "I (fst (apply_op E op b sid blue s))" if "I s" for op b sid blue s
    using that apply_op_ok [of E op b sid blue "fst s" "snd s"]
    by (cases "apply_op E op b sid blue s") (auto simp: value_step_def I_def)
  moreover have "I (reg, accts)" using assms(1,2) by (simp add: I_def)
  ultimately have "I (registry_run E ops (reg, accts))" by (rule registry_run_invariant [rotated])
  then show ?thesis using assms(3) by (simp add: I_def)
qed

theorem registry_invariant_witness:
  "\<exists>reg' accts'. registry_run demo_env [(demo_op (ReleaseEscrow 5) 0, (demo_block []), [], 9)] (demo_registry, []) = (reg', accts')
     \<and> registry_ok reg' \<and> hmap_ok accts'"
proof -
  obtain reg' accts' where r:
    "registry_run demo_env [(demo_op (ReleaseEscrow 5) 0, (demo_block []), [], 9)] (demo_registry, []) = (reg', accts')"
    by (metis surj_pair)
  from registry_invariant [OF demo_registry_ok hmap_ok_Nil r] r show ?thesis by blast
qed

text \<open>
  C27. Escrow conserves value: a history of operations moves value between balances and escrows and
  neither creates nor destroys any, as long as the total fits in 128 bits.
\<close>

theorem escrow_conserves_value:
  assumes "registry_ok reg" and "hmap_ok accts" and "registry_run E ops (reg, accts) = (reg', accts')"
    and fits: "hsum e_funded (escrows reg) + hsum balance accts \<le> u128_max"
  shows "hsum e_funded (escrows reg') + hsum balance accts' = hsum e_funded (escrows reg) + hsum balance accts"
proof -
  define I where "I = (\<lambda>s :: reg_accts. registry_ok (fst s) \<and> hmap_ok (snd s)
    \<and> escrow_val (fst s) + acct_val (snd s) = escrow_val reg + acct_val accts)"
  have "I (fst (apply_op E op b sid blue s))" if "I s" for op b sid blue s
    using that fits apply_op_ok [of E op b sid blue "fst s" "snd s"]
    by (cases "apply_op E op b sid blue s") (auto simp: value_step_def I_def)
  moreover have "I (reg, accts)" using assms(1,2) by (simp add: I_def)
  ultimately have "I (registry_run E ops (reg, accts))" by (rule registry_run_invariant [rotated])
  then show ?thesis using assms(3) by (simp add: I_def)
qed

theorem escrow_conserves_value_witness:
  "case registry_run demo_env [(demo_op (ReleaseEscrow 5) 0, (demo_block []), [], 9)] (demo_registry, []) of
     (reg', accts') \<Rightarrow> hsum e_funded (escrows reg') + hsum balance accts' = 10"
proof -
  obtain reg' accts' where r:
    "registry_run demo_env [(demo_op (ReleaseEscrow 5) 0, (demo_block []), [], 9)] (demo_registry, []) = (reg', accts')"
    by (metis surj_pair)
  have "hsum e_funded (escrows demo_registry) + hsum balance [] \<le> u128_max" "hsum e_funded (escrows demo_registry) = 10"
    by (simp_all add: demo_registry_def demo_escrow_def)
  with escrow_conserves_value [OF demo_registry_ok hmap_ok_Nil r] r show ?thesis by simp
qed

text \<open>
  C28. Each escrow follows its life cycle: an operation leaves an entry of the escrow table alone, opens a
  new one with nothing in it, or takes one step of \<open>escrow_step\<close>, signed by the party that step demands
  (the buyer funds, releases, cancels while open and claims after the timeout; the seller refunds).
\<close>

theorem escrow_lifecycle:
  assumes "apply_op E op b sid blue (reg, accts) = ((reg', accts'), r)" and "hmap_ok accts"
  shows "hget (escrows reg') eid = hget (escrows reg) eid
    \<or> (hget (escrows reg) eid = None \<and> (\<exists>e. hget (escrows reg') eid = Some e \<and> e_status e = Open \<and> e_funded e = 0))
    \<or> (\<exists>e e'. hget (escrows reg) eid = Some e \<and> hget (escrows reg') eid = Some e' \<and> registry_verify E op
         \<and> escrow_step (signer_address E op) blue e e')"
  using apply_op_escrow_change [OF assms, of eid] by (simp add: escrow_change_def)

theorem escrow_lifecycle_witness:
  "escrow_step (encode_hash 7) 9 demo_escrow (demo_escrow\<lparr>e_funded := 0, e_status := Released\<rparr>)"
proof -
  obtain accts' where a: "apply_op demo_env (demo_op (ReleaseEscrow 5) 0) (demo_block []) [] 9 (demo_registry, []) =
     ((\<lparr>titles = [(6, demo_deed\<lparr>d_escrow_id := None, current_owner := encode_hash 7,
           history := [title_event_at (demo_block []) [] ''escrow_released'' (Some ''seller'') (encode_hash 7) ''title cleared through escrow'']\<rparr>)],
        escrows = [(5, demo_escrow\<lparr>e_funded := 0, e_status := Released\<rparr>)]\<rparr>, accts'), Ok ())"
    using demo_release by blast
  from escrow_lifecycle [OF a, of 5] show ?thesis by (auto simp: demo_registry_def demo_escrow_def)
qed

text \<open>
  A closed escrow is closed for good: once released or refunded, its entry never changes again,
  whatever operations follow.
\<close>

theorem closed_escrow_final:
  assumes "hget (escrows reg) eid = Some esc" and "e_status esc = Released \<or> e_status esc = Refunded"
    and "hmap_ok accts" and "registry_run E ops (reg, accts) = (reg', accts')"
  shows "hget (escrows reg') eid = Some esc"
proof -
  define I where "I = (\<lambda>s :: reg_accts. hmap_ok (snd s) \<and> hget (escrows (fst s)) eid = Some esc)"
  have "I (fst (apply_op E op b sid blue s))" if s: "I s" for op b sid blue s
  proof -
    obtain r a r' a' res where e: "s = (r, a)" "apply_op E op b sid blue (r, a) = ((r', a'), res)" by (metis surj_pair)
    have acc: "hmap_ok a" using s e by (simp add: I_def)
    have "hmap_ok a'"
      using e(2) acc by (cases rule: apply_op_cases) (auto dest: apply_body_hmap)
    moreover have "\<not> active esc" using assms(2) by (auto simp: active_def)
    ultimately show ?thesis
      using apply_op_escrow_change [OF e(2) acc, of eid] s e(1) escrow_step_active by (auto simp: I_def e escrow_change_def)
  qed
  moreover have "I (reg, accts)" using assms by (simp add: I_def)
  ultimately have "I (registry_run E ops (reg, accts))" by (rule registry_run_invariant [rotated])
  then show ?thesis using assms(4) by (simp add: I_def)
qed

theorem closed_escrow_final_witness:
  "\<exists>reg' accts'. registry_run demo_env
       [(demo_op (FundEscrow 5 1) 0, demo_block [], [], 9), (demo_op (RefundEscrow 5) 1, demo_block [], [], 9)]
       (demo_registry\<lparr>escrows := [(5, demo_escrow\<lparr>e_funded := 0, e_status := Released\<rparr>)]\<rparr>, []) = (reg', accts')
     \<and> hget (escrows reg') 5 = Some (demo_escrow\<lparr>e_funded := 0, e_status := Released\<rparr>)"
proof -
  define closed where "closed = demo_escrow\<lparr>e_funded := 0, e_status := Released\<rparr>"
  obtain reg' accts' where r: "registry_run demo_env
       [(demo_op (FundEscrow 5 1) 0, demo_block [], [], 9), (demo_op (RefundEscrow 5) 1, demo_block [], [], 9)]
       (demo_registry\<lparr>escrows := [(5, closed)]\<rparr>, []) = (reg', accts')"
    by (metis surj_pair)
  have "hget (escrows reg') 5 = Some closed"
    by (rule closed_escrow_final [OF _ _ hmap_ok_Nil r]) (simp_all add: closed_def)
  with r show ?thesis unfolding closed_def by blast
qed

text \<open>
  C29. Chain of title: an operation never removes a title or rewrites its history, and changes its owner
  only by a transfer signed by the owner while no escrow locks the title, or by the release, signed by
  the buyer, of a fully funded escrow in which the owner is the seller.
\<close>

theorem title_provenance:
  assumes ok: "registry_ok reg" and acc: "hmap_ok accts"
    and ap: "apply_op E op b sid blue (reg, accts) = ((reg', accts'), r)" and d: "hget (titles reg) tid = Some deed"
  shows "\<exists>deed' evs. hget (titles reg') tid = Some deed' \<and> history deed' = history deed @ evs \<and>
    (current_owner deed' = current_owner deed
     \<or> registry_verify E op \<and> r = Ok () \<and>
       ((\<exists>to memo. r_body op = TransferTitle tid to memo \<and> signer_address E op = current_owner deed
          \<and> d_escrow_id deed = None \<and> current_owner deed' = to)
        \<or> (\<exists>eid esc. r_body op = ReleaseEscrow eid \<and> hget (escrows reg) eid = Some esc \<and> e_title_id esc = Some tid
          \<and> e_status esc = Funded \<and> e_amount esc \<le> e_funded esc \<and> e_seller esc = current_owner deed
          \<and> signer_address E op = e_buyer esc \<and> current_owner deed' = e_buyer esc)))"
  using ap acc
proof (cases rule: apply_op_cases)
  case (applied accts1)
  then show ?thesis using apply_body_titles [OF ok applied(7) d] by (fastforce simp: title_change_def)
qed (use d in auto)

theorem title_provenance_witness:
  "\<exists>reg' accts' deed'. apply_op demo_env (demo_op (ReleaseEscrow 5) 0) (demo_block []) [] 9 (demo_registry, []) = ((reg', accts'), Ok ())
     \<and> hget (titles reg') 6 = Some deed' \<and> history deed' \<noteq> []"
proof -
  have d: "hget (titles demo_registry) 6 = Some demo_deed" by (simp add: demo_registry_def)
  obtain reg' accts' where a: "apply_op demo_env (demo_op (ReleaseEscrow 5) 0) (demo_block []) [] 9 (demo_registry, []) = ((reg', accts'), Ok ())"
    "hget (titles reg') 6 = Some (demo_deed\<lparr>d_escrow_id := None, current_owner := encode_hash 7,
           history := [title_event_at (demo_block []) [] ''escrow_released'' (Some ''seller'') (encode_hash 7) ''title cleared through escrow'']\<rparr>)"
    using demo_release [of "demo_block []" "[]" 9] by auto
  from title_provenance [OF demo_registry_ok hmap_ok_Nil a(1) d] a show ?thesis by auto
qed

text \<open>
  C32. Money does not stay stuck: the buyer of a funded escrow with a timeout can, from that blue score
  on, always take the deposit back with one signed operation carrying the buyer's current nonce.
\<close>

theorem funded_escrow_recoverable:
  assumes ok: "registry_ok reg" and acc: "hmap_ok accts"
    and esc: "hget (escrows reg) eid = Some esc" "e_status esc = Funded" "e_timeout_blue esc \<noteq> 0" "e_timeout_blue esc \<le> blue"
    and op: "registry_verify E op" "r_body op = TimeoutClaimEscrow eid" "signer_address E op = e_buyer esc"
      "r_nonce op = a_nonce (hget_or default_account accts (e_buyer esc))"
    and fits: "hsum e_funded (escrows reg) + hsum balance accts \<le> u128_max"
  shows "\<exists>reg' accts'. apply_op E op b sid blue (reg, accts) = ((reg', accts'), Ok ())
    \<and> hget (escrows reg') eid = Some (esc\<lparr>e_funded := 0, e_status := Refunded\<rparr>)
    \<and> balance (hget_or default_account accts' (e_buyer esc)) = balance (hget_or default_account accts (e_buyer esc)) + e_funded esc
    \<and> 0 < e_funded esc"
proof -
  have pos: "0 < e_funded esc" using registry_okD(3) [OF ok esc(1)] esc(2) by (auto simp: escrow_ok_def)
  have "e_funded esc \<le> escrow_val reg" using hsum_ge [OF esc(1)] by simp
  then have "balance (hget_or default_account accts (e_buyer esc)) + e_funded esc \<le> u128_max"
    using fits balance_le_val [of accts "e_buyer esc"] by linarith
  then have "sat_add128 (balance (hget_or default_account accts (e_buyer esc))) (e_funded esc)
      = balance (hget_or default_account accts (e_buyer esc)) + e_funded esc"
    unfolding sat_add128_def by (rule min_absorb1)
  then show ?thesis
    using esc op pos by (simp add: apply_op_def Let_def apply_body_def timeout_claim_escrow_def refund_of_def credit_saturating_def)
qed

theorem funded_escrow_recoverable_witness:
  "\<exists>reg' accts'. apply_op demo_env (demo_op (TimeoutClaimEscrow 5) 0) (demo_block []) [] 9 (demo_registry, []) = ((reg', accts'), Ok ())
     \<and> balance (hget_or default_account accts' (encode_hash 7)) = 10"
  using funded_escrow_recoverable [OF demo_registry_ok hmap_ok_Nil, where eid = 5 and esc = demo_escrow and blue = 9
      and E = demo_env and op = "demo_op (TimeoutClaimEscrow 5) 0" and b = "demo_block []" and sid = "[]"]
  by (auto simp: demo_registry_def demo_escrow_def hget_or_def default_account_def)

section \<open>A title can be taken without its owner\<close>

text \<open>
  Opening an escrow asks that the seller own the title, but not that the seller sign: whoever has one
  unit of balance can open an escrow at price one on somebody else's title, fund it, release it, and be
  the owner.
\<close>

lemma title_taken_without_seller:
  assumes d: "hget (titles reg) tid = Some deed" "d_escrow_id deed = None"
    and fresh: "\<not> hhas (escrows reg) (derive_escrow_id E thief seed)"
    and acct: "hget accts thief = Some acct" "1 \<le> balance acct"
  shows "\<exists>s1 s2 s3 deed'. open_escrow E thief thief (current_owner deed) None 1 (Some tid) memo seed 0 b (reg, accts) = Ok s1
    \<and> fund_escrow thief (derive_escrow_id E thief seed) 1 s1 = Ok s2
    \<and> release_escrow thief (derive_escrow_id E thief seed) b sid s2 = Ok s3
    \<and> hget (titles (fst s3)) tid = Some deed' \<and> current_owner deed' = thief"
  using assms by (simp add: open_escrow_def fund_escrow_def release_escrow_def Let_def sat_add128_def)

end
