(* ===== verification/Block_Identity.thy ===== *)
theory Block_Identity
  imports Registry
begin

text \<open>
  The identity of a block and what is signed over it: the proof-of-work hash and the Settlement ID of
  \<open>src/issuance.rs\<close>, the birth certificate, the body commitment and the size rule of \<open>src/lib.rs\<close>, the
  account transfers \<open>TransparentTx\<close>, the dual signatures of \<open>src/dual_sig.rs\<close> and the custody certificates of
  \<open>src/custody.rs\<close>. A \<open>BirthCertificate\<close> is its signature bytes; a Settlement ID is a digest. The domain
  \<open>"hassan-dual-sig-v1"\<close> of SLH-DSA is part of the verifier parameter.
\<close>

section \<open>Block identity\<close>

definition GENESIS_DOMAIN :: string where "GENESIS_DOMAIN = ''hassan-genesis-v31''"
definition VERSIONBITS_TOP_BITS :: "32 word" where "VERSIONBITS_TOP_BITS = 0x20000000"

definition absorb_identity :: "block \<Rightarrow> bytes" where
  "absorb_identity b =
     str_bytes GENESIS_DOMAIN @ le_bytes 8 (height b) @ le_bytes 8 (timestamp b)
     @ concat (map hash_bytes (parents b))
     @ le_bytes 8 (length (interlinks b)) @ concat (map hash_bytes (interlinks b))
     @ hash_bytes (b_merkle_root b) @ hash_bytes (b_state_root b) @ hash_bytes (miner b)
     @ le_bytes 8 (length (creator_pubkey b)) @ creator_pubkey b
     @ le_bytes 8 (b_nonce b) @ le_bytes 8 (b_difficulty b) @ le_bytes 4 (unat (version b))"

definition block_hash :: "env \<Rightarrow> block \<Rightarrow> hash" where
  "block_hash E b = blake3_512 E (absorb_identity b)"

definition settlement_id :: "env \<Rightarrow> block \<Rightarrow> hash" where
  "settlement_id E b = blake3_512 E (str_bytes ''hassan-settlement-id-v1'' @ absorb_identity b)"

definition settlement_hex :: "env \<Rightarrow> block \<Rightarrow> string" where
  \<comment> \<open>\<open>block.settlement_id().to_hex()\<close>\<close>
  "settlement_hex E b = hex_encode E (hash_bytes (settlement_id E b))"

definition birth_verify :: "env \<Rightarrow> bytes \<Rightarrow> hash \<Rightarrow> bytes \<Rightarrow> bool" where
  "birth_verify E certificate sid issuer_pubkey =
     (if length issuer_pubkey \<noteq> pk_len E then False
      else verify_pq512 E ''birth-certificate'' (hash_bytes sid) issuer_pubkey certificate)"

definition verify_issuance :: "env \<Rightarrow> block \<Rightarrow> unit result" where
  "verify_issuance E b =
     (if parents b = [] then Ok ()
      else if length (creator_pubkey b) \<noteq> pk_len E then Err ''Missing or malformed issuer public key''
      else if miner b \<noteq> address_hash E (creator_pubkey b)
      then Err ''miner / reward address does not match issuer public key''
      else if \<not> birth_verify E (birth_certificate b) (settlement_id E b) (creator_pubkey b)
      then Err ''Invalid birth certificate''
      else Ok ())"

definition header_only :: "block \<Rightarrow> block" where
  "header_only b = b\<lparr>transparent_txs := [], utxo_txs := [], registry_ops := [], custody_ops := [],
     stark_proof := [], birth_certificate := [], b_size := 0\<rparr>"

definition base_size :: "env \<Rightarrow> block \<Rightarrow> nat" where
  "base_size E b = length (ser_block E (b\<lparr>stark_proof := [], birth_certificate := []\<rparr>))"

definition verify_size :: "env \<Rightarrow> block \<Rightarrow> bool" where
  "verify_size E b = (base_size E b \<le> MAX_BLOCK_SIZE)"

definition genesis_block :: block where
  "genesis_block = \<lparr>height = 0, timestamp = GENESIS_TIMESTAMP_MS, parents = [], interlinks = [],
     transparent_txs = [], utxo_txs = [], registry_ops = [], custody_ops = [],
     b_merkle_root = 0, b_state_root = 0, miner = 0, creator_pubkey = [], b_nonce = 0,
     b_difficulty = 1, version = VERSIONBITS_TOP_BITS, coinbase_entropy = 0, stark_proof = replicate 64 0,
     birth_certificate = [], b_size = 0\<rparr>"

section \<open>Account transfers\<close>

definition ACCOUNT_PEER_TRANSFERS :: bool where "ACCOUNT_PEER_TRANSFERS = False"

definition transparent_relay_bytes :: "env \<Rightarrow> transparent_tx \<Rightarrow> nat" where
  "transparent_relay_bytes E tx =
     length (ser_transparent_tx E (if length (t_signature tx) \<noteq> sig_len E
                                   then tx\<lparr>t_signature := replicate (sig_len E) 0\<rparr> else tx))"

definition transparent_min_fee_required :: "env \<Rightarrow> transparent_tx \<Rightarrow> nat" where
  "transparent_min_fee_required E tx = min_relay_fee_for_bytes (transparent_relay_bytes E tx)"

definition transparent_validate_form :: "env \<Rightarrow> transparent_tx \<Rightarrow> unit result" where
  "transparent_validate_form E tx =
     (if \<not> is_valid_address E (t_from tx) then Err ''Invalid from address''
      else if \<not> is_valid_address E (t_to tx) then Err ''Invalid to address''
      else if t_amount tx = 0 then Err ''Amount must be > 0''
      else if t_amount tx < DUST_THRESHOLD then Err ''Amount below dust threshold''
      else if t_fee tx < transparent_min_fee_required E tx then Err ''Fee must be >= minimum''
      else if checked_add128 (t_amount tx) (t_fee tx) = None then Err ''amount+fee overflow''
      else if length (t_from_pubkey tx) \<noteq> pk_len E then Err ''Invalid from_pubkey length''
      else if length (t_signature tx) \<noteq> sig_len E \<and> t_signature tx \<noteq> [] then Err ''Invalid signature length''
      else Ok ())"

definition transparent_signing_bytes :: "transparent_tx \<Rightarrow> bytes" where
  "transparent_signing_bytes tx =
     str_bytes (t_from tx) @ str_bytes (t_to tx) @ le_bytes 16 (t_amount tx) @ le_bytes 16 (t_fee tx)
     @ le_bytes 8 (t_nonce tx) @ le_bytes 8 (t_chain_id tx) @ le_bytes 8 (t_lock_blue_score tx)
     @ le_bytes 4 (t_relative_lock_blues tx)
     @ (case t_hashlock tx of Some h \<Rightarrow> 1 # hash_bytes h | None \<Rightarrow> [0])"

definition transparent_verify :: "env \<Rightarrow> transparent_tx \<Rightarrow> bool" where
  "transparent_verify E tx =
     (if \<not> address_matches_pubkey E (t_from tx) (t_from_pubkey tx) then False
      else verify_pq512 E ''transparent-tx'' (transparent_signing_bytes tx) (t_from_pubkey tx) (t_signature tx))"

definition transparent_tx_hash :: "env \<Rightarrow> transparent_tx \<Rightarrow> hash" where
  "transparent_tx_hash E tx =
     digest512 E ''tx-hash'' (transparent_signing_bytes tx @ t_signature tx @ t_hashlock_preimage tx)"

section \<open>Custody certificates\<close>

definition slh_verify :: "env \<Rightarrow> string \<Rightarrow> bytes \<Rightarrow> bytes \<Rightarrow> bytes \<Rightarrow> bool" where
  \<comment> \<open>\<open>dual_sig::verify\<close>\<close>
  "slh_verify E domain message public_key signature =
     (if length public_key \<noteq> slh_pk_len E \<or> length signature \<noteq> slh_sig_len E then False
      else slhdsa_verify E public_key (hash_bytes (digest512 E domain message)) signature)"

definition dual_verify :: "env \<Rightarrow> dual_signature \<Rightarrow> string \<Rightarrow> bytes \<Rightarrow> bool" where
  "dual_verify E d domain message =
     (case hex_decode E (ds_public_key_hex d) of
        None \<Rightarrow> False
      | Some pk \<Rightarrow>
          (case hex_decode E (ds_signature_hex d) of
             None \<Rightarrow> False
           | Some sig \<Rightarrow> slh_verify E domain message pk sig))"

fun custody_kind_tag :: "custody_kind \<Rightarrow> string" where
  "custody_kind_tag StakeLock = ''stake-lock''"
| "custody_kind_tag StakeUnlock = ''stake-unlock''"
| "custody_kind_tag BridgeExit = ''bridge-exit''"
| "custody_kind_tag BridgeEnter = ''bridge-enter''"

definition custody_message_bytes :: "custody_certificate \<Rightarrow> bytes" where
  "custody_message_bytes c =
     str_bytes ''hassan-custody-v1'' @ hash_bytes (cc_block_hash c) @ str_bytes (cc_settlement_id c)
     @ cc_birth_certificate c @ le_bytes 8 (cc_foreign_chain_id c) @ le_bytes 16 (cc_amount c)
     @ (case cc_title_id c of None \<Rightarrow> [] | Some t \<Rightarrow> hash_bytes t)
     @ str_bytes (cc_owner c) @ le_bytes 8 (cc_nonce c) @ le_bytes 8 (cc_chain_id c)
     @ str_bytes (custody_kind_tag (cc_kind c))"

definition bytes_hash :: "bytes \<Rightarrow> hash" where
  \<comment> \<open>the 64 bytes of a digest, big-endian\<close>
  "bytes_hash bs = foldl (\<lambda>h b. push_bit 8 h OR ucast b) 0 bs"

definition custody_verify :: "env \<Rightarrow> custody_certificate \<Rightarrow> bytes \<Rightarrow> unit result" where
  "custody_verify E c sid =
     (if length (cc_from_pubkey c) \<noteq> pk_len E then Err ''Invalid custody signer key''
      else if \<not> address_matches_pubkey E (cc_owner c) (cc_from_pubkey c)
      then Err ''Custody owner does not match signer''
      else if \<not> verify_pq512 E ''custody'' (custody_message_bytes c) (cc_from_pubkey c) (cc_signature c)
      then Err ''Invalid custody signature''
      else if (case cc_dual_signature c of
                 None \<Rightarrow> False
               | Some dual \<Rightarrow> \<not> dual_verify E dual ''custody'' (custody_message_bytes c))
      then Err ''Invalid secondary (SLH-DSA) custody signature''
      else if hex_encode E sid \<noteq> cc_settlement_id c
      then Err ''Settlement ID mismatch on custody certificate''
      else if \<not> birth_verify E (cc_birth_certificate c) (bytes_hash sid) (cc_issuer_pubkey c)
      then Err ''Birth Certificate failed on custody anchor''
      else Ok ())"

definition decode_sid :: "env \<Rightarrow> string \<Rightarrow> bytes result" where
  \<comment> \<open>\<open>hex::decode(..)?.try_into()\<close> to 64 bytes\<close>
  "decode_sid E s =
     (case hex_decode E s of
        None \<Rightarrow> Err ''bad hex''
      | Some bs \<Rightarrow> if length bs \<noteq> 64 then Err ''bad settlement id'' else Ok bs)"

definition custody_fingerprint :: "env \<Rightarrow> custody_certificate \<Rightarrow> hash" where
  "custody_fingerprint E c = digest512 E ''custody-fp'' (ser_custody E c)"

definition verify_round_trip :: "env \<Rightarrow> custody_certificate \<Rightarrow> custody_certificate \<Rightarrow> unit result" where
  "verify_round_trip E x y =
     (if \<not> (cc_kind x = BridgeExit \<and> cc_kind y = BridgeEnter \<or> cc_kind x = StakeLock \<and> cc_kind y = StakeUnlock)
      then Err ''Custody pair kinds do not form an exit-entry or lock-unlock''
      else if cc_owner x \<noteq> cc_owner y then Err ''Custody round-trip owner mismatch''
      else if cc_amount x \<noteq> cc_amount y then Err ''Custody round-trip amount mismatch''
      else if cc_title_id x \<noteq> cc_title_id y then Err ''Custody round-trip title mismatch''
      else if cc_kind x = BridgeExit \<and> cc_foreign_chain_id x \<noteq> cc_foreign_chain_id y
      then Err ''Bridge enter must cite the same foreign chain as exit''
      else
        (case decode_sid E (cc_settlement_id x) of
           Inl e \<Rightarrow> Err e
         | Inr exit_sid \<Rightarrow>
             (case decode_sid E (cc_settlement_id y) of
                Inl e \<Rightarrow> Err e
              | Inr enter_sid \<Rightarrow>
                  (case custody_verify E x exit_sid of
                     Inl e \<Rightarrow> Err e
                   | Inr _ \<Rightarrow>
                       (case custody_verify E y enter_sid of
                          Inl e \<Rightarrow> Err e
                        | Inr _ \<Rightarrow> Ok ())))))"

section \<open>The body commitment\<close>

definition block_merkle_root :: "env \<Rightarrow> block \<Rightarrow> hash" where
  "block_merkle_root E b =
     (if transparent_txs b = [] \<and> utxo_txs b = [] \<and> registry_ops b = [] \<and> custody_ops b = [] then 0
      else blake3_512 E
        (str_bytes ''hassan-block-body-v4''
         @ le_bytes 8 (length (transparent_txs b)) @ concat (map (hash_bytes \<circ> transparent_tx_hash E) (transparent_txs b))
         @ le_bytes 8 (length (utxo_txs b)) @ concat (map (hash_bytes \<circ> utxo_tx_hash E) (utxo_txs b))
         @ le_bytes 8 (length (registry_ops b)) @ concat (map (hash_bytes \<circ> op_hash E) (registry_ops b))
         @ le_bytes 8 (length (custody_ops b)) @ concat (map (hash_bytes \<circ> custody_fingerprint E) (custody_ops b))))"

section \<open>Identity and the header\<close>

lemma header_only_identity:
  "block_hash E (header_only b) = block_hash E b" "settlement_id E (header_only b) = settlement_id E b"
  by (simp_all add: block_hash_def settlement_id_def absorb_identity_def header_only_def)

end
