(* ===== verification/Ledger.thy ===== *)
theory Ledger
  imports Block_Identity Ghostdag "HOL-Library.List_Lexorder" "HOL-Library.Char_ord"
begin

text \<open>
  The value state of the node and how blocks change it, \<open>src/lib.rs\<close>: account transfers, custody
  operations, the block reward, the strict application of a block body that admission runs, and the
  conflict-skipping application that the canonical replay runs. These methods of \<open>ChainState\<close> read the
  chain id and the GHOSTDAG data and write only the ledger fields, so the model passes those two as
  arguments and the ledger as the state.

  The strict application works on a throwaway state that is dropped on an error, so it returns a plain
  result; the conflict-skipping one keeps whatever a failed operation has done.
\<close>

definition wadd128 :: "nat \<Rightarrow> nat \<Rightarrow> nat" where
  [rust_int]: "wadd128 a b = (a + b) mod 2 ^ 128"

section \<open>The state root\<close>

definition ledger_merkle_root :: "env \<Rightarrow> ledger \<Rightarrow> hash" where
  "ledger_merkle_root E l =
     blake3_512 E
       (str_bytes ''hassan-state-root-v2''
        @ concat (map (\<lambda>(addr, acc). str_bytes addr @ le_bytes 16 (balance acc) @ le_bytes 8 (a_nonce acc)
                         @ le_bytes 8 (last_spend_blue acc)) (sort_key fst (accounts l)))
        @ hash_bytes (commitment E (utxo l)) @ le_bytes 16 (minted_supply l) @ le_bytes 16 (fees_burned l))"

definition account_balance :: "ledger \<Rightarrow> address \<Rightarrow> nat" where
  "account_balance l a = balance (hget_or default_account (accounts l) a)"

definition account_nonce :: "ledger \<Rightarrow> address \<Rightarrow> nat" where
  "account_nonce l a = a_nonce (hget_or default_account (accounts l) a)"

section \<open>Account transfers\<close>

definition transfer_effect :: "transparent_tx \<Rightarrow> nat \<Rightarrow> nat \<Rightarrow> nat \<Rightarrow> ledger \<Rightarrow> ledger" where
  \<comment> \<open>the two mutations at the end of \<open>apply_transparent_tx\<close>, given \<open>total\<close> and \<open>new_recipient_balance\<close>\<close>
  "transfer_effect tx media debit new_recipient_balance l =
     (let sender = hget_or default_account (accounts l) (t_from tx);
          accts1 = hput (t_from tx) (sender\<lparr>balance := balance sender - debit, a_nonce := sat_add64 (a_nonce sender) 1,
                                      last_spend_blue := media\<rparr>) (accounts l);
          recipient = hget_or default_account accts1 (t_to tx)
      in l\<lparr>accounts := hput (t_to tx) (recipient\<lparr>balance := new_recipient_balance\<rparr>) accts1\<rparr>)"

definition transfer_checks :: "env \<Rightarrow> nat \<Rightarrow> nat \<Rightarrow> transparent_tx \<Rightarrow> ledger \<Rightarrow> ledger result" where
  \<comment> \<open>\<open>apply_transparent_tx\<close> after the switch\<close>
  "transfer_checks E cid media tx l =
     (case transparent_validate_form E tx of
        Inl e \<Rightarrow> Err e
      | Inr _ \<Rightarrow>
          if t_chain_id tx \<noteq> cid then Err ''Wrong chain_id''
          else if \<not> transparent_verify E tx then Err ''Invalid signature''
          else if t_lock_blue_score tx > 0 \<and> media < t_lock_blue_score tx then Err ''Absolute lock: media blue < lock''
          else if t_relative_lock_blues tx > 0 \<and>
                  media < sat_add64 (last_spend_blue (hget_or default_account (accounts l) (t_from tx))) (t_relative_lock_blues tx)
          then Err ''Relative lock: media blue < unlock''
          else if (case t_hashlock tx of None \<Rightarrow> False | Some h \<Rightarrow> hashlock_commitment E (t_hashlock_preimage tx) \<noteq> h)
          then Err ''Hashlock preimage mismatch''
          else if t_nonce tx \<noteq> account_nonce l (t_from tx) then Err ''Bad nonce''
          else
            (case checked_add128 (t_amount tx) (t_fee tx) of
               None \<Rightarrow> Err ''amount+fee overflow''
             | Some debit \<Rightarrow>
                 if account_balance l (t_from tx) < debit then Err ''Insufficient balance''
                 else
                   (case checked_add128 (account_balance l (t_to tx)) (t_amount tx) of
                      None \<Rightarrow> Err ''Recipient balance overflow''
                    | Some new_recipient_balance \<Rightarrow> Ok (transfer_effect tx media debit new_recipient_balance l))))"

definition apply_transparent_tx :: "env \<Rightarrow> nat \<Rightarrow> nat \<Rightarrow> transparent_tx \<Rightarrow> ledger \<Rightarrow> ledger result" where
  "apply_transparent_tx E cid media tx l =
     (if \<not> ACCOUNT_PEER_TRANSFERS then Err ''Account peer transfers disabled (v27); use UTXO for value moves''
      else transfer_checks E cid media tx l)"

definition bridge_account_to_utxo :: "env \<Rightarrow> address \<Rightarrow> nat \<Rightarrow> nat \<Rightarrow> ledger \<Rightarrow> (ledger \<times> out_point) result" where
  "bridge_account_to_utxo E addr amount media l =
     (if amount < UTXO_DUST then Err ''Bridge amount below dust (546)''
      else if \<not> is_valid_address E addr then Err ''Invalid address''
      else
        (case hget (accounts l) addr of
           None \<Rightarrow> Err ''Account missing''
         | Some acct \<Rightarrow>
             if balance acct < amount then Err ''Insufficient balance''
             else
               (let op = OutPoint (blake3_512 E
                      (str_bytes ''hassan-bridge-utxo-v1'' @ str_bytes addr @ le_bytes 16 amount @ le_bytes 8 media
                       @ le_bytes 8 (a_nonce acct) @ hash_bytes (commitment E (utxo l)))) 0
                in Ok (l\<lparr>accounts := hput addr (acct\<lparr>balance := balance acct - amount\<rparr>) (accounts l),
                         utxo := utxo_insert op \<lparr>o_value = amount, o_predicate = PayToAddress addr, created_blue = media\<rparr> (utxo l)\<rparr>,
                       op))))"

section \<open>Custody\<close>

definition stake_lock :: "address \<Rightarrow> nat \<Rightarrow> ledger \<Rightarrow> ledger result" where
  "stake_lock owner amount l =
     (if account_balance l owner < amount then Err ''Insufficient free balance to stake''
      else
        let acct = hget_or default_account (accounts l) owner
        in Ok (l\<lparr>accounts := hput owner (acct\<lparr>balance := balance acct - amount\<rparr>) (accounts l),
                 staked := hput owner (wadd128 (hget_or 0 (staked l) owner) amount) (staked l)\<rparr>))"

definition stake_unlock :: "address \<Rightarrow> nat \<Rightarrow> ledger \<Rightarrow> ledger result" where
  "stake_unlock owner amount l =
     (let locked = hget_or 0 (staked l) owner;
          acct = hget_or default_account (accounts l) owner
      in if locked < amount then Err ''Insufficient staked balance''
         else Ok (l\<lparr>staked := hput owner (locked - amount) (staked l),
                    accounts := hput owner (acct\<lparr>balance := wadd128 (balance acct) amount\<rparr>) (accounts l)\<rparr>))"

definition bump_nonce :: "address \<Rightarrow> nat \<Rightarrow> ledger \<Rightarrow> ledger" where
  "bump_nonce owner nonce l =
     l\<lparr>accounts := hput owner ((hget_or default_account (accounts l) owner)\<lparr>a_nonce := sat_add64 nonce 1\<rparr>) (accounts l)\<rparr>"

definition apply_custody_op :: "env \<Rightarrow> nat \<Rightarrow> custody_certificate \<Rightarrow> ledger \<Rightarrow> ledger result" where
  "apply_custody_op E cid op l =
     (if cc_chain_id op \<noteq> cid then Err ''Wrong chain_id''
      else if cc_amount op = 0 then Err ''Custody amount must be > 0''
      else if \<not> is_valid_address E (cc_owner op) then Err ''Invalid custody owner''
      else
        (case decode_sid E (cc_settlement_id op) of
           Inl e \<Rightarrow> Err e
         | Inr sid \<Rightarrow>
             (case custody_verify E op sid of
                Inl e \<Rightarrow> Err e
              | Inr _ \<Rightarrow>
                  let nonce = account_nonce l (cc_owner op)
                  in if cc_nonce op \<noteq> nonce then Err ''Bad custody nonce''
                     else
                       (case (case cc_kind op of
                                StakeLock \<Rightarrow> stake_lock (cc_owner op) (cc_amount op) l
                              | StakeUnlock \<Rightarrow> stake_unlock (cc_owner op) (cc_amount op) l
                              | BridgeExit \<Rightarrow> Err ''Bridge exit/enter disabled until a real cross-chain bridge ships''
                              | BridgeEnter \<Rightarrow> Err ''Bridge exit/enter disabled until a real cross-chain bridge ships'') of
                          Inl e \<Rightarrow> Err e
                        | Inr l' \<Rightarrow> Ok (bump_nonce (cc_owner op) nonce l')))))"

section \<open>The block reward\<close>

definition apply_block_reward :: "env \<Rightarrow> block \<Rightarrow> nat \<Rightarrow> nat \<Rightarrow> ledger \<Rightarrow> ledger" where
  "apply_block_reward E b blue fees l =
     (let subsidy = min (block_subsidy blue) (MAX_SUPPLY - minted_supply l);
          tot = sat_add128 subsidy fees
      in if tot = 0 then l
         else
           let l1 = (if subsidy > 0 then l\<lparr>minted_supply := sat_add128 (minted_supply l) subsidy\<rparr> else l)
           in l1\<lparr>utxo := utxo_insert (coinbase (coinbase_txid E b))
                  \<lparr>o_value = tot, o_predicate = PayToAddress (encode_hash (miner b)), created_blue = blue\<rparr> (utxo l1)\<rparr>)"

definition supply_invariant_ok :: "ledger \<Rightarrow> bool" where
  "supply_invariant_ok l =
     (sat_add128 (sat_add128 (sat_add128 (hsum balance (accounts l) mod 2 ^ 128) (hsum id (staked l) mod 2 ^ 128))
        (total_value (utxo l))) (fees_burned l) = minted_supply l)"

section \<open>Strict application of a body\<close>

fun strict_transparents :: "env \<Rightarrow> nat \<Rightarrow> nat \<Rightarrow> transparent_tx list \<Rightarrow> ledger \<times> nat \<Rightarrow> (ledger \<times> nat) result" where
  "strict_transparents E cid media [] s = Ok s"
| "strict_transparents E cid media (tx # txs) (l, fees) =
     (case apply_transparent_tx E cid media tx l of
        Inl e \<Rightarrow> Err e
      | Inr l' \<Rightarrow> strict_transparents E cid media txs (l', sat_add128 fees (t_fee tx)))"

fun strict_utxos :: "env \<Rightarrow> nat \<Rightarrow> nat \<Rightarrow> utxo_tx list \<Rightarrow> ledger \<times> nat \<Rightarrow> (ledger \<times> nat) result" where
  "strict_utxos E cid media [] s = Ok s"
| "strict_utxos E cid media (tx # txs) (l, fees) =
     (if u_chain_id tx \<noteq> cid then Err ''Utxo tx: wrong chain_id''
      else
        (case apply_utxo_tx E tx media (utxo l, accounts l, 0) of
           ((u, a, f), Inl e) \<Rightarrow> Err e
         | ((u, a, f), Inr _) \<Rightarrow>
             strict_utxos E cid media txs (l\<lparr>utxo := u, accounts := a\<rparr>, sat_add128 fees f)))"

fun strict_registry :: "env \<Rightarrow> block \<Rightarrow> string \<Rightarrow> nat \<Rightarrow> registry_op list \<Rightarrow> ledger \<Rightarrow> ledger result" where
  "strict_registry E b sid media [] l = Ok l"
| "strict_registry E b sid media (op # ops) l =
     (case apply_op E op b sid media (registry l, accounts l) of
        ((r, a), Inl e) \<Rightarrow> Err e
      | ((r, a), Inr _) \<Rightarrow> strict_registry E b sid media ops (l\<lparr>registry := r, accounts := a\<rparr>))"

fun strict_custody :: "env \<Rightarrow> nat \<Rightarrow> custody_certificate list \<Rightarrow> ledger \<Rightarrow> ledger result" where
  "strict_custody E cid [] l = Ok l"
| "strict_custody E cid (op # ops) l =
     (case apply_custody_op E cid op l of
        Inl e \<Rightarrow> Err e
      | Inr l' \<Rightarrow> strict_custody E cid ops l')"

definition simulate_apply_block_body ::
  "env \<Rightarrow> nat \<Rightarrow> nat \<Rightarrow> block \<Rightarrow> nat \<Rightarrow> ledger \<Rightarrow> (ledger \<times> nat) result" where
  \<comment> \<open>\<open>tip_blue\<close> is \<open>selected_tip_blue_score()\<close> of the state, which account transfers read\<close>
  "simulate_apply_block_body E cid tip_blue b media l =
     (case strict_transparents E cid tip_blue (transparent_txs b) (l, 0) of
        Inl e \<Rightarrow> Err e
      | Inr s1 \<Rightarrow>
          (case strict_utxos E cid media (utxo_txs b) s1 of
             Inl e \<Rightarrow> Err e
           | Inr (l2, fees) \<Rightarrow>
               (case strict_registry E b (settlement_hex E b) media (registry_ops b) l2 of
                  Inl e \<Rightarrow> Err e
                | Inr l3 \<Rightarrow>
                    (case strict_custody E cid (custody_ops b) l3 of
                       Inl e \<Rightarrow> Err e
                     | Inr l4 \<Rightarrow> Ok (l4, fees)))))"

section \<open>Conflict-skipping application\<close>

definition skip_transparent :: "env \<Rightarrow> nat \<Rightarrow> nat \<Rightarrow> transparent_tx \<Rightarrow> ledger \<Rightarrow> ledger \<times> nat" where
  "skip_transparent E cid media tx l =
     (case apply_transparent_tx E cid media tx l of Inl _ \<Rightarrow> (l, 0) | Inr l' \<Rightarrow> (l', t_fee tx))"

definition skip_utxo :: "env \<Rightarrow> nat \<Rightarrow> utxo_tx \<Rightarrow> ledger \<Rightarrow> ledger \<times> nat" where
  "skip_utxo E media tx l =
     (case apply_utxo_tx E tx media (utxo l, accounts l, 0) of
        ((u, a, f), r) \<Rightarrow> (l\<lparr>utxo := u, accounts := a\<rparr>, if is_ok r then f else 0))"

definition skip_registry :: "env \<Rightarrow> block \<Rightarrow> string \<Rightarrow> nat \<Rightarrow> registry_op \<Rightarrow> ledger \<Rightarrow> ledger \<times> nat" where
  "skip_registry E b sid media op l =
     (case apply_op E op b sid media (registry l, accounts l) of
        ((r, a), _) \<Rightarrow> (l\<lparr>registry := r, accounts := a\<rparr>, 0))"

definition skip_custody :: "env \<Rightarrow> nat \<Rightarrow> custody_certificate \<Rightarrow> ledger \<Rightarrow> ledger \<times> nat" where
  "skip_custody E cid op l = (case apply_custody_op E cid op l of Inl _ \<Rightarrow> (l, 0) | Inr l' \<Rightarrow> (l', 0))"

definition skip_all :: "('op \<Rightarrow> ledger \<Rightarrow> ledger \<times> nat) \<Rightarrow> 'op list \<Rightarrow> ledger \<times> nat \<Rightarrow> ledger \<times> nat" where
  \<comment> \<open>\<open>for op in ops\<close>: run it, add what it collects to the fees\<close>
  "skip_all run ops s = fold (\<lambda>op (l, fees). case run op l of (l', f) \<Rightarrow> (l', if f = 0 then fees else sat_add128 fees f)) ops s"

definition tip_blue_score :: "ghostdag_map \<Rightarrow> hash list \<Rightarrow> nat" where
  "tip_blue_score gd tips =
     (case selected_tip gd tips of
        None \<Rightarrow> 0
      | Some t \<Rightarrow> (case hget gd t of None \<Rightarrow> 0 | Some d \<Rightarrow> blue_score d))"

definition apply_block_effects :: "env \<Rightarrow> nat \<Rightarrow> ghostdag_map \<Rightarrow> hash list \<Rightarrow> block \<Rightarrow> ledger \<Rightarrow> ledger" where
  "apply_block_effects E cid gd tips b l =
     (if parents b = [] then l
      else
        let s1 = skip_all (skip_transparent E cid (tip_blue_score gd tips)) (transparent_txs b) (l, 0);
            media = (case hget gd (block_hash E b) of None \<Rightarrow> tip_blue_score gd tips | Some d \<Rightarrow> blue_score d);
            s2 = skip_all (skip_utxo E media) (utxo_txs b) s1;
            s3 = skip_all (skip_registry E b (settlement_hex E b) media) (registry_ops b) s2;
            (l4, fees) = skip_all (skip_custody E cid) (custody_ops b) s3;
            blue = (case hget gd (block_hash E b) of None \<Rightarrow> 0 | Some d \<Rightarrow> blue_score d)
        in apply_block_reward E b blue fees l4)"

end
