(* ===== verification/Ledger_Correct.thy ===== *)
theory Ledger_Correct
  imports Ledger Registry_Correct
begin

text \<open>
  Correctness of the ledger. The contract of one operation under conflict-skip is the locale
  \<open>value_bounded\<close>: it keeps the ledger well formed, does not touch the issuance counter and creates no
  value. The four kinds of operation provide it; the loop of \<open>apply_block_effects\<close> is proved once, inside
  the locale. On top: no sequence of blocks ever holds more value than was minted, nor mints more than the
  cap; and the strict application that admission runs computes what the replay computes.
\<close>

section \<open>Well-formedness and value\<close>

definition ledger_ok :: "ledger \<Rightarrow> bool" where
  "ledger_ok l \<longleftrightarrow> utxo_ok (utxo l) \<and> hmap_ok (accounts l) \<and> registry_ok (registry l) \<and> hmap_ok (staked l)"

definition ledger_value :: "ledger \<Rightarrow> nat" where
  "ledger_value l = hsum o_value (entries (utxo l)) + hsum balance (accounts l)
     + hsum e_funded (escrows (registry l)) + hsum id (staked l)"

lemma ledger_okD:
  "ledger_ok l \<Longrightarrow> utxo_ok (utxo l)" "ledger_ok l \<Longrightarrow> hmap_ok (accounts l)"
  "ledger_ok l \<Longrightarrow> registry_ok (registry l)" "ledger_ok l \<Longrightarrow> hmap_ok (staked l)"
  by (simp_all add: ledger_ok_def)

locale value_bounded =
  fixes run :: "'op \<Rightarrow> ledger \<Rightarrow> ledger \<times> nat"
  assumes run_ok: "ledger_ok l \<Longrightarrow> ledger_ok (fst (run op l))"
    and run_value: "ledger_ok l \<Longrightarrow> ledger_value (fst (run op l)) + snd (run op l) \<le> ledger_value l"
    and run_minted: "minted_supply (fst (run op l)) = minted_supply l \<and> fees_burned (fst (run op l)) = fees_burned l"
begin

lemma skip_all_bounded:
  assumes "ledger_ok l" and "skip_all run ops (l, fees) = (l', fees')"
  shows "ledger_ok l' \<and> ledger_value l' + fees' \<le> ledger_value l + fees
    \<and> minted_supply l' = minted_supply l \<and> fees_burned l' = fees_burned l"
  using assms
proof (induction ops arbitrary: l fees)
  case (Cons op ops)
  define l1 f where "l1 = fst (run op l)" and "f = snd (run op l)"
  have r: "run op l = (l1, f)" by (simp add: l1_def f_def)
  define fees1 where "fees1 = (if f = 0 then fees else sat_add128 fees f)"
  have rest: "skip_all run ops (l1, fees1) = (l', fees')" using Cons.prems(2) r by (simp add: skip_all_def fees1_def)
  have one: "ledger_ok l1" "ledger_value l1 + f \<le> ledger_value l" "minted_supply l1 = minted_supply l" "fees_burned l1 = fees_burned l"
    using run_ok [OF Cons.prems(1)] run_value [OF Cons.prems(1)] run_minted r by (metis fst_conv snd_conv)+
  have "fees1 \<le> fees + f" by (simp add: fees1_def sat_add128_def)
  then show ?case using Cons.IH [OF one(1) rest] one by linarith
qed (simp add: skip_all_def)

end

section \<open>The operations\<close>

lemma wadd128_le: "wadd128 a b \<le> a + b"
  by (simp add: wadd128_def)

lemma staked_put:
  assumes "hmap_ok st"
  shows "hsum id (hput k v st) + hget_or 0 st k = hsum id st + v"
  using hsum_hput [OF assms, of id k v] by (simp add: hget_or_def split: option.splits)

lemma stake_lock_value:
  assumes ok: "ledger_ok l" and op: "stake_lock owner amount l = Ok l'"
  shows "ledger_ok l' \<and> ledger_value l' \<le> ledger_value l \<and> minted_supply l' = minted_supply l \<and> fees_burned l' = fees_burned l"
proof -
  define acct where "acct = hget_or default_account (accounts l) owner"
  define st where "st = hget_or 0 (staked l) owner"
  have am: "amount \<le> balance acct"
    and l': "l' = l\<lparr>accounts := hput owner (acct\<lparr>balance := balance acct - amount\<rparr>) (accounts l),
      staked := hput owner (wadd128 st amount) (staked l)\<rparr>"
    using op by (auto simp: stake_lock_def account_balance_def Let_def res_simps acct_def st_def)
  have "hsum balance (hput owner (acct\<lparr>balance := balance acct - amount\<rparr>) (accounts l)) + amount = hsum balance (accounts l)"
    using acct_put_val [OF ledger_okD(2) [OF ok], of owner "acct\<lparr>balance := balance acct - amount\<rparr>"] am by (simp add: acct_def)
  moreover have "hsum id (hput owner (wadd128 st amount) (staked l)) \<le> hsum id (staked l) + amount"
    using staked_put [OF ledger_okD(4) [OF ok], of owner "wadd128 st amount"] wadd128_le [of st amount] by (simp add: st_def)
  ultimately show ?thesis using ok by (simp add: l' ledger_ok_def ledger_value_def)
qed

lemma stake_unlock_value:
  assumes ok: "ledger_ok l" and op: "stake_unlock owner amount l = Ok l'"
  shows "ledger_ok l' \<and> ledger_value l' \<le> ledger_value l \<and> minted_supply l' = minted_supply l \<and> fees_burned l' = fees_burned l"
proof -
  define acct where "acct = hget_or default_account (accounts l) owner"
  define st where "st = hget_or 0 (staked l) owner"
  have am: "amount \<le> st"
    and l': "l' = l\<lparr>staked := hput owner (st - amount) (staked l),
      accounts := hput owner (acct\<lparr>balance := wadd128 (balance acct) amount\<rparr>) (accounts l)\<rparr>"
    using op by (auto simp: stake_unlock_def Let_def res_simps acct_def st_def)
  have "hsum balance (hput owner (acct\<lparr>balance := wadd128 (balance acct) amount\<rparr>) (accounts l)) \<le> hsum balance (accounts l) + amount"
    using acct_put_val [OF ledger_okD(2) [OF ok], of owner "acct\<lparr>balance := wadd128 (balance acct) amount\<rparr>"]
      wadd128_le [of "balance acct" amount] by (simp add: acct_def)
  moreover have "hsum id (hput owner (st - amount) (staked l)) + amount = hsum id (staked l)"
    using staked_put [OF ledger_okD(4) [OF ok], of owner "st - amount"] am by (simp add: st_def)
  ultimately show ?thesis using ok by (simp add: l' ledger_ok_def ledger_value_def)
qed

lemma bump_nonce_value:
  assumes ok: "ledger_ok l"
  shows "ledger_ok (bump_nonce a n l) \<and> ledger_value (bump_nonce a n l) = ledger_value l
    \<and> minted_supply (bump_nonce a n l) = minted_supply l \<and> fees_burned (bump_nonce a n l) = fees_burned l"
  using ok acct_put_val [OF ledger_okD(2) [OF ok], of a "(hget_or default_account (accounts l) a)\<lparr>a_nonce := sat_add64 n 1\<rparr>"]
  by (simp add: bump_nonce_def ledger_ok_def ledger_value_def)

lemma custody_value:
  assumes ok: "ledger_ok l" and op: "apply_custody_op E cid op l = Ok l'"
  shows "ledger_ok l' \<and> ledger_value l' \<le> ledger_value l \<and> minted_supply l' = minted_supply l \<and> fees_burned l' = fees_burned l"
proof -
  from op obtain l1 where l1: "l' = bump_nonce (cc_owner op) (account_nonce l (cc_owner op)) l1"
    and "stake_lock (cc_owner op) (cc_amount op) l = Ok l1 \<or> stake_unlock (cc_owner op) (cc_amount op) l = Ok l1"
    by (cases "cc_kind op") (auto simp: apply_custody_op_def Let_def res_simps)
  then have "ledger_ok l1 \<and> ledger_value l1 \<le> ledger_value l \<and> minted_supply l1 = minted_supply l \<and> fees_burned l1 = fees_burned l"
    using stake_lock_value [OF ok] stake_unlock_value [OF ok] by blast
  then show ?thesis using bump_nonce_value l1 by simp
qed

interpretation transparents: value_bounded "skip_transparent E cid media" for E cid media
  by unfold_locales (simp_all add: skip_transparent_def apply_transparent_tx_def ACCOUNT_PEER_TRANSFERS_def)

interpretation utxos: value_bounded "skip_utxo E media" for E media
proof
  fix l :: ledger and tx
  obtain u a f r where e: "apply_utxo_tx E tx media (utxo l, accounts l, 0) = ((u, a, f), r)" by (metis surj_pair)
  show "minted_supply (fst (skip_utxo E media tx l)) = minted_supply l \<and> fees_burned (fst (skip_utxo E media tx l)) = fees_burned l"
    by (simp add: skip_utxo_def e)
  assume ok: "ledger_ok l"
  note n = apply_utxo_tx_no_inflation [OF e ledger_okD(1,2) [OF ok]]
  show "ledger_ok (fst (skip_utxo E media tx l))" using n ok by (simp add: skip_utxo_def e ledger_ok_def)
  show "ledger_value (fst (skip_utxo E media tx l)) + snd (skip_utxo E media tx l) \<le> ledger_value l"
    using n by (simp add: skip_utxo_def e ledger_value_def)
qed

interpretation registries: value_bounded "skip_registry E b sid media" for E b sid media
proof
  fix l :: ledger and op
  obtain g a r where e: "apply_op E op b sid media (registry l, accounts l) = ((g, a), r)" by (metis surj_pair)
  show "minted_supply (fst (skip_registry E b sid media op l)) = minted_supply l
      \<and> fees_burned (fst (skip_registry E b sid media op l)) = fees_burned l"
    by (simp add: skip_registry_def e)
  assume ok: "ledger_ok l"
  have n: "registry_ok g" "hmap_ok a" "hsum e_funded (escrows g) + hsum balance a
      \<le> hsum e_funded (escrows (registry l)) + hsum balance (accounts l)"
    using apply_op_ok [OF e ledger_okD(3,2) [OF ok]] by (auto simp: value_step_def)
  show "ledger_ok (fst (skip_registry E b sid media op l))" using n ok by (simp add: skip_registry_def e ledger_ok_def)
  show "ledger_value (fst (skip_registry E b sid media op l)) + snd (skip_registry E b sid media op l) \<le> ledger_value l"
    using n(3) by (simp add: skip_registry_def e ledger_value_def)
qed

interpretation custodies: value_bounded "skip_custody E cid" for E cid
proof
  fix l :: ledger and op
  show "minted_supply (fst (skip_custody E cid op l)) = minted_supply l \<and> fees_burned (fst (skip_custody E cid op l)) = fees_burned l"
    by (cases "cc_kind op")
      (auto simp: skip_custody_def apply_custody_op_def stake_lock_def stake_unlock_def bump_nonce_def Let_def split: sum.splits if_splits)
  assume ok: "ledger_ok l"
  show "ledger_ok (fst (skip_custody E cid op l))"
    using custody_value [OF ok, of E cid op] ok by (simp add: skip_custody_def split: sum.splits)
  show "ledger_value (fst (skip_custody E cid op l)) + snd (skip_custody E cid op l) \<le> ledger_value l"
    using custody_value [OF ok, of E cid op] by (simp add: skip_custody_def split: sum.splits)
qed

section \<open>A block\<close>

lemma reward_value:
  assumes ok: "ledger_ok l" and cap: "minted_supply l \<le> MAX_SUPPLY"
  shows "ledger_ok (apply_block_reward E b blue fees l) \<and> minted_supply (apply_block_reward E b blue fees l) \<le> MAX_SUPPLY
    \<and> ledger_value (apply_block_reward E b blue fees l) + minted_supply l
        \<le> ledger_value l + fees + minted_supply (apply_block_reward E b blue fees l)"
proof -
  define s where "s = min (block_subsidy blue) (MAX_SUPPLY - minted_supply l)"
  define tot where "tot = sat_add128 s fees"
  define out where "out = \<lparr>o_value = tot, o_predicate = PayToAddress (encode_hash (miner b)), created_blue = blue\<rparr>"
  have s: "minted_supply l + s \<le> MAX_SUPPLY" using cap by (auto simp: s_def)
  have "MAX_SUPPLY \<le> u128_max" by (simp add: MAX_SUPPLY_def COIN_def)
  then have m: "sat_add128 (minted_supply l) s = minted_supply l + s" using s by (simp add: sat_add128_def)
  have tot: "tot \<le> s + fees" by (simp add: tot_def sat_add128_def)
  show ?thesis
  proof (cases "tot = 0")
    case True
    then have "apply_block_reward E b blue fees l = l" by (simp add: apply_block_reward_def Let_def s_def tot_def)
    then show ?thesis using ok cap by simp
  next
    case False
    then have r: "apply_block_reward E b blue fees l =
        l\<lparr>minted_supply := minted_supply l + s, utxo := utxo_insert (coinbase (coinbase_txid E b)) out (utxo l)\<rparr>"
      using m by (auto simp: apply_block_reward_def Let_def out_def simp flip: s_def tot_def)
    have "utxo_val (utxo_insert (coinbase (coinbase_txid E b)) out (utxo l)) \<le> utxo_val (utxo l) + tot"
      using utxo_val_insert_le [OF ledger_okD(1) [OF ok], of "coinbase (coinbase_txid E b)" out] by (simp add: out_def)
    then show ?thesis using ok s tot utxo_ok_insert by (simp add: r ledger_ok_def ledger_value_def)
  qed
qed

lemma block_effects_value:
  assumes ok: "ledger_ok l" and cap: "minted_supply l \<le> MAX_SUPPLY"
  shows "ledger_ok (apply_block_effects E cid gd tips b l) \<and> minted_supply (apply_block_effects E cid gd tips b l) \<le> MAX_SUPPLY
    \<and> ledger_value (apply_block_effects E cid gd tips b l) + minted_supply l
        \<le> ledger_value l + minted_supply (apply_block_effects E cid gd tips b l)"
proof (cases "parents b = []")
  case True
  then show ?thesis using ok cap by (simp add: apply_block_effects_def)
next
  case False
  define media where "media = (case hget gd (block_hash E b) of None \<Rightarrow> tip_blue_score gd tips | Some d \<Rightarrow> blue_score d)"
  define blue where "blue = (case hget gd (block_hash E b) of None \<Rightarrow> 0 | Some d \<Rightarrow> blue_score d)"
  obtain l1 f1 where s1: "skip_all (skip_transparent E cid (tip_blue_score gd tips)) (transparent_txs b) (l, 0) = (l1, f1)" by fastforce
  obtain l2 f2 where s2: "skip_all (skip_utxo E media) (utxo_txs b) (l1, f1) = (l2, f2)" by fastforce
  obtain l3 f3 where s3: "skip_all (skip_registry E b (settlement_hex E b) media) (registry_ops b) (l2, f2) = (l3, f3)" by fastforce
  obtain l4 f4 where s4: "skip_all (skip_custody E cid) (custody_ops b) (l3, f3) = (l4, f4)" by fastforce
  have e: "apply_block_effects E cid gd tips b l = apply_block_reward E b blue f4 l4"
    using False by (simp add: apply_block_effects_def Let_def s1 s2 s3 s4 flip: media_def blue_def)
  note v1 = transparents.skip_all_bounded [OF ok s1]
  note v2 = utxos.skip_all_bounded [OF _ s2]
  note v3 = registries.skip_all_bounded [OF _ s3]
  note v4 = custodies.skip_all_bounded [OF _ s4]
  have l4: "ledger_ok l4" "ledger_value l4 + f4 \<le> ledger_value l" "minted_supply l4 = minted_supply l"
    using v1 v2 v3 v4 by auto
  then show ?thesis unfolding e using reward_value [OF l4(1), of E b blue f4] cap by auto
qed

section \<open>Strict application and replay agree\<close>

lemma strict_utxos_skip:
  "strict_utxos E cid media txs (l, fees) = Ok s \<Longrightarrow> fees \<le> u128_max \<Longrightarrow>
   skip_all (skip_utxo E media) txs (l, fees) = s"
proof (induction txs arbitrary: l fees)
  case (Cons tx txs)
  obtain u a f r where e: "apply_utxo_tx E tx media (utxo l, accounts l, 0) = ((u, a, f), r)" by (metis surj_pair)
  with Cons.prems have r: "is_ok r" "strict_utxos E cid media txs (l\<lparr>utxo := u, accounts := a\<rparr>, sat_add128 fees f) = Ok s"
    by (auto simp: res_simps split: sum.splits)
  have "sat_add128 fees f \<le> u128_max" by (simp add: sat_add128_def)
  moreover have "(if f = 0 then fees else sat_add128 fees f) = sat_add128 fees f" using Cons.prems(2) by (simp add: sat_add128_def)
  ultimately show ?case using Cons.IH [OF r(2)] r(1) e by (simp add: skip_all_def skip_utxo_def)
qed (simp add: skip_all_def)

lemma strict_registry_skip:
  "strict_registry E b sid media ops l = Ok l' \<Longrightarrow> skip_all (skip_registry E b sid media) ops (l, fees) = (l', fees)"
proof (induction ops arbitrary: l)
  case (Cons op ops)
  obtain g a r where e: "apply_op E op b sid media (registry l, accounts l) = ((g, a), r)" by (metis surj_pair)
  with Cons show ?case by (auto simp: skip_all_def skip_registry_def split: sum.splits)
qed (simp add: skip_all_def)

lemma strict_custody_skip:
  "strict_custody E cid ops l = Ok l' \<Longrightarrow> skip_all (skip_custody E cid) ops (l, fees) = (l', fees)"
proof (induction ops arbitrary: l)
  case (Cons op ops)
  then show ?case by (auto simp: skip_all_def skip_custody_def res_simps)
qed (simp add: skip_all_def)

lemma strict_transparents_none:
  "strict_transparents E cid media txs s = Ok s' \<Longrightarrow> txs = [] \<and> s' = s"
  by (cases txs; cases s) (auto simp: apply_transparent_tx_def ACCOUNT_PEER_TRANSFERS_def)

lemma strict_body_is_replay:
  assumes st: "simulate_apply_block_body E cid tip b media l = Ok (l', fees)" and ne: "parents b \<noteq> []"
    and gd: "hget gd (block_hash E b) = Some d" "blue_score d = media"
  shows "apply_block_effects E cid gd tips b l = apply_block_reward E b media fees l'"
proof -
  from st obtain l1 f1 l2 l3 where s: "strict_transparents E cid tip (transparent_txs b) (l, 0) = Ok (l1, f1)"
    "strict_utxos E cid media (utxo_txs b) (l1, f1) = Ok (l2, fees)"
    "strict_registry E b (settlement_hex E b) media (registry_ops b) l2 = Ok l3"
    "strict_custody E cid (custody_ops b) l3 = Ok l'"
    by (auto simp: simulate_apply_block_body_def res_simps)
  have t: "transparent_txs b = []" "l1 = l" "f1 = 0" using strict_transparents_none [OF s(1)] by auto
  have "skip_all (skip_utxo E media) (utxo_txs b) (l, 0) = (l2, fees)"
    using strict_utxos_skip [OF s(2)] t by simp
  then show ?thesis
    using ne gd t strict_registry_skip [OF s(3)] strict_custody_skip [OF s(4)]
    by (simp add: apply_block_effects_def Let_def skip_all_def [of "skip_transparent E cid (tip_blue_score gd tips)"])
qed

section \<open>Properties\<close>

definition empty_ledger :: ledger where
  "empty_ledger = \<lparr>accounts = [], minted_supply = 0, fees_burned = 0, treasury = 0,
     registry = \<lparr>titles = [], escrows = []\<rparr>, staked = [], utxo = \<lparr>entries = [], spent = []\<rparr>\<rparr>"

lemma empty_ledger_ok: "ledger_ok empty_ledger" "ledger_value empty_ledger = 0"
  by (simp_all add: empty_ledger_def ledger_ok_def ledger_value_def utxo_ok_def registry_ok_def)

definition solvent :: "ledger \<Rightarrow> bool" where
  "solvent l \<longleftrightarrow> ledger_ok l \<and> ledger_value l \<le> minted_supply l \<and> minted_supply l \<le> MAX_SUPPLY"

lemma solvent_effects: "solvent l \<Longrightarrow> solvent (apply_block_effects E cid gd tips b l)"
  using block_effects_value [of l E cid gd tips b] by (auto simp: solvent_def)

lemma solvent_empty: "solvent empty_ledger"
  by (simp add: solvent_def empty_ledger_ok) (simp add: empty_ledger_def)


definition demo_mined :: block where
  "demo_mined = (demo_block [3])\<lparr>creator_pubkey := [1], miner := 7, utxo_txs := []\<rparr>"


text \<open>
  C34. Admission checks what the replay will do: when the body of a block applies strictly at its blue
  score, then applying the block's effects in the canonical replay, where conflicts would be skipped,
  skips nothing and gives the ledger of the strict application with the reward on top. So the state
  root that admission compares with the header is the root of the replayed state.
\<close>

theorem admission_matches_replay:
  assumes "simulate_apply_block_body E cid tip b media l = Ok (l', fees)" and "parents b \<noteq> []"
    and "hget gd (block_hash E b) = Some d" and "blue_score d = media"
  shows "ledger_merkle_root E (apply_block_effects E cid gd tips b l)
       = ledger_merkle_root E (apply_block_reward E b media fees l')
    \<and> apply_block_effects E cid gd tips b l = apply_block_reward E b media fees l'"
  using strict_body_is_replay [OF assms] by simp

theorem admission_matches_replay_witness:
  "apply_block_effects demo_env CHAIN_ID [(7, \<lparr>blue_score = 1, selected_parent = Some 3, mergeset_blues = [3],
       mergeset_reds = []\<rparr>)] [7] demo_mined empty_ledger = apply_block_reward demo_env demo_mined 1 0 empty_ledger"
proof -
  have s: "simulate_apply_block_body demo_env CHAIN_ID 0 demo_mined 1 empty_ledger = Ok (empty_ledger, 0)"
    by (simp add: simulate_apply_block_body_def demo_mined_def demo_block_def)
  show ?thesis
    using admission_matches_replay [OF s, of "[(7, \<lparr>blue_score = 1, selected_parent = Some 3, mergeset_blues = [3], mergeset_reds = []\<rparr>)]"
        "\<lparr>blue_score = 1, selected_parent = Some 3, mergeset_blues = [3], mergeset_reds = []\<rparr>" "[7]"]
    by (simp add: block_hash_def demo_env_def demo_mined_def demo_block_def)
qed

section \<open>Limits of the ledger code\<close>

text \<open>
  The state root says nothing about titles, escrows, stakes and the treasury: two ledgers that differ only
  there have the same root. A snapshot that is checked against the root of a header is not checked in
  these parts.
\<close>

lemma state_root_ignores_registry:
  "ledger_merkle_root E (l\<lparr>registry := g, staked := s, treasury := t\<rparr>) = ledger_merkle_root E l"
  by (simp add: ledger_merkle_root_def)

text \<open>
  The transfer code debits the sender and then writes a recipient balance computed before the debit. For a
  transfer to oneself the debit is lost and the amount is created. The switch \<open>ACCOUNT_PEER_TRANSFERS\<close> is
  off, so no block reaches this code.
\<close>

lemma self_transfer_creates_value:
  assumes "t_to tx = t_from tx" and "hget (accounts l) (t_from tx) = Some acct"
  shows "account_balance (transfer_effect tx media debit (balance acct + t_amount tx) l) (t_from tx) = balance acct + t_amount tx"
  using assms by (simp add: transfer_effect_def account_balance_def Let_def)

text \<open>The supply identity of the code leaves out the value in escrows: it fails as soon as an escrow is funded.\<close>

lemma supply_identity_without_escrows:
  "\<not> supply_invariant_ok (empty_ledger\<lparr>minted_supply := 10, registry := \<lparr>titles = [], escrows = [(5, demo_escrow)]\<rparr>\<rparr>)
   \<and> ledger_value (empty_ledger\<lparr>minted_supply := 10, registry := \<lparr>titles = [], escrows = [(5, demo_escrow)]\<rparr>\<rparr>) = 10"
  by (simp add: supply_invariant_ok_def empty_ledger_def ledger_value_def total_value_def sat_add128_def demo_escrow_def)

end
