(* ===== verification/Chain.thy ===== *)
theory Chain
  imports Ledger "HOL-Library.Log_Nat"
begin

text \<open>
  The chain state, \<open>src/lib.rs\<close>: \<open>ChainState\<close> and its genesis, the reads of the selected chain, the
  canonical order, the replay of the live ledger and of throwaway states, the state root a block has to
  carry and the finalized base. The interlinks are those of \<open>src/superproof.rs\<close>. Block admission, which
  works on this state, is in the theory \<open>Admission\<close>.

  The seven ledger fields of \<open>ChainState\<close> are one field \<open>live\<close>. The fields \<open>total_supply\<close>, \<open>block_reward\<close>
  and \<open>tor_nodes\<close>, which no code here reads, are left out. The clock, the lab
  switch and the pinned digest are arguments. A method that walks the selected chain returns an
  option, \<open>None\<close> for a walk that does not end.
\<close>

section \<open>State\<close>

record fee_block_sample =
  fs_blue_score :: nat
  feerates :: "nat list"
  confirm_blues :: "nat list"

record fee_rate_history =
  samples :: "fee_block_sample list"
  max_blocks :: nat

record chain_state =
  dag :: dag_map
  tips :: "hash list"
  main_chain :: "hash list"
  live :: ledger
  difficulty :: nat
  chain_id :: nat
  transparent_mempool :: "transparent_tx list"
  utxo_mempool :: "utxo_tx list"
  registry_mempool :: "registry_op list"
  custody_mempool :: "custody_certificate list"
  ghostdag :: ghostdag_map
  reach :: reachability
  archival :: bool
  base :: ledger
  base_captured :: bool
  base_frontier :: "hash option"
  pruning_point :: "hash option"
  pruning_ledger :: "ledger option"
  pruned_selected_blocks :: nat
  tx_first_seen_ms :: "(hash, nat) hmap"
  tx_first_seen_blue :: "(hash, nat) hmap"
  fee_history :: fee_rate_history

definition ledger_default :: ledger where
  "ledger_default = \<lparr>accounts = [], minted_supply = 0, fees_burned = 0, treasury = 0,
     registry = \<lparr>titles = [], escrows = []\<rparr>, staked = [], utxo = \<lparr>entries = [], spent = []\<rparr>\<rparr>"

definition chain_new :: "env \<Rightarrow> bool \<Rightarrow> chain_state option" where
  \<comment> \<open>\<open>ChainState::new\<close> with \<open>create_genesis\<close>\<close>
  "chain_new E lab =
     (let h = block_hash E genesis_block
      in case reach_add_block reach_new h None [] of
           None \<Rightarrow> None
         | Some r \<Rightarrow> Some
             \<lparr>dag = [(h, genesis_block)], tips = [h], main_chain = [h], live = ledger_default,
              difficulty = effective_min_difficulty lab, chain_id = CHAIN_ID,
              transparent_mempool = [], utxo_mempool = [], registry_mempool = [], custody_mempool = [],
              ghostdag = [(h, ghostdag_genesis)], reach = r, archival = False, base = ledger_default,
              base_captured = False, base_frontier = None, pruning_point = None, pruning_ledger = None,
              pruned_selected_blocks = 0, tx_first_seen_ms = [], tx_first_seen_blue = [],
              fee_history = \<lparr>samples = [], max_blocks = 500\<rparr>\<rparr>)"

section \<open>Interlinks\<close>

definition MAX_LEVEL :: nat where "MAX_LEVEL = 63"

definition superblock_level :: "hash \<Rightarrow> nat \<Rightarrow> nat" where
  "superblock_level h d =
     (if h = 0 then MAX_LEVEL
      else
        let achieved = (2 ^ 512 - 1) div unat h; required = max d 1
        in if achieved \<le> required then 0 else min (floorlog 2 (achieved div required) - 1) MAX_LEVEL)"

definition compute_interlinks :: "env \<Rightarrow> block \<Rightarrow> hash list" where
  "compute_interlinks E parent =
     (let ph = block_hash E parent; pl = superblock_level ph (b_difficulty parent)
      in map (\<lambda>i. if i \<le> pl then ph else interlinks parent ! i) [0 ..< max (length (interlinks parent)) (pl + 1)])"

section \<open>Reading the selected chain\<close>

definition order_main_chain :: "chain_state \<Rightarrow> chain_state option" where
  "order_main_chain cs =
     (case selected_tip (ghostdag cs) (tips cs) of
        None \<Rightarrow> Some cs
      | Some tip \<Rightarrow> map_option (\<lambda>c. cs\<lparr>main_chain := c\<rparr>) (selected_chain (ghostdag cs) tip))"

definition tip_height :: "chain_state \<Rightarrow> nat" where
  "tip_height cs = sat_add64 (pruned_selected_blocks cs) (length (main_chain cs)) - 1"

definition selected_tip_blue_score :: "chain_state \<Rightarrow> nat" where
  "selected_tip_blue_score cs = tip_blue_score (ghostdag cs) (tips cs)"

fun median_times :: "dag_map \<Rightarrow> ghostdag_map \<Rightarrow> nat \<Rightarrow> hash \<Rightarrow> nat list" where
  "median_times dg gd 0 cur = []"
| "median_times dg gd (Suc n) cur =
     (case hget dg cur of
        None \<Rightarrow> []
      | Some b \<Rightarrow>
          timestamp b #
          (case hget gd cur of
             None \<Rightarrow> []
           | Some d \<Rightarrow>
               (case selected_parent d of
                  None \<Rightarrow> []
                | Some sp \<Rightarrow> if sp = cur then [] else median_times dg gd n sp)))"

definition past_median_time :: "dag_map \<Rightarrow> ghostdag_map \<Rightarrow> hash \<Rightarrow> nat" where
  "past_median_time dg gd tip =
     (let times = median_times dg gd 11 tip
      in if times = [] then 0 else sort times ! (length times div 2))"

fun last_below :: "ghostdag_map \<Rightarrow> nat \<Rightarrow> hash list \<Rightarrow> hash option \<Rightarrow> hash option" where
  \<comment> \<open>the loop over the chain that stops at the first block above the threshold\<close>
  "last_below gd threshold [] fp = fp"
| "last_below gd threshold (h # hs) fp =
     (if (case hget gd h of None \<Rightarrow> u64_max | Some d \<Rightarrow> blue_score d) \<le> threshold
      then last_below gd threshold hs (Some h) else fp)"

definition finality_point :: "chain_state \<Rightarrow> hash option option" where
  "finality_point cs =
     (case selected_tip (ghostdag cs) (tips cs) of
        None \<Rightarrow> Some None
      | Some tip \<Rightarrow>
          (case hget (ghostdag cs) tip of
             None \<Rightarrow> Some None
           | Some d \<Rightarrow>
               if blue_score d \<le> FINALITY_DEPTH then Some None
               else map_option (\<lambda>chain. last_below (ghostdag cs) (blue_score d - FINALITY_DEPTH) chain None)
                      (selected_chain (ghostdag cs) tip)))"

section \<open>The canonical order and the replay\<close>

definition emit_merged :: "dag_map \<Rightarrow> hash \<Rightarrow> hash list \<Rightarrow> hash list" where
  "emit_merged dg m order = (if hhas dg m \<and> m \<notin> set order then order @ [m] else order)"

definition order_step :: "dag_map \<Rightarrow> ghostdag_map \<Rightarrow> hash \<Rightarrow> hash list \<Rightarrow> hash list" where
  \<comment> \<open>one selected-chain block; \<open>seen\<close> is the set of the blocks in \<open>order\<close>\<close>
  "order_step dg gd h order =
     (let order1 = (case hget gd h of None \<Rightarrow> order | Some d \<Rightarrow> fold (emit_merged dg) (merged_blocks d) order)
      in if h \<notin> set order1 then order1 @ [h] else order1)"

definition canonical_order_at :: "dag_map \<Rightarrow> ghostdag_map \<Rightarrow> hash \<Rightarrow> hash list option" where
  "canonical_order_at dg gd tip =
     (if \<not> hhas gd tip then Some []
      else map_option (\<lambda>chain. fold (order_step dg gd) chain []) (selected_chain gd tip))"

definition canonical_order :: "chain_state \<Rightarrow> hash list option" where
  "canonical_order cs =
     (case selected_tip (ghostdag cs) (tips cs) of
        None \<Rightarrow> Some []
      | Some t \<Rightarrow> canonical_order_at (dag cs) (ghostdag cs) t)"

definition position :: "'a \<Rightarrow> 'a list \<Rightarrow> nat option" where
  \<comment> \<open>\<open>iter().position(|y| y == x)\<close>\<close>
  "position x xs = (if x \<in> set xs then Some (length (takeWhile (\<lambda>y. y \<noteq> x) xs)) else None)"

definition replay_start :: "hash option \<Rightarrow> hash list \<Rightarrow> nat" where
  "replay_start frontier order =
     (case frontier of
        None \<Rightarrow> 0
      | Some f \<Rightarrow> (case position f order of None \<Rightarrow> 0 | Some i \<Rightarrow> i + 1))"

definition replay :: "env \<Rightarrow> chain_state \<Rightarrow> hash list \<Rightarrow> ledger \<Rightarrow> ledger" where
  \<comment> \<open>\<open>for h in ... { if let Some(block) = self.dag.get(h) { self.apply_block_effects(&block) } }\<close>\<close>
  "replay E cs hs l =
     fold (\<lambda>h l. case hget (dag cs) h of
             None \<Rightarrow> l
           | Some b \<Rightarrow> apply_block_effects E (chain_id cs) (ghostdag cs) (tips cs) b l) hs l"

fun sim_replay :: "env \<Rightarrow> nat \<Rightarrow> dag_map \<Rightarrow> ghostdag_map \<Rightarrow> hash list \<Rightarrow> ghostdag_map \<times> ledger \<Rightarrow> ghostdag_map \<times> ledger" where
  \<comment> \<open>the replay on a throwaway state, which has no tips and learns GHOSTDAG data as it goes\<close>
  "sim_replay E cid dg gd [] s = s"
| "sim_replay E cid dg gd (h # hs) (sgd, l) =
     (case hget dg h of
        None \<Rightarrow> sim_replay E cid dg gd hs (sgd, l)
      | Some b \<Rightarrow>
          (let sgd' = (case hget gd h of None \<Rightarrow> sgd | Some d \<Rightarrow> hput h d sgd)
           in sim_replay E cid dg gd hs (sgd', apply_block_effects E cid sgd' [] b l)))"

definition virtual_state_at :: "env \<Rightarrow> chain_state \<Rightarrow> hash \<Rightarrow> (ghostdag_map \<times> ledger) option" where
  "virtual_state_at E cs tip =
     map_option (\<lambda>order.
        sim_replay E (chain_id cs) (dag cs) (ghostdag cs) (drop (replay_start (base_frontier cs) order) order)
          ([], if base_captured cs then base cs else live cs))
       (canonical_order_at (dag cs) (ghostdag cs) tip)"

definition merkle_root_at :: "env \<Rightarrow> chain_state \<Rightarrow> hash \<Rightarrow> hash option" where
  "merkle_root_at E cs tip = map_option (\<lambda>(_, l). ledger_merkle_root E l) (virtual_state_at E cs tip)"

definition post_mergeset_state_root ::
  "env \<Rightarrow> chain_state \<Rightarrow> hash \<Rightarrow> hash list \<Rightarrow> block \<Rightarrow> nat \<Rightarrow> hash result option" where
  "post_mergeset_state_root E cs sp ms b blue =
     map_option (\<lambda>s.
        let (sgd, l) = sim_replay E (chain_id cs) (dag cs) (ghostdag cs) ms s
        in case simulate_apply_block_body E (chain_id cs) (tip_blue_score sgd []) b blue l of
             Inl e \<Rightarrow> Err e
           | Inr (l', fees) \<Rightarrow> Ok (ledger_merkle_root E (apply_block_reward E b blue fees l')))
       (virtual_state_at E cs sp)"

definition bind_parent_commitments :: "env \<Rightarrow> chain_state \<Rightarrow> block \<Rightarrow> block result option" where
  "bind_parent_commitments E cs b =
     (case try_compute_ghostdag_data (dag cs) (ghostdag cs) (reach cs) (parents b) MAX_MERGESET_SIZE of
        None \<Rightarrow> None
      | Some (Inl e) \<Rightarrow> Some (Err e)
      | Some (Inr gd) \<Rightarrow>
          (case selected_parent gd of
             None \<Rightarrow> Some (Err ''Cannot select parent for commitments'')
           | Some sp \<Rightarrow>
               (let b1 = b\<lparr>interlinks := (case hget (dag cs) sp of None \<Rightarrow> [] | Some p \<Rightarrow> compute_interlinks E p)\<rparr>
                in case post_mergeset_state_root E cs sp (merged_blocks gd) b1 (blue_score gd) of
                     None \<Rightarrow> None
                   | Some (Inl e) \<Rightarrow> Some (Err e)
                   | Some (Inr sroot) \<Rightarrow> Some (Ok (b1\<lparr>b_state_root := sroot\<rparr>)))))"

definition recompute_virtual_state :: "env \<Rightarrow> chain_state \<Rightarrow> chain_state option" where
  "recompute_virtual_state E cs =
     map_option (\<lambda>order. cs\<lparr>live := replay E cs (drop (replay_start (base_frontier cs) order) order) (base cs)\<rparr>)
       (canonical_order cs)"

definition advance_finalized_base :: "env \<Rightarrow> chain_state \<Rightarrow> chain_state option" where
  "advance_finalized_base E cs =
     (case finality_point cs of
        None \<Rightarrow> None
      | Some None \<Rightarrow> Some cs
      | Some (Some fp) \<Rightarrow>
          if base_frontier cs = Some fp then Some cs
          else
            (case canonical_order cs of
               None \<Rightarrow> None
             | Some order \<Rightarrow>
                 (case position fp order of
                    None \<Rightarrow> Some cs
                  | Some fp_idx \<Rightarrow>
                      let start = replay_start (base_frontier cs) order
                      in if start > fp_idx + 1 then Some cs
                         else
                           let l = replay E cs (drop start (take (fp_idx + 1) order)) (base cs)
                           in Some (cs\<lparr>live := l, base := l, base_frontier := Some fp\<rparr>))))"

end
