(* ===== verification/Admission.thy ===== *)
theory Admission
  imports Chain
begin

text \<open>
  Block admission, \<open>src/lib.rs\<close>: the form checks of a body, the bookkeeping a new block triggers (fee
  samples, mempool cleanup, pruning of bodies and of history), \<open>add_block\<close> itself and the two prechecks
  of the network layer. The pin that may skip a STARK verification is that of \<open>src/assume_valid.rs\<close>, the
  framing check that of \<open>src/stark.rs\<close>.
\<close>

section \<open>Form checks\<close>

fun account_forms_loop :: "env \<Rightarrow> nat \<Rightarrow> transparent_tx list \<Rightarrow> unit result" where
  "account_forms_loop E cid [] = Ok ()"
| "account_forms_loop E cid (tx # txs) =
     (case transparent_validate_form E tx of
        Inl e \<Rightarrow> Err (''Transparent tx: '' @ e)
      | Inr _ \<Rightarrow>
          if t_chain_id tx \<noteq> cid then Err ''Transparent tx: wrong chain_id'' else account_forms_loop E cid txs)"

definition validate_account_forms :: "env \<Rightarrow> nat \<Rightarrow> transparent_tx list \<Rightarrow> unit result" where
  "validate_account_forms E cid txs =
     (if \<not> ACCOUNT_PEER_TRANSFERS \<and> txs \<noteq> [] then Err ''Account peer transfers disabled (v27); use UTXO for value moves''
      else
        (case account_forms_loop E cid txs of
           Inl e \<Rightarrow> Err e
         | Inr _ \<Rightarrow> if list_ex (\<lambda>tx. \<not> transparent_verify E tx) txs then Err ''Transparent tx: invalid signature'' else Ok ()))"

fun utxo_forms_loop :: "env \<Rightarrow> nat \<Rightarrow> utxo_tx list \<Rightarrow> out_point list \<Rightarrow> unit result" where
  "utxo_forms_loop E cid [] seen = Ok ()"
| "utxo_forms_loop E cid (tx # txs) seen =
     (case utxo_validate_form E tx of
        Inl e \<Rightarrow> Err (''Utxo tx: '' @ e)
      | Inr _ \<Rightarrow>
          if u_chain_id tx \<noteq> cid then Err ''Utxo tx: wrong chain_id''
          else if list_ex (\<lambda>tin. previous tin \<in> set seen) (inputs tx) \<or> \<not> distinct (map previous (inputs tx))
          then Err ''Utxo tx: duplicate outpoint within block''
          else utxo_forms_loop E cid txs (map previous (inputs tx) @ seen))"

definition validate_utxo_forms :: "env \<Rightarrow> nat \<Rightarrow> utxo_tx list \<Rightarrow> unit result" where
  "validate_utxo_forms E cid txs =
     (case utxo_forms_loop E cid txs [] of
        Inl e \<Rightarrow> Err e
      | Inr _ \<Rightarrow> if list_ex (\<lambda>tx. \<not> utxo_verify E tx) txs then Err ''Utxo tx: invalid signature'' else Ok ())"

fun validate_custody_ops :: "env \<Rightarrow> nat \<Rightarrow> dag_map \<Rightarrow> custody_certificate list \<Rightarrow> unit result" where
  "validate_custody_ops E cid dg [] = Ok ()"
| "validate_custody_ops E cid dg (op # ops) =
     (if cc_kind op = BridgeExit \<or> cc_kind op = BridgeEnter
      then Err ''Bridge exit/enter disabled until a real cross-chain bridge ships''
      else if cc_chain_id op \<noteq> cid then Err ''Wrong chain_id on custody op''
      else if cc_amount op = 0 then Err ''Custody amount must be > 0''
      else if \<not> is_valid_address E (cc_owner op) then Err ''Invalid custody owner address''
      else
        (case decode_sid E (cc_settlement_id op) of
           Inl e \<Rightarrow> Err e
         | Inr sid \<Rightarrow>
             (case custody_verify E op sid of
                Inl e \<Rightarrow> Err (''Custody: '' @ e)
              | Inr _ \<Rightarrow>
                  (case hget dg (cc_block_hash op) of
                     None \<Rightarrow> Err ''Custody: anchor block unknown''
                   | Some anchor \<Rightarrow>
                       if stark_proof anchor = [] \<or> birth_certificate anchor = []
                       then Err ''Custody: anchor block has no consensus witnesses''
                       else if cc_settlement_id op \<noteq> settlement_hex E anchor
                       then Err ''Custody: settlement_id does not match anchor block''
                       else if cc_issuer_pubkey op \<noteq> creator_pubkey anchor
                       then Err ''Custody: issuer_pubkey does not match anchor block''
                       else if cc_birth_certificate op \<noteq> birth_certificate anchor
                       then Err ''Custody: birth certificate does not match anchor block''
                       else validate_custody_ops E cid dg ops))))"

definition validate_block_transactions :: "env \<Rightarrow> nat \<Rightarrow> dag_map \<Rightarrow> block \<Rightarrow> unit result" where
  "validate_block_transactions E cid dg b =
     (case validate_account_forms E cid (transparent_txs b) of
        Inl e \<Rightarrow> Err e
      | Inr _ \<Rightarrow>
          (case validate_utxo_forms E cid (utxo_txs b) of
             Inl e \<Rightarrow> Err e
           | Inr _ \<Rightarrow>
               (case validate_registry_ops E cid (registry_ops b) of
                  Inl e \<Rightarrow> Err e
                | Inr _ \<Rightarrow> validate_custody_ops E cid dg (custody_ops b))))"

definition RESULT_HEADER_LEN :: nat where "RESULT_HEADER_LEN = 16"
definition MAX_STARK_PROOF_BYTES :: nat where "MAX_STARK_PROOF_BYTES = 24 * 1024"

definition precheck_format :: "env \<Rightarrow> bytes \<Rightarrow> unit result" where
  "precheck_format E proof =
     (if length proof \<le> RESULT_HEADER_LEN then Err ''too short''
      else if length proof > MAX_STARK_PROOF_BYTES then Err ''too large''
      else if \<not> stark_parses E (drop RESULT_HEADER_LEN proof) then Err ''malformed''
      else Ok ())"

definition verify_stark_proof :: "env \<Rightarrow> block \<Rightarrow> bool" where
  "verify_stark_proof E b = (is_ok (precheck_format E (stark_proof b)) \<and> stark_verify E (block_hash E b) (stark_proof b))"

definition may_skip_stark_verify :: "hash option \<Rightarrow> hash \<Rightarrow> (hash \<Rightarrow> bool) \<Rightarrow> bool" where
  "may_skip_stark_verify pin h pin_is_ancestor =
     (case pin of None \<Rightarrow> False | Some p \<Rightarrow> if h = p then True else pin_is_ancestor p)"

section \<open>Bookkeeping\<close>

definition fee_record :: "nat \<Rightarrow> nat list \<Rightarrow> nat list \<Rightarrow> fee_rate_history \<Rightarrow> fee_rate_history" where
  \<comment> \<open>\<open>FeeRateHistory::record\<close>\<close>
  "fee_record blue rates lags fh =
     (if rates = [] then fh
      else
        let ss = samples fh @ [\<lparr>fs_blue_score = blue, feerates = rates, confirm_blues = lags\<rparr>];
            mx = max (max_blocks fh) 1
        in fh\<lparr>samples := (if length ss > mx then drop (length ss - mx) ss else ss)\<rparr>)"

definition block_fee_sample :: "env \<Rightarrow> (hash, nat) hmap \<Rightarrow> nat \<Rightarrow> block \<Rightarrow> (nat list \<times> nat list) option" where
  "block_fee_sample E seen blue b =
     (let n = length (transparent_txs b) + length (utxo_txs b);
          tbytes = map (\<lambda>tx. max (transparent_relay_bytes E tx) 1) (transparent_txs b);
          ubytes = map (\<lambda>tx. max (utxo_relay_bytes E tx) 1) (utxo_txs b);
          fees = map t_fee (transparent_txs b) @ map u_fee (utxo_txs b);
          bs = tbytes @ ubytes;
          lag = (\<lambda>h. case hget seen h of None \<Rightarrow> 0 | Some s \<Rightarrow> blue - s);
          rates = map2 (div) fees bs;
          lags = map (lag \<circ> transparent_tx_hash E) (transparent_txs b) @ map (lag \<circ> utxo_txid E) (utxo_txs b)
      in if n = 0 then None
         else if n > 1
         then Some (rates @ [(sum_list fees mod 2 ^ 128) div max (sum_list bs mod 2 ^ 128) 1], lags @ [Max (set lags)])
         else Some (rates, lags))"

definition record_selected_chain_fee_samples :: "env \<Rightarrow> chain_state \<Rightarrow> chain_state option" where
  "record_selected_chain_fee_samples E cs =
     (case selected_tip (ghostdag cs) (tips cs) of
        None \<Rightarrow> Some cs
      | Some tip \<Rightarrow>
          map_option (\<lambda>chain.
             let last_recorded = (if samples (fee_history cs) = [] then 0 else fs_blue_score (last (samples (fee_history cs))));
                 pending = List.map_filter (\<lambda>h.
                   case hget (ghostdag cs) h of
                     None \<Rightarrow> None
                   | Some d \<Rightarrow>
                       if blue_score d \<le> last_recorded then None
                       else (case hget (dag cs) h of
                               None \<Rightarrow> None
                             | Some b \<Rightarrow>
                                 map_option (\<lambda>(r, l). (blue_score d, r, l))
                                   (block_fee_sample E (tx_first_seen_blue cs) (blue_score d) b))) chain
             in cs\<lparr>fee_history := fold (\<lambda>(bs, r, l). fee_record bs r l) pending (fee_history cs)\<rparr>)
           (selected_chain (ghostdag cs) tip))"

definition drop_included_from_mempools :: "env \<Rightarrow> block \<Rightarrow> chain_state \<Rightarrow> chain_state" where
  "drop_included_from_mempools E b cs =
     cs\<lparr>transparent_mempool := filter (\<lambda>tx. \<not> list_ex (\<lambda>btx. t_from btx = t_from tx \<and> t_nonce btx = t_nonce tx)
                                 (transparent_txs b)) (transparent_mempool cs),
        utxo_mempool := filter (\<lambda>tx. \<not> list_ex (\<lambda>btx. utxo_txid E btx = utxo_txid E tx) (utxo_txs b)) (utxo_mempool cs),
        registry_mempool := filter (\<lambda>op. \<not> list_ex (\<lambda>bop. signer_address E bop = signer_address E op \<and> r_nonce bop = r_nonce op)
                              (registry_ops b)) (registry_mempool cs),
        custody_mempool := filter (\<lambda>op. \<not> list_ex (\<lambda>bop. cc_owner bop = cc_owner op \<and> cc_nonce bop = cc_nonce op
                              \<and> cc_kind bop = cc_kind op) (custody_ops b)) (custody_mempool cs),
        tx_first_seen_blue := fold hdel (map (transparent_tx_hash E) (transparent_txs b) @ map (utxo_txid E) (utxo_txs b))
                                (tx_first_seen_blue cs)\<rparr>"

definition is_body_empty :: "block \<Rightarrow> bool" where
  "is_body_empty b \<longleftrightarrow> transparent_txs b = [] \<and> utxo_txs b = [] \<and> registry_ops b = [] \<and> custody_ops b = []
     \<and> stark_proof b = [] \<and> birth_certificate b = []"

definition is_body_pruned :: "chain_state \<Rightarrow> hash \<Rightarrow> bool" where
  "is_body_pruned cs h = (case hget (dag cs) h of None \<Rightarrow> False | Some b \<Rightarrow> is_body_empty b)"

definition clear_body :: "block \<Rightarrow> block" where
  "clear_body b = b\<lparr>transparent_txs := [], utxo_txs := [], registry_ops := [], custody_ops := [], stark_proof := [],
     birth_certificate := []\<rparr>"

definition prune_bodies :: "chain_state \<Rightarrow> chain_state" where
  "prune_bodies cs =
     (if archival cs then cs
      else
        let tip_score = selected_tip_blue_score cs
        in if tip_score \<le> FINALITY_DEPTH then cs
           else
             let threshold = tip_score - FINALITY_DEPTH;
                 to_prune = map fst (filter (\<lambda>(h, b).
                    (case hget (ghostdag cs) h of None \<Rightarrow> u64_max | Some d \<Rightarrow> blue_score d) \<le> threshold
                    \<and> \<not> is_body_empty b) (dag cs))
             in fold (\<lambda>h cs. cs\<lparr>dag := (case hget (dag cs) h of None \<Rightarrow> dag cs | Some b \<Rightarrow> hput h (clear_body b) (dag cs)),
                             reach := drop_leaf (reach cs) h\<rparr>) to_prune cs)"

fun genesis_replay :: "env \<Rightarrow> nat \<Rightarrow> dag_map \<Rightarrow> ghostdag_map \<Rightarrow> hash list \<Rightarrow> ghostdag_map \<times> hash list \<times> ledger \<Rightarrow> ledger option" where
  "genesis_replay E cid dg gd [] (sgd, stips, l) = Some l"
| "genesis_replay E cid dg gd (h # hs) (sgd, stips, l) =
     (case hget dg h of
        None \<Rightarrow> None
      | Some b \<Rightarrow>
          (let sgd' = (case hget gd h of None \<Rightarrow> sgd | Some d \<Rightarrow> hput h d sgd)
           in genesis_replay E cid dg gd hs (sgd', stips, apply_block_effects E cid sgd' stips b l)))"

definition ledger_via_genesis_replay :: "env \<Rightarrow> chain_state \<Rightarrow> hash \<Rightarrow> ledger option option" where
  "ledger_via_genesis_replay E cs tip =
     map_option (\<lambda>order.
        let g = block_hash E genesis_block;
            l0 = (if base_captured cs then ledger_default
                  else ledger_default\<lparr>accounts := accounts (live cs), minted_supply := minted_supply (live cs),
                    fees_burned := fees_burned (live cs), treasury := treasury (live cs), registry := registry (live cs),
                    staked := staked (live cs)\<rparr>)
        in genesis_replay E (chain_id cs) (dag cs) (ghostdag cs) order ([(g, ghostdag_genesis)], [g], l0))
       (canonical_order_at (dag cs) (ghostdag cs) tip)"

definition below_index :: "ghostdag_map \<Rightarrow> nat \<Rightarrow> hash list \<Rightarrow> nat" where
  \<comment> \<open>\<open>pp_index_in_chain\<close>: the index of the block \<open>last_below\<close> finds\<close>
  "below_index gd threshold chain =
     length (takeWhile (\<lambda>h. (case hget gd h of None \<Rightarrow> u64_max | Some d \<Rightarrow> blue_score d) \<le> threshold) chain) - 1"

definition pruned_state :: "hash \<Rightarrow> nat \<Rightarrow> (hash \<Rightarrow> bool) \<Rightarrow> chain_state \<Rightarrow> chain_state" where
  \<comment> \<open>discarding everything outside \<open>keep\<close> and cutting dangling selected parents\<close>
  "pruned_state pp idx keep cs =
     cs\<lparr>dag := hretain (\<lambda>h _. keep h) (dag cs),
        ghostdag := hmap_values (\<lambda>d. case selected_parent d of
                        None \<Rightarrow> d
                      | Some sp \<Rightarrow> if \<not> keep sp then d\<lparr>selected_parent := None\<rparr> else d)
                    (hretain (\<lambda>h _. keep h) (ghostdag cs)),
        reach := reach_retain (reach cs) {h \<in> set (hkeys (dag cs)). keep h},
        tips := filter keep (tips cs),
        pruned_selected_blocks := wadd64 (pruned_selected_blocks cs) idx,
        pruning_point := Some pp\<rparr>"

definition cache_pruning_ledger :: "env \<Rightarrow> hash \<Rightarrow> chain_state \<Rightarrow> chain_state option" where
  "cache_pruning_ledger E pp cs =
     map_option (\<lambda>r. case r of
          None \<Rightarrow> cs
        | Some l \<Rightarrow>
            if map_option b_state_root (hget (dag cs) pp) = Some (ledger_merkle_root E l)
            then cs\<lparr>pruning_ledger := Some l\<rparr> else cs)
       (ledger_via_genesis_replay E cs pp)"

definition prune_history :: "env \<Rightarrow> chain_state \<Rightarrow> chain_state option" where
  "prune_history E cs =
     (if archival cs then Some cs
      else
        (case selected_tip (ghostdag cs) (tips cs) of
           None \<Rightarrow> Some cs
         | Some tip \<Rightarrow>
             let tip_score = (case hget (ghostdag cs) tip of None \<Rightarrow> 0 | Some d \<Rightarrow> blue_score d)
             in if tip_score \<le> PRUNING_DEPTH then Some cs
                else
                  (case selected_chain (ghostdag cs) tip of
                     None \<Rightarrow> None
                   | Some chain \<Rightarrow>
                       (case last_below (ghostdag cs) (tip_score - PRUNING_DEPTH) chain None of
                          None \<Rightarrow> Some cs
                        | Some pp \<Rightarrow>
                            let pp_score = (case hget (ghostdag cs) pp of None \<Rightarrow> 0 | Some d \<Rightarrow> blue_score d);
                                score_ok = (\<lambda>h. case hget (ghostdag cs) h of None \<Rightarrow> True | Some d \<Rightarrow> blue_score d \<ge> pp_score);
                                keep = (\<lambda>h. hhas (dag cs) h \<and> score_ok h)
                            in if length (filter keep (hkeys (dag cs))) = length (dag cs) then Some cs
                               else
                                 (case cache_pruning_ledger E pp
                                         (pruned_state pp (below_index (ghostdag cs) (tip_score - PRUNING_DEPTH) chain) keep cs) of
                                    None \<Rightarrow> None
                                  | Some cs1 \<Rightarrow> order_main_chain cs1)))))"

section \<open>Adding a block\<close>

definition max_parent_timestamp :: "dag_map \<Rightarrow> hash list \<Rightarrow> nat" where
  "max_parent_timestamp dg ps = foldr max (map timestamp (List.map_filter (hget dg) ps)) 0"

definition tip_timestamp :: "chain_state \<Rightarrow> nat" where
  "tip_timestamp cs =
     (let ts = map timestamp (List.map_filter (hget (dag cs)) (tips cs))
      in if ts = [] then GENESIS_TIMESTAMP_MS else foldr max ts 0)"

definition check_structure :: "env \<Rightarrow> chain_state \<Rightarrow> block \<Rightarrow> unit result" where
  \<comment> \<open>the checks of \<open>add_block\<close> before the finality rule\<close>
  "check_structure E cs b =
     (if hhas (dag cs) (block_hash E b) then Err ''Block already known''
      else if \<not> verify_size E b then Err ''Block base exceeds 22KB limit''
      else if length (ser_block E b) > MAX_BLOCK_BYTES then Err ''Block (with witness) exceeds total size limit''
      else if parents b = [] then Err ''Block has no parents''
      else if length (parents b) > MAX_BLOCK_PARENTS then Err ''Too many parents''
      else if \<not> distinct (parents b) then Err ''Duplicate parent in block''
      else if list_ex (\<lambda>p. \<not> hhas (dag cs) p) (parents b) then Err ''Unknown parent block''
      else Ok ())"

definition check_finality :: "chain_state \<Rightarrow> block \<Rightarrow> unit result option" where
  "check_finality cs b =
     map_option (\<lambda>fp.
        case (fp, select_parent (ghostdag cs) (parents b)) of
          (Some f, Some sp) \<Rightarrow>
            if is_chain_ancestor (reach cs) f sp = Some False
            then Err ''Finality violation: block's selected chain does not include the finality point'' else Ok ()
        | _ \<Rightarrow> Ok ())
       (finality_point cs)"

definition check_witnesses :: "env \<Rightarrow> nat \<Rightarrow> hash option \<Rightarrow> chain_state \<Rightarrow> block \<Rightarrow> hash \<Rightarrow> unit result" where
  \<comment> \<open>from the body commitment to the forms, for the selected parent \<open>sp\<close>\<close>
  "check_witnesses E now pin cs b sp =
     (if b_merkle_root b \<noteq> block_merkle_root E b then Err ''merkle_root does not commit to the block's transactions''
      else if timestamp b < max_parent_timestamp (dag cs) (parents b) then Err ''Block timestamp predates its parents''
      else if timestamp b \<le> past_median_time (dag cs) (ghostdag cs) sp then Err ''Block timestamp not beyond past median time''
      else if timestamp b > sat_add64 now MAX_FUTURE_DRIFT_MS then Err ''Block timestamp too far in the future''
      else if \<not> may_skip_stark_verify pin (block_hash E b)
                 (\<lambda>p. hhas (dag cs) p \<and> is_ancestor (reach cs) (block_hash E b) p (dag cs))
              \<and> \<not> verify_stark_proof E b
      then Err ''Invalid STARK proof''
      else
        (case verify_issuance E b of
           Inl e \<Rightarrow> Err e
         | Inr _ \<Rightarrow> validate_block_transactions E (chain_id cs) (dag cs) b))"

definition check_header :: "env \<Rightarrow> chain_state \<Rightarrow> block \<Rightarrow> nat \<Rightarrow> hash result" where
  \<comment> \<open>difficulty, proof of work, witnesses present and framed, interlinks; returns the selected parent\<close>
  "check_header E cs b required =
     (if b_difficulty b \<noteq> required then Err ''Wrong difficulty''
      else if \<not> verify_pow (block_hash E b) (b_difficulty b) then Err ''Invalid proof of work''
      else if stark_proof b = [] \<or> birth_certificate b = []
      then Err ''Header-only / empty-witness blocks are not consensus-admissible''
      else
        (case precheck_format E (stark_proof b) of
           Inl e \<Rightarrow> Err (''Invalid STARK proof: '' @ e)
         | Inr _ \<Rightarrow>
             (case select_parent (ghostdag cs) (parents b) of
                None \<Rightarrow> Err ''Cannot select parent''
              | Some sp \<Rightarrow>
                  if interlinks b \<noteq> (case hget (dag cs) sp of None \<Rightarrow> [] | Some p \<Rightarrow> compute_interlinks E p)
                  then Err ''interlinks do not match selected parent''
                  else Ok sp)))"

definition validate_block :: "env \<Rightarrow> bool \<Rightarrow> nat \<Rightarrow> hash option \<Rightarrow> chain_state \<Rightarrow> block \<Rightarrow> ghostdag_data result option" where
  \<comment> \<open>everything \<open>add_block\<close> checks before its first mutation; the GHOSTDAG data of the block on success\<close>
  "validate_block E lab now pin cs b =
     (case check_structure E cs b of
        Inl e \<Rightarrow> Some (Err e)
      | Inr _ \<Rightarrow>
          (case check_finality cs b of
             None \<Rightarrow> None
           | Some (Inl e) \<Rightarrow> Some (Err e)
           | Some (Inr _) \<Rightarrow>
               (case expected_difficulty_at lab (dag cs) (ghostdag cs) (minted_supply (live cs)) (parents b) (timestamp b) of
                  None \<Rightarrow> None
                | Some required \<Rightarrow>
                    (case check_header E cs b required of
                       Inl e \<Rightarrow> Some (Err e)
                     | Inr sp \<Rightarrow>
                         (case check_witnesses E now pin cs b sp of
                            Inl e \<Rightarrow> Some (Err e)
                          | Inr _ \<Rightarrow>
                              (case try_compute_ghostdag_data (dag cs) (ghostdag cs) (reach cs) (parents b) MAX_MERGESET_SIZE of
                                 None \<Rightarrow> None
                               | Some (Inl e) \<Rightarrow> Some (Err e)
                               | Some (Inr gd) \<Rightarrow>
                                   (case post_mergeset_state_root E cs sp (merged_blocks gd) b (blue_score gd) of
                                      None \<Rightarrow> None
                                    | Some (Inl e) \<Rightarrow> Some (Err e)
                                    | Some (Inr expected) \<Rightarrow>
                                        if b_state_root b \<noteq> expected
                                        then Some (Err ''state_root does not match post-mergeset tip state'')
                                        else Some (Ok gd))))))))"

definition insert_block :: "env \<Rightarrow> block \<Rightarrow> ghostdag_data \<Rightarrow> chain_state \<Rightarrow> chain_state option" where
  "insert_block E b gd cs =
     (let h = block_hash E b
      in map_option (\<lambda>r. cs\<lparr>dag := hput h b (dag cs), ghostdag := hput h gd (ghostdag cs), reach := r,
                            tips := filter (\<lambda>t. t \<notin> set (parents b)) (tips cs) @ [h]\<rparr>)
           (reach_add_block (reach cs) h (selected_parent gd) (merged_blocks gd)))"

definition capture_base :: "chain_state \<Rightarrow> chain_state" where
  "capture_base cs = (if \<not> base_captured cs then cs\<lparr>base := live cs, base_captured := True\<rparr> else cs)"

definition refresh_difficulty :: "bool \<Rightarrow> chain_state \<Rightarrow> chain_state option" where
  "refresh_difficulty lab cs =
     map_option (\<lambda>d. cs\<lparr>difficulty := d\<rparr>)
       (expected_difficulty_at lab (dag cs) (ghostdag cs) (minted_supply (live cs)) (tips cs)
          (sat_add64 (tip_timestamp cs) TARGET_BLOCK_TIME_MS))"

definition commit_block :: "env \<Rightarrow> bool \<Rightarrow> block \<Rightarrow> ghostdag_data \<Rightarrow> chain_state \<Rightarrow> chain_state option" where
  \<comment> \<open>\<open>add_block\<close> from its first mutation on\<close>
  "commit_block E lab b gd cs =
     Option.bind (insert_block E b gd cs) (\<lambda>cs1.
     Option.bind (order_main_chain cs1) (\<lambda>cs2.
     Option.bind (advance_finalized_base E (capture_base cs2)) (\<lambda>cs3.
     Option.bind (recompute_virtual_state E cs3) (\<lambda>cs4.
     Option.bind (record_selected_chain_fee_samples E cs4) (\<lambda>cs5.
     Option.bind (refresh_difficulty lab (drop_included_from_mempools E b cs5)) (\<lambda>cs6.
     prune_history E (prune_bodies cs6)))))))"

definition add_block :: "env \<Rightarrow> bool \<Rightarrow> nat \<Rightarrow> hash option \<Rightarrow> block \<Rightarrow> chain_state \<Rightarrow> (chain_state \<times> unit result) option" where
  "add_block E lab now pin b cs =
     (case validate_block E lab now pin cs b of
        None \<Rightarrow> None
      | Some (Inl e) \<Rightarrow> Some (cs, Err e)
      | Some (Inr gd) \<Rightarrow> map_option (\<lambda>cs'. (cs', Ok ())) (commit_block E lab b gd cs))"

section \<open>Prechecks\<close>

definition check_parents :: "dag_map \<Rightarrow> hash list \<Rightarrow> unit result" where
  \<comment> \<open>duplicates and unknown parents, in one pass\<close>
  "check_parents dg ps =
     fold_res (\<lambda>i _. if ps ! i \<in> set (take i ps) then Err ''Duplicate parent in block''
                     else if \<not> hhas dg (ps ! i) then Err ''Unknown parent block'' else Ok ()) [0 ..< length ps] ()"

definition precheck_header :: "env \<Rightarrow> bool \<Rightarrow> chain_state \<Rightarrow> block \<Rightarrow> unit result option" where
  "precheck_header E lab cs b =
     (if hhas (dag cs) (block_hash E b) then Some (Err ''Block already known'')
      else if parents b = [] then Some (Err ''Block has no parents'')
      else if length (parents b) > MAX_BLOCK_PARENTS then Some (Err ''Too many parents'')
      else
        (case check_parents (dag cs) (parents b) of
           Inl e \<Rightarrow> Some (Err e)
         | Inr _ \<Rightarrow>
             map_option (\<lambda>required.
                if b_difficulty b \<noteq> required then Err ''Wrong difficulty''
                else if \<not> verify_pow (block_hash E b) (b_difficulty b) then Err ''Invalid proof of work''
                else
                  (case select_parent (ghostdag cs) (parents b) of
                     None \<Rightarrow> Err ''Cannot select parent''
                   | Some sp \<Rightarrow>
                       if interlinks b \<noteq> (case hget (dag cs) sp of None \<Rightarrow> [] | Some p \<Rightarrow> compute_interlinks E p)
                       then Err ''interlinks do not match selected parent''
                       else Ok ()))
               (expected_difficulty_at lab (dag cs) (ghostdag cs) (minted_supply (live cs)) (parents b) (timestamp b))))"

definition precheck_block :: "env \<Rightarrow> bool \<Rightarrow> chain_state \<Rightarrow> block \<Rightarrow> unit result option" where
  "precheck_block E lab cs b =
     (if hhas (dag cs) (block_hash E b) then Some (Err ''Block already known'')
      else if \<not> verify_size E b then Some (Err ''Block base exceeds 22KB limit'')
      else if length (ser_block E b) > MAX_BLOCK_BYTES then Some (Err ''Block (with witness) exceeds total size limit'')
      else if parents b = [] then Some (Err ''Block has no parents'')
      else if length (parents b) > MAX_BLOCK_PARENTS then Some (Err ''Too many parents'')
      else
        (case check_parents (dag cs) (parents b) of
           Inl e \<Rightarrow> Some (Err e)
         | Inr _ \<Rightarrow>
             map_option (\<lambda>required. case check_header E cs b required of Inl e \<Rightarrow> Err e | Inr _ \<Rightarrow> Ok ())
               (expected_difficulty_at lab (dag cs) (ghostdag cs) (minted_supply (live cs)) (parents b) (timestamp b))))"

end
