(* ===== verification/Order_Correct.thy ===== *)
theory Order_Correct
  imports Admission Ghostdag_Correct
begin

text \<open>
  The canonical order of \<open>src/lib.rs\<close> over the coloured DAG: what a block merges, how the index's tree
  follows selected parents, the selected chain block by block, the order as a linear arrangement of a
  block's past, its stability when the DAG grows, and the finality point as a cut of the chain.
\<close>

section \<open>What a block merges\<close>

definition merge_ok :: "dag_map \<Rightarrow> ghostdag_map \<Rightarrow> hash \<Rightarrow> ghostdag_data \<Rightarrow> bool" where
  \<comment> \<open>a block merges its past minus that of its selected parent\<close>
  "merge_ok dg gd h d \<longleftrightarrow>
     (case selected_parent d of
        None \<Rightarrow> dag_parents dg h = [] \<and> merged_blocks d = []
      | Some sp \<Rightarrow> edge dg sp h \<and> set (merged_blocks d) = {x. anc dg x h \<and> \<not> anc_incl dg x sp})"

lemma color_loop_mset:
  "color_loop col cs cur bl rd = (bl', rd') \<Longrightarrow> \<exists>bs rs. bl' = bl @ bs \<and> rd' = rd @ rs \<and> mset bs + mset rs = mset cs"
proof (induction cs arbitrary: cur bl rd)
  case (Cons c cs)
  show ?case
  proof (cases "col cur c")
    case True
    then obtain bs rs where "bl' = (bl @ [c]) @ bs" "rd' = rd @ rs" "mset bs + mset rs = mset cs"
      using Cons.IH [of "List.insert c cur" "bl @ [c]" rd] Cons.prems by auto
    then show ?thesis by (intro exI [of _ "c # bs"] exI [of _ rs]) simp
  next
    case False
    then obtain bs rs where "bl' = bl @ bs" "rd' = (rd @ [c]) @ rs" "mset bs + mset rs = mset cs"
      using Cons.IH [of cur bl "rd @ [c]"] Cons.prems by auto
    then show ?thesis by (intro exI [of _ bs] exI [of _ "c # rs"]) simp
  qed
qed simp

lemma merged_distinct:
  assumes "try_compute_ghostdag_data dg gd r ps M = Some (Ok d)"
  shows "distinct (merged_blocks d)"
proof (cases "select_parent gd ps")
  case None
  then show ?thesis using assms by (auto simp: try_compute_ghostdag_data_def ghostdag_genesis_def merged_blocks_def)
next
  case (Some sp)
  define ms where "ms = topological_order dg r (mergeset dg ps sp)"
  from assms Some obtain cur bl rd where l: "color_loop (color_candidate_blue dg r) ms cur [sp] [] = (bl, rd)"
    and c: "mergeset_blues d = bl" "mergeset_reds d = rd"
    by (auto simp: try_compute_ghostdag_data_def Let_def ms_def split: option.splits if_splits prod.splits)
  from color_loop_mset [OF l] obtain bs where b: "bl = [sp] @ bs" "mset bs + mset rd = mset ms" by auto
  have "distinct ms"
    using distinct_mergeset [of dg ps sp] mset_order_by_rank unfolding ms_def topological_order_def by (metis mset_eq_imp_distinct_iff)
  then have "distinct (bs @ rd)" using b(2) by (metis mset_append mset_eq_imp_distinct_iff)
  moreover have "merged_blocks d = bs @ rd" using c b(1) by (simp add: merged_blocks_def)
  ultimately show ?thesis by simp
qed

lemma anc_hput_new:
  assumes "dag_fresh dg h" and "h \<notin> set (parents b)"
  shows "anc (hput h b dg) x h \<longleftrightarrow> (\<exists>p\<in>set (parents b). anc_incl dg x p)"
proof -
  have "anc_incl (hput h b dg) x p = anc_incl dg x p" if "p \<in> set (parents b)" for p
    using anc_incl_hput_old [OF assms(1) _ assms(2)] that assms(2) by metis
  then show ?thesis by (simp add: anc_iff_parent dag_parents_def)
qed

lemma merge_ok_old:
  assumes fresh: "dag_fresh dg h" and hp: "h \<notin> set (parents b)" and xh: "x \<noteq> h" and m: "merge_ok dg gd x e"
  shows "merge_ok (hput h b dg) gd' x e"
proof -
  have "dag_parents (hput h b dg) x = dag_parents dg x" using xh by (simp add: dag_parents_def)
  moreover have "anc_incl (hput h b dg) y sp = anc_incl dg y sp" if "edge dg sp x" for y sp
    using anc_incl_hput_old [OF fresh _ hp] that fresh by (metis dag_fresh_def)
  ultimately show ?thesis
    using m xh anc_hput_old [OF fresh hp xh] by (simp add: merge_ok_def edge_hput split: option.splits)
qed

lemma dag_run_colored:
  assumes run: "dag_run dg gd r" and ne: "parents b \<noteq> []" and ps: "\<forall>p\<in>set (parents b). hhas dg p"
    and size: "length dg < 2 ^ 41" and d: "try_compute_ghostdag_data dg gd r (parents b) M = Some (Ok d)"
  obtains sp where "select_parent gd (parents b) = Some sp" and "selected_parent d = Some sp" and "sp \<in> set (parents b)"
    and "set (merged_blocks d) = {x. (\<exists>p\<in>set (parents b). anc_incl dg x p) \<and> \<not> anc_incl dg x sp}"
proof -
  have ps': "\<And>p. p \<in> set (parents b) \<Longrightarrow> hhas dg p" using ps by blast
  obtain sp where c: "colored dg gd (parents b) sp d"
    using try_compute_ok [OF dag_run_inv [OF run] ne ps' size, of M] d by (auto split: if_splits)
  then have s: "select_parent gd (parents b) = Some sp" by (simp add: colored_def)
  have "set (merged_blocks d) = set (mergeset dg (parents b) sp)"
    using c by (auto simp: colored_def merged_blocks_def)
  then show thesis
    using that [OF s] c select_parent_Some(1) [OF s] by (auto simp: colored_def set_mergeset)
qed

lemma dag_run_fresh:
  assumes "dag_run dg gd r" and "\<not> hhas dg h" and "\<forall>p\<in>set (parents b). hhas dg p"
  shows "dag_fresh dg h" and "h \<notin> set (parents b)" and "\<not> hhas gd h"
  using ghost_fresh [OF dag_run_inv [OF assms(1)] assms(2)] assms dag_run_inv [OF assms(1)] by (auto simp: ghost_inv_def)

lemma dag_run_merge:
  "dag_run dg gd r \<Longrightarrow> hget gd x = Some e \<Longrightarrow> merge_ok dg gd x e"
proof (induction arbitrary: x e rule: dag_run.induct)
  case (genesis b g r)
  then show ?case by (auto simp: merge_ok_def ghostdag_genesis_def merged_blocks_def dag_parents_def split: if_splits)
next
  case (block dg gd r h b M d r')
  note f = dag_run_fresh [OF block.hyps(1,2,4)]
  show ?case
  proof (cases "x = h")
    case True
    obtain sp where "selected_parent d = Some sp" "sp \<in> set (parents b)"
      "set (merged_blocks d) = {x. (\<exists>p\<in>set (parents b). anc_incl dg x p) \<and> \<not> anc_incl dg x sp}"
      by (rule dag_run_colored [OF block.hyps(1,3,4,5,6)])
    moreover have "anc_incl (hput h b dg) y sp = anc_incl dg y sp" for y
      using anc_incl_hput_old [OF f(1) _ f(2)] calculation(2) f(2) by metis
    ultimately show ?thesis
      using True block.prems by (simp add: merge_ok_def edge_hput anc_hput_new [OF f(1,2)])
  next
    case False
    then show ?thesis using merge_ok_old [OF f(1,2) False] block.IH [of x e] block.prems by simp
  qed
qed

lemma tedge_added:
  assumes ok: "index_ok r" "\<not> hhas (nodes r) h" "length (nodes r) < 2 ^ 41" and add: "reach_add_block r h sp ms = Some r'"
    and sp: "case sp of None \<Rightarrow> True | Some p \<Rightarrow> hhas (nodes r) p"
  shows "tedge (nodes r') p c \<longleftrightarrow> tedge (nodes r) p c \<or> (sp = Some p \<and> c = h)"
proof -
  obtain r1 nds1 sp' where r1: "reach_add_block r h sp ms = Some r1" "grown (nodes r) nds1 h sp'"
    "sp' = (case sp of None \<Rightarrow> None | Some p \<Rightarrow> if hhas (nodes r) p then Some p else None)"
    "fcs_step nds1 (nodes r1) h (set ms - {h})"
    by (rule reach_add_block_returns [OF ok, of sp ms])
  have "tedge (nodes r1) = tedge nds1" using r1(4) by (intro fcs_only_tedge) (simp add: fcs_step_def)
  moreover have "sp' = sp" using r1(3) sp by (auto split: option.splits)
  moreover have "r1 = r'" using r1(1) add by simp
  moreover have "tedge nds1 p c \<longleftrightarrow> tedge (nodes r) p c \<or> (sp' = Some p \<and> c = h)" using r1(2) by (simp add: grown_def)
  ultimately show ?thesis by simp
qed

lemma dag_run_tree:
  "dag_run dg gd r \<Longrightarrow> tedge (nodes r) p c \<longleftrightarrow> sp_edge gd c p"
proof (induction arbitrary: p c rule: dag_run.induct)
  case (genesis b g r)
  have z: "\<not> hhas (nodes reach_new) g" "index_ok reach_new" "\<not> tedge (nodes reach_new) p c" "length (nodes reach_new) < 2 ^ 41"
    using reach_inv_new by (auto simp: reach_new_def hhas_def reach_inv_def tedge_def)
  then have "\<not> tedge (nodes r) p c" using tedge_added [OF z(2,1,4) genesis(2)] by simp
  then show ?case by (auto simp: sp_edge_def ghostdag_genesis_def)
next
  case (block dg gd r h b M d r')
  note g = dag_run_inv [OF block.hyps(1), unfolded ghost_inv_def]
  note f = dag_run_fresh [OF block.hyps(1,2,4)]
  obtain sp where sp: "selected_parent d = Some sp" "sp \<in> set (parents b)"
    by (rule dag_run_colored [OF block.hyps(1,3,4,5,6)])
  have ok: "index_ok r" "\<not> hhas (nodes r) h" "hhas (nodes r) sp" using g block.hyps(2,4) sp(2) by (auto simp: reach_inv_def)
  have "length (nodes r) = length dg"
    using hmap_same_length [of "nodes r" dg] g by (simp add: reach_inv_def index_ok_def forest_ok_def)
  then have "tedge (nodes r') p c \<longleftrightarrow> tedge (nodes r) p c \<or> (Some sp = Some p \<and> c = h)"
    using tedge_added [OF ok(1,2) _ block.hyps(7), of p c] block.hyps(5) sp(1) ok(3) by simp
  moreover have "\<not> sp_edge gd h p" for p using f(3) by (simp add: sp_edge_def hhas_def)
  ultimately show ?case using block.IH [of p c] sp(1) by (auto simp: sp_edge_def split: if_splits)
qed

section \<open>The selected chain, block by block\<close>

abbreviation sp_anc :: "ghostdag_map \<Rightarrow> hash \<Rightarrow> hash \<Rightarrow> bool" where
  \<comment> \<open>ancestor along selected parents, reflexive\<close>
  "sp_anc gd \<equiv> (\<lambda>x y. sp_edge gd y x)\<^sup>*\<^sup>*"

lemma selected_induct [consumes 2, case_names base child]:
  assumes l: "links_ok gd" and "hhas gd x"
    and first: "\<And>x d. hget gd x = Some d \<Longrightarrow> selected_parent d = None \<Longrightarrow> P x"
    and step: "\<And>x d p. hget gd x = Some d \<Longrightarrow> selected_parent d = Some p \<Longrightarrow> hhas gd p \<Longrightarrow> P p \<Longrightarrow> P x"
  shows "P x"
  using assms(2)
proof (induction "blue_score (hidx gd x)" arbitrary: x rule: less_induct)
  case less
  obtain d where d: "hget gd x = Some d" using less.prems by (auto simp: hhas_def)
  show ?case
  proof (cases "selected_parent d")
    case None
    then show ?thesis using first d by blast
  next
    case (Some p)
    then have "sp_edge gd x p" using d by (simp add: sp_edge_def)
    then have "hhas gd p" "blue_score (hidx gd p) < blue_score (hidx gd x)" using l unfolding links_ok_def by blast+
    then show ?thesis using step [OF d Some] less.hyps by blast
  qed
qed

lemma chain_loop_acc:
  assumes "links_ok gd" and "hhas gd x"
  shows "\<exists>c. \<forall>acc. chain_loop gd (Some x) acc = Some (c @ acc)"
  using assms
proof (induction rule: selected_induct)
  case (base x d)
  then show ?case by (intro exI [of _ "[x]"]) (simp add: chain_loop_steps)
next
  case (child x d p)
  then obtain c where "chain_loop gd (Some p) acc = Some (c @ acc)" for acc by blast
  then show ?case using child by (intro exI [of _ "c @ [x]"]) (simp add: chain_loop_steps(2) [of gd x])
qed

lemma selected_chain_first:
  "hget gd x = Some d \<Longrightarrow> selected_parent d = None \<Longrightarrow> selected_chain gd x = Some [x]"
  by (simp add: selected_chain_def chain_loop_steps)

lemma selected_chain_next:
  assumes "links_ok gd" and "hhas gd p" and "hget gd x = Some d" and "selected_parent d = Some p"
    and "selected_chain gd p = Some c"
  shows "selected_chain gd x = Some (c @ [x])"
proof -
  obtain c' where c': "chain_loop gd (Some p) acc = Some (c' @ acc)" for acc using chain_loop_acc [OF assms(1,2)] by blast
  then have "c' = c" using assms(5) by (simp add: selected_chain_def)
  with c' show ?thesis using assms(3,4) by (simp add: selected_chain_def chain_loop_steps(2) [of gd x])
qed

lemma selected_chain_links:
  assumes "links_ok gd" and "hhas gd x"
  obtains c where "selected_chain gd x = Some c" and "c \<noteq> []" and "last c = x"
    and "successively (\<lambda>x y. sp_edge gd y x) c" and "\<forall>x\<in>set c. hhas gd x"
  using chain_loop_ok [OF assms, of "[]"] by (auto simp: selected_chain_def)

lemma selected_chain_sp_anc:
  assumes l: "links_ok gd" and "hhas gd x" and "selected_chain gd x = Some c"
  shows "y \<in> set c \<longleftrightarrow> sp_anc gd y x"
  using assms
proof (induction arbitrary: c rule: selected_induct)
  case (base x d)
  then have n: "\<not> sp_edge gd x z" for z by (simp add: sp_edge_def)
  have "sp_anc gd y x \<longleftrightarrow> y = x \<or> (\<exists>z. sp_anc gd y z \<and> sp_edge gd x z)" by (subst rtranclp.simps) auto
  then have "sp_anc gd y x \<longleftrightarrow> y = x" by (simp add: n)
  then show ?case using selected_chain_first [OF base(1,2)] base(3) by auto
next
  case (child x d p)
  obtain c' where c': "selected_chain gd p = Some c'" by (rule selected_chain_links [OF l child(3)])
  have e: "sp_edge gd x z \<longleftrightarrow> z = p" for z using child(1,2) by (auto simp: sp_edge_def)
  have "sp_anc gd y x \<longleftrightarrow> y = x \<or> (\<exists>z. sp_anc gd y z \<and> sp_edge gd x z)" by (subst rtranclp.simps) auto
  then have "sp_anc gd y x \<longleftrightarrow> y = x \<or> sp_anc gd y p" by (simp add: e)
  moreover have "c = c' @ [x]" using selected_chain_next [OF l child(3,1,2) c'] child(5) by simp
  ultimately show ?case using child(4) [OF c'] by auto
qed

lemma successively_path:
  assumes "successively R xs" and "i \<le> j" and "j < length xs"
  shows "R\<^sup>*\<^sup>* (xs ! i) (xs ! j)"
  using assms(2,3)
proof (induction j)
  case (Suc j)
  show ?case
  proof (cases "i = Suc j")
    case False
    then have "R\<^sup>*\<^sup>* (xs ! i) (xs ! j)" using Suc by simp
    moreover have "R (xs ! j) (xs ! Suc j)" using assms(1) Suc.prems(2) by (simp add: successively_conv_nth)
    ultimately show ?thesis by simp
  qed simp
qed simp

section \<open>The canonical order\<close>

lemma fold_emit_merged:
  "\<exists>ys. fold (emit_merged dg) ms order = order @ ys"
  "distinct order \<Longrightarrow> distinct (fold (emit_merged dg) ms order)"
  "set (fold (emit_merged dg) ms order) = set order \<union> {m \<in> set ms. hhas dg m}"
proof -
  show "\<exists>ys. fold (emit_merged dg) ms order = order @ ys"
    by (induction ms arbitrary: order) (simp_all add: emit_merged_def, metis append.assoc)
  show "distinct order \<Longrightarrow> distinct (fold (emit_merged dg) ms order)"
    by (induction ms arbitrary: order) (simp_all add: emit_merged_def)
  show "set (fold (emit_merged dg) ms order) = set order \<union> {m \<in> set ms. hhas dg m}"
    by (induction ms arbitrary: order) (auto simp: emit_merged_def)
qed

lemma fold_emit_fresh:"distinct ms \<Longrightarrow> set ms \<inter> set ord = {} \<Longrightarrow> \<forall>m\<in>set ms. hhas dg m \<Longrightarrow> fold (emit_merged dg) ms ord = ord @ ms"
  by (induction ms arbitrary: ord) (auto simp: emit_merged_def)

lemma order_step_known:
  assumes "hget gd h = Some d" and "h \<notin> set order" and "h \<notin> set (merged_blocks d)"
  shows "order_step dg gd h order = fold (emit_merged dg) (merged_blocks d) order @ [h]"
  using assms by (auto simp: order_step_def fold_emit_merged(3))

lemma canonical_order_first:
  "hget gd x = Some d \<Longrightarrow> selected_parent d = None \<Longrightarrow> canonical_order_at dg gd x = Some (order_step dg gd x [])"
  by (simp add: canonical_order_at_def selected_chain_first hhas_def)

lemma canonical_order_next:
  assumes l: "links_ok gd" and p: "hhas gd p" and x: "hget gd x = Some d" "selected_parent d = Some p"
    and o: "canonical_order_at dg gd p = Some ord"
  shows "canonical_order_at dg gd x = Some (order_step dg gd x ord)"
proof -
  obtain c where c: "selected_chain gd p = Some c" by (rule selected_chain_links [OF l p])
  then have "ord = fold (order_step dg gd) c []" using o p by (simp add: canonical_order_at_def)
  then show ?thesis using selected_chain_next [OF l p x c] x(1) by (simp add: canonical_order_at_def hhas_def)
qed

lemma anc_iff_incl: "anc_incl dg y p \<longleftrightarrow> y = p \<or> anc dg y p"
  by (metis rtranclpD tranclp_into_rtranclp rtranclp.rtrancl_refl)

lemma canonical_order_past:
  assumes run: "dag_run dg gd r" and x: "hhas gd x"
  obtains ord where "canonical_order_at dg gd x = Some (ord @ [x])" and "distinct (ord @ [x])" and "set ord = {y. anc dg y x}"
proof -
  note g = dag_run_inv [OF run]
  have l: "links_ok gd" by (rule ghost_links(1) [OF g])
  have ac: "\<not> anc dg y y" for y using g by (simp add: ghost_inv_def reach_inv_def dag_acyclic_def)
  have hg: "hhas gd y = hhas dg y" for y using g by (simp add: ghost_inv_def)
  from l x have "\<exists>ord. canonical_order_at dg gd x = Some (ord @ [x]) \<and> distinct (ord @ [x]) \<and> set ord = {y. anc dg y x}"
  proof (induction rule: selected_induct)
    case (base x d)
    have "merge_ok dg gd x d" by (rule dag_run_merge [OF run base(1)])
    then have "merged_blocks d = []" "dag_parents dg x = []" using base(2) by (simp_all add: merge_ok_def)
    then show ?case
      using canonical_order_first [OF base] order_step_known [OF base(1), of "[]"] by (simp add: anc_iff_parent)
  next
    case (child x d p)
    then obtain ord where o: "canonical_order_at dg gd p = Some (ord @ [p])" "distinct (ord @ [p])" "set ord = {y. anc dg y p}"
      by blast
    have "merge_ok dg gd x d" by (rule dag_run_merge [OF run child(1)])
    then have m: "edge dg p x" "set (merged_blocks d) = {y. anc dg y x \<and> \<not> anc_incl dg y p}"
      using child(2) by (simp_all add: merge_ok_def)
    have kn: "hhas dg y" if "anc dg y x" for y
      using ghost_past_known [OF tranclp_into_rtranclp [OF that] g] child(1) hg [of x] by (simp add: hhas_def)
    have so: "set (ord @ [p]) = {y. anc_incl dg y p}" using o(3) by (auto simp: anc_iff_incl)
    have px: "anc dg y x" if "anc_incl dg y p" for y using that m(1) by (rule rtranclp_into_tranclp1)
    have un: "set (fold (emit_merged dg) (merged_blocks d) (ord @ [p])) = {y. anc dg y x}"
      unfolding fold_emit_merged(3) so m(2) using kn px by blast
    have fr: "x \<notin> set (ord @ [p])" "x \<notin> set (merged_blocks d)" using ac px unfolding so m(2) by blast+
    have "canonical_order_at dg gd x = Some (fold (emit_merged dg) (merged_blocks d) (ord @ [p]) @ [x])"
      using canonical_order_next [OF l child(3,1,2) o(1)] order_step_known [OF child(1) fr] by simp
    then show ?case
      using un fold_emit_merged(2) [OF o(2)] ac by (intro exI conjI) (assumption, simp_all)
  qed
  with that show thesis by blast
qed

lemma order_step_extends: "\<exists>ys. order_step dg gd h order = order @ ys"
proof (cases "hget gd h")
  case (Some d)
  obtain ys where "fold (emit_merged dg) (merged_blocks d) order = order @ ys" using fold_emit_merged(1) by blast
  then show ?thesis using Some by (auto simp: order_step_def Let_def)
qed (simp add: order_step_def)

lemma canonical_order_prefix:
  assumes l: "links_ok gd" and fx: "sp_anc gd f x" and x: "hhas gd x" and "canonical_order_at dg gd f = Some o1"
    and "canonical_order_at dg gd x = Some o2"
  shows "\<exists>ys. o2 = o1 @ ys"
  using fx x assms(5)
proof (induction arbitrary: o2 rule: rtranclp_induct)
  case base
  then show ?case using assms(4) by simp
next
  case (step p x)
  from step(2) obtain d where d: "hget gd x = Some d" "selected_parent d = Some p" by (auto simp: sp_edge_def)
  have p: "hhas gd p" using l step(2) unfolding links_ok_def by blast
  obtain c where c: "selected_chain gd p = Some c" by (rule selected_chain_links [OF l p])
  then obtain o3 where o3: "canonical_order_at dg gd p = Some o3" using p by (simp add: canonical_order_at_def)
  then obtain ys where "o3 = o1 @ ys" using step.IH p by blast
  moreover obtain zs where "order_step dg gd x o3 = o3 @ zs" using order_step_extends by blast
  ultimately show ?case using canonical_order_next [OF l p d o3] step.prems(2) by simp
qed

lemma sp_anc_known: "sp_anc gd f x \<Longrightarrow> links_ok gd \<Longrightarrow> hhas gd x \<Longrightarrow> hhas gd f"
  by (induction rule: converse_rtranclp_induct) (auto simp: links_ok_def)

lemma position_append: "x \<notin> set xs \<Longrightarrow> position x (xs @ x # ys) = Some (length xs)"
  by (simp add: position_def takeWhile_append)

lemma replay_from_prefix:
  assumes run: "dag_run dg gd r" and x: "hhas gd x" and fx: "sp_anc gd f x"
  obtains pre post where "canonical_order_at dg gd f = Some pre" and "canonical_order_at dg gd x = Some (pre @ post)"
    and "position f (pre @ post) = Some (length pre - 1)" and "pre \<noteq> []"
proof -
  have l: "links_ok gd" by (rule ghost_links(1) [OF dag_run_inv [OF run]])
  obtain o1 where o1: "canonical_order_at dg gd f = Some (o1 @ [f])" "distinct (o1 @ [f])"
    by (rule canonical_order_past [OF run sp_anc_known [OF fx l x]])
  obtain o2 where o2: "canonical_order_at dg gd x = Some (o2 @ [x])" by (rule canonical_order_past [OF run x])
  from canonical_order_prefix [OF l fx x o1(1) o2] obtain ys where "o2 @ [x] = (o1 @ [f]) @ ys" by blast
  then show thesis using that [OF o1(1), of ys] o1(2) o2 position_append [of f o1 ys] by simp
qed

section \<open>Growing the DAG\<close>

lemma selected_chain_grow:
  assumes l: "links_ok gd" and l': "links_ok (hput h d gd)" and h: "\<not> hhas gd h" and x: "hhas gd x"
  shows "selected_chain (hput h d gd) x = selected_chain gd x"
  using l x
proof (induction rule: selected_induct)
  case (base x e)
  then have "x \<noteq> h" using h by (auto simp: hhas_def)
  then show ?case using base selected_chain_first [of _ x e] by simp
next
  case (child x e p)
  then have "x \<noteq> h" using h by (auto simp: hhas_def)
  moreover obtain c where c: "selected_chain gd p = Some c" by (rule selected_chain_links [OF l child(3)])
  ultimately show ?case
    using selected_chain_next [OF l child(3,1,2) c] selected_chain_next [OF l', of p x e c] child by simp
qed

lemma sp_anc_grow:
  assumes l: "links_ok gd" and l': "links_ok (hput h d gd)" and h: "\<not> hhas gd h" and x: "hhas gd x"
  shows "sp_anc (hput h d gd) y x \<longleftrightarrow> sp_anc gd y x"
proof -
  obtain c where c: "selected_chain gd x = Some c" by (rule selected_chain_links [OF l x])
  then have "selected_chain (hput h d gd) x = Some c" using selected_chain_grow [OF l l' h x] by simp
  then show ?thesis using selected_chain_sp_anc [OF l x c, of y] selected_chain_sp_anc [OF l', of x c y] x by simp
qed

lemma sp_anc_new:
  assumes l: "links_ok gd" and l': "links_ok (hput h d gd)" and h: "\<not> hhas gd h" and sp: "hhas gd sp" "selected_parent d = Some sp"
  shows "sp_anc (hput h d gd) y h \<longleftrightarrow> y = h \<or> sp_anc gd y sp"
proof -
  have "sp_anc (hput h d gd) y h \<longleftrightarrow> y = h \<or> (\<exists>z. sp_anc (hput h d gd) y z \<and> sp_edge (hput h d gd) h z)"
    by (subst rtranclp.simps) auto
  moreover have "sp_edge (hput h d gd) h z \<longleftrightarrow> z = sp" for z using sp(2) by (auto simp: sp_edge_def)
  ultimately show ?thesis using sp_anc_grow [OF l l' h sp(1)] by simp
qed

lemma order_step_grow:
  assumes run: "dag_run dg gd r" and h: "\<not> hhas dg h" "\<not> hhas gd h" and x: "hget gd x = Some e"
  shows "order_step (hput h b dg) (hput h d gd) x ord = order_step dg gd x ord"
proof -
  note g = dag_run_inv [OF run]
  have xh: "x \<noteq> h" using h x by (auto simp: hhas_def)
  have "hhas dg x" using g x by (auto simp: ghost_inv_def hhas_def)
  then have kn: "hhas dg y" if "anc dg y x" for y using ghost_past_known [OF tranclp_into_rtranclp [OF that] g] by blast
  have "merge_ok dg gd x e" by (rule dag_run_merge [OF run x])
  then have "m \<noteq> h" if "m \<in> set (merged_blocks e)" for m
    using that kn h(1) by (auto simp: merge_ok_def split: option.splits)
  then have "fold (emit_merged (hput h b dg)) (merged_blocks e) ord = fold (emit_merged dg) (merged_blocks e) ord"
    by (intro fold_cong ext) (auto simp: emit_merged_def)
  then show ?thesis using xh x by (simp add: order_step_def)
qed

lemma canonical_order_grow:
  assumes run: "dag_run dg gd r" and run': "dag_run (hput h b dg) (hput h d gd) r'" and h: "\<not> hhas dg h" and x: "hhas gd x"
  shows "canonical_order_at (hput h b dg) (hput h d gd) x = canonical_order_at dg gd x"
proof -
  have l: "links_ok gd" "links_ok (hput h d gd)" using ghost_links(1) dag_run_inv run run' by blast+
  have hg: "\<not> hhas gd h" using dag_run_inv [OF run] h by (simp add: ghost_inv_def)
  note st = order_step_grow [OF run h hg, of _ _ b d]
  from l(1) x show ?thesis
  proof (induction rule: selected_induct)
    case (base x e)
    then have "x \<noteq> h" using hg by (auto simp: hhas_def)
    then show ?case using base canonical_order_first [of _ x e] st by simp
  next
    case (child x e p)
    then have xh: "x \<noteq> h" using hg by (auto simp: hhas_def)
    obtain ord where o: "canonical_order_at dg gd p = Some (ord @ [p])" by (rule canonical_order_past [OF run child(3)])
    then have "canonical_order_at (hput h b dg) (hput h d gd) p = Some (ord @ [p])" using child(4) by simp
    then show ?case
      using canonical_order_next [OF l(1) child(3,1,2) o] canonical_order_next [OF l(2), of p x e] child xh st [OF child(1)] by simp
  qed
qed

section \<open>The finality point\<close>

lemma last_below_takeWhile:
  "last_below gd th c fp =
     (let tw = takeWhile (\<lambda>h. (case hget gd h of None \<Rightarrow> u64_max | Some d \<Rightarrow> blue_score d) \<le> th) c
      in if tw = [] then fp else Some (last tw))"
  by (induction c arbitrary: fp) (simp_all add: Let_def)

lemma chain_scores:
  assumes "links_ok gd" and "successively (\<lambda>x y. sp_edge gd y x) c"
  shows "sorted_wrt (\<lambda>x y. blue_score (hidx gd x) < blue_score (hidx gd y)) c"
proof -
  have "successively (\<lambda>x y. blue_score (hidx gd x) < blue_score (hidx gd y)) c"
    by (rule successively_mono [OF assms(2)]) (use assms(1) in \<open>auto simp: links_ok_def\<close>)
  then show ?thesis by (subst (asm) successively_conv_sorted_wrt) (auto simp: transp_def)
qed

lemma last_below_on_chain:
  assumes l: "links_ok gd" and x: "hhas gd x" and c: "selected_chain gd x = Some c"
  shows "last_below gd th c None = Some f \<Longrightarrow> sp_anc gd f x \<and> hhas gd f \<and> blue_score (hidx gd f) \<le> th"
    and "sp_anc gd f0 x \<Longrightarrow> blue_score (hidx gd f0) \<le> th \<Longrightarrow> \<exists>f. last_below gd th c None = Some f \<and> sp_anc gd f0 f"
proof -
  obtain c' where c': "selected_chain gd x = Some c'" "successively (\<lambda>x y. sp_edge gd y x) c'" "\<forall>x\<in>set c'. hhas gd x"
    by (rule selected_chain_links [OF l x])
  have su: "successively (\<lambda>x y. sp_edge gd y x) c" "\<forall>x\<in>set c. hhas gd x" using c c' by simp_all
  define P where "P h \<longleftrightarrow> (case hget gd h of None \<Rightarrow> u64_max | Some d \<Rightarrow> blue_score d) \<le> th" for h
  define tw where "tw = takeWhile P c"
  have lb: "last_below gd th c None = (if tw = [] then None else Some (last tw))"
    unfolding last_below_takeWhile tw_def P_def [abs_def] by simp
  have P: "P y \<longleftrightarrow> blue_score (hidx gd y) \<le> th" if "y \<in> set c" for y
    using hget_hidx [of gd y] su(2) that by (simp add: P_def)
  show "sp_anc gd f x \<and> hhas gd f \<and> blue_score (hidx gd f) \<le> th" if "last_below gd th c None = Some f"
  proof -
    have "f \<in> set tw" using that lb by (auto split: if_splits)
    then have "f \<in> set c" "P f" by (auto simp: tw_def dest: set_takeWhileD)
    then show ?thesis using P selected_chain_sp_anc [OF l x c] su(2) by blast
  qed
  show "\<exists>f. last_below gd th c None = Some f \<and> sp_anc gd f0 f" if f0: "sp_anc gd f0 x" "blue_score (hidx gd f0) \<le> th"
  proof -
    obtain i where i: "i < length c" "c ! i = f0"
      using selected_chain_sp_anc [OF l x c, of f0] f0(1) by (auto simp: in_set_conv_nth)
    have lt: "i < length tw"
    proof (rule ccontr)
      assume a: "\<not> i < length tw"
      then have n: "length tw < length c" "\<not> P (c ! length tw)"
        using i nth_length_takeWhile [of P c] by (simp_all add: tw_def)
      have "blue_score (hidx gd (c ! length tw)) \<le> blue_score (hidx gd (c ! i))"
        using sorted_wrt_nth_less [OF chain_scores [OF l su(1)], of "length tw" i] a i by (cases "length tw = i") auto
      then show False using n f0(2) i P by simp
    qed
    have "tw \<noteq> []" using lt by auto
    then have "last tw = c ! (length tw - 1)"
      using takeWhile_nth [of "length tw - 1" P c] by (simp add: tw_def [symmetric] last_conv_nth)
    moreover have "length tw \<le> length c" by (simp add: tw_def length_takeWhile_le)
    ultimately have "sp_anc gd f0 (last tw)"
      using successively_path [OF su(1), of i "length tw - 1"] lt i by simp
    then show ?thesis using lb lt by auto
  qed
qed

lemma is_chain_ancestor_selected:
  assumes run: "dag_run dg gd r" and "hhas dg a" and "hhas dg b"
  shows "is_chain_ancestor r a b = Some (sp_anc gd a b)"
proof -
  note g = dag_run_inv [OF run, unfolded ghost_inv_def]
  have h: "hhas (nodes r) a" "hhas (nodes r) b" using g assms(2,3) by simp_all
  have "tedge (nodes r) = (\<lambda>p c. sp_edge gd c p)" using dag_run_tree [OF run] by (intro ext) simp
  then show ?thesis using is_chain_ancestor_tanc [of r dg a b] g h by simp
qed

section \<open>The selected tip of a grown DAG\<close>

lemma selected_tip_Some:
  assumes "selected_tip gd ts = Some t"
  shows "t \<in> set ts" "hhas gd t" "\<And>x. x \<in> set ts \<Longrightarrow> hhas gd x \<Longrightarrow> score_key gd x \<le> score_key gd t"
  using max_by_score_Some [OF assms [unfolded selected_tip_def]] by auto

lemma selected_tip_exists:
  assumes "t \<in> set ts" and "hhas gd t"
  obtains s where "selected_tip gd ts = Some s"
proof -
  have "filter (hhas gd) ts \<noteq> []" using assms by (auto simp: filter_empty_conv)
  then show thesis using that max_by_score_None unfolding selected_tip_def by (metis option.exhaust)
qed

lemma selected_tip_grow:
  assumes old: "selected_tip gd ts = Some t" and h: "\<not> hhas gd h" "h \<notin> set ts"
    and up: "\<And>p. p \<in> set ps \<Longrightarrow> hhas gd p \<Longrightarrow> blue_score (hidx gd p) < blue_score d"
    and new: "selected_tip (hput h d gd) (filter (\<lambda>x. x \<notin> set ps) ts @ [h]) = Some t'"
  shows "t' = h \<or> t' = t" and "blue_score (hidx gd t) \<le> blue_score (hidx (hput h d gd) t')"
proof -
  note o = selected_tip_Some [OF old] and n = selected_tip_Some [OF new]
  have th: "t \<noteq> h" using o(2) h by auto
  have key: "score_key (hput h d gd) x = score_key gd x" if "x \<noteq> h" for x using that by (simp add: score_key_def)
  have hk: "score_key (hput h d gd) h = (blue_score d, h)" by (simp add: score_key_def)
  have eq: "t' = t" if "t' \<noteq> h" "t \<notin> set ps"
  proof -
    have "score_key gd t \<le> score_key gd t'" using n(3) [of t] o(1,2) that th key by simp
    moreover have "score_key gd t' \<le> score_key gd t" using o(3) n(1,2) that(1) by auto
    ultimately have "score_key gd t' = score_key gd t" by (rule order_antisym [rotated])
    then show ?thesis by (simp add: score_key_def)
  qed
  have no: False if "t' \<noteq> h" "t \<in> set ps"
  proof -
    have "(blue_score d, h) \<le> score_key gd t'" using n(3) [of h] that key hk by simp
    also have "\<dots> \<le> score_key gd t" using o(3) n(1,2) that(1) by auto
    finally show False using up [OF that(2) o(2)] by (auto simp: score_key_def less_eq_prod_def)
  qed
  show "t' = h \<or> t' = t" using eq no by blast
  show "blue_score (hidx gd t) \<le> blue_score (hidx (hput h d gd) t')"
  proof (cases "t' = h")
    case True
    show ?thesis
    proof (cases "t \<in> set ps")
      case True
      then show ?thesis using up [OF True o(2)] \<open>t' = h\<close> by simp
    next
      case False
      then have "score_key gd t \<le> (blue_score d, h)" using n(3) [of t] o(1,2) th key hk True by simp
      then show ?thesis using True by (auto simp: score_key_def less_eq_prod_def)
    qed
  next
    case False
    then show ?thesis using eq no th by auto
  qed
qed

section \<open>Properties\<close>

text \<open>
  C17. The canonical order of a block lists each block of its past, and the block itself at the end,
  exactly once. The orders along a selected chain extend each other: that of a block on the chain is
  a prefix of that of every later block.
\<close>

theorem canonical_order_linear:
  assumes "dag_run dg gd r" and "hhas dg x"
  shows "\<exists>ord c. canonical_order_at dg gd x = Some ord \<and> distinct ord \<and> ord \<noteq> [] \<and> last ord = x
    \<and> set ord = {y. y = x \<or> bfs_is_ancestor dg y x} \<and> selected_chain gd x = Some c
    \<and> (\<forall>f\<in>set c. \<exists>pre post. canonical_order_at dg gd f = Some pre \<and> ord = pre @ post)"
proof -
  note g = dag_run_inv [OF assms(1)]
  have x: "hhas gd x" using g assms(2) by (simp add: ghost_inv_def)
  have l: "links_ok gd" by (rule ghost_links(1) [OF g])
  obtain ord where o: "canonical_order_at dg gd x = Some (ord @ [x])" "distinct (ord @ [x])" "set ord = {y. anc dg y x}"
    by (rule canonical_order_past [OF assms(1) x])
  obtain c where c: "selected_chain gd x = Some c" by (rule selected_chain_links [OF l x])
  have "\<exists>pre post. canonical_order_at dg gd f = Some pre \<and> ord @ [x] = pre @ post" if "f \<in> set c" for f
  proof -
    have "sp_anc gd f x" using selected_chain_sp_anc [OF l x c] that by simp
    then obtain pre post where "canonical_order_at dg gd f = Some pre" "canonical_order_at dg gd x = Some (pre @ post)"
      by (rule replay_from_prefix [OF assms(1) x])
    then show ?thesis using o(1) by auto
  qed
  moreover have "set (ord @ [x]) = {y. y = x \<or> bfs_is_ancestor dg y x}" using o(3) by (auto simp: bfs_is_ancestor_iff)
  ultimately show ?thesis using o(1,2) c by (intro exI [of _ "ord @ [x]"] exI [of _ c]) simp
qed

theorem canonical_order_linear_witness:
  "\<exists>ord c. canonical_order_at demo_dag demo_gd 1 = Some ord \<and> distinct ord \<and> ord \<noteq> [] \<and> last ord = 1
    \<and> set ord = {y. y = 1 \<or> bfs_is_ancestor demo_dag y 1} \<and> selected_chain demo_gd 1 = Some c
    \<and> (\<forall>f\<in>set c. \<exists>pre post. canonical_order_at demo_dag demo_gd f = Some pre \<and> ord = pre @ post)"
  by (rule canonical_order_linear [OF demo_dag_run]) (simp add: demo_dag_def hhas_def)

end
