(* ===== verification/Chain_Correct.thy ===== *)
theory Chain_Correct
  imports Order_Correct Ledger_Correct Difficulty_Correct
begin

text \<open>
  Correctness of the chain state of \<open>src/lib.rs\<close>: runs of a node from genesis through \<open>add_block\<close>, the
  ledger as a replay of the canonical order from genesis, and the invariant of an archival node.
\<close>

section \<open>The ledger of a block\<close>

definition block_effect :: "env \<Rightarrow> nat \<Rightarrow> dag_map \<Rightarrow> ghostdag_map \<Rightarrow> hash \<Rightarrow> ledger \<Rightarrow> ledger" where
  "block_effect E cid dg gd h l = (case hget dg h of None \<Rightarrow> l | Some b \<Rightarrow> apply_block_effects E cid gd [] b l)"

definition past_ledger :: "env \<Rightarrow> nat \<Rightarrow> dag_map \<Rightarrow> ghostdag_map \<Rightarrow> hash \<Rightarrow> ledger option" where
  \<comment> \<open>the specification: replay the canonical order of a block from the empty ledger\<close>
  "past_ledger E cid dg gd x =
     map_option (\<lambda>ord. fold (block_effect E cid dg gd) ord ledger_default) (canonical_order_at dg gd x)"

definition hashed :: "env \<Rightarrow> dag_map \<Rightarrow> bool" where
  "hashed E dg \<longleftrightarrow> (\<forall>h b. hget dg h = Some b \<longrightarrow> block_hash E b = h)"

lemma skip_transparent_none: "skip_all (skip_transparent E cid media) txs s = s"
  by (induction txs arbitrary: s)
    (auto simp: skip_all_def skip_transparent_def apply_transparent_tx_def ACCOUNT_PEER_TRANSFERS_def)

lemma effects_by_score:
  assumes "hget gd (block_hash E b) = Some d" and "hget gd' (block_hash E b) = Some d"
  shows "apply_block_effects E cid gd ts b = apply_block_effects E cid gd' ts' b"
  using assms by (intro ext) (simp add: apply_block_effects_def skip_transparent_none)

lemma replay_effects:
  assumes "hashed E (dag cs)" and "\<And>h. hhas (dag cs) h \<Longrightarrow> hhas (ghostdag cs) h"
  shows "replay E cs hs l = fold (block_effect E (chain_id cs) (dag cs) (ghostdag cs)) hs l"
proof -
  have "(case hget (dag cs) h of None \<Rightarrow> l | Some b \<Rightarrow> apply_block_effects E (chain_id cs) (ghostdag cs) (tips cs) b l)
      = block_effect E (chain_id cs) (dag cs) (ghostdag cs) h l" for h l
  proof (cases "hget (dag cs) h")
    case (Some b)
    then have "block_hash E b = h" "hhas (dag cs) h" using assms(1) by (auto simp: hashed_def hhas_def)
    then obtain d where "hget (ghostdag cs) (block_hash E b) = Some d" using assms(2) [of h] by (auto simp: hhas_def)
    from effects_by_score [OF this this] have "apply_block_effects E (chain_id cs) (ghostdag cs) (tips cs) b =
      apply_block_effects E (chain_id cs) (ghostdag cs) [] b" .
    then show ?thesis using Some by (simp add: block_effect_def)
  qed (simp add: block_effect_def)
  then show ?thesis unfolding replay_def by (intro fold_cong ext) auto
qed

lemma sim_replay_effects:
  assumes "hashed E dg" and "\<And>h. hhas dg h \<Longrightarrow> hhas gd h"
  shows "snd (sim_replay E cid dg gd hs (sgd, l)) = fold (block_effect E cid dg gd) hs l"
proof (induction hs arbitrary: sgd l)
  case (Cons h hs)
  show ?case
  proof (cases "hget dg h")
    case None
    then show ?thesis using Cons by (simp add: block_effect_def)
  next
    case (Some b)
    then have bh: "block_hash E b = h" using assms(1) by (simp add: hashed_def)
    obtain d where d: "hget gd h = Some d" using assms(2) [of h] Some by (auto simp: hhas_def)
    have "apply_block_effects E cid (hput h d sgd) [] b = apply_block_effects E cid gd [] b"
      by (rule effects_by_score) (simp_all add: bh d)
    then show ?thesis using Cons [of "hput h d sgd"] Some d by (simp add: block_effect_def Let_def)
  qed
qed simp

lemma block_effect_grow:
  assumes "hashed E dg" and "\<And>x. hhas dg x \<Longrightarrow> hhas gd x" and "hhas dg x" and "x \<noteq> h"
  shows "block_effect E cid (hput h b dg) (hput h d gd) x = block_effect E cid dg gd x"
proof -
  obtain b' e where b': "hget dg x = Some b'" "hget gd x = Some e" using assms(2) [of x] assms(3) by (auto simp: hhas_def)
  then have "block_hash E b' = x" using assms(1) by (simp add: hashed_def)
  then have "apply_block_effects E cid (hput h d gd) [] b' = apply_block_effects E cid gd [] b'"
    using b' assms(4) by (intro effects_by_score [of _ _ _ e]) simp_all
  then show ?thesis using b'(1) assms(4) by (intro ext) (simp add: block_effect_def)
qed

lemma replay_start_prefix:
  assumes "position f ord = Some i"
  shows "replay_start (Some f) ord = i + 1"
  using assms by (simp add: replay_start_def)

definition frontier_ok :: "env \<Rightarrow> nat \<Rightarrow> dag_map \<Rightarrow> ghostdag_map \<Rightarrow> hash option \<Rightarrow> ledger \<Rightarrow> hash \<Rightarrow> bool" where
  \<comment> \<open>\<open>l\<close> is the ledger of the frontier, which is on the selected chain of \<open>x\<close>\<close>
  "frontier_ok E cid dg gd fr l x \<longleftrightarrow>
     (case fr of None \<Rightarrow> l = ledger_default | Some f \<Rightarrow> past_ledger E cid dg gd f = Some l \<and> sp_anc gd f x)"

lemma replay_from_frontier:
  assumes run: "dag_run dg gd r" and x: "hhas gd x" and fr: "frontier_ok E cid dg gd fr l x"
  obtains ord n where "canonical_order_at dg gd x = Some ord"
    and "past_ledger E cid dg gd x = Some (fold (block_effect E cid dg gd) (drop n ord) l)"
    and "\<forall>post. distinct (ord @ post) \<longrightarrow> replay_start fr (ord @ post) = n" and "n \<le> length ord"
proof (cases fr)
  case None
  obtain ord where "canonical_order_at dg gd x = Some (ord @ [x])" by (rule canonical_order_past [OF run x])
  then show thesis using None that [of "ord @ [x]" 0] fr by (simp add: frontier_ok_def past_ledger_def replay_start_def)
next
  case (Some f)
  then have f: "past_ledger E cid dg gd f = Some l" "sp_anc gd f x" using fr by (simp_all add: frontier_ok_def)
  obtain pre post where p: "canonical_order_at dg gd f = Some pre" "canonical_order_at dg gd x = Some (pre @ post)"
    by (rule replay_from_prefix [OF run x f(2)])
  obtain o1 where o1: "canonical_order_at dg gd f = Some (o1 @ [f])"
    by (rule canonical_order_past [OF run sp_anc_known [OF f(2) ghost_links(1) [OF dag_run_inv [OF run]] x]])
  have pre: "pre = o1 @ [f]" using p(1) o1 by simp
  have l: "l = fold (block_effect E cid dg gd) pre ledger_default" using f(1) p(1) by (simp add: past_ledger_def)
  have "replay_start fr (pre @ post @ more) = length pre" if "distinct (pre @ post @ more)" for more
    using position_append [of f o1 "post @ more"] that unfolding pre Some by (simp add: replay_start_def)
  then show thesis using that [of "pre @ post" "length pre"] p(2) by (simp add: past_ledger_def l)
qed

lemma expected_difficulty_returns:
  assumes "links_ok gd"
  obtains d where "expected_difficulty_at lab dg gd minted ps ts = Some d"
proof (cases "select_parent gd ps")
  case None
  then show thesis using that by (simp add: expected_difficulty_at_def)
next
  case (Some sp)
  obtain ss where "collect_daa_blue_samples dg gd sp = Some ss"
    by (rule collect_daa_returns [OF assms select_parent_Some(2) [OF Some]])
  then show thesis using that Some unfolding expected_difficulty_at_def Let_def by simp
qed

section \<open>Finality along the chain\<close>

lemma finality_point_eq:
  assumes l: "links_ok (ghostdag cs)" and t: "selected_tip (ghostdag cs) (tips cs) = Some t"
  obtains c where "selected_chain (ghostdag cs) t = Some c"
    and "finality_point cs = Some (if blue_score (hidx (ghostdag cs) t) \<le> FINALITY_DEPTH then None
      else last_below (ghostdag cs) (blue_score (hidx (ghostdag cs) t) - FINALITY_DEPTH) c None)"
proof -
  have h: "hhas (ghostdag cs) t" by (rule selected_tip_Some(2) [OF t])
  obtain c where c: "selected_chain (ghostdag cs) t = Some c" by (rule selected_chain_links [OF l h])
  then show thesis using that [OF c] t hget_hidx [OF h] by (simp add: finality_point_def)
qed

lemma finality_on_chain:
  assumes l: "links_ok (ghostdag cs)" and t: "selected_tip (ghostdag cs) (tips cs) = Some t"
    and f: "finality_point cs = Some (Some f)"
  shows "sp_anc (ghostdag cs) f t" "hhas (ghostdag cs) f"
    "blue_score (hidx (ghostdag cs) f) + FINALITY_DEPTH \<le> blue_score (hidx (ghostdag cs) t)"
    "FINALITY_DEPTH < blue_score (hidx (ghostdag cs) t)"
proof -
  obtain c where c: "selected_chain (ghostdag cs) t = Some c"
    "finality_point cs = Some (if blue_score (hidx (ghostdag cs) t) \<le> FINALITY_DEPTH then None
      else last_below (ghostdag cs) (blue_score (hidx (ghostdag cs) t) - FINALITY_DEPTH) c None)"
    by (rule finality_point_eq [OF l t])
  show g: "FINALITY_DEPTH < blue_score (hidx (ghostdag cs) t)" using c(2) f by (auto split: if_splits)
  then have "last_below (ghostdag cs) (blue_score (hidx (ghostdag cs) t) - FINALITY_DEPTH) c None = Some f"
    using c(2) f by simp
  from last_below_on_chain(1) [OF l selected_tip_Some(2) [OF t] c(1) this] g
  show "sp_anc (ghostdag cs) f t" "hhas (ghostdag cs) f"
    "blue_score (hidx (ghostdag cs) f) + FINALITY_DEPTH \<le> blue_score (hidx (ghostdag cs) t)" by auto
qed

lemma finality_advances:
  assumes l: "links_ok (ghostdag cs)" and t: "selected_tip (ghostdag cs) (tips cs) = Some t"
    and f: "sp_anc (ghostdag cs) f0 t" "FINALITY_DEPTH < blue_score (hidx (ghostdag cs) t)"
      "blue_score (hidx (ghostdag cs) f0) + FINALITY_DEPTH \<le> blue_score (hidx (ghostdag cs) t)"
  obtains f where "finality_point cs = Some (Some f)" and "sp_anc (ghostdag cs) f0 f"
proof -
  obtain c where c: "selected_chain (ghostdag cs) t = Some c"
    "finality_point cs = Some (if blue_score (hidx (ghostdag cs) t) \<le> FINALITY_DEPTH then None
      else last_below (ghostdag cs) (blue_score (hidx (ghostdag cs) t) - FINALITY_DEPTH) c None)"
    by (rule finality_point_eq [OF l t])
  have "blue_score (hidx (ghostdag cs) f0) \<le> blue_score (hidx (ghostdag cs) t) - FINALITY_DEPTH" using f by simp
  from last_below_on_chain(2) [OF l selected_tip_Some(2) [OF t] c(1) f(1) this] that c(2) f(2) show thesis by auto
qed

section \<open>Replay, finalization and the throwaway state\<close>

abbreviation ledger_at :: "env \<Rightarrow> chain_state \<Rightarrow> hash \<Rightarrow> ledger option" where
  "ledger_at E cs x \<equiv> past_ledger E (chain_id cs) (dag cs) (ghostdag cs) x"

abbreviation from_base :: "env \<Rightarrow> chain_state \<Rightarrow> hash \<Rightarrow> bool" where
  "from_base E cs x \<equiv> frontier_ok E (chain_id cs) (dag cs) (ghostdag cs) (base_frontier cs) (base cs) x"

definition dag_ok :: "env \<Rightarrow> chain_state \<Rightarrow> bool" where
  "dag_ok E cs \<longleftrightarrow> dag_run (dag cs) (ghostdag cs) (reach cs) \<and> hashed E (dag cs)"

lemma dag_okD:
  assumes "dag_ok E cs"
  shows "dag_run (dag cs) (ghostdag cs) (reach cs)" "hashed E (dag cs)" "links_ok (ghostdag cs)"
    "\<And>x. hhas (ghostdag cs) x = hhas (dag cs) x"
  using assms dag_run_inv [of "dag cs" "ghostdag cs" "reach cs"] ghost_links(1) by (auto simp: dag_ok_def ghost_inv_def)

lemma virtual_state_past:
  assumes ok: "dag_ok E cs" and x: "hhas (ghostdag cs) x" and fr: "from_base E cs x"
    and cap: "base_captured cs \<or> live cs = base cs"
  obtains sgd l where "virtual_state_at E cs x = Some (sgd, l)" and "ledger_at E cs x = Some l"
proof -
  note d = dag_okD [OF ok]
  obtain ord n where o: "canonical_order_at (dag cs) (ghostdag cs) x = Some ord"
    "ledger_at E cs x = Some (fold (block_effect E (chain_id cs) (dag cs) (ghostdag cs)) (drop n ord) (base cs))"
    "\<forall>post. distinct (ord @ post) \<longrightarrow> replay_start (base_frontier cs) (ord @ post) = n"
    by (rule replay_from_frontier [OF d(1) x fr])
  have "distinct ord" using canonical_order_past [OF d(1) x] o(1) by (metis option.inject)
  then have n: "replay_start (base_frontier cs) ord = n" using o(3) [rule_format, of "[]"] by simp
  have s: "(if base_captured cs then base cs else live cs) = base cs" using cap by auto
  have "virtual_state_at E cs x = Some (sim_replay E (chain_id cs) (dag cs) (ghostdag cs) (drop n ord) ([], base cs))"
    unfolding virtual_state_at_def s o(1) by (simp add: n)
  moreover have "snd (sim_replay E (chain_id cs) (dag cs) (ghostdag cs) (drop n ord) ([], base cs))
      = fold (block_effect E (chain_id cs) (dag cs) (ghostdag cs)) (drop n ord) (base cs)"
    by (rule sim_replay_effects) (use d in auto)
  ultimately show thesis using that o(2) by (metis prod.collapse)
qed

lemma recompute_past:
  assumes ok: "dag_ok E cs" and t: "selected_tip (ghostdag cs) (tips cs) = Some t" and fr: "from_base E cs t"
  obtains l where "recompute_virtual_state E cs = Some (cs\<lparr>live := l\<rparr>)" and "ledger_at E cs t = Some l"
proof -
  note d = dag_okD [OF ok] and x = selected_tip_Some(2) [OF t]
  obtain ord n where o: "canonical_order_at (dag cs) (ghostdag cs) t = Some ord"
    "ledger_at E cs t = Some (fold (block_effect E (chain_id cs) (dag cs) (ghostdag cs)) (drop n ord) (base cs))"
    "\<forall>post. distinct (ord @ post) \<longrightarrow> replay_start (base_frontier cs) (ord @ post) = n"
    by (rule replay_from_frontier [OF d(1) x fr])
  have "distinct ord" using canonical_order_past [OF d(1) x] o(1) by (metis option.inject)
  then have n: "replay_start (base_frontier cs) ord = n" using o(3) [rule_format, of "[]"] by simp
  have "replay E cs (drop n ord) (base cs)
      = fold (block_effect E (chain_id cs) (dag cs) (ghostdag cs)) (drop n ord) (base cs)"
    by (rule replay_effects) (use d in auto)
  then show thesis using that o(1,2) t n by (simp add: recompute_virtual_state_def canonical_order_def)
qed

lemma advance_past:
  assumes ok: "dag_ok E cs" and t: "selected_tip (ghostdag cs) (tips cs) = Some t" and fr: "from_base E cs t"
    and later: "\<And>f0. base_frontier cs = Some f0 \<Longrightarrow> \<exists>f. finality_point cs = Some (Some f) \<and> sp_anc (ghostdag cs) f0 f"
    and fp: "finality_point cs = Some fp"
  obtains l b where "advance_finalized_base E cs = Some (cs\<lparr>live := l, base := b, base_frontier := fp\<rparr>)"
    and "from_base E (cs\<lparr>live := l, base := b, base_frontier := fp\<rparr>) t"
proof (cases "fp = base_frontier cs")
  case True
  then have "advance_finalized_base E cs = Some cs" using fp by (cases "base_frontier cs") (simp_all add: advance_finalized_base_def)
  then show thesis using that [where l = "live cs" and b = "base cs"] fr True by simp
next
  case False
  then obtain f where f: "fp = Some f" using later fp by (cases fp; cases "base_frontier cs") auto
  note d = dag_okD [OF ok]
  have ft: "sp_anc (ghostdag cs) f t" and hf: "hhas (ghostdag cs) f"
    using finality_on_chain [OF d(3) t] fp f by auto
  have frf: "frontier_ok E (chain_id cs) (dag cs) (ghostdag cs) (base_frontier cs) (base cs) f"
    using fr later fp f by (auto simp: frontier_ok_def split: option.splits)
  obtain pre n where o: "canonical_order_at (dag cs) (ghostdag cs) f = Some pre" "n \<le> length pre"
    "ledger_at E cs f = Some (fold (block_effect E (chain_id cs) (dag cs) (ghostdag cs)) (drop n pre) (base cs))"
    "\<forall>post. distinct (pre @ post) \<longrightarrow> replay_start (base_frontier cs) (pre @ post) = n"
    by (rule replay_from_frontier [OF d(1) hf frf])
  obtain post where p: "canonical_order_at (dag cs) (ghostdag cs) t = Some (pre @ post)"
    "position f (pre @ post) = Some (length pre - 1)" "pre \<noteq> []"
    using replay_from_prefix [OF d(1) selected_tip_Some(2) [OF t] ft] o(1) by (metis option.inject)
  have "distinct (pre @ post)"
    using canonical_order_past [OF d(1) selected_tip_Some(2) [OF t]] p(1) by (metis option.inject)
  then have n: "replay_start (base_frontier cs) (pre @ post) = n" using o(4) by blast
  define b where "b = replay E cs (drop n pre) (base cs)"
  have "b = fold (block_effect E (chain_id cs) (dag cs) (ghostdag cs)) (drop n pre) (base cs)"
    unfolding b_def by (rule replay_effects) (use d in auto)
  then have bf: "ledger_at E cs f = Some b" using o(3) by simp
  have nf: "base_frontier cs \<noteq> Some f" using False f by simp
  have i: "length pre - 1 + 1 = length pre" using p(3) by (cases pre) simp_all
  have ord: "canonical_order cs = Some (pre @ post)" using t p(1) by (simp add: canonical_order_def)
  have "advance_finalized_base E cs = Some (cs\<lparr>live := b, base := b, base_frontier := fp\<rparr>)"
    unfolding advance_finalized_base_def fp f option.case Let_def ord p(2) n i b_def
    using nf o(2) by simp
  then show thesis using that bf ft f by (simp add: frontier_ok_def)
qed

section \<open>The ledger of a new block\<close>

lemma past_ledger_grow:
  assumes run: "dag_run dg gd r" and run': "dag_run (hput h b dg) (hput h d gd) r'" and h: "\<not> hhas dg h"
    and ha: "hashed E dg" and x: "hhas dg x"
  shows "past_ledger E cid (hput h b dg) (hput h d gd) x = past_ledger E cid dg gd x"
proof -
  note g = dag_run_inv [OF run]
  have hg: "hhas gd y = hhas dg y" for y using g by (simp add: ghost_inv_def)
  have gx: "hhas gd x" using hg x by simp
  obtain ord where o: "canonical_order_at dg gd x = Some (ord @ [x])" "set ord = {y. anc dg y x}"
    by (rule canonical_order_past [OF run gx])
  have "hhas dg y \<and> y \<noteq> h" if "y \<in> set (ord @ [x])" for y
    using that o(2) x h ghost_past_known [OF tranclp_into_rtranclp g x] by auto
  then have "fold (block_effect E cid (hput h b dg) (hput h d gd)) (ord @ [x]) l = fold (block_effect E cid dg gd) (ord @ [x]) l" for l
    by (intro fold_cong refl block_effect_grow [OF ha]) (use hg in auto)
  then show ?thesis using canonical_order_grow [OF run run' h gx] o(1) by (simp add: past_ledger_def)
qed

lemma past_ledger_new:
  assumes run: "dag_run dg gd r" and run': "dag_run (hput h b dg) (hput h d gd) r'" and h: "\<not> hhas dg h"
    and ha: "hashed E dg" and ps: "parents b \<noteq> []" "\<forall>p\<in>set (parents b). hhas dg p" and size: "length dg < 2 ^ 41"
    and d: "try_compute_ghostdag_data dg gd r (parents b) M = Some (Ok d)" and sp: "select_parent gd (parents b) = Some sp"
    and l: "past_ledger E cid dg gd sp = Some l"
  shows "past_ledger E cid (hput h b dg) (hput h d gd) h
    = Some (apply_block_effects E cid (hput h d gd) [] b (fold (block_effect E cid dg gd) (merged_blocks d) l))"
proof -
  note g = dag_run_inv [OF run]
  have hg: "hhas gd y = hhas dg y" for y using g by (simp add: ghost_inv_def)
  obtain sp' where "select_parent gd (parents b) = Some sp'" "selected_parent d = Some sp'" "sp' \<in> set (parents b)"
    "set (merged_blocks d) = {x. (\<exists>p\<in>set (parents b). anc_incl dg x p) \<and> \<not> anc_incl dg x sp'}"
    by (rule dag_run_colored [OF run ps size d])
  then have sd: "selected_parent d = Some sp" "sp \<in> set (parents b)"
    "set (merged_blocks d) = {x. (\<exists>p\<in>set (parents b). anc_incl dg x p) \<and> \<not> anc_incl dg x sp}"
    using sp by simp_all
  have kn: "hhas dg x" if "p \<in> set (parents b)" "anc_incl dg x p" for x p
    using ghost_past_known [OF that(2) g] ps(2) that(1) by blast
  have spg: "hhas gd sp" "hhas (hput h d gd) sp" using ps(2) sd(2) hg by auto
  obtain ord where o: "canonical_order_at dg gd sp = Some (ord @ [sp])" "set ord = {y. anc dg y sp}"
    by (rule canonical_order_past [OF run spg(1)])
  have o': "canonical_order_at (hput h b dg) (hput h d gd) sp = Some (ord @ [sp])"
    using canonical_order_grow [OF run run' h spg(1)] o(1) by simp
  have so: "set (ord @ [sp]) = {y. anc_incl dg y sp}" using o(2) by (auto simp: anc_iff_incl)
  have mk: "hhas dg m \<and> m \<noteq> h" if "m \<in> set (merged_blocks d)" for m using that sd(3) kn h by auto
  have hn: "h \<notin> set (ord @ [sp])" "h \<notin> set (merged_blocks d)" using so kn [OF sd(2)] mk h by blast+
  have l': "links_ok (hput h d gd)" by (rule ghost_links(1) [OF dag_run_inv [OF run']])
  have em: "fold (emit_merged (hput h b dg)) (merged_blocks d) (ord @ [sp]) = (ord @ [sp]) @ merged_blocks d"
    by (rule fold_emit_fresh [OF merged_distinct [OF d]]) (use so sd(3) mk in auto)
  have hd: "hget (hput h d gd) h = Some d" by simp
  have st: "order_step (hput h b dg) (hput h d gd) h (ord @ [sp]) = ((ord @ [sp]) @ merged_blocks d) @ [h]"
    unfolding order_step_known [OF hd hn] em by simp
  have new: "canonical_order_at (hput h b dg) (hput h d gd) h = Some (((ord @ [sp]) @ merged_blocks d) @ [h])"
    using canonical_order_next [OF l' spg(2) hd sd(1) o'] unfolding st .
  have mf: "fold (block_effect E cid (hput h b dg) (hput h d gd)) (merged_blocks d) x = fold (block_effect E cid dg gd) (merged_blocks d) x" for x
    by (intro fold_cong refl block_effect_grow [OF ha]) (use hg mk in auto)
  have "past_ledger E cid (hput h b dg) (hput h d gd) sp = Some l"
    using past_ledger_grow [OF run run' h ha] l hg spg(1) by simp
  then have "fold (block_effect E cid (hput h b dg) (hput h d gd)) (ord @ [sp]) ledger_default = l"
    using o' by (simp add: past_ledger_def)
  then show ?thesis
    unfolding past_ledger_def new option.map(2) fold_append comp_apply mf by (simp add: block_effect_def)
qed

section \<open>The invariant of an archival node\<close>

definition leaf_tips :: "chain_state \<Rightarrow> bool" where
  "leaf_tips cs \<longleftrightarrow> set (tips cs) = {t. hhas (dag cs) t \<and> (\<forall>x. \<not> edge (dag cs) t x)}"

definition tip_ok :: "env \<Rightarrow> chain_state \<Rightarrow> hash \<Rightarrow> bool" where
  \<comment> \<open>what the state says of its selected tip\<close>
  "tip_ok E cs t \<longleftrightarrow> selected_tip (ghostdag cs) (tips cs) = Some t
     \<and> selected_chain (ghostdag cs) t = Some (main_chain cs) \<and> ledger_at E cs t = Some (live cs)
     \<and> finality_point cs = Some (base_frontier cs) \<and> from_base E cs t"

definition roots_ok :: "env \<Rightarrow> chain_state \<Rightarrow> bool" where
  "roots_ok E cs \<longleftrightarrow> (\<forall>h b. hget (dag cs) h = Some b \<longrightarrow> parents b \<noteq> [] \<longrightarrow>
     map_option (ledger_merkle_root E) (ledger_at E cs h) = Some (b_state_root b))"

definition chain_inv :: "env \<Rightarrow> chain_state \<Rightarrow> bool" where
  "chain_inv E cs \<longleftrightarrow> archival cs \<and> dag_ok E cs \<and> leaf_tips cs \<and> roots_ok E cs
     \<and> (base_captured cs \<or> live cs = ledger_default \<and> base_frontier cs = None) \<and> (\<exists>t. tip_ok E cs t)"

lemma chain_inv_start:
  assumes "chain_new E lab = Some cs"
  shows "chain_inv E (cs\<lparr>archival := True\<rparr>)"
proof -
  define h where "h = block_hash E genesis_block"
  obtain r where r: "reach_add_block reach_new h None [] = Some r" and cs: "dag cs = [(h, genesis_block)]"
    "ghostdag cs = [(h, ghostdag_genesis)]" "reach cs = r" "tips cs = [h]" "main_chain cs = [h]" "live cs = ledger_default"
    "base cs = ledger_default" "base_captured cs = False" "base_frontier cs = None"
    using assms by (auto simp: chain_new_def Let_def h_def split: option.splits)
  have p: "parents genesis_block = []" by (simp add: genesis_block_def)
  have run: "dag_run [(h, genesis_block)] [(h, ghostdag_genesis)] r" by (rule dag_run.genesis [OF p r])
  have g: "hget [(h, ghostdag_genesis)] h = Some ghostdag_genesis" "selected_parent ghostdag_genesis = None"
    "blue_score ghostdag_genesis = 0" "merged_blocks ghostdag_genesis = []"
    by (simp_all add: ghostdag_genesis_def merged_blocks_def)
  have t: "selected_tip [(h, ghostdag_genesis)] [h] = Some h"
    by (simp add: selected_tip_def max_by_score_def hhas_def)
  have c: "selected_chain [(h, ghostdag_genesis)] h = Some [h]" by (rule selected_chain_first [OF g(1,2)])
  have "canonical_order_at [(h, genesis_block)] [(h, ghostdag_genesis)] h = Some [h]"
    using canonical_order_first [OF g(1,2)] order_step_known [OF g(1), of "[]"] g(4) by simp
  then have l: "past_ledger E cid [(h, genesis_block)] [(h, ghostdag_genesis)] h = Some ledger_default" for cid
    by (simp add: past_ledger_def block_effect_def apply_block_effects_def p)
  have "dag_ok E (cs\<lparr>archival := True\<rparr>)" using run by (simp add: dag_ok_def cs hashed_def h_def)
  moreover have "leaf_tips (cs\<lparr>archival := True\<rparr>)"
    using p by (auto simp: leaf_tips_def cs edge_def dag_parents_def hhas_def split: if_splits)
  moreover have "roots_ok E (cs\<lparr>archival := True\<rparr>)" using p by (auto simp: roots_ok_def cs split: if_splits)
  moreover have "tip_ok E (cs\<lparr>archival := True\<rparr>) h"
    using t c l g by (simp add: tip_ok_def cs finality_point_def frontier_ok_def)
  ultimately show ?thesis by (auto simp: chain_inv_def cs)
qed

lemma check_structure_Ok:
  "check_structure E cs b = Ok () \<longleftrightarrow> \<not> hhas (dag cs) (block_hash E b) \<and> verify_size E b
     \<and> length (ser_block E b) \<le> MAX_BLOCK_BYTES \<and> parents b \<noteq> [] \<and> length (parents b) \<le> MAX_BLOCK_PARENTS
     \<and> distinct (parents b) \<and> (\<forall>p\<in>set (parents b). hhas (dag cs) p)"
  by (auto simp: check_structure_def list_ex_iff not_le)

lemma check_header_parent: "check_header E cs b required = Ok sp \<Longrightarrow> select_parent (ghostdag cs) (parents b) = Some sp"
  by (auto simp: check_header_def split: if_splits sum.splits option.splits)

lemma validate_block_Ok:
  assumes "validate_block E lab now pin cs b = Some (Ok d)"
  obtains sp required where "check_structure E cs b = Ok ()" and "check_finality cs b = Some (Ok ())"
    and "expected_difficulty_at lab (dag cs) (ghostdag cs) (minted_supply (live cs)) (parents b) (timestamp b) = Some required"
    and "check_header E cs b required = Ok sp" and "check_witnesses E now pin cs b sp = Ok ()"
    and "select_parent (ghostdag cs) (parents b) = Some sp"
    and "try_compute_ghostdag_data (dag cs) (ghostdag cs) (reach cs) (parents b) MAX_MERGESET_SIZE = Some (Ok d)"
    and "post_mergeset_state_root E cs sp (merged_blocks d) b (blue_score d) = Some (Ok (b_state_root b))"
  using assms unfolding validate_block_def
  by (auto split: option.splits sum.splits if_splits dest: check_header_parent)

lemma validate_block_returns:
  assumes ok: "dag_ok E cs" and size: "length (dag cs) < 2 ^ 41" and tip: "selected_tip (ghostdag cs) (tips cs) = Some t"
  obtains res where "validate_block E lab now pin cs b = Some res"
proof (cases "check_structure E cs b")
  case (Inl e)
  then show thesis using that by (simp add: validate_block_def)
next
  case (Inr u)
  note d = dag_okD [OF ok]
  have s: "check_structure E cs b = Ok ()" using Inr by simp
  note st = s [unfolded check_structure_Ok]
  have ps: "parents b \<noteq> []" "\<And>p. p \<in> set (parents b) \<Longrightarrow> hhas (dag cs) p" using st by auto
  obtain req where req: "expected_difficulty_at lab (dag cs) (ghostdag cs) (minted_supply (live cs)) (parents b) (timestamp b) = Some req"
    by (rule expected_difficulty_returns [OF d(3)])
  obtain fp where "finality_point cs = Some fp" by (rule finality_point_eq [OF d(3) tip])
  then obtain fr where fr: "check_finality cs b = Some fr" by (simp add: check_finality_def)
  obtain sp0 cr where cr: "try_compute_ghostdag_data (dag cs) (ghostdag cs) (reach cs) (parents b) MAX_MERGESET_SIZE = Some cr"
    using try_compute_ok [OF dag_run_inv [OF d(1)] ps size, of MAX_MERGESET_SIZE] by (auto split: if_splits)
  have root: "\<exists>pr. post_mergeset_state_root E cs sp ms b blue = Some pr" if k: "hhas (ghostdag cs) sp" for sp ms blue
  proof -
    obtain ord where "canonical_order_at (dag cs) (ghostdag cs) sp = Some (ord @ [sp])"
      by (rule canonical_order_past [OF d(1) k])
    then show ?thesis by (simp add: post_mergeset_state_root_def virtual_state_at_def)
  qed
  have "\<exists>res. validate_block E lab now pin cs b = Some res"
  proof (cases "\<exists>sp. check_header E cs b req = Ok sp")
    case True
    then obtain sp where h: "check_header E cs b req = Ok sp" by blast
    have "hhas (ghostdag cs) sp" by (rule select_parent_Some(2) [OF check_header_parent [OF h]])
    then have pr: "\<exists>pr. post_mergeset_state_root E cs sp ms b blue = Some pr" for ms blue by (rule root)
    show ?thesis
    proof (cases fr; cases "check_witnesses E now pin cs b sp"; cases cr)
      fix u v gd
      assume "fr = Inr u" "check_witnesses E now pin cs b sp = Inr v" "cr = Inr gd"
      moreover obtain p where "post_mergeset_state_root E cs sp (merged_blocks gd) b (blue_score gd) = Some p" using pr by blast
      ultimately show ?thesis using s fr req h cr by (cases p) (simp_all add: validate_block_def)
    qed (use s fr req h cr in \<open>simp_all add: validate_block_def\<close>)
  next
    case False
    then obtain e where "check_header E cs b req = Err e" by (cases "check_header E cs b req") auto
    then show ?thesis using s fr req by (cases fr) (simp_all add: validate_block_def)
  qed
  with that show thesis by blast
qed

section \<open>Committing a block\<close>

lemma insert_block_ok:
  assumes ok: "dag_ok E cs" and lt: "leaf_tips cs" and st: "check_structure E cs b = Ok ()" and size: "length (dag cs) < 2 ^ 41"
    and d: "try_compute_ghostdag_data (dag cs) (ghostdag cs) (reach cs) (parents b) M = Some (Ok d)"
    and h: "h = block_hash E b"
  obtains r' cs1 where "insert_block E b d cs = Some cs1" and "dag_ok E cs1" and "leaf_tips cs1"
    and "cs1 = cs\<lparr>dag := hput h b (dag cs), ghostdag := hput h d (ghostdag cs), reach := r',
      tips := filter (\<lambda>t. t \<notin> set (parents b)) (tips cs) @ [h]\<rparr>"
proof -
  note dd = dag_okD [OF ok]
  have s: "\<not> hhas (dag cs) h" "parents b \<noteq> []" "\<forall>p\<in>set (parents b). hhas (dag cs) p"
    using st unfolding check_structure_Ok h by auto
  have ps: "\<And>p. p \<in> set (parents b) \<Longrightarrow> hhas (dag cs) p" using s(3) by blast
  note g = dag_run_inv [OF dd(1)]
  obtain sp where c: "colored (dag cs) (ghostdag cs) (parents b) sp d"
    using try_compute_ok [OF g s(2) ps size, of M] d by (auto split: if_splits)
  obtain r' where r': "reach_add_block (reach cs) h (Some sp) (merged_blocks d) = Some r'"
    by (rule ghost_add_block [OF g s(1) ps c size])
  have sp: "selected_parent d = Some sp" using c by (simp add: colored_def)
  have run': "dag_run (hput h b (dag cs)) (hput h d (ghostdag cs)) r'"
    using dag_run.block [OF dd(1) s size d] r' sp by simp
  define cs1 where "cs1 = cs\<lparr>dag := hput h b (dag cs), ghostdag := hput h d (ghostdag cs), reach := r',
    tips := filter (\<lambda>t. t \<notin> set (parents b)) (tips cs) @ [h]\<rparr>"
  have "insert_block E b d cs = Some cs1" using r' sp by (simp add: insert_block_def Let_def cs1_def h)
  moreover have "dag_ok E cs1" using run' dd(2) h by (simp add: dag_ok_def cs1_def hashed_def)
  moreover have "leaf_tips cs1"
  proof -
    note f = dag_run_fresh [OF dd(1) s(1,3)]
    have n: "\<not> edge (dag cs) h x" "\<not> edge (dag cs) x h" for x using f(1) s(1) by (simp_all add: dag_fresh_def edge_def)
    have "(\<forall>y. \<not> edge (hput h b (dag cs)) x y) \<longleftrightarrow> x \<notin> set (parents b) \<and> (\<forall>y. \<not> edge (dag cs) x y)" for x
      using n(2) [of x] by (auto simp: edge_hput)
    then show ?thesis
      using lt f(2) s(1) n(1) unfolding leaf_tips_def by (auto simp: cs1_def)
  qed
  ultimately show thesis using that cs1_def by blast
qed

lemma finality_check_parent:
  assumes ok: "dag_ok E cs" and fp: "finality_point cs = Some (Some f)" and tip: "selected_tip (ghostdag cs) (tips cs) = Some t"
    and chk: "check_finality cs b = Some (Ok ())" and sp: "select_parent (ghostdag cs) (parents b) = Some sp"
  shows "sp_anc (ghostdag cs) f sp"
proof -
  note d = dag_okD [OF ok]
  have "hhas (dag cs) f" "hhas (dag cs) sp"
    using finality_on_chain(2) [OF d(3) tip fp] select_parent_Some(2) [OF sp] d(4) by simp_all
  from is_chain_ancestor_selected [OF d(1) this] chk show ?thesis
    by (auto simp: check_finality_def fp sp split: if_splits)
qed

lemma admitted_root:
  assumes ok: "dag_ok E cs" and sp: "hhas (ghostdag cs) sp" and fr: "from_base E cs sp"
    and cap: "base_captured cs \<or> live cs = base cs" and l: "ledger_at E cs sp = Some l"
    and root: "post_mergeset_state_root E cs sp ms b (blue_score d) = Some (Ok sroot)" and ne: "parents b \<noteq> []"
  shows "sroot = ledger_merkle_root E (apply_block_effects E (chain_id cs) (hput (block_hash E b) d gd) [] b
      (fold (block_effect E (chain_id cs) (dag cs) (ghostdag cs)) ms l))"
proof -
  note dd = dag_okD [OF ok]
  obtain sgd where v: "virtual_state_at E cs sp = Some (sgd, l)"
    using virtual_state_past [OF ok sp fr cap] l by (metis option.inject)
  obtain sgd2 l2 where s: "sim_replay E (chain_id cs) (dag cs) (ghostdag cs) ms (sgd, l) = (sgd2, l2)" by fastforce
  have "snd (sim_replay E (chain_id cs) (dag cs) (ghostdag cs) ms (sgd, l))
      = fold (block_effect E (chain_id cs) (dag cs) (ghostdag cs)) ms l"
    by (rule sim_replay_effects) (use dd in auto)
  then have l2: "l2 = fold (block_effect E (chain_id cs) (dag cs) (ghostdag cs)) ms l" using s by simp
  obtain l' fees where b: "simulate_apply_block_body E (chain_id cs) (tip_blue_score sgd2 []) b (blue_score d) l2 = Ok (l', fees)"
    "sroot = ledger_merkle_root E (apply_block_reward E b (blue_score d) fees l')"
    using root v s by (auto simp: post_mergeset_state_root_def split: sum.splits)
  have "apply_block_effects E (chain_id cs) (hput (block_hash E b) d gd) [] b l2 = apply_block_reward E b (blue_score d) fees l'"
    by (rule strict_body_is_replay [OF b(1) ne]) simp_all
  then show ?thesis using b(2) l2 by simp
qed

definition same_core :: "chain_state \<Rightarrow> chain_state \<Rightarrow> bool" where
  \<comment> \<open>equal up to difficulty, mempools and fee history\<close>
  "same_core cs cs' \<longleftrightarrow> dag cs' = dag cs \<and> ghostdag cs' = ghostdag cs \<and> reach cs' = reach cs \<and> tips cs' = tips cs
     \<and> main_chain cs' = main_chain cs \<and> live cs' = live cs \<and> chain_id cs' = chain_id cs \<and> archival cs' = archival cs
     \<and> base cs' = base cs \<and> base_captured cs' = base_captured cs \<and> base_frontier cs' = base_frontier cs"

lemma finality_point_cong:
  "ghostdag cs' = ghostdag cs \<Longrightarrow> tips cs' = tips cs \<Longrightarrow> finality_point cs' = finality_point cs"
  unfolding finality_point_def by (simp only:)

lemma chain_inv_core:
  assumes "same_core cs cs'" and "chain_inv E cs"
  shows "chain_inv E cs'"
proof -
  have f: "finality_point cs' = finality_point cs" using assms(1) by (intro finality_point_cong) (simp_all add: same_core_def)
  show ?thesis
    using assms f by (simp add: chain_inv_def same_core_def dag_ok_def leaf_tips_def roots_ok_def tip_ok_def)
qed

lemma bookkeeping_ok:
  assumes arch: "archival cs" and ok: "dag_ok E cs" and t: "selected_tip (ghostdag cs) (tips cs) = Some t"
  obtains cs' where "Option.bind (record_selected_chain_fee_samples E cs) (\<lambda>cs5.
       Option.bind (refresh_difficulty lab (drop_included_from_mempools E b cs5)) (\<lambda>cs6. prune_history E (prune_bodies cs6)))
     = Some cs'" and "same_core cs cs'"
proof -
  note d = dag_okD [OF ok]
  obtain c where "selected_chain (ghostdag cs) t = Some c" by (rule selected_chain_links [OF d(3) selected_tip_Some(2) [OF t]])
  then obtain fh where r: "record_selected_chain_fee_samples E cs = Some (cs\<lparr>fee_history := fh\<rparr>)"
    using t by (auto simp: record_selected_chain_fee_samples_def Let_def)
  define cs5 where "cs5 = drop_included_from_mempools E b (cs\<lparr>fee_history := fh\<rparr>)"
  have c5: "same_core cs cs5" by (simp add: cs5_def drop_included_from_mempools_def same_core_def)
  then have "links_ok (ghostdag cs5)" using d(3) by (simp add: same_core_def)
  then obtain x where "expected_difficulty_at lab (dag cs5) (ghostdag cs5) (minted_supply (live cs5)) (tips cs5)
      (sat_add64 (tip_timestamp cs5) TARGET_BLOCK_TIME_MS) = Some x"
    by (rule expected_difficulty_returns)
  then have x: "refresh_difficulty lab cs5 = Some (cs5\<lparr>difficulty := x\<rparr>)" by (simp add: refresh_difficulty_def)
  have "archival cs5" using c5 arch by (simp add: same_core_def)
  then have "prune_history E (prune_bodies (cs5\<lparr>difficulty := x\<rparr>)) = Some (cs5\<lparr>difficulty := x\<rparr>)"
    by (simp add: prune_history_def prune_bodies_def)
  then show thesis
    using that [of "cs5\<lparr>difficulty := x\<rparr>"] c5 r x by (simp add: same_core_def cs5_def)
qed

lemma settle_ok:
  assumes ok: "dag_ok E cs" and t: "selected_tip (ghostdag cs) (tips cs) = Some t" and fr: "from_base E cs t"
    and later: "\<And>f0. base_frontier cs = Some f0 \<Longrightarrow> \<exists>f. finality_point cs = Some (Some f) \<and> sp_anc (ghostdag cs) f0 f"
  obtains cs' fp l b where "Option.bind (advance_finalized_base E cs) (recompute_virtual_state E) = Some cs'"
    and "cs' = cs\<lparr>live := l, base := b, base_frontier := fp\<rparr>" and "finality_point cs = Some fp"
    and "from_base E cs' t" and "ledger_at E cs' t = Some l"
proof -
  obtain fp where fp: "finality_point cs = Some fp" by (rule finality_point_eq [OF dag_okD(3) [OF ok] t])
  from advance_past [OF ok t fr later fp] obtain l3 b
    where a: "advance_finalized_base E cs = Some (cs\<lparr>live := l3, base := b, base_frontier := fp\<rparr>)"
      "from_base E (cs\<lparr>live := l3, base := b, base_frontier := fp\<rparr>) t" by blast
  define cs3 where "cs3 = cs\<lparr>live := l3, base := b, base_frontier := fp\<rparr>"
  have "dag_ok E cs3" "selected_tip (ghostdag cs3) (tips cs3) = Some t" using ok t by (simp_all add: cs3_def dag_ok_def)
  then obtain l where r: "recompute_virtual_state E cs3 = Some (cs3\<lparr>live := l\<rparr>)" "ledger_at E cs3 t = Some l"
    by (rule recompute_past) (use a(2) in \<open>simp add: cs3_def\<close>)
  show thesis by (rule that [where cs' = "cs3\<lparr>live := l\<rparr>" and l = l and b = b and fp = fp]) (use a r fp in \<open>simp_all add: cs3_def\<close>)
qed

lemma frontier_grow:
  assumes inv: "chain_inv E cs" and tip: "tip_ok E cs t" and v: "check_structure E cs b = Ok ()" "check_finality cs b = Some (Ok ())"
      "select_parent (ghostdag cs) (parents b) = Some sp" "length (dag cs) < 2 ^ 41"
      "try_compute_ghostdag_data (dag cs) (ghostdag cs) (reach cs) (parents b) M = Some (Ok d)"
    and h: "h = block_hash E b" and ok1: "dag_ok E cs1"
    and cs1: "cs1 = cs\<lparr>dag := hput h b (dag cs), ghostdag := hput h d (ghostdag cs), reach := r',
      tips := filter (\<lambda>t. t \<notin> set (parents b)) (tips cs) @ [h]\<rparr>"
    and t': "selected_tip (ghostdag cs1) (tips cs1) = Some t'"
  shows "from_base E cs1 t'" and "t' = h \<or> t' = t"
    and "\<And>f0. base_frontier cs = Some f0 \<Longrightarrow> \<exists>f. finality_point cs1 = Some (Some f) \<and> sp_anc (ghostdag cs1) f0 f
       \<and> sp_anc (ghostdag cs1) f0 t'"
proof -
  have ok: "dag_ok E cs" using inv by (simp add: chain_inv_def)
  note dd = dag_okD [OF ok] and d1 = dag_okD [OF ok1]
  have s: "\<not> hhas (dag cs) h" "parents b \<noteq> []" "\<forall>p\<in>set (parents b). hhas (dag cs) p"
    using v(1) unfolding check_structure_Ok h by auto
  have hg: "\<not> hhas (ghostdag cs) h" using s(1) dd(4) by simp
  have run': "dag_run (hput h b (dag cs)) (hput h d (ghostdag cs)) r'" and l': "links_ok (hput h d (ghostdag cs))"
    using d1(1,3) by (simp_all add: cs1)
  note tp = tip [unfolded tip_ok_def]
  have sp': "selected_parent d = Some sp"
    by (rule dag_run_colored [OF dd(1) s(2,3) v(4,5)]) (use v(3) in simp)
  have up: "blue_score (hidx (ghostdag cs) p) < blue_score d" if "p \<in> set (parents b)" for p
  proof -
    have "data_ok (hput h b (dag cs)) (hput h d (ghostdag cs)) h d"
      using dag_run_inv [OF run'] by (simp add: ghost_inv_def)
    moreover have "p \<noteq> h" using that s by auto
    ultimately show ?thesis using that by (auto simp: data_ok_def edge_hput)
  qed
  have tn: "selected_tip (hput h d (ghostdag cs)) (filter (\<lambda>x. x \<notin> set (parents b)) (tips cs) @ [h]) = Some t'"
    using t' by (simp add: cs1)
  have "h \<notin> set (tips cs)" using inv s(1) by (auto simp: chain_inv_def leaf_tips_def)
  note sel = selected_tip_grow [OF conjunct1 [OF tp] hg this up tn]
  show tt: "t' = h \<or> t' = t" by (rule sel(1))
  have ht: "hhas (ghostdag cs) t" by (rule selected_tip_Some(2)) (use tp in blast)
  have on: "sp_anc (ghostdag cs1) f t'" "past_ledger E (chain_id cs1) (dag cs1) (ghostdag cs1) f = Some (base cs)"
    if f: "base_frontier cs = Some f" for f
  proof -
    have fp: "finality_point cs = Some (Some f)" using tp f by simp
    have "sp_anc (ghostdag cs) f t" "ledger_at E cs f = Some (base cs)" using tp f by (simp_all add: frontier_ok_def)
    moreover have "sp_anc (ghostdag cs) f sp" by (rule finality_check_parent [OF ok fp _ v(2,3)]) (use tp in blast)
    ultimately show "sp_anc (ghostdag cs1) f t'"
      using tt sp_anc_grow [OF dd(3) l' hg ht] sp_anc_new [OF dd(3) l' hg select_parent_Some(2) [OF v(3)] sp'] by (auto simp: cs1)
    have "hhas (ghostdag cs) f" by (rule finality_on_chain(2) [OF dd(3) _ fp]) (use tp in blast)
    then show "past_ledger E (chain_id cs1) (dag cs1) (ghostdag cs1) f = Some (base cs)"
      using past_ledger_grow [OF dd(1) run' s(1) dd(2)] dd(4) \<open>ledger_at E cs f = Some (base cs)\<close> by (simp add: cs1)
  qed
  have bf: "base_frontier cs1 = base_frontier cs" "base cs1 = base cs" by (simp_all add: cs1)
  show "from_base E cs1 t'"
  proof (cases "base_frontier cs")
    case None
    then show ?thesis using tp by (simp add: frontier_ok_def bf)
  next
    case (Some f)
    then show ?thesis using on [OF Some] by (simp add: frontier_ok_def bf)
  qed
  show "\<exists>f. finality_point cs1 = Some (Some f) \<and> sp_anc (ghostdag cs1) f0 f \<and> sp_anc (ghostdag cs1) f0 t'"
    if f0: "base_frontier cs = Some f0" for f0
  proof -
    have fp: "finality_point cs = Some (Some f0)" using tp f0 by simp
    note fo = finality_on_chain [OF dd(3) conjunct1 [OF tp] fp]
    have "f0 \<noteq> h" using fo(2) hg by auto
    then have "blue_score (hidx (ghostdag cs1) f0) = blue_score (hidx (ghostdag cs) f0)" by (simp add: cs1)
    moreover have "blue_score (hidx (ghostdag cs) t) \<le> blue_score (hidx (ghostdag cs1) t')" using sel(2) by (simp add: cs1)
    ultimately have "FINALITY_DEPTH < blue_score (hidx (ghostdag cs1) t')"
      "blue_score (hidx (ghostdag cs1) f0) + FINALITY_DEPTH \<le> blue_score (hidx (ghostdag cs1) t')"
      using fo(3,4) by simp_all
    then obtain f where "finality_point cs1 = Some (Some f)" "sp_anc (ghostdag cs1) f0 f"
      by (rule finality_advances [OF d1(3) t' on(1) [OF f0]])
    then show ?thesis using on(1) [OF f0] by blast
  qed
qed

lemma roots_grow:
  assumes inv: "chain_inv E cs" and tip: "tip_ok E cs t" and v: "check_structure E cs b = Ok ()" "check_finality cs b = Some (Ok ())"
      "select_parent (ghostdag cs) (parents b) = Some sp" "length (dag cs) < 2 ^ 41"
      "try_compute_ghostdag_data (dag cs) (ghostdag cs) (reach cs) (parents b) M = Some (Ok d)"
      "post_mergeset_state_root E cs sp (merged_blocks d) b (blue_score d) = Some (Ok (b_state_root b))"
    and h: "h = block_hash E b" and ok1: "dag_ok E cs1"
    and cs1: "cs1 = cs\<lparr>dag := hput h b (dag cs), ghostdag := hput h d (ghostdag cs), reach := r',
      tips := filter (\<lambda>t. t \<notin> set (parents b)) (tips cs) @ [h]\<rparr>"
  shows "roots_ok E cs1"
proof -
  have ok: "dag_ok E cs" using inv by (simp add: chain_inv_def)
  note dd = dag_okD [OF ok] and tp = tip [unfolded tip_ok_def]
  have s: "\<not> hhas (dag cs) h" "parents b \<noteq> []" "\<forall>p\<in>set (parents b). hhas (dag cs) p"
    using v(1) unfolding check_structure_Ok h by auto
  have run': "dag_run (hput h b (dag cs)) (hput h d (ghostdag cs)) r'" using dag_okD(1) [OF ok1] by (simp add: cs1)
  have sp: "hhas (ghostdag cs) sp" by (rule select_parent_Some(2) [OF v(3)])
  have fr: "from_base E cs sp"
  proof (cases "base_frontier cs")
    case None
    then show ?thesis using tp by (simp add: frontier_ok_def)
  next
    case (Some f)
    then have "sp_anc (ghostdag cs) f sp" using tp by (intro finality_check_parent [OF ok _ conjunct1 [OF tp] v(2,3)]) simp
    then show ?thesis using Some tp by (simp add: frontier_ok_def)
  qed
  have cap: "base_captured cs \<or> live cs = base cs" using inv tp by (auto simp: chain_inv_def frontier_ok_def)
  obtain l where l: "ledger_at E cs sp = Some l" by (rule virtual_state_past [OF ok sp fr cap])
  have new: "b_state_root b = ledger_merkle_root E (apply_block_effects E (chain_id cs) (hput h d (ghostdag cs)) [] b
      (fold (block_effect E (chain_id cs) (dag cs) (ghostdag cs)) (merged_blocks d) l))"
    unfolding h by (rule admitted_root [OF ok sp fr cap l v(6) s(2)])
  note past = past_ledger_new [OF dd(1) run' s(1) dd(2) s(2,3) v(4,5,3) l]
  have old: "ledger_at E cs1 x = ledger_at E cs x" if "hhas (dag cs) x" for x
    using past_ledger_grow [OF dd(1) run' s(1) dd(2) that] by (simp add: cs1)
  have "map_option (ledger_merkle_root E) (ledger_at E cs1 x) = Some (b_state_root b')"
    if x: "hget (dag cs1) x = Some b'" "parents b' \<noteq> []" for x b'
  proof (cases "x = h")
    case True
    then show ?thesis using x past new by (simp add: cs1)
  next
    case False
    then have "hget (dag cs) x = Some b'" using x(1) by (simp add: cs1)
    then show ?thesis using inv old [of x] x(2) by (simp add: chain_inv_def roots_ok_def hhas_def)
  qed
  then show ?thesis unfolding roots_ok_def by blast
qed

lemma commit_block_ok:
  assumes inv: "chain_inv E cs" and v: "validate_block E lab now pin cs b = Some (Ok d)" and size: "length (dag cs) < 2 ^ 41"
  obtains cs' where "commit_block E lab b d cs = Some cs'" and "chain_inv E cs'"
    and "dag cs' = hput (block_hash E b) b (dag cs)" and "ghostdag cs' = hput (block_hash E b) d (ghostdag cs)"
    and "chain_id cs' = chain_id cs" and "\<forall>f0. base_frontier cs = Some f0 \<longrightarrow>
      (\<exists>f. base_frontier cs' = Some f \<and> sp_anc (ghostdag cs') f0 f \<and> f0 \<in> set (main_chain cs'))"
proof -
  define h where "h = block_hash E b"
  obtain t where tip: "tip_ok E cs t" using inv by (auto simp: chain_inv_def)
  have ok: "dag_ok E cs" "leaf_tips cs" "archival cs" using inv by (simp_all add: chain_inv_def)
  obtain sp where c: "check_structure E cs b = Ok ()" "check_finality cs b = Some (Ok ())"
    "select_parent (ghostdag cs) (parents b) = Some sp"
    "try_compute_ghostdag_data (dag cs) (ghostdag cs) (reach cs) (parents b) MAX_MERGESET_SIZE = Some (Ok d)"
    "post_mergeset_state_root E cs sp (merged_blocks d) b (blue_score d) = Some (Ok (b_state_root b))"
    by (rule validate_block_Ok [OF v])
  obtain r' cs1 where i: "insert_block E b d cs = Some cs1" "dag_ok E cs1" "leaf_tips cs1"
    "cs1 = cs\<lparr>dag := hput h b (dag cs), ghostdag := hput h d (ghostdag cs), reach := r',
      tips := filter (\<lambda>t. t \<notin> set (parents b)) (tips cs) @ [h]\<rparr>"
    by (rule insert_block_ok [OF ok(1,2) c(1) size c(4) h_def])
  note d1 = dag_okD [OF i(2)]
  have "h \<in> set (tips cs1)" "hhas (ghostdag cs1) h" by (simp_all add: i(4))
  then obtain t' where t': "selected_tip (ghostdag cs1) (tips cs1) = Some t'" by (rule selected_tip_exists)
  note fg = frontier_grow [OF inv tip c(1,2,3) size c(4) h_def i(2,4) t'] and root = roots_grow [OF inv tip c(1,2,3) size c(4,5) h_def i(2,4)]
  obtain ch where ch: "selected_chain (ghostdag cs1) t' = Some ch" by (rule selected_chain_links [OF d1(3) selected_tip_Some(2) [OF t']])
  then have o: "order_main_chain cs1 = Some (cs1\<lparr>main_chain := ch\<rparr>)" using t' by (simp add: order_main_chain_def)
  define cs2 where "cs2 = capture_base (cs1\<lparr>main_chain := ch\<rparr>)"
  have bs: "base cs2 = base cs1" "base_captured cs2"
    using inv tip by (auto simp: cs2_def capture_base_def i(4) chain_inv_def tip_ok_def frontier_ok_def)
  have e2: "dag cs2 = dag cs1" "ghostdag cs2 = ghostdag cs1" "reach cs2 = reach cs1" "tips cs2 = tips cs1" "main_chain cs2 = ch"
    "chain_id cs2 = chain_id cs1" "base_frontier cs2 = base_frontier cs" "archival cs2"
    by (simp_all add: cs2_def capture_base_def i(4) ok(3))
  have f2: "finality_point cs2 = finality_point cs1" by (rule finality_point_cong [OF e2(2,4)])
  have ok2: "dag_ok E cs2" using i(2) by (simp add: dag_ok_def e2)
  have t2: "selected_tip (ghostdag cs2) (tips cs2) = Some t'" using t' by (simp add: e2)
  have fb: "from_base E cs2 t'" using fg(1) bs(1) e2 by (simp add: i(4))
  have later: "\<exists>f. finality_point cs2 = Some (Some f) \<and> sp_anc (ghostdag cs2) f0 f" if "base_frontier cs2 = Some f0" for f0
    using fg(3) [of f0] that by (auto simp: f2 e2)
  obtain cs4 fp l4 b4
    where a: "Option.bind (advance_finalized_base E cs2) (recompute_virtual_state E) = Some cs4"
      and c4: "cs4 = cs2\<lparr>live := l4, base := b4, base_frontier := fp\<rparr>" and fp: "finality_point cs2 = Some fp"
      and r: "from_base E cs4 t'" "ledger_at E cs4 t' = Some l4"
    by (rule settle_ok [OF ok2 t2 fb later])
  have e4: "dag cs4 = dag cs1" "ghostdag cs4 = ghostdag cs1" "reach cs4 = reach cs1" "tips cs4 = tips cs1" "main_chain cs4 = ch"
    "base_frontier cs4 = fp" "archival cs4" "base_captured cs4" "live cs4 = l4" "chain_id cs4 = chain_id cs1"
    by (simp_all add: c4 e2 bs)
  have "finality_point cs4 = Some fp" using finality_point_cong [of cs4 cs1] fp by (simp add: e4 f2)
  then have "tip_ok E cs4 t'" using r ch t' by (simp add: tip_ok_def e4)
  moreover have "dag_ok E cs4" "leaf_tips cs4" "roots_ok E cs4"
    using i(2,3) root by (simp_all add: dag_ok_def leaf_tips_def roots_ok_def e4)
  ultimately have inv4: "chain_inv E cs4" using e4 by (auto simp: chain_inv_def)
  have ok4: "dag_ok E cs4" "selected_tip (ghostdag cs4) (tips cs4) = Some t'" using i(2) t' by (simp_all add: dag_ok_def e4)
  obtain cs' where k: "Option.bind (record_selected_chain_fee_samples E cs4) (\<lambda>cs5.
       Option.bind (refresh_difficulty lab (drop_included_from_mempools E b cs5)) (\<lambda>cs6. prune_history E (prune_bodies cs6)))
     = Some cs'" "same_core cs4 cs'"
    by (rule bookkeeping_ok [OF e4(7) ok4])
  have "commit_block E lab b d cs = Some cs'"
  proof -
    obtain cs3 where "advance_finalized_base E cs2 = Some cs3" "recompute_virtual_state E cs3 = Some cs4"
      using a by (auto simp: bind_eq_Some_conv)
    then show ?thesis using k(1) by (simp add: commit_block_def i(1) o cs2_def)
  qed
  moreover have "chain_inv E cs'" by (rule chain_inv_core [OF k(2) inv4])
  moreover have s': "dag cs' = hput h b (dag cs)" "ghostdag cs' = hput h d (ghostdag cs)" "main_chain cs' = ch" "base_frontier cs' = fp" "chain_id cs' = chain_id cs"
    using k(2) e4 by (simp_all add: same_core_def i(4))
  moreover have "\<exists>f. base_frontier cs' = Some f \<and> sp_anc (ghostdag cs') f0 f \<and> f0 \<in> set (main_chain cs')"
    if "base_frontier cs = Some f0" for f0
    using fg(3) [OF that] fp f2 selected_chain_sp_anc [OF d1(3) selected_tip_Some(2) [OF t'] ch, of f0] s'
    by (auto simp: i(4))
  ultimately show thesis using that by (simp add: h_def)
qed

section \<open>Runs of a node\<close>

text \<open>
  \<open>node_steps\<close> is any sequence of calls of \<open>add_block\<close>, accepted or refused, by a node that holds fewer than
  \<open>2 ^ 41\<close> blocks, the capacity of the reachability index. \<open>node_run\<close> starts it at genesis, in archival mode
  or not.
\<close>

inductive node_steps :: "env \<Rightarrow> bool \<Rightarrow> chain_state \<Rightarrow> chain_state \<Rightarrow> bool" for E lab cs where
  refl: "node_steps E lab cs cs"
| block: "node_steps E lab cs cs1 \<Longrightarrow> length (dag cs1) < 2 ^ 41 \<Longrightarrow> add_block E lab now pin b cs1 = Some (cs2, res) \<Longrightarrow>
    node_steps E lab cs cs2"

definition node_run :: "env \<Rightarrow> bool \<Rightarrow> bool \<Rightarrow> chain_state \<Rightarrow> bool" where
  "node_run E lab arch cs \<longleftrightarrow> (\<exists>cs0. chain_new E lab = Some cs0 \<and> node_steps E lab (cs0\<lparr>archival := arch\<rparr>) cs)"

lemma add_block_cases:
  assumes "add_block E lab now pin b cs = Some (cs', res)"
  obtains (refused) e where "validate_block E lab now pin cs b = Some (Err e)" and "cs' = cs" and "res = Err e"
  | (added) d where "validate_block E lab now pin cs b = Some (Ok d)" and "commit_block E lab b d cs = Some cs'" and "res = Ok ()"
  using assms by (auto simp: add_block_def split: option.splits sum.splits)

lemma add_block_inv:
  assumes inv: "chain_inv E cs" and size: "length (dag cs) < 2 ^ 41" and add: "add_block E lab now pin b cs = Some (cs', res)"
  shows "chain_inv E cs'"
  using add
proof (cases rule: add_block_cases)
  case (added d)
  obtain cs1 where "commit_block E lab b d cs = Some cs1" "chain_inv E cs1" by (rule commit_block_ok [OF inv added(1) size])
  then show ?thesis using added by simp
qed (use inv in simp)

lemma node_steps_inv: "node_steps E lab cs cs' \<Longrightarrow> chain_inv E cs \<Longrightarrow> chain_inv E cs'"
  by (induction rule: node_steps.induct) (blast intro: add_block_inv)+

lemma node_run_inv: "node_run E lab True cs \<Longrightarrow> chain_inv E cs"
  unfolding node_run_def using chain_inv_start node_steps_inv by blast

lemma add_block_returns:
  assumes inv: "chain_inv E cs" and size: "length (dag cs) < 2 ^ 41"
  obtains cs' res where "add_block E lab now pin b cs = Some (cs', res)"
    and "res = Ok () \<longrightarrow> chain_inv E cs' \<and> \<not> hhas (dag cs) (block_hash E b) \<and> dag cs' = hput (block_hash E b) b (dag cs)"
    and "\<not> is_ok res \<longrightarrow> cs' = cs"
proof -
  obtain t where t: "selected_tip (ghostdag cs) (tips cs) = Some t" "dag_ok E cs" using inv by (auto simp: chain_inv_def tip_ok_def)
  obtain v where v: "validate_block E lab now pin cs b = Some v" by (rule validate_block_returns [OF t(2) size t(1)])
  show thesis
  proof (cases v)
    case (Inl e)
    then show ?thesis using that [of cs "Err e"] v by (simp add: add_block_def)
  next
    case (Inr d)
    then have vd: "validate_block E lab now pin cs b = Some (Ok d)" using v by simp
    then have st: "check_structure E cs b = Ok ()" by (rule validate_block_Ok)
    obtain cs' where "commit_block E lab b d cs = Some cs'" "chain_inv E cs'" "dag cs' = hput (block_hash E b) b (dag cs)"
      by (rule commit_block_ok [OF inv vd size])
    then show ?thesis using that [of cs' "Ok ()"] vd st unfolding check_structure_Ok by (simp add: add_block_def)
  qed
qed

lemma final_ledger_step:
  assumes inv: "chain_inv E cs" and size: "length (dag cs) < 2 ^ 41" and add: "add_block E lab now pin b cs = Some (cs', res)"
    and f: "base_frontier cs = Some f" and g: "sp_anc (ghostdag cs) g f"
  shows "\<exists>f'. base_frontier cs' = Some f' \<and> sp_anc (ghostdag cs') g f' \<and> g \<in> set (main_chain cs') \<and> ledger_at E cs' g = ledger_at E cs g"
proof -
  obtain t where tip: "tip_ok E cs t" and ok: "dag_ok E cs" using inv by (auto simp: chain_inv_def)
  note dd = dag_okD [OF ok]
  have tp: "selected_tip (ghostdag cs) (tips cs) = Some t" "selected_chain (ghostdag cs) t = Some (main_chain cs)"
    "sp_anc (ghostdag cs) f t" using tip f by (auto simp: tip_ok_def frontier_ok_def)
  have ht: "hhas (ghostdag cs) t" by (rule selected_tip_Some(2) [OF tp(1)])
  have gt: "sp_anc (ghostdag cs) g t" using g tp(3) by (rule rtranclp_trans)
  have hg: "hhas (ghostdag cs) g" by (rule sp_anc_known [OF gt dd(3) ht])
  from add show ?thesis
  proof (cases rule: add_block_cases)
    case refused
    then show ?thesis using f g selected_chain_sp_anc [OF dd(3) ht tp(2)] gt by simp
  next
    case (added d)
    define h where "h = block_hash E b"
    have "check_structure E cs b = Ok ()" using validate_block_Ok [OF added(1)] by blast
    then have nh: "\<not> hhas (dag cs) h" unfolding check_structure_Ok h_def by simp
    obtain cs1 f' where c: "commit_block E lab b d cs = Some cs1" "chain_inv E cs1" "dag cs1 = hput h b (dag cs)"
      "ghostdag cs1 = hput h d (ghostdag cs)" "base_frontier cs1 = Some f'" "sp_anc (ghostdag cs1) f f'"
      "chain_id cs1 = chain_id cs"
      using commit_block_ok [OF inv added(1) size] f unfolding h_def by metis
    obtain t1 where tip1: "tip_ok E cs1 t1" and ok1: "dag_ok E cs1" using c(2) by (auto simp: chain_inv_def)
    note d1 = dag_okD [OF ok1]
    have run': "dag_run (hput h b (dag cs)) (hput h d (ghostdag cs)) (reach cs1)" "links_ok (hput h d (ghostdag cs))"
      using d1(1,3) c(3,4) by simp_all
    have hf: "hhas (ghostdag cs) f" by (rule sp_anc_known [OF tp(3) dd(3) ht])
    have "sp_anc (ghostdag cs1) g f" using sp_anc_grow [OF dd(3) run'(2) _ hf] nh dd(4) g c(4) by simp
    then have gf: "sp_anc (ghostdag cs1) g f'" using c(6) by (rule rtranclp_trans)
    have t1: "selected_tip (ghostdag cs1) (tips cs1) = Some t1" "selected_chain (ghostdag cs1) t1 = Some (main_chain cs1)"
      "sp_anc (ghostdag cs1) f' t1" using tip1 c(5) by (auto simp: tip_ok_def frontier_ok_def)
    have "g \<in> set (main_chain cs1)"
      using selected_chain_sp_anc [OF d1(3) selected_tip_Some(2) [OF t1(1)] t1(2)] rtranclp_trans [OF gf t1(3)] by simp
    moreover have "past_ledger E (chain_id cs) (dag cs1) (ghostdag cs1) g = ledger_at E cs g"
      unfolding c(3,4) by (rule past_ledger_grow [OF dd(1) run'(1) nh dd(2)]) (use hg dd(4) in simp)
    ultimately show ?thesis using gf c(1,5,7) added(2) by simp
  qed
qed

section \<open>Solvency of every ledger a node keeps\<close>

definition ledgers_ok :: "chain_state \<Rightarrow> bool" where
  "ledgers_ok cs \<longleftrightarrow> solvent (live cs) \<and> solvent (base cs) \<and> (\<forall>l. pruning_ledger cs = Some l \<longrightarrow> solvent l)"

definition same_ledgers :: "chain_state \<Rightarrow> chain_state \<Rightarrow> bool" where
  "same_ledgers cs cs' \<longleftrightarrow> live cs' = live cs \<and> base cs' = base cs \<and> pruning_ledger cs' = pruning_ledger cs"

lemma solvent_default: "solvent ledger_default"
  using solvent_empty by (simp add: ledger_default_def empty_ledger_def)

lemma solvent_replay: "solvent l \<Longrightarrow> solvent (replay E cs hs l)"
  unfolding replay_def by (induction hs arbitrary: l) (auto simp: solvent_effects split: option.splits)

lemma solvent_genesis_replay:
  "genesis_replay E cid dg gd hs (sgd, ts, l) = Some l' \<Longrightarrow> solvent l \<Longrightarrow> solvent l'"
  by (induction hs arbitrary: sgd l) (auto simp: Let_def solvent_effects split: option.splits)

lemma solvent_without_utxo:
  assumes "solvent l"
  shows "solvent (ledger_default\<lparr>accounts := accounts l, minted_supply := minted_supply l, fees_burned := fees_burned l,
    treasury := treasury l, registry := registry l, staked := staked l\<rparr>)"
  using assms by (auto simp: solvent_def ledger_ok_def ledger_value_def ledger_default_def utxo_ok_def)

lemma ledgers_frames:
  "insert_block E b d cs = Some cs' \<Longrightarrow> same_ledgers cs cs'"
  "order_main_chain cs = Some cs' \<Longrightarrow> same_ledgers cs cs'"
  "record_selected_chain_fee_samples E cs = Some cs' \<Longrightarrow> same_ledgers cs cs'"
  "refresh_difficulty lab cs = Some cs' \<Longrightarrow> same_ledgers cs cs'"
  "same_ledgers cs (drop_included_from_mempools E b cs)"
  by (auto simp: same_ledgers_def insert_block_def order_main_chain_def record_selected_chain_fee_samples_def
      refresh_difficulty_def drop_included_from_mempools_def Let_def split: option.splits)

lemma prune_bodies_ledgers: "same_ledgers cs (prune_bodies cs)"
proof -
  have "same_ledgers cs (fold (\<lambda>h cs. cs\<lparr>dag := (case hget (dag cs) h of None \<Rightarrow> dag cs | Some b \<Rightarrow> hput h (clear_body b) (dag cs)),
      reach := drop_leaf (reach cs) h\<rparr>) hs cs)" for hs
    by (induction hs arbitrary: cs) (simp_all add: same_ledgers_def)
  then show ?thesis by (simp add: prune_bodies_def Let_def same_ledgers_def)
qed

lemma same_ledgers_ok: "same_ledgers cs cs' \<Longrightarrow> ledgers_ok cs \<Longrightarrow> ledgers_ok cs'"
  by (simp add: same_ledgers_def ledgers_ok_def)

lemma cache_pruning_ledger_ok:
  assumes "cache_pruning_ledger E pp cs = Some cs'" and "ledgers_ok cs"
  shows "ledgers_ok cs'"
proof -
  have s: "solvent l" if r: "ledger_via_genesis_replay E cs pp = Some (Some l)" for l
  proof -
    define l0 where "l0 = (if base_captured cs then ledger_default
      else ledger_default\<lparr>accounts := accounts (live cs), minted_supply := minted_supply (live cs),
        fees_burned := fees_burned (live cs), treasury := treasury (live cs), registry := registry (live cs),
        staked := staked (live cs)\<rparr>)"
    have "solvent l0"
      using assms(2) solvent_default solvent_without_utxo [of "live cs"] unfolding l0_def ledgers_ok_def by presburger
    moreover obtain hs where "genesis_replay E (chain_id cs) (dag cs) (ghostdag cs) hs
        ([(block_hash E genesis_block, ghostdag_genesis)], [block_hash E genesis_block], l0) = Some l"
      using r unfolding ledger_via_genesis_replay_def Let_def l0_def [symmetric] by auto
    ultimately show ?thesis using solvent_genesis_replay by blast
  qed
  obtain r where r: "ledger_via_genesis_replay E cs pp = Some r"
    using assms(1) by (auto simp: cache_pruning_ledger_def)
  show ?thesis
  proof (cases r)
    case None
    then show ?thesis using assms r by (simp add: cache_pruning_ledger_def)
  next
    case (Some l)
    then have "cs' = cs \<or> cs' = cs\<lparr>pruning_ledger := Some l\<rparr>"
      using assms(1) r by (auto simp: cache_pruning_ledger_def split: if_splits)
    then show ?thesis using assms(2) s [of l] r Some by (elim disjE) (simp_all add: ledgers_ok_def)
  qed
qed

lemma prune_history_ledgers:
  assumes "prune_history E cs = Some cs'" and "ledgers_ok cs"
  shows "ledgers_ok cs'"
proof -
  have p: "ledgers_ok (pruned_state pp i keep cs)" for pp i keep using assms(2) by (simp add: ledgers_ok_def pruned_state_def)
  have "cs' = cs \<or> (\<exists>pp i keep cs1. cache_pruning_ledger E pp (pruned_state pp i keep cs) = Some cs1 \<and> order_main_chain cs1 = Some cs')"
    using assms(1) unfolding prune_history_def Let_def by (auto split: if_splits option.splits)
  then show ?thesis
    using assms(2) p cache_pruning_ledger_ok ledgers_frames(2) same_ledgers_ok by blast
qed

lemma advance_ledgers:
  assumes "advance_finalized_base E cs = Some cs'" and "ledgers_ok cs"
  shows "ledgers_ok cs'"
  using assms solvent_replay
  by (auto simp: advance_finalized_base_def Let_def ledgers_ok_def split: option.splits if_splits)

lemma commit_ledgers:
  assumes "commit_block E lab b d cs = Some cs'" and "ledgers_ok cs"
  shows "ledgers_ok cs'"
proof -
  from assms(1) obtain cs1 cs2 cs3 cs4 cs5 cs6
    where s: "insert_block E b d cs = Some cs1" "order_main_chain cs1 = Some cs2"
      "advance_finalized_base E (capture_base cs2) = Some cs3" "recompute_virtual_state E cs3 = Some cs4"
      "record_selected_chain_fee_samples E cs4 = Some cs5" "refresh_difficulty lab (drop_included_from_mempools E b cs5) = Some cs6"
      "prune_history E (prune_bodies cs6) = Some cs'"
    by (auto simp: commit_block_def bind_eq_Some_conv)
  have "ledgers_ok cs2" using s(1,2) assms(2) ledgers_frames(1,2) same_ledgers_ok by blast
  then have "ledgers_ok (capture_base cs2)" by (simp add: capture_base_def ledgers_ok_def)
  then have "ledgers_ok cs3" using s(3) advance_ledgers by blast
  then have "ledgers_ok cs4" using s(4) solvent_replay by (auto simp: recompute_virtual_state_def ledgers_ok_def)
  then have "ledgers_ok (drop_included_from_mempools E b cs5)" using s(5) ledgers_frames(3,5) same_ledgers_ok by blast
  then have "ledgers_ok (prune_bodies cs6)" using s(6) ledgers_frames(4) prune_bodies_ledgers same_ledgers_ok by blast
  then show ?thesis using s(7) prune_history_ledgers by blast
qed

lemma node_steps_ledgers: "node_steps E lab cs cs' \<Longrightarrow> ledgers_ok cs \<Longrightarrow> ledgers_ok cs'"
proof (induction rule: node_steps.induct)
  case (block cs1 now pin b cs2 res)
  from block.hyps(3) show ?case by (cases rule: add_block_cases) (use block commit_ledgers in auto)
qed

lemma chain_new_ledgers: "chain_new E lab = Some cs \<Longrightarrow> ledgers_ok (cs\<lparr>archival := a\<rparr>)"
  using solvent_default by (auto simp: chain_new_def Let_def ledgers_ok_def split: option.splits)

end
