(* ===== verification/Node_Correct.thy ===== *)
theory Node_Correct
  imports Chain_Correct
begin

text \<open>
  What a node that runs \<open>add_block\<close> from genesis guarantees, with a concrete run: an environment in which the
  first block after genesis is accepted.
\<close>

section \<open>A concrete run\<close>

definition demo_chain_env :: env where
  "demo_chain_env = demo_env\<lparr>blake3_512 := (\<lambda>bs. if length bs = length (absorb_identity genesis_block) then - 1 else 7)\<rparr>"

definition demo_b1 :: block where
  "demo_b1 = \<lparr>height = 1, timestamp = GENESIS_TIMESTAMP_MS + 1, parents = [- 1], interlinks = [- 1],
     transparent_txs = [], utxo_txs = [], registry_ops = [], custody_ops = [], b_merkle_root = 0, b_state_root = 7,
     miner = 7, creator_pubkey = [0], b_nonce = 0, b_difficulty = era_min_difficulty True 0, version = VERSIONBITS_TOP_BITS,
     coinbase_entropy = 0, stark_proof = replicate 17 0, birth_certificate = [0], b_size = 0\<rparr>"

lemma genesis_identity_length: "length (absorb_identity genesis_block) = 262"
  by (simp add: absorb_identity_def genesis_block_def GENESIS_DOMAIN_def str_bytes_def)

lemma demo_hash: "blake3_512 demo_chain_env bs = (if length bs = 262 then - 1 else 7)"
  by (simp add: demo_chain_env_def genesis_identity_length)

lemma demo_hashes: "block_hash demo_chain_env genesis_block = - 1" "block_hash demo_chain_env demo_b1 = 7"
  "address_hash demo_chain_env [0] = 7"
  by (simp_all add: block_hash_def demo_hash genesis_identity_length digest512_def address_hash_def str_bytes_def)
    (simp_all add: absorb_identity_def demo_b1_def GENESIS_DOMAIN_def str_bytes_def)


definition demo_gd1 :: ghostdag_data where
  "demo_gd1 = \<lparr>blue_score = 1, selected_parent = Some (- 1), mergeset_blues = [- 1], mergeset_reds = []\<rparr>"

definition at_genesis :: "env \<Rightarrow> chain_state \<Rightarrow> bool" where
  "at_genesis E cs \<longleftrightarrow> dag cs = [(block_hash E genesis_block, genesis_block)]
     \<and> ghostdag cs = [(block_hash E genesis_block, ghostdag_genesis)]
     \<and> tips cs = [block_hash E genesis_block] \<and> main_chain cs = [block_hash E genesis_block]
     \<and> live cs = ledger_default \<and> base cs = ledger_default \<and> \<not> base_captured cs \<and> base_frontier cs = None"

lemma chain_new_genesis:
  obtains cs where "chain_new E lab = Some cs" and "at_genesis E cs"
    and "reach_add_block reach_new (block_hash E genesis_block) None [] = Some (reach cs)"
proof -
  have "\<not> hhas (nodes reach_new) (block_hash E genesis_block)" "index_ok reach_new" "length (nodes reach_new) < 2 ^ 41"
    using reach_inv_new by (auto simp: reach_new_def hhas_def reach_inv_def)
  then obtain r where r: "reach_add_block reach_new (block_hash E genesis_block) None [] = Some r"
    by (metis reach_add_block_returns)
  then obtain cs where cs: "chain_new E lab = Some cs" by (simp add: chain_new_def Let_def)
  have "at_genesis E cs \<and> reach cs = r" using cs r by (auto simp: chain_new_def Let_def at_genesis_def)
  with that cs r show thesis by blast
qed

lemma demo_structure: "at_genesis demo_chain_env cs \<Longrightarrow> check_structure demo_chain_env cs demo_b1 = Ok ()"
  unfolding check_structure_Ok at_genesis_def demo_hashes
  by (simp add: hhas_def demo_b1_def verify_size_def base_size_def demo_chain_env_def demo_env_def MAX_BLOCK_PARENTS_def)

lemma demo_selects:
  assumes "at_genesis demo_chain_env cs"
  shows "select_parent (ghostdag cs) [- 1] = Some (- 1)" "selected_tip (ghostdag cs) (tips cs) = Some (- 1)"
  using assms by (simp_all add: at_genesis_def demo_hashes select_parent_def selected_tip_def max_by_score_def hhas_def)

lemma demo_finality: "at_genesis demo_chain_env cs \<Longrightarrow> check_finality cs demo_b1 = Some (Ok ())"
  using demo_selects(2) [of cs] unfolding check_finality_def finality_point_def at_genesis_def demo_hashes
  by (simp add: ghostdag_genesis_def)

lemma demo_difficulty:
  assumes "at_genesis demo_chain_env cs"
  shows "expected_difficulty_at True (dag cs) (ghostdag cs) (minted_supply (live cs)) (parents demo_b1) ts = Some (era_min_difficulty True 0)"
proof -
  have d: "dag cs = [(- 1, genesis_block)]" "ghostdag cs = [(- 1, ghostdag_genesis)]" "minted_supply (live cs) = 0"
    using assms by (simp_all add: at_genesis_def demo_hashes ledger_default_def)
  have "collect_daa_blue_samples (dag cs) (ghostdag cs) (- 1) = Some [(GENESIS_TIMESTAMP_MS, 1)]"
    unfolding d collect_daa_blue_samples_def
    by (simp add: daa_loop_steps ghostdag_genesis_def genesis_block_def DAA_WINDOW_def)
  then show ?thesis
    using demo_selects(1) [OF assms] d(3)
    by (simp add: expected_difficulty_at_def demo_b1_def d(1) Let_def DAA_WINDOW_def genesis_block_def
        era_min_difficulty_def BOOTSTRAP_MIN_DIFFICULTY_def)
qed

lemma demo_header:
  assumes "at_genesis demo_chain_env cs"
  shows "check_header demo_chain_env cs demo_b1 (era_min_difficulty True 0) = Ok (- 1)"
proof -
  have pow: "verify_pow 7 (era_min_difficulty True 0)"
    by (simp add: verify_pow_def hash_meets_target_def pow_target_def era_min_difficulty_def BOOTSTRAP_MIN_DIFFICULTY_def)
  have lv: "superblock_level (- 1) 1 = 0" by (simp add: superblock_level_def unsigned_minus_1_eq_mask mask_eq_exp_minus_1)
  have il: "compute_interlinks demo_chain_env genesis_block = [- 1]"
    using lv by (simp add: compute_interlinks_def demo_hashes Let_def) (simp add: genesis_block_def)
  have d: "hget (dag cs) (- 1) = Some genesis_block" using assms by (simp add: at_genesis_def demo_hashes)
  have b: "b_difficulty demo_b1 = era_min_difficulty True 0" "stark_proof demo_b1 = replicate 17 0" "birth_certificate demo_b1 \<noteq> []"
    "parents demo_b1 = [- 1]" "interlinks demo_b1 = [- 1]" by (simp_all add: demo_b1_def)
  have f: "precheck_format demo_chain_env (replicate 17 0) = Ok ()"
    by (simp add: precheck_format_def RESULT_HEADER_LEN_def MAX_STARK_PROOF_BYTES_def demo_chain_env_def demo_env_def)
  show ?thesis
    unfolding check_header_def b demo_hashes demo_selects [OF assms] f option.case d il sum.case using pow b(3) by simp
qed


lemma demo_witnesses:
  assumes "at_genesis demo_chain_env cs"
  shows "check_witnesses demo_chain_env GENESIS_TIMESTAMP_MS None cs demo_b1 (- 1) = Ok ()"
proof -
  have d: "dag cs = [(- 1, genesis_block)]" "ghostdag cs = [(- 1, ghostdag_genesis)]" using assms by (simp_all add: at_genesis_def demo_hashes)
  have ts: "timestamp genesis_block = GENESIS_TIMESTAMP_MS" "timestamp demo_b1 = GENESIS_TIMESTAMP_MS + 1" by (simp_all add: genesis_block_def demo_b1_def)
  have mp: "max_parent_timestamp (dag cs) (parents demo_b1) = GENESIS_TIMESTAMP_MS"
    by (simp add: max_parent_timestamp_def d demo_b1_def List.map_filter_def ts)
  have mt: "past_median_time (dag cs) (ghostdag cs) (- 1) = GENESIS_TIMESTAMP_MS"
    by (simp add: past_median_time_def d eval_nat_numeral ghostdag_genesis_def ts)
  have dr: "\<not> GENESIS_TIMESTAMP_MS + 1 > sat_add64 GENESIS_TIMESTAMP_MS MAX_FUTURE_DRIFT_MS"
    by (simp add: sat_add64_def GENESIS_TIMESTAMP_MS_def MAX_FUTURE_DRIFT_MS_def)
  have st: "verify_stark_proof demo_chain_env demo_b1"
    by (simp add: verify_stark_proof_def precheck_format_def RESULT_HEADER_LEN_def MAX_STARK_PROOF_BYTES_def demo_chain_env_def demo_env_def demo_b1_def)
  have iss: "verify_issuance demo_chain_env demo_b1 = Ok ()"
    using demo_hashes(3) by (simp add: verify_issuance_def demo_b1_def birth_verify_def verify_pq512_def verify_signature_def)
      (simp add: demo_chain_env_def demo_env_def)
  have fm: "validate_block_transactions demo_chain_env (chain_id cs) (dag cs) demo_b1 = Ok ()"
    by (simp add: validate_block_transactions_def validate_account_forms_def validate_utxo_forms_def demo_b1_def)
  have mr: "b_merkle_root demo_b1 = block_merkle_root demo_chain_env demo_b1" by (simp add: block_merkle_root_def demo_b1_def)
  show ?thesis unfolding check_witnesses_def mp mt ts iss fm mr [symmetric] sum.case using dr st by simp
qed

lemma demo_colors:
  assumes "at_genesis demo_chain_env cs"
  shows "try_compute_ghostdag_data (dag cs) (ghostdag cs) (reach cs) (parents demo_b1) MAX_MERGESET_SIZE = Some (Ok demo_gd1)"
proof -
  have d: "dag cs = [(- 1, genesis_block)]" "ghostdag cs = [(- 1, ghostdag_genesis)]" using assms by (simp_all add: at_genesis_def demo_hashes)
  show ?thesis
    by (simp add: d demo_b1_def try_compute_ghostdag_data_def select_parent_def max_by_score_def mergeset_def sp_past_def hhas_def
      hidx_def materialized_blues_def blues_loop_steps dag_parents_def genesis_block_def topological_order_def
      order_by_rank_def ghostdag_genesis_def demo_gd1_def wadd64_def)
qed

lemma demo_root:
  assumes "at_genesis demo_chain_env cs"
  shows "post_mergeset_state_root demo_chain_env cs (- 1) (merged_blocks demo_gd1) demo_b1 (blue_score demo_gd1) = Some (Ok (b_state_root demo_b1))"
proof -
  have d: "dag cs = [(- 1, genesis_block)]" "ghostdag cs = [(- 1, ghostdag_genesis)]" "base_frontier cs = None" "live cs = ledger_default"
    "\<not> base_captured cs" using assms by (simp_all add: at_genesis_def demo_hashes)
  have o: "canonical_order_at (dag cs) (ghostdag cs) (- 1) = Some [- 1]"
    by (simp add: d canonical_order_at_def hhas_def selected_chain_def chain_loop_steps ghostdag_genesis_def order_step_def merged_blocks_def)
  have "virtual_state_at demo_chain_env cs (- 1) = Some ([(- 1, ghostdag_genesis)], ledger_default)"
    unfolding virtual_state_at_def o using d
    by (simp add: replay_start_def apply_block_effects_def) (simp add: genesis_block_def)
  moreover have "simulate_apply_block_body demo_chain_env cid tip demo_b1 blue l = Ok (l, 0)" for cid tip blue l
    by (simp add: simulate_apply_block_body_def demo_b1_def)
  moreover have "ledger_merkle_root demo_chain_env (apply_block_reward demo_chain_env demo_b1 1 0 ledger_default) = 7"
    by (simp add: ledger_merkle_root_def demo_hash apply_block_reward_def ledger_default_def Let_def str_bytes_def)
  ultimately show ?thesis
    by (simp add: post_mergeset_state_root_def merged_blocks_def demo_gd1_def) (simp add: demo_b1_def)
qed

lemma demo_valid:
  assumes "at_genesis demo_chain_env cs"
  shows "validate_block demo_chain_env True GENESIS_TIMESTAMP_MS None cs demo_b1 = Some (Ok demo_gd1)"
  unfolding validate_block_def demo_structure [OF assms] demo_finality [OF assms] demo_difficulty [OF assms] option.case sum.case
    demo_header [OF assms] demo_witnesses [OF assms] demo_colors [OF assms] demo_root [OF assms] by simp

lemma demo_node:
  obtains cs where "node_run demo_chain_env True True cs" and "hget (dag cs) 7 = Some demo_b1" and "chain_inv demo_chain_env cs"
    and "length (dag cs) = 2"
proof -
  obtain cs0 where c: "chain_new demo_chain_env True = Some cs0" "at_genesis demo_chain_env cs0" by (rule chain_new_genesis)
  define cs1 where "cs1 = cs0\<lparr>archival := True\<rparr>"
  have g: "at_genesis demo_chain_env cs1" using c(2) by (simp add: cs1_def at_genesis_def)
  have inv: "chain_inv demo_chain_env cs1" unfolding cs1_def by (rule chain_inv_start [OF c(1)])
  have d: "dag cs1 = [(- 1, genesis_block)]" using g by (simp add: at_genesis_def demo_hashes)
  then have size: "length (dag cs1) < 2 ^ 41" by simp
  obtain cs where k: "commit_block demo_chain_env True demo_b1 demo_gd1 cs1 = Some cs" "chain_inv demo_chain_env cs"
    "dag cs = hput (block_hash demo_chain_env demo_b1) demo_b1 (dag cs1)"
    by (rule commit_block_ok [OF inv demo_valid [OF g] size])
  have "add_block demo_chain_env True GENESIS_TIMESTAMP_MS None demo_b1 cs1 = Some (cs, Ok ())"
    using demo_valid [OF g] k(1) by (simp add: add_block_def)
  then have "node_steps demo_chain_env True cs1 cs" using node_steps.block [OF node_steps.refl size] by blast
  then have "node_run demo_chain_env True True cs" using c(1) unfolding node_run_def cs1_def by blast
  with that k(2,3) show thesis by (simp add: d demo_hashes)
qed

section \<open>Moving the base\<close>

lemma drop_take_drop: "s \<le> n \<Longrightarrow> drop s (take n xs) @ drop n xs = drop s xs"
  using append_take_drop_id [of "n - s" "drop s xs"] by (simp add: drop_take)

lemma replay_append: "replay E cs (xs @ ys) l = replay E cs ys (replay E cs xs l)"
  by (simp add: replay_def)

lemma advance_cases:
  assumes "advance_finalized_base E cs = Some cs'"
  obtains (kept) "cs' = cs"
  | (moved) fp ord i where "canonical_order cs = Some ord" and "position fp ord = Some i"
      and "replay_start (base_frontier cs) ord \<le> i + 1" and "finality_point cs = Some (Some fp)"
      and "cs' = cs\<lparr>live := replay E cs (drop (replay_start (base_frontier cs) ord) (take (i + 1) ord)) (base cs),
        base := replay E cs (drop (replay_start (base_frontier cs) ord) (take (i + 1) ord)) (base cs), base_frontier := Some fp\<rparr>"
proof -
  obtain r where r: "finality_point cs = Some r" using assms by (auto simp: advance_finalized_base_def split: option.splits)
  show thesis
  proof (cases "cs' = cs")
    case False
    then obtain fp where f: "r = Some fp" "base_frontier cs \<noteq> Some fp"
      using assms r by (cases r) (auto simp: advance_finalized_base_def split: if_splits)
    then obtain ord where o: "canonical_order cs = Some ord"
      using assms r by (cases "canonical_order cs") (simp_all add: advance_finalized_base_def)
    then obtain i where i: "position fp ord = Some i"
      using assms r f False by (cases "position fp ord") (simp_all add: advance_finalized_base_def)
    have "\<not> replay_start (base_frontier cs) ord > i + 1" using assms r f o i False by (auto simp: advance_finalized_base_def Let_def)
    then show thesis using moved [OF o i] assms r f o i by (simp add: advance_finalized_base_def Let_def)
  qed (rule kept)
qed

section \<open>Properties\<close>

lemma chain_inv_live:
  assumes inv: "chain_inv E cs"
  shows "\<exists>t ord. selected_tip (ghostdag cs) (tips cs) = Some t \<and> selected_chain (ghostdag cs) t = Some (main_chain cs)
    \<and> canonical_order cs = Some ord \<and> set ord = {y. y = t \<or> bfs_is_ancestor (dag cs) y t}
    \<and> live cs = replay E cs ord ledger_default"
proof -
  obtain t where tip: "tip_ok E cs t" and ok: "dag_ok E cs" using inv by (auto simp: chain_inv_def)
  note d = dag_okD [OF ok] and tp = tip [unfolded tip_ok_def]
  obtain ord where o: "canonical_order_at (dag cs) (ghostdag cs) t = Some (ord @ [t])" "set ord = {y. anc (dag cs) y t}"
    by (rule canonical_order_past [OF d(1) selected_tip_Some(2) [OF conjunct1 [OF tp]]])
  have "replay E cs (ord @ [t]) ledger_default = fold (block_effect E (chain_id cs) (dag cs) (ghostdag cs)) (ord @ [t]) ledger_default"
    by (rule replay_effects) (use d in auto)
  moreover have "live cs = fold (block_effect E (chain_id cs) (dag cs) (ghostdag cs)) (ord @ [t]) ledger_default"
    using tp o(1) by (simp add: past_ledger_def)
  ultimately have "live cs = replay E cs (ord @ [t]) ledger_default" by simp
  then show ?thesis
    using tp o by (intro exI [of _ t] exI [of _ "ord @ [t]"]) (auto simp: canonical_order_def bfs_is_ancestor_iff)
qed

text \<open>
  C1. The state of an archival node is what the protocol defines: the selected tip is the tip of largest
  score, the main chain is its selected chain, and the live ledger is the replay of the canonical order
  from the empty ledger of genesis, although the node replays only from its finalized base.
\<close>

theorem live_ledger_is_history:
  assumes "node_run E lab True cs"
  shows "\<exists>t ord. selected_tip (ghostdag cs) (tips cs) = Some t \<and> selected_chain (ghostdag cs) t = Some (main_chain cs)
    \<and> canonical_order cs = Some ord \<and> set ord = {y. y = t \<or> bfs_is_ancestor (dag cs) y t}
    \<and> live cs = replay E cs ord ledger_default"
  by (rule chain_inv_live [OF node_run_inv [OF assms]])

theorem live_ledger_is_history_witness:
  "\<exists>cs t ord. hget (dag cs) 7 = Some demo_b1 \<and> selected_tip (ghostdag cs) (tips cs) = Some t
    \<and> canonical_order cs = Some ord \<and> live cs = replay demo_chain_env cs ord ledger_default"
proof -
  obtain cs where "node_run demo_chain_env True True cs" "hget (dag cs) 7 = Some demo_b1" by (rule demo_node)
  with live_ledger_is_history [OF this(1)] show ?thesis by blast
qed

text \<open>
  C3. Every header commits to its history: the state root in the header of each block of an archival node
  is the root of the ledger that replaying the block's canonical order from genesis gives.
\<close>

theorem state_roots_commit:
  assumes "node_run E lab True cs" and "hget (dag cs) h = Some b" and "parents b \<noteq> []"
  shows "\<exists>ord. canonical_order_at (dag cs) (ghostdag cs) h = Some ord
    \<and> b_state_root b = ledger_merkle_root E (replay E cs ord ledger_default)"
proof -
  have inv: "chain_inv E cs" by (rule node_run_inv [OF assms(1)])
  then have ok: "dag_ok E cs" and "roots_ok E cs" by (auto simp: chain_inv_def)
  then have r: "map_option (ledger_merkle_root E) (ledger_at E cs h) = Some (b_state_root b)"
    using assms(2,3) unfolding roots_ok_def by blast
  note d = dag_okD [OF ok]
  have "replay E cs ord ledger_default = fold (block_effect E (chain_id cs) (dag cs) (ghostdag cs)) ord ledger_default" for ord
    by (rule replay_effects) (use d in auto)
  with r show ?thesis by (auto simp: past_ledger_def)
qed

theorem state_roots_commit_witness:
  "\<exists>cs ord. hget (dag cs) 7 = Some demo_b1 \<and> canonical_order_at (dag cs) (ghostdag cs) 7 = Some ord
    \<and> 7 = ledger_merkle_root demo_chain_env (replay demo_chain_env cs ord ledger_default)"
proof -
  obtain cs where c: "node_run demo_chain_env True True cs" "hget (dag cs) 7 = Some demo_b1" by (rule demo_node)
  have "parents demo_b1 \<noteq> []" "b_state_root demo_b1 = 7" by (simp_all add: demo_b1_def)
  with state_roots_commit [OF c this(1)] c(2) show ?thesis by auto
qed

text \<open>
  C5. Admission is total and atomic: \<open>add_block\<close> of an archival node returns for every block; a refusal
  leaves the node as it was, an acceptance adds exactly this block, which was not there, and the tips
  are again the blocks without children.
\<close>

theorem add_block_total:
  assumes "node_run E lab True cs" and "length (dag cs) < 2 ^ 41"
  shows "\<exists>cs' res. add_block E lab now pin b cs = Some (cs', res)
    \<and> (case res of Inl e \<Rightarrow> cs' = cs
       | Inr _ \<Rightarrow> \<not> hhas (dag cs) (block_hash E b) \<and> dag cs' = hput (block_hash E b) b (dag cs))
    \<and> set (tips cs') = {t. hhas (dag cs') t \<and> (\<forall>x. t \<notin> set (dag_parents (dag cs') x))}"
proof -
  have inv: "chain_inv E cs" by (rule node_run_inv [OF assms(1)])
  obtain cs' res where a: "add_block E lab now pin b cs = Some (cs', res)"
    "res = Ok () \<longrightarrow> chain_inv E cs' \<and> \<not> hhas (dag cs) (block_hash E b) \<and> dag cs' = hput (block_hash E b) b (dag cs)"
    "\<not> is_ok res \<longrightarrow> cs' = cs"
    by (rule add_block_returns [OF inv assms(2)])
  have "chain_inv E cs'" by (rule add_block_inv [OF inv assms(2) a(1)])
  then have "leaf_tips cs'" by (simp add: chain_inv_def)
  then show ?thesis using a by (auto simp: leaf_tips_def edge_def split: sum.splits)
qed

theorem add_block_total_witness:
  "\<exists>cs cs' res. hget (dag cs) 7 = Some demo_b1 \<and> add_block demo_chain_env True 5 None demo_b1 cs = Some (cs', res)
    \<and> \<not> is_ok res \<and> cs' = cs"
proof -
  obtain cs where c: "node_run demo_chain_env True True cs" "hget (dag cs) 7 = Some demo_b1" "length (dag cs) = 2" by (rule demo_node)
  then have "length (dag cs) < 2 ^ 41" by simp
  from add_block_total [OF c(1) this, of 5 None demo_b1] obtain cs' res
    where a: "add_block demo_chain_env True 5 None demo_b1 cs = Some (cs', res)"
      "case res of Inl e \<Rightarrow> cs' = cs | Inr _ \<Rightarrow> \<not> hhas (dag cs) (block_hash demo_chain_env demo_b1)
         \<and> dag cs' = hput (block_hash demo_chain_env demo_b1) demo_b1 (dag cs)" by blast
  have "hhas (dag cs) (block_hash demo_chain_env demo_b1)" using c(2) by (simp add: demo_hashes hhas_def)
  then show ?thesis using a c(2) by (cases res) auto
qed



text \<open>
  Finalizing is invisible: replaying the canonical order from the base after \<open>advance_finalized_base\<close> has
  moved it gives the same live ledger as before, in every state, pruned or not.
\<close>

theorem finalization_transparent:
  assumes "advance_finalized_base E cs = Some cs'"
  shows "map_option live (recompute_virtual_state E cs') = map_option live (recompute_virtual_state E cs)"
  using assms
proof (cases rule: advance_cases)
  case (moved fp ord i)
  define s where "s = replay_start (base_frontier cs) ord"
  define l where "l = replay E cs (drop s (take (i + 1) ord)) (base cs)"
  have e: "dag cs' = dag cs" "ghostdag cs' = ghostdag cs" "tips cs' = tips cs" "chain_id cs' = chain_id cs"
    "base cs' = l" "base_frontier cs' = Some fp" using moved(5) by (simp_all add: s_def l_def)
  have c: "canonical_order cs' = Some ord" using moved(1) unfolding canonical_order_def e .
  have rp: "replay E cs' = replay E cs" unfolding replay_def [abs_def] e ..
  have "replay E cs (drop (i + 1) ord) l = replay E cs (drop s ord) (base cs)"
    unfolding l_def replay_append [symmetric] drop_take_drop [OF moved(3) [folded s_def]] ..
  moreover have "replay_start (Some fp) ord = i + 1" using moved(2) by (simp add: replay_start_def)
  ultimately show ?thesis
    unfolding recompute_virtual_state_def c moved(1) rp e s_def by simp
qed simp

theorem finalization_transparent_witness:
  "\<exists>cs cs'. hget (dag cs) 7 = Some demo_b1 \<and> advance_finalized_base demo_chain_env cs = Some cs'
    \<and> map_option live (recompute_virtual_state demo_chain_env cs') = map_option live (recompute_virtual_state demo_chain_env cs)"
proof -
  obtain cs where c: "hget (dag cs) 7 = Some demo_b1" "chain_inv demo_chain_env cs" by (rule demo_node)
  then have "advance_finalized_base demo_chain_env cs = Some cs"
    by (auto simp: chain_inv_def tip_ok_def advance_finalized_base_def split: option.splits)
  with c(1) finalization_transparent [OF this] show ?thesis by blast
qed

text \<open>
  C4. Every ledger a node keeps is solvent, archival or pruning: in the live ledger, in the finalized base
  and in the snapshot cached for joining nodes, outputs, balances, escrows and stakes together never
  exceed the minted supply, nor that the cap.
\<close>

theorem node_ledgers_solvent:
  assumes "node_run E lab arch cs"
  shows "solvent (live cs) \<and> solvent (base cs) \<and> (\<forall>l. pruning_ledger cs = Some l \<longrightarrow> solvent l)"
proof -
  obtain cs0 where "chain_new E lab = Some cs0" "node_steps E lab (cs0\<lparr>archival := arch\<rparr>) cs"
    using assms by (auto simp: node_run_def)
  then have "ledgers_ok cs" using node_steps_ledgers chain_new_ledgers by blast
  then show ?thesis by (simp add: ledgers_ok_def)
qed

theorem node_ledgers_solvent_witness:
  "\<exists>cs :: chain_state. hget (dag cs) 7 = Some demo_b1 \<and> solvent (live cs)"
proof -
  obtain cs where c: "node_run demo_chain_env True True cs" "hget (dag cs) 7 = Some demo_b1" by (rule demo_node)
  with node_ledgers_solvent [OF c(1)] show ?thesis by blast
qed

end
