(* ===== verification/Escrow.thy ===== *)
theory Escrow
  imports Utxo
begin

text \<open>
  Bank-decoupled payment escrow. The law of a deal is \<open>tuep-escrow/src/lib.rs\<close>: phases, clock, payout
  vectors, typed events, terms, the record with its history and the transition table. The vault that
  enforces it on chain is \<open>src/bdpe.rs\<close>: the lock predicate, its witnesses and the transactions that fund
  and spend it. Signing is a call into a package: it is the argument \<open>sign\<close>, from a secret key and a message
  to a signature or an error.
\<close>

section \<open>The law\<close>

datatype escrow_phase = Offered | PhFunded | Settled | PhRefunded | TimedOut | Disputed

fun is_terminal :: "escrow_phase \<Rightarrow> bool" where
  "is_terminal p = (p = Settled \<or> p = PhRefunded \<or> p = TimedOut)"

definition is_locked :: "escrow_phase \<Rightarrow> bool" where
  "is_locked p = (p = PhFunded)"

datatype party = Buyer | Seller | Arbiter

datatype clock = AbsoluteBlue nat

fun clock_unlock_blue :: "clock \<Rightarrow> nat" where
  "clock_unlock_blue (AbsoluteBlue b) = b"

definition clock_reached :: "clock \<Rightarrow> nat \<Rightarrow> bool" where
  "clock_reached c media_blue = (media_blue \<ge> clock_unlock_blue c)"

datatype payout_vector = ToSeller | ToBuyer

fun phase1_allowed :: "payout_vector \<Rightarrow> bool" where
  "phase1_allowed ToSeller = True"
| "phase1_allowed ToBuyer = True"

datatype escrow_event =
    EvOpened (ev_id: string) address address nat nat string
  | EvFunded (ev_id: string) string "32 word" nat nat
  | EvCoopSettled (ev_id: string) payout_vector address nat string
  | EvCoopRefunded (ev_id: string) payout_vector address nat string
  | EvTimeoutClaimed (ev_id: string) payout_vector address nat string nat
  | EvDisputeOpened (ev_id: string) party

record escrow_terms =
  tm_buyer :: address
  tm_seller :: address
  tm_amount :: nat
  tm_clock :: clock
  tm_memo :: string
  tm_seed_hex :: string

definition timeout_blue :: "escrow_terms \<Rightarrow> nat" where
  "timeout_blue t = clock_unlock_blue (tm_clock t)"

definition terms_validate :: "escrow_terms \<Rightarrow> unit result" where
  "terms_validate t =
     (if tm_buyer t = [] \<or> tm_seller t = [] then Err ''buyer and seller required''
      else if tm_buyer t = tm_seller t then Err ''buyer and seller must differ''
      else if tm_amount t = 0 then Err ''amount must be positive''
      else if tm_seed_hex t = [] then Err ''seed required''
      else Ok ())"

definition derive_id :: "env \<Rightarrow> escrow_terms \<Rightarrow> address \<Rightarrow> string" where
  "derive_id E t opener =
     hex_encode E (hash_bytes (blake3_512 E
       (str_bytes ''tuep-bdpe-v1'' @ str_bytes opener @ str_bytes (tm_buyer t) @ str_bytes (tm_seller t)
        @ le_bytes 16 (tm_amount t) @ le_bytes 8 (timeout_blue t) @ str_bytes (tm_memo t) @ str_bytes (tm_seed_hex t))))"

record vault_outpoint =
  v_txid_hex :: string
  v_vout :: "32 word"

record escrow_record =
  er_id :: string
  er_opener :: address
  er_terms :: escrow_terms
  er_phase :: escrow_phase
  er_vault :: "vault_outpoint option"
  er_history :: "escrow_event list"

definition escrow_open :: "env \<Rightarrow> address \<Rightarrow> escrow_terms \<Rightarrow> escrow_record result" where
  "escrow_open E opener t =
     (case terms_validate t of
        Inl e \<Rightarrow> Err e
      | Inr _ \<Rightarrow>
          let eid = derive_id E t opener
          in Ok \<lparr>er_id = eid, er_opener = opener, er_terms = t, er_phase = Offered, er_vault = None,
                 er_history = [EvOpened eid (tm_buyer t) (tm_seller t) (tm_amount t) (timeout_blue t) (tm_memo t)]\<rparr>)"

definition assert_payout :: "payout_vector \<Rightarrow> address \<Rightarrow> escrow_terms \<Rightarrow> unit result" where
  "assert_payout payout to t =
     (if \<not> phase1_allowed payout then Err ''payout vector not allowed in Phase 1''
      else
        (case payout of
           ToSeller \<Rightarrow> if to \<noteq> tm_seller t then Err ''ToSeller payout must target seller address'' else Ok ()
         | ToBuyer \<Rightarrow> if to \<noteq> tm_buyer t then Err ''ToBuyer payout must target buyer address'' else Ok ()))"

definition transition :: "escrow_phase \<Rightarrow> escrow_event \<Rightarrow> escrow_terms \<Rightarrow> escrow_phase result" where
  "transition ph ev t =
     (if (case ev of EvDisputeOpened _ _ \<Rightarrow> True | _ \<Rightarrow> False) then Err ''Phase 1: dispute not enabled''
      else if is_terminal ph then Err ''escrow already closed''
      else
        (case (ph, ev) of
           (Offered, EvFunded _ _ _ amount _) \<Rightarrow>
             if amount \<noteq> tm_amount t then Err ''fund amount mismatch'' else Ok PhFunded
         | (PhFunded, EvCoopSettled _ payout to _ _) \<Rightarrow>
             if payout \<noteq> ToSeller then Err ''coop settle requires ToSeller vector''
             else if to \<noteq> tm_seller t then Err ''settle must pay seller'' else Ok Settled
         | (PhFunded, EvCoopRefunded _ payout to _ _) \<Rightarrow>
             if payout \<noteq> ToBuyer then Err ''coop refund requires ToBuyer vector''
             else if to \<noteq> tm_buyer t then Err ''refund must pay buyer'' else Ok PhRefunded
         | (PhFunded, EvTimeoutClaimed _ payout to _ _ media_blue) \<Rightarrow>
             if payout \<noteq> ToBuyer then Err ''timeout claim requires ToBuyer vector''
             else if to \<noteq> tm_buyer t then Err ''timeout claim must pay buyer''
             else if \<not> clock_reached (tm_clock t) media_blue then Err ''timeout clock not reached''
             else Ok TimedOut
         | _ \<Rightarrow> Err ''illegal transition''))"

definition event_effect :: "escrow_event \<Rightarrow> escrow_record \<Rightarrow> escrow_record \<times> unit result" where
  \<comment> \<open>the \<open>match &event\<close> of \<open>apply\<close>\<close>
  "event_effect ev r =
     (case ev of
        EvFunded _ outpoint_txid outpoint_vout amount _ \<Rightarrow>
          if amount \<noteq> tm_amount (er_terms r) then (r, Err ''fund amount must equal terms.amount'')
          else (r\<lparr>er_vault := Some \<lparr>v_txid_hex = outpoint_txid, v_vout = outpoint_vout\<rparr>\<rparr>, Ok ())
      | EvCoopSettled _ payout to _ _ \<Rightarrow> (r, assert_payout payout to (er_terms r))
      | EvCoopRefunded _ payout to _ _ \<Rightarrow> (r, assert_payout payout to (er_terms r))
      | EvTimeoutClaimed _ payout to _ _ _ \<Rightarrow> (r, assert_payout payout to (er_terms r))
      | EvDisputeOpened _ _ \<Rightarrow> (r, Err ''Phase 1: dispute not enabled'')
      | EvOpened _ _ _ _ _ _ \<Rightarrow> (r, Err ''already opened''))"

definition escrow_apply :: "escrow_event \<Rightarrow> escrow_record \<Rightarrow> escrow_record \<times> unit result" where
  "escrow_apply ev r =
     (if ev_id ev \<noteq> er_id r then (r, Err ''event escrow_id mismatch'')
      else
        (case transition (er_phase r) ev (er_terms r) of
           Inl e \<Rightarrow> (r, Err e)
         | Inr next_phase \<Rightarrow>
             (case event_effect ev r of
                (r1, Inl e) \<Rightarrow> (r1, Err e)
              | (r1, Inr _) \<Rightarrow> (r1\<lparr>er_phase := next_phase, er_history := er_history r1 @ [ev]\<rparr>, Ok ()))))"

datatype spend_path = Coop2of2 payout_vector | TimeoutBuyer

definition spend_path_validate :: "spend_path \<Rightarrow> escrow_terms \<Rightarrow> nat \<Rightarrow> unit result" where
  "spend_path_validate path t media_blue =
     (case path of
        Coop2of2 payout \<Rightarrow> if \<not> phase1_allowed payout then Err ''payout not allowed'' else Ok ()
      | TimeoutBuyer \<Rightarrow> if \<not> clock_reached (tm_clock t) media_blue then Err ''timeout not reached'' else Ok ())"

section \<open>The vault\<close>

definition vault_predicate :: "address \<Rightarrow> address \<Rightarrow> nat \<Rightarrow> predicate" where
  "vault_predicate buyer seller timeout = POr (MultiSig 2 [buyer, seller]) (AbsoluteLock buyer timeout)"

definition vault_predicate_from_terms :: "escrow_terms \<Rightarrow> predicate" where
  "vault_predicate_from_terms t = vault_predicate (tm_buyer t) (tm_seller t) (timeout_blue t)"

definition parse_vault_predicate :: "env \<Rightarrow> predicate \<Rightarrow> (address \<times> address \<times> nat) option" where
  "parse_vault_predicate E p =
     (case p of
        POr (MultiSig n [a0, a1]) (AbsoluteLock buyer unlock_blue) \<Rightarrow>
          if n \<noteq> 2 then None
          else if addresses_equivalent E a0 buyer then Some (buyer, a1, unlock_blue)
          else if addresses_equivalent E a1 buyer then Some (buyer, a0, unlock_blue)
          else None
      | _ \<Rightarrow> None)"

fun predicate_involves_address :: "env \<Rightarrow> predicate \<Rightarrow> address \<Rightarrow> bool" where
  "predicate_involves_address E (PayToAddress a) x = addresses_equivalent E a x"
| "predicate_involves_address E (AbsoluteLock a _) x = addresses_equivalent E a x"
| "predicate_involves_address E (RelativeLock a _) x = addresses_equivalent E a x"
| "predicate_involves_address E (AnnulAfter a _) x = addresses_equivalent E a x"
| "predicate_involves_address E (CreditAccount a) x = addresses_equivalent E a x"
| "predicate_involves_address E (MultiSig _ as) x = list_ex (\<lambda>a. addresses_equivalent E a x) as"
| "predicate_involves_address E (PAnd l r) x = (predicate_involves_address E l x \<or> predicate_involves_address E r x)"
| "predicate_involves_address E (POr l r) x = (predicate_involves_address E l x \<or> predicate_involves_address E r x)"
| "predicate_involves_address E (ExactValue _ inner) x = predicate_involves_address E inner x"
| "predicate_involves_address E (HashLock _) x = False"
| "predicate_involves_address E (CommitData _) x = False"

definition coop_witness :: "bytes \<Rightarrow> bytes \<Rightarrow> unlock_witness" where
  "coop_witness pk sg = WStack [WStack [CosignerSig pk sg]]"

definition timeout_witness :: unlock_witness where
  "timeout_witness = WSignature"

definition payout_address :: "escrow_terms \<Rightarrow> payout_vector \<Rightarrow> address result" where
  "payout_address t payout =
     (if \<not> phase1_allowed payout then Err ''payout vector not allowed in Phase 1''
      else Ok (case payout of ToSeller \<Rightarrow> tm_seller t | ToBuyer \<Rightarrow> tm_buyer t))"

section \<open>Funding and spending the vault\<close>

definition build_fund_tx :: "env \<Rightarrow> bytes \<Rightarrow> out_point \<Rightarrow> nat \<Rightarrow> escrow_terms \<Rightarrow> nat \<Rightarrow> nat \<Rightarrow> utxo_tx result" where
  "build_fund_tx E from_pubkey funding funding_value t fee0 chain =
     (case terms_validate t of
        Inl e \<Rightarrow> Err e
      | Inr _ \<Rightarrow>
          let change_addr = hash_to_address E from_pubkey
          in if \<not> addresses_equivalent E change_addr (tm_buyer t) then Err ''only the buyer may fund the vault''
             else
               let vault_out = \<lparr>o_value = tm_amount t, o_predicate = vault_predicate_from_terms t, created_blue = 0\<rparr>;
                   body = payment_body from_pubkey funding chain 0 0;
                   fee1 = max fee0 (utxo_min_fee_required E (body [vault_out] (max fee0 MIN_TX_FEE)));
                   fee = utxo_min_fee_required E (body [vault_out] fee1)
               in (case checked_add128 (tm_amount t) fee of
                     None \<Rightarrow> Err ''amount+fee overflow''
                   | Some need \<Rightarrow>
                       if funding_value < need then Err ''Insufficient funding UTXO''
                       else
                         let change = funding_value - need
                         in if change > 0
                            then if change < UTXO_DUST then Err ''Change below dust''
                                 else bump_fee E (body [vault_out, pay_to change_addr change] fee)
                            else bump_fee E (body [vault_out] fee)))"

definition vault_body :: "bytes \<Rightarrow> out_point \<Rightarrow> nat \<Rightarrow> unlock_witness \<Rightarrow> address \<Rightarrow> nat \<Rightarrow> nat \<Rightarrow> utxo_tx" where
  "vault_body from_pubkey vault chain wit to pay fee =
     \<lparr>inputs = [\<lparr>previous = vault, in_relative_lock_blues = 0, witness = wit\<rparr>], outputs = [pay_to to pay],
      u_lock_blue_score = 0, u_fee = fee, u_chain_id = chain, u_from_pubkey = from_pubkey, u_signature = []\<rparr>"

definition provisional_spend ::
  "env \<Rightarrow> bytes \<Rightarrow> out_point \<Rightarrow> nat \<Rightarrow> address \<Rightarrow> nat \<Rightarrow> nat \<Rightarrow> unlock_witness \<Rightarrow> utxo_tx result" where
  "provisional_spend E from_pubkey vault vault_value to fee0 chain wit =
     (let body = vault_body from_pubkey vault chain wit to;
          fee = utxo_min_fee_required E (body 1 (max fee0 MIN_TX_FEE))
      in if vault_value \<le> fee then Err ''vault value too small to cover fee''
         else
           let pay = vault_value - fee
           in if pay < UTXO_DUST then Err ''payout below dust''
              else bump_fee E (body pay fee))"

definition attach_witness :: "unlock_witness \<Rightarrow> utxo_tx \<Rightarrow> utxo_tx" where
  \<comment> \<open>\<open>tx.inputs[0].witness = w\<close>\<close>
  "attach_witness w tx = tx\<lparr>inputs := (case inputs tx of [] \<Rightarrow> [] | i # is \<Rightarrow> i\<lparr>witness := w\<rparr> # is)\<rparr>"

definition build_spend_tx ::
  "env \<Rightarrow> (bytes \<Rightarrow> bytes \<Rightarrow> bytes result) \<Rightarrow> bytes \<Rightarrow> bytes option \<Rightarrow> bytes option \<Rightarrow> out_point \<Rightarrow> nat \<Rightarrow> escrow_terms
    \<Rightarrow> spend_path \<Rightarrow> nat \<Rightarrow> nat \<Rightarrow> nat \<Rightarrow> utxo_tx result" where
  "build_spend_tx E sign primary_pubkey cosigner_pubkey cosigner_secret vault vault_value t path media_blue fee0 chain =
     (case terms_validate t of
        Inl e \<Rightarrow> Err e
      | Inr _ \<Rightarrow>
          (case spend_path_validate path t media_blue of
             Inl e \<Rightarrow> Err e
           | Inr _ \<Rightarrow>
               let primary = hash_to_address E primary_pubkey
               in (case path of
                     Coop2of2 payout \<Rightarrow>
                       (case (cosigner_pubkey, cosigner_secret) of
                          (None, _) \<Rightarrow> Err ''coop spend needs cosigner pubkey''
                        | (Some _, None) \<Rightarrow> Err ''coop spend needs cosigner secret''
                        | (Some cpk, Some csk) \<Rightarrow>
                            let cosigner_addr = hash_to_address E cpk
                            in if \<not> ((addresses_equivalent E primary (tm_buyer t) \<and> addresses_equivalent E cosigner_addr (tm_seller t))
                                    \<or> (addresses_equivalent E primary (tm_seller t) \<and> addresses_equivalent E cosigner_addr (tm_buyer t)))
                               then Err ''coop cosigners must be buyer and seller''
                               else
                                 (case payout_address t payout of
                                    Inl e \<Rightarrow> Err e
                                  | Inr to \<Rightarrow>
                                      (case provisional_spend E primary_pubkey vault vault_value to (max fee0 MIN_TX_FEE) chain WSignature of
                                         Inl e \<Rightarrow> Err e
                                       | Inr tx \<Rightarrow>
                                           (case sign csk (utxo_signing_bytes E tx) of
                                              Inl e \<Rightarrow> Err e
                                            | Inr sg \<Rightarrow>
                                                let tx1 = attach_witness (coop_witness cpk sg) tx
                                                in if u_fee tx1 < utxo_min_fee_required E tx1
                                                   then (case bump_fee E tx1 of
                                                           Inl e \<Rightarrow> Err e
                                                         | Inr tx2 \<Rightarrow>
                                                             (case sign csk (utxo_signing_bytes E tx2) of
                                                                Inl e \<Rightarrow> Err e
                                                              | Inr sg2 \<Rightarrow> Ok (attach_witness (coop_witness cpk sg2) tx2)))
                                                   else Ok tx1))))
                   | TimeoutBuyer \<Rightarrow>
                       if \<not> addresses_equivalent E primary (tm_buyer t) then Err ''timeout claim must be signed by buyer''
                       else
                         (case payout_address t ToBuyer of
                            Inl e \<Rightarrow> Err e
                          | Inr to \<Rightarrow> provisional_spend E primary_pubkey vault vault_value to fee0 chain timeout_witness))))"

definition terms_with_timeout :: "address \<Rightarrow> address \<Rightarrow> nat \<Rightarrow> nat \<Rightarrow> string \<Rightarrow> string \<Rightarrow> escrow_terms" where
  "terms_with_timeout buyer seller amount timeout memo seed_hex =
     \<lparr>tm_buyer = buyer, tm_seller = seller, tm_amount = amount, tm_clock = AbsoluteBlue timeout, tm_memo = memo,
      tm_seed_hex = seed_hex\<rparr>"

end
