(* ===== verification/Escrow_Correct.thy ===== *)
theory Escrow_Correct
  imports Escrow Spend_Predicate_Correct Address_Correct
begin

text \<open>
  Correctness of the escrow law and of its vault: every record has a history of the form the law allows,
  and the vault opens exactly for the two parties together or for the buyer after the timeout.
\<close>

section \<open>Records\<close>

inductive escrow_run :: "env \<Rightarrow> escrow_record \<Rightarrow> bool" for E where
  opened: "escrow_open E opener t = Ok r \<Longrightarrow> escrow_run E r"
| step: "escrow_run E r \<Longrightarrow> escrow_apply ev r = (r', res) \<Longrightarrow> escrow_run E r'"

definition opened_event :: "escrow_record \<Rightarrow> escrow_event" where
  "opened_event r = EvOpened (er_id r) (tm_buyer (er_terms r)) (tm_seller (er_terms r)) (tm_amount (er_terms r))
     (timeout_blue (er_terms r)) (tm_memo (er_terms r))"

definition funding :: "escrow_record \<Rightarrow> escrow_event \<Rightarrow> bool" where
  "funding r ev \<longleftrightarrow> (\<exists>txid vout mb. ev = EvFunded (er_id r) txid vout (tm_amount (er_terms r)) mb
     \<and> er_vault r = Some \<lparr>v_txid_hex = txid, v_vout = vout\<rparr>)"

definition closing :: "escrow_record \<Rightarrow> escrow_event \<Rightarrow> bool" where
  \<comment> \<open>who is paid, and for a timeout when\<close>
  "closing r ev \<longleftrightarrow>
     (case er_phase r of
        Settled \<Rightarrow> \<exists>amt tx. ev = EvCoopSettled (er_id r) ToSeller (tm_seller (er_terms r)) amt tx
      | PhRefunded \<Rightarrow> \<exists>amt tx. ev = EvCoopRefunded (er_id r) ToBuyer (tm_buyer (er_terms r)) amt tx
      | TimedOut \<Rightarrow> \<exists>amt tx mb. ev = EvTimeoutClaimed (er_id r) ToBuyer (tm_buyer (er_terms r)) amt tx mb
          \<and> timeout_blue (er_terms r) \<le> mb
      | _ \<Rightarrow> False)"

definition lawful :: "env \<Rightarrow> escrow_record \<Rightarrow> bool" where
  "lawful E r \<longleftrightarrow> terms_validate (er_terms r) = Ok () \<and> er_id r = derive_id E (er_terms r) (er_opener r)
     \<and> (case er_phase r of
          Offered \<Rightarrow> er_history r = [opened_event r] \<and> er_vault r = None
        | PhFunded \<Rightarrow> (\<exists>f. er_history r = [opened_event r, f] \<and> funding r f)
        | Disputed \<Rightarrow> False
        | _ \<Rightarrow> (\<exists>f c. er_history r = [opened_event r, f, c] \<and> funding r f \<and> closing r c))"

lemma escrow_apply_error: "escrow_apply ev r = (r', Inl e) \<Longrightarrow> r' = r"
  by (auto simp: escrow_apply_def event_effect_def transition_def split: if_splits sum.splits escrow_event.splits
      escrow_phase.splits prod.splits)

lemma escrow_apply_Ok:
  assumes "escrow_apply ev r = (r', Inr u)"
  obtains (fund) txid vout mb where "er_phase r = Offered" and "ev = EvFunded (er_id r) txid vout (tm_amount (er_terms r)) mb"
      and "r' = r\<lparr>er_vault := Some \<lparr>v_txid_hex = txid, v_vout = vout\<rparr>, er_phase := PhFunded, er_history := er_history r @ [ev]\<rparr>"
  | (close) ph where "er_phase r = PhFunded" and "r' = r\<lparr>er_phase := ph, er_history := er_history r @ [ev]\<rparr>"
      and "closing (r\<lparr>er_phase := ph\<rparr>) ev"
  using assms
  by (auto simp: escrow_apply_def event_effect_def transition_def closing_def clock_reached_def timeout_blue_def
      split: if_splits sum.splits escrow_event.splits escrow_phase.splits prod.splits)

lemma closing_history [simp]: "closing (r\<lparr>er_phase := ph, er_history := h\<rparr>) ev = closing (r\<lparr>er_phase := ph\<rparr>) ev"
  by (cases ph) (simp_all add: closing_def)

lemma lawful_step:
  assumes "lawful E r" and "escrow_apply ev r = (r', res)"
  shows "lawful E r'"
proof (cases res)
  case (Inl e)
  then show ?thesis using escrow_apply_error assms by blast
next
  case (Inr u)
  then have "escrow_apply ev r = (r', Inr u)" using assms(2) by simp
  then show ?thesis
  proof (cases rule: escrow_apply_Ok)
    case (fund txid vout mb)
    then show ?thesis using assms(1) by (simp add: lawful_def funding_def opened_event_def)
  next
    case (close ph)
    obtain f where f: "er_history r = [opened_event r, f]" "funding r f" using assms(1) close(1) by (auto simp: lawful_def)
    have h: "er_history r' = [opened_event r', f, ev]" "funding r' f" "closing r' ev" "er_phase r' = ph"
      using close(2,3) f by (simp_all add: opened_event_def funding_def)
    then have "ph = Settled \<or> ph = PhRefunded \<or> ph = TimedOut" by (cases ph) (simp_all add: closing_def)
    then show ?thesis using h assms(1) close(2) by (auto simp: lawful_def)
  qed
qed

text \<open>
  C31. The law of the escrow: whatever events are offered to a record, its history is exactly the opening,
  then at most one funding of the agreed amount, then at most one closing; a settlement pays the seller,
  a refund and a timeout claim pay the buyer, the latter not before the agreed blue score; the vault is
  known exactly once funded, and a dispute is never entered. A refused event changes nothing.
\<close>

theorem escrow_history_lawful:
  assumes "escrow_run E r"
  shows "lawful E r \<and> (\<forall>ev r' e. escrow_apply ev r = (r', Inl e) \<longrightarrow> r' = r)
    \<and> (\<forall>ev. is_terminal (er_phase r) \<longrightarrow> (\<exists>e. escrow_apply ev r = (r, Inl e)))"
proof -
  have l: "lawful E r" using assms
  proof (induction rule: escrow_run.induct)
    case (opened opener t r)
    then show ?case
      by (auto simp: escrow_open_def Let_def lawful_def opened_event_def split: sum.splits)
  next
    case (step r ev r' res)
    then show ?case using lawful_step by blast
  qed
  have "\<exists>e. escrow_apply ev r = (r, Inl e)" if "is_terminal (er_phase r)" for ev
  proof (cases "snd (escrow_apply ev r)")
    case (Inl e)
    then show ?thesis using escrow_apply_error by (metis prod.collapse)
  next
    case (Inr u)
    then have "escrow_apply ev r = (fst (escrow_apply ev r), Inr u)" by (metis prod.collapse)
    then show ?thesis by (cases rule: escrow_apply_Ok) (use that in auto)
  qed
  then show ?thesis using l escrow_apply_error by blast
qed

definition demo_terms :: escrow_terms where
  "demo_terms = \<lparr>tm_buyer = ''b'', tm_seller = ''s'', tm_amount = 5, tm_clock = AbsoluteBlue 9, tm_memo = [], tm_seed_hex = ''aa''\<rparr>"

theorem escrow_history_lawful_witness:
  "\<exists>r. escrow_open demo_env ''b'' demo_terms = Ok r \<and> lawful demo_env r"
proof -
  obtain r where "escrow_open demo_env ''b'' demo_terms = Ok r"
    by (simp add: escrow_open_def terms_validate_def demo_terms_def Let_def)
  with escrow_history_lawful [OF escrow_run.opened [OF this]] show ?thesis by blast
qed

text \<open>The amount a closing event reports is not compared with the agreed amount: any number is accepted.\<close>

lemma settle_amount_unchecked:
  "er_phase r = PhFunded \<Longrightarrow>
   snd (escrow_apply (EvCoopSettled (er_id r) ToSeller (tm_seller (er_terms r)) amt tx) r) = Ok ()"
  by (simp add: escrow_apply_def transition_def event_effect_def assert_payout_def)

section \<open>The vault\<close>

lemma hash_to_address_encode: "hash_to_address E pk = encode_hash (address_hash E pk)"
  by (simp add: hash_to_address_def encode_address_def encode_hash_def)

lemma canon_pair:
  assumes "\<not> addresses_equivalent E buyer seller"
  shows "canon E [buyer, seller] a = Some k \<longleftrightarrow>
    (k = buyer \<and> addresses_equivalent E buyer a) \<or> (k = seller \<and> addresses_equivalent E seller a)"
proof -
  have "\<not> (addresses_equivalent E buyer a \<and> addresses_equivalent E seller a)"
    using assms addresses_equivalent_sym addresses_equivalent_trans by blast
  moreover have "buyer \<noteq> seller" using assms by auto
  ultimately show ?thesis by (auto simp: canon_def)
qed

lemma two_of_pair:
  assumes "A \<subseteq> {a, b}" and "a \<noteq> b" and "k \<in> {a, b}"
  shows "2 \<le> card (insert k A) \<longleftrightarrow> (k = a \<and> b \<in> A) \<or> (k = b \<and> a \<in> A)"
proof -
  have "A = {} \<or> A = {a} \<or> A = {b} \<or> A = {a, b}" using assms(1) by blast
  then show ?thesis using assms(2,3) by (auto simp: card_insert_if)
qed

lemma vault_authorized:
  assumes ne: "\<not> addresses_equivalent E buyer seller"
  shows "authorized E K S signer media created (Some msg) (vault_predicate buyer seller timeout) \<longleftrightarrow>
    (timeout \<le> media \<and> addresses_equivalent E buyer signer)
    \<or> (\<exists>(pk, sg)\<in>S. verify_pq512 E ''utxo-tx'' msg pk sg \<and>
         (addresses_equivalent E buyer signer \<and> addresses_equivalent E seller (hash_to_address E pk)
          \<or> addresses_equivalent E seller signer \<and> addresses_equivalent E buyer (hash_to_address E pk)))"
proof -
  note c = canon_pair [OF ne]
  have bs: "buyer \<noteq> seller" using ne by auto
  define keys where "keys = cosigner_keys E [buyer, seller] msg S"
  have sub: "keys \<subseteq> {buyer, seller}" unfolding keys_def cosigner_keys_def by (auto simp: c)
  have inb: "k \<in> keys \<longleftrightarrow> (\<exists>(pk, sg)\<in>S. verify_pq512 E ''utxo-tx'' msg pk sg \<and> addresses_equivalent E k (hash_to_address E pk))"
    if "k \<in> {buyer, seller}" for k
    using that bs unfolding keys_def cosigner_keys_def hash_to_address_encode mem_Collect_eq c by auto
  have "(\<exists>k. canon E [buyer, seller] signer = Some k \<and> 2 \<le> card (insert k keys)) \<longleftrightarrow>
      (addresses_equivalent E buyer signer \<and> seller \<in> keys) \<or> (addresses_equivalent E seller signer \<and> buyer \<in> keys)"
    using two_of_pair [OF sub bs] by (auto simp: c)
  moreover have "authorized E K S signer media created (Some msg) (vault_predicate buyer seller timeout) \<longleftrightarrow>
      (\<exists>k. canon E [buyer, seller] signer = Some k \<and> 2 \<le> card (insert k keys))
      \<or> (timeout \<le> media \<and> addresses_equivalent E buyer signer)"
    by (simp add: vault_predicate_def keys_def MAX_STACK_def numeral_2_eq_2)
  ultimately show ?thesis using inb by blast
qed

text \<open>
  C30. The vault keeps the law: for a transaction with signed bytes \<open>msg\<close>, a spender who holds the cosigner
  signatures \<open>S\<close> can open it exactly when the buyer and the seller both sign, one as the signer of the
  transaction and the other as cosigner, or when the buyer signs at or after the timeout. So the
  seller alone never opens it, nor the buyer alone before the timeout.
\<close>

theorem vault_opens_iff:
  assumes "\<not> addresses_equivalent E (tm_buyer t) (tm_seller t)"
  shows "(\<exists>w. wit_preimages w \<subseteq> K \<and> wit_cosigs w \<subseteq> S
      \<and> evaluate_full E (vault_predicate_from_terms t) w signer media created (Some msg) = Ok ()) \<longleftrightarrow>
    (timeout_blue t \<le> media \<and> addresses_equivalent E (tm_buyer t) signer)
    \<or> (\<exists>(pk, sg)\<in>S. verify_pq512 E ''utxo-tx'' msg pk sg \<and>
         (addresses_equivalent E (tm_buyer t) signer \<and> addresses_equivalent E (tm_seller t) (hash_to_address E pk)
          \<or> addresses_equivalent E (tm_seller t) signer \<and> addresses_equivalent E (tm_buyer t) (hash_to_address E pk)))"
proof -
  have "depth (vault_predicate_from_terms t) \<le> MAX_PRED_DEPTH"
    by (simp add: vault_predicate_from_terms_def vault_predicate_def MAX_PRED_DEPTH_def)
  then have "(\<exists>w. wit_preimages w \<subseteq> K \<and> wit_cosigs w \<subseteq> S
      \<and> evaluate_full E (vault_predicate_from_terms t) w signer media created (Some msg) = Ok ())
    \<longleftrightarrow> authorized E K S signer media created (Some msg) (vault_predicate_from_terms t)"
    by (simp add: unlock_authorized)
  then show ?thesis using vault_authorized [OF assms] by (simp add: vault_predicate_from_terms_def)
qed

theorem vault_opens_iff_witness:
  "\<not> (\<exists>w. wit_preimages w \<subseteq> {} \<and> wit_cosigs w \<subseteq> {}
     \<and> evaluate_full demo_env (vault_predicate_from_terms demo_terms) w ''s'' 100 0 (Some []) = Ok ())"
proof -
  have "\<not> addresses_equivalent demo_env ''b'' ''s''" by code_simp
  then show ?thesis
    using vault_opens_iff [of demo_env demo_terms "{}" "{}" "''s''" 100 0 "[]"] by (simp add: demo_terms_def)
qed

end
