(* ===== verification/Addrman.thy ===== *)
theory Addrman
  imports Address "HOL-Library.List_Lexorder" "HOL-Library.Char_ord"
begin

text \<open>
  The peer address manager, \<open>src/addrman.rs\<close>: the new and tried tables of buckets, the feeler queue and every
  operation on them. The clock is an argument. \<open>parse_ip\<close>, an argument, is \<open>IpAddr::from_str\<close>. The bucket hash
  reads eight bytes of the extensible output, which are the first eight of the 64-byte digest.
\<close>

section \<open>State\<close>

datatype ip_addr = V4 bytes | V6 bytes

definition NEW_BUCKETS :: nat where "NEW_BUCKETS = 64"
definition TRIED_BUCKETS :: nat where "TRIED_BUCKETS = 32"
definition ADDRS_PER_BUCKET :: nat where "ADDRS_PER_BUCKET = 64"
definition MAX_ADDRS_TOTAL :: nat where "MAX_ADDRS_TOTAL = 2048"

record addr_record =
  ar_addr :: string
  last_success_ms :: nat
  last_try_ms :: nat
  attempts :: nat
  ar_source :: string

record addr_man =
  new_tbl :: "addr_record list list"
  tried :: "addr_record list list"
  feelers :: "string list"

definition trim_brackets :: "string \<Rightarrow> string" where
  \<comment> \<open>\<open>trim_matches(|c| c == '[' || c == ']')\<close>\<close>
  "trim_brackets s =
     (let b = (\<lambda>c. c = CHR ''['' \<or> c = CHR '']'') in rev (dropWhile b (rev (dropWhile b s))))"

definition parse_host :: "(string \<Rightarrow> ip_addr option) \<Rightarrow> string \<Rightarrow> ip_addr option" where
  "parse_host parse_ip addr =
     parse_ip (case rsplit_once CHR '':'' addr of None \<Rightarrow> addr | Some (h, _) \<Rightarrow> trim_brackets h)"

fun net_group :: "ip_addr \<Rightarrow> bytes" where
  "net_group (V4 octets) = take 2 octets"
| "net_group (V6 octets) = take 4 octets"

definition bucket_for :: "env \<Rightarrow> (string \<Rightarrow> ip_addr option) \<Rightarrow> string \<Rightarrow> nat \<Rightarrow> 8 word \<Rightarrow> nat" where
  "bucket_for E parse_ip addr n salt =
     le_nat (take 8 (hash_bytes (blake3_512 E
       (str_bytes ''hassan-addrman-bucket-v1'' @ [salt] @ str_bytes addr
        @ (case parse_host parse_ip addr of None \<Rightarrow> [] | Some ip \<Rightarrow> net_group ip))))) mod max n 1"

section \<open>Operations\<close>

definition addrman_new :: addr_man where
  "addrman_new = \<lparr>new_tbl = replicate NEW_BUCKETS [], tried = replicate TRIED_BUCKETS [], feelers = []\<rparr>"

definition resize :: "nat \<Rightarrow> 'a list list \<Rightarrow> 'a list list" where
  \<comment> \<open>\<open>v.resize(n, Vec::new())\<close>\<close>
  "resize n xs = take n xs @ replicate (n - length xs) []"

definition ensure_buckets :: "addr_man \<Rightarrow> addr_man" where
  "ensure_buckets m =
     (let m1 = (if length (new_tbl m) \<noteq> NEW_BUCKETS then m\<lparr>new_tbl := resize NEW_BUCKETS (new_tbl m)\<rparr> else m)
      in if length (tried m1) \<noteq> TRIED_BUCKETS then m1\<lparr>tried := resize TRIED_BUCKETS (tried m1)\<rparr> else m1)"

definition addrman_len :: "addr_man \<Rightarrow> nat" where
  "addrman_len m = sum_list (map length (new_tbl m)) + sum_list (map length (tried m))"

definition has_addr :: "string \<Rightarrow> addr_record list list \<Rightarrow> bool" where
  "has_addr addr = list_ex (list_ex (\<lambda>r. ar_addr r = addr))"

definition addrman_contains :: "addr_man \<Rightarrow> string \<Rightarrow> bool" where
  "addrman_contains m addr = has_addr addr (new_tbl m @ tried m)"

definition push_bounded :: "addr_record \<Rightarrow> addr_record list \<Rightarrow> addr_record list" where
  \<comment> \<open>evict the oldest of a full bucket, then push\<close>
  "push_bounded r bucket = (if length bucket \<ge> ADDRS_PER_BUCKET then tl bucket else bucket) @ [r]"

definition addrman_add :: "env \<Rightarrow> (string \<Rightarrow> ip_addr option) \<Rightarrow> string \<Rightarrow> string \<Rightarrow> addr_man \<Rightarrow> addr_man \<times> bool" where
  "addrman_add E parse_ip addr source m0 =
     (let m = ensure_buckets m0
      in if addr = [] \<or> addrman_contains m addr then (m, False)
         else if addrman_len m \<ge> MAX_ADDRS_TOTAL then (m, False)
         else
           let b = bucket_for E parse_ip addr NEW_BUCKETS 0x4e;
               r = \<lparr>ar_addr = addr, last_success_ms = 0, last_try_ms = 0, attempts = 0, ar_source = source\<rparr>
           in (m\<lparr>new_tbl := (new_tbl m)[b := push_bounded r (new_tbl m ! b)],
                  feelers := (if addr \<notin> set (feelers m) then feelers m @ [addr] else feelers m)\<rparr>, True))"

fun update_first :: "('a \<Rightarrow> bool) \<Rightarrow> ('a \<Rightarrow> 'a) \<Rightarrow> 'a list \<Rightarrow> 'a list" where
  \<comment> \<open>\<open>if let Some(r) = iter_mut().find(p) { f(r) }\<close>\<close>
  "update_first p f [] = []"
| "update_first p f (x # xs) = (if p x then f x # xs else x # update_first p f xs)"

definition addrman_good :: "env \<Rightarrow> (string \<Rightarrow> ip_addr option) \<Rightarrow> nat \<Rightarrow> string \<Rightarrow> addr_man \<Rightarrow> addr_man" where
  "addrman_good E parse_ip now addr m0 =
     (let m = ensure_buckets m0;
          m1 = m\<lparr>new_tbl := map (filter (\<lambda>r. ar_addr r \<noteq> addr)) (new_tbl m), feelers := filter (\<lambda>a. a \<noteq> addr) (feelers m)\<rparr>;
          b = bucket_for E parse_ip addr TRIED_BUCKETS 0x54;
          bucket = tried m1 ! b;
          r = \<lparr>ar_addr = addr, last_success_ms = now, last_try_ms = now, attempts = 0, ar_source = ''good''\<rparr>
      in if list_ex (\<lambda>r. ar_addr r = addr) bucket
         then m1\<lparr>tried := (tried m1)[b := update_first (\<lambda>r. ar_addr r = addr) (\<lambda>r. r\<lparr>last_success_ms := now, attempts := 0\<rparr>) bucket]\<rparr>
         else m1\<lparr>tried := (tried m1)[b := push_bounded r bucket]\<rparr>)"

definition addrman_attempted :: "nat \<Rightarrow> string \<Rightarrow> addr_man \<Rightarrow> addr_man" where
  "addrman_attempted now addr m0 =
     (let m = ensure_buckets m0;
          f = update_first (\<lambda>r. ar_addr r = addr) (\<lambda>r. r\<lparr>last_try_ms := now, attempts := min (attempts r + 1) u32_max\<rparr>)
      in m\<lparr>new_tbl := map f (new_tbl m), tried := map f (tried m)\<rparr>)"

definition select_push :: "nat \<Rightarrow> string set \<Rightarrow> string \<Rightarrow> string list \<Rightarrow> string list" where
  \<comment> \<open>the closure \<open>push\<close> of \<open>select\<close>; the branch on the network group is empty and the set \<open>groups\<close> is read nowhere else\<close>
  "select_push n exclude addr out =
     (if length out \<ge> n \<or> addr \<in> exclude then out else if addr \<in> set out then out else out @ [addr])"

definition addrman_select :: "nat \<Rightarrow> string set \<Rightarrow> addr_man \<Rightarrow> string list" where
  "addrman_select n exclude m = fold (select_push n exclude) (map ar_addr (concat (tried m) @ concat (new_tbl m))) []"

function select_feeler_loop :: "addr_man \<Rightarrow> addr_man \<times> string option" where
  "select_feeler_loop m =
     (if feelers m = [] then (m, None)
      else
        let addr = last (feelers m); m1 = m\<lparr>feelers := butlast (feelers m)\<rparr>
        in if has_addr addr (new_tbl m1) then (m1, Some addr) else select_feeler_loop m1)"
  by pat_completeness auto
termination by (relation "measure (length \<circ> feelers)") auto

declare select_feeler_loop.simps [simp del]

definition select_feeler :: "addr_man \<Rightarrow> addr_man \<times> string option" where
  "select_feeler m = select_feeler_loop (ensure_buckets m)"

definition sample_for_addr_msg :: "nat \<Rightarrow> addr_man \<Rightarrow> string list" where
  \<comment> \<open>\<open>sort\<close>, \<open>dedup\<close>, \<open>truncate\<close>\<close>
  "sample_for_addr_msg mx m = take mx (sorted_list_of_set (set (map ar_addr (concat (tried m) @ concat (new_tbl m)))))"

end
