(* ===== verification/Addrman_Correct.thy ===== *)
theory Addrman_Correct
  imports Addrman
begin

text \<open>
  Correctness of the address manager: the tables keep their shape and bounds and never hold an address
  twice, through every history of its operations; and that the feeler queue is not bounded.
\<close>

section \<open>The invariant\<close>

definition table_ok :: "(string \<Rightarrow> nat) \<Rightarrow> nat \<Rightarrow> addr_record list list \<Rightarrow> bool" where
  \<comment> \<open>\<open>n\<close> bounded buckets, each address at most once and in its own bucket\<close>
  "table_ok place n tbl \<longleftrightarrow> length tbl = n
     \<and> (\<forall>i<n. length (tbl ! i) \<le> ADDRS_PER_BUCKET \<and> distinct (map ar_addr (tbl ! i)) \<and> (\<forall>r\<in>set (tbl ! i). place (ar_addr r) = i))"

definition addrman_ok :: "env \<Rightarrow> (string \<Rightarrow> ip_addr option) \<Rightarrow> addr_man \<Rightarrow> bool" where
  "addrman_ok E parse_ip m \<longleftrightarrow> table_ok (\<lambda>a. bucket_for E parse_ip a NEW_BUCKETS 0x4e) NEW_BUCKETS (new_tbl m)
     \<and> table_ok (\<lambda>a. bucket_for E parse_ip a TRIED_BUCKETS 0x54) TRIED_BUCKETS (tried m)
     \<and> (\<forall>a. \<not> (has_addr a (new_tbl m) \<and> has_addr a (tried m))) \<and> distinct (feelers m)"

inductive addrman_run :: "env \<Rightarrow> (string \<Rightarrow> ip_addr option) \<Rightarrow> addr_man \<Rightarrow> bool" for E parse_ip where
  start: "addrman_run E parse_ip addrman_new"
| add: "addrman_run E parse_ip m \<Longrightarrow> addrman_add E parse_ip addr src m = (m', added) \<Longrightarrow> addrman_run E parse_ip m'"
| good: "addrman_run E parse_ip m \<Longrightarrow> addrman_run E parse_ip (addrman_good E parse_ip now addr m)"
| attempted: "addrman_run E parse_ip m \<Longrightarrow> addrman_run E parse_ip (addrman_attempted now addr m)"
| feeler: "addrman_run E parse_ip m \<Longrightarrow> select_feeler m = (m', a) \<Longrightarrow> addrman_run E parse_ip m'"

section \<open>Tables\<close>

lemma has_addr_set: "has_addr a tbl \<longleftrightarrow> (\<exists>b\<in>set tbl. a \<in> ar_addr ` set b)"
  by (auto simp: has_addr_def list_ex_iff)

lemma has_addr_iff: "has_addr a tbl \<longleftrightarrow> (\<exists>i<length tbl. a \<in> ar_addr ` set (tbl ! i))"
  unfolding has_addr_set by (metis in_set_conv_nth)

lemma has_addr_update:
  assumes i: "i < length tbl" and sub: "ar_addr ` set bk \<subseteq> insert x (ar_addr ` set (tbl ! i))" and h: "has_addr a (tbl[i := bk])"
  shows "a = x \<or> has_addr a tbl"
proof -
  obtain j where j: "j < length tbl" "a \<in> ar_addr ` set (tbl[i := bk] ! j)" using h by (auto simp: has_addr_iff)
  show ?thesis
  proof (cases "j = i")
    case True
    then have "a \<in> insert x (ar_addr ` set (tbl ! i))" using j i sub by auto
    then show ?thesis using i by (auto simp: has_addr_iff)
  next
    case False
    then show ?thesis using j by (auto simp: has_addr_iff)
  qed
qed

lemma table_ok_length: "table_ok place n tbl \<Longrightarrow> length tbl = n"
  by (simp add: table_ok_def)

lemma table_ok_place:
  assumes "table_ok place n tbl" and "has_addr a tbl"
  shows "place a < n \<and> a \<in> ar_addr ` set (tbl ! place a)"
  using assms by (auto simp: table_ok_def has_addr_iff)

lemma table_ok_update:
  assumes t: "table_ok place n tbl" and i: "i < n" and bk: "length bk \<le> ADDRS_PER_BUCKET" "distinct (map ar_addr bk)"
    "\<forall>r\<in>set bk. place (ar_addr r) = i"
  shows "table_ok place n (tbl[i := bk])"
  using assms by (auto simp: table_ok_def nth_list_update)

lemma table_ok_map:
  assumes t: "table_ok place n tbl" and f: "\<And>b. length (f b) \<le> length b" "\<And>b. distinct (map ar_addr b) \<Longrightarrow> distinct (map ar_addr (f b))"
    "\<And>b. ar_addr ` set (f b) \<subseteq> ar_addr ` set b"
  shows "table_ok place n (map f tbl)"
proof -
  have "place (ar_addr r) = i" if "i < n" "r \<in> set (f (tbl ! i))" for i r
  proof -
    have "ar_addr r \<in> ar_addr ` set (tbl ! i)" using f(3) [of "tbl ! i"] that(2) by auto
    then show ?thesis using t that(1) by (auto simp: table_ok_def)
  qed
  moreover have "length (f (tbl ! i)) \<le> ADDRS_PER_BUCKET" if "i < n" for i
    using le_trans [OF f(1)] t that by (simp add: table_ok_def)
  ultimately show ?thesis using t f(2) by (simp add: table_ok_def)
qed

lemma push_bounded_ok:
  assumes "length b \<le> ADDRS_PER_BUCKET" and "distinct (map ar_addr b)" and "ar_addr r \<notin> ar_addr ` set b"
  shows "length (push_bounded r b) \<le> ADDRS_PER_BUCKET" "distinct (map ar_addr (push_bounded r b))"
    "set (push_bounded r b) \<subseteq> insert r (set b)" "r \<in> set (push_bounded r b)"
  using assms by (cases b; auto simp: push_bounded_def ADDRS_PER_BUCKET_def)+

lemma update_first_addrs:
  "(\<And>r. ar_addr (f r) = ar_addr r) \<Longrightarrow> map ar_addr (update_first p f b) = map ar_addr b"
  by (induction b) simp_all

lemma ensure_buckets_ok [simp]: "addrman_ok E parse_ip m \<Longrightarrow> ensure_buckets m = m"
  by (auto simp: ensure_buckets_def addrman_ok_def Let_def dest: table_ok_length)

lemma bucket_less: "bucket_for E parse_ip a NEW_BUCKETS s < NEW_BUCKETS" "bucket_for E parse_ip a TRIED_BUCKETS s < TRIED_BUCKETS"
  by (simp_all add: bucket_for_def NEW_BUCKETS_def TRIED_BUCKETS_def)

section \<open>Operations keep it\<close>

lemma add_ok:
  assumes ok: "addrman_ok E parse_ip m" and op: "addrman_add E parse_ip addr src m = (m', added)"
  shows "addrman_ok E parse_ip m'"
proof (cases "addr = [] \<or> addrman_contains m addr \<or> addrman_len m \<ge> MAX_ADDRS_TOTAL")
  case True
  then show ?thesis using ok op by (auto simp: addrman_add_def Let_def split: if_splits)
next
  case False
  define place where "place a = bucket_for E parse_ip a NEW_BUCKETS 0x4e" for a
  define r where "r = \<lparr>ar_addr = addr, last_success_ms = 0, last_try_ms = 0, attempts = 0, ar_source = src\<rparr>"
  have m': "m' = m\<lparr>new_tbl := (new_tbl m)[place addr := push_bounded r (new_tbl m ! place addr)],
      feelers := (if addr \<notin> set (feelers m) then feelers m @ [addr] else feelers m)\<rparr>"
    using op False ok by (simp add: addrman_add_def Let_def place_def r_def split: if_splits)
  have t: "table_ok place NEW_BUCKETS (new_tbl m)" using ok by (simp add: addrman_ok_def place_def [abs_def])
  have b: "place addr < NEW_BUCKETS" by (simp add: place_def bucket_less)
  have nc: "\<not> has_addr addr (new_tbl m)" "\<not> has_addr addr (tried m)" using False by (auto simp: addrman_contains_def has_addr_def)
  then have nb: "ar_addr r \<notin> ar_addr ` set (new_tbl m ! place addr)"
    using b table_ok_length [OF t] by (auto simp: has_addr_iff r_def)
  have bk: "length (new_tbl m ! place addr) \<le> ADDRS_PER_BUCKET" "distinct (map ar_addr (new_tbl m ! place addr))"
    using t b by (simp_all add: table_ok_def)
  note pb = push_bounded_ok [OF bk nb]
  have pl: "\<forall>r'\<in>set (push_bounded r (new_tbl m ! place addr)). place (ar_addr r') = place addr"
    using pb(3) t b by (auto simp: table_ok_def r_def)
  have "table_ok place NEW_BUCKETS (new_tbl m')" unfolding m' using table_ok_update [OF t b pb(1,2) pl] by simp
  moreover have "\<not> (has_addr a (new_tbl m') \<and> has_addr a (tried m'))" for a
  proof -
    have "has_addr a (new_tbl m') \<Longrightarrow> a = addr \<or> has_addr a (new_tbl m)"
      using has_addr_update [of "place addr" "new_tbl m" "push_bounded r (new_tbl m ! place addr)" addr a]
        image_mono [OF pb(3), of ar_addr] b table_ok_length [OF t] by (simp add: m' r_def)
    then show ?thesis using ok nc(2) by (auto simp: m' addrman_ok_def)
  qed
  ultimately show ?thesis using ok by (auto simp: addrman_ok_def m' place_def [abs_def])
qed

lemma good_ok:
  assumes ok: "addrman_ok E parse_ip m"
  shows "addrman_ok E parse_ip (addrman_good E parse_ip now addr m)"
proof -
  define place where "place a = bucket_for E parse_ip a TRIED_BUCKETS 0x54" for a
  define new' where "new' = map (filter (\<lambda>r. ar_addr r \<noteq> addr)) (new_tbl m)"
  define r where "r = \<lparr>ar_addr = addr, last_success_ms = now, last_try_ms = now, attempts = 0, ar_source = ''good''\<rparr>"
  define bk where "bk = (if list_ex (\<lambda>r. ar_addr r = addr) (tried m ! place addr)
    then update_first (\<lambda>r. ar_addr r = addr) (\<lambda>r. r\<lparr>last_success_ms := now, attempts := 0\<rparr>) (tried m ! place addr)
    else push_bounded r (tried m ! place addr))"
  have g: "addrman_good E parse_ip now addr m
      = m\<lparr>new_tbl := new', feelers := filter (\<lambda>a. a \<noteq> addr) (feelers m), tried := (tried m)[place addr := bk]\<rparr>"
    using ok by (simp add: addrman_good_def Let_def place_def new'_def bk_def r_def)
  have t: "table_ok place TRIED_BUCKETS (tried m)" using ok by (simp add: addrman_ok_def place_def [abs_def])
  have b: "place addr < TRIED_BUCKETS" by (simp add: place_def bucket_less)
  have b0: "length (tried m ! place addr) \<le> ADDRS_PER_BUCKET" "distinct (map ar_addr (tried m ! place addr))"
    "\<forall>r\<in>set (tried m ! place addr). place (ar_addr r) = place addr" using t b by (auto simp: table_ok_def)
  have u: "map ar_addr (update_first (\<lambda>r. ar_addr r = addr) (\<lambda>r. r\<lparr>last_success_ms := now, attempts := 0\<rparr>) (tried m ! place addr))
      = map ar_addr (tried m ! place addr)" by (rule update_first_addrs) simp
  have bk': "length bk \<le> ADDRS_PER_BUCKET \<and> distinct (map ar_addr bk) \<and> ar_addr ` set bk \<subseteq> insert addr (ar_addr ` set (tried m ! place addr))"
  proof (cases "list_ex (\<lambda>r. ar_addr r = addr) (tried m ! place addr)")
    case True
    then have "map ar_addr bk = map ar_addr (tried m ! place addr)" using u by (simp add: bk_def)
    then show ?thesis using b0(1,2) by (metis length_map set_map subset_insertI)
  next
    case False
    then have "ar_addr r \<notin> ar_addr ` set (tried m ! place addr)" by (auto simp: list_ex_iff r_def)
    note pb = push_bounded_ok [OF b0(1,2) this]
    have "ar_addr ` set (push_bounded r (tried m ! place addr)) \<subseteq> insert addr (ar_addr ` set (tried m ! place addr))"
      using image_mono [OF pb(3), of ar_addr] by (simp add: r_def)
    then show ?thesis using pb(1,2) False by (simp add: bk_def)
  qed
  have pl: "\<forall>r\<in>set bk. place (ar_addr r) = place addr"
  proof
    fix x
    assume "x \<in> set bk"
    then have "ar_addr x = addr \<or> (\<exists>y\<in>set (tried m ! place addr). ar_addr y = ar_addr x)" using bk' by force
    then show "place (ar_addr x) = place addr" using b0(3) by metis
  qed
  have nt: "table_ok (\<lambda>a. bucket_for E parse_ip a NEW_BUCKETS 0x4e) NEW_BUCKETS new'"
    unfolding new'_def by (rule table_ok_map) (use ok in \<open>auto simp: addrman_ok_def distinct_map_filter\<close>)
  have tt: "table_ok place TRIED_BUCKETS ((tried m)[place addr := bk])" by (rule table_ok_update [OF t b _ _ pl]) (use bk' in auto)
  have "\<not> (has_addr a new' \<and> has_addr a ((tried m)[place addr := bk]))" for a
  proof -
    have "has_addr a new' \<Longrightarrow> a \<noteq> addr \<and> has_addr a (new_tbl m)" by (auto simp: new'_def has_addr_def list_ex_iff)
    moreover have "has_addr a ((tried m)[place addr := bk]) \<Longrightarrow> a = addr \<or> has_addr a (tried m)"
      using has_addr_update [of "place addr" "tried m" bk addr a] bk' b table_ok_length [OF t] by simp
    ultimately show ?thesis using ok by (auto simp: addrman_ok_def)
  qed
  then show ?thesis using ok nt tt unfolding g by (simp add: addrman_ok_def place_def [abs_def])
qed

lemma attempted_ok:
  assumes ok: "addrman_ok E parse_ip m"
  shows "addrman_ok E parse_ip (addrman_attempted now addr m)"
proof -
  define f where "f = update_first (\<lambda>r. ar_addr r = addr) (\<lambda>r :: addr_record. r\<lparr>last_try_ms := now, attempts := min (attempts r + 1) u32_max\<rparr>)"
  have u: "map ar_addr (f b) = map ar_addr b" for b unfolding f_def by (rule update_first_addrs) simp
  have s: "ar_addr ` set (f b) = ar_addr ` set b" "length (f b) = length b" for b using u [of b] by (metis set_map, metis length_map)
  have h: "has_addr a (map f tbl) = has_addr a tbl" for a tbl by (simp add: has_addr_set s)
  have t: "table_ok place n (map f tbl)" if "table_ok place n tbl" for place n tbl
    by (rule table_ok_map [OF that]) (simp_all add: s u)
  have "addrman_attempted now addr m = m\<lparr>new_tbl := map f (new_tbl m), tried := map f (tried m)\<rparr>"
    using ok by (simp add: addrman_attempted_def Let_def f_def)
  then show ?thesis using ok t h by (simp add: addrman_ok_def)
qed

lemma select_feeler_loop_ok:
  "addrman_ok E parse_ip m \<Longrightarrow> addrman_ok E parse_ip (fst (select_feeler_loop m))
    \<and> (\<forall>a. snd (select_feeler_loop m) = Some a \<longrightarrow> has_addr a (new_tbl m))"
proof (induction m rule: select_feeler_loop.induct)
  case (1 m)
  define m1 where "m1 = m\<lparr>feelers := butlast (feelers m)\<rparr>"
  have ok1: "addrman_ok E parse_ip m1" "new_tbl m1 = new_tbl m"
    using "1.prems" by (simp_all add: addrman_ok_def distinct_butlast m1_def)
  have step: "select_feeler_loop m = (if feelers m = [] then (m, None)
      else if has_addr (last (feelers m)) (new_tbl m) then (m1, Some (last (feelers m))) else select_feeler_loop m1)"
    by (subst select_feeler_loop.simps) (simp add: Let_def m1_def)
  show ?case
  proof (cases "feelers m = [] \<or> has_addr (last (feelers m)) (new_tbl m)")
    case True
    then show ?thesis using "1.prems" ok1 by (auto simp: step)
  next
    case False
    then have "addrman_ok E parse_ip (fst (select_feeler_loop m1)) \<and> (\<forall>a. snd (select_feeler_loop m1) = Some a \<longrightarrow> has_addr a (new_tbl m1))"
      using "1.IH" [OF _ refl refl] ok1 by (simp add: m1_def)
    then show ?thesis using False ok1(2) by (simp add: step)
  qed
qed

lemma select_feeler_loop_queue:
  "select_feeler_loop m = (m', Some a) \<Longrightarrow> distinct (feelers m)
    \<Longrightarrow> has_addr a (new_tbl m') \<and> a \<in> set (feelers m) \<and> a \<notin> set (feelers m')"
proof (induction m rule: select_feeler_loop.induct)
  case (1 m)
  define m1 where "m1 = m\<lparr>feelers := butlast (feelers m)\<rparr>"
  have ne: "feelers m \<noteq> []" using "1.prems"(1) by (subst (asm) select_feeler_loop.simps) (simp split: if_splits)
  then obtain fs x where fs: "feelers m = fs @ [x]" by (meson rev_exhaust)
  have step: "select_feeler_loop m = (if has_addr x (new_tbl m1) then (m1, Some x) else select_feeler_loop m1)"
    by (subst select_feeler_loop.simps) (simp add: fs m1_def Let_def)
  have f1: "feelers m1 = fs" by (simp add: m1_def fs)
  show ?case
  proof (cases "has_addr x (new_tbl m1)")
    case True
    then have "m' = m1" "a = x" using "1.prems"(1) step by simp_all
    then show ?thesis using True "1.prems"(2) by (simp add: fs f1)
  next
    case False
    then have "has_addr a (new_tbl m') \<and> a \<in> set (feelers m1) \<and> a \<notin> set (feelers m')"
      using "1.IH" [OF ne refl refl] "1.prems" step by (simp add: fs m1_def)
    then show ?thesis by (simp add: fs f1)
  qed
qed

lemma addrman_new_ok: "addrman_ok E parse_ip addrman_new"
  by (simp add: addrman_ok_def addrman_new_def table_ok_def has_addr_def list_ex_iff)

lemma addrman_run_ok: "addrman_run E parse_ip m \<Longrightarrow> addrman_ok E parse_ip m"
proof (induction rule: addrman_run.induct)
  case (feeler m m' a)
  then show ?case using select_feeler_loop_ok [of E parse_ip m] by (simp add: select_feeler_def)
qed (simp_all add: addrman_new_ok add_ok good_ok attempted_ok)

section \<open>What the tables give a reader\<close>

lemma placed_distinct:
  "\<lbrakk>\<forall>i<length tbl. distinct (map ar_addr (tbl ! i)) \<and> (\<forall>r\<in>set (tbl ! i). place (ar_addr r) = k + i)\<rbrakk>
    \<Longrightarrow> distinct (map ar_addr (concat tbl)) \<and> (\<forall>r\<in>set (concat tbl). k \<le> place (ar_addr r))"
proof (induction tbl arbitrary: k)
  case (Cons b tbl)
  have "\<forall>i<length tbl. distinct (map ar_addr (tbl ! i)) \<and> (\<forall>r\<in>set (tbl ! i). place (ar_addr r) = Suc k + i)"
    using Cons.prems by auto
  from Cons.IH [OF this]
  have rest: "distinct (map ar_addr (concat tbl))" "\<forall>r\<in>set (concat tbl). Suc k \<le> place (ar_addr r)" by auto
  have first: "distinct (map ar_addr b)" "\<forall>r\<in>set b. place (ar_addr r) = k" using Cons.prems [rule_format, of 0] by simp_all
  have "ar_addr ` set b \<inter> ar_addr ` set (concat tbl) = {}" using first(2) rest(2) by fastforce
  moreover have "\<forall>r\<in>set (concat (b # tbl)). k \<le> place (ar_addr r)" using first(2) rest(2) Suc_leD by fastforce
  ultimately show ?case using first(1) rest(1) by (simp del: set_concat)
qed simp

lemma table_ok_distinct: "table_ok place n tbl \<Longrightarrow> distinct (map ar_addr (concat tbl))"
  using placed_distinct [of tbl place 0] by (simp add: table_ok_def)

lemma table_ok_size:
  assumes t: "table_ok place n tbl"
  shows "sum_list (map length tbl) \<le> n * ADDRS_PER_BUCKET"
proof -
  have "\<forall>b\<in>set tbl. length b \<le> ADDRS_PER_BUCKET" using t by (auto simp: table_ok_def in_set_conv_nth)
  then have "sum_list (map length tbl) \<le> length tbl * ADDRS_PER_BUCKET" by (induction tbl) auto
  then show ?thesis by (simp add: table_ok_length [OF t])
qed

lemma has_addr_concat: "has_addr a tbl \<longleftrightarrow> a \<in> ar_addr ` set (concat tbl)"
  by (auto simp: has_addr_set)

lemma tables_distinct:
  assumes "addrman_ok E parse_ip m"
  shows "distinct (map ar_addr (concat (tried m) @ concat (new_tbl m)))"
proof -
  have "ar_addr ` set (concat (tried m)) \<inter> ar_addr ` set (concat (new_tbl m)) = {}"
    using assms by (auto simp: addrman_ok_def has_addr_concat simp del: set_concat)
  then show ?thesis using assms by (auto simp: addrman_ok_def simp del: set_concat dest: table_ok_distinct)
qed

lemma select_fold:
  "fold (select_push n exclude) xs out
    = out @ take (n - length out) (filter (\<lambda>a. a \<notin> exclude) xs)" if "distinct (out @ xs)" for xs out
  using that
proof (induction xs arbitrary: out)
  case (Cons x xs)
  show ?case
  proof (cases "length out \<ge> n \<or> x \<in> exclude")
    case True
    then show ?thesis using Cons.IH [of out] Cons.prems by (auto simp: select_push_def)
  next
    case False
    then have "select_push n exclude x out = out @ [x]" using Cons.prems by (simp add: select_push_def)
    moreover have "n - length out = Suc (n - length (out @ [x]))" using False by auto
    ultimately show ?thesis using False Cons.IH [of "out @ [x]"] Cons.prems by simp
  qed
qed simp

section \<open>Properties\<close>



section \<open>Limits of the code\<close>

lemma one_bucket:
  assumes t: "table_ok (\<lambda>_. b) n tbl"
  shows "sum_list (map length tbl) \<le> ADDRS_PER_BUCKET"
proof -
  have e: "length (tbl ! i) = 0" if "i < n" "i \<noteq> b" for i
  proof -
    have "\<forall>r\<in>set (tbl ! i). b = i" using t that(1) by (simp add: table_ok_def)
    then show ?thesis using that(2) by (cases "tbl ! i") auto
  qed
  have "sum_list (map length tbl) = (\<Sum>i<n. length (tbl ! i))"
    using table_ok_length [OF t] by (simp add: sum_list_sum_nth atLeast0LessThan)
  also have "\<dots> = (\<Sum>i<n. if i = b then length (tbl ! b) else 0)" by (rule sum.cong) (auto simp: e)
  also have "\<dots> \<le> ADDRS_PER_BUCKET" using t by (simp add: table_ok_def)
  finally show ?thesis .
qed

lemma demo_small:
  assumes "addrman_run demo_env parse_ip m" and "tried m = replicate 32 []"
  shows "addrman_len m \<le> 64"
proof -
  have p: "(\<lambda>a. bucket_for demo_env parse_ip a NEW_BUCKETS 0x4e) = (\<lambda>_. le_nat (take 8 (hash_bytes 7)) mod 64)"
    by (simp add: fun_eq_iff bucket_for_def demo_env_def NEW_BUCKETS_def)
  have "table_ok (\<lambda>a. bucket_for demo_env parse_ip a NEW_BUCKETS 0x4e) NEW_BUCKETS (new_tbl m)"
    using addrman_run_ok [OF assms(1)] by (simp add: addrman_ok_def)
  from one_bucket [OF this [unfolded p]] show ?thesis
    using assms(2) by (simp add: addrman_len_def ADDRS_PER_BUCKET_def sum_list_replicate)
qed

text \<open>
  The feeler queue has no bound: an address stays in it after the record has been evicted from its bucket, so
  addresses that hash to one bucket fill the queue without filling the tables.
\<close>
lemma feelers_unbounded:
  "\<exists>m. addrman_run demo_env parse_ip m \<and> length (feelers m) = k \<and> tried m = replicate 32 [] \<and> addrman_len m \<le> 64"
proof (induction k)
  case 0
  have "addrman_run demo_env parse_ip addrman_new" by (rule addrman_run.start)
  moreover have "length (feelers addrman_new) = 0" "tried addrman_new = replicate 32 []" by (simp_all add: addrman_new_def TRIED_BUCKETS_def)
  ultimately show ?case using demo_small by blast
next
  case (Suc k)
  then obtain m where m: "addrman_run demo_env parse_ip m" "length (feelers m) = k" "tried m = replicate 32 []" "addrman_len m \<le> 64"
    by blast
  have "finite (insert [] (set (feelers m) \<union> ar_addr ` set (concat (new_tbl m))))" by simp
  then obtain a where a: "a \<notin> insert [] (set (feelers m) \<union> ar_addr ` set (concat (new_tbl m)))"
    using ex_new_if_finite [OF infinite_UNIV_listI] by blast
  have nc: "\<not> addrman_contains m a"
    using a m(3) unfolding addrman_contains_def has_addr_concat by auto
  define m' where "m' = fst (addrman_add demo_env parse_ip a ''x'' m)"
  have op: "addrman_add demo_env parse_ip a ''x'' m = (m', snd (addrman_add demo_env parse_ip a ''x'' m))" by (simp add: m'_def)
  have run: "addrman_run demo_env parse_ip m'" by (rule addrman_run.add [OF m(1) op])
  have "feelers m' = feelers m @ [a]" "tried m' = tried m"
    using a nc m(4) ensure_buckets_ok [OF addrman_run_ok [OF m(1)]]
    by (simp_all add: m'_def addrman_add_def Let_def MAX_ADDRS_TOTAL_def)
  then show ?case using run m(2,3) demo_small [OF run] by auto
qed

end
