(* ===== verification/Mempool.thy ===== *)
theory Mempool
  imports Admission "HOL-Library.Product_Lexorder"
begin

text \<open>
  The mempools of \<open>src/lib.rs\<close>: admission of UTXO transactions with its conflict replacement, package limits
  and evictions, admission of registry and custody operations, the relay fee, and the selection of block
  bodies from the queues. \<open>record_first_seen\<close> is that of \<open>src/economics.rs\<close>.

  An admission returns the state it leaves behind together with its result, since it can fail after it
  has dropped queued transactions. The clock and the switch \<open>policy().public_mode\<close> are arguments. A sum
  over \<open>usize\<close> or \<open>u128\<close> wraps.
\<close>

section \<open>Limits and helpers\<close>

definition MAX_MEMPOOL_SIZE :: nat where "MAX_MEMPOOL_SIZE = 10000"
definition MAX_MEMPOOL_BYTES :: nat where "MAX_MEMPOOL_BYTES = 32 * 1024 * 1024"
definition MAX_UTXO_PACKAGE_COUNT :: nat where "MAX_UTXO_PACKAGE_COUNT = 25"
definition MAX_UTXO_PACKAGE_BYTES :: nat where "MAX_UTXO_PACKAGE_BYTES = 512 * 1024"

fun min_by_key :: "('a \<Rightarrow> 'k::linorder) \<Rightarrow> 'a list \<Rightarrow> 'a option" where
  \<comment> \<open>\<open>Iterator::min_by\<close>: the first of the least elements\<close>
  "min_by_key f [] = None"
| "min_by_key f (x # xs) =
     (case min_by_key f xs of None \<Rightarrow> Some x | Some y \<Rightarrow> if f y < f x then Some y else Some x)"

definition remove_at :: "nat \<Rightarrow> 'a list \<Rightarrow> 'a list" where
  \<comment> \<open>\<open>Vec::remove\<close>\<close>
  "remove_at i xs = take i xs @ drop (Suc i) xs"

definition wsum64 :: "nat list \<Rightarrow> nat" where "wsum64 ns = sum_list ns mod 2 ^ 64"
definition wsum128 :: "nat list \<Rightarrow> nat" where "wsum128 ns = sum_list ns mod 2 ^ 128"

definition record_first_seen :: "nat \<Rightarrow> hash \<Rightarrow> chain_state \<Rightarrow> chain_state" where
  "record_first_seen now h cs =
     (let cs1 = (if length (tx_first_seen_ms cs) \<ge> MAX_MEMPOOL_SIZE * 2 \<and> \<not> hhas (tx_first_seen_ms cs) h
                 then (case tx_first_seen_ms cs of
                         [] \<Rightarrow> cs
                       | (k, _) # _ \<Rightarrow> cs\<lparr>tx_first_seen_ms := hdel k (tx_first_seen_ms cs),
                                          tx_first_seen_blue := hdel k (tx_first_seen_blue cs)\<rparr>)
                 else cs)
      in cs1\<lparr>tx_first_seen_ms := (if hhas (tx_first_seen_ms cs1) h then tx_first_seen_ms cs1
                                   else hput h now (tx_first_seen_ms cs1)),
             tx_first_seen_blue := (if hhas (tx_first_seen_blue cs1) h then tx_first_seen_blue cs1
                                    else hput h (selected_tip_blue_score cs1) (tx_first_seen_blue cs1))\<rparr>)"

section \<open>The UTXO queue\<close>

definition shares_input :: "utxo_tx \<Rightarrow> utxo_tx \<Rightarrow> bool" where
  "shares_input tx queued =
     list_ex (\<lambda>tin. list_ex (\<lambda>q. previous q = previous tin) (inputs queued)) (inputs tx)"

definition spends_one_of :: "hash list \<Rightarrow> utxo_tx \<Rightarrow> bool" where
  "spends_one_of ids tx = list_ex (\<lambda>tin. txid (previous tin) \<in> set ids) (inputs tx)"

definition expand_pass :: "env \<Rightarrow> utxo_tx list \<Rightarrow> nat list \<Rightarrow> nat list" where
  \<comment> \<open>the queued transactions that spend an output of one in \<open>expanded\<close>, in queue order\<close>
  "expand_pass E pool expanded =
     (let ids = map (\<lambda>i. utxo_tx_hash E (pool ! i)) expanded
      in filter (\<lambda>i. i \<notin> set expanded \<and> spends_one_of ids (pool ! i)) [0 ..< length pool])"

function expand_conflicts :: "env \<Rightarrow> utxo_tx list \<Rightarrow> nat list \<Rightarrow> nat list" where
  "expand_conflicts E pool expanded =
     (let more = expand_pass E pool expanded
      in if more = [] then expanded else expand_conflicts E pool (expanded @ more))"
  by pat_completeness auto
termination
proof (relation "measure (\<lambda>(E, pool, expanded). card ({0 ..< length pool} - set expanded))")
  fix E pool expanded more
  assume m: "more = expand_pass E pool expanded" "more \<noteq> []"
  have "set more \<subseteq> {0 ..< length pool} - set expanded" using m(1) by (auto simp: expand_pass_def Let_def)
  moreover obtain i where "i \<in> set more" using m(2) by (cases more) auto
  ultimately have "{0 ..< length pool} - set (expanded @ more) \<subset> {0 ..< length pool} - set expanded" by auto
  then show "((E, pool, expanded @ more), (E, pool, expanded))
      \<in> measure (\<lambda>(E, pool, expanded). card ({0 ..< length pool} - set expanded))"
    by (simp add: psubset_card_mono)
qed simp

declare expand_conflicts.simps [simp del]

definition conflict_indices :: "env \<Rightarrow> utxo_tx list \<Rightarrow> utxo_tx \<Rightarrow> nat list" where
  "conflict_indices E pool tx =
     (let seeds = filter (\<lambda>i. shares_input tx (pool ! i)) [0 ..< length pool]
      in if seeds = [] then [] else expand_conflicts E pool seeds)"

fun preview_pass ::
  "env \<Rightarrow> nat \<Rightarrow> utxo_tx list \<Rightarrow> utxo_set \<times> account_map \<Rightarrow> (utxo_set \<times> account_map) \<times> utxo_tx list \<times> bool" where
  "preview_pass E media [] (u, a) = ((u, a), [], False)"
| "preview_pass E media (tx # txs) (u, a) =
     (case apply_utxo_tx E tx media (u, a, 0) of
        ((u1, a1, f), Inr _) \<Rightarrow> (case preview_pass E media txs (u1, a1) of (s, left, _) \<Rightarrow> (s, left, True))
      | (_, Inl _) \<Rightarrow> (case preview_pass E media txs (u, a) of (s, left, progress) \<Rightarrow> (s, tx # left, progress)))"

fun preview_loop :: "env \<Rightarrow> nat \<Rightarrow> nat \<Rightarrow> utxo_tx list \<Rightarrow> utxo_set \<times> account_map \<Rightarrow> utxo_set \<times> account_map" where
  "preview_loop E media 0 pending s = s"
| "preview_loop E media (Suc n) pending s =
     (case preview_pass E media pending s of
        (s', left, progress) \<Rightarrow> if \<not> progress then s' else preview_loop E media n left s')"

definition utxo_mempool_preview :: "env \<Rightarrow> chain_state \<Rightarrow> nat list \<Rightarrow> utxo_set \<times> account_map" where
  "utxo_mempool_preview E cs skip =
     (let pending = map (\<lambda>i. utxo_mempool cs ! i) (filter (\<lambda>i. i \<notin> set skip) [0 ..< length (utxo_mempool cs)])
      in preview_loop E (selected_tip_blue_score cs) (length pending + 1) pending (utxo (live cs), accounts (live cs)))"

definition utxo_mempool_direct_parents :: "env \<Rightarrow> utxo_tx list \<Rightarrow> utxo_tx \<Rightarrow> nat list \<Rightarrow> nat list" where
  "utxo_mempool_direct_parents E pool tx skip =
     filter (\<lambda>i. i \<notin> set skip \<and> spends_one_of [utxo_tx_hash E (pool ! i)] tx) [0 ..< length pool]"

definition push_new :: "'a \<Rightarrow> 'a list \<Rightarrow> 'a list" where
  "push_new p xs = (if p \<in> set xs then xs else xs @ [p])"

function ancestor_loop :: "env \<Rightarrow> utxo_tx list \<Rightarrow> nat list \<Rightarrow> nat \<Rightarrow> nat list \<Rightarrow> nat list" where
  \<comment> \<open>the work list and the package receive the same indices, so one list holds both\<close>
  "ancestor_loop E pool skip qi pkg =
     (if qi < length pkg
      then let pkg' = fold push_new (utxo_mempool_direct_parents E pool (pool ! (pkg ! qi)) skip) pkg
           in if length pkg' \<ge> MAX_UTXO_PACKAGE_COUNT then pkg' else ancestor_loop E pool skip (Suc qi) pkg'
      else pkg)"
  by pat_completeness auto
termination
proof (relation "measure (\<lambda>(E, pool, skip, qi, pkg). MAX_UTXO_PACKAGE_COUNT - qi)")
  fix E pool skip qi and pkg pkg' :: "nat list"
  assume a: "qi < length pkg" "pkg' = fold push_new (utxo_mempool_direct_parents E pool (pool ! (pkg ! qi)) skip) pkg"
    "\<not> MAX_UTXO_PACKAGE_COUNT \<le> length pkg'"
  have "length xs \<le> length (fold push_new ps xs)" for ps and xs :: "nat list"
  proof (induction ps arbitrary: xs)
    case (Cons p ps)
    have "length xs \<le> length (push_new p xs)" by (simp add: push_new_def)
    then show ?case using Cons [of "push_new p xs"] by simp
  qed simp
  then have "length pkg \<le> length pkg'" using a(2) by simp
  then show "((E, pool, skip, Suc qi, pkg'), (E, pool, skip, qi, pkg)) \<in> measure (\<lambda>(E, pool, skip, qi, pkg). MAX_UTXO_PACKAGE_COUNT - qi)"
    using a by simp
qed simp

declare ancestor_loop.simps [simp del]

definition utxo_ancestor_package_score :: "env \<Rightarrow> utxo_tx list \<Rightarrow> nat \<Rightarrow> nat \<times> nat" where
  "utxo_ancestor_package_score E pool idx =
     (let idxs = ancestor_loop E pool [] 0 [idx]
      in (wsum128 (map (\<lambda>i. u_fee (pool ! i)) idxs),
          max (wsum128 (map (\<lambda>i. max (utxo_relay_bytes E (pool ! i)) 1) idxs)) 1))"

section \<open>Admission of a UTXO transaction\<close>

definition incoming_package :: "env \<Rightarrow> utxo_tx list \<Rightarrow> utxo_tx \<Rightarrow> nat list \<Rightarrow> nat result" where
  \<comment> \<open>the ancestor package of the incoming transaction; its feerate when the package is within the limits\<close>
  "incoming_package E pool tx skip =
     (let pkg = ancestor_loop E pool skip 0 (utxo_mempool_direct_parents E pool tx skip);
          bytes = sat_add64 (wsum64 (map (\<lambda>i. utxo_relay_bytes E (pool ! i)) pkg)) (utxo_relay_bytes E tx);
          fee = sat_add128 (wsum128 (map (\<lambda>i. u_fee (pool ! i)) pkg)) (u_fee tx)
      in if sat_add64 (length pkg) 1 > MAX_UTXO_PACKAGE_COUNT then Err ''UTXO ancestor package exceeds count limit''
         else if bytes > MAX_UTXO_PACKAGE_BYTES then Err ''UTXO ancestor package exceeds byte limit''
         else Ok (fee div max bytes 1))"

definition replacement_pays :: "env \<Rightarrow> utxo_tx list \<Rightarrow> utxo_tx \<Rightarrow> nat list \<Rightarrow> bool" where
  "replacement_pays E pool tx conflicts =
     (let conflict_fee = wsum128 (map (\<lambda>i. u_fee (pool ! i)) conflicts);
          conflict_bytes = max (wsum128 (map (\<lambda>i. max (utxo_relay_bytes E (pool ! i)) 1) conflicts)) 1;
          incoming_rate = u_fee tx div max (utxo_relay_bytes E tx) 1
      in \<not> (u_fee tx < sat_add128 conflict_fee MIN_TX_FEE \<or> incoming_rate \<le> conflict_fee div conflict_bytes))"

definition drop_queued :: "env \<Rightarrow> nat \<Rightarrow> chain_state \<Rightarrow> chain_state" where
  \<comment> \<open>remove one queued transaction and its first-seen entries\<close>
  "drop_queued E i cs =
     (let old = utxo_mempool cs ! i
      in cs\<lparr>utxo_mempool := remove_at i (utxo_mempool cs),
            tx_first_seen_blue := hdel (utxo_txid E old) (tx_first_seen_blue cs),
            tx_first_seen_ms := hdel (utxo_txid E old) (tx_first_seen_ms cs)\<rparr>)"

definition drop_all_queued :: "env \<Rightarrow> nat list \<Rightarrow> chain_state \<Rightarrow> chain_state" where
  \<comment> \<open>\<open>sort_unstable_by(|a, b| b.cmp(a))\<close>, then remove from the back\<close>
  "drop_all_queued E idxs cs = fold (drop_queued E) (rev (sort idxs)) cs"

fun evict_loop :: "env \<Rightarrow> utxo_tx list \<Rightarrow> nat \<Rightarrow> nat \<Rightarrow> (nat \<times> nat) list \<Rightarrow> nat \<Rightarrow> nat list \<Rightarrow> nat \<times> nat list" where
  "evict_loop E pool incoming rate_in [] used rm = (used, rm)"
| "evict_loop E pool incoming rate_in ((i, rate) # ranked) used rm =
     (if sat_add64 used incoming \<le> MAX_MEMPOOL_BYTES \<or> rate \<ge> rate_in then (used, rm)
      else evict_loop E pool incoming rate_in ranked (used - utxo_relay_bytes E (pool ! i)) (rm @ [i]))"

definition evict_bytes :: "env \<Rightarrow> utxo_tx \<Rightarrow> nat \<Rightarrow> chain_state \<Rightarrow> chain_state \<times> unit result" where
  "evict_bytes E tx pkg_rate cs =
     (let pool = utxo_mempool cs;
          used = wsum64 (map (utxo_relay_bytes E) pool);
          incoming = utxo_relay_bytes E tx
      in if sat_add64 used incoming \<le> MAX_MEMPOOL_BYTES then (cs, Ok ())
         else
           let ranked = sort_key (\<lambda>(i, rate). (rate, length pool - i))
                 (map (\<lambda>i. case utxo_ancestor_package_score E pool i of (fee, bytes) \<Rightarrow> (i, fee div max bytes 1)) [0 ..< length pool])
           in case evict_loop E pool incoming pkg_rate ranked used [] of
                (used_now, rm) \<Rightarrow>
                  if sat_add64 used_now incoming > MAX_MEMPOOL_BYTES then (cs, Err ''UTXO mempool byte budget exceeded'')
                  else (drop_all_queued E rm cs, Ok ()))"

definition evict_count :: "env \<Rightarrow> utxo_tx \<Rightarrow> nat \<Rightarrow> chain_state \<Rightarrow> chain_state \<times> unit result" where
  "evict_count E tx pkg_rate cs =
     (let pool = utxo_mempool cs
      in if length pool < MAX_MEMPOOL_SIZE then (cs, Ok ())
         else
           case min_by_key (\<lambda>(i, rate, fee). (rate, fee))
                  (map (\<lambda>i. case utxo_ancestor_package_score E pool i of (fee, bytes) \<Rightarrow> (i, fee div max bytes 1, fee)) [0 ..< length pool]) of
             None \<Rightarrow> (cs, Err ''UTXO mempool is full'')
           | Some (i, rate, fee) \<Rightarrow>
               if pkg_rate > rate \<or> (pkg_rate = rate \<and> u_fee tx > fee) then (drop_queued E i cs, Ok ())
               else (cs, Err ''UTXO mempool is full''))"

definition admission_checks :: "env \<Rightarrow> utxo_tx \<Rightarrow> chain_state \<Rightarrow> (nat list \<times> nat) result" where
  \<comment> \<open>everything before the first mutation: the conflicting indices and the feerate of the package\<close>
  "admission_checks E tx cs =
     (case utxo_validate_form E tx of
        Inl e \<Rightarrow> Err e
      | Inr _ \<Rightarrow>
          if u_chain_id tx \<noteq> chain_id cs then Err ''Wrong chain_id''
          else if \<not> utxo_verify E tx then Err ''Invalid signature''
          else if list_ex (\<lambda>t. utxo_txid E t = utxo_txid E tx) (utxo_mempool cs) then Err ''UTXO tx already in mempool''
          else
            let conflicts = conflict_indices E (utxo_mempool cs) tx
            in case utxo_mempool_preview E cs conflicts of
                 (u, a) \<Rightarrow>
                   (case apply_utxo_tx E tx (selected_tip_blue_score cs) (u, a, 0) of
                      (_, Inl e) \<Rightarrow> Err e
                    | (_, Inr _) \<Rightarrow>
                        (case incoming_package E (utxo_mempool cs) tx conflicts of
                           Inl e \<Rightarrow> Err e
                         | Inr rate \<Rightarrow>
                             if conflicts \<noteq> [] \<and> \<not> replacement_pays E (utxo_mempool cs) tx conflicts
                             then Err ''UTXO input conflicts with mempool''
                             else Ok (conflicts, rate))))"

definition admit_utxo_to_mempool :: "env \<Rightarrow> nat \<Rightarrow> utxo_tx \<Rightarrow> chain_state \<Rightarrow> chain_state \<times> unit result" where
  "admit_utxo_to_mempool E now tx cs =
     (case admission_checks E tx cs of
        Inl e \<Rightarrow> (cs, Err e)
      | Inr (conflicts, rate) \<Rightarrow>
          (case evict_bytes E tx rate (drop_all_queued E conflicts cs) of
             (cs1, Inl e) \<Rightarrow> (cs1, Err e)
           | (cs1, Inr _) \<Rightarrow>
               (case evict_count E tx rate cs1 of
                  (cs2, Inl e) \<Rightarrow> (cs2, Err e)
                | (cs2, Inr _) \<Rightarrow>
                    (let cs3 = record_first_seen now (utxo_txid E tx) cs2
                     in (cs3\<lparr>utxo_mempool := utxo_mempool cs3 @ [tx]\<rparr>, Ok ())))))"

section \<open>Registry and custody queues\<close>

definition aux_mempool_cap :: "bool \<Rightarrow> nat" where
  "aux_mempool_cap public_mode = (if public_mode then 256 else 10000)"

definition admit_registry_to_mempool :: "env \<Rightarrow> bool \<Rightarrow> registry_op \<Rightarrow> chain_state \<Rightarrow> chain_state \<times> unit result" where
  "admit_registry_to_mempool E public_mode op cs =
     (if r_chain_id op \<noteq> chain_id cs then (cs, Err ''Wrong chain_id'')
      else if \<not> registry_verify E op then (cs, Err ''Invalid signature'')
      else if length (registry_mempool cs) \<ge> aux_mempool_cap public_mode then (cs, Err ''Registry mempool full'')
      else if r_nonce op < account_nonce (live cs) (signer_address E op) then (cs, Err ''Stale nonce'')
      else if list_ex (\<lambda>o'. signer_address E o' = signer_address E op \<and> r_nonce o' = r_nonce op) (registry_mempool cs)
      then (cs, Err ''Duplicate registry op'')
      else (cs\<lparr>registry_mempool := registry_mempool cs @ [op]\<rparr>, Ok ()))"

definition custody_anchor_ok :: "env \<Rightarrow> dag_map \<Rightarrow> custody_certificate \<Rightarrow> unit result" where
  "custody_anchor_ok E dg op =
     (case hget dg (cc_block_hash op) of
        None \<Rightarrow> Err ''Custody: anchor block unknown''
      | Some anchor \<Rightarrow>
          if stark_proof anchor = [] \<or> birth_certificate anchor = [] then Err ''Custody: anchor block has no consensus witnesses''
          else if cc_settlement_id op \<noteq> settlement_hex E anchor then Err ''Custody: settlement_id does not match anchor block''
          else if cc_issuer_pubkey op \<noteq> creator_pubkey anchor then Err ''Custody: issuer_pubkey does not match anchor block''
          else if cc_birth_certificate op \<noteq> birth_certificate anchor then Err ''Custody: birth certificate does not match anchor block''
          else Ok ())"

definition admit_custody_to_mempool :: "env \<Rightarrow> bool \<Rightarrow> custody_certificate \<Rightarrow> chain_state \<Rightarrow> chain_state \<times> unit result" where
  "admit_custody_to_mempool E public_mode op cs =
     (if cc_kind op = BridgeExit \<or> cc_kind op = BridgeEnter
      then (cs, Err ''Bridge exit/enter disabled until a real cross-chain bridge ships'')
      else if cc_chain_id op \<noteq> chain_id cs then (cs, Err ''Wrong chain_id'')
      else if cc_amount op = 0 then (cs, Err ''Custody amount must be > 0'')
      else
        (case decode_sid E (cc_settlement_id op) of
           Inl e \<Rightarrow> (cs, Err e)
         | Inr sid \<Rightarrow>
             (case custody_verify E op sid of
                Inl e \<Rightarrow> (cs, Err e)
              | Inr _ \<Rightarrow>
                  (case custody_anchor_ok E (dag cs) op of
                     Inl e \<Rightarrow> (cs, Err e)
                   | Inr _ \<Rightarrow>
                       if cc_nonce op < account_nonce (live cs) (cc_owner op) then (cs, Err ''Stale custody nonce'')
                       else if list_ex (\<lambda>o'. cc_owner o' = cc_owner op \<and> cc_nonce o' = cc_nonce op \<and> cc_kind o' = cc_kind op) (custody_mempool cs)
                       then (cs, Err ''Duplicate custody op'')
                       else if length (custody_mempool cs) \<ge> aux_mempool_cap public_mode then (cs, Err ''Custody mempool full'')
                       else (cs\<lparr>custody_mempool := custody_mempool cs @ [op]\<rparr>, Ok ())))))"

section \<open>Selecting a block body\<close>

fun select_utxo_loop :: "env \<Rightarrow> nat \<Rightarrow> utxo_tx list \<Rightarrow> utxo_set \<times> account_map \<Rightarrow> utxo_tx list" where
  "select_utxo_loop E media [] (u, a) = []"
| "select_utxo_loop E media (tx # txs) (u, a) =
     (case apply_utxo_tx E tx media (u, a, 0) of
        ((u1, a1, f), Inr _) \<Rightarrow> tx # select_utxo_loop E media txs (u1, a1)
      | (_, Inl _) \<Rightarrow> select_utxo_loop E media txs (u, a))"

definition select_valid_utxo_txs :: "env \<Rightarrow> chain_state \<Rightarrow> utxo_tx list \<Rightarrow> utxo_tx list" where
  "select_valid_utxo_txs E cs candidates =
     select_utxo_loop E (selected_tip_blue_score cs)
       (sort_key (\<lambda>tx. (- int (u_fee tx div max (utxo_relay_bytes E tx) 1), - int (u_fee tx), utxo_txid E tx)) candidates)
       (utxo (live cs), accounts (live cs))"

fun select_registry_loop ::
  "env \<Rightarrow> chain_state \<Rightarrow> registry_op list \<Rightarrow> (address, nat) hmap \<Rightarrow> reg_accts \<Rightarrow> registry_op list" where
  "select_registry_loop E cs [] nonces s = []"
| "select_registry_loop E cs (op # ops) nonces s =
     (let signer = signer_address E op;
          cur = hget_or (account_nonce (live cs) signer) nonces signer
      in if r_chain_id op \<noteq> chain_id cs \<or> \<not> registry_verify E op \<or> r_nonce op \<noteq> cur
         then select_registry_loop E cs ops nonces s
         else (case apply_op E op genesis_block ''select-dry-run'' (selected_tip_blue_score cs) s of
                 (_, Inl _) \<Rightarrow> select_registry_loop E cs ops nonces s
               | (s', Inr _) \<Rightarrow> op # select_registry_loop E cs ops (hput signer (sat_add64 cur 1) nonces) s'))"

definition select_valid_registry_ops :: "env \<Rightarrow> chain_state \<Rightarrow> registry_op list \<Rightarrow> registry_op list" where
  "select_valid_registry_ops E cs ops = select_registry_loop E cs ops [] (registry (live cs), accounts (live cs))"

fun select_custody_loop :: "env \<Rightarrow> nat \<Rightarrow> custody_certificate list \<Rightarrow> ledger \<Rightarrow> custody_certificate list" where
  "select_custody_loop E cid [] l = []"
| "select_custody_loop E cid (op # ops) l =
     (case apply_custody_op E cid op l of
        Inl _ \<Rightarrow> select_custody_loop E cid ops l
      | Inr l' \<Rightarrow> op # select_custody_loop E cid ops l')"

definition select_valid_custody_ops :: "env \<Rightarrow> chain_state \<Rightarrow> custody_certificate list \<Rightarrow> custody_certificate list" where
  \<comment> \<open>on an overlay of the state with an empty registry\<close>
  "select_valid_custody_ops E cs ops =
     select_custody_loop E (chain_id cs) ops ((live cs)\<lparr>registry := \<lparr>titles = [], escrows = []\<rparr>\<rparr>)"

section \<open>Relay fee\<close>

definition typical_signed_tx_min_fee :: "env \<Rightarrow> nat" where
  "typical_signed_tx_min_fee E = min_relay_fee_for_bytes (pk_len E + sig_len E + 512)"

definition queue_fee_floor :: "bool \<Rightarrow> bool \<Rightarrow> nat list \<Rightarrow> nat \<Rightarrow> nat" where
  \<comment> \<open>raise the floor to the least queued fee, strictly above it when the queue is full\<close>
  "queue_fee_floor full hot fees min_fee =
     (if (hot \<or> full) \<and> fees \<noteq> [] then max min_fee (if full then sat_add128 (Min (set fees)) 1 else Min (set fees)) else min_fee)"

definition current_min_relay_fee :: "env \<Rightarrow> chain_state \<Rightarrow> nat" where
  "current_min_relay_fee E cs =
     (let flr = typical_signed_tx_min_fee E;
          utxo_len = length (utxo_mempool cs);
          acct_len = length (transparent_mempool cs);
          utxo_full = (utxo_len \<ge> MAX_MEMPOOL_SIZE);
          acct_full = (acct_len \<ge> MAX_MEMPOOL_SIZE);
          utxo_hot = (utxo_len * 4 \<ge> MAX_MEMPOOL_SIZE * 3);
          acct_hot = (acct_len * 4 \<ge> MAX_MEMPOOL_SIZE * 3)
      in if \<not> utxo_full \<and> \<not> acct_full \<and> \<not> utxo_hot \<and> \<not> acct_hot then flr
         else max (queue_fee_floor utxo_full utxo_hot (map u_fee (utxo_mempool cs))
                     (queue_fee_floor acct_full acct_hot (map t_fee (transparent_mempool cs)) flr)) flr)"

end
