(* ===== verification/Mempool_Correct.thy ===== *)
theory Mempool_Correct
  imports Mempool Node_Correct
begin

text \<open>
  Correctness of the mempools: removal by descending indices, the closure of a conflict set, the eviction
  loops, and the invariant of the UTXO queue through every history of blocks and admissions.
\<close>

section \<open>Removing by index\<close>

definition keep_except :: "nat list \<Rightarrow> 'a list \<Rightarrow> 'a list" where
  "keep_except idxs xs = map ((!) xs) (filter (\<lambda>i. i \<notin> set idxs) [0 ..< length xs])"

lemma keep_except_Nil [simp]: "keep_except [] xs = xs"
  by (simp add: keep_except_def map_nth)

lemma keep_except_cong: "set is = set js \<Longrightarrow> keep_except is xs = keep_except js xs"
  by (simp add: keep_except_def)

lemma filter_shift: "filter P [n ..< n + m] = map (\<lambda>i. n + i) (filter (\<lambda>i. P (n + i)) [0 ..< m])"
  by (induction m) auto

lemma keep_except_append:
  assumes "\<forall>j\<in>set is. j < length ys"
  shows "keep_except is (ys @ zs) = keep_except is ys @ zs"
proof -
  have s: "[0 ..< length ys + length zs] = [0 ..< length ys] @ [length ys ..< length ys + length zs]"
    by (rule upt_add_eq_append) simp
  have "filter (\<lambda>i. length ys + i \<notin> set is) [0 ..< length zs] = [0 ..< length zs]" using assms by (auto simp: filter_id_conv)
  then have "map ((!) (ys @ zs)) (filter (\<lambda>i. i \<notin> set is) [length ys ..< length ys + length zs]) = map (\<lambda>i. zs ! i) [0 ..< length zs]"
    by (simp add: filter_shift nth_append)
  moreover have "map ((!) (ys @ zs)) (filter (\<lambda>i. i \<notin> set is) [0 ..< length ys]) = map ((!) ys) (filter (\<lambda>i. i \<notin> set is) [0 ..< length ys])"
    by (rule map_cong) (auto simp: nth_append)
  ultimately show ?thesis by (simp add: keep_except_def s map_nth)
qed

lemma keep_except_last:
  assumes "\<forall>j\<in>set is. j < length ys"
  shows "keep_except (length ys # is) (ys @ z # zs) = keep_except is ys @ zs"
proof -
  have "keep_except (length ys # is) ((ys @ [z]) @ zs) = keep_except (length ys # is) (ys @ [z]) @ zs"
    by (rule keep_except_append) (use assms in auto)
  moreover have "keep_except (length ys # is) (ys @ [z]) = keep_except is ys"
  proof -
    have "filter (\<lambda>i. i \<notin> set (length ys # is)) [0 ..< length (ys @ [z])] = filter (\<lambda>i. i \<notin> set is) [0 ..< length ys]"
      by (auto intro: filter_cong)
    moreover have "map ((!) (ys @ [z])) (filter (\<lambda>i. i \<notin> set is) [0 ..< length ys]) = map ((!) ys) (filter (\<lambda>i. i \<notin> set is) [0 ..< length ys])"
      by (rule map_cong) (auto simp: nth_append)
    ultimately show ?thesis by (simp add: keep_except_def)
  qed
  ultimately show ?thesis by simp
qed

lemma keep_except_remove_at:
  assumes "i < length xs" and "\<forall>j\<in>set is. j < i"
  shows "keep_except is (remove_at i xs) = keep_except (i # is) xs"
proof -
  define ys where "ys = take i xs"
  have l: "length ys = i" and x: "xs = ys @ xs ! i # drop (Suc i) xs" using assms(1) by (simp_all add: ys_def id_take_nth_drop)
  have "keep_except is (remove_at i xs) = keep_except is ys @ drop (Suc i) xs"
    unfolding remove_at_def ys_def [symmetric] by (rule keep_except_append) (use assms(2) l in simp)
  also have "\<dots> = keep_except (i # is) xs"
    by (subst (2) x, subst l [symmetric], rule keep_except_last [symmetric]) (use assms(2) l in simp)
  finally show ?thesis .
qed

lemma set_keep_except: "set (keep_except is xs) = (!) xs ` {i. i < length xs \<and> i \<notin> set is}"
  by (auto simp: keep_except_def)

lemma keep_except_subset: "set (keep_except is xs) \<subseteq> set xs"
  by (auto simp: set_keep_except)

lemma sum_keep_except:
  assumes "distinct is" and "\<forall>i\<in>set is. i < length xs"
  shows "sum_list (map f (keep_except is xs)) + sum_list (map (\<lambda>i. f (xs ! i)) is) = (sum_list (map f xs) :: nat)"
proof -
  have f: "sum_list (map f (keep_except is xs)) = (\<Sum>i\<in>{0 ..< length xs} - set is. f (xs ! i))"
    by (simp add: keep_except_def sum_list_distinct_conv_sum_set comp_def) (rule sum.cong; auto)
  have s: "sum_list (map (\<lambda>i. f (xs ! i)) is) = (\<Sum>i\<in>set is. f (xs ! i))"
    by (rule sum_list_distinct_conv_sum_set [OF assms(1)])
  have "sum_list (map f xs) = (\<Sum>i\<in>{0 ..< length xs}. f (xs ! i))" by (simp add: sum_list_sum_nth)
  also have "\<dots> = (\<Sum>i\<in>{0 ..< length xs} - set is. f (xs ! i)) + (\<Sum>i\<in>set is. f (xs ! i))"
    by (rule sum.subset_diff) (use assms(2) in auto)
  finally show ?thesis using f s by simp
qed

lemma sum_keep_except_le: "sum_list (map f (keep_except is xs)) \<le> (sum_list (map f xs) :: nat)"
proof -
  have "sum_list (map f (keep_except is xs)) = (\<Sum>i\<in>{i \<in> {0 ..< length xs}. i \<notin> set is}. f (xs ! i))"
    by (simp add: keep_except_def sum_list_distinct_conv_sum_set comp_def)
  also have "\<dots> \<le> (\<Sum>i\<in>{0 ..< length xs}. f (xs ! i))" by (rule sum_mono2) auto
  finally show ?thesis by (simp add: sum_list_sum_nth)
qed

lemma distinct_concat_filter: "distinct (concat (map f xs)) \<Longrightarrow> distinct (concat (map f (filter P xs)))"
  by (induction xs) (auto simp: dest: subsetD [OF filter_is_subset])

lemma distinct_keep_except_concat:
  assumes "distinct (concat (map f xs))"
  shows "distinct (concat (map f (keep_except is xs)))"
proof -
  have "concat (map f xs) = concat (map (\<lambda>i. f (xs ! i)) [0 ..< length xs])"
    by (metis (no_types, lifting) comp_apply map_cong map_map map_nth)
  with assms have "distinct (concat (map (\<lambda>i. f (xs ! i)) [0 ..< length xs]))" by simp
  from distinct_concat_filter [OF this] show ?thesis by (simp add: keep_except_def comp_def)
qed

lemma distinct_keep_except_map: "distinct (map f xs) \<Longrightarrow> distinct (map f (keep_except is xs))"
  using distinct_keep_except_concat [of "\<lambda>x. [f x]" xs "is"] by (simp add: concat_map_singleton)

lemma length_keep_except:
  "distinct is \<Longrightarrow> \<forall>i\<in>set is. i < length xs \<Longrightarrow> length (keep_except is xs) + length is = length xs"
  using sum_keep_except [of "is" xs "\<lambda>_. 1"] by (simp add: sum_list_triv)

section \<open>Dropping queued transactions\<close>

lemma drop_queued_pool: "utxo_mempool (drop_queued E i cs) = remove_at i (utxo_mempool cs)"
  by (simp add: drop_queued_def Let_def)

lemma fold_drop_pool:
  "sorted_wrt (>) is \<Longrightarrow> \<forall>i\<in>set is. i < length (utxo_mempool cs)
    \<Longrightarrow> utxo_mempool (fold (drop_queued E) is cs) = keep_except is (utxo_mempool cs)"
proof (induction "is" arbitrary: cs)
  case (Cons i js)
  have "utxo_mempool (fold (drop_queued E) js (drop_queued E i cs)) = keep_except js (utxo_mempool (drop_queued E i cs))"
    by (rule Cons.IH) (use Cons.prems in \<open>auto simp: drop_queued_pool remove_at_def\<close>)
  also have "\<dots> = keep_except (i # js) (utxo_mempool cs)"
    unfolding drop_queued_pool by (rule keep_except_remove_at) (use Cons.prems in auto)
  finally show ?case by simp
qed simp

lemma drop_all_pool:
  assumes "distinct is" and "\<forall>i\<in>set is. i < length (utxo_mempool cs)"
  shows "utxo_mempool (drop_all_queued E is cs) = keep_except is (utxo_mempool cs)"
proof -
  have "sorted_wrt (<) (sort is)" using assms(1) by (simp add: strict_sorted_iff)
  then have "sorted_wrt (>) (rev (sort is))" by (simp add: sorted_wrt_rev)
  then have "utxo_mempool (fold (drop_queued E) (rev (sort is)) cs) = keep_except (rev (sort is)) (utxo_mempool cs)"
    by (rule fold_drop_pool) (use assms(2) in simp)
  then show ?thesis by (simp add: drop_all_queued_def keep_except_cong [of "rev (sort is)" "is"])
qed

definition pool_frame :: "chain_state \<Rightarrow> chain_state \<Rightarrow> bool" where
  \<comment> \<open>nothing but the UTXO queue and the first-seen maps differs\<close>
  "pool_frame cs cs' \<longleftrightarrow> cs' = cs\<lparr>utxo_mempool := utxo_mempool cs', tx_first_seen_ms := tx_first_seen_ms cs', tx_first_seen_blue := tx_first_seen_blue cs'\<rparr>"

lemma pool_frame_refl [simp]: "pool_frame cs cs"
  by (simp add: pool_frame_def)

lemma pool_frame_trans: "pool_frame a b \<Longrightarrow> pool_frame b c \<Longrightarrow> pool_frame a c"
  unfolding pool_frame_def by (cases a; cases b; cases c) simp

lemma drop_queued_frame: "pool_frame cs (drop_queued E i cs)"
  by (simp add: pool_frame_def drop_queued_def Let_def)

lemma fold_drop_frame: "pool_frame cs (fold (drop_queued E) is cs)"
  by (induction "is" arbitrary: cs) (auto intro: pool_frame_trans drop_queued_frame)

lemma drop_all_frame: "pool_frame cs (drop_all_queued E is cs)"
  by (simp add: drop_all_queued_def fold_drop_frame)

lemma record_first_seen_frame: "pool_frame cs (record_first_seen now h cs)"
  by (cases "tx_first_seen_ms cs") (auto simp: pool_frame_def record_first_seen_def Let_def)

lemma record_first_seen_pool [simp]: "utxo_mempool (record_first_seen now h cs) = utxo_mempool cs"
  by (cases "tx_first_seen_ms cs") (auto simp: record_first_seen_def Let_def)

section \<open>Conflicts\<close>

lemma expand_conflicts_ok:
  "distinct is \<Longrightarrow> \<forall>i\<in>set is. i < length pool \<Longrightarrow>
    distinct (expand_conflicts E pool is) \<and> set is \<subseteq> set (expand_conflicts E pool is)
    \<and> (\<forall>i\<in>set (expand_conflicts E pool is). i < length pool)
    \<and> (\<forall>i<length pool. spends_one_of (map (\<lambda>j. utxo_tx_hash E (pool ! j)) (expand_conflicts E pool is)) (pool ! i)
         \<longrightarrow> i \<in> set (expand_conflicts E pool is))"
proof (induction E pool "is" rule: expand_conflicts.induct)
  case (1 E pool "is")
  define more where "more = expand_pass E pool is"
  have step: "expand_conflicts E pool is = (if more = [] then is else expand_conflicts E pool (is @ more))"
    by (subst expand_conflicts.simps) (simp add: more_def Let_def)
  have m: "distinct more" "\<forall>i\<in>set more. i < length pool \<and> i \<notin> set is" by (auto simp: more_def expand_pass_def Let_def)
  show ?case
  proof (cases "more = []")
    case True
    then have "\<forall>i<length pool. spends_one_of (map (\<lambda>j. utxo_tx_hash E (pool ! j)) is) (pool ! i) \<longrightarrow> i \<in> set is"
      by (auto simp: more_def expand_pass_def Let_def filter_empty_conv)
    then show ?thesis using "1.prems" True step by simp
  next
    case False
    have d: "distinct (is @ more)" "\<forall>i\<in>set (is @ more). i < length pool" using "1.prems" m by auto
    from "1.IH" [OF more_def False d] show ?thesis using False step by auto
  qed
qed

lemma conflict_indices_ok:
  "distinct (conflict_indices E pool tx)" "\<forall>i\<in>set (conflict_indices E pool tx). i < length pool"
  "i < length pool \<Longrightarrow> shares_input tx (pool ! i) \<Longrightarrow> i \<in> set (conflict_indices E pool tx)"
proof -
  define seeds where "seeds = filter (\<lambda>i. shares_input tx (pool ! i)) [0 ..< length pool]"
  have s: "distinct seeds" "\<forall>i\<in>set seeds. i < length pool" by (simp_all add: seeds_def)
  have c: "conflict_indices E pool tx = (if seeds = [] then [] else expand_conflicts E pool seeds)"
    by (simp add: conflict_indices_def seeds_def Let_def)
  note e = expand_conflicts_ok [OF s, of E]
  show "distinct (conflict_indices E pool tx)" "\<forall>i\<in>set (conflict_indices E pool tx). i < length pool" using e by (simp_all add: c)
  assume "i < length pool" "shares_input tx (pool ! i)"
  then have "i \<in> set seeds" by (simp add: seeds_def)
  then show "i \<in> set (conflict_indices E pool tx)" using e by (auto simp: c)
qed

section \<open>Evictions\<close>

lemma evict_loop_ok:
  "evict_loop E pool inc rate ranked used rm = (used', rm') \<Longrightarrow>
    \<exists>k. rm' = rm @ map fst (take k ranked) \<and> used' = used - sum_list (map (\<lambda>(i, r). utxo_relay_bytes E (pool ! i)) (take k ranked))
      \<and> (\<forall>(i, r)\<in>set (take k ranked). r < rate)"
proof (induction ranked arbitrary: used rm)
  case Nil
  then show ?case by simp
next
  case (Cons p ranked)
  obtain i r where p: "p = (i, r)" by (cases p)
  show ?case
  proof (cases "sat_add64 used inc \<le> MAX_MEMPOOL_BYTES \<or> r \<ge> rate")
    case True
    then show ?thesis using Cons.prems p by (intro exI [of _ 0]) simp
  next
    case False
    then have "evict_loop E pool inc rate ranked (used - utxo_relay_bytes E (pool ! i)) (rm @ [i]) = (used', rm')"
      using Cons.prems p by simp
    from Cons.IH [OF this] obtain k where k: "rm' = (rm @ [i]) @ map fst (take k ranked)"
      "used' = used - utxo_relay_bytes E (pool ! i) - sum_list (map (\<lambda>(i, r). utxo_relay_bytes E (pool ! i)) (take k ranked))"
      "\<forall>(i, r)\<in>set (take k ranked). r < rate" by blast
    then show ?thesis using False p by (intro exI [of _ "Suc k"]) auto
  qed
qed

definition feerate :: "env \<Rightarrow> utxo_tx list \<Rightarrow> nat \<Rightarrow> nat" where
  \<comment> \<open>the ancestor-package feerate an eviction ranks by\<close>
  "feerate E pool i = (case utxo_ancestor_package_score E pool i of (fee, bytes) \<Rightarrow> fee div max bytes 1)"

definition pool_bytes :: "env \<Rightarrow> utxo_tx list \<Rightarrow> nat" where
  "pool_bytes E pool = sum_list (map (utxo_relay_bytes E) pool)"

lemma sat_add64_le: "sat_add64 a b \<le> MAX_MEMPOOL_BYTES \<longleftrightarrow> a + b \<le> MAX_MEMPOOL_BYTES"
  by (auto simp: sat_add64_def MAX_MEMPOOL_BYTES_def)

lemma evict_bytes_ok:
  assumes ev: "evict_bytes E tx rate cs = (cs', res)" and b: "pool_bytes E (utxo_mempool cs) \<le> MAX_MEMPOOL_BYTES"
  shows "pool_frame cs cs'"
    and "res = Ok () \<Longrightarrow> \<exists>is. distinct is \<and> (\<forall>i\<in>set is. i < length (utxo_mempool cs) \<and> feerate E (utxo_mempool cs) i < rate)
      \<and> utxo_mempool cs' = keep_except is (utxo_mempool cs) \<and> pool_bytes E (utxo_mempool cs') + utxo_relay_bytes E tx \<le> MAX_MEMPOOL_BYTES"
    and "res \<noteq> Ok () \<Longrightarrow> cs' = cs"
proof -
  define pool where "pool = utxo_mempool cs"
  define inc where "inc = utxo_relay_bytes E tx"
  define ranked where "ranked = sort_key (\<lambda>(i, r). (r, length pool - i)) (map (\<lambda>i. (i, feerate E pool i)) [0 ..< length pool])"
  have "pool_bytes E pool < 2 ^ 64" using b by (simp add: pool_def MAX_MEMPOOL_BYTES_def)
  then have used: "wsum64 (map (utxo_relay_bytes E) pool) = pool_bytes E pool" by (simp add: wsum64_def pool_bytes_def)
  have rk: "map (\<lambda>i. case utxo_ancestor_package_score E pool i of (fee, bytes) \<Rightarrow> (i, fee div max bytes 1)) [0 ..< length pool]
      = map (\<lambda>i. (i, feerate E pool i)) [0 ..< length pool]" by (simp add: feerate_def split: prod.splits)
  obtain used' rm where el: "evict_loop E pool inc rate ranked (pool_bytes E pool) [] = (used', rm)" by (meson surj_pair)
  have eq: "evict_bytes E tx rate cs = (if sat_add64 (pool_bytes E pool) inc \<le> MAX_MEMPOOL_BYTES then (cs, Ok ())
      else if sat_add64 used' inc > MAX_MEMPOOL_BYTES then (cs, Err ''UTXO mempool byte budget exceeded'')
      else (drop_all_queued E rm cs, Ok ()))"
    unfolding evict_bytes_def Let_def pool_def [symmetric] used inc_def [symmetric] rk ranked_def [symmetric] el by simp
  show "pool_frame cs cs'" using ev drop_all_frame [of cs E rm] by (auto simp: eq split: if_splits)
  show "res \<noteq> Ok () \<Longrightarrow> cs' = cs" using ev by (auto simp: eq split: if_splits)
  assume r: "res = Ok ()"
  obtain k where k: "rm = map fst (take k ranked)" "used' = pool_bytes E pool - sum_list (map (\<lambda>(i, r). utxo_relay_bytes E (pool ! i)) (take k ranked))"
    "\<forall>(i, r)\<in>set (take k ranked). r < rate" using evict_loop_ok [OF el] by auto
  have fst_ranked: "distinct (map fst ranked)"
  proof -
    have "mset (map fst ranked) = mset [0 ..< length pool]" by (simp add: ranked_def image_mset.compositionality comp_def)
    from mset_eq_imp_distinct_iff [OF this] show ?thesis by simp
  qed
  have in_ranked: "\<forall>(i, r)\<in>set ranked. i < length pool \<and> r = feerate E pool i" by (auto simp: ranked_def)
  have rm: "distinct rm" "\<forall>i\<in>set rm. i < length pool \<and> feerate E pool i < rate"
  proof -
    show "distinct rm" using fst_ranked unfolding k(1) take_map [symmetric] by (rule distinct_take)
    show "\<forall>i\<in>set rm. i < length pool \<and> feerate E pool i < rate"
    proof
      fix i
      assume "i \<in> set rm"
      then obtain r where ir: "(i, r) \<in> set (take k ranked)" by (auto simp: k(1))
      then have "i < length pool \<and> r = feerate E pool i" using in_ranked in_set_takeD [OF ir] by blast
      moreover have "r < rate" using k(3) ir by blast
      ultimately show "i < length pool \<and> feerate E pool i < rate" by simp
    qed
  qed
  show "\<exists>is. distinct is \<and> (\<forall>i\<in>set is. i < length (utxo_mempool cs) \<and> feerate E (utxo_mempool cs) i < rate)
      \<and> utxo_mempool cs' = keep_except is (utxo_mempool cs) \<and> pool_bytes E (utxo_mempool cs') + utxo_relay_bytes E tx \<le> MAX_MEMPOOL_BYTES"
  proof (cases "sat_add64 (pool_bytes E pool) inc \<le> MAX_MEMPOOL_BYTES")
    case True
    then show ?thesis using ev eq sat_add64_le by (intro exI [of _ "[]"]) (simp add: pool_def inc_def)
  next
    case False
    then have u: "used' + inc \<le> MAX_MEMPOOL_BYTES" "cs' = drop_all_queued E rm cs" using ev eq r sat_add64_le [of used' inc] by (auto split: if_splits)
    have p: "utxo_mempool cs' = keep_except rm pool" unfolding u(2) pool_def by (rule drop_all_pool) (use rm in \<open>auto simp: pool_def\<close>)
    have "pool_bytes E (keep_except rm pool) + sum_list (map (\<lambda>i. utxo_relay_bytes E (pool ! i)) rm) = pool_bytes E pool"
      unfolding pool_bytes_def by (rule sum_keep_except) (use rm in auto)
    moreover have "sum_list (map (\<lambda>(i, r). utxo_relay_bytes E (pool ! i)) (take k ranked)) = sum_list (map (\<lambda>i. utxo_relay_bytes E (pool ! i)) rm)"
      by (simp add: k(1) comp_def split_def)
    ultimately have "pool_bytes E (keep_except rm pool) = used'" using k(2) by simp
    then show ?thesis using rm p u(1) by (intro exI [of _ rm]) (simp add: pool_def inc_def)
  qed
qed

lemma min_by_key_in: "min_by_key f xs = Some x \<Longrightarrow> x \<in> set xs \<and> (\<forall>y\<in>set xs. f x \<le> f y)"
proof (induction xs arbitrary: x)
  case (Cons a xs)
  show ?case
  proof (cases "min_by_key f xs")
    case None
    then have "xs = []" by (cases xs) (auto split: option.splits if_splits)
    then show ?thesis using Cons.prems None by simp
  next
    case (Some y)
    then show ?thesis using Cons.IH [OF Some] Cons.prems by (cases "f y < f a") (auto intro: order_trans)
  qed
qed simp

lemma min_by_key_None: "min_by_key f xs = None \<longleftrightarrow> xs = []"
  by (cases xs) (auto split: option.splits if_splits)

lemma evict_count_ok:
  assumes ev: "evict_count E tx rate cs = (cs', res)"
  shows "pool_frame cs cs'"
    and "res = Ok () \<Longrightarrow> \<exists>is. distinct is \<and> (\<forall>i\<in>set is. i < length (utxo_mempool cs) \<and> feerate E (utxo_mempool cs) i \<le> rate)
      \<and> utxo_mempool cs' = keep_except is (utxo_mempool cs)
      \<and> (length (utxo_mempool cs) \<le> MAX_MEMPOOL_SIZE \<longrightarrow> length (utxo_mempool cs') < MAX_MEMPOOL_SIZE)"
    and "res \<noteq> Ok () \<Longrightarrow> cs' = cs"
proof -
  define pool where "pool = utxo_mempool cs"
  define scored where "scored = map (\<lambda>i. case utxo_ancestor_package_score E pool i of (fee, bytes) \<Rightarrow> (i, fee div max bytes 1, fee)) [0 ..< length pool]"
  have sc: "\<forall>(i, r, fee)\<in>set scored. i < length pool \<and> r = feerate E pool i" by (auto simp: scored_def feerate_def split: prod.splits)
  have eq: "evict_count E tx rate cs = (if length pool < MAX_MEMPOOL_SIZE then (cs, Ok ())
      else case min_by_key (\<lambda>(i, rate, fee). (rate, fee)) scored of
             None \<Rightarrow> (cs, Err ''UTXO mempool is full'')
           | Some (i, r, fee) \<Rightarrow> if rate > r \<or> (rate = r \<and> u_fee tx > fee) then (drop_queued E i cs, Ok ())
               else (cs, Err ''UTXO mempool is full''))"
    by (simp add: evict_count_def Let_def pool_def scored_def)
  show "pool_frame cs cs'" using ev drop_queued_frame by (auto simp: eq split: if_splits option.splits)
  show "res \<noteq> Ok () \<Longrightarrow> cs' = cs" using ev by (auto simp: eq split: if_splits option.splits)
  assume r: "res = Ok ()"
  show "\<exists>is. distinct is \<and> (\<forall>i\<in>set is. i < length (utxo_mempool cs) \<and> feerate E (utxo_mempool cs) i \<le> rate)
      \<and> utxo_mempool cs' = keep_except is (utxo_mempool cs)
      \<and> (length (utxo_mempool cs) \<le> MAX_MEMPOOL_SIZE \<longrightarrow> length (utxo_mempool cs') < MAX_MEMPOOL_SIZE)"
  proof (cases "length pool < MAX_MEMPOOL_SIZE")
    case True
    then show ?thesis using ev eq by (intro exI [of _ "[]"]) (simp add: pool_def)
  next
    case False
    then obtain i rt fee where m: "min_by_key (\<lambda>(i, rate, fee). (rate, fee)) scored = Some (i, rt, fee)" and g: "rt \<le> rate" and c: "cs' = drop_queued E i cs"
      using ev eq r by (auto split: if_splits option.splits)
    have i: "i < length pool" "rt = feerate E pool i" using min_by_key_in [OF m] sc by auto
    have k: "keep_except [] (remove_at i pool) = keep_except [i] pool" by (rule keep_except_remove_at) (use i in auto)
    have "length (keep_except [i] pool) + length [i] = length pool" by (rule length_keep_except) (use i in auto)
    then show ?thesis using i g k by (intro exI [of _ "[i]"]) (simp add: c drop_queued_pool pool_def)
  qed
qed

section \<open>The invariant of the queues\<close>

definition utxo_pool_ok :: "env \<Rightarrow> nat \<Rightarrow> utxo_tx list \<Rightarrow> bool" where
  \<comment> \<open>within both budgets, no transaction twice, no outpoint claimed twice, every transaction well formed and signed\<close>
  "utxo_pool_ok E cid pool \<longleftrightarrow> length pool \<le> MAX_MEMPOOL_SIZE \<and> pool_bytes E pool \<le> MAX_MEMPOOL_BYTES
     \<and> distinct (map (utxo_txid E) pool) \<and> distinct (concat (map (\<lambda>tx. map previous (inputs tx)) pool))
     \<and> (\<forall>tx\<in>set pool. utxo_validate_form E tx = Ok () \<and> u_chain_id tx = cid \<and> utxo_verify E tx)"

lemma utxo_pool_keep: "utxo_pool_ok E cid pool \<Longrightarrow> utxo_pool_ok E cid (keep_except is pool)"
proof -
  assume ok: "utxo_pool_ok E cid pool"
  have "length (keep_except is pool) \<le> length pool" using sum_keep_except_le [of "\<lambda>_. 1" "is" pool] by (simp add: sum_list_triv)
  moreover have "pool_bytes E (keep_except is pool) \<le> pool_bytes E pool" by (simp add: pool_bytes_def sum_keep_except_le)
  moreover have "distinct (map (utxo_txid E) (keep_except is pool))" "distinct (concat (map (\<lambda>tx. map previous (inputs tx)) (keep_except is pool)))"
    using ok distinct_keep_except_map distinct_keep_except_concat by (auto simp: utxo_pool_ok_def)
  moreover have "\<forall>tx\<in>set (keep_except is pool). tx \<in> set pool" using keep_except_subset [of "is" pool] by blast
  ultimately show ?thesis using ok unfolding utxo_pool_ok_def by (meson le_trans)
qed

lemma shares_input_iff: "shares_input tx t \<longleftrightarrow> (\<exists>p. p \<in> set (map previous (inputs tx)) \<and> p \<in> set (map previous (inputs t)))"
proof -
  have "shares_input tx t \<longleftrightarrow> (\<exists>tin\<in>set (inputs tx). \<exists>q\<in>set (inputs t). previous q = previous tin)"
    by (simp add: shares_input_def list_ex_iff)
  then show ?thesis by (auto simp: image_iff) metis+
qed

lemma utxo_pool_push:
  assumes ok: "utxo_pool_ok E cid pool" and len: "length pool < MAX_MEMPOOL_SIZE"
    and bytes: "pool_bytes E pool + utxo_relay_bytes E tx \<le> MAX_MEMPOOL_BYTES"
    and form: "utxo_validate_form E tx = Ok ()" "u_chain_id tx = cid" "utxo_verify E tx"
    and fresh: "utxo_txid E tx \<notin> utxo_txid E ` set pool" "\<forall>t\<in>set pool. \<not> shares_input tx t"
  shows "utxo_pool_ok E cid (pool @ [tx])"
proof -
  have "distinct (map previous (inputs tx))" using form(1) by (auto simp: utxo_validate_form_def split: if_splits)
  moreover have "set (concat (map (\<lambda>tx. map previous (inputs tx)) pool)) \<inter> set (map previous (inputs tx)) = {}"
    using fresh(2) unfolding shares_input_iff by force
  ultimately show ?thesis using ok len bytes form fresh(1) by (auto simp: utxo_pool_ok_def pool_bytes_def)
qed

lemma keep_unconflicted:
  assumes "t \<in> set (keep_except (conflict_indices E pool tx) pool)"
  shows "\<not> shares_input tx t"
  using assms conflict_indices_ok(3) [of _ pool tx E] by (auto simp: set_keep_except)

lemma admission_checks_Ok:
  assumes "admission_checks E tx cs = Ok (conflicts, rate)"
  shows "conflicts = conflict_indices E (utxo_mempool cs) tx" "utxo_validate_form E tx = Ok ()" "u_chain_id tx = chain_id cs" "utxo_verify E tx"
    "utxo_txid E tx \<notin> utxo_txid E ` set (utxo_mempool cs)" "conflicts \<noteq> [] \<longrightarrow> replacement_pays E (utxo_mempool cs) tx conflicts"
  using assms unfolding admission_checks_def Let_def
  by (auto simp: list_ex_iff split: sum.splits if_splits prod.splits)

lemma admit_utxo_effect:
  assumes ok: "utxo_pool_ok E (chain_id cs) (utxo_mempool cs)" and ad: "admit_utxo_to_mempool E now tx cs = (cs', res)"
  shows "pool_frame cs cs'"
    and "res = Ok () \<Longrightarrow> \<exists>rate ev1 ev2. admission_checks E tx cs = Ok (conflict_indices E (utxo_mempool cs) tx, rate)
      \<and> utxo_mempool cs' = keep_except ev2 (keep_except ev1 (keep_except (conflict_indices E (utxo_mempool cs) tx) (utxo_mempool cs))) @ [tx]"
    and "utxo_pool_ok E (chain_id cs) (utxo_mempool cs')"
proof -
  consider (checks) e where "admission_checks E tx cs = Err e" "cs' = cs" "res = Err e"
    | (passed) conflicts rate cs1 r1 where "admission_checks E tx cs = Ok (conflicts, rate)"
        "evict_bytes E tx rate (drop_all_queued E conflicts cs) = (cs1, r1)"
    using ad by (cases "admission_checks E tx cs") (auto simp: admit_utxo_to_mempool_def split: prod.splits)
  then have goal: "pool_frame cs cs' \<and> utxo_pool_ok E (chain_id cs) (utxo_mempool cs')
    \<and> (res = Ok () \<longrightarrow> (\<exists>rate ev1 ev2. admission_checks E tx cs = Ok (conflict_indices E (utxo_mempool cs) tx, rate)
      \<and> utxo_mempool cs' = keep_except ev2 (keep_except ev1 (keep_except (conflict_indices E (utxo_mempool cs) tx) (utxo_mempool cs))) @ [tx]))"
  proof cases
    case checks
    then show ?thesis using ok by simp
  next
    case passed
    note ch = admission_checks_Ok [OF passed(1)]
    define pool0 where "pool0 = keep_except conflicts (utxo_mempool cs)"
    have p0: "utxo_mempool (drop_all_queued E conflicts cs) = pool0"
      unfolding pool0_def by (rule drop_all_pool) (use conflict_indices_ok ch(1) in auto)
    have ok0: "utxo_pool_ok E (chain_id cs) pool0" unfolding pool0_def by (rule utxo_pool_keep [OF ok])
    then have b0: "pool_bytes E (utxo_mempool (drop_all_queued E conflicts cs)) \<le> MAX_MEMPOOL_BYTES" by (simp add: p0 utxo_pool_ok_def)
    note eb = evict_bytes_ok [OF passed(2) b0]
    have fr1: "pool_frame cs cs1" by (rule pool_frame_trans [OF drop_all_frame eb(1)])
    show ?thesis
    proof (cases "r1 = Ok ()")
      case False
      then have "cs' = drop_all_queued E conflicts cs" "res \<noteq> Ok ()"
        using ad passed eb(3) by (cases r1; auto simp: admit_utxo_to_mempool_def)+
      then show ?thesis using ok0 drop_all_frame by (auto simp: p0)
    next
      case True
      then obtain ev1 where e1: "utxo_mempool cs1 = keep_except ev1 pool0"
        "pool_bytes E (utxo_mempool cs1) + utxo_relay_bytes E tx \<le> MAX_MEMPOOL_BYTES" using eb(2) by (auto simp: p0)
      have ok1: "utxo_pool_ok E (chain_id cs) (utxo_mempool cs1)" unfolding e1(1) by (rule utxo_pool_keep [OF ok0])
      obtain cs2 r2 where ec: "evict_count E tx rate cs1 = (cs2, r2)" by (meson surj_pair)
      note ecs = evict_count_ok [OF ec]
      have fr2: "pool_frame cs cs2" by (rule pool_frame_trans [OF fr1 ecs(1)])
      show ?thesis
      proof (cases "r2 = Ok ()")
        case False
        then have "cs' = cs1" "res \<noteq> Ok ()" using ad passed True ec ecs(3) by (cases r2; auto simp: admit_utxo_to_mempool_def)+
        then show ?thesis using ok1 fr1 by simp
      next
        case T2: True
        define cs3 where "cs3 = record_first_seen now (utxo_txid E tx) cs2"
        obtain ev2 where e2: "utxo_mempool cs2 = keep_except ev2 (utxo_mempool cs1)" "length (utxo_mempool cs2) < MAX_MEMPOOL_SIZE"
          using ecs(2) [OF T2] ok1 by (auto simp: utxo_pool_ok_def)
        have c': "cs' = cs3\<lparr>utxo_mempool := utxo_mempool cs2 @ [tx]\<rparr>" "res = Ok ()"
          using ad passed True ec T2 by (simp_all add: admit_utxo_to_mempool_def cs3_def Let_def)
        have "pool_frame cs2 cs'" using record_first_seen_frame [of cs2 now "utxo_txid E tx"]
          unfolding c'(1) pool_frame_def cs3_def [symmetric] by (cases cs2; cases cs3) simp
        then have fr: "pool_frame cs cs'" using fr2 pool_frame_trans by blast
        have sub: "set (utxo_mempool cs2) \<subseteq> set pool0" "set pool0 \<subseteq> set (utxo_mempool cs)"
          unfolding e2(1) e1(1) pool0_def using keep_except_subset subset_trans by metis+
        have "utxo_pool_ok E (chain_id cs) (utxo_mempool cs2 @ [tx])"
        proof (rule utxo_pool_push)
          show "utxo_pool_ok E (chain_id cs) (utxo_mempool cs2)" unfolding e2(1) by (rule utxo_pool_keep [OF ok1])
          have "pool_bytes E (utxo_mempool cs2) \<le> pool_bytes E (utxo_mempool cs1)" by (simp add: e2(1) pool_bytes_def sum_keep_except_le)
          then show "pool_bytes E (utxo_mempool cs2) + utxo_relay_bytes E tx \<le> MAX_MEMPOOL_BYTES" using e1(2) by simp
          show "utxo_txid E tx \<notin> utxo_txid E ` set (utxo_mempool cs2)" using ch(5) sub by blast
          show "\<forall>t\<in>set (utxo_mempool cs2). \<not> shares_input tx t" using sub(1) keep_unconflicted [of _ E "utxo_mempool cs" tx] unfolding pool0_def ch(1) by blast
        qed (use e2(2) ch in auto)
        moreover have "utxo_mempool cs' = keep_except ev2 (keep_except ev1 (keep_except (conflict_indices E (utxo_mempool cs) tx) (utxo_mempool cs))) @ [tx]"
          unfolding c' using e1(1) e2(1) ch(1) by (simp add: pool0_def)
        moreover have "utxo_mempool cs' = utxo_mempool cs2 @ [tx]" by (simp add: c')
        ultimately show ?thesis using fr passed(1) ch(1) by metis
      qed
    qed
  qed
  then show "pool_frame cs cs'" "utxo_pool_ok E (chain_id cs) (utxo_mempool cs')" by blast+
  assume "res = Ok ()"
  with goal show "\<exists>rate ev1 ev2. admission_checks E tx cs = Ok (conflict_indices E (utxo_mempool cs) tx, rate)
      \<and> utxo_mempool cs' = keep_except ev2 (keep_except ev1 (keep_except (conflict_indices E (utxo_mempool cs) tx) (utxo_mempool cs))) @ [tx]" by simp
qed

section \<open>Histories of blocks and admissions\<close>

definition same_queues :: "chain_state \<Rightarrow> chain_state \<Rightarrow> bool" where
  "same_queues cs cs' \<longleftrightarrow> chain_id cs' = chain_id cs \<and> transparent_mempool cs' = transparent_mempool cs
     \<and> utxo_mempool cs' = utxo_mempool cs \<and> registry_mempool cs' = registry_mempool cs \<and> custody_mempool cs' = custody_mempool cs"

lemma same_queues_trans: "same_queues a b \<Longrightarrow> same_queues b c \<Longrightarrow> same_queues a c"
  by (simp add: same_queues_def)

lemma queues_frames:
  "insert_block E b d cs = Some cs' \<Longrightarrow> same_queues cs cs'"
  "order_main_chain cs = Some cs' \<Longrightarrow> same_queues cs cs'"
  "record_selected_chain_fee_samples E cs = Some cs' \<Longrightarrow> same_queues cs cs'"
  "refresh_difficulty lab cs = Some cs' \<Longrightarrow> same_queues cs cs'"
  "same_queues cs (capture_base cs)"
  "recompute_virtual_state E cs = Some cs' \<Longrightarrow> same_queues cs cs'"
  by (auto simp: same_queues_def insert_block_def order_main_chain_def record_selected_chain_fee_samples_def
      refresh_difficulty_def capture_base_def recompute_virtual_state_def Let_def split: option.splits)

lemma advance_queues: "advance_finalized_base E cs = Some cs' \<Longrightarrow> same_queues cs cs'"
  by (erule advance_cases) (simp_all add: same_queues_def)

lemma prune_bodies_queues: "same_queues cs (prune_bodies cs)"
proof -
  have "same_queues cs (fold (\<lambda>h cs. cs\<lparr>dag := (case hget (dag cs) h of None \<Rightarrow> dag cs | Some b \<Rightarrow> hput h (clear_body b) (dag cs)),
      reach := drop_leaf (reach cs) h\<rparr>) hs cs)" for hs
    by (induction hs arbitrary: cs) (simp_all add: same_queues_def)
  then show ?thesis by (simp add: prune_bodies_def Let_def same_queues_def)
qed

lemma prune_history_queues:
  assumes "prune_history E cs = Some cs'"
  shows "same_queues cs cs'"
proof -
  have c: "same_queues cs1 cs2" if cp: "cache_pruning_ledger E pp cs1 = Some cs2" for pp cs1 cs2
  proof -
    obtain r where "ledger_via_genesis_replay E cs1 pp = Some r" using cp by (auto simp: cache_pruning_ledger_def)
    then have "cs2 = cs1 \<or> (\<exists>l. cs2 = cs1\<lparr>pruning_ledger := Some l\<rparr>)"
      using cp by (cases r) (auto simp: cache_pruning_ledger_def split: if_splits)
    then show ?thesis by (elim disjE exE) (simp_all add: same_queues_def)
  qed
  have "cs' = cs \<or> (\<exists>pp i keep cs1. cache_pruning_ledger E pp (pruned_state pp i keep cs) = Some cs1 \<and> order_main_chain cs1 = Some cs')"
    using assms(1) unfolding prune_history_def Let_def by (auto split: if_splits option.splits)
  then show ?thesis
  proof (elim disjE exE conjE)
    fix pp i keep cs1
    assume s: "cache_pruning_ledger E pp (pruned_state pp i keep cs) = Some cs1" "order_main_chain cs1 = Some cs'"
    have "same_queues cs (pruned_state pp i keep cs)" by (simp add: same_queues_def pruned_state_def)
    from same_queues_trans [OF this same_queues_trans [OF c [OF s(1)] queues_frames(2) [OF s(2)]]] show ?thesis .
  qed (simp add: same_queues_def)
qed

lemma commit_queues:
  assumes "commit_block E lab b d cs = Some cs'"
  shows "\<exists>cs1. same_queues cs cs1 \<and> same_queues (drop_included_from_mempools E b cs1) cs'"
proof -
  from assms(1) obtain cs1 cs2 cs3 cs4 cs5 cs6
    where s: "insert_block E b d cs = Some cs1" "order_main_chain cs1 = Some cs2"
      "advance_finalized_base E (capture_base cs2) = Some cs3" "recompute_virtual_state E cs3 = Some cs4"
      "record_selected_chain_fee_samples E cs4 = Some cs5" "refresh_difficulty lab (drop_included_from_mempools E b cs5) = Some cs6"
      "prune_history E (prune_bodies cs6) = Some cs'"
    by (auto simp: commit_block_def bind_eq_Some_conv)
  note f = queues_frames(1) [OF s(1)] queues_frames(2) [OF s(2)] queues_frames(5) [of cs2] advance_queues [OF s(3)]
    queues_frames(6) [OF s(4)] queues_frames(3) [OF s(5)]
  have "same_queues cs cs5" using f by (simp add: same_queues_def)
  moreover have "same_queues (drop_included_from_mempools E b cs5) cs'"
    by (rule same_queues_trans [OF queues_frames(4) [OF s(6)] same_queues_trans [OF prune_bodies_queues prune_history_queues [OF s(7)]]])
  ultimately show ?thesis by blast
qed

definition queues_ok :: "env \<Rightarrow> chain_state \<Rightarrow> bool" where
  "queues_ok E cs \<longleftrightarrow> chain_id cs = CHAIN_ID \<and> transparent_mempool cs = [] \<and> utxo_pool_ok E CHAIN_ID (utxo_mempool cs)
     \<and> length (registry_mempool cs) \<le> 10000 \<and> distinct (map (\<lambda>op. (signer_address E op, r_nonce op)) (registry_mempool cs))
     \<and> (\<forall>op\<in>set (registry_mempool cs). r_chain_id op = CHAIN_ID \<and> registry_verify E op)
     \<and> length (custody_mempool cs) \<le> 10000 \<and> distinct (map (\<lambda>op. (cc_owner op, cc_nonce op, cc_kind op)) (custody_mempool cs))
     \<and> (\<forall>op\<in>set (custody_mempool cs). cc_chain_id op = CHAIN_ID \<and> cc_amount op > 0 \<and> cc_kind op \<in> {StakeLock, StakeUnlock})"

inductive node_hist :: "env \<Rightarrow> bool \<Rightarrow> bool \<Rightarrow> chain_state \<Rightarrow> bool" for E lab arch where
  start: "chain_new E lab = Some cs \<Longrightarrow> node_hist E lab arch (cs\<lparr>archival := arch\<rparr>)"
| block: "node_hist E lab arch cs \<Longrightarrow> length (dag cs) < 2 ^ 41 \<Longrightarrow> add_block E lab now pin b cs = Some (cs', res) \<Longrightarrow> node_hist E lab arch cs'"
| utxo: "node_hist E lab arch cs \<Longrightarrow> admit_utxo_to_mempool E now tx cs = (cs', res) \<Longrightarrow> node_hist E lab arch cs'"
| registry: "node_hist E lab arch cs \<Longrightarrow> admit_registry_to_mempool E public_mode op cs = (cs', res) \<Longrightarrow> node_hist E lab arch cs'"
| custody: "node_hist E lab arch cs \<Longrightarrow> admit_custody_to_mempool E public_mode cop cs = (cs', res) \<Longrightarrow> node_hist E lab arch cs'"

lemma utxo_pool_filter: "utxo_pool_ok E cid pool \<Longrightarrow> utxo_pool_ok E cid (filter P pool)"
proof -
  assume ok: "utxo_pool_ok E cid pool"
  have "sum_list (map f (filter P pool)) \<le> sum_list (map f pool)" for f :: "utxo_tx \<Rightarrow> nat" by (induction pool) auto
  then have "pool_bytes E (filter P pool) \<le> pool_bytes E pool" by (simp add: pool_bytes_def)
  moreover have "length (filter P pool) \<le> MAX_MEMPOOL_SIZE" using ok le_trans [OF length_filter_le [of P pool]] by (auto simp: utxo_pool_ok_def)
  ultimately show ?thesis using ok by (simp add: utxo_pool_ok_def distinct_map_filter distinct_concat_filter)
qed

lemma queues_ok_drop: "queues_ok E cs \<Longrightarrow> queues_ok E (drop_included_from_mempools E b cs)"
  unfolding queues_ok_def drop_included_from_mempools_def
  by (auto simp: utxo_pool_filter distinct_map_filter intro: le_trans [OF length_filter_le])

lemma queues_ok_cong: "same_queues cs cs' \<Longrightarrow> queues_ok E cs \<Longrightarrow> queues_ok E cs'"
  by (simp add: same_queues_def queues_ok_def)

lemma pool_frame_queues:
  assumes "pool_frame cs cs'"
  shows "chain_id cs' = chain_id cs" "transparent_mempool cs' = transparent_mempool cs"
    "registry_mempool cs' = registry_mempool cs" "custody_mempool cs' = custody_mempool cs"
  by (subst assms [unfolded pool_frame_def], simp)+

lemma pool_frame_core: "pool_frame cs cs' \<Longrightarrow> same_core cs cs'"
proof -
  assume "pool_frame cs cs'"
  then obtain p m bl where "cs' = cs\<lparr>utxo_mempool := p, tx_first_seen_ms := m, tx_first_seen_blue := bl\<rparr>" unfolding pool_frame_def by blast
  then show ?thesis by (simp add: same_core_def)
qed

lemma node_hist_queues: "node_hist E lab arch cs \<Longrightarrow> queues_ok E cs"
proof (induction rule: node_hist.induct)
  case (start cs)
  then show ?case
    by (auto simp: chain_new_def Let_def queues_ok_def utxo_pool_ok_def pool_bytes_def split: option.splits)
next
  case (block cs now pin b cs' res)
  from block.hyps(3) show ?case
  proof (cases rule: add_block_cases)
    case (added d)
    from commit_queues [OF added(2)] show ?thesis using block.IH queues_ok_drop queues_ok_cong by blast
  qed (use block.IH in simp)
next
  case (utxo cs now tx cs' res)
  have c: "utxo_pool_ok E (chain_id cs) (utxo_mempool cs)" using utxo.IH by (simp add: queues_ok_def)
  note e = admit_utxo_effect [OF c utxo.hyps(2)]
  show ?case using utxo.IH e(3) pool_frame_queues [OF e(1)] by (simp add: queues_ok_def)
next
  case (registry cs public_mode op cs' res)
  show ?case
  proof (cases "cs' = cs")
    case False
    then have "cs' = cs\<lparr>registry_mempool := registry_mempool cs @ [op]\<rparr>" "r_chain_id op = chain_id cs" "registry_verify E op"
      "length (registry_mempool cs) < aux_mempool_cap public_mode"
      "(signer_address E op, r_nonce op) \<notin> (\<lambda>op. (signer_address E op, r_nonce op)) ` set (registry_mempool cs)"
      using registry.hyps(2) unfolding admit_registry_to_mempool_def by (auto simp: list_ex_iff split: if_splits)
    then show ?thesis using registry.IH by (simp add: queues_ok_def aux_mempool_cap_def split: if_splits)
  qed (use registry.IH in simp)
next
  case (custody cs public_mode cop cs' res)
  show ?case
  proof (cases "cs' = cs")
    case False
    then have "cs' = cs\<lparr>custody_mempool := custody_mempool cs @ [cop]\<rparr>" "cc_chain_id cop = chain_id cs" "cc_amount cop > 0"
      "cc_kind cop \<noteq> BridgeExit" "cc_kind cop \<noteq> BridgeEnter" "length (custody_mempool cs) < aux_mempool_cap public_mode"
      "(cc_owner cop, cc_nonce cop, cc_kind cop) \<notin> (\<lambda>op. (cc_owner op, cc_nonce op, cc_kind op)) ` set (custody_mempool cs)"
      using custody.hyps(2) unfolding admit_custody_to_mempool_def by (auto simp: list_ex_iff split: if_splits sum.splits)
    then show ?thesis using custody.IH
      by (cases "cc_kind cop") (simp_all add: queues_ok_def aux_mempool_cap_def split: if_splits)
  qed (use custody.IH in simp)
qed

lemma admissions_core:
  "admit_utxo_to_mempool E now tx cs = (cs', res) \<Longrightarrow> queues_ok E cs \<Longrightarrow> same_core cs cs'"
  "admit_registry_to_mempool E public_mode op cs = (cs', res) \<Longrightarrow> same_core cs cs'"
  "admit_custody_to_mempool E public_mode cop cs = (cs', res) \<Longrightarrow> same_core cs cs'"
proof -
  assume a: "admit_utxo_to_mempool E now tx cs = (cs', res)" "queues_ok E cs"
  then have "pool_frame cs cs'" using admit_utxo_effect(1) [OF _ a(1)] by (simp add: queues_ok_def)
  then show "same_core cs cs'" by (rule pool_frame_core)
qed (auto simp: same_core_def admit_registry_to_mempool_def admit_custody_to_mempool_def split: if_splits sum.splits)

lemma node_hist_inv: "node_hist E lab True cs \<Longrightarrow> chain_inv E cs"
proof (induction rule: node_hist.induct)
  case (start cs)
  then show ?case by (rule chain_inv_start)
next
  case (block cs now pin b cs' res)
  then show ?case using add_block_inv by blast
next
  case (utxo cs now tx cs' res)
  then show ?case using admissions_core(1) [OF utxo.hyps(2) node_hist_queues [OF utxo.hyps(1)]] chain_inv_core by blast
next
  case (registry cs public_mode op cs' res)
  then show ?case using admissions_core(2) chain_inv_core by blast
next
  case (custody cs public_mode cop cs' res)
  then show ?case using admissions_core(3) chain_inv_core by blast
qed

lemma node_run_hist:
  assumes "node_run E lab arch cs"
  shows "node_hist E lab arch cs"
proof -
  obtain cs0 where c: "chain_new E lab = Some cs0" and s: "node_steps E lab (cs0\<lparr>archival := arch\<rparr>) cs" using assms by (auto simp: node_run_def)
  from s show ?thesis
  proof (induction rule: node_steps.induct)
    case refl
    show ?case by (rule node_hist.start [OF c])
  next
    case (block cs1 now pin b cs2 res)
    then show ?case by (blast intro: node_hist.block)
  qed
qed

lemma shared_fees_le:
  "sum_list (map u_fee (filter (shares_input tx) pool)) \<le> sum_list (map (\<lambda>i. u_fee (pool ! i)) (conflict_indices E pool tx))"
proof -
  define seeds where "seeds = filter (\<lambda>i. shares_input tx (pool ! i)) [0 ..< length pool]"
  have "map ((!) pool) seeds = filter (shares_input tx) pool"
    unfolding seeds_def by (metis (no_types, lifting) comp_apply filter_cong filter_map map_nth)
  then have "sum_list (map u_fee (filter (shares_input tx) pool)) = sum_list (map (\<lambda>i. u_fee (pool ! i)) seeds)"
    by (metis (mono_tags, lifting) comp_apply map_eq_conv map_map)
  also have "\<dots> = (\<Sum>i\<in>set seeds. u_fee (pool ! i))" by (rule sum_list_distinct_conv_sum_set) (simp add: seeds_def)
  also have "\<dots> \<le> (\<Sum>i\<in>set (conflict_indices E pool tx). u_fee (pool ! i))"
    by (rule sum_mono2) (use conflict_indices_ok(3) [of _ pool tx E] in \<open>auto simp: seeds_def\<close>)
  also have "\<dots> = sum_list (map (\<lambda>i. u_fee (pool ! i)) (conflict_indices E pool tx))"
    by (rule sum_list_distinct_conv_sum_set [symmetric]) (rule conflict_indices_ok(1))
  finally show ?thesis .
qed

section \<open>A concrete queue\<close>

definition demo_pool_env :: env where
  "demo_pool_env = demo_env\<lparr>blake3_512 := (\<lambda>bs. word_of_nat (length bs))\<rparr>"

definition demo_pay :: "nat list \<Rightarrow> nat \<Rightarrow> utxo_tx" where
  "demo_pay vs fee = \<lparr>inputs = [\<lparr>previous = OutPoint 1 0, in_relative_lock_blues = 0, witness = WPreimage []\<rparr>],
     outputs = map (\<lambda>v. \<lparr>o_value = v, o_predicate = HashLock 0, created_blue = 0\<rparr>) vs,
     u_lock_blue_score = 0, u_fee = fee, u_chain_id = CHAIN_ID, u_from_pubkey = [1], u_signature = [1]\<rparr>"

definition demo_pool_ledger :: ledger where
  "demo_pool_ledger = ledger_default\<lparr>utxo := \<lparr>entries = [(OutPoint 1 0, \<lparr>o_value = 9000,
     o_predicate = HashLock (hashlock_commitment demo_pool_env []), created_blue = 0\<rparr>)], spent = []\<rparr>\<rparr>"

definition demo_pool_state :: chain_state where
  "demo_pool_state = \<lparr>dag = [], tips = [], main_chain = [], live = demo_pool_ledger, difficulty = 1, chain_id = CHAIN_ID,
     transparent_mempool = [], utxo_mempool = [demo_pay [8000] 1000], registry_mempool = [], custody_mempool = [], ghostdag = [],
     reach = reach_new, archival = True, base = ledger_default, base_captured = False, base_frontier = None,
     pruning_point = None, pruning_ledger = None, pruned_selected_blocks = 0, tx_first_seen_ms = [], tx_first_seen_blue = [],
     fee_history = \<lparr>samples = [], max_blocks = 500\<rparr>\<rparr>"

lemmas demo_pool_simps = demo_pool_env_def demo_env_def demo_pay_def utxo_validate_form_def utxo_min_fee_required_def
  utxo_relay_bytes_def sat_mul128_def MIN_FEE_PER_BYTE_def MIN_TX_FEE_def UTXO_DUST_def utxo_verify_def verify_pq512_def
  verify_signature_def

lemma demo_pay_fields:
  "utxo_relay_bytes demo_pool_env (demo_pay vs fee) = 0" "u_fee (demo_pay vs fee) = fee" "u_chain_id (demo_pay vs fee) = CHAIN_ID"
  "map previous (inputs (demo_pay vs fee)) = [OutPoint 1 0]" "utxo_verify demo_pool_env (demo_pay vs fee)"
  by (simp_all add: demo_pool_simps)

lemma demo_pay_forms:
  "utxo_validate_form demo_pool_env (demo_pay [8000] 1000) = Ok ()" "utxo_validate_form demo_pool_env (demo_pay [3000, 3000] 3000) = Ok ()"
  by (simp_all add: demo_pool_simps)

lemma demo_pay_txids: "utxo_txid demo_pool_env (demo_pay [8000] 1000) \<noteq> utxo_txid demo_pool_env (demo_pay [3000, 3000] 3000)"
  by (simp add: utxo_txid_def digest512_def utxo_signing_bytes_def demo_pool_env_def demo_env_def demo_pay_def str_bytes_def)

lemma demo_queue_ok: "utxo_pool_ok demo_pool_env (chain_id demo_pool_state) (utxo_mempool demo_pool_state)"
  by (simp add: utxo_pool_ok_def demo_pool_state_def pool_bytes_def demo_pay_fields demo_pay_forms MAX_MEMPOOL_SIZE_def)

lemma demo_applies:
  "snd (apply_utxo_tx demo_pool_env (demo_pay [3000, 3000] 3000) 0 (utxo demo_pool_ledger, [], 0)) = Ok ()"
  using demo_pay_forms(2) demo_pay_fields(5)
  by (simp add: demo_pool_ledger_def ledger_default_def apply_utxo_tx_def check_utxo_tx_def)
    (simp add: demo_pay_def check_input_def utxo_get_def is_coinbase_def evaluate_full_def MAX_PRED_DEPTH_def
      checked_add128_def utxo_spend_def split: prod.splits)

lemma demo_replacement:
  "snd (admit_utxo_to_mempool demo_pool_env 0 (demo_pay [3000, 3000] 3000) demo_pool_state) = Ok ()"
proof -
  define tx where "tx = demo_pay [3000, 3000] 3000"
  have pool: "utxo_mempool demo_pool_state = [demo_pay [8000] 1000]" by (simp add: demo_pool_state_def)
  have sh: "shares_input tx (demo_pay [8000] 1000)" unfolding shares_input_iff tx_def demo_pay_fields by simp
  have ci: "conflict_indices demo_pool_env [demo_pay [8000] 1000] tx = [0]"
    using sh by (simp add: conflict_indices_def Let_def expand_conflicts.simps expand_pass_def)
  have pv: "utxo_mempool_preview demo_pool_env demo_pool_state [0] = (utxo demo_pool_ledger, [])"
    by (simp add: utxo_mempool_preview_def pool Let_def) (simp add: demo_pool_state_def demo_pool_ledger_def ledger_default_def)
  have sc: "selected_tip_blue_score demo_pool_state = 0"
    by (simp add: selected_tip_blue_score_def demo_pool_state_def tip_blue_score_def selected_tip_def max_by_score_def)
  have pk: "incoming_package demo_pool_env [demo_pay [8000] 1000] tx [0] = Ok 3000"
    by (simp add: incoming_package_def Let_def utxo_mempool_direct_parents_def ancestor_loop.simps wsum64_def wsum128_def
        tx_def demo_pay_fields sat_add64_def sat_add128_def MAX_UTXO_PACKAGE_COUNT_def MAX_UTXO_PACKAGE_BYTES_def)
  have rp: "replacement_pays demo_pool_env [demo_pay [8000] 1000] tx [0]"
    by (simp add: replacement_pays_def Let_def wsum128_def tx_def demo_pay_fields sat_add128_def MIN_TX_FEE_def)
  have ap: "snd (apply_utxo_tx demo_pool_env tx 0 (utxo demo_pool_ledger, [], 0)) = Ok ()" unfolding tx_def by (rule demo_applies)
  have ch: "admission_checks demo_pool_env tx demo_pool_state = Ok ([0], 3000)"
    using ap demo_pay_forms(2) demo_pay_fields(3,5) [of "[3000, 3000]" 3000] demo_pay_txids
    unfolding admission_checks_def Let_def pool ci pv sc pk by (auto simp: tx_def [symmetric] rp demo_pool_state_def split: prod.splits)
  have p0: "utxo_mempool (drop_all_queued demo_pool_env [0] demo_pool_state) = []"
    by (subst drop_all_pool) (simp_all add: pool keep_except_def)
  show ?thesis
    unfolding tx_def [symmetric] admit_utxo_to_mempool_def ch
    by (simp add: evict_bytes_def evict_count_def p0 Let_def wsum64_def sat_add64_def MAX_MEMPOOL_BYTES_def MAX_MEMPOOL_SIZE_def)
      (simp add: tx_def demo_pay_fields)
qed

section \<open>Properties\<close>



text \<open>
  Replacement is paid for: when an admission to a queue that keeps its invariant succeeds, the new transaction is queued, everything else in the
  queue was there before, no queued transaction that shares an input with it remains, and if there was one,
  the new fee exceeds the fees of all of them together by at least the minimum fee.
\<close>
theorem replacement_outbids:
  assumes ok: "utxo_pool_ok E (chain_id cs) (utxo_mempool cs)" and ad: "admit_utxo_to_mempool E now tx cs = (cs', Ok ())"
    and nowrap: "sum_list (map u_fee (utxo_mempool cs)) + MIN_TX_FEE < 2 ^ 128"
  shows "tx \<in> set (utxo_mempool cs') \<and> set (utxo_mempool cs') \<subseteq> insert tx (set (utxo_mempool cs))
    \<and> (\<forall>t\<in>set (utxo_mempool cs') - {tx}. \<not> shares_input tx t)
    \<and> ((\<exists>t\<in>set (utxo_mempool cs). shares_input tx t)
        \<longrightarrow> u_fee tx \<ge> sum_list (map u_fee (filter (shares_input tx) (utxo_mempool cs))) + MIN_TX_FEE)"
proof -
  define pool where "pool = utxo_mempool cs"
  define conflicts where "conflicts = conflict_indices E pool tx"
  from admit_utxo_effect(2) [OF ok ad HOL.refl] obtain rate ev1 ev2
    where a: "admission_checks E tx cs = Ok (conflicts, rate)" and p: "utxo_mempool cs' = keep_except ev2 (keep_except ev1 (keep_except conflicts pool)) @ [tx]"
    by (auto simp: conflicts_def pool_def)
  have sub: "set (keep_except ev2 (keep_except ev1 (keep_except conflicts pool))) \<subseteq> set (keep_except conflicts pool)"
    using keep_except_subset subset_trans by metis
  have un: "\<not> shares_input tx t" if "t \<in> set (keep_except conflicts pool)" for t using keep_unconflicted that unfolding conflicts_def by blast
  have "u_fee tx \<ge> sum_list (map u_fee (filter (shares_input tx) pool)) + MIN_TX_FEE" if "\<exists>t\<in>set pool. shares_input tx t"
  proof -
    have "conflicts \<noteq> []" using that conflict_indices_ok(3) [of _ pool tx E] by (auto simp: conflicts_def in_set_conv_nth)
    then have r: "replacement_pays E pool tx conflicts" using admission_checks_Ok(6) [OF a] by (simp add: pool_def)
    have c: "sum_list (map (\<lambda>i. u_fee (pool ! i)) conflicts) \<le> sum_list (map u_fee pool)"
      using sum_keep_except [of conflicts pool u_fee] conflict_indices_ok(1,2) [of E pool tx] by (simp add: conflicts_def)
    have "u_fee tx \<ge> sum_list (map (\<lambda>i. u_fee (pool ! i)) conflicts) + MIN_TX_FEE"
      using r c nowrap by (auto simp: replacement_pays_def Let_def wsum128_def sat_add128_def pool_def)
    moreover have "sum_list (map u_fee (filter (shares_input tx) pool)) \<le> sum_list (map (\<lambda>i. u_fee (pool ! i)) conflicts)"
      unfolding conflicts_def by (rule shared_fees_le)
    ultimately show ?thesis by simp
  qed
  then show ?thesis using p sub un keep_except_subset [of conflicts pool] by (auto simp: pool_def)
qed

theorem replacement_outbids_witness:
  "\<exists>cs'. admit_utxo_to_mempool demo_pool_env 0 (demo_pay [3000, 3000] 3000) demo_pool_state = (cs', Ok ())
    \<and> demo_pay [3000, 3000] 3000 \<in> set (utxo_mempool cs')
    \<and> (\<forall>t\<in>set (utxo_mempool cs') - {demo_pay [3000, 3000] 3000}. \<not> shares_input (demo_pay [3000, 3000] 3000) t)"
proof -
  obtain cs' where ad: "admit_utxo_to_mempool demo_pool_env 0 (demo_pay [3000, 3000] 3000) demo_pool_state = (cs', Ok ())"
    using demo_replacement by (metis prod.collapse)
  have "sum_list (map u_fee (utxo_mempool demo_pool_state)) + MIN_TX_FEE < 2 ^ 128"
    by (simp add: demo_pool_state_def demo_pay_fields MIN_TX_FEE_def)
  from replacement_outbids [OF demo_queue_ok ad this] ad show ?thesis by blast
qed

end
