(* ===== verification/Account_Pool.thy ===== *)
theory Account_Pool
  imports Mempool
begin

text \<open>
  The queue of account transfers and the fee estimates, \<open>src/lib.rs\<close>: package scores, admission with
  replacement and evictions, the balance precheck, the selection of transfers for a block, and the
  confirmation-target fee estimate over the fee history and both queues.

  A walk over nonces steps with \<open>saturating_add\<close>, so it does not end once it holds the largest nonce; such
  walks are partial functions, \<open>None\<close> for a walk that does not end. A \<open>BTreeMap\<close> over nonces is an
  association list whose keys are sorted where the code iterates. Sorting by a comparison function is
  insertion sort, which for a consistent comparison is the result of every stable sort.
\<close>

section \<open>Feerates and packages\<close>

definition MAX_MEMPOOL_PACKAGE_NONCES :: nat where "MAX_MEMPOOL_PACKAGE_NONCES = 25"

datatype ordering = Less | Equal | Greater

definition cmp_nat :: "nat \<Rightarrow> nat \<Rightarrow> ordering" where
  "cmp_nat a b = (if a < b then Less else if a = b then Equal else Greater)"

fun then_with :: "ordering \<Rightarrow> ordering \<Rightarrow> ordering" where
  "then_with Equal r = r"
| "then_with l _ = l"

fun reverse_ordering :: "ordering \<Rightarrow> ordering" where
  "reverse_ordering Less = Greater"
| "reverse_ordering Equal = Equal"
| "reverse_ordering Greater = Less"

fun insert_by :: "('a \<Rightarrow> 'a \<Rightarrow> ordering) \<Rightarrow> 'a \<Rightarrow> 'a list \<Rightarrow> 'a list" where
  "insert_by cmp x [] = [x]"
| "insert_by cmp x (y # ys) = (if cmp x y = Greater then y # insert_by cmp x ys else x # y # ys)"

definition sort_by :: "('a \<Rightarrow> 'a \<Rightarrow> ordering) \<Rightarrow> 'a list \<Rightarrow> 'a list" where
  "sort_by cmp xs = foldr (insert_by cmp) xs []"

fun min_by :: "('a \<Rightarrow> 'a \<Rightarrow> ordering) \<Rightarrow> 'a list \<Rightarrow> 'a option" where
  \<comment> \<open>\<open>Iterator::min_by\<close>\<close>
  "min_by cmp [] = None"
| "min_by cmp (x # xs) = Some (fold (\<lambda>y m. if cmp m y = Greater then y else m) xs x)"

definition cmp_package_feerate :: "nat \<Rightarrow> nat \<Rightarrow> nat \<Rightarrow> nat \<Rightarrow> ordering" where
  "cmp_package_feerate fee_a len_a fee_b len_b = cmp_nat (sat_mul128 fee_a (max len_b 1)) (sat_mul128 fee_b (max len_a 1))"

type_synonym nonce_map = "(nat, transparent_tx) hmap"

definition mempool_index_by_sender :: "transparent_tx list \<Rightarrow> (address, nonce_map) hmap" where
  "mempool_index_by_sender transfers =
     fold (\<lambda>tx m. hput (t_from tx) (hput (t_nonce tx) tx (hget_or [] m (t_from tx))) m) transfers []"

partial_function (option) contiguous_nonce_chain :: "nonce_map \<Rightarrow> nat \<Rightarrow> transparent_tx list option" where
  \<comment> \<open>\<open>while let Some(tx) = by_nonce.get(&n)\<close>\<close>
  "contiguous_nonce_chain by_nonce n =
     (case hget by_nonce n of
        None \<Rightarrow> Some []
      | Some tx \<Rightarrow> Option.bind (contiguous_nonce_chain by_nonce (sat_add64 n 1)) (\<lambda>out. Some (tx # out)))"

declare contiguous_nonce_chain.simps [code]

partial_function (option) package_walk :: "nonce_map \<Rightarrow> nat \<Rightarrow> nat \<Rightarrow> transparent_tx list \<Rightarrow> transparent_tx list option option" where
  "package_walk by_nonce n target out =
     (if n \<le> target
      then (case hget by_nonce n of
              None \<Rightarrow> Some None
            | Some tx \<Rightarrow> package_walk by_nonce (sat_add64 n 1) target (out @ [tx]))
      else Some (Some out))"

declare package_walk.simps [code]

definition ancestor_package :: "nonce_map \<Rightarrow> nat \<Rightarrow> nat \<Rightarrow> transparent_tx list option option" where
  "ancestor_package by_nonce tip_nonce target_nonce =
     (if target_nonce < tip_nonce then Some None else package_walk by_nonce tip_nonce target_nonce [])"

definition descendant_package_score :: "env \<Rightarrow> transparent_tx \<Rightarrow> (address, nonce_map) hmap \<Rightarrow> (nat \<times> nat) option" where
  "descendant_package_score E tx by_sender =
     (case hget by_sender (t_from tx) of
        None \<Rightarrow> Some (t_fee tx, max (transparent_relay_bytes E tx) 1)
      | Some by_nonce \<Rightarrow>
          map_option (\<lambda>chain.
             let bytes = fold (\<lambda>t b. sat_add64 b (transparent_relay_bytes E t)) chain 0
             in if bytes = 0 then (t_fee tx, max (transparent_relay_bytes E tx) 1)
                else (fold (\<lambda>t f. sat_add128 f (t_fee t)) chain 0, bytes))
           (contiguous_nonce_chain by_nonce (t_nonce tx)))"

partial_function (option) descendants_walk :: "env \<Rightarrow> nonce_map \<Rightarrow> nat \<Rightarrow> nat \<Rightarrow> nat \<Rightarrow> nat \<Rightarrow> (nat \<times> nat) option" where
  \<comment> \<open>the loop over higher nonces of \<open>incoming_package_score\<close>, which skips the transaction itself\<close>
  "descendants_walk E by_nonce own n tot bytes =
     (case hget by_nonce n of
        None \<Rightarrow> Some (tot, bytes)
      | Some t \<Rightarrow>
          if t_nonce t = own then descendants_walk E by_nonce own (sat_add64 n 1) tot bytes
          else descendants_walk E by_nonce own (sat_add64 n 1) (sat_add128 tot (t_fee t))
                 (sat_add64 bytes (transparent_relay_bytes E t)))"

declare descendants_walk.simps [code]

definition incoming_package_score :: "env \<Rightarrow> transparent_tx \<Rightarrow> transparent_tx list \<Rightarrow> nat \<Rightarrow> (nat \<times> nat) option" where
  "incoming_package_score E tx mempool tip_nonce =
     (let by_sender = mempool_index_by_sender (mempool @ [tx]);
          by_nonce = hidx by_sender (t_from tx)
      in case ancestor_package by_nonce tip_nonce (t_nonce tx) of
           None \<Rightarrow> None
         | Some None \<Rightarrow> descendant_package_score E tx by_sender
         | Some (Some pkg) \<Rightarrow>
             map_option (\<lambda>(tot, bytes). (tot, max bytes 1))
               (descendants_walk E by_nonce (t_nonce tx) (sat_add64 (t_nonce tx) 1)
                  (wsum128 (map t_fee pkg)) (wsum64 (map (transparent_relay_bytes E) pkg))))"

partial_function (option) fees_walk :: "transparent_tx list \<Rightarrow> address \<Rightarrow> nat \<Rightarrow> nat \<Rightarrow> nat option" where
  "fees_walk pool from n tot =
     (case find (\<lambda>t. t_from t = from \<and> t_nonce t = n) pool of
        None \<Rightarrow> Some tot
      | Some t \<Rightarrow> fees_walk pool from (sat_add64 n 1) (sat_add128 tot (t_fee t)))"

declare fees_walk.simps [code]

definition descendant_package_fees :: "transparent_tx list \<Rightarrow> address \<Rightarrow> nat \<Rightarrow> nat option" where
  "descendant_package_fees pool from start_nonce = fees_walk pool from start_nonce 0"

section \<open>Admission\<close>

fun package_balance :: "nat \<Rightarrow> transparent_tx list \<Rightarrow> unit result" where
  \<comment> \<open>the dry run over the debits of a package\<close>
  "package_balance bal [] = Ok ()"
| "package_balance bal (t # ts) =
     (case checked_add128 (t_amount t) (t_fee t) of
        None \<Rightarrow> Err ''amount+fee overflow''
      | Some need \<Rightarrow> if bal < need then Err ''Insufficient balance'' else package_balance (bal - need) ts)"

definition mempool_balance_precheck :: "chain_state \<Rightarrow> transparent_tx \<Rightarrow> unit result option" where
  "mempool_balance_precheck cs tx =
     (let tip = account_nonce (live cs) (t_from tx);
          queued = filter (\<lambda>t. t_from t = t_from tx) (transparent_mempool cs);
          by_nonce = hput (t_nonce tx) tx (fold (\<lambda>t m. hput (t_nonce t) t m) queued [])
      in map_option (\<lambda>pkg. package_balance (account_balance (live cs) (t_from tx)) (case pkg of None \<Rightarrow> [tx] | Some ts \<Rightarrow> ts))
           (ancestor_package by_nonce tip (t_nonce tx)))"

definition outbids :: "nat \<times> nat \<Rightarrow> nat \<times> nat \<Rightarrow> bool" where
  "outbids incoming lowest =
     (case (incoming, lowest) of
        ((fee_in, len_in), (fee_lo, len_lo)) \<Rightarrow>
          cmp_package_feerate fee_in len_in fee_lo len_lo = Greater
          \<or> (cmp_package_feerate fee_in len_in fee_lo len_lo = Equal \<and> fee_in > fee_lo))"

definition lowest_package :: "env \<Rightarrow> transparent_tx list \<Rightarrow> (address, nonce_map) hmap \<Rightarrow> (nat \<times> nat \<times> nat) option option" where
  \<comment> \<open>the queued transfer of least descendant-package feerate, with its index\<close>
  "lowest_package E pool by_sender =
     map_option (\<lambda>scores.
        min_by (\<lambda>(i, fee_a, len_a) (j, fee_b, len_b).
           then_with (cmp_package_feerate fee_a len_a fee_b len_b) (then_with (cmp_nat fee_a fee_b) (cmp_nat i j)))
          (zip [0 ..< length pool] scores))
      (those (map (\<lambda>t. descendant_package_score E t by_sender) pool))"

function evict_transfers ::
  "env \<Rightarrow> (address, nonce_map) hmap \<Rightarrow> nat \<Rightarrow> nat \<times> nat \<Rightarrow> transparent_tx list \<Rightarrow> (transparent_tx list \<times> unit result) option" where
  \<comment> \<open>the byte-budget loop; the index \<open>by_sender\<close> is the one taken before it, and \<open>i\<close> is always an index of the queue\<close>
  "evict_transfers E by_sender incoming_bytes score pool =
     (if sat_add64 (wsum64 (map (transparent_relay_bytes E) pool)) incoming_bytes \<le> MAX_MEMPOOL_BYTES then Some (pool, Ok ())
      else if pool = [] then Some (pool, Err ''Transparent mempool byte budget exceeded'')
      else
        (case lowest_package E pool by_sender of
           None \<Rightarrow> None
         | Some None \<Rightarrow> Some (pool, Err ''Transparent mempool byte budget exceeded'')
         | Some (Some (i, fee, len)) \<Rightarrow>
             if \<not> outbids score (fee, len) \<or> i \<ge> length pool then Some (pool, Err ''Transparent mempool byte budget exceeded'')
             else evict_transfers E by_sender incoming_bytes score (remove_at i pool)))"
  by pat_completeness auto
termination
  by (relation "measure (\<lambda>(E, m, b, s, pool). length pool)") (auto simp: remove_at_def)

declare evict_transfers.simps [simp del]

definition queue_position :: "transparent_tx \<Rightarrow> transparent_tx list \<Rightarrow> nat option" where
  \<comment> \<open>\<open>position(|t| t.from == tx.from && t.nonce == tx.nonce)\<close>\<close>
  "queue_position tx pool = List.find (\<lambda>i. t_from (pool ! i) = t_from tx \<and> t_nonce (pool ! i) = t_nonce tx) [0 ..< length pool]"

definition queue_transfer :: "env \<Rightarrow> nat \<Rightarrow> transparent_tx \<Rightarrow> transparent_tx list \<Rightarrow> chain_state \<Rightarrow> chain_state \<times> unit result" where
  "queue_transfer E now tx pool cs =
     (record_first_seen now (transparent_tx_hash E tx) (cs\<lparr>transparent_mempool := pool @ [tx]\<rparr>), Ok ())"

definition replace_or_push :: "env \<Rightarrow> nat \<Rightarrow> transparent_tx \<Rightarrow> nat \<Rightarrow> chain_state \<Rightarrow> (chain_state \<times> unit result) option" where
  \<comment> \<open>the admission from the replacement of a queued nonce on\<close>
  "replace_or_push E now tx tip cs =
     (let pool = transparent_mempool cs
      in case queue_position tx pool of
           Some i \<Rightarrow>
             map_option (\<lambda>descendant_fees.
                let old_package_fee = sat_add128 (t_fee (pool ! i)) descendant_fees;
                    new_package_fee = sat_add128 (t_fee tx) descendant_fees
                in if new_package_fee < sat_add128 old_package_fee MIN_TX_FEE
                   then (cs, Err ''Replacement (package RBF) must raise the package fee'')
                   else queue_transfer E now tx (remove_at i pool) cs)
              (descendant_package_fees pool (t_from tx) (sat_add64 (t_nonce tx) 1))
         | None \<Rightarrow>
             if length pool < MAX_MEMPOOL_SIZE then Some (queue_transfer E now tx pool cs)
             else
               (case lowest_package E pool (mempool_index_by_sender pool) of
                  None \<Rightarrow> None
                | Some None \<Rightarrow> Some (cs, Err ''Transparent mempool is full'')
                | Some (Some (i, fee, len)) \<Rightarrow>
                    map_option (\<lambda>score.
                       if \<not> outbids score (fee, len) then (cs, Err ''Transparent mempool is full'')
                       else queue_transfer E now tx (remove_at i pool) cs)
                     (incoming_package_score E tx pool tip)))"

definition make_room :: "env \<Rightarrow> transparent_tx \<Rightarrow> nat \<Rightarrow> chain_state \<Rightarrow> (chain_state \<times> unit result) option" where
  \<comment> \<open>byte-budget eviction, unless a queued nonce is replaced\<close>
  "make_room E tx tip cs =
     (let pool = transparent_mempool cs; incoming = transparent_relay_bytes E tx
      in if sat_add64 (wsum64 (map (transparent_relay_bytes E) pool)) incoming > MAX_MEMPOOL_BYTES \<and> queue_position tx pool = None
         then (case incoming_package_score E tx pool tip of
                 None \<Rightarrow> None
               | Some score \<Rightarrow>
                   map_option (\<lambda>(pool', r). (cs\<lparr>transparent_mempool := pool'\<rparr>, r))
                     (evict_transfers E (mempool_index_by_sender pool) incoming score pool))
         else Some (cs, Ok ()))"

definition admit_enabled :: "env \<Rightarrow> nat \<Rightarrow> transparent_tx \<Rightarrow> chain_state \<Rightarrow> (chain_state \<times> unit result) option" where
  \<comment> \<open>\<open>admit_transparent_to_mempool\<close> after the switch\<close>
  "admit_enabled E now tx cs =
     (case transparent_validate_form E tx of
        Inl e \<Rightarrow> Some (cs, Err e)
      | Inr _ \<Rightarrow>
          let tip = account_nonce (live cs) (t_from tx)
          in if t_chain_id tx \<noteq> chain_id cs then Some (cs, Err ''Wrong chain_id'')
             else if \<not> transparent_verify E tx then Some (cs, Err ''Invalid signature'')
             else if t_nonce tx < tip then Some (cs, Err ''Nonce already used'')
             else if as_u64 (t_nonce tx - tip + 1) > MAX_MEMPOOL_PACKAGE_NONCES then Some (cs, Err ''Package nonce depth exceeds limit'')
             else if t_fee tx < current_min_relay_fee E cs \<and> length (transparent_mempool cs) \<ge> MAX_MEMPOOL_SIZE
             then Some (cs, Err ''Fee below current min relay fee'')
             else
               (case mempool_balance_precheck cs tx of
                  None \<Rightarrow> None
                | Some (Inl e) \<Rightarrow> Some (cs, Err e)
                | Some (Inr _) \<Rightarrow>
                    (case make_room E tx tip cs of
                       None \<Rightarrow> None
                     | Some (cs1, Inl e) \<Rightarrow> Some (cs1, Err e)
                     | Some (cs1, Inr _) \<Rightarrow> replace_or_push E now tx tip cs1)))"

definition admit_transparent_to_mempool :: "env \<Rightarrow> nat \<Rightarrow> transparent_tx \<Rightarrow> chain_state \<Rightarrow> (chain_state \<times> unit result) option" where
  "admit_transparent_to_mempool E now tx cs =
     (if \<not> ACCOUNT_PEER_TRANSFERS then Some (cs, Err ''Account peer transfers disabled (v27); use UTXO for value moves'')
      else admit_enabled E now tx cs)"

section \<open>Selecting transfers for a block\<close>

record ranked =
  rk_from :: address
  rk_nonce :: nat
  pkg_fee :: nat
  pkg_len :: nat
  rk_fee :: nat
  rk_tx_hash :: hash

definition cmp_hash :: "hash \<Rightarrow> hash \<Rightarrow> ordering" where
  "cmp_hash a b = (if a < b then Less else if a = b then Equal else Greater)"

definition cmp_ranked :: "ranked \<Rightarrow> ranked \<Rightarrow> ordering" where
  "cmp_ranked a b =
     then_with (reverse_ordering (cmp_package_feerate (pkg_fee a) (pkg_len a) (pkg_fee b) (pkg_len b)))
       (then_with (cmp_nat (pkg_fee b) (pkg_fee a)) (then_with (cmp_nat (rk_fee b) (rk_fee a)) (cmp_hash (rk_tx_hash a) (rk_tx_hash b))))"

definition rank_transfer :: "env \<Rightarrow> chain_state \<Rightarrow> address \<Rightarrow> nonce_map \<Rightarrow> nat \<Rightarrow> ranked option option" where
  "rank_transfer E cs from by_nonce n =
     map_option (map_option (\<lambda>pkg.
        let tx = hidx by_nonce n
        in \<lparr>rk_from = from, rk_nonce = n, pkg_fee = wsum128 (map t_fee pkg),
            pkg_len = max (wsum64 (map (transparent_relay_bytes E) pkg)) 1, rk_fee = t_fee tx, rk_tx_hash = transparent_tx_hash E tx\<rparr>))
      (ancestor_package by_nonce (account_nonce (live cs) from) n)"

definition rank_all :: "env \<Rightarrow> chain_state \<Rightarrow> (address, nonce_map) hmap \<Rightarrow> ranked list option" where
  "rank_all E cs by_sender =
     map_option (\<lambda>rs. sort_by cmp_ranked (List.map_filter id rs))
       (those (concat (map (\<lambda>(from, by_nonce). map (rank_transfer E cs from by_nonce) (sort (hkeys by_nonce))) by_sender)))"

record select_state =
  s_bal :: "(address, nat) hmap"
  s_nonce :: "(address, nat) hmap"
  s_selected :: "(address \<times> nat) list"
  s_good :: "transparent_tx list"

fun try_package ::
  "env \<Rightarrow> chain_state \<Rightarrow> (address \<times> nat) list \<Rightarrow> transparent_tx list \<Rightarrow> (address, nat) hmap \<times> (address, nat) hmap \<times> transparent_tx list
    \<Rightarrow> ((address, nat) hmap \<times> (address, nat) hmap \<times> transparent_tx list) option" where
  \<comment> \<open>the loop over a package; \<open>None\<close> for \<open>ok = false\<close>\<close>
  "try_package E cs selected [] s = Some s"
| "try_package E cs selected (tx # txs) (bal, nonces, batch) =
     (if (t_from tx, t_nonce tx) \<in> set selected then try_package E cs selected txs (bal, nonces, batch)
      else if \<not> is_ok (transparent_validate_form E tx) \<or> t_chain_id tx \<noteq> chain_id cs \<or> \<not> transparent_verify E tx then None
      else
        let cur_nonce = hget_or (account_nonce (live cs) (t_from tx)) nonces (t_from tx)
        in if t_nonce tx \<noteq> cur_nonce then None
           else
             (case checked_add128 (t_amount tx) (t_fee tx) of
                None \<Rightarrow> None
              | Some debit \<Rightarrow>
                  let cur_bal = hget_or (account_balance (live cs) (t_from tx)) bal (t_from tx)
                  in if cur_bal < debit then None
                     else
                       (case checked_add128 (hget_or (account_balance (live cs) (t_to tx)) bal (t_to tx)) (t_amount tx) of
                          None \<Rightarrow> None
                        | Some new_to \<Rightarrow>
                            try_package E cs selected txs
                              (hput (t_to tx) new_to (hput (t_from tx) (cur_bal - debit) bal),
                               hput (t_from tx) (sat_add64 cur_nonce 1) nonces, batch @ [tx]))))"

definition select_candidate :: "env \<Rightarrow> chain_state \<Rightarrow> (address, nonce_map) hmap \<Rightarrow> ranked \<Rightarrow> select_state \<Rightarrow> select_state option" where
  "select_candidate E cs by_sender cand s =
     (let tip = hget_or (account_nonce (live cs) (rk_from cand)) (s_nonce s) (rk_from cand)
      in if (rk_from cand, rk_nonce cand) \<in> set (s_selected s) \<or> rk_nonce cand < tip then Some s
         else
           (case hget by_sender (rk_from cand) of
              None \<Rightarrow> Some s
            | Some by_nonce \<Rightarrow>
                map_option (\<lambda>pkg.
                   case pkg of
                     None \<Rightarrow> s
                   | Some txs \<Rightarrow>
                       (case try_package E cs (s_selected s) txs (s_bal s, s_nonce s, []) of
                          None \<Rightarrow> s
                        | Some (bal, nonces, batch) \<Rightarrow>
                            if batch = [] then s
                            else \<lparr>s_bal = bal, s_nonce = nonces, s_selected = s_selected s @ map (\<lambda>tx. (t_from tx, t_nonce tx)) batch,
                                  s_good = s_good s @ batch\<rparr>))
                 (ancestor_package by_nonce tip (rk_nonce cand))))"

fun select_candidates :: "env \<Rightarrow> chain_state \<Rightarrow> (address, nonce_map) hmap \<Rightarrow> ranked list \<Rightarrow> select_state \<Rightarrow> select_state option" where
  "select_candidates E cs by_sender [] s = Some s"
| "select_candidates E cs by_sender (c # cands) s =
     (case select_candidate E cs by_sender c s of None \<Rightarrow> None | Some s' \<Rightarrow> select_candidates E cs by_sender cands s')"

definition select_valid_block_txs :: "env \<Rightarrow> chain_state \<Rightarrow> transparent_tx list \<Rightarrow> transparent_tx list option" where
  "select_valid_block_txs E cs transfers =
     (if transfers = [] then Some []
      else
        let by_sender = mempool_index_by_sender transfers
        in case rank_all E cs by_sender of
             None \<Rightarrow> None
           | Some cands \<Rightarrow>
               map_option s_good (select_candidates E cs by_sender cands \<lparr>s_bal = [], s_nonce = [], s_selected = [], s_good = []\<rparr>))"

section \<open>Fee estimates\<close>

definition FEE_TARGET_HIGH_BLUES :: nat where "FEE_TARGET_HIGH_BLUES = 6"
definition FEE_TARGET_MEDIUM_BLUES :: nat where "FEE_TARGET_MEDIUM_BLUES = 20"
definition FEE_TARGET_LOW_BLUES :: nat where "FEE_TARGET_LOW_BLUES = 100"

definition fee_points :: "nat \<Rightarrow> fee_rate_history \<Rightarrow> (nat \<times> bool) list" where
  \<comment> \<open>one observation per recorded feerate; an unknown lag counts as 0\<close>
  "fee_points target fh =
     concat (map (\<lambda>s. map (\<lambda>i. (feerates s ! i, (if i < length (confirm_blues s) then confirm_blues s ! i else 0) \<le> target))
                        [0 ..< length (feerates s)]) (samples fh))"

definition rate_passes :: "(nat \<times> bool) list \<Rightarrow> nat \<Rightarrow> bool" where
  "rate_passes points candidate =
     (let above = filter (\<lambda>(r, _). r \<ge> candidate) points; tot = length above; ok = length (filter snd above)
      in tot \<noteq> 0 \<and> sat_mul64 ok 100 \<ge> sat_mul64 tot 85)"

fun rate_walk :: "(nat \<times> bool) list \<Rightarrow> nat list \<Rightarrow> nat option \<Rightarrow> nat option" where
  \<comment> \<open>from high to low: the last candidate that passes, stopping at the first failure after a pass\<close>
  "rate_walk points [] last_pass = last_pass"
| "rate_walk points (c # cs) last_pass =
     (if filter (\<lambda>(r, _). r \<ge> c) points = [] then rate_walk points cs last_pass
      else if rate_passes points c then rate_walk points cs (Some c)
      else if last_pass \<noteq> None then last_pass
      else rate_walk points cs last_pass)"

definition estimate_for_target_with_extra :: "nat \<Rightarrow> (nat \<times> bool) list \<Rightarrow> fee_rate_history \<Rightarrow> nat option" where
  "estimate_for_target_with_extra target extra fh =
     (let points = fee_points target fh @ extra
      in if points = [] \<or> \<not> list_ex snd points then None
         else rate_walk points (rev (sorted_list_of_set (set (map fst points)))) None)"

definition estimate_for_target :: "nat \<Rightarrow> fee_rate_history \<Rightarrow> nat option" where
  "estimate_for_target target fh = estimate_for_target_with_extra target [] fh"

definition mempool_pick :: "env \<Rightarrow> chain_state \<Rightarrow> nat \<Rightarrow> nat option" where
  \<comment> \<open>a percentile of the queued fees\<close>
  "mempool_pick E cs pct =
     (let fees = sort (map t_fee (transparent_mempool cs) @ map u_fee (utxo_mempool cs))
      in if fees = [] then None else Some (max (fees ! (((length fees - 1) * pct) div 100)) (current_min_relay_fee E cs)))"

definition waiting_points :: "env \<Rightarrow> chain_state \<Rightarrow> nat \<Rightarrow> (nat \<times> bool) list" where
  \<comment> \<open>queued transactions that have waited longer than the target count as failures\<close>
  "waiting_points E cs target =
     (let late = (\<lambda>h. case hget (tx_first_seen_blue cs) h of None \<Rightarrow> False | Some seen \<Rightarrow> selected_tip_blue_score cs - seen > target)
      in map (\<lambda>tx. (t_fee tx div max (transparent_relay_bytes E tx) 1, False))
           (filter (\<lambda>tx. late (transparent_tx_hash E tx)) (transparent_mempool cs))
         @ map (\<lambda>tx. (u_fee tx div max (utxo_relay_bytes E tx) 1, False))
             (filter (\<lambda>tx. late (utxo_txid E tx)) (utxo_mempool cs)))"

definition fee_tier :: "env \<Rightarrow> chain_state \<Rightarrow> nat \<Rightarrow> nat \<Rightarrow> nat" where
  "fee_tier E cs target pct =
     (let flr = current_min_relay_fee E cs
      in case estimate_for_target_with_extra target (waiting_points E cs target) (fee_history cs) of
           Some rate \<Rightarrow> max (sat_mul128 rate (max (pk_len E + sig_len E + 512) 1)) flr
         | None \<Rightarrow> (case mempool_pick E cs pct of None \<Rightarrow> flr | Some f \<Rightarrow> f))"

fun best_prefix :: "transparent_tx list \<Rightarrow> nat \<Rightarrow> nat \<Rightarrow> nat \<times> nat \<Rightarrow> nat \<times> nat" where
  \<comment> \<open>the best-scoring prefix of a nonce chain: \<open>running\<close> fees over \<open>i\<close> transfers so far\<close>
  "best_prefix [] i running best = best"
| "best_prefix (tx # txs) i running (best_fee, best_len) =
     (let running' = sat_add128 running (t_fee tx)
      in best_prefix txs (Suc i) running'
           (if outbids (running', Suc i) (best_fee, best_len) then (running', Suc i) else (best_fee, best_len)))"

definition mempool_package_stats :: "chain_state \<Rightarrow> (nat \<times> nat) option" where
  "mempool_package_stats cs =
     map_option (\<lambda>chains.
        let includable = filter (\<lambda>c. c \<noteq> []) chains
        in (length includable, fst (fold (\<lambda>c best. best_prefix c 0 0 best) includable (0, 1))))
      (those (map (\<lambda>(from, by_nonce). contiguous_nonce_chain by_nonce (account_nonce (live cs) from))
                (mempool_index_by_sender (transparent_mempool cs))))"

record fee_estimate =
  fe_low :: nat
  fe_medium :: nat
  fe_high :: nat
  fe_mempool_txs :: nat
  fe_package_count :: nat
  fe_best_package_fee :: nat

definition estimate_fee :: "env \<Rightarrow> chain_state \<Rightarrow> fee_estimate option" where
  "estimate_fee E cs =
     map_option (\<lambda>(package_count, best_package_fee).
        let low = fee_tier E cs FEE_TARGET_LOW_BLUES 10;
            medium = max (fee_tier E cs FEE_TARGET_MEDIUM_BLUES 50) low;
            high = max (fee_tier E cs FEE_TARGET_HIGH_BLUES 90) medium
        in \<lparr>fe_low = low, fe_medium = medium, fe_high = high,
            fe_mempool_txs = length (transparent_mempool cs) + length (utxo_mempool cs),
            fe_package_count = package_count, fe_best_package_fee = best_package_fee\<rparr>)
      (mempool_package_stats cs)"

end
