(* ===== verification/Account_Pool_Correct.thy ===== *)
theory Account_Pool_Correct
  imports Account_Pool Mempool_Correct
begin

text \<open>
  Correctness of the fee estimates: what a confirmation-target estimate claims about the recorded
  observations, and the order of the tiers. The account queue stays empty while account transfers are
  switched off.
\<close>

lemma rate_walk_ok:
  "\<lbrakk>rate_walk points cs last_pass = Some r; \<forall>p. last_pass = Some p \<longrightarrow> rate_passes points p\<rbrakk>
    \<Longrightarrow> rate_passes points r \<and> (r \<in> set cs \<or> last_pass = Some r)"
proof (induction cs arbitrary: last_pass)
  case (Cons c cs)
  show ?case
  proof (cases "filter (\<lambda>(r, _). r \<ge> c) points = []")
    case True
    then show ?thesis using Cons.IH [of last_pass] Cons.prems by auto
  next
    case False
    show ?thesis
    proof (cases "rate_passes points c")
      case True
      then have "rate_walk points cs (Some c) = Some r" using Cons.prems(1) False by simp
      from Cons.IH [OF this] True show ?thesis by auto
    next
      case F: False
      then have "(last_pass \<noteq> None \<and> last_pass = Some r) \<or> rate_walk points cs last_pass = Some r"
        using Cons.prems(1) False by (auto split: if_splits)
      then show ?thesis using Cons.IH [of last_pass] Cons.prems(2) by auto
    qed
  qed
qed simp

definition confirmed_share :: "(nat \<times> bool) list \<Rightarrow> nat \<Rightarrow> nat \<times> nat" where
  \<comment> \<open>of the observations at feerate \<open>r\<close> or above, how many met the target and how many there are\<close>
  "confirmed_share points r = (length (filter (\<lambda>(q, ok). q \<ge> r \<and> ok) points), length (filter (\<lambda>(q, ok). q \<ge> r) points))"

lemma rate_passes_share:
  assumes "rate_passes points r" and "length points < 2 ^ 57"
  shows "85 * snd (confirmed_share points r) \<le> 100 * fst (confirmed_share points r) \<and> 0 < snd (confirmed_share points r)"
proof -
  define n where "n = length (filter (\<lambda>(q, ok). q \<ge> r) points)"
  define k where "k = length (filter (\<lambda>(q, ok). q \<ge> r \<and> ok) points)"
  have f: "filter snd (filter (\<lambda>(q, ok). q \<ge> r) points) = filter (\<lambda>(q, ok). q \<ge> r \<and> ok) points" by (induction points) auto
  have n: "n < 2 ^ 57" "k < 2 ^ 57" using assms(2) le_less_trans [OF length_filter_le] by (simp_all add: n_def k_def)
  then have "sat_mul64 n 85 = n * 85" "sat_mul64 k 100 = k * 100" by (simp_all add: sat_mul64_def)
  moreover have "n \<noteq> 0 \<and> sat_mul64 n 85 \<le> sat_mul64 k 100"
    using assms(1) unfolding rate_passes_def Let_def f by (simp add: n_def k_def)
  ultimately show ?thesis by (simp add: confirmed_share_def n_def k_def)
qed

lemma estimate_sound:
  assumes "estimate_for_target_with_extra target extra fh = Some r"
  shows "rate_passes (fee_points target fh @ extra) r" "r \<in> fst ` set (fee_points target fh @ extra)"
proof -
  define points where "points = fee_points target fh @ extra"
  have "rate_walk points (rev (sorted_list_of_set (set (map fst points)))) None = Some r"
    using assms by (auto simp: estimate_for_target_with_extra_def Let_def points_def split: if_splits)
  from rate_walk_ok [OF this] show "rate_passes (fee_points target fh @ extra) r" "r \<in> fst ` set (fee_points target fh @ extra)"
    by (auto simp: points_def)
qed

lemma fee_tier_floor: "current_min_relay_fee E cs \<le> fee_tier E cs target pct"
  by (auto simp: fee_tier_def mempool_pick_def Let_def split: option.splits)

lemma admit_transparent_refused: "admit_transparent_to_mempool E now tx cs = Some (cs, Err ''Account peer transfers disabled (v27); use UTXO for value moves'')"
  by (simp add: admit_transparent_to_mempool_def ACCOUNT_PEER_TRANSFERS_def)

section \<open>Properties\<close>

text \<open>
  A fee estimate always returns in a node's history, its tiers are ordered, low at most medium at most high,
  and none is below the live relay floor. A confirmation-target estimate is a feerate that was observed, and of
  the observations at that feerate or above, queued transactions waiting longer than the target counted as
  failures, at least 85 in 100 met the target.
\<close>
theorem fee_estimate_sound:
  assumes hist: "node_hist E lab arch cs"
  shows "\<exists>fe. estimate_fee E cs = Some fe \<and> typical_signed_tx_min_fee E \<le> current_min_relay_fee E cs
    \<and> current_min_relay_fee E cs \<le> fe_low fe \<and> fe_low fe \<le> fe_medium fe \<and> fe_medium fe \<le> fe_high fe
    \<and> (\<forall>target r. let points = fee_points target (fee_history cs) @ waiting_points E cs target in
         length points < 2 ^ 57 \<longrightarrow> estimate_for_target_with_extra target (waiting_points E cs target) (fee_history cs) = Some r
         \<longrightarrow> r \<in> fst ` set points \<and> (case confirmed_share points r of (ok, tot) \<Rightarrow> 0 < tot \<and> 85 * tot \<le> 100 * ok))"
proof -
  have "transparent_mempool cs = []" using node_hist_queues [OF hist] by (simp add: queues_ok_def)
  then have "mempool_package_stats cs = Some (0, 0)" by (simp add: mempool_package_stats_def mempool_index_by_sender_def)
  then obtain fe where fe: "estimate_fee E cs = Some fe" "fe_low fe = fee_tier E cs FEE_TARGET_LOW_BLUES 10"
    "fe_low fe \<le> fe_medium fe" "fe_medium fe \<le> fe_high fe" by (simp add: estimate_fee_def Let_def)
  have flr: "typical_signed_tx_min_fee E \<le> current_min_relay_fee E cs" by (simp add: current_min_relay_fee_def Let_def)
  have "r \<in> fst ` set (fee_points target (fee_history cs) @ waiting_points E cs target)
      \<and> (case confirmed_share (fee_points target (fee_history cs) @ waiting_points E cs target) r of (ok, tot) \<Rightarrow> 0 < tot \<and> 85 * tot \<le> 100 * ok)"
    if "length (fee_points target (fee_history cs) @ waiting_points E cs target) < 2 ^ 57"
      "estimate_for_target_with_extra target (waiting_points E cs target) (fee_history cs) = Some r" for target r
    using estimate_sound [OF that(2)] rate_passes_share [OF _ that(1)] by (auto simp: split_def)
  then show ?thesis using fe flr fee_tier_floor [of E cs] unfolding Let_def by (intro exI [of _ fe]) simp
qed

theorem fee_estimate_sound_witness:
  "\<exists>cs fe. hget (dag cs) 7 = Some demo_b1 \<and> estimate_fee demo_chain_env cs = Some fe
    \<and> current_min_relay_fee demo_chain_env cs \<le> fe_low fe \<and> fe_low fe \<le> fe_medium fe \<and> fe_medium fe \<le> fe_high fe"
proof -
  obtain cs where c: "node_run demo_chain_env True True cs" "hget (dag cs) 7 = Some demo_b1" by (rule demo_node)
  from fee_estimate_sound [OF node_run_hist [OF c(1)]] c(2) show ?thesis by blast
qed

end
