(* ===== verification/Versionbits.thy ===== *)
theory Versionbits
  imports Chain
begin

text \<open>
  Soft-upgrade signalling, \<open>src/versionbits.rs\<close>: the version a miner advertises, the signalling bits and the
  state machine of a deployment over blue-score windows. The table \<open>DEPLOYMENTS\<close>, empty in the source, is
  the argument \<open>deps\<close> of the machine, so that its transitions can be stated for any table. The lists
  \<open>states\<close> and \<open>window_counts\<close> have the length of the table, as \<open>new\<close> sets them.
\<close>

unbundle bit_operations_syntax

definition VERSIONBITS_TOP_MASK :: "32 word" where "VERSIONBITS_TOP_MASK = 0xE0000000"
definition VERSIONBITS_NUM_BITS :: nat where "VERSIONBITS_NUM_BITS = 8"
definition SIGNAL_WINDOW :: nat where "SIGNAL_WINDOW = 1000"
definition SIGNAL_THRESHOLD :: nat where "SIGNAL_THRESHOLD = 750"

datatype deployment_state = Defined | Started | LockedIn | Active | Failed

record deployment =
  dep_name :: string
  dep_bit :: nat
  start_blue :: nat
  timeout_blue :: nat

definition DEPLOYMENTS :: "deployment list" where "DEPLOYMENTS = []"

definition miner_version :: "nat list \<Rightarrow> 32 word" where
  "miner_version sigs =
     fold (\<lambda>i v. if i < VERSIONBITS_NUM_BITS then v OR push_bit i 1 else v) sigs VERSIONBITS_TOP_BITS"

definition signals :: "32 word \<Rightarrow> nat \<Rightarrow> bool" where
  "signals ver i =
     (if i \<ge> VERSIONBITS_NUM_BITS then False
      else ver AND VERSIONBITS_TOP_MASK = VERSIONBITS_TOP_BITS \<and> ver AND push_bit i 1 \<noteq> 0)"

record version_bits_state =
  vb_states :: "deployment_state list"
  window_counts :: "nat list"
  window_start_blue :: nat

definition vb_new :: "deployment list \<Rightarrow> version_bits_state" where
  "vb_new deps = \<lparr>vb_states = replicate (length deps) Defined, window_counts = replicate (length deps) 0, window_start_blue = 0\<rparr>"

fun close_window :: "nat \<Rightarrow> deployment \<Rightarrow> deployment_state \<Rightarrow> nat \<Rightarrow> deployment_state" where
  \<comment> \<open>what the end of a window makes of a deployment that counted \<open>n\<close> signals in it\<close>
  "close_window blue dep Started n = (if n \<ge> SIGNAL_THRESHOLD then LockedIn else if blue \<ge> timeout_blue dep then Failed else Started)"
| "close_window blue dep LockedIn n = Active"
| "close_window blue dep s n = s"

definition observe_one :: "nat \<Rightarrow> 32 word \<Rightarrow> deployment \<Rightarrow> deployment_state \<times> nat \<Rightarrow> deployment_state \<times> nat" where
  \<comment> \<open>the second loop of \<open>observe\<close>, for one deployment\<close>
  "observe_one blue ver dep = (\<lambda>(s, n).
     (let s1 = (if s = Defined \<and> blue \<ge> start_blue dep then Started else s);
          n1 = (if (s1 = Started \<or> s1 = LockedIn) \<and> signals ver (dep_bit dep) then sat_add64 n 1 else n)
      in (if s1 = Started \<and> blue \<ge> timeout_blue dep then Failed else s1, n1)))"

definition observe :: "deployment list \<Rightarrow> nat \<Rightarrow> 32 word \<Rightarrow> version_bits_state \<Rightarrow> version_bits_state" where
  "observe deps blue ver st0 =
     (let st = (if vb_states st0 = [] then vb_new deps else st0);
          w = blue div SIGNAL_WINDOW;
          closing = (w > window_start_blue st div SIGNAL_WINDOW);
          states1 = (if closing then map (\<lambda>(d, s, n). close_window blue d s n) (zip deps (zip (vb_states st) (window_counts st))) else vb_states st);
          counts1 = (if closing then map (\<lambda>_. 0) deps else window_counts st);
          pairs = map (\<lambda>(d, p). observe_one blue ver d p) (zip deps (zip states1 counts1))
      in \<lparr>vb_states = map fst pairs, window_counts = map snd pairs,
          window_start_blue = (if closing then w * SIGNAL_WINDOW else window_start_blue st)\<rparr>)"

definition is_active :: "deployment list \<Rightarrow> version_bits_state \<Rightarrow> string \<Rightarrow> bool" where
  "is_active deps st name =
     (case List.find (\<lambda>i. dep_name (deps ! i) = name) [0 ..< length deps] of
        None \<Rightarrow> False
      | Some i \<Rightarrow> i < length (vb_states st) \<and> vb_states st ! i = Active)"

definition deployments_id :: "env \<Rightarrow> deployment list \<Rightarrow> hash" where
  "deployments_id E deps =
     blake3_512 E (str_bytes ''hassan-versionbits-v21''
       @ concat (map (\<lambda>d. str_bytes (dep_name d) @ [word_of_nat (dep_bit d)] @ le_bytes 8 (start_blue d)) deps))"

definition version_bits_status :: "deployment list \<Rightarrow> chain_state \<Rightarrow> version_bits_state" where
  "version_bits_status deps cs =
     fold (\<lambda>h st. case (hget (dag cs) h, hget (ghostdag cs) h) of
                    (Some b, Some gd) \<Rightarrow> observe deps (blue_score gd) (version b) st
                  | _ \<Rightarrow> st) (main_chain cs) (vb_new deps)"

end
