(* ===== verification/Versionbits_Correct.thy ===== *)
theory Versionbits_Correct
  imports Versionbits
begin

text \<open>
  The life cycle of a deployment: which transitions an observation can make, and that a deployment is locked
  in only by a window in which enough blocks signalled.
\<close>

section \<open>One deployment\<close>

inductive dep_step :: "deployment_state \<Rightarrow> deployment_state \<Rightarrow> bool" where
  stay: "dep_step s s"
| begin_signal: "dep_step Defined Started"
| late: "dep_step Defined Failed"
| lock_in: "dep_step Started LockedIn"
| fail: "dep_step Started Failed"
| activate: "dep_step LockedIn Active"

inductive_cases dep_step_ActiveE: "dep_step Active s"
inductive_cases dep_step_FailedE: "dep_step Failed s"

definition vb_ok :: "deployment list \<Rightarrow> version_bits_state \<Rightarrow> bool" where
  "vb_ok deps st \<longleftrightarrow> length (vb_states st) = length deps \<and> length (window_counts st) = length deps"

definition closes :: "nat \<Rightarrow> version_bits_state \<Rightarrow> bool" where
  "closes blue st \<longleftrightarrow> blue div SIGNAL_WINDOW > window_start_blue st div SIGNAL_WINDOW"

definition after_close :: "nat \<Rightarrow> deployment \<Rightarrow> version_bits_state \<Rightarrow> nat \<Rightarrow> deployment_state \<times> nat" where
  "after_close blue d st i = (if closes blue st then (close_window blue d (vb_states st ! i) (window_counts st ! i), 0)
     else (vb_states st ! i, window_counts st ! i))"

lemma vb_new_ok [simp]: "vb_ok deps (vb_new deps)"
  by (simp add: vb_ok_def vb_new_def)

lemma observe_ok: "vb_ok deps st \<Longrightarrow> vb_ok deps (observe deps blue ver st)"
  by (auto simp: vb_ok_def observe_def Let_def vb_new_def)

lemma observe_nth:
  assumes ok: "vb_ok deps st" and i: "i < length deps"
  shows "(vb_states (observe deps blue ver st) ! i, window_counts (observe deps blue ver st) ! i)
      = observe_one blue ver (deps ! i) (after_close blue (deps ! i) st i)"
    and "window_start_blue (observe deps blue ver st) = (if closes blue st then blue div SIGNAL_WINDOW * SIGNAL_WINDOW else window_start_blue st)"
proof -
  have ne: "vb_states st \<noteq> []" using ok i by (auto simp: vb_ok_def)
  then show "window_start_blue (observe deps blue ver st) = (if closes blue st then blue div SIGNAL_WINDOW * SIGNAL_WINDOW else window_start_blue st)"
    by (simp add: observe_def Let_def closes_def)
  show "(vb_states (observe deps blue ver st) ! i, window_counts (observe deps blue ver st) ! i)
      = observe_one blue ver (deps ! i) (after_close blue (deps ! i) st i)"
    using ok i ne by (simp add: observe_def Let_def vb_ok_def after_close_def closes_def)
qed

lemma observe_one_steps: "dep_step s (fst (observe_one blue ver d (s, n)))"
  by (cases s) (auto simp: observe_one_def Let_def intro: dep_step.intros)

lemma observe_step:
  assumes ok: "vb_ok deps st" and i: "i < length deps"
  shows "dep_step (vb_states st ! i) (vb_states (observe deps blue ver st) ! i)"
proof -
  obtain s n where a: "after_close blue (deps ! i) st i = (s, n)" by (meson surj_pair)
  have e: "vb_states (observe deps blue ver st) ! i = fst (observe_one blue ver (deps ! i) (s, n))"
    using observe_nth(1) [OF ok i, of blue ver] a by (metis fst_conv)
  show ?thesis
  proof (cases "vb_states st ! i")
    case Started
    then have "s = Started \<or> s = LockedIn \<or> s = Failed" using a by (auto simp: after_close_def split: if_splits)
    then show ?thesis unfolding e Started by (elim disjE) (auto simp: observe_one_def Let_def intro: dep_step.intros)
  next
    case LockedIn
    then have "s = LockedIn \<or> s = Active" using a by (auto simp: after_close_def split: if_splits)
    then show ?thesis unfolding e LockedIn by (elim disjE) (auto simp: observe_one_def Let_def intro: dep_step.intros)
  qed (use a observe_one_steps in \<open>auto simp: e after_close_def split: if_splits\<close>)
qed

section \<open>Counting signals\<close>

definition signalled :: "deployment \<Rightarrow> nat \<Rightarrow> (nat \<times> 32 word) list \<Rightarrow> nat" where
  \<comment> \<open>the observations of window \<open>w\<close>, after the start, that signal\<close>
  "signalled d w obs = length (filter (\<lambda>(b, v). b div SIGNAL_WINDOW = w \<and> start_blue d \<le> b \<and> signals v (dep_bit d)) obs)"

definition observe_all :: "deployment list \<Rightarrow> (nat \<times> 32 word) list \<Rightarrow> version_bits_state" where
  "observe_all deps obs = fold (\<lambda>(b, v). observe deps b v) obs (vb_new deps)"

definition count_inv :: "deployment list \<Rightarrow> (nat \<times> 32 word) list \<Rightarrow> nat \<Rightarrow> bool" where
  "count_inv deps obs i \<longleftrightarrow> (let st = observe_all deps obs; w = window_start_blue st div SIGNAL_WINDOW in
     vb_ok deps st \<and> (\<forall>(b, v)\<in>set obs. b div SIGNAL_WINDOW \<le> w) \<and> (obs = [] \<longrightarrow> w = 0) \<and> (obs \<noteq> [] \<longrightarrow> w = fst (last obs) div SIGNAL_WINDOW)
     \<and> window_counts st ! i \<le> signalled (deps ! i) w obs
     \<and> (vb_states st ! i \<noteq> Defined \<longrightarrow> (\<exists>(b, v)\<in>set obs. start_blue (deps ! i) \<le> b))
     \<and> (vb_states st ! i \<in> {LockedIn, Active} \<longrightarrow> (\<exists>v < w. SIGNAL_THRESHOLD \<le> signalled (deps ! i) v obs)))"

lemma signalled_snoc: "signalled d w (obs @ [(b, v)])
    = signalled d w obs + (if b div SIGNAL_WINDOW = w \<and> start_blue d \<le> b \<and> signals v (dep_bit d) then 1 else 0)"
  by (simp add: signalled_def)

lemma count_step:
  assumes inv: "count_inv deps obs i" and i: "i < length deps" and mono: "\<forall>(b', v')\<in>set obs. b' \<le> b"
  shows "count_inv deps (obs @ [(b, v)]) i"
proof -
  define st where "st = observe_all deps obs"
  define st' where "st' = observe deps b v st"
  define d where "d = deps ! i"
  define w where "w = window_start_blue st div SIGNAL_WINDOW"
  define w' where "w' = window_start_blue st' div SIGNAL_WINDOW"
  have I: "vb_ok deps st" "obs = [] \<longrightarrow> w = 0" "obs \<noteq> [] \<longrightarrow> w = fst (last obs) div SIGNAL_WINDOW"
    "window_counts st ! i \<le> signalled d w obs" "vb_states st ! i \<noteq> Defined \<longrightarrow> (\<exists>(b, v)\<in>set obs. start_blue d \<le> b)"
    "vb_states st ! i \<in> {LockedIn, Active} \<longrightarrow> (\<exists>v < w. SIGNAL_THRESHOLD \<le> signalled d v obs)"
    "\<forall>(b, v)\<in>set obs. b div SIGNAL_WINDOW \<le> w"
    using inv unfolding count_inv_def Let_def st_def d_def w_def by auto
  have st': "observe_all deps (obs @ [(b, v)]) = st'" by (simp add: observe_all_def st'_def st_def)
  have pos: "0 < SIGNAL_WINDOW" by (simp add: SIGNAL_WINDOW_def)
  have wb: "w \<le> b div SIGNAL_WINDOW"
  proof (cases "obs = []")
    case False
    then have "fst (last obs) \<le> b" using mono last_in_set [OF False] by (metis case_prodD prod.collapse)
    then show ?thesis using I(3) False div_le_mono by simp
  qed (use I(2) in simp)
  have w': "w' = b div SIGNAL_WINDOW"
    using observe_nth(2) [OF I(1) i, of b v] wb pos by (auto simp: w'_def st'_def closes_def w_def)
  have cl: "closes b st \<longleftrightarrow> w < w'" by (simp add: closes_def w' w_def)
  obtain s n where a: "after_close b d st i = (s, n)" by (meson surj_pair)
  have e: "(vb_states st' ! i, window_counts st' ! i) = observe_one b v d (s, n)"
    using observe_nth(1) [OF I(1) i, of b v] a by (simp add: st'_def d_def)
  have n: "n \<le> signalled d w' obs"
    using a I(4) wb w' by (auto simp: after_close_def cl split: if_splits)
  have s_started: "s \<noteq> Defined \<longrightarrow> (\<exists>(b, v)\<in>set obs. start_blue d \<le> b)"
    using a I(5) by (cases "vb_states st ! i") (auto simp: after_close_def split: if_splits)
  have s_locked: "\<exists>x < w'. SIGNAL_THRESHOLD \<le> signalled d x obs" if "s \<in> {LockedIn, Active}"
  proof (cases "vb_states st ! i \<in> {LockedIn, Active}")
    case True
    then show ?thesis using I(6) wb w' by (meson less_le_trans)
  next
    case False
    then have "w < w'" "SIGNAL_THRESHOLD \<le> window_counts st ! i"
      using a that by (cases "vb_states st ! i"; auto simp: after_close_def cl split: if_splits)+
    then show ?thesis using I(4) by (meson le_trans)
  qed
  have sb: "start_blue d \<le> b" if "s \<noteq> Defined"
  proof -
    obtain b' v' where "(b', v') \<in> set obs" "start_blue d \<le> b'" using s_started \<open>s \<noteq> Defined\<close> by blast
    then show ?thesis using mono le_trans by blast
  qed
  have more: "signalled d x obs \<le> signalled d x (obs @ [(b, v)])" for x by (simp add: signalled_snoc)
  have cnt: "window_counts st' ! i \<le> signalled d w' (obs @ [(b, v)])"
    using e n sb w' by (auto simp: observe_one_def Let_def signalled_snoc sat_add64_def split: if_splits)
  have strt: "vb_states st' ! i \<noteq> Defined \<longrightarrow> (\<exists>(b, v)\<in>set (obs @ [(b, v)]). start_blue d \<le> b)"
    using e sb by (auto simp: observe_one_def Let_def split: if_splits)
  have lck: "vb_states st' ! i \<in> {LockedIn, Active} \<longrightarrow> (\<exists>x < w'. SIGNAL_THRESHOLD \<le> signalled d x (obs @ [(b, v)]))"
  proof
    assume "vb_states st' ! i \<in> {LockedIn, Active}"
    then have "s \<in> {LockedIn, Active}" using e by (auto simp: observe_one_def Let_def split: if_splits)
    from s_locked [OF this] more show "\<exists>x < w'. SIGNAL_THRESHOLD \<le> signalled d x (obs @ [(b, v)])" by (meson le_trans)
  qed
  have "\<forall>(b', v')\<in>set (obs @ [(b, v)]). b' div SIGNAL_WINDOW \<le> w'" using I(7) wb w' by (auto intro: le_trans)
  then show ?thesis
    unfolding count_inv_def Let_def st' w'_def [symmetric] d_def [symmetric]
    using observe_ok [OF I(1)] cnt strt lck w' by (auto simp: st'_def)
qed

lemma count_all:
  "sorted (map fst obs) \<Longrightarrow> i < length deps \<Longrightarrow> count_inv deps obs i"
proof (induction obs rule: rev_induct)
  case Nil
  then show ?case by (simp add: count_inv_def Let_def observe_all_def vb_new_def vb_ok_def)
next
  case (snoc p obs)
  obtain b v where p: "p = (b, v)" by (cases p)
  have "\<forall>(b', v')\<in>set obs. b' \<le> b" using snoc.prems(1) by (auto simp: p sorted_append)
  moreover have "count_inv deps obs i" using snoc by (simp add: sorted_append)
  ultimately show ?case unfolding p using count_step snoc.prems(2) by blast
qed

section \<open>Properties\<close>

text \<open>
  C35. A deployment follows its life cycle. Along any selected chain, that is, any sequence of observations with
  scores that do not decrease, an observation moves a deployment only from defined to started, from started to
  locked in, from locked in to active, or from an unlocked state to failed; active and failed are final; and a
  deployment that is locked in or active had a closed window in which at least 750 blocks, all past its start,
  signalled its bit.
\<close>
theorem deployment_lifecycle:
  assumes mono: "sorted (map fst obs)" and i: "i < length deps"
  shows "dep_step (vb_states (observe_all deps obs) ! i) (vb_states (observe deps b v (observe_all deps obs)) ! i)
    \<and> (vb_states (observe_all deps obs) ! i \<in> {LockedIn, Active} \<longrightarrow>
        (\<exists>w. 750 \<le> length (filter (\<lambda>(b, v). b div 1000 = w \<and> start_blue (deps ! i) \<le> b \<and> signals v (dep_bit (deps ! i))) obs)
          \<and> (\<exists>(b, v)\<in>set obs. w < b div 1000)))"
proof -
  define st where "st = observe_all deps obs"
  define w where "w = window_start_blue st div SIGNAL_WINDOW"
  have c: "vb_ok deps st" "obs = [] \<longrightarrow> w = 0" "obs \<noteq> [] \<longrightarrow> w = fst (last obs) div SIGNAL_WINDOW"
    "vb_states st ! i \<in> {LockedIn, Active} \<longrightarrow> (\<exists>x < w. SIGNAL_THRESHOLD \<le> signalled (deps ! i) x obs)"
    using count_all [OF assms] unfolding count_inv_def Let_def st_def w_def by auto
  have "\<exists>x. SIGNAL_THRESHOLD \<le> signalled (deps ! i) x obs \<and> (\<exists>(b, v)\<in>set obs. x < b div SIGNAL_WINDOW)" if "vb_states st ! i \<in> {LockedIn, Active}"
  proof -
    obtain x where x: "x < w" "SIGNAL_THRESHOLD \<le> signalled (deps ! i) x obs" using c(4) \<open>vb_states st ! i \<in> {LockedIn, Active}\<close> by blast
    then have ne: "obs \<noteq> []" using c(2) by auto
    have "last obs \<in> set obs" "x < fst (last obs) div SIGNAL_WINDOW" using ne x(1) c(3) by auto
    then show ?thesis using x(2) by (intro exI [of _ x] conjI bexI [of _ "last obs"]) auto
  qed
  then show ?thesis
    using observe_step [OF c(1) i, of b v] by (simp add: st_def SIGNAL_THRESHOLD_def signalled_def SIGNAL_WINDOW_def)
qed

definition demo_dep :: deployment where
  "demo_dep = \<lparr>dep_name = ''x'', dep_bit = 1, start_blue = 0, timeout_blue = 5000\<rparr>"

theorem deployment_lifecycle_witness:
  "dep_step (vb_states (observe_all [demo_dep] [(5, 0x20000002)]) ! 0)
     (vb_states (observe [demo_dep] 6000 0 (observe_all [demo_dep] [(5, 0x20000002)])) ! 0)"
proof -
  have "sorted (map fst [(5 :: nat, 0x20000002 :: 32 word)])" "0 < length [demo_dep]" by simp_all
  from deployment_lifecycle [OF this, of 6000 0] show ?thesis by (rule conjunct1)
qed

end
