(* ===== verification/Mining.thy ===== *)
theory Mining
  imports Account_Pool Versionbits
begin

text \<open>
  Block production, \<open>src/consensus.rs\<close>: the template built from the tips and the queues, the trimming of its
  body to the size limits, the search for a nonce and the assembly of the block with its witnesses, and
  the shares a pool accepts.

  The threads, the pacing and the deadline are left out: the nonces a search gets to try are the argument
  \<open>tried\<close>, in any order. The clock readings, the ML-DSA signer \<open>sign\<close> and the STARK prover \<open>prove\<close> are
  arguments. An \<open>expect\<close> that fails aborts the process; it is an error whose text begins with \<open>panic\<close>.
\<close>

section \<open>Data\<close>

record miner_info =
  m_address :: address
  m_public_key :: bytes
  m_signing_key :: "bytes option"

record mining_work =
  block_template :: block
  w_target :: hash

record stratum_share =
  share_nonce :: nat
  share_miner :: address
  share_result :: hash

record consensus_engine =
  miners :: "miner_info list"
  pool_shares :: "stratum_share list"
  running :: bool

definition engine_new :: consensus_engine where
  "engine_new = \<lparr>miners = [], pool_shares = [], running = False\<rparr>"

definition register_miner :: "miner_info \<Rightarrow> consensus_engine \<Rightarrow> consensus_engine" where
  "register_miner m e = e\<lparr>miners := miners e @ [m]\<rparr>"

definition submit_share :: "chain_state \<Rightarrow> stratum_share \<Rightarrow> consensus_engine \<Rightarrow> consensus_engine \<times> unit result" where
  "submit_share cs share e =
     (if \<not> verify_pow (share_result share) (difficulty cs) then (e, Err ''Share below target'')
      else (e\<lparr>pool_shares := pool_shares e @ [share]\<rparr>, Ok ()))"

section \<open>The template\<close>

definition template_parents :: "chain_state \<Rightarrow> hash list" where
  "template_parents cs =
     take MAX_BLOCK_PARENTS
       (sort_key (\<lambda>h. (- int (case hget (ghostdag cs) h of None \<Rightarrow> 0 | Some d \<Rightarrow> blue_score d), - uint h)) (tips cs))"

definition template_body :: "env \<Rightarrow> bool \<Rightarrow> nat \<Rightarrow> nat \<Rightarrow> chain_state \<Rightarrow> block option" where
  \<comment> \<open>the block literal, before its commitments are bound\<close>
  "template_body E lab now entropy cs =
     (case expected_difficulty_at lab (dag cs) (ghostdag cs) (minted_supply (live cs)) (template_parents cs) now of
        None \<Rightarrow> None
      | Some d \<Rightarrow>
          map_option (\<lambda>transfers.
             \<lparr>height = wadd64 (pruned_selected_blocks cs) (length (main_chain cs)), timestamp = now, parents = template_parents cs,
              interlinks = [], transparent_txs = take 1000 transfers,
              utxo_txs = take 1000 (select_valid_utxo_txs E cs (utxo_mempool cs)),
              registry_ops = select_valid_registry_ops E cs (take 500 (registry_mempool cs)),
              custody_ops = select_valid_custody_ops E cs (take 200 (custody_mempool cs)),
              b_merkle_root = 0, b_state_root = 0, miner = 0, creator_pubkey = [], b_nonce = 0, b_difficulty = d,
              version = miner_version [0, 1, 2], coinbase_entropy = entropy, stark_proof = replicate 64 0,
              birth_certificate = [], b_size = 0\<rparr>)
            (select_valid_block_txs E cs (transparent_mempool cs)))"

definition too_big :: "env \<Rightarrow> block \<Rightarrow> bool" where
  "too_big E b \<longleftrightarrow> \<not> verify_size E b \<or> length (ser_block E b) > MAX_BLOCK_BYTES"

definition min_fee_index :: "('a \<Rightarrow> nat) \<Rightarrow> 'a list \<Rightarrow> nat option" where
  \<comment> \<open>\<open>iter().enumerate().min_by_key(|(_, t)| t.fee)\<close>\<close>
  "min_fee_index fee xs = map_option fst (min_by_key (\<lambda>(i, f). f) (zip [0 ..< length xs] (map fee xs)))"

definition trim_step :: "block \<Rightarrow> block option" where
  \<comment> \<open>one round of the trimming loop, \<open>None\<close> for its \<open>break\<close>\<close>
  "trim_step b =
     (case min_fee_index t_fee (transparent_txs b) of
        Some i \<Rightarrow> Some (b\<lparr>transparent_txs := remove_at i (transparent_txs b)\<rparr>)
      | None \<Rightarrow>
          (case min_fee_index u_fee (utxo_txs b) of
             Some i \<Rightarrow> Some (b\<lparr>utxo_txs := remove_at i (utxo_txs b)\<rparr>)
           | None \<Rightarrow>
               if registry_ops b \<noteq> [] then Some (b\<lparr>registry_ops := butlast (registry_ops b)\<rparr>)
               else if custody_ops b \<noteq> [] then Some (b\<lparr>custody_ops := butlast (custody_ops b)\<rparr>)
               else None))"

definition body_length :: "block \<Rightarrow> nat" where
  "body_length b = length (transparent_txs b) + length (utxo_txs b) + length (registry_ops b) + length (custody_ops b)"

lemma min_fee_index_less:
  assumes "min_fee_index fee xs = Some i"
  shows "i < length xs"
proof -
  have in_set: "min_by_key f ys = Some y \<Longrightarrow> y \<in> set ys" for f :: "'b \<Rightarrow> nat" and ys y
    by (induction ys arbitrary: y) (auto split: option.splits if_splits)
  obtain f where "min_by_key (\<lambda>(i, f). f) (zip [0 ..< length xs] (map fee xs)) = Some (i, f)" using assms by (auto simp: min_fee_index_def)
  from in_set [OF this] show ?thesis by (auto dest: set_zip_leftD)
qed

lemma trim_step_shrinks: "trim_step b = Some b' \<Longrightarrow> body_length b' < body_length b"
  by (auto simp: trim_step_def body_length_def remove_at_def split: option.splits if_splits dest!: min_fee_index_less)

function trim_template :: "env \<Rightarrow> block \<Rightarrow> block" where
  "trim_template E b =
     (if too_big E b then (case trim_step b of None \<Rightarrow> b | Some b' \<Rightarrow> trim_template E b') else b)"
  by pat_completeness auto
termination by (relation "measure (\<lambda>(E, b). body_length b)") (auto simp: trim_step_shrinks)

declare trim_template.simps [simp del]

definition create_block_template :: "env \<Rightarrow> bool \<Rightarrow> nat \<Rightarrow> nat \<Rightarrow> chain_state \<Rightarrow> mining_work result option" where
  "create_block_template E lab now entropy cs =
     (case template_body E lab now entropy cs of
        None \<Rightarrow> None
      | Some b \<Rightarrow>
          (case bind_parent_commitments E cs b of
             None \<Rightarrow> None
           | Some (Inl e) \<Rightarrow> Some (Err (''panic: template parents must yield a selected parent: '' @ e))
           | Some (Inr b1) \<Rightarrow>
               let b2 = trim_template E b1; b3 = b2\<lparr>b_merkle_root := block_merkle_root E b2\<rparr>
               in case bind_parent_commitments E cs b3 of
                    None \<Rightarrow> None
                  | Some (Inl e) \<Rightarrow> Some (Err (''panic: post-trim commitments: '' @ e))
                  | Some (Inr b4) \<Rightarrow> Some (Ok \<lparr>block_template = b4, w_target = pow_target (b_difficulty b4)\<rparr>)))"

section \<open>Search and assembly\<close>

definition with_identity :: "env \<Rightarrow> bytes \<Rightarrow> block \<Rightarrow> block" where
  \<comment> \<open>the miner's key and reward digest, and the body commitment over the unchanged body\<close>
  "with_identity E pk b = (let b' = b\<lparr>miner := address_hash E pk, creator_pubkey := pk\<rparr> in b'\<lparr>b_merkle_root := block_merkle_root E b'\<rparr>)"

definition check_miner_shares :: "env \<Rightarrow> nat list \<Rightarrow> chain_state \<Rightarrow> miner_info list \<Rightarrow> mining_work \<Rightarrow> stratum_share option option" where
  "check_miner_shares E tried cs ms work =
     (case ms of
        [] \<Rightarrow> Some None
      | m # _ \<Rightarrow>
          if \<not> address_matches_pubkey E (m_address m) (m_public_key m) then Some None
          else
            (case bind_parent_commitments E cs (with_identity E (m_public_key m) (block_template work)) of
               None \<Rightarrow> None
             | Some (Inl _) \<Rightarrow> Some None
             | Some (Inr b) \<Rightarrow>
                 Some (map_option (\<lambda>n. \<lparr>share_nonce = n, share_miner = m_address m, share_result = block_hash E (b\<lparr>b_nonce := n\<rparr>)\<rparr>)
                   (List.find (\<lambda>n. hash_meets_target (block_hash E (b\<lparr>b_nonce := n\<rparr>)) (w_target work)) tried))))"

definition issue_birth_certificate ::
  "env \<Rightarrow> (bytes \<Rightarrow> bytes \<Rightarrow> bytes result) \<Rightarrow> bytes \<Rightarrow> block \<Rightarrow> block result" where
  "issue_birth_certificate E sign secret b =
     (case sign secret (hash_bytes (digest512 E ''birth-certificate'' (hash_bytes (settlement_id E b)))) of
        Inl e \<Rightarrow> Err e
      | Inr sg \<Rightarrow> Ok (b\<lparr>birth_certificate := sg\<rparr>))"

definition assemble_block ::
  "env \<Rightarrow> (bytes \<Rightarrow> bytes \<Rightarrow> bytes result) \<Rightarrow> (hash \<Rightarrow> bytes) \<Rightarrow> chain_state \<Rightarrow> miner_info list \<Rightarrow> mining_work \<Rightarrow> stratum_share
   \<Rightarrow> block result option" where
  "assemble_block E sign prove cs ms work share =
     (case List.find (\<lambda>m. m_address m = share_miner share) ms of
        None \<Rightarrow> Some (Err ''No registered miner for share address'')
      | Some m \<Rightarrow>
          (case m_signing_key m of
             None \<Rightarrow> Some (Err ''Miner has no signing key for birth certificate'')
           | Some sk \<Rightarrow>
               if \<not> address_matches_pubkey E (share_miner share) (m_public_key m)
               then Some (Err ''Share miner address does not match creator pubkey'')
               else
                 (case bind_parent_commitments E cs (with_identity E (m_public_key m) ((block_template work)\<lparr>b_nonce := share_nonce share\<rparr>)) of
                    None \<Rightarrow> None
                  | Some (Inl e) \<Rightarrow> Some (Err e)
                  | Some (Inr b) \<Rightarrow>
                      (case issue_birth_certificate E sign sk b of
                         Inl e \<Rightarrow> Some (Err e)
                       | Inr b1 \<Rightarrow>
                           let b2 = b1\<lparr>stark_proof := prove (block_hash E b1)\<rparr>
                           in Some (Ok (b2\<lparr>b_size := length (ser_block E b2)\<rparr>))))))"

definition solo_share :: "env \<Rightarrow> nat list \<Rightarrow> miner_info \<Rightarrow> mining_work \<Rightarrow> stratum_share option" where
  \<comment> \<open>\<open>SoloMiner::start_mining\<close>, which does not bind the commitments to the new miner\<close>
  "solo_share E tried m work =
     (let b = (block_template work)\<lparr>miner := address_hash E (m_public_key m), creator_pubkey := m_public_key m\<rparr>
      in map_option (\<lambda>n. \<lparr>share_nonce = n, share_miner = m_address m, share_result = block_hash E (b\<lparr>b_nonce := n\<rparr>)\<rparr>)
           (List.find (\<lambda>n. hash_meets_target (block_hash E (b\<lparr>b_nonce := n\<rparr>)) (w_target work)) tried))"

definition produce_block ::
  "env \<Rightarrow> (bytes \<Rightarrow> bytes \<Rightarrow> bytes result) \<Rightarrow> (hash \<Rightarrow> bytes) \<Rightarrow> bool \<Rightarrow> nat \<Rightarrow> nat \<Rightarrow> nat list \<Rightarrow> hash option \<Rightarrow> miner_info list
   \<Rightarrow> chain_state \<Rightarrow> (chain_state \<times> unit result) option" where
  \<comment> \<open>one round of the producer thread, with the state unchanged between its reads; \<open>now\<close> is the clock of the
    template, the error of a panic is kept\<close>
  "produce_block E sign prove lab now entropy tried pin ms cs =
     (case create_block_template E lab now entropy cs of
        None \<Rightarrow> None
      | Some (Inl e) \<Rightarrow> Some (cs, Err e)
      | Some (Inr work) \<Rightarrow>
          (case check_miner_shares E tried cs ms work of
             None \<Rightarrow> None
           | Some None \<Rightarrow> Some (cs, Ok ())
           | Some (Some share) \<Rightarrow>
               (case assemble_block E sign prove cs ms work share of
                  None \<Rightarrow> None
                | Some (Inl _) \<Rightarrow> Some (cs, Ok ())
                | Some (Inr b) \<Rightarrow> add_block E lab now pin b cs)))"

end
