(* ===== verification/Mining_Roots.thy ===== *)
theory Mining_Roots
  imports Mining Mempool_Correct
begin

text \<open>
  The state root a block commits to does not depend on its nonce, its witnesses or the other fields that enter only the
  histories of titles: two blocks that agree on the rest have the same root over the same parents. So
  the root bound before the search for a nonce is the root of the block that is found.
\<close>

section \<open>Roots do not see the titles' histories\<close>

definition strip_titles :: "(hash, title_deed) hmap \<Rightarrow> (hash, title_deed) hmap" where
  "strip_titles ts = hmap_values (\<lambda>d. d\<lparr>history := []\<rparr>) ts"

lemma strip_titles_simps [simp]:
  "strip_titles (hput k d ts) = hput k (d\<lparr>history := []\<rparr>) (strip_titles ts)"
  "strip_titles (strip_titles ts) = strip_titles ts"
  "hget (strip_titles ts) k = map_option (\<lambda>d. d\<lparr>history := []\<rparr>) (hget ts k)"
  "hhas (strip_titles ts) k = hhas ts k"
proof -
  show "strip_titles (hput k d ts) = hput k (d\<lparr>history := []\<rparr>) (strip_titles ts)"
    by (induction ts) (auto simp: strip_titles_def hmap_values_def)
  show "strip_titles (strip_titles ts) = strip_titles ts" by (induction ts) (auto simp: strip_titles_def hmap_values_def)
qed (simp_all add: strip_titles_def)

definition strip :: "registry_state \<Rightarrow> registry_state" where
  "strip r = r\<lparr>titles := strip_titles (titles r)\<rparr>"

definition strip_res :: "reg_accts result \<Rightarrow> reg_accts result" where
  "strip_res r = (case r of Inl e \<Rightarrow> Inl e | Inr (reg, a) \<Rightarrow> Inr (strip reg, a))"

lemmas strip_simps = strip_res_def strip_def Let_def

lemma strip_body:
  assumes "timestamp b' = timestamp b"
  shows "strip_res (apply_body E body signer b sid blue (r, a)) = strip_res (apply_body E body signer b' sid' blue (strip r, a))"
proof (cases body)
  case (IssueTitle owner cls description seed)
  then show ?thesis using assms by (simp add: apply_body_def issue_title_def strip_simps)
next
  case (TransferTitle tid to memo)
  then show ?thesis using assms by (cases "hget (titles r) tid") (simp_all add: apply_body_def transfer_title_def strip_simps)
next
  case (OpenEscrow buyer seller arbiter amount title memo seed timeout)
  show ?thesis
  proof (cases title)
    case None
    then show ?thesis using OpenEscrow assms by (simp add: apply_body_def open_escrow_def strip_simps)
  next
    case (Some tid)
    then show ?thesis using OpenEscrow assms
      by (cases "hget (titles r) tid") (simp_all add: apply_body_def open_escrow_def strip_simps)
  qed
next
  case (FundEscrow eid amount)
  then show ?thesis by (simp add: apply_body_def fund_escrow_def strip_simps split: option.splits)
next
  case (ReleaseEscrow eid)
  show ?thesis
  proof (cases "hget (escrows r) eid")
    case None
    then show ?thesis using ReleaseEscrow by (simp add: apply_body_def release_escrow_def strip_simps)
  next
    case (Some esc)
    show ?thesis
    proof (cases "e_title_id esc")
      case None
      then show ?thesis using ReleaseEscrow Some by (simp add: apply_body_def release_escrow_def strip_simps)
    next
      case t: (Some tid)
      then show ?thesis using ReleaseEscrow Some
        by (cases "hget (titles r) tid") (simp_all add: apply_body_def release_escrow_def strip_simps)
    qed
  qed
next
  case (RefundEscrow eid)
  then show ?thesis
    by (simp add: apply_body_def refund_escrow_def refund_of_def unlock_title_def strip_simps split: option.splits)
next
  case (TimeoutClaimEscrow eid)
  then show ?thesis
    by (simp add: apply_body_def timeout_claim_escrow_def refund_of_def unlock_title_def strip_simps split: option.splits)
qed

lemma strip_idem [simp]: "strip (strip r) = strip r"
  by (simp add: strip_def)

lemma strip_body_cong:
  assumes "timestamp b' = timestamp b" and "strip r' = strip r"
  shows "strip_res (apply_body E body signer b sid blue (r, a)) = strip_res (apply_body E body signer b' sid' blue (r', a))"
  using strip_body [OF assms(1), of E body signer sid blue r a sid'] strip_body [of b' b' E body signer sid' blue r' a sid'] assms(2) by simp

lemma strip_op:
  assumes "timestamp b' = timestamp b" and "strip r' = strip r"
    and "apply_op E op b sid blue (r, a) = ((r1, a1), res)" and "apply_op E op b' sid' blue (r', a) = ((r1', a1'), res')"
  shows "strip r1' = strip r1 \<and> a1' = a1 \<and> res' = res"
proof (cases "\<not> registry_verify E op \<or> r_nonce op \<noteq> a_nonce (hget_or default_account a (signer_address E op))")
  case True
  then show ?thesis using assms by (auto simp: apply_op_def Let_def split: if_splits)
next
  case False
  define acct where "acct = hget_or default_account a (signer_address E op)"
  define a0 where "a0 = hput (signer_address E op) (acct\<lparr>a_nonce := sat_add64 (a_nonce acct) 1\<rparr>) a"
  define x where "x = apply_body E (r_body op) (signer_address E op) b sid blue (r, a0)"
  define y where "y = apply_body E (r_body op) (signer_address E op) b' sid' blue (r', a0)"
  have "strip_res x = strip_res y" unfolding x_def y_def by (rule strip_body_cong [OF assms(1,2)])
  then have xy: "(\<exists>e. x = Inl e \<and> y = Inl e) \<or> (\<exists>s s' c. x = Inr (s, c) \<and> y = Inr (s', c) \<and> strip s = strip s')"
    by (cases x; cases y) (auto simp: strip_res_def)
  have e: "((r1, a1), res) = (case x of Inl e \<Rightarrow> ((r, a0), Err e) | Inr s \<Rightarrow> (s, Ok ()))"
    "((r1', a1'), res') = (case y of Inl e \<Rightarrow> ((r', a0), Err e) | Inr s \<Rightarrow> (s, Ok ()))"
    unfolding x_def y_def a0_def acct_def
    using False by (simp_all add: assms(3) [symmetric] assms(4) [symmetric] apply_op_def Let_def del: One_nat_def)
  show ?thesis using xy e assms(2) by (elim disjE exE conjE) simp_all
qed

definition same_values :: "ledger \<Rightarrow> ledger \<Rightarrow> bool" where
  "same_values l l' \<longleftrightarrow> (\<exists>r. l' = l\<lparr>registry := r\<rparr> \<and> strip r = strip (registry l))"

definition same_outcome :: "ledger result \<Rightarrow> ledger result \<Rightarrow> bool" where
  "same_outcome x y \<longleftrightarrow> (\<exists>e. x = Inl e \<and> y = Inl e) \<or> (\<exists>l l'. x = Inr l \<and> y = Inr l' \<and> same_values l l')"

lemma same_values_refl [simp]: "same_values l l"
  unfolding same_values_def by (intro exI [of _ "registry l"]) simp

lemma strict_registry_cong:
  "timestamp b' = timestamp b \<Longrightarrow> same_values l l'
    \<Longrightarrow> same_outcome (strict_registry E b sid media ops l) (strict_registry E b' sid' media ops l')"
proof (induction ops arbitrary: l l')
  case Nil
  then show ?case by (simp add: same_outcome_def)
next
  case (Cons op ops)
  obtain r where r: "l' = l\<lparr>registry := r\<rparr>" "strip r = strip (registry l)" using Cons.prems(2) by (auto simp: same_values_def)
  obtain r1 a1 res where x: "apply_op E op b sid media (registry l, accounts l) = ((r1, a1), res)" by (metis surj_pair)
  obtain r2 a2 res2 where y: "apply_op E op b' sid' media (r, accounts l) = ((r2, a2), res2)" by (metis surj_pair)
  have eq: "strip r2 = strip r1" "a2 = a1" "res2 = res" using strip_op [OF Cons.prems(1) r(2) x y] by simp_all
  show ?case
  proof (cases res)
    case (Inl e)
    then show ?thesis using x y eq by (simp add: same_outcome_def r(1))
  next
    case (Inr u)
    have "same_values (l\<lparr>registry := r1, accounts := a1\<rparr>) (l'\<lparr>registry := r2, accounts := a2\<rparr>)"
      unfolding same_values_def using eq by (intro exI [of _ r2]) (simp add: r(1))
    from Cons.IH [OF Cons.prems(1) this] show ?thesis using x y eq Inr by (simp add: r(1))
  qed
qed

lemma custody_op_registry:
  "apply_custody_op E cid op (l\<lparr>registry := r\<rparr>) = map_sum id (\<lambda>l'. l'\<lparr>registry := r\<rparr>) (apply_custody_op E cid op l)"
  by (simp add: apply_custody_op_def account_nonce_def account_balance_def stake_lock_def stake_unlock_def bump_nonce_def Let_def
      split: sum.splits custody_kind.splits)

lemma custody_op_keeps: "apply_custody_op E cid op l = Ok l' \<Longrightarrow> registry l' = registry l"
  by (auto simp: apply_custody_op_def stake_lock_def stake_unlock_def bump_nonce_def Let_def
      split: if_splits sum.splits custody_kind.splits)

lemma strict_custody_cong:
  "same_values l l' \<Longrightarrow> same_outcome (strict_custody E cid ops l) (strict_custody E cid ops l')"
proof (induction ops arbitrary: l l')
  case Nil
  then show ?case by (simp add: same_outcome_def)
next
  case (Cons op ops)
  obtain r where r: "l' = l\<lparr>registry := r\<rparr>" "strip r = strip (registry l)" using Cons.prems by (auto simp: same_values_def)
  show ?case
  proof (cases "apply_custody_op E cid op l")
    case (Inl e)
    then show ?thesis using custody_op_registry [of E cid op r l] by (simp add: r(1) same_outcome_def)
  next
    case (Inr l1)
    have "same_values l1 (l1\<lparr>registry := r\<rparr>)" unfolding same_values_def using custody_op_keeps [OF Inr] r(2) by auto
    from Cons.IH [OF this] show ?thesis using Inr custody_op_registry [of E cid op r l] by (simp add: r(1))
  qed
qed

definition same_content :: "block \<Rightarrow> block \<Rightarrow> bool" where
  \<comment> \<open>equal in everything the state root depends on\<close>
  "same_content b b' \<longleftrightarrow> transparent_txs b' = transparent_txs b \<and> utxo_txs b' = utxo_txs b \<and> registry_ops b' = registry_ops b
     \<and> custody_ops b' = custody_ops b \<and> height b' = height b \<and> timestamp b' = timestamp b \<and> parents b' = parents b \<and> miner b' = miner b
     \<and> b_merkle_root b' = b_merkle_root b \<and> coinbase_entropy b' = coinbase_entropy b \<and> creator_pubkey b' = creator_pubkey b"

lemma simulate_cong:
  assumes "same_content b b'"
  shows "(\<exists>e. simulate_apply_block_body E cid tb b media l = Inl e \<and> simulate_apply_block_body E cid tb b' media l = Inl e)
    \<or> (\<exists>l1 l2 fees. simulate_apply_block_body E cid tb b media l = Inr (l1, fees) \<and> simulate_apply_block_body E cid tb b' media l = Inr (l2, fees) \<and> same_values l1 l2)"
proof -
  note c = assms [unfolded same_content_def]
  show ?thesis
  proof (cases "strict_transparents E cid tb (transparent_txs b) (l, 0)")
    case (Inl e)
    then show ?thesis using c by (simp add: simulate_apply_block_body_def)
  next
    case T: (Inr s1)
    show ?thesis
    proof (cases "strict_utxos E cid media (utxo_txs b) s1")
      case (Inl e)
      then show ?thesis using c T by (simp add: simulate_apply_block_body_def)
    next
      case U: (Inr s2)
      obtain l2 fees where s2: "s2 = (l2, fees)" by (cases s2)
      define x where "x = strict_registry E b (settlement_hex E b) media (registry_ops b) l2"
      define y where "y = strict_registry E b' (settlement_hex E b') media (registry_ops b) l2"
      have xy: "same_outcome x y" unfolding x_def y_def by (rule strict_registry_cong) (use c in auto)
      have e: "simulate_apply_block_body E cid tb b media l = (case x of Inl e \<Rightarrow> Inl e | Inr l3 \<Rightarrow> (case strict_custody E cid (custody_ops b) l3 of Inl e \<Rightarrow> Inl e | Inr l4 \<Rightarrow> Inr (l4, fees)))"
        "simulate_apply_block_body E cid tb b' media l = (case y of Inl e \<Rightarrow> Inl e | Inr l3 \<Rightarrow> (case strict_custody E cid (custody_ops b) l3 of Inl e \<Rightarrow> Inl e | Inr l4 \<Rightarrow> Inr (l4, fees)))"
        using c T U by (simp_all add: simulate_apply_block_body_def s2 x_def y_def split: sum.splits)
      from xy show ?thesis unfolding same_outcome_def
      proof (elim disjE exE conjE)
        fix l3 l3'
        assume l3: "x = Inr l3" "y = Inr l3'" "same_values l3 l3'"
        from strict_custody_cong [OF l3(3), of E cid "custody_ops b"] show ?thesis
          unfolding same_outcome_def e l3 by (elim disjE exE conjE) auto
      qed (simp add: e)
    qed
  qed
qed

lemma root_cong:
  assumes "same_content b b'" and "same_values l l'"
  shows "ledger_merkle_root E (apply_block_reward E b blue fees l) = ledger_merkle_root E (apply_block_reward E b' blue fees l')"
proof -
  obtain r where r: "l' = l\<lparr>registry := r\<rparr>" using assms(2) by (auto simp: same_values_def)
  have "coinbase_txid E b' = coinbase_txid E b" "miner b' = miner b" using assms(1) by (simp_all add: same_content_def coinbase_txid_def)
  then have "apply_block_reward E b' blue fees l' = (apply_block_reward E b blue fees l)\<lparr>registry := r\<rparr>"
    by (simp add: apply_block_reward_def Let_def r)
  then show ?thesis by (simp add: ledger_merkle_root_def)
qed

lemma post_root_cong:
  assumes "same_content b b'"
  shows "post_mergeset_state_root E cs sp ms b blue = post_mergeset_state_root E cs sp ms b' blue"
proof -
  have "(case simulate_apply_block_body E cid tb b blue l of Inl e \<Rightarrow> Err e | Inr (l', fees) \<Rightarrow> Ok (ledger_merkle_root E (apply_block_reward E b blue fees l')))
      = (case simulate_apply_block_body E cid tb b' blue l of Inl e \<Rightarrow> Err e | Inr (l', fees) \<Rightarrow> Ok (ledger_merkle_root E (apply_block_reward E b' blue fees l')))" for cid tb l
    using simulate_cong [OF assms, of E cid tb blue l] root_cong [OF assms] by (elim disjE exE conjE) auto
  then show ?thesis by (simp add: post_mergeset_state_root_def)
qed

end
