(* ===== verification/Mining_Correct.thy ===== *)
theory Mining_Correct
  imports Mining_Roots
begin

text \<open>
  Correctness of block production: a block that an archival node assembles from its own template passes its own
  admission. The invariant of the node's history gains distinct tips and anchored certificates, the head of the
  sorted tips is the selected tip, a trimmed selection keeps the form checks, and the assembled block carries what
  \<open>add_block\<close> recomputes.
\<close>

section \<open>Tips and anchors of an archival node\<close>

definition same_tips :: "chain_state \<Rightarrow> chain_state \<Rightarrow> bool" where
  "same_tips cs cs' \<longleftrightarrow> tips cs' = tips cs \<and> archival cs' = archival cs"

lemma tips_frames:
  "order_main_chain cs = Some cs' \<Longrightarrow> same_tips cs cs'"
  "record_selected_chain_fee_samples E cs = Some cs' \<Longrightarrow> same_tips cs cs'"
  "refresh_difficulty lab cs = Some cs' \<Longrightarrow> same_tips cs cs'"
  "same_tips cs (capture_base cs)"
  "recompute_virtual_state E cs = Some cs' \<Longrightarrow> same_tips cs cs'"
  "same_tips cs (drop_included_from_mempools E b cs)"
  by (auto simp: same_tips_def order_main_chain_def record_selected_chain_fee_samples_def drop_included_from_mempools_def
      refresh_difficulty_def capture_base_def recompute_virtual_state_def Let_def split: option.splits)

lemma advance_tips: "advance_finalized_base E cs = Some cs' \<Longrightarrow> same_tips cs cs'"
  by (erule advance_cases) (simp_all add: same_tips_def)

lemma commit_tips:
  assumes "commit_block E lab b d cs = Some cs'" and arch: "archival cs"
  shows "tips cs' = filter (\<lambda>t. t \<notin> set (parents b)) (tips cs) @ [block_hash E b]"
proof -
  from assms(1) obtain cs1 cs2 cs3 cs4 cs5 cs6
    where s: "insert_block E b d cs = Some cs1" "order_main_chain cs1 = Some cs2"
      "advance_finalized_base E (capture_base cs2) = Some cs3" "recompute_virtual_state E cs3 = Some cs4"
      "record_selected_chain_fee_samples E cs4 = Some cs5" "refresh_difficulty lab (drop_included_from_mempools E b cs5) = Some cs6"
      "prune_history E (prune_bodies cs6) = Some cs'"
    by (auto simp: commit_block_def bind_eq_Some_conv)
  note f = tips_frames(1) [OF s(2)] tips_frames(4) [of cs2] advance_tips [OF s(3)] tips_frames(5) [OF s(4)] tips_frames(2) [OF s(5)]
    tips_frames(6) [of cs5 E b] tips_frames(3) [OF s(6)]
  have "same_tips cs1 cs6" using f by (simp add: same_tips_def)
  moreover have "tips cs1 = filter (\<lambda>t. t \<notin> set (parents b)) (tips cs) @ [block_hash E b]" "archival cs1"
    using s(1) arch by (auto simp: insert_block_def Let_def)
  ultimately show ?thesis using s(7) by (simp add: same_tips_def prune_bodies_def prune_history_def)
qed

definition anchored :: "env \<Rightarrow> chain_state \<Rightarrow> bool" where
  \<comment> \<open>no tip twice, and every queued certificate is anchored in the DAG\<close>
  "anchored E cs \<longleftrightarrow> distinct (tips cs) \<and> (\<forall>op\<in>set (custody_mempool cs). custody_anchor_ok E (dag cs) op = Ok ())"

lemma anchor_grows: "\<not> hhas dg h \<Longrightarrow> custody_anchor_ok E dg op = Ok () \<Longrightarrow> custody_anchor_ok E (hput h b dg) op = Ok ()"
  by (auto simp: custody_anchor_ok_def hhas_def split: option.splits)

lemma node_hist_anchored: "node_hist E lab True cs \<Longrightarrow> anchored E cs"
proof (induction rule: node_hist.induct)
  case (start cs)
  then show ?case by (auto simp: chain_new_def Let_def anchored_def split: option.splits)
next
  case (block cs now pin b cs' res)
  have inv: "chain_inv E cs" by (rule node_hist_inv [OF block.hyps(1)])
  from block.hyps(3) show ?case
  proof (cases rule: add_block_cases)
    case (added d)
    obtain cs1 where c: "commit_block E lab b d cs = Some cs1" "dag cs1 = hput (block_hash E b) b (dag cs)"
      by (rule commit_block_ok [OF inv added(1) block.hyps(2)])
    have n: "\<not> hhas (dag cs) (block_hash E b)" using validate_block_Ok [OF added(1)] unfolding check_structure_Ok by metis
    then have "block_hash E b \<notin> set (tips cs)" using inv by (auto simp: chain_inv_def leaf_tips_def)
    then have "distinct (tips cs')" using commit_tips [OF added(2)] inv block.IH by (simp add: chain_inv_def anchored_def)
    moreover obtain cs2 where "same_queues cs cs2" "same_queues (drop_included_from_mempools E b cs2) cs'"
      using commit_queues [OF added(2)] by blast
    then have "set (custody_mempool cs') \<subseteq> set (custody_mempool cs)" by (auto simp: same_queues_def drop_included_from_mempools_def)
    moreover have "dag cs' = hput (block_hash E b) b (dag cs)" using c added(2) by simp
    ultimately show ?thesis using block.IH anchor_grows [OF n] by (auto simp: anchored_def)
  qed (use block.IH in simp)
next
  case (utxo cs now tx cs' res)
  have q: "utxo_pool_ok E (chain_id cs) (utxo_mempool cs)" using node_hist_queues [OF utxo.hyps(1)] by (simp add: queues_ok_def)
  from admit_utxo_effect(1) [OF q utxo.hyps(2)] have p: "pool_frame cs cs'" .
  show ?case using utxo.IH pool_frame_core [OF p] pool_frame_queues [OF p] by (simp add: anchored_def same_core_def)
next
  case (registry cs public_mode op cs' res)
  then show ?case by (auto simp: anchored_def admit_registry_to_mempool_def split: if_splits)
next
  case (custody cs public_mode cop cs' res)
  show ?case
  proof (cases "cs' = cs")
    case False
    then have "cs' = cs\<lparr>custody_mempool := custody_mempool cs @ [cop]\<rparr>" "custody_anchor_ok E (dag cs) cop = Ok ()"
      using custody.hyps(2) unfolding admit_custody_to_mempool_def by (auto split: if_splits sum.splits)
    then show ?thesis using custody.IH by (simp add: anchored_def)
  qed (use custody.IH in simp)
qed

section \<open>The template's parents\<close>

lemma sort_key_hd: "ts \<noteq> [] \<Longrightarrow> hd (sort_key k ts) \<in> set ts \<and> (\<forall>t\<in>set ts. k (hd (sort_key k ts)) \<le> k t)"
proof -
  assume "ts \<noteq> []"
  then obtain x xs where x: "sort_key k ts = x # xs" by (metis list.exhaust set_empty set_sort)
  then have "sorted (map k (x # xs))" using sorted_sort_key [of k ts] by simp
  moreover have "set ts = insert x (set xs)" using x by (metis list.simps(15) set_sort)
  ultimately show ?thesis using x by auto
qed

lemma score_key_inj: "score_key gd x = score_key gd y \<Longrightarrow> x = y"
  by (simp add: score_key_def)

lemma template_parents_ok:
  assumes inv: "chain_inv E cs" and dt: "distinct (tips cs)" and t: "selected_tip (ghostdag cs) (tips cs) = Some t"
  shows "select_parent (ghostdag cs) (template_parents cs) = Some t" "template_parents cs \<noteq> []"
    "length (template_parents cs) \<le> MAX_BLOCK_PARENTS" "distinct (template_parents cs)"
    "\<And>p. p \<in> set (template_parents cs) \<Longrightarrow> hhas (dag cs) p"
proof -
  have dg: "hhas (ghostdag cs) x = hhas (dag cs) x" for x using inv dag_okD(4) by (auto simp: chain_inv_def)
  have known: "hhas (dag cs) x" if "x \<in> set (tips cs)" for x using inv that by (auto simp: chain_inv_def leaf_tips_def)
  define k where "k = (\<lambda>h. (- int (case hget (ghostdag cs) h of None \<Rightarrow> 0 | Some d \<Rightarrow> blue_score d), - uint h))"
  have tp: "template_parents cs = take MAX_BLOCK_PARENTS (sort_key k (tips cs))" by (simp add: template_parents_def k_def)
  have sub: "set (template_parents cs) \<subseteq> set (tips cs)" unfolding tp using set_take_subset [of MAX_BLOCK_PARENTS "sort_key k (tips cs)"] by simp
  then show kn: "\<And>p. p \<in> set (template_parents cs) \<Longrightarrow> hhas (dag cs) p" using known by blast
  show "length (template_parents cs) \<le> MAX_BLOCK_PARENTS" by (simp add: tp)
  show "distinct (template_parents cs)" unfolding tp using dt by simp
  have tt: "t \<in> set (tips cs)" by (rule selected_tip_Some(1) [OF t])
  then have ne: "tips cs \<noteq> []" by auto
  then have "sort_key k (tips cs) \<noteq> []" by (metis set_empty set_sort)
  then show np: "template_parents cs \<noteq> []" unfolding tp by (simp add: MAX_BLOCK_PARENTS_def)
  have h: "hd (template_parents cs) = hd (sort_key k (tips cs))"
    unfolding tp by (simp add: MAX_BLOCK_PARENTS_def hd_take)
  have mono: "score_key (ghostdag cs) x \<le> score_key (ghostdag cs) y" if le: "k y \<le> k x" and xy: "x \<in> set (tips cs)" "y \<in> set (tips cs)" for x y
  proof -
    obtain dx dy where "hget (ghostdag cs) x = Some dx" "hget (ghostdag cs) y = Some dy"
      using known [OF xy(1)] known [OF xy(2)] dg [of x] dg [of y] by (auto simp: hhas_def)
    then show ?thesis using le by (auto simp: k_def score_key_def hidx_def less_eq_prod_def word_le_def)
  qed
  define x where "x = hd (template_parents cs)"
  have x: "x \<in> set (tips cs)" "\<forall>y\<in>set (tips cs). k x \<le> k y" using sort_key_hd [OF ne, of k] h by (simp_all add: x_def)
  have xt: "x = t"
  proof -
    have "score_key (ghostdag cs) t \<le> score_key (ghostdag cs) x" by (rule mono) (use x tt in auto)
    moreover have "score_key (ghostdag cs) x \<le> score_key (ghostdag cs) t" by (rule selected_tip_Some(3) [OF t x(1)]) (use known dg x in simp)
    ultimately show ?thesis using score_key_inj by (metis order_antisym)
  qed
  have fl: "filter (hhas (ghostdag cs)) (template_parents cs) = template_parents cs" using kn dg by (auto intro: filter_True)
  then obtain m where m: "select_parent (ghostdag cs) (template_parents cs) = Some m"
    using np max_by_score_None unfolding select_parent_def by (metis option.exhaust)
  note ms = max_by_score_Some [OF m [unfolded select_parent_def fl]]
  have "score_key (ghostdag cs) m \<le> score_key (ghostdag cs) t"
    by (rule selected_tip_Some(3) [OF t]) (use ms sub dg kn in auto)
  moreover have "score_key (ghostdag cs) t \<le> score_key (ghostdag cs) m" using ms np xt by (auto simp: x_def)
  ultimately have "m = t" using score_key_inj by (metis order_antisym)
  then show "select_parent (ghostdag cs) (template_parents cs) = Some t" using m by simp
qed


section \<open>The template's body\<close>

definition body_from :: "env \<Rightarrow> chain_state \<Rightarrow> block \<Rightarrow> bool" where
  \<comment> \<open>what the form checks of a body need of where it comes from\<close>
  "body_from E cs b \<longleftrightarrow> transparent_txs b = [] \<and> distinct (concat (map (\<lambda>tx. map previous (inputs tx)) (utxo_txs b)))
     \<and> set (utxo_txs b) \<subseteq> set (utxo_mempool cs) \<and> set (registry_ops b) \<subseteq> set (registry_mempool cs)
     \<and> (\<forall>op\<in>set (custody_ops b). op \<in> set (custody_mempool cs) \<and> (\<exists>l l'. apply_custody_op E (chain_id cs) op l = Ok l'))"

lemma utxo_forms_distinct:
  "\<forall>tx\<in>set txs. utxo_validate_form E tx = Ok () \<and> u_chain_id tx = cid \<Longrightarrow> distinct (concat (map (\<lambda>tx. map previous (inputs tx)) txs))
    \<Longrightarrow> set seen \<inter> set (concat (map (\<lambda>tx. map previous (inputs tx)) txs)) = {} \<Longrightarrow> utxo_forms_loop E cid txs seen = Ok ()"
proof (induction txs arbitrary: seen)
  case (Cons tx txs)
  define later where "later = concat (map (\<lambda>tx. map previous (inputs tx)) txs)"
  have "distinct later" "set (map previous (inputs tx)) \<inter> set later = {}" using Cons.prems(2) by (simp_all add: later_def)
  moreover have "set seen \<inter> set later = {}" using Cons.prems(3) by (auto simp: later_def)
  ultimately have "utxo_forms_loop E cid txs (map previous (inputs tx) @ seen) = Ok ()"
    by (intro Cons.IH) (use Cons.prems(1) in \<open>simp_all add: later_def [symmetric] Int_Un_distrib2\<close>)
  moreover have "\<not> list_ex (\<lambda>tin. previous tin \<in> set seen) (inputs tx)" using Cons.prems(3) by (auto simp: list_ex_iff)
  ultimately show ?case using Cons.prems(1,2) by simp
qed simp

lemma custody_forms_ok:
  "\<forall>op\<in>set ops. custody_anchor_ok E dg op = Ok () \<and> cc_kind op \<in> {StakeLock, StakeUnlock} \<and> (\<exists>l l'. apply_custody_op E cid op l = Ok l')
    \<Longrightarrow> validate_custody_ops E cid dg ops = Ok ()"
proof (induction ops)
  case (Cons op ops)
  have a: "custody_anchor_ok E dg op = Ok ()" "cc_kind op \<noteq> BridgeExit" "cc_kind op \<noteq> BridgeEnter" using Cons.prems by auto
  obtain l l' where "apply_custody_op E cid op l = Ok l'" using Cons.prems by auto
  then obtain sid where "cc_chain_id op = cid" "cc_amount op \<noteq> 0" "is_valid_address E (cc_owner op)" "decode_sid E (cc_settlement_id op) = Ok sid"
    "custody_verify E op sid = Ok ()"
    by (auto simp: apply_custody_op_def split: if_splits sum.splits)
  moreover have "validate_custody_ops E cid dg ops = Ok ()" using Cons by auto
  moreover obtain anchor where "hget dg (cc_block_hash op) = Some anchor" using a(1) by (auto simp: custody_anchor_ok_def split: option.splits)
  ultimately show ?case using a by (auto simp: custody_anchor_ok_def split: if_splits)
qed simp

lemma registry_forms_ok:
  "\<forall>op\<in>set ops. r_chain_id op = cid \<and> registry_verify E op \<Longrightarrow> validate_registry_ops E cid ops = Ok ()"
  by (induction ops) auto

lemma body_forms_ok:
  assumes q: "queues_ok E cs" and a: "anchored E cs" and b: "body_from E cs b"
  shows "validate_block_transactions E (chain_id cs) (dag cs) b = Ok ()"
proof -
  have pool: "utxo_validate_form E tx = Ok () \<and> u_chain_id tx = chain_id cs \<and> utxo_verify E tx" if "tx \<in> set (utxo_txs b)" for tx
    using q b that by (auto simp: queues_ok_def utxo_pool_ok_def body_from_def)
  have "utxo_forms_loop E (chain_id cs) (utxo_txs b) [] = Ok ()" by (rule utxo_forms_distinct) (use pool b in \<open>auto simp: body_from_def\<close>)
  then have "validate_utxo_forms E (chain_id cs) (utxo_txs b) = Ok ()" using pool by (simp add: validate_utxo_forms_def list_ex_iff)
  moreover have "validate_registry_ops E (chain_id cs) (registry_ops b) = Ok ()"
    by (rule registry_forms_ok) (use q b in \<open>auto simp: queues_ok_def body_from_def\<close>)
  moreover have "validate_custody_ops E (chain_id cs) (dag cs) (custody_ops b) = Ok ()"
    by (rule custody_forms_ok) (use q a b in \<open>auto simp: queues_ok_def anchored_def body_from_def\<close>)
  moreover have "validate_account_forms E (chain_id cs) (transparent_txs b) = Ok ()"
    using b by (simp add: validate_account_forms_def body_from_def)
  ultimately show ?thesis by (simp add: validate_block_transactions_def)
qed

lemma select_utxo_mset: "mset (select_utxo_loop E media txs s) \<subseteq># mset txs"
proof (induction txs arbitrary: s)
  case (Cons tx txs)
  obtain u a where s: "s = (u, a)" by (cases s)
  obtain u1 a1 f r where r: "apply_utxo_tx E tx media (u, a, 0) = ((u1, a1, f), r)" by (metis surj_pair)
  show ?case using Cons.IH [of "(u1, a1)"] Cons.IH [of "(u, a)"] subset_mset.order_trans [OF _ mset_subset_eq_add_left [of "mset txs" "{#tx#}"]]
    by (cases r) (simp_all add: s r)
qed (simp add: split_paired_all)

lemma select_registry_subset: "set (select_registry_loop E cs ops nonces s) \<subseteq> set ops"
proof (induction ops arbitrary: nonces s)
  case (Cons op ops)
  obtain s' r where r: "apply_op E op genesis_block ''select-dry-run'' (selected_tip_blue_score cs) s = (s', r)" by (metis surj_pair)
  have "set (select_registry_loop E cs ops n x) \<subseteq> insert op (set ops)" for n x using Cons.IH by blast
  then show ?case by (cases r) (simp_all add: Let_def r)
qed simp

lemma select_custody_subset:
  "op \<in> set (select_custody_loop E cid ops l) \<Longrightarrow> op \<in> set ops \<and> (\<exists>l l'. apply_custody_op E cid op l = Ok l')"
  by (induction E cid ops l rule: select_custody_loop.induct) (auto split: sum.splits)

lemma distinct_concat_mset:
  assumes "mset xs \<subseteq># mset ys" and "distinct (concat (map f ys))"
  shows "distinct (concat (map f xs))"
proof -
  have c: "mset (concat (map f zs)) = (\<Sum>z\<in>#mset zs. mset (f z))" for zs :: "'a list"
    by (simp add: mset_concat sum_mset_sum_list [symmetric] comp_def)
  from assms(1) obtain m where "mset ys = mset xs + m" by (metis mset_subset_eq_exists_conv)
  moreover obtain zs where "m = mset zs" by (metis ex_mset)
  ultimately have "mset (concat (map f ys)) = mset (concat (map f xs) @ concat (map f zs))" using c by simp
  then show ?thesis using assms(2) by (metis distinct_append mset_eq_imp_distinct_iff)
qed


lemma mset_parts: "mset (take n xs) \<subseteq># mset xs" "mset (remove_at n xs) \<subseteq># mset xs"
proof -
  show "mset (take n xs) \<subseteq># mset xs" by (metis append_take_drop_id mset_append mset_subset_eq_add_left)
  have "mset (drop (Suc n) xs) \<subseteq># mset (drop n xs)" by (cases "drop n xs") (simp_all add: drop_Suc tl_drop [symmetric])
  then show "mset (remove_at n xs) \<subseteq># mset xs"
    unfolding remove_at_def by (metis append_take_drop_id mset_append subset_mset.add_left_mono)
qed

lemma selected_body:
  assumes q: "queues_ok E cs" and b: "template_body E lab now entropy cs = Some b"
  shows "body_from E cs b" "parents b = template_parents cs" "timestamp b = now"
    "expected_difficulty_at lab (dag cs) (ghostdag cs) (minted_supply (live cs)) (template_parents cs) now = Some (b_difficulty b)"
proof -
  have t: "transparent_mempool cs = []" using q by (simp add: queues_ok_def)
  obtain d where d: "expected_difficulty_at lab (dag cs) (ghostdag cs) (minted_supply (live cs)) (template_parents cs) now = Some d"
    using b by (auto simp: template_body_def split: option.splits)
  have "select_valid_block_txs E cs [] = Some []" by (simp add: select_valid_block_txs_def)
  note f = b [unfolded template_body_def d t this option.case option.map option.inject, symmetric]
  show "parents b = template_parents cs" "timestamp b = now"
    "expected_difficulty_at lab (dag cs) (ghostdag cs) (minted_supply (live cs)) (template_parents cs) now = Some (b_difficulty b)"
    using d by (simp_all add: f select_valid_block_txs_def)
  define sel where "sel = take 1000 (select_valid_utxo_txs E cs (utxo_mempool cs))"
  have m: "mset sel \<subseteq># mset (utxo_mempool cs)"
    unfolding sel_def select_valid_utxo_txs_def by (rule subset_mset.order_trans [OF mset_parts(1) subset_mset.order_trans [OF select_utxo_mset]]) simp
  have "set sel \<subseteq> set (utxo_mempool cs)" using set_mset_mono [OF m] by simp
  moreover have "distinct (concat (map (\<lambda>tx. map previous (inputs tx)) sel))"
    by (rule distinct_concat_mset [OF m]) (use q in \<open>simp add: queues_ok_def utxo_pool_ok_def\<close>)
  moreover have "set (select_valid_registry_ops E cs (take 500 (registry_mempool cs))) \<subseteq> set (registry_mempool cs)"
    unfolding select_valid_registry_ops_def using select_registry_subset set_take_subset by (metis order_trans)
  moreover have "op \<in> set (custody_mempool cs) \<and> (\<exists>l l'. apply_custody_op E (chain_id cs) op l = Ok l')"
    if "op \<in> set (select_valid_custody_ops E cs (take 200 (custody_mempool cs)))" for op
    using select_custody_subset [OF that [unfolded select_valid_custody_ops_def]] in_set_takeD by metis
  ultimately show "body_from E cs b" by (simp add: f body_from_def sel_def select_valid_block_txs_def)
qed

definition same_frame :: "block \<Rightarrow> block \<Rightarrow> bool" where
  "same_frame b b' \<longleftrightarrow> parents b' = parents b \<and> timestamp b' = timestamp b \<and> b_difficulty b' = b_difficulty b"

lemma trim_step_ok: "trim_step b = Some b' \<Longrightarrow> body_from E cs b \<Longrightarrow> body_from E cs b' \<and> same_frame b b'"
proof -
  assume t: "trim_step b = Some b'" and b: "body_from E cs b"
  have r: "mset (remove_at i xs) \<subseteq># mset xs" for i and xs :: "utxo_tx list"
    by (rule mset_parts(2))
  have "min_fee_index t_fee (transparent_txs b) = None" using b by (simp add: body_from_def min_fee_index_def)
  then consider i where "b' = b\<lparr>utxo_txs := remove_at i (utxo_txs b)\<rparr>" | "b' = b\<lparr>registry_ops := butlast (registry_ops b)\<rparr>"
    | "b' = b\<lparr>custody_ops := butlast (custody_ops b)\<rparr>"
    using t by (auto simp: trim_step_def split: option.splits if_splits)
  then show ?thesis
  proof cases
    case (1 i)
    have "distinct (concat (map (\<lambda>tx. map previous (inputs tx)) (remove_at i (utxo_txs b))))"
      by (rule distinct_concat_mset [OF r]) (use b in \<open>simp add: body_from_def\<close>)
    moreover have "set (remove_at i (utxo_txs b)) \<subseteq> set (utxo_txs b)" using set_mset_mono [OF r [of i "utxo_txs b"]] by simp
    ultimately show ?thesis using b by (auto simp: 1 body_from_def same_frame_def)
  qed (use b in \<open>auto simp: body_from_def same_frame_def dest: in_set_butlastD\<close>)
qed

lemma trim_template_ok: "body_from E cs b \<Longrightarrow> body_from E cs (trim_template E b) \<and> same_frame b (trim_template E b)"
proof (induction E b rule: trim_template.induct)
  case (1 E b)
  show ?case
  proof (cases "too_big E b \<and> trim_step b \<noteq> None")
    case True
    then obtain b' where b': "trim_step b = Some b'" by auto
    then have "trim_template E b = trim_template E b'" using True by (simp add: trim_template.simps [of E b])
    then show ?thesis using 1(1) [OF _ b'] trim_step_ok [OF b' 1(2)] True by (simp add: same_frame_def)
  next
    case False
    then have "trim_template E b = b" by (auto simp: trim_template.simps [of E b] split: option.splits)
    then show ?thesis using 1(2) by (simp add: same_frame_def)
  qed
qed

lemma bind_ok:
  assumes "bind_parent_commitments E cs b = Some (Ok b')"
  obtains gd sp sroot where "try_compute_ghostdag_data (dag cs) (ghostdag cs) (reach cs) (parents b) MAX_MERGESET_SIZE = Some (Ok gd)"
    and "selected_parent gd = Some sp" and "post_mergeset_state_root E cs sp (merged_blocks gd) b (blue_score gd) = Some (Ok sroot)"
    and "b' = b\<lparr>interlinks := (case hget (dag cs) sp of None \<Rightarrow> [] | Some p \<Rightarrow> compute_interlinks E p), b_state_root := sroot\<rparr>"
proof -
  have "post_mergeset_state_root E cs sp ms (b\<lparr>interlinks := i\<rparr>) blue = post_mergeset_state_root E cs sp ms b blue" for sp ms i blue
    by (rule post_root_cong) (simp add: same_content_def)
  then show thesis using assms that by (auto simp: bind_parent_commitments_def Let_def split: option.splits sum.splits)
qed

lemma template_ok:
  assumes q: "queues_ok E cs" and w: "create_block_template E lab now entropy cs = Some (Ok work)"
  shows "body_from E cs (block_template work)" "parents (block_template work) = template_parents cs" "timestamp (block_template work) = now"
    "expected_difficulty_at lab (dag cs) (ghostdag cs) (minted_supply (live cs)) (template_parents cs) now = Some (b_difficulty (block_template work))"
    "w_target work = pow_target (b_difficulty (block_template work))"
proof -
  obtain b b1 b2 b4 where b: "template_body E lab now entropy cs = Some b" "bind_parent_commitments E cs b = Some (Ok b1)"
    "b2 = trim_template E b1" "bind_parent_commitments E cs (b2\<lparr>b_merkle_root := block_merkle_root E b2\<rparr>) = Some (Ok b4)"
    "work = \<lparr>block_template = b4, w_target = pow_target (b_difficulty b4)\<rparr>"
    using w by (auto simp: create_block_template_def Let_def split: option.splits sum.splits)
  note s = selected_body [OF q b(1)]
  obtain i1 r1 where b1: "b1 = b\<lparr>interlinks := i1, b_state_root := r1\<rparr>" by (rule bind_ok [OF b(2)])
  obtain i4 r4 where b4: "b4 = b2\<lparr>b_merkle_root := block_merkle_root E b2, interlinks := i4, b_state_root := r4\<rparr>" by (rule bind_ok [OF b(4)])
  have "body_from E cs b1" "same_frame b b1" using s by (simp_all add: b1 body_from_def same_frame_def)
  from trim_template_ok [OF this(1)] this have t: "body_from E cs b2" "same_frame b b2" by (simp_all add: b(3) same_frame_def)
  show "body_from E cs (block_template work)" using t by (simp add: b(5) b4 body_from_def)
  show "parents (block_template work) = template_parents cs" "timestamp (block_template work) = now"
    "expected_difficulty_at lab (dag cs) (ghostdag cs) (minted_supply (live cs)) (template_parents cs) now = Some (b_difficulty (block_template work))"
    "w_target work = pow_target (b_difficulty (block_template work))"
    using s t by (simp_all add: b(5) b4 same_frame_def)
qed

section \<open>The assembled block\<close>

lemma with_identity_nonce: "with_identity E pk (b\<lparr>b_nonce := n\<rparr>) = (with_identity E pk b)\<lparr>b_nonce := n\<rparr>"
  by (simp add: with_identity_def Let_def block_merkle_root_def)

lemma bind_nonce:
  assumes "bind_parent_commitments E cs b = Some (Ok b')"
  shows "bind_parent_commitments E cs (b\<lparr>b_nonce := n\<rparr>) = Some (Ok (b'\<lparr>b_nonce := n\<rparr>))"
proof -
  have "post_mergeset_state_root E cs sp ms (b\<lparr>b_nonce := n, interlinks := i\<rparr>) blue = post_mergeset_state_root E cs sp ms (b\<lparr>interlinks := i\<rparr>) blue" for sp ms i blue
    by (rule post_root_cong) (simp add: same_content_def)
  then show ?thesis using assms by (auto simp: bind_parent_commitments_def Let_def split: option.splits sum.splits)
qed

lemma find_head: "List.find P xs = Some x \<Longrightarrow> P x \<and> x \<in> set xs"
  by (auto simp: find_Some_iff)

lemma assembled:
  assumes s: "check_miner_shares E tried cs ms work = Some (Some share)" and a: "assemble_block E sign prove cs ms work share = Some (Ok b)"
    and t: "w_target work = pow_target (b_difficulty (block_template work))"
  obtains m sk b1 sg x where "m \<in> set ms" and "m_signing_key m = Some sk"
    and "bind_parent_commitments E cs (with_identity E (m_public_key m) ((block_template work)\<lparr>b_nonce := share_nonce share\<rparr>)) = Some (Ok b1)"
    and "sign sk (hash_bytes (digest512 E ''birth-certificate'' (hash_bytes (settlement_id E b1)))) = Ok sg"
    and "b = b1\<lparr>birth_certificate := sg, stark_proof := prove (block_hash E b1), b_size := x\<rparr>"
    and "verify_pow (block_hash E b1) (b_difficulty b1)"
proof -
  obtain m ms' b0 where m: "ms = m # ms'" "bind_parent_commitments E cs (with_identity E (m_public_key m) (block_template work)) = Some (Ok b0)"
    "share_miner share = m_address m" "hash_meets_target (block_hash E (b0\<lparr>b_nonce := share_nonce share\<rparr>)) (w_target work)"
    using s by (auto simp: check_miner_shares_def split: list.splits if_splits option.splits sum.splits dest: find_head)
  have f: "List.find (\<lambda>m'. m_address m' = share_miner share) ms = Some m" using m by simp
  define b1 where "b1 = b0\<lparr>b_nonce := share_nonce share\<rparr>"
  have bd: "bind_parent_commitments E cs (with_identity E (m_public_key m) ((block_template work)\<lparr>b_nonce := share_nonce share\<rparr>)) = Some (Ok b1)"
    unfolding with_identity_nonce b1_def by (rule bind_nonce [OF m(2)])
  have "b_difficulty b1 = b_difficulty (block_template work)" by (rule bind_ok [OF bd]) (simp add: with_identity_def Let_def)
  then have pow: "verify_pow (block_hash E b1) (b_difficulty b1)" using m(4) t by (simp add: verify_pow_def b1_def)
  obtain sk where sk: "m_signing_key m = Some sk" "address_matches_pubkey E (share_miner share) (m_public_key m)"
    using a f by (auto simp: assemble_block_def split: option.splits if_splits)
  note as = a [unfolded assemble_block_def f option.case sk(1) bd sum.case issue_birth_certificate_def]
  obtain sg where sg: "sign sk (hash_bytes (digest512 E ''birth-certificate'' (hash_bytes (settlement_id E b1)))) = Ok sg"
    using as by (cases "sign sk (hash_bytes (digest512 E ''birth-certificate'' (hash_bytes (settlement_id E b1))))") (simp_all add: sk(2))
  define b2 where "b2 = b1\<lparr>birth_certificate := sg\<rparr>"
  have b: "b = b2\<lparr>stark_proof := prove (block_hash E b2), b_size := length (ser_block E (b2\<lparr>stark_proof := prove (block_hash E b2)\<rparr>))\<rparr>"
    using as by (simp add: sk(2) sg Let_def b2_def [symmetric])
  have h: "block_hash E b2 = block_hash E b1" by (simp add: block_hash_def absorb_identity_def b2_def)
  have "m \<in> set ms" using m(1) by simp
  moreover have "b = b1\<lparr>birth_certificate := sg, stark_proof := prove (block_hash E b1), b_size := b_size b\<rparr>"
    unfolding b h by (simp add: b2_def)
  ultimately show thesis by (rule that [OF _ sk(1) bd sg _ pow])
qed

lemma produced_block_valid:
  assumes inv: "chain_inv E cs" and q: "queues_ok E cs" and an: "anchored E cs" and cap: "length (dag cs) < 2 ^ 41"
    and w: "create_block_template E lab now entropy cs = Some (Ok work)"
    and s: "check_miner_shares E tried cs ms work = Some (Some share)"
    and a: "assemble_block E sign prove cs ms work share = Some (Ok b)"
    and keys: "\<And>m sk msg sg. m \<in> set ms \<Longrightarrow> m_signing_key m = Some sk \<Longrightarrow> sign sk msg = Ok sg \<Longrightarrow> verify_signature E (m_public_key m) msg sg"
    and sl: "0 < sig_len E"
    and stark: "\<And>h. precheck_format E (prove h) = Ok () \<and> stark_verify E h (prove h)"
    and fresh: "\<not> hhas (dag cs) (block_hash E b)" and size: "verify_size E b" "length (ser_block E b) \<le> MAX_BLOCK_BYTES"
    and tip: "selected_tip (ghostdag cs) (tips cs) = Some t"
    and clock: "max_parent_timestamp (dag cs) (template_parents cs) \<le> now" "past_median_time (dag cs) (ghostdag cs) t < now"
      "now \<le> sat_add64 now' MAX_FUTURE_DRIFT_MS"
  shows "\<exists>gd. validate_block E lab now' pin cs b = Some (Ok gd)"
proof -
  have ok: "dag_ok E cs" using inv by (simp add: chain_inv_def)
  note d = dag_okD [OF ok] and w' = template_ok [OF q w]
  have "distinct (tips cs)" using an by (simp add: anchored_def)
  note tp = template_parents_ok [OF inv this tip]
  obtain m sk b1 sg x where m: "m \<in> set ms" "m_signing_key m = Some sk"
    "bind_parent_commitments E cs (with_identity E (m_public_key m) ((block_template work)\<lparr>b_nonce := share_nonce share\<rparr>)) = Some (Ok b1)"
    "sign sk (hash_bytes (digest512 E ''birth-certificate'' (hash_bytes (settlement_id E b1)))) = Ok sg"
    "b = b1\<lparr>birth_certificate := sg, stark_proof := prove (block_hash E b1), b_size := x\<rparr>"
    "verify_pow (block_hash E b1) (b_difficulty b1)"
    by (rule assembled [OF s a w'(5)])
  define b0 where "b0 = with_identity E (m_public_key m) ((block_template work)\<lparr>b_nonce := share_nonce share\<rparr>)"
  have f0: "parents b0 = template_parents cs" "timestamp b0 = now" "b_difficulty b0 = b_difficulty (block_template work)" "body_from E cs b0"
    "b_merkle_root b0 = block_merkle_root E b0" "creator_pubkey b0 = m_public_key m" "miner b0 = address_hash E (m_public_key m)"
    using w' by (simp_all add: b0_def with_identity_def Let_def body_from_def block_merkle_root_def)
  obtain gd sp sroot where g: "try_compute_ghostdag_data (dag cs) (ghostdag cs) (reach cs) (parents b0) MAX_MERGESET_SIZE = Some (Ok gd)"
    "selected_parent gd = Some sp" "post_mergeset_state_root E cs sp (merged_blocks gd) b0 (blue_score gd) = Some (Ok sroot)"
    "b1 = b0\<lparr>interlinks := (case hget (dag cs) sp of None \<Rightarrow> [] | Some p \<Rightarrow> compute_interlinks E p), b_state_root := sroot\<rparr>"
    by (rule bind_ok [OF m(3) [folded b0_def]])
  have hash: "block_hash E b = block_hash E b1" "settlement_id E b = settlement_id E b1"
    by (simp_all add: m(5) block_hash_def settlement_id_def absorb_identity_def)
  have fb: "parents b = template_parents cs" "timestamp b = now" "b_difficulty b = b_difficulty (block_template work)" "body_from E cs b"
    "b_merkle_root b = block_merkle_root E b" "creator_pubkey b = m_public_key m" "miner b = address_hash E (m_public_key m)"
    "interlinks b = (case hget (dag cs) sp of None \<Rightarrow> [] | Some p \<Rightarrow> compute_interlinks E p)" "b_state_root b = sroot"
    "stark_proof b = prove (block_hash E b1)" "birth_certificate b = sg" "b_difficulty b1 = b_difficulty b"
    using f0 by (simp_all add: m(5) g(4) body_from_def block_merkle_root_def)
  have vs: "verify_signature E (m_public_key m) (hash_bytes (digest512 E ''birth-certificate'' (hash_bytes (settlement_id E b1)))) sg"
    by (rule keys [OF m(1,2,4)])
  have st: "check_structure E cs b = Ok ()" unfolding check_structure_Ok using fresh size tp fb(1) by simp
  have sp: "sp = t"
    using try_compute_ok [OF dag_run_inv [OF d(1)] tp(2,5) cap, of MAX_MERGESET_SIZE] g(1,2) tp(1) f0(1)
    by (auto simp: colored_def split: if_splits)
  have fin: "check_finality cs b = Some (Ok ())"
  proof -
    obtain fp where fp: "finality_point cs = Some fp" by (rule finality_point_eq [OF d(3) tip])
    show ?thesis
    proof (cases fp)
      case (Some f)
      note fc = finality_on_chain [OF d(3) tip fp [unfolded Some]]
      have "is_chain_ancestor (reach cs) f t = Some True"
        using is_chain_ancestor_selected [OF d(1)] fc(1,2) selected_tip_Some(2) [OF tip] d(4) by simp
      then show ?thesis by (simp add: check_finality_def fp Some fb(1) tp(1))
    qed (simp add: check_finality_def fp)
  qed
  have hd: "check_header E cs b (b_difficulty b) = Ok t"
  proof -
    have "precheck_format E (prove (block_hash E b1)) = Ok ()" using stark by simp
    moreover from this have "prove (block_hash E b1) \<noteq> []" by (auto simp: precheck_format_def)
    moreover have "sg \<noteq> []" using vs sl by (auto simp: verify_signature_def)
    ultimately show ?thesis using m(6) fb tp(1) hash sp by (simp add: check_header_def)
  qed
  have "verify_issuance E b = Ok ()"
    using vs fb by (simp add: verify_issuance_def birth_verify_def verify_pq512_def verify_signature_def hash)
  moreover have "verify_stark_proof E b" using stark by (simp add: verify_stark_proof_def fb(10) hash is_ok_def)
  ultimately have wit: "check_witnesses E now' pin cs b t = Ok ()"
    using clock fb body_forms_ok [OF q an fb(4)] by (simp add: check_witnesses_def)
  have "post_mergeset_state_root E cs t (merged_blocks gd) b (blue_score gd) = Some (Ok (b_state_root b))"
    using g(3) post_root_cong [of b0 b E cs sp "merged_blocks gd" "blue_score gd"] sp fb(9) by (simp add: m(5) g(4) same_content_def)
  then have "validate_block E lab now' pin cs b = Some (Ok gd)"
    using st fin hd wit g(1) w'(4) by (simp add: validate_block_def fb(1,2,3) f0(1))
  then show ?thesis by blast
qed

section \<open>A concrete production\<close>

lemma max_parent_timestamp_mono:
  assumes "set ps \<subseteq> set qs"
  shows "max_parent_timestamp dg ps \<le> max_parent_timestamp dg qs"
proof -
  have le: "foldr max xs 0 \<le> m \<longleftrightarrow> (\<forall>x\<in>set xs. x \<le> m)" for xs :: "nat list" and m by (induction xs) auto
  have "x \<le> foldr max (map timestamp (List.map_filter (hget dg) qs)) 0" if "x \<in> set (map timestamp (List.map_filter (hget dg) ps))" for x
    using that assms le [of "map timestamp (List.map_filter (hget dg) qs)" "foldr max (map timestamp (List.map_filter (hget dg) qs)) 0"]
    by (auto simp: List.map_filter_def)
  then show ?thesis unfolding max_parent_timestamp_def using le by blast
qed

lemma demo_bind:
  assumes g: "at_genesis demo_chain_env cs" and b: "parents b = [- 1]" "body_length b = 0"
  shows "bind_parent_commitments demo_chain_env cs b = Some (Ok (b\<lparr>interlinks := [- 1], b_state_root := 7\<rparr>))"
proof -
  have d: "dag cs = [(- 1, genesis_block)]" "ghostdag cs = [(- 1, ghostdag_genesis)]" "base_frontier cs = None" "live cs = ledger_default"
    "\<not> base_captured cs" using g by (simp_all add: at_genesis_def demo_hashes)
  have o: "canonical_order_at (dag cs) (ghostdag cs) (- 1) = Some [- 1]"
    by (simp add: d canonical_order_at_def hhas_def selected_chain_def chain_loop_steps ghostdag_genesis_def order_step_def merged_blocks_def)
  have v: "virtual_state_at demo_chain_env cs (- 1) = Some ([(- 1, ghostdag_genesis)], ledger_default)"
    unfolding virtual_state_at_def o using d
    by (simp add: replay_start_def apply_block_effects_def) (simp add: genesis_block_def)
  have s: "simulate_apply_block_body demo_chain_env cid tip (b\<lparr>interlinks := i\<rparr>) blue l = Ok (l, 0)" for cid tip blue l i
    using b(2) by (simp add: simulate_apply_block_body_def body_length_def)
  have r: "ledger_merkle_root demo_chain_env (apply_block_reward demo_chain_env b' 1 0 ledger_default) = 7" for b'
    by (simp add: ledger_merkle_root_def demo_hash apply_block_reward_def ledger_default_def Let_def str_bytes_def)
  have c: "try_compute_ghostdag_data (dag cs) (ghostdag cs) (reach cs) [- 1] MAX_MERGESET_SIZE = Some (Ok demo_gd1)"
    using demo_colors [OF g] by (simp add: demo_b1_def)
  have lv: "superblock_level (- 1) 1 = 0" by (simp add: superblock_level_def unsigned_minus_1_eq_mask mask_eq_exp_minus_1)
  have il: "compute_interlinks demo_chain_env genesis_block = [- 1]"
    using lv by (simp add: compute_interlinks_def demo_hashes Let_def) (simp add: genesis_block_def)
  have "post_mergeset_state_root demo_chain_env cs (- 1) (merged_blocks demo_gd1) (b\<lparr>interlinks := i\<rparr>) (blue_score demo_gd1) = Some (Ok 7)" for i
    by (simp add: post_mergeset_state_root_def v s r [unfolded One_nat_def] merged_blocks_def demo_gd1_def)
  then show ?thesis unfolding bind_parent_commitments_def b(1) c by (simp add: demo_gd1_def d(1) il Let_def)
qed

definition demo_miner :: miner_info where
  "demo_miner = \<lparr>m_address = encode_hash (address_hash demo_chain_env [0]), m_public_key = [0], m_signing_key = Some []\<rparr>"

definition demo_signer :: "bytes \<Rightarrow> bytes \<Rightarrow> bytes result" where "demo_signer sk msg = Ok [0]"

definition demo_prover :: "hash \<Rightarrow> bytes" where "demo_prover h = replicate 17 0"

lemma demo_template:
  assumes g: "at_genesis demo_chain_env cs" and q: "transparent_mempool cs = []" "utxo_mempool cs = []" "registry_mempool cs = []" "custody_mempool cs = []"
  obtains w where "create_block_template demo_chain_env True now 0 cs = Some (Ok w)"
    and "parents (block_template w) = [- 1]" and "body_length (block_template w) = 0"
    and "b_difficulty (block_template w) = era_min_difficulty True 0" and "w_target w = pow_target (era_min_difficulty True 0)"
    and "interlinks (block_template w) = [- 1]" and "block_template w = (block_template w)\<lparr>stark_proof := replicate 64 0\<rparr>"
proof -
  have tp: "template_parents cs = [- 1]" using g by (simp add: template_parents_def at_genesis_def demo_hashes MAX_BLOCK_PARENTS_def)
  have df: "expected_difficulty_at True (dag cs) (ghostdag cs) (minted_supply (live cs)) [- 1] ts = Some (era_min_difficulty True 0)" for ts
    using demo_difficulty [OF g] by (simp add: demo_b1_def)
  obtain b where b: "template_body demo_chain_env True now 0 cs = Some b" "parents b = [- 1]" "body_length b = 0"
      "b_difficulty b = era_min_difficulty True 0" "stark_proof b = replicate 64 0"
    by (simp add: template_body_def tp df q select_valid_block_txs_def select_valid_utxo_txs_def select_valid_registry_ops_def
        select_valid_custody_ops_def body_length_def)
  have tb: "\<not> too_big demo_chain_env x" for x
    by (simp add: too_big_def verify_size_def base_size_def demo_chain_env_def demo_env_def)
  then have tr: "trim_template demo_chain_env x = x" for x by (simp add: trim_template.simps [of demo_chain_env x])
  define b1 where "b1 = b\<lparr>interlinks := [- 1], b_state_root := 7, b_merkle_root := block_merkle_root demo_chain_env b\<rparr>"
  have "bind_parent_commitments demo_chain_env cs b = Some (Ok (b\<lparr>interlinks := [- 1], b_state_root := 7\<rparr>))"
    by (rule demo_bind [OF g b(2,3)])
  moreover have "bind_parent_commitments demo_chain_env cs b1 = Some (Ok (b1\<lparr>interlinks := [- 1], b_state_root := 7\<rparr>))"
    by (rule demo_bind [OF g]) (use b in \<open>simp_all add: b1_def body_length_def\<close>)
  moreover have "b\<lparr>interlinks := [- 1], b_state_root := 7, b_merkle_root := block_merkle_root demo_chain_env (b\<lparr>interlinks := [- 1], b_state_root := 7\<rparr>)\<rparr> = b1"
    by (simp add: b1_def block_merkle_root_def)
  ultimately have "create_block_template demo_chain_env True now 0 cs = Some (Ok \<lparr>block_template = b1, w_target = pow_target (b_difficulty b1)\<rparr>)"
    by (simp add: create_block_template_def b(1) tr Let_def) (simp add: b1_def)
  then show thesis by (rule that) (use b in \<open>simp_all add: b1_def body_length_def\<close>)
qed

lemma demo_share:
  assumes g: "at_genesis demo_chain_env cs" and w: "parents (block_template w) = [- 1]" "body_length (block_template w) = 0"
    "w_target w = pow_target (era_min_difficulty True 0)"
  shows "check_miner_shares demo_chain_env [0] cs [demo_miner] w = Some (Some \<lparr>share_nonce = 0, share_miner = m_address demo_miner, share_result = 7\<rparr>)"
    and "\<exists>b. assemble_block demo_chain_env demo_signer demo_prover cs [demo_miner] w \<lparr>share_nonce = 0, share_miner = m_address demo_miner, share_result = 7\<rparr>
        = Some (Ok b) \<and> block_hash demo_chain_env b = 7"
proof -
  define b0 where "b0 = with_identity demo_chain_env [0] (block_template w)"
  have b0: "parents b0 = [- 1]" "body_length b0 = 0" "creator_pubkey b0 = [0]"
    using w by (simp_all add: b0_def with_identity_def body_length_def Let_def)
  have h: "block_hash demo_chain_env x = 7" if "parents x = [- 1]" "interlinks x = [- 1]" "creator_pubkey x = [0]" for x
    by (simp add: block_hash_def demo_hash absorb_identity_def that GENESIS_DOMAIN_def str_bytes_def)
  have am: "address_matches_pubkey demo_chain_env (m_address demo_miner) [0]" by (simp add: demo_miner_def address_matches_pubkey_def addresses_equivalent_def Let_def)
  have pow: "hash_meets_target 7 (w_target w)"
    by (simp add: w(3) hash_meets_target_def pow_target_def era_min_difficulty_def BOOTSTRAP_MIN_DIFFICULTY_def)
  have n: "bind_parent_commitments demo_chain_env cs (b0\<lparr>b_nonce := n\<rparr>) = Some (Ok (b0\<lparr>b_nonce := n, interlinks := [- 1], b_state_root := 7\<rparr>))" for n
    using demo_bind [OF g, of "b0\<lparr>b_nonce := n\<rparr>"] b0 by (simp add: body_length_def)
  have pk: "m_public_key demo_miner = [0]" "m_signing_key demo_miner = Some []" by (simp_all add: demo_miner_def)
  show "check_miner_shares demo_chain_env [0] cs [demo_miner] w = Some (Some \<lparr>share_nonce = 0, share_miner = m_address demo_miner, share_result = 7\<rparr>)"
    using demo_bind [OF g b0(1,2)] am pow b0
    by (simp add: check_miner_shares_def pk b0_def [symmetric] h)
  define b1 where "b1 = b0\<lparr>b_nonce := 0, interlinks := [- 1], b_state_root := 7, birth_certificate := [0]\<rparr>"
  have "assemble_block demo_chain_env demo_signer demo_prover cs [demo_miner] w \<lparr>share_nonce = 0, share_miner = m_address demo_miner, share_result = 7\<rparr>
      = Some (Ok (b1\<lparr>stark_proof := replicate 17 0, b_size := length (ser_block demo_chain_env (b1\<lparr>stark_proof := replicate 17 0\<rparr>))\<rparr>))"
    using am n [of 0]
    by (simp add: assemble_block_def pk with_identity_nonce b0_def [symmetric] issue_birth_certificate_def demo_signer_def demo_prover_def Let_def b1_def)
  moreover have "block_hash demo_chain_env (b1\<lparr>stark_proof := p, b_size := z\<rparr>) = 7" for p z by (rule h) (simp_all add: b1_def b0)
  ultimately show "\<exists>b. assemble_block demo_chain_env demo_signer demo_prover cs [demo_miner] w \<lparr>share_nonce = 0, share_miner = m_address demo_miner, share_result = 7\<rparr>
        = Some (Ok b) \<and> block_hash demo_chain_env b = 7" by blast
qed

section \<open>Properties\<close>

text \<open>
  C10. A node accepts the block it mines. On an archival node that any sequence of blocks and admissions to its queues
  has produced, a template, a share found on it and the block assembled from them pass every check of
  \<open>add_block\<close>, which extends the DAG by exactly this block: parents, finality, difficulty, proof of work, interlinks,
  commitments, witnesses, forms and state root are those the admission expects. Assumed are a signer whose signatures
  verify, a prover whose proofs verify, a block hash not seen before, a clock past the parents' and the median time, and the two size
  limits for the finished block, since the template is trimmed before the miner's key and the witnesses are in it.
\<close>
theorem mined_block_accepted:
  assumes "node_hist E lab True cs" and "length (dag cs) < 2 ^ 41"
    and "create_block_template E lab now entropy cs = Some (Ok work)"
    and "check_miner_shares E tried cs ms work = Some (Some share)"
    and "assemble_block E sign prove cs ms work share = Some (Ok b)"
    and "\<forall>m\<in>set ms. \<forall>sk msg sg. m_signing_key m = Some sk \<longrightarrow> sign sk msg = Ok sg \<longrightarrow> verify_signature E (m_public_key m) msg sg" and "0 < sig_len E"
    and "\<forall>h. precheck_format E (prove h) = Ok () \<and> stark_verify E h (prove h)"
    and "\<not> hhas (dag cs) (block_hash E b)" and "verify_size E b" and "length (ser_block E b) \<le> MAX_BLOCK_BYTES"
    and "max_parent_timestamp (dag cs) (tips cs) \<le> now" and "\<forall>t. selected_tip (ghostdag cs) (tips cs) = Some t \<longrightarrow> past_median_time (dag cs) (ghostdag cs) t < now"
    and "now \<le> now'" and "now' < 2 ^ 64"
  shows "\<exists>cs'. add_block E lab now' pin b cs = Some (cs', Ok ()) \<and> dag cs' = hput (block_hash E b) b (dag cs)"
proof -
  have inv: "chain_inv E cs" by (rule node_hist_inv [OF assms(1)])
  obtain t where t: "selected_tip (ghostdag cs) (tips cs) = Some t" using inv by (auto simp: chain_inv_def tip_ok_def)
  have "set (template_parents cs) \<subseteq> set (tips cs)" by (auto simp: template_parents_def dest: in_set_takeD)
  then have "max_parent_timestamp (dag cs) (template_parents cs) \<le> max_parent_timestamp (dag cs) (tips cs)" by (rule max_parent_timestamp_mono)
  moreover have "now \<le> sat_add64 now' MAX_FUTURE_DRIFT_MS" using assms(14,15) by (auto simp: sat_add64_def MAX_FUTURE_DRIFT_MS_def)
  ultimately obtain gd where v: "validate_block E lab now' pin cs b = Some (Ok gd)"
    using produced_block_valid [OF inv node_hist_queues [OF assms(1)] node_hist_anchored [OF assms(1)] assms(2-5) _ assms(7) _ assms(9-11) t, of now' pin]
      assms(6,8,12,13) t by fastforce
  from commit_block_ok [OF inv v assms(2)] show ?thesis by (metis add_block_def [of E lab now' pin b cs, unfolded v option.case sum.case] option.map(2))
qed

theorem mined_block_accepted_witness:
  "\<exists>cs work share b cs'. node_hist demo_chain_env True True cs
    \<and> create_block_template demo_chain_env True (GENESIS_TIMESTAMP_MS + 1) 0 cs = Some (Ok work)
    \<and> check_miner_shares demo_chain_env [0] cs [demo_miner] work = Some (Some share)
    \<and> assemble_block demo_chain_env demo_signer demo_prover cs [demo_miner] work share = Some (Ok b)
    \<and> add_block demo_chain_env True (GENESIS_TIMESTAMP_MS + 1) None b cs = Some (cs', Ok ()) \<and> dag cs' = hput (block_hash demo_chain_env b) b (dag cs)"
proof -
  obtain cs0 where c: "chain_new demo_chain_env True = Some cs0" "at_genesis demo_chain_env cs0" by (rule chain_new_genesis)
  define cs where "cs = cs0\<lparr>archival := True\<rparr>"
  have nh: "node_hist demo_chain_env True True cs" unfolding cs_def by (rule node_hist.start [OF c(1)])
  have g: "at_genesis demo_chain_env cs" using c(2) by (simp add: cs_def at_genesis_def)
  have q: "transparent_mempool cs = []" "utxo_mempool cs = []" "registry_mempool cs = []" "custody_mempool cs = []"
    using c(1) by (auto simp: cs_def chain_new_def Let_def split: option.splits)
  obtain w where w: "create_block_template demo_chain_env True (GENESIS_TIMESTAMP_MS + 1) 0 cs = Some (Ok w)"
    "parents (block_template w) = [- 1]" "body_length (block_template w) = 0" "w_target w = pow_target (era_min_difficulty True 0)"
    by (rule demo_template [OF g q])
  note sh = demo_share [OF g w(2-4)]
  obtain b where b: "assemble_block demo_chain_env demo_signer demo_prover cs [demo_miner] w \<lparr>share_nonce = 0, share_miner = m_address demo_miner, share_result = 7\<rparr>
      = Some (Ok b)" "block_hash demo_chain_env b = 7" using sh(2) by blast
  have d: "dag cs = [(- 1, genesis_block)]" "ghostdag cs = [(- 1, ghostdag_genesis)]" "tips cs = [- 1]" using g by (simp_all add: at_genesis_def demo_hashes)
  have ts: "timestamp genesis_block = GENESIS_TIMESTAMP_MS" by (simp add: genesis_block_def)
  have 1: "max_parent_timestamp (dag cs) (tips cs) \<le> GENESIS_TIMESTAMP_MS + 1"
    by (simp add: max_parent_timestamp_def d List.map_filter_def ts)
  have 2: "\<forall>t. selected_tip (ghostdag cs) (tips cs) = Some t \<longrightarrow> past_median_time (dag cs) (ghostdag cs) t < GENESIS_TIMESTAMP_MS + 1"
    using demo_selects(2) [OF g] by (simp add: past_median_time_def d eval_nat_numeral ghostdag_genesis_def ts)
  have 3: "\<forall>m\<in>set [demo_miner]. \<forall>sk msg sg. m_signing_key m = Some sk \<longrightarrow> demo_signer sk msg = Ok sg \<longrightarrow> verify_signature demo_chain_env (m_public_key m) msg sg"
    by (auto simp: demo_miner_def demo_signer_def verify_signature_def demo_chain_env_def demo_env_def)
  have 4: "\<forall>h. precheck_format demo_chain_env (demo_prover h) = Ok () \<and> stark_verify demo_chain_env h (demo_prover h)"
    by (simp add: precheck_format_def RESULT_HEADER_LEN_def MAX_STARK_PROOF_BYTES_def demo_prover_def demo_chain_env_def demo_env_def)
  have 5: "0 < sig_len demo_chain_env" "verify_size demo_chain_env b" "length (ser_block demo_chain_env b) \<le> MAX_BLOCK_BYTES"
    by (simp_all add: demo_chain_env_def demo_env_def verify_size_def base_size_def)
  have 6: "\<not> hhas (dag cs) (block_hash demo_chain_env b)" "length (dag cs) < 2 ^ 41" by (simp_all add: d b(2) hhas_def)
  have 7: "GENESIS_TIMESTAMP_MS + 1 < 2 ^ 64" by (simp add: GENESIS_TIMESTAMP_MS_def)
  from mined_block_accepted [OF nh 6(2) w(1) sh(1) b(1) 3 5(1) 4 6(1) 5(2,3) 1 2 order.refl 7, of None] nh w(1) sh(1) b(1)
  show ?thesis by blast
qed

end
