(* ===== verification/Superproof.thy ===== *)
theory Superproof
  imports Admission
begin

text \<open>
  Pruning proofs: the succinct multi-level proof of \<open>src/superproof.rs\<close> with its builder, verifier and freshness
  gate, and the linear header proof of \<open>src/lib.rs\<close>. The clock is the argument \<open>now\<close>. The builder's walk is
  a partial function: \<open>None\<close> is a walk that does not end, \<open>Some None\<close> the source's \<open>None\<close>.
\<close>

section \<open>Data\<close>

definition MAX_MULTILEVEL_HOPS :: nat where "MAX_MULTILEVEL_HOPS = 512"
definition MAX_MULTILEVEL_RECENT :: nat where "MAX_MULTILEVEL_RECENT = 8192"
definition MAX_MULTILEVEL_HEADERS :: nat where "MAX_MULTILEVEL_HEADERS = MAX_MULTILEVEL_HOPS + MAX_MULTILEVEL_RECENT"
definition MAX_PRUNING_PROOF_HEADERS :: nat where "MAX_PRUNING_PROOF_HEADERS = 1000000"
definition GENESIS_DIFFICULTY :: nat where "GENESIS_DIFFICULTY = 1"

abbreviation genesis_hash :: "env \<Rightarrow> hash" where "genesis_hash E \<equiv> block_hash E genesis_block"

record multilevel_proof =
  recent_headers :: "block list"
  hops :: "block list"
  claimed_verified_work :: "nat option"

record multilevel_summary =
  ml_pruning_point :: hash
  verified_work :: nat
  estimated_total_work :: nat
  ml_header_count :: nat

definition headers_genesis_first :: "multilevel_proof \<Rightarrow> block list" where
  "headers_genesis_first p = rev (hops p) @ recent_headers p"

section \<open>Building\<close>

partial_function (option) hop_walk :: "env \<Rightarrow> block list \<Rightarrow> nat \<Rightarrow> block \<Rightarrow> block list \<Rightarrow> block list option option" where
  "hop_walk E chain split cursor acc =
     (if block_hash E cursor = genesis_hash E \<and> parents cursor = [] then Some (Some (acc @ [cursor]))
      else if interlinks cursor = []
      then (case List.find (\<lambda>b. block_hash E b \<in> set (parents cursor) \<and> block_hash E b \<noteq> block_hash E cursor) (rev (take split chain)) of
              None \<Rightarrow> Some None
            | Some prev \<Rightarrow> hop_walk E chain split (header_only prev) (acc @ [cursor]))
      else (case List.find (\<lambda>b. block_hash E b = last (interlinks cursor)) chain of
              None \<Rightarrow> Some None
            | Some next \<Rightarrow> hop_walk E chain split (header_only next) (acc @ [cursor])))"

declare hop_walk.simps [code]

definition build_multilevel :: "env \<Rightarrow> block list \<Rightarrow> nat \<Rightarrow> multilevel_proof option option" where
  "build_multilevel E chain recent_window =
     (if chain = [] then Some None
      else
        let split = length chain - max recent_window 1
        in if split = 0 then Some None
           else map_option (map_option (\<lambda>hs. \<lparr>recent_headers = map header_only (drop split chain), hops = hs, claimed_verified_work = None\<rparr>))
                  (hop_walk E chain split (header_only (chain ! (split - 1))) []))"

section \<open>Structure\<close>

definition check_hop :: "env \<Rightarrow> bool \<Rightarrow> block list \<Rightarrow> nat \<Rightarrow> unit result" where
  "check_hop E lab hs i =
     (let hop = hs ! i; older = hs ! (i + 1)
      in if block_hash E hop \<in> block_hash E ` set (take i hs) then Err ''duplicate hop''
         else if i + 1 \<noteq> length hs \<and> b_difficulty hop < era_min_difficulty lab 0 then Err ''hop difficulty below minimum''
         else if i + 1 < length hs \<and> height hop \<le> height older then Err ''hop chain height out of order''
         else if i + 1 < length hs \<and> timestamp hop < timestamp older then Err ''hop timestamp predates its ancestor''
         else Ok ())"

definition check_recent :: "env \<Rightarrow> bool \<Rightarrow> block list \<Rightarrow> block \<Rightarrow> block list \<Rightarrow> nat \<Rightarrow> unit result" where
  "check_recent E lab hs boundary r i =
     (let cur = r ! i; prev = r ! (i - 1)
      in if block_hash E cur \<in> block_hash E ` set hs \<or> block_hash E cur \<in> block_hash E ` set (take i r)
         then Err ''duplicate header in recent window''
         else if b_difficulty cur < era_min_difficulty lab 0 then Err ''recent header difficulty below minimum''
         else if height cur \<noteq> sat_add64 (sat_add64 (height boundary) 1) i then Err ''recent header height is not contiguous''
         else if i > 0
         then (if block_hash E prev \<notin> set (parents cur) then Err ''broken chain linkage at recent header''
               else if timestamp cur < timestamp prev then Err ''recent header timestamp predates its parent'' else Ok ())
         else if timestamp cur < timestamp boundary then Err ''recent header 0 timestamp predates the hop boundary''
         else Ok ())"

definition validate_multilevel_proof_structure :: "env \<Rightarrow> bool \<Rightarrow> multilevel_proof \<Rightarrow> unit result" where
  "validate_multilevel_proof_structure E lab p =
     (let hs = hops p; r = recent_headers p
      in if r = [] then Err ''empty recent-headers window''
         else if hs = [] then Err ''empty hop chain''
         else if length hs > MAX_MULTILEVEL_HOPS then Err ''hop chain exceeds the hop limit''
         else if length r > MAX_MULTILEVEL_RECENT then Err ''recent window exceeds the size limit''
         else if length hs + length r > MAX_MULTILEVEL_HEADERS then Err ''multi-level proof exceeds the header limit''
         else if block_hash E (last hs) \<noteq> genesis_hash E \<or> parents (last hs) \<noteq> [] then Err ''hop chain does not terminate at genesis''
         else if height (last hs) \<noteq> 0 then Err ''genesis hop must claim height 0''
         else
           (case fold_res (\<lambda>i _. check_hop E lab hs i) [0 ..< length hs] () of
              Inl e \<Rightarrow> Err e
            | Inr _ \<Rightarrow>
                if block_hash E (hd hs) \<notin> set (parents (hd r)) then Err ''recent window does not chain from the hop boundary''
                else fold_res (\<lambda>i _. check_recent E lab hs (hd hs) r i) [0 ..< length r] ()))"

section \<open>Verifying\<close>

definition verify_hop :: "env \<Rightarrow> bool \<Rightarrow> block list \<Rightarrow> nat \<Rightarrow> nat \<times> nat \<Rightarrow> (nat \<times> nat) result" where
  \<comment> \<open>hop \<open>i\<close> against the older hop \<open>i + 1\<close>, over the two sums of work\<close>
  "verify_hop E lab hs i s =
     (let cur = hs ! i; older = hs ! (i + 1);
          flr = era_min_difficulty lab (cumulative_issuance (height cur));
          (lo, hi) = hop_difficulty_bounds (b_difficulty older) (height cur - height older) flr;
          via_interlink = (block_hash E older \<in> set (interlinks cur));
          via_parent = (block_hash E older \<in> set (parents cur))
      in if \<not> verify_pow (block_hash E cur) (b_difficulty cur) then Err ''hop fails its proof-of-work''
         else if b_difficulty cur < flr then Err ''hop claims difficulty below its era floor''
         else if b_difficulty cur < lo \<or> b_difficulty cur > hi then Err ''hop difficulty outside DAA clamp anchor''
         else if \<not> via_interlink \<and> \<not> via_parent then Err ''hop is not a legitimate ancestor''
         else
           let level = length (takeWhile (\<lambda>h. h \<noteq> block_hash E older) (interlinks cur));
               multiplier = (if level < 128 then 2 ^ level else 2 ^ 128 - 1)
           in Ok (sat_add128 (fst s) (b_difficulty cur),
                  sat_add128 (snd s) (if via_interlink then sat_mul128 (b_difficulty cur) multiplier else b_difficulty cur)))"

definition recent_difficulty_ok :: "bool \<Rightarrow> block \<Rightarrow> block list \<Rightarrow> nat \<Rightarrow> unit result" where
  "recent_difficulty_ok lab boundary r i =
     (let cur = r ! i; flr = era_min_difficulty lab (cumulative_issuance (height cur))
      in if i < DAA_WINDOW
         then (let (lo, hi) = hop_difficulty_bounds (max (b_difficulty boundary) flr) (height cur - height boundary) flr
               in if b_difficulty cur < lo \<or> b_difficulty cur > hi then Err ''recent header difficulty outside boundary DAA clamp'' else Ok ())
         else
           let sp_difficulty = max (b_difficulty (r ! (i - 1))) flr;
               expected = max (retarget_difficulty sp_difficulty (timestamp (r ! (i - 1))) (timestamp (r ! (i - DAA_WINDOW))) flr) flr
           in if b_difficulty cur \<noteq> expected then Err ''recent header claims a non-DAA difficulty'' else Ok ())"

definition verify_recent :: "env \<Rightarrow> bool \<Rightarrow> nat \<Rightarrow> block \<Rightarrow> block list \<Rightarrow> nat \<Rightarrow> nat \<times> nat \<Rightarrow> (nat \<times> nat) result" where
  "verify_recent E lab now boundary r i s =
     (case recent_difficulty_ok lab boundary r i of
        Inl e \<Rightarrow> Err e
      | Inr _ \<Rightarrow>
          let cur = r ! i
          in if \<not> verify_pow (block_hash E cur) (b_difficulty cur) then Err ''recent header fails its proof-of-work''
             else if timestamp cur > sat_add64 now MAX_FUTURE_DRIFT_MS then Err ''recent header timestamp is too far in the future''
             else Ok (sat_add128 (fst s) (b_difficulty cur), sat_add128 (snd s) (b_difficulty cur)))"

definition header_work_sum :: "multilevel_proof \<Rightarrow> nat" where
  "header_work_sum p = sum_list (map b_difficulty (hops p @ recent_headers p)) mod 2 ^ 128"

definition min_included_work :: "bool \<Rightarrow> multilevel_proof \<Rightarrow> nat" where
  "min_included_work lab p =
     sum_list (map (\<lambda>b. if parents b = [] then GENESIS_DIFFICULTY else effective_min_difficulty lab) (hops p @ recent_headers p)) mod 2 ^ 128"

definition work_checks :: "bool \<Rightarrow> multilevel_proof \<Rightarrow> nat \<Rightarrow> unit result" where
  "work_checks lab p vw =
     (if vw \<noteq> header_work_sum p then Err ''verified_work inconsistent with included headers''
      else if (case claimed_verified_work p of None \<Rightarrow> False | Some claimed \<Rightarrow> claimed > header_work_sum p)
      then Err ''claimed verified_work exceeds sum of included headers''
      else if height (last (recent_headers p)) > 0 \<and> vw < min_included_work lab p
      then Err ''suspiciously low verified_work for included headers''
      else Ok ())"

definition verify_multilevel_pruning_proof :: "env \<Rightarrow> bool \<Rightarrow> nat \<Rightarrow> multilevel_proof \<Rightarrow> multilevel_summary result" where
  "verify_multilevel_pruning_proof E lab now p =
     (case validate_multilevel_proof_structure E lab p of
        Inl e \<Rightarrow> Err e
      | Inr _ \<Rightarrow>
          let hs = hops p; r = recent_headers p; g = last hs
          in if \<not> verify_pow (block_hash E g) (b_difficulty g) then Err ''genesis hop fails its proof-of-work''
             else
               (case fold_res (verify_hop E lab hs) (rev [0 ..< length hs - 1]) (b_difficulty g, b_difficulty g) of
                  Inl e \<Rightarrow> Err e
                | Inr s \<Rightarrow>
                    (case fold_res (verify_recent E lab now (hd hs) r) [0 ..< length r] s of
                       Inl e \<Rightarrow> Err e
                     | Inr (vw, est) \<Rightarrow>
                         (case work_checks lab p vw of
                            Inl e \<Rightarrow> Err e
                          | Inr _ \<Rightarrow>
                              Ok \<lparr>ml_pruning_point = block_hash E (last r), verified_work = vw, estimated_total_work = est,
                                  ml_header_count = length hs + length r\<rparr>))))"

section \<open>Freshness and adoption\<close>

definition pruning_proof_max_staleness_ms :: nat where
  "pruning_proof_max_staleness_ms = sat_mul64 FINALITY_DEPTH BLOCK_TIME_MS"

record ibd_context =
  ctx_now_ms :: nat
  local_best_work :: nat
  local_tip_height :: nat
  local_tip_timestamp :: nat
  local_past_genesis :: bool

definition check_ibd_proof_freshness :: "env \<Rightarrow> hash \<Rightarrow> nat \<Rightarrow> nat \<Rightarrow> nat \<Rightarrow> ibd_context \<Rightarrow> unit result" where
  "check_ibd_proof_freshness E proof_genesis tip_h tip_ts vw ctx =
     (if proof_genesis \<noteq> genesis_hash E then Err ''pruning proof genesis does not match local genesis (upgrade gate)''
      else if tip_ts > sat_add64 (ctx_now_ms ctx) MAX_FUTURE_DRIFT_MS then Err ''pruning proof tip too far in the future''
      else if local_best_work ctx > 0 \<and> vw \<le> local_best_work ctx then Err ''pruning proof verified_work does not beat local best''
      else if local_past_genesis ctx \<and> sat_add64 tip_ts pruning_proof_max_staleness_ms < local_tip_timestamp ctx
              \<and> sat_add64 tip_h (FINALITY_DEPTH div 2) < local_tip_height ctx
      then Err ''stale pruning proof (tip far behind local chain)''
      else Ok ())"

definition adopt_multilevel_pruning_proof :: "env \<Rightarrow> bool \<Rightarrow> nat \<Rightarrow> multilevel_proof \<Rightarrow> (multilevel_summary \<Rightarrow> 'a) \<Rightarrow> 'a result" where
  "adopt_multilevel_pruning_proof E lab now p adopt =
     (case verify_multilevel_pruning_proof E lab now p of Inl e \<Rightarrow> Err e | Inr s \<Rightarrow> Ok (adopt s))"

definition adopt_multilevel_pruning_proof_fresh ::
  "env \<Rightarrow> bool \<Rightarrow> nat \<Rightarrow> multilevel_proof \<Rightarrow> ibd_context \<Rightarrow> (multilevel_summary \<Rightarrow> 'a) \<Rightarrow> 'a result" where
  "adopt_multilevel_pruning_proof_fresh E lab now p ctx adopt =
     (case verify_multilevel_pruning_proof E lab now p of
        Inl e \<Rightarrow> Err e
      | Inr s \<Rightarrow>
          if recent_headers p = [] then Err ''empty recent window''
          else
            let tip = last (recent_headers p); g = (if hops p = [] then genesis_hash E else block_hash E (last (hops p)))
            in (case check_ibd_proof_freshness E g (height tip) (timestamp tip) (verified_work s) ctx of
                  Inl e \<Rightarrow> Err e
                | Inr _ \<Rightarrow> Ok (adopt s)))"

section \<open>The linear proof\<close>

record proof_summary =
  ps_pruning_point :: hash
  cumulative_work :: nat
  ps_header_count :: nat

definition expected_difficulty_linear :: "bool \<Rightarrow> block list \<Rightarrow> nat \<Rightarrow> nat" where
  "expected_difficulty_linear lab hs i =
     (let flr = era_min_difficulty lab (cumulative_issuance i); sp_difficulty = max (b_difficulty (hs ! (i - 1))) flr
      in if i < DAA_WINDOW then max sp_difficulty flr
         else max (retarget_difficulty sp_difficulty (timestamp (hs ! (i - 1))) (timestamp (hs ! (i - DAA_WINDOW))) flr) flr)"

definition verify_header :: "env \<Rightarrow> bool \<Rightarrow> nat \<Rightarrow> block list \<Rightarrow> nat \<Rightarrow> nat \<Rightarrow> nat result" where
  "verify_header E lab now hs i work =
     (let cur = hs ! i; prev = hs ! (i - 1)
      in if block_hash E prev \<notin> set (parents cur) then Err ''broken chain linkage''
         else if b_difficulty cur \<noteq> expected_difficulty_linear lab hs i then Err ''header claims a non-DAA difficulty''
         else if \<not> verify_pow (block_hash E cur) (b_difficulty cur) then Err ''header fails its proof-of-work''
         else if timestamp cur < timestamp prev then Err ''header timestamp predates its parent''
         else if timestamp cur > sat_add64 now MAX_FUTURE_DRIFT_MS then Err ''header timestamp is too far in the future''
         else Ok (sat_add128 work (b_difficulty cur)))"

definition verify_pruning_proof :: "env \<Rightarrow> bool \<Rightarrow> nat \<Rightarrow> block list \<Rightarrow> proof_summary result" where
  "verify_pruning_proof E lab now hs =
     (if hs = [] then Err ''empty pruning proof''
      else if length hs > MAX_PRUNING_PROOF_HEADERS then Err ''pruning proof exceeds the header limit''
      else if block_hash E (hd hs) \<noteq> genesis_hash E then Err ''pruning proof does not start at genesis''
      else if parents (hd hs) \<noteq> [] then Err ''genesis header must have no parents''
      else
        (case fold_res (verify_header E lab now hs) [1 ..< length hs] (b_difficulty (hd hs)) of
           Inl e \<Rightarrow> Err e
         | Inr work \<Rightarrow> Ok \<lparr>ps_pruning_point = block_hash E (last hs), cumulative_work = work, ps_header_count = length hs\<rparr>))"

section \<open>Serving proofs from the chain\<close>

fun headers_until :: "dag_map \<Rightarrow> hash \<Rightarrow> hash list \<Rightarrow> block list option" where
  \<comment> \<open>headers up to the pruning point; \<open>None\<close> for a missing header or when it is not reached\<close>
  "headers_until dg pp [] = None"
| "headers_until dg pp (h # hs) =
     (case hget dg h of
        None \<Rightarrow> None
      | Some b \<Rightarrow> if h = pp then Some [header_only b] else map_option (\<lambda>rest. header_only b # rest) (headers_until dg pp hs))"

definition proof_headers :: "env \<Rightarrow> chain_state \<Rightarrow> block list option option" where
  \<comment> \<open>the headers both builders start from\<close>
  "proof_headers E cs =
     (case (pruning_point cs, selected_tip (ghostdag cs) (tips cs)) of
        (Some pp, Some tip) \<Rightarrow>
          map_option (\<lambda>chain.
             case headers_until (dag cs) pp chain of
               None \<Rightarrow> None
             | Some hs \<Rightarrow> if block_hash E (hd hs) \<noteq> genesis_hash E then None else Some hs)
            (selected_chain (ghostdag cs) tip)
      | _ \<Rightarrow> Some None)"

definition build_pruning_proof :: "env \<Rightarrow> chain_state \<Rightarrow> block list option option" where
  "build_pruning_proof E cs = proof_headers E cs"

definition build_multilevel_pruning_proof :: "env \<Rightarrow> chain_state \<Rightarrow> nat \<Rightarrow> multilevel_proof option option" where
  "build_multilevel_pruning_proof E cs recent_window =
     (case proof_headers E cs of
        None \<Rightarrow> None
      | Some None \<Rightarrow> Some None
      | Some (Some hs) \<Rightarrow> build_multilevel E hs recent_window)"

end
