(* ===== verification/Superproof_Correct.thy ===== *)
theory Superproof_Correct
  imports Superproof Node_Correct
begin

text \<open>
  What a verified pruning proof establishes, for the multi-level and for the linear form: an unbroken chain of
  distinct headers from genesis, each with real proof of work, whose work is exactly the sum of their
  difficulties; and that the walk of the builder ends on an honest chain.
\<close>

section \<open>Loops over indices\<close>

lemma fold_res_checks: "fold_res (\<lambda>i _. f i) xs () = Ok () \<longleftrightarrow> (\<forall>i\<in>set xs. f i = Ok ())"
  by (induction xs) (auto split: sum.splits)

lemma fold_res_work:
  assumes step: "\<And>i s s'. f i s = Ok s' \<Longrightarrow> C i \<and> fst s' = sat_add128 (fst s) (d i) \<and> (fst s \<le> snd s \<longrightarrow> fst s' \<le> snd s')"
    and run: "fold_res f xs s = Ok s'" and le: "fst s \<le> snd s" "fst s \<le> u128_max"
  shows "(\<forall>i\<in>set xs. C i) \<and> fst s' = min (fst s + sum_list (map d xs)) u128_max \<and> fst s' \<le> snd s'"
  using run le
proof (induction xs arbitrary: s)
  case (Cons x xs)
  obtain s1 where s1: "f x s = Ok s1" "fold_res f xs s1 = Ok s'" using Cons.prems(1) by (auto split: sum.splits)
  note st = step [OF s1(1)]
  have "(\<forall>i\<in>set xs. C i) \<and> fst s' = min (fst s1 + sum_list (map d xs)) u128_max \<and> fst s' \<le> snd s'"
    by (rule Cons.IH [OF s1(2)]) (use st Cons.prems in \<open>auto simp: sat_add128_def\<close>)
  then show ?case using st by (auto simp: sat_add128_def)
qed simp

lemma sat_add128_mono:
  "a \<le> c \<Longrightarrow> sat_add128 a d \<le> sat_add128 c d"
  "a \<le> c \<Longrightarrow> sat_add128 a d \<le> sat_add128 c (sat_mul128 d (2 ^ n))"
  "a \<le> c \<Longrightarrow> sat_add128 a d \<le> sat_add128 c (sat_mul128 d u128_max)"
proof -
  have m: "1 \<le> m \<Longrightarrow> a \<le> c \<Longrightarrow> sat_add128 a d \<le> sat_add128 c (sat_mul128 d m)" for m
  proof -
    assume "1 \<le> m" "a \<le> c"
    then have "a + d \<le> c + d * m" by (simp add: add_mono)
    then show ?thesis by (auto simp: sat_add128_def sat_mul128_def min_def)
  qed
  show "a \<le> c \<Longrightarrow> sat_add128 a d \<le> sat_add128 c d" by (auto simp: sat_add128_def min_def)
  show "a \<le> c \<Longrightarrow> sat_add128 a d \<le> sat_add128 c (sat_mul128 d (2 ^ n))" by (rule m) simp_all
  show "a \<le> c \<Longrightarrow> sat_add128 a d \<le> sat_add128 c (sat_mul128 d u128_max)" by (rule m) simp_all
qed

definition hop_ok :: "env \<Rightarrow> bool \<Rightarrow> block list \<Rightarrow> nat \<Rightarrow> bool" where
  "hop_ok E lab hs i \<longleftrightarrow> verify_pow (block_hash E (hs ! i)) (b_difficulty (hs ! i))
     \<and> era_min_difficulty lab (cumulative_issuance (height (hs ! i))) \<le> b_difficulty (hs ! i)
     \<and> block_hash E (hs ! (i + 1)) \<in> set (parents (hs ! i)) \<union> set (interlinks (hs ! i))"

definition recent_ok :: "env \<Rightarrow> bool \<Rightarrow> nat \<Rightarrow> block \<Rightarrow> bool" where
  "recent_ok E lab now b \<longleftrightarrow> verify_pow (block_hash E b) (b_difficulty b)
     \<and> era_min_difficulty lab (cumulative_issuance (height b)) \<le> b_difficulty b \<and> timestamp b \<le> sat_add64 now MAX_FUTURE_DRIFT_MS"

lemma verify_hop_step:
  assumes "verify_hop E lab hs i s = Ok s'"
  shows "hop_ok E lab hs i
    \<and> fst s' = sat_add128 (fst s) (b_difficulty (hs ! i)) \<and> (fst s \<le> snd s \<longrightarrow> fst s' \<le> snd s')"
  using assms by (auto simp: hop_ok_def verify_hop_def Let_def not_less intro: sat_add128_mono sat_add128_mono(3) [simplified] split: prod.splits if_splits)

lemma hop_bounds_floor: "flr \<le> fst (hop_difficulty_bounds older gap flr)"
  by (simp add: hop_difficulty_bounds_def Let_def split: prod.splits)

lemma verify_recent_step:
  assumes "verify_recent E lab now b r i s = Ok s'"
  shows "recent_ok E lab now (r ! i)
    \<and> fst s' = sat_add128 (fst s) (b_difficulty (r ! i)) \<and> (fst s \<le> snd s \<longrightarrow> fst s' \<le> snd s')"
proof -
  define flr where "flr = era_min_difficulty lab (cumulative_issuance (height (r ! i)))"
  have "recent_difficulty_ok lab b r i = Ok ()" using assms by (auto simp: verify_recent_def split: sum.splits)
  then have "flr \<le> b_difficulty (r ! i)"
    using hop_bounds_floor [of flr "max (b_difficulty b) flr" "height (r ! i) - height b"]
    by (auto simp: recent_difficulty_ok_def Let_def flr_def [symmetric] split: if_splits prod.splits)
  then show ?thesis using assms by (auto simp: recent_ok_def verify_recent_def flr_def Let_def sat_add128_def split: sum.splits if_splits)
qed


section \<open>The structure of a proof\<close>

definition proof_link :: "env \<Rightarrow> block \<Rightarrow> block \<Rightarrow> bool" where
  \<comment> \<open>a header and the next newer one\<close>
  "proof_link E b b' \<longleftrightarrow> (height b < height b' \<or> height b' = u64_max) \<and> timestamp b \<le> timestamp b'
     \<and> block_hash E b \<in> set (parents b') \<union> set (interlinks b')"

lemma structure_ok:
  assumes "validate_multilevel_proof_structure E lab p = Ok ()"
  shows "recent_headers p \<noteq> []" "hops p \<noteq> []" "length (hops p) \<le> 512" "length (recent_headers p) \<le> 8192"
    "block_hash E (last (hops p)) = genesis_hash E" "parents (last (hops p)) = []" "height (last (hops p)) = 0"
    "\<And>i. i < length (hops p) \<Longrightarrow> check_hop E lab (hops p) i = Ok ()"
    "block_hash E (hd (hops p)) \<in> set (parents (hd (recent_headers p)))"
    "\<And>i. i < length (recent_headers p) \<Longrightarrow> check_recent E lab (hops p) (hd (hops p)) (recent_headers p) i = Ok ()"
  using assms
  by (auto simp: validate_multilevel_proof_structure_def Let_def MAX_MULTILEVEL_HOPS_def MAX_MULTILEVEL_RECENT_def fold_res_checks
      split: if_splits sum.splits)

lemma distinct_by_prefix:
  "(\<And>i. i < length xs \<Longrightarrow> f (xs ! i) \<notin> f ` set (take i xs)) \<Longrightarrow> distinct (map f xs)"
proof (induction xs rule: rev_induct)
  case (snoc x xs)
  have "f (xs ! i) \<notin> f ` set (take i xs)" if "i < length xs" for i using snoc.prems [of i] that by (simp add: nth_append)
  moreover have "f x \<notin> f ` set xs" using snoc.prems [of "length xs"] by simp
  ultimately show ?case using snoc.IH by simp
qed simp

lemma structure_distinct:
  assumes "validate_multilevel_proof_structure E lab p = Ok ()"
  shows "distinct (map (block_hash E) (headers_genesis_first p))"
proof -
  note s = structure_ok [OF assms]
  have "block_hash E (hops p ! i) \<notin> block_hash E ` set (take i (hops p))" if "i < length (hops p)" for i
    using s(8) [OF that] by (auto simp: check_hop_def Let_def split: if_splits)
  then have "distinct (map (block_hash E) (hops p))" by (rule distinct_by_prefix)
  moreover have r: "block_hash E (recent_headers p ! i) \<notin> block_hash E ` set (hops p)"
    "block_hash E (recent_headers p ! i) \<notin> block_hash E ` set (take i (recent_headers p))" if "i < length (recent_headers p)" for i
    using s(10) [OF that] by (auto simp: check_recent_def Let_def split: if_splits)
  have "distinct (map (block_hash E) (recent_headers p))" by (rule distinct_by_prefix) (rule r(2))
  moreover have "block_hash E ` set (hops p) \<inter> block_hash E ` set (recent_headers p) = {}" using r(1) by (metis (no_types, lifting) disjoint_iff imageE in_set_conv_nth)
  ultimately show ?thesis by (simp add: headers_genesis_first_def rev_map [symmetric])
qed

lemma hops_linked:
  assumes s: "validate_multilevel_proof_structure E lab p = Ok ()"
    and c: "\<And>i. Suc i < length (hops p) \<Longrightarrow> block_hash E (hops p ! Suc i) \<in> set (parents (hops p ! i)) \<union> set (interlinks (hops p ! i))"
  shows "successively (proof_link E) (rev (hops p))"
proof -
  have "proof_link E (hops p ! Suc i) (hops p ! i)" if i: "Suc i < length (hops p)" for i
  proof -
    have "check_hop E lab (hops p) i = Ok ()" by (rule structure_ok(8) [OF s]) (use i in simp)
    then show ?thesis using c [OF i] i by (auto simp: check_hop_def Let_def proof_link_def split: if_splits)
  qed
  then have "successively (\<lambda>x y. proof_link E y x) (hops p)" unfolding successively_conv_nth by blast
  then show ?thesis by simp
qed

lemma recent_linked:
  assumes s: "validate_multilevel_proof_structure E lab p = Ok ()"
  shows "successively (proof_link E) (recent_headers p)" "proof_link E (hd (hops p)) (hd (recent_headers p))"
proof -
  note st = structure_ok [OF s]
  let ?r = "recent_headers p" and ?b = "hd (hops p)"
  have k: "height (?r ! i) = sat_add64 (sat_add64 (height ?b) 1) i"
    "0 < i \<Longrightarrow> block_hash E (?r ! (i - 1)) \<in> set (parents (?r ! i)) \<and> timestamp (?r ! (i - 1)) \<le> timestamp (?r ! i)"
    "i = 0 \<Longrightarrow> timestamp ?b \<le> timestamp (?r ! i)" if "i < length ?r" for i
    using st(10) [OF that] by (auto simp: check_recent_def Let_def split: if_splits)
  show "successively (proof_link E) ?r"
    unfolding successively_conv_nth
  proof (intro allI impI)
    fix i
    assume i: "Suc i < length ?r"
    then have "height (?r ! i) < height (?r ! Suc i) \<or> height (?r ! Suc i) = u64_max"
      using k(1) [of i] k(1) [of "Suc i"] by (auto simp: sat_add64_def)
    then show "proof_link E (?r ! i) (?r ! Suc i)" using k(2) [OF i] by (simp add: proof_link_def)
  qed
  have "height ?b < height (?r ! 0) \<or> height (?r ! 0) = u64_max" using k(1) [of 0] st(1) by (auto simp: sat_add64_def)
  then show "proof_link E ?b (hd ?r)" using k(3) [of 0] st(1,9) by (simp add: proof_link_def hd_conv_nth)
qed


section \<open>The builder on an honest chain\<close>

definition honest_chain :: "env \<Rightarrow> block list \<Rightarrow> bool" where
  \<comment> \<open>what admission enforces along a selected chain: genesis first, interlinks computed from the predecessor\<close>
  "honest_chain E chain \<longleftrightarrow> chain \<noteq> [] \<and> block_hash E (hd chain) = genesis_hash E \<and> parents (hd chain) = [] \<and> interlinks (hd chain) = []
     \<and> distinct (map (block_hash E) chain)
     \<and> (\<forall>i. Suc i < length chain \<longrightarrow> interlinks (chain ! Suc i) = compute_interlinks E (chain ! i))"

lemma honest_genesis:
  assumes "honest_chain E chain"
  shows "block_hash E (chain ! 0) = genesis_hash E" "parents (chain ! 0) = []" "interlinks (chain ! 0) = []" "0 < length chain"
  using assms hd_conv_nth [of chain] unfolding honest_chain_def by auto

lemma interlinks_nonempty: "compute_interlinks E b \<noteq> []"
  by (simp add: compute_interlinks_def Let_def)

lemma interlinks_entries: "x \<in> set (compute_interlinks E b) \<Longrightarrow> x = block_hash E b \<or> x \<in> set (interlinks b)"
  by (auto simp: compute_interlinks_def Let_def split: if_splits)

lemma interlinks_back:
  assumes "honest_chain E chain"
  shows "i < length chain \<Longrightarrow> x \<in> set (interlinks (chain ! i)) \<Longrightarrow> \<exists>j<i. x = block_hash E (chain ! j)"
proof (induction i)
  case 0
  then show ?case using honest_genesis(3) [OF assms] by simp
next
  case (Suc i)
  have "x = block_hash E (chain ! i) \<or> x \<in> set (interlinks (chain ! i))"
    by (rule interlinks_entries) (use Suc.prems assms in \<open>simp add: honest_chain_def\<close>)
  then show ?case using Suc.IH Suc.prems(1) by (metis Suc_lessD less_SucI lessI)
qed

lemma find_by_hash:
  assumes "honest_chain E chain" and "j < length chain"
  shows "List.find (\<lambda>b. block_hash E b = block_hash E (chain ! j)) chain = Some (chain ! j)"
proof -
  have "distinct (map (block_hash E) chain)" using assms(1) by (simp add: honest_chain_def)
  then have "block_hash E (chain ! i) \<noteq> block_hash E (chain ! j)" if "i < j" for i
    using assms(2) that by (simp add: distinct_conv_nth)
  then show ?thesis using assms(2) by (auto simp: find_Some_iff)
qed

definition hop_indices :: "env \<Rightarrow> block list \<Rightarrow> nat list \<Rightarrow> bool" where
  \<comment> \<open>a walk from the first index down to genesis along the topmost interlinks\<close>
  "hop_indices E chain js \<longleftrightarrow> js \<noteq> [] \<and> last js = 0 \<and> sorted_wrt (>) js
     \<and> successively (\<lambda>i j. block_hash E (chain ! j) = last (interlinks (chain ! i))) js"

lemma header_only_fields [simp]:
  "block_hash E (header_only b) = block_hash E b" "parents (header_only b) = parents b" "interlinks (header_only b) = interlinks b"
  "height (header_only b) = height b" "timestamp (header_only b) = timestamp b" "b_difficulty (header_only b) = b_difficulty b"
  by (simp_all add: header_only_identity) (simp_all add: header_only_def)

lemma hop_walk_ends:
  assumes c: "honest_chain E chain"
  shows "i < length chain \<Longrightarrow> \<exists>js. hop_walk E chain split (header_only (chain ! i)) acc = Some (Some (acc @ map (\<lambda>j. header_only (chain ! j)) js))
    \<and> hop_indices E chain js \<and> hd js = i"
proof (induction i arbitrary: acc rule: less_induct)
  case (less i)
  show ?case
  proof (cases "i = 0")
    case True
    then have "block_hash E (chain ! i) = genesis_hash E \<and> parents (chain ! i) = []" using honest_genesis [OF c] by simp
    then have "hop_walk E chain split (header_only (chain ! i)) acc = Some (Some (acc @ [header_only (chain ! i)]))"
      by (subst hop_walk.simps) simp
    then show ?thesis using True by (intro exI [of _ "[i]"]) (simp add: hop_indices_def)
  next
    case False
    then obtain k where k: "i = Suc k" by (cases i) simp
    have il: "interlinks (chain ! i) \<noteq> []" using c less.prems interlinks_nonempty by (simp add: honest_chain_def k)
    then obtain j where j: "j < i" "last (interlinks (chain ! i)) = block_hash E (chain ! j)"
      using interlinks_back [OF c less.prems] last_in_set by blast
    have "block_hash E (chain ! i) \<noteq> block_hash E (chain ! 0)"
      using c less.prems False by (simp add: honest_chain_def distinct_conv_nth)
    then have ng: "block_hash E (chain ! i) \<noteq> genesis_hash E" using honest_genesis(1) [OF c] by simp
    have jl: "j < length chain" using j(1) less.prems by simp
    obtain js where js: "hop_walk E chain split (header_only (chain ! j)) (acc @ [header_only (chain ! i)])
        = Some (Some ((acc @ [header_only (chain ! i)]) @ map (\<lambda>j. header_only (chain ! j)) js))" "hop_indices E chain js" "hd js = j"
      using less.IH [OF j(1) jl] by blast
    have "hop_indices E chain (i # js)"
      using js(2,3) j by (cases js) (auto simp: hop_indices_def)
    moreover have "hop_walk E chain split (header_only (chain ! i)) acc = Some (Some (acc @ map (\<lambda>j. header_only (chain ! j)) (i # js)))"
      using il ng js(1) find_by_hash [OF c jl] j(2) by (simp add: hop_walk.simps [of E chain split "header_only (chain ! i)"])
    ultimately show ?thesis by (intro exI [of _ "i # js"]) simp
  qed
qed

definition proof_chain :: "env \<Rightarrow> bool \<Rightarrow> block list \<Rightarrow> bool" where
  \<comment> \<open>an honest chain with heights by position, parent links, ordered times and difficulties at the floor or above\<close>
  "proof_chain E lab chain \<longleftrightarrow> honest_chain E chain \<and> length chain < 2 ^ 64 \<and> (\<forall>i<length chain. height (chain ! i) = i)
     \<and> (\<forall>i. Suc i < length chain \<longrightarrow> timestamp (chain ! i) \<le> timestamp (chain ! Suc i)
          \<and> block_hash E (chain ! i) \<in> set (parents (chain ! Suc i)) \<and> era_min_difficulty lab 0 \<le> b_difficulty (chain ! Suc i))"

section \<open>The linear proof and adoption\<close>

lemma verify_header_step:
  "verify_header E lab now hs i w = Ok w' \<Longrightarrow> w' = sat_add128 w (b_difficulty (hs ! i)) \<and> block_hash E (hs ! (i - 1)) \<in> set (parents (hs ! i))
    \<and> b_difficulty (hs ! i) = expected_difficulty_linear lab hs i \<and> verify_pow (block_hash E (hs ! i)) (b_difficulty (hs ! i))
    \<and> timestamp (hs ! (i - 1)) \<le> timestamp (hs ! i) \<and> timestamp (hs ! i) \<le> sat_add64 now MAX_FUTURE_DRIFT_MS"
  by (auto simp: verify_header_def Let_def split: if_splits)

text \<open>
  The linear proof: an unbroken parent chain from genesis, every later header with the difficulty its position
  demands and its proof of work, and the sum of the difficulties as the reported work.
\<close>

lemma linear_proof_sound:
  assumes v: "verify_pruning_proof E lab now hs = Ok s" and g: "b_difficulty (hd hs) \<le> u128_max"
  shows "block_hash E (hd hs) = genesis_hash E" "parents (hd hs) = []" "ps_pruning_point s = block_hash E (last hs)" "ps_header_count s = length hs"
    "\<And>i. 0 < i \<Longrightarrow> i < length hs \<Longrightarrow> block_hash E (hs ! (i - 1)) \<in> set (parents (hs ! i))
      \<and> b_difficulty (hs ! i) = expected_difficulty_linear lab hs i \<and> verify_pow (block_hash E (hs ! i)) (b_difficulty (hs ! i))
      \<and> timestamp (hs ! (i - 1)) \<le> timestamp (hs ! i)"
    "cumulative_work s = min (sum_list (map b_difficulty hs)) u128_max"
proof -
  obtain w where w: "hs \<noteq> []" "block_hash E (hd hs) = genesis_hash E" "parents (hd hs) = []"
    "fold_res (verify_header E lab now hs) [1 ..< length hs] (b_difficulty (hd hs)) = Ok w"
    "s = \<lparr>ps_pruning_point = block_hash E (last hs), cumulative_work = w, ps_header_count = length hs\<rparr>"
    using v by (auto simp: verify_pruning_proof_def split: if_splits sum.splits)
  show "block_hash E (hd hs) = genesis_hash E" "parents (hd hs) = []" "ps_pruning_point s = block_hash E (last hs)" "ps_header_count s = length hs"
    using w by simp_all
  have run: "fold_res (verify_header E lab now hs) xs a = Ok w \<Longrightarrow> a \<le> u128_max \<Longrightarrow>
      (\<forall>i\<in>set xs. block_hash E (hs ! (i - 1)) \<in> set (parents (hs ! i)) \<and> b_difficulty (hs ! i) = expected_difficulty_linear lab hs i
        \<and> verify_pow (block_hash E (hs ! i)) (b_difficulty (hs ! i)) \<and> timestamp (hs ! (i - 1)) \<le> timestamp (hs ! i))
      \<and> w = min (a + sum_list (map (\<lambda>i. b_difficulty (hs ! i)) xs)) u128_max" for xs a w
  proof (induction xs arbitrary: a)
    case (Cons x xs)
    obtain a1 where a1: "verify_header E lab now hs x a = Ok a1" "fold_res (verify_header E lab now hs) xs a1 = Ok w"
      using Cons.prems(1) by (auto split: sum.splits)
    note st = verify_header_step [OF a1(1)]
    have "a1 \<le> u128_max" using st by (simp add: sat_add128_def)
    from Cons.IH [OF a1(2) this] show ?case using st by (auto simp: sat_add128_def)
  qed simp
  note r = run [OF w(4) g]
  show "\<And>i. 0 < i \<Longrightarrow> i < length hs \<Longrightarrow> block_hash E (hs ! (i - 1)) \<in> set (parents (hs ! i))
      \<and> b_difficulty (hs ! i) = expected_difficulty_linear lab hs i \<and> verify_pow (block_hash E (hs ! i)) (b_difficulty (hs ! i))
      \<and> timestamp (hs ! (i - 1)) \<le> timestamp (hs ! i)" using r by fastforce
  have "map (\<lambda>i. b_difficulty (hs ! i)) [1 ..< length hs] = map b_difficulty (tl hs)" by (rule nth_equalityI) (simp_all add: nth_tl)
  then have "b_difficulty (hd hs) + sum_list (map (\<lambda>i. b_difficulty (hs ! i)) [1 ..< length hs]) = sum_list (map b_difficulty hs)"
    using w(1) by (cases hs) simp_all
  then show "cumulative_work s = min (sum_list (map b_difficulty hs)) u128_max" using r w(5) by simp
qed

lemma adopt_fresh_gated:
  assumes "adopt_multilevel_pruning_proof_fresh E lab now p ctx adopt = Ok r"
  obtains s where "verify_multilevel_pruning_proof E lab now p = Ok s" and "r = adopt s"
    and "local_best_work ctx = 0 \<or> local_best_work ctx < verified_work s"
  using assms by (auto simp: adopt_multilevel_pruning_proof_fresh_def check_ibd_proof_freshness_def Let_def not_le split: sum.splits if_splits)

section \<open>A concrete proof\<close>

definition demo_proof_env :: env where
  "demo_proof_env = demo_env\<lparr>blake3_512 := (\<lambda>bs. if length bs = length (absorb_identity genesis_block) then 5 else 7)\<rparr>"

definition demo_header :: block where
  "demo_header = demo_b1\<lparr>parents := [5], interlinks := replicate 64 5\<rparr>"

lemma demo_proof_hashes: "block_hash demo_proof_env genesis_block = 5" "block_hash demo_proof_env demo_header = 7"
  unfolding block_hash_def demo_proof_env_def genesis_identity_length
  by (simp_all add: genesis_identity_length) (simp add: absorb_identity_def demo_header_def demo_b1_def GENESIS_DOMAIN_def str_bytes_def)

lemma demo_header_fields:
  "parents demo_header = [5]" "height demo_header = 1" "timestamp demo_header = GENESIS_TIMESTAMP_MS + 1" "b_difficulty demo_header = 7000"
  "interlinks demo_header = replicate 64 5" "height genesis_block = 0" "timestamp genesis_block = GENESIS_TIMESTAMP_MS" "b_difficulty genesis_block = 1"
  "parents genesis_block = []" "interlinks genesis_block = []"
  by (simp_all add: demo_header_def demo_b1_def genesis_block_def era_min_difficulty_def BOOTSTRAP_MIN_DIFFICULTY_def)

definition demo_multilevel :: multilevel_proof where
  "demo_multilevel = \<lparr>recent_headers = [demo_header], hops = [genesis_block], claimed_verified_work = None\<rparr>"

lemma demo_multilevel_verified:
  "verify_multilevel_pruning_proof demo_proof_env True GENESIS_TIMESTAMP_MS demo_multilevel
    = Ok \<lparr>ml_pruning_point = 7, verified_work = 7001, estimated_total_work = 7001, ml_header_count = 2\<rparr>"
proof -
  note f = demo_header_fields demo_proof_hashes
  have st: "validate_multilevel_proof_structure demo_proof_env True demo_multilevel = Ok ()"
    by (simp add: validate_multilevel_proof_structure_def demo_multilevel_def Let_def f check_hop_def check_recent_def sat_add64_def
        MAX_MULTILEVEL_HOPS_def MAX_MULTILEVEL_RECENT_def MAX_MULTILEVEL_HEADERS_def era_min_difficulty_def BOOTSTRAP_MIN_DIFFICULTY_def)
  have pow: "verify_pow 5 1" "verify_pow 7 7000" by (simp_all add: verify_pow_def hash_meets_target_def pow_target_def)
  have "min (sat_add64 ((1 - 0 - 1) div DAA_WINDOW) 1) 64 = Suc 0" by (simp add: sat_add64_def)
  then have hb: "hop_difficulty_bounds (max 1 7000) (1 - 0) 7000 = (7000, 8750)" unfolding hop_difficulty_bounds_def by (simp add: as_u64_def)
  have "recent_difficulty_ok True genesis_block [demo_header] 0 = Ok ()"
    using hb by (simp add: recent_difficulty_ok_def Let_def f era_min_difficulty_def BOOTSTRAP_MIN_DIFFICULTY_def DAA_WINDOW_def)
  moreover have "\<not> timestamp demo_header > sat_add64 GENESIS_TIMESTAMP_MS MAX_FUTURE_DRIFT_MS"
    by (simp add: f sat_add64_def GENESIS_TIMESTAMP_MS_def MAX_FUTURE_DRIFT_MS_def)
  ultimately have "verify_recent demo_proof_env True GENESIS_TIMESTAMP_MS genesis_block [demo_header] 0 (1, 1) = Ok (7001, 7001)"
    using pow by (simp add: verify_recent_def f Let_def sat_add128_def)
  moreover have "work_checks True demo_multilevel 7001 = Ok ()"
    by (simp add: work_checks_def demo_multilevel_def header_work_sum_def min_included_work_def f GENESIS_DIFFICULTY_def effective_min_difficulty_def
        era_min_difficulty_def BOOTSTRAP_MIN_DIFFICULTY_def)
  ultimately show ?thesis
    using st pow by (simp add: verify_multilevel_pruning_proof_def) (simp add: demo_multilevel_def f Let_def)
qed

lemma demo_proof_chain: "proof_chain demo_proof_env True [genesis_block, demo_header]"
proof -
  have lv: "superblock_level 5 1 = 63"
  proof -
    have "Suc 63 \<le> floorlog 2 ((2 ^ 512 - 1) div unat (5 :: hash) div max 1 1)" by (rule floorlog_ge_SucI) simp_all
    then show ?thesis by (simp add: superblock_level_def Let_def MAX_LEVEL_def)
  qed
  have "compute_interlinks demo_proof_env genesis_block = replicate 64 5"
    by (rule nth_equalityI)
      (simp_all add: compute_interlinks_def demo_proof_hashes demo_header_fields lv [unfolded One_nat_def] Let_def del: upt_Suc)
  then show ?thesis
    by (auto simp: proof_chain_def honest_chain_def demo_header_fields demo_proof_hashes nth_Cons era_min_difficulty_def BOOTSTRAP_MIN_DIFFICULTY_def
        split: nat.splits)
qed

section \<open>Properties\<close>

lemma sum_list_bound: "(\<And>x. x \<in> set xs \<Longrightarrow> f x \<le> (m :: nat)) \<Longrightarrow> sum_list (map f xs) \<le> length xs * m"
  by (induction xs) (simp_all add: add_mono)

lemma verify_parts:
  assumes "verify_multilevel_pruning_proof E lab now p = Ok s"
  obtains v e where "validate_multilevel_proof_structure E lab p = Ok ()"
    and "verify_pow (block_hash E (last (hops p))) (b_difficulty (last (hops p)))"
    and "fold_res (verify_hop E lab (hops p)) (rev [0 ..< length (hops p) - 1]) (b_difficulty (last (hops p)), b_difficulty (last (hops p))) = Ok (v, e)"
    and "fold_res (verify_recent E lab now (hd (hops p)) (recent_headers p)) [0 ..< length (recent_headers p)] (v, e)
      = Ok (verified_work s, estimated_total_work s)"
    and "work_checks lab p (verified_work s) = Ok ()" and "ml_pruning_point s = block_hash E (last (recent_headers p))"
    and "ml_header_count s = length (hops p) + length (recent_headers p)"
proof -
  obtain u where "validate_multilevel_proof_structure E lab p = Inr u"
    using assms by (cases "validate_multilevel_proof_structure E lab p") (simp_all add: verify_multilevel_pruning_proof_def)
  then have st: "validate_multilevel_proof_structure E lab p = Ok ()" by simp
  note a = assms [unfolded verify_multilevel_pruning_proof_def st sum.case Let_def]
  have pow: "verify_pow (block_hash E (last (hops p))) (b_difficulty (last (hops p)))" using a by (simp split: if_splits)
  note a = a [simplified pow, simplified]
  obtain v e where h: "fold_res (verify_hop E lab (hops p)) (rev [0 ..< length (hops p) - 1]) (b_difficulty (last (hops p)), b_difficulty (last (hops p))) = Ok (v, e)"
    using a by (cases "fold_res (verify_hop E lab (hops p)) (rev [0 ..< length (hops p) - 1]) (b_difficulty (last (hops p)), b_difficulty (last (hops p)))") auto
  note a = a [unfolded One_nat_def [symmetric] h sum.case]
  obtain vw est where r: "fold_res (verify_recent E lab now (hd (hops p)) (recent_headers p)) [0 ..< length (recent_headers p)] (v, e) = Ok (vw, est)"
    using a by (cases "fold_res (verify_recent E lab now (hd (hops p)) (recent_headers p)) [0 ..< length (recent_headers p)] (v, e)") auto
  note a = a [unfolded r sum.case prod.case]
  obtain u where w: "work_checks lab p vw = Inr u" using a by (cases "work_checks lab p vw") simp_all
  have "s = \<lparr>ml_pruning_point = block_hash E (last (recent_headers p)), verified_work = vw, estimated_total_work = est,
      ml_header_count = length (hops p) + length (recent_headers p)\<rparr>" using a by (simp add: w)
  then show thesis using that [OF st pow h] r w by simp
qed

lemma map_nth_upt: "map (\<lambda>i. f (xs ! i)) [0 ..< length xs] = map f xs"
  by (rule nth_equalityI) simp_all

lemma verified_sum:
  assumes "verify_multilevel_pruning_proof E lab now p = Ok s" and g: "b_difficulty (last (hops p)) \<le> u128_max"
  shows "verified_work s = min (sum_list (map b_difficulty (headers_genesis_first p))) u128_max" "verified_work s \<le> estimated_total_work s"
    "\<And>i. Suc i < length (hops p) \<Longrightarrow> verify_pow (block_hash E (hops p ! i)) (b_difficulty (hops p ! i))
      \<and> era_min_difficulty lab (cumulative_issuance (height (hops p ! i))) \<le> b_difficulty (hops p ! i)
      \<and> block_hash E (hops p ! Suc i) \<in> set (parents (hops p ! i)) \<union> set (interlinks (hops p ! i))"
    "\<And>b. b \<in> set (recent_headers p) \<Longrightarrow> verify_pow (block_hash E b) (b_difficulty b)
      \<and> era_min_difficulty lab (cumulative_issuance (height b)) \<le> b_difficulty b \<and> timestamp b \<le> sat_add64 now MAX_FUTURE_DRIFT_MS"
proof -
  obtain v e where v: "validate_multilevel_proof_structure E lab p = Ok ()"
    "fold_res (verify_hop E lab (hops p)) (rev [0 ..< length (hops p) - 1]) (b_difficulty (last (hops p)), b_difficulty (last (hops p))) = Ok (v, e)"
    "fold_res (verify_recent E lab now (hd (hops p)) (recent_headers p)) [0 ..< length (recent_headers p)] (v, e)
      = Ok (verified_work s, estimated_total_work s)"
    by (rule verify_parts [OF assms(1)])
  have ne: "hops p \<noteq> []" by (rule structure_ok(2) [OF v(1)])
  have h: "(\<forall>i\<in>set (rev [0 ..< length (hops p) - 1]). hop_ok E lab (hops p) i)
      \<and> v = min (b_difficulty (last (hops p)) + sum_list (map (\<lambda>i. b_difficulty (hops p ! i)) (rev [0 ..< length (hops p) - 1]))) u128_max \<and> v \<le> e"
    using fold_res_work [of "verify_hop E lab (hops p)" "hop_ok E lab (hops p)" "\<lambda>i. b_difficulty (hops p ! i)", OF verify_hop_step v(2)] g by simp
  show "\<And>i. Suc i < length (hops p) \<Longrightarrow> verify_pow (block_hash E (hops p ! i)) (b_difficulty (hops p ! i))
      \<and> era_min_difficulty lab (cumulative_issuance (height (hops p ! i))) \<le> b_difficulty (hops p ! i)
      \<and> block_hash E (hops p ! Suc i) \<in> set (parents (hops p ! i)) \<union> set (interlinks (hops p ! i))"
    using h by (auto simp: less_diff_conv hop_ok_def)
  have "v \<le> e" "v \<le> u128_max" using h by simp_all
  then have r: "(\<forall>i\<in>set [0 ..< length (recent_headers p)]. recent_ok E lab now (recent_headers p ! i))
      \<and> verified_work s = min (v + sum_list (map (\<lambda>i. b_difficulty (recent_headers p ! i)) [0 ..< length (recent_headers p)])) u128_max
      \<and> verified_work s \<le> estimated_total_work s"
    using fold_res_work [of "verify_recent E lab now (hd (hops p)) (recent_headers p)" "\<lambda>i. recent_ok E lab now (recent_headers p ! i)"
        "\<lambda>i. b_difficulty (recent_headers p ! i)", OF verify_recent_step [of E lab now "hd (hops p)"] v(3)] by simp
  show "verified_work s \<le> estimated_total_work s" using r by simp
  show "\<And>b. b \<in> set (recent_headers p) \<Longrightarrow> verify_pow (block_hash E b) (b_difficulty b)
      \<and> era_min_difficulty lab (cumulative_issuance (height b)) \<le> b_difficulty b \<and> timestamp b \<le> sat_add64 now MAX_FUTURE_DRIFT_MS"
    using r by (auto simp: in_set_conv_nth recent_ok_def)
  have "map (\<lambda>i. b_difficulty (hops p ! i)) [0 ..< length (hops p) - 1] = map b_difficulty (butlast (hops p))"
    by (rule nth_equalityI) (simp_all add: nth_butlast)
  then have "sum_list (map (\<lambda>i. b_difficulty (hops p ! i)) (rev [0 ..< length (hops p) - 1])) = sum_list (map b_difficulty (butlast (hops p)))"
    by (metis rev_map sum_list_rev)
  moreover have "sum_list (map b_difficulty (hops p)) = sum_list (map b_difficulty (butlast (hops p))) + b_difficulty (last (hops p))"
    using arg_cong [OF append_butlast_last_id [OF ne], of "\<lambda>xs. sum_list (map b_difficulty xs)"] by simp
  ultimately have "v = min (sum_list (map b_difficulty (hops p))) u128_max" using h by (simp add: add.commute)
  then show "verified_work s = min (sum_list (map b_difficulty (headers_genesis_first p))) u128_max"
    using r by (simp add: headers_genesis_first_def map_nth_upt rev_map [symmetric] sum_list_rev)
qed


text \<open>
  C36. A verified multi-level proof is what it claims. Read from genesis on, its headers start at the genesis block,
  are pairwise distinct, and each names the one before it in its parents or interlinks, with a greater height (unless
  heights are at their largest value) and no earlier timestamp; every header meets the proof of work of its difficulty, every header after
  genesis claims at least the era floor of its height; the reported work is exactly the sum of the difficulties, the
  estimate is not below it, and the reported pruning point is the last header.
\<close>
theorem multilevel_proof_sound:
  assumes v: "verify_multilevel_pruning_proof E lab now p = Ok s" and w: "\<forall>b\<in>set (headers_genesis_first p). b_difficulty b < 2 ^ 64"
  shows "let hs = headers_genesis_first p in block_hash E (hd hs) = block_hash E genesis_block \<and> parents (hd hs) = []
    \<and> distinct (map (block_hash E) hs) \<and> successively (proof_link E) hs
    \<and> (\<forall>b\<in>set hs. verify_pow (block_hash E b) (b_difficulty b))
    \<and> (\<forall>b\<in>set (tl hs). era_min_difficulty lab (cumulative_issuance (height b)) \<le> b_difficulty b)
    \<and> verified_work s = sum_list (map b_difficulty hs) \<and> verified_work s \<le> estimated_total_work s
    \<and> ml_pruning_point s = block_hash E (last hs) \<and> ml_header_count s = length hs \<and> length hs \<le> 8704"
proof -
  have st: "validate_multilevel_proof_structure E lab p = Ok ()" "ml_pruning_point s = block_hash E (last (recent_headers p))"
    "ml_header_count s = length (hops p) + length (recent_headers p)" "verify_pow (block_hash E (last (hops p))) (b_difficulty (last (hops p)))"
    using verify_parts [OF v] by metis+
  note k = structure_ok [OF st(1)]
  have "b_difficulty (last (hops p)) < 2 ^ 64" using w k(2) by (simp add: headers_genesis_first_def)
  then have g: "b_difficulty (last (hops p)) \<le> u128_max" by simp
  note vs = verified_sum [OF v g]
  have len: "length (headers_genesis_first p) \<le> 8704" using k(3,4) by (simp add: headers_genesis_first_def)
  have "sum_list (map b_difficulty (headers_genesis_first p)) \<le> length (headers_genesis_first p) * 2 ^ 64"
    by (rule sum_list_bound) (use w in auto)
  also have "\<dots> \<le> u128_max" using len by simp
  finally have sum: "verified_work s = sum_list (map b_difficulty (headers_genesis_first p))" using vs(1) by simp
  obtain g0 rest where hs: "rev (hops p) = g0 # rest" using k(2) by (cases "rev (hops p)") auto
  have "hops p = rev (rev (hops p))" by simp
  then have hp: "hops p = rev (g0 # rest)" unfolding hs .
  then have g0: "g0 = last (hops p)" "hops p = rev rest @ [g0]" by simp_all
  have pow: "verify_pow (block_hash E b) (b_difficulty b) \<and> era_min_difficulty lab (cumulative_issuance (height b)) \<le> b_difficulty b" if br: "b \<in> set rest" for b
  proof -
    obtain i where i: "i < length rest" "b = rev rest ! i" using br by (metis in_set_conv_nth length_rev set_rev)
    have "hops p ! i = b" "Suc i < length (hops p)" using i g0(2) by (simp_all add: nth_append)
    then show ?thesis using vs(3) [of i] by simp
  qed
  have "successively (proof_link E) (rev (hops p) @ recent_headers p)"
    using hops_linked [OF st(1)] vs(3) recent_linked [OF st(1)] k(1,2) by (simp add: successively_append_iff last_rev)
  moreover have hd: "headers_genesis_first p = g0 # rest @ recent_headers p" by (simp add: headers_genesis_first_def hs)
  moreover have "block_hash E g0 = block_hash E genesis_block" "parents g0 = []" "verify_pow (block_hash E g0) (b_difficulty g0)"
    using k(5,6) st(4) by (simp_all add: hp)
  moreover have "ml_pruning_point s = block_hash E (last (headers_genesis_first p))" "ml_header_count s = length (headers_genesis_first p)"
    using st(2,3) k(1) by (simp_all add: headers_genesis_first_def)
  ultimately show ?thesis
    using structure_distinct [OF st(1)] pow vs(2,4) sum len hs unfolding Let_def by auto
qed


theorem multilevel_proof_sound_witness:
  "verify_multilevel_pruning_proof demo_proof_env True GENESIS_TIMESTAMP_MS demo_multilevel
      = Ok \<lparr>ml_pruning_point = 7, verified_work = 7001, estimated_total_work = 7001, ml_header_count = 2\<rparr>
    \<and> successively (proof_link demo_proof_env) [genesis_block, demo_header] \<and> 7001 = sum_list (map b_difficulty [genesis_block, demo_header])"
proof -
  have h: "headers_genesis_first demo_multilevel = [genesis_block, demo_header]" by (simp add: headers_genesis_first_def demo_multilevel_def)
  have w: "\<forall>b\<in>set (headers_genesis_first demo_multilevel). b_difficulty b < 2 ^ 64" by (simp add: h demo_header_fields)
  from multilevel_proof_sound [OF demo_multilevel_verified w] demo_multilevel_verified show ?thesis unfolding h Let_def by simp
qed

lemma proof_chain_times:
  assumes "proof_chain E lab chain"
  shows "i \<le> j \<Longrightarrow> j < length chain \<Longrightarrow> timestamp (chain ! i) \<le> timestamp (chain ! j)"
proof (induction j)
  case (Suc j)
  then show ?case using assms by (cases "i = Suc j") (auto simp: proof_chain_def intro: le_trans)
qed simp

lemma built_hops_ok:
  assumes c: "proof_chain E lab chain" and js: "hop_indices E chain js" "hd js < length chain" and k: "k < length js"
  shows "check_hop E lab (map (\<lambda>j. header_only (chain ! j)) js) k = Ok ()"
proof -
  let ?hs = "map (\<lambda>j. header_only (chain ! j)) js"
  have sw: "sorted_wrt (>) js" "js \<noteq> []" "last js = 0" using js(1) by (simp_all add: hop_indices_def)
  have lt: "x < length chain" if "x \<in> set js" for x using sw(1,2) js(2) that by (cases js) auto
  have d: "distinct (map (block_hash E) chain)" using c by (simp add: proof_chain_def honest_chain_def)
  have "block_hash E (chain ! (js ! k)) \<noteq> block_hash E (chain ! (js ! i))" if "i < k" for i
  proof -
    have "js ! k < js ! i" using sorted_wrt_nth_less [OF sw(1) that k] .
    moreover have "js ! i < length chain" using that k by (intro lt nth_mem) simp
    ultimately show ?thesis using d by (simp add: distinct_conv_nth)
  qed
  then have 1: "block_hash E (?hs ! k) \<notin> block_hash E ` set (take k ?hs)" using k by (fastforce simp: in_set_conv_nth)
  have 2: "height (?hs ! Suc k) < height (?hs ! k) \<and> timestamp (?hs ! Suc k) \<le> timestamp (?hs ! k)
      \<and> era_min_difficulty lab 0 \<le> b_difficulty (?hs ! k)" if sk: "Suc k < length js"
  proof -
    have g: "js ! Suc k < js ! k" by (rule sorted_wrt_nth_less [OF sw(1) _ sk]) simp
    have l: "js ! k < length chain" using k by (intro lt nth_mem)
    obtain m where m: "js ! k = Suc m" using g by (cases "js ! k") auto
    have "era_min_difficulty lab 0 \<le> b_difficulty (chain ! Suc m)" using c l m by (simp add: proof_chain_def)
    moreover have "height (chain ! (js ! Suc k)) = js ! Suc k" "height (chain ! (js ! k)) = js ! k" using c g l by (simp_all add: proof_chain_def)
    ultimately show ?thesis using g l m proof_chain_times [OF c, of "js ! Suc k" "js ! k"] sk k by simp
  qed
  show ?thesis using 1 2 k by (auto simp: check_hop_def Let_def)
qed

lemma built_recent_ok:
  assumes c: "proof_chain E lab chain" and js: "hop_indices E chain js" "hd js = n - 1" and n: "0 < n" "n < length chain" and k: "k < length chain - n"
  shows "check_recent E lab (map (\<lambda>j. header_only (chain ! j)) js) (header_only (chain ! (n - 1))) (map header_only (drop n chain)) k = Ok ()"
proof -
  let ?r = "map header_only (drop n chain)" and ?hs = "map (\<lambda>j. header_only (chain ! j)) js"
  have d: "distinct (map (block_hash E) chain)" using c by (simp add: proof_chain_def honest_chain_def)
  have ne: "block_hash E (chain ! i) \<noteq> block_hash E (chain ! j)" if "i < j" "j < length chain" for i j
    using d that by (simp add: distinct_conv_nth)
  have nth: "?r ! i = header_only (chain ! (n + i))" if "i < length chain - n" for i using that by simp
  have "j < n" if "j \<in> set js" for j
    using js that n(1) by (cases js) (auto simp: hop_indices_def)
  then have "block_hash E (chain ! j) \<noteq> block_hash E (chain ! (n + k))" if "j \<in> set js" for j
    using that k by (intro ne) (auto intro: trans_less_add1)
  then have 1: "block_hash E (?r ! k) \<notin> block_hash E ` set ?hs" unfolding nth [OF k] by (force simp: image_iff)
  have 2: "block_hash E (?r ! k) \<notin> block_hash E ` set (take k ?r)"
  proof
    assume "block_hash E (?r ! k) \<in> block_hash E ` set (take k ?r)"
    then obtain b where b: "b \<in> set (take k ?r)" "block_hash E (?r ! k) = block_hash E b" by (rule imageE)
    then obtain i where "i < k" "b = ?r ! i" using k by (auto simp: in_set_conv_nth)
    moreover have "n + k < length chain" using k by simp
    ultimately show False using ne [of "n + i" "n + k"] k b(2) by simp
  qed
  obtain m where m: "n + k = Suc m" using n(1) by (cases "n + k") auto
  have at: "timestamp (chain ! m) \<le> timestamp (chain ! (n + k))" "block_hash E (chain ! m) \<in> set (parents (chain ! (n + k)))"
    "era_min_difficulty lab 0 \<le> b_difficulty (chain ! (n + k))" "height (chain ! (n + k)) = n + k" "height (chain ! (n - 1)) = n - 1"
    "length chain < 2 ^ 64"
    using c k n m by (simp_all add: proof_chain_def)
  have "sat_add64 (sat_add64 (n - 1) 1) k = n + k" using at(6) k n(1) by (simp add: sat_add64_def)
  moreover have "0 < k \<Longrightarrow> ?r ! (k - 1) = header_only (chain ! m)" using nth [of "k - 1"] k m by (cases k) simp_all
  moreover have "k = 0 \<Longrightarrow> m = n - 1" using m by simp
  ultimately show ?thesis using 1 2 at nth [OF k] unfolding check_recent_def Let_def by (cases "k = 0") simp_all
qed




text \<open>
  Difficulty may rise by a quarter with every block, while a hop over two blocks may differ by a quarter only: the
  bound the verifier puts on hops excludes honest chains.
\<close>

lemma difficulty_drift_refused:
  "retarget_difficulty 70000 1 0 7000 = 87500" "retarget_difficulty 87500 1 0 7000 = 109375" "snd (hop_difficulty_bounds 70000 2 7000) = 87500"
proof -
  show "retarget_difficulty 70000 1 0 7000 = 87500" "retarget_difficulty 87500 1 0 7000 = 109375"
    by (simp_all add: retarget_difficulty_def Let_def DAA_WINDOW_def TARGET_BLOCK_TIME_MS_def BLOCK_TIME_MS_def clamp_nat_def sat_mul128_def as_u64_def)
  have "min (sat_add64 ((2 - 1) div DAA_WINDOW) 1) 64 = Suc 0" by (simp add: DAA_WINDOW_def sat_add64_def)
  then show "snd (hop_difficulty_bounds 70000 2 7000) = 87500" unfolding hop_difficulty_bounds_def by (simp add: as_u64_def)
qed

end
