(* ===== verification/Snapshot.thy ===== *)
theory Snapshot
  imports Superproof "HOL-Library.Sublist"
begin

text \<open>
  Saving, loading and joining, \<open>src/lib.rs\<close>: the state file with its rolling backups, what a loaded state is checked
  for, the indexes rebuilt after a load, and the cold start of a joining node from verified headers and a
  pruning-point ledger.

  The bincode package is a pair of arguments \<open>ser\<close> and \<open>de\<close>. The iteration order of the hash map that the rebuild
  walks is the argument \<open>keys\<close>. The disk holds the state file and its siblings with the extensions \<open>tmp\<close>, \<open>bak\<close> and
  \<open>bak.1\<close>; \<open>io\<close> says which operations of the file system succeed. The synchronization of the directory, whose result
  the source ignores, is left out. An outer option is \<open>None\<close> for a walk that does not end.
\<close>

section \<open>The order of the rebuild\<close>

abbreviation mark_of :: "(hash, nat) hmap \<Rightarrow> hash \<Rightarrow> nat" where "mark_of \<equiv> hget_or 0"

definition dfs_parents :: "dag_map \<Rightarrow> (hash, nat) hmap \<Rightarrow> hash \<Rightarrow> (hash \<times> bool) list" where
  \<comment> \<open>the pushes for a block, the last parent on top of the stack\<close>
  "dfs_parents dg mark node = map (\<lambda>p. (p, False)) (rev (filter (\<lambda>p. hhas dg p \<and> mark_of mark p \<noteq> 2) (dag_parents dg node)))"

function dfs_loop :: "dag_map \<Rightarrow> (hash \<times> bool) list \<Rightarrow> (hash, nat) hmap \<Rightarrow> hash list \<Rightarrow> (hash, nat) hmap \<times> hash list" where
  "dfs_loop dg [] mark order = (mark, order)"
| "dfs_loop dg ((node, True) # st) mark order =
     dfs_loop dg st (hput node 2 mark) (if hget mark node \<noteq> Some 2 then order @ [node] else order)"
| "dfs_loop dg ((node, False) # st) mark order =
     (if mark_of mark node \<noteq> 0 then dfs_loop dg st mark order
      else dfs_loop dg (dfs_parents dg (hput node 1 mark) node @ (node, True) # st) (hput node 1 mark) order)"
  by pat_completeness auto
termination
proof (relation "inv_image (finite_psubset <*lex*> less_than)
    (\<lambda>(dg, st, mark, order). ({x. hhas dg x \<and> mark_of mark x = 0}, sum_list (map (\<lambda>(_, done). if done then 1 else 2) st)))", goal_cases)
  case 1
  then show ?case by auto
next
  case (2 dg node st mark order)
  have f: "finite {x. hhas dg x \<and> mark_of mark x = 0}" by (rule finite_subset [of _ "set (hkeys dg)"]) (auto simp: hhas_iff)
  have "{x. hhas dg x \<and> mark_of (hput node 2 mark) x = 0} \<subseteq> {x. hhas dg x \<and> mark_of mark x = 0}"
    by (auto simp: hget_or_def split: if_splits)
  then show ?case using f by (auto simp: psubset_eq)
next
  case (3 dg node st mark order)
  then show ?case by simp
next
  case (4 dg node st mark order)
  have f: "finite {x. hhas dg x \<and> mark_of mark x = 0}" by (rule finite_subset [of _ "set (hkeys dg)"]) (auto simp: hhas_iff)
  have sub: "{x. hhas dg x \<and> mark_of (hput node 1 mark) x = 0} = {x. hhas dg x \<and> mark_of mark x = 0} - {node}"
    by (auto simp: hget_or_def split: if_splits)
  show ?case
  proof (cases "hhas dg node")
    case True
    then have "{x. hhas dg x \<and> mark_of mark x = 0} - {node} \<subset> {x. hhas dg x \<and> mark_of mark x = 0}" using 4 by auto
    then show ?thesis using f sub by simp
  next
    case False
    then have "{x. hhas dg x \<and> mark_of mark x = 0} - {node} = {x. hhas dg x \<and> mark_of mark x = 0}" "dfs_parents dg (hput node 1 mark) node = []"
      by (auto simp: dfs_parents_def)
    then show ?thesis using sub by simp
  qed
qed

definition dfs_start :: "dag_map \<Rightarrow> hash \<Rightarrow> (hash, nat) hmap \<times> hash list \<Rightarrow> (hash, nat) hmap \<times> hash list" where
  "dfs_start dg start = (\<lambda>(mark, order). if mark_of mark start = 2 then (mark, order) else dfs_loop dg [(start, False)] mark order)"

definition dag_topological_order :: "(dag_map \<Rightarrow> hash list) \<Rightarrow> dag_map \<Rightarrow> hash list" where
  "dag_topological_order keys dg = snd (fold (dfs_start dg) (keys dg) ([], []))"

section \<open>Rebuilding after a load\<close>

fun replay_index :: "ghostdag_map \<Rightarrow> hash list \<Rightarrow> reachability \<Rightarrow> reachability option" where
  "replay_index gd [] r = Some r"
| "replay_index gd (h # hs) r =
     (case hget gd h of
        None \<Rightarrow> replay_index gd hs r
      | Some d \<Rightarrow>
          (case reach_add_block r h (selected_parent d) (merged_blocks d) of
             None \<Rightarrow> None
           | Some r' \<Rightarrow> replay_index gd hs r'))"

definition rebuild_derived :: "env \<Rightarrow> (dag_map \<Rightarrow> hash list) \<Rightarrow> chain_state \<Rightarrow> chain_state option" where
  "rebuild_derived E keys cs =
     (case replay_index (ghostdag cs) (dag_topological_order keys (dag cs)) reach_new of
        None \<Rightarrow> None
      | Some r \<Rightarrow> recompute_virtual_state E (cs\<lparr>reach := r, base_captured := True\<rparr>))"

definition validate_hardcoded_chain :: "env \<Rightarrow> chain_state \<Rightarrow> unit result" where
  "validate_hardcoded_chain E cs =
     (if chain_id cs \<noteq> CHAIN_ID then Err ''wrong chain_id in state file''
      else
        (case (case hget (dag cs) (genesis_hash E) of
                 Some b \<Rightarrow>
                   if height b \<noteq> 0 \<or> parents b \<noteq> [] then Err ''corrupt hardcoded genesis block''
                   else if b_difficulty b \<noteq> GENESIS_DIFFICULTY then Err ''corrupt genesis difficulty''
                   else if block_hash E b \<noteq> genesis_hash E then Err ''genesis hash mismatch''
                   else Ok ()
               | None \<Rightarrow> if pruning_point cs = None then Err ''missing hardcoded genesis block'' else Ok ()) of
           Inl e \<Rightarrow> Err e
         | Inr _ \<Rightarrow>
             if \<exists>h\<in>set (main_chain cs). \<not> hhas (dag cs) h then Err ''corrupt chainstate: main_chain hash missing from DAG''
             else if length (dag cs) < length (main_chain cs) then Err ''corrupt chainstate: DAG smaller than main_chain''
             else if minted_supply (live cs) > MAX_SUPPLY then Err ''corrupt chainstate: minted_supply exceeds MAX_SUPPLY''
             else Ok ()))"

section \<open>The state file\<close>

definition STATE_MAGIC :: bytes where "STATE_MAGIC = str_bytes ''HASSANST''"
definition STATE_FORMAT_VERSION :: nat where "STATE_FORMAT_VERSION = 31"
definition MAX_CHAINSTATE_BYTES :: nat where "MAX_CHAINSTATE_BYTES = 512 * 1024 * 1024"
definition STATE_CHECKSUM_LEN :: nat where "STATE_CHECKSUM_LEN = 64"

definition state_tag :: "env \<Rightarrow> bytes \<Rightarrow> bytes" where
  "state_tag E body = hash_bytes (blake3_512 E (str_bytes ''hassan-chainstate-v1'' @ body))"

definition state_file :: "env \<Rightarrow> bytes \<Rightarrow> bytes" where
  "state_file E payload = (let body = STATE_MAGIC @ le_bytes 4 STATE_FORMAT_VERSION @ payload in body @ state_tag E body)"

definition transient :: "chain_state \<Rightarrow> chain_state" where
  \<comment> \<open>the fields marked \<open>serde(skip)\<close>, which a reader fills with their defaults\<close>
  "transient cs = cs\<lparr>transparent_mempool := [], utxo_mempool := [], registry_mempool := [], custody_mempool := [],
     reach := reach_new, archival := False, tx_first_seen_ms := [], tx_first_seen_blue := []\<rparr>"

record disk =
  d_main :: "bytes option"
  d_tmp :: "bytes option"
  d_bak :: "bytes option"
  d_bak1 :: "bytes option"

datatype fs_op = CreateDir | WriteTmp | RollBak | KeepBak | Publish

definition fs_effect :: "bytes \<Rightarrow> fs_op \<Rightarrow> disk \<Rightarrow> disk" where
  \<comment> \<open>a rename replaces its target\<close>
  "fs_effect bs f d = (case f of
      CreateDir \<Rightarrow> d
    | WriteTmp \<Rightarrow> d\<lparr>d_tmp := Some bs\<rparr>
    | RollBak \<Rightarrow> d\<lparr>d_bak1 := d_bak d, d_bak := None\<rparr>
    | KeepBak \<Rightarrow> d\<lparr>d_bak := d_main d, d_main := None\<rparr>
    | Publish \<Rightarrow> d\<lparr>d_main := d_tmp d, d_tmp := None\<rparr>)"

definition fs_error :: "fs_op \<Rightarrow> string option" where
  \<comment> \<open>the error an operation that fails leaves with; the two backup renames are ignored\<close>
  "fs_error f = (case f of
      CreateDir \<Rightarrow> Some ''create data dir''
    | WriteTmp \<Rightarrow> Some ''write state''
    | RollBak \<Rightarrow> None
    | KeepBak \<Rightarrow> None
    | Publish \<Rightarrow> Some ''rename state'')"

fun run_ops :: "(fs_op \<Rightarrow> bool) \<Rightarrow> bytes \<Rightarrow> fs_op list \<Rightarrow> disk \<Rightarrow> disk \<times> unit result" where
  "run_ops io bs [] d = (d, Ok ())"
| "run_ops io bs (f # fs) d =
     (if io f then run_ops io bs fs (fs_effect bs f d)
      else (case fs_error f of None \<Rightarrow> run_ops io bs fs d | Some e \<Rightarrow> (d, Err e)))"

definition save_ops :: "disk \<Rightarrow> fs_op list" where
  "save_ops d = [CreateDir, WriteTmp] @
     (if d_main d \<noteq> None then (if d_bak d \<noteq> None then [RollBak] else []) @ [KeepBak] else []) @ [Publish]"

definition pruned_for_save :: "env \<Rightarrow> chain_state \<Rightarrow> chain_state option" where
  "pruned_for_save E cs = (if archival cs then Some cs else prune_history E (prune_bodies cs))"

definition save_to :: "env \<Rightarrow> (chain_state \<Rightarrow> bytes result) \<Rightarrow> (fs_op \<Rightarrow> bool) \<Rightarrow> disk \<Rightarrow> chain_state \<Rightarrow> (chain_state \<times> disk \<times> unit result) option" where
  "save_to E ser io d cs =
     map_option (\<lambda>cs1.
        case ser cs1 of
          Inl e \<Rightarrow> (cs1, d, Err e)
        | Inr payload \<Rightarrow>
            if length payload > MAX_CHAINSTATE_BYTES then (cs1, d, Err ''chainstate payload exceeds MAX_CHAINSTATE_BYTES'')
            else (cs1, run_ops io (state_file E payload) (save_ops d) d))
       (pruned_for_save E cs)"

definition load_one :: "env \<Rightarrow> (bytes \<Rightarrow> chain_state result) \<Rightarrow> (dag_map \<Rightarrow> hash list) \<Rightarrow> bytes option \<Rightarrow> chain_state result option" where
  "load_one E de keys file =
     (case file of
        None \<Rightarrow> Some (Err ''read state'')
      | Some bs \<Rightarrow>
          if length bs < 12 \<or> take 8 bs \<noteq> STATE_MAGIC then Some (Err ''not a Hassan state file (bad magic)'')
          else if le_nat (take 4 (drop 8 bs)) \<noteq> STATE_FORMAT_VERSION then Some (Err ''incompatible state format'')
          else if length bs < 12 + STATE_CHECKSUM_LEN then Some (Err ''chainstate missing integrity tag'')
          else
            let split = length bs - STATE_CHECKSUM_LEN; body = take split bs; tag = drop split bs
            in if tag \<noteq> state_tag E body then Some (Err ''corrupt chainstate: integrity tag mismatch'')
               else if length (drop 12 body) > MAX_CHAINSTATE_BYTES then Some (Err ''chainstate payload exceeds MAX_CHAINSTATE_BYTES'')
               else
                 (case de (drop 12 body) of
                    Inl e \<Rightarrow> Some (Err (''deserialize state: '' @ e))
                  | Inr cs \<Rightarrow>
                      (case validate_hardcoded_chain E cs of
                         Inl e \<Rightarrow> Some (Err e)
                       | Inr _ \<Rightarrow>
                           if \<not> supply_invariant_ok (live cs) then Some (Err ''corrupt chainstate: supply invariant failed'')
                           else map_option Ok (rebuild_derived E keys cs))))"

definition fatal_prefixes :: "string list" where
  "fatal_prefixes = [''incompatible state format'', ''wrong chain_id'', ''missing hardcoded genesis'', ''corrupt hardcoded genesis'', ''corrupt genesis'']"

fun load_backups :: "env \<Rightarrow> (bytes \<Rightarrow> chain_state result) \<Rightarrow> (dag_map \<Rightarrow> hash list) \<Rightarrow> bytes option list \<Rightarrow> string \<Rightarrow> chain_state result option" where
  "load_backups E de keys [] primary = Some (Err primary)"
| "load_backups E de keys (f # fs) primary =
     (case load_one E de keys f of
        None \<Rightarrow> None
      | Some (Inr cs) \<Rightarrow> Some (Ok cs)
      | Some (Inl _) \<Rightarrow> load_backups E de keys fs primary)"

definition load_from :: "env \<Rightarrow> (bytes \<Rightarrow> chain_state result) \<Rightarrow> (dag_map \<Rightarrow> hash list) \<Rightarrow> disk \<Rightarrow> chain_state result option" where
  "load_from E de keys d =
     (case load_one E de keys (d_main d) of
        None \<Rightarrow> None
      | Some (Inr cs) \<Rightarrow> Some (Ok cs)
      | Some (Inl e) \<Rightarrow>
          if \<exists>p\<in>set fatal_prefixes. prefix p e then Some (Err e)
          else load_backups E de keys [d_bak d, d_bak1 d] e)"

section \<open>Cold start\<close>

record pruning_point_ledger =
  ppl_pruning_point :: hash
  ppl_ledger :: ledger

definition header_data :: "chain_state \<Rightarrow> hash \<Rightarrow> block \<Rightarrow> ghostdag_data option" where
  \<comment> \<open>real GHOSTDAG data when a selected parent is known, else a link to the header imported before\<close>
  "header_data cs prev hdr =
     (case try_compute_ghostdag_data (dag cs) (ghostdag cs) (reach cs) (parents hdr) MAX_MERGESET_SIZE of
        None \<Rightarrow> None
      | Some res \<Rightarrow>
          let fallback = \<lparr>blue_score = sat_add64 (case hget (ghostdag cs) prev of None \<Rightarrow> 0 | Some d \<Rightarrow> blue_score d) 1,
                selected_parent = Some prev, mergeset_blues = [prev], mergeset_reds = []\<rparr>
          in Some (case res of
                Inl _ \<Rightarrow> fallback
              | Inr gd \<Rightarrow> if selected_parent gd \<noteq> None then gd else fallback))"

fun import_headers :: "env \<Rightarrow> block list \<Rightarrow> hash \<Rightarrow> chain_state \<Rightarrow> chain_state option" where
  "import_headers E [] prev cs = Some cs"
| "import_headers E (hdr # hdrs) prev cs =
     (let h = block_hash E hdr
      in if hhas (dag cs) h then import_headers E hdrs h cs
         else
           (case header_data cs prev (header_only hdr) of
              None \<Rightarrow> None
            | Some gd \<Rightarrow>
                (case reach_add_block (reach cs) h (selected_parent gd) (merged_blocks gd) of
                   None \<Rightarrow> None
                 | Some r \<Rightarrow>
                     import_headers E hdrs h (cs\<lparr>dag := hput h (header_only hdr) (dag cs), ghostdag := hput h gd (ghostdag cs), reach := r\<rparr>))))"

definition import_verified_pruning_headers :: "env \<Rightarrow> block list \<Rightarrow> chain_state \<Rightarrow> (chain_state \<times> hash result) option" where
  "import_verified_pruning_headers E headers cs =
     (if headers = [] then Some (cs, Err ''empty pruning header list'')
      else if block_hash E (hd headers) \<noteq> genesis_hash E then Some (cs, Err ''pruning headers must start at genesis'')
      else if \<not> hhas (dag cs) (genesis_hash E) then Some (cs, Err ''local genesis missing'')
      else
        (case import_headers E (tl headers) (genesis_hash E) cs of
           None \<Rightarrow> None
         | Some cs1 \<Rightarrow>
             let pp = block_hash E (last headers)
             in (case order_main_chain (cs1\<lparr>tips := [pp]\<rparr>) of
                   None \<Rightarrow> None
                 | Some cs2 \<Rightarrow>
                     let cs3 = capture_base (cs2\<lparr>pruning_point := Some pp\<rparr>)
                     in Some (cs3\<lparr>base_frontier := Some pp, live := base cs3\<rparr>, Ok pp))))"

definition build_pruning_point_ledger :: "env \<Rightarrow> chain_state \<Rightarrow> pruning_point_ledger option option" where
  "build_pruning_point_ledger E cs =
     (case pruning_point cs of
        None \<Rightarrow> Some None
      | Some pp \<Rightarrow>
          (case hget (dag cs) pp of
             None \<Rightarrow> Some None
           | Some b \<Rightarrow>
               let served = (\<lambda>l. Some \<lparr>ppl_pruning_point = pp, ppl_ledger = l\<rparr>);
                   replayed = (if \<not> archival cs then Some None
                     else map_option (\<lambda>m. case m of
                            None \<Rightarrow> None
                          | Some l \<Rightarrow> if ledger_merkle_root E l \<noteq> b_state_root b then None else served l)
                       (ledger_via_genesis_replay E cs pp))
               in (case pruning_ledger cs of
                     Some l \<Rightarrow> if ledger_merkle_root E l = b_state_root b then Some (served l) else replayed
                   | None \<Rightarrow> replayed)))"

definition adopt_pruning_point_ledger :: "env \<Rightarrow> pruning_point_ledger \<Rightarrow> chain_state \<Rightarrow> chain_state \<times> unit result" where
  "adopt_pruning_point_ledger E msg cs =
     (case pruning_point cs of
        None \<Rightarrow> (cs, Err ''no pruning point to adopt ledger for'')
      | Some pp \<Rightarrow>
          if ppl_pruning_point msg \<noteq> pp then (cs, Err ''pruning-point ledger hash mismatch'')
          else
            (case hget (dag cs) pp of
               None \<Rightarrow> (cs, Err ''pruning point header missing'')
             | Some b \<Rightarrow>
                 if ledger_merkle_root E (ppl_ledger msg) \<noteq> b_state_root b then (cs, Err ''pruning-point ledger does not match state_root'')
                 else (cs\<lparr>base := ppl_ledger msg, base_captured := True, base_frontier := Some pp,
                          pruning_ledger := Some (ppl_ledger msg), live := ppl_ledger msg\<rparr>, Ok ())))"

definition set_serving_pruning_point :: "env \<Rightarrow> hash \<Rightarrow> chain_state \<Rightarrow> (chain_state \<times> unit result) option" where
  "set_serving_pruning_point E pp cs =
     (case hget (dag cs) pp of
        None \<Rightarrow> Some (cs, Err ''pruning point not in DAG'')
      | Some b \<Rightarrow>
          let cs1 = cs\<lparr>pruning_point := Some pp\<rparr>
          in map_option (\<lambda>m. case m of
                 None \<Rightarrow> (cs1, Err ''cannot replay ledger to pruning point'')
               | Some l \<Rightarrow>
                   if ledger_merkle_root E l \<noteq> b_state_root b then (cs1, Err ''replayed ledger does not match PP state_root'')
                   else (cs1\<lparr>pruning_ledger := Some l\<rparr>, Ok ()))
               (ledger_via_genesis_replay E cs1 pp))"

end
