(* ===== verification/Snapshot_Correct.thy ===== *)
theory Snapshot_Correct
  imports Snapshot Node_Correct Superproof_Correct
begin

text \<open>
  Correctness of saving, restarting and joining: the depth-first order of the rebuild lists parents first, the rebuilt
  index answers as the old one did, a saved state survives a crash at any moment, and a joining node gets the ledger
  the server has at the pruning point.
\<close>

section \<open>The depth-first order\<close>

definition parents_first :: "dag_map \<Rightarrow> hash list \<Rightarrow> bool" where
  "parents_first dg order \<longleftrightarrow> (\<forall>xs x ys. order = xs @ x # ys \<longrightarrow> {p. edge dg p x \<and> hhas dg p} \<subseteq> set xs)"

lemma parents_first_snoc:
  assumes "parents_first dg order" and "{p. edge dg p x \<and> hhas dg p} \<subseteq> set order"
  shows "parents_first dg (order @ [x])"
  unfolding parents_first_def
proof (intro allI impI)
  fix xs y ys assume eq: "order @ [x] = xs @ y # ys"
  show "{p. edge dg p y \<and> hhas dg p} \<subseteq> set xs"
  proof (cases ys rule: rev_cases)
    case Nil
    then show ?thesis using eq assms(2) by simp
  next
    case (snoc zs z)
    then have "order = xs @ y # zs" using eq by simp
    then show ?thesis using assms(1) unfolding parents_first_def by blast
  qed
qed

definition dfs_stack_ok :: "dag_map \<Rightarrow> (hash \<times> bool) list \<Rightarrow> hash list \<Rightarrow> bool" where
  \<comment> \<open>above a block in progress are ancestors of it only, and each of its parents that is not done\<close>
  "dfs_stack_ok dg st order \<longleftrightarrow> (\<forall>up m dn. st = up @ (m, True) # dn \<longrightarrow>
     (\<forall>x\<in>fst ` set up. anc dg x m) \<and> {p. edge dg p m \<and> hhas dg p} \<subseteq> set order \<union> fst ` set up)"

definition dfs_inv :: "dag_map \<Rightarrow> (hash \<times> bool) list \<Rightarrow> (hash, nat) hmap \<Rightarrow> hash list \<Rightarrow> bool" where
  "dfs_inv dg st mark order \<longleftrightarrow> distinct order \<and> parents_first dg order \<and> dfs_stack_ok dg st order
     \<and> (\<forall>x. mark_of mark x = 2 \<longleftrightarrow> x \<in> set order) \<and> (\<forall>x. mark_of mark x \<notin> {0, 2} \<longleftrightarrow> (x, True) \<in> set st)
     \<and> fst ` set st \<subseteq> {x. hhas dg x} \<and> set order \<subseteq> {x. hhas dg x}"

lemma mark_of_hput [simp]: "mark_of (hput x v mark) y = (if x = y then v else mark_of mark y)"
  by (simp add: hget_or_def)

lemma dfs_invD:
  assumes "dfs_inv dg st mark order"
  shows "distinct order" "parents_first dg order" "dfs_stack_ok dg st order" "\<And>x. mark_of mark x = 2 \<longleftrightarrow> x \<in> set order"
    "\<And>x. mark_of mark x \<noteq> 0 \<and> mark_of mark x \<noteq> 2 \<longleftrightarrow> (x, True) \<in> set st" "\<And>x. x \<in> fst ` set st \<Longrightarrow> hhas dg x" "\<And>x. x \<in> set order \<Longrightarrow> hhas dg x"
  using assms unfolding dfs_inv_def by auto

lemma dfs_invI:
  assumes "distinct order" "parents_first dg order" "dfs_stack_ok dg st order" "\<And>x. mark_of mark x = 2 \<longleftrightarrow> x \<in> set order"
    "\<And>x. mark_of mark x \<noteq> 0 \<and> mark_of mark x \<noteq> 2 \<longleftrightarrow> (x, True) \<in> set st" "\<And>x. x \<in> fst ` set st \<Longrightarrow> hhas dg x" "\<And>x. x \<in> set order \<Longrightarrow> hhas dg x"
  shows "dfs_inv dg st mark order"
  using assms unfolding dfs_inv_def by auto

lemma dfs_stackD:
  assumes "dfs_stack_ok dg (up @ (m, True) # dn) order"
  shows "\<And>x. x \<in> fst ` set up \<Longrightarrow> anc dg x m" "{p. edge dg p m \<and> hhas dg p} \<subseteq> set order \<union> fst ` set up"
  using assms unfolding dfs_stack_ok_def by blast+

lemma dfs_stack_anc:
  assumes "dfs_stack_ok dg (e # st) order" and "(m, True) \<in> set st"
  shows "anc dg (fst e) m"
proof -
  obtain a b where "st = a @ (m, True) # b" using assms(2) by (auto dest: split_list)
  then have "e # st = (e # a) @ (m, True) # b" by simp
  then show ?thesis using dfs_stackD(1) [of dg "e # a" m b order] assms(1) by simp
qed

lemma dfs_stack_tail: "dfs_stack_ok dg (e # st) order \<Longrightarrow> fst e \<in> set order' \<Longrightarrow> set order \<subseteq> set order' \<Longrightarrow> dfs_stack_ok dg st order'"
  unfolding dfs_stack_ok_def
proof (intro allI impI, goal_cases)
  case (1 up m dn)
  have "e # st = (e # up) @ (m, True) # dn" using 1(4) by simp
  then have "(\<forall>x\<in>fst ` set (e # up). anc dg x m) \<and> {p. edge dg p m \<and> hhas dg p} \<subseteq> set order \<union> fst ` set (e # up)"
    using 1(1) by blast
  then show ?case using 1(2,3) by auto
qed

lemma dfs_finish:
  assumes inv: "dfs_inv dg ((node, True) # st) mark order" and ac: "dag_acyclic dg"
  shows "dfs_inv dg st (hput node 2 mark) (if hget mark node \<noteq> Some 2 then order @ [node] else order)"
proof -
  note d = dfs_invD [OF inv]
  have m: "mark_of mark node \<noteq> 2" using d(5) [of node] by simp
  then have new: "node \<notin> set order" "hget mark node \<noteq> Some 2" using d(4) [of node] by (auto simp: hget_or_def)
  have "{p. edge dg p node \<and> hhas dg p} \<subseteq> set order" using dfs_stackD(2) [of dg "[]" node st order] d(3) by simp
  then have pf: "parents_first dg (order @ [node])" by (rule parents_first_snoc [OF d(2)])
  have stk: "dfs_stack_ok dg st (order @ [node])" by (rule dfs_stack_tail [OF d(3)]) auto
  have once: "(node, True) \<notin> set st" using dfs_stack_anc [OF d(3)] ac by (auto simp: dag_acyclic_def)
  have "dfs_inv dg st (hput node 2 mark) (order @ [node])"
  proof (rule dfs_invI [OF _ pf stk])
    show "mark_of (hput node 2 mark) x \<noteq> 0 \<and> mark_of (hput node 2 mark) x \<noteq> 2 \<longleftrightarrow> (x, True) \<in> set st" for x
      using d(5) [of x] once by auto
  qed (use d(1,4,6,7) new in \<open>auto simp: image_iff\<close>)
  then show ?thesis using new(2) by simp
qed

lemma dfs_skip:
  assumes inv: "dfs_inv dg ((node, False) # st) mark order" and ac: "dag_acyclic dg" and m: "mark_of mark node \<noteq> 0"
  shows "dfs_inv dg st mark order" and "node \<in> set order"
proof -
  note d = dfs_invD [OF inv]
  have "(node, True) \<notin> set st" using dfs_stack_anc [OF d(3), of node] ac by (auto simp: dag_acyclic_def)
  then show node: "node \<in> set order" using d(4,5) [of node] m by auto
  have "dfs_stack_ok dg st order" by (rule dfs_stack_tail [OF d(3)]) (use node in auto)
  then show "dfs_inv dg st mark order" using d by (intro dfs_invI) auto
qed

lemma split_at_true:
  "ps @ (n, True) # st = up @ (x, True) # dn \<Longrightarrow> \<forall>e\<in>set ps. \<not> snd e \<Longrightarrow>
     up = ps \<and> x = n \<or> (\<exists>a. up = ps @ (n, True) # a \<and> st = a @ (x, True) # dn)"
proof (induction ps arbitrary: up)
  case Nil
  then show ?case by (cases up) auto
next
  case (Cons p ps)
  then have "up \<noteq> []" by auto
  then obtain up' where "up = p # up'" using Cons.prems(1) by (cases up) auto
  then show ?case using Cons by simp
qed

lemma dfs_expand:
  assumes inv: "dfs_inv dg ((node, False) # st) mark order" and m: "mark_of mark node = 0"
  shows "dfs_inv dg (dfs_parents dg (hput node 1 mark) node @ (node, True) # st) (hput node 1 mark) order"
proof -
  define ps where "ps = dfs_parents dg (hput node 1 mark) node"
  note d = dfs_invD [OF inv]
  have ps: "fst ` set ps = {p. edge dg p node \<and> hhas dg p \<and> mark_of (hput node 1 mark) p \<noteq> 2}" "\<forall>e\<in>set ps. \<not> snd e"
    by (auto simp: ps_def dfs_parents_def edge_def image_image)
  have no: "node \<notin> set order" using d(4) [of node] m by auto
  have "dfs_stack_ok dg (ps @ (node, True) # st) order"
    unfolding dfs_stack_ok_def
  proof (intro allI impI)
    fix up x dn
    assume eq: "ps @ (node, True) # st = up @ (x, True) # dn"
    consider "up = ps" "x = node" | a where "up = ps @ (node, True) # a" "st = a @ (x, True) # dn"
      using split_at_true [OF eq ps(2)] by blast
    then show "(\<forall>y\<in>fst ` set up. anc dg y x) \<and> {p. edge dg p x \<and> hhas dg p} \<subseteq> set order \<union> fst ` set up"
    proof cases
      case 1
      have "p \<in> set order \<union> fst ` set ps" if "edge dg p node" "hhas dg p" for p
        using that d(4) [of p] unfolding ps(1) by auto
      moreover have "anc dg y node" if "y \<in> fst ` set ps" for y using that unfolding ps(1) by auto
      ultimately show ?thesis using 1 by auto
    next
      case (2 a)
      have st: "dfs_stack_ok dg (((node, False) # a) @ (x, True) # dn) order" using d(3) 2(2) by simp
      have k: "anc dg node x" "\<And>y. y \<in> fst ` set a \<Longrightarrow> anc dg y x" using dfs_stackD(1) [OF st] by auto
      have "anc dg y x" if "y \<in> fst ` set ps" for y
        using that ps(1) k(1) by (auto intro: tranclp_into_tranclp2)
      then show ?thesis using k dfs_stackD(2) [OF st] 2(1) by auto
    qed
  qed
  then have "dfs_inv dg (ps @ (node, True) # st) (hput node 1 mark) order"
  proof (rule dfs_invI [OF d(1,2)])
    show "mark_of (hput node 1 mark) x \<noteq> 0 \<and> mark_of (hput node 1 mark) x \<noteq> 2 \<longleftrightarrow> (x, True) \<in> set (ps @ (node, True) # st)" for x
      using d(5) [of x] ps(2) by auto
    show "mark_of (hput node 1 mark) x = 2 \<longleftrightarrow> x \<in> set order" for x using d(4) [of x] no by auto
    show "hhas dg x" if "x \<in> fst ` set (ps @ (node, True) # st)" for x using that d(6) [of x] ps(1) by auto
  qed (use d(7) in auto)
  then show ?thesis by (simp add: ps_def)
qed

lemma dfs_loop_done:
  assumes "dag_acyclic dg" and "dfs_inv dg st mark order" and "dfs_loop dg st mark order = (mark', order')"
  shows "dfs_inv dg [] mark' order' \<and> set order \<union> fst ` set st \<subseteq> set order'"
  using assms
proof (induction dg st mark order rule: dfs_loop.induct)
  case (2 dg node st mark order)
  have "node \<in> set (if hget mark node \<noteq> Some 2 then order @ [node] else order)"
    using dfs_invD(4) [OF 2(3), of node] by (auto simp: hget_or_def)
  then show ?case using 2(1) [OF 2(2) dfs_finish [OF 2(3,2)]] 2(4) by auto
next
  case (3 dg node st mark order)
  show ?case
  proof (cases "mark_of mark node = 0")
    case True
    then show ?thesis using 3(2) [OF _ 3(3) dfs_expand [OF 3(4) True]] 3(5) by auto
  next
    case False
    then show ?thesis using 3(1) [OF False 3(3) dfs_skip(1) [OF 3(4,3) False]] dfs_skip(2) [OF 3(4,3) False] 3(5) by auto
  qed
qed simp

lemma dfs_fold:
  assumes ac: "dag_acyclic dg" and ks: "\<forall>k\<in>set ks. hhas dg k" and inv: "dfs_inv dg [] mark order"
    and f: "fold (dfs_start dg) ks (mark, order) = (mark', order')"
  shows "dfs_inv dg [] mark' order' \<and> set order \<union> set ks \<subseteq> set order'"
  using ks inv f
proof (induction ks arbitrary: mark order)
  case (Cons k ks)
  obtain m1 o1 where s: "dfs_start dg k (mark, order) = (m1, o1)" by (cases "dfs_start dg k (mark, order)")
  have "dfs_inv dg [] m1 o1 \<and> set order \<union> {k} \<subseteq> set o1"
  proof (cases "mark_of mark k = 2")
    case True
    then show ?thesis using s Cons.prems(2) dfs_invD(4) [OF Cons.prems(2), of k] by (simp add: dfs_start_def)
  next
    case False
    have "dfs_stack_ok dg [(k, False)] order" by (auto simp: dfs_stack_ok_def append_eq_Cons_conv Cons_eq_append_conv)
    then have "dfs_inv dg [(k, False)] mark order"
      using Cons.prems(1) dfs_invD [OF Cons.prems(2)] by (intro dfs_invI) auto
    then show ?thesis using dfs_loop_done [OF ac, of "[(k, False)]" mark order m1 o1] s False by (simp add: dfs_start_def)
  qed
  then show ?case using Cons.IH [of m1 o1] Cons.prems(1,3) s by auto
qed simp

definition key_order :: "(dag_map \<Rightarrow> hash list) \<Rightarrow> bool" where
  \<comment> \<open>an iteration over the keys of a hash map visits each once\<close>
  "key_order keys \<longleftrightarrow> (\<forall>dg. distinct (keys dg) \<and> set (keys dg) = set (hkeys dg))"

lemma dag_topological_order_ok:
  assumes ac: "dag_acyclic dg" and ks: "key_order keys"
  shows "distinct (dag_topological_order keys dg)" "set (dag_topological_order keys dg) = set (hkeys dg)"
    "parents_first dg (dag_topological_order keys dg)"
proof -
  obtain m o' where f: "fold (dfs_start dg) (keys dg) ([], []) = (m, o')" by (cases "fold (dfs_start dg) (keys dg) ([], [])")
  have "dfs_inv dg [] [] []" by (auto simp: dfs_inv_def parents_first_def dfs_stack_ok_def hget_or_def)
  moreover have "\<forall>k\<in>set (keys dg). hhas dg k" using ks by (simp add: key_order_def hhas_iff)
  ultimately have k: "dfs_inv dg [] m o'" "set (keys dg) \<subseteq> set o'" using dfs_fold [OF ac _ _ f] by auto
  have o': "dag_topological_order keys dg = o'" using f by (simp add: dag_topological_order_def)
  show "distinct (dag_topological_order keys dg)" "parents_first dg (dag_topological_order keys dg)"
    using dfs_invD(1,2) [OF k(1)] o' by simp_all
  show "set (dag_topological_order keys dg) = set (hkeys dg)"
    using dfs_invD(7) [OF k(1)] k(2) ks o' by (auto simp: key_order_def hhas_iff)
qed

section \<open>The rebuilt index\<close>

definition past_part :: "dag_map \<Rightarrow> hash set \<Rightarrow> dag_map \<Rightarrow> bool" where
  \<comment> \<open>\<open>dx\<close> is the part of the DAG on the past-closed set \<open>S\<close>\<close>
  "past_part dg S dx \<longleftrightarrow> (\<forall>x. hget dx x = (if x \<in> S then hget dg x else None)) \<and> (\<forall>x p. x \<in> S \<longrightarrow> edge dg p x \<longrightarrow> p \<in> S)"

lemma past_part_edge:
  assumes "past_part dg S dx"
  shows "edge dx p x \<longleftrightarrow> x \<in> S \<and> edge dg p x"
proof -
  have "hget dx x = (if x \<in> S then hget dg x else None)" using assms unfolding past_part_def by blast
  then have "dag_parents dx x = (if x \<in> S then dag_parents dg x else [])" unfolding dag_parents_def by (cases "x \<in> S") (simp_all del: dag_parents_absent)
  then show ?thesis unfolding edge_def by (cases "x \<in> S") (simp_all del: dag_parents_absent)
qed

lemma past_part_anc:
  assumes "past_part dg S dx" and "b \<in> S"
  shows "anc_incl dx a b \<longleftrightarrow> anc_incl dg a b"
proof
  assume "anc_incl dx a b"
  then show "anc_incl dg a b"
    by (rule rtranclp_mono [THEN predicate2D, rotated]) (auto simp: past_part_edge [OF assms(1)])
next
  assume "anc_incl dg a b"
  then have "anc_incl dx a b \<and> a \<in> S"
  proof (induction rule: converse_rtranclp_induct)
    case (step y z)
    then have "edge dx y z" by (simp add: past_part_edge [OF assms(1)])
    then show ?case using step assms(1) by (auto simp: past_part_def intro: converse_rtranclp_into_rtranclp)
  qed (use assms(2) in simp)
  then show "anc_incl dx a b" ..
qed

definition index_of :: "dag_map \<Rightarrow> ghostdag_map \<Rightarrow> hash list \<Rightarrow> reachability \<Rightarrow> bool" where
  \<comment> \<open>\<open>r\<close> indexes the blocks \<open>xs\<close>\<close>
  "index_of dg gd xs r \<longleftrightarrow> (\<exists>dx. past_part dg (set xs) dx \<and> hmap_ok dx \<and> reach_inv r dx
     \<and> (\<forall>x. hhas (nodes r) x \<longleftrightarrow> x \<in> set xs) \<and> (\<forall>p c. tedge (nodes r) p c \<longleftrightarrow> c \<in> set xs \<and> sp_edge gd c p))"

lemma dag_run_size: "dag_run dg gd r \<Longrightarrow> length dg \<le> 2 ^ 41"
proof (induction rule: dag_run.induct)
  case (block dg gd r h b M d r')
  have "length (hput h b dg) \<le> Suc (length dg)" by (induction dg) (auto split: if_splits)
  then show ?case using block.hyps(5) by simp
qed simp

lemma index_of_step:
  assumes run: "dag_run dg gd r" and new: "h \<notin> set xs" "hhas dg h" and ps: "\<forall>p. edge dg p h \<longrightarrow> p \<in> set xs"
    and xs: "distinct xs" "set xs \<subseteq> set (hkeys dg)" and ix: "index_of dg gd xs rx" and d: "hget gd h = Some d"
  obtains ry where "reach_add_block rx h (selected_parent d) (merged_blocks d) = Some ry" and "index_of dg gd (xs @ [h]) ry"
proof -
  note g = dag_run_inv [OF run, unfolded ghost_inv_def]
  obtain b where b: "hget dg h = Some b" using new(2) by (auto simp: hhas_def)
  have pb: "edge dg p h \<longleftrightarrow> p \<in> set (parents b)" for p using b by (simp add: edge_def dag_parents_def)
  from ix obtain dx where dx: "past_part dg (set xs) dx" "hmap_ok dx" "reach_inv rx dx" "\<And>x. hhas (nodes rx) x \<longleftrightarrow> x \<in> set xs"
    "\<And>p c. tedge (nodes rx) p c \<longleftrightarrow> c \<in> set xs \<and> sp_edge gd c p" unfolding index_of_def by blast
  have fresh: "dag_fresh dx h"
    using dx(1) new(1) by (auto simp: dag_fresh_def past_part_edge [OF dx(1)] past_part_def hhas_def)
  have hp: "h \<notin> set (parents b)" using ps new(1) pb by blast
  have size: "length (nodes rx) < 2 ^ 41"
  proof -
    have "hmap_ok (nodes rx)" "set (hkeys (nodes rx)) = set xs"
      using dx(3,4) by (auto simp: reach_inv_def index_ok_def forest_ok_def hhas_iff)
    then have "length (nodes rx) = card (set xs)" using distinct_card [of "hkeys (nodes rx)"] by (simp add: hmap_ok_def)
    also have "\<dots> < card (set (hkeys dg))"
      using xs(2) new by (intro psubset_card_mono) (auto simp: hhas_iff)
    also have "\<dots> \<le> length dg" by (metis card_length length_map)
    finally show ?thesis using dag_run_size [OF run] by simp
  qed
  have mk: "merge_ok dg gd h d" by (rule dag_run_merge [OF run d])
  have A: "anc_incl dx a p \<longleftrightarrow> anc_incl dg a p" if "p \<in> set (parents b)" for a p
    using past_part_anc [OF dx(1), of p a] ps pb that by blast
  have anc: "anc dg a h \<longleftrightarrow> (\<exists>p\<in>set (parents b). anc_incl dx a p)" for a
    using A by (simp add: anc_iff_parent dag_parents_def b)
  have sp: "case selected_parent d of None \<Rightarrow> True | Some p \<Rightarrow> p \<in> set (parents b) \<and> hhas (nodes rx) p"
    using mk ps pb dx(4) by (auto simp: merge_ok_def split: option.splits)
  have sp1: "case selected_parent d of None \<Rightarrow> True | Some p \<Rightarrow> p \<in> set (parents b) \<and> (hhas (nodes rx) p \<or> (\<forall>a. hhas (nodes rx) a \<longrightarrow> \<not> anc_incl dx a p))"
    using sp by (simp split: option.splits)
  have ms: "\<forall>a. hhas (nodes rx) a \<longrightarrow> (a \<in> set (merged_blocks d) \<longleftrightarrow> (\<exists>p\<in>set (parents b). anc_incl dx a p)
      \<and> (case selected_parent d of None \<Rightarrow> True | Some p \<Rightarrow> \<not> anc_incl dx a p))"
    using mk A sp anc by (auto simp: merge_ok_def dag_parents_def b split: option.splits)
  have hn: "\<not> hhas (nodes rx) h" using dx(4) new(1) by simp
  obtain ry where ry: "reach_add_block rx h (selected_parent d) (merged_blocks d) = Some ry" "reach_inv ry (hput h b dx)"
    "\<And>x. hhas (nodes ry) x \<longleftrightarrow> x = h \<or> hhas (nodes rx) x"
    using reach_add_block_ok [OF dx(3) fresh hp hn size sp1 ms] by blast
  have sp2: "case selected_parent d of None \<Rightarrow> True | Some p \<Rightarrow> hhas (nodes rx) p" using sp by (simp split: option.splits)
  have te: "tedge (nodes ry) p c \<longleftrightarrow> tedge (nodes rx) p c \<or> (selected_parent d = Some p \<and> c = h)" for p c
    by (rule tedge_added [OF _ hn size ry(1) sp2]) (use dx(3) in \<open>simp add: reach_inv_def\<close>)
  have "index_of dg gd (xs @ [h]) ry"
    unfolding index_of_def
  proof (intro exI [of _ "hput h b dx"] conjI allI)
    show "past_part dg (set (xs @ [h])) (hput h b dx)" using dx(1) b ps by (auto simp: past_part_def)
    show "tedge (nodes ry) p c \<longleftrightarrow> c \<in> set (xs @ [h]) \<and> sp_edge gd c p" for p c
      using te [of p c] dx(5) [of p c] new(1) d by (auto simp: sp_edge_def)
  qed (use dx(2,4) ry(2,3) in auto)
  then show thesis using that ry(1) by blast
qed

lemma replay_index_returns:
  assumes run: "dag_run dg gd r" and ord: "distinct (xs @ ys)" "set (xs @ ys) = set (hkeys dg)" "parents_first dg (xs @ ys)"
    and ix: "index_of dg gd xs rx"
  obtains ry where "replay_index gd ys rx = Some ry" and "index_of dg gd (xs @ ys) ry"
  using ord ix
proof (induction ys arbitrary: xs rx thesis)
  case Nil
  then show ?case by simp
next
  case (Cons h ys)
  note g = dag_run_inv [OF run, unfolded ghost_inv_def]
  have h: "hhas dg h" "h \<notin> set xs" using Cons.prems(2,3) by (auto simp: hhas_iff)
  then obtain d where d: "hget gd h = Some d" using g by (metis hhas_def not_None_eq)
  have ps: "\<forall>p. edge dg p h \<longrightarrow> p \<in> set xs" using Cons.prems(4) g unfolding parents_first_def by blast
  obtain r1 where r1: "reach_add_block rx h (selected_parent d) (merged_blocks d) = Some r1" "index_of dg gd (xs @ [h]) r1"
    by (rule index_of_step [OF run h(2,1) ps _ _ Cons.prems(5) d]) (use Cons.prems(2,3) in auto)
  obtain ry where "replay_index gd ys r1 = Some ry" "index_of dg gd ((xs @ [h]) @ ys) ry"
    by (rule Cons.IH [where xs = "xs @ [h]" and rx = r1]) (use Cons.prems(2-4) r1(2) in auto)
  then show ?case using Cons.prems(1) d r1(1) by simp
qed

lemma rebuilt_index:
  assumes run: "dag_run dg gd r" and ks: "key_order keys"
  obtains r' where "replay_index gd (dag_topological_order keys dg) reach_new = Some r'" and "reach_inv r' dg"
    and "\<forall>a b. is_ancestor r' a b dg = is_ancestor r a b dg" and "\<forall>a b. is_chain_ancestor r' a b = is_chain_ancestor r a b"
proof -
  note g = dag_run_inv [OF run, unfolded ghost_inv_def]
  have ac: "dag_acyclic dg" using g by (simp add: reach_inv_def)
  note o' = dag_topological_order_ok [OF ac ks]
  have "index_of dg gd [] reach_new"
    using reach_inv_new by (auto simp: index_of_def past_part_def reach_new_def hhas_def tedge_def intro!: exI [of _ "[]"])
  then obtain r' where r': "replay_index gd (dag_topological_order keys dg) reach_new = Some r'" "index_of dg gd (dag_topological_order keys dg) r'"
    using replay_index_returns [OF run, of "[]" "dag_topological_order keys dg" reach_new] o' by auto
  then obtain dx where dx: "past_part dg (set (hkeys dg)) dx" "reach_inv r' dx" "\<And>x. hhas (nodes r') x \<longleftrightarrow> hhas dg x"
    "\<And>p c. tedge (nodes r') p c \<longleftrightarrow> hhas dg c \<and> sp_edge gd c p" unfolding index_of_def o'(2) by (auto simp: hhas_iff)
  have "hget dg = hget dx" using dx(1) by (intro ext) (auto simp: past_part_def map_of_eq_None_iff)
  then have inv: "reach_inv r' dg" using reach_inv_cong [OF HOL.refl _ _ dx(2), of dg] dx(2) by (simp add: reach_inv_def index_ok_def forest_ok_def)
  have "tedge (nodes r') p c \<longleftrightarrow> tedge (nodes r) p c" for p c
    using dx(4) dag_run_tree [OF run, of p c] g by (auto simp: sp_edge_def hhas_def)
  then have te: "tedge (nodes r') = tedge (nodes r)" by (intro ext) simp
  have nodes: "hhas (nodes r') x \<longleftrightarrow> hhas (nodes r) x" for x using dx(3) g by simp
  show thesis
  proof (rule that [OF r'(1) inv])
    show "\<forall>a b. is_ancestor r' a b dg = is_ancestor r a b dg" using is_ancestor_anc [OF inv] is_ancestor_anc [of r dg] g by simp
    show "\<forall>a b. is_chain_ancestor r' a b = is_chain_ancestor r a b"
      using is_chain_ancestor_tanc [OF inv] is_chain_ancestor_tanc [of r dg] g te nodes by simp
  qed
qed

lemma rebuild_restores:
  assumes inv: "chain_inv E cs" and ks: "key_order keys"
  obtains r' where "rebuild_derived E keys (transient cs) = Some (transient cs\<lparr>reach := r', base_captured := True\<rparr>)"
    and "\<forall>a b. is_ancestor r' a b (dag cs) = is_ancestor (reach cs) a b (dag cs)"
    and "\<forall>a b. is_chain_ancestor r' a b = is_chain_ancestor (reach cs) a b"
proof -
  obtain t where t: "dag_ok E cs" "selected_tip (ghostdag cs) (tips cs) = Some t" "from_base E cs t" "ledger_at E cs t = Some (live cs)"
    using inv by (auto simp: chain_inv_def tip_ok_def)
  obtain l where "recompute_virtual_state E cs = Some (cs\<lparr>live := l\<rparr>)" "ledger_at E cs t = Some l" by (rule recompute_past [OF t(1-3)])
  then have rc: "recompute_virtual_state E cs = Some (cs\<lparr>live := live cs\<rparr>)" using t(4) by simp
  obtain r' where r': "replay_index (ghostdag cs) (dag_topological_order keys (dag cs)) reach_new = Some r'"
    "\<forall>a b. is_ancestor r' a b (dag cs) = is_ancestor (reach cs) a b (dag cs)" "\<forall>a b. is_chain_ancestor r' a b = is_chain_ancestor (reach cs) a b"
    by (rule rebuilt_index [OF dag_okD(1) [OF t(1)] ks])
  define cs1 where "cs1 = transient cs\<lparr>reach := r', base_captured := True\<rparr>"
  have e: "dag cs1 = dag cs" "ghostdag cs1 = ghostdag cs" "tips cs1 = tips cs" "chain_id cs1 = chain_id cs" "base cs1 = base cs"
    "base_frontier cs1 = base_frontier cs" "live cs1 = live cs"
    by (simp_all add: cs1_def transient_def)
  from rc obtain ord where ord: "canonical_order cs = Some ord" "cs\<lparr>live := replay E cs (drop (replay_start (base_frontier cs) ord) ord) (base cs)\<rparr> = cs\<lparr>live := live cs\<rparr>"
    by (auto simp: recompute_virtual_state_def)
  have l: "replay E cs (drop (replay_start (base_frontier cs) ord) ord) (base cs) = live cs"
    using arg_cong [OF ord(2), of live] by simp
  have "canonical_order cs1 = Some ord" using ord(1) t(2) by (simp add: canonical_order_def e)
  moreover have "replay E cs1 = replay E cs" unfolding replay_def e by (rule HOL.refl)
  ultimately have "recompute_virtual_state E cs1 = Some (cs1\<lparr>live := live cs1\<rparr>)" by (simp add: recompute_virtual_state_def e l)
  moreover have "cs1\<lparr>live := live cs1\<rparr> = cs1" by (cases cs1) simp
  ultimately have "recompute_virtual_state E cs1 = Some cs1" by simp
  then show thesis using that r' by (simp add: rebuild_derived_def transient_def cs1_def)
qed

section \<open>The state of a running node\<close>

lemma node_run_ledgers: "node_run E lab arch cs \<Longrightarrow> ledgers_ok cs"
  unfolding node_run_def using node_steps_ledgers chain_new_ledgers by blast

lemma node_run_identity:
  assumes "node_run E lab True cs"
  shows "chain_id cs = CHAIN_ID" and "hget (dag cs) (genesis_hash E) = Some genesis_block"
proof -
  obtain cs0 where c: "chain_new E lab = Some cs0" "node_steps E lab (cs0\<lparr>archival := True\<rparr>) cs" using assms by (auto simp: node_run_def)
  have "chain_id cs = CHAIN_ID \<and> hget (dag cs) (genesis_hash E) = Some genesis_block \<and> chain_inv E cs"
    using c(2)
  proof (induction rule: node_steps.induct)
    case refl
    then show ?case using c(1) chain_inv_start [OF c(1)] by (auto simp: chain_new_def Let_def split: option.splits)
  next
    case (block cs1 now pin b cs2 res)
    from block.hyps(3) show ?case
    proof (cases rule: add_block_cases)
      case (added d)
      have "chain_inv E cs1" using block.IH by simp
      then obtain cs' where "commit_block E lab b d cs1 = Some cs'" "chain_inv E cs'" "dag cs' = hput (block_hash E b) b (dag cs1)" "chain_id cs' = chain_id cs1"
        by (rule commit_block_ok [OF _ added(1) block.hyps(2)])
      moreover have "\<not> hhas (dag cs1) (block_hash E b)"
        using validate_block_Ok [OF added(1)] unfolding check_structure_Ok by blast
      ultimately show ?thesis using block.IH added(2) by (auto simp: hhas_def)
    qed (use block.IH in simp)
  qed
  then show "chain_id cs = CHAIN_ID" "hget (dag cs) (genesis_hash E) = Some genesis_block" by simp_all
qed

lemma main_chain_ok:
  assumes "chain_inv E cs"
  shows "distinct (main_chain cs)" and "\<forall>h\<in>set (main_chain cs). hhas (dag cs) h" and "main_chain cs \<noteq> []"
    and "selected_tip (ghostdag cs) (tips cs) = Some (last (main_chain cs))"
proof -
  obtain t where t: "dag_ok E cs" "selected_tip (ghostdag cs) (tips cs) = Some t" "selected_chain (ghostdag cs) t = Some (main_chain cs)"
    using assms by (auto simp: chain_inv_def tip_ok_def)
  note d = dag_okD [OF t(1)]
  obtain c where "selected_chain (ghostdag cs) t = Some c" "c \<noteq> []" "last c = t" "successively (\<lambda>x y. sp_edge (ghostdag cs) y x) c" "\<forall>x\<in>set c. hhas (ghostdag cs) x"
    by (rule selected_chain_links [OF d(3) selected_tip_Some(2) [OF t(2)]])
  then have c: "main_chain cs \<noteq> []" "last (main_chain cs) = t" "successively (\<lambda>x y. sp_edge (ghostdag cs) y x) (main_chain cs)" "\<forall>x\<in>set (main_chain cs). hhas (ghostdag cs) x"
    using t(3) by simp_all
  have "sorted_wrt (\<noteq>) (main_chain cs)" by (rule sorted_wrt_mono_rel [OF _ chain_scores [OF d(3) c(3)]]) auto
  then show "distinct (main_chain cs)" by (simp add: distinct_conv_nth sorted_wrt_iff_nth_less) (metis linorder_neqE_nat)
  show "\<forall>h\<in>set (main_chain cs). hhas (dag cs) h" "main_chain cs \<noteq> []" "selected_tip (ghostdag cs) (tips cs) = Some (last (main_chain cs))"
    using c d(4) t(2) by auto
qed

lemma hsum_member: "hget m k = Some v \<Longrightarrow> f v \<le> hsum f m"
  by (induction m) (auto simp: hsum_def split: if_splits)

section \<open>The type of the state\<close>

lemma blue_score_bound:
  assumes run: "dag_run dg gd r" and d: "hget gd h = Some d"
  shows "blue_score d < length dg"
proof -
  note g = dag_run_inv [OF run, unfolded ghost_inv_def]
  have ok: "data_ok dg gd h d" using g d by blast
  have "hhas dg x" if "anc_incl dg x h" for x
    using that g d by (cases rule: converse_rtranclpE) (auto simp: hhas_def)
  then have "blues_at gd h \<subseteq> set (hkeys dg)" using ok by (auto simp: data_ok_def hhas_iff)
  then have "card (blues_at gd h) \<le> card (set (hkeys dg))" by (intro card_mono) auto
  also have "\<dots> \<le> length dg" by (metis card_length length_map)
  finally show ?thesis using ok by (simp add: data_ok_def)
qed

lemma ledger_amounts:
  assumes "solvent l"
  shows "\<forall>a v. hget (accounts l) a = Some v \<longrightarrow> balance v < 2 ^ 128" "\<forall>a v. hget (entries (utxo l)) a = Some v \<longrightarrow> o_value v < 2 ^ 128"
    "\<forall>a v. hget (escrows (registry l)) a = Some v \<longrightarrow> e_funded v < 2 ^ 128" "\<forall>a v. hget (staked l) a = Some v \<longrightarrow> v < 2 ^ 128"
proof -
  have t: "ledger_value l < 2 ^ 128" using assms by (simp add: solvent_def MAX_SUPPLY_def COIN_def)
  then have parts: "hsum balance (accounts l) < 2 ^ 128" "hsum o_value (entries (utxo l)) < 2 ^ 128" "hsum e_funded (escrows (registry l)) < 2 ^ 128"
      "hsum id (staked l) < 2 ^ 128"
    unfolding ledger_value_def by linarith+
  show "\<forall>a v. hget (accounts l) a = Some v \<longrightarrow> balance v < 2 ^ 128" using parts(1) by (meson hsum_member le_less_trans)
  show "\<forall>a v. hget (entries (utxo l)) a = Some v \<longrightarrow> o_value v < 2 ^ 128" using parts(2) by (meson hsum_member le_less_trans)
  show "\<forall>a v. hget (escrows (registry l)) a = Some v \<longrightarrow> e_funded v < 2 ^ 128" using parts(3) by (meson hsum_member le_less_trans)
  show "\<forall>a v. hget (staked l) a = Some v \<longrightarrow> v < 2 ^ 128" using hsum_member [of "staked l" _ _ id] parts(4) le_less_trans by (metis id_apply)
qed

text \<open>
  C6. The state of a node is always well formed. The block store, the colouring and the reachability index have one
  entry per block and the same blocks; a block is stored under its own hash and its parents are stored; blue scores are
  below the number of blocks; the tips are the blocks without children; the main chain has no repetition and ends at
  the selected tip; and every amount in the ledger fits the 128 bits of its type.
\<close>
theorem node_state_well_formed:
  assumes run: "node_run E lab True cs"
  shows "hmap_ok (dag cs) \<and> hmap_ok (ghostdag cs) \<and> hmap_ok (nodes (reach cs))
    \<and> (\<forall>h. hhas (ghostdag cs) h = hhas (dag cs) h \<and> hhas (nodes (reach cs)) h = hhas (dag cs) h)
    \<and> (\<forall>h b. hget (dag cs) h = Some b \<longrightarrow> block_hash E b = h \<and> (\<forall>p\<in>set (parents b). hhas (dag cs) p))
    \<and> (\<forall>h d. hget (ghostdag cs) h = Some d \<longrightarrow> blue_score d < length (dag cs)) \<and> length (dag cs) \<le> 2 ^ 41
    \<and> set (tips cs) = {t. hhas (dag cs) t \<and> (\<forall>x b. hget (dag cs) x = Some b \<longrightarrow> t \<notin> set (parents b))}
    \<and> distinct (main_chain cs) \<and> main_chain cs \<noteq> [] \<and> selected_tip (ghostdag cs) (tips cs) = Some (last (main_chain cs))
    \<and> (\<forall>a v. hget (accounts (live cs)) a = Some v \<longrightarrow> balance v < 2 ^ 128) \<and> (\<forall>a v. hget (entries (utxo (live cs))) a = Some v \<longrightarrow> o_value v < 2 ^ 128)
    \<and> (\<forall>a v. hget (escrows (registry (live cs))) a = Some v \<longrightarrow> e_funded v < 2 ^ 128) \<and> (\<forall>a v. hget (staked (live cs)) a = Some v \<longrightarrow> v < 2 ^ 128)"
proof -
  have inv: "chain_inv E cs" by (rule node_run_inv [OF run])
  then have ok: "dag_ok E cs" "leaf_tips cs" by (simp_all add: chain_inv_def)
  note d = dag_okD [OF ok(1)]
  note g = dag_run_inv [OF d(1), unfolded ghost_inv_def]
  have "solvent (live cs)" using node_run_ledgers [OF run] by (simp add: ledgers_ok_def)
  note am = ledger_amounts [OF this]
  have blocks: "\<forall>h b. hget (dag cs) h = Some b \<longrightarrow> block_hash E b = h \<and> (\<forall>p\<in>set (parents b). hhas (dag cs) p)"
  proof (intro allI impI conjI ballI)
    fix h b p assume b: "hget (dag cs) h = Some b"
    then show "block_hash E b = h" using d(2) by (simp add: hashed_def)
    assume "p \<in> set (parents b)"
    then have "edge (dag cs) p h" using b by (simp add: edge_def dag_parents_def)
    then show "hhas (dag cs) p" using g by blast
  qed
  have "(\<forall>x. \<not> edge (dag cs) t x) \<longleftrightarrow> (\<forall>x b. hget (dag cs) x = Some b \<longrightarrow> t \<notin> set (parents b))" for t
    unfolding edge_def dag_parents_def by (metis empty_iff empty_set not_Some_eq option.case(1) option.case(2))
  then have leaves: "set (tips cs) = {t. hhas (dag cs) t \<and> (\<forall>x b. hget (dag cs) x = Some b \<longrightarrow> t \<notin> set (parents b))}"
    using ok(2) by (simp add: leaf_tips_def)
  have "hmap_ok (nodes (reach cs))" using g by (simp add: reach_inv_def index_ok_def forest_ok_def)
  then show ?thesis
    using g blocks leaves blue_score_bound [OF d(1)] dag_run_size [OF d(1)] main_chain_ok [OF inv] am by blast
qed

section \<open>Saving and loading\<close>

definition bincode :: "(chain_state \<Rightarrow> bytes result) \<Rightarrow> (bytes \<Rightarrow> chain_state result) \<Rightarrow> bool" where
  \<comment> \<open>what the serializer promises: reading back gives the state with its skipped fields at their defaults\<close>
  "bincode ser de \<longleftrightarrow> (\<forall>cs payload. ser cs = Ok payload \<longrightarrow> de payload = Ok (transient cs))"

lemma load_state_file:
  assumes "length payload \<le> MAX_CHAINSTATE_BYTES" and "de payload = Ok cs"
  shows "load_one E de keys (Some (state_file E payload)) =
    (case validate_hardcoded_chain E cs of
       Inl e \<Rightarrow> Some (Err e)
     | Inr _ \<Rightarrow> if \<not> supply_invariant_ok (live cs) then Some (Err ''corrupt chainstate: supply invariant failed'')
              else map_option Ok (rebuild_derived E keys cs))"
proof -
  define body where "body = STATE_MAGIC @ le_bytes 4 STATE_FORMAT_VERSION @ payload"
  have m: "length STATE_MAGIC = 8" by (simp add: STATE_MAGIC_def str_bytes_def)
  have t: "length (state_tag E bs) = 64" for bs by (simp add: state_tag_def)
  have v: "le_nat (le_bytes 4 STATE_FORMAT_VERSION) = STATE_FORMAT_VERSION" by (simp add: le_nat_def le_bytes_def STATE_FORMAT_VERSION_def upt_rec)
  have f: "state_file E payload = body @ state_tag E body" by (simp add: state_file_def Let_def body_def)
  have "take 8 (state_file E payload) = STATE_MAGIC" "take 4 (drop 8 (state_file E payload)) = le_bytes 4 STATE_FORMAT_VERSION"
    "length (state_file E payload) = 76 + length payload" "length body = 12 + length payload" "drop 12 body = payload"
    by (simp_all add: f body_def m t)
  moreover have "take (length body) (state_file E payload) = body" "drop (length body) (state_file E payload) = state_tag E body"
    by (simp_all add: f)
  ultimately show ?thesis using assms by (simp add: load_one_def v Let_def STATE_CHECKSUM_LEN_def)
qed

lemma saved_node_loads:
  assumes run: "node_run E lab True cs" and ks: "key_order keys" and p: "length payload \<le> MAX_CHAINSTATE_BYTES" "de payload = Ok (transient cs)"
    and s: "supply_invariant_ok (live cs)"
  obtains r' where "load_one E de keys (Some (state_file E payload)) = Some (Ok (transient cs\<lparr>reach := r', base_captured := True\<rparr>))"
    and "\<forall>a b. is_ancestor r' a b (dag cs) = is_ancestor (reach cs) a b (dag cs)"
    and "\<forall>a b. is_chain_ancestor r' a b = is_chain_ancestor (reach cs) a b"
proof -
  have inv: "chain_inv E cs" by (rule node_run_inv [OF run])
  note m = main_chain_ok [OF inv] and i = node_run_identity [OF run]
  have tr: "dag (transient cs) = dag cs" "main_chain (transient cs) = main_chain cs" "live (transient cs) = live cs" "chain_id (transient cs) = chain_id cs"
    by (simp_all add: transient_def)
  have "length (main_chain cs) = card (set (main_chain cs))" using m(1) by (simp add: distinct_card)
  also have "\<dots> \<le> card (set (hkeys (dag cs)))" using m(2) by (intro card_mono) (auto simp: hhas_iff)
  also have "\<dots> \<le> length (dag cs)" by (metis card_length length_map)
  finally have len: "length (main_chain cs) \<le> length (dag cs)" .
  have sup: "minted_supply (live cs) \<le> MAX_SUPPLY" using node_run_ledgers [OF run] by (simp add: ledgers_ok_def solvent_def)
  have g: "height genesis_block = 0" "parents genesis_block = []" "b_difficulty genesis_block = GENESIS_DIFFICULTY"
    by (simp_all add: genesis_block_def GENESIS_DIFFICULTY_def)
  have "validate_hardcoded_chain E (transient cs) = Ok ()"
    using i m(2) len sup by (simp add: validate_hardcoded_chain_def tr g)
  then have l: "load_one E de keys (Some (state_file E payload)) = map_option Ok (rebuild_derived E keys (transient cs))"
    unfolding load_state_file [where de = de and cs = "transient cs", OF p] using s by (simp add: tr)
  obtain r' where "rebuild_derived E keys (transient cs) = Some (transient cs\<lparr>reach := r', base_captured := True\<rparr>)"
    "\<forall>a b. is_ancestor r' a b (dag cs) = is_ancestor (reach cs) a b (dag cs)" "\<forall>a b. is_chain_ancestor r' a b = is_chain_ancestor (reach cs) a b"
    by (rule rebuild_restores [OF inv ks])
  then show thesis using that l by simp
qed

lemma save_ops_succeed:
  assumes "\<forall>f. io f"
  shows "snd (run_ops io bs (save_ops d) d) = Ok ()" and "d_main (fst (run_ops io bs (save_ops d) d)) = Some bs"
  using assms by (simp_all add: save_ops_def fs_effect_def)

lemma save_from_good:
  assumes m: "d_main d = Some m" and d': "d' = (fst (run_ops io bs (take k (save_ops d)) d))\<lparr>d_tmp := junk\<rparr>"
  shows "d_main d' = Some m \<or> d_main d' = Some bs \<or> d_main d' = None \<and> d_bak d' = Some m"
  using m unfolding d' save_ops_def
  by (cases "d_bak d") (simp_all add: take_Cons fs_effect_def fs_error_def split: nat.split)

lemma save_from_missing:
  assumes m: "d_main d = None" and d': "d' = (fst (run_ops io bs (take k (save_ops d)) d))\<lparr>d_tmp := junk\<rparr>"
  shows "d_main d' = Some bs \<or> d_main d' = None \<and> d_bak d' = d_bak d \<and> d_bak1 d' = d_bak1 d"
  using m unfolding d' save_ops_def by (simp add: take_Cons fs_effect_def fs_error_def split: nat.split)

definition disk_holds :: "env \<Rightarrow> (bytes \<Rightarrow> chain_state result) \<Rightarrow> (dag_map \<Rightarrow> hash list) \<Rightarrow> disk \<Rightarrow> chain_state \<Rightarrow> bool" where
  \<comment> \<open>the state file loads as \<open>s\<close>, or there is none and a backup loads as \<open>s\<close>\<close>
  "disk_holds E de keys d s \<longleftrightarrow> load_one E de keys (d_main d) = Some (Ok s)
     \<or> d_main d = None \<and> load_backups E de keys [d_bak d, d_bak1 d] ''read state'' = Some (Ok s)"

lemma load_missing: "load_one E de keys None = Some (Err ''read state'')"
  by (simp add: load_one_def)

lemma disk_holds_loads: "disk_holds E de keys d s \<Longrightarrow> load_from E de keys d = Some (Ok s)"
  by (auto simp: disk_holds_def load_from_def load_missing fatal_prefixes_def)

text \<open>
  C8. Saving is crash safe. On a disk whose state file loads, or which lost it to an earlier crash and has a backup that
  loads, a save can stop after any of its file operations, whichever of them fail and with any rubbish left in the
  temporary file: what a restart then loads is the state that was there before or the new one, and the disk is again
  one on which the next save is safe. A save that reports success loads as the new state.
\<close>
theorem crash_safe_save:
  assumes old: "disk_holds E de keys d s" and new: "load_one E de keys (Some bs) = Some (Ok s')"
  shows "(\<forall>k junk. let d' = (fst (run_ops io bs (take k (save_ops d)) d))\<lparr>d_tmp := junk\<rparr> in
      disk_holds E de keys d' s \<and> load_from E de keys d' = Some (Ok s) \<or> disk_holds E de keys d' s' \<and> load_from E de keys d' = Some (Ok s'))
    \<and> (snd (run_ops io bs (save_ops d) d) = Ok () \<longrightarrow> load_from E de keys (fst (run_ops io bs (save_ops d) d)) = Some (Ok s'))"
proof (intro conjI allI impI)
  fix k junk
  define d' where "d' = (fst (run_ops io bs (take k (save_ops d)) d))\<lparr>d_tmp := junk\<rparr>"
  have "disk_holds E de keys d' s \<or> disk_holds E de keys d' s'"
  proof (cases "d_main d")
    case None
    then show ?thesis using save_from_missing [OF None d'_def] old new unfolding disk_holds_def by (auto simp: load_missing simp del: load_backups.simps)
  next
    case (Some m)
    then have "load_one E de keys (Some m) = Some (Ok s)" using old by (simp add: disk_holds_def)
    then show ?thesis using save_from_good [OF Some d'_def] new by (auto simp: disk_holds_def)
  qed
  then show "let d' = (fst (run_ops io bs (take k (save_ops d)) d))\<lparr>d_tmp := junk\<rparr> in
      disk_holds E de keys d' s \<and> load_from E de keys d' = Some (Ok s) \<or> disk_holds E de keys d' s' \<and> load_from E de keys d' = Some (Ok s')"
    using disk_holds_loads unfolding Let_def d'_def [symmetric] by blast
next
  assume "snd (run_ops io bs (save_ops d) d) = Ok ()"
  then have "d_main (fst (run_ops io bs (save_ops d) d)) = Some bs"
    by (auto simp: save_ops_def fs_effect_def fs_error_def split: if_splits)
  then show "load_from E de keys (fst (run_ops io bs (save_ops d) d)) = Some (Ok s')" using new by (simp add: load_from_def)
qed



section \<open>A node at genesis\<close>

definition demo_keys :: "dag_map \<Rightarrow> hash list" where "demo_keys dg = remdups (hkeys dg)"

lemma demo_key_order: "key_order demo_keys"
  by (simp add: key_order_def demo_keys_def)

lemma fresh_node:
  obtains cs where "node_run demo_chain_env True True cs" and "supply_invariant_ok (live cs)" and "main_chain cs = [- 1]"
proof -
  obtain cs0 where c: "chain_new demo_chain_env True = Some cs0" by (rule chain_new_genesis)
  have "supply_invariant_ok ledger_default" by (simp add: supply_invariant_ok_def ledger_default_def total_value_def sat_add128_def)
  then have "supply_invariant_ok (live cs0)" "main_chain cs0 = [- 1]"
    using c by (auto simp: chain_new_def Let_def demo_hashes split: option.splits)
  then show thesis
    using that [of "cs0\<lparr>archival := True\<rparr>"] c node_steps.refl unfolding node_run_def by auto
qed

definition demo_ser :: "chain_state \<Rightarrow> chain_state \<Rightarrow> bytes result" where
  "demo_ser cs0 cs = (if cs = cs0 then Ok [1] else Err ''unsupported'')"

lemma demo_bincode: "bincode (demo_ser cs) (\<lambda>_. Ok (transient cs))"
  by (simp add: bincode_def demo_ser_def)

definition blank_disk :: disk where
  "blank_disk = \<lparr>d_main = None, d_tmp = None, d_bak = None, d_bak1 = None\<rparr>"


theorem crash_safe_save_witness:
  "\<exists>s bs. load_from demo_chain_env (\<lambda>_. Ok (transient s)) demo_keys
      ((fst (run_ops (\<lambda>_. True) bs (take 3 (save_ops (blank_disk\<lparr>d_main := Some bs\<rparr>))) (blank_disk\<lparr>d_main := Some bs\<rparr>)))\<lparr>d_tmp := None\<rparr>)
      = Some (Ok (the (rebuild_derived demo_chain_env demo_keys (transient s))))"
proof -
  obtain cs where c: "node_run demo_chain_env True True cs" "supply_invariant_ok (live cs)" by (rule fresh_node)
  define de :: "bytes \<Rightarrow> chain_state result" where "de = (\<lambda>_. Ok (transient cs))"
  define bs where "bs = state_file demo_chain_env [1]"
  define s where "s = the (rebuild_derived demo_chain_env demo_keys (transient cs))"
  obtain r' where r': "rebuild_derived demo_chain_env demo_keys (transient cs) = Some (transient cs\<lparr>reach := r', base_captured := True\<rparr>)"
    by (rule rebuild_restores [OF node_run_inv [OF c(1)] demo_key_order])
  have p: "length [1 :: 8 word] \<le> MAX_CHAINSTATE_BYTES" "de [1] = Ok (transient cs)" by (simp_all add: MAX_CHAINSTATE_BYTES_def de_def)
  obtain r2 where "load_one demo_chain_env de demo_keys (Some bs) = Some (Ok (transient cs\<lparr>reach := r2, base_captured := True\<rparr>))"
    unfolding bs_def by (rule saved_node_loads [where de = de and payload = "[1]", OF c(1) demo_key_order p c(2)])
  moreover have "load_one demo_chain_env de demo_keys (Some bs) \<in> {Some (Ok s)} \<union> {Some (Err e) | e. True}"
    unfolding bs_def load_state_file [where de = de, OF p] s_def r' by (auto split: sum.split)
  ultimately have l: "load_one demo_chain_env de demo_keys (Some bs) = Some (Ok s)" by auto
  then have "disk_holds demo_chain_env de demo_keys (blank_disk\<lparr>d_main := Some bs\<rparr>) s" by (simp add: disk_holds_def blank_disk_def)
  from crash_safe_save [OF this l, of "\<lambda>_. True"] show ?thesis unfolding Let_def de_def s_def by blast
qed

theorem node_state_well_formed_witness:
  "\<exists>cs :: chain_state. main_chain cs = [- 1] \<and> distinct (main_chain cs) \<and> hmap_ok (dag cs) \<and> length (dag cs) \<le> 2 ^ 41"
proof -
  obtain cs where c: "node_run demo_chain_env True True cs" "main_chain cs = [- 1]" by (rule fresh_node)
  with node_state_well_formed [OF c(1)] show ?thesis by blast
qed

end
