(* ===== verification/Cold_Start.thy ===== *)
theory Cold_Start
  imports Snapshot_Correct
begin

text \<open>
  Joining the network: importing verified headers always ends, an archival node serves exactly the ledger of its
  pruning point, and the joining node accepts it.
\<close>

section \<open>Importing headers\<close>

definition import_inv :: "chain_state \<Rightarrow> nat \<Rightarrow> bool" where
  \<comment> \<open>the indexes list the same blocks, selected parents are known and below, scores are at most \<open>B\<close>\<close>
  "import_inv cs B \<longleftrightarrow> index_ok (reach cs) \<and> (\<forall>x. hhas (nodes (reach cs)) x = hhas (dag cs) x)
     \<and> (\<forall>x. hhas (ghostdag cs) x = hhas (dag cs) x) \<and> hmap_ok (dag cs) \<and> links_ok (ghostdag cs)
     \<and> (\<forall>x d p. hget (ghostdag cs) x = Some d \<longrightarrow> selected_parent d = Some p \<longrightarrow> p \<in> set (mergeset_blues d))
     \<and> (\<forall>x d. hget (ghostdag cs) x = Some d \<longrightarrow> blue_score d \<le> B)"

lemma import_invD:
  assumes "import_inv cs B"
  shows "index_ok (reach cs)" "\<And>x. hhas (nodes (reach cs)) x = hhas (dag cs) x" "\<And>x. hhas (ghostdag cs) x = hhas (dag cs) x"
    "hmap_ok (dag cs)" "links_ok (ghostdag cs)"
    "\<And>x d p. hget (ghostdag cs) x = Some d \<Longrightarrow> selected_parent d = Some p \<Longrightarrow> p \<in> set (mergeset_blues d)"
    "\<And>x d. hget (ghostdag cs) x = Some d \<Longrightarrow> blue_score d \<le> B"
  using assms unfolding import_inv_def by auto

lemma color_loop_lengths:
  "color_loop col cs cur bl rd = (bl', rd') \<Longrightarrow> \<exists>bs. bl' = bl @ bs \<and> length bs \<le> length cs"
proof -
  assume "color_loop col cs cur bl rd = (bl', rd')"
  from color_loop_mset [OF this] obtain bs rs where b: "bl' = bl @ bs" "mset bs + mset rs = mset cs" by blast
  have "length bs + length rs = length cs" using arg_cong [OF b(2), of size] by simp
  then show ?thesis using b(1) by auto
qed

lemma header_data_ok:
  assumes inv: "import_inv cs B" and prev: "hhas (dag cs) prev" and B: "B + 513 < 2 ^ 64"
  obtains d sp where "header_data cs prev hdr = Some d" and "selected_parent d = Some sp" and "hhas (dag cs) sp" and "sp \<in> set (mergeset_blues d)"
    and "blue_score (hidx (ghostdag cs) sp) < blue_score d" and "blue_score d \<le> B + 513"
proof -
  note i = import_invD [OF inv]
  define fb where "fb = \<lparr>blue_score = sat_add64 (case hget (ghostdag cs) prev of None \<Rightarrow> 0 | Some d \<Rightarrow> blue_score d) 1,
    selected_parent = Some prev, mergeset_blues = [prev], mergeset_reds = []\<rparr>"
  obtain dp where dp: "hget (ghostdag cs) prev = Some dp" using i(3) [of prev] prev by (auto simp: hhas_def)
  have "blue_score dp \<le> B" using i(7) dp by blast
  then have fbs: "blue_score fb = blue_score dp + 1" using B by (simp add: fb_def dp sat_add64_def)
  have fbl: "blue_score (hidx (ghostdag cs) prev) < blue_score fb" "blue_score fb \<le> B + 513"
    using fbs \<open>blue_score dp \<le> B\<close> by (simp_all add: hidx_def dp)
  have sf: "selected_parent fb = Some prev" "mergeset_blues fb = [prev]" by (simp_all add: fb_def)
  consider (fall) "header_data cs prev hdr = Some fb"
    | (real) sp d where "select_parent (ghostdag cs) (parents hdr) = Some sp" "header_data cs prev hdr = Some d" "selected_parent d = Some sp"
        "\<exists>bs. mergeset_blues d = sp # bs \<and> length bs \<le> 512" "blue_score d = wadd64 (blue_score (hidx (ghostdag cs) sp)) (length (mergeset_blues d))"
  proof (cases "select_parent (ghostdag cs) (parents hdr)")
    case None
    then have "header_data cs prev hdr = Some fb"
      by (simp add: header_data_def try_compute_ghostdag_data_def ghostdag_genesis_def fb_def Let_def)
    then show thesis by (rule fall)
  next
    case (Some sp)
    define ms where "ms = mergeset (dag cs) (parents hdr) sp"
    show thesis
    proof (cases "length ms > MAX_MERGESET_SIZE")
      case True
      then have "header_data cs prev hdr = Some fb"
        using Some by (simp add: header_data_def try_compute_ghostdag_data_def fb_def Let_def ms_def)
      then show thesis by (rule fall)
    next
      case False
      obtain cur where cur: "materialized_blues (ghostdag cs) sp = Some cur"
        using blues_loop_ok [OF i(5) select_parent_Some(2) [OF Some], of "[sp]"] i(6) unfolding materialized_blues_def by metis
      obtain bl rd where c: "color_loop (color_candidate_blue (dag cs) (reach cs)) (topological_order (dag cs) (reach cs) ms) cur [sp] [] = (bl, rd)"
        by fastforce
      have "length (topological_order (dag cs) (reach cs) ms) = length ms"
        unfolding topological_order_def using arg_cong [OF mset_order_by_rank, of size] by (metis size_mset)
      then obtain bs where bs: "bl = sp # bs" "length bs \<le> 512"
        using color_loop_lengths [OF c] False by (auto simp: MAX_MERGESET_SIZE_def)
      define d where "d = \<lparr>blue_score = wadd64 (blue_score (hidx (ghostdag cs) sp)) (length bl), selected_parent = Some sp, mergeset_blues = bl, mergeset_reds = rd\<rparr>"
      have "header_data cs prev hdr = Some d"
        using Some False cur c by (simp add: header_data_def try_compute_ghostdag_data_def Let_def ms_def d_def)
      then show thesis using real [OF Some] bs by (simp add: d_def)
    qed
  qed
  then show thesis
  proof cases
    case fall
    then show thesis using that [OF fall sf(1) prev] sf(2) fbl by simp
  next
    case (real sp d)
    have g: "hhas (ghostdag cs) sp" by (rule select_parent_Some(2) [OF real(1)])
    then obtain ds where ds: "hget (ghostdag cs) sp = Some ds" by (auto simp: hhas_def)
    then have "blue_score (hidx (ghostdag cs) sp) \<le> B" using i(7) by (simp add: hidx_def)
    moreover obtain bs where bs: "mergeset_blues d = sp # bs" "length bs \<le> 512" using real(4) by blast
    ultimately have "blue_score d = blue_score (hidx (ghostdag cs) sp) + Suc (length bs)"
      using real(5) B by (simp add: wadd64_def)
    then show thesis
      using that [OF real(2,3)] g i(3) [of sp] bs \<open>blue_score (hidx (ghostdag cs) sp) \<le> B\<close> by simp
  qed
qed

lemma import_step:
  assumes inv: "import_inv cs B" and h: "\<not> hhas (dag cs) h" and size: "length (dag cs) < 2 ^ 41"
    and d: "selected_parent d = Some sp" "hhas (dag cs) sp" "sp \<in> set (mergeset_blues d)" "blue_score (hidx (ghostdag cs) sp) < blue_score d" "blue_score d \<le> B'" "B \<le> B'"
  obtains r where "reach_add_block (reach cs) h (Some sp) (merged_blocks d) = Some r"
    and "import_inv (cs\<lparr>dag := hput h b (dag cs), ghostdag := hput h d (ghostdag cs), reach := r\<rparr>) B'"
proof -
  note i = import_invD [OF inv]
  have hn: "\<not> hhas (nodes (reach cs)) h" using i(2) h by simp
  have "length (nodes (reach cs)) = length (dag cs)"
    using hmap_same_length [of "nodes (reach cs)" "dag cs"] i(1,2,4) by (simp add: index_ok_def forest_ok_def)
  then have sz: "length (nodes (reach cs)) < 2 ^ 41" using size by simp
  obtain r nds1 sp' where r: "reach_add_block (reach cs) h (Some sp) (merged_blocks d) = Some r" "index_ok r"
    "grown (nodes (reach cs)) nds1 h sp'" "fcs_step nds1 (nodes r) h (set (merged_blocks d) - {h})"
    by (rule reach_add_block_returns [OF i(1) hn sz])
  have "hkeys (nodes r) = hkeys nds1" "\<forall>x. hhas nds1 x \<longleftrightarrow> x = h \<or> hhas (nodes (reach cs)) x"
    using r(3,4) by (simp_all add: grown_def fcs_step_def fcs_only_def)
  then have keys: "hhas (nodes r) x \<longleftrightarrow> x = h \<or> hhas (dag cs) x" for x using i(2) by (simp add: hhas_iff)
  have hg: "\<not> hhas (ghostdag cs) h" using i(3) h by simp
  have lk: "links_ok (hput h d (ghostdag cs))"
    unfolding links_ok_def
  proof (intro allI impI)
    fix x y assume e: "sp_edge (hput h d (ghostdag cs)) x y"
    show "hhas (hput h d (ghostdag cs)) y \<and> blue_score (hidx (hput h d (ghostdag cs)) y) < blue_score (hidx (hput h d (ghostdag cs)) x)"
    proof (cases "x = h")
      case True
      then have "y = sp" "y \<noteq> h" using e d(1,2) h by (auto simp: sp_edge_def)
      then show ?thesis using True d(2,4) i(3) by (simp add: hhas_def hidx_def)
    next
      case False
      then have e': "sp_edge (ghostdag cs) x y" using e by (simp add: sp_edge_def)
      then have "hhas (ghostdag cs) y" "blue_score (hidx (ghostdag cs) y) < blue_score (hidx (ghostdag cs) x)" using i(5) by (auto simp: links_ok_def)
      moreover from this have "y \<noteq> h" using hg by auto
      ultimately show ?thesis using False by (simp add: hhas_def hidx_def)
    qed
  qed
  have "import_inv (cs\<lparr>dag := hput h b (dag cs), ghostdag := hput h d (ghostdag cs), reach := r\<rparr>) B'"
    unfolding import_inv_def using r(2) keys i(3,4) lk i(6) d
    by (auto simp: hhas_def split: if_splits dest: i(7))
  then show thesis using that r(1) by blast
qed

lemma hput_length: "length (hput k v m) \<le> Suc (length m)"
  by (induction m) (auto split: if_splits)

lemma import_headers_returns:
  assumes "import_inv cs B" and "hhas (dag cs) prev" and "B + 513 * length hdrs < 2 ^ 64" and "length (dag cs) + length hdrs \<le> 2 ^ 41"
  obtains dg gd r B' where "import_headers E hdrs prev cs = Some (cs\<lparr>dag := dg, ghostdag := gd, reach := r\<rparr>)"
    and "import_inv (cs\<lparr>dag := dg, ghostdag := gd, reach := r\<rparr>) B'"
    and "\<forall>h. hhas (dag cs) h \<longrightarrow> hget dg h = hget (dag cs) h" and "\<forall>hdr\<in>set hdrs. hhas dg (block_hash E hdr)"
    and "\<forall>hdr\<in>set hdrs. distinct (map (block_hash E) hdrs) \<longrightarrow> \<not> hhas (dag cs) (block_hash E hdr) \<longrightarrow> hget dg (block_hash E hdr) = Some (header_only hdr)"
  using assms
proof (induction hdrs arbitrary: prev cs B thesis)
  case Nil
  have "cs\<lparr>dag := dag cs, ghostdag := ghostdag cs, reach := reach cs\<rparr> = cs" by (cases cs) simp
  then show ?case using Nil(1) [where dg = "dag cs" and gd = "ghostdag cs" and r = "reach cs" and B' = B] Nil(2) by simp
next
  case (Cons hdr hdrs)
  define h where "h = block_hash E hdr"
  show ?case
  proof (cases "hhas (dag cs) h")
    case True
    obtain dg gd r B' where k: "import_headers E hdrs h cs = Some (cs\<lparr>dag := dg, ghostdag := gd, reach := r\<rparr>)"
      "import_inv (cs\<lparr>dag := dg, ghostdag := gd, reach := r\<rparr>) B'" "\<forall>h. hhas (dag cs) h \<longrightarrow> hget dg h = hget (dag cs) h" "\<forall>hdr\<in>set hdrs. hhas dg (block_hash E hdr)"
      "\<forall>hdr\<in>set hdrs. distinct (map (block_hash E) hdrs) \<longrightarrow> \<not> hhas (dag cs) (block_hash E hdr) \<longrightarrow> hget dg (block_hash E hdr) = Some (header_only hdr)"
      by (rule Cons.IH [OF _ Cons.prems(2) True]) (use Cons.prems(4,5) in simp_all)
    have "hhas dg h" using k(3) True by (auto simp: hhas_def)
    then show ?thesis
      using Cons.prems(1) [OF _ k(2,3)] k(1,4,5) True by (simp add: h_def)
  next
    case False
    obtain d sp where d: "header_data cs prev (header_only hdr) = Some d" "selected_parent d = Some sp" "hhas (dag cs) sp" "sp \<in> set (mergeset_blues d)"
      "blue_score (hidx (ghostdag cs) sp) < blue_score d" "blue_score d \<le> B + 513"
      by (rule header_data_ok [OF Cons.prems(2,3)]) (use Cons.prems(4) in simp_all)
    obtain r1 where r1: "reach_add_block (reach cs) h (Some sp) (merged_blocks d) = Some r1"
      "import_inv (cs\<lparr>dag := hput h (header_only hdr) (dag cs), ghostdag := hput h d (ghostdag cs), reach := r1\<rparr>) (B + 513)"
      by (rule import_step [OF Cons.prems(2) False _ d(2-6)]) (use Cons.prems(5) in simp_all)
    define cs1 where "cs1 = cs\<lparr>dag := hput h (header_only hdr) (dag cs), ghostdag := hput h d (ghostdag cs), reach := r1\<rparr>"
    have len: "length (dag cs1) \<le> Suc (length (dag cs))" by (simp add: cs1_def hput_length)
    obtain dg gd r B' where k: "import_headers E hdrs h cs1 = Some (cs1\<lparr>dag := dg, ghostdag := gd, reach := r\<rparr>)"
      "import_inv (cs1\<lparr>dag := dg, ghostdag := gd, reach := r\<rparr>) B'" "\<forall>h. hhas (dag cs1) h \<longrightarrow> hget dg h = hget (dag cs1) h" "\<forall>hdr\<in>set hdrs. hhas dg (block_hash E hdr)"
      "\<forall>hdr\<in>set hdrs. distinct (map (block_hash E) hdrs) \<longrightarrow> \<not> hhas (dag cs1) (block_hash E hdr) \<longrightarrow> hget dg (block_hash E hdr) = Some (header_only hdr)"
      by (rule Cons.IH [where cs = cs1 and B = "B + 513" and prev = h]) (use Cons.prems(4,5) r1(2) len in \<open>simp_all add: cs1_def\<close>)
    have s: "cs1\<lparr>dag := dg, ghostdag := gd, reach := r\<rparr> = cs\<lparr>dag := dg, ghostdag := gd, reach := r\<rparr>" by (simp add: cs1_def)
    have h: "hget dg h = Some (header_only hdr)" using k(3) by (auto simp: cs1_def hhas_def)
    have old: "\<forall>x. hhas (dag cs) x \<longrightarrow> hget dg x = hget (dag cs) x" using k(3) False by (auto simp: cs1_def hhas_def)
    have "import_headers E (hdr # hdrs) prev cs = Some (cs\<lparr>dag := dg, ghostdag := gd, reach := r\<rparr>)"
      using k(1) False d(1,2) r1(1) s by (simp add: h_def [symmetric] cs1_def Let_def)
    moreover have "\<forall>x\<in>set (hdr # hdrs). hhas dg (block_hash E x)" using k(4) h by (simp add: hhas_def h_def)
    moreover have "\<forall>x\<in>set (hdr # hdrs). distinct (map (block_hash E) (hdr # hdrs)) \<longrightarrow> \<not> hhas (dag cs) (block_hash E x) \<longrightarrow> hget dg (block_hash E x) = Some (header_only x)"
      using k(5) h by (auto simp: cs1_def hhas_def h_def image_iff)
    ultimately show ?thesis using Cons.prems(1) k(2) old s by metis
  qed
qed

lemma import_returns:
  assumes new: "chain_new E lab = Some c0" and hs: "hs \<noteq> []" "block_hash E (hd hs) = genesis_hash E" "distinct (map (block_hash E) hs)" "length hs \<le> 2 ^ 20"
    and tl: "tl hs \<noteq> []"
  obtains c1 where "import_verified_pruning_headers E hs c0 = Some (c1, Ok (block_hash E (last hs)))"
    and "pruning_point c1 = Some (block_hash E (last hs))" and "tips c1 = [block_hash E (last hs)]"
    and "hget (dag c1) (block_hash E (last hs)) = Some (header_only (last hs))" and "\<forall>b\<in>set hs. hhas (dag c1) (block_hash E b)"
    and "base_frontier c1 = Some (block_hash E (last hs))" and "live c1 = ledger_default"
proof -
  define g where "g = genesis_hash E"
  define pp where "pp = block_hash E (last hs)"
  obtain r where r: "reach_add_block reach_new g None [] = Some r" and c0: "dag c0 = [(g, genesis_block)]" "ghostdag c0 = [(g, ghostdag_genesis)]"
    "reach c0 = r" "live c0 = ledger_default" "\<not> base_captured c0" "chain_id c0 = CHAIN_ID"
    using new by (auto simp: chain_new_def Let_def g_def split: option.splits)
  have run: "dag_run [(g, genesis_block)] [(g, ghostdag_genesis)] r" by (rule dag_run.genesis [OF _ r]) (simp add: genesis_block_def)
  note gi = dag_run_inv [OF run]
  have inv: "import_inv c0 0"
    using gi ghost_links [OF gi] unfolding import_inv_def c0 ghost_inv_def reach_inv_def by (auto simp: ghostdag_genesis_def split: if_splits)
  have hg: "hhas (dag c0) g" by (simp add: c0 hhas_def)
  have hl: "hs = hd hs # tl hs" using hs(1) by simp
  have la: "last (tl hs) = last hs" using tl hs(1) by (metis last_tl)
  have dis: "distinct (map (block_hash E) (tl hs))" "g \<notin> block_hash E ` set (tl hs)"
    using hs(2,3) hl by (metis distinct.simps(2) list.simps(9) g_def set_map)+
  obtain dg gd r' B' where k: "import_headers E (tl hs) g c0 = Some (c0\<lparr>dag := dg, ghostdag := gd, reach := r'\<rparr>)"
    "import_inv (c0\<lparr>dag := dg, ghostdag := gd, reach := r'\<rparr>) B'" "\<forall>h. hhas (dag c0) h \<longrightarrow> hget dg h = hget (dag c0) h" "\<forall>hdr\<in>set (tl hs). hhas dg (block_hash E hdr)"
    "\<forall>hdr\<in>set (tl hs). distinct (map (block_hash E) (tl hs)) \<longrightarrow> \<not> hhas (dag c0) (block_hash E hdr) \<longrightarrow> hget dg (block_hash E hdr) = Some (header_only hdr)"
    by (rule import_headers_returns [OF inv hg, of "tl hs" E]) (use hs(4) in \<open>simp_all add: c0\<close>)
  have lt: "last hs \<in> set (tl hs)" using tl la last_in_set by metis
  have fresh: "\<not> hhas (dag c0) pp" using dis(2) lt by (auto simp: c0 hhas_def pp_def)
  have pp: "hget dg pp = Some (header_only (last hs))" using k(5) lt dis(1) fresh by (simp add: pp_def)
  note i = import_invD [OF k(2)]
  have hp: "hhas gd pp" using i(3) [of pp] pp by (simp add: hhas_def)
  then have st: "selected_tip gd [pp] = Some pp" by (simp add: selected_tip_def max_by_score_def)
  obtain c where c: "selected_chain gd pp = Some c" using selected_chain_links [of gd pp] i(5) hp by auto
  define c2 where "c2 = c0\<lparr>dag := dg, ghostdag := gd, reach := r', tips := [pp], main_chain := c\<rparr>"
  define c3 where "c3 = capture_base (c2\<lparr>pruning_point := Some pp\<rparr>)"
  have o: "order_main_chain (c0\<lparr>dag := dg, ghostdag := gd, reach := r', tips := [pp]\<rparr>) = Some c2"
    using st c by (simp add: order_main_chain_def c2_def)
  have "import_verified_pruning_headers E hs c0 = Some (c3\<lparr>base_frontier := Some pp, live := base c3\<rparr>, Ok pp)"
    using hs(1,2) hg k(1) o by (simp add: import_verified_pruning_headers_def g_def pp_def c3_def Let_def)
  moreover have "\<forall>b\<in>set hs. hhas dg (block_hash E b)"
  proof
    fix b assume "b \<in> set hs"
    then consider "b = hd hs" | "b \<in> set (tl hs)" using hl by (metis set_ConsD)
    then show "hhas dg (block_hash E b)" using k(3,4) hg hs(2) by cases (auto simp: g_def hhas_def)
  qed
  ultimately show thesis
    using that [of "c3\<lparr>base_frontier := Some pp, live := base c3\<rparr>"] pp c0(4,5) by (simp add: pp_def [symmetric] c3_def c2_def capture_base_def)
qed

section \<open>Serving and adopting the ledger\<close>

lemma genesis_replay_effects:
  assumes "hashed E dg" and "\<And>h. hhas dg h \<Longrightarrow> hhas gd h" and "\<forall>h\<in>set hs. hhas dg h"
  shows "genesis_replay E cid dg gd hs (sgd, ts, l) = Some (fold (block_effect E cid dg gd) hs l)"
  using assms(3)
proof (induction hs arbitrary: sgd l)
  case (Cons h hs)
  then obtain b where b: "hget dg h = Some b" by (auto simp: hhas_def)
  then have bh: "block_hash E b = h" using assms(1) by (simp add: hashed_def)
  obtain d where d: "hget gd h = Some d" using assms(2) [of h] b by (auto simp: hhas_def)
  have "apply_block_effects E cid (hput h d sgd) ts b = apply_block_effects E cid gd [] b"
    by (rule effects_by_score) (simp_all add: bh d)
  then show ?case using Cons b d by (simp add: block_effect_def Let_def)
qed simp

lemma genesis_replay_ledger:
  assumes inv: "chain_inv E cs" and x: "hhas (dag cs) x"
  obtains l where "ledger_via_genesis_replay E cs x = Some (Some l)" and "ledger_at E cs x = Some l"
proof -
  have ok: "dag_ok E cs" using inv by (simp add: chain_inv_def)
  note d = dag_okD [OF ok]
  have xg: "hhas (ghostdag cs) x" using d(4) x by simp
  obtain ord where o: "canonical_order_at (dag cs) (ghostdag cs) x = Some (ord @ [x])" "\<forall>h\<in>set (ord @ [x]). hhas (dag cs) h"
  proof -
    obtain ord where k: "canonical_order_at (dag cs) (ghostdag cs) x = Some (ord @ [x])" "set ord = {y. anc (dag cs) y x}"
      by (rule canonical_order_past [OF d(1) xg])
    have "hhas (dag cs) y" if "anc (dag cs) y x" for y
      using tranclpD [OF that] dag_run_inv [OF d(1)] unfolding ghost_inv_def by blast
    then show thesis using that k x by auto
  qed
  define l0 where "l0 = (if base_captured cs then ledger_default
    else ledger_default\<lparr>accounts := accounts (live cs), minted_supply := minted_supply (live cs), fees_burned := fees_burned (live cs),
      treasury := treasury (live cs), registry := registry (live cs), staked := staked (live cs)\<rparr>)"
  have "l0 = ledger_default" using inv by (auto simp: l0_def chain_inv_def)
  then have "ledger_via_genesis_replay E cs x = Some (Some (fold (block_effect E (chain_id cs) (dag cs) (ghostdag cs)) (ord @ [x]) ledger_default))"
    unfolding ledger_via_genesis_replay_def o(1) Let_def l0_def [symmetric] using genesis_replay_effects [OF d(2) _ o(2)] d(4) by simp
  moreover have "ledger_at E cs x = Some (fold (block_effect E (chain_id cs) (dag cs) (ghostdag cs)) (ord @ [x]) ledger_default)"
    using o(1) by (simp add: past_ledger_def)
  ultimately show thesis by (rule that)
qed

lemma serving_ok:
  assumes inv: "chain_inv E cs" and b: "hget (dag cs) pp = Some b" "parents b \<noteq> []"
  obtains l where "ledger_at E cs pp = Some l" and "ledger_merkle_root E l = b_state_root b"
    and "set_serving_pruning_point E pp cs = Some (cs\<lparr>pruning_point := Some pp, pruning_ledger := Some l\<rparr>, Ok ())"
    and "build_pruning_point_ledger E (cs\<lparr>pruning_point := Some pp, pruning_ledger := Some l\<rparr>) = Some (Some \<lparr>ppl_pruning_point = pp, ppl_ledger = l\<rparr>)"
proof -
  have "hhas (dag cs) pp" using b(1) by (simp add: hhas_def)
  then obtain l where l: "ledger_via_genesis_replay E cs pp = Some (Some l)" "ledger_at E cs pp = Some l" by (rule genesis_replay_ledger [OF inv])
  have root: "ledger_merkle_root E l = b_state_root b" using inv b l(2) unfolding chain_inv_def roots_ok_def by (metis option.inject option.map(2))
  have "ledger_via_genesis_replay E (cs\<lparr>pruning_point := Some pp\<rparr>) pp = Some (Some l)"
    using l(1) unfolding ledger_via_genesis_replay_def by (cases "base_captured cs") simp_all
  then have "set_serving_pruning_point E pp cs = Some (cs\<lparr>pruning_point := Some pp, pruning_ledger := Some l\<rparr>, Ok ())"
    using b(1) root by (simp add: set_serving_pruning_point_def Let_def)
  moreover have "build_pruning_point_ledger E (cs\<lparr>pruning_point := Some pp, pruning_ledger := Some l\<rparr>) = Some (Some \<lparr>ppl_pruning_point = pp, ppl_ledger = l\<rparr>)"
    using b(1) root by (simp add: build_pruning_point_ledger_def Let_def)
  ultimately show thesis using that l(2) root by blast
qed

text \<open>
  C9. Joining works and gives the server's ledger. When an archival node publishes one of its blocks as the serving
  pruning point, it serves the ledger of that block: the replay of the block's whole past in canonical order. A fresh
  node that imports any list of distinct headers from genesis to that block, whatever parents the headers omit, accepts
  the served ledger and starts from it, as its live state and as its finalized base.
\<close>
theorem cold_start_ledger:
  assumes run: "node_run E lab True cs" and b: "hget (dag cs) pp = Some b" "parents b \<noteq> []"
    and new: "chain_new E lab' = Some c0" and hs: "hs \<noteq> []" "block_hash E (hd hs) = genesis_hash E" "distinct (map (block_hash E) hs)" "length hs \<le> 2 ^ 20"
    and la: "block_hash E (last hs) = pp" "b_state_root (last hs) = b_state_root b"
  shows "\<exists>cs' l c1 c2. set_serving_pruning_point E pp cs = Some (cs', Ok ())
    \<and> build_pruning_point_ledger E cs' = Some (Some \<lparr>ppl_pruning_point = pp, ppl_ledger = l\<rparr>) \<and> ledger_at E cs pp = Some l
    \<and> import_verified_pruning_headers E hs c0 = Some (c1, Ok pp) \<and> live c1 = ledger_default
    \<and> adopt_pruning_point_ledger E \<lparr>ppl_pruning_point = pp, ppl_ledger = l\<rparr> c1 = (c2, Ok ())
    \<and> live c2 = l \<and> base c2 = l \<and> base_frontier c2 = Some pp \<and> tips c2 = [pp] \<and> (\<forall>x\<in>set hs. hhas (dag c2) (block_hash E x))"
proof -
  have inv: "chain_inv E cs" by (rule node_run_inv [OF run])
  have "pp \<noteq> genesis_hash E" using node_run_identity(2) [OF run] b by (auto simp: genesis_block_def)
  then have "tl hs \<noteq> []" using hs(1,2) la(1) by (cases hs) auto
  then obtain c1 where c1: "import_verified_pruning_headers E hs c0 = Some (c1, Ok (block_hash E (last hs)))"
    "pruning_point c1 = Some (block_hash E (last hs))" "tips c1 = [block_hash E (last hs)]"
    "hget (dag c1) (block_hash E (last hs)) = Some (header_only (last hs))" "\<forall>b\<in>set hs. hhas (dag c1) (block_hash E b)"
    "live c1 = ledger_default"
    by (rule import_returns [OF new hs])
  obtain l where l: "ledger_at E cs pp = Some l" "ledger_merkle_root E l = b_state_root b"
    "set_serving_pruning_point E pp cs = Some (cs\<lparr>pruning_point := Some pp, pruning_ledger := Some l\<rparr>, Ok ())"
    "build_pruning_point_ledger E (cs\<lparr>pruning_point := Some pp, pruning_ledger := Some l\<rparr>) = Some (Some \<lparr>ppl_pruning_point = pp, ppl_ledger = l\<rparr>)"
    by (rule serving_ok [OF inv b])
  define c2 where "c2 = c1\<lparr>base := l, base_captured := True, base_frontier := Some pp, pruning_ledger := Some l, live := l\<rparr>"
  have "adopt_pruning_point_ledger E \<lparr>ppl_pruning_point = pp, ppl_ledger = l\<rparr> c1 = (c2, Ok ())"
    using c1(2,4) la l(2) by (simp add: adopt_pruning_point_ledger_def c2_def header_only_def)
  then show ?thesis using c1 l la by (intro exI [of _ "cs\<lparr>pruning_point := Some pp, pruning_ledger := Some l\<rparr>"] exI [of _ l] exI [of _ c1] exI [of _ c2]) (simp add: c2_def)
qed

theorem cold_start_ledger_witness:
  "\<exists>(cs :: chain_state) c0 c1. hget (dag cs) 7 = Some demo_b1 \<and> chain_new demo_chain_env True = Some c0
    \<and> import_verified_pruning_headers demo_chain_env [genesis_block, demo_b1] c0 = Some (c1, Ok 7)"
proof -
  obtain cs where c: "node_run demo_chain_env True True cs" "hget (dag cs) 7 = Some demo_b1" by (rule demo_node)
  obtain c0 where c0: "chain_new demo_chain_env True = Some c0" by (rule chain_new_genesis)
  have p: "parents demo_b1 \<noteq> []" by (simp add: demo_b1_def)
  have h: "[genesis_block, demo_b1] \<noteq> []" "block_hash demo_chain_env (hd [genesis_block, demo_b1]) = block_hash demo_chain_env genesis_block"
    "distinct (map (block_hash demo_chain_env) [genesis_block, demo_b1])" "length [genesis_block, demo_b1] \<le> 2 ^ 20"
    "block_hash demo_chain_env (last [genesis_block, demo_b1]) = 7" "b_state_root (last [genesis_block, demo_b1]) = b_state_root demo_b1"
    by (simp_all add: demo_hashes)
  from cold_start_ledger [OF c p c0 h] c(2) c0 show ?thesis by blast
qed

end
