(* ===== verification/Net_Policy.thy ===== *)
theory Net_Policy
  imports Addrman Difficulty
begin

unbundle bit_operations_syntax

text \<open>
  Operator policy and abuse limits: \<open>src/net_policy.rs\<close>, \<open>src/security.rs\<close>, \<open>src/peer_pin.rs\<close>, the configuration of
  \<open>src/assume_valid.rs\<close> and the dial filter and message window of \<open>src/p2p.rs\<close>.

  The process environment is the argument \<open>vars\<close>, an ephemeral random token the argument \<open>tok\<close>, the parser of IP addresses
  the argument \<open>parse_ip\<close>, the file named by a pin source the argument \<open>pin_file\<close>. Times are in milliseconds. Strings are
  ASCII, so \<open>trim\<close> removes the six ASCII white-space characters. What is only printed to the operator is left out.
\<close>

section \<open>Strings\<close>

definition is_space :: "char \<Rightarrow> bool" where
  "is_space c \<longleftrightarrow> of_char c \<in> {9..13 :: nat} \<union> {32}"

definition trim :: "string \<Rightarrow> string" where
  "trim s = rev (dropWhile is_space (rev (dropWhile is_space s)))"

definition split_on :: "char \<Rightarrow> string \<Rightarrow> string list" where
  \<comment> \<open>\<open>s.split(c)\<close>\<close>
  "split_on c s = foldr (\<lambda>x acc. if x = c then [] # acc else (x # hd acc) # tl acc) s [[]]"

definition split_once :: "char \<Rightarrow> string \<Rightarrow> (string \<times> string) option" where
  "split_once c s = (if c \<in> set s then Some (takeWhile (\<lambda>x. x \<noteq> c) s, tl (dropWhile (\<lambda>x. x \<noteq> c) s)) else None)"

definition ends_with :: "string \<Rightarrow> string \<Rightarrow> bool" where
  "ends_with suf s \<longleftrightarrow> length suf \<le> length s \<and> drop (length s - length suf) s = suf"

function trim_end_matches :: "string \<Rightarrow> string \<Rightarrow> string" where
  "trim_end_matches suf s = (if suf \<noteq> [] \<and> ends_with suf s then trim_end_matches suf (take (length s - length suf) s) else s)"
  by pat_completeness auto
termination by (relation "measure (length \<circ> snd)") (simp, simp add: ends_with_def, metis diff_less length_greater_0_conv less_le_trans)

declare trim_end_matches.simps [simp del]

definition is_digit :: "char \<Rightarrow> bool" where
  "is_digit c \<longleftrightarrow> of_char c \<in> {48..57 :: nat}"

definition is_hexdigit :: "char \<Rightarrow> bool" where
  "is_hexdigit c \<longleftrightarrow> is_digit c \<or> of_char c \<in> {65..70 :: nat} \<or> of_char c \<in> {97..102 :: nat}"

definition parse_u16 :: "string \<Rightarrow> nat option" where
  \<comment> \<open>\<open>str::parse::<u16>\<close>: an optional plus sign, then digits\<close>
  "parse_u16 s =
     (let d = (if s \<noteq> [] \<and> hd s = CHR ''+'' then tl s else s);
          v = foldl (\<lambda>n c. n * 10 + (of_char c - 48)) (0 :: nat) d
      in if d = [] \<or> \<not> list_all is_digit d \<or> v \<ge> 2 ^ 16 then None else Some v)"

section \<open>Policy\<close>

record net_policy =
  public_mode :: bool
  api_token :: "string option"
  strict_dials :: bool
  peer_msg_limit :: nat
  stark_verifies_per_window :: nat
  stark_window :: nat
  cors_origins :: "string list"
  api_write_limit_per_window :: nat

definition env_flag :: "(string \<Rightarrow> string option) \<Rightarrow> string \<Rightarrow> bool" where
  "env_flag vars name =
     (case vars name of None \<Rightarrow> False | Some v \<Rightarrow> v = ''1'' \<or> map to_ascii_lower v = ''true'')"

definition env_token :: "(string \<Rightarrow> string option) \<Rightarrow> string option" where
  "env_token vars =
     (case vars ''HASSAN_API_TOKEN'' of None \<Rightarrow> None | Some s \<Rightarrow> if trim s = [] then None else Some (trim s))"

definition from_env :: "(string \<Rightarrow> string option) \<Rightarrow> string \<Rightarrow> net_policy option" where
  \<comment> \<open>\<open>None\<close>: the process exits\<close>
  "from_env vars tok =
     (let pub = env_flag vars ''HASSAN_PUBLIC'';
          allow_unauth = env_flag vars ''HASSAN_ALLOW_UNAUTH_WRITES'';
          token = env_token vars;
          relax = (\<not> pub \<and> env_flag vars ''HASSAN_RELAX_NET'')
      in if pub \<and> allow_unauth then None
         else if pub \<and> env_flag vars ''HASSAN_RELAX_NET'' then None
         else if pub \<and> env_flag vars ''HASSAN_BOOTSTRAP_EASY'' then None
         else if pub \<and> token = None then None
         else Some \<lparr>public_mode = pub,
           api_token = (if token = None \<and> \<not> allow_unauth then Some tok else token),
           strict_dials = (pub \<or> env_flag vars ''HASSAN_STRICT_DIALS''),
           peer_msg_limit = (if pub then 2000 else if relax then 20000 else 4000),
           stark_verifies_per_window = (if pub then 8 else if relax then 64 else 16),
           stark_window = 10000,
           cors_origins = (case vars ''HASSAN_CORS_ORIGIN'' of
             None \<Rightarrow> [] | Some s \<Rightarrow> filter (\<lambda>x. x \<noteq> []) (map trim (split_on CHR '','' s))),
           api_write_limit_per_window = (if pub then 30 else if relax then 120 else 60)\<rparr>)"

definition cors_header_value :: "net_policy \<Rightarrow> string option" where
  "cors_header_value p =
     (if cors_origins p = [] then None
      else if public_mode p \<and> list_ex (\<lambda>o'. o' = ''*'') (cors_origins p) then None
      else if length (cors_origins p) = 1 then Some (cors_origins p ! 0) else None)"

definition cors_allows :: "net_policy \<Rightarrow> string \<Rightarrow> bool" where
  "cors_allows p origin =
     (if cors_origins p = [] then False
      else if public_mode p \<and> list_ex (\<lambda>o'. o' = ''*'') (cors_origins p) then False
      else list_ex (\<lambda>o'. o' = ''*'' \<or> o' = origin) (cors_origins p))"

definition writes_require_token :: "net_policy \<Rightarrow> bool" where
  "writes_require_token p = (api_token p \<noteq> None)"

definition constant_time_eq :: "bytes \<Rightarrow> bytes \<Rightarrow> bool" where
  "constant_time_eq a b =
     (if length a \<noteq> length b then False
      else foldl (\<lambda>diff (x, y). diff OR (x XOR y)) 0 (zip a b) = 0)"

definition token_ok :: "net_policy \<Rightarrow> string option \<Rightarrow> bool" where
  "token_ok p provided =
     (case (api_token p, provided) of
        (None, _) \<Rightarrow> True
      | (Some expected, Some got) \<Rightarrow> constant_time_eq (str_bytes expected) (str_bytes got)
      | (Some _, None) \<Rightarrow> False)"

section \<open>Dial filters\<close>

definition v4_unspecified :: "bytes \<Rightarrow> bool" where "v4_unspecified o' \<longleftrightarrow> o' = [0, 0, 0, 0]"
definition v4_broadcast :: "bytes \<Rightarrow> bool" where "v4_broadcast o' \<longleftrightarrow> o' = [255, 255, 255, 255]"
definition v4_loopback :: "bytes \<Rightarrow> bool" where "v4_loopback o' \<longleftrightarrow> o' ! 0 = 127"
definition v4_link_local :: "bytes \<Rightarrow> bool" where "v4_link_local o' \<longleftrightarrow> o' ! 0 = 169 \<and> o' ! 1 = 254"
definition v4_private :: "bytes \<Rightarrow> bool" where
  "v4_private o' \<longleftrightarrow> o' ! 0 = 10 \<or> (o' ! 0 = 172 \<and> 16 \<le> o' ! 1 \<and> o' ! 1 \<le> 31) \<or> (o' ! 0 = 192 \<and> o' ! 1 = 168)"
definition v6_unspecified :: "bytes \<Rightarrow> bool" where "v6_unspecified o' \<longleftrightarrow> o' = replicate 16 0"
definition v6_loopback :: "bytes \<Rightarrow> bool" where "v6_loopback o' \<longleftrightarrow> o' = replicate 15 0 @ [1]"
definition v6_unicast_link_local :: "bytes \<Rightarrow> bool" where
  "v6_unicast_link_local o' \<longleftrightarrow> o' ! 0 = 0xfe \<and> o' ! 1 AND 0xc0 = 0x80"

definition onion_ok :: "string \<Rightarrow> bool" where
  "onion_ok host \<longleftrightarrow> length host = 62
     \<and> list_all (\<lambda>c. of_char c \<in> {97..122 :: nat} \<or> of_char c \<in> {50..55 :: nat}) (trim_end_matches ''.onion'' host)"

definition host_of_addr :: "string \<Rightarrow> string option" where
  \<comment> \<open>the checks both filters share: length, a colon, a non-zero port; the host without brackets, in lower case\<close>
  "host_of_addr addr0 =
     (let addr = trim addr0
      in if addr = [] \<or> length addr > 256 then None
         else
           (case rsplit_once CHR '':'' addr of
              None \<Rightarrow> None
            | Some (h, port_str) \<Rightarrow>
                (case parse_u16 port_str of
                   None \<Rightarrow> None
                 | Some port \<Rightarrow> if port = 0 then None else Some (map to_ascii_lower (trim_brackets h)))))"

definition is_publicly_dialable :: "(string \<Rightarrow> ip_addr option) \<Rightarrow> string \<Rightarrow> bool" where
  "is_publicly_dialable parse_ip addr =
     (case host_of_addr addr of
        None \<Rightarrow> False
      | Some host \<Rightarrow>
          if ends_with ''.onion'' host then onion_ok host
          else
            (case parse_ip host of
               None \<Rightarrow> host \<noteq> [] \<and> length host \<le> 253 \<and> CHR '' '' \<notin> set host
             | Some (V4 o') \<Rightarrow> \<not> v4_unspecified o' \<and> \<not> v4_broadcast o' \<and> \<not> v4_loopback o' \<and> \<not> v4_private o' \<and> \<not> v4_link_local o'
             | Some (V6 o') \<Rightarrow> \<not> v6_unspecified o' \<and> \<not> v6_loopback o' \<and> \<not> v6_unicast_link_local o' \<and> o' ! 0 AND 0xfe \<noteq> 0xfc))"

definition is_dialable_gossip_addr :: "net_policy \<Rightarrow> (string \<Rightarrow> ip_addr option) \<Rightarrow> string \<Rightarrow> bool" where
  "is_dialable_gossip_addr p parse_ip addr =
     (if strict_dials p then is_publicly_dialable parse_ip addr
      else
        (case host_of_addr addr of
           None \<Rightarrow> False
         | Some host \<Rightarrow>
             if ends_with ''.onion'' host then onion_ok host
             else
               (case parse_ip host of
                  None \<Rightarrow> host \<noteq> [] \<and> length host \<le> 253
                | Some (V4 o') \<Rightarrow> \<not> v4_unspecified o' \<and> \<not> v4_broadcast o' \<and> \<not> v4_link_local o'
                | Some (V6 o') \<Rightarrow> \<not> v6_unspecified o' \<and> \<not> v6_unicast_link_local o')))"

definition ip_is_loopback :: "ip_addr \<Rightarrow> bool" where
  "ip_is_loopback ip = (case ip of V4 o' \<Rightarrow> v4_loopback o' | V6 o' \<Rightarrow> v6_loopback o')"

definition ip_group :: "ip_addr \<Rightarrow> bytes option" where
  "ip_group ip = (if ip_is_loopback ip then None else Some (case ip of V4 o' \<Rightarrow> take 2 o' | V6 o' \<Rightarrow> take 4 o'))"

section \<open>Budgets and bans\<close>

definition winc32 :: "nat \<Rightarrow> nat" where
  \<comment> \<open>\<open>+= 1\<close> on a \<open>u32\<close>, which wraps\<close>
  "winc32 n = (n + 1) mod 2 ^ 32"

record stark_verify_budget =
  window_start_ms :: nat
  sb_count :: nat
  sb_limit :: nat
  window_ms :: nat

definition stark_budget_new :: "nat \<Rightarrow> nat \<Rightarrow> stark_verify_budget" where
  "stark_budget_new limit window = \<lparr>window_start_ms = 0, sb_count = 0, sb_limit = limit, window_ms = window\<rparr>"

definition try_consume :: "stark_verify_budget \<Rightarrow> nat \<Rightarrow> stark_verify_budget \<times> bool" where
  "try_consume b now =
     (if now - window_start_ms b \<ge> window_ms b then (b\<lparr>window_start_ms := now, sb_count := 1\<rparr>, True)
      else (b\<lparr>sb_count := winc32 (sb_count b)\<rparr>, sb_count b < sb_limit b))"

definition PEER_RATE_WINDOW :: nat where "PEER_RATE_WINDOW = 10000"

record rate_window =
  rw_start :: nat
  rw_count :: nat
  rw_limit :: nat

definition rate_window_new :: "nat \<Rightarrow> nat \<Rightarrow> rate_window" where
  "rate_window_new limit now = \<lparr>rw_start = now, rw_count = 0, rw_limit = limit\<rparr>"

definition rate_record :: "rate_window \<Rightarrow> nat \<Rightarrow> rate_window \<times> bool" where
  "rate_record w now =
     (let w1 = (if now - rw_start w \<ge> PEER_RATE_WINDOW then w\<lparr>rw_start := now, rw_count := 0\<rparr> else w);
          w2 = w1\<lparr>rw_count := winc32 (rw_count w1)\<rparr>
      in (w2, rw_count w2 \<le> rw_limit w2))"

type_synonym ip_ban_list = "(ip_addr, nat) hmap"

definition IP_BAN_TTL :: nat where "IP_BAN_TTL = 3600000"

definition ip_ban :: "nat \<Rightarrow> ip_addr \<Rightarrow> ip_ban_list \<Rightarrow> ip_ban_list" where
  "ip_ban now ip g = hput ip (now + IP_BAN_TTL) g"

definition is_banned :: "nat \<Rightarrow> ip_addr \<Rightarrow> ip_ban_list \<Rightarrow> ip_ban_list \<times> bool" where
  "is_banned now ip g = (let g' = hretain (\<lambda>_ until. until > now) g in (g', hhas g' ip))"

definition MAX_REQUESTS_PER_WINDOW :: nat where "MAX_REQUESTS_PER_WINDOW = 120"
definition WINDOW :: nat where "WINDOW = 60000"
definition BAN_THRESHOLD :: nat where "BAN_THRESHOLD = MAX_REQUESTS_PER_WINDOW * 3"
definition BAN_DURATION :: nat where "BAN_DURATION = 300000"
definition IP_ENTRY_TTL :: nat where "IP_ENTRY_TTL = 600000"

record ip_state =
  window_start :: nat
  last_seen :: nat
  req_count :: nat
  banned_until :: "nat option"

datatype rate_error = BannedFor nat | BanStarted | LimitExceeded

definition ip_alive :: "nat \<Rightarrow> ip_state \<Rightarrow> bool" where
  "ip_alive now s \<longleftrightarrow> now - last_seen s < IP_ENTRY_TTL \<or> (case banned_until s of None \<Rightarrow> False | Some u \<Rightarrow> now < u)"

definition limiter_count :: "nat \<Rightarrow> ip_state \<Rightarrow> ip_state \<times> (rate_error + unit)" where
  \<comment> \<open>the window and the thresholds\<close>
  "limiter_count now e =
     (let e1 = (if now - window_start e \<ge> WINDOW then e\<lparr>window_start := now, req_count := 0\<rparr> else e);
          e2 = e1\<lparr>req_count := winc32 (req_count e1)\<rparr>
      in if req_count e2 > BAN_THRESHOLD then (e2\<lparr>banned_until := Some (now + BAN_DURATION)\<rparr>, Inl BanStarted)
         else if req_count e2 > MAX_REQUESTS_PER_WINDOW then (e2, Inl LimitExceeded)
         else (e2, Inr ()))"

definition limiter_entry :: "nat \<Rightarrow> ip_state \<Rightarrow> ip_state \<times> (rate_error + unit)" where
  \<comment> \<open>\<open>RateLimiter::check\<close> on the entry of the requesting address\<close>
  "limiter_entry now e0 =
     (let e = e0\<lparr>last_seen := now\<rparr>
      in case banned_until e of
           Some until \<Rightarrow>
             if now < until then (e, Inl (BannedFor ((until - now) div 1000)))
             else limiter_count now (e\<lparr>banned_until := None, req_count := 0, window_start := now\<rparr>)
         | None \<Rightarrow> limiter_count now e)"

definition limiter_check :: "ip_addr \<Rightarrow> nat \<Rightarrow> (ip_addr, ip_state) hmap \<Rightarrow> (ip_addr, ip_state) hmap \<times> (rate_error + unit)" where
  "limiter_check ip now m0 =
     (let m = hretain (\<lambda>_. ip_alive now) m0;
          e = (case hget m ip of None \<Rightarrow> \<lparr>window_start = now, last_seen = now, req_count = 0, banned_until = None\<rparr> | Some e \<Rightarrow> e)
      in case limiter_entry now e of (e', r) \<Rightarrow> (hput ip e' m, r))"

section \<open>Input checks\<close>

definition strip_0x :: "string \<Rightarrow> string" where
  "strip_0x s = (case str_prefix ''0x'' s of None \<Rightarrow> s | Some r \<Rightarrow> r)"

definition is_valid_hash_hex :: "string \<Rightarrow> bool" where
  "is_valid_hash_hex s0 \<longleftrightarrow> (let s = strip_0x s0 in length s = 64 * 2 \<and> list_all is_hexdigit s)"

definition is_valid_amount :: "nat \<Rightarrow> nat \<Rightarrow> bool" where
  "is_valid_amount amount supply \<longleftrightarrow> amount > 0 \<and> amount \<le> supply"

definition is_valid_blue_score :: "nat \<Rightarrow> bool" where
  "is_valid_blue_score n \<longleftrightarrow> n < u64_max div 2"

definition is_valid_nonce :: "nat \<Rightarrow> bool" where
  "is_valid_nonce n \<longleftrightarrow> n < u64_max - 1000"

definition is_valid_fee :: "nat \<Rightarrow> nat \<Rightarrow> bool" where
  "is_valid_fee fee supply \<longleftrightarrow> fee \<ge> MIN_TX_FEE \<and> fee \<le> supply"

definition is_valid_pubkey_hex :: "env \<Rightarrow> string \<Rightarrow> bool" where
  "is_valid_pubkey_hex E s0 \<longleftrightarrow> (let s = strip_0x s0 in length s = pk_len E * 2 \<and> list_all is_hexdigit s)"

section \<open>Pinned identities and the assume-valid pin\<close>

record peer_pin_directory =
  pin_keys :: "bytes list"
  by_addr :: "(string, bytes) hmap"
  pin_strict :: bool

definition parse_hex_pubkey :: "env \<Rightarrow> string \<Rightarrow> bytes option" where
  "parse_hex_pubkey E raw =
     (case hex_decode E (trim raw) of None \<Rightarrow> None | Some bs \<Rightarrow> if length bs \<noteq> pk_len E then None else Some bs)"

definition add_pin_line :: "env \<Rightarrow> string \<Rightarrow> peer_pin_directory \<Rightarrow> peer_pin_directory" where
  "add_pin_line E line0 d =
     (let line = trim (hd (split_on CHR ''#'' line0))
      in if line = [] then d
         else
           (case split_once CHR ''@'' line of
              Some (hex_part, addr) \<Rightarrow>
                (case parse_hex_pubkey E hex_part of
                   None \<Rightarrow> d
                 | Some pk \<Rightarrow> d\<lparr>by_addr := hput (trim addr) pk (by_addr d), pin_keys := List.insert pk (pin_keys d)\<rparr>)
            | None \<Rightarrow>
                (case parse_hex_pubkey E line of
                   None \<Rightarrow> d
                 | Some pk \<Rightarrow> d\<lparr>pin_keys := List.insert pk (pin_keys d)\<rparr>)))"

definition parse_pin_source :: "env \<Rightarrow> (string \<Rightarrow> string option) \<Rightarrow> string \<Rightarrow> bool \<Rightarrow> peer_pin_directory" where
  \<comment> \<open>\<open>pin_file\<close>: the text of a file, empty when it cannot be read; \<open>None\<close> when there is no such file\<close>
  "parse_pin_source E pin_file src strict =
     (let text = (case pin_file src of
            Some t \<Rightarrow> t
          | None \<Rightarrow> map (\<lambda>c. if c = CHR '';'' \<or> c = CHR '','' then CHR 0x0A else c) src)
      in fold (add_pin_line E) (split_on (CHR 0x0A) text) \<lparr>pin_keys = [], by_addr = [], pin_strict = strict\<rparr>)"

definition load_directory :: "env \<Rightarrow> (string \<Rightarrow> string option) \<Rightarrow> (string \<Rightarrow> string option) \<Rightarrow> peer_pin_directory" where
  "load_directory E pin_file vars =
     (let strict = (vars ''HASSAN_PEER_PINS_STRICT'' \<in> {Some ''1'', Some ''true'', Some ''TRUE''})
      in case vars ''HASSAN_PEER_PINS'' of
           Some src \<Rightarrow>
             if trim src \<noteq> [] then parse_pin_source E pin_file (trim src) strict
             else \<lparr>pin_keys = [], by_addr = [], pin_strict = strict\<rparr>
         | None \<Rightarrow> \<lparr>pin_keys = [], by_addr = [], pin_strict = strict\<rparr>)"

definition check_peer_identity :: "peer_pin_directory \<Rightarrow> bytes \<Rightarrow> string option \<Rightarrow> unit result" where
  "check_peer_identity d pubkey dialed_addr =
     (if pin_keys d = [] \<and> by_addr d = [] then Ok ()
      else
        (case Option.bind dialed_addr (hget (by_addr d)) of
           Some expected \<Rightarrow> if expected \<noteq> pubkey then Err ''peer identity mismatch for pinned address'' else Ok ()
         | None \<Rightarrow>
             if list_ex (\<lambda>k. k = pubkey) (pin_keys d) then Ok ()
             else if pin_strict d then Err ''peer identity not in HASSAN_PEER_PINS (strict)''
             else Ok ()))"

definition hash_try_from :: "bytes \<Rightarrow> hash option" where
  \<comment> \<open>\<open>Hash::try_from\<close> of a slice: 64 bytes, read as \<open>hash_bytes\<close> lists them\<close>
  "hash_try_from bs = (if length bs = 64 then Some (word_of_nat (le_nat (rev bs))) else None)"

definition pinned_digest :: "env \<Rightarrow> (string \<Rightarrow> string option) \<Rightarrow> hash option" where
  \<comment> \<open>\<open>RELEASE_ASSUME_VALID\<close> is empty\<close>
  "pinned_digest E vars =
     (case vars ''HASSAN_ASSUME_VALID'' of
        None \<Rightarrow> None
      | Some raw \<Rightarrow>
          if trim raw = [] then None
          else (case hex_decode E (trim raw) of None \<Rightarrow> None | Some bs \<Rightarrow> hash_try_from bs))"

end
