(* ===== verification/Net_Policy_Correct.thy ===== *)
theory Net_Policy_Correct
  imports Net_Policy
begin

text \<open>
  Correctness of the operator policy: every rate counter of the node keeps its promise, stated once as the locale
  \<open>window_counter\<close>; a public node starts only with the public lock in place.
\<close>

unbundle bit_operations_syntax

section \<open>Windowed counters\<close>

fun accepted :: "('s \<Rightarrow> nat \<Rightarrow> 's \<times> bool) \<Rightarrow> 's \<Rightarrow> nat list \<Rightarrow> nat" where
  \<comment> \<open>how many of a sequence of calls are let through\<close>
  "accepted step s [] = 0"
| "accepted step s (t # ts) = (case step s t of (s', a) \<Rightarrow> of_bool a + accepted step s' ts)"

text \<open>
  A counter over fixed windows of length \<open>W\<close>. \<open>fresh s now\<close> says that a call at \<open>now\<close> opens a new window, \<open>start s\<close> is when
  the open window began and \<open>cnt s\<close> bounds the calls it let through; \<open>inv s t\<close> is what the implementation keeps when its last
  call was at \<open>t\<close>. The counters have 32 bits, so the laws of an open window ask that the counter is not at its end.
\<close>

locale window_counter =
  fixes step :: "'s \<Rightarrow> nat \<Rightarrow> 's \<times> bool" and cnt :: "'s \<Rightarrow> nat" and start :: "'s \<Rightarrow> nat option"
    and fresh :: "'s \<Rightarrow> nat \<Rightarrow> bool" and inv :: "'s \<Rightarrow> nat \<Rightarrow> bool" and limit :: nat and W :: nat
  assumes some: "1 \<le> limit"
    and inv_step: "\<lbrakk>inv s t; t \<le> now; step s now = (s', a)\<rbrakk> \<Longrightarrow> inv s' now"
    and open_window: "\<lbrakk>inv s t; t \<le> now; \<not> fresh s now; cnt s < u32_max; step s now = (s', a)\<rbrakk>
      \<Longrightarrow> start s' = start s \<and> cnt s + of_bool a \<le> cnt s' \<and> cnt s' \<le> cnt s + 1 \<and> (a \<longrightarrow> cnt s < limit)"
    and new_window: "\<lbrakk>inv s t; t \<le> now; fresh s now; step s now = (s', a)\<rbrakk>
      \<Longrightarrow> start s' = Some now \<and> of_bool a \<le> cnt s' \<and> cnt s' \<le> 1"
    and fresh_late: "\<lbrakk>inv s t; t \<le> now; fresh s now; start s = Some t0\<rbrakk> \<Longrightarrow> t0 + W \<le> now"
begin

lemma one_window:
  assumes "inv s t" and "sorted (t # ts)" and "start s = Some t0" and "\<forall>u\<in>set ts. u < t0 + W" and "cnt s + length ts \<le> u32_max"
  shows "accepted step s ts \<le> limit - cnt s"
  using assms
proof (induction ts arbitrary: s t)
  case (Cons u ts)
  obtain s' a where st: "step s u = (s', a)" by fastforce
  have tu: "t \<le> u" "sorted (u # ts)" using Cons.prems(2) by auto
  have nf: "\<not> fresh s u" using fresh_late [OF Cons.prems(1) tu(1) _ Cons.prems(3)] Cons.prems(4) by force
  have lt: "cnt s < u32_max" using Cons.prems(5) by simp
  note o = open_window [OF Cons.prems(1) tu(1) nf lt st]
  have "accepted step s' ts \<le> limit - cnt s'"
    by (rule Cons.IH [OF inv_step [OF Cons.prems(1) tu(1) st] tu(2)]) (use o Cons.prems(3-5) in auto)
  then show ?case using o st by (cases a) auto
qed simp

lemma two_windows:
  assumes "inv s t" and "sorted (t # ts)" and "\<forall>u\<in>set ts. T \<le> u \<and> u < T + W" and "cnt s + length ts \<le> u32_max"
  shows "accepted step s ts \<le> (limit - cnt s) + limit"
  using assms
proof (induction ts arbitrary: s t)
  case (Cons u ts)
  obtain s' a where st: "step s u = (s', a)" by fastforce
  have tu: "t \<le> u" "sorted (u # ts)" using Cons.prems(2) by auto
  note i = inv_step [OF Cons.prems(1) tu(1) st]
  show ?case
  proof (cases "fresh s u")
    case True
    note n = new_window [OF Cons.prems(1) tu(1) True st]
    have "accepted step s' ts \<le> limit - cnt s'"
      by (rule one_window [OF i tu(2)]) (use n Cons.prems(3,4) in auto)
    then show ?thesis using n st some by (cases a) auto
  next
    case False
    have lt: "cnt s < u32_max" using Cons.prems(4) by simp
    note o = open_window [OF Cons.prems(1) tu(1) False lt st]
    have "accepted step s' ts \<le> (limit - cnt s') + limit"
      by (rule Cons.IH [OF i tu(2)]) (use o Cons.prems(3,4) in auto)
    then show ?thesis using o st by (cases a) auto
  qed
qed simp

end

lemma winc32_exact: "n < u32_max \<Longrightarrow> winc32 n = n + 1"
  by (simp add: winc32_def)

lemma winc32_le: "winc32 0 = 1" "winc32 n \<le> n + 1"
  by (simp_all add: winc32_def)

text \<open>The three counters: messages of a peer, proof verifications a peer causes, requests of one address to the API.\<close>

definition with_limit :: "('s \<Rightarrow> nat) \<Rightarrow> nat \<Rightarrow> 's \<Rightarrow> nat \<Rightarrow> bool" where
  "with_limit lim n s t \<longleftrightarrow> lim s = n"

interpretation peer_rate: window_counter rate_record rw_count "\<lambda>w. Some (rw_start w)" "\<lambda>w now. now - rw_start w \<ge> PEER_RATE_WINDOW"
    "with_limit rw_limit (Suc n)" "Suc n" PEER_RATE_WINDOW for n
  by unfold_locales
    (auto simp: rate_record_def Let_def with_limit_def winc32_exact winc32_le PEER_RATE_WINDOW_def of_bool_def split: if_splits)

definition budget_shape :: "nat \<Rightarrow> nat \<Rightarrow> stark_verify_budget \<Rightarrow> nat \<Rightarrow> bool" where
  "budget_shape n W b t \<longleftrightarrow> sb_limit b = n \<and> window_ms b = W \<and> 0 < W"

interpretation stark_rate: window_counter try_consume sb_count "\<lambda>b. Some (window_start_ms b)" "\<lambda>b now. now - window_start_ms b \<ge> W"
    "budget_shape (Suc n) W" "Suc n" W for n W
  by unfold_locales
    (auto simp: try_consume_def budget_shape_def winc32_exact of_bool_def split: if_splits)

definition limiter_step :: "ip_addr \<Rightarrow> (ip_addr, ip_state) hmap \<Rightarrow> nat \<Rightarrow> (ip_addr, ip_state) hmap \<times> bool" where
  "limiter_step ip m now = (case limiter_check ip now m of (m', r) \<Rightarrow> (m', r = Inr ()))"

definition entry_ok :: "nat \<Rightarrow> ip_state \<Rightarrow> bool" where
  "entry_ok t e \<longleftrightarrow> window_start e \<le> last_seen e \<and> last_seen e \<le> t \<and> (\<forall>u. banned_until e = Some u \<longrightarrow> window_start e + BAN_DURATION \<le> u)"

definition limiter_ok :: "(ip_addr, ip_state) hmap \<Rightarrow> nat \<Rightarrow> bool" where
  "limiter_ok m t \<longleftrightarrow> hmap_ok m \<and> (\<forall>ip e. hget m ip = Some e \<longrightarrow> entry_ok t e)"

definition entry_for :: "ip_addr \<Rightarrow> nat \<Rightarrow> (ip_addr, ip_state) hmap \<Rightarrow> ip_state" where
  \<comment> \<open>the entry the check works on\<close>
  "entry_for ip now m = (case hget m ip of
     None \<Rightarrow> \<lparr>window_start = now, last_seen = now, req_count = 0, banned_until = None\<rparr>
   | Some e \<Rightarrow> if ip_alive now e then e else \<lparr>window_start = now, last_seen = now, req_count = 0, banned_until = None\<rparr>)"

lemma limiter_check_entry:
  assumes "hmap_ok m"
  shows "snd (limiter_check ip now m) = snd (limiter_entry now (entry_for ip now m))"
    "hget (fst (limiter_check ip now m)) ip = Some (fst (limiter_entry now (entry_for ip now m)))"
    "k \<noteq> ip \<Longrightarrow> hget (fst (limiter_check ip now m)) k = (case hget m k of None \<Rightarrow> None | Some v \<Rightarrow> if ip_alive now v then Some v else None)"
    "hmap_ok (fst (limiter_check ip now m))"
proof -
  define m' where "m' = hretain (\<lambda>_. ip_alive now) m"
  have g: "hget m' k = (case hget m k of None \<Rightarrow> None | Some v \<Rightarrow> if ip_alive now v then Some v else None)" for k
    using assms by (simp add: m'_def hget_hretain)
  have e: "(case hget m' ip of None \<Rightarrow> \<lparr>window_start = now, last_seen = now, req_count = 0, banned_until = None\<rparr> | Some e \<Rightarrow> e) = entry_for ip now m"
    by (auto simp: g entry_for_def split: option.splits)
  have c: "limiter_check ip now m = (hput ip (fst (limiter_entry now (entry_for ip now m))) m', snd (limiter_entry now (entry_for ip now m)))"
    by (simp add: limiter_check_def Let_def m'_def [symmetric] e split_def)
  show "snd (limiter_check ip now m) = snd (limiter_entry now (entry_for ip now m))"
    "hget (fst (limiter_check ip now m)) ip = Some (fst (limiter_entry now (entry_for ip now m)))"
    "k \<noteq> ip \<Longrightarrow> hget (fst (limiter_check ip now m)) k = (case hget m k of None \<Rightarrow> None | Some v \<Rightarrow> if ip_alive now v then Some v else None)"
    "hmap_ok (fst (limiter_check ip now m))"
    using assms hmap_ok_hretain by (auto simp: c g) (simp add: m'_def)
qed

lemmas limiter_defs = limiter_entry_def limiter_count_def Let_def winc32_le BAN_THRESHOLD_def MAX_REQUESTS_PER_WINDOW_def BAN_DURATION_def WINDOW_def

lemma entry_for_ok: "limiter_ok m t \<Longrightarrow> t \<le> now \<Longrightarrow> entry_ok now (entry_for ip now m)"
  by (fastforce simp: entry_for_def limiter_ok_def entry_ok_def split: option.splits)

lemma limiter_entry_ok: "entry_ok now e \<Longrightarrow> entry_ok now (fst (limiter_entry now e))"
  by (auto simp: entry_ok_def limiter_defs split: option.splits)

lemma limiter_check_ok:
  assumes ok: "limiter_ok m t" and "t \<le> now"
  shows "limiter_ok (fst (limiter_check ip now m)) now"
proof -
  have h: "hmap_ok m" using ok by (simp add: limiter_ok_def)
  have "entry_ok now e" if g: "hget (fst (limiter_check ip now m)) k = Some e" for k e
  proof (cases "k = ip")
    case True
    then show ?thesis using g limiter_check_entry(2) [OF h, of ip now] limiter_entry_ok [OF entry_for_ok [OF assms, of ip]] by simp
  next
    case False
    then have "hget m k = Some e" using g limiter_check_entry(3) [OF h False] by (auto split: option.splits if_splits)
    then have "entry_ok t e" using ok by (simp add: limiter_ok_def)
    then show ?thesis using assms(2) by (simp add: entry_ok_def)
  qed
  then show ?thesis using limiter_check_entry(4) [OF h] by (simp add: limiter_ok_def)
qed

definition entry_fresh :: "ip_addr \<Rightarrow> (ip_addr, ip_state) hmap \<Rightarrow> nat \<Rightarrow> bool" where
  \<comment> \<open>a request opens a new window: no entry, an ended ban or an ended window\<close>
  "entry_fresh ip m now = (case hget m ip of
     None \<Rightarrow> True
   | Some e \<Rightarrow> \<not> ip_alive now e \<or> (case banned_until e of None \<Rightarrow> now - window_start e \<ge> WINDOW | Some u \<Rightarrow> u \<le> now))"

definition entry_count :: "ip_addr \<Rightarrow> (ip_addr, ip_state) hmap \<Rightarrow> nat" where
  "entry_count ip m = (case hget m ip of None \<Rightarrow> 0 | Some e \<Rightarrow> req_count e)"

definition entry_start :: "ip_addr \<Rightarrow> (ip_addr, ip_state) hmap \<Rightarrow> nat option" where
  "entry_start ip m = map_option window_start (hget m ip)"

lemma limiter_new_window:
  assumes ok: "limiter_ok m t" and "entry_fresh ip m now" and s: "limiter_step ip m now = (m', a)"
  shows "entry_start ip m' = Some now \<and> of_bool a \<le> entry_count ip m' \<and> entry_count ip m' \<le> 1"
proof -
  have h: "hmap_ok m" using ok by (simp add: limiter_ok_def)
  have m': "m' = fst (limiter_check ip now m)" using s by (auto simp: limiter_step_def split: prod.splits)
  have "fst (limiter_entry now (entry_for ip now m)) = \<lparr>window_start = now, last_seen = now, req_count = 1, banned_until = None\<rparr>"
    using assms(2) by (auto simp: entry_fresh_def entry_for_def limiter_defs split: option.splits)
  then have "hget m' ip = Some \<lparr>window_start = now, last_seen = now, req_count = 1, banned_until = None\<rparr>"
    using limiter_check_entry(2) [OF h, of ip now] m' by simp
  then show ?thesis by (cases a) (simp_all add: entry_start_def entry_count_def)
qed

lemma limiter_open_window:
  assumes ok: "limiter_ok m t" and nf: "\<not> entry_fresh ip m now" and s: "limiter_step ip m now = (m', a)" and lt: "entry_count ip m < u32_max"
  shows "entry_start ip m' = entry_start ip m \<and> entry_count ip m + of_bool a \<le> entry_count ip m'
    \<and> entry_count ip m' \<le> entry_count ip m + 1 \<and> (a \<longrightarrow> entry_count ip m < MAX_REQUESTS_PER_WINDOW)"
proof -
  have h: "hmap_ok m" using ok by (simp add: limiter_ok_def)
  have m': "m' = fst (limiter_check ip now m)" "a = (snd (limiter_check ip now m) = Inr ())" using s by (auto simp: limiter_step_def split: prod.splits)
  obtain e where e: "hget m ip = Some e" "ip_alive now e" "entry_for ip now m = e"
    using nf by (auto simp: entry_fresh_def entry_for_def split: option.splits)
  have g: "hget m' ip = Some (fst (limiter_entry now e))" "a = (snd (limiter_entry now e) = Inr ())"
    using limiter_check_entry(1,2) [OF h, of ip now] m' e(3) by simp_all
  have lt': "req_count e < u32_max" using lt e(1) by (simp add: entry_count_def)
  then show ?thesis
    using nf e(1,2) g winc32_exact [OF lt']
    by (cases "banned_until e") (auto simp: entry_fresh_def entry_start_def entry_count_def limiter_defs)
qed

interpretation api_rate: window_counter "limiter_step ip" "entry_count ip" "entry_start ip" "entry_fresh ip" limiter_ok MAX_REQUESTS_PER_WINDOW WINDOW for ip
proof (unfold_locales, goal_cases)
  case 1
  show ?case by (simp add: MAX_REQUESTS_PER_WINDOW_def)
next
  case (2 m t now m' a)
  then show ?case using limiter_check_ok [OF 2(1,2), of ip] by (auto simp: limiter_step_def split: prod.splits)
next
  case (3 m t now m' a)
  then show ?case using limiter_open_window by blast
next
  case (4 m t now m' a)
  then show ?case using limiter_new_window by blast
next
  case (5 m t now t0)
  then obtain e where e: "hget m ip = Some e" "window_start e = t0" "entry_ok t e" by (auto simp: entry_start_def limiter_ok_def)
  then show ?case using 5(2,3)
    by (auto simp: entry_fresh_def entry_ok_def ip_alive_def WINDOW_def IP_ENTRY_TTL_def BAN_DURATION_def split: option.splits)
qed

text \<open>A limiter in service: requests from any addresses, in the order of the clock.\<close>

inductive limiter_run :: "(ip_addr, ip_state) hmap \<Rightarrow> nat \<Rightarrow> bool" where
  start: "limiter_run [] t"
| request: "limiter_run m t \<Longrightarrow> t \<le> now \<Longrightarrow> limiter_run (fst (limiter_check ip now m)) now"

lemma limiter_run_ok: "limiter_run m t \<Longrightarrow> limiter_ok m t"
  by (induction rule: limiter_run.induct) (simp_all add: limiter_check_ok, simp add: limiter_ok_def)

section \<open>Policy\<close>

lemma diff_fold: "length a = length b \<Longrightarrow> (foldl (\<lambda>diff (x, y). diff OR (x XOR y)) d (zip a b) = (0 :: 8 word)) = (d = 0 \<and> a = b)"
proof (induction a b arbitrary: d rule: list_induct2)
  case (Cons x xs y ys)
  have "(d OR (x XOR y) = 0) = (d = 0 \<and> x = y)" by (metis or_eq_0_iff xor_self_eq bit.xor_left_self xor.right_neutral)
  then show ?case using Cons.IH by auto
qed simp

lemma constant_time_eq_iff: "constant_time_eq a b \<longleftrightarrow> a = b"
  using diff_fold [of a b 0] by (auto simp: constant_time_eq_def)

lemma str_bytes_inj: "str_bytes a = str_bytes b \<longleftrightarrow> a = b"
proof -
  have "inj (of_char :: char \<Rightarrow> 8 word)"
  proof (rule injI)
    fix c d :: char
    assume "(of_char c :: 8 word) = of_char d"
    then have "unat (of_nat (of_char c) :: 8 word) = unat (of_nat (of_char d) :: 8 word)" by (simp add: of_nat_of_char)
    moreover have "(of_char x :: nat) < 256" for x using nat_of_char_less_256 by simp
    ultimately have "(of_char c :: nat) = of_char d" by (simp add: unat_of_nat)
    then show "c = d" by simp
  qed
  then show ?thesis by (simp add: str_bytes_def inj_map_eq_map)
qed

lemma token_ok_iff: "token_ok p got \<longleftrightarrow> (case api_token p of None \<Rightarrow> True | Some e \<Rightarrow> got = Some e)"
  by (auto simp: token_ok_def constant_time_eq_iff str_bytes_inj split: option.splits)

text \<open>
  The strict dial filter lets through the loopback address written as an IPv4-mapped IPv6 address, and every host
  name, the local host's included: the comment leaves names to the caller, which does not look at them either.
\<close>

lemma strict_dials_mapped_loopback:
  assumes "host_of_addr a = Some h" and "\<not> ends_with ''.onion'' h" and "parse_ip h = Some (V6 [0, 0, 0, 0, 0, 0, 0, 0, 0, 0, 255, 255, 127, 0, 0, 1])"
  shows "is_publicly_dialable parse_ip a"
proof -
  have r: "replicate 16 (0 :: 8 word) = [0, 0, 0, 0, 0, 0, 0, 0, 0, 0, 0, 0, 0, 0, 0, 0]"
    "replicate 15 (0 :: 8 word) = [0, 0, 0, 0, 0, 0, 0, 0, 0, 0, 0, 0, 0, 0, 0]" by (simp_all add: numeral_eq_Suc)
  show ?thesis using assms by (simp add: is_publicly_dialable_def v6_unspecified_def v6_loopback_def v6_unicast_link_local_def r)
qed

lemma strict_dials_localhost:
  "parse_ip ''localhost'' = None \<Longrightarrow> is_dialable_gossip_addr p parse_ip ''localhost:80''"
  by (simp add: is_dialable_gossip_addr_def is_publicly_dialable_def host_of_addr_def trim_def is_space_def rsplit_once_def
      parse_u16_def is_digit_def trim_brackets_def to_ascii_lower_def ascii_upper_def ends_with_def)

section \<open>Properties\<close>



text \<open>
  What the environment allows a node to start with. A write is let through with exactly the configured token; only a
  node that is not public and was told so runs without one. A public node starts only with a token of the operator and
  without the switches that weaken it, filters dial targets strictly, has the tight budgets, and never answers to a
  cross-origin request from an origin that is not listed by name.
\<close>
theorem public_node_locked:
  assumes "from_env vars tok = Some p"
  shows "(\<forall>got. token_ok p got \<longleftrightarrow> (case api_token p of None \<Rightarrow> True | Some e \<Rightarrow> got = Some e))
    \<and> (writes_require_token p \<or> \<not> public_mode p \<and> env_flag vars ''HASSAN_ALLOW_UNAUTH_WRITES'')
    \<and> (public_mode p \<longrightarrow> (\<exists>raw. vars ''HASSAN_API_TOKEN'' = Some raw \<and> trim raw \<noteq> [] \<and> api_token p = Some (trim raw))
         \<and> \<not> env_flag vars ''HASSAN_ALLOW_UNAUTH_WRITES'' \<and> \<not> env_flag vars ''HASSAN_RELAX_NET'' \<and> \<not> env_flag vars ''HASSAN_BOOTSTRAP_EASY''
         \<and> strict_dials p \<and> peer_msg_limit p = 2000 \<and> stark_verifies_per_window p = 8 \<and> api_write_limit_per_window p = 30
         \<and> (\<forall>origin. cors_allows p origin \<longrightarrow> origin \<noteq> ''*'' \<and> origin \<in> set (cors_origins p)))"
proof -
  have w: "writes_require_token p \<or> \<not> public_mode p \<and> env_flag vars ''HASSAN_ALLOW_UNAUTH_WRITES''"
    using assms by (auto simp: from_env_def Let_def writes_require_token_def split: if_splits)
  have pub: "(\<exists>raw. vars ''HASSAN_API_TOKEN'' = Some raw \<and> trim raw \<noteq> [] \<and> api_token p = Some (trim raw))
     \<and> \<not> env_flag vars ''HASSAN_ALLOW_UNAUTH_WRITES'' \<and> \<not> env_flag vars ''HASSAN_RELAX_NET'' \<and> \<not> env_flag vars ''HASSAN_BOOTSTRAP_EASY''
     \<and> strict_dials p \<and> peer_msg_limit p = 2000 \<and> stark_verifies_per_window p = 8 \<and> api_write_limit_per_window p = 30" if "public_mode p"
    using assms that by (auto simp: from_env_def Let_def env_token_def split: if_splits option.splits)
  have c: "origin \<noteq> ''*'' \<and> origin \<in> set (cors_origins p)" if "public_mode p" "cors_allows p origin" for origin
    using that by (auto simp: cors_allows_def list_ex_iff split: if_splits)
  show ?thesis using token_ok_iff w pub c by blast
qed

definition demo_vars :: "string \<Rightarrow> string option" where
  "demo_vars name = (if name = ''HASSAN_PUBLIC'' then Some ''1'' else if name = ''HASSAN_API_TOKEN'' then Some '' s3 '' else None)"

theorem public_node_locked_witness:
  "\<exists>p. from_env demo_vars [] = Some p \<and> public_mode p \<and> strict_dials p \<and> \<not> token_ok p None \<and> \<not> token_ok p (Some ''s'') \<and> token_ok p (Some ''s3'')"
proof -
  have f: "env_flag demo_vars ''HASSAN_PUBLIC''" "\<not> env_flag demo_vars ''HASSAN_ALLOW_UNAUTH_WRITES''" "\<not> env_flag demo_vars ''HASSAN_RELAX_NET''"
    "\<not> env_flag demo_vars ''HASSAN_BOOTSTRAP_EASY''" "env_token demo_vars = Some ''s3''"
    by (simp_all add: env_flag_def env_token_def demo_vars_def to_ascii_lower_def ascii_upper_def trim_def is_space_def)
  obtain p where p: "from_env demo_vars [] = Some p" "public_mode p" "api_token p = Some ''s3''" using f by (simp add: from_env_def Let_def)
  show ?thesis using public_node_locked [OF p(1)] p by auto
qed

end
