(* ===== verification/Wire.thy ===== *)
theory Wire
  imports Difficulty
begin

text \<open>
  Framing of the peer-to-peer wire, \<open>src/p2p.rs\<close>: handshake frames and the encrypted frames that carry one message.
  A socket is a byte stream: a writer appends to it, a reader takes from its front and fails when it runs dry.
  The Noise transport of the \<open>snow\<close> package is a pair of arguments, \<open>wr\<close> for \<open>write_message\<close> and \<open>rd\<close> for
  \<open>read_message\<close>; each takes the state of its direction (key and nonce counter) and returns the next one.
\<close>

section \<open>Frames\<close>

definition MAX_MESSAGE_BYTES :: nat where "MAX_MESSAGE_BYTES = MAX_BLOCK_BYTES + 16 * 1024"
definition NOISE_MAX_PLAINTEXT :: nat where "NOISE_MAX_PLAINTEXT = 65535 - 16"

definition be16 :: "nat \<Rightarrow> bytes" where
  \<comment> \<open>\<open>(n as u16).to_be_bytes()\<close>, which keeps the low 16 bits\<close>
  "be16 n = [of_nat (n div 256), of_nat n]"

definition be32 :: "nat \<Rightarrow> bytes" where
  "be32 n = [of_nat (n div 256 ^ 3), of_nat (n div 256 ^ 2), of_nat (n div 256), of_nat n]"

definition be_nat :: "bytes \<Rightarrow> nat" where
  \<comment> \<open>\<open>from_be_bytes\<close>\<close>
  "be_nat bs = foldl (\<lambda>n b. n * 256 + unat b) 0 bs"

definition read_exact :: "nat \<Rightarrow> bytes \<Rightarrow> (bytes \<times> bytes) option" where
  "read_exact n s = (if n \<le> length s then Some (take n s, drop n s) else None)"

definition write_raw_frame :: "bytes \<Rightarrow> bytes" where
  "write_raw_frame d = be16 (length d) @ d"

definition read_raw_frame :: "bytes \<Rightarrow> (bytes \<times> bytes) option" where
  \<comment> \<open>the frame and the rest of the stream\<close>
  "read_raw_frame s =
     (case read_exact 2 s of
        None \<Rightarrow> None
      | Some (lb, s1) \<Rightarrow> read_exact (be_nat lb) s1)"

section \<open>Encrypted messages\<close>

definition write_enc_frame :: "('t \<Rightarrow> bytes \<Rightarrow> ('t \<times> bytes) option) \<Rightarrow> 't \<Rightarrow> bytes \<Rightarrow> ('t \<times> bytes) option" where
  "write_enc_frame wr t plaintext =
     (case wr t plaintext of
        None \<Rightarrow> None
      | Some (t', ct) \<Rightarrow> Some (t', be16 (length ct) @ ct))"

function chunks :: "nat \<Rightarrow> 'a list \<Rightarrow> 'a list list" where
  \<comment> \<open>\<open>slice::chunks\<close>; it panics on size 0, which no caller passes\<close>
  "chunks n xs = (if xs = [] \<or> n = 0 then [] else take n xs # chunks n (drop n xs))"
  by pat_completeness auto
termination by (relation "measure (length \<circ> snd)") auto

declare chunks.simps [simp del]

fun write_chunks :: "('t \<Rightarrow> bytes \<Rightarrow> ('t \<times> bytes) option) \<Rightarrow> 't \<Rightarrow> bytes list \<Rightarrow> bytes \<Rightarrow> 't \<times> bytes \<times> unit result" where
  \<comment> \<open>the bytes of earlier frames stay on the socket when a later one fails\<close>
  "write_chunks wr t [] out = (t, out, Ok ())"
| "write_chunks wr t (c # cs) out =
     (case write_enc_frame wr t c of
        None \<Rightarrow> (t, out, Err ''encryption failed'')
      | Some (t', bs) \<Rightarrow> write_chunks wr t' cs (out @ bs))"

definition noise_write :: "('t \<Rightarrow> bytes \<Rightarrow> ('t \<times> bytes) option) \<Rightarrow> 't \<Rightarrow> bytes \<Rightarrow> 't \<times> bytes \<times> unit result" where
  \<comment> \<open>next transport state and the bytes put on the socket\<close>
  "noise_write wr t payload =
     (if length payload > MAX_MESSAGE_BYTES then (t, [], Err ''outgoing message exceeds MAX_MESSAGE_BYTES'')
      else write_chunks wr t (be32 (length payload) # chunks NOISE_MAX_PLAINTEXT payload) [])"

definition read_enc_frame :: "('t \<Rightarrow> bytes \<Rightarrow> ('t \<times> bytes) option) \<Rightarrow> 't \<Rightarrow> bytes \<Rightarrow> ('t \<times> bytes \<times> bytes) option" where
  \<comment> \<open>next transport state, plaintext and the rest of the stream; \<open>None\<close> closes the connection\<close>
  "read_enc_frame rd t s =
     (case read_raw_frame s of
        None \<Rightarrow> None
      | Some (ct, s') \<Rightarrow> (case rd t ct of None \<Rightarrow> None | Some (t', pt) \<Rightarrow> Some (t', pt, s')))"

function read_chunks :: "('t \<Rightarrow> bytes \<Rightarrow> ('t \<times> bytes) option) \<Rightarrow> nat \<Rightarrow> 't \<Rightarrow> bytes \<Rightarrow> bytes \<Rightarrow> ('t \<times> bytes \<times> bytes) result" where
  "read_chunks rd tot t s out =
     (if length out < tot
      then (case read_enc_frame rd t s of
              None \<Rightarrow> Err ''read failed''
            | Some (t', chunk, s') \<Rightarrow>
                if chunk = [] then Err ''empty noise chunk''
                else if length (out @ chunk) > tot then Err ''noise chunk overflow''
                else read_chunks rd tot t' s' (out @ chunk))
      else Ok (t, out, s))"
  by pat_completeness auto
termination
proof (relation "measure (\<lambda>(rd, tot, t, s, out). tot - length out)", goal_cases)
  case (2 rd tot t s out x2 t' y chunk s')
  then have "0 < length chunk" by simp
  then show ?case using 2(1) by (simp del: length_greater_0_conv)
qed simp

declare read_chunks.simps [simp del]

definition noise_read :: "('t \<Rightarrow> bytes \<Rightarrow> ('t \<times> bytes) option) \<Rightarrow> 't \<Rightarrow> bytes \<Rightarrow> ('t \<times> bytes \<times> bytes) result" where
  "noise_read rd t s =
     (case read_enc_frame rd t s of
        None \<Rightarrow> Err ''read failed''
      | Some (t1, header, s1) \<Rightarrow>
          if length header \<noteq> 4 then Err ''bad noise length header''
          else if be_nat header > MAX_MESSAGE_BYTES then Err ''incoming message exceeds MAX_MESSAGE_BYTES''
          else read_chunks rd (be_nat header) t1 s1 [])"

section \<open>Correctness\<close>

lemma length_be16 [simp]: "length (be16 n) = 2"
  by (simp add: be16_def)

lemma be_nat_be16: "n < 2 ^ 16 \<Longrightarrow> be_nat (be16 n) = n"
  by (simp add: be_nat_def be16_def unat_of_nat)

lemma be_nat_be32:
  assumes "n < 2 ^ 32"
  shows "be_nat (be32 n) = n"
proof -
  define a where "a = n div 16777216"
  define b where "b = n div 65536 mod 256"
  define c where "c = n div 256 mod 256"
  have "a < 256" using assms by (simp add: a_def)
  then have "be_nat (be32 n) = ((a * 256 + b) * 256 + c) * 256 + n mod 256"
    by (simp add: be_nat_def be32_def unat_of_nat a_def b_def c_def)
  moreover have "n div 256 = (a * 256 + b) * 256 + c" "n div 65536 = a * 256 + b"
    using div_mult_mod_eq [of "n div 256" 256] div_mult_mod_eq [of "n div 65536" 256] by (simp_all add: a_def b_def c_def div_mult2_eq [symmetric])
  ultimately show ?thesis using div_mult_mod_eq [of n 256] by simp
qed

lemma raw_frame_roundtrip: "length d < 2 ^ 16 \<Longrightarrow> read_raw_frame (write_raw_frame d @ rest) = Some (d, rest)"
  by (simp add: read_raw_frame_def write_raw_frame_def read_exact_def be_nat_be16)

lemma chunks_bounded: "c \<in> set (chunks n xs) \<Longrightarrow> c \<noteq> [] \<and> length c \<le> n"
  by (induction n xs rule: chunks.induct) (subst (asm) (2) chunks.simps, auto split: if_splits)

lemma concat_chunks: "n > 0 \<Longrightarrow> concat (chunks n xs) = xs"
  by (induction n xs rule: chunks.induct) (subst chunks.simps, auto)

text \<open>
  What the transport of the Noise package promises: a plaintext of at most \<open>NOISE_MAX_PLAINTEXT\<close> bytes is encrypted with a
  16-byte tag, and a peer whose receiving state is the sender's state decrypts it, both going to the same next state.
\<close>

definition noise_transport :: "('t \<Rightarrow> bytes \<Rightarrow> ('t \<times> bytes) option) \<Rightarrow> ('t \<Rightarrow> bytes \<Rightarrow> ('t \<times> bytes) option) \<Rightarrow> bool" where
  "noise_transport wr rd \<longleftrightarrow>
     (\<forall>t p. length p \<le> NOISE_MAX_PLAINTEXT \<longrightarrow> (\<exists>t' ct. wr t p = Some (t', ct) \<and> length ct = length p + 16 \<and> rd t ct = Some (t', p)))"

lemma enc_frame_roundtrip:
  assumes "noise_transport wr rd" and "length p \<le> NOISE_MAX_PLAINTEXT"
  shows "\<exists>t' bs. write_enc_frame wr t p = Some (t', bs) \<and> (\<forall>rest. read_enc_frame rd t (bs @ rest) = Some (t', p, rest))"
proof -
  obtain t' ct where c: "wr t p = Some (t', ct)" "length ct = length p + 16" "rd t ct = Some (t', p)"
    using assms unfolding noise_transport_def by blast
  have "length ct < 2 ^ 16" using c(2) assms(2) by (simp add: NOISE_MAX_PLAINTEXT_def)
  from raw_frame_roundtrip [OF this] c show ?thesis by (simp add: write_enc_frame_def read_enc_frame_def write_raw_frame_def)
qed

lemma chunks_roundtrip:
  assumes tr: "noise_transport wr rd" and "\<forall>c\<in>set cs. c \<noteq> [] \<and> length c \<le> NOISE_MAX_PLAINTEXT"
  shows "\<exists>t' bs. (\<forall>out. write_chunks wr t cs out = (t', out @ bs, Ok ()))
    \<and> (\<forall>out rest. read_chunks rd (length out + length (concat cs)) t (bs @ rest) out = Ok (t', out @ concat cs, rest))"
  using assms(2)
proof (induction cs arbitrary: t)
  case Nil
  show ?case by (rule exI [of _ t], rule exI [of _ "[]"]) (simp add: read_chunks.simps)
next
  case (Cons c cs)
  have c: "c \<noteq> []" "length c \<le> NOISE_MAX_PLAINTEXT" using Cons.prems by simp_all
  obtain t1 b1 where f: "write_enc_frame wr t c = Some (t1, b1)" "\<forall>rest. read_enc_frame rd t (b1 @ rest) = Some (t1, c, rest)"
    using enc_frame_roundtrip [OF tr c(2), of t] by blast
  obtain t' b2 where g: "\<forall>out. write_chunks wr t1 cs out = (t', out @ b2, Ok ())"
    "\<forall>out rest. read_chunks rd (length out + length (concat cs)) t1 (b2 @ rest) out = Ok (t', out @ concat cs, rest)"
    using Cons.IH Cons.prems by (meson list.set_intros(2))
  have "read_chunks rd (length out + length (concat (c # cs))) t (b1 @ b2 @ rest) out = Ok (t', out @ concat (c # cs), rest)" for out rest
  proof -
    have "read_chunks rd (length out + length (concat (c # cs))) t (b1 @ b2 @ rest) out
        = read_chunks rd (length (out @ c) + length (concat cs)) t1 (b2 @ rest) (out @ c)"
      by (subst read_chunks.simps) (simp add: f(2) c(1) add.assoc)
    also have "\<dots> = Ok (t', (out @ c) @ concat cs, rest)" by (rule g(2) [rule_format])
    finally show ?thesis by simp
  qed
  then show ?case using f(1) g(1) by (intro exI [of _ t'] exI [of _ "b1 @ b2"]) simp
qed

lemma message_roundtrip:
  assumes tr: "noise_transport wr rd" and len: "length payload \<le> MAX_MESSAGE_BYTES"
  shows "\<exists>t' bs. noise_write wr t payload = (t', bs, Ok ()) \<and> (\<forall>rest. noise_read rd t (bs @ rest) = Ok (t', payload, rest))"
proof -
  have l4: "length (be32 (length payload)) = 4" and n: "be_nat (be32 (length payload)) = length payload"
    using len be_nat_be32 [of "length payload"] by (simp_all add: be32_def MAX_MESSAGE_BYTES_def MAX_BLOCK_BYTES_def)
  obtain t1 b1 where f: "write_enc_frame wr t (be32 (length payload)) = Some (t1, b1)"
    "\<forall>rest. read_enc_frame rd t (b1 @ rest) = Some (t1, be32 (length payload), rest)"
    using enc_frame_roundtrip [OF tr, of "be32 (length payload)" t] l4 by (auto simp: NOISE_MAX_PLAINTEXT_def)
  have "\<forall>c\<in>set (chunks NOISE_MAX_PLAINTEXT payload). c \<noteq> [] \<and> length c \<le> NOISE_MAX_PLAINTEXT" by (simp add: chunks_bounded)
  from chunks_roundtrip [OF tr this, of t1] obtain t' b2 where
    g: "\<forall>out. write_chunks wr t1 (chunks NOISE_MAX_PLAINTEXT payload) out = (t', out @ b2, Ok ())"
    "\<forall>out rest. read_chunks rd (length out + length (concat (chunks NOISE_MAX_PLAINTEXT payload))) t1 (b2 @ rest) out
       = Ok (t', out @ concat (chunks NOISE_MAX_PLAINTEXT payload), rest)" by blast
  have c: "concat (chunks NOISE_MAX_PLAINTEXT payload) = payload" by (rule concat_chunks) (simp add: NOISE_MAX_PLAINTEXT_def)
  have "noise_read rd t ((b1 @ b2) @ rest) = Ok (t', payload, rest)" for rest
    using f(2) g(2) [rule_format, of "[]" rest] l4 n len c by (simp add: noise_read_def)
  then show ?thesis using f(1) g(1) len by (intro exI [of _ t'] exI [of _ "b1 @ b2"]) (simp add: noise_write_def)
qed

lemma read_chunks_length: "read_chunks rd tot t s out = Ok (t', p, rest) \<Longrightarrow> length out \<le> tot \<Longrightarrow> length p = tot"
proof (induction rd tot t s out rule: read_chunks.induct)
  case (1 rd tot t s out)
  show ?case using "1.prems" by (subst (asm) read_chunks.simps) (auto split: if_splits option.splits dest!: "1.IH")
qed

lemma noise_read_bounded: "noise_read rd t s = Ok (t', p, rest) \<Longrightarrow> length p \<le> MAX_MESSAGE_BYTES"
  by (auto simp: noise_read_def split: option.splits if_splits dest!: read_chunks_length)

fun write_messages :: "('t \<Rightarrow> bytes \<Rightarrow> ('t \<times> bytes) option) \<Rightarrow> 't \<Rightarrow> bytes list \<Rightarrow> bytes" where
  \<comment> \<open>the socket after a sequence of sends\<close>
  "write_messages wr t [] = []"
| "write_messages wr t (p # ps) = (case noise_write wr t p of (t', bs, _) \<Rightarrow> bs @ write_messages wr t' ps)"

fun read_messages :: "('t \<Rightarrow> bytes \<Rightarrow> ('t \<times> bytes) option) \<Rightarrow> nat \<Rightarrow> 't \<Rightarrow> bytes \<Rightarrow> bytes list" where
  \<comment> \<open>up to \<open>n\<close> turns of the read loop of a connection\<close>
  "read_messages rd 0 t s = []"
| "read_messages rd (Suc n) t s = (case noise_read rd t s of Inl _ \<Rightarrow> [] | Inr (t', p, s') \<Rightarrow> p # read_messages rd n t' s')"

lemma sequence_roundtrip:
  assumes tr: "noise_transport wr rd"
  shows "read_messages rd (length (filter (\<lambda>p. length p \<le> MAX_MESSAGE_BYTES) ps)) t (write_messages wr t ps @ rest)
      = filter (\<lambda>p. length p \<le> MAX_MESSAGE_BYTES) ps"
proof (induction ps arbitrary: t)
  case (Cons p ps)
  show ?case
  proof (cases "length p \<le> MAX_MESSAGE_BYTES")
    case True
    from message_roundtrip [OF tr True, of t] obtain t' bs where
      m: "noise_write wr t p = (t', bs, Ok ())" "\<forall>rest. noise_read rd t (bs @ rest) = Ok (t', p, rest)" by blast
    show ?thesis using m Cons.IH [of t'] True by simp
  next
    case False
    then show ?thesis using Cons.IH [of t] by (simp add: noise_write_def)
  qed
qed simp

text \<open>
  C40. The wire delivers messages intact. Over a transport that keeps the promise of the Noise package, whatever
  sequence of messages is written, those above the size limit included, what the reader at the other end gets is
  exactly the messages within the limit, in order; and no byte stream at all makes the reader return a
  message above the limit.
\<close>
theorem wire_roundtrip:
  assumes tr: "noise_transport wr rd"
  shows "read_messages rd (length (filter (\<lambda>p. length p \<le> MAX_MESSAGE_BYTES) ps)) t (write_messages wr t ps @ rest)
      = filter (\<lambda>p. length p \<le> MAX_MESSAGE_BYTES) ps
    \<and> (noise_read rd u s = Ok (u', p, s') \<longrightarrow> length p \<le> MAX_MESSAGE_BYTES)"
  using sequence_roundtrip [OF tr] noise_read_bounded [of rd u s] by simp

definition demo_wr :: "nat \<Rightarrow> bytes \<Rightarrow> (nat \<times> bytes) option" where
  "demo_wr n p = Some (Suc n, p @ replicate 16 (of_nat n))"

definition demo_rd :: "nat \<Rightarrow> bytes \<Rightarrow> (nat \<times> bytes) option" where
  "demo_rd n ct = (if length ct \<ge> 16 \<and> drop (length ct - 16) ct = replicate 16 (of_nat n) then Some (Suc n, take (length ct - 16) ct) else None)"

theorem wire_roundtrip_witness:
  "noise_transport demo_wr demo_rd \<and> read_messages demo_rd 2 0 (write_messages demo_wr 0 [[1, 2], replicate MAX_MESSAGE_BYTES 0 @ [3], [4]]) = [[1, 2], [4]]"
proof -
  have d: "noise_transport demo_wr demo_rd" by (simp add: noise_transport_def demo_wr_def demo_rd_def)
  from wire_roundtrip [OF d, of "[[1, 2], replicate MAX_MESSAGE_BYTES 0 @ [3], [4]]" 0 "[]"] show ?thesis
    using d by (simp add: MAX_MESSAGE_BYTES_def MAX_BLOCK_BYTES_def numeral_2_eq_2)
qed

end
