(* ===== verification/P2p.thy ===== *)
theory P2p
  imports Wire Net_Policy Account_Pool Snapshot
begin

text \<open>
  The peer-to-peer node, \<open>src/p2p.rs\<close>: messages, the state shared by the connection threads, and one definition per
  handler. Each definition is what one thread does between taking and releasing the locks it needs for one message or one
  tick, so an interleaving of threads is a sequence of these steps; a step reads the clock once.

  \<open>net_ctx\<close> holds what the code takes from outside: the environment of the chain, the laboratory switch and the
  assume-valid pin, the operator policy and the pinned identities, the serializer of messages, the parser of IP addresses,
  which dials connect, and the two clocks (\<open>inst\<close> for \<open>Instant::now\<close>, \<open>wall\<close> for \<open>now_ms\<close>). A connection is a number. What is
  written to it is appended to \<open>outbox\<close>, unless the transport refuses it for its size; a connection that breaks
  shows up as the end of its input. A started connection thread is an entry of \<open>dials\<close>. Sets of hashes and of addresses
  are lists without repetition, in the order in which they are iterated. An outer \<open>None\<close> is a walk that does not end.
\<close>

section \<open>Messages\<close>

definition PROTOCOL_VERSION :: nat where "PROTOCOL_VERSION = 7"
definition WIRE_MAGIC :: bytes where "WIRE_MAGIC = str_bytes ''HSN1''"
definition MAX_ADDRS_PER_MSG :: nat where "MAX_ADDRS_PER_MSG = 16"
definition MAX_PEERS :: nat where "MAX_PEERS = 64"
definition MAX_PEERS_PER_GROUP :: nat where "MAX_PEERS_PER_GROUP = 3"
definition MAX_ORPHANS :: nat where "MAX_ORPHANS = 1000"
definition ORPHAN_TTL :: nat where "ORPHAN_TTL = 600000"
definition BAN_DECAY_POINTS :: nat where "BAN_DECAY_POINTS = 10"
definition BAN_DECAY_INTERVAL :: nat where "BAN_DECAY_INTERVAL = 60000"
definition MAX_KNOWN_ADDRS :: nat where "MAX_KNOWN_ADDRS = 1024"
definition BAN_SCORE_THRESHOLD :: nat where "BAN_SCORE_THRESHOLD = 100"
definition INVALID_BLOCK_PENALTY :: nat where "INVALID_BLOCK_PENALTY = 20"
definition INVALID_STARK_PENALTY :: nat where "INVALID_STARK_PENALTY = 50"
definition INVALID_TX_PENALTY :: nat where "INVALID_TX_PENALTY = 20"
definition MAX_PENDING_HEADERS :: nat where "MAX_PENDING_HEADERS = 2048"
definition MAX_IN_FLIGHT_BODIES :: nat where "MAX_IN_FLIGHT_BODIES = 32"
definition MAX_HEADERS_PER_MSG :: nat where "MAX_HEADERS_PER_MSG = 2000"
definition MAX_LOCATOR_HASHES :: nat where "MAX_LOCATOR_HASHES = 64"
definition MAX_IN_FLIGHT_TX_GETS :: nat where "MAX_IN_FLIGHT_TX_GETS = 64"
definition MAX_TX_PACKAGE :: nat where "MAX_TX_PACKAGE = MAX_MEMPOOL_PACKAGE_NONCES"
definition PRUNING_PROOF_RECENT_WINDOW :: nat where "PRUNING_PROOF_RECENT_WINDOW = sat_mul64 DAA_WINDOW 2"

datatype message =
    Hello (hello_version: nat) (hello_magic: bytes) (hello_chain_id: nat) (hello_blue_score: nat) (hello_listen_addr: "string option")
  | GetAddr
  | Addr "string list"
  | GetTips
  | Tips "hash list"
  | GetBlock hash
  | MBlock block
  | Inv hash
  | NotFound hash
  | MTx transparent_tx
  | TxInv hash
  | GetTx hash
  | TxPackage "transparent_tx list"
  | MUtxoTx utxo_tx
  | UtxoTxInv hash
  | GetUtxoTx hash
  | CompactBlock hash nat "bytes list" "transparent_tx list"
  | GetBlockTxn hash "nat list"
  | BlockTxn hash "transparent_tx list"
  | GetHeaders "hash list" hash nat
  | Headers "block list"
  | Ping nat
  | Pong nat
  | FeeFilter nat
  | GetPruningProof
  | MPruningProof "block list"
  | GetMultiLevelPruningProof
  | MMultiLevelPruningProof multilevel_proof
  | GetPruningPointLedger hash
  | MPruningPointLedger pruning_point_ledger
  | Identity bytes bytes

fun max_payload_for :: "message \<Rightarrow> nat" where
  "max_payload_for (Addr addrs) = 512 + min (sat_mul64 (length addrs) 256) (64 * 1024)"
| "max_payload_for (Tips ts) = 256 + sat_mul64 (length ts) 80"
| "max_payload_for (MTx _) = 128 * 1024"
| "max_payload_for (TxPackage _) = 128 * 1024"
| "max_payload_for (MUtxoTx _) = 128 * 1024"
| "max_payload_for (GetHeaders locator _ _) = 512 + sat_mul64 (min (length locator) MAX_LOCATOR_HASHES) 80"
| "max_payload_for (Headers hs) = min (512 + sat_mul64 (min (length hs) MAX_HEADERS_PER_MSG) 512) MAX_MESSAGE_BYTES"
| "max_payload_for (Identity _ _) = 16 * 1024"
| "max_payload_for (CompactBlock _ _ _ _) = MAX_MESSAGE_BYTES"
| "max_payload_for (GetBlockTxn _ _) = MAX_MESSAGE_BYTES"
| "max_payload_for (BlockTxn _ _) = MAX_MESSAGE_BYTES"
| "max_payload_for (MBlock _) = MAX_MESSAGE_BYTES"
| "max_payload_for (MPruningProof _) = MAX_MESSAGE_BYTES"
| "max_payload_for (MMultiLevelPruningProof _) = MAX_MESSAGE_BYTES"
| "max_payload_for (MPruningPointLedger _) = MAX_MESSAGE_BYTES"
| "max_payload_for _ = 8 * 1024"

definition message_within_type_cap :: "message \<Rightarrow> nat \<Rightarrow> bool" where
  "message_within_type_cap m payload_len \<longleftrightarrow> payload_len \<le> max_payload_for m"

fun str_contains :: "string \<Rightarrow> string \<Rightarrow> bool" where
  \<comment> \<open>\<open>s.contains(p)\<close>\<close>
  "str_contains p [] \<longleftrightarrow> p = []"
| "str_contains p (c # s) \<longleftrightarrow> take (length p) (c # s) = p \<or> str_contains p s"

definition starts_with :: "string \<Rightarrow> string \<Rightarrow> bool" where
  "starts_with p s \<longleftrightarrow> take (length p) s = p"

section \<open>State\<close>

record net_ctx =
  nx_env :: env
  nx_lab :: bool
  nx_pin :: "hash option"
  nx_policy :: net_policy
  nx_pins :: peer_pin_directory
  nx_ser :: "message \<Rightarrow> bytes"
  nx_parse_ip :: "string \<Rightarrow> ip_addr option"
  nx_connects :: "string \<Rightarrow> bool"
  inst :: nat
  wall :: nat

record peer_handle =
  ph_group :: "bytes option"
  ph_conn :: nat
  fee_filter :: nat

record compact_entry =
  pc_short_ids :: "bytes list"
  filled :: "transparent_tx option list"

record orphan_block =
  ob_block :: block
  inserted_at :: nat

record pending_header =
  pd_header :: block
  pd_work :: nat
  requested :: bool

record shared =
  sh_state :: chain_state
  peers :: "peer_handle list"
  orphans :: "(hash, orphan_block list) hmap"
  known_addrs :: "string list"
  sh_addrman :: addr_man
  pending_compact :: "(hash, compact_entry) hmap"
  pending_headers :: "(hash, pending_header) hmap"
  in_flight_bodies :: "hash list"
  in_flight_tx_gets :: "hash list"
  connected_addrs :: "string list"
  banned_addrs :: "string list"
  verified_pruning_point :: "hash option"
  expecting_pruning_proof :: bool
  expecting_pruning_ledger :: bool
  best_pruning_work :: nat
  my_listen_addr :: "string option"
  sh_chain_id :: nat
  ip_bans :: ip_ban_list
  outbox :: "(nat \<times> message) list"
  dials :: "string list"

definition shared_new :: "chain_state \<Rightarrow> shared" where
  \<comment> \<open>\<open>Node::with_data_dir\<close>\<close>
  "shared_new cs = \<lparr>sh_state = cs, peers = [], orphans = [], known_addrs = [], sh_addrman = addrman_new, pending_compact = [],
     pending_headers = [], in_flight_bodies = [], in_flight_tx_gets = [], connected_addrs = [], banned_addrs = [],
     verified_pruning_point = None, expecting_pruning_proof = False, expecting_pruning_ledger = False, best_pruning_work = 0,
     my_listen_addr = None, sh_chain_id = chain_id cs, ip_bans = [], outbox = [], dials = []\<rparr>"

record network_status =
  ns_peer_count :: nat
  ns_listening :: bool
  ns_listen_addr :: "string option"
  ns_banned_count :: nat
  ns_known_addrs :: nat

definition refresh_network_status :: "shared \<Rightarrow> network_status" where
  "refresh_network_status sh = \<lparr>ns_peer_count = length (peers sh), ns_listening = (my_listen_addr sh \<noteq> None),
     ns_listen_addr = my_listen_addr sh, ns_banned_count = length (banned_addrs sh), ns_known_addrs = length (known_addrs sh)\<rparr>"

section \<open>Sending\<close>

definition send :: "net_ctx \<Rightarrow> nat \<Rightarrow> message \<Rightarrow> shared \<Rightarrow> shared" where
  "send X conn m sh = (if length (nx_ser X m) \<le> MAX_MESSAGE_BYTES then sh\<lparr>outbox := outbox sh @ [(conn, m)]\<rparr> else sh)"

definition broadcast :: "net_ctx \<Rightarrow> message \<Rightarrow> shared \<Rightarrow> shared" where
  "broadcast X m sh = fold (\<lambda>p. send X (ph_conn p) m) (peers sh) sh"

definition gossip :: "net_ctx \<Rightarrow> nat \<Rightarrow> message list \<Rightarrow> shared \<Rightarrow> shared" where
  \<comment> \<open>the loop of \<open>broadcast_tx\<close> and \<open>broadcast_utxo_tx\<close>: each peer whose filter the fee passes gets the messages\<close>
  "gossip X fee ms sh =
     fold (\<lambda>p sh. if fee_filter p > 0 \<and> fee < fee_filter p then sh else fold (send X (ph_conn p)) ms sh) (peers sh) sh"

definition broadcast_tx :: "net_ctx \<Rightarrow> transparent_tx \<Rightarrow> shared \<Rightarrow> shared" where
  "broadcast_tx X tx = gossip X (t_fee tx) [TxInv (transparent_tx_hash (nx_env X) tx), MTx tx]"

definition broadcast_utxo_tx :: "net_ctx \<Rightarrow> utxo_tx \<Rightarrow> shared \<Rightarrow> shared" where
  "broadcast_utxo_tx X tx = gossip X (u_fee tx) [UtxoTxInv (utxo_txid (nx_env X) tx), MUtxoTx tx]"

definition tx_short_id :: "env \<Rightarrow> transparent_tx \<Rightarrow> bytes" where
  "tx_short_id E tx = take 8 (hash_bytes (transparent_tx_hash E tx))"

definition broadcast_compact_block :: "net_ctx \<Rightarrow> block \<Rightarrow> shared \<Rightarrow> shared" where
  "broadcast_compact_block X b sh =
     (let h = block_hash (nx_env X) b
      in broadcast X (Inv h) (broadcast X (CompactBlock h (b_nonce b) (map (tx_short_id (nx_env X)) (transparent_txs b)) []) sh))"

section \<open>Helpers of the handlers\<close>

definition by_sid :: "env \<Rightarrow> bytes \<Rightarrow> transparent_tx list \<Rightarrow> transparent_tx list" where
  "by_sid E sid txs = filter (\<lambda>tx. tx_short_id E tx = sid) txs"

definition reconstruct_from_mempool ::
  "env \<Rightarrow> bytes list \<Rightarrow> transparent_tx list \<Rightarrow> transparent_tx list \<Rightarrow> transparent_tx option list \<times> nat list" where
  \<comment> \<open>an index is cut to 16 bits\<close>
  "reconstruct_from_mempool E short_ids mempool prefilled =
     (let pick = (\<lambda>sid. case by_sid E sid (mempool @ prefilled) of [tx] \<Rightarrow> Some tx | _ \<Rightarrow> None)
      in (map pick short_ids, map (\<lambda>i. i mod 2 ^ 16) (filter (\<lambda>i. pick (short_ids ! i) = None) [0 ..< length short_ids])))"

definition prune_orphans :: "nat \<Rightarrow> (hash, orphan_block list) hmap \<Rightarrow> (hash, orphan_block list) hmap" where
  "prune_orphans now orph =
     hretain (\<lambda>_ v. v \<noteq> []) (hmap_values (filter (\<lambda>ob. now - inserted_at ob < ORPHAN_TTL)) orph)"

definition wait_for :: "env \<Rightarrow> orphan_block \<Rightarrow> hash \<Rightarrow> hash \<Rightarrow> (hash, orphan_block list) hmap \<Rightarrow> (hash, orphan_block list) hmap" where
  "wait_for E entry h p orph =
     (let waiting = hget_or [] orph p
      in hput p (if list_ex (\<lambda>w. block_hash E (ob_block w) = h) waiting then waiting else waiting @ [entry]) orph)"

definition buffer_orphan :: "net_ctx \<Rightarrow> hash list \<Rightarrow> block \<Rightarrow> hash \<Rightarrow> shared \<Rightarrow> shared" where
  "buffer_orphan X missing b h sh =
     (let orph = prune_orphans (inst X) (orphans sh)
      in if hsum length orph \<ge> MAX_ORPHANS then sh\<lparr>orphans := orph\<rparr>
         else sh\<lparr>orphans := fold (wait_for (nx_env X) \<lparr>ob_block = b, inserted_at = inst X\<rparr> h) missing orph\<rparr>)"

definition our_blue_score :: "shared \<Rightarrow> nat" where
  "our_blue_score sh = selected_tip_blue_score (sh_state sh)"

definition have_block :: "shared \<Rightarrow> hash \<Rightarrow> bool" where
  "have_block sh h = hhas (dag (sh_state sh)) h"

definition hello :: "shared \<Rightarrow> message" where
  "hello sh = Hello PROTOCOL_VERSION WIRE_MAGIC (sh_chain_id sh) (our_blue_score sh) (my_listen_addr sh)"

definition remember_addr :: "net_ctx \<Rightarrow> string \<Rightarrow> shared \<Rightarrow> shared" where
  "remember_addr X addr sh =
     (if \<not> is_dialable_gossip_addr (nx_policy X) (nx_parse_ip X) addr then sh
      else if Some addr = my_listen_addr sh then sh
      else if addr \<in> set (banned_addrs sh) then sh
      else sh\<lparr>known_addrs := (if length (known_addrs sh) < MAX_KNOWN_ADDRS then List.insert addr (known_addrs sh) else known_addrs sh),
              sh_addrman := fst (addrman_add (nx_env X) (nx_parse_ip X) addr ''gossip'' (sh_addrman sh))\<rparr>)"

definition dial :: "net_ctx \<Rightarrow> string \<Rightarrow> shared \<Rightarrow> shared" where
  \<comment> \<open>the reservation is released when the dial fails\<close>
  "dial X addr sh =
     (if \<not> is_dialable_gossip_addr (nx_policy X) (nx_parse_ip X) addr then sh
      else if length (peers sh) \<ge> MAX_PEERS then sh
      else if Some addr = my_listen_addr sh then sh
      else if addr \<in> set (banned_addrs sh) then sh
      else if addr \<in> set (connected_addrs sh) then sh
      else if nx_connects X addr then sh\<lparr>connected_addrs := List.insert addr (connected_addrs sh), dials := dials sh @ [addr]\<rparr>
      else sh\<lparr>connected_addrs := List.remove1 addr (List.insert addr (connected_addrs sh))\<rparr>)"

definition should_fetch :: "shared \<Rightarrow> hash \<Rightarrow> bool" where
  "should_fetch sh h =
     (if have_block sh h then False
      else
        (case verified_pruning_point sh of
           None \<Rightarrow> True
         | Some pp \<Rightarrow>
             let cs = sh_state sh
             in if \<not> hhas (dag cs) pp then True
                else if h \<noteq> pp \<and> is_ancestor (reach cs) h pp (dag cs) then False
                else True))"

definition mark_requested :: "hash \<Rightarrow> (hash, pending_header) hmap \<Rightarrow> (hash, pending_header) hmap" where
  "mark_requested h pending = (case hget pending h of None \<Rightarrow> pending | Some p \<Rightarrow> hput h (p\<lparr>requested := True\<rparr>) pending)"

definition request_block_body :: "net_ctx \<Rightarrow> nat \<Rightarrow> hash \<Rightarrow> shared \<Rightarrow> shared" where
  "request_block_body X conn h sh =
     (if \<not> should_fetch sh h then sh
      else
        let inflight = filter (should_fetch sh) (in_flight_bodies sh)
        in if length inflight \<ge> MAX_IN_FLIGHT_BODIES then sh\<lparr>in_flight_bodies := inflight\<rparr>
           else if h \<in> set inflight then sh\<lparr>in_flight_bodies := inflight\<rparr>
           else send X conn (GetBlock h)
                  (sh\<lparr>in_flight_bodies := h # inflight, pending_headers := mark_requested h (pending_headers sh)\<rparr>))"

definition request_tx_pull :: "net_ctx \<Rightarrow> nat \<Rightarrow> hash \<Rightarrow> bool \<Rightarrow> shared \<Rightarrow> shared" where
  "request_tx_pull X conn h is_utxo sh =
     (if length (in_flight_tx_gets sh) \<ge> MAX_IN_FLIGHT_TX_GETS then sh
      else if h \<in> set (in_flight_tx_gets sh) then sh
      else send X conn (if is_utxo then GetUtxoTx h else GetTx h) (sh\<lparr>in_flight_tx_gets := h # in_flight_tx_gets sh\<rparr>))"

definition clear_body_inflight :: "hash \<Rightarrow> shared \<Rightarrow> shared" where
  "clear_body_inflight h sh = sh\<lparr>in_flight_bodies := removeAll h (in_flight_bodies sh)\<rparr>"

definition clear_tx_inflight :: "hash \<Rightarrow> shared \<Rightarrow> shared" where
  "clear_tx_inflight h sh = sh\<lparr>in_flight_tx_gets := removeAll h (in_flight_tx_gets sh)\<rparr>"

definition relay_utxo :: "net_ctx \<Rightarrow> utxo_tx \<Rightarrow> shared \<Rightarrow> shared \<times> nat" where
  "relay_utxo X tx sh =
     (case admit_utxo_to_mempool (nx_env X) (wall X) tx (sh_state sh) of
        (cs, Inr _) \<Rightarrow> (sh\<lparr>sh_state := cs\<rparr>, 0)
      | (cs, Inl e) \<Rightarrow>
          (sh\<lparr>sh_state := cs\<rparr>,
           if e = ''Invalid signature'' \<or> e = ''Wrong chain_id'' \<or> starts_with ''Invalid'' e \<or> str_contains ''Fee'' e
              \<or> str_contains ''dust'' e \<or> str_contains ''Duplicate input'' e \<or> str_contains ''requires at least'' e
           then INVALID_TX_PENALTY else 0))"

definition relay_transparent :: "net_ctx \<Rightarrow> transparent_tx \<Rightarrow> shared \<Rightarrow> (shared \<times> nat) option" where
  "relay_transparent X tx sh =
     map_option (\<lambda>(cs, r).
        (sh\<lparr>sh_state := cs\<rparr>,
         case r of
           Inr _ \<Rightarrow> 0
         | Inl e \<Rightarrow>
             if e = ''Invalid signature'' \<or> e = ''Wrong chain_id'' \<or> e = ''Insufficient balance'' \<or> starts_with ''Invalid'' e
                \<or> starts_with ''Package nonce depth'' e \<or> str_contains ''Fee'' e \<or> str_contains ''Amount'' e
             then INVALID_TX_PENALTY else 0))
       (admit_transparent_to_mempool (nx_env X) (wall X) tx (sh_state sh))"

fun relay_all :: "net_ctx \<Rightarrow> transparent_tx list \<Rightarrow> shared \<Rightarrow> nat \<Rightarrow> (shared \<times> nat) option" where
  \<comment> \<open>\<open>for tx in txs { ban = ban.saturating_add(self.relay_transparent(tx)) }\<close>\<close>
  "relay_all X [] sh ban = Some (sh, ban)"
| "relay_all X (tx # txs) sh ban =
     (case relay_transparent X tx sh of None \<Rightarrow> None | Some (sh', pen) \<Rightarrow> relay_all X txs sh' (min (ban + pen) u32_max))"

section \<open>Blocks from peers\<close>

definition block_ban_penalty :: "string \<Rightarrow> nat" where
  "block_ban_penalty e = (if str_contains ''STARK'' e then INVALID_STARK_PENALTY else INVALID_BLOCK_PENALTY)"

definition missing_parents :: "shared \<Rightarrow> block \<Rightarrow> hash list" where
  "missing_parents sh b = filter (\<lambda>p. \<not> have_block sh p) (parents b)"

fun backfill :: "net_ctx \<Rightarrow> hash list \<Rightarrow> shared \<Rightarrow> shared" where
  \<comment> \<open>ask every peer for the missing parents, within the budget\<close>
  "backfill X [] sh = sh"
| "backfill X (p # ps) sh =
     (if \<not> should_fetch sh p then backfill X ps sh
      else
        let inflight = filter (should_fetch sh) (in_flight_bodies sh)
        in if length inflight \<ge> MAX_IN_FLIGHT_BODIES then sh\<lparr>in_flight_bodies := inflight\<rparr>
           else if p \<in> set inflight then backfill X ps (sh\<lparr>in_flight_bodies := inflight\<rparr>)
           else backfill X ps (broadcast X (GetBlock p) (sh\<lparr>in_flight_bodies := p # inflight\<rparr>)))"

definition take_children :: "net_ctx \<Rightarrow> hash \<Rightarrow> shared \<Rightarrow> shared \<times> block list" where
  \<comment> \<open>the orphans that waited for a block\<close>
  "take_children X h sh =
     (case hget (orphans sh) h of
        None \<Rightarrow> (sh, [])
      | Some children \<Rightarrow>
          (sh\<lparr>orphans := hdel h (orphans sh)\<rparr>, map ob_block (filter (\<lambda>c. inst X - inserted_at c < ORPHAN_TTL) children)))"

definition add_received :: "net_ctx \<Rightarrow> block \<Rightarrow> bool \<Rightarrow> shared \<Rightarrow> nat \<Rightarrow> (shared \<times> nat \<times> block list) option" where
  \<comment> \<open>\<open>ingest_block\<close> from the write lock on\<close>
  "add_received X b is_direct sh penalty =
     (let h = block_hash (nx_env X) b
      in case add_block (nx_env X) (nx_lab X) (wall X) (nx_pin X) b (sh_state sh) of
           None \<Rightarrow> None
         | Some (cs, Inr _) \<Rightarrow>
             let sh1 = clear_body_inflight h (sh\<lparr>sh_state := cs\<rparr>);
                 sh2 = broadcast_compact_block X b (sh1\<lparr>pending_headers := hdel h (pending_headers sh1)\<rparr>)
             in (case take_children X h sh2 of (sh3, children) \<Rightarrow> Some (sh3, penalty, children))
         | Some (cs, Inl e) \<Rightarrow>
             let sh1 = sh\<lparr>sh_state := cs\<rparr>
             in if str_contains ''Unknown parent'' e
                then
                  let missing = missing_parents sh1 b
                  in Some (fold (\<lambda>p sh. if should_fetch sh p then broadcast X (GetBlock p) sh else sh) missing (buffer_orphan X missing b h sh1), penalty, [])
                else Some (sh1, if is_direct then min (penalty + block_ban_penalty e) u32_max else penalty, []))"

definition ingest_one ::
  "net_ctx \<Rightarrow> block \<Rightarrow> bool \<Rightarrow> shared \<Rightarrow> stark_verify_budget \<Rightarrow> nat \<Rightarrow> (shared \<times> stark_verify_budget \<times> nat \<times> block list) option" where
  \<comment> \<open>one turn of the queue of \<open>ingest_block\<close>; the last component is what it appends to the queue\<close>
  "ingest_one X b is_direct sh budget penalty =
     (let h = block_hash (nx_env X) b
      in if have_block sh h then Some (sh, budget, penalty, [])
         else
           (case precheck_block (nx_env X) (nx_lab X) (sh_state sh) b of
              None \<Rightarrow> None
            | Some (Inl e) \<Rightarrow>
                if str_contains ''Unknown parent'' e
                then let missing = missing_parents sh b in Some (backfill X missing (buffer_orphan X missing b h sh), budget, penalty, [])
                else Some (sh, budget, if is_direct then min (penalty + block_ban_penalty e) u32_max else penalty, [])
            | Some (Inr _) \<Rightarrow>
                (case (if is_direct then try_consume budget (wall X) else (budget, True)) of
                   (budget', False) \<Rightarrow> Some (sh, budget', min (penalty + INVALID_STARK_PENALTY) u32_max, [])
                 | (budget', True) \<Rightarrow>
                     map_option (\<lambda>(sh', penalty', children). (sh', budget', penalty', children)) (add_received X b is_direct sh penalty))))"

partial_function (option) ingest_loop ::
  "net_ctx \<Rightarrow> (block \<times> bool) list \<Rightarrow> shared \<Rightarrow> stark_verify_budget \<Rightarrow> nat \<Rightarrow> (shared \<times> stark_verify_budget \<times> nat) option" where
  \<comment> \<open>the queue, its end first\<close>
  "ingest_loop X queue sh budget penalty =
     (case queue of
        [] \<Rightarrow> Some (sh, budget, penalty)
      | (b, is_direct) # rest \<Rightarrow>
          (case ingest_one X b is_direct sh budget penalty of
             None \<Rightarrow> None
           | Some (sh', budget', penalty', children) \<Rightarrow>
               ingest_loop X (rev (map (\<lambda>c. (c, False)) children) @ rest) sh' budget' penalty'))"

definition ingest_block :: "net_ctx \<Rightarrow> block \<Rightarrow> shared \<Rightarrow> stark_verify_budget \<Rightarrow> (shared \<times> stark_verify_budget \<times> nat) option" where
  "ingest_block X b sh budget = ingest_loop X [(b, True)] sh budget 0"

end
