(* ===== verification/P2p_Node.thy ===== *)
theory P2p_Node
  imports P2p
begin

text \<open>
  The message handlers and the life of a connection, \<open>src/p2p.rs\<close>: \<open>dispatch\<close> with one definition per longer arm, the turns of
  the read loop of \<open>handle_conn\<close> with its ban score, registration and the end of a connection, and the ticks of the
  discovery and announcer threads. The Noise handshake is not modelled: a connection starts with its handshake hash and
  the first message received over it.
\<close>

section \<open>Handlers\<close>

definition on_hello :: "net_ctx \<Rightarrow> nat \<Rightarrow> nat \<Rightarrow> string option \<Rightarrow> shared \<Rightarrow> shared" where
  \<comment> \<open>a compatible greeting\<close>
  "on_hello X conn score listen_addr sh =
     (let sh1 = (case listen_addr of
            None \<Rightarrow> sh
          | Some a \<Rightarrow> let s = remember_addr X a sh in s\<lparr>connected_addrs := List.insert a (connected_addrs s)\<rparr>);
          sh2 = (if score > our_blue_score sh1
            then send X conn GetTips
                   (if verified_pruning_point sh1 = None
                    then send X conn GetMultiLevelPruningProof (send X conn GetPruningProof (sh1\<lparr>expecting_pruning_proof := True\<rparr>))
                    else sh1)
            else sh1)
      in send X conn GetAddr sh2)"

definition on_get_addr :: "net_ctx \<Rightarrow> nat \<Rightarrow> shared \<Rightarrow> shared" where
  "on_get_addr X conn sh =
     (let addrs = take 64 (known_addrs sh) in if addrs \<noteq> [] then send X conn (Addr addrs) sh else sh)"

definition on_addr :: "net_ctx \<Rightarrow> string list \<Rightarrow> shared \<Rightarrow> shared" where
  "on_addr X addrs sh = fold (\<lambda>a sh. dial X a (remember_addr X a sh)) (take MAX_ADDRS_PER_MSG addrs) sh"

definition on_get_block :: "net_ctx \<Rightarrow> nat \<Rightarrow> hash \<Rightarrow> shared \<Rightarrow> shared" where
  "on_get_block X conn h sh =
     (let cs = sh_state sh
      in case hget (dag cs) h of
           None \<Rightarrow> send X conn (NotFound h) sh
         | Some b \<Rightarrow>
             send X conn (MBlock
               (if is_body_pruned cs h then header_only b
                else
                  (case verified_pruning_point sh of
                     None \<Rightarrow> b
                   | Some pp \<Rightarrow>
                       if \<not> archival cs \<and> hhas (dag cs) pp \<and> h \<noteq> pp \<and> is_ancestor (reach cs) h pp (dag cs)
                       then header_only b else b))) sh)"

definition on_get_tx :: "net_ctx \<Rightarrow> nat \<Rightarrow> hash \<Rightarrow> shared \<Rightarrow> shared" where
  "on_get_tx X conn h sh =
     (case find (\<lambda>t. transparent_tx_hash (nx_env X) t = h) (transparent_mempool (sh_state sh)) of
        Some tx \<Rightarrow> send X conn (MTx tx) sh
      | None \<Rightarrow> send X conn (NotFound h) sh)"

definition on_get_utxo_tx :: "net_ctx \<Rightarrow> nat \<Rightarrow> hash \<Rightarrow> shared \<Rightarrow> shared" where
  "on_get_utxo_tx X conn h sh =
     (case find (\<lambda>t. utxo_txid (nx_env X) t = h) (utxo_mempool (sh_state sh)) of
        Some tx \<Rightarrow> send X conn (MUtxoTx tx) sh
      | None \<Rightarrow> send X conn (NotFound h) sh)"

definition store_compact :: "hash \<Rightarrow> compact_entry \<Rightarrow> (hash, compact_entry) hmap \<Rightarrow> (hash, compact_entry) hmap" where
  \<comment> \<open>half of the entries go when there are more than 128\<close>
  "store_compact h entry pending0 =
     (let pending = hput h entry pending0
      in if length pending > 128 then fold hdel (take (length pending div 2) (hkeys pending)) pending else pending)"

definition on_compact_block :: "net_ctx \<Rightarrow> nat \<Rightarrow> hash \<Rightarrow> bytes list \<Rightarrow> transparent_tx list \<Rightarrow> shared \<Rightarrow> shared option" where
  "on_compact_block X conn h short_ids prefilled sh =
     (case relay_all X prefilled sh 0 of
        None \<Rightarrow> None
      | Some (sh1, _) \<Rightarrow>
          (case reconstruct_from_mempool (nx_env X) short_ids (transparent_mempool (sh_state sh1)) prefilled of
             (fl, missing) \<Rightarrow>
               let sh2 = sh1\<lparr>pending_compact := store_compact h \<lparr>pc_short_ids = short_ids, filled = fl\<rparr> (pending_compact sh1)\<rparr>;
                   sh3 = (if missing \<noteq> [] then send X conn (GetBlockTxn h missing) sh2 else sh2)
               in Some (if should_fetch sh3 h then request_block_body X conn h sh3 else sh3)))"

definition on_get_block_txn :: "net_ctx \<Rightarrow> nat \<Rightarrow> hash \<Rightarrow> nat list \<Rightarrow> shared \<Rightarrow> shared" where
  "on_get_block_txn X conn h indexes sh =
     (case hget (dag (sh_state sh)) h of
        None \<Rightarrow> sh
      | Some b \<Rightarrow>
          send X conn (BlockTxn h (map ((!) (transparent_txs b)) (filter (\<lambda>i. i < length (transparent_txs b)) indexes))) sh)"

fun fill_slots :: "env \<Rightarrow> bytes list \<Rightarrow> nat \<Rightarrow> transparent_tx option list \<Rightarrow> transparent_tx list \<Rightarrow> transparent_tx option list" where
  \<comment> \<open>the loop over the slots: an empty one takes the next transaction when the short id is right\<close>
  "fill_slots E short_ids i [] txs = []"
| "fill_slots E short_ids i (Some t # slots) txs = Some t # fill_slots E short_ids (Suc i) slots txs"
| "fill_slots E short_ids i (None # slots) [] = None # fill_slots E short_ids (Suc i) slots []"
| "fill_slots E short_ids i (None # slots) (tx # txs) =
     (if i < length short_ids \<and> tx_short_id E tx = short_ids ! i then Some tx else None) # fill_slots E short_ids (Suc i) slots txs"

definition on_block_txn :: "net_ctx \<Rightarrow> hash \<Rightarrow> transparent_tx list \<Rightarrow> shared \<Rightarrow> (shared \<times> nat) option" where
  "on_block_txn X h txs sh =
     map_option (\<lambda>(sh1, ban).
        (case hget (pending_compact sh1) h of
           None \<Rightarrow> sh1
         | Some e \<Rightarrow> sh1\<lparr>pending_compact := hput h (e\<lparr>filled := fill_slots (nx_env X) (pc_short_ids e) 0 (filled e) txs\<rparr>) (pending_compact sh1)\<rparr>,
         ban))
       (relay_all X txs sh 0)"

fun headers_from :: "dag_map \<Rightarrow> hash \<Rightarrow> hash list \<Rightarrow> block list" where
  \<comment> \<open>stop after \<open>stop_hash\<close>, when it is not zero\<close>
  "headers_from dg stop_hash [] = []"
| "headers_from dg stop_hash (h # hs) =
     (case hget dg h of None \<Rightarrow> [] | Some b \<Rightarrow> [header_only b])
     @ (if h = stop_hash \<and> stop_hash \<noteq> 0 then [] else headers_from dg stop_hash hs)"

definition on_get_headers :: "net_ctx \<Rightarrow> nat \<Rightarrow> hash list \<Rightarrow> hash \<Rightarrow> nat \<Rightarrow> shared \<Rightarrow> shared" where
  "on_get_headers X conn locator stop_hash limit0 sh =
     (let cs = sh_state sh; limit = clamp_nat limit0 1 MAX_HEADERS_PER_MSG; chain = main_chain cs;
          start = (case find (hhas (dag cs)) (take MAX_LOCATOR_HASHES locator) of
             Some h \<Rightarrow> Some h | None \<Rightarrow> if chain = [] then None else Some (hd chain));
          headers = (case start of
             None \<Rightarrow> []
           | Some cur \<Rightarrow>
               if cur \<in> set chain then headers_from (dag cs) stop_hash (take limit (dropWhile (\<lambda>h. h \<noteq> cur) chain)) else [])
      in if headers \<noteq> [] then send X conn (Headers headers) sh else sh)"

definition header_work_units :: "nat \<Rightarrow> nat" where
  "header_work_units d = sat_add128 d 1"

definition path_work :: "chain_state \<Rightarrow> block \<Rightarrow> nat" where
  "path_work cs h =
     sat_add128
       (case List.map_filter (\<lambda>p. map_option b_difficulty (hget (dag cs) p)) (parents h) of
          [] \<Rightarrow> 0 | ds \<Rightarrow> Max (set (map header_work_units ds)))
       (header_work_units (b_difficulty h))"

definition header_fault :: "string \<Rightarrow> bool" where
  "header_fault e \<longleftrightarrow> str_contains ''Invalid proof of work'' e \<or> str_contains ''Wrong difficulty'' e \<or> str_contains ''Duplicate parent'' e
     \<or> str_contains ''Too many parents'' e \<or> str_contains ''no parents'' e \<or> str_contains ''interlinks'' e"

fun check_headers ::
  "net_ctx \<Rightarrow> nat \<Rightarrow> block list \<Rightarrow> shared \<Rightarrow> nat \<Rightarrow> (hash \<times> pending_header) list \<Rightarrow> (shared \<times> nat \<times> (hash \<times> pending_header) list) option" where
  "check_headers X conn [] sh ban acc = Some (sh, ban, acc)"
| "check_headers X conn (h # hs) sh ban acc =
     (if have_block sh (block_hash (nx_env X) h) then check_headers X conn hs sh ban acc
      else
        (case precheck_header (nx_env X) (nx_lab X) (sh_state sh) h of
           None \<Rightarrow> None
         | Some (Inr _) \<Rightarrow>
             check_headers X conn hs sh ban
               (acc @ [(block_hash (nx_env X) h, \<lparr>pd_header = header_only h, pd_work = path_work (sh_state sh) h, requested = False\<rparr>)])
         | Some (Inl e) \<Rightarrow>
             if str_contains ''Unknown parent'' e then check_headers X conn hs (fold (request_block_body X conn) (parents h) sh) ban acc
             else if header_fault e then check_headers X conn hs sh (min (ban + INVALID_BLOCK_PENALTY) u32_max) acc
             else check_headers X conn hs sh ban acc))"

definition or_insert :: "'k \<Rightarrow> 'v \<Rightarrow> ('k, 'v) hmap \<Rightarrow> ('k, 'v) hmap" where
  \<comment> \<open>\<open>m.entry(k).or_insert(v)\<close>\<close>
  "or_insert k v m = (if hhas m k then m else hput k v m)"

definition queue_headers :: "(hash \<times> pending_header) list \<Rightarrow> (hash, pending_header) hmap \<Rightarrow> (hash, pending_header) hmap" where
  \<comment> \<open>the entries with the least work make room\<close>
  "queue_headers acc pending =
     (let overflow = length pending + length acc - MAX_PENDING_HEADERS;
          by_work = sort_key (\<lambda>h. case hget pending h of None \<Rightarrow> 0 | Some p \<Rightarrow> pd_work p) (hkeys pending)
      in fold (\<lambda>(h, p). or_insert h p) acc (fold hdel (take overflow by_work) pending))"

fun request_ranked :: "net_ctx \<Rightarrow> nat \<Rightarrow> hash list \<Rightarrow> shared \<Rightarrow> shared" where
  "request_ranked X conn [] sh = sh"
| "request_ranked X conn (h # hs) sh =
     (if length (in_flight_bodies sh) \<ge> MAX_IN_FLIGHT_BODIES then sh else request_ranked X conn hs (request_block_body X conn h sh))"

definition on_headers :: "net_ctx \<Rightarrow> nat \<Rightarrow> block list \<Rightarrow> shared \<Rightarrow> (shared \<times> nat) option" where
  "on_headers X conn headers sh =
     (if length headers > MAX_HEADERS_PER_MSG then Some (sh, INVALID_BLOCK_PENALTY)
      else
        (case check_headers X conn headers sh 0 [] of
           None \<Rightarrow> None
         | Some (sh1, ban, acc) \<Rightarrow>
             if acc = [] then Some (sh1, ban)
             else
               let sh2 = sh1\<lparr>pending_headers := queue_headers acc (pending_headers sh1)\<rparr>;
                   ranked = map fst (sort_key (\<lambda>(_, p). - int (pd_work p)) (filter (\<lambda>(_, p). \<not> requested p) (pending_headers sh2)))
               in Some (request_ranked X conn ranked sh2, ban)))"

section \<open>Pruning proofs\<close>

definition freshness_ctx :: "net_ctx \<Rightarrow> shared \<Rightarrow> ibd_context" where
  "freshness_ctx X sh =
     (let cs = sh_state sh; tip_h = tip_height cs;
          tip = (if main_chain cs = [] then genesis_hash (nx_env X) else last (main_chain cs))
      in \<lparr>ctx_now_ms = wall X, local_best_work = best_pruning_work sh, local_tip_height = tip_h,
          local_tip_timestamp = (case hget (dag cs) tip of None \<Rightarrow> GENESIS_TIMESTAMP_MS | Some b \<Rightarrow> timestamp b),
          local_past_genesis = (tip_h > 0)\<rparr>)"

definition note_adopted :: "nat \<Rightarrow> hash \<Rightarrow> shared \<Rightarrow> shared" where
  \<comment> \<open>record the work and the pruning point of an imported proof, and expect its ledger\<close>
  "note_adopted work pp sh =
     sh\<lparr>best_pruning_work := max work (best_pruning_work sh), verified_pruning_point := Some pp, expecting_pruning_ledger := True\<rparr>"

definition on_get_multilevel :: "net_ctx \<Rightarrow> nat \<Rightarrow> shared \<Rightarrow> shared option" where
  "on_get_multilevel X conn sh =
     (let cs = sh_state sh; E = nx_env X
      in case (case build_multilevel_pruning_proof E cs PRUNING_PROOF_RECENT_WINDOW of
                 None \<Rightarrow> None
               | Some (Some ml) \<Rightarrow> Some (Some ml)
               | Some None \<Rightarrow> build_multilevel_pruning_proof E cs 2) of
           None \<Rightarrow> None
         | Some (Some ml) \<Rightarrow> Some (send X conn (MMultiLevelPruningProof ml) sh)
         | Some None \<Rightarrow>
             map_option (\<lambda>r. case r of None \<Rightarrow> sh | Some p \<Rightarrow> send X conn (MPruningProof p) sh) (build_pruning_proof E cs))"

definition on_pruning_proof :: "net_ctx \<Rightarrow> nat \<Rightarrow> block list \<Rightarrow> shared \<Rightarrow> (shared \<times> nat) option" where
  "on_pruning_proof X conn hs sh =
     (if \<not> expecting_pruning_proof sh then Some (sh, 0)
      else
        (case verify_pruning_proof (nx_env X) (nx_lab X) (wall X) hs of
           Inl _ \<Rightarrow> Some (sh, INVALID_BLOCK_PENALTY)
         | Inr s \<Rightarrow>
             let tip = last hs
             in if \<not> is_ok (check_ibd_proof_freshness (nx_env X) (block_hash (nx_env X) (hd hs)) (height tip) (timestamp tip)
                       (cumulative_work s) (freshness_ctx X sh))
                then Some (sh\<lparr>expecting_pruning_proof := False\<rparr>, INVALID_BLOCK_PENALTY)
                else if cumulative_work s \<le> best_pruning_work sh then Some (sh\<lparr>expecting_pruning_proof := False\<rparr>, 0)
                else
                  (case import_verified_pruning_headers (nx_env X) hs (sh_state sh) of
                     None \<Rightarrow> None
                   | Some (cs, Inl _) \<Rightarrow> Some (sh\<lparr>sh_state := cs\<rparr>, INVALID_BLOCK_PENALTY)
                   | Some (cs, Inr _) \<Rightarrow>
                       Some (send X conn (GetPruningPointLedger (ps_pruning_point s))
                         (note_adopted (cumulative_work s) (ps_pruning_point s) (sh\<lparr>sh_state := cs, expecting_pruning_proof := False\<rparr>)), 0))))"

definition adopt_multilevel :: "net_ctx \<Rightarrow> block list \<Rightarrow> shared \<Rightarrow> multilevel_summary \<Rightarrow> (shared \<times> bool result) option" where
  \<comment> \<open>the closure passed to \<open>adopt_multilevel_pruning_proof_fresh\<close>\<close>
  "adopt_multilevel X headers sh s =
     (if verified_work s \<le> best_pruning_work sh then Some (sh, Ok False)
      else
        (case import_verified_pruning_headers (nx_env X) headers (sh_state sh) of
           None \<Rightarrow> None
         | Some (cs, Inl e) \<Rightarrow> Some (sh\<lparr>sh_state := cs\<rparr>, Err e)
         | Some (cs, Inr _) \<Rightarrow> Some (note_adopted (verified_work s) (ml_pruning_point s) (sh\<lparr>sh_state := cs\<rparr>), Ok True)))"

definition on_multilevel_proof :: "net_ctx \<Rightarrow> nat \<Rightarrow> multilevel_proof \<Rightarrow> shared \<Rightarrow> (shared \<times> nat) option" where
  "on_multilevel_proof X conn p sh =
     (if \<not> expecting_pruning_proof sh then Some (sh, 0)
      else
        (case adopt_multilevel_pruning_proof_fresh (nx_env X) (nx_lab X) (wall X) p (freshness_ctx X sh)
                (adopt_multilevel X (headers_genesis_first p) sh) of
           Inl _ \<Rightarrow> Some (sh, INVALID_BLOCK_PENALTY)
         | Inr None \<Rightarrow> None
         | Inr (Some (sh1, Inl _)) \<Rightarrow> Some (sh1, INVALID_BLOCK_PENALTY)
         | Inr (Some (sh1, Inr False)) \<Rightarrow> Some (sh1\<lparr>expecting_pruning_proof := False\<rparr>, 0)
         | Inr (Some (sh1, Inr True)) \<Rightarrow>
             let sh2 = sh1\<lparr>expecting_pruning_proof := False\<rparr>
             in Some (case verified_pruning_point sh2 of None \<Rightarrow> sh2 | Some pp \<Rightarrow> send X conn (GetPruningPointLedger pp) sh2, 0)))"

definition on_get_pp_ledger :: "net_ctx \<Rightarrow> nat \<Rightarrow> hash \<Rightarrow> shared \<Rightarrow> shared option" where
  "on_get_pp_ledger X conn pp sh =
     (if pruning_point (sh_state sh) \<noteq> Some pp then Some sh
      else
        map_option (\<lambda>r. case r of None \<Rightarrow> sh | Some l \<Rightarrow> send X conn (MPruningPointLedger l) sh)
          (build_pruning_point_ledger (nx_env X) (sh_state sh)))"

definition on_pp_ledger :: "net_ctx \<Rightarrow> pruning_point_ledger \<Rightarrow> shared \<Rightarrow> shared \<times> nat" where
  "on_pp_ledger X msg sh =
     (if \<not> expecting_pruning_ledger sh then (sh, 0)
      else
        (case adopt_pruning_point_ledger (nx_env X) msg (sh_state sh) of
           (cs, Inl _) \<Rightarrow> (sh\<lparr>sh_state := cs\<rparr>, INVALID_BLOCK_PENALTY)
         | (cs, Inr _) \<Rightarrow> (sh\<lparr>sh_state := cs, expecting_pruning_ledger := False\<rparr>, 0)))"

section \<open>Dispatch\<close>

record conn_state =
  cn_id :: nat
  cn_ip :: "ip_addr option"
  peer_listen :: "string option"
  cn_rate :: rate_window
  cn_budget :: stark_verify_budget
  ban_score :: nat
  last_ban_decay :: nat

definition no_penalty :: "conn_state \<Rightarrow> shared \<Rightarrow> (shared \<times> conn_state \<times> nat) option" where
  "no_penalty c sh = Some (sh, c, 0)"

fun dispatch :: "net_ctx \<Rightarrow> message \<Rightarrow> conn_state \<Rightarrow> shared \<Rightarrow> (shared \<times> conn_state \<times> nat) option" where
  "dispatch X (Hello ver magic cid score listen) c sh =
     (if ver \<noteq> PROTOCOL_VERSION \<or> magic \<noteq> WIRE_MAGIC \<or> cid \<noteq> sh_chain_id sh then Some (sh, c, BAN_SCORE_THRESHOLD)
      else no_penalty (case listen of None \<Rightarrow> c | Some a \<Rightarrow> c\<lparr>peer_listen := Some a\<rparr>) (on_hello X (cn_id c) score listen sh))"
| "dispatch X GetAddr c sh = no_penalty c (on_get_addr X (cn_id c) sh)"
| "dispatch X (Addr addrs) c sh = no_penalty c (on_addr X addrs sh)"
| "dispatch X GetTips c sh = no_penalty c (send X (cn_id c) (Tips (tips (sh_state sh))) sh)"
| "dispatch X (Tips ts) c sh = no_penalty c (fold (request_block_body X (cn_id c)) ts sh)"
| "dispatch X (GetBlock h) c sh = no_penalty c (on_get_block X (cn_id c) h sh)"
| "dispatch X (MBlock b) c sh =
     map_option (\<lambda>(sh1, budget, pen). (clear_body_inflight (block_hash (nx_env X) b) sh1, c\<lparr>cn_budget := budget\<rparr>, pen))
       (ingest_block X b sh (cn_budget c))"
| "dispatch X (Inv h) c sh = no_penalty c (request_block_body X (cn_id c) h sh)"
| "dispatch X (NotFound h) c sh = no_penalty c (clear_tx_inflight h (clear_body_inflight h sh))"
| "dispatch X (MTx tx) c sh =
     map_option (\<lambda>(sh1, pen). (clear_tx_inflight (transparent_tx_hash (nx_env X) tx) sh1, c, pen)) (relay_transparent X tx sh)"
| "dispatch X (TxInv h) c sh =
     no_penalty c (if list_ex (\<lambda>t. transparent_tx_hash (nx_env X) t = h) (transparent_mempool (sh_state sh)) then sh
       else request_tx_pull X (cn_id c) h False sh)"
| "dispatch X (GetTx h) c sh = no_penalty c (on_get_tx X (cn_id c) h sh)"
| "dispatch X (TxPackage txs) c sh = map_option (\<lambda>(sh1, ban). (sh1, c, ban)) (relay_all X (take MAX_TX_PACKAGE txs) sh 0)"
| "dispatch X (MUtxoTx tx) c sh =
     (case relay_utxo X tx sh of (sh1, pen) \<Rightarrow> Some (clear_tx_inflight (utxo_txid (nx_env X) tx) sh1, c, pen))"
| "dispatch X (UtxoTxInv h) c sh =
     no_penalty c (if list_ex (\<lambda>t. utxo_txid (nx_env X) t = h) (utxo_mempool (sh_state sh)) then sh
       else request_tx_pull X (cn_id c) h True sh)"
| "dispatch X (GetUtxoTx h) c sh = no_penalty c (on_get_utxo_tx X (cn_id c) h sh)"
| "dispatch X (CompactBlock h nonce short_ids prefilled) c sh =
     map_option (\<lambda>sh1. (sh1, c, 0)) (on_compact_block X (cn_id c) h short_ids prefilled sh)"
| "dispatch X (GetBlockTxn h indexes) c sh = no_penalty c (on_get_block_txn X (cn_id c) h indexes sh)"
| "dispatch X (BlockTxn h txs) c sh = map_option (\<lambda>(sh1, ban). (sh1, c, ban)) (on_block_txn X h txs sh)"
| "dispatch X (GetHeaders locator stop_hash limit) c sh = no_penalty c (on_get_headers X (cn_id c) locator stop_hash limit sh)"
| "dispatch X (Headers hs) c sh = map_option (\<lambda>(sh1, ban). (sh1, c, ban)) (on_headers X (cn_id c) hs sh)"
| "dispatch X (Ping nonce) c sh = no_penalty c (send X (cn_id c) (Pong nonce) sh)"
| "dispatch X (Pong nonce) c sh = no_penalty c sh"
| "dispatch X GetPruningProof c sh =
     map_option (\<lambda>r. (case r of None \<Rightarrow> sh | Some p \<Rightarrow> send X (cn_id c) (MPruningProof p) sh, c, 0))
       (build_pruning_proof (nx_env X) (sh_state sh))"
| "dispatch X GetMultiLevelPruningProof c sh = map_option (\<lambda>sh1. (sh1, c, 0)) (on_get_multilevel X (cn_id c) sh)"
| "dispatch X (MPruningProof hs) c sh = map_option (\<lambda>(sh1, pen). (sh1, c, pen)) (on_pruning_proof X (cn_id c) hs sh)"
| "dispatch X (MMultiLevelPruningProof p) c sh = map_option (\<lambda>(sh1, pen). (sh1, c, pen)) (on_multilevel_proof X (cn_id c) p sh)"
| "dispatch X (GetPruningPointLedger pp) c sh = map_option (\<lambda>sh1. (sh1, c, 0)) (on_get_pp_ledger X (cn_id c) pp sh)"
| "dispatch X (MPruningPointLedger l) c sh = (case on_pp_ledger X l sh of (sh1, pen) \<Rightarrow> Some (sh1, c, pen))"
| "dispatch X (FeeFilter min_fee) c sh = no_penalty c sh"
| "dispatch X (Identity pubkey signature) c sh = no_penalty c sh"

section \<open>Connections\<close>

definition pq_authenticate :: "net_ctx \<Rightarrow> bytes \<Rightarrow> message option \<Rightarrow> string option \<Rightarrow> bool" where
  \<comment> \<open>the peer's first message, \<open>None\<close> when it could not be read\<close>
  "pq_authenticate X handshake_hash first dialed_addr =
     (case first of
        Some (Identity pubkey signature) \<Rightarrow>
          verify_pq512 (nx_env X) ''p2p-identity'' handshake_hash pubkey signature
          \<and> is_ok (check_peer_identity (nx_pins X) pubkey dialed_addr)
      | _ \<Rightarrow> False)"

definition congestion_fee :: "net_ctx \<Rightarrow> shared \<Rightarrow> nat" where
  "congestion_fee X sh =
     (let cs = sh_state sh
      in if length (utxo_mempool cs) * 4 \<ge> MAX_MEMPOOL_SIZE * 3 \<or> length (transparent_mempool cs) * 4 \<ge> MAX_MEMPOOL_SIZE * 3
         then current_min_relay_fee (nx_env X) cs else 0)"

definition new_conn :: "net_ctx \<Rightarrow> nat \<Rightarrow> ip_addr option \<Rightarrow> string option \<Rightarrow> conn_state" where
  "new_conn X conn peer_ip dialed_addr =
     \<lparr>cn_id = conn, cn_ip = peer_ip, peer_listen = dialed_addr, cn_rate = rate_window_new (peer_msg_limit (nx_policy X)) (inst X),
      cn_budget = stark_budget_new (stark_verifies_per_window (nx_policy X)) (stark_window (nx_policy X)),
      ban_score = 0, last_ban_decay = inst X\<rparr>"

definition open_conn ::
  "net_ctx \<Rightarrow> nat \<Rightarrow> ip_addr option \<Rightarrow> bytes \<Rightarrow> message option \<Rightarrow> string option \<Rightarrow> (bytes \<times> bytes) option \<Rightarrow> shared \<Rightarrow> shared \<times> conn_state option" where
  \<comment> \<open>\<open>handle_conn\<close> up to its loop; \<open>own\<close> is our key and our signature of the handshake hash,
     \<open>None\<close> when signing fails; a refused connection has no state\<close>
  "open_conn X conn peer_ip handshake_hash first dialed_addr own sh =
     (case (case peer_ip of None \<Rightarrow> (ip_bans sh, False) | Some ip \<Rightarrow> is_banned (inst X) ip (ip_bans sh)) of
        (bans, banned) \<Rightarrow>
          let sh0 = sh\<lparr>ip_bans := bans\<rparr>; group = Option.bind peer_ip ip_group
          in if banned then (sh0, None)
             else
               (case own of
                  None \<Rightarrow> (sh0, None)
                | Some (pubkey, signature) \<Rightarrow>
               let sh1 = send X conn (Identity pubkey signature) sh0
               in if \<not> pq_authenticate X handshake_hash first dialed_addr then (sh1, None)
                  else if length (peers sh1) \<ge> MAX_PEERS then (sh1, None)
                  else if (case group of None \<Rightarrow> False | Some g \<Rightarrow> length (filter (\<lambda>p. ph_group p = Some g) (peers sh1)) \<ge> MAX_PEERS_PER_GROUP)
                  then (sh1, None)
                  else
                    let sh2 = sh1\<lparr>peers := peers sh1 @ [\<lparr>ph_group = group, ph_conn = conn, fee_filter = 0\<rparr>]\<rparr>;
                        sh3 = (case dialed_addr of None \<Rightarrow> sh2 | Some a \<Rightarrow> remember_addr X a sh2);
                        sh4 = send X conn (hello sh3) sh3
                    in (send X conn (FeeFilter (congestion_fee X sh4)) sh4, Some (new_conn X conn peer_ip dialed_addr))))"

definition set_fee_filter :: "nat \<Rightarrow> nat \<Rightarrow> shared \<Rightarrow> shared" where
  "set_fee_filter conn f sh = sh\<lparr>peers := map (\<lambda>p. if ph_conn p = conn then p\<lparr>fee_filter := f\<rparr> else p) (peers sh)\<rparr>"

definition ban_peer :: "net_ctx \<Rightarrow> conn_state \<Rightarrow> shared \<Rightarrow> shared" where
  "ban_peer X c sh =
     (let sh1 = (case peer_listen c of
            None \<Rightarrow> sh
          | Some a \<Rightarrow> sh\<lparr>banned_addrs := (if length (banned_addrs sh) < MAX_KNOWN_ADDRS then List.insert a (banned_addrs sh) else banned_addrs sh),
                       known_addrs := removeAll a (known_addrs sh)\<rparr>)
      in case cn_ip c of None \<Rightarrow> sh1 | Some ip \<Rightarrow> sh1\<lparr>ip_bans := ip_ban (inst X) ip (ip_bans sh1)\<rparr>)"

definition close_conn :: "conn_state \<Rightarrow> shared \<Rightarrow> shared" where
  \<comment> \<open>deregister and free the address for redialing\<close>
  "close_conn c sh =
     (let sh1 = sh\<lparr>peers := filter (\<lambda>p. ph_conn p \<noteq> cn_id c) (peers sh)\<rparr>
      in case peer_listen c of None \<Rightarrow> sh1 | Some a \<Rightarrow> sh1\<lparr>connected_addrs := removeAll a (connected_addrs sh1)\<rparr>)"

definition decay_ban :: "net_ctx \<Rightarrow> conn_state \<Rightarrow> conn_state" where
  "decay_ban X c =
     (if inst X - last_ban_decay c \<ge> BAN_DECAY_INTERVAL then c\<lparr>ban_score := ban_score c - BAN_DECAY_POINTS, last_ban_decay := inst X\<rparr> else c)"

definition conn_turn :: "net_ctx \<Rightarrow> (message \<times> nat) option \<Rightarrow> conn_state \<Rightarrow> shared \<Rightarrow> (shared \<times> conn_state \<times> bool) option" where
  \<comment> \<open>one turn of the read loop: the message and its length, \<open>None\<close> for the end of the input or a malformed message;
     the last component says whether the loop goes on\<close>
  "conn_turn X input c0 sh =
     (let c = decay_ban X c0
      in case input of
           None \<Rightarrow> Some (sh, c, False)
         | Some (msg, payload_len) \<Rightarrow>
             if \<not> message_within_type_cap msg payload_len
             then let c1 = c\<lparr>ban_score := min (ban_score c + INVALID_TX_PENALTY) u32_max\<rparr> in Some (sh, c1, ban_score c1 < BAN_SCORE_THRESHOLD)
             else
               (case rate_record (cn_rate c) (inst X) of
                  (w, False) \<Rightarrow> Some (sh, c\<lparr>cn_rate := w\<rparr>, False)
                | (w, True) \<Rightarrow>
                    let sh1 = (case msg of FeeFilter f \<Rightarrow> set_fee_filter (cn_id c) f sh | _ \<Rightarrow> sh)
                    in (case dispatch X msg (c\<lparr>cn_rate := w\<rparr>) sh1 of
                          None \<Rightarrow> None
                        | Some (sh2, c2, pen) \<Rightarrow>
                            let c3 = c2\<lparr>ban_score := min (ban_score c2 + pen) u32_max\<rparr>
                            in if ban_score c3 \<ge> BAN_SCORE_THRESHOLD then Some (ban_peer X c3 sh2, c3, False)
                               else Some (sh2, c3, True))))"

section \<open>Background threads and requests\<close>

definition node_listen :: "string \<Rightarrow> shared \<Rightarrow> shared" where
  "node_listen local_addr sh = sh\<lparr>my_listen_addr := Some local_addr\<rparr>"

definition node_connect :: "net_ctx \<Rightarrow> string \<Rightarrow> shared \<Rightarrow> shared" where
  "node_connect X addr sh =
     (if \<not> nx_connects X addr then sh
      else let sh1 = remember_addr X addr sh in sh1\<lparr>connected_addrs := List.insert addr (connected_addrs sh1), dials := dials sh1 @ [addr]\<rparr>)"

fun dial_candidates :: "net_ctx \<Rightarrow> string list \<Rightarrow> shared \<Rightarrow> shared" where
  "dial_candidates X [] sh = sh"
| "dial_candidates X (a # as) sh = (if length (peers sh) \<ge> MAX_PEERS then sh else dial_candidates X as (dial X a sh))"

definition discovery_tick :: "net_ctx \<Rightarrow> shared \<Rightarrow> shared" where
  "discovery_tick X sh =
     (if length (peers sh) < MAX_PEERS
      then let sh1 = broadcast X GetAddr sh in dial_candidates X (known_addrs sh1) sh1 else sh)"

definition tip_tick :: "net_ctx \<Rightarrow> hash option \<Rightarrow> shared \<Rightarrow> shared \<times> hash option" where
  \<comment> \<open>the tip announced last and the current one\<close>
  "tip_tick X last_tip sh =
     (let tip = selected_tip (ghostdag (sh_state sh)) (tips (sh_state sh))
      in if tip \<noteq> last_tip then (case tip of None \<Rightarrow> sh | Some h \<Rightarrow> broadcast X (Inv h) sh, tip) else (sh, last_tip))"

definition mempool_tick :: "net_ctx \<Rightarrow> hash list \<Rightarrow> hash list \<Rightarrow> shared \<Rightarrow> shared \<times> hash list \<times> hash list" where
  \<comment> \<open>transactions not announced before; then exactly the queued ones count as announced\<close>
  "mempool_tick X announced announced_utxo sh =
     (let cs = sh_state sh; E = nx_env X;
          sh1 = fold (broadcast_tx X) (filter (\<lambda>t. transparent_tx_hash E t \<notin> set announced) (transparent_mempool cs)) sh;
          sh2 = fold (broadcast_utxo_tx X) (filter (\<lambda>t. utxo_txid E t \<notin> set announced_utxo) (utxo_mempool cs)) sh1
      in (sh2, remdups (map (transparent_tx_hash E) (transparent_mempool cs)), remdups (map (utxo_txid E) (utxo_mempool cs))))"

definition request_pruning_proof :: "net_ctx \<Rightarrow> shared \<Rightarrow> shared" where
  "request_pruning_proof X sh =
     broadcast X GetMultiLevelPruningProof (broadcast X GetPruningProof (sh\<lparr>expecting_pruning_proof := True\<rparr>))"

definition request_linear_pruning_proof :: "net_ctx \<Rightarrow> shared \<Rightarrow> shared" where
  "request_linear_pruning_proof X sh = broadcast X GetPruningProof (sh\<lparr>expecting_pruning_proof := True\<rparr>)"

end
