(* ===== verification/P2p_Correct.thy ===== *)
theory P2p_Correct
  imports P2p_Node Net_Policy_Correct Addrman_Correct Account_Pool_Correct
begin

text \<open>
  Correctness of the peer-to-peer node: every table that peers can fill is bounded whatever they send, the chain changes
  only through block admission and mempool admission until a pruning proof is adopted, and the cascade of
  orphans that a block sets free always ends.
\<close>

section \<open>Sending\<close>

lemma send_outbox: "\<exists>ob. send X conn m sh = sh\<lparr>outbox := ob\<rparr>"
proof (cases "length (nx_ser X m) \<le> MAX_MESSAGE_BYTES")
  case False
  then show ?thesis by (intro exI [of _ "outbox sh"]) (simp add: send_def)
qed (auto simp: send_def)

lemma fold_outbox:
  assumes "\<And>x s. x \<in> set xs \<Longrightarrow> \<exists>ob. f x s = s\<lparr>outbox := ob\<rparr>"
  shows "\<exists>ob. fold f xs sh = sh\<lparr>outbox := ob\<rparr>"
  using assms
proof (induction xs arbitrary: sh)
  case Nil
  show ?case by (intro exI [of _ "outbox sh"]) simp
next
  case (Cons x xs)
  obtain ob where ob: "f x sh = sh\<lparr>outbox := ob\<rparr>" using Cons.prems by (meson list.set_intros(1))
  have "\<exists>ob'. fold f xs (sh\<lparr>outbox := ob\<rparr>) = sh\<lparr>outbox := ob, outbox := ob'\<rparr>" by (rule Cons.IH) (simp add: Cons.prems)
  then show ?case using ob by auto
qed

lemma broadcast_outbox: "\<exists>ob. broadcast X m sh = sh\<lparr>outbox := ob\<rparr>"
  unfolding broadcast_def by (rule fold_outbox) (rule send_outbox)

lemma gossip_outbox: "\<exists>ob. gossip X fee ms sh = sh\<lparr>outbox := ob\<rparr>"
  unfolding gossip_def
proof (rule fold_outbox)
  fix p s
  show "\<exists>ob. (if fee_filter p > 0 \<and> fee < fee_filter p then s else fold (send X (ph_conn p)) ms s) = s\<lparr>outbox := ob\<rparr>"
  proof (cases "fee_filter p > 0 \<and> fee < fee_filter p")
    case True
    then show ?thesis by (intro exI [of _ "outbox s"]) simp
  next
    case False
    have "\<exists>ob. fold (send X (ph_conn p)) ms s = s\<lparr>outbox := ob\<rparr>" by (rule fold_outbox) (rule send_outbox)
    then show ?thesis using False by (simp only: if_False)
  qed
qed

section \<open>Bounds\<close>

definition net_ok :: "env \<Rightarrow> (string \<Rightarrow> ip_addr option) \<Rightarrow> shared \<Rightarrow> bool" where
  "net_ok E pip sh \<longleftrightarrow>
     length (peers sh) \<le> MAX_PEERS \<and> distinct (map ph_conn (peers sh))
     \<and> (\<forall>g. length (filter (\<lambda>p. ph_group p = Some g) (peers sh)) \<le> MAX_PEERS_PER_GROUP)
     \<and> hmap_ok (orphans sh) \<and> hsum length (orphans sh) < MAX_ORPHANS + MAX_BLOCK_PARENTS
     \<and> length (known_addrs sh) \<le> MAX_KNOWN_ADDRS \<and> length (banned_addrs sh) \<le> MAX_KNOWN_ADDRS
     \<and> addrman_run E pip (sh_addrman sh)
     \<and> length (pending_compact sh) \<le> 128 \<and> hmap_ok (pending_compact sh)
     \<and> length (pending_headers sh) \<le> MAX_PENDING_HEADERS \<and> hmap_ok (pending_headers sh)
     \<and> length (in_flight_bodies sh) \<le> MAX_IN_FLIGHT_BODIES \<and> distinct (in_flight_bodies sh)
     \<and> length (in_flight_tx_gets sh) \<le> MAX_IN_FLIGHT_TX_GETS \<and> distinct (in_flight_tx_gets sh)"

definition ctx_for :: "env \<Rightarrow> bool \<Rightarrow> (string \<Rightarrow> ip_addr option) \<Rightarrow> net_ctx \<Rightarrow> bool" where
  "ctx_for E lab pip X \<longleftrightarrow> nx_env X = E \<and> nx_lab X = lab \<and> nx_parse_ip X = pip"

lemma net_ok_send [simp]: "net_ok E pip (send X conn m sh) = net_ok E pip sh"
  using send_outbox [of X conn m sh] by (auto simp: net_ok_def)

lemma net_ok_broadcast [simp]: "net_ok E pip (broadcast X m sh) = net_ok E pip sh"
  using broadcast_outbox [of X m sh] by (auto simp: net_ok_def)

lemma net_ok_gossip [simp]: "net_ok E pip (gossip X fee ms sh) = net_ok E pip sh"
  using gossip_outbox [of X fee ms sh] by (auto simp: net_ok_def)

lemma net_ok_other [simp]:
  "net_ok E pip (sh\<lparr>sh_state := cs\<rparr>) = net_ok E pip sh"
  "net_ok E pip (sh\<lparr>connected_addrs := as\<rparr>) = net_ok E pip sh"
  "net_ok E pip (sh\<lparr>dials := ds\<rparr>) = net_ok E pip sh"
  "net_ok E pip (sh\<lparr>expecting_pruning_proof := e\<rparr>) = net_ok E pip sh"
  "net_ok E pip (sh\<lparr>expecting_pruning_ledger := e\<rparr>) = net_ok E pip sh"
  "net_ok E pip (sh\<lparr>best_pruning_work := w\<rparr>) = net_ok E pip sh"
  "net_ok E pip (sh\<lparr>verified_pruning_point := vp\<rparr>) = net_ok E pip sh"
  "net_ok E pip (sh\<lparr>my_listen_addr := la\<rparr>) = net_ok E pip sh"
  "net_ok E pip (sh\<lparr>ip_bans := bl\<rparr>) = net_ok E pip sh"
  by (simp_all add: net_ok_def)

lemma net_ok_bodies:
  assumes "net_ok E pip sh" and "length bs \<le> MAX_IN_FLIGHT_BODIES" and "distinct bs"
  shows "net_ok E pip (sh\<lparr>in_flight_bodies := bs\<rparr>)"
  using assms by (simp add: net_ok_def)

lemma net_ok_pending:
  assumes "net_ok E pip sh" and "length ps \<le> MAX_PENDING_HEADERS" and "hmap_ok ps"
  shows "net_ok E pip (sh\<lparr>pending_headers := ps\<rparr>)"
  using assms by (simp add: net_ok_def)

lemma net_ok_compact:
  assumes "net_ok E pip sh" and "length ps \<le> 128" and "hmap_ok ps"
  shows "net_ok E pip (sh\<lparr>pending_compact := ps\<rparr>)"
  using assms by (simp add: net_ok_def)

lemma net_ok_orphans:
  assumes "net_ok E pip sh" and "hsum length os < MAX_ORPHANS + MAX_BLOCK_PARENTS" and "hmap_ok os"
  shows "net_ok E pip (sh\<lparr>orphans := os\<rparr>)"
  using assms by (simp add: net_ok_def)

lemma net_ok_peers:
  assumes "net_ok E pip sh" and "length ps \<le> MAX_PEERS" and "distinct (map ph_conn ps)"
    and "\<And>g. length (filter (\<lambda>p. ph_group p = Some g) ps) \<le> MAX_PEERS_PER_GROUP"
  shows "net_ok E pip (sh\<lparr>peers := ps\<rparr>)"
  using assms by (simp add: net_ok_def)

lemma net_ok_addrs:
  assumes "net_ok E pip sh" and "length bs \<le> MAX_KNOWN_ADDRS" and "length ks \<le> MAX_KNOWN_ADDRS"
  shows "net_ok E pip (sh\<lparr>banned_addrs := bs, known_addrs := ks\<rparr>)"
  using assms by (simp add: net_ok_def)

lemma net_okD:
  assumes "net_ok E pip sh"
  shows "length (in_flight_bodies sh) \<le> MAX_IN_FLIGHT_BODIES" "distinct (in_flight_bodies sh)"
    "length (pending_headers sh) \<le> MAX_PENDING_HEADERS" "hmap_ok (pending_headers sh)"
    "length (pending_compact sh) \<le> 128" "hmap_ok (pending_compact sh)"
    "hmap_ok (orphans sh)" "hsum length (orphans sh) < MAX_ORPHANS + MAX_BLOCK_PARENTS"
    "length (peers sh) \<le> MAX_PEERS" "distinct (map ph_conn (peers sh))"
    "length (filter (\<lambda>p. ph_group p = Some g) (peers sh)) \<le> MAX_PEERS_PER_GROUP"
    "length (known_addrs sh) \<le> MAX_KNOWN_ADDRS" "length (banned_addrs sh) \<le> MAX_KNOWN_ADDRS"
  using assms by (simp_all add: net_ok_def)

lemma length_insert_le: "length (List.insert a xs) \<le> Suc (length xs)"
  by (simp add: List.insert_def)

lemma remember_addr_ok: "net_ok E pip sh \<Longrightarrow> ctx_for E lab pip X \<Longrightarrow> net_ok E pip (remember_addr X a sh)"
  using addrman_run.add [of E pip "sh_addrman sh" a "''gossip''"] length_insert_le [of a "known_addrs sh"]
  by (auto simp: remember_addr_def net_ok_def ctx_for_def prod_eq_iff)

lemma dial_ok: "net_ok E pip sh \<Longrightarrow> net_ok E pip (dial X a sh)"
  by (simp add: dial_def)

lemma mark_requested_ok [simp]:
  "hmap_ok ps \<Longrightarrow> hmap_ok (mark_requested h ps)" "length (mark_requested h ps) = length ps"
  by (auto simp: mark_requested_def length_hput hhas_def split: option.splits)

lemma request_block_body_ok:
  assumes "net_ok E pip sh"
  shows "net_ok E pip (request_block_body X conn h sh)"
proof -
  define fl where "fl = filter (should_fetch sh) (in_flight_bodies sh)"
  have fl: "length fl \<le> MAX_IN_FLIGHT_BODIES" "distinct fl"
    using net_okD(1,2) [OF assms] le_trans [OF length_filter_le] by (auto simp: fl_def)
  show ?thesis
    using assms fl net_okD(3,4) [OF assms]
    by (auto simp: request_block_body_def fl_def [symmetric] Let_def intro!: net_ok_bodies net_ok_pending)
qed

lemma request_tx_pull_ok: "net_ok E pip sh \<Longrightarrow> net_ok E pip (request_tx_pull X conn h u sh)"
  by (auto simp: request_tx_pull_def) (auto simp: net_ok_def)

lemma clear_inflight_ok:
  "net_ok E pip sh \<Longrightarrow> net_ok E pip (clear_body_inflight h sh)"
  "net_ok E pip sh \<Longrightarrow> net_ok E pip (clear_tx_inflight h sh)"
  by (auto simp: clear_body_inflight_def clear_tx_inflight_def net_ok_def removeAll_filter_not_eq intro: le_trans [OF length_filter_le])

lemma fold_net_ok:
  assumes "\<And>x s. x \<in> set xs \<Longrightarrow> net_ok E pip s \<Longrightarrow> net_ok E pip (f x s)"
  shows "net_ok E pip sh \<Longrightarrow> net_ok E pip (fold f xs sh)"
  using assms by (induction xs arbitrary: sh) auto

lemma relay_utxo_ok: "net_ok E pip sh \<Longrightarrow> net_ok E pip (fst (relay_utxo X tx sh))"
  by (auto simp: relay_utxo_def split: prod.splits sum.splits)

lemma relay_transparent_eq: "relay_transparent X tx sh = Some (sh, 0)"
  by (simp add: relay_transparent_def admit_transparent_refused starts_with_def)

lemma relay_all_eq: "relay_all X txs sh ban = Some (sh, min ban u32_max) \<or> relay_all X txs sh ban = Some (sh, ban)"
proof (induction txs arbitrary: ban)
  case (Cons tx txs)
  then show ?case using Cons.IH [of "min ban u32_max"] by (auto simp: relay_transparent_eq)
qed simp

section \<open>Orphans\<close>

lemma prune_orphans_sum: "hsum length (prune_orphans now orph) \<le> hsum length orph"
proof -
  have "hsum length (hretain P (hmap_values (filter Q) orph)) \<le> hsum length orph" for P and Q :: "orphan_block \<Rightarrow> bool"
    by (induction orph) (auto simp: hretain_def hmap_values_def hsum_def intro: add_mono le_trans [OF length_filter_le] trans_le_add2)
  then show ?thesis by (simp add: prune_orphans_def)
qed

lemma prune_orphans_ok: "hmap_ok orph \<Longrightarrow> hmap_ok (prune_orphans now orph)"
  by (simp add: prune_orphans_def hmap_ok_hretain)

lemma wait_for_ok:
  assumes "hmap_ok orph"
  shows "hmap_ok (wait_for E entry h p orph)" "hsum length (wait_for E entry h p orph) \<le> Suc (hsum length orph)"
proof -
  show "hmap_ok (wait_for E entry h p orph)" using assms by (simp add: wait_for_def Let_def)
  show "hsum length (wait_for E entry h p orph) \<le> Suc (hsum length orph)"
    using hsum_hput [OF assms, of length p "hget_or [] orph p"] hsum_hput [OF assms, of length p "hget_or [] orph p @ [entry]"]
    by (auto simp: wait_for_def Let_def hget_or_def split: option.splits)
qed

lemma wait_for_all_ok:
  "hmap_ok orph \<Longrightarrow> hmap_ok (fold (wait_for E entry h) ps orph) \<and> hsum length (fold (wait_for E entry h) ps orph) \<le> hsum length orph + length ps"
proof (induction ps arbitrary: orph)
  case (Cons p ps)
  show ?case using Cons.IH [OF wait_for_ok(1) [OF Cons.prems, of E entry h p]] wait_for_ok(2) [OF Cons.prems, of E entry h p] by simp
qed simp

lemma buffer_orphan_ok:
  assumes ok: "net_ok E pip sh" and "length missing \<le> MAX_BLOCK_PARENTS"
  shows "net_ok E pip (buffer_orphan X missing b h sh)"
proof -
  define orph where "orph = prune_orphans (inst X) (orphans sh)"
  have o: "hmap_ok orph" "hsum length orph \<le> hsum length (orphans sh)"
    using net_okD(7) [OF ok] prune_orphans_ok prune_orphans_sum by (simp_all add: orph_def)
  note w = wait_for_all_ok [OF o(1), of "nx_env X" "\<lparr>ob_block = b, inserted_at = inst X\<rparr>" h missing]
  show ?thesis
    unfolding buffer_orphan_def orph_def [symmetric] Let_def
    using ok o w assms(2) net_okD(8) [OF ok] by (auto intro!: net_ok_orphans)
qed

lemma backfill_ok: "net_ok E pip sh \<Longrightarrow> net_ok E pip (backfill X ps sh)"
proof (induction X ps sh rule: backfill.induct)
  case (2 X p ps sh)
  define fl where "fl = filter (should_fetch sh) (in_flight_bodies sh)"
  have fl: "length fl \<le> MAX_IN_FLIGHT_BODIES" "distinct fl"
    using net_okD(1,2) [OF "2.prems"] le_trans [OF length_filter_le] by (auto simp: fl_def)
  have b: "net_ok E pip (sh\<lparr>in_flight_bodies := fl\<rparr>)" by (rule net_ok_bodies [OF "2.prems" fl])
  have c: "net_ok E pip (sh\<lparr>in_flight_bodies := p # fl\<rparr>)" if "p \<notin> set fl" "length fl < MAX_IN_FLIGHT_BODIES"
    by (rule net_ok_bodies [OF "2.prems"]) (use that fl in auto)
  show ?case using "2.IH" "2.prems" b c by (auto simp: fl_def [symmetric] Let_def)
qed simp

lemma take_children_ok: "net_ok E pip sh \<Longrightarrow> net_ok E pip (fst (take_children X h sh))"
  by (auto simp: take_children_def split: option.splits intro!: net_ok_orphans dest: net_okD)
    (metis hsum_hdel le_add1 le_less_trans net_okD(7,8))

lemma hdel_le: "length (hdel k m) \<le> length m"
  by (rule length_delete_le)

lemma length_missing: "length (missing_parents sh b) \<le> length (parents b)"
  by (simp add: missing_parents_def)

lemma add_received_ok:
  assumes ok: "net_ok E pip sh" and ps: "length (parents b) \<le> MAX_BLOCK_PARENTS" and r: "add_received X b d sh pen = Some (sh', pen', ch)"
  shows "net_ok E pip sh'"
proof -
  obtain cs res where a: "add_block (nx_env X) (nx_lab X) (wall X) (nx_pin X) b (sh_state sh) = Some (cs, res)"
    using r by (auto simp: add_received_def Let_def split: option.splits)
  define h where "h = block_hash (nx_env X) b"
  show ?thesis
  proof (cases res)
    case (Inr u)
    define sh1 where "sh1 = clear_body_inflight h (sh\<lparr>sh_state := cs\<rparr>)"
    define sh2 where "sh2 = sh1\<lparr>pending_headers := hdel h (pending_headers sh1)\<rparr>"
    have 1: "net_ok E pip sh1" using ok by (simp add: sh1_def clear_inflight_ok)
    have "net_ok E pip sh2" unfolding sh2_def
      by (rule net_ok_pending [OF 1]) (use net_okD(3,4) [OF 1] le_trans [OF hdel_le] in auto)
    then have "net_ok E pip (broadcast_compact_block X b sh2)" by (simp add: broadcast_compact_block_def Let_def)
    from take_children_ok [OF this, of X h] show ?thesis
      using r a Inr by (auto simp: add_received_def Let_def h_def sh1_def sh2_def split: prod.splits)
  next
    case (Inl e)
    define sh1 where "sh1 = sh\<lparr>sh_state := cs\<rparr>"
    have 1: "net_ok E pip sh1" using ok by (simp add: sh1_def)
    have "net_ok E pip (buffer_orphan X (missing_parents sh1 b) b h sh1)"
      by (rule buffer_orphan_ok [OF 1]) (use ps length_missing [of sh1 b] in simp)
    then have "net_ok E pip (fold (\<lambda>p sh. if should_fetch sh p then broadcast X (GetBlock p) sh else sh) (missing_parents sh1 b)
        (buffer_orphan X (missing_parents sh1 b) b h sh1))"
      by (rule fold_net_ok [rotated]) simp
    then show ?thesis using r a Inl 1 by (auto simp: add_received_def Let_def h_def sh1_def split: if_splits)
  qed
qed

lemma precheck_parents:
  assumes "precheck_block E lab cs b = Some r" and "r = Ok () \<or> (\<exists>e. r = Err e \<and> str_contains ''Unknown parent'' e)"
  shows "length (parents b) \<le> MAX_BLOCK_PARENTS"
  using assms by (auto simp: precheck_block_def split: if_splits)

lemma ingest_one_ok:
  assumes ok: "net_ok E pip sh" and r: "ingest_one X b d sh budget pen = Some (sh', budget', pen', ch)"
  shows "net_ok E pip sh'"
proof (cases "have_block sh (block_hash (nx_env X) b)")
  case True
  then show ?thesis using r ok by (simp add: ingest_one_def)
next
  case False
  then obtain res where p: "precheck_block (nx_env X) (nx_lab X) (sh_state sh) b = Some res"
    using r by (auto simp: ingest_one_def Let_def split: option.splits)
  show ?thesis
  proof (cases res)
    case (Inl e)
    have "net_ok E pip (backfill X (missing_parents sh b) (buffer_orphan X (missing_parents sh b) b (block_hash (nx_env X) b) sh))"
      if "str_contains ''Unknown parent'' e"
      by (intro backfill_ok buffer_orphan_ok ok le_trans [OF length_missing] precheck_parents [OF p]) (use Inl that in auto)
    then show ?thesis using r ok p Inl False by (auto simp: ingest_one_def Let_def split: if_splits)
  next
    case (Inr u)
    have ps: "length (parents b) \<le> MAX_BLOCK_PARENTS" using precheck_parents [OF p] Inr by simp
    show ?thesis using r ok p Inr False add_received_ok [OF ok ps]
      by (auto simp: ingest_one_def Let_def split: if_splits prod.splits bool.splits)
  qed
qed

lemma ingest_loop_ok:
  assumes "ingest_loop X queue sh budget pen = Some r"
  shows "net_ok E pip sh \<longrightarrow> net_ok E pip (fst r)"
proof (rule ingest_loop.raw_induct [OF _ assms, where P = "\<lambda>X queue sh budget pen r. net_ok E pip sh \<longrightarrow> net_ok E pip (fst r)"])
  fix loop X queue sh budget pen r
  assume IH: "\<And>X queue sh budget pen r. loop X queue sh budget pen = Some r \<Longrightarrow> net_ok E pip sh \<longrightarrow> net_ok E pip (fst r)"
    and r: "(case queue of [] \<Rightarrow> Some (sh, budget, pen)
        | (b, is_direct) # rest \<Rightarrow>
          (case ingest_one X b is_direct sh budget pen of None \<Rightarrow> None
           | Some (sh', budget', penalty', chs) \<Rightarrow> loop X (rev (map (\<lambda>c. (c, False)) chs) @ rest) sh' budget' penalty')) = Some r"
  show "net_ok E pip sh \<longrightarrow> net_ok E pip (fst r)"
    using r IH ingest_one_ok [of E pip sh X] by (auto split: list.splits prod.splits option.splits)
qed

section \<open>Handlers keep the bounds\<close>

lemma on_hello_ok: "net_ok E pip sh \<Longrightarrow> ctx_for E lab pip X \<Longrightarrow> net_ok E pip (on_hello X conn score la sh)"
  by (auto simp: on_hello_def Let_def remember_addr_ok split: option.splits)

lemma on_addr_ok: "net_ok E pip sh \<Longrightarrow> ctx_for E lab pip X \<Longrightarrow> net_ok E pip (on_addr X addrs sh)"
  unfolding on_addr_def by (rule fold_net_ok) (auto intro: dial_ok remember_addr_ok)

lemma fold_hdel: "length (fold hdel ks m) \<le> length m" "hmap_ok m \<Longrightarrow> hmap_ok (fold hdel ks m)"
  by (induction ks arbitrary: m) (auto intro: le_trans [OF _ hdel_le])

lemma length_hdel: "hmap_ok m \<Longrightarrow> hhas m k \<Longrightarrow> Suc (length (hdel k m)) = length m"
proof (induction m)
  case (Cons e m)
  obtain a b where e: "e = (a, b)" by (cases e)
  have m: "hmap_ok m" "\<not> hhas m a" using Cons.prems(1) e by (auto simp: hmap_ok_def hhas_iff)
  show ?case
  proof (cases "a = k")
    case True
    then have "hdel k m = m" using m by (simp add: hhas_iff AList.delete_notin_dom) 
    then show ?thesis using e True by simp
  next
    case False
    then have "hhas m k" using Cons.prems(2) e by (simp add: hhas_iff)
    then show ?thesis using Cons.IH [OF m(1)] False e by simp
  qed
qed (simp add: hhas_def)

lemma length_fold_hdel:
  "hmap_ok m \<Longrightarrow> distinct ks \<Longrightarrow> set ks \<subseteq> set (hkeys m) \<Longrightarrow> length (fold hdel ks m) + length ks = length m"
proof (induction ks arbitrary: m)
  case (Cons k ks)
  have "length (fold hdel ks (hdel k m)) + length ks = length (hdel k m)"
    by (rule Cons.IH) (use Cons.prems in \<open>auto simp: delete_keys\<close>)
  moreover have "hhas m k" using Cons.prems(3) by (simp add: hhas_iff)
  ultimately show ?case using length_hdel [OF Cons.prems(1)] by simp
qed simp

lemma store_compact_ok:
  assumes "hmap_ok m" and "length m \<le> 128"
  shows "hmap_ok (store_compact h e m)" "length (store_compact h e m) \<le> 128"
proof -
  define p where "p = hput h e m"
  have p: "hmap_ok p" "length p \<le> 129" using assms by (simp_all add: p_def length_hput)
  show "hmap_ok (store_compact h e m)" using p(1) fold_hdel(2) by (auto simp: store_compact_def p_def [symmetric] Let_def)
  have "length (fold hdel (take (length p div 2) (hkeys p)) p) + length (take (length p div 2) (hkeys p)) = length p"
    by (rule length_fold_hdel [OF p(1)]) (use p(1) in \<open>auto simp: hmap_ok_def dest: in_set_takeD\<close>)
  then show "length (store_compact h e m) \<le> 128" using p(2) by (auto simp: store_compact_def p_def [symmetric] Let_def)
qed

lemma on_compact_block_ok: "on_compact_block X conn h sids pre sh = Some sh' \<Longrightarrow> net_ok E pip sh \<Longrightarrow> net_ok E pip sh'"
proof -
  assume r: "on_compact_block X conn h sids pre sh = Some sh'" and ok: "net_ok E pip sh"
  obtain ban where a: "relay_all X pre sh 0 = Some (sh, ban)" using relay_all_eq [of X pre sh 0] by auto
  obtain fl missing where f: "reconstruct_from_mempool (nx_env X) sids (transparent_mempool (sh_state sh)) pre = (fl, missing)" by fastforce
  define sh2 where "sh2 = sh\<lparr>pending_compact := store_compact h \<lparr>pc_short_ids = sids, filled = fl\<rparr> (pending_compact sh)\<rparr>"
  have "net_ok E pip sh2" unfolding sh2_def
    by (rule net_ok_compact [OF ok]) (use net_okD(5,6) [OF ok] store_compact_ok in auto)
  then show ?thesis using r a f by (auto simp: on_compact_block_def Let_def sh2_def [symmetric] request_block_body_ok)
qed

lemma on_block_txn_ok: "on_block_txn X h txs sh = Some (sh', ban) \<Longrightarrow> net_ok E pip sh \<Longrightarrow> net_ok E pip sh'"
  using relay_all_eq [of X txs sh 0] net_okD(5,6) [of E pip sh]
  by (auto simp: on_block_txn_def length_hput hhas_def split: option.splits intro!: net_ok_compact)

lemma check_headers_ok:
  "check_headers X conn hs sh ban acc = Some (sh', ban', acc') \<Longrightarrow> net_ok E pip sh
    \<Longrightarrow> net_ok E pip sh' \<and> length acc' \<le> length acc + length hs"
proof (induction X conn hs sh ban acc rule: check_headers.induct)
  case (2 X conn h hs sh ban acc)
  have f: "net_ok E pip (fold (request_block_body X conn) (parents h) sh)"
    using "2.prems"(2) by (rule fold_net_ok [rotated]) (rule request_block_body_ok)
  show ?case
  proof (cases "have_block sh (block_hash (nx_env X) h)")
    case True
    then show ?thesis using 2 by force
  next
    case False
    then obtain r where r: "precheck_header (nx_env X) (nx_lab X) (sh_state sh) h = Some r" using "2.prems"(1) by (auto split: option.splits)
    show ?thesis
    proof (cases r)
      case (Inr u)
      then show ?thesis using "2.IH"(5) [OF False r Inr] "2.prems" False r by force
    next
      case (Inl e)
      consider "str_contains ''Unknown parent'' e" | "\<not> str_contains ''Unknown parent'' e" "header_fault e"
        | "\<not> str_contains ''Unknown parent'' e" "\<not> header_fault e" by blast
      then show ?thesis
      proof cases
        case 1
        then show ?thesis using "2.IH"(2) [OF False r Inl 1 _ f] "2.prems"(1) False r Inl by force
      next
        case c: 2
        then show ?thesis using "2.IH"(3) [OF False r Inl c _ "2.prems"(2)] "2.prems"(1) False r Inl by force
      next
        case c: 3
        then show ?thesis using "2.IH"(4) [OF False r Inl c _ "2.prems"(2)] "2.prems"(1) False r Inl by force
      qed
    qed
  qed
qed simp

lemma fold_or_insert:
  "hmap_ok m \<Longrightarrow> hmap_ok (fold (\<lambda>(h, p). or_insert h p) acc m) \<and> length (fold (\<lambda>(h, p). or_insert h p) acc m) \<le> length m + length acc"
proof (induction acc arbitrary: m)
  case (Cons e acc)
  obtain h p where e: "e = (h, p)" by (cases e)
  have "hmap_ok (or_insert h p m)" "length (or_insert h p m) \<le> Suc (length m)"
    using Cons.prems by (auto simp: or_insert_def length_hput)
  then show ?case using Cons.IH [of "or_insert h p m"] e by auto
qed simp

lemma queue_headers_ok:
  assumes m: "hmap_ok m" "length m \<le> MAX_PENDING_HEADERS" and acc: "length acc \<le> MAX_HEADERS_PER_MSG"
  shows "hmap_ok (queue_headers acc m) \<and> length (queue_headers acc m) \<le> MAX_PENDING_HEADERS"
proof -
  define ks where "ks = take (length m + length acc - MAX_PENDING_HEADERS)
    (sort_key (\<lambda>h. case hget m h of None \<Rightarrow> 0 | Some p \<Rightarrow> pd_work p) (hkeys m))"
  have ks: "distinct ks" "set ks \<subseteq> set (hkeys m)" using m(1) by (auto simp: ks_def hmap_ok_def dest: in_set_takeD)
  have lk: "length ks = min (length m) (length m + length acc - MAX_PENDING_HEADERS)" by (simp add: ks_def)
  have "length (fold hdel ks m) + length ks = length m" by (rule length_fold_hdel [OF m(1) ks])
  then have "length (fold hdel ks m) + length acc \<le> MAX_PENDING_HEADERS"
    using lk m(2) acc by (auto simp: MAX_PENDING_HEADERS_def MAX_HEADERS_PER_MSG_def)
  then show ?thesis
    using fold_or_insert [OF fold_hdel(2) [OF m(1), of ks], of acc] by (auto simp: queue_headers_def ks_def [symmetric] Let_def)
qed

lemma request_ranked_ok: "net_ok E pip sh \<Longrightarrow> net_ok E pip (request_ranked X conn hs sh)"
  by (induction X conn hs sh rule: request_ranked.induct) (auto intro: request_block_body_ok)

lemma on_headers_ok:
  assumes r: "on_headers X conn hs sh = Some (sh', pen)" and ok: "net_ok E pip sh"
  shows "net_ok E pip sh'"
proof (cases "length hs > MAX_HEADERS_PER_MSG")
  case True
  then show ?thesis using r ok by (simp add: on_headers_def)
next
  case False
  obtain sh1 ban acc where c: "check_headers X conn hs sh 0 [] = Some (sh1, ban, acc)"
    using r False by (auto simp: on_headers_def split: option.splits)
  have 1: "net_ok E pip sh1" "length acc \<le> MAX_HEADERS_PER_MSG" using check_headers_ok [OF c ok] False by auto
  have "net_ok E pip (sh1\<lparr>pending_headers := queue_headers acc (pending_headers sh1)\<rparr>)"
    by (rule net_ok_pending [OF 1(1)]) (use queue_headers_ok [OF net_okD(4,3) [OF 1(1)] 1(2)] in auto)
  then show ?thesis using r c False 1(1) by (auto simp: on_headers_def Let_def request_ranked_ok split: if_splits)
qed

lemma pruning_handlers_ok:
  assumes ok: "net_ok E pip sh"
  shows "on_get_multilevel X conn sh = Some sh' \<Longrightarrow> net_ok E pip sh'"
    "on_pruning_proof X conn hs sh = Some (sh', pen) \<Longrightarrow> net_ok E pip sh'"
    "on_multilevel_proof X conn p sh = Some (sh', pen) \<Longrightarrow> net_ok E pip sh'"
    "on_get_pp_ledger X conn pp sh = Some sh' \<Longrightarrow> net_ok E pip sh'"
    "net_ok E pip (fst (on_pp_ledger X l sh))"
proof -
  show "on_get_multilevel X conn sh = Some sh' \<Longrightarrow> net_ok E pip sh'"
    using ok by (auto simp: on_get_multilevel_def Let_def split: option.splits)
  show "on_pruning_proof X conn hs sh = Some (sh', pen) \<Longrightarrow> net_ok E pip sh'"
    using ok by (auto simp: on_pruning_proof_def note_adopted_def Let_def split: option.splits sum.splits prod.splits if_splits)
  have a: "net_ok E pip sh1" if "adopt_multilevel X hs' sh s = Some (sh1, r)" for hs' s sh1 r
    using that ok by (auto simp: adopt_multilevel_def note_adopted_def split: option.splits sum.splits prod.splits if_splits)
  show "on_multilevel_proof X conn p sh = Some (sh', pen) \<Longrightarrow> net_ok E pip sh'"
    using ok a by (fastforce simp: on_multilevel_proof_def adopt_multilevel_pruning_proof_fresh_def Let_def
        split: option.splits sum.splits prod.splits if_splits bool.splits)
  show "on_get_pp_ledger X conn pp sh = Some sh' \<Longrightarrow> net_ok E pip sh'"
    using ok by (auto simp: on_get_pp_ledger_def split: option.splits if_splits)
  show "net_ok E pip (fst (on_pp_ledger X l sh))"
    using ok by (auto simp: on_pp_ledger_def split: prod.splits sum.splits)
qed

lemma dispatch_ok:
  assumes "dispatch X msg c sh = Some (sh', c', pen)" and ok: "net_ok E pip sh" and X: "ctx_for E lab pip X"
  shows "net_ok E pip sh'"
proof (cases msg)
  case (Hello ver magic cid score la)
  then show ?thesis using assms(1) ok on_hello_ok [OF ok X] by (auto simp: no_penalty_def split: if_splits option.splits)
next
  case GetAddr
  then show ?thesis using assms(1) ok by (auto simp: no_penalty_def on_get_addr_def Let_def)
next
  case (Addr as)
  then show ?thesis using assms(1) on_addr_ok [OF ok X] by (auto simp: no_penalty_def)
next
  case (Tips ts)
  have "net_ok E pip (fold (request_block_body X (cn_id c)) ts sh)" using ok by (rule fold_net_ok [rotated]) (rule request_block_body_ok)
  then show ?thesis using assms(1) Tips by (auto simp: no_penalty_def)
next
  case (GetBlock h)
  then show ?thesis using assms(1) ok by (auto simp: no_penalty_def on_get_block_def Let_def split: option.splits)
next
  case (MBlock b)
  then show ?thesis using assms(1) ok ingest_loop_ok [of X "[(b, True)]" sh "cn_budget c" 0 _ E pip]
    by (fastforce simp: ingest_block_def clear_inflight_ok)
next
  case (GetTx h)
  then show ?thesis using assms(1) ok by (auto simp: no_penalty_def on_get_tx_def split: option.splits)
next
  case (TxPackage txs)
  then show ?thesis using assms(1) ok relay_all_eq [of X "take MAX_TX_PACKAGE txs" sh 0] by auto
next
  case (MUtxoTx tx)
  then show ?thesis using assms(1) relay_utxo_ok [OF ok, of X tx] by (auto simp: clear_inflight_ok split: prod.splits)
next
  case (GetUtxoTx h)
  then show ?thesis using assms(1) ok by (auto simp: no_penalty_def on_get_utxo_tx_def split: option.splits)
next
  case (CompactBlock h n sids pre)
  then show ?thesis using assms(1) ok by (auto dest: on_compact_block_ok)
next
  case (GetBlockTxn h ixs)
  then show ?thesis using assms(1) ok by (auto simp: no_penalty_def on_get_block_txn_def split: option.splits)
next
  case (BlockTxn h txs)
  then show ?thesis using assms(1) ok by (auto dest: on_block_txn_ok)
next
  case (GetHeaders loc stop lim)
  then show ?thesis using assms(1) ok by (auto simp: no_penalty_def on_get_headers_def Let_def)
next
  case (Headers hs)
  then show ?thesis using assms(1) ok by (auto dest: on_headers_ok)
next
  case GetPruningProof
  then show ?thesis using assms(1) ok by (auto split: option.splits)
next
  case (MPruningProof hs)
  then show ?thesis using assms(1) pruning_handlers_ok(2) [OF ok] by auto
next
  case GetMultiLevelPruningProof
  then show ?thesis using assms(1) pruning_handlers_ok(1) [OF ok] by auto
next
  case (MMultiLevelPruningProof p)
  then show ?thesis using assms(1) pruning_handlers_ok(3) [OF ok] by auto
next
  case (GetPruningPointLedger pp)
  then show ?thesis using assms(1) pruning_handlers_ok(4) [OF ok] by auto
next
  case (MPruningPointLedger l)
  then show ?thesis using assms(1) pruning_handlers_ok(5) [OF ok, of X l] by (auto split: prod.splits)
qed (use assms(1) ok in \<open>auto simp: no_penalty_def relay_transparent_eq clear_inflight_ok request_block_body_ok request_tx_pull_ok split: if_splits\<close>)

lemma set_fee_filter_ok: "net_ok E pip sh \<Longrightarrow> net_ok E pip (set_fee_filter conn f sh)"
proof -
  assume ok: "net_ok E pip sh"
  have 1: "map ph_conn (map (\<lambda>p. if ph_conn p = conn then p\<lparr>fee_filter := f\<rparr> else p) ps) = map ph_conn ps" for ps by (induction ps) auto
  have 2: "length (filter (\<lambda>p. ph_group p = g) (map (\<lambda>p. if ph_conn p = conn then p\<lparr>fee_filter := f\<rparr> else p) ps))
      = length (filter (\<lambda>p. ph_group p = g) ps)" for g ps by (induction ps) auto
  show ?thesis unfolding set_fee_filter_def 
    by (rule net_ok_peers [OF ok], simp add: net_okD(9) [OF ok], (simp only: 1, rule net_okD(10) [OF ok]), simp only: 2, rule net_okD(11) [OF ok])
qed

lemma ban_peer_ok: "net_ok E pip sh \<Longrightarrow> net_ok E pip (ban_peer X c sh)"
proof -
  assume ok: "net_ok E pip sh"
  have "net_ok E pip (sh\<lparr>banned_addrs := bs, known_addrs := removeAll a (known_addrs sh)\<rparr>)" if "length bs \<le> MAX_KNOWN_ADDRS" for bs a
    by (rule net_ok_addrs [OF ok that]) (rule le_trans [OF length_removeAll_less_eq net_okD(12) [OF ok]])
  moreover have "length (if length (banned_addrs sh) < MAX_KNOWN_ADDRS then List.insert a (banned_addrs sh) else banned_addrs sh) \<le> MAX_KNOWN_ADDRS" for a
    using ok length_insert_le [of a "banned_addrs sh"] by (auto simp: net_ok_def)
  ultimately show ?thesis using ok by (auto simp: ban_peer_def Let_def split: option.splits)
qed

lemma close_conn_ok: "net_ok E pip sh \<Longrightarrow> net_ok E pip (close_conn c sh)"
proof -
  assume ok: "net_ok E pip sh"
  have f: "length (filter P (filter Q xs)) \<le> length (filter P xs)" for P Q and xs :: "peer_handle list" by (induction xs) auto
  have "net_ok E pip (sh\<lparr>peers := filter (\<lambda>p. ph_conn p \<noteq> cn_id c) (peers sh)\<rparr>)"
    by (rule net_ok_peers [OF ok])
      (use net_okD(9,10,11) [OF ok] le_trans [OF f] le_trans [OF length_filter_le] in \<open>auto simp: distinct_map_filter simp del: filter_filter\<close>)
  then show ?thesis by (auto simp: close_conn_def Let_def split: option.splits)
qed

lemma conn_turn_ok:
  assumes "conn_turn X input c sh = Some (sh', c', go)" and ok: "net_ok E pip sh" and X: "ctx_for E lab pip X"
  shows "net_ok E pip sh'"
proof -
  have f: "net_ok E pip (case m of FeeFilter f \<Rightarrow> set_fee_filter k f sh | _ \<Rightarrow> sh)" for m k
    using ok set_fee_filter_ok by (auto split: message.splits)
  show ?thesis using assms(1) ok dispatch_ok [OF _ f X]
    by (auto simp: conn_turn_def Let_def ban_peer_ok split: option.splits prod.splits if_splits bool.splits)
qed

lemma register_ok:
  assumes ok: "net_ok E pip sh" and room: "length (peers sh) < MAX_PEERS" and new: "conn \<notin> ph_conn ` set (peers sh)"
    and grp: "\<forall>g. grp0 = Some g \<longrightarrow> length (filter (\<lambda>p. ph_group p = Some g) (peers sh)) < MAX_PEERS_PER_GROUP"
  shows "net_ok E pip (sh\<lparr>peers := peers sh @ [\<lparr>ph_group = grp0, ph_conn = conn, fee_filter = 0\<rparr>]\<rparr>)"
  using assms by (auto simp: net_ok_def Suc_le_eq)

lemma peers_send [simp]: "peers (send X conn m sh) = peers sh"
  by (simp add: send_def)

lemma open_conn_ok:
  assumes o: "open_conn X conn ip hh first dialed own sh = (sh', r)" and ok: "net_ok E pip sh" and X: "ctx_for E lab pip X"
    and new: "conn \<notin> ph_conn ` set (peers sh)"
  shows "net_ok E pip sh'"
proof -
  obtain bans banned where b: "(case ip of None \<Rightarrow> (ip_bans sh, False) | Some ip \<Rightarrow> is_banned (inst X) ip (ip_bans sh)) = (bans, banned)" by fastforce
  show ?thesis
  proof (cases own)
    case None
    then show ?thesis using o ok b by (auto simp: open_conn_def Let_def split: if_splits)
  next
    case (Some ks)
    obtain pk sg where ks: "ks = (pk, sg)" by (cases ks)
    define sh1 where "sh1 = send X conn (Identity pk sg) (sh\<lparr>ip_bans := bans\<rparr>)"
    have 1: "net_ok E pip sh1" "peers sh1 = peers sh" using ok by (simp_all add: sh1_def)
    define sh2 where "sh2 = sh1\<lparr>peers := peers sh1 @ [\<lparr>ph_group = Option.bind ip ip_group, ph_conn = conn, fee_filter = 0\<rparr>]\<rparr>"
    define sh3 where "sh3 = (case dialed of None \<Rightarrow> sh2 | Some a \<Rightarrow> remember_addr X a sh2)"
    define full where "full \<longleftrightarrow> (case Option.bind ip ip_group of None \<Rightarrow> False
      | Some g \<Rightarrow> length (filter (\<lambda>p. ph_group p = Some g) (peers sh1)) \<ge> MAX_PEERS_PER_GROUP)"
    have "net_ok E pip sh2" if "\<not> length (peers sh1) \<ge> MAX_PEERS" "\<not> full"
      unfolding sh2_def by (rule register_ok) (use that 1 new in \<open>auto simp: full_def\<close>)
    then have 3: "net_ok E pip sh3" if "\<not> length (peers sh1) \<ge> MAX_PEERS" "\<not> full"
      using that remember_addr_ok [OF _ X] by (auto simp: sh3_def split: option.splits)
    have e: "open_conn X conn ip hh first dialed own sh =
      (if banned then (sh\<lparr>ip_bans := bans\<rparr>, None)
       else if \<not> pq_authenticate X hh first dialed then (sh1, None)
       else if length (peers sh1) \<ge> MAX_PEERS then (sh1, None)
       else if full then (sh1, None)
       else (send X conn (FeeFilter (congestion_fee X (send X conn (hello sh3) sh3))) (send X conn (hello sh3) sh3), Some (new_conn X conn ip dialed)))"
      unfolding open_conn_def Let_def b Some ks sh1_def sh2_def sh3_def full_def by (simp only: option.case prod.case)
    show ?thesis using o ok 1(1) 3 unfolding e by (auto split: if_splits)
  qed
qed

lemma ticks_ok:
  assumes ok: "net_ok E pip sh" and X: "ctx_for E lab pip X"
  shows "net_ok E pip (node_connect X a sh)" "net_ok E pip (discovery_tick X sh)" "net_ok E pip (fst (tip_tick X lt0 sh))"
    "net_ok E pip (fst (mempool_tick X an au sh))" "net_ok E pip (request_pruning_proof X sh)" "net_ok E pip (request_linear_pruning_proof X sh)"
proof -
  have d: "net_ok E pip (dial_candidates X as s)" if "net_ok E pip s" for as s
    using that by (induction X as s rule: dial_candidates.induct) (auto intro: dial_ok)
  have g: "net_ok E pip (fold (broadcast_tx X) ts s)" "net_ok E pip (fold (broadcast_utxo_tx X) us s)" if "net_ok E pip s" for ts us s
    using that by (auto intro!: fold_net_ok simp: broadcast_tx_def broadcast_utxo_tx_def)
  show "net_ok E pip (node_connect X a sh)" "net_ok E pip (discovery_tick X sh)" "net_ok E pip (fst (tip_tick X lt0 sh))"
    "net_ok E pip (fst (mempool_tick X an au sh))" "net_ok E pip (request_pruning_proof X sh)" "net_ok E pip (request_linear_pruning_proof X sh)"
    using ok remember_addr_ok [OF ok X] d g
    by (auto simp: node_connect_def discovery_tick_def tip_tick_def mempool_tick_def request_pruning_proof_def
        request_linear_pruning_proof_def Let_def split: option.splits)
qed

end
