(* ===== verification/P2p_Chain.thy ===== *)
theory P2p_Chain
  imports P2p_Correct Mempool_Correct
begin

text \<open>
  What peers can do to the chain of a node: until a pruning proof is adopted, the chain state under the network is one
  that block admission and mempool admission alone produce, and the cascade of orphans that a block sets free ends.
\<close>

section \<open>Handlers that leave the chain alone\<close>

definition core :: "shared \<Rightarrow> chain_state \<times> nat \<times> bool" where
  "core sh = (sh_state sh, best_pruning_work sh, expecting_pruning_ledger sh)"

lemma core_send [simp]: "core (send X conn m sh) = core sh"
  by (simp add: core_def send_def)

lemma core_broadcast [simp]: "core (broadcast X m sh) = core sh"
  using broadcast_outbox [of X m sh] by (auto simp: core_def)

lemma core_gossip [simp]: "core (gossip X fee ms sh) = core sh"
  using gossip_outbox [of X fee ms sh] by (auto simp: core_def)

lemma core_other [simp]:
  "core (sh\<lparr>peers := v1\<rparr>) = core sh" "core (sh\<lparr>orphans := v2\<rparr>) = core sh" "core (sh\<lparr>known_addrs := v3\<rparr>) = core sh"
  "core (sh\<lparr>sh_addrman := v4\<rparr>) = core sh" "core (sh\<lparr>pending_compact := v5\<rparr>) = core sh" "core (sh\<lparr>pending_headers := v6\<rparr>) = core sh"
  "core (sh\<lparr>in_flight_bodies := v7\<rparr>) = core sh" "core (sh\<lparr>in_flight_tx_gets := v8\<rparr>) = core sh" "core (sh\<lparr>connected_addrs := v9\<rparr>) = core sh"
  "core (sh\<lparr>banned_addrs := v10\<rparr>) = core sh" "core (sh\<lparr>verified_pruning_point := v11\<rparr>) = core sh"
  "core (sh\<lparr>expecting_pruning_proof := v12\<rparr>) = core sh" "core (sh\<lparr>my_listen_addr := v13\<rparr>) = core sh" "core (sh\<lparr>ip_bans := v14\<rparr>) = core sh"
  "core (sh\<lparr>outbox := v15\<rparr>) = core sh" "core (sh\<lparr>dials := v16\<rparr>) = core sh"
  by (simp_all add: core_def)

lemma fold_core: "(\<And>x s. core (f x s) = core s) \<Longrightarrow> core (fold f xs sh) = core sh"
  by (induction xs arbitrary: sh) auto

lemma core_ops [simp]:
  "core (remember_addr X a sh) = core sh" "core (dial X a sh) = core sh" "core (request_block_body X conn h sh) = core sh"
  "core (request_tx_pull X conn h u sh) = core sh" "core (clear_body_inflight h sh) = core sh" "core (clear_tx_inflight h sh) = core sh"
  "core (buffer_orphan X missing b h sh) = core sh" "core (fst (take_children X h sh)) = core sh"
  "core (broadcast_compact_block X b sh) = core sh" "core (set_fee_filter conn f sh) = core sh"
  by (simp_all add: remember_addr_def dial_def request_block_body_def request_tx_pull_def clear_body_inflight_def clear_tx_inflight_def
      buffer_orphan_def take_children_def broadcast_compact_block_def set_fee_filter_def Let_def split: option.splits)

lemma core_backfill [simp]: "core (backfill X ps sh) = core sh"
  by (induction X ps sh rule: backfill.induct) (simp_all add: Let_def)

lemma core_request_ranked [simp]: "core (request_ranked X conn hs sh) = core sh"
  by (induction X conn hs sh rule: request_ranked.induct) simp_all

lemma core_check_headers: "check_headers X conn hs sh ban acc = Some (sh', ban', acc') \<Longrightarrow> core sh' = core sh"
  by (induction X conn hs sh ban acc rule: check_headers.induct)
    (auto simp: fold_core split: if_splits option.splits sum.splits)

lemma core_handlers [simp]:
  "core (on_hello X conn score la sh) = core sh" "core (on_get_addr X conn sh) = core sh" "core (on_addr X as sh) = core sh"
  "core (on_get_block X conn h sh) = core sh" "core (on_get_tx X conn h sh) = core sh" "core (on_get_utxo_tx X conn h sh) = core sh"
  "core (on_get_block_txn X conn h ixs sh) = core sh" "core (on_get_headers X conn loc stop lm sh) = core sh"
  by (simp_all add: on_hello_def on_get_addr_def on_addr_def on_get_block_def on_get_tx_def on_get_utxo_tx_def on_get_block_txn_def
      on_get_headers_def Let_def fold_core split: option.splits)

lemma core_partial:
  "on_compact_block X conn h sids pre sh = Some sh' \<Longrightarrow> core sh' = core sh"
  "on_block_txn X h txs sh = Some (sh', ban) \<Longrightarrow> core sh' = core sh"
  "on_headers X conn hs sh = Some (sh', ban) \<Longrightarrow> core sh' = core sh"
  "on_get_multilevel X conn sh = Some sh' \<Longrightarrow> core sh' = core sh"
  "on_get_pp_ledger X conn pp sh = Some sh' \<Longrightarrow> core sh' = core sh"
proof -
  show "on_compact_block X conn h sids pre sh = Some sh' \<Longrightarrow> core sh' = core sh"
    using relay_all_eq [of X pre sh 0] by (auto simp: on_compact_block_def Let_def split: prod.splits if_splits)
  show "on_block_txn X h txs sh = Some (sh', ban) \<Longrightarrow> core sh' = core sh"
    using relay_all_eq [of X txs sh 0] by (auto simp: on_block_txn_def split: option.splits)
  show "on_headers X conn hs sh = Some (sh', ban) \<Longrightarrow> core sh' = core sh"
    by (auto simp: on_headers_def Let_def split: if_splits option.splits dest!: core_check_headers)
  show "on_get_multilevel X conn sh = Some sh' \<Longrightarrow> core sh' = core sh" "on_get_pp_ledger X conn pp sh = Some sh' \<Longrightarrow> core sh' = core sh"
    by (auto simp: on_get_multilevel_def on_get_pp_ledger_def Let_def split: if_splits option.splits)
qed

section \<open>Blocks and orphans\<close>

definition waiting :: "(hash, orphan_block list) hmap \<Rightarrow> orphan_block set" where
  "waiting orph = {w. \<exists>k v. (k, v) \<in> set orph \<and> w \<in> set v}"

definition orphan_hashes :: "env \<Rightarrow> shared \<Rightarrow> hash set" where
  "orphan_hashes E sh = (\<lambda>w. block_hash E (ob_block w)) ` waiting (orphans sh)"

lemma set_hput: "set (hput k v m) \<subseteq> insert (k, v) (set m)"
  by (induction m) auto

lemma finite_waiting [simp]: "finite (waiting orph)"
proof -
  have "waiting orph = (\<Union>e \<in> set orph. set (snd e))" by (force simp: waiting_def)
  then show ?thesis by simp
qed

lemma finite_orphan_hashes [simp]: "finite (orphan_hashes E sh)"
  by (simp add: orphan_hashes_def)

lemma orphans_same: "orphans sh' = orphans sh \<Longrightarrow> orphan_hashes E sh' = orphan_hashes E sh"
  by (simp add: orphan_hashes_def)

lemma orphans_send [simp]: "orphans (send X conn m sh) = orphans sh"
  by (simp add: send_def)

lemma orphans_broadcast [simp]: "orphans (broadcast X m sh) = orphans sh"
  using broadcast_outbox [of X m sh] by auto

lemma orphans_backfill [simp]: "orphans (backfill X ps sh) = orphans sh"
  by (induction X ps sh rule: backfill.induct) (simp_all add: Let_def)

lemma orphans_ask [simp]: "orphans (fold (\<lambda>p sh. if should_fetch sh p then broadcast X (GetBlock p) sh else sh) ps sh) = orphans sh"
  by (induction ps arbitrary: sh) simp_all

lemma wait_for_entries: "waiting (wait_for E entry h p orph) \<subseteq> insert entry (waiting orph)"
proof -
  have w: "set (hget_or [] orph p) \<subseteq> waiting orph" by (cases "hget orph p") (auto simp: hget_or_def waiting_def dest: map_of_SomeD)
  define v where "v = (if list_ex (\<lambda>w. block_hash E (ob_block w) = h) (hget_or [] orph p) then hget_or [] orph p else hget_or [] orph p @ [entry])"
  have "set v \<subseteq> insert entry (waiting orph)" using w by (auto simp: v_def)
  moreover have "waiting (hput p v orph) \<subseteq> set v \<union> waiting orph" using set_hput [of p v orph] by (auto simp: waiting_def)
  ultimately show ?thesis unfolding wait_for_def Let_def v_def by blast
qed

lemma wait_for_all_entries: "waiting (fold (wait_for E entry h) ps orph) \<subseteq> insert entry (waiting orph)"
proof (induction ps arbitrary: orph)
  case (Cons p ps)
  then show ?case using wait_for_entries [of E entry h p orph] Cons.IH [of "wait_for E entry h p orph"] by auto
qed auto

lemma prune_orphans_entries: "waiting (prune_orphans now orph) \<subseteq> waiting orph"
  by (fastforce simp: prune_orphans_def hretain_def hmap_values_def waiting_def)

lemma buffer_orphan_hashes:
  assumes "nx_env X = E"
  shows "orphan_hashes E (buffer_orphan X missing b h sh) \<subseteq> insert (block_hash E b) (orphan_hashes E sh)"
proof -
  have "waiting (orphans (buffer_orphan X missing b h sh)) \<subseteq> insert \<lparr>ob_block = b, inserted_at = inst X\<rparr> (waiting (orphans sh))"
    using prune_orphans_entries [of "inst X" "orphans sh"]
      wait_for_all_entries [of "nx_env X" "\<lparr>ob_block = b, inserted_at = inst X\<rparr>" h missing "prune_orphans (inst X) (orphans sh)"]
    by (auto simp: buffer_orphan_def Let_def)
  then show ?thesis by (auto simp: orphan_hashes_def)
qed

lemma take_children_hashes:
  assumes "take_children X h sh = (sh', ch)"
  shows "orphan_hashes E sh' \<union> block_hash E ` set ch \<subseteq> orphan_hashes E sh"
proof (cases "hget (orphans sh) h")
  case None
  then show ?thesis using assms by (auto simp: take_children_def)
next
  case (Some v)
  have "waiting (hdel h (orphans sh)) \<subseteq> waiting (orphans sh)" by (auto simp: waiting_def AList.delete_eq)
  moreover have "set v \<subseteq> waiting (orphans sh)" using map_of_SomeD [OF Some] by (auto simp: waiting_def)
  ultimately show ?thesis using assms Some by (fastforce simp: take_children_def orphan_hashes_def)
qed

text \<open>An archival node's prechecks return, so does each turn of the queue.\<close>

lemma precheck_block_returns:
  assumes "chain_inv E cs"
  obtains r where "precheck_block E lab cs b = Some r"
proof -
  have "links_ok (ghostdag cs)" using assms dag_okD(3) by (auto simp: chain_inv_def)
  then obtain req where "expected_difficulty_at lab (dag cs) (ghostdag cs) (minted_supply (live cs)) (parents b) (timestamp b) = Some req"
    by (rule expected_difficulty_returns)
  then have "\<exists>r. precheck_block E lab cs b = Some r" by (simp add: precheck_block_def split: sum.splits)
  then show thesis using that by blast
qed

definition step_effect :: "env \<Rightarrow> bool \<Rightarrow> block \<Rightarrow> shared \<Rightarrow> shared \<Rightarrow> block list \<Rightarrow> bool" where
  \<comment> \<open>what one turn of the queue does to the chain and to the set of blocks waiting\<close>
  "step_effect E lab b sh sh' ch \<longleftrightarrow>
     node_hist E lab True (sh_state sh') \<and> snd (core sh') = snd (core sh)
     \<and> orphan_hashes E sh' \<union> block_hash E ` set ch \<subseteq> insert (block_hash E b) (orphan_hashes E sh)
     \<and> (dag (sh_state sh') = dag (sh_state sh) \<and> ch = []
        \<or> \<not> hhas (dag (sh_state sh)) (block_hash E b) \<and> dag (sh_state sh') = hput (block_hash E b) b (dag (sh_state sh)))"

lemma step_effect_frame:
  assumes "node_hist E lab True (sh_state sh)" and "core sh' = core sh" and "orphan_hashes E sh' \<subseteq> insert (block_hash E b) (orphan_hashes E sh)"
  shows "step_effect E lab b sh sh' []"
  using assms by (auto simp: step_effect_def core_def)

definition asks_parent :: "unit result option \<Rightarrow> bool" where
  "asks_parent r \<longleftrightarrow> (\<exists>e. r = Some (Err e) \<and> str_contains ''Unknown parent'' e)"

definition verdict :: "net_ctx \<Rightarrow> shared \<Rightarrow> shared \<Rightarrow> block \<Rightarrow> nat \<Rightarrow> bool" where
  \<comment> \<open>what became of a received block: it is in the DAG, or a parent is asked for, or its sender is charged\<close>
  "verdict X sh sh' b pen \<longleftrightarrow>
     (let h = block_hash (nx_env X) b;
          pre = precheck_block (nx_env X) (nx_lab X) (sh_state sh) b;
          add = map_option snd (add_block (nx_env X) (nx_lab X) (wall X) (nx_pin X) b (sh_state sh))
      in pen = 0 \<and> (have_block sh' h \<or> asks_parent pre \<or> asks_parent add)
         \<or> pen \<in> {INVALID_BLOCK_PENALTY, INVALID_STARK_PENALTY} \<and> \<not> have_block sh' h \<and> \<not> asks_parent pre)"

lemma add_received_effect:
  assumes hist: "node_hist E lab True (sh_state sh)" and size: "length (dag (sh_state sh)) < 2 ^ 41" and X: "nx_env X = E" "nx_lab X = lab"
    and new: "\<not> have_block sh (block_hash E b)" and pre: "precheck_block E lab (sh_state sh) b = Some (Ok ())" and pen: "d \<longrightarrow> pen = 0"
  obtains sh' pen' ch where "add_received X b d sh pen = Some (sh', pen', ch)" and "step_effect E lab b sh sh' ch"
    and "\<not> d \<longrightarrow> pen' = pen" and "d \<longrightarrow> verdict X sh sh' b pen'"
proof -
  define h where "h = block_hash E b"
  obtain cs res where a: "add_block E lab (wall X) (nx_pin X) b (sh_state sh) = Some (cs, res)"
    "res = Ok () \<longrightarrow> chain_inv E cs \<and> \<not> hhas (dag (sh_state sh)) h \<and> dag cs = hput h b (dag (sh_state sh))"
    "\<not> is_ok res \<longrightarrow> cs = sh_state sh"
    unfolding h_def by (rule add_block_returns [OF node_hist_inv [OF hist] size])
  have hist': "node_hist E lab True cs" by (rule node_hist.block [OF hist size a(1)])
  show thesis
  proof (cases res)
    case (Inr u)
    define sh1 where "sh1 = clear_body_inflight h (sh\<lparr>sh_state := cs\<rparr>)"
    define sh2 where "sh2 = broadcast_compact_block X b (sh1\<lparr>pending_headers := hdel h (pending_headers sh1)\<rparr>)"
    obtain sh3 ch where t: "take_children X h sh2 = (sh3, ch)" by fastforce
    have "core sh3 = core sh2" using core_ops(8) [of X h sh2] t by simp
    also have "\<dots> = core (sh\<lparr>sh_state := cs\<rparr>)" by (simp add: sh2_def sh1_def)
    finally have c: "core sh3 = (cs, snd (core sh))" by (simp add: core_def)
    have o: "orphans sh2 = orphans sh" by (simp add: sh2_def sh1_def broadcast_compact_block_def clear_body_inflight_def Let_def)
    have r: "add_received X b d sh pen = Some (sh3, pen, ch)"
      using a(1) Inr X t by (simp add: add_received_def Let_def h_def [symmetric] sh1_def [symmetric] sh2_def [symmetric])
    have s: "sh_state sh3 = cs" "snd (core sh3) = snd (core sh)" using c by (auto simp: core_def)
    have "step_effect E lab b sh sh3 ch"
      using s hist' a(2) Inr take_children_hashes [OF t, of E] orphans_same [OF o] by (auto simp: step_effect_def h_def)
    moreover have "have_block sh3 h" using s(1) a(2) Inr by (simp add: have_block_def)
    ultimately show thesis using that [OF r] pen X by (simp add: h_def verdict_def Let_def)
  next
    case (Inl e)
    then have cs: "sh\<lparr>sh_state := cs\<rparr> = sh" using a(3) by simp
    define m where "m = missing_parents sh b"
    define sh1 where "sh1 = fold (\<lambda>p sh. if should_fetch sh p then broadcast X (GetBlock p) sh else sh) m (buffer_orphan X m b h sh)"
    have r: "add_received X b d sh pen = (if str_contains ''Unknown parent'' e then Some (sh1, pen, [])
        else Some (sh, if d then min (pen + block_ban_penalty e) u32_max else pen, []))"
      using a(1) Inl X by (simp add: add_received_def Let_def cs h_def [symmetric] m_def [symmetric] sh1_def [symmetric])
    have 1: "step_effect E lab b sh sh1 []"
    proof (rule step_effect_frame [OF hist])
      show "core sh1 = core sh" unfolding sh1_def by (subst fold_core) simp_all
      show "orphan_hashes E sh1 \<subseteq> insert (block_hash E b) (orphan_hashes E sh)"
        using buffer_orphan_hashes [OF X(1), of m b h sh] orphans_same [of sh1 "buffer_orphan X m b h sh" E] by (simp add: sh1_def)
    qed
    have 2: "step_effect E lab b sh sh []" by (rule step_effect_frame [OF hist]) auto
    show thesis
    proof (cases "str_contains ''Unknown parent'' e")
      case True
      then have "d \<longrightarrow> verdict X sh sh1 b pen" using a(1) Inl X pen by (simp add: verdict_def asks_parent_def Let_def)
      then show thesis using that [OF _ 1] r True by simp
    next
      case False
      have "d \<longrightarrow> verdict X sh sh b (min (pen + block_ban_penalty e) u32_max)"
        using X pre new pen by (auto simp: verdict_def asks_parent_def block_ban_penalty_def INVALID_BLOCK_PENALTY_def INVALID_STARK_PENALTY_def)
      then show thesis using that [OF _ 2] r False by (cases d) auto
    qed
  qed
qed

lemma ingest_one_effect:
  assumes hist: "node_hist E lab True (sh_state sh)" and size: "length (dag (sh_state sh)) < 2 ^ 41" and X: "nx_env X = E" "nx_lab X = lab"
    and pen: "d \<longrightarrow> pen = 0"
  obtains sh' bu' pen' ch where "ingest_one X b d sh bu pen = Some (sh', bu', pen', ch)" and "step_effect E lab b sh sh' ch"
    and "\<not> d \<longrightarrow> pen' = pen"
    and "d \<longrightarrow> verdict X sh sh' b pen'"
proof (cases "have_block sh (block_hash E b)")
  case True
  have "step_effect E lab b sh sh []" by (rule step_effect_frame [OF hist]) auto
  then show thesis using that [of sh bu pen "[]"] True X pen by (simp add: ingest_one_def verdict_def Let_def)
next
  case False
  obtain r where r: "precheck_block E lab (sh_state sh) b = Some r" by (rule precheck_block_returns [OF node_hist_inv [OF hist]])
  have 2: "step_effect E lab b sh sh []" by (rule step_effect_frame [OF hist]) auto
  show thesis
  proof (cases r)
    case (Inl e)
    define m where "m = missing_parents sh b"
    define sh1 where "sh1 = backfill X m (buffer_orphan X m b (block_hash E b) sh)"
    have 1: "step_effect E lab b sh sh1 []"
    proof (rule step_effect_frame [OF hist])
      show "core sh1 = core sh" by (simp add: sh1_def)
      show "orphan_hashes E sh1 \<subseteq> insert (block_hash E b) (orphan_hashes E sh)"
        using buffer_orphan_hashes [OF X(1), of m b "block_hash E b" sh] orphans_same [of sh1 "buffer_orphan X m b (block_hash E b) sh" E] by (simp add: sh1_def)
    qed
    have i: "ingest_one X b d sh bu pen = (if str_contains ''Unknown parent'' e then Some (sh1, bu, pen, [])
        else Some (sh, bu, if d then min (pen + block_ban_penalty e) u32_max else pen, []))"
      using r Inl X False by (simp add: ingest_one_def Let_def m_def [symmetric] sh1_def [symmetric])
    show thesis
    proof (cases "str_contains ''Unknown parent'' e")
      case True
      then have "d \<longrightarrow> verdict X sh sh1 b pen" using r Inl X pen by (simp add: verdict_def asks_parent_def Let_def)
      then show thesis using that [OF _ 1] i True by simp
    next
      case nu: False
      then have "d \<longrightarrow> verdict X sh sh b (min (pen + block_ban_penalty e) u32_max)"
        using r Inl X False pen by (auto simp: verdict_def asks_parent_def block_ban_penalty_def INVALID_BLOCK_PENALTY_def INVALID_STARK_PENALTY_def)
      then show thesis using that [OF _ 2] i nu by (cases d) auto
    qed
  next
    case (Inr u)
    then have pre: "precheck_block E lab (sh_state sh) b = Some (Ok ())" using r by simp
    obtain bu' go where g: "(if d then try_consume bu (wall X) else (bu, True)) = (bu', go)" by fastforce
    show thesis
    proof (cases go)
      case True
      obtain sh' pen' ch where a: "add_received X b d sh pen = Some (sh', pen', ch)" "step_effect E lab b sh sh' ch" "\<not> d \<longrightarrow> pen' = pen"
        "d \<longrightarrow> verdict X sh sh' b pen'"
        by (rule add_received_effect [OF hist size X False pre pen])
      have "ingest_one X b d sh bu pen = Some (sh', bu', pen', ch)" using X False pre g True a(1) by (simp add: ingest_one_def Let_def)
      from that [OF this a(2,3,4)] show thesis .
    next
      case no: False
      then have d: "d" using g by (cases d) auto
      have i: "ingest_one X b d sh bu pen = Some (sh, bu', min (pen + INVALID_STARK_PENALTY) u32_max, [])"
        using X False pre g no by (simp add: ingest_one_def Let_def)
      show thesis by (rule that [OF i 2])
        (use d X False pre pen in \<open>auto simp: verdict_def asks_parent_def INVALID_STARK_PENALTY_def\<close>)
    qed
  qed
qed

lemma ingest_one_ex:
  assumes "node_hist E lab True (sh_state sh)" and "length (dag (sh_state sh)) < 2 ^ 41" and "nx_env X = E" "nx_lab X = lab" and "d \<longrightarrow> pen = 0"
  shows "\<exists>sh' bu' pen' ch. ingest_one X b d sh bu pen = Some (sh', bu', pen', ch) \<and> step_effect E lab b sh sh' ch
    \<and> (\<not> d \<longrightarrow> pen' = pen) \<and> (d \<longrightarrow> verdict X sh sh' b pen')"
  by (rule ingest_one_effect [OF assms]) blast

section \<open>The cascade of orphans ends\<close>

definition candidates :: "env \<Rightarrow> (block \<times> bool) list \<Rightarrow> shared \<Rightarrow> hash set" where
  \<comment> \<open>blocks the loop may still add\<close>
  "candidates E queue sh = {h \<in> orphan_hashes E sh \<union> (\<lambda>(b, _). block_hash E b) ` set queue. \<not> hhas (dag (sh_state sh)) h}"

lemma finite_candidates [simp]: "finite (candidates E queue sh)"
  by (simp add: candidates_def)

definition loop_effect :: "env \<Rightarrow> bool \<Rightarrow> (block \<times> bool) list \<Rightarrow> shared \<Rightarrow> shared \<Rightarrow> bool" where
  "loop_effect E lab queue sh sh' \<longleftrightarrow>
     node_hist E lab True (sh_state sh') \<and> snd (core sh') = snd (core sh)
     \<and> (\<forall>h. hhas (dag (sh_state sh)) h \<longrightarrow> hhas (dag (sh_state sh')) h)
     \<and> (\<forall>h. hhas (dag (sh_state sh')) h \<longrightarrow> hhas (dag (sh_state sh)) h \<or> h \<in> candidates E queue sh)"

lemma no_children:
  assumes e: "step_effect E lab b sh sh' ch" and "hhas (dag (sh_state sh')) (block_hash E b) \<Longrightarrow> hhas (dag (sh_state sh)) (block_hash E b)"
  shows "ch = []"
proof (rule ccontr)
  assume "ch \<noteq> []"
  then have "\<not> hhas (dag (sh_state sh)) (block_hash E b)" "dag (sh_state sh') = hput (block_hash E b) b (dag (sh_state sh))"
    using e by (auto simp: step_effect_def)
  then show False using assms(2) by simp
qed

lemma candidates_step:
  assumes e: "step_effect E lab b sh sh' ch"
  shows "candidates E (rev (map (\<lambda>c. (c, False)) ch) @ rest) sh' \<subseteq> candidates E ((b, d) # rest) sh"
    and "dag (sh_state sh') \<noteq> dag (sh_state sh) \<Longrightarrow>
      Suc (card (candidates E (rev (map (\<lambda>c. (c, False)) ch) @ rest) sh')) \<le> card (candidates E ((b, d) # rest) sh)
      \<and> length (dag (sh_state sh')) = Suc (length (dag (sh_state sh)))"
proof -
  define C where "C = candidates E ((b, d) # rest) sh"
  define C' where "C' = candidates E (rev (map (\<lambda>c. (c, False)) ch) @ rest) sh'"
  have hs: "orphan_hashes E sh' \<union> block_hash E ` set ch \<subseteq> insert (block_hash E b) (orphan_hashes E sh)" using e by (simp add: step_effect_def)
  have q: "(\<lambda>(b, _). block_hash E b) ` set (rev (map (\<lambda>c. (c, False)) ch) @ rest) = block_hash E ` set ch \<union> (\<lambda>(b, _). block_hash E b) ` set rest"
    by (simp add: image_Un image_image)
  have grow: "hhas (dag (sh_state sh)) h \<Longrightarrow> hhas (dag (sh_state sh')) h" for h using e by (auto simp: step_effect_def)
  have "C' \<subseteq> C" unfolding C_def C'_def candidates_def q using hs grow by auto
  then show "candidates E (rev (map (\<lambda>c. (c, False)) ch) @ rest) sh' \<subseteq> candidates E ((b, d) # rest) sh" by (simp add: C_def C'_def)
  assume "dag (sh_state sh') \<noteq> dag (sh_state sh)"
  then have n: "\<not> hhas (dag (sh_state sh)) (block_hash E b)" "dag (sh_state sh') = hput (block_hash E b) b (dag (sh_state sh))"
    using e by (auto simp: step_effect_def)
  have "block_hash E b \<in> C" using n(1) by (simp add: C_def candidates_def)
  moreover have "block_hash E b \<notin> C'" using n(2) by (simp add: C'_def candidates_def)
  ultimately have "C' \<subset> C" using \<open>C' \<subseteq> C\<close> by blast
  then have "card C' < card C" by (rule psubset_card_mono [rotated]) (simp add: C_def)
  then show "Suc (card (candidates E (rev (map (\<lambda>c. (c, False)) ch) @ rest) sh')) \<le> card (candidates E ((b, d) # rest) sh)
      \<and> length (dag (sh_state sh')) = Suc (length (dag (sh_state sh)))"
    using n by (simp add: C_def C'_def length_hput_new)
qed

lemma loop_effect_step:
  assumes e: "step_effect E lab b sh sh1 ch" and l: "loop_effect E lab (rev (map (\<lambda>c. (c, False)) ch) @ rest) sh1 sh'"
  shows "loop_effect E lab ((b, d) # rest) sh sh'"
proof -
  have "hhas (dag (sh_state sh1)) h \<Longrightarrow> hhas (dag (sh_state sh)) h \<or> h \<in> candidates E ((b, d) # rest) sh" for h
    using e by (auto simp: step_effect_def candidates_def split: if_splits)
  moreover have "hhas (dag (sh_state sh)) h \<Longrightarrow> hhas (dag (sh_state sh1)) h" for h using e by (auto simp: step_effect_def)
  ultimately show ?thesis
    using e l candidates_step(1) [OF e, of rest d] unfolding loop_effect_def step_effect_def by (metis (no_types, lifting) subsetD)
qed

lemma ingest_loop_returns:
  assumes "node_hist E lab True (sh_state sh)" and "length (dag (sh_state sh)) + card (candidates E queue sh) < 2 ^ 41"
    and X: "nx_env X = E" "nx_lab X = lab" and "\<forall>(b, d) \<in> set queue. \<not> d"
  shows "\<exists>sh' bu'. ingest_loop X queue sh bu pen = Some (sh', bu', pen) \<and> loop_effect E lab queue sh sh'"
  using assms(1,2,5)
proof (induction "card (candidates E queue sh)" arbitrary: queue sh bu rule: less_induct)
  case (less queue sh bu)
  note outer = less.hyps and outer_prems = less.prems
  have "\<exists>sh' bu'. ingest_loop X q s b0 pen = Some (sh', bu', pen) \<and> loop_effect E lab q s sh'"
    if "card (candidates E q s) \<le> card (candidates E queue sh)" "node_hist E lab True (sh_state s)"
      "length (dag (sh_state s)) + card (candidates E q s) < 2 ^ 41" "\<forall>(b, d) \<in> set q. \<not> d" for q s b0
    using that
  proof (induction q arbitrary: s b0)
    case Nil
    have "loop_effect E lab [] s s" using Nil.prems by (simp add: loop_effect_def)
    then show ?case by (simp add: ingest_loop.simps)
  next
    case (Cons e rest)
    obtain b where e: "e = (b, False)" using Cons.prems(4) by (cases e) auto
    have size: "length (dag (sh_state s)) < 2 ^ 41" using Cons.prems(3) by simp
    obtain s1 bu1 pen1 ch where i: "ingest_one X b False s b0 pen = Some (s1, bu1, pen1, ch)" "step_effect E lab b s s1 ch" "pen1 = pen"
      using ingest_one_ex [OF Cons.prems(2) size X, of False pen b b0] by auto
    define q1 where "q1 = rev (map (\<lambda>c. (c, False)) ch) @ rest"
    have h1: "node_hist E lab True (sh_state s1)" using i(2) by (simp add: step_effect_def)
    have d1: "\<forall>(b, d) \<in> set q1. \<not> d" using Cons.prems(4) by (auto simp: q1_def)
    have "\<exists>sh' bu'. ingest_loop X q1 s1 bu1 pen = Some (sh', bu', pen) \<and> loop_effect E lab q1 s1 sh'"
    proof (cases "dag (sh_state s1) = dag (sh_state s)")
      case True
      have ch: "ch = []" by (rule no_children [OF i(2)]) (simp add: True)
      have sub: "card (candidates E rest s1) \<le> card (candidates E (e # rest) s)"
        using candidates_step(1) [OF i(2), of rest False] ch e by (simp add: card_mono)
      have "q1 = rest" by (simp add: q1_def ch)
      moreover have "\<exists>sh' bu'. ingest_loop X rest s1 bu1 pen = Some (sh', bu', pen) \<and> loop_effect E lab rest s1 sh'"
        by (rule Cons.IH) (use sub Cons.prems h1 True in auto)
      ultimately show ?thesis by simp
    next
      case False
      note c = candidates_step(2) [OF i(2) False, of rest False, folded q1_def]
      have "card (candidates E q1 s1) < card (candidates E queue sh)" using c Cons.prems(1) e by simp
      from outer [OF this h1 _ d1] show ?thesis using c Cons.prems(3) e by simp
    qed
    then obtain sh' bu' where l: "ingest_loop X q1 s1 bu1 pen = Some (sh', bu', pen)" "loop_effect E lab q1 s1 sh'" by blast
    have "ingest_loop X (e # rest) s b0 pen = Some (sh', bu', pen)"
      using l(1) i(1,3) e by (subst ingest_loop.simps) (simp add: q1_def)
    then show ?case using loop_effect_step [OF i(2) l(2) [unfolded q1_def], of False] e by blast
  qed
  then show ?case using outer_prems by blast
qed

lemma orphan_count: "card (orphan_hashes E sh) \<le> hsum length (orphans sh)"
proof -
  have "waiting orph = set (concat (map snd orph))" for orph by (force simp: waiting_def)
  moreover have "length (concat (map snd orph)) = hsum length orph" for orph :: "(hash, orphan_block list) hmap" by (induction orph) (auto simp: hsum_def)
  ultimately have "card (waiting (orphans sh)) \<le> hsum length (orphans sh)" by (metis card_length)
  then show ?thesis unfolding orphan_hashes_def by (meson card_image_le finite_waiting le_trans)
qed

lemma ingest_block_effect:
  assumes hist: "node_hist E lab True (sh_state sh)" and size: "length (dag (sh_state sh)) + hsum length (orphans sh) + 1 < 2 ^ 41"
    and X: "nx_env X = E" "nx_lab X = lab"
  shows "\<exists>sh' bu' pen. ingest_block X b sh bu = Some (sh', bu', pen) \<and> loop_effect E lab [(b, True)] sh sh' \<and> verdict X sh sh' b pen"
proof -
  have s0: "length (dag (sh_state sh)) < 2 ^ 41" using size by simp
  obtain s1 bu1 pen1 ch where i: "ingest_one X b True sh bu 0 = Some (s1, bu1, pen1, ch)" "step_effect E lab b sh s1 ch" "verdict X sh s1 b pen1"
    using ingest_one_ex [OF hist s0 X, of True 0 b bu] by auto
  define q1 where "q1 = rev (map (\<lambda>c. (c, False)) ch) @ []"
  have "candidates E [(b, True)] sh \<subseteq> insert (block_hash E b) (orphan_hashes E sh)" by (auto simp: candidates_def)
  then have "card (candidates E [(b, True)] sh) \<le> card (insert (block_hash E b) (orphan_hashes E sh))" by (rule card_mono [rotated]) simp
  also have "\<dots> \<le> Suc (card (orphan_hashes E sh))" by (simp add: card_insert_if)
  finally have "card (candidates E [(b, True)] sh) \<le> Suc (card (orphan_hashes E sh))" .
  then have c: "card (candidates E [(b, True)] sh) \<le> Suc (hsum length (orphans sh))" using orphan_count [of E sh] by simp
  have m: "card (candidates E q1 s1) \<le> card (candidates E [(b, True)] sh)"
    unfolding q1_def by (rule card_mono [OF finite_candidates candidates_step(1) [OF i(2)]])
  have "length (dag (sh_state s1)) + card (candidates E q1 s1) < 2 ^ 41"
  proof (cases "dag (sh_state s1) = dag (sh_state sh)")
    case False
    then show ?thesis using candidates_step(2) [OF i(2) False, of "[]" True, folded q1_def] c size by simp
  qed (use m c size in simp)
  moreover have "node_hist E lab True (sh_state s1)" using i(2) by (simp add: step_effect_def)
  ultimately obtain sh' bu' where l: "ingest_loop X q1 s1 bu1 pen1 = Some (sh', bu', pen1)" "loop_effect E lab q1 s1 sh'"
    using ingest_loop_returns [OF _ _ X, of s1 q1 bu1 pen1] by (auto simp: q1_def)
  have "ingest_block X b sh bu = Some (sh', bu', pen1)"
    unfolding ingest_block_def using i(1) l(1) by (subst ingest_loop.simps) (simp add: q1_def)
  moreover have le: "loop_effect E lab [(b, True)] sh sh'" by (rule loop_effect_step [OF i(2) l(2) [unfolded q1_def]])
  moreover have "verdict X sh sh' b pen1"
  proof -
    have k: "have_block s1 (block_hash E b) \<Longrightarrow> have_block sh' (block_hash E b)" using l(2) by (simp add: loop_effect_def have_block_def)
    have "sh' = s1" if "\<not> have_block s1 (block_hash E b)"
    proof -
      have "ch = []" by (rule no_children [OF i(2)]) (use that in \<open>simp add: have_block_def\<close>)
      then show ?thesis using l(1) by (simp add: q1_def ingest_loop.simps)
    qed
    then show ?thesis using i(3) k X by (auto simp: verdict_def Let_def)
  qed
  ultimately show ?thesis by blast
qed

end
