(* ===== verification/P2p_Run.thy ===== *)
theory P2p_Run
  imports P2p_Chain
begin

text \<open>
  Histories of a networked node: any interleaving of the steps of its connection threads, of its background threads and
  of the local users of the chain state, with any input from any peers; and the properties of all of them.
\<close>

section \<open>Effect of the handlers on the chain\<close>

definition hist_ok :: "env \<Rightarrow> bool \<Rightarrow> shared \<Rightarrow> bool" where
  "hist_ok E lab sh \<longleftrightarrow> (best_pruning_work sh = 0 \<longrightarrow> node_hist E lab True (sh_state sh)) \<and> (expecting_pruning_ledger sh \<longrightarrow> best_pruning_work sh \<noteq> 0)"

lemma hist_ok_core: "core sh' = core sh \<Longrightarrow> hist_ok E lab sh' = hist_ok E lab sh"
  by (simp add: hist_ok_def core_def)

lemma add_received_core: "add_received X b d sh pen = Some (sh', pen', ch) \<Longrightarrow> snd (core sh') = snd (core sh)"
proof -
  assume r: "add_received X b d sh pen = Some (sh', pen', ch)"
  have s: "snd (core (sh\<lparr>sh_state := cs\<rparr>)) = snd (core sh)" for cs by (simp add: core_def)
  have t: "take_children X h s = (s', c) \<Longrightarrow> core s' = core s" for h s s' c using core_ops(8) [of X h s] by simp
  have f: "core (fold (\<lambda>p sh. if should_fetch sh p then broadcast X (GetBlock p) sh else sh) ps s) = core s" for ps s by (rule fold_core) simp
  show ?thesis using r s f
    by (auto simp: add_received_def Let_def split: option.splits sum.splits prod.splits if_splits dest!: t)
qed

lemma ingest_one_core: "ingest_one X b d sh bu pen = Some (sh', bu', pen', ch) \<Longrightarrow> snd (core sh') = snd (core sh)"
  by (auto simp: ingest_one_def Let_def split: option.splits sum.splits prod.splits if_splits bool.splits dest: add_received_core)

lemma ingest_loop_core:
  assumes "ingest_loop X queue sh budget pen = Some r"
  shows "snd (core (fst r)) = snd (core sh)"
proof (rule ingest_loop.raw_induct [OF _ assms, where P = "\<lambda>X queue sh budget pen r. snd (core (fst r)) = snd (core sh)"])
  fix loop X queue sh budget pen r
  assume IH: "\<And>X queue sh budget pen r. loop X queue sh budget pen = Some r \<Longrightarrow> snd (core (fst r)) = snd (core sh)"
    and r: "(case queue of [] \<Rightarrow> Some (sh, budget, pen)
        | (b, is_direct) # rest \<Rightarrow>
          (case ingest_one X b is_direct sh budget pen of None \<Rightarrow> None
           | Some (sh', budget', penalty', chs) \<Rightarrow> loop X (rev (map (\<lambda>c. (c, False)) chs) @ rest) sh' budget' penalty')) = Some r"
  show "snd (core (fst r)) = snd (core sh)"
    using r IH ingest_one_core [of X _ _ sh budget pen] by (auto split: list.splits prod.splits option.splits)
qed

definition roomy :: "shared \<Rightarrow> bool" where
  \<comment> \<open>room in the reachability index for a block and every orphan\<close>
  "roomy sh \<longleftrightarrow> length (dag (sh_state sh)) + MAX_ORPHANS + MAX_BLOCK_PARENTS < 2 ^ 41"

lemma ingest_block_hist:
  assumes h: "hist_ok E lab sh" and ok: "net_ok E pip sh" and room: "roomy sh" and X: "ctx_for E lab pip X"
    and r: "ingest_block X b sh bu = Some (sh', bu', pen)"
  shows "hist_ok E lab sh'"
proof (cases "best_pruning_work sh = 0")
  case True
  have c: "snd (core sh') = snd (core sh)" using ingest_loop_core r unfolding ingest_block_def by fastforce
  have s: "length (dag (sh_state sh)) + hsum length (orphans sh) + 1 < 2 ^ 41" using room net_okD(8) [OF ok] by (simp add: roomy_def)
  have "node_hist E lab True (sh_state sh)" using h True by (simp add: hist_ok_def)
  from ingest_block_effect [OF this s, of X b bu] X r have "node_hist E lab True (sh_state sh')" by (fastforce simp: ctx_for_def loop_effect_def)
  then show ?thesis using h c True by (simp add: hist_ok_def core_def)
next
  case False
  have "snd (core sh') = snd (core sh)" using ingest_loop_core r unfolding ingest_block_def by fastforce
  then show ?thesis using False by (simp add: hist_ok_def core_def)
qed

lemma import_error: "import_verified_pruning_headers E hs cs = Some (cs', Inl e) \<Longrightarrow> cs' = cs"
  by (auto simp: import_verified_pruning_headers_def Let_def split: if_splits option.splits)

lemma pruning_handlers_hist:
  assumes h: "hist_ok E lab sh"
  shows "on_pruning_proof X conn hs sh = Some (sh', pen) \<Longrightarrow> hist_ok E lab sh'"
    "on_multilevel_proof X conn p sh = Some (sh', pen) \<Longrightarrow> hist_ok E lab sh'"
    "hist_ok E lab (fst (on_pp_ledger X l sh))"
proof -
  have n: "hist_ok E lab (note_adopted w pp s)" if "w > best_pruning_work s" for w pp s
    using that by (simp add: hist_ok_def note_adopted_def)
  have e: "hist_ok E lab (s\<lparr>expecting_pruning_proof := x\<rparr>) = hist_ok E lab s" for s x by (simp add: hist_ok_def)
  have sn: "hist_ok E lab (send X conn m s) = hist_ok E lab s" for m s by (rule hist_ok_core) simp
  show "on_pruning_proof X conn hs sh = Some (sh', pen) \<Longrightarrow> hist_ok E lab sh'"
    using h by (auto simp: on_pruning_proof_def Let_def sn e n split: if_splits option.splits sum.splits prod.splits dest!: import_error)
  have a: "hist_ok E lab s" if "adopt_multilevel X hs' sh sm = Some (s, r)" for hs' sm s r
    using that h by (auto simp: adopt_multilevel_def n split: if_splits option.splits sum.splits prod.splits dest!: import_error)
  show "on_multilevel_proof X conn p sh = Some (sh', pen) \<Longrightarrow> hist_ok E lab sh'"
    using h a by (fastforce simp: on_multilevel_proof_def adopt_multilevel_pruning_proof_fresh_def Let_def sn e
        split: option.splits sum.splits prod.splits if_splits bool.splits)
  show "hist_ok E lab (fst (on_pp_ledger X l sh))"
    using h by (auto simp: on_pp_ledger_def hist_ok_def split: prod.splits sum.splits)
qed

lemma dispatch_hist:
  assumes d: "dispatch X msg c sh = Some (sh', c', pen)" and h: "hist_ok E lab sh" and ok: "net_ok E pip sh" and room: "roomy sh" and X: "ctx_for E lab pip X"
  shows "hist_ok E lab sh'"
proof -
  have same: "hist_ok E lab sh'" if "core sh' = core sh" using hist_ok_core h that by blast
  show ?thesis
  proof (cases msg)
    case (MBlock b)
    then obtain s bu where i: "ingest_block X b sh (cn_budget c) = Some (s, bu, pen)" "sh' = clear_body_inflight (block_hash (nx_env X) b) s" using d by auto
    have "hist_ok E lab s" by (rule ingest_block_hist [OF h ok room X i(1)])
    then show ?thesis using hist_ok_core [of sh' s E lab] i(2) by simp
  next
    case (MUtxoTx tx)
    obtain cs r where a: "admit_utxo_to_mempool (nx_env X) (wall X) tx (sh_state sh) = (cs, r)" by fastforce
    have "core sh' = core (sh\<lparr>sh_state := cs\<rparr>)" using d a MUtxoTx by (auto simp: relay_utxo_def split: sum.splits)
    moreover have "hist_ok E lab (sh\<lparr>sh_state := cs\<rparr>)" using h node_hist.utxo [of E lab True "sh_state sh" "wall X" tx cs r] a X by (auto simp: hist_ok_def ctx_for_def)
    ultimately show ?thesis using hist_ok_core by blast
  next
    case (MPruningProof hs)
    then show ?thesis using d pruning_handlers_hist(1) [OF h] by auto
  next
    case (MMultiLevelPruningProof p)
    then show ?thesis using d pruning_handlers_hist(2) [OF h] by auto
  next
    case (MPruningPointLedger l)
    then show ?thesis using d pruning_handlers_hist(3) [OF h, of X l] by (auto split: prod.splits)
  next
    case (Tips ts)
    then have "core sh' = core sh" using d by (auto simp: no_penalty_def intro!: fold_core)
    then show ?thesis by (rule same)
  next
    case (TxPackage txs)
    then have "core sh' = core sh" using d relay_all_eq [of X "take MAX_TX_PACKAGE txs" sh 0] by auto
    then show ?thesis by (rule same)
  next
    case (CompactBlock hh n sids pre)
    then have "core sh' = core sh" using d by (auto dest: core_partial)
    then show ?thesis by (rule same)
  next
    case (BlockTxn hh txs)
    then have "core sh' = core sh" using d by (auto dest: core_partial)
    then show ?thesis by (rule same)
  next
    case (Headers hs)
    then have "core sh' = core sh" using d by (auto dest: core_partial)
    then show ?thesis by (rule same)
  next
    case GetMultiLevelPruningProof
    then have "core sh' = core sh" using d by (auto dest: core_partial)
    then show ?thesis by (rule same)
  next
    case (GetPruningPointLedger pp)
    then have "core sh' = core sh" using d by (auto dest: core_partial)
    then show ?thesis by (rule same)
  next
    case (Hello ver magic cid score la)
    then have "core sh' = core sh" using d by (auto simp: no_penalty_def split: if_splits)
    then show ?thesis by (rule same)
  next
    case GetPruningProof
    then have "core sh' = core sh" using d by (auto split: option.splits)
    then show ?thesis by (rule same)
  qed (rule same, use d in \<open>force simp: no_penalty_def relay_transparent_eq split: if_splits\<close>)+
qed

lemma core_ban_close [simp]: "core (ban_peer X c sh) = core sh" "core (close_conn c sh) = core sh"
  by (auto simp: ban_peer_def close_conn_def Let_def split: option.splits)

lemma conn_turn_hist:
  assumes t: "conn_turn X input c sh = Some (sh', c', go)" and h: "hist_ok E lab sh" and ok: "net_ok E pip sh" and room: "roomy sh" and X: "ctx_for E lab pip X"
  shows "hist_ok E lab sh'"
proof -
  define f where "f m = (case m of FeeFilter f \<Rightarrow> set_fee_filter (cn_id (decay_ban X c)) f sh | _ \<Rightarrow> sh)" for m
  have c: "core (f m) = core sh" for m by (auto simp: f_def split: message.splits)
  have f: "hist_ok E lab (f m)" "roomy (f m)" "net_ok E pip (f m)" for m
    using hist_ok_core [OF c] h room c [of m] ok set_fee_filter_ok by (auto simp: roomy_def core_def) (auto simp: f_def split: message.splits)
  have b: "hist_ok E lab (ban_peer X c3 s) = hist_ok E lab s" for c3 s by (rule hist_ok_core) simp
  show ?thesis using t h dispatch_hist [OF _ f(1,3,2) X]
    by (auto simp: conn_turn_def Let_def f_def [symmetric] b split: option.splits prod.splits if_splits bool.splits)
qed

section \<open>Histories\<close>

inductive p2p_run :: "env \<Rightarrow> bool \<Rightarrow> (string \<Rightarrow> ip_addr option) \<Rightarrow> chain_state \<Rightarrow> shared \<Rightarrow> bool" for E lab pip cs0 where
  start: "p2p_run E lab pip cs0 (shared_new cs0)"
| accept: "p2p_run E lab pip cs0 sh \<Longrightarrow> ctx_for E lab pip X \<Longrightarrow> conn \<notin> ph_conn ` set (peers sh)
    \<Longrightarrow> open_conn X conn ip hh first dialed own sh = (sh', c) \<Longrightarrow> p2p_run E lab pip cs0 sh'"
| turn: "p2p_run E lab pip cs0 sh \<Longrightarrow> ctx_for E lab pip X \<Longrightarrow> roomy sh
    \<Longrightarrow> conn_turn X input c sh = Some (sh', c', go) \<Longrightarrow> p2p_run E lab pip cs0 sh'"
| close: "p2p_run E lab pip cs0 sh \<Longrightarrow> p2p_run E lab pip cs0 (close_conn c sh)"
| listen: "p2p_run E lab pip cs0 sh \<Longrightarrow> p2p_run E lab pip cs0 (node_listen a sh)"
| connect: "p2p_run E lab pip cs0 sh \<Longrightarrow> ctx_for E lab pip X \<Longrightarrow> p2p_run E lab pip cs0 (node_connect X a sh)"
| discovery: "p2p_run E lab pip cs0 sh \<Longrightarrow> ctx_for E lab pip X \<Longrightarrow> p2p_run E lab pip cs0 (discovery_tick X sh)"
| announce_tip: "p2p_run E lab pip cs0 sh \<Longrightarrow> ctx_for E lab pip X \<Longrightarrow> p2p_run E lab pip cs0 (fst (tip_tick X tip sh))"
| announce_txs: "p2p_run E lab pip cs0 sh \<Longrightarrow> ctx_for E lab pip X \<Longrightarrow> p2p_run E lab pip cs0 (fst (mempool_tick X an au sh))"
| ask_proof: "p2p_run E lab pip cs0 sh \<Longrightarrow> ctx_for E lab pip X \<Longrightarrow> p2p_run E lab pip cs0 (request_pruning_proof X sh)"
| ask_linear: "p2p_run E lab pip cs0 sh \<Longrightarrow> ctx_for E lab pip X \<Longrightarrow> p2p_run E lab pip cs0 (request_linear_pruning_proof X sh)"
| local_block: "p2p_run E lab pip cs0 sh \<Longrightarrow> roomy sh \<Longrightarrow> add_block E lab now pin b (sh_state sh) = Some (cs, r)
    \<Longrightarrow> p2p_run E lab pip cs0 (sh\<lparr>sh_state := cs\<rparr>)"
| local_utxo: "p2p_run E lab pip cs0 sh \<Longrightarrow> admit_utxo_to_mempool E now tx (sh_state sh) = (cs, r) \<Longrightarrow> p2p_run E lab pip cs0 (sh\<lparr>sh_state := cs\<rparr>)"
| local_registry: "p2p_run E lab pip cs0 sh \<Longrightarrow> admit_registry_to_mempool E pm op (sh_state sh) = (cs, r)
    \<Longrightarrow> p2p_run E lab pip cs0 (sh\<lparr>sh_state := cs\<rparr>)"
| local_custody: "p2p_run E lab pip cs0 sh \<Longrightarrow> admit_custody_to_mempool E pm cop (sh_state sh) = (cs, r)
    \<Longrightarrow> p2p_run E lab pip cs0 (sh\<lparr>sh_state := cs\<rparr>)"

lemma p2p_run_ok: "p2p_run E lab pip cs0 sh \<Longrightarrow> net_ok E pip sh"
proof (induction rule: p2p_run.induct)
  case start
  show ?case by (simp add: net_ok_def shared_new_def addrman_run.start MAX_ORPHANS_def)
qed (auto simp: node_listen_def intro: open_conn_ok conn_turn_ok close_conn_ok ticks_ok)

lemma core_open_conn: "open_conn X conn ip hh first dialed own sh = (sh', c) \<Longrightarrow> core sh' = core sh"
  by (auto simp: open_conn_def Let_def split: prod.splits if_splits option.splits)

lemma core_ticks [simp]:
  "core (node_listen a sh) = core sh" "core (node_connect X a sh) = core sh" "core (discovery_tick X sh) = core sh"
  "core (fst (tip_tick X tip sh)) = core sh" "core (fst (mempool_tick X an au sh)) = core sh"
  "core (request_pruning_proof X sh) = core sh" "core (request_linear_pruning_proof X sh) = core sh"
proof -
  have d: "core (dial_candidates X as s) = core s" for as s by (induction X as s rule: dial_candidates.induct) auto
  show "core (node_listen a sh) = core sh" "core (node_connect X a sh) = core sh" "core (discovery_tick X sh) = core sh"
    "core (fst (tip_tick X tip sh)) = core sh" "core (fst (mempool_tick X an au sh)) = core sh"
    "core (request_pruning_proof X sh) = core sh" "core (request_linear_pruning_proof X sh) = core sh"
    by (auto simp: node_listen_def node_connect_def discovery_tick_def tip_tick_def mempool_tick_def request_pruning_proof_def
        request_linear_pruning_proof_def broadcast_tx_def broadcast_utxo_tx_def d fold_core Let_def split: option.splits)
qed

lemmas hist_ok_ticks = core_ticks [THEN hist_ok_core] core_ban_close(2) [THEN hist_ok_core]

lemma local_hist: "hist_ok E lab sh \<Longrightarrow> (node_hist E lab True (sh_state sh) \<Longrightarrow> node_hist E lab True cs) \<Longrightarrow> hist_ok E lab (sh\<lparr>sh_state := cs\<rparr>)"
  by (simp add: hist_ok_def)

lemma p2p_run_hist: "p2p_run E lab pip cs0 sh \<Longrightarrow> node_hist E lab True cs0 \<Longrightarrow> hist_ok E lab sh"
proof (induction rule: p2p_run.induct)
  case start
  then show ?case by (simp add: hist_ok_def shared_new_def)
next
  case (accept sh X conn ip hh first dialed own sh' c)
  then show ?case using core_open_conn hist_ok_core by blast
next
  case (turn sh X input c sh' c' go)
  then show ?case using conn_turn_hist p2p_run_ok by blast
next
  case (local_block sh now pin b cs r)
  have "length (dag (sh_state sh)) < 2 ^ 41" using local_block.hyps(2) by (simp add: roomy_def)
  then show ?case using local_hist [OF local_block.IH [OF local_block.prems]] node_hist.block local_block.hyps(3) by blast
next
  case (local_utxo sh now tx cs r)
  then show ?case using local_hist node_hist.utxo by blast
next
  case (local_registry sh pm op cs r)
  then show ?case using local_hist node_hist.registry by blast
next
  case (local_custody sh pm cop cs r)
  then show ?case using local_hist node_hist.custody by blast
qed (simp_all only: hist_ok_ticks)

section \<open>What peers can block\<close>

text \<open>
  Four consequences of the code as it is. A peer that greets with an address makes the node take that address as connected
  and never dial it. Announced hashes that no peer delivers fill the budget of body requests, and nothing is
  requested any more. Any reply to a request for headers whose headers carry keys of 2592 bytes is over the limit of its
  message type, so the peer that answers is charged. And a multi-level proof of more than 107 such headers is
  never sent, although the builder puts at least twice the difficulty window in it when the chain has it.
\<close>

lemma hello_blocks_dial: "dial Y a (on_hello X conn score (Some a) sh) = on_hello X conn score (Some a) sh"
proof -
  have c: "connected_addrs (send Z k m s) = connected_addrs s" for Z k m s by (simp add: send_def)
  have "a \<in> set (connected_addrs (on_hello X conn score (Some a) sh))" by (simp add: on_hello_def Let_def c)
  then show ?thesis by (simp add: dial_def)
qed

lemma full_budget_requests_nothing:
  assumes "MAX_IN_FLIGHT_BODIES \<le> length (filter (should_fetch sh) (in_flight_bodies sh))"
  shows "outbox (request_block_body X conn h sh) = outbox sh"
  using assms by (simp add: request_block_body_def Let_def)

lemma sum_keys: "\<forall>h\<in>set hs. length (creator_pubkey h) = 2592 \<Longrightarrow> sum_list (map (\<lambda>h. length (creator_pubkey h)) hs) = 2592 * length hs"
  by (induction hs) auto

lemma headers_over_cap:
  assumes "hs \<noteq> []" and "length hs \<le> MAX_HEADERS_PER_MSG" and "\<forall>h\<in>set hs. length (creator_pubkey h) = 2592"
    and "sum_list (map (\<lambda>h. length (creator_pubkey h)) hs) \<le> n"
  shows "\<not> message_within_type_cap (Headers hs) n"
proof -
  have "1 \<le> length hs" using assms(1) by (simp add: Suc_le_eq)
  moreover have "sat_mul64 (min (length hs) MAX_HEADERS_PER_MSG) 512 \<le> length hs * 512" by (simp add: sat_mul64_def)
  ultimately show ?thesis using assms(4) sum_keys [OF assms(3)] by (simp add: message_within_type_cap_def)
qed

lemma long_proof_not_sent:
  assumes "\<forall>h\<in>set (recent_headers p). length (creator_pubkey h) = 2592" and "107 < length (recent_headers p)"
    and "sum_list (map (\<lambda>h. length (creator_pubkey h)) (recent_headers p)) \<le> length (nx_ser X (MMultiLevelPruningProof p))"
  shows "send X conn (MMultiLevelPruningProof p) sh = sh"
  using assms sum_keys [OF assms(1)] by (simp add: send_def MAX_MESSAGE_BYTES_def MAX_BLOCK_BYTES_def)

section \<open>Properties\<close>


definition demo_ctx :: net_ctx where
  "demo_ctx = \<lparr>nx_env = demo_chain_env, nx_lab = True, nx_pin = None,
     nx_policy = \<lparr>public_mode = False, api_token = None, strict_dials = False, peer_msg_limit = 4000, stark_verifies_per_window = 16,
       stark_window = 10000, cors_origins = [], api_write_limit_per_window = 60\<rparr>,
     nx_pins = \<lparr>pin_keys = [], by_addr = [], pin_strict = False\<rparr>, nx_ser = (\<lambda>_. []), nx_parse_ip = (\<lambda>_. None), nx_connects = (\<lambda>_. True),
     inst = 0, wall = 0\<rparr>"

lemma demo_ctx_for: "ctx_for demo_chain_env True (\<lambda>_. None) demo_ctx"
  by (simp add: ctx_for_def demo_ctx_def)

lemma demo_accepts:
  obtains sh c where "open_conn demo_ctx 1 None [] (Some (Identity [0] [0])) None (Some ([0], [0])) (shared_new cs) = (sh, Some c)"
    and "map ph_conn (peers sh) = [1]" and "core sh = core (shared_new cs)"
proof -
  have a: "pq_authenticate demo_ctx [] (Some (Identity [0] [0])) None"
    by (simp add: pq_authenticate_def verify_pq512_def verify_signature_def check_peer_identity_def demo_ctx_def demo_chain_env_def demo_env_def)
  obtain sh where r: "open_conn demo_ctx 1 None [] (Some (Identity [0] [0])) None (Some ([0], [0])) (shared_new cs) = (sh, Some (new_conn demo_ctx 1 None None))"
    and p: "map ph_conn (peers sh) = [1]"
    using a by (simp add: open_conn_def Let_def shared_new_def MAX_PEERS_def)
  from that [OF r p core_open_conn [OF r]] show thesis .
qed


text \<open>
  C12. The network does not touch the ledger behind consensus. Whatever peers send to an archival node, and however
  it is interleaved with local blocks and transactions, as long as no pruning proof has been adopted the chain state
  is one that block admission and mempool admission alone produce from where it started; so the live ledger is the
  replay of the canonical order from genesis.
\<close>
theorem p2p_chain_is_history:
  assumes run: "p2p_run E lab pip cs0 sh" and start: "node_hist E lab True cs0" and none: "best_pruning_work sh = 0"
  shows "node_hist E lab True (sh_state sh)
    \<and> (\<exists>ord. canonical_order (sh_state sh) = Some ord \<and> live (sh_state sh) = replay E (sh_state sh) ord ledger_default)"
proof -
  have h: "node_hist E lab True (sh_state sh)" using p2p_run_hist [OF run start] none by (simp add: hist_ok_def)
  show ?thesis using h chain_inv_live [OF node_hist_inv [OF h]] by blast
qed

theorem p2p_chain_is_history_witness:
  "\<exists>cs sh. hget (dag cs) 7 = Some demo_b1 \<and> p2p_run demo_chain_env True (\<lambda>_. None) cs sh \<and> map ph_conn (peers sh) = [1]
    \<and> node_hist demo_chain_env True True (sh_state sh)"
proof -
  obtain cs where c: "node_run demo_chain_env True True cs" "hget (dag cs) 7 = Some demo_b1" by (rule demo_node)
  obtain sh c1 where o: "open_conn demo_ctx 1 None [] (Some (Identity [0] [0])) None (Some ([0], [0])) (shared_new cs) = (sh, Some c1)"
    "map ph_conn (peers sh) = [1]" "core sh = core (shared_new cs)" by (rule demo_accepts)
  have r: "p2p_run demo_chain_env True (\<lambda>_. None) cs sh"
    by (rule p2p_run.accept [OF p2p_run.start demo_ctx_for _ o(1)]) (simp add: shared_new_def)
  have "best_pruning_work sh = 0" using o(3) by (simp add: core_def shared_new_def)
  from p2p_chain_is_history [OF r node_run_hist [OF c(1)] this] r o(2) c(2) show ?thesis by (intro exI [of _ cs] exI [of _ sh]) simp
qed

text \<open>
  C14. A received block is always settled. On an archival node with any history and any orphan pool, \<open>ingest_block\<close>
  returns, the cascade of orphans it sets free included; no block of the DAG is lost and every new one is the received block or
  an orphan; and for the received block one of three things holds: it is in the DAG and its sender is not charged,
  the checks find a parent of it missing and its sender is not charged, or it is refused and its sender is charged 20 or 50 points.
\<close>
theorem ingest_block_settles:
  assumes hist: "node_hist E lab True (sh_state sh)" and size: "length (dag (sh_state sh)) + hsum length (orphans sh) + 1 < 2 ^ 41"
    and X: "nx_env X = E" "nx_lab X = lab"
  shows "\<exists>sh' bu' pen. ingest_block X b sh bu = Some (sh', bu', pen) \<and> node_hist E lab True (sh_state sh')
    \<and> (\<forall>h. have_block sh h \<longrightarrow> have_block sh' h)
    \<and> (\<forall>h. have_block sh' h \<longrightarrow> have_block sh h \<or> h = block_hash E b \<or> h \<in> orphan_hashes E sh)
    \<and> (pen = 0 \<and> (have_block sh' (block_hash E b) \<or> asks_parent (precheck_block E lab (sh_state sh) b)
          \<or> asks_parent (map_option snd (add_block E lab (wall X) (nx_pin X) b (sh_state sh))))
       \<or> pen \<in> {20, 50} \<and> \<not> have_block sh' (block_hash E b) \<and> \<not> asks_parent (precheck_block E lab (sh_state sh) b))"
proof -
  obtain sh' bu' pen where i: "ingest_block X b sh bu = Some (sh', bu', pen)" "loop_effect E lab [(b, True)] sh sh'" "verdict X sh sh' b pen"
    using ingest_block_effect [OF hist size X, of b bu] by blast
  have "\<forall>h. have_block sh' h \<longrightarrow> have_block sh h \<or> h = block_hash E b \<or> h \<in> orphan_hashes E sh"
    "\<forall>h. have_block sh h \<longrightarrow> have_block sh' h" "node_hist E lab True (sh_state sh')"
    using i(2) by (auto simp: loop_effect_def have_block_def candidates_def)
  then show ?thesis using i(1,3) X by (auto simp: verdict_def Let_def INVALID_BLOCK_PENALTY_def INVALID_STARK_PENALTY_def)
qed

theorem ingest_block_settles_witness:
  "\<exists>cs sh' bu' pen. hget (dag cs) 7 = Some demo_b1 \<and> ingest_block demo_ctx demo_b1 (shared_new cs) (stark_budget_new 16 10000) = Some (sh', bu', pen)
    \<and> have_block sh' 7 \<and> node_hist demo_chain_env True True (sh_state sh')"
proof -
  obtain cs where c: "node_run demo_chain_env True True cs" "hget (dag cs) 7 = Some demo_b1" "length (dag cs) = 2" by (rule demo_node)
  have "node_hist demo_chain_env True True (sh_state (shared_new cs))" using node_run_hist [OF c(1)] by (simp add: shared_new_def)
  moreover have "length (dag (sh_state (shared_new cs))) + hsum length (orphans (shared_new cs)) + 1 < 2 ^ 41" using c(3) by (simp add: shared_new_def)
  ultimately obtain sh' bu' pen where r: "ingest_block demo_ctx demo_b1 (shared_new cs) (stark_budget_new 16 10000) = Some (sh', bu', pen)"
    "node_hist demo_chain_env True True (sh_state sh')" "\<forall>h. have_block (shared_new cs) h \<longrightarrow> have_block sh' h"
    using ingest_block_settles [of demo_chain_env True "shared_new cs" demo_ctx demo_b1 "stark_budget_new 16 10000"] by (auto simp: demo_ctx_def)
  have "have_block (shared_new cs) 7" using c(2) by (simp add: have_block_def shared_new_def hhas_def)
  then show ?thesis using r c(2) by blast
qed

end
