(* ===== verification/Stratum.thy ===== *)
theory Stratum
  imports Account_Pool Versionbits Net_Policy
begin

text \<open>
  The pool endpoint, \<open>src/stratum.rs\<close>: worker authorization, jobs, submission of shares, and the JSON-RPC requests that
  reach them. The state behind the mutexes is the record \<open>stratum_server\<close>; the chain state and the clock are arguments.

  A JSON value is what \<open>serde_json::Value\<close> documents; \<open>JFloat\<close> stands for every number that is not an integer, which the
  code never reads. Objects are lists of members.
\<close>

section \<open>JSON values\<close>

datatype json = JNull | JBool bool | JNum int | JFloat | JStr string | JArr "json list" | JObj "(string \<times> json) list"

fun as_array :: "json \<Rightarrow> json list option" where
  "as_array (JArr xs) = Some xs"
| "as_array _ = None"

fun as_str :: "json \<Rightarrow> string option" where
  "as_str (JStr s) = Some s"
| "as_str _ = None"

fun as_uint :: "json \<Rightarrow> nat option" where
  "as_uint (JNum i) = (if 0 \<le> i \<and> i < 2 ^ 64 then Some (nat i) else None)"
| "as_uint _ = None"

fun get_member :: "json \<Rightarrow> string \<Rightarrow> json option" where
  "get_member (JObj ms) k = hget ms k"
| "get_member _ k = None"

definition nth_opt :: "'a list \<Rightarrow> nat \<Rightarrow> 'a option" where
  "nth_opt xs i = (if i < length xs then Some (xs ! i) else None)"

section \<open>Numbers as text\<close>

definition digit_char :: "nat \<Rightarrow> char" where
  "digit_char d = char_of (if d < 10 then 48 + d else 87 + d)"

definition digit_val :: "char \<Rightarrow> nat" where
  "digit_val c = (let n = of_char c :: nat in if n < 58 then n - 48 else if n < 71 then n - 55 else n - 87)"

function radix_str :: "nat \<Rightarrow> nat \<Rightarrow> string" where
  "radix_str b n = (if b < 2 \<or> n < b then [digit_char n] else radix_str b (n div b) @ [digit_char (n mod b)])"
  by pat_completeness auto
termination by (relation "measure snd") (auto simp: not_less)

declare radix_str.simps [simp del]

abbreviation hex_str :: "nat \<Rightarrow> string" where "hex_str \<equiv> radix_str 16"
abbreviation dec_str :: "nat \<Rightarrow> string" where "dec_str \<equiv> radix_str 10"

definition pad8 :: "string \<Rightarrow> string" where
  "pad8 s = replicate (8 - length s) CHR ''0'' @ s"

definition parse_hex_u64 :: "string \<Rightarrow> nat option" where
  \<comment> \<open>\<open>u64::from_str_radix(s, 16)\<close>: an optional plus sign, then digits\<close>
  "parse_hex_u64 s =
     (let d = (if s \<noteq> [] \<and> hd s = CHR ''+'' then tl s else s);
          v = foldl (\<lambda>n c. n * 16 + digit_val c) 0 d
      in if d = [] \<or> \<not> list_all is_hexdigit d \<or> v \<ge> 2 ^ 64 then None else Some v)"

section \<open>State\<close>

definition DEFAULT_SHARE_DIFFICULTY :: nat where "DEFAULT_SHARE_DIFFICULTY = 16"
definition MIN_SHARE_DIFFICULTY :: nat where "MIN_SHARE_DIFFICULTY = 1"
definition MAX_SHARE_DIFFICULTY :: nat where "MAX_SHARE_DIFFICULTY = 1000000"
definition MAX_STRATUM_WORKERS :: nat where "MAX_STRATUM_WORKERS = 256"
definition MAX_SUBMITS_PER_WINDOW :: nat where "MAX_SUBMITS_PER_WINDOW = 120"
definition SUBMIT_WINDOW_MS :: nat where "SUBMIT_WINDOW_MS = 60000"
definition MAX_CONSECUTIVE_REJECTS :: nat where "MAX_CONSECUTIVE_REJECTS = 32"
definition WORKER_BAN_MS :: nat where "WORKER_BAN_MS = 60000"
definition MAX_JOB_AGE_MS :: nat where "MAX_JOB_AGE_MS = 120000"
definition MAX_NONCES_PER_JOB :: nat where "MAX_NONCES_PER_JOB = 4096"

record stratum_share =
  sh_worker :: string
  sh_job_id :: string
  sh_nonce :: nat
  sh_block_hash :: hash
  sh_difficulty :: nat
  sh_accepted :: bool

record worker_state =
  w_authorized :: bool
  w_share_diff :: nat
  w_accepted :: nat
  w_rejected :: nat
  w_consecutive_rejects :: nat
  w_window_start_ms :: nat
  w_window_submits :: nat
  w_banned_until_ms :: nat

record stratum_job =
  j_id :: string
  j_template_hash :: hash
  j_difficulty :: nat
  j_created_ms :: nat
  j_seen_nonces :: "nat list"

record stratum_server =
  sv_workers :: "(string, worker_state) hmap"
  sv_jobs :: "(string, stratum_job) hmap"
  sv_shares :: "stratum_share list"
  sv_next_job :: nat
  sv_password :: "string option"

definition stratum_new :: "(string \<Rightarrow> string option) \<Rightarrow> stratum_server" where
  "stratum_new vars =
     \<lparr>sv_workers = [], sv_jobs = [], sv_shares = [], sv_next_job = 1,
      sv_password = (case vars ''HASSAN_STRATUM_PASSWORD'' of None \<Rightarrow> None | Some p \<Rightarrow> if p = [] then None else Some p)\<rparr>"

definition extranonce1 :: "env \<Rightarrow> string" where
  "extranonce1 E = hex_encode E [0x48, 0x53, 0x4e, 0x01]"

definition new_worker :: "bool \<Rightarrow> nat \<Rightarrow> worker_state" where
  "new_worker auth now =
     \<lparr>w_authorized = auth, w_share_diff = DEFAULT_SHARE_DIFFICULTY, w_accepted = 0, w_rejected = 0, w_consecutive_rejects = 0,
      w_window_start_ms = now, w_window_submits = 0, w_banned_until_ms = 0\<rparr>"

section \<open>Authorization\<close>

definition worker_name :: "json list option \<Rightarrow> string" where
  "worker_name arr =
     (case Option.bind (Option.bind arr (\<lambda>a. nth_opt a 0)) as_str of None \<Rightarrow> ''default'' | Some s \<Rightarrow> s)"

definition authorize :: "nat \<Rightarrow> json \<Rightarrow> stratum_server \<Rightarrow> stratum_server \<times> json result" where
  \<comment> \<open>the first message goes on to name the variable that holds the password\<close>
  "authorize now params srv =
     (let arr = as_array params;
          worker = worker_name arr;
          password = (case Option.bind (Option.bind arr (\<lambda>a. nth_opt a 1)) as_str of None \<Rightarrow> '''' | Some s \<Rightarrow> s)
      in case sv_password srv of
           None \<Rightarrow> (srv, Err ''stratum auth not configured'')
         | Some expected \<Rightarrow>
             if password \<noteq> expected then (srv, Err ''unauthorized'')
             else if \<not> hhas (sv_workers srv) worker \<and> length (sv_workers srv) \<ge> MAX_STRATUM_WORKERS
             then (srv, Err ''too many stratum workers'')
             else (srv\<lparr>sv_workers := hput worker (new_worker True now) (sv_workers srv)\<rparr>, Ok (JBool True)))"

section \<open>Jobs\<close>

definition drop_old_jobs :: "(string, stratum_job) hmap \<Rightarrow> (string, stratum_job) hmap" where
  "drop_old_jobs jobs =
     (if length jobs > 256
      then let by_age = sort_key snd (map (\<lambda>(k, j). (k, j_created_ms j)) jobs)
           in fold (\<lambda>(k, _). hdel k) (take (length jobs div 2) by_age) jobs
      else jobs)"

definition job_template :: "env \<Rightarrow> string \<Rightarrow> hash list \<Rightarrow> nat \<Rightarrow> hash" where
  "job_template E job_id ps diff =
     blake3_512 E (str_bytes ''hassan-stratum-job-v1'' @ str_bytes job_id @ concat (map hash_bytes ps) @ le_bytes 8 diff)"

definition make_notify :: "env \<Rightarrow> bool \<Rightarrow> nat \<Rightarrow> chain_state \<Rightarrow> stratum_server \<Rightarrow> (stratum_server \<times> json result) option" where
  "make_notify E lab ts cs srv =
     (case expected_difficulty_at lab (dag cs) (ghostdag cs) (minted_supply (live cs)) (tips cs) ts of
        None \<Rightarrow> None
      | Some diff \<Rightarrow>
          let job_id = hex_str (sv_next_job srv);
              template_hash = job_template E job_id (tips cs) diff;
              j = \<lparr>j_id = job_id, j_template_hash = template_hash, j_difficulty = diff, j_created_ms = ts, j_seen_nonces = []\<rparr>
          in Some (srv\<lparr>sv_next_job := sat_add64 (sv_next_job srv) 1, sv_jobs := drop_old_jobs (hput job_id j (sv_jobs srv))\<rparr>,
               Ok (JArr [JStr job_id, JStr (hex_encode E (hash_bytes template_hash)), JStr [], JStr [],
                 JArr (map (\<lambda>p. JStr (hex_encode E (hash_bytes p))) (tips cs)),
                 JStr (pad8 (hex_str (unat (miner_version [0, 1, 2])))), JStr (hex_str diff), JStr (hex_str ts), JBool True])))"

definition first_tip :: "chain_state \<Rightarrow> hash" where
  "first_tip cs = (case tips cs of [] \<Rightarrow> 0 | t # _ \<Rightarrow> t)"

definition get_block_template :: "env \<Rightarrow> bool \<Rightarrow> nat \<Rightarrow> chain_state \<Rightarrow> json result option" where
  "get_block_template E lab ts cs =
     (case expected_difficulty_at lab (dag cs) (ghostdag cs) (minted_supply (live cs)) (tips cs) ts of
        None \<Rightarrow> None
      | Some diff \<Rightarrow>
          (case select_valid_block_txs E cs (transparent_mempool cs) of
             None \<Rightarrow> None
           | Some txs \<Rightarrow>
               Some (Ok (JObj
                 [(''version'', JNum (int (unat (miner_version [0, 1, 2])))),
                  (''parents'', JArr (map (\<lambda>p. JStr (hex_encode E (hash_bytes p))) (tips cs))),
                  (''difficulty'', JNum (int diff)), (''curtime'', JNum (int ts)),
                  (''mintime'', JNum (int (past_median_time (dag cs) (ghostdag cs) (first_tip cs)))),
                  (''state_root_hint'', JStr (hex_encode E (hash_bytes (ledger_merkle_root E (live cs))))),
                  (''utxo_commitment'', JStr (hex_encode E (hash_bytes (commitment E (utxo (live cs)))))),
                  (''transactions'', JArr (map (\<lambda>t. JObj
                     [(''txid'', JStr (hex_encode E (hash_bytes (transparent_tx_hash E t)))), (''fee'', JStr (dec_str (t_fee t))),
                      (''from'', JStr (t_from t)), (''to'', JStr (t_to t)), (''amount'', JStr (dec_str (t_amount t)))]) txs)),
                  (''target_block_time_ms'', JNum (int TARGET_BLOCK_TIME_MS)),
                  (''longpollid'', JStr (hex_encode E (hash_bytes (first_tip cs))))]))))"

section \<open>Shares\<close>

definition count_reject :: "worker_state \<Rightarrow> worker_state" where
  "count_reject w = w\<lparr>w_rejected := sat_add64 (w_rejected w) 1,
     w_consecutive_rejects := min (w_consecutive_rejects w + 1) u32_max\<rparr>"

definition ban_worker :: "nat \<Rightarrow> worker_state \<Rightarrow> worker_state" where
  "ban_worker now w =
     (if w_consecutive_rejects w \<ge> MAX_CONSECUTIVE_REJECTS then w\<lparr>w_banned_until_ms := sat_add64 now WORKER_BAN_MS\<rparr> else w)"

definition worker_gate :: "nat \<Rightarrow> worker_state \<Rightarrow> worker_state \<times> string option" where
  \<comment> \<open>the checks on the worker; \<open>Some\<close> is the error\<close>
  "worker_gate now w =
     (if \<not> w_authorized w then (w\<lparr>w_rejected := sat_add64 (w_rejected w) 1\<rparr>, Some ''unauthorized'')
      else if now < w_banned_until_ms w then (w, Some ''worker temporarily banned'')
      else
        let w1 = (if now - w_window_start_ms w \<ge> SUBMIT_WINDOW_MS then w\<lparr>w_window_start_ms := now, w_window_submits := 0\<rparr> else w);
            w2 = w1\<lparr>w_window_submits := min (w_window_submits w1 + 1) u32_max\<rparr>
        in if w_window_submits w2 > MAX_SUBMITS_PER_WINDOW
           then (w2\<lparr>w_banned_until_ms := sat_add64 now WORKER_BAN_MS\<rparr>, Some ''submit rate limit exceeded'')
           else (w2, None))"

definition score_share :: "nat \<Rightarrow> bool \<Rightarrow> worker_state \<Rightarrow> worker_state" where
  "score_share now meet w =
     (if meet then
        let w1 = w\<lparr>w_accepted := sat_add64 (w_accepted w) 1, w_consecutive_rejects := 0\<rparr>
        in if w_accepted w1 mod 20 = 0 then w1\<lparr>w_share_diff := min (sat_mul64 (w_share_diff w1) 2) MAX_SHARE_DIFFICULTY\<rparr> else w1
      else
        let w1 = ban_worker now (count_reject w)
        in if w_rejected w1 > 5 \<and> w_share_diff w1 > MIN_SHARE_DIFFICULTY
           then w1\<lparr>w_share_diff := max (w_share_diff w1 div 2) MIN_SHARE_DIFFICULTY\<rparr> else w1)"

definition push_share :: "stratum_share \<Rightarrow> stratum_share list \<Rightarrow> stratum_share list" where
  "push_share s ss = (let ss1 = ss @ [s] in if length ss1 > 10000 then drop (length ss1 - 5000) ss1 else ss1)"

definition share_hash :: "env \<Rightarrow> hash \<Rightarrow> nat \<Rightarrow> hash" where
  "share_hash E template_hash nonce =
     blake3_512 E (str_bytes ''hassan-stratum-share-v1'' @ hash_bytes template_hash @ le_bytes 8 nonce)"

definition submit_work :: "env \<Rightarrow> nat \<Rightarrow> string \<Rightarrow> string \<Rightarrow> nat \<Rightarrow> worker_state \<Rightarrow> stratum_server \<Rightarrow> stratum_server \<times> json result" where
  \<comment> \<open>the checks on the job and the share, for a worker that passed its own\<close>
  "submit_work E now worker job_id nonce w srv =
     (let put_w = (\<lambda>w' srv'. srv'\<lparr>sv_workers := hput worker w' (sv_workers srv')\<rparr>)
      in case hget (sv_jobs srv) job_id of
           None \<Rightarrow> (put_w w srv, Err ''unknown job'')
         | Some j \<Rightarrow>
             if j_id j \<noteq> job_id then (put_w w srv, Err ''job id mismatch'')
             else if now - j_created_ms j > MAX_JOB_AGE_MS then (put_w (count_reject w) srv, Err ''stale job'')
             else if nonce \<in> set (j_seen_nonces j) then (put_w (ban_worker now (count_reject w)) srv, Err ''duplicate share nonce'')
             else
               let j1 = j\<lparr>j_seen_nonces := nonce # j_seen_nonces j\<rparr>
               in if length (j_seen_nonces j1) > MAX_NONCES_PER_JOB
                  then (put_w w (srv\<lparr>sv_jobs := hdel job_id (sv_jobs srv)\<rparr>), Err ''job nonce budget exhausted'')
                  else
                    let share_diff = clamp_nat (w_share_diff w) MIN_SHARE_DIFFICULTY MAX_SHARE_DIFFICULTY;
                        target = min share_diff (max (j_difficulty j) MIN_SHARE_DIFFICULTY);
                        out = share_hash E (j_template_hash j) nonce;
                        meet = verify_pow out target;
                        share = \<lparr>sh_worker = worker, sh_job_id = job_id, sh_nonce = nonce, sh_block_hash = out, sh_difficulty = target, sh_accepted = meet\<rparr>;
                        srv1 = srv\<lparr>sv_jobs := hput job_id j1 (sv_jobs srv), sv_shares := push_share share (sv_shares srv)\<rparr>
                    in (put_w (score_share now meet w) srv1, if meet then Ok (JBool True) else Err ''low difficulty share''))"

definition share_nonce :: "json \<Rightarrow> nat option" where
  "share_nonce v = (case as_uint v of Some n \<Rightarrow> Some n | None \<Rightarrow> Option.bind (as_str v) parse_hex_u64)"

definition stratum_submit :: "env \<Rightarrow> nat \<Rightarrow> json \<Rightarrow> stratum_server \<Rightarrow> stratum_server \<times> json result" where
  "stratum_submit E now params srv =
     (case as_array params of
        None \<Rightarrow> (srv, Err ''params must be array'')
      | Some arr \<Rightarrow>
          (case Option.bind (nth_opt arr 1) as_str of
             None \<Rightarrow> (srv, Err ''missing job_id'')
           | Some job_id \<Rightarrow>
               (case Option.bind (nth_opt arr 2) share_nonce of
                  None \<Rightarrow> (srv, Err ''missing nonce'')
                | Some nonce \<Rightarrow>
                    let worker = worker_name (Some arr);
                        w = hget_or (new_worker False now) (sv_workers srv) worker
                    in case worker_gate now w of
                         (w', Some e) \<Rightarrow> (srv\<lparr>sv_workers := hput worker w' (sv_workers srv)\<rparr>, Err e)
                       | (w', None) \<Rightarrow> submit_work E now worker job_id nonce w' srv)))"

section \<open>Requests\<close>

definition subscribe :: "env \<Rightarrow> json result" where
  "subscribe E = Ok (JArr [JArr [JArr [JStr ''mining.notify'', JStr ''hn'']], JStr (extranonce1 E), JNum 4])"

definition rpc_result :: "env \<Rightarrow> bool \<Rightarrow> nat \<Rightarrow> chain_state \<Rightarrow> string \<Rightarrow> json \<Rightarrow> stratum_server \<Rightarrow> (stratum_server \<times> json result) option" where
  "rpc_result E lab now cs meth params srv =
     (if meth = ''mining.subscribe'' then Some (srv, subscribe E)
      else if meth = ''mining.authorize'' then Some (authorize now params srv)
      else if meth = ''mining.submit'' then Some (stratum_submit E now params srv)
      else if meth = ''mining.get_transactions'' then Some (srv, Ok (JArr []))
      else if meth = ''mining.extranonce.subscribe'' then Some (srv, Ok (JBool True))
      else if meth = ''getblocktemplate'' \<or> meth = ''mining.get_block_template''
      then map_option (Pair srv) (get_block_template E lab now cs)
      else Some (srv, Err (''unknown method: '' @ meth)))"

definition handle_rpc :: "env \<Rightarrow> bool \<Rightarrow> nat \<Rightarrow> chain_state \<Rightarrow> json \<Rightarrow> stratum_server \<Rightarrow> (stratum_server \<times> json) option" where
  "handle_rpc E lab now cs req srv =
     (let id = (case get_member req ''id'' of None \<Rightarrow> JNull | Some v \<Rightarrow> v);
          meth = (case Option.bind (get_member req ''method'') as_str of None \<Rightarrow> '''' | Some m \<Rightarrow> m);
          params = (case get_member req ''params'' of None \<Rightarrow> JArr [] | Some p \<Rightarrow> p)
      in map_option (\<lambda>(srv', r). (srv', case r of
             Ok v \<Rightarrow> JObj [(''id'', id), (''result'', v), (''error'', JNull)]
           | Err e \<Rightarrow> JObj [(''id'', id), (''result'', JNull), (''error'', JObj [(''code'', JNum (- 1)), (''message'', JStr e)])]))
           (rpc_result E lab now cs meth params srv))"

definition worker_stats :: "stratum_server \<Rightarrow> json" where
  "worker_stats srv = JObj [(''workers'', JArr (map (\<lambda>(name, w). JObj
     [(''worker'', JStr name), (''authorized'', JBool (w_authorized w)), (''share_diff'', JNum (int (w_share_diff w))),
      (''accepted'', JNum (int (w_accepted w))), (''rejected'', JNum (int (w_rejected w)))]) (sv_workers srv)))]"

definition recent_shares :: "env \<Rightarrow> nat \<Rightarrow> stratum_server \<Rightarrow> json" where
  "recent_shares E n srv = JObj [(''shares'', JArr (map (\<lambda>s. JObj
     [(''worker'', JStr (sh_worker s)), (''job_id'', JStr (sh_job_id s)), (''nonce'', JNum (int (sh_nonce s))),
      (''difficulty'', JNum (int (sh_difficulty s))), (''accepted'', JBool (sh_accepted s)),
      (''hash'', JStr (hex_encode E (hash_bytes (sh_block_hash s))))]) (take n (rev (sv_shares srv)))))]"

definition block_meets_network_diff :: "env \<Rightarrow> block \<Rightarrow> bool" where
  "block_meets_network_diff E b = verify_pow (block_hash E b) (b_difficulty b)"

section \<open>Deleting many keys\<close>

lemma hget_fold_hdel: "hget (fold (\<lambda>x. hdel (f x)) ks m) k = (if k \<in> f ` set ks then None else hget m k)"
  by (induction ks arbitrary: m) auto

lemma hmap_ok_fold_hdel: "hmap_ok m \<Longrightarrow> hmap_ok (fold (\<lambda>x. hdel (f x)) ks m)"
  by (induction ks arbitrary: m) auto

lemma length_hdel_has: "hmap_ok m \<Longrightarrow> hhas m k \<Longrightarrow> length (hdel k m) = length m - 1"
proof (induction m)
  case (Cons x m)
  obtain a b where x: "x = (a, b)" by (cases x)
  show ?case
  proof (cases "a = k")
    case True
    then have "hdel k m = m" using Cons.prems(1) x by (simp add: hmap_ok_def delete_idem)
    then show ?thesis using True x by simp
  next
    case False
    then show ?thesis using Cons x by (cases m) (auto simp: hmap_ok_def hhas_def)
  qed
qed (simp add: hhas_def)

lemma length_fold_hdel_image:
  "\<lbrakk>hmap_ok m; distinct (map f ks); \<forall>k\<in>set ks. hhas m (f k)\<rbrakk> \<Longrightarrow> length (fold (\<lambda>x. hdel (f x)) ks m) = length m - length ks"
proof (induction ks arbitrary: m)
  case (Cons x ks)
  have "length (fold (\<lambda>x. hdel (f x)) ks (hdel (f x) m)) = length (hdel (f x) m) - length ks"
    by (rule Cons.IH) (use Cons.prems in auto)
  then show ?case using Cons.prems by (simp add: length_hdel_has)
qed simp

text \<open>Dropping the first entries in some order: what \<open>drop_old_jobs\<close> and the cap of the explorer index do.\<close>

lemma drop_first:
  assumes ok: "hmap_ok m" and xs: "mset (map f xs) = mset (hkeys m)" and n: "n \<le> length m"
  shows "length (fold (\<lambda>x. hdel (f x)) (take n xs) m) = length m - n"
proof -
  have "distinct (map f xs)" using ok mset_eq_imp_distinct_iff [OF xs] by (simp add: hmap_ok_def)
  then have d: "distinct (map f (take n xs))" unfolding take_map [symmetric] by (rule distinct_take)
  have "f ` set xs = set (hkeys m)" using mset_eq_setD [OF xs] by simp
  then have "\<forall>k\<in>set (take n xs). hhas m (f k)" unfolding hhas_iff using set_take_subset [of n xs] by blast
  moreover have "length xs = length m" using arg_cong [OF xs, of size] by simp
  ultimately show ?thesis using length_fold_hdel_image [OF ok d] n by simp
qed

end
