(* ===== verification/Stratum_Correct.thy ===== *)
theory Stratum_Correct
  imports Stratum Net_Policy_Correct Node_Correct
begin

text \<open>
  Correctness of the pool endpoint: job numbers are unique as text, every share on record was checked against its job and
  comes from an authorized worker, no nonce of a job is recorded twice, and the tables are bounded. The submit window is an instance of
  \<open>window_counter\<close>.
\<close>

section \<open>Job numbers\<close>

lemma digit_val_char: "d < 16 \<Longrightarrow> digit_val (digit_char d) = d"
  by (auto simp: digit_val_def digit_char_def Let_def of_char_of)

lemma hex_str_value: "foldl (\<lambda>n c. n * 16 + digit_val c) 0 (hex_str n) = n"
proof (induction "16::nat" n rule: radix_str.induct)
  case (1 n)
  show ?case
  proof (cases "n < 16")
    case True
    then show ?thesis by (subst radix_str.simps) (simp add: digit_val_char)
  next
    case False
    then have "foldl (\<lambda>n c. n * 16 + digit_val c) 0 (hex_str n) = n div 16 * 16 + n mod 16"
      using 1 by (subst radix_str.simps) (simp add: digit_val_char)
    then show ?thesis by (simp only: div_mult_mod_eq)
  qed
qed

lemma hex_str_inj: "hex_str m = hex_str n \<longleftrightarrow> m = n"
  by (metis hex_str_value)

section \<open>The submit window\<close>

interpretation worker_rate: window_counter "\<lambda>w now. (fst (worker_gate now w), snd (worker_gate now w) = None)" w_window_submits
    "\<lambda>w. Some (w_window_start_ms w)"
    "\<lambda>w now. w_authorized w \<and> w_banned_until_ms w \<le> now \<and> now - w_window_start_ms w \<ge> SUBMIT_WINDOW_MS"
    "\<lambda>w t. True" MAX_SUBMITS_PER_WINDOW SUBMIT_WINDOW_MS
  by unfold_locales
    (auto simp: worker_gate_def Let_def SUBMIT_WINDOW_MS_def MAX_SUBMITS_PER_WINDOW_def of_bool_def split: if_splits)

lemma submit_rate:
  assumes "sorted ts" and "\<forall>t\<in>set ts. T \<le> t \<and> t < T + SUBMIT_WINDOW_MS" and "w_window_submits w + length ts \<le> u32_max"
  shows "accepted (\<lambda>w now. (fst (worker_gate now w), snd (worker_gate now w) = None)) w ts \<le> 2 * MAX_SUBMITS_PER_WINDOW"
  using worker_rate.two_windows [of 0 ts T w] assms by simp

section \<open>The server in service\<close>

definition recorded :: "stratum_server \<Rightarrow> stratum_server \<Rightarrow> stratum_share list" where
  \<comment> \<open>the share a request has put on record\<close>
  "recorded srv srv' = (if sv_shares srv' = sv_shares srv then [] else [last (sv_shares srv')])"

inductive stratum_run :: "env \<Rightarrow> bool \<Rightarrow> (string \<Rightarrow> string option) \<Rightarrow> stratum_server \<Rightarrow> stratum_share list \<Rightarrow> bool" for E lab vars where
  start: "stratum_run E lab vars (stratum_new vars) []"
| notify: "stratum_run E lab vars srv lg \<Longrightarrow> sv_next_job srv < u64_max \<Longrightarrow> make_notify E lab ts cs srv = Some (srv', r)
    \<Longrightarrow> stratum_run E lab vars srv' lg"
| rpc: "stratum_run E lab vars srv lg \<Longrightarrow> handle_rpc E lab now cs req srv = Some (srv', r)
    \<Longrightarrow> stratum_run E lab vars srv' (lg @ recorded srv srv')"

definition job_ok :: "env \<Rightarrow> stratum_server \<Rightarrow> string \<Rightarrow> stratum_job \<Rightarrow> bool" where
  "job_ok E srv k j \<longleftrightarrow> j_id j = k \<and> (\<exists>n < sv_next_job srv. k = hex_str n) \<and> distinct (j_seen_nonces j)
     \<and> length (j_seen_nonces j) \<le> MAX_NONCES_PER_JOB \<and> (\<exists>ps. j_template_hash j = job_template E k ps (j_difficulty j))"

definition worker_ok :: "stratum_server \<Rightarrow> worker_state \<Rightarrow> bool" where
  "worker_ok srv w \<longleftrightarrow> MIN_SHARE_DIFFICULTY \<le> w_share_diff w \<and> w_share_diff w \<le> MAX_SHARE_DIFFICULTY
     \<and> (w_authorized w \<longrightarrow> sv_password srv \<noteq> None)"

definition share_ok :: "env \<Rightarrow> stratum_server \<Rightarrow> stratum_share \<Rightarrow> bool" where
  "share_ok E srv s \<longleftrightarrow> (\<exists>n < sv_next_job srv. sh_job_id s = hex_str n)
     \<and> (\<forall>j. hget (sv_jobs srv) (sh_job_id s) = Some j \<longrightarrow> sh_nonce s \<in> set (j_seen_nonces j))
     \<and> (\<exists>w. hget (sv_workers srv) (sh_worker s) = Some w \<and> w_authorized w)
     \<and> (\<exists>ps diff. sh_block_hash s = share_hash E (job_template E (sh_job_id s) ps diff) (sh_nonce s)
          \<and> sh_difficulty s \<le> max diff 1)
     \<and> (sh_accepted s \<longleftrightarrow> verify_pow (sh_block_hash s) (sh_difficulty s)) \<and> 1 \<le> sh_difficulty s \<and> sh_difficulty s \<le> MAX_SHARE_DIFFICULTY"

definition stratum_ok :: "env \<Rightarrow> stratum_server \<Rightarrow> stratum_share list \<Rightarrow> bool" where
  "stratum_ok E srv lg \<longleftrightarrow> hmap_ok (sv_jobs srv) \<and> length (sv_jobs srv) \<le> 256
     \<and> (\<forall>k j. hget (sv_jobs srv) k = Some j \<longrightarrow> job_ok E srv k j)
     \<and> (\<forall>k w. hget (sv_workers srv) k = Some w \<longrightarrow> worker_ok srv w)
     \<and> length (sv_shares srv) \<le> 10000 \<and> set (sv_shares srv) \<subseteq> set lg
     \<and> (\<forall>s\<in>set lg. share_ok E srv s) \<and> distinct (map (\<lambda>s. (sh_job_id s, sh_nonce s)) lg)"

lemma stratum_ok_new: "stratum_ok E (stratum_new vars) []"
  by (simp add: stratum_ok_def stratum_new_def hmap_ok_def)

lemma share_ok_step:
  assumes "share_ok E srv s" and "sv_next_job srv \<le> sv_next_job srv'"
    and "\<And>j'. hget (sv_jobs srv') (sh_job_id s) = Some j' \<Longrightarrow> \<exists>j. hget (sv_jobs srv) (sh_job_id s) = Some j \<and> set (j_seen_nonces j) \<subseteq> set (j_seen_nonces j')"
    and "\<And>w. hget (sv_workers srv) (sh_worker s) = Some w \<Longrightarrow> w_authorized w \<Longrightarrow> \<exists>w'. hget (sv_workers srv') (sh_worker s) = Some w' \<and> w_authorized w'"
  shows "share_ok E srv' s"
  using assms(1,4) less_le_trans [OF _ assms(2)] unfolding share_ok_def by (blast dest: assms(3))

subsection \<open>Jobs\<close>

lemma drop_old_jobs_spec:
  assumes "hmap_ok jobs"
  shows "hmap_ok (drop_old_jobs jobs)" "length (drop_old_jobs jobs) \<le> max 256 ((length jobs + 1) div 2)"
    "hget (drop_old_jobs jobs) k = Some j \<Longrightarrow> hget jobs k = Some j"
proof -
  define xs where "xs = sort_key snd (map (\<lambda>(k, j). (k, j_created_ms j)) jobs)"
  have m: "mset (map fst xs) = mset (hkeys jobs)" by (simp add: xs_def image_mset.compositionality comp_def case_prod_unfold)
  have eq: "drop_old_jobs jobs = (if length jobs > 256 then fold (\<lambda>x. hdel (fst x)) (take (length jobs div 2) xs) jobs else jobs)"
    by (simp add: drop_old_jobs_def xs_def Let_def case_prod_unfold)
  show "hmap_ok (drop_old_jobs jobs)" using assms by (simp add: eq hmap_ok_fold_hdel)
  have "length jobs - length jobs div 2 \<le> (length jobs + 1) div 2" by arith
  then show "length (drop_old_jobs jobs) \<le> max 256 ((length jobs + 1) div 2)"
    using drop_first [OF assms m, of "length jobs div 2"] by (simp add: eq max.coboundedI2)
  show "hget (drop_old_jobs jobs) k = Some j \<Longrightarrow> hget jobs k = Some j"
    by (auto simp: eq hget_fold_hdel split: if_splits)
qed

lemma make_notify_ok:
  assumes n: "make_notify E lab ts cs srv = Some (srv', r)" and room: "sv_next_job srv < u64_max" and ok: "stratum_ok E srv lg"
  shows "stratum_ok E srv' lg"
proof -
  obtain diff where diff: "expected_difficulty_at lab (dag cs) (ghostdag cs) (minted_supply (live cs)) (tips cs) ts = Some diff"
    using n by (auto simp: make_notify_def split: option.splits)
  define id where "id = hex_str (sv_next_job srv)"
  define j where "j = \<lparr>j_id = id, j_template_hash = job_template E id (tips cs) diff, j_difficulty = diff, j_created_ms = ts, j_seen_nonces = []\<rparr>"
  have srv': "srv' = srv\<lparr>sv_next_job := sv_next_job srv + 1, sv_jobs := drop_old_jobs (hput id j (sv_jobs srv))\<rparr>"
    using n room by (simp add: make_notify_def diff Let_def j_def id_def sat_add64_def)
  have h: "hmap_ok (hput id j (sv_jobs srv))" using ok by (simp add: stratum_ok_def)
  have new: "hget (sv_jobs srv') k = Some i \<Longrightarrow> k = id \<and> i = j \<or> k \<noteq> id \<and> hget (sv_jobs srv) k = Some i" for k i
    using drop_old_jobs_spec(3) [OF h, of k i] by (auto simp: srv' split: if_splits)
  have "length (hput id j (sv_jobs srv)) \<le> 257" using ok by (simp add: stratum_ok_def length_hput)
  then have len: "length (sv_jobs srv') \<le> 256" using drop_old_jobs_spec(2) [OF h] by (simp add: srv')
  have jobs: "job_ok E srv' k i" if "hget (sv_jobs srv') k = Some i" for k i
  proof (cases "k = id")
    case True
    then show ?thesis using new [OF that] by (auto simp: job_ok_def srv' j_def id_def)
  next
    case False
    then have "job_ok E srv k i" using new [OF that] ok by (simp add: stratum_ok_def)
    then show ?thesis by (auto simp: job_ok_def srv' intro: less_SucI)
  qed
  have shares: "share_ok E srv' s" if "s \<in> set lg" for s
  proof -
    have s: "share_ok E srv s" using that ok by (simp add: stratum_ok_def)
    then have "sh_job_id s \<noteq> id" by (auto simp: share_ok_def id_def hex_str_inj)
    then show ?thesis using new by (intro share_ok_step [OF s]) (auto simp: srv')
  qed
  have w: "worker_ok srv' w = worker_ok srv w" for w by (simp add: worker_ok_def srv')
  show ?thesis using ok len jobs shares drop_old_jobs_spec(1) [OF h] unfolding stratum_ok_def w by (auto simp: srv')
qed

subsection \<open>Requests\<close>

lemma worker_gate_keeps:
  "w_authorized (fst (worker_gate now w)) = w_authorized w" "w_share_diff (fst (worker_gate now w)) = w_share_diff w"
  "snd (worker_gate now w) = None \<Longrightarrow> w_authorized w"
  by (auto simp: worker_gate_def Let_def split: if_splits)

lemma reject_keeps [simp]:
  "w_authorized (ban_worker now w) = w_authorized w" "w_share_diff (ban_worker now w) = w_share_diff w"
  "w_authorized (count_reject w) = w_authorized w" "w_share_diff (count_reject w) = w_share_diff w"
  by (simp_all add: ban_worker_def count_reject_def)

lemma score_share_keeps:
  "w_authorized (score_share now meet w) = w_authorized w"
  "worker_ok srv w \<Longrightarrow> worker_ok srv (score_share now meet w)"
  by (auto simp: score_share_def Let_def worker_ok_def MIN_SHARE_DIFFICULTY_def MAX_SHARE_DIFFICULTY_def sat_mul64_def)

lemma put_worker_ok:
  assumes ok: "stratum_ok E srv lg" and w: "worker_ok srv w'"
    and keep: "\<And>w. hget (sv_workers srv) k = Some w \<Longrightarrow> w_authorized w \<Longrightarrow> w_authorized w'"
  shows "stratum_ok E (srv\<lparr>sv_workers := hput k w' (sv_workers srv)\<rparr>) lg"
proof -
  let ?srv' = "srv\<lparr>sv_workers := hput k w' (sv_workers srv)\<rparr>"
  have "share_ok E ?srv' s" if "s \<in> set lg" for s
  proof -
    have "share_ok E srv s" using that ok by (simp add: stratum_ok_def)
    then show ?thesis by (rule share_ok_step) (use keep in auto)
  qed
  moreover have "job_ok E ?srv' i j = job_ok E srv i j" "worker_ok ?srv' v = worker_ok srv v" for i j v
    by (simp_all add: job_ok_def worker_ok_def)
  ultimately show ?thesis using ok w by (auto simp: stratum_ok_def)
qed

lemma put_job_ok:
  assumes ok: "stratum_ok E srv lg" and j: "hget (sv_jobs srv) k = Some j" and n: "nonce \<notin> set (j_seen_nonces j)"
    and len: "length (j_seen_nonces j) < MAX_NONCES_PER_JOB"
  shows "stratum_ok E (srv\<lparr>sv_jobs := hput k (j\<lparr>j_seen_nonces := nonce # j_seen_nonces j\<rparr>) (sv_jobs srv)\<rparr>) lg"
proof -
  let ?j = "j\<lparr>j_seen_nonces := nonce # j_seen_nonces j\<rparr>"
  let ?srv' = "srv\<lparr>sv_jobs := hput k ?j (sv_jobs srv)\<rparr>"
  have "share_ok E ?srv' s" if "s \<in> set lg" for s
  proof -
    have "share_ok E srv s" using that ok by (simp add: stratum_ok_def)
    then show ?thesis by (rule share_ok_step) (use j in \<open>auto split: if_splits\<close>)
  qed
  moreover have "job_ok E srv k j" using ok j by (simp add: stratum_ok_def)
  then have "job_ok E ?srv' k ?j" using n len by (auto simp: job_ok_def)
  moreover have "job_ok E ?srv' i v = job_ok E srv i v" "worker_ok ?srv' w = worker_ok srv w" for i v w
    by (simp_all add: job_ok_def worker_ok_def)
  ultimately show ?thesis using ok j by (auto simp: stratum_ok_def length_hput hhas_def)
qed

lemma drop_job_ok:
  assumes ok: "stratum_ok E srv lg"
  shows "stratum_ok E (srv\<lparr>sv_jobs := hdel k (sv_jobs srv)\<rparr>) lg"
proof -
  let ?srv' = "srv\<lparr>sv_jobs := hdel k (sv_jobs srv)\<rparr>"
  have "share_ok E ?srv' s" if "s \<in> set lg" for s
  proof -
    have "share_ok E srv s" using that ok by (simp add: stratum_ok_def)
    then show ?thesis by (rule share_ok_step) (auto split: if_splits)
  qed
  moreover have "job_ok E ?srv' i v = job_ok E srv i v" "worker_ok ?srv' w = worker_ok srv w" for i v w
    by (simp_all add: job_ok_def worker_ok_def)
  moreover have "length (hdel k (sv_jobs srv)) \<le> 256" using ok length_delete_le [of k "sv_jobs srv"] by (simp add: stratum_ok_def)
  ultimately show ?thesis using ok by (auto simp: stratum_ok_def)
qed

lemma push_share_spec: "push_share s ss \<noteq> ss" "last (push_share s ss) = s" "set (push_share s ss) \<subseteq> insert s (set ss)"
  "length ss \<le> 10000 \<Longrightarrow> length (push_share s ss) \<le> 10000"
proof -
  have "length (push_share s ss) \<noteq> length ss" by (simp add: push_share_def Let_def)
  then show "push_share s ss \<noteq> ss" by metis
qed (auto simp: push_share_def Let_def dest: in_set_dropD)

lemma put_share_ok:
  assumes ok: "stratum_ok E srv lg" and s: "share_ok E srv s" and new: "\<And>s'. s' \<in> set lg \<Longrightarrow> (sh_job_id s', sh_nonce s') \<noteq> (sh_job_id s, sh_nonce s)"
  shows "stratum_ok E (srv\<lparr>sv_shares := push_share s (sv_shares srv)\<rparr>) (lg @ [s])"
proof -
  let ?srv' = "srv\<lparr>sv_shares := push_share s (sv_shares srv)\<rparr>"
  have same: "share_ok E ?srv' x = share_ok E srv x" "job_ok E ?srv' i v = job_ok E srv i v" "worker_ok ?srv' w = worker_ok srv w" for i v w x
    by (simp_all add: job_ok_def worker_ok_def share_ok_def)
  have "distinct (map (\<lambda>s. (sh_job_id s, sh_nonce s)) (lg @ [s]))" using ok new by (force simp: stratum_ok_def)
  then show ?thesis
    using ok s push_share_spec(3) [of s "sv_shares srv"] push_share_spec(4) [of "sv_shares srv" s] same by (auto simp: stratum_ok_def)
qed

lemma recorded_none: "sv_shares srv' = sv_shares srv \<Longrightarrow> lg @ recorded srv srv' = lg"
  by (simp add: recorded_def)

definition the_share :: "env \<Rightarrow> string \<Rightarrow> string \<Rightarrow> nat \<Rightarrow> worker_state \<Rightarrow> stratum_job \<Rightarrow> stratum_share" where
  \<comment> \<open>the record of a share that passed the checks on worker and job\<close>
  "the_share E worker job_id nonce w j =
     (let target = min (clamp_nat (w_share_diff w) MIN_SHARE_DIFFICULTY MAX_SHARE_DIFFICULTY) (max (j_difficulty j) MIN_SHARE_DIFFICULTY);
          out = share_hash E (j_template_hash j) nonce
      in \<lparr>sh_worker = worker, sh_job_id = job_id, sh_nonce = nonce, sh_block_hash = out, sh_difficulty = target, sh_accepted = verify_pow out target\<rparr>)"

lemma the_share_ok:
  assumes j: "job_ok E srv job_id j" and nx: "sv_next_job srv' = sv_next_job srv"
    and seen: "hget (sv_jobs srv') job_id = Some j'" "nonce \<in> set (j_seen_nonces j')"
    and w: "hget (sv_workers srv') worker = Some w'" "w_authorized w'"
  shows "share_ok E srv' (the_share E worker job_id nonce w j)"
proof -
  have d: "MIN_SHARE_DIFFICULTY \<le> MAX_SHARE_DIFFICULTY" by (simp add: MIN_SHARE_DIFFICULTY_def MAX_SHARE_DIFFICULTY_def)
  have "\<exists>ps diff. share_hash E (j_template_hash j) nonce = share_hash E (job_template E job_id ps diff) nonce
      \<and> min (clamp_nat (w_share_diff w) MIN_SHARE_DIFFICULTY MAX_SHARE_DIFFICULTY) (max (j_difficulty j) MIN_SHARE_DIFFICULTY) \<le> max diff 1"
    using j by (auto simp: job_ok_def MIN_SHARE_DIFFICULTY_def intro!: exI [of _ "j_difficulty j"])
  then show ?thesis
    using assms clamp_nat_bounds [OF d, of "w_share_diff w"] by (auto simp: share_ok_def the_share_def Let_def job_ok_def MIN_SHARE_DIFFICULTY_def)
qed

lemma submit_work_ok:
  assumes ok: "stratum_ok E srv lg" and w: "worker_ok srv w" and auth: "w_authorized w"
    and sub: "submit_work E now worker job_id nonce w srv = (srv', r)"
  shows "stratum_ok E srv' (lg @ recorded srv srv')"
proof -
  have put: "stratum_ok E (srv\<lparr>sv_workers := hput worker w' (sv_workers srv)\<rparr>) lg"
    if "w_authorized w'" "w_share_diff w' = w_share_diff w" for w'
    using put_worker_ok [OF ok, of w' worker] that w auth by (simp add: worker_ok_def)
  show ?thesis
  proof (cases "hget (sv_jobs srv) job_id")
    case None
    then show ?thesis using sub put [of w] auth by (auto simp: submit_work_def recorded_none)
  next
    case (Some j)
    note j = Some
    have jo: "job_ok E srv job_id j" using ok j by (simp add: stratum_ok_def)
    then have id: "j_id j = job_id" by (simp add: job_ok_def)
    note sub' = sub [unfolded submit_work_def Let_def j option.case id]
    consider (early) w' where "srv' = srv\<lparr>sv_workers := hput worker w' (sv_workers srv)\<rparr>" "w_authorized w'" "w_share_diff w' = w_share_diff w"
      | (spent) "srv' = srv\<lparr>sv_jobs := hdel job_id (sv_jobs srv), sv_workers := hput worker w (sv_workers srv)\<rparr>"
      | (fresh) "nonce \<notin> set (j_seen_nonces j)" "length (j_seen_nonces j) < MAX_NONCES_PER_JOB"
          "srv' = srv\<lparr>sv_jobs := hput job_id (j\<lparr>j_seen_nonces := nonce # j_seen_nonces j\<rparr>) (sv_jobs srv),
             sv_shares := push_share (the_share E worker job_id nonce w j) (sv_shares srv),
             sv_workers := hput worker (score_share now (sh_accepted (the_share E worker job_id nonce w j)) w) (sv_workers srv)\<rparr>"
      using sub' auth by (auto simp: the_share_def Let_def split: if_splits)
    then show ?thesis
    proof cases
      case early
      then show ?thesis using put by (simp add: recorded_none)
    next
      case spent
      have "worker_ok (srv\<lparr>sv_jobs := hdel job_id (sv_jobs srv)\<rparr>) w" using w by (simp add: worker_ok_def)
      from put_worker_ok [OF drop_job_ok [OF ok, of job_id] this, of worker] auth show ?thesis by (simp add: spent recorded_none)
    next
      case fresh
      define sh where "sh = the_share E worker job_id nonce w j"
      define w' where "w' = score_share now (sh_accepted sh) w"
      have w': "worker_ok srv w'" "w_authorized w'" using score_share_keeps w auth by (simp_all add: w'_def)
      note a = put_worker_ok [OF ok w'(1), of worker, OF w'(2)]
      let ?srv1 = "srv\<lparr>sv_workers := hput worker w' (sv_workers srv)\<rparr>"
      have b: "stratum_ok E (?srv1\<lparr>sv_jobs := hput job_id (j\<lparr>j_seen_nonces := nonce # j_seen_nonces j\<rparr>) (sv_jobs srv)\<rparr>) lg"
        using put_job_ok [OF a _ fresh(1,2), of job_id] j by simp
      have c: "share_ok E (?srv1\<lparr>sv_jobs := hput job_id (j\<lparr>j_seen_nonces := nonce # j_seen_nonces j\<rparr>) (sv_jobs srv)\<rparr>) sh"
        unfolding sh_def by (rule the_share_ok [OF jo, where j' = "j\<lparr>j_seen_nonces := nonce # j_seen_nonces j\<rparr>" and w' = w']) (simp_all add: w'(2))
      have d: "(sh_job_id s', sh_nonce s') \<noteq> (sh_job_id sh, sh_nonce sh)" if "s' \<in> set lg" for s'
        using that ok j fresh(1) by (auto simp: stratum_ok_def share_ok_def sh_def the_share_def Let_def)
      have e: "srv' = (?srv1\<lparr>sv_jobs := hput job_id (j\<lparr>j_seen_nonces := nonce # j_seen_nonces j\<rparr>) (sv_jobs srv)\<rparr>)\<lparr>sv_shares := push_share sh (sv_shares srv)\<rparr>"
        using fresh(3) by (simp add: sh_def w'_def)
      have "recorded srv srv' = [sh]" using push_share_spec(1,2) by (simp add: recorded_def e)
      then show ?thesis using put_share_ok [OF b c d] by (simp add: e)
    qed
  qed
qed

lemma stratum_submit_ok:
  assumes ok: "stratum_ok E srv lg" and sub: "stratum_submit E now params srv = (srv', r)"
  shows "stratum_ok E srv' (lg @ recorded srv srv')"
proof (cases "srv' = srv")
  case True
  then show ?thesis using ok by (simp add: recorded_none)
next
  case False
  then obtain worker job_id nonce where n: "(case worker_gate now (hget_or (new_worker False now) (sv_workers srv) worker) of
      (w', Some e) \<Rightarrow> (srv\<lparr>sv_workers := hput worker w' (sv_workers srv)\<rparr>, Err e)
    | (w', None) \<Rightarrow> submit_work E now worker job_id nonce w' srv) = (srv', r)"
    using sub by (auto simp: stratum_submit_def Let_def split: option.splits)
  define w where "w = hget_or (new_worker False now) (sv_workers srv) worker"
  obtain w' e where g: "worker_gate now w = (w', e)" by fastforce
  have k: "w_authorized w' = w_authorized w" "w_share_diff w' = w_share_diff w" "e = None \<Longrightarrow> w_authorized w"
    using worker_gate_keeps [of now w] g by auto
  have "worker_ok srv w"
    using ok by (auto simp: w_def hget_or_def new_worker_def worker_ok_def stratum_ok_def DEFAULT_SHARE_DIFFICULTY_def MIN_SHARE_DIFFICULTY_def
        MAX_SHARE_DIFFICULTY_def split: option.splits)
  then have w': "worker_ok srv w'" using k by (simp add: worker_ok_def)
  show ?thesis
  proof (cases e)
    case None
    then show ?thesis using submit_work_ok [OF ok w'] n g k by (simp add: w_def)
  next
    case (Some err)
    have "stratum_ok E (srv\<lparr>sv_workers := hput worker w' (sv_workers srv)\<rparr>) lg"
      by (rule put_worker_ok [OF ok w']) (use k in \<open>simp add: w_def hget_or_def\<close>)
    moreover have "srv' = srv\<lparr>sv_workers := hput worker w' (sv_workers srv)\<rparr>" using n g Some by (simp add: w_def)
    ultimately show ?thesis by (simp add: recorded_none)
  qed
qed

lemma authorize_ok:
  assumes ok: "stratum_ok E srv lg" and a: "authorize now params srv = (srv', r)"
  shows "stratum_ok E srv' lg"
proof -
  have "srv' = srv \<or> (\<exists>k. srv' = srv\<lparr>sv_workers := hput k (new_worker True now) (sv_workers srv)\<rparr> \<and> sv_password srv \<noteq> None)"
    using a by (auto simp: authorize_def Let_def split: option.splits if_splits)
  moreover have "worker_ok srv (new_worker True now)" if "sv_password srv \<noteq> None"
    using that by (simp add: worker_ok_def new_worker_def DEFAULT_SHARE_DIFFICULTY_def MIN_SHARE_DIFFICULTY_def MAX_SHARE_DIFFICULTY_def)
  ultimately show ?thesis using ok put_worker_ok [OF ok] by (auto simp: new_worker_def)
qed

lemma rpc_ok:
  assumes ok: "stratum_ok E srv lg" and h: "handle_rpc E lab now cs req srv = Some (srv', r)"
  shows "stratum_ok E srv' (lg @ recorded srv srv')"
proof -
  obtain meth params r' where r: "rpc_result E lab now cs meth params srv = Some (srv', r')"
    using h by (auto simp: handle_rpc_def Let_def)
  have "sv_shares srv' = sv_shares srv" if "authorize now params srv = (srv', r')"
    using that by (auto simp: authorize_def Let_def split: option.splits if_splits)
  then consider "srv' = srv" | "authorize now params srv = (srv', r')" "sv_shares srv' = sv_shares srv" | "stratum_submit E now params srv = (srv', r')"
    using r by (auto simp: rpc_result_def split: if_splits)
  then show ?thesis using ok authorize_ok [OF ok] stratum_submit_ok [OF ok] by cases (auto simp: recorded_none)
qed

lemma stratum_run_ok: "stratum_run E lab vars srv lg \<Longrightarrow> stratum_ok E srv lg"
  by (induction rule: stratum_run.induct) (auto intro: stratum_ok_new make_notify_ok rpc_ok)

lemma stratum_run_password: "stratum_run E lab vars srv lg \<Longrightarrow> sv_password srv = sv_password (stratum_new vars)"
proof (induction rule: stratum_run.induct)
  case (notify srv lg ts cs srv' r)
  then show ?case by (auto simp: make_notify_def Let_def split: option.splits)
next
  case (rpc srv lg now cs req srv' r)
  then show ?case
    by (auto simp: handle_rpc_def rpc_result_def authorize_def stratum_submit_def submit_work_def Let_def
        split: option.splits if_splits prod.splits)
qed simp

section \<open>Properties\<close>

lemma submit_workers:
  assumes "stratum_submit E now params srv = (srv', r)"
  shows "sv_workers srv' = sv_workers srv \<or>
    (\<exists>k w. sv_workers srv' = hput k w (sv_workers srv) \<and> w_authorized w = w_authorized (hget_or (new_worker False now) (sv_workers srv) k))"
proof (cases "srv' = srv")
  case False
  then obtain k job_id nonce where n: "(case worker_gate now (hget_or (new_worker False now) (sv_workers srv) k) of
      (w', Some e) \<Rightarrow> (srv\<lparr>sv_workers := hput k w' (sv_workers srv)\<rparr>, Err e)
    | (w', None) \<Rightarrow> submit_work E now k job_id nonce w' srv) = (srv', r)"
    using assms by (auto simp: stratum_submit_def Let_def split: option.splits)
  define w where "w = hget_or (new_worker False now) (sv_workers srv) k"
  obtain w' e where g: "worker_gate now w = (w', e)" by fastforce
  have "\<exists>v. sv_workers srv' = hput k v (sv_workers srv) \<and> w_authorized v = w_authorized w'"
    using n g score_share_keeps(1) by (auto simp: w_def [symmetric] submit_work_def Let_def split: option.splits if_splits)
  then show ?thesis using worker_gate_keeps(1) [of now w] g w_def by auto
qed simp

text \<open>A worker becomes authorized only by a request that names the configured password.\<close>

lemma authorized_by_password:
  assumes h: "handle_rpc E lab now cs req srv = Some (srv', r)"
    and w: "hget (sv_workers srv') name = Some w" "w_authorized w" and old: "\<And>v. hget (sv_workers srv) name = Some v \<Longrightarrow> \<not> w_authorized v"
    and pos: "sv_password srv \<noteq> Some []"
  shows "\<exists>arr pw. get_member req ''method'' = Some (JStr ''mining.authorize'') \<and> get_member req ''params'' = Some (JArr arr)
    \<and> nth_opt arr 1 = Some (JStr pw) \<and> sv_password srv = Some pw"
proof -
  define params where "params = (case get_member req ''params'' of None \<Rightarrow> JArr [] | Some p \<Rightarrow> p)"
  define meth where "meth = (case Option.bind (get_member req ''method'') as_str of None \<Rightarrow> '''' | Some m \<Rightarrow> m)"
  obtain r' where r: "rpc_result E lab now cs meth params srv = Some (srv', r')"
    using h by (auto simp: handle_rpc_def Let_def params_def meth_def)
  have ns: "stratum_submit E now params srv \<noteq> (srv', r')"
    using submit_workers [of E now params srv srv' r'] w old by (auto simp: hget_or_def new_worker_def split: if_splits option.splits)
  have ne: "srv' \<noteq> srv" using w old by auto
  have a: "meth = ''mining.authorize''" "authorize now params srv = (srv', r')" using r ns ne by (auto simp: rpc_result_def split: if_splits)
  have as_str: "as_str v = Some x \<longleftrightarrow> v = JStr x" for v x by (cases v) auto
  have as_array: "as_array v = Some x \<longleftrightarrow> v = JArr x" for v x by (cases v) auto
  obtain pw where pw: "sv_password srv = Some pw"
    "(case Option.bind (Option.bind (as_array params) (\<lambda>a. nth_opt a 1)) as_str of None \<Rightarrow> '''' | Some s \<Rightarrow> s) = pw"
    using a(2) ne by (auto simp: authorize_def Let_def split: option.splits if_splits)
  have "as_array params \<noteq> None" using pw pos by (cases "as_array params") auto
  then obtain arr where arr: "params = JArr arr" using as_array by auto
  have "Option.bind (nth_opt arr 1) as_str = Some pw"
    using pw pos arr by (cases "Option.bind (nth_opt arr 1) as_str") auto
  then have n: "nth_opt arr 1 = Some (JStr pw)" using as_str by (auto simp: Option.bind_eq_Some_conv)
  then have "arr \<noteq> []" by (auto simp: nth_opt_def)
  then have "get_member req ''params'' = Some (JArr arr)" using arr by (auto simp: params_def split: option.splits)
  moreover have "get_member req ''method'' = Some (JStr ''mining.authorize'')"
    using a(1) as_str by (auto simp: meth_def bind_eq_Some_conv split: option.splits)
  ultimately show ?thesis using n pw(1) by blast
qed

text \<open>
  C16. What the pool endpoint counts as work is work. After any sequence of jobs and requests, every share ever put on record
  comes from a worker that is authorized, which without a configured password nobody is; its hash is the one of the named job and
  the nonce; it is marked accepted exactly when that hash meets the recorded difficulty, which lies between one and the
  smaller of the share limit and the job's own; and no nonce of a job is on record twice. At most 256
  jobs with 4096 nonces each and 10000 shares are kept.
\<close>
theorem stratum_shares_sound:
  assumes "stratum_run E lab vars srv lg"
  shows "(\<forall>s\<in>set lg. (\<exists>w. hget (sv_workers srv) (sh_worker s) = Some w \<and> w_authorized w)
        \<and> (\<exists>ps diff. sh_block_hash s = share_hash E (job_template E (sh_job_id s) ps diff) (sh_nonce s) \<and> sh_difficulty s \<le> max diff 1)
        \<and> (sh_accepted s \<longleftrightarrow> verify_pow (sh_block_hash s) (sh_difficulty s)) \<and> 1 \<le> sh_difficulty s \<and> sh_difficulty s \<le> 1000000)
    \<and> distinct (map (\<lambda>s. (sh_job_id s, sh_nonce s)) lg)
    \<and> (lg \<noteq> [] \<longrightarrow> (\<exists>p. vars ''HASSAN_STRATUM_PASSWORD'' = Some p \<and> p \<noteq> []))
    \<and> set (sv_shares srv) \<subseteq> set lg \<and> length (sv_shares srv) \<le> 10000
    \<and> length (sv_jobs srv) \<le> 256 \<and> (\<forall>k j. hget (sv_jobs srv) k = Some j \<longrightarrow> length (j_seen_nonces j) \<le> 4096)"
proof -
  note ok = stratum_run_ok [OF assms]
  have p: "\<exists>p. vars ''HASSAN_STRATUM_PASSWORD'' = Some p \<and> p \<noteq> []" if "lg \<noteq> []"
  proof -
    have "share_ok E srv (hd lg)" using that ok by (simp add: stratum_ok_def)
    then obtain w where "hget (sv_workers srv) (sh_worker (hd lg)) = Some w" "w_authorized w" by (auto simp: share_ok_def)
    then have "sv_password srv \<noteq> None" using ok by (auto simp: stratum_ok_def worker_ok_def)
    then show ?thesis using stratum_run_password [OF assms] by (auto simp: stratum_new_def split: option.splits if_splits)
  qed
  show ?thesis using ok p by (auto simp: stratum_ok_def share_ok_def job_ok_def MAX_SHARE_DIFFICULTY_def MAX_NONCES_PER_JOB_def)
qed

lemma demo_pow: "1 \<le> d \<Longrightarrow> d \<le> 16 \<Longrightarrow> verify_pow 7 d"
proof -
  assume d: "1 \<le> d" "d \<le> 16"
  have "(2 ^ 512 - 1) div 16 \<le> (2 ^ 512 - 1) div d" using d by (intro div_le_mono2) simp_all
  moreover have "(2 ^ 512 - 1) div d < (2 ^ 512 :: nat)" by (rule le_less_trans [OF div_le_dividend]) simp
  ultimately show ?thesis using d by (simp add: verify_pow_def hash_meets_target_def pow_target_def word_less_nat_alt unat_of_nat max_def)
qed

definition demo_request :: "string \<Rightarrow> json list \<Rightarrow> json" where
  "demo_request m ps = JObj [(''method'', JStr m), (''params'', JArr ps)]"

theorem stratum_shares_sound_witness:
  "\<exists>srv s w. stratum_run demo_env True (\<lambda>_. Some ''pw'') srv [s] \<and> sh_worker s = ''m'' \<and> sh_nonce s = 5 \<and> sh_accepted s
    \<and> hget (sv_workers srv) ''m'' = Some w \<and> w_authorized w"
proof -
  let ?run = "stratum_run demo_env True (\<lambda>_. Some ''pw'')"
  obtain cs where c: "chain_inv demo_chain_env cs" by (rule demo_node)
  obtain d where d: "expected_difficulty_at True (dag cs) (ghostdag cs) (minted_supply (live cs)) (tips cs) 9 = Some d"
    by (rule expected_difficulty_returns) (use c dag_okD(3) in \<open>auto simp: chain_inv_def\<close>)
  define srv0 where "srv0 = stratum_new (\<lambda>_. Some ''pw'')"
  define srv1 where "srv1 = srv0\<lparr>sv_workers := [(''m'', new_worker True 9)]\<rparr>"
  define j where "j = \<lparr>j_id = ''1'', j_template_hash = 7, j_difficulty = d, j_created_ms = 9, j_seen_nonces = []\<rparr>"
  define srv2 where "srv2 = srv1\<lparr>sv_next_job := 2, sv_jobs := [(''1'', j)]\<rparr>"
  define s where "s = \<lparr>sh_worker = ''m'', sh_job_id = ''1'', sh_nonce = 5, sh_block_hash = 7, sh_difficulty = min 16 (max d 1), sh_accepted = True\<rparr>"
  note new = srv0_def stratum_new_def
  have one: "hex_str (Suc 0) = ''1''" by (simp add: radix_str.simps digit_char_def char_of_def bit_Suc_0_iff)
  have "?run srv0 []" unfolding srv0_def by (rule stratum_run.start)
  moreover have "handle_rpc demo_env True 9 cs (demo_request ''mining.authorize'' [JStr ''m'', JStr ''pw'']) srv0
      = Some (srv1, JObj [(''id'', JNull), (''result'', JBool True), (''error'', JNull)])"
    by (simp add: handle_rpc_def demo_request_def rpc_result_def authorize_def worker_name_def nth_opt_def new srv1_def hhas_def MAX_STRATUM_WORKERS_def)
  ultimately have r1: "?run srv1 []" using stratum_run.rpc [of demo_env True _ srv0 "[]"] by (force simp: recorded_def srv1_def)
  have "make_notify demo_env True 9 cs srv1 = Some (srv2, snd (the (make_notify demo_env True 9 cs srv1)))"
    by (simp add: make_notify_def d new srv1_def Let_def srv2_def j_def one job_template_def demo_env_def sat_add64_def drop_old_jobs_def)
  from stratum_run.notify [OF r1 _ this] have r2: "?run srv2 []" by (simp add: srv1_def new)
  have pow: "verify_pow 7 (min 16 (max d 1))" by (rule demo_pow) simp_all
  obtain srv3 r where h: "handle_rpc demo_env True 9 cs (demo_request ''mining.submit'' [JStr ''m'', JStr ''1'', JNum 5]) srv2 = Some (srv3, r)"
    and sh: "sv_shares srv3 = [s]"
    using pow
    by (simp add: handle_rpc_def demo_request_def rpc_result_def stratum_submit_def nth_opt_def share_nonce_def worker_name_def hget_or_def
        new srv1_def srv2_def worker_gate_def new_worker_def SUBMIT_WINDOW_MS_def MAX_SUBMITS_PER_WINDOW_def submit_work_def j_def Let_def
        MAX_JOB_AGE_MS_def MAX_NONCES_PER_JOB_def clamp_nat_def MIN_SHARE_DIFFICULTY_def MAX_SHARE_DIFFICULTY_def DEFAULT_SHARE_DIFFICULTY_def
        share_hash_def demo_env_def push_share_def s_def)
  have "recorded srv2 srv3 = [s]" by (simp add: recorded_def sh srv2_def srv1_def new)
  then have r3: "?run srv3 [s]" using stratum_run.rpc [OF r2 h] by simp
  have "\<exists>w. hget (sv_workers srv3) (sh_worker s) = Some w \<and> w_authorized w" using stratum_shares_sound [OF r3] by simp
  then show ?thesis using r3 by (intro exI [of _ srv3] exI [of _ s]) (simp add: s_def)
qed

section \<open>Limits of the worker table\<close>

definition guess :: "string \<Rightarrow> json" where
  "guess name = JArr [JStr name, JStr [], JNum 0]"

lemma guess_adds_worker:
  assumes "\<not> hhas (sv_workers srv) name"
  shows "stratum_submit E now (guess name) srv
    = (srv\<lparr>sv_workers := hput name ((new_worker False now)\<lparr>w_rejected := 1\<rparr>) (sv_workers srv)\<rparr>, Err ''unauthorized'')"
  using assms by (simp add: stratum_submit_def guess_def nth_opt_def share_nonce_def worker_name_def worker_gate_def hget_or_def hhas_def new_worker_def sat_add64_def Let_def)

lemma guesses_fill_table:
  assumes "distinct names" and "\<forall>n\<in>set names. \<not> hhas (sv_workers srv) n"
  shows "length (sv_workers (fold (\<lambda>n s. fst (stratum_submit E now (guess n) s)) names srv)) = length (sv_workers srv) + length names
    \<and> (\<forall>k. hhas (sv_workers (fold (\<lambda>n s. fst (stratum_submit E now (guess n) s)) names srv)) k \<longleftrightarrow> k \<in> set names \<or> hhas (sv_workers srv) k)
    \<and> sv_password (fold (\<lambda>n s. fst (stratum_submit E now (guess n) s)) names srv) = sv_password srv"
  using assms
proof (induction names arbitrary: srv)
  case (Cons n names)
  have "\<not> hhas (sv_workers srv) n" using Cons.prems by simp
  note g = guess_adds_worker [OF this, of E now]
  show ?case using Cons.IH [of "fst (stratum_submit E now (guess n) srv)"] Cons.prems by (auto simp: g length_hput)
qed simp

text \<open>
  Requests without any password lock the honest workers out: each unknown name they use takes a place of the table, and a full table
  refuses a new worker with the right password.
\<close>

lemma guesses_lock_workers_out:
  assumes "distinct names" and "\<forall>n\<in>set names. \<not> hhas (sv_workers srv) n" and "MAX_STRATUM_WORKERS \<le> length names"
    and "\<not> hhas (sv_workers srv) worker" and "worker \<notin> set names" and "sv_password srv = Some pw"
  shows "snd (authorize t (JArr [JStr worker, JStr pw]) (fold (\<lambda>n s. fst (stratum_submit E now (guess n) s)) names srv)) = Err ''too many stratum workers''"
  using guesses_fill_table [OF assms(1,2), of E now] assms(3-) by (simp add: authorize_def Let_def worker_name_def nth_opt_def)

end
