(* ===== verification/Indexer.thy ===== *)
theory Indexer
  imports Stratum "HOL-Library.Sublist"
begin

text \<open>
  The explorer index, \<open>src/indexer.rs\<close>: its records, how it follows the selected chain (\<open>sync_from_state\<close>), its caps, its file and
  its queries. Ordered and hashed maps are association lists. The serializer of the index file and the hexadecimal encoding are external
  packages and arguments. Left out are the throughput estimate (floating point) and the status page.
\<close>

definition INDEXER_MAGIC :: bytes where "INDEXER_MAGIC = str_bytes ''HSNIDX01''"
definition INDEXER_FORMAT :: nat where "INDEXER_FORMAT = 1"
definition INDEXER_CHECKSUM_DOMAIN :: bytes where "INDEXER_CHECKSUM_DOMAIN = str_bytes ''hassan-indexer-v1''"
definition MAX_SERIES_POINTS :: nat where "MAX_SERIES_POINTS = 4096"
definition MAX_ADDR_TXS :: nat where "MAX_ADDR_TXS = 2048"
definition MAX_TX_RECORDS :: nat where "MAX_TX_RECORDS = 50000"

record block_record =
  br_height :: nat
  br_hash :: string
  br_blue_score :: nat
  br_timestamp :: nat
  br_difficulty :: nat
  br_miner :: string
  br_transfers :: nat
  br_registry_ops :: nat
  br_custody_ops :: nat
  br_utxo_txs :: nat
  br_fees :: string
  br_selected_parent :: "string option"
  br_is_chain_block :: bool

record tx_record =
  tr_hash :: string
  tr_height :: nat
  tr_block_hash :: string
  tr_from :: string
  tr_to :: string
  tr_amount :: string
  tr_fee :: string
  tr_nonce :: nat
  tr_timestamp :: nat

record series_point =
  sp_height :: nat
  sp_blue_score :: nat
  sp_timestamp :: nat
  sp_difficulty :: nat
  sp_transfers :: nat
  sp_fees :: string
  sp_minted_supply :: string
  sp_mempool :: nat
  sp_dag_blocks :: nat

record indexer_db =
  ix_format :: nat
  ix_tip_height :: nat
  ix_tip_hash :: "string option"
  ix_blocks :: "(nat, block_record) hmap"
  ix_by_hash :: "(string, nat) hmap"
  ix_txs :: "(string, tx_record) hmap"
  ix_address_txs :: "(string, string list) hmap"
  ix_labels :: "(string, string) hmap"
  ix_series :: "series_point list"
  ix_indexed_at_ms :: nat

section \<open>Labels and a fresh index\<close>

definition put_label :: "string \<Rightarrow> string \<Rightarrow> (string, string) hmap \<Rightarrow> (string, string) hmap" where
  \<comment> \<open>\<open>entry(k).or_insert_with(v)\<close>\<close>
  "put_label k v m = (if hhas m k then m else hput k v m)"

definition seed_protocol_labels :: "indexer_db \<Rightarrow> indexer_db" where
  "seed_protocol_labels db = db\<lparr>ix_labels :=
     put_label (''domain:'' @ GENESIS_DOMAIN) ''Genesis domain''
       (put_label ''protocol:kernel'' ''Kernel rules ID'' (put_label ''protocol:genesis'' ''Hassan genesis'' (ix_labels db)))\<rparr>"

definition indexer_new :: indexer_db where
  "indexer_new = seed_protocol_labels
     \<lparr>ix_format = INDEXER_FORMAT, ix_tip_height = 0, ix_tip_hash = None, ix_blocks = [], ix_by_hash = [], ix_txs = [],
      ix_address_txs = [], ix_labels = [], ix_series = [], ix_indexed_at_ms = 0\<rparr>"

section \<open>The index file\<close>

definition index_tag :: "env \<Rightarrow> bytes \<Rightarrow> bytes" where
  "index_tag E payload = hash_bytes (blake3_512 E (INDEXER_CHECKSUM_DOMAIN @ payload))"

definition index_file :: "env \<Rightarrow> (indexer_db \<Rightarrow> bytes) \<Rightarrow> indexer_db \<Rightarrow> bytes" where
  \<comment> \<open>the bytes \<open>save_to\<close> puts into the file\<close>
  "index_file E ser db =
     INDEXER_MAGIC @ le_bytes 4 INDEXER_FORMAT @ le_bytes 8 (length (ser db)) @ ser db @ index_tag E (ser db)"

definition load_index :: "env \<Rightarrow> (bytes \<Rightarrow> indexer_db option) \<Rightarrow> bytes \<Rightarrow> indexer_db result" where
  "load_index E de bs =
     (if length bs < 84 then Err ''indexer file too short''
      else if take 8 bs \<noteq> INDEXER_MAGIC then Err ''bad indexer magic''
      else if le_nat (take 4 (drop 8 bs)) \<noteq> INDEXER_FORMAT then Err ''unsupported indexer format''
      else
        let stop = wadd64 20 (le_nat (take 8 (drop 12 bs)))
        in if wadd64 stop 64 \<noteq> length bs then Err ''indexer length mismatch''
           else
             let payload = take (stop - 20) (drop 20 bs); tag = drop stop bs
             in if tag \<noteq> index_tag E payload then Err ''indexer checksum mismatch''
                else (case de payload of None \<Rightarrow> Err ''decode'' | Some db \<Rightarrow> Ok (seed_protocol_labels db)))"

definition indexer_open :: "env \<Rightarrow> (bytes \<Rightarrow> indexer_db option) \<Rightarrow> bytes option \<Rightarrow> indexer_db" where
  \<comment> \<open>\<open>IndexerHandle::open\<close>; the argument is the file, \<open>None\<close> when there is none\<close>
  "indexer_open E de file =
     (case file of None \<Rightarrow> indexer_new | Some bs \<Rightarrow> (case load_index E de bs of Ok db \<Rightarrow> db | Err _ \<Rightarrow> indexer_new))"

section \<open>Following the selected chain\<close>

definition trim_from_height :: "nat \<Rightarrow> indexer_db \<Rightarrow> indexer_db" where
  "trim_from_height ht db =
     (let dropped = filter (\<lambda>(h, _). ht \<le> h) (ix_blocks db);
          txs = hretain (\<lambda>_ t. tr_height t < ht) (ix_txs db)
      in db\<lparr>ix_blocks := hretain (\<lambda>h _. h < ht) (ix_blocks db),
            ix_by_hash := fold (\<lambda>(_, b). hdel (br_hash b)) dropped (ix_by_hash db),
            ix_txs := txs,
            ix_series := filter (\<lambda>p. sp_height p < ht) (ix_series db),
            ix_address_txs := hmap_values (filter (hhas txs)) (ix_address_txs db)\<rparr>)"

definition push_addr_tx :: "string \<Rightarrow> string \<Rightarrow> (string, string list) hmap \<Rightarrow> (string, string list) hmap" where
  "push_addr_tx addr tid m =
     (let xs = hget_or [] m addr;
          xs1 = (if xs \<noteq> [] \<and> last xs = tid then xs else xs @ [tid])
      in hput addr (drop (length xs1 - MAX_ADDR_TXS) xs1) m)"

definition block_fees :: "block \<Rightarrow> nat" where
  "block_fees b = sum_list (map t_fee (transparent_txs b)) mod 2 ^ 128"

definition hash_hex :: "env \<Rightarrow> hash \<Rightarrow> string" where
  "hash_hex E h = hex_encode E (hash_bytes h)"

definition score_or_zero :: "chain_state \<Rightarrow> hash \<Rightarrow> nat" where
  "score_or_zero s h = (case hget (ghostdag s) h of None \<Rightarrow> 0 | Some d \<Rightarrow> blue_score d)"

definition block_record_of :: "env \<Rightarrow> chain_state \<Rightarrow> nat \<Rightarrow> hash \<Rightarrow> block \<Rightarrow> block_record" where
  "block_record_of E s ht h b =
     \<lparr>br_height = ht, br_hash = hash_hex E h, br_blue_score = score_or_zero s h, br_timestamp = timestamp b, br_difficulty = b_difficulty b,
      br_miner = ''hsn:'' @ hash_hex E (miner b), br_transfers = length (transparent_txs b) mod 2 ^ 32,
      br_registry_ops = length (registry_ops b) mod 2 ^ 32, br_custody_ops = length (custody_ops b) mod 2 ^ 32,
      br_utxo_txs = length (utxo_txs b) mod 2 ^ 32, br_fees = dec_str (block_fees b),
      br_selected_parent = Option.bind (hget (ghostdag s) h) (\<lambda>d. map_option (hash_hex E) (selected_parent d)),
      br_is_chain_block = True\<rparr>"

definition tx_record_of :: "env \<Rightarrow> nat \<Rightarrow> hash \<Rightarrow> block \<Rightarrow> transparent_tx \<Rightarrow> tx_record" where
  "tx_record_of E ht h b tx =
     \<lparr>tr_hash = hash_hex E (transparent_tx_hash E tx), tr_height = ht, tr_block_hash = hash_hex E h, tr_from = t_from tx, tr_to = t_to tx,
      tr_amount = dec_str (t_amount tx), tr_fee = dec_str (t_fee tx), tr_nonce = t_nonce tx, tr_timestamp = timestamp b\<rparr>"

definition index_tx :: "env \<Rightarrow> nat \<Rightarrow> hash \<Rightarrow> block \<Rightarrow> transparent_tx \<Rightarrow> indexer_db \<Rightarrow> indexer_db" where
  "index_tx E ht h b tx db =
     (let id = hash_hex E (transparent_tx_hash E tx)
      in db\<lparr>ix_address_txs := push_addr_tx (t_to tx) id (push_addr_tx (t_from tx) id (ix_address_txs db)),
            ix_labels := put_label (t_to tx) ''Active account'' (put_label (t_from tx) ''Active account'' (ix_labels db)),
            ix_txs := hput id (tx_record_of E ht h b tx) (ix_txs db)\<rparr>)"

definition series_point_of :: "chain_state \<Rightarrow> nat \<Rightarrow> hash \<Rightarrow> block \<Rightarrow> series_point" where
  "series_point_of s ht h b =
     \<lparr>sp_height = ht, sp_blue_score = score_or_zero s h, sp_timestamp = timestamp b, sp_difficulty = b_difficulty b,
      sp_transfers = length (transparent_txs b) mod 2 ^ 32, sp_fees = dec_str (block_fees b),
      sp_minted_supply = dec_str (minted_supply (live s)), sp_mempool = length (transparent_mempool s) mod 2 ^ 32,
      sp_dag_blocks = length (dag s) mod 2 ^ 32\<rparr>"

definition index_block :: "env \<Rightarrow> chain_state \<Rightarrow> nat \<Rightarrow> hash \<Rightarrow> block \<Rightarrow> indexer_db \<Rightarrow> indexer_db" where
  "index_block E s ht h b db =
     (let db1 = db\<lparr>ix_by_hash := hput (hash_hex E h) ht (ix_by_hash db), ix_blocks := hput ht (block_record_of E s ht h b) (ix_blocks db),
            ix_labels := put_label (''hsn:'' @ hash_hex E (miner b)) (''Miner @ height '' @ dec_str ht) (ix_labels db)\<rparr>;
          db2 = fold (index_tx E ht h b) (transparent_txs b) db1
      in db2\<lparr>ix_series := ix_series db2 @ [series_point_of s ht h b]\<rparr>)"

definition sync_block :: "env \<Rightarrow> chain_state \<Rightarrow> nat \<Rightarrow> hash \<Rightarrow> indexer_db \<Rightarrow> indexer_db" where
  \<comment> \<open>one round of the loop: a known block is skipped, another one at its height is a reorganization\<close>
  "sync_block E s ht h db =
     (if map_option br_hash (hget (ix_blocks db) ht) = Some (hash_hex E h) then db
      else
        let db1 = (if hhas (ix_blocks db) ht then trim_from_height ht db else db)
        in case hget (dag s) h of None \<Rightarrow> db1 | Some b \<Rightarrow> index_block E s ht h b db1)"

fun sync_chain :: "env \<Rightarrow> chain_state \<Rightarrow> nat \<Rightarrow> hash list \<Rightarrow> indexer_db \<Rightarrow> indexer_db" where
  "sync_chain E s i [] db = db"
| "sync_chain E s i (h # hs) db =
     sync_chain E s (i + 1) hs (sync_block E s (wadd64 (pruned_selected_blocks s) i) h db)"

definition trim_tx_cap :: "indexer_db \<Rightarrow> indexer_db" where
  "trim_tx_cap db =
     (if length (ix_txs db) \<le> MAX_TX_RECORDS then db
      else
        let pairs = sort_key fst (map (\<lambda>(k, v). (tr_height v, k)) (ix_txs db));
            txs = fold (\<lambda>(_, id). hdel id) (take (length (ix_txs db) - MAX_TX_RECORDS) pairs) (ix_txs db)
        in db\<lparr>ix_txs := txs, ix_address_txs := hmap_values (filter (hhas txs)) (ix_address_txs db)\<rparr>)"

definition label_tips :: "env \<Rightarrow> chain_state \<Rightarrow> indexer_db \<Rightarrow> indexer_db" where
  "label_tips E s db = db\<lparr>ix_labels :=
     fold (\<lambda>t m. if hhas (ix_by_hash db) (hash_hex E t) then m else put_label (hash_hex E t) ''DAG tip (non-indexed body)'' m) (tips s) (ix_labels db)\<rparr>"

definition sync_from_state :: "env \<Rightarrow> nat \<Rightarrow> chain_state \<Rightarrow> indexer_db \<Rightarrow> indexer_db" where
  "sync_from_state E now s db =
     (let db1 = label_tips E s (sync_chain E s 0 (main_chain s) db);
          db2 = trim_tx_cap (db1\<lparr>ix_series := drop (length (ix_series db1) - MAX_SERIES_POINTS) (ix_series db1)\<rparr>)
      in db2\<lparr>ix_tip_height := tip_height s,
             ix_tip_hash := (if main_chain s = [] then None else Some (hash_hex E (last (main_chain s)))),
             ix_indexed_at_ms := now, ix_format := INDEXER_FORMAT\<rparr>)"

section \<open>Queries\<close>

definition opt_str :: "string option \<Rightarrow> json" where
  "opt_str o' = (case o' of None \<Rightarrow> JNull | Some s \<Rightarrow> JStr s)"

definition parse_dec_u64 :: "string \<Rightarrow> nat option" where
  \<comment> \<open>\<open>str::parse::<u64>\<close>\<close>
  "parse_dec_u64 s =
     (let d = (if s \<noteq> [] \<and> hd s = CHR ''+'' then tl s else s);
          v = foldl (\<lambda>n c. n * 10 + digit_val c) 0 d
      in if d = [] \<or> \<not> list_all is_digit d \<or> v \<ge> 2 ^ 64 then None else Some v)"

function trim_start_matches :: "string \<Rightarrow> string \<Rightarrow> string" where
  "trim_start_matches pre s = (if pre \<noteq> [] \<and> prefix pre s then trim_start_matches pre (drop (length pre) s) else s)"
  by pat_completeness auto
termination by (relation "measure (length \<circ> snd)") (auto dest: prefix_length_le intro!: diff_less)

declare trim_start_matches.simps [simp del]

definition hash_results :: "indexer_db \<Rightarrow> string \<Rightarrow> json list" where
  \<comment> \<open>a full hash, else up to eight blocks and eight transactions that begin with it\<close>
  "hash_results db q =
     (case hget (ix_by_hash db) q of
        Some h \<Rightarrow> [JObj [(''kind'', JStr ''block''), (''id'', JStr q), (''height'', JNum (int h)), (''label'', opt_str (hget (ix_labels db) q))]]
      | None \<Rightarrow>
          (case hget (ix_txs db) q of
             Some tx \<Rightarrow> [JObj [(''kind'', JStr ''tx''), (''id'', JStr q), (''height'', JNum (int (tr_height tx))), (''block'', JStr (tr_block_hash tx)),
               (''label'', opt_str (hget (ix_labels db) q))]]
           | None \<Rightarrow>
               map (\<lambda>(k, h). JObj [(''kind'', JStr ''block''), (''id'', JStr k), (''height'', JNum (int h)), (''label'', opt_str (hget (ix_labels db) k))])
                 (take 8 (filter (\<lambda>(k, _). prefix q k) (ix_by_hash db)))
               @ map (\<lambda>(k, tx). JObj [(''kind'', JStr ''tx''), (''id'', JStr k), (''height'', JNum (int (tr_height tx))), (''block'', JStr (tr_block_hash tx))])
                 (take 8 (filter (\<lambda>(k, _). prefix q k) (ix_txs db)))))"

fun label_results :: "string \<Rightarrow> (string, string) hmap \<Rightarrow> json list \<Rightarrow> json list" where
  "label_results needle [] rs = rs"
| "label_results needle ((k, v) # ls) rs =
     (if sublist needle (map to_ascii_lower v) \<or> sublist needle (map to_ascii_lower k)
      then let rs1 = rs @ [JObj [(''kind'', JStr ''label''), (''id'', JStr k), (''label'', JStr v)]]
           in if length rs1 \<ge> 32 then rs1 else label_results needle ls rs1
      else label_results needle ls rs)"

definition index_search :: "env \<Rightarrow> string \<Rightarrow> indexer_db \<Rightarrow> json" where
  "index_search E query db =
     (let q = trim query in
      if q = [] then JObj [(''query'', JStr q), (''results'', JArr [])]
      else
        let r1 = (case Option.bind (parse_dec_u64 q) (hget (ix_blocks db)) of
                    None \<Rightarrow> []
                  | Some b \<Rightarrow> [JObj [(''kind'', JStr ''block''), (''id'', JStr (br_hash b)), (''height'', JNum (int (br_height b))),
                      (''label'', opt_str (hget (ix_labels db) (br_hash b)))]]);
            r2 = (if is_valid_address E q \<or> prefix ''hsn:'' q \<or> prefix ''hsn1'' q
                  then [JObj [(''kind'', JStr ''address''), (''id'', JStr q), (''tx_count'', JNum (int (length (hget_or [] (ix_address_txs db) q)))),
                      (''label'', opt_str (hget (ix_labels db) q))]] else []);
            qhex = map to_ascii_lower (strip_0x q);
            r3 = (if list_all is_hexdigit qhex \<and> length qhex \<ge> 8 then hash_results db qhex else []);
            r4 = (case split_once CHR '':'' q of
                    Some (tx, vo) \<Rightarrow>
                      if is_valid_hash_hex tx \<and> (case parse_dec_u64 vo of Some n \<Rightarrow> n < 2 ^ 32 | None \<Rightarrow> False)
                      then [JObj [(''kind'', JStr ''outpoint''), (''id'', JStr q), (''txid'', JStr tx), (''vout'', JStr vo),
                        (''label'', opt_str (hget (ix_labels db) q))]] else []
                  | None \<Rightarrow> []);
            ql = map to_ascii_lower q;
            rs = r1 @ r2 @ r3 @ r4
        in JObj [(''query'', JStr q), (''results'', JArr
             (if prefix ''op:'' ql \<or> prefix ''label:'' ql
              then label_results (trim (trim_start_matches ''label:'' (trim_start_matches ''op:'' ql))) (ix_labels db) rs else rs))])"

definition json_of_tx :: "tx_record \<Rightarrow> json" where
  "json_of_tx t = JObj [(''tx_hash'', JStr (tr_hash t)), (''height'', JNum (int (tr_height t))), (''block_hash'', JStr (tr_block_hash t)),
     (''from'', JStr (tr_from t)), (''to'', JStr (tr_to t)), (''amount'', JStr (tr_amount t)), (''fee'', JStr (tr_fee t)),
     (''nonce'', JNum (int (tr_nonce t))), (''timestamp'', JNum (int (tr_timestamp t)))]"

definition address_history :: "string \<Rightarrow> nat \<Rightarrow> indexer_db \<Rightarrow> json" where
  "address_history addr limit db =
     (let ids = hget_or [] (ix_address_txs db) addr
      in JObj [(''address'', JStr addr), (''label'', opt_str (hget (ix_labels db) addr)),
           (''txs'', JArr (map json_of_tx (List.map_filter (hget (ix_txs db)) (take (clamp_nat limit 1 500) (rev ids))))),
           (''total_indexed'', JNum (int (length ids)))])"

end
