(* ===== verification/Indexer_Correct.thy ===== *)
theory Indexer_Correct
  imports Indexer Snapshot_Correct Mempool_Correct
begin

text \<open>
  Correctness of the explorer index: whatever blocks an archival node takes in between two calls, reorganizations included, the
  index after \<open>sync_from_state\<close> is the selected chain, and its tables are bounded. The index file is read back as it was written.
\<close>

section \<open>Hashes as text\<close>

lemma hash_bytes_inj: "hash_bytes h = hash_bytes h' \<Longrightarrow> h = h'"
proof (rule bit_word_eqI)
  fix n assume e: "hash_bytes h = hash_bytes h'" and n: "n < LENGTH(512)"
  have "hash_bytes h ! (63 - n div 8) = hash_bytes h' ! (63 - n div 8)" using e by simp
  moreover have "63 - n div 8 < 64" "63 - (63 - n div 8) = n div 8" using n by auto
  ultimately have "(ucast (drop_bit (8 * (n div 8)) h) :: 8 word) = ucast (drop_bit (8 * (n div 8)) h')" by (simp add: hash_bytes_def)
  then have "bit (ucast (drop_bit (8 * (n div 8)) h) :: 8 word) (n mod 8) = bit (ucast (drop_bit (8 * (n div 8)) h') :: 8 word) (n mod 8)" by simp
  moreover have "n mod 8 < 8" "8 * (n div 8) + n mod 8 = n" by simp_all
  ultimately show "bit h n = bit h' n" by (simp add: bit_ucast_iff bit_drop_bit_eq)
qed

definition hex_injective :: "env \<Rightarrow> bool" where
  \<comment> \<open>different bytes have different hexadecimal forms\<close>
  "hex_injective E \<longleftrightarrow> (\<forall>a b. hex_encode E a = hex_encode E b \<longrightarrow> a = b)"

lemma hash_hex_inj: "hex_injective E \<Longrightarrow> hash_hex E a = hash_hex E b \<longleftrightarrow> a = b"
  by (auto simp: hex_injective_def hash_hex_def dest: hash_bytes_inj)

section \<open>The index of a chain\<close>

definition record_at :: "env \<Rightarrow> chain_state \<Rightarrow> nat \<Rightarrow> hash \<Rightarrow> block_record" where
  "record_at E s i h = block_record_of E s i h (hidx (dag s) h)"

definition indexes :: "env \<Rightarrow> chain_state \<Rightarrow> hash list \<Rightarrow> indexer_db \<Rightarrow> bool" where
  \<comment> \<open>the index holds exactly the chain \<open>m\<close>, and transfers of its blocks\<close>
  "indexes E s m db \<longleftrightarrow> hmap_ok (ix_blocks db) \<and> hmap_ok (ix_txs db)
     \<and> (\<forall>i. hget (ix_blocks db) i = (if i < length m then Some (record_at E s i (m ! i)) else None))
     \<and> (\<forall>k i. hget (ix_by_hash db) k = Some i \<longleftrightarrow> i < length m \<and> k = hash_hex E (m ! i))
     \<and> (\<forall>k t. hget (ix_txs db) k = Some t \<longrightarrow> k = tr_hash t \<and> tr_height t < length m
          \<and> (\<exists>tx\<in>set (transparent_txs (hidx (dag s) (m ! tr_height t))).
               t = tx_record_of E (tr_height t) (m ! tr_height t) (hidx (dag s) (m ! tr_height t)) tx))
     \<and> (\<forall>a ids. hget (ix_address_txs db) a = Some ids \<longrightarrow> length ids \<le> MAX_ADDR_TXS)"

lemma indexes_frame:
  assumes "ix_blocks db' = ix_blocks db" and "ix_by_hash db' = ix_by_hash db" and "ix_txs db' = ix_txs db" and "ix_address_txs db' = ix_address_txs db"
  shows "indexes E s m db' = indexes E s m db"
  by (simp add: indexes_def assms)

lemma indexes_new: "indexes E s [] indexer_new"
  by (simp add: indexes_def indexer_new_def seed_protocol_labels_def hmap_ok_def)

lemma push_addr_tx_bounded:
  assumes "\<forall>a ids. hget m a = Some ids \<longrightarrow> length ids \<le> MAX_ADDR_TXS"
  shows "hget (push_addr_tx a x m) b = Some ids \<Longrightarrow> length ids \<le> MAX_ADDR_TXS"
  using assms by (auto simp: push_addr_tx_def Let_def split: if_splits)

lemma trim_indexes:
  assumes ix: "indexes E s m db" and d: "distinct m" and hx: "hex_injective E"
  shows "indexes E s (take n m) (trim_from_height n db)"
proof -
  note i = ix [unfolded indexes_def]
  let ?db = "trim_from_height n db"
  have ok: "hmap_ok (ix_blocks db)" "hmap_ok (ix_txs db)" using i by simp_all
  have blk: "hget (ix_blocks db) j = (if j < length m then Some (record_at E s j (m ! j)) else None)" for j using i by blast
  have b: "hget (ix_blocks ?db) j = (if j < length (take n m) then Some (record_at E s j (take n m ! j)) else None)" for j
    by (simp add: trim_from_height_def Let_def hget_hretain [OF ok(1)] blk)
  have dropped: "(j, r) \<in> set (filter (\<lambda>(h, _). n \<le> h) (ix_blocks db)) \<longleftrightarrow> n \<le> j \<and> j < length m \<and> r = record_at E s j (m ! j)" for j r
  proof -
    have "(j, r) \<in> set (ix_blocks db) \<longleftrightarrow> hget (ix_blocks db) j = Some r" using map_of_eq_Some_iff [of "ix_blocks db"] ok(1) by (simp add: hmap_ok_def)
    then show ?thesis using blk by auto
  qed
  then have gone: "k \<in> (\<lambda>(_, r). br_hash r) ` set (filter (\<lambda>(h, _). n \<le> h) (ix_blocks db)) \<longleftrightarrow> (\<exists>j. n \<le> j \<and> j < length m \<and> k = hash_hex E (m ! j))" for k
  proof -
    have "k \<in> (\<lambda>(_, r). br_hash r) ` set (filter (\<lambda>(h, _). n \<le> h) (ix_blocks db))
        \<longleftrightarrow> (\<exists>j r. (j, r) \<in> set (filter (\<lambda>(h, _). n \<le> h) (ix_blocks db)) \<and> k = br_hash r)" by (auto simp: image_iff split: prod.splits)
    then show ?thesis unfolding dropped by (simp add: record_at_def block_record_of_def)
  qed
  have h: "hget (ix_by_hash ?db) k = Some j \<longleftrightarrow> j < length (take n m) \<and> k = hash_hex E (take n m ! j)" for k j
  proof -
    have "hget (ix_by_hash ?db) k = (if \<exists>j. n \<le> j \<and> j < length m \<and> k = hash_hex E (m ! j) then None else hget (ix_by_hash db) k)"
      by (simp add: trim_from_height_def Let_def case_prod_unfold hget_fold_hdel [where f = "\<lambda>x. br_hash (snd x)"] gone [unfolded case_prod_unfold] del: set_filter)
    moreover have "hget (ix_by_hash db) k = Some j \<longleftrightarrow> j < length m \<and> k = hash_hex E (m ! j)" using i by blast
    ultimately show ?thesis using nth_eq_iff_index_eq [OF d] by (cases "j < n") (auto simp: hash_hex_inj [OF hx] not_less)
  qed
  have t: "hget (ix_txs ?db) k = Some t \<Longrightarrow> hget (ix_txs db) k = Some t \<and> tr_height t < n" for k t
    by (auto simp: trim_from_height_def Let_def hget_hretain [OF ok(2)] split: option.splits if_splits)
  have a: "hget (ix_address_txs ?db) a = Some ids \<Longrightarrow> length ids \<le> MAX_ADDR_TXS" for a ids
    using i by (auto simp: trim_from_height_def Let_def intro: order_trans [OF length_filter_le])
  have "hmap_ok (ix_blocks ?db)" "hmap_ok (ix_txs ?db)" using ok by (simp_all add: trim_from_height_def Let_def)
  then show ?thesis using b h a i by (auto simp: indexes_def dest!: t)
qed

lemma index_tx_fold:
  "ix_blocks (fold (index_tx E i h b) txs db) = ix_blocks db" "ix_by_hash (fold (index_tx E i h b) txs db) = ix_by_hash db"
  "hmap_ok (ix_txs db) \<Longrightarrow> hmap_ok (ix_txs (fold (index_tx E i h b) txs db))"
  "hget (ix_txs (fold (index_tx E i h b) txs db)) k = Some t \<Longrightarrow>
     hget (ix_txs db) k = Some t \<or> (\<exists>tx\<in>set txs. k = tr_hash t \<and> t = tx_record_of E i h b tx)"
  "\<forall>a ids. hget (ix_address_txs db) a = Some ids \<longrightarrow> length ids \<le> MAX_ADDR_TXS \<Longrightarrow>
     hget (ix_address_txs (fold (index_tx E i h b) txs db)) a = Some ids \<Longrightarrow> length ids \<le> MAX_ADDR_TXS"
proof -
  show "ix_blocks (fold (index_tx E i h b) txs db) = ix_blocks db" "ix_by_hash (fold (index_tx E i h b) txs db) = ix_by_hash db"
    by (induction txs arbitrary: db) (simp_all add: index_tx_def Let_def)
  show "hmap_ok (ix_txs db) \<Longrightarrow> hmap_ok (ix_txs (fold (index_tx E i h b) txs db))"
    by (induction txs arbitrary: db) (simp_all add: index_tx_def Let_def)
  show "hget (ix_txs (fold (index_tx E i h b) txs db)) k = Some t \<Longrightarrow>
     hget (ix_txs db) k = Some t \<or> (\<exists>tx\<in>set txs. k = tr_hash t \<and> t = tx_record_of E i h b tx)"
  proof (induction txs arbitrary: db)
    case (Cons tx txs)
    then show ?case using Cons.IH [of "index_tx E i h b tx db"] by (auto simp: index_tx_def tx_record_of_def Let_def split: if_splits)
  qed simp
  show "\<forall>a ids. hget (ix_address_txs db) a = Some ids \<longrightarrow> length ids \<le> MAX_ADDR_TXS \<Longrightarrow>
     hget (ix_address_txs (fold (index_tx E i h b) txs db)) a = Some ids \<Longrightarrow> length ids \<le> MAX_ADDR_TXS"
  proof (induction txs arbitrary: db)
    case (Cons tx txs)
    have "\<forall>a ids. hget (ix_address_txs (index_tx E i h b tx db)) a = Some ids \<longrightarrow> length ids \<le> MAX_ADDR_TXS"
      using push_addr_tx_bounded [of "push_addr_tx (t_from tx) _ (ix_address_txs db)"] push_addr_tx_bounded [OF Cons.prems(1)]
      by (simp add: index_tx_def Let_def)
    then show ?case using Cons.IH Cons.prems(2) by simp
  qed simp
qed

lemma index_block_indexes:
  assumes ix: "indexes E s m db" and h: "hget (dag s) h = Some b" and new: "h \<notin> set m" and hx: "hex_injective E"
  shows "indexes E s (m @ [h]) (index_block E s (length m) h b db)"
proof -
  note i = ix [unfolded indexes_def]
  define db1 where "db1 = db\<lparr>ix_by_hash := hput (hash_hex E h) (length m) (ix_by_hash db), ix_blocks := hput (length m) (block_record_of E s (length m) h b) (ix_blocks db),
            ix_labels := put_label (''hsn:'' @ hash_hex E (miner b)) (''Miner @ height '' @ dec_str (length m)) (ix_labels db)\<rparr>"
  define db2 where "db2 = fold (index_tx E (length m) h b) (transparent_txs b) db1"
  have db: "index_block E s (length m) h b db = db2\<lparr>ix_series := ix_series db2 @ [series_point_of s (length m) h b]\<rparr>"
    by (simp add: index_block_def Let_def db1_def db2_def)
  have hb: "hidx (dag s) h = b" using h by (simp add: hidx_def)
  have "hmap_ok (ix_blocks db2)" "hmap_ok (ix_txs db2)" using i index_tx_fold(1,3) by (simp_all add: db2_def db1_def)
  moreover have "hget (ix_blocks db2) j = (if j < length (m @ [h]) then Some (record_at E s j ((m @ [h]) ! j)) else None)" for j
    using i hb by (auto simp: db2_def db1_def index_tx_fold(1) record_at_def nth_append less_Suc_eq)
  moreover have "hget (ix_by_hash db2) k = Some j \<longleftrightarrow> j < length (m @ [h]) \<and> k = hash_hex E ((m @ [h]) ! j)" for k j
  proof -
    have "hget (ix_by_hash db) k = Some j \<longleftrightarrow> j < length m \<and> k = hash_hex E (m ! j)" using i by blast
    then show ?thesis using new by (auto simp: db2_def db1_def index_tx_fold(2) nth_append less_Suc_eq hash_hex_inj [OF hx])
  qed
  moreover have "k = tr_hash t \<and> tr_height t < length (m @ [h]) \<and> (\<exists>tx\<in>set (transparent_txs (hidx (dag s) ((m @ [h]) ! tr_height t))).
       t = tx_record_of E (tr_height t) ((m @ [h]) ! tr_height t) (hidx (dag s) ((m @ [h]) ! tr_height t)) tx)"
    if "hget (ix_txs db2) k = Some t" for k t
  proof -
    from index_tx_fold(4) [OF that [unfolded db2_def]]
    consider "hget (ix_txs db) k = Some t" | tx where "tx \<in> set (transparent_txs b)" "k = tr_hash t" "t = tx_record_of E (length m) h b tx"
      by (auto simp: db1_def)
    then show ?thesis
    proof cases
      case 1
      then have "k = tr_hash t \<and> tr_height t < length m \<and> (\<exists>tx\<in>set (transparent_txs (hidx (dag s) (m ! tr_height t))).
          t = tx_record_of E (tr_height t) (m ! tr_height t) (hidx (dag s) (m ! tr_height t)) tx)" using i by blast
      then show ?thesis by (simp add: nth_append)
    next
      case 2
      then have "tr_height t = length m" by (simp add: tx_record_of_def)
      then show ?thesis using 2 hb by auto
    qed
  qed
  moreover have "\<forall>a ids. hget (ix_address_txs db2) a = Some ids \<longrightarrow> length ids \<le> MAX_ADDR_TXS"
    using index_tx_fold(5) [of db1] i by (auto simp: db2_def db1_def)
  ultimately show ?thesis unfolding db indexes_def by simp
qed

section \<open>Following the chain\<close>

lemma sync_chain_indexes:
  assumes hx: "hex_injective E" and pruned: "pruned_selected_blocks s = 0" and size: "length mc < 2 ^ 64"
    and known: "\<forall>h\<in>set mc. hhas (dag s) h" and d: "distinct mc" and d0: "distinct m0"
    and mc: "mc = pre @ hs" and ix: "indexes E s m db" and pre: "prefix pre m" and m: "m = m0 \<or> m = pre"
  shows "\<exists>m'. indexes E s m' (sync_chain E s (length pre) hs db) \<and> prefix mc m' \<and> (m' = m0 \<or> m' = mc)"
  using mc ix pre m
proof (induction hs arbitrary: pre m db)
  case Nil
  then show ?case by auto
next
  case (Cons h hs)
  let ?db = "sync_block E s (length pre) h db"
  have "wadd64 (pruned_selected_blocks s) (length pre) = length pre" using Cons.prems(1) size pruned by (simp add: wadd64_def)
  then have step: "sync_chain E s (length pre) (h # hs) db = sync_chain E s (length (pre @ [h])) hs ?db" by simp
  have dm: "distinct m" using Cons.prems(1,4) d d0 by auto
  obtain b where b: "hget (dag s) h = Some b" using known Cons.prems(1) by (auto elim: hhasE)
  have nh: "h \<notin> set pre" using d Cons.prems(1) by simp
  obtain rest where rest: "m = pre @ rest" using Cons.prems(3) by (auto simp: prefix_def)
  have at: "hget (ix_blocks db) (length pre) = (if length pre < length m then Some (record_at E s (length pre) (m ! length pre)) else None)"
    using Cons.prems(2) by (simp add: indexes_def)
  have "\<exists>m'. indexes E s m' ?db \<and> prefix (pre @ [h]) m' \<and> (m' = m0 \<or> m' = pre @ [h])"
  proof (cases "\<exists>tl. rest = h # tl")
    case True
    then have "?db = db" using at rest by (auto simp: sync_block_def record_at_def block_record_of_def)
    moreover have "prefix (pre @ [h]) m" "m = m0" using True rest Cons.prems(4) by auto
    ultimately show ?thesis using Cons.prems(2) by (intro exI [of _ m]) simp
  next
    case False
    have "map_option br_hash (hget (ix_blocks db) (length pre)) \<noteq> Some (hash_hex E h)"
      using at False rest by (cases rest) (auto simp: record_at_def block_record_of_def hash_hex_inj [OF hx])
    moreover have "indexes E s pre (if hhas (ix_blocks db) (length pre) then trim_from_height (length pre) db else db)"
    proof (cases rest)
      case Nil
      then show ?thesis using at rest Cons.prems(2) by (simp add: hhas_def)
    next
      case (Cons x xs)
      then show ?thesis using at rest trim_indexes [OF Cons.prems(2) dm hx, of "length pre"] by (simp add: hhas_def)
    qed
    ultimately have "indexes E s (pre @ [h]) ?db"
      using index_block_indexes [OF _ b nh hx] b by (auto simp: sync_block_def Let_def)
    then show ?thesis by blast
  qed
  then obtain m' where m': "indexes E s m' ?db" "prefix (pre @ [h]) m'" "m' = m0 \<or> m' = pre @ [h]" by blast
  from Cons.IH [OF _ m'] Cons.prems(1) show ?case unfolding step by simp
qed

lemma trim_tx_cap_spec:
  assumes "hmap_ok (ix_txs db)"
  shows "length (ix_txs (trim_tx_cap db)) \<le> MAX_TX_RECORDS" "indexes E s m db \<Longrightarrow> indexes E s m (trim_tx_cap db)"
    "ix_series (trim_tx_cap db) = ix_series db"
proof -
  define xs where "xs = sort_key fst (map (\<lambda>(k, v). (tr_height v, k)) (ix_txs db))"
  define n where "n = length (ix_txs db) - MAX_TX_RECORDS"
  define txs where "txs = fold (\<lambda>x. hdel (snd x)) (take n xs) (ix_txs db)"
  have m: "mset (map snd xs) = mset (hkeys (ix_txs db))" by (simp add: xs_def image_mset.compositionality comp_def case_prod_unfold)
  have eq: "trim_tx_cap db = (if length (ix_txs db) \<le> MAX_TX_RECORDS then db
      else db\<lparr>ix_txs := txs, ix_address_txs := hmap_values (filter (hhas txs)) (ix_address_txs db)\<rparr>)"
    by (simp add: trim_tx_cap_def txs_def n_def xs_def Let_def case_prod_unfold)
  have "length txs = length (ix_txs db) - n" unfolding txs_def by (rule drop_first [OF assms m]) (simp add: n_def)
  then show "length (ix_txs (trim_tx_cap db)) \<le> MAX_TX_RECORDS" by (auto simp: eq n_def)
  show "ix_series (trim_tx_cap db) = ix_series db" by (simp add: eq)
  have sub: "hget txs k = Some t \<Longrightarrow> hget (ix_txs db) k = Some t" for k t by (auto simp: txs_def hget_fold_hdel split: if_splits)
  have ok: "hmap_ok txs" using assms by (simp add: txs_def hmap_ok_fold_hdel)
  have ad: "length (filter (hhas txs) ids) \<le> MAX_ADDR_TXS" if "length ids \<le> MAX_ADDR_TXS" for ids
    by (rule order_trans [OF length_filter_le that])
  show "indexes E s m db \<Longrightarrow> indexes E s m (trim_tx_cap db)"
    unfolding eq indexes_def using ok ad by (auto dest!: sub)
qed

lemma sync_from_state_indexes:
  assumes hx: "hex_injective E" and pruned: "pruned_selected_blocks s = 0" and size: "length (main_chain s) < 2 ^ 64"
    and known: "\<forall>h\<in>set (main_chain s). hhas (dag s) h" and d: "distinct (main_chain s)" "distinct m"
    and ix: "indexes E s m db" and later: "prefix (main_chain s) m \<Longrightarrow> m = main_chain s"
  shows "indexes E s (main_chain s) (sync_from_state E now s db)" "length (ix_series (sync_from_state E now s db)) \<le> MAX_SERIES_POINTS"
    "length (ix_txs (sync_from_state E now s db)) \<le> MAX_TX_RECORDS"
proof -
  obtain m' where m': "indexes E s m' (sync_chain E s 0 (main_chain s) db)" "prefix (main_chain s) m'" "m' = m \<or> m' = main_chain s"
    using sync_chain_indexes [OF hx pruned size known d, of "[]" "main_chain s" m db] ix by auto
  define db1 where "db1 = label_tips E s (sync_chain E s 0 (main_chain s) db)"
  define db2 where "db2 = db1\<lparr>ix_series := drop (length (ix_series db1) - MAX_SERIES_POINTS) (ix_series db1)\<rparr>"
  have "indexes E s (main_chain s) (sync_chain E s 0 (main_chain s) db)" using m' later by auto
  then have ix2: "indexes E s (main_chain s) db2" by (subst indexes_frame [of _ "sync_chain E s 0 (main_chain s) db"]) (simp_all add: db2_def db1_def label_tips_def)
  then have "hmap_ok (ix_txs db2)" by (simp add: indexes_def)
  note t = trim_tx_cap_spec [OF this]
  have eq: "sync_from_state E now s db = trim_tx_cap db2\<lparr>ix_tip_height := tip_height s,
      ix_tip_hash := (if main_chain s = [] then None else Some (hash_hex E (last (main_chain s)))), ix_indexed_at_ms := now, ix_format := INDEXER_FORMAT\<rparr>"
    by (simp add: sync_from_state_def Let_def db1_def db2_def)
  show "indexes E s (main_chain s) (sync_from_state E now s db)"
    unfolding eq by (subst indexes_frame [of _ "trim_tx_cap db2"]) (simp_all add: t(2) [OF ix2])
  show "length (ix_series (sync_from_state E now s db)) \<le> MAX_SERIES_POINTS" "length (ix_txs (sync_from_state E now s db)) \<le> MAX_TX_RECORDS"
    unfolding eq using t(1) by (simp_all add: t(3)) (simp add: db2_def)
qed

section \<open>The index beside a node\<close>

lemma tip_has_most_blue:
  assumes inv: "chain_inv E cs" and x: "hhas (dag cs) x"
  shows "blue_score (hidx (ghostdag cs) x) \<le> blue_score (hidx (ghostdag cs) (last (main_chain cs)))"
proof -
  let ?s = "\<lambda>x. blue_score (hidx (ghostdag cs) x)"
  have ok: "dag_ok E cs" "leaf_tips cs" using inv by (simp_all add: chain_inv_def)
  note d = dag_okD [OF ok(1)] and g = dag_run_inv [OF dag_okD(1) [OF ok(1)], unfolded ghost_inv_def]
  let ?S = "set (hkeys (dag cs))"
  have fin: "finite ?S" "?S \<noteq> {}" using x by (auto simp: hhas_iff)
  have "Max (?s ` ?S) \<in> ?s ` ?S" by (rule Max_in) (use fin in auto)
  then obtain y where y: "y \<in> ?S" "Max (?s ` ?S) = ?s y" by blast
  have y: "y \<in> ?S" "\<forall>z\<in>?S. ?s z \<le> ?s y" using y(1) Max_ge [of "?s ` ?S"] unfolding y(2) by simp_all
  have "\<not> edge (dag cs) y z" for z
  proof
    assume e: "edge (dag cs) y z"
    then have z: "hhas (dag cs) z" by (cases "hget (dag cs) z") (auto simp: edge_def dag_parents_def hhas_def)
    then have "data_ok (dag cs) (ghostdag cs) z (hidx (ghostdag cs) z)" using g d(4) hget_hidx by metis
    then have "?s y < ?s z" using e by (simp add: data_ok_def)
    then show False using y(2) z by (auto simp: hhas_iff)
  qed
  then have tip: "y \<in> set (tips cs)" using ok(2) y(1) by (simp add: leaf_tips_def hhas_iff)
  have "score_key (ghostdag cs) y \<le> score_key (ghostdag cs) (last (main_chain cs))"
    by (rule selected_tip_Some(3) [OF main_chain_ok(4) [OF inv] tip]) (use y(1) d(4) in \<open>simp add: hhas_iff\<close>)
  then have "?s y \<le> ?s (last (main_chain cs))" by (auto simp: score_key_def less_eq_prod_def)
  then show ?thesis using y(2) x by (auto simp: hhas_iff intro: order_trans)
qed

definition known_chain :: "chain_state \<Rightarrow> hash list \<Rightarrow> bool" where
  \<comment> \<open>the selected chain of some block the node has\<close>
  "known_chain cs m \<longleftrightarrow> m = [] \<or> (\<exists>t. hhas (ghostdag cs) t \<and> selected_chain (ghostdag cs) t = Some m)"

lemma known_chain_facts:
  assumes inv: "chain_inv E cs" and m: "known_chain cs m"
  shows "distinct m" "\<forall>h\<in>set m. hhas (dag cs) h" "prefix (main_chain cs) m \<Longrightarrow> m = main_chain cs"
proof -
  note d = dag_okD [of E cs]
  have ok: "dag_ok E cs" using inv by (simp add: chain_inv_def)
  note l = dag_okD(3) [OF ok]
  note mc = main_chain_ok [OF inv]
  have "distinct m \<and> (\<forall>h\<in>set m. hhas (dag cs) h) \<and> (prefix (main_chain cs) m \<longrightarrow> m = main_chain cs)" if t: "hhas (ghostdag cs) t" "selected_chain (ghostdag cs) t = Some m" for t
  proof -
    obtain c where c: "selected_chain (ghostdag cs) t = Some c" "c \<noteq> []" "last c = t" "successively (\<lambda>x y. sp_edge (ghostdag cs) y x) c" "\<forall>x\<in>set c. hhas (ghostdag cs) x"
      by (rule selected_chain_links [OF l t(1)])
    then have cm: "c = m" using t(2) by simp
    have sc: "sorted_wrt (\<lambda>x y. blue_score (hidx (ghostdag cs) x) < blue_score (hidx (ghostdag cs) y)) m" using chain_scores [OF l c(4)] cm by simp
    then have "sorted_wrt (\<noteq>) m" by (rule sorted_wrt_mono_rel [rotated]) auto
    then have dm: "distinct m" by (simp add: distinct_conv_nth sorted_wrt_iff_nth_less) (metis linorder_neqE_nat)
    moreover have "m = main_chain cs" if p: "prefix (main_chain cs) m"
    proof (rule ccontr)
      assume ne: "m \<noteq> main_chain cs"
      then obtain x xs where m: "m = main_chain cs @ x # xs" using p by (metis append_Nil2 list.exhaust prefix_def)
      then have "last m \<in> set (x # xs)" "last (main_chain cs) \<in> set (main_chain cs)" using mc(3) by (auto simp: last_append)
      then have "blue_score (hidx (ghostdag cs) (last (main_chain cs))) < blue_score (hidx (ghostdag cs) (last m))"
        using sc unfolding m sorted_wrt_append by blast
      moreover have "hhas (dag cs) (last m)" using c cm dag_okD(4) [OF ok] t(1) by simp
      ultimately show False using tip_has_most_blue [OF inv, of "last m"] by simp
    qed
    ultimately show ?thesis using c(5) cm dag_okD(4) [OF ok] by simp
  qed
  then show "distinct m" "\<forall>h\<in>set m. hhas (dag cs) h" "prefix (main_chain cs) m \<Longrightarrow> m = main_chain cs"
    using m mc(3) by (auto simp: known_chain_def)
qed

definition same_pruning :: "chain_state \<Rightarrow> chain_state \<Rightarrow> bool" where
  "same_pruning cs cs' \<longleftrightarrow> archival cs' = archival cs \<and> pruned_selected_blocks cs' = pruned_selected_blocks cs"

lemma pruning_frames:
  "insert_block E b d cs = Some cs' \<Longrightarrow> same_pruning cs cs'" "order_main_chain cs = Some cs' \<Longrightarrow> same_pruning cs cs'"
  "same_pruning cs (capture_base cs)" "advance_finalized_base E cs = Some cs' \<Longrightarrow> same_pruning cs cs'"
  "recompute_virtual_state E cs = Some cs' \<Longrightarrow> same_pruning cs cs'" "record_selected_chain_fee_samples E cs = Some cs' \<Longrightarrow> same_pruning cs cs'"
  "same_pruning cs (drop_included_from_mempools E b cs)" "refresh_difficulty lab cs = Some cs' \<Longrightarrow> same_pruning cs cs'"
  "archival cs \<Longrightarrow> prune_history E (prune_bodies cs) = Some cs' \<Longrightarrow> same_pruning cs cs'"
proof -
  show "insert_block E b d cs = Some cs' \<Longrightarrow> same_pruning cs cs'" by (auto simp: insert_block_def same_pruning_def Let_def)
  show "order_main_chain cs = Some cs' \<Longrightarrow> same_pruning cs cs'" by (auto simp: order_main_chain_def same_pruning_def split: option.splits)
  show "same_pruning cs (capture_base cs)" by (simp add: capture_base_def same_pruning_def)
  show "advance_finalized_base E cs = Some cs' \<Longrightarrow> same_pruning cs cs'"
    by (auto simp: advance_finalized_base_def same_pruning_def Let_def split: option.splits if_splits)
  show "recompute_virtual_state E cs = Some cs' \<Longrightarrow> same_pruning cs cs'"
    by (auto simp: recompute_virtual_state_def same_pruning_def Let_def split: option.splits if_splits)
  show "record_selected_chain_fee_samples E cs = Some cs' \<Longrightarrow> same_pruning cs cs'"
    by (auto simp: record_selected_chain_fee_samples_def same_pruning_def Let_def split: option.splits if_splits)
  show "same_pruning cs (drop_included_from_mempools E b cs)" by (simp add: drop_included_from_mempools_def same_pruning_def)
  show "refresh_difficulty lab cs = Some cs' \<Longrightarrow> same_pruning cs cs'" by (auto simp: refresh_difficulty_def same_pruning_def)
  show "archival cs \<Longrightarrow> prune_history E (prune_bodies cs) = Some cs' \<Longrightarrow> same_pruning cs cs'"
    by (auto simp: prune_history_def prune_bodies_def same_pruning_def split: if_splits)
qed

lemma commit_keeps_pruned:
  assumes "commit_block E lab b d cs = Some cs'" and "archival cs"
  shows "pruned_selected_blocks cs' = pruned_selected_blocks cs"
proof -
  obtain cs1 cs2 cs3 cs4 cs5 cs6 where c: "insert_block E b d cs = Some cs1" "order_main_chain cs1 = Some cs2"
    "advance_finalized_base E (capture_base cs2) = Some cs3" "recompute_virtual_state E cs3 = Some cs4"
    "record_selected_chain_fee_samples E cs4 = Some cs5" "refresh_difficulty lab (drop_included_from_mempools E b cs5) = Some cs6"
    "prune_history E (prune_bodies cs6) = Some cs'"
    using assms(1) by (auto simp: commit_block_def bind_eq_Some_conv)
  note f = pruning_frames(1) [OF c(1)] pruning_frames(2) [OF c(2)] pruning_frames(3) [of cs2] pruning_frames(4) [OF c(3)] pruning_frames(5) [OF c(4)]
    pruning_frames(6) [OF c(5)] pruning_frames(7) [of cs5 E b] pruning_frames(8) [OF c(6)]
  have "archival cs6" using f assms(2) by (simp add: same_pruning_def)
  from pruning_frames(9) [OF this c(7)] f show ?thesis by (simp add: same_pruning_def)
qed

lemma indexes_grow:
  assumes ix: "indexes E s m db" and known: "\<forall>h\<in>set m. hhas (dag s) h \<and> hget (dag s') h = hget (dag s) h \<and> hget (ghostdag s') h = hget (ghostdag s) h"
  shows "indexes E s' m db"
proof -
  have "hidx (dag s') (m ! i) = hidx (dag s) (m ! i)" "hget (ghostdag s') (m ! i) = hget (ghostdag s) (m ! i)" if "i < length m" for i
    using known that by (auto simp: hidx_def)
  moreover from this have "record_at E s' i (m ! i) = record_at E s i (m ! i)" if "i < length m" for i
    using that by (simp add: record_at_def block_record_of_def score_or_zero_def)
  ultimately show ?thesis using ix by (auto simp: indexes_def)
qed

subsection \<open>The index file\<close>

lemma le_nat_le_bytes: "n < 256 ^ k \<Longrightarrow> le_nat (le_bytes k n) = n"
proof (induction k arbitrary: n)
  case (Suc k)
  have "le_bytes (Suc k) n = word_of_nat n # le_bytes k (n div 256)"
    by (simp add: le_bytes_def upt_conv_Cons map_Suc_upt [symmetric] div_mult2_eq comp_def del: upt_Suc)
  moreover have "n div 256 < 256 ^ k" using Suc.prems by (simp add: less_mult_imp_div_less mult.commute)
  ultimately show ?case using Suc.IH by (simp add: le_nat_def unat_of_nat)
qed (simp add: le_nat_def le_bytes_def)

lemma index_file_roundtrip:
  assumes "de (ser db) = Some db" and "length (ser db) + 84 < 2 ^ 64"
  shows "load_index E de (index_file E ser db) = Ok (seed_protocol_labels db)"
proof -
  have m: "length INDEXER_MAGIC = 8" by (simp add: INDEXER_MAGIC_def str_bytes_def)
  have f: "le_nat (le_bytes 4 INDEXER_FORMAT) = INDEXER_FORMAT" by (rule le_nat_le_bytes) (simp add: INDEXER_FORMAT_def)
  have l: "le_nat (le_bytes 8 (length (ser db))) = length (ser db)" by (rule le_nat_le_bytes) (use assms(2) in simp)
  have t: "length (index_tag E p) = 64" for p by (simp add: index_tag_def)
  show ?thesis using assms by (simp add: load_index_def index_file_def Let_def m f l t wadd64_def)
qed

subsection \<open>Runs\<close>

inductive explorer_run :: "env \<Rightarrow> bool \<Rightarrow> chain_state \<Rightarrow> indexer_db \<Rightarrow> bool" for E lab where
  start: "node_run E lab True cs \<Longrightarrow> explorer_run E lab cs indexer_new"
| block: "explorer_run E lab cs db \<Longrightarrow> length (dag cs) < 2 ^ 41 \<Longrightarrow> add_block E lab now pin b cs = Some (cs', r) \<Longrightarrow> explorer_run E lab cs' db"
| sync: "explorer_run E lab cs db \<Longrightarrow> explorer_run E lab cs (sync_from_state E now cs db)"
| restart: "explorer_run E lab cs db \<Longrightarrow> de (ser db) = Some db \<Longrightarrow> length (ser db) + 84 < 2 ^ 64
    \<Longrightarrow> explorer_run E lab cs (indexer_open E de (Some (index_file E ser db)))"
| lost: "explorer_run E lab cs db \<Longrightarrow> load_index E de bs = Err e \<Longrightarrow> explorer_run E lab cs (indexer_open E de (Some bs))"

definition index_inv :: "env \<Rightarrow> chain_state \<Rightarrow> indexer_db \<Rightarrow> bool" where
  "index_inv E cs db \<longleftrightarrow> chain_inv E cs \<and> pruned_selected_blocks cs = 0 \<and> (\<exists>m. known_chain cs m \<and> indexes E cs m db)"

lemma node_run_unpruned: "node_run E lab True cs \<Longrightarrow> pruned_selected_blocks cs = 0"
proof -
  assume "node_run E lab True cs"
  then obtain cs0 where c: "chain_new E lab = Some cs0" "node_steps E lab (cs0\<lparr>archival := True\<rparr>) cs" by (auto simp: node_run_def)
  from c(2) show ?thesis
  proof (induction rule: node_steps.induct)
    case refl
    then show ?case using c(1) by (auto simp: chain_new_def Let_def split: option.splits)
  next
    case (block cs1 now pin b cs2 res)
    have a: "archival cs1" using node_steps_inv [OF block.hyps(1) chain_inv_start [OF c(1)]] by (simp add: chain_inv_def)
    from block.hyps(3) show ?case
    proof (cases rule: add_block_cases)
      case (added d)
      then show ?thesis using commit_keeps_pruned [OF added(2) a] block.IH by simp
    qed (use block.IH in simp)
  qed
qed

lemma index_inv_block:
  assumes inv: "index_inv E cs db" and size: "length (dag cs) < 2 ^ 41" and add: "add_block E lab now pin b cs = Some (cs', r)"
  shows "index_inv E cs' db"
  using add
proof (cases rule: add_block_cases)
  case (added d)
  have ci: "chain_inv E cs" "pruned_selected_blocks cs = 0" "archival cs" "dag_ok E cs" using inv by (auto simp: index_inv_def chain_inv_def)
  obtain m where m: "known_chain cs m" "indexes E cs m db" using inv by (auto simp: index_inv_def)
  have "check_structure E cs b = Ok ()" using validate_block_Ok [OF added(1)] by blast
  then have nh: "\<not> hhas (dag cs) (block_hash E b)" unfolding check_structure_Ok by simp
  obtain cs1 where c: "commit_block E lab b d cs = Some cs1" "chain_inv E cs1" "dag cs1 = hput (block_hash E b) b (dag cs)"
    "ghostdag cs1 = hput (block_hash E b) d (ghostdag cs)" by (rule commit_block_ok [OF ci(1) added(1) size])
  then have cs': "cs' = cs1" using added(2) by simp
  have "\<forall>h\<in>set m. h \<noteq> block_hash E b" using known_chain_facts(2) [OF ci(1) m(1)] nh by auto
  then have "indexes E cs1 m db" using known_chain_facts(2) [OF ci(1) m(1)] by (intro indexes_grow [OF m(2)]) (auto simp: c(3,4))
  moreover have "known_chain cs1 m"
    using m(1) selected_chain_grow [OF dag_okD(3) [OF ci(4)]] dag_okD(3) [of E cs1] c(2) nh dag_okD(4) [OF ci(4)]
    by (auto simp: known_chain_def chain_inv_def c(4))
  ultimately show ?thesis using c(2) commit_keeps_pruned [OF added(2) ci(3)] ci(2) by (auto simp: index_inv_def cs')
qed (use inv in simp)

lemma main_chain_size:
  assumes "chain_inv E cs"
  shows "length (main_chain cs) \<le> 2 ^ 41"
proof -
  note mc = main_chain_ok [OF assms]
  have "length (main_chain cs) = card (set (main_chain cs))" using mc(1) by (simp add: distinct_card)
  also have "\<dots> \<le> card (set (hkeys (dag cs)))" by (rule card_mono) (use mc(2) in \<open>auto simp: hhas_iff\<close>)
  also have "\<dots> \<le> length (dag cs)" using card_length [of "hkeys (dag cs)"] by simp
  also have "\<dots> \<le> 2 ^ 41" using assms by (intro dag_run_size [OF dag_okD(1) [of E]]) (simp add: chain_inv_def)
  finally show ?thesis .
qed

lemma index_inv_sync:
  assumes inv: "index_inv E cs db" and hx: "hex_injective E"
  shows "indexes E cs (main_chain cs) (sync_from_state E now cs db)" "length (ix_series (sync_from_state E now cs db)) \<le> MAX_SERIES_POINTS"
    "length (ix_txs (sync_from_state E now cs db)) \<le> MAX_TX_RECORDS"
proof -
  have ci: "chain_inv E cs" "pruned_selected_blocks cs = 0" "dag_ok E cs" using inv by (auto simp: index_inv_def chain_inv_def)
  obtain m where m: "known_chain cs m" "indexes E cs m db" using inv by (auto simp: index_inv_def)
  note k = known_chain_facts [OF ci(1) m(1)] and mc = main_chain_ok [OF ci(1)]
  have size: "length (main_chain cs) < 2 ^ 64" using main_chain_size [OF ci(1)] by simp
  note s = sync_from_state_indexes [OF hx ci(2) size mc(2,1) k(1) m(2) k(3)]
  show "indexes E cs (main_chain cs) (sync_from_state E now cs db)" "length (ix_series (sync_from_state E now cs db)) \<le> MAX_SERIES_POINTS"
    "length (ix_txs (sync_from_state E now cs db)) \<le> MAX_TX_RECORDS" using s by blast+
qed

lemma main_chain_known: "chain_inv E cs \<Longrightarrow> known_chain cs (main_chain cs)"
  using selected_tip_Some(2) by (auto simp: known_chain_def chain_inv_def tip_ok_def)

lemma history_run_inv:
  assumes "explorer_run E lab cs db" and hx: "hex_injective E"
  shows "index_inv E cs db"
  using assms(1)
proof (induction rule: explorer_run.induct)
  case (start cs)
  then show ?case using node_run_inv node_run_unpruned indexes_new by (auto simp: index_inv_def known_chain_def)
next
  case (block cs db now pin b cs' r)
  then show ?case using index_inv_block by blast
next
  case (sync cs db now)
  note i = index_inv_sync(1) [OF sync.IH hx, of now]
  have ci: "chain_inv E cs" "pruned_selected_blocks cs = 0" using sync.IH by (auto simp: index_inv_def)
  from i main_chain_known [OF ci(1)] ci show ?case unfolding index_inv_def by blast
next
  case (restart cs db de ser)
  have "indexes E cs m (seed_protocol_labels db) = indexes E cs m db" for m by (rule indexes_frame) (simp_all add: seed_protocol_labels_def)
  then show ?case using restart index_file_roundtrip [of de ser db E] by (simp add: index_inv_def indexer_open_def)
next
  case (lost cs db de bs e)
  then show ?case using indexes_new by (auto simp: index_inv_def indexer_open_def known_chain_def)
qed

text \<open>
  C15. The explorer shows the selected chain. Whatever blocks an archival node takes in, reorganizations included, and however the index
  was synchronized, saved, loaded or lost before, after \<open>sync_from_state\<close> it holds exactly the blocks of the selected chain, each at
  its height, with its record, and found by its hash; every indexed transfer is one of the block at its height; the tip is the
  chain's; and the tables are within their caps.
\<close>
theorem index_follows_chain:
  assumes run: "explorer_run E lab cs db0" and hx: "hex_injective E" and db: "db = sync_from_state E now cs db0"
  shows "(\<forall>i. hget (ix_blocks db) i = (if i < length (main_chain cs)
          then Some (block_record_of E cs i (main_chain cs ! i) (hidx (dag cs) (main_chain cs ! i))) else None))
    \<and> (\<forall>k i. hget (ix_by_hash db) k = Some i \<longleftrightarrow> i < length (main_chain cs) \<and> k = hash_hex E (main_chain cs ! i))
    \<and> (\<forall>k t. hget (ix_txs db) k = Some t \<longrightarrow> k = tr_hash t \<and> tr_height t < length (main_chain cs)
          \<and> (\<exists>tx\<in>set (transparent_txs (hidx (dag cs) (main_chain cs ! tr_height t))). tr_hash t = hash_hex E (transparent_tx_hash E tx)
               \<and> tr_block_hash t = hash_hex E (main_chain cs ! tr_height t) \<and> tr_from t = t_from tx \<and> tr_to t = t_to tx))
    \<and> ix_tip_height db + 1 = length (main_chain cs) \<and> ix_tip_hash db = Some (hash_hex E (last (main_chain cs)))
    \<and> length (ix_series db) \<le> 4096 \<and> length (ix_txs db) \<le> 50000 \<and> (\<forall>a ids. hget (ix_address_txs db) a = Some ids \<longrightarrow> length ids \<le> 2048)"
proof -
  note inv = history_run_inv [OF run hx]
  note i = index_inv_sync [OF inv hx, of now, folded db]
  have ci: "chain_inv E cs" "pruned_selected_blocks cs = 0" "dag_ok E cs" using inv by (auto simp: index_inv_def chain_inv_def)
  note mc = main_chain_ok [OF ci(1)]
  have tip: "ix_tip_height db + 1 = length (main_chain cs)" "ix_tip_hash db = Some (hash_hex E (last (main_chain cs)))"
    using mc(3) ci(2) main_chain_size [OF ci(1)] by (simp_all add: db sync_from_state_def Let_def tip_height_def sat_add64_def)
  have tx: "k = tr_hash t \<and> tr_height t < length (main_chain cs)
      \<and> (\<exists>tx\<in>set (transparent_txs (hidx (dag cs) (main_chain cs ! tr_height t))). tr_hash t = hash_hex E (transparent_tx_hash E tx)
           \<and> tr_block_hash t = hash_hex E (main_chain cs ! tr_height t) \<and> tr_from t = t_from tx \<and> tr_to t = t_to tx)"
    if t: "hget (ix_txs db) k = Some t" for k t
  proof -
    obtain tx where x: "k = tr_hash t" "tr_height t < length (main_chain cs)" "tx \<in> set (transparent_txs (hidx (dag cs) (main_chain cs ! tr_height t)))"
      "t = tx_record_of E (tr_height t) (main_chain cs ! tr_height t) (hidx (dag cs) (main_chain cs ! tr_height t)) tx"
      using i(1) t unfolding indexes_def by blast
    have "tr_hash t = hash_hex E (transparent_tx_hash E tx)" "tr_block_hash t = hash_hex E (main_chain cs ! tr_height t)" "tr_from t = t_from tx" "tr_to t = t_to tx"
      by (subst x(4), simp add: tx_record_of_def)+
    then show ?thesis using x(1-3) by blast
  qed
  show ?thesis
    using i tip tx unfolding indexes_def record_at_def MAX_SERIES_POINTS_def MAX_TX_RECORDS_def MAX_ADDR_TXS_def by blast
qed

definition demo_hex_env :: env where
  "demo_hex_env = demo_env\<lparr>hex_encode := map (\<lambda>b. char_of (unat b))\<rparr>"

lemma demo_hex_injective: "hex_injective demo_hex_env"
proof -
  have "inj (\<lambda>b :: 8 word. char_of (unat b) :: char)"
  proof (rule injI)
    fix a b :: "8 word" assume "(char_of (unat a) :: char) = char_of (unat b)"
    then have "unat a mod 256 = unat b mod 256" using of_char_of [of "unat a"] of_char_of [of "unat b"] by simp
    then show "a = b" using unsigned_less [of a, where ?'a = nat] unsigned_less [of b, where ?'a = nat] by (simp add: unsigned_word_eqI)
  qed
  then show ?thesis by (simp add: hex_injective_def demo_hex_env_def inj_map_eq_map)
qed

theorem index_follows_chain_witness:
  "\<exists>cs db. node_run demo_hex_env True True cs \<and> db = sync_from_state demo_hex_env 9 cs indexer_new \<and> main_chain cs = [7]
    \<and> hget (ix_by_hash db) (hash_hex demo_hex_env 7) = Some 0 \<and> hget (ix_blocks db) 1 = None"
proof -
  obtain cs0 where c: "chain_new demo_hex_env True = Some cs0" by (rule chain_new_genesis)
  define cs where "cs = cs0\<lparr>archival := True\<rparr>"
  have r: "node_run demo_hex_env True True cs" unfolding node_run_def cs_def using c node_steps.refl by blast
  have "block_hash demo_hex_env genesis_block = 7" by (simp add: block_hash_def digest512_def demo_hex_env_def demo_env_def)
  then have m: "main_chain cs = [7]" using c by (auto simp: cs_def chain_new_def Let_def split: option.splits)
  from index_follows_chain [OF explorer_run.start [OF r] demo_hex_injective HOL.refl, of 9] show ?thesis
    using r m by (intro exI [of _ cs] exI [of _ "sync_from_state demo_hex_env 9 cs indexer_new"]) simp
qed

end
