(* ===== verification/Node_Role.thy ===== *)
theory Node_Role
  imports Net_Policy_Correct
begin

text \<open>
  How a node is started: the command line and the roles of \<open>src/node_role.rs\<close>, their effect on the process environment, and the policy
  read from it. The environment is a function from names to values; \<open>Inl n\<close> is a process that exits with code \<open>n\<close>. The banner and
  the help text are left out.
\<close>

datatype node_role = Archive | Validator | Light

definition node_role_str :: "node_role \<Rightarrow> string" where
  "node_role_str r = (case r of Archive \<Rightarrow> ''archive'' | Validator \<Rightarrow> ''validator'' | Light \<Rightarrow> ''light'')"

record node_profile =
  np_role :: node_role
  np_archival :: bool
  np_enable_indexer :: bool
  np_enable_mining :: bool
  np_tor_only :: bool
  np_public_lock :: bool
  np_p2p_listen :: "string option"
  np_peers :: "string list"
  np_data_dir :: "string option"
  np_api_bind :: "string option"

type_synonym env_vars = "string \<Rightarrow> string option"

definition is_loopback_bind :: "string \<Rightarrow> bool" where
  "is_loopback_bind addr \<longleftrightarrow> takeWhile (\<lambda>c. c \<noteq> CHR '':'') addr \<in> {''127.0.0.1'', ''localhost'', ''::1''}"

definition role_env_flag :: "env_vars \<Rightarrow> string \<Rightarrow> bool" where
  "role_env_flag vars name \<longleftrightarrow> vars name \<in> {Some ''1'', Some ''true'', Some ''TRUE'', Some ''yes'', Some ''YES''}"

section \<open>The command line\<close>

record cli_opts =
  cl_clearnet :: bool
  cl_public_lock :: bool
  cl_p2p_listen :: "string option"
  cl_peers :: "string list"
  cl_data_dir :: "string option"
  cl_api_bind :: "string option"
  cl_enable_mining :: bool

definition parse_role :: "string list \<Rightarrow> nat + (node_role \<times> string list)" where
  \<comment> \<open>the role and the arguments after it\<close>
  "parse_role args =
     (case args of
        [] \<Rightarrow> Inr (Validator, [])
      | a # rest \<Rightarrow>
          if a \<in> {''archive'', ''full''} then Inr (Archive, rest)
          else if a \<in> {''validator'', ''prune'', ''pruned''} then Inr (Validator, rest)
          else if a \<in> {''light'', ''lite'', ''miner''} then Inr (Light, rest)
          else if take 1 a = ''-'' then Inr (Validator, args)
          else Inl 2)"

function parse_opts :: "string list \<Rightarrow> cli_opts \<Rightarrow> nat + cli_opts" where
  "parse_opts [] o' = Inr o'"
| "parse_opts (a # rest) o' =
     (if a = ''--public'' then parse_opts rest (o'\<lparr>cl_public_lock := True, cl_clearnet := True\<rparr>)
      else if a = ''--clearnet'' then parse_opts rest (o'\<lparr>cl_clearnet := True\<rparr>)
      else if a = ''--no-mine'' then parse_opts rest (o'\<lparr>cl_enable_mining := False\<rparr>)
      else if a \<in> {''--listen'', ''--peer'', ''--data-dir'', ''--api-bind''} then
        (case rest of
           [] \<Rightarrow> Inl 2
         | v # rest' \<Rightarrow> parse_opts rest'
             (if a = ''--listen'' then o'\<lparr>cl_p2p_listen := Some v\<rparr>
              else if a = ''--peer'' then o'\<lparr>cl_peers := cl_peers o' @ [v]\<rparr>
              else if a = ''--data-dir'' then o'\<lparr>cl_data_dir := Some v\<rparr>
              else o'\<lparr>cl_api_bind := Some v\<rparr>))
      else Inl 2)"
  by pat_completeness auto
termination by (relation "measure (length \<circ> fst)") auto

definition split_any :: "string \<Rightarrow> string \<Rightarrow> string list" where
  \<comment> \<open>\<open>s.split([a, b, ...])\<close>\<close>
  "split_any cs s = foldr (\<lambda>x acc. if x \<in> set cs then [] # acc else (x # hd acc) # tl acc) s [[]]"

definition add_peer :: "string \<Rightarrow> string list \<Rightarrow> string list" where
  "add_peer p ps = (if p \<in> set ps then ps else ps @ [p])"

definition env_peers :: "env_vars \<Rightarrow> string list \<Rightarrow> string list" where
  "env_peers vars ps =
     (let ps1 = (case vars ''HASSAN_P2P_PEER'' of None \<Rightarrow> ps | Some one \<Rightarrow> if trim one = [] then ps else add_peer one ps)
      in case vars ''HASSAN_P2P_PEERS'' of
           None \<Rightarrow> ps1
         | Some many \<Rightarrow> fold (\<lambda>p acc. if trim p = [] then acc else add_peer (trim p) acc) (split_any '',; '' many) ps1)"

definition parse_args :: "env_vars \<Rightarrow> string list \<Rightarrow> nat + node_profile" where
  "parse_args vars argv =
     (let args = tl argv
      in if list_ex (\<lambda>a. a \<in> {''-h'', ''--help'', ''help''}) args then Inl 0
         else case parse_role args of
           Inl n \<Rightarrow> Inl n
         | Inr (role, rest) \<Rightarrow>
             (case parse_opts rest \<lparr>cl_clearnet = False, cl_public_lock = False, cl_p2p_listen = None, cl_peers = [], cl_data_dir = None,
                      cl_api_bind = None, cl_enable_mining = True\<rparr> of
                Inl n \<Rightarrow> Inl n
              | Inr o' \<Rightarrow>
                  let pub = role_env_flag vars ''HASSAN_PUBLIC''
                  in Inr \<lparr>np_role = role, np_archival = (role = Archive), np_enable_indexer = (role \<noteq> Light),
                       np_enable_mining = cl_enable_mining o', np_tor_only = (\<not> (cl_clearnet o' \<or> pub)),
                       np_public_lock = (cl_public_lock o' \<or> pub), np_p2p_listen = cl_p2p_listen o',
                       np_peers = env_peers vars (cl_peers o'), np_data_dir = cl_data_dir o', np_api_bind = cl_api_bind o'\<rparr>))"

section \<open>The environment of the process\<close>

definition set_default :: "string \<Rightarrow> string \<Rightarrow> env_vars \<Rightarrow> env_vars" where
  "set_default name v vars = (if vars name = None then vars(name \<mapsto> v) else vars)"

definition join_comma :: "string list \<Rightarrow> string" where
  "join_comma xs = (case xs of [] \<Rightarrow> [] | y # ys \<Rightarrow> foldl (\<lambda>a b. a @ '','' @ b) y ys)"

definition basic_env :: "node_profile \<Rightarrow> env_vars \<Rightarrow> env_vars" where
  \<comment> \<open>data directory, API address and archival switch\<close>
  "basic_env p vars =
     (let v1 = (case np_data_dir p of Some d \<Rightarrow> vars(''HASSAN_DATA_DIR'' \<mapsto> d) | None \<Rightarrow> vars);
          v2 = (case np_api_bind p of Some b \<Rightarrow> v1(''HASSAN_API_BIND'' \<mapsto> b) | None \<Rightarrow> set_default ''HASSAN_API_BIND'' ''127.0.0.1:8080'' v1)
      in if np_archival p then v2(''HASSAN_ARCHIVAL'' \<mapsto> ''1'') else set_default ''HASSAN_ARCHIVAL'' ''0'' v2)"

definition tor_env :: "node_profile \<Rightarrow> env_vars \<Rightarrow> env_vars" where
  "tor_env p vars =
     (if np_tor_only p then
        let v1 = set_default ''HASSAN_TOR'' ''1'' vars
        in if v1 ''HASSAN_PEER_PINS'' \<noteq> None then set_default ''HASSAN_PEER_PINS_STRICT'' ''1'' v1 else v1
      else vars)"

definition listen_env :: "node_profile \<Rightarrow> env_vars \<Rightarrow> nat + env_vars" where
  "listen_env p vars =
     (case np_p2p_listen p of
        Some l \<Rightarrow> if np_tor_only p \<and> \<not> is_loopback_bind l then Inl 1 else Inr (vars(''HASSAN_P2P_LISTEN'' \<mapsto> l))
      | None \<Rightarrow>
          if np_tor_only p then
            (case vars ''HASSAN_P2P_LISTEN'' of
               Some l \<Rightarrow> Inr (if is_loopback_bind l then vars else vars(''HASSAN_P2P_LISTEN'' := None))
             | None \<Rightarrow> Inr vars)
          else Inr vars)"

definition public_env :: "node_profile \<Rightarrow> env_vars \<Rightarrow> env_vars" where
  "public_env p vars = (if np_public_lock p then vars(''HASSAN_PUBLIC'' \<mapsto> ''1'', ''HASSAN_STRICT_DIALS'' \<mapsto> ''1'') else vars)"

definition peers_env :: "node_profile \<Rightarrow> env_vars \<Rightarrow> env_vars" where
  "peers_env p vars = (if np_peers p \<noteq> [] then set_default ''HASSAN_P2P_PEERS'' (join_comma (np_peers p)) vars else vars)"

definition apply_env :: "node_profile \<Rightarrow> env_vars \<Rightarrow> nat + env_vars" where
  "apply_env p vars =
     (let v = public_env p (basic_env p vars)
      in if np_public_lock p \<and> np_p2p_listen p = None \<and> v ''HASSAN_P2P_LISTEN'' = None then Inl 1
         else listen_env p (peers_env p (tor_env p v)))"

definition launch :: "string list \<Rightarrow> env_vars \<Rightarrow> string \<Rightarrow> nat + (node_profile \<times> env_vars \<times> net_policy)" where
  \<comment> \<open>the first steps of \<open>main\<close>; \<open>tok\<close> is the random token a node without one makes up\<close>
  "launch argv vars tok =
     (case parse_args vars argv of
        Inl n \<Rightarrow> Inl n
      | Inr p \<Rightarrow>
          (case apply_env p vars of
             Inl n \<Rightarrow> Inl n
           | Inr vars' \<Rightarrow> (case from_env vars' tok of None \<Rightarrow> Inl 1 | Some pol \<Rightarrow> Inr (p, vars', pol))))"

section \<open>Correctness\<close>

lemma env_frames:
  "n \<notin> {''HASSAN_DATA_DIR'', ''HASSAN_API_BIND'', ''HASSAN_ARCHIVAL''} \<Longrightarrow> basic_env p vars n = vars n"
  "n \<notin> {''HASSAN_PUBLIC'', ''HASSAN_STRICT_DIALS''} \<Longrightarrow> public_env p vars n = vars n"
  "n \<notin> {''HASSAN_TOR'', ''HASSAN_PEER_PINS_STRICT''} \<Longrightarrow> tor_env p vars n = vars n"
  "n \<noteq> ''HASSAN_P2P_PEERS'' \<Longrightarrow> peers_env p vars n = vars n"
  "listen_env p vars = Inr vars' \<Longrightarrow> n \<noteq> ''HASSAN_P2P_LISTEN'' \<Longrightarrow> vars' n = vars n"
proof -
  show "n \<notin> {''HASSAN_DATA_DIR'', ''HASSAN_API_BIND'', ''HASSAN_ARCHIVAL''} \<Longrightarrow> basic_env p vars n = vars n"
    unfolding basic_env_def set_default_def Let_def by (cases "np_data_dir p"; cases "np_api_bind p") (simp_all only: option.case fun_upd_apply if_split insert_iff, auto)
  show "n \<notin> {''HASSAN_PUBLIC'', ''HASSAN_STRICT_DIALS''} \<Longrightarrow> public_env p vars n = vars n"
    unfolding public_env_def by (simp only: fun_upd_apply if_split insert_iff, auto)
  show "n \<notin> {''HASSAN_TOR'', ''HASSAN_PEER_PINS_STRICT''} \<Longrightarrow> tor_env p vars n = vars n"
    unfolding tor_env_def set_default_def Let_def by (simp only: fun_upd_apply if_split insert_iff, auto)
  show "n \<noteq> ''HASSAN_P2P_PEERS'' \<Longrightarrow> peers_env p vars n = vars n"
    by (simp add: peers_env_def set_default_def)
  show "listen_env p vars = Inr vars' \<Longrightarrow> n \<noteq> ''HASSAN_P2P_LISTEN'' \<Longrightarrow> vars' n = vars n"
    unfolding listen_env_def by (auto simp only: fun_upd_apply split: option.splits if_splits)
qed

lemma listen_env_result:
  assumes "listen_env p v = Inr vars'"
  shows "np_tor_only p \<Longrightarrow> vars' ''HASSAN_P2P_LISTEN'' = Some l \<Longrightarrow> is_loopback_bind l"
    "\<not> np_tor_only p \<Longrightarrow> np_p2p_listen p \<noteq> None \<or> v ''HASSAN_P2P_LISTEN'' \<noteq> None \<Longrightarrow> vars' ''HASSAN_P2P_LISTEN'' \<noteq> None"
  using assms unfolding listen_env_def by (auto split: option.splits if_splits)

lemma apply_env_result:
  assumes a: "apply_env p vars = Inr vars'"
  shows "vars' ''HASSAN_PUBLIC'' = public_env p vars ''HASSAN_PUBLIC''" (is ?public)
    and "np_public_lock p \<Longrightarrow> \<not> np_tor_only p \<Longrightarrow> vars' ''HASSAN_P2P_LISTEN'' \<noteq> None"
    and "np_tor_only p \<Longrightarrow> vars' ''HASSAN_P2P_LISTEN'' = Some l \<Longrightarrow> is_loopback_bind l"
    and "vars' ''HASSAN_TOR'' = tor_env p vars ''HASSAN_TOR''" (is ?tor)
    and "vars' ''HASSAN_PEER_PINS_STRICT'' = tor_env p vars ''HASSAN_PEER_PINS_STRICT''" (is ?pins)
    and "vars' ''HASSAN_API_BIND'' = basic_env p vars ''HASSAN_API_BIND''" (is ?bind)
proof -
  let ?v = "public_env p (basic_env p vars)"
  have l: "listen_env p (peers_env p (tor_env p ?v)) = Inr vars'" and
    need: "np_public_lock p \<Longrightarrow> np_p2p_listen p \<noteq> None \<or> ?v ''HASSAN_P2P_LISTEN'' \<noteq> None"
    using a by (simp_all add: apply_env_def Let_def split: if_splits)
  note fr = env_frames(5) [OF l] env_frames(4) [of _ p]
  have pub: "public_env p w ''HASSAN_PUBLIC'' = (if np_public_lock p then Some ''1'' else w ''HASSAN_PUBLIC'')" for w by (simp add: public_env_def)
  show ?public using fr env_frames(1) [of "''HASSAN_PUBLIC''"] env_frames(3) [of "''HASSAN_PUBLIC''"] by (simp add: pub)
  have tor: "tor_env p w ''HASSAN_TOR'' = (if np_tor_only p \<and> w ''HASSAN_TOR'' = None then Some ''1'' else w ''HASSAN_TOR'')" for w
    by (simp add: tor_env_def set_default_def Let_def)
  show ?tor using fr env_frames(1) [of "''HASSAN_TOR''"] env_frames(2) [of "''HASSAN_TOR''"] by (simp add: tor)
  have pins: "tor_env p w ''HASSAN_PEER_PINS_STRICT'' = (if np_tor_only p \<and> w ''HASSAN_PEER_PINS'' \<noteq> None \<and> w ''HASSAN_PEER_PINS_STRICT'' = None
      then Some ''1'' else w ''HASSAN_PEER_PINS_STRICT'')" for w
    by (simp add: tor_env_def set_default_def Let_def)
  show ?pins using fr env_frames(1) [of "''HASSAN_PEER_PINS_STRICT''"] env_frames(2) [of "''HASSAN_PEER_PINS_STRICT''"]
      env_frames(1) [of "''HASSAN_PEER_PINS''"] env_frames(2) [of "''HASSAN_PEER_PINS''"] by (simp add: pins)
  show ?bind using fr env_frames(2) [of "''HASSAN_API_BIND''"] env_frames(3) [of "''HASSAN_API_BIND''"] by simp
  show "np_tor_only p \<Longrightarrow> vars' ''HASSAN_P2P_LISTEN'' = Some l \<Longrightarrow> is_loopback_bind l" by (rule listen_env_result(1) [OF l])
  show "vars' ''HASSAN_P2P_LISTEN'' \<noteq> None" if "np_public_lock p" "\<not> np_tor_only p"
    using listen_env_result(2) [OF l that(2)] need [OF that(1)] fr(2) env_frames(3) [of "''HASSAN_P2P_LISTEN''"] by simp
qed

lemma parse_opts_public:
  "parse_opts args o' = Inr r \<Longrightarrow> (cl_public_lock o' \<longrightarrow> cl_clearnet o') \<Longrightarrow> cl_public_lock r \<longrightarrow> cl_clearnet r"
proof (induction args o' rule: parse_opts.induct)
  case (2 a rest o')
  note IH = "2.IH" and r = "2.prems"(1) [unfolded parse_opts.simps] and o = "2.prems"(2)
  show ?case
  proof (cases "a = ''--public'' \<or> a = ''--clearnet'' \<or> a = ''--no-mine''")
    case True
    then show ?thesis
    proof (elim disjE)
      assume a: "a = ''--public''"
      show ?thesis by (rule IH(1) [OF a]) (use r a in simp_all)
    next
      assume a: "a = ''--clearnet''"
      show ?thesis by (rule IH(2) [OF _ a]) (use r a in simp_all)
    next
      assume a: "a = ''--no-mine''"
      show ?thesis by (rule IH(3) [OF _ _ a]) (use r a o in simp_all)
    qed
  next
    case False
    then have n: "a \<noteq> ''--public''" "a \<noteq> ''--clearnet''" "a \<noteq> ''--no-mine''" by simp_all
    note r' = r [unfolded if_not_P [OF n(1)] if_not_P [OF n(2)] if_not_P [OF n(3)]]
    show ?thesis
    proof (cases "a \<in> {''--listen'', ''--peer'', ''--data-dir'', ''--api-bind''}")
      case True
      note r'' = r' [unfolded if_P [OF True]]
      then obtain v rest' where v: "rest = v # rest'" by (cases rest) auto
      show ?thesis by (rule IH(4) [OF n True v]) (use r'' v o in simp_all)
    next
      case False
      then show ?thesis using r' unfolding if_not_P [OF False] by simp
    qed
  qed
qed simp

text \<open>
  What a started node runs with. Under the public lock it has the clearnet, a listening address, the public policy with a token for writes and
  strict dial checks. A Tor-only node listens on a loopback address or not at all, uses Tor unless the operator says otherwise, and checks
  peer pins strictly where there are pins. Without an address for the API it is the loopback one.
\<close>
theorem launch_locked:
  assumes l: "launch argv vars tok = Inr (p, vars', pol)"
  shows "np_public_lock p \<Longrightarrow> \<not> np_tor_only p \<and> public_mode pol \<and> writes_require_token pol \<and> strict_dials pol \<and> vars' ''HASSAN_P2P_LISTEN'' \<noteq> None"
    and "np_tor_only p \<Longrightarrow> (\<forall>a. vars' ''HASSAN_P2P_LISTEN'' = Some a \<longrightarrow> is_loopback_bind a)
      \<and> (vars ''HASSAN_TOR'' = None \<longrightarrow> vars' ''HASSAN_TOR'' = Some ''1'')
      \<and> (vars ''HASSAN_PEER_PINS'' \<noteq> None \<longrightarrow> vars ''HASSAN_PEER_PINS_STRICT'' = None \<longrightarrow> vars' ''HASSAN_PEER_PINS_STRICT'' = Some ''1'')"
    and "np_api_bind p = None \<Longrightarrow> vars ''HASSAN_API_BIND'' = None \<Longrightarrow> vars' ''HASSAN_API_BIND'' = Some ''127.0.0.1:8080''"
proof -
  have a: "parse_args vars argv = Inr p" "apply_env p vars = Inr vars'" "from_env vars' tok = Some pol"
    using l by (auto simp: launch_def split: sum.splits option.splits)
  obtain role rest o' where o: "parse_opts rest \<lparr>cl_clearnet = False, cl_public_lock = False, cl_p2p_listen = None, cl_peers = [], cl_data_dir = None,
                      cl_api_bind = None, cl_enable_mining = True\<rparr> = Inr o'"
    "np_tor_only p = (\<not> (cl_clearnet o' \<or> role_env_flag vars ''HASSAN_PUBLIC''))" "np_public_lock p = (cl_public_lock o' \<or> role_env_flag vars ''HASSAN_PUBLIC'')"
    using a(1) by (auto simp: parse_args_def Let_def split: if_splits sum.splits)
  have ct: "\<not> np_tor_only p" if "np_public_lock p" using parse_opts_public [OF o(1)] o(2,3) that by auto
  note r = apply_env_result [OF a(2)]
  show "\<not> np_tor_only p \<and> public_mode pol \<and> writes_require_token pol \<and> strict_dials pol \<and> vars' ''HASSAN_P2P_LISTEN'' \<noteq> None" if p: "np_public_lock p"
  proof -
    have "env_flag vars' ''HASSAN_PUBLIC''" using r(1) p by (simp add: public_env_def env_flag_def)
    then have m: "public_mode pol" using a(3) by (auto simp: from_env_def Let_def split: if_splits)
    then show ?thesis using public_node_locked [OF a(3)] r(2) [OF p ct [OF p]] ct [OF p] by blast
  qed
  show "(\<forall>a. vars' ''HASSAN_P2P_LISTEN'' = Some a \<longrightarrow> is_loopback_bind a)
      \<and> (vars ''HASSAN_TOR'' = None \<longrightarrow> vars' ''HASSAN_TOR'' = Some ''1'')
      \<and> (vars ''HASSAN_PEER_PINS'' \<noteq> None \<longrightarrow> vars ''HASSAN_PEER_PINS_STRICT'' = None \<longrightarrow> vars' ''HASSAN_PEER_PINS_STRICT'' = Some ''1'')" if p: "np_tor_only p"
    using r(3) [OF p] r(4,5) p by (simp add: tor_env_def set_default_def Let_def)
  show "np_api_bind p = None \<Longrightarrow> vars ''HASSAN_API_BIND'' = None \<Longrightarrow> vars' ''HASSAN_API_BIND'' = Some ''127.0.0.1:8080''"
    using r(6) by (simp add: basic_env_def set_default_def Let_def split: option.split)
qed

section \<open>Gaps between the roles and the rest\<close>

text \<open>A Tor-only node whose environment says otherwise is not one.\<close>

lemma tor_only_without_tor:
  "apply_env p vars = Inr vars' \<Longrightarrow> np_tor_only p \<Longrightarrow> vars ''HASSAN_TOR'' = Some ''0'' \<Longrightarrow> vars' ''HASSAN_TOR'' = Some ''0''"
  using apply_env_result(4) [of p vars vars'] by (simp add: tor_env_def set_default_def Let_def)

text \<open>The two readers of \<open>HASSAN_PUBLIC\<close> disagree on how it is written.\<close>

lemma public_flag_mismatch:
  "vars name = Some ''True'' \<Longrightarrow> env_flag vars name \<and> \<not> role_env_flag vars name"
  "vars name = Some ''yes'' \<Longrightarrow> \<not> env_flag vars name \<and> role_env_flag vars name"
proof -
  have "map to_ascii_lower ''True'' = ''true''" "map to_ascii_lower ''yes'' = ''yes''" by code_simp+
  then show "vars name = Some ''True'' \<Longrightarrow> env_flag vars name \<and> \<not> role_env_flag vars name"
    "vars name = Some ''yes'' \<Longrightarrow> \<not> env_flag vars name \<and> role_env_flag vars name"
    by (simp_all only: env_flag_def role_env_flag_def option.case) simp_all
qed

text \<open>The IPv6 loopback address is never recognized, in whichever way it is written.\<close>

lemma ipv6_loopback_refused: "\<not> is_loopback_bind ''::1'' \<and> \<not> is_loopback_bind ''[::1]:9333''"
  by (simp add: is_loopback_bind_def)

end
