(* ===== verification/Spec2Isabelle.thy ===== *)
theory Spec2Isabelle
  imports Reachability_Correct Ghostdag_Correct Difficulty_Correct Address_Correct Spend_Predicate_Correct
    Registry_Correct Ledger_Correct Node_Correct Escrow_Correct Addrman_Correct
    Mempool_Correct Account_Pool_Correct Versionbits_Correct Mining_Correct
    Superproof_Correct Cold_Start
    Net_Policy_Correct Wire P2p_Run
    Stratum_Correct Indexer_Correct Node_Role
begin

text \<open>
  \<^bold>\<open>A verification of the Hassan node.\<close>

  Hassan is a proof-of-work node whose blocks form a directed acyclic graph. This library models the node's own
  logic and proves what makes it correct. Source names below are relative to \<open>src/src/\<close> of the repository, but
  for \<open>src/tuep-escrow/src/lib.rs\<close>, the escrow law.

  \<^bold>\<open>The program.\<close> A block arrives from a peer, from the miner or from the API and goes through
  \<open>ChainState::add_block\<close> (\<open>lib.rs\<close>). Its header and body are checked; the reachability index
  (\<open>reachability.rs\<close>) takes it in; GHOSTDAG (\<open>ghostdag.rs\<close>) colours it and gives it a blue score;
  its state root is compared with the ledger its past gives; tips, finality, the live ledger and the mempools
  follow. A ledger is the UTXO set (\<open>utxo.rs\<close>, \<open>utxo_tx.rs\<close>), the accounts, the titles and
  their escrows (\<open>registry.rs\<close>) and the issuance counters (\<open>issuance.rs\<close>, \<open>genesis.rs\<close>);
  outputs are locked by spend predicates (\<open>predicate.rs\<close>), addresses are bech32m (\<open>address.rs\<close>).
  The node saves its state, restarts from it, and joins the network from a pruning proof
  (\<open>superproof.rs\<close>) and a ledger served by a peer. Two further state machines stand beside it: the escrow
  law (\<open>tuep-escrow\<close>) with its vaults (\<open>bdpe.rs\<close>) and the peer address manager (\<open>addrman.rs\<close>).

  \<^bold>\<open>Conventions.\<close> A struct is a record, an enum a datatype, one definition models one function of the source, and
  keeps its name unless HOL has it already. Unsigned integers are naturals, with the wrapping, saturating and
  checked operations of the release build (which has no overflow checks) written out where the source has them
  (theory \<open>Prelude\<close>); bytes and bit operations use machine words. Hash maps are association lists. A
  \<open>Result\<close> is a sum with the error left. A loop that the source does not bound is a
  \<open>partial_function\<close> in option, so the outer \<open>None\<close> means the loop does not end; theorems
  that an operation returns say so explicitly. Code that is not in the repository is a parameter: \<open>env\<close>
  holds the digests, the signature checks and the STARK check; other arguments are the clock (\<open>now\<close>),
  the laboratory switch (\<open>lab\<close>), signing and proving, the serializer of state files, the outcome of each file
  operation, and the parser of IP addresses. A theorem that relies on a law of such a
  parameter has the law as a hypothesis, and its witness instantiates the parameter.

  \<^bold>\<open>Theories, in the order of the code.\<close>

  \<^item> \<open>Prelude\<close>, \<open>Types\<close>, \<open>Crypto\<close>: shared vocabulary, the data of the node, digests and
    signature checks (\<open>abs_sig.rs\<close> and the hashing of \<open>lib.rs\<close>).
  \<^item> \<open>Dag\<close>, \<open>Reachability\<close>, \<open>Reach_Forest\<close>, \<open>Reach_Index\<close>,
    \<open>Reachability_Correct\<close>: \<open>reachability.rs\<close>. The interval labels are an invariant of every
    insertion, leaf removal, pruning and relabelling, and a query answers what a search over parent edges answers.
    The index holds at most \<open>2 ^ 41\<close> blocks before its 64-bit labels would run out, and the theorems that insert carry
    that bound.
  \<^item> \<open>Ghostdag\<close>, \<open>Ghostdag_Correct\<close>: \<open>ghostdag.rs\<close>. Blue sets are k-clusters, scores count blue
    blocks. Proved over the locale \<open>ancestor_query\<close>, interpreted on the index and on the search.
  \<^item> \<open>Difficulty\<close>, \<open>Difficulty_Correct\<close>: issuance, proof of work and difficulty (\<open>genesis.rs\<close>,
    \<open>lib.rs\<close>). Closed-form issuance is the sum of the subsidies; the difficulty moves by a quarter at most.
  \<^item> \<open>Address\<close>, \<open>Spend_Predicate\<close> and their \<open>_Correct\<close> theories: round trip of addresses; a predicate
    unlocks exactly for those it authorizes.
  \<^item> \<open>Utxo\<close>, \<open>Registry\<close>, \<open>Block_Identity\<close>, \<open>Ledger\<close> and their \<open>_Correct\<close> theories: conservation
    of value, no double spend, authorization, title provenance, the escrow life cycle as an inductive relation that
    the operations refine, and no inflation. The contract of one operation under conflict skipping is the locale
    \<open>value_bounded\<close>, interpreted on the four kinds of body operation.
  \<^item> \<open>Chain\<close>, \<open>Admission\<close>, \<open>Order_Correct\<close>, \<open>Chain_Correct\<close>, \<open>Node_Correct\<close>: the chain state and
    \<open>add_block\<close>. The canonical order, finality, the live ledger as the replay of history, state roots, totality of
    admission. An archival node is one that keeps all bodies; the theorems on history are about such nodes, those on
    solvency about pruning nodes too.
  \<^item> \<open>Mempool\<close>, \<open>Account_Pool\<close>, \<open>Versionbits\<close>, \<open>Mining\<close>, \<open>Mining_Roots\<close> and their
    \<open>_Correct\<close> theories: queues and fee estimates, deployments (\<open>versionbits.rs\<close>), and block production
    (\<open>consensus.rs\<close>): a block mined on the node's own template is accepted by the node.
  \<^item> \<open>Superproof\<close>, \<open>Superproof_Correct\<close>: pruning proofs, what an accepted proof establishes and that
    the builder ends.
  \<^item> \<open>Snapshot\<close>, \<open>Snapshot_Correct\<close>, \<open>Cold_Start\<close>: the state file and its backup, the rebuild
    after a load, imported headers and the ledger of a pruning point. The disk is a record of the files the save
    touches; every file operation may fail and the machine may stop between any two. The number of imported headers is
    bounded by \<open>2 ^ 20\<close>, above the million headers (\<open>MAX_PRUNING_PROOF_HEADERS\<close>) the source allows in a proof.
  \<^item> \<open>Wire\<close>: frames and chunks of the encrypted transport (\<open>p2p.rs\<close>). Written messages are read back in
    order, over a pair of functions that keep the promise of the Noise package; no stream yields an oversized message.
  \<^item> \<open>Net_Policy\<close>, \<open>Net_Policy_Correct\<close>: the operator's policy (\<open>net_policy.rs\<close>), the rate limiter and
    input checks (\<open>security.rs\<close>), peer pins (\<open>peer_pin.rs\<close>) and the pin of \<open>assume_valid.rs\<close>. The
    three limiters share the locale \<open>window_counter\<close>, interpreted on each; a public node demands a token for writes.
  \<^item> \<open>Node_Role\<close>: the command line and roles of \<open>node_role.rs\<close> and the first steps of \<open>main.rs\<close>: what a public or a Tor-only
    node starts with.
  \<^item> \<open>P2p\<close>, \<open>P2p_Node\<close>: the shared state of \<open>p2p.rs\<close> as the record \<open>shared\<close>, messages and their size caps,
    requests and orphans, the handler of every message (\<open>dispatch\<close>), the life of a connection (\<open>open_conn\<close>,
    \<open>conn_turn\<close>, \<open>close_conn\<close>) and one turn of each background loop. What is sent goes to an outbox. The record
    \<open>net_ctx\<close> holds the surroundings: policy, pins, clocks, sizes of serialized messages, which dials succeed.
  \<^item> \<open>P2p_Correct\<close>, \<open>P2p_Chain\<close>, \<open>P2p_Run\<close>: the relation \<open>p2p_run\<close> interleaves turns of any connections with
    the background loops and local work; in all of its states the tables are bounded, and before a pruning proof is adopted the
    chain state is one that admission alone produces. Ingesting a block with all the orphans it frees returns. One turn of a
    connection is one step, which the locks of the source do not promise: a turn of the source may interleave with
    another between two locks.
  \<^item> \<open>Stratum\<close>, \<open>Stratum_Correct\<close>: the pool endpoint (\<open>stratum.rs\<close>). The relation \<open>stratum_run\<close> carries the list of
    all shares ever recorded; each is authorized, checked and new. Fewer than \<open>2 ^ 64 - 1\<close> jobs are made, the range of the job
    counter. The submit window of a worker is a fourth instance of \<open>window_counter\<close>.
  \<^item> \<open>Indexer\<close>, \<open>Indexer_Correct\<close>: the explorer index (\<open>indexer.rs\<close>). \<open>indexes\<close> says that the index holds a
    given chain; \<open>sync_from_state\<close> establishes it for the node's selected chain, from whatever chain it held before.
  \<^item> \<open>Escrow\<close>, \<open>Escrow_Correct\<close>: the escrow law and its vaults.
  \<^item> \<open>Addrman\<close>, \<open>Addrman_Correct\<close>: the address tables.

  \<^bold>\<open>Reading a theorem.\<close> \<open>node_run\<close>, \<open>node_hist\<close> and the like are the states reachable by the model's own
  operations from the genesis state; invariants are proved by induction over them and the properties quantify
  over every such state. Bounds such as the number of blocks below \<open>2 ^ 41\<close> stand in the statements.

  \<^bold>\<open>Not modelled.\<close>

  \<^item> The Noise and ML-KEM handshake, key files, socket timeouts and the scheduling of threads in \<open>p2p.rs\<close>;
    \<open>tor.rs\<close>: a client of an external proxy.
  \<^item> \<open>api.rs\<close>: JSON over HTTP, no state of its own; of \<open>indexer.rs\<close> the status page and the floating-point throughput estimate.
  \<^item> \<open>main.rs\<close> after its first steps: start-up of tasks and the HTTP server.
  \<^item> \<open>economics.rs\<close> and the assurance modules: reports and drivers for testing over the node's data.
  \<^item> The STARK circuit and prover (\<open>stark.rs\<close>): only the framing of a proof is checked here, the proof
    system is an external package and enters as a parameter.
  \<^item> Key generation and signing, hashing: external packages, parameters. The threads and pacing of
    mining and the floating-point payouts of the pool.
\<close>

end
